(* ===== verification/Prelude.thy ===== *)
theory Prelude
  imports Complex_Main "HOL-Library.Multiset" "HOL-Library.List_Lexorder" "HOL-Library.Char_ord"
begin

text \<open>
  Shared vocabulary of the development: results that may carry an error, the two containers of
  the C++ standard library that the engine relies on (\<open>std::map\<close> walked in key order and
  \<open>std::stable_sort\<close>) and generic list facts. The containers are stated as locales, so that a
  component proves its lemmas from the laws and not from the representation.
\<close>

named_theorems result_simps "rewrite rules for results"

section \<open>Results\<close>

text \<open>
  A function of the engine that may throw returns \<open>'e + 'a\<close>: \<open>Inl\<close> is the exception in flight,
  \<open>Inr\<close> the value returned. Sequencing stops at the first exception.
\<close>

definition res_bind :: "'e + 'a \<Rightarrow> ('a \<Rightarrow> 'e + 'b) \<Rightarrow> 'e + 'b" where
  "res_bind r f = (case r of Inl e \<Rightarrow> Inl e | Inr a \<Rightarrow> f a)"

definition throw_if :: "bool \<Rightarrow> 'e \<Rightarrow> 'e + unit" where
  "throw_if c e = (if c then Inl e else Inr ())"

fun res_map_list :: "('a \<Rightarrow> 'e + 'b) \<Rightarrow> 'a list \<Rightarrow> 'e + 'b list" where
  "res_map_list f [] = Inr []"
| "res_map_list f (x # xs) =
     res_bind (f x) (\<lambda>y. res_bind (res_map_list f xs) (\<lambda>ys. Inr (y # ys)))"

fun res_fold :: "('a \<Rightarrow> 's \<Rightarrow> 'e + 's) \<Rightarrow> 'a list \<Rightarrow> 's \<Rightarrow> 'e + 's" where
  "res_fold f [] s = Inr s"
| "res_fold f (x # xs) s = res_bind (f x s) (res_fold f xs)"

lemma map_sum_Inr_obtain: "map_sum f g x = Inr b \<Longrightarrow> \<exists>a. x = Inr a \<and> g a = b"
  by (cases x) auto

text \<open>A sequence of checks, each of which may throw; the first that fails ends it.\<close>

fun check_all :: "('e + unit) list \<Rightarrow> 'e + unit" where
  "check_all [] = Inr ()"
| "check_all (c # cs) = res_bind c (\<lambda>_. check_all cs)"

lemma res_bind_simps [simp]:
  "res_bind (Inl e) f = Inl e"
  "res_bind (Inr a) f = f a"
  by (simp_all add: res_bind_def)

lemma res_bind_eq_Inr [result_simps]:
  "res_bind r f = Inr b \<longleftrightarrow> (\<exists>a. r = Inr a \<and> f a = Inr b)"
  by (cases r) auto

lemma res_bind_eq_Inl [result_simps]:
  "res_bind r f = Inl e \<longleftrightarrow> r = Inl e \<or> (\<exists>a. r = Inr a \<and> f a = Inl e)"
  by (cases r) auto

lemma throw_if_eq [result_simps]:
  "throw_if c e = Inr u \<longleftrightarrow> \<not> c"
  "throw_if c e = Inl e' \<longleftrightarrow> c \<and> e' = e"
  by (auto simp: throw_if_def)

lemma throw_if_simps [simp]:
  "throw_if True e = Inl e"
  "throw_if False e = Inr ()"
  by (simp_all add: throw_if_def)

lemma check_all_eq_Inr [result_simps]: "check_all cs = Inr u \<longleftrightarrow> (\<forall>c \<in> set cs. c = Inr ())"
  by (induction cs) (auto simp: result_simps)

declare check_all.simps [simp del]

lemma check_all_append: "check_all (cs @ ds) = res_bind (check_all cs) (\<lambda>_. check_all ds)"
proof (induction cs)
  case (Cons c cs)
  then show ?case by (cases c) (simp_all add: check_all.simps)
qed (simp add: check_all.simps)

lemma check_all_error: "check_all cs = Inl e \<Longrightarrow> Inl e \<in> set cs"
  by (induction cs) (auto simp: result_simps check_all.simps)

lemma res_map_list_Inr:
  "res_map_list f xs = Inr ys \<Longrightarrow> list_all2 (\<lambda>x y. f x = Inr y) xs ys"
  by (induction xs arbitrary: ys) (auto simp: result_simps)

lemma res_fold_append:
  "res_fold f (xs @ ys) s = res_bind (res_fold f xs s) (res_fold f ys)"
proof (induction xs arbitrary: s)
  case (Cons x xs)
  then show ?case by (cases "f x s") simp_all
qed simp

lemma res_fold_invariant:
  assumes "res_fold f xs s = Inr t" and "I s"
    and "\<And>x s t. x \<in> set xs \<Longrightarrow> I s \<Longrightarrow> f x s = Inr t \<Longrightarrow> I t"
  shows "I t"
  using assms
proof (induction xs arbitrary: s)
  case (Cons x xs)
  then obtain u where "f x s = Inr u" and "res_fold f xs u = Inr t"
    by (auto simp: result_simps)
  with Cons show ?case by (metis list.set_intros)
qed simp

section \<open>Stable sorting\<close>

text \<open>
  \<open>std::stable_sort\<close> with a comparator \<open>lt\<close> (\<open>lt a b\<close>: \<open>a\<close> goes before \<open>b\<close>). For a strict weak
  order the result is unique, so insertion sort computes it; outside a strict weak order the C++
  call has no defined result.
\<close>

fun insert_before :: "('a \<Rightarrow> 'a \<Rightarrow> bool) \<Rightarrow> 'a \<Rightarrow> 'a list \<Rightarrow> 'a list" where
  "insert_before lt x [] = [x]"
| "insert_before lt x (y # ys) =
     (if lt y x then y # insert_before lt x ys else x # y # ys)"

fun stable_sort :: "('a \<Rightarrow> 'a \<Rightarrow> bool) \<Rightarrow> 'a list \<Rightarrow> 'a list" where
  "stable_sort lt [] = []"
| "stable_sort lt (x # xs) = insert_before lt x (stable_sort lt xs)"

lemma mset_insert_before [simp]: "mset (insert_before lt x xs) = add_mset x (mset xs)"
  by (induction xs) auto

lemma mset_stable_sort [simp]: "mset (stable_sort lt xs) = mset xs"
  by (induction xs) auto

lemma set_stable_sort [simp]: "set (stable_sort lt xs) = set xs"
  using mset_stable_sort [of lt xs] by (metis set_mset_mset)

lemma length_stable_sort [simp]: "length (stable_sort lt xs) = length xs"
  using mset_stable_sort [of lt xs] by (metis size_mset)

lemma stable_sort_eq_Nil [simp]: "stable_sort lt xs = [] \<longleftrightarrow> xs = []"
  using length_stable_sort [of lt xs] by (metis length_0_conv)

lemma distinct_map_stable_sort [simp]:
  "distinct (map f (stable_sort lt xs)) \<longleftrightarrow> distinct (map f xs)"
proof -
  have "mset (map f (stable_sort lt xs)) = mset (map f xs)" by (simp del: mset_map add: mset_map)
  then show ?thesis by (metis mset_eq_imp_distinct_iff)
qed

text \<open>
  The contract a comparator has to meet on the elements that are really sorted: it is
  asymmetric, and \<open>\<not> lt b a\<close> (\<open>a\<close> need not go after \<open>b\<close>) is transitive.
\<close>

locale weak_order_on =
  fixes lt :: "'a \<Rightarrow> 'a \<Rightarrow> bool"
    and ok :: "'a \<Rightarrow> bool"
  assumes lt_asym: "ok x \<Longrightarrow> ok y \<Longrightarrow> lt x y \<Longrightarrow> \<not> lt y x"
    and not_lt_trans: "ok x \<Longrightarrow> ok y \<Longrightarrow> ok z \<Longrightarrow> \<not> lt y x \<Longrightarrow> \<not> lt z y \<Longrightarrow> \<not> lt z x"
begin

lemma insert_before_sorted:
  "\<forall>y \<in> set ys. ok y \<Longrightarrow> ok x \<Longrightarrow> sorted_wrt (\<lambda>a b. \<not> lt b a) ys \<Longrightarrow>
   sorted_wrt (\<lambda>a b. \<not> lt b a) (insert_before lt x ys)"
proof (induction ys)
  case (Cons y ys)
  have set_ins: "set (insert_before lt x ys) = insert x (set ys)"
    using mset_insert_before [of lt x ys] by (metis set_mset_add_mset_insert set_mset_mset)
  show ?case
  proof (cases "lt y x")
    case True
    with Cons show ?thesis by (auto simp: set_ins dest: lt_asym)
  next
    case False
    with Cons.prems have "\<not> lt z x" if "z \<in> set ys" for z
      using that not_lt_trans [of x y z] by auto
    with False Cons.prems show ?thesis by auto
  qed
qed simp

lemma stable_sort_sorted:
  "\<forall>x \<in> set xs. ok x \<Longrightarrow> sorted_wrt (\<lambda>a b. \<not> lt b a) (stable_sort lt xs)"
  by (induction xs) (auto intro: insert_before_sorted)

lemma stable_sort_hd_first:
  assumes "\<forall>x \<in> set xs. ok x" and "stable_sort lt xs = y # ys" and "x \<in> set xs"
  shows "\<not> lt x y"
proof -
  have "sorted_wrt (\<lambda>a b. \<not> lt b a) (y # ys)"
    using stable_sort_sorted [OF assms(1)] assms(2) by simp
  moreover have "x \<in> set (y # ys)" using assms(2,3) set_stable_sort [of lt xs] by simp
  moreover have "ok y" using assms(1,2) set_stable_sort [of lt xs] by (metis list.set_intros(1))
  ultimately show ?thesis using lt_asym [of y y] by auto
qed

end

section \<open>Maps walked in key order\<close>

text \<open>
  \<open>std::map\<close>: \<open>alter k f m\<close> is \<open>auto& v = m[k]\<close> followed by an assignment to \<open>v\<close> (\<open>f None\<close> is the
  value stored when the key was absent), \<open>entries\<close> is the iteration order of the range-for.
\<close>

locale ordered_map =
  fixes empty :: 'm
    and alter :: "'k::linorder \<Rightarrow> ('v option \<Rightarrow> 'v) \<Rightarrow> 'm \<Rightarrow> 'm"
    and lookup :: "'m \<Rightarrow> 'k \<Rightarrow> 'v option"
    and entries :: "'m \<Rightarrow> ('k \<times> 'v) list"
    and invar :: "'m \<Rightarrow> bool"
  assumes invar_empty: "invar empty"
    and lookup_empty: "lookup empty k = None"
    and invar_alter: "invar m \<Longrightarrow> invar (alter k f m)"
    and lookup_alter: "invar m \<Longrightarrow>
      lookup (alter k f m) j = (if j = k then Some (f (lookup m k)) else lookup m j)"
    and entries_sorted: "invar m \<Longrightarrow> sorted_wrt (<) (map fst (entries m))"
    and entries_lookup: "invar m \<Longrightarrow> (k, v) \<in> set (entries m) \<longleftrightarrow> lookup m k = Some v"
begin

lemma fold_alter_invar:
  "invar m \<Longrightarrow> invar (fold (\<lambda>x. alter (key x) (g x)) xs m)"
  by (induction xs arbitrary: m) (auto intro: invar_alter)

text \<open>A fold of updates leaves at each key the updates made at that key, in order.\<close>

lemma lookup_fold_alter:
  "invar m \<Longrightarrow> lookup (fold (\<lambda>x. alter (key x) (g x)) xs m) k =
    fold (\<lambda>x v. Some (g x v)) (filter (\<lambda>x. key x = k) xs) (lookup m k)"
  by (induction xs arbitrary: m) (auto simp: invar_alter lookup_alter)

lemma fold_alter_keys:
  "invar m \<Longrightarrow> lookup (fold (\<lambda>x. alter (key x) (g x)) xs m) k \<noteq> None \<longleftrightarrow>
    k \<in> key ` set xs \<or> lookup m k \<noteq> None"
  by (induction xs arbitrary: m) (auto simp: invar_alter lookup_alter)

text \<open>A predicate on the bindings that every update respects holds of every binding.\<close>

lemma fold_alter_bindings:
  assumes "invar m" and "\<And>k v. lookup m k = Some v \<Longrightarrow> P k v"
    and "\<And>x. x \<in> set xs \<Longrightarrow> P (key x) (g x None)"
    and "\<And>x v. x \<in> set xs \<Longrightarrow> P (key x) v \<Longrightarrow> P (key x) (g x (Some v))"
    and "lookup (fold (\<lambda>x. alter (key x) (g x)) xs m) k = Some v"
  shows "P k v"
  using assms
proof (induction xs arbitrary: m)
  case (Cons x xs)
  show ?case
  proof (rule Cons.IH [of "alter (key x) (g x) m"])
    show "invar (alter (key x) (g x) m)" by (rule invar_alter [OF Cons.prems(1)])
    show "P k v" if "lookup (alter (key x) (g x) m) k = Some v" for k v
      using that Cons.prems(2-4) by (cases "lookup m (key x)") (auto simp: lookup_alter Cons.prems(1) split: if_splits)
  qed (use Cons.prems in auto)
qed auto

lemma entries_keys_distinct: "invar m \<Longrightarrow> distinct (map fst (entries m))"
  using entries_sorted strict_sorted_iff by auto

lemma entries_empty_iff: "invar m \<Longrightarrow> entries m = [] \<longleftrightarrow> (\<forall>k. lookup m k = None)"
proof
  assume "invar m" and "entries m = []"
  then show "\<forall>k. lookup m k = None"
    using entries_lookup [of m] by (metis empty_iff list.set(1) not_None_eq)
next
  assume "invar m" and "\<forall>k. lookup m k = None"
  then have "p \<notin> set (entries m)" for p
    using entries_lookup [of m "fst p" "snd p"] by simp
  then show "entries m = []" by (cases "entries m") auto
qed

end

text \<open>The model of \<open>std::map\<close>: an association list kept in increasing key order.\<close>

fun omap_alter :: "'k::linorder \<Rightarrow> ('v option \<Rightarrow> 'v) \<Rightarrow> ('k \<times> 'v) list \<Rightarrow> ('k \<times> 'v) list" where
  "omap_alter k f [] = [(k, f None)]"
| "omap_alter k f ((j, v) # m) =
     (if k < j then (k, f None) # (j, v) # m
      else if k = j then (j, f (Some v)) # m
      else (j, v) # omap_alter k f m)"

definition omap_invar :: "('k::linorder \<times> 'v) list \<Rightarrow> bool" where
  "omap_invar m \<longleftrightarrow> sorted_wrt (<) (map fst m)"

lemma fst_set_omap_alter: "fst ` set (omap_alter k f m) = insert k (fst ` set m)"
  by (induction k f m rule: omap_alter.induct) auto

lemma omap_invar_alter: "omap_invar m \<Longrightarrow> omap_invar (omap_alter k f m)"
proof (induction k f m rule: omap_alter.induct)
  case (2 k f j v m)
  have "x \<in> insert k (fst ` set m)" if "x \<in> fst ` set (omap_alter k f m)" for x
    using that fst_set_omap_alter by metis
  with 2 show ?case by (force simp: omap_invar_def)
qed (simp add: omap_invar_def)

lemma map_of_omap_alter:
  "omap_invar m \<Longrightarrow>
   map_of (omap_alter k f m) j = (if j = k then Some (f (map_of m k)) else map_of m j)"
proof (induction k f m rule: omap_alter.induct)
  case (2 k f i v m)
  have "map_of m k = None" if "k < i"
    using that 2 by (force simp: omap_invar_def map_of_eq_None_iff)
  with 2 show ?case by (auto simp: omap_invar_def)
qed simp

lemma omap_distinct: "omap_invar m \<Longrightarrow> distinct (map fst m)"
  by (simp add: omap_invar_def strict_sorted_iff)

interpretation om: ordered_map "[]" omap_alter map_of "\<lambda>m. m" omap_invar
proof unfold_locales
  show "omap_invar []" by (simp add: omap_invar_def)
  show "omap_invar m \<Longrightarrow> (k, v) \<in> set m \<longleftrightarrow> map_of m k = Some v" for m :: "('a \<times> 'b) list" and k v
    using omap_distinct map_of_SomeD by (fastforce intro: map_of_is_SomeI)
qed (simp_all add: omap_invar_alter map_of_omap_alter, simp_all add: omap_invar_def)

section \<open>Lists\<close>

lemma fold_skip: "fold (\<lambda>x s. if P x then f x s else s) xs s = fold f (filter P xs) s"
  by (induction xs arbitrary: s) auto

lemma take_filter_set: "x \<in> set (take n (filter P xs)) \<Longrightarrow> x \<in> set xs \<and> P x"
  by (auto dest: in_set_takeD)

lemma sorted_wrt_take [intro]: "sorted_wrt R xs \<Longrightarrow> sorted_wrt R (take n xs)"
  by (metis append_take_drop_id sorted_wrt_append)

lemma list_all2_length: "list_all2 P xs ys \<Longrightarrow> length xs = length ys"
  by (rule list_all2_lengthD)

end
