(* ===== verification/Binary_Float.thy ===== *)
theory Binary_Float
  imports Prelude "HOL-Library.Log_Nat"
begin

text \<open>
  The \<open>float\<close> and \<open>double\<close> of the engine. A value is a NaN, an infinity or a finite number; the
  operations are computed exactly over the rationals and rounded to nearest, ties to even, with
  gradual underflow and overflow to infinity, in the format (precision, least exponent, greatest
  exponent) of the type: \<open>binary32\<close> for \<open>float\<close>, \<open>binary64\<close> for \<open>double\<close>. The two zeros are one
  value here: no modelled code divides by a zero or reads a sign bit.
\<close>

section \<open>Formats and rounding\<close>

record float_format =
  precision :: nat      \<comment> \<open>bits of the significand\<close>
  min_exp :: int        \<comment> \<open>exponent of the last place of a subnormal\<close>
  max_exp :: int        \<comment> \<open>exponent of the last place of the largest finite number\<close>

definition binary32 :: float_format where
  "binary32 = \<lparr>precision = 24, min_exp = -149, max_exp = 104\<rparr>"

definition binary64 :: float_format where
  "binary64 = \<lparr>precision = 53, min_exp = -1074, max_exp = 971\<rparr>"

definition pow2 :: "int \<Rightarrow> rat" where
  "pow2 e = (if 0 \<le> e then 2 ^ nat e else 1 / 2 ^ nat (- e))"

definition round_half_even :: "rat \<Rightarrow> int" where
  "round_half_even x =
     (let f = \<lfloor>x\<rfloor>; d = x - of_int f
      in if d < 1/2 then f else if 1/2 < d then f + 1 else if even f then f else f + 1)"

text \<open>The exponent of the leading bit of a positive rational.\<close>

definition leading_exp :: "rat \<Rightarrow> int" where
  "leading_exp x =
     (let (n, d) = quotient_of x; k = bitlen n - bitlen d
      in if pow2 k * of_int d \<le> of_int n then k else k - 1)"

definition last_place_exp :: "float_format \<Rightarrow> rat \<Rightarrow> int" where
  "last_place_exp F x = max (min_exp F) (leading_exp \<bar>x\<bar> - (int (precision F) - 1))"

definition round_rat :: "float_format \<Rightarrow> rat \<Rightarrow> rat" where
  "round_rat F x =
     (if x = 0 then 0
      else of_int (round_half_even (x / pow2 (last_place_exp F x))) * pow2 (last_place_exp F x))"

definition largest :: "float_format \<Rightarrow> rat" where
  "largest F = (2 ^ precision F - 1) * pow2 (max_exp F)"

lemma pow2_pos [simp]: "0 < pow2 e"
  by (simp add: pow2_def)

lemma pow2_nonneg [simp]: "0 \<le> pow2 e" and pow2_neq_0 [simp]: "pow2 e \<noteq> 0"
  using pow2_pos [of e] by linarith+

lemma pow2_powi: "pow2 e = 2 powi e"
  by (simp add: pow2_def power_int_def inverse_eq_divide power_one_over)

lemma pow2_add: "pow2 (a + b) = pow2 a * pow2 b"
  by (simp add: pow2_powi power_int_add)

lemma pow2_diff: "pow2 (a - b) = pow2 a / pow2 b"
  by (simp add: pow2_powi power_int_diff)

lemma pow2_mono: "a \<le> b \<Longrightarrow> pow2 a \<le> pow2 b"
  by (simp add: pow2_powi power_int_increasing)

lemma pow2_strict_mono: "a < b \<Longrightarrow> pow2 a < pow2 b"
  by (simp add: pow2_powi power_int_strict_increasing)

lemma pow2_less_iff: "pow2 a < pow2 b \<longleftrightarrow> a < b"
  using pow2_mono pow2_strict_mono by (metis linorder_not_le)

lemma pow2_0 [simp]: "pow2 0 = 1" and pow2_1 [simp]: "pow2 1 = 2"
  by (simp_all add: pow2_def)

lemma pow2_of_nonneg: "0 \<le> e \<Longrightarrow> pow2 e = of_int (2 ^ nat e)"
  by (simp add: pow2_def)

subsection \<open>Rounding to an integer\<close>

lemma round_half_even_of_int [simp]: "round_half_even (of_int n) = n"
  by (simp add: round_half_even_def)

lemma round_half_even_bounds:
  "\<lfloor>x\<rfloor> \<le> round_half_even x" "round_half_even x \<le> \<lfloor>x\<rfloor> + 1"
  by (simp_all add: round_half_even_def Let_def)

lemma round_half_even_mono:
  assumes "x \<le> y"
  shows "round_half_even x \<le> round_half_even y"
proof (cases "\<lfloor>x\<rfloor> = \<lfloor>y\<rfloor>")
  case True
  with assms show ?thesis by (auto simp: round_half_even_def Let_def)
next
  case False
  with floor_mono [OF assms] have "\<lfloor>x\<rfloor> + 1 \<le> \<lfloor>y\<rfloor>" by simp
  with round_half_even_bounds [of x] round_half_even_bounds [of y] show ?thesis by linarith
qed

lemma round_half_even_minus: "round_half_even (- x) = - round_half_even x"
proof (cases "x = of_int \<lfloor>x\<rfloor>")
  case True
  then have "round_half_even x = \<lfloor>x\<rfloor>" and "round_half_even (- x) = - \<lfloor>x\<rfloor>"
    by (metis round_half_even_of_int, metis of_int_minus round_half_even_of_int)
  then show ?thesis by simp
next
  case False
  moreover have "of_int \<lfloor>x\<rfloor> \<le> x" and "x < of_int \<lfloor>x\<rfloor> + 1" by linarith+
  ultimately have "of_int \<lfloor>x\<rfloor> < x" and "x < of_int \<lfloor>x\<rfloor> + 1" by linarith+
  then have fl: "\<lfloor>- x\<rfloor> = - \<lfloor>x\<rfloor> - 1" by (simp add: floor_eq_iff)
  define f where "f = \<lfloor>x\<rfloor>"
  define d where "d = x - of_int f"
  have "- x - of_int (- f - 1) = 1 - d" by (simp add: d_def)
  with fl have "round_half_even (- x) = (if 1 - d < 1/2 then - f - 1 else if 1/2 < 1 - d then - f - 1 + 1
      else if even (- f - 1) then - f - 1 else - f - 1 + 1)"
    by (simp only: round_half_even_def Let_def f_def)
  moreover have "round_half_even x = (if d < 1/2 then f else if 1/2 < d then f + 1 else if even f then f else f + 1)"
    by (simp only: round_half_even_def Let_def f_def d_def)
  ultimately show ?thesis by (simp split: if_splits)
qed

subsection \<open>The leading exponent\<close>

lemma int_bitlen_bounds:
  assumes "0 < n"
  shows "pow2 (bitlen n - 1) \<le> of_int n" and "of_int n < pow2 (bitlen n)"
proof -
  have "0 \<le> bitlen n - 1" using assms by (simp add: bitlen_def compute_floorlog)
  then have "pow2 (bitlen n - 1) = of_int (2 ^ nat (bitlen n - 1))" and "pow2 (bitlen n) = of_int (2 ^ nat (bitlen n))"
    by (simp_all only: pow2_of_nonneg)
  then show "pow2 (bitlen n - 1) \<le> of_int n" and "of_int n < pow2 (bitlen n)"
    using bitlen_bounds [OF assms] by (simp_all only: of_int_le_iff of_int_less_iff)
qed

lemma leading_exp_bounds:
  assumes "0 < x"
  shows "pow2 (leading_exp x) \<le> x" and "x < pow2 (leading_exp x + 1)"
proof -
  obtain n d where nd: "quotient_of x = (n, d)" by force
  have d: "0 < d" using quotient_of_denom_pos [OF nd] .
  have x: "x = of_int n / of_int d" using quotient_of_div [OF nd] .
  with assms d have n: "0 < n" by (simp add: zero_less_divide_iff)
  define k where "k = bitlen n - bitlen d"
  note n_bnd = int_bitlen_bounds [OF n]
  note d_bnd = int_bitlen_bounds [OF d]
  have up: "x < pow2 (k + 1)"
  proof -
    have "of_int n < pow2 (k + 1) * pow2 (bitlen d - 1)"
      using n_bnd(2) by (simp add: k_def flip: pow2_add)
    also have "\<dots> \<le> pow2 (k + 1) * of_int d" using d_bnd(1) by simp
    finally show ?thesis using d by (simp add: x divide_less_eq)
  qed
  have low: "pow2 (k - 1) \<le> x"
  proof -
    have "pow2 (k - 1) * of_int d \<le> pow2 (k - 1) * pow2 (bitlen d)" using d_bnd(2) by simp
    also have "\<dots> \<le> of_int n" using n_bnd(1) by (simp add: k_def flip: pow2_add)
    finally show ?thesis using d by (simp add: x le_divide_eq)
  qed
  have le: "leading_exp x = (if pow2 k * of_int d \<le> of_int n then k else k - 1)"
    by (simp add: leading_exp_def nd k_def)
  show "pow2 (leading_exp x) \<le> x" unfolding le using low d by (simp add: x le_divide_eq)
  show "x < pow2 (leading_exp x + 1)" unfolding le using up d by (simp add: x divide_less_eq)
qed

lemma leading_exp_unique: "pow2 k \<le> x \<Longrightarrow> x < pow2 (k + 1) \<Longrightarrow> leading_exp x = k"
proof -
  assume a: "pow2 k \<le> x" "x < pow2 (k + 1)"
  then have "0 < x" using pow2_pos [of k] by linarith
  note b = leading_exp_bounds [OF this]
  from a b have "pow2 k < pow2 (leading_exp x + 1)" "pow2 (leading_exp x) < pow2 (k + 1)"
    by linarith+
  then show "leading_exp x = k" by (simp add: pow2_less_iff)
qed

lemma leading_exp_mono: "0 < x \<Longrightarrow> x \<le> y \<Longrightarrow> leading_exp x \<le> leading_exp y"
proof -
  assume a: "0 < x" "x \<le> y"
  with leading_exp_bounds [of x] leading_exp_bounds [of y]
  have "pow2 (leading_exp x) < pow2 (leading_exp y + 1)" by linarith
  then show ?thesis by (simp add: pow2_less_iff)
qed

lemma leading_exp_pow2 [simp]: "leading_exp (pow2 k) = k"
  by (rule leading_exp_unique) (simp_all add: pow2_strict_mono)

subsection \<open>Rounding to a format\<close>

lemma round_rat_0 [simp]: "round_rat F 0 = 0"
  by (simp add: round_rat_def)

lemma last_place_exp_minus [simp]: "last_place_exp F (- x) = last_place_exp F x"
  by (simp add: last_place_exp_def)

lemma round_rat_minus [simp]: "round_rat F (- x) = - round_rat F x"
  by (simp add: round_rat_def round_half_even_minus)

lemma round_rat_nonneg: "0 \<le> x \<Longrightarrow> 0 \<le> round_rat F x"
  using round_half_even_mono [of 0 "x / pow2 (last_place_exp F x)"] round_half_even_of_int [of 0]
  by (simp add: round_rat_def)

text \<open>A multiple of the last place bounds the rounded value as it bounds the value.\<close>

lemma round_rat_le_grid:
  assumes "0 < x" and "x \<le> pow2 b" and "last_place_exp F x \<le> b"
  shows "round_rat F x \<le> pow2 b"
proof -
  let ?e = "last_place_exp F x"
  have "x / pow2 ?e \<le> of_int (2 ^ nat (b - ?e))"
    using assms by (simp only: pow2_of_nonneg [symmetric] pow2_diff) (simp add: divide_right_mono pow2_diff)
  from round_half_even_mono [OF this] have "of_int (round_half_even (x / pow2 ?e)) \<le> pow2 (b - ?e)"
    using assms(3) by (simp add: pow2_of_nonneg del: of_int_power)
  then have "of_int (round_half_even (x / pow2 ?e)) * pow2 ?e \<le> pow2 (b - ?e) * pow2 ?e"
    by (rule mult_right_mono) simp
  then show ?thesis using assms(1) by (simp add: round_rat_def flip: pow2_add)
qed

lemma round_rat_ge_grid:
  assumes "pow2 b \<le> x" and "last_place_exp F x \<le> b"
  shows "pow2 b \<le> round_rat F x"
proof -
  let ?e = "last_place_exp F x"
  have "of_int (2 ^ nat (b - ?e)) \<le> x / pow2 ?e"
    using assms by (simp only: pow2_of_nonneg [symmetric] pow2_diff) (simp add: divide_right_mono pow2_diff)
  from round_half_even_mono [OF this] have "pow2 (b - ?e) \<le> of_int (round_half_even (x / pow2 ?e))"
    using assms(2) by (simp add: pow2_of_nonneg del: of_int_power)
  then have "pow2 (b - ?e) * pow2 ?e \<le> of_int (round_half_even (x / pow2 ?e)) * pow2 ?e"
    by (rule mult_right_mono) simp
  moreover have "0 < x" using assms(1) pow2_pos [of b] by linarith
  ultimately show ?thesis by (simp add: round_rat_def flip: pow2_add)
qed

lemma round_rat_mono_pos:
  assumes F: "1 \<le> precision F" and x: "0 < x" and xy: "x \<le> y"
  shows "round_rat F x \<le> round_rat F y"
proof -
  have y: "0 < y" using x xy by linarith
  have le: "leading_exp x \<le> leading_exp y" by (rule leading_exp_mono [OF x xy])
  show ?thesis
  proof (cases "last_place_exp F x = last_place_exp F y")
    case True
    then have "round_half_even (x / pow2 (last_place_exp F x)) \<le> round_half_even (y / pow2 (last_place_exp F x))"
      using xy by (intro round_half_even_mono divide_right_mono) simp_all
    with True x y show ?thesis by (simp add: round_rat_def mult_right_mono)
  next
    case False
    with le x y have lt: "leading_exp x < leading_exp y" and "min_exp F < last_place_exp F y"
      and ey: "last_place_exp F y = leading_exp y - (int (precision F) - 1)"
      and ex: "last_place_exp F x \<le> last_place_exp F y"
      by (auto simp: last_place_exp_def max_def split: if_splits)
    have "x \<le> pow2 (leading_exp y)"
      using leading_exp_bounds(2) [OF x] pow2_mono [of "leading_exp x + 1" "leading_exp y"] lt by linarith
    then have "round_rat F x \<le> pow2 (leading_exp y)"
      using x ex ey F by (intro round_rat_le_grid) simp_all
    also have "\<dots> \<le> round_rat F y"
      using leading_exp_bounds(1) [OF y] ey F by (intro round_rat_ge_grid) simp_all
    finally show ?thesis .
  qed
qed

text \<open>The abstract contract of a rounding that the arithmetic lemmas below rest on.\<close>

locale rounding =
  fixes r :: "rat \<Rightarrow> rat"
  assumes rnd_0: "r 0 = 0"
    and rnd_1: "r 1 = 1"
    and rnd_mono: "x \<le> y \<Longrightarrow> r x \<le> r y"
begin

lemma rnd_nonneg: "0 \<le> x \<Longrightarrow> 0 \<le> r x"
  using rnd_mono [of 0 x] by (simp add: rnd_0)

lemma rnd_nonpos: "x \<le> 0 \<Longrightarrow> r x \<le> 0"
  using rnd_mono [of x 0] by (simp add: rnd_0)

lemma rnd_le_1: "x \<le> 1 \<Longrightarrow> r x \<le> 1"
  using rnd_mono [of x 1] by (simp add: rnd_1)

lemma rnd_ge_1: "1 \<le> x \<Longrightarrow> 1 \<le> r x"
  using rnd_mono [of 1 x] by (simp add: rnd_1)

end

text \<open>A format in which one is a normal number and small sums do not overflow.\<close>

locale fp_format =
  fixes F :: float_format
  assumes prec_pos: "1 \<le> precision F"
    and min_exp_le: "min_exp F \<le> 1 - int (precision F)"
    and max_exp_ge: "0 \<le> max_exp F" "64 \<le> int (precision F) + max_exp F"
begin

lemma round_pow2:
  assumes "min_exp F \<le> k - (int (precision F) - 1)"
  shows "round_rat F (pow2 k) = pow2 k"
proof -
  have e: "last_place_exp F (pow2 k) \<le> k" using assms prec_pos by (simp add: last_place_exp_def)
  have "round_rat F (pow2 k) \<le> pow2 k" by (rule round_rat_le_grid) (simp_all add: e)
  moreover have "pow2 k \<le> round_rat F (pow2 k)" by (rule round_rat_ge_grid) (simp_all add: e)
  ultimately show ?thesis by simp
qed

lemma round_1: "round_rat F 1 = 1"
  using round_pow2 [of 0] min_exp_le by simp

lemma round_mono:
  assumes xy: "x \<le> y"
  shows "round_rat F x \<le> round_rat F y"
proof -
  consider "0 < x" | "x \<le> 0" "0 \<le> y" | "y < 0" by linarith
  then show ?thesis
  proof cases
    case 1
    then show ?thesis by (rule round_rat_mono_pos [OF prec_pos _ xy])
  next
    case 2
    then have "0 \<le> round_rat F (- x)" by (intro round_rat_nonneg) simp
    moreover from 2 have "0 \<le> round_rat F y" by (intro round_rat_nonneg) simp
    ultimately show ?thesis by simp
  next
    case 3
    then have "round_rat F (- y) \<le> round_rat F (- x)"
      using xy by (intro round_rat_mono_pos [OF prec_pos]) simp_all
    then show ?thesis by simp
  qed
qed

text \<open>The integers below \<open>2 ^ precision\<close> are exact.\<close>

lemma round_nat:
  assumes "n < 2 ^ precision F"
  shows "round_rat F (of_nat n) = of_nat n"
proof (cases "n = 0")
  case False
  define e where "e = last_place_exp F (of_nat n)"
  have "pow2 (leading_exp (of_nat n)) \<le> of_nat n" using leading_exp_bounds(1) [of "of_nat n"] False by simp
  also have "(of_nat n :: rat) < of_nat (2 ^ precision F)" using assms by (simp only: of_nat_less_iff)
  also have "\<dots> = pow2 (int (precision F))" by (simp add: pow2_def)
  finally have "leading_exp (of_nat n) < int (precision F)" by (simp add: pow2_less_iff)
  then have e: "e \<le> 0" using min_exp_le prec_pos by (simp add: e_def last_place_exp_def)
  define d :: rat where "d = 2 ^ nat (- e)"
  have d: "pow2 e = 1 / d" "d = of_int (2 ^ nat (- e))" "d \<noteq> 0"
    using e by (cases "e = 0"; simp add: pow2_def d_def)+
  have "(of_nat n :: rat) / pow2 e = of_nat n * d" by (simp add: d(1))
  also have "\<dots> = of_int (int n * 2 ^ nat (- e))" by (simp add: d(2))
  finally have "round_half_even (of_nat n / pow2 e) = int n * 2 ^ nat (- e)"
    by (simp only: round_half_even_of_int)
  then have "round_rat F (of_nat n) = of_int (int n * 2 ^ nat (- e)) * (1 / d)"
    using False by (simp only: round_rat_def e_def [symmetric] d(1) of_nat_eq_0_iff if_False)
  also have "\<dots> = of_nat n" using d(3) by (simp add: d(2))
  finally show ?thesis .
qed simp

text \<open>A multiple of its last place is not changed, so rounding is idempotent.\<close>

lemma round_grid:
  assumes "last_place_exp F (of_int n * pow2 e) \<le> e"
  shows "round_rat F (of_int n * pow2 e) = of_int n * pow2 e"
proof -
  define y :: rat where "y = of_int n * pow2 e"
  define l where "l = last_place_exp F y"
  have "y / pow2 l = of_int n * pow2 (e - l)" by (simp add: y_def pow2_diff)
  also have "\<dots> = of_int (n * 2 ^ nat (e - l))" using assms by (simp add: pow2_of_nonneg l_def y_def)
  finally have "of_int (round_half_even (y / pow2 l)) = y / pow2 l" by (simp only: round_half_even_of_int)
  then show ?thesis unfolding y_def [symmetric] by (simp add: round_rat_def l_def [symmetric])
qed

lemma round_round_pos:
  assumes "0 < x"
  shows "round_rat F (round_rat F x) = round_rat F x"
proof -
  define e where "e = last_place_exp F x"
  define y where "y = round_rat F x"
  have e: "leading_exp x + 1 \<le> e + int (precision F)" "min_exp F \<le> e"
    using assms by (simp_all add: e_def last_place_exp_def)
  have y: "y = of_int (round_half_even (x / pow2 e)) * pow2 e" using assms by (simp add: y_def e_def round_rat_def)
  have "x \<le> pow2 (e + int (precision F))"
    using leading_exp_bounds(2) [OF assms] pow2_mono [OF e(1)] by linarith
  then have le: "y \<le> pow2 (e + int (precision F))"
    unfolding y_def by (intro round_rat_le_grid assms) (simp_all add: e_def)
  have "0 \<le> y" unfolding y_def using assms by (intro round_rat_nonneg) simp
  then consider "y = 0" | "y = pow2 (e + int (precision F))" | "0 < y" "y < pow2 (e + int (precision F))" using le by linarith
  then show ?thesis
  proof cases
    case 2
    then show ?thesis using e(2) by (simp add: y_def [symmetric] round_pow2)
  next
    case 3
    with leading_exp_bounds(1) [of y] have "pow2 (leading_exp y) < pow2 (e + int (precision F))" by linarith
    then have "last_place_exp F y \<le> e" using e(2) 3(1) by (simp add: last_place_exp_def pow2_less_iff)
    then show ?thesis unfolding y_def [symmetric] using round_grid y by metis
  qed (simp add: y_def [symmetric])
qed

lemma round_round: "round_rat F (round_rat F x) = round_rat F x"
proof (cases "x < 0")
  case True
  with round_round_pos [of "- x"] show ?thesis by simp
next
  case False
  then show ?thesis using round_round_pos [of x] by (cases "x = 0") simp_all
qed

lemma largest_ge: "pow2 63 \<le> largest F"
proof -
  have half_le: "pow2 (int (precision F)) * (1/2) \<le> 2 ^ precision F - 1"
  proof (cases "precision F")
    case (Suc q)
    then have "pow2 (int (precision F)) = 2 * 2 ^ q" by (simp add: pow2_def nat_add_distrib)
    with Suc one_le_power [of "2::rat" q] show ?thesis by simp
  qed (use prec_pos in simp)
  have "pow2 63 * 1 \<le> (pow2 (int (precision F)) * (1/2)) * pow2 (max_exp F)"
    using max_exp_ge(2) pow2_mono [of 63 "int (precision F) + max_exp F - 1"]
    by (simp add: pow2_diff pow2_add)
  also have "\<dots> \<le> (2 ^ precision F - 1) * pow2 (max_exp F)"
    by (intro mult_right_mono half_le) simp
  finally show ?thesis by (simp add: largest_def)
qed

lemma round_le_pow63: "x \<le> pow2 63 \<Longrightarrow> round_rat F x \<le> largest F"
  using round_mono [of x "pow2 63"] round_pow2 [of 63] min_exp_le largest_ge by simp

end

sublocale fp_format \<subseteq> rounding "round_rat F"
  by unfold_locales (simp_all add: round_1 round_mono)

interpretation b32: fp_format binary32
  by unfold_locales (simp_all add: binary32_def)

interpretation b64: fp_format binary64
  by unfold_locales (simp_all add: binary64_def)

section \<open>Evaluation\<close>

text \<open>
  The code equations compute with integer numerators and denominators, so that an evaluation
  keeps every intermediate value as one fraction.
\<close>

definition int_round_half_even :: "int \<Rightarrow> int \<Rightarrow> int" where
  "int_round_half_even n d =
     (let f = n div d; r = 2 * (n mod d)
      in if r < d then f else if d < r then f + 1 else if even f then f else f + 1)"

lemma round_half_even_div: "0 < d \<Longrightarrow> round_half_even (of_int n / of_int d) = int_round_half_even n d"
proof -
  assume d: "0 < d"
  have f: "\<lfloor>of_int n / of_int d :: rat\<rfloor> = n div d" by (rule floor_divide_of_int_eq)
  have "of_int n = (of_int d * of_int (n div d) + of_int (n mod d) :: rat)"
    by (metis mult_div_mod_eq of_int_add of_int_mult)
  then have r: "(of_int n / of_int d :: rat) - of_int (n div d) = of_int (n mod d) / of_int d"
    using d by (simp add: field_simps)
  have "of_int (n mod d) / of_int d < (1/2 :: rat) \<longleftrightarrow> of_int (2 * (n mod d)) < (of_int d :: rat)"
    and "(1/2 :: rat) < of_int (n mod d) / of_int d \<longleftrightarrow> of_int d < (of_int (2 * (n mod d)) :: rat)"
    using d by (simp_all add: field_simps)
  then show ?thesis
    unfolding round_half_even_def int_round_half_even_def Let_def f r of_int_less_iff by simp
qed

definition int_leading_exp :: "int \<Rightarrow> int \<Rightarrow> int" where
  "int_leading_exp n d =
     (let k = bitlen n - bitlen d
      in if (if 0 \<le> k then 2 ^ nat k * d \<le> n else d \<le> n * 2 ^ nat (- k)) then k else k - 1)"

lemma leading_exp_code [code]: "leading_exp x = (let (n, d) = quotient_of x in int_leading_exp n d)"
proof -
  have "pow2 k * of_int d \<le> (of_int n :: rat) \<longleftrightarrow> (if 0 \<le> k then 2 ^ nat k * d \<le> n else d \<le> n * 2 ^ nat (- k))" for k n d
  proof (cases "0 \<le> k")
    case True
    then have "pow2 k * of_int d = (of_int (2 ^ nat k * d) :: rat)" by (simp add: pow2_def)
    with True show ?thesis by (simp only: of_int_le_iff if_True)
  next
    case False
    then have "pow2 k * of_int d \<le> (of_int n :: rat) \<longleftrightarrow> of_int d \<le> (of_int (n * 2 ^ nat (- k)) :: rat)"
      by (simp add: pow2_def field_simps)
    with False show ?thesis by (simp only: of_int_le_iff if_False)
  qed
  then show ?thesis by (simp add: leading_exp_def int_leading_exp_def Let_def split: prod.split)
qed

lemma round_rat_code [code]:
  "round_rat F x =
     (let (n, d) = quotient_of x
      in if n = 0 then 0
         else let e = max (min_exp F) (int_leading_exp \<bar>n\<bar> d - (int (precision F) - 1))
              in if 0 \<le> e then of_int (int_round_half_even n (d * 2 ^ nat e) * 2 ^ nat e)
                 else Fract (int_round_half_even (n * 2 ^ nat (- e)) d) (2 ^ nat (- e)))"
proof -
  obtain n d where q: "quotient_of x = (n, d)" by force
  have d: "0 < d" and x: "x = of_int n / of_int d"
    using quotient_of_denom_pos [OF q] quotient_of_div [OF q] by simp_all
  have qa: "quotient_of \<bar>x\<bar> = (\<bar>n\<bar>, d)" using q by (simp add: rat_abs_code)
  define e where "e = last_place_exp F x"
  have e: "max (min_exp F) (int_leading_exp \<bar>n\<bar> d - (int (precision F) - 1)) = e"
    by (simp add: e_def last_place_exp_def leading_exp_code qa)
  have "0 \<le> e \<Longrightarrow> x / pow2 e = of_int n / of_int (d * 2 ^ nat e)"
    by (simp add: x pow2_def)
  moreover have "\<not> 0 \<le> e \<Longrightarrow> x / pow2 e = of_int (n * 2 ^ nat (- e)) / of_int d"
    by (simp add: x pow2_def)
  ultimately have "round_half_even (x / pow2 e) = (if 0 \<le> e then int_round_half_even n (d * 2 ^ nat e)
      else int_round_half_even (n * 2 ^ nat (- e)) d)"
    using d by (simp add: round_half_even_div del: of_int_mult of_int_power)
  moreover have "n = 0 \<longleftrightarrow> x = 0" using d by (simp add: x)
  ultimately show ?thesis
    unfolding round_rat_def q prod.case e Let_def e_def [symmetric]
    by (auto simp: Fract_of_int_quotient pow2_def)
qed

lemma largest_code [code]:
  "largest F = (let m = 2 ^ precision F - 1; e = max_exp F
     in if 0 \<le> e then of_int (m * 2 ^ nat e) else Fract m (2 ^ nat (- e)))"
  by (simp add: largest_def pow2_def Let_def Fract_of_int_quotient)

end
