(* ===== verification/Float_Arith.thy ===== *)
theory Float_Arith
  imports Binary_Float
begin

text \<open>
  The values of the floating-point types with the operators, comparisons and \<open>std\<close> functions the
  engine applies to them. A comparison with a NaN is false, so \<open>fmax\<close>, \<open>fmin\<close> and \<open>fclamp\<close> are
  written as the library defines them, by comparisons; what they do to a NaN follows.
\<close>

datatype fl = NaN | PInf | NInf | Fin rat

named_theorems prob_intros "closure of probabilities under the engine's arithmetic"

section \<open>Comparisons\<close>

fun flt :: "fl \<Rightarrow> fl \<Rightarrow> bool" where
  "flt (Fin x) (Fin y) = (x < y)"
| "flt NaN b = False"
| "flt a NaN = False"
| "flt NInf b = (b \<noteq> NInf)"
| "flt a PInf = (a \<noteq> PInf)"
| "flt a b = False"

definition feq :: "fl \<Rightarrow> fl \<Rightarrow> bool" where
  "feq a b = (a \<noteq> NaN \<and> a = b)"

definition fle :: "fl \<Rightarrow> fl \<Rightarrow> bool" where
  "fle a b = (flt a b \<or> feq a b)"

definition is_finite :: "fl \<Rightarrow> bool" where
  "is_finite a = (case a of Fin _ \<Rightarrow> True | _ \<Rightarrow> False)"

definition fmax :: "fl \<Rightarrow> fl \<Rightarrow> fl" where
  "fmax a b = (if flt a b then b else a)"

definition fmin :: "fl \<Rightarrow> fl \<Rightarrow> fl" where
  "fmin a b = (if flt b a then b else a)"

definition fclamp :: "fl \<Rightarrow> fl \<Rightarrow> fl \<Rightarrow> fl" where
  "fclamp v lo hi = (if flt v lo then lo else if flt hi v then hi else v)"

definition clamp01 :: "fl \<Rightarrow> fl" where
  "clamp01 v = fclamp v (Fin 0) (Fin 1)"

section \<open>Arithmetic\<close>

definition round_fl :: "float_format \<Rightarrow> rat \<Rightarrow> fl" where
  "round_fl F x =
     (let y = round_rat F x in if largest F < y then PInf else if y < - largest F then NInf else Fin y)"

fun fneg :: "fl \<Rightarrow> fl" where
  "fneg NaN = NaN"
| "fneg PInf = NInf"
| "fneg NInf = PInf"
| "fneg (Fin x) = Fin (- x)"

fun fabs :: "fl \<Rightarrow> fl" where
  "fabs NaN = NaN"
| "fabs (Fin x) = Fin \<bar>x\<bar>"
| "fabs _ = PInf"

fun fadd :: "float_format \<Rightarrow> fl \<Rightarrow> fl \<Rightarrow> fl" where
  "fadd F (Fin x) (Fin y) = round_fl F (x + y)"
| "fadd F NaN b = NaN"
| "fadd F a NaN = NaN"
| "fadd F PInf b = (if b = NInf then NaN else PInf)"
| "fadd F NInf b = (if b = PInf then NaN else NInf)"
| "fadd F (Fin x) b = b"

definition fsub :: "float_format \<Rightarrow> fl \<Rightarrow> fl \<Rightarrow> fl" where
  "fsub F a b = fadd F a (fneg b)"

text \<open>The infinity with the sign of a rational; a zero factor of an infinity gives a NaN.\<close>

definition signed_inf :: "rat \<Rightarrow> fl" where
  "signed_inf s = (if 0 < s then PInf else if s < 0 then NInf else NaN)"

fun fsgn :: "fl \<Rightarrow> rat" where
  "fsgn NaN = 0"
| "fsgn PInf = 1"
| "fsgn NInf = -1"
| "fsgn (Fin x) = sgn x"

fun fmul :: "float_format \<Rightarrow> fl \<Rightarrow> fl \<Rightarrow> fl" where
  "fmul F (Fin x) (Fin y) = round_fl F (x * y)"
| "fmul F NaN b = NaN"
| "fmul F a NaN = NaN"
| "fmul F a b = signed_inf (fsgn a * fsgn b)"

fun fdiv :: "float_format \<Rightarrow> fl \<Rightarrow> fl \<Rightarrow> fl" where
  "fdiv F (Fin x) (Fin y) = (if y = 0 then signed_inf (sgn x) else round_fl F (x / y))"
| "fdiv F NaN b = NaN"
| "fdiv F a NaN = NaN"
| "fdiv F (Fin x) b = Fin 0"
| "fdiv F a (Fin y) = signed_inf (fsgn a * (if y < 0 then -1 else 1))"
| "fdiv F a b = NaN"

text \<open>\<open>static_cast\<close> between the formats (a widening is exact) and from an integer.\<close>

definition fcast :: "float_format \<Rightarrow> fl \<Rightarrow> fl" where
  "fcast F a = (case a of Fin x \<Rightarrow> round_fl F x | _ \<Rightarrow> a)"

definition float_of_nat :: "float_format \<Rightarrow> nat \<Rightarrow> fl" where
  "float_of_nat F n = round_fl F (of_nat n)"

text \<open>A decimal literal \<open>x\<close>\<^verbatim>\<open>F\<close> of the source.\<close>

definition lit32 :: "rat \<Rightarrow> fl" where
  "lit32 x = round_fl binary32 x"

abbreviation add32 :: "fl \<Rightarrow> fl \<Rightarrow> fl" where "add32 \<equiv> fadd binary32"
abbreviation sub32 :: "fl \<Rightarrow> fl \<Rightarrow> fl" where "sub32 \<equiv> fsub binary32"
abbreviation mul32 :: "fl \<Rightarrow> fl \<Rightarrow> fl" where "mul32 \<equiv> fmul binary32"
abbreviation div32 :: "fl \<Rightarrow> fl \<Rightarrow> fl" where "div32 \<equiv> fdiv binary32"

section \<open>The order\<close>

lemma flt_simps [simp]:
  "\<not> flt a NaN" "\<not> flt PInf b" "\<not> flt a NInf"
  "flt NInf (Fin x)" "flt (Fin x) PInf" "flt NInf PInf"
  by ((cases a; simp), (cases b; simp), (cases a; simp), simp_all)

lemma feq_simps [simp]:
  "feq (Fin x) (Fin y) \<longleftrightarrow> x = y" "\<not> feq NaN b" "\<not> feq a NaN"
  by (auto simp: feq_def)

lemma fle_Fin [simp]: "fle (Fin x) (Fin y) \<longleftrightarrow> x \<le> y"
  by (auto simp: fle_def)

lemma fle_NaN [simp]: "\<not> fle NaN b" "\<not> fle a NaN"
  by (simp_all add: fle_def)

lemma fle_PInf [simp]: "fle a PInf \<longleftrightarrow> a \<noteq> NaN" and NInf_fle [simp]: "fle NInf a \<longleftrightarrow> a \<noteq> NaN"
  by (cases a; simp add: fle_def feq_def)+

lemma fle_infinite [simp]: "\<not> fle PInf (Fin x)" "\<not> fle (Fin x) NInf" "\<not> fle PInf NInf"
  by (simp_all add: fle_def feq_def)

lemma flt_irrefl [simp]: "\<not> flt a a"
  by (cases a) auto

lemma flt_asym: "flt a b \<Longrightarrow> \<not> flt b a"
  by (cases a; cases b) auto

lemma flt_trans: "flt a b \<Longrightarrow> flt b c \<Longrightarrow> flt a c"
  by (cases a; cases b; cases c) auto

lemma flt_not_NaN: "flt a b \<Longrightarrow> a \<noteq> NaN \<and> b \<noteq> NaN"
  by (cases a; cases b) auto

lemma fle_refl [simp]: "fle a a \<longleftrightarrow> a \<noteq> NaN"
  by (auto simp: fle_def feq_def)

lemma fle_trans: "fle a b \<Longrightarrow> fle b c \<Longrightarrow> fle a c"
  by (auto simp: fle_def feq_def intro: flt_trans)

lemma flt_linear: "a \<noteq> NaN \<Longrightarrow> b \<noteq> NaN \<Longrightarrow> flt a b \<or> a = b \<or> flt b a"
  by (cases a; cases b) auto

lemma not_flt: "a \<noteq> NaN \<Longrightarrow> b \<noteq> NaN \<Longrightarrow> \<not> flt a b \<longleftrightarrow> fle b a"
  using flt_linear [of a b] by (auto simp: fle_def feq_def dest: flt_asym)

lemma fle_antisym: "fle a b \<Longrightarrow> fle b a \<Longrightarrow> a = b"
  by (cases a; cases b) auto

lemma fle_flt_trans: "fle a b \<Longrightarrow> flt b c \<Longrightarrow> flt a c"
  by (auto simp: fle_def feq_def intro: flt_trans)

lemma flt_fle_trans: "flt a b \<Longrightarrow> fle b c \<Longrightarrow> flt a c"
  by (auto simp: fle_def feq_def intro: flt_trans)

lemma fle_not_NaN: "fle a b \<Longrightarrow> a \<noteq> NaN \<and> b \<noteq> NaN"
  by (auto simp: fle_def feq_def dest: flt_not_NaN)

lemma fle_not_flt: "fle a b \<Longrightarrow> \<not> flt b a"
  by (auto simp: fle_def feq_def dest: flt_asym)

lemma is_finite_iff: "is_finite a \<longleftrightarrow> (\<exists>x. a = Fin x)"
  by (simp add: is_finite_def split: fl.split)

lemma is_finite_simps [simp]:
  "is_finite (Fin x)" "\<not> is_finite NaN" "\<not> is_finite PInf" "\<not> is_finite NInf"
  by (simp_all add: is_finite_def)

lemma is_finite_not_NaN: "is_finite a \<Longrightarrow> a \<noteq> NaN"
  by auto

lemma fmax_ge: "a \<noteq> NaN \<Longrightarrow> fle a (fmax a b)" "a \<noteq> NaN \<Longrightarrow> b \<noteq> NaN \<Longrightarrow> fle b (fmax a b)"
  using not_flt [of a b] by (auto simp: fmax_def fle_def feq_def)

lemma fmax_not_NaN: "a \<noteq> NaN \<Longrightarrow> fmax a b \<noteq> NaN"
  by (auto simp: fmax_def)

text \<open>A NaN second argument of \<open>std::max\<close> is ignored.\<close>

lemma fmax_NaN [simp]: "fmax a NaN = a"
  by (simp add: fmax_def)

lemma fmax_in: "fmax a b = a \<or> fmax a b = b"
  by (simp add: fmax_def)

section \<open>Probabilities\<close>

definition is_prob :: "fl \<Rightarrow> bool" where
  "is_prob a = (is_finite a \<and> \<not> flt a (Fin 0) \<and> \<not> flt (Fin 1) a)"

lemma is_prob_iff: "is_prob a \<longleftrightarrow> (\<exists>x. a = Fin x \<and> 0 \<le> x \<and> x \<le> 1)"
  by (cases a) (auto simp: is_prob_def)

lemma is_prob_Fin [simp]: "is_prob (Fin x) \<longleftrightarrow> 0 \<le> x \<and> x \<le> 1"
  by (simp add: is_prob_iff)

lemma is_probE [elim]: "is_prob a \<Longrightarrow> (\<And>x. a = Fin x \<Longrightarrow> 0 \<le> x \<Longrightarrow> x \<le> 1 \<Longrightarrow> P) \<Longrightarrow> P"
  by (auto simp: is_prob_iff)

lemma is_prob_not_NaN [simp]: "is_prob a \<Longrightarrow> a \<noteq> NaN" and is_prob_finite: "is_prob a \<Longrightarrow> is_finite a"
  by auto

lemma is_prob_fle: "is_prob a \<longleftrightarrow> fle (Fin 0) a \<and> fle a (Fin 1)"
  by (cases a) (auto simp: fle_def feq_def)

lemma prob_fmax [prob_intros]: "is_prob a \<Longrightarrow> is_prob b \<Longrightarrow> is_prob (fmax a b)"
  by (simp add: fmax_def)

lemma clamp01_cases: "is_prob (clamp01 a) \<or> (a = NaN \<and> clamp01 a = NaN)"
  by (cases a) (auto simp: clamp01_def fclamp_def)

lemma prob_clamp01 [prob_intros]: "a \<noteq> NaN \<Longrightarrow> is_prob (clamp01 a)"
  using clamp01_cases by blast

lemma clamp01_NaN [simp]: "clamp01 NaN = NaN"
  by (simp add: clamp01_def fclamp_def)

lemma clamp01_prob [simp]: "is_prob a \<Longrightarrow> clamp01 a = a"
  by (auto simp: clamp01_def fclamp_def)

lemma clamp01_Fin: "clamp01 (Fin x) = Fin (max 0 (min 1 x))"
  by (simp add: clamp01_def fclamp_def)

lemma clamp01_mono: "fle a b \<Longrightarrow> fle (clamp01 a) (clamp01 b)"
  by (cases a; cases b) (auto simp: clamp01_def fclamp_def fle_def feq_def)

lemma not_flt_finite: "is_finite a \<Longrightarrow> is_prob t \<Longrightarrow> \<not> flt a t \<Longrightarrow> fle t a"
  by (auto simp: is_finite_iff)

text \<open>
  Arithmetic on moderate finite numbers stays finite: what the formats promise, once for all
  formats that satisfy \<open>fp_format\<close>.
\<close>

context fp_format
begin

lemma round_fl_small:
  assumes "\<bar>x\<bar> \<le> pow2 63"
  shows "round_fl F x = Fin (round_rat F x)"
proof -
  have "round_rat F x \<le> largest F" using assms by (intro round_le_pow63) simp
  moreover have "round_rat F (- x) \<le> largest F" using assms by (intro round_le_pow63) simp
  ultimately show ?thesis by (simp add: round_fl_def)
qed

lemma round_fl_prob: "0 \<le> x \<Longrightarrow> x \<le> 1 \<Longrightarrow> round_fl F x = Fin (round_rat F x)"
proof -
  assume "0 \<le> x" "x \<le> 1"
  moreover have "1 \<le> pow2 63" using pow2_mono [of 0 63] by simp
  ultimately show ?thesis by (intro round_fl_small) simp
qed

lemma round_fl_mono: "x \<le> y \<Longrightarrow> fle (round_fl F x) (round_fl F y)"
  using rnd_mono [of x y] by (auto simp: round_fl_def Let_def fle_def feq_def)

lemma round_fl_not_NaN [simp]: "round_fl F x \<noteq> NaN"
  by (simp add: round_fl_def Let_def)

lemma round_fl_0 [simp]: "round_fl F 0 = Fin 0"
  using round_fl_prob [of 0] by simp

lemma round_fl_1 [simp]: "round_fl F 1 = Fin 1"
  using round_fl_prob [of 1] by (simp add: rnd_1)

lemma prob_round [prob_intros]: "0 \<le> x \<Longrightarrow> x \<le> 1 \<Longrightarrow> is_prob (round_fl F x)"
  by (simp add: round_fl_prob rnd_nonneg rnd_le_1)

lemma prob_fmul [prob_intros]: "is_prob a \<Longrightarrow> is_prob b \<Longrightarrow> is_prob (fmul F a b)"
  by (elim is_probE) (simp add: prob_round mult_le_one del: is_prob_Fin)

lemma prob_one_minus [prob_intros]: "is_prob a \<Longrightarrow> is_prob (fsub F (Fin 1) a)"
  by (elim is_probE) (simp add: fsub_def prob_round)

text \<open>Sums and quotients of non-negative numbers are non-negative, and never a NaN.\<close>

lemma fadd_nonneg: "fle (Fin 0) a \<Longrightarrow> fle (Fin 0) b \<Longrightarrow> fle (Fin 0) (fadd F a b)"
  by (cases a; cases b)
     (auto intro: round_fl_mono [of 0, simplified])

lemma fmul_nonneg:
  "fle (Fin 0) a \<Longrightarrow> is_finite a \<Longrightarrow> fle (Fin 0) b \<Longrightarrow> is_finite b \<Longrightarrow> fle (Fin 0) (fmul F a b)"
  by (auto simp: is_finite_iff intro!: round_fl_mono [of 0, simplified])

lemma fdiv_nonneg:
  assumes "fle (Fin 0) a" and "flt (Fin 0) b" and "is_finite a \<or> is_finite b"
  shows "fle (Fin 0) (fdiv F a b)"
  using assms
  by (cases a; cases b)
     (auto simp: signed_inf_def intro!: round_fl_mono [of 0, simplified])

lemma fadd_mono: "fle a b \<Longrightarrow> is_finite c \<Longrightarrow> fle (fadd F a c) (fadd F b c)"
  by (cases a; cases b; cases c) (auto intro: round_fl_mono)

lemma fneg_mono: "fle a b \<Longrightarrow> fle (fneg b) (fneg a)"
  by (cases a; cases b) (auto simp: fle_def feq_def)

lemma fadd_mono_right: "fle a b \<Longrightarrow> is_finite c \<Longrightarrow> fle (fadd F c a) (fadd F c b)"
  by (cases a; cases b; cases c) (auto intro: round_fl_mono)

lemma fsub_antimono: "fle a b \<Longrightarrow> is_finite c \<Longrightarrow> fle (fsub F c b) (fsub F c a)"
  unfolding fsub_def by (intro fadd_mono_right fneg_mono)

lemma fdiv_mono: "fle (Fin x) (Fin y) \<Longrightarrow> 0 < z \<Longrightarrow> fle (fdiv F (Fin x) (Fin z)) (fdiv F (Fin y) (Fin z))"
  by (auto intro!: round_fl_mono divide_right_mono)

lemma fdiv_self: "0 < x \<Longrightarrow> fdiv F (Fin x) (Fin x) = Fin 1"
  by simp

text \<open>A running sum of probabilities stays finite and below the number of its terms.\<close>

lemma fadd_prob_bound:
  assumes "0 \<le> x" and "x \<le> of_nat n" and "n + 1 < 2 ^ precision F" and "n < 2 ^ 62" and "is_prob y"
  shows "\<exists>z. fadd F (Fin x) y = Fin z \<and> 0 \<le> z \<and> z \<le> of_nat (n + 1)"
proof -
  from assms(5) obtain v where v: "y = Fin v" "0 \<le> v" "v \<le> 1" by (rule is_probE)
  have "x + v \<le> of_nat (n + 1)" using assms(2) v(3) by simp
  moreover have "(of_nat (n + 1) :: rat) \<le> of_nat (2 ^ 62)" using assms(4) by (simp only: of_nat_le_iff)
  moreover have "(of_nat (2 ^ 62) :: rat) \<le> pow2 63" by (simp add: pow2_def)
  ultimately have "\<bar>x + v\<bar> \<le> pow2 63" using assms(1) v(2) by linarith
  then have "fadd F (Fin x) y = Fin (round_rat F (x + v))" using v(1) by (simp add: round_fl_small)
  moreover have "round_rat F (x + v) \<le> of_nat (n + 1)"
    using rnd_mono [OF \<open>x + v \<le> of_nat (n + 1)\<close>] round_nat [OF assms(3)] by simp
  ultimately show ?thesis using assms(1) v(2) rnd_nonneg [of "x + v"] by auto
qed

lemma fold_fadd_bound:
  assumes "length xs + n < 2 ^ precision F" and "length xs + n < 2 ^ 62" and "\<forall>x \<in> set xs. is_prob (g x)"
    and "0 \<le> s" and "s \<le> of_nat n"
  shows "\<exists>z. fold (\<lambda>x s. fadd F s (g x)) xs (Fin s) = Fin z \<and> 0 \<le> z \<and> z \<le> of_nat (length xs + n)"
  using assms
proof (induction xs arbitrary: s n)
  case (Cons x xs)
  from fadd_prob_bound [OF Cons.prems(4,5)] Cons.prems obtain z
    where z: "fadd F (Fin s) (g x) = Fin z" "0 \<le> z" "z \<le> of_nat (n + 1)" by force
  from Cons.IH [of "n + 1" z] Cons.prems z show ?case by simp
qed auto

end

section \<open>Values of the type\<close>

text \<open>A value of the type \<open>float\<close> is not changed by a conversion to \<open>float\<close>.\<close>

definition is_float :: "fl \<Rightarrow> bool" where
  "is_float a = (fcast binary32 a = a)"

lemma is_float_Fin: "is_float (Fin x) \<longleftrightarrow> round_rat binary32 x = x \<and> \<bar>x\<bar> \<le> largest binary32"
  by (auto simp: is_float_def fcast_def round_fl_def Let_def abs_le_iff)

lemma is_float_round [intro]: "is_float (round_fl binary32 x)"
proof (cases "round_fl binary32 x")
  case (Fin y)
  then have y: "y = round_rat binary32 x" "\<bar>y\<bar> \<le> largest binary32" by (auto simp: round_fl_def Let_def split: if_splits)
  then show ?thesis unfolding Fin is_float_Fin by (simp add: b32.round_round)
qed (simp_all add: is_float_def fcast_def)

lemma is_float_arith:
  "is_float (Fin 0)" "is_float a \<Longrightarrow> is_float b \<Longrightarrow> is_float (fadd binary32 a b)" "is_float a \<Longrightarrow> is_float b \<Longrightarrow> is_float (fsub binary32 a b)"
  "is_float (fmul binary32 a b)" "is_float (fdiv binary32 a b)"
  "is_float a \<Longrightarrow> is_float lo \<Longrightarrow> is_float hi \<Longrightarrow> is_float (fclamp a lo hi)"
proof -
  show z: "is_float (Fin 0)" by (simp add: is_float_def fcast_def)
  have special: "is_float NaN" "is_float PInf" "is_float NInf" by (simp_all add: is_float_def fcast_def)
  have inf: "is_float (signed_inf s)" for s using special by (simp add: signed_inf_def)
  have add: "is_float (fadd binary32 a b)" if "is_float a" "is_float b" for a b
    using that special by (cases a; cases b) auto
  then show "is_float a \<Longrightarrow> is_float b \<Longrightarrow> is_float (fadd binary32 a b)" .
  have "is_float b \<Longrightarrow> is_float (fneg b)" by (cases b) (auto simp: special is_float_Fin)
  then show "is_float a \<Longrightarrow> is_float b \<Longrightarrow> is_float (fsub binary32 a b)" unfolding fsub_def by (intro add)
  show "is_float (fmul binary32 a b)" by (cases a; cases b) (auto simp: special inf)
  show "is_float (fdiv binary32 a b)" by (cases a; cases b) (auto simp: special inf z)
  show "is_float a \<Longrightarrow> is_float lo \<Longrightarrow> is_float hi \<Longrightarrow> is_float (fclamp a lo hi)" by (simp add: fclamp_def)
qed

end
