(* ===== verification/Domain.thy ===== *)
theory Domain
  imports Float_Arith
begin

text \<open>
  The data the components exchange: exceptions (\<^verbatim>\<open>application/error.hpp\<close>), geometry, detections
  and recognitions (\<^verbatim>\<open>domain/*.hpp\<close>). A \<open>std::size_t\<close> that is only compared or counts the elements
  of a container is a \<open>nat\<close>; where the code checks or performs arithmetic on it, it is a 64-bit word.
\<close>

section \<open>Exceptions\<close>

datatype EngineErrorCode =
  configuration | model_load | inference | invalid_image | provider
  | cancelled | timeout | resource_exhausted | internal

text \<open>
  What a call can throw: an \<open>EngineError\<close> with its code and message, another
  \<open>std::exception\<close> with its message, \<open>std::bad_alloc\<close>, or anything else.
\<close>

datatype exn = EngineError EngineErrorCode string | StdException string | BadAlloc | UnknownException

type_synonym 'a result = "exn + 'a"

abbreviation ConfigurationError :: "string \<Rightarrow> exn" where "ConfigurationError \<equiv> EngineError configuration"
abbreviation ModelLoadError :: "string \<Rightarrow> exn" where "ModelLoadError \<equiv> EngineError model_load"
abbreviation InferenceError :: "string \<Rightarrow> exn" where "InferenceError \<equiv> EngineError inference"
abbreviation InvalidImageError :: "string \<Rightarrow> exn" where "InvalidImageError \<equiv> EngineError invalid_image"
abbreviation ProviderError :: "string \<Rightarrow> exn" where "ProviderError \<equiv> EngineError provider"
abbreviation CancelledError :: "string \<Rightarrow> exn" where "CancelledError \<equiv> EngineError cancelled"
abbreviation TimeoutError :: "string \<Rightarrow> exn" where "TimeoutError \<equiv> EngineError timeout"
abbreviation ResourceExhaustedError :: "string \<Rightarrow> exn" where "ResourceExhaustedError \<equiv> EngineError resource_exhausted"
abbreviation InternalError :: "string \<Rightarrow> exn" where "InternalError \<equiv> EngineError internal"

section \<open>Geometry\<close>

record Point2f =
  pt_x :: fl
  pt_y :: fl

definition point_is_finite :: "Point2f \<Rightarrow> bool" where
  "point_is_finite p = (is_finite (pt_x p) \<and> is_finite (pt_y p))"

record BoundingBox =
  bb_x :: fl
  bb_y :: fl
  bb_width :: fl
  bb_height :: fl

definition bbox_area :: "BoundingBox \<Rightarrow> fl" where
  "bbox_area b = (if flt (Fin 0) (bb_width b) \<and> flt (Fin 0) (bb_height b)
                  then mul32 (bb_width b) (bb_height b) else Fin 0)"

definition bbox_is_valid :: "BoundingBox \<Rightarrow> bool" where
  "bbox_is_valid b = (is_finite (bb_x b) \<and> is_finite (bb_y b) \<and> is_finite (bb_width b) \<and>
     is_finite (bb_height b) \<and> flt (Fin 0) (bb_width b) \<and> flt (Fin 0) (bb_height b))"

text \<open>\<open>std::array\<close>s of four elements are lists; \<open>quad_wf\<close> records their length.\<close>

record PlateQuadrilateral =
  quad_points :: "Point2f list"
  quad_confidences :: "fl list"

definition quad_wf :: "PlateQuadrilateral \<Rightarrow> bool" where
  "quad_wf q = (length (quad_points q) = 4 \<and> length (quad_confidences q) = 4)"

record Detection =
  det_bbox :: BoundingBox
  det_quadrilateral :: "PlateQuadrilateral option"
  det_confidence :: fl
  det_geometry_score :: fl
  det_provider :: string

section \<open>Recognition\<close>

datatype RecognitionStatus = Accepted | Review | Rejected

datatype RecognitionDecisionReason =
  accepted_consensus | fatal_provider_failure | degraded_provider_set
  | detector_confidence_below_minimum | geometry_below_minimum | crop_quality_below_minimum
  | no_valid_candidate | candidate_confidence_below_review | candidate_confidence_below_accept
  | conflicting_strong_candidates

record PlateCandidate =
  cand_text :: string
  cand_confidence :: fl
  cand_calibrated :: fl
  cand_format_valid :: bool

record RecognitionEvidence =
  ev_source :: string
  ev_candidates :: "PlateCandidate list"
  ev_crop_quality :: fl
  ev_latency_ms :: fl

record PlateRecognitionResult =
  res_status :: RecognitionStatus
  res_plate :: string
  res_confidence :: fl
  res_bbox :: "BoundingBox option"
  res_quadrilateral :: "PlateQuadrilateral option"
  res_detector_confidence :: fl
  res_geometry_score :: fl
  res_crop_quality :: fl
  res_evidence :: "RecognitionEvidence list"
  res_alternatives :: "PlateCandidate list"
  res_decision_reasons :: "RecognitionDecisionReason list"
  res_degraded :: bool
  res_total_latency_ms :: fl

text \<open>\<open>PlateRecognitionResult{}\<close>: the member initialisers.\<close>

definition empty_result :: PlateRecognitionResult where
  "empty_result =
     \<lparr>res_status = Rejected, res_plate = [], res_confidence = Fin 0, res_bbox = None,
      res_quadrilateral = None, res_detector_confidence = Fin 0, res_geometry_score = Fin 0,
      res_crop_quality = Fin 0, res_evidence = [], res_alternatives = [], res_decision_reasons = [],
      res_degraded = False, res_total_latency_ms = Fin 0\<rparr>"

record LayoutEvidence =
  lay_reliable :: bool
  lay_character_count :: "int option"
  lay_letter_group_size :: "int option"
  lay_confidence :: fl

record GeometryEvidence =
  geo_valid :: bool
  geo_score :: fl

record RecognitionDecisionContext =
  ctx_degraded :: bool
  ctx_fatal_provider_failure :: bool
  ctx_provider_failure_count :: nat

section \<open>Candidate order\<close>

text \<open>
  The comparator shared by the fusion, the decision policy and the beam search: higher score
  first, equal scores by text. It is a strict weak order on elements whose score is not a NaN.
\<close>

definition before_by :: "('a \<Rightarrow> fl) \<Rightarrow> ('a \<Rightarrow> 'k::linorder) \<Rightarrow> 'a \<Rightarrow> 'a \<Rightarrow> bool" where
  "before_by score lbl l r =
     (if \<not> feq (score l) (score r) then flt (score r) (score l) else lbl l < lbl r)"

lemma not_before_by_iff:
  assumes "score x \<noteq> NaN" and "score y \<noteq> NaN"
  shows "\<not> before_by score lbl y x \<longleftrightarrow>
    flt (score y) (score x) \<or> (score x = score y \<and> lbl x \<le> lbl y)"
  using assms flt_linear [of "score x" "score y"]
  by (auto simp: before_by_def feq_def not_less dest: flt_asym)

interpretation cand_order: weak_order_on "before_by score lbl" "\<lambda>x. score x \<noteq> NaN"
  for score :: "'a \<Rightarrow> fl" and lbl :: "'a \<Rightarrow> 'k::linorder"
proof
  fix x y z :: 'a
  assume "score x \<noteq> NaN" "score y \<noteq> NaN" "score z \<noteq> NaN"
    and "\<not> before_by score lbl y x" "\<not> before_by score lbl z y"
  then show "\<not> before_by score lbl z x"
    by (auto simp: not_before_by_iff dest: flt_trans)
qed (auto simp: before_by_def feq_def split: if_splits dest: flt_asym)

lemma not_before_by_score:
  "score a \<noteq> NaN \<Longrightarrow> score b \<noteq> NaN \<Longrightarrow> \<not> before_by score lbl b a \<Longrightarrow> fle (score b) (score a)"
  by (auto simp: before_by_def feq_def not_flt split: if_splits)

text \<open>The first of the stably sorted elements has the greatest score.\<close>

lemma stable_sort_best:
  assumes "\<forall>x \<in> set xs. score x \<noteq> NaN" and "stable_sort (before_by score lbl) xs = y # ys" and "x \<in> set xs"
  shows "fle (score x) (score y)"
proof -
  have "\<not> before_by score lbl x y" by (rule cand_order.stable_sort_hd_first [OF assms])
  moreover have "y \<in> set xs" using assms(2) by (metis list.set_intros(1) set_stable_sort)
  ultimately show ?thesis using assms(1,3) not_before_by_score by metis
qed

lemma stable_sort_scores_sorted:
  assumes "\<forall>x \<in> set xs. score x \<noteq> NaN"
  shows "sorted_wrt (\<lambda>a b. fle (score b) (score a)) (stable_sort (before_by score lbl) xs)"
proof (rule sorted_wrt_mono_rel [OF _ cand_order.stable_sort_sorted [OF assms]])
  fix x y
  assume "x \<in> set (stable_sort (before_by score lbl) xs)" "y \<in> set (stable_sort (before_by score lbl) xs)"
    and "\<not> before_by score lbl y x"
  with assms show "fle (score y) (score x)" by (simp add: not_before_by_score)
qed

end
