(* ===== verification/Engine_Config.thy ===== *)
theory Engine_Config
  imports Domain
begin

text \<open>
  The engine configuration and its validation (\<^verbatim>\<open>application/config.hpp\<close>) and the resource budget
  (\<^verbatim>\<open>application/resource_budget.hpp\<close>).
\<close>

section \<open>Configuration records\<close>

record DetectorConfig =
  dc_confidence_threshold :: fl
  dc_nms_iou_threshold :: fl
  dc_max_detections :: nat
  dc_adaptive_tiling :: bool
  dc_tile_width :: nat
  dc_tile_height :: nat
  dc_tile_overlap_ratio :: fl

record RecognitionConfig =
  rc_beam_width :: nat
  rc_result_limit :: nat
  rc_classes_per_step :: nat
  rc_max_recognizers :: nat
  rc_minimum_candidate_confidence :: fl

record CropConfig =
  cc_max_hypotheses :: nat
  cc_horizontal_padding_ratio :: fl
  cc_vertical_padding_ratio :: fl
  cc_minimum_width :: nat
  cc_minimum_height :: nat
  cc_enable_clahe :: bool
  cc_enable_sharpen :: bool
  cc_enable_adaptive_threshold :: bool
  cc_enable_double_row :: bool

record DecisionConfig =
  accepted_confidence_threshold :: fl
  review_confidence_threshold :: fl
  strong_conflict_threshold :: fl
  minimum_crop_quality :: fl
  minimum_geometry_score :: fl
  minimum_effective_detector_confidence :: fl
  allow_accept_when_degraded :: bool
  fail_closed :: bool

record PerformanceConfig =
  pc_worker_count :: nat
  pc_queue_capacity :: nat
  pc_max_image_width :: nat
  pc_max_image_height :: nat
  pc_max_image_bytes :: nat
  pc_recognition_timeout_ms :: int

record EngineConfig =
  ec_detector :: DetectorConfig
  ec_recognition :: RecognitionConfig
  ec_crop :: CropConfig
  ec_decision :: DecisionConfig
  ec_performance :: PerformanceConfig

section \<open>Member initialisers\<close>

definition default_detector_config :: DetectorConfig where
  "default_detector_config =
     \<lparr>dc_confidence_threshold = lit32 (1/2), dc_nms_iou_threshold = lit32 (45/100),
      dc_max_detections = 32, dc_adaptive_tiling = True, dc_tile_width = 1280,
      dc_tile_height = 960, dc_tile_overlap_ratio = lit32 (20/100)\<rparr>"

definition default_recognition_config :: RecognitionConfig where
  "default_recognition_config =
     \<lparr>rc_beam_width = 16, rc_result_limit = 5, rc_classes_per_step = 6, rc_max_recognizers = 8,
      rc_minimum_candidate_confidence = Fin 0\<rparr>"

definition default_crop_config :: CropConfig where
  "default_crop_config =
     \<lparr>cc_max_hypotheses = 8, cc_horizontal_padding_ratio = lit32 (6/100),
      cc_vertical_padding_ratio = lit32 (4/100), cc_minimum_width = 60, cc_minimum_height = 18,
      cc_enable_clahe = True, cc_enable_sharpen = True, cc_enable_adaptive_threshold = True,
      cc_enable_double_row = True\<rparr>"

definition default_decision_config :: DecisionConfig where
  "default_decision_config =
     \<lparr>accepted_confidence_threshold = lit32 (78/100), review_confidence_threshold = lit32 (55/100),
      strong_conflict_threshold = lit32 (70/100), minimum_crop_quality = lit32 (28/100),
      minimum_geometry_score = lit32 (20/100),
      minimum_effective_detector_confidence = lit32 (1/2),
      allow_accept_when_degraded = False, fail_closed = True\<rparr>"

definition default_performance_config :: PerformanceConfig where
  "default_performance_config =
     \<lparr>pc_worker_count = 1, pc_queue_capacity = 8, pc_max_image_width = 8192,
      pc_max_image_height = 8192, pc_max_image_bytes = 128 * 1024 * 1024,
      pc_recognition_timeout_ms = 5000\<rparr>"

definition default_engine_config :: EngineConfig where
  "default_engine_config =
     \<lparr>ec_detector = default_detector_config, ec_recognition = default_recognition_config,
      ec_crop = default_crop_config, ec_decision = default_decision_config,
      ec_performance = default_performance_config\<rparr>"

section \<open>Validation\<close>

definition require_unit_interval :: "fl \<Rightarrow> string \<Rightarrow> unit result" where
  "require_unit_interval v name =
     throw_if (\<not> (fle (Fin 0) v \<and> fle v (Fin 1))) (ConfigurationError (name @ '' must be in [0, 1]''))"

definition require_positive :: "nat \<Rightarrow> string \<Rightarrow> unit result" where
  "require_positive v name =
     throw_if (v = 0) (ConfigurationError (name @ '' must be greater than zero''))"

definition validate_detector :: "DetectorConfig \<Rightarrow> unit result" where
  "validate_detector c = check_all
     [require_unit_interval (dc_confidence_threshold c) ''detector.confidence_threshold'',
      require_unit_interval (dc_nms_iou_threshold c) ''detector.nms_iou_threshold'',
      require_positive (dc_max_detections c) ''detector.max_detections'',
      require_positive (dc_tile_width c) ''detector.tile_width'',
      require_positive (dc_tile_height c) ''detector.tile_height'',
      throw_if (\<not> (fle (Fin 0) (dc_tile_overlap_ratio c) \<and> flt (dc_tile_overlap_ratio c) (lit32 (1/2))))
        (ConfigurationError ''detector.tile_overlap_ratio must be in [0, 0.5)'')]"

definition validate_recognition :: "RecognitionConfig \<Rightarrow> unit result" where
  "validate_recognition c = check_all
     [require_positive (rc_beam_width c) ''recognition.beam_width'',
      require_positive (rc_result_limit c) ''recognition.result_limit'',
      require_positive (rc_classes_per_step c) ''recognition.classes_per_step'',
      require_positive (rc_max_recognizers c) ''recognition.max_recognizers'',
      require_unit_interval (rc_minimum_candidate_confidence c) ''recognition.minimum_candidate_confidence'',
      throw_if (rc_result_limit c > rc_beam_width c)
        (ConfigurationError ''recognition.result_limit cannot exceed recognition.beam_width''),
      throw_if (rc_classes_per_step c > 64)
        (ConfigurationError ''recognition.classes_per_step cannot exceed 64''),
      throw_if (rc_max_recognizers c > 32)
        (ConfigurationError ''recognition.max_recognizers cannot exceed 32'')]"

definition validate_crop :: "CropConfig \<Rightarrow> unit result" where
  "validate_crop c = check_all
     [require_positive (cc_max_hypotheses c) ''crop.max_hypotheses'',
      require_unit_interval (cc_horizontal_padding_ratio c) ''crop.horizontal_padding_ratio'',
      require_unit_interval (cc_vertical_padding_ratio c) ''crop.vertical_padding_ratio'',
      require_positive (cc_minimum_width c) ''crop.minimum_width'',
      require_positive (cc_minimum_height c) ''crop.minimum_height'',
      throw_if (cc_max_hypotheses c > 32) (ConfigurationError ''crop.max_hypotheses cannot exceed 32'')]"

definition validate_decision :: "DecisionConfig \<Rightarrow> unit result" where
  "validate_decision c = check_all
     [require_unit_interval (accepted_confidence_threshold c) ''decision.accepted_confidence_threshold'',
      require_unit_interval (review_confidence_threshold c) ''decision.review_confidence_threshold'',
      require_unit_interval (strong_conflict_threshold c) ''decision.strong_conflict_threshold'',
      require_unit_interval (minimum_crop_quality c) ''decision.minimum_crop_quality'',
      require_unit_interval (minimum_geometry_score c) ''decision.minimum_geometry_score'',
      require_unit_interval (minimum_effective_detector_confidence c)
        ''decision.minimum_effective_detector_confidence'',
      throw_if (flt (accepted_confidence_threshold c) (review_confidence_threshold c))
        (ConfigurationError ''decision.review_confidence_threshold cannot exceed accepted threshold''),
      throw_if (allow_accept_when_degraded c)
        (ConfigurationError ''safe default policy does not allow acceptance while providers are degraded''),
      throw_if (\<not> fail_closed c)
        (ConfigurationError ''decision.fail_closed must remain enabled for the safe default policy'')]"

definition validate_performance :: "PerformanceConfig \<Rightarrow> unit result" where
  "validate_performance c = check_all
     [require_positive (pc_worker_count c) ''performance.worker_count'',
      require_positive (pc_queue_capacity c) ''performance.queue_capacity'',
      require_positive (pc_max_image_width c) ''performance.max_image_width'',
      require_positive (pc_max_image_height c) ''performance.max_image_height'',
      require_positive (pc_max_image_bytes c) ''performance.max_image_bytes'',
      throw_if (pc_worker_count c > 256)
        (ConfigurationError ''performance.worker_count cannot exceed 256''),
      throw_if (pc_queue_capacity c > 65536)
        (ConfigurationError ''performance.queue_capacity cannot exceed 65536''),
      throw_if (pc_max_image_width c > 32768 \<or> pc_max_image_height c > 32768)
        (ConfigurationError ''performance image dimensions exceed safe engine limits''),
      throw_if (pc_max_image_bytes c > 1024 * 1024 * 1024)
        (ConfigurationError ''performance.max_image_bytes cannot exceed 1 GiB''),
      throw_if (pc_recognition_timeout_ms c \<le> 0 \<or> pc_recognition_timeout_ms c > 5 * 60000)
        (ConfigurationError ''performance.recognition_timeout must be in (0, 5min]'')]"

definition validate_engine_config :: "EngineConfig \<Rightarrow> unit result" where
  "validate_engine_config c = check_all
     [validate_detector (ec_detector c), validate_recognition (ec_recognition c),
      validate_crop (ec_crop c), validate_decision (ec_decision c),
      validate_performance (ec_performance c)]"

section \<open>What a validated configuration satisfies\<close>

lemma require_unit_interval_ok [result_simps]: "require_unit_interval v name = Inr () \<longleftrightarrow> is_prob v"
  by (simp add: require_unit_interval_def result_simps is_prob_fle)

lemma require_positive_ok [result_simps]: "require_positive v name = Inr () \<longleftrightarrow> 0 < v"
  by (simp add: require_positive_def result_simps)

lemma validate_decision_ok:
  "validate_decision c = Inr () \<longleftrightarrow>
     is_prob (accepted_confidence_threshold c) \<and> is_prob (review_confidence_threshold c) \<and>
     is_prob (strong_conflict_threshold c) \<and> is_prob (minimum_crop_quality c) \<and>
     is_prob (minimum_geometry_score c) \<and> is_prob (minimum_effective_detector_confidence c) \<and>
     fle (review_confidence_threshold c) (accepted_confidence_threshold c) \<and>
     \<not> allow_accept_when_degraded c \<and> fail_closed c"
  by (auto simp: validate_decision_def result_simps not_flt dest: fle_not_flt)

lemma validate_detector_ok:
  "validate_detector c = Inr () \<longleftrightarrow>
     is_prob (dc_confidence_threshold c) \<and> is_prob (dc_nms_iou_threshold c) \<and>
     0 < dc_max_detections c \<and> 0 < dc_tile_width c \<and> 0 < dc_tile_height c \<and>
     fle (Fin 0) (dc_tile_overlap_ratio c) \<and> flt (dc_tile_overlap_ratio c) (lit32 (1/2))"
  by (auto simp: validate_detector_def result_simps)

lemma validate_recognition_ok:
  "validate_recognition c = Inr () \<longleftrightarrow>
     0 < rc_beam_width c \<and> 0 < rc_result_limit c \<and> rc_result_limit c \<le> rc_beam_width c \<and>
     rc_classes_per_step c \<in> {1..64} \<and> rc_max_recognizers c \<in> {1..32} \<and>
     is_prob (rc_minimum_candidate_confidence c)"
  by (auto simp: validate_recognition_def result_simps Suc_le_eq)

lemma validate_crop_ok:
  "validate_crop c = Inr () \<longleftrightarrow>
     cc_max_hypotheses c \<in> {1..32} \<and> is_prob (cc_horizontal_padding_ratio c) \<and>
     is_prob (cc_vertical_padding_ratio c) \<and> 0 < cc_minimum_width c \<and> 0 < cc_minimum_height c"
  by (auto simp: validate_crop_def result_simps Suc_le_eq)

lemma validate_performance_ok:
  "validate_performance c = Inr () \<longleftrightarrow>
     pc_worker_count c \<in> {1..256} \<and> pc_queue_capacity c \<in> {1..65536} \<and>
     pc_max_image_width c \<in> {1..32768} \<and> pc_max_image_height c \<in> {1..32768} \<and>
     pc_max_image_bytes c \<in> {1..1073741824} \<and> pc_recognition_timeout_ms c \<in> {1..300000}"
  by (auto simp: validate_performance_def result_simps Suc_le_eq)

lemma lit32_prob [simp]: "0 \<le> x \<Longrightarrow> x \<le> 1 \<Longrightarrow> is_prob (lit32 x)"
  by (simp add: lit32_def b32.prob_round)

lemma lit32_mono: "x \<le> y \<Longrightarrow> fle (lit32 x) (lit32 y)"
  by (simp add: lit32_def b32.round_fl_mono)

lemma default_decision_config_valid: "validate_decision default_decision_config = Inr ()"
  by (simp add: validate_decision_ok default_decision_config_def lit32_mono)

lemma default_performance_config_valid: "validate_performance default_performance_config = Inr ()"
  by (simp add: validate_performance_ok default_performance_config_def)

lemma default_engine_config_valid: "validate_engine_config default_engine_config = Inr ()"
proof -
  have "flt (lit32 (20/100)) (lit32 (1/2))" by code_simp
  moreover have "fle (Fin 0) (lit32 (20/100))" using lit32_prob [of "20/100"] by (simp add: is_prob_fle)
  ultimately show ?thesis
    by (simp add: validate_engine_config_def default_engine_config_def default_decision_config_valid
        default_performance_config_valid validate_detector_ok validate_recognition_ok validate_crop_ok
        default_detector_config_def default_recognition_config_def default_crop_config_def result_simps)
qed

lemma validate_engine_config_ok:
  "validate_engine_config c = Inr () \<longleftrightarrow>
     validate_detector (ec_detector c) = Inr () \<and> validate_recognition (ec_recognition c) = Inr () \<and>
     validate_crop (ec_crop c) = Inr () \<and> validate_decision (ec_decision c) = Inr () \<and>
     validate_performance (ec_performance c) = Inr ()"
  by (simp add: validate_engine_config_def result_simps)

section \<open>Resource budget\<close>

record ResourceBudget =
  max_image_bytes :: nat
  max_tile_count :: nat
  max_crop_count :: nat
  max_tensor_elements :: nat
  budget_max_result_bytes :: nat
  max_queue_memory_bytes :: nat

definition default_resource_budget :: ResourceBudget where
  "default_resource_budget =
     \<lparr>max_image_bytes = 128 * 1024 * 1024, max_tile_count = 256, max_crop_count = 256,
      max_tensor_elements = 64 * 1024 * 1024, budget_max_result_bytes = 64 * 1024 * 1024,
      max_queue_memory_bytes = 512 * 1024 * 1024\<rparr>"

definition validate_resource_budget :: "ResourceBudget \<Rightarrow> unit result" where
  "validate_resource_budget b = check_all
     [throw_if (max_image_bytes b = 0 \<or> max_image_bytes b > 1024 * 1024 * 1024)
        (ConfigurationError ''resource_budget.max_image_bytes must be in (0, 1 GiB]''),
      throw_if (max_tile_count b = 0 \<or> max_tile_count b > 4096)
        (ConfigurationError ''resource_budget.max_tile_count must be in [1, 4096]''),
      throw_if (max_crop_count b = 0 \<or> max_crop_count b > 4096)
        (ConfigurationError ''resource_budget.max_crop_count must be in [1, 4096]''),
      throw_if (max_tensor_elements b = 0 \<or> max_tensor_elements b > 512 * 1024 * 1024)
        (ConfigurationError ''resource_budget.max_tensor_elements must be in (0, 512M]''),
      throw_if (budget_max_result_bytes b = 0 \<or> budget_max_result_bytes b > 1024 * 1024 * 1024)
        (ConfigurationError ''resource_budget.max_result_bytes must be in (0, 1 GiB]''),
      throw_if (max_queue_memory_bytes b = 0 \<or> max_queue_memory_bytes b > 8 * 1024 * 1024 * 1024)
        (ConfigurationError ''resource_budget.max_queue_memory_bytes must be in (0, 8 GiB]'')]"

definition require_resource_count :: "nat \<Rightarrow> nat \<Rightarrow> string \<Rightarrow> unit result" where
  "require_resource_count v maximum resource =
     throw_if (v > maximum) (ResourceExhaustedError (resource @ '' exceeds configured resource budget''))"

lemma default_resource_budget_valid: "validate_resource_budget default_resource_budget = Inr ()"
  by (simp add: validate_resource_budget_def default_resource_budget_def result_simps)

end
