(* ===== verification/Plate_Grammar.thy ===== *)
theory Plate_Grammar
  imports Domain
begin

text \<open>
  The Turkish plate grammar (\<^verbatim>\<open>application/turkish_plate_grammar.cpp\<close>): construction of the letter
  table, normalisation, the full-plate and the prefix recogniser. The last section states the
  plate format abstractly and shows that the recogniser accepts exactly it, and that the prefix
  recogniser accepts exactly the strings that can still be completed to a plate.
\<close>

section \<open>Characters\<close>

abbreviation byte_of :: "char \<Rightarrow> nat" where
  "byte_of c \<equiv> of_char c"

definition is_ascii_digit :: "char \<Rightarrow> bool" where
  "is_ascii_digit c = (48 \<le> byte_of c \<and> byte_of c \<le> 57)"

definition is_ascii_space :: "char \<Rightarrow> bool" where
  "is_ascii_space c = (c = CHR '' '' \<or> c = CHR 0x09 \<or> c = CHR 0x0D \<or> c = CHR 0x0A)"

definition ascii_upper :: "char \<Rightarrow> char" where
  "ascii_upper c = (if 97 \<le> byte_of c \<and> byte_of c \<le> 122 then char_of (byte_of c - 32) else c)"

fun allowed_digit_count :: "nat \<Rightarrow> nat \<Rightarrow> bool" where
  "allowed_digit_count letter_count digit_count =
     (if letter_count = 1 then digit_count = 4 \<or> digit_count = 5
      else if letter_count = 2 then digit_count = 3 \<or> digit_count = 4
      else if letter_count = 3 then digit_count = 2 \<or> digit_count = 3
      else False)"

fun maximum_digit_count :: "nat \<Rightarrow> nat" where
  "maximum_digit_count letter_count =
     (if letter_count = 1 then 5 else if letter_count = 2 then 4 else if letter_count = 3 then 3 else 0)"

section \<open>Construction\<close>

record TurkishPlateGrammarConfig =
  allowed_letters :: string
  strip_ascii_whitespace :: bool
  strip_hyphen :: bool
  maximum_input_length :: nat

definition default_grammar_config :: TurkishPlateGrammarConfig where
  "default_grammar_config =
     \<lparr>allowed_letters = ''ABCDEFGHIJKLMNOPRSTUVYZ'', strip_ascii_whitespace = True,
      strip_hyphen = True, maximum_input_length = 32\<rparr>"

text \<open>The object: its configuration and the table of 128 flags.\<close>

record TurkishPlateGrammar =
  grammar_config :: TurkishPlateGrammarConfig
  letter_table :: "bool list"

definition is_allowed_letter :: "TurkishPlateGrammar \<Rightarrow> char \<Rightarrow> bool" where
  "is_allowed_letter g c = (byte_of c < length (letter_table g) \<and> letter_table g ! byte_of c)"

definition add_letter :: "char \<Rightarrow> bool list \<Rightarrow> bool list result" where
  "add_letter raw table =
     (let value = ascii_upper raw; byte = byte_of value
      in if byte \<ge> length table \<or> byte < 65 \<or> 90 < byte \<or> table ! byte
         then Inl (ConfigurationError ''Turkish plate allowed letter set must contain unique ASCII letters'')
         else Inr (table[byte := True]))"

definition make_grammar :: "TurkishPlateGrammarConfig \<Rightarrow> TurkishPlateGrammar result" where
  "make_grammar config =
     (if allowed_letters config = [] \<or> length (allowed_letters config) > 26 \<or>
         maximum_input_length config = 0 \<or> maximum_input_length config > 256
      then Inl (ConfigurationError ''Turkish plate grammar configuration is invalid'')
      else res_bind (res_fold add_letter (allowed_letters config) (replicate 128 False))
        (\<lambda>table. Inr \<lparr>grammar_config = config, letter_table = table\<rparr>))"

section \<open>Normalisation\<close>

fun normalize_loop :: "TurkishPlateGrammarConfig \<Rightarrow> string \<Rightarrow> string \<Rightarrow> string" where
  "normalize_loop config [] normalized = normalized"
| "normalize_loop config (raw # text) normalized =
     (if byte_of raw \<ge> 128 then []
      else if strip_ascii_whitespace config \<and> is_ascii_space raw then normalize_loop config text normalized
      else if strip_hyphen config \<and> raw = CHR ''-'' then normalize_loop config text normalized
      else normalize_loop config text (normalized @ [ascii_upper raw]))"

definition normalize_text :: "TurkishPlateGrammar \<Rightarrow> string \<Rightarrow> string" where
  "normalize_text g text =
     (if length text > maximum_input_length (grammar_config g) then []
      else normalize_loop (grammar_config g) text [])"

section \<open>Recognition\<close>

text \<open>The number the first two characters spell; only read when both are digits.\<close>

definition two_digit_code :: "string \<Rightarrow> nat" where
  "two_digit_code s = (byte_of (s ! 0) - 48) * 10 + (byte_of (s ! 1) - 48)"

definition province_code :: "TurkishPlateGrammar \<Rightarrow> string \<Rightarrow> nat option" where
  "province_code g text =
     (let normalized = normalize_text g text
      in if length normalized < 2 \<or> \<not> is_ascii_digit (normalized ! 0) \<or> \<not> is_ascii_digit (normalized ! 1)
         then None
         else let code = two_digit_code normalized
              in if code < 1 \<or> code > 81 then None else Some code)"

text \<open>The letter loop: letters counted and the rest of the text, or \<open>None\<close> at a fourth letter.\<close>

fun scan_letters :: "TurkishPlateGrammar \<Rightarrow> string \<Rightarrow> nat \<Rightarrow> (nat \<times> string) option" where
  "scan_letters g [] letter_count = Some (letter_count, [])"
| "scan_letters g (c # cs) letter_count =
     (if is_allowed_letter g c
      then if letter_count + 1 > 3 then None else scan_letters g cs (letter_count + 1)
      else Some (letter_count, c # cs))"

definition is_valid_normalized :: "TurkishPlateGrammar \<Rightarrow> string \<Rightarrow> bool" where
  "is_valid_normalized g s =
     (if length s < 6 \<or> length s > 8 \<or> \<not> is_ascii_digit (s ! 0) \<or> \<not> is_ascii_digit (s ! 1) then False
      else if two_digit_code s < 1 \<or> two_digit_code s > 81 then False
      else case scan_letters g (drop 2 s) 0 of
        None \<Rightarrow> False
      | Some (letter_count, rest) \<Rightarrow>
          if letter_count = 0 then False
          else if dropWhile is_ascii_digit rest \<noteq> [] then False
          else allowed_digit_count letter_count (length rest))"

definition is_valid :: "TurkishPlateGrammar \<Rightarrow> string \<Rightarrow> bool" where
  "is_valid g text = (let normalized = normalize_text g text in normalized \<noteq> [] \<and> is_valid_normalized g normalized)"

definition is_valid_prefix :: "TurkishPlateGrammar \<Rightarrow> string \<Rightarrow> bool" where
  "is_valid_prefix g prefix =
     (let s = normalize_text g prefix
      in if prefix = [] then True
         else if s = [] \<or> length s > 8 then False
         else if \<not> is_ascii_digit (s ! 0) then False
         else if length s = 1 then 48 \<le> byte_of (s ! 0) \<and> byte_of (s ! 0) \<le> 56
         else if \<not> is_ascii_digit (s ! 1) then False
         else if two_digit_code s < 1 \<or> two_digit_code s > 81 then False
         else if length s = 2 then True
         else case scan_letters g (drop 2 s) 0 of
           None \<Rightarrow> False
         | Some (letter_count, rest) \<Rightarrow>
             if letter_count = 0 then False
             else if rest = [] then True
             else if dropWhile is_ascii_digit rest \<noteq> [] then False
             else length rest > 0 \<and> length rest \<le> maximum_digit_count letter_count)"

section \<open>The letter table\<close>

definition letters :: "TurkishPlateGrammar \<Rightarrow> char set" where
  "letters g = {c. is_allowed_letter g c}"

definition grammar_ok :: "TurkishPlateGrammar \<Rightarrow> bool" where
  "grammar_ok g = ((\<exists>c. is_allowed_letter g c) \<and>
     (\<forall>c. is_allowed_letter g c \<longrightarrow> 65 \<le> byte_of c \<and> byte_of c \<le> 90) \<and>
     maximum_input_length (grammar_config g) \<in> {1..256})"

lemma add_letter_table:
  assumes "add_letter raw table = Inr table'"
  shows "length table' = length table" and "65 \<le> byte_of (ascii_upper raw)" "byte_of (ascii_upper raw) \<le> 90"
    and "i < length table \<Longrightarrow> table' ! i \<longleftrightarrow> i = byte_of (ascii_upper raw) \<or> table ! i"
  using assms by (auto simp: add_letter_def Let_def nth_list_update split: if_splits)

lemma add_letters_table:
  assumes "res_fold add_letter cs table = Inr table'"
  shows "length table' = length table \<and> (\<forall>c \<in> set cs. 65 \<le> byte_of (ascii_upper c) \<and> byte_of (ascii_upper c) \<le> 90) \<and>
    (\<forall>i < length table. table' ! i \<longleftrightarrow> i \<in> (\<lambda>c. byte_of (ascii_upper c)) ` set cs \<or> table ! i)"
  using assms
proof (induction cs arbitrary: table)
  case (Cons c cs)
  then obtain t where c: "add_letter c table = Inr t" and cs: "res_fold add_letter cs t = Inr table'"
    by (auto simp: result_simps)
  from Cons.IH [OF cs] add_letter_table [OF c] show ?case by auto
qed simp

lemma make_grammar_table:
  assumes "make_grammar config = Inr g"
  shows "grammar_config g = config" and "length (letter_table g) = 128"
    and "letters g = ascii_upper ` set (allowed_letters config)"
    and "\<forall>c \<in> letters g. 65 \<le> byte_of c \<and> byte_of c \<le> 90"
proof -
  from assms obtain t where t: "res_fold add_letter (allowed_letters config) (replicate 128 False) = Inr t"
    and g: "g = \<lparr>grammar_config = config, letter_table = t\<rparr>"
    by (auto simp: make_grammar_def result_simps split: if_splits)
  note T = add_letters_table [OF t]
  show "grammar_config g = config" "length (letter_table g) = 128" using T g by simp_all
  have inj: "byte_of c = byte_of d \<longleftrightarrow> c = d" for c d :: char by simp
  have "is_allowed_letter g c \<longleftrightarrow> c \<in> ascii_upper ` set (allowed_letters config)" for c
  proof -
    have "is_allowed_letter g c \<longleftrightarrow> byte_of c < 128 \<and> byte_of c \<in> (\<lambda>c. byte_of (ascii_upper c)) ` set (allowed_letters config)"
      using T by (auto simp: is_allowed_letter_def g)
    also have "\<dots> \<longleftrightarrow> c \<in> ascii_upper ` set (allowed_letters config)"
      using T inj by fastforce
    finally show ?thesis .
  qed
  then show L: "letters g = ascii_upper ` set (allowed_letters config)" by (auto simp: letters_def)
  then show "\<forall>c \<in> letters g. 65 \<le> byte_of c \<and> byte_of c \<le> 90" using T by auto
qed

lemma make_grammar_ok: "make_grammar config = Inr g \<Longrightarrow> grammar_ok g"
proof -
  assume g: "make_grammar config = Inr g"
  note T = make_grammar_table [OF g]
  from g have "allowed_letters config \<noteq> []" and m: "maximum_input_length config \<in> {1..256}"
    by (auto simp: make_grammar_def split: if_splits)
  then have "ascii_upper (hd (allowed_letters config)) \<in> letters g" using T(3) by simp
  then show ?thesis using T(1,4) m by (auto simp: grammar_ok_def letters_def)
qed

lemma letter_not_digit: "grammar_ok g \<Longrightarrow> is_allowed_letter g c \<Longrightarrow> \<not> is_ascii_digit c"
  by (auto simp: grammar_ok_def is_ascii_digit_def)

section \<open>Normalised text\<close>

text \<open>A character that normalisation copies unchanged.\<close>

definition normal_char :: "TurkishPlateGrammarConfig \<Rightarrow> char \<Rightarrow> bool" where
  "normal_char config c = (byte_of c < 128 \<and> \<not> (97 \<le> byte_of c \<and> byte_of c \<le> 122) \<and>
     \<not> (strip_ascii_whitespace config \<and> is_ascii_space c) \<and> \<not> (strip_hyphen config \<and> c = CHR ''-''))"

lemma byte_of_ascii_upper: "97 \<le> byte_of c \<Longrightarrow> byte_of c \<le> 122 \<Longrightarrow> byte_of (ascii_upper c) = byte_of c - 32"
  by (simp add: ascii_upper_def of_char_of)

lemma normal_char_ascii_upper:
  assumes "byte_of c < 128" and "\<not> (strip_ascii_whitespace config \<and> is_ascii_space c)"
    and "\<not> (strip_hyphen config \<and> c = CHR ''-'')"
  shows "normal_char config (ascii_upper c)"
proof (cases "97 \<le> byte_of c \<and> byte_of c \<le> 122")
  case True
  then have b: "byte_of (ascii_upper c) = byte_of c - 32" by (simp add: byte_of_ascii_upper)
  with True have "65 \<le> byte_of (ascii_upper c)" "byte_of (ascii_upper c) \<le> 90" by linarith+
  then show ?thesis by (auto simp: normal_char_def is_ascii_space_def)
next
  case False
  with assms show ?thesis by (auto simp: normal_char_def ascii_upper_def)
qed

lemma normalize_loop_normal:
  "\<forall>c \<in> set acc. normal_char config c \<Longrightarrow> \<forall>c \<in> set (normalize_loop config text acc). normal_char config c"
  by (induction config "text" acc rule: normalize_loop.induct) (auto simp: normal_char_ascii_upper)

lemma normalize_loop_id:
  "\<forall>c \<in> set text. normal_char config c \<Longrightarrow> normalize_loop config text acc = acc @ text"
  by (induction "text" arbitrary: acc) (auto simp: normal_char_def ascii_upper_def)

lemma length_normalize_loop: "length (normalize_loop config text acc) \<le> length acc + length text"
proof (induction "text" arbitrary: acc)
  case (Cons c cs)
  from Cons.IH [of acc] Cons.IH [of "acc @ [ascii_upper c]"] show ?case by auto
qed simp

lemma normalize_normal: "\<forall>c \<in> set (normalize_text g text). normal_char (grammar_config g) c"
  using normalize_loop_normal [of "[]"] by (simp add: normalize_text_def)

lemma length_normalize: "length (normalize_text g text) \<le> length text"
  using length_normalize_loop [of _ "text" "[]"] by (simp add: normalize_text_def)

lemma normalize_id:
  "\<forall>c \<in> set s. normal_char (grammar_config g) c \<Longrightarrow> length s \<le> maximum_input_length (grammar_config g) \<Longrightarrow>
   normalize_text g s = s"
  by (simp add: normalize_text_def normalize_loop_id)

lemma normalize_length_bound: "length (normalize_text g text) \<le> maximum_input_length (grammar_config g)"
  using length_normalize_loop [of "grammar_config g" "text" "[]"]
  by (auto simp: normalize_text_def intro: le_trans)

lemma normalize_idem: "normalize_text g (normalize_text g text) = normalize_text g text"
  by (rule normalize_id [OF normalize_normal normalize_length_bound])

section \<open>The plate format\<close>

text \<open>
  Two digits spelling a province 01 to 81, one to three allowed letters, and digits: four or five
  after one letter, three or four after two, two or three after three.
\<close>

definition plate_format :: "char set \<Rightarrow> string \<Rightarrow> bool" where
  "plate_format A s \<longleftrightarrow> (\<exists>p l d. s = p @ l @ d \<and>
     length p = 2 \<and> list_all is_ascii_digit p \<and> two_digit_code p \<in> {1..81} \<and>
     set l \<subseteq> A \<and> length l \<in> {1..3} \<and>
     list_all is_ascii_digit d \<and> length d \<in> {5 - length l, 6 - length l})"

lemma plate_formatI:
  "length p = 2 \<Longrightarrow> list_all is_ascii_digit p \<Longrightarrow> two_digit_code p \<in> {1..81} \<Longrightarrow>
   set l \<subseteq> A \<Longrightarrow> length l \<in> {1..3} \<Longrightarrow> list_all is_ascii_digit d \<Longrightarrow>
   length d \<in> {5 - length l, 6 - length l} \<Longrightarrow> plate_format A (p @ l @ d)"
  unfolding plate_format_def by blast

lemma scan_letters_eq:
  "n \<le> 3 \<Longrightarrow> scan_letters g s n =
     (let l = takeWhile (is_allowed_letter g) s
      in if n + length l > 3 then None else Some (n + length l, dropWhile (is_allowed_letter g) s))"
  by (induction s arbitrary: n) (auto simp: Let_def)

lemma letters_then_digits:
  assumes "grammar_ok g" and "set l \<subseteq> letters g" and "list_all is_ascii_digit d"
  shows "takeWhile (is_allowed_letter g) (l @ d) = l" and "dropWhile (is_allowed_letter g) (l @ d) = d"
proof -
  have l: "\<forall>c \<in> set l. is_allowed_letter g c" using assms(2) by (auto simp: letters_def)
  have "d = [] \<or> \<not> is_allowed_letter g (hd d)"
    using assms(1,3) letter_not_digit by (cases d) auto
  then have "takeWhile (is_allowed_letter g) d = []" and "dropWhile (is_allowed_letter g) d = d"
    by (cases d; auto)+
  with l show "takeWhile (is_allowed_letter g) (l @ d) = l" and "dropWhile (is_allowed_letter g) (l @ d) = d"
    by (simp_all add: takeWhile_append2 dropWhile_append2)
qed

lemma allowed_digit_count_iff:
  "allowed_digit_count k m \<longleftrightarrow> k \<in> {1..3} \<and> m \<in> {5 - k, 6 - k}"
  by (auto simp: Suc_le_eq le_Suc_eq numeral_3_eq_3 numeral_2_eq_2)

lemma maximum_digit_count_eq: "k \<in> {1..3} \<Longrightarrow> maximum_digit_count k = 6 - k"
  by (auto simp: le_Suc_eq numeral_3_eq_3)

lemma maximum_digit_count_letters:
  "l \<noteq> [] \<Longrightarrow> \<not> 3 < length l \<Longrightarrow> maximum_digit_count (length l) = 6 - length l"
  by (rule maximum_digit_count_eq) (simp add: Suc_le_eq)

lemma dropWhile_Nil_iff_all: "dropWhile P xs = [] \<longleftrightarrow> list_all P xs"
  by (simp add: dropWhile_eq_Nil_conv list_all_iff)

lemma two_digit_code_append: "length p = 2 \<Longrightarrow> two_digit_code (p @ s) = two_digit_code p"
  by (simp add: two_digit_code_def nth_append)

lemma list_all_2: "length p = 2 \<Longrightarrow> (\<forall>c \<in> set p. P c) \<longleftrightarrow> P (p ! 0) \<and> P (p ! 1)"
  by (cases p; cases "tl p") auto

text \<open>The part after the province: the shape both recognisers test.\<close>

lemma is_valid_normalized_split:
  assumes "length p = 2"
  shows "is_valid_normalized g (p @ r) \<longleftrightarrow>
    list_all is_ascii_digit p \<and> two_digit_code p \<in> {1..81} \<and>
    (let l = takeWhile (is_allowed_letter g) r; d = dropWhile (is_allowed_letter g) r
     in length l \<in> {1..3} \<and> list_all is_ascii_digit d \<and> length d \<in> {5 - length l, 6 - length l})"
proof -
  let ?l = "takeWhile (is_allowed_letter g) r" and ?d = "dropWhile (is_allowed_letter g) r"
  have len: "length r = length ?l + length ?d"
    by (metis length_append takeWhile_dropWhile_id)
  show ?thesis
    using assms len
    by (auto simp: is_valid_normalized_def scan_letters_eq Let_def dropWhile_Nil_iff_all list_all_2 nth_append
         two_digit_code_append allowed_digit_count_iff list_all_iff Suc_le_eq simp del: allowed_digit_count.simps split: if_splits)
qed

lemma is_valid_normalized_iff_format:
  assumes g: "grammar_ok g"
  shows "is_valid_normalized g s \<longleftrightarrow> plate_format (letters g) s"
proof
  assume v: "is_valid_normalized g s"
  define p r where "p = take 2 s" and "r = drop 2 s"
  from v have "length s \<ge> 6" by (auto simp: is_valid_normalized_def split: if_splits)
  then have s: "s = p @ r" and p: "length p = 2" by (simp_all add: p_def r_def)
  let ?l = "takeWhile (is_allowed_letter g) r" and ?d = "dropWhile (is_allowed_letter g) r"
  have "s = p @ ?l @ ?d" using s by simp
  moreover have "set ?l \<subseteq> letters g" by (auto simp: letters_def dest: set_takeWhileD)
  ultimately show "plate_format (letters g) s"
    using v [unfolded s is_valid_normalized_split [OF p]] p
    unfolding plate_format_def Let_def by blast
next
  assume "plate_format (letters g) s"
  then obtain p l d where s: "s = p @ l @ d" and p: "length p = 2" and f: "list_all is_ascii_digit p"
    "two_digit_code p \<in> {1..81}" "set l \<subseteq> letters g" "length l \<in> {1..3}" "list_all is_ascii_digit d"
    "length d \<in> {5 - length l, 6 - length l}" unfolding plate_format_def by blast
  with letters_then_digits [OF g f(3,5)] show "is_valid_normalized g s"
    by (simp only: s is_valid_normalized_split [OF p] Let_def simp_thms)
qed

lemma plate_format_normal:
  assumes "grammar_ok g" and "plate_format (letters g) s"
  shows "\<forall>c \<in> set s. normal_char (grammar_config g) c"
proof -
  have "normal_char (grammar_config g) c" if "is_ascii_digit c" for c
    using that by (auto simp: normal_char_def is_ascii_digit_def is_ascii_space_def)
  moreover have "normal_char (grammar_config g) c" if "c \<in> letters g" for c
    using that assms(1) by (force simp: normal_char_def grammar_ok_def letters_def is_ascii_space_def)
  ultimately show ?thesis using assms(2) by (force simp: plate_format_def list_all_iff)
qed

section \<open>Prefixes\<close>

lemma is_valid_prefix_split:
  assumes "normalize_text g (p @ r) = p @ r" and "length p = 2"
  shows "is_valid_prefix g (p @ r) \<longleftrightarrow>
    length r \<le> 6 \<and> list_all is_ascii_digit p \<and> two_digit_code p \<in> {1..81} \<and>
    (r = [] \<or> (let l = takeWhile (is_allowed_letter g) r; d = dropWhile (is_allowed_letter g) r
     in length l \<in> {1..3} \<and> list_all is_ascii_digit d \<and> length d \<le> 6 - length l))"
proof -
  obtain l d where l: "takeWhile (is_allowed_letter g) r = l" and d: "dropWhile (is_allowed_letter g) r = d"
    by blast
  have r: "r = l @ d" using l d takeWhile_dropWhile_id by metis
  have scan: "scan_letters g r 0 = (if length l > 3 then None else Some (length l, d))"
    by (simp add: scan_letters_eq l d)
  have "p \<noteq> []" "length (p @ r) \<noteq> 1" using assms(2) by auto
  with assms scan show ?thesis unfolding l d
    by (auto simp: is_valid_prefix_def Let_def dropWhile_Nil_iff_all list_all_2 nth_append r
          two_digit_code_append maximum_digit_count_letters list_all_iff Suc_le_eq simp del: maximum_digit_count.simps)
qed


lemma plate_format_prefix_valid:
  assumes g: "grammar_ok g" and n: "normalize_text g (p @ r) = p @ r" and p: "length p = 2"
    and f: "plate_format (letters g) (p @ r @ t)"
  shows "is_valid_prefix g (p @ r)"
proof -
  from f p obtain l d where rt: "r @ t = l @ d" and c: "list_all is_ascii_digit p" "two_digit_code p \<in> {1..81}"
    and l: "set l \<subseteq> letters g" "length l \<in> {1..3}"
    and d: "list_all is_ascii_digit d" "length d \<in> {5 - length l, 6 - length l}"
    unfolding plate_format_def by (metis append_eq_append_conv)
  have len: "length r \<le> 6" using l d arg_cong [OF rt, of length] by auto
  from rt consider us where "r @ us = l" | us where "r = l @ us" "us @ t = d"
    by (auto simp: append_eq_append_conv2)
  then show ?thesis
  proof cases
    case 1
    then have "set r \<subseteq> letters g" "length r \<le> 3" using l by auto
    with letters_then_digits [OF g, of r "[]"]
    have tw: "takeWhile (is_allowed_letter g) r = r" "dropWhile (is_allowed_letter g) r = []"
      by (simp_all only: append_Nil2 list.pred_inject)
    with c len \<open>length r \<le> 3\<close> show ?thesis
      unfolding is_valid_prefix_split [OF n p] Let_def tw by (cases "r = []") (simp_all add: Suc_le_eq)
  next
    case (2 us)
    then have "list_all is_ascii_digit us" "length us \<le> 6 - length l" using d by auto
    with letters_then_digits [OF g l(1), of us] c len 2(1) l show ?thesis
      unfolding is_valid_prefix_split [OF n p] Let_def by simp
  qed
qed

lemma valid_prefix_completes:
  assumes g: "grammar_ok g" and n: "normalize_text g (p @ r) = p @ r" and p: "length p = 2"
    and v: "is_valid_prefix g (p @ r)"
  shows "\<exists>t. plate_format (letters g) (p @ r @ t)"
proof -
  from g obtain a where a: "a \<in> letters g" by (auto simp: grammar_ok_def letters_def)
  define l d where "l = takeWhile (is_allowed_letter g) r" and "d = dropWhile (is_allowed_letter g) r"
  have r: "r = l @ d" by (simp add: l_def d_def)
  have sl: "set l \<subseteq> letters g" by (auto simp: l_def letters_def dest: set_takeWhileD)
  from v [unfolded is_valid_prefix_split [OF n p] Let_def, folded l_def d_def]
  have c: "list_all is_ascii_digit p" "two_digit_code p \<in> {1..81}"
    and s: "r = [] \<or> length l \<in> {1..3} \<and> list_all is_ascii_digit d \<and> length d \<le> 6 - length l" by auto
  have zeros: "list_all is_ascii_digit (replicate k CHR ''0'')" for k
    by (simp add: list_all_iff is_ascii_digit_def)
  show ?thesis
  proof (cases "r = []")
    case True
    have "plate_format (letters g) (p @ [a] @ replicate 4 CHR ''0'')"
      by (rule plate_formatI) (use c a p zeros in auto)
    with True show ?thesis by auto
  next
    case False
    with s have "plate_format (letters g) (p @ l @ d @ replicate (5 - length l - length d) CHR ''0'')"
      by (intro plate_formatI) (use c sl p zeros in auto)
    then show ?thesis unfolding r by auto
  qed
qed

text \<open>Prefixes shorter than the province code.\<close>

lemma short_prefix_completes:
  assumes g: "grammar_ok g" and b: "48 \<le> byte_of c" "byte_of c \<le> 56"
  shows "\<exists>t. plate_format (letters g) (c # t)"
proof -
  from g obtain a where a: "a \<in> letters g" by (auto simp: grammar_ok_def letters_def)
  define e where "e = (if byte_of c = 48 then CHR ''1'' else CHR ''0'')"
  have "list_all is_ascii_digit [c, e]" "two_digit_code [c, e] \<in> {1..81}"
    using b by (auto simp: e_def is_ascii_digit_def two_digit_code_def)
  moreover have "list_all is_ascii_digit (replicate 4 CHR ''0'')" by (simp add: list_all_iff is_ascii_digit_def)
  ultimately have "plate_format (letters g) ([c, e] @ [a] @ replicate 4 CHR ''0'')"
    using a by (intro plate_formatI) auto
  then show ?thesis by auto
qed

lemma plate_format_first_digit:
  "plate_format A (c # t) \<Longrightarrow> 48 \<le> byte_of c \<and> byte_of c \<le> 56"
proof -
  assume "plate_format A (c # t)"
  then obtain p r where "c # t = p @ r" and p: "length p = 2" "list_all is_ascii_digit p" "two_digit_code p \<in> {1..81}"
    unfolding plate_format_def by blast
  then obtain e where "p = [c, e]" by (cases p; cases "tl p") auto
  with p show ?thesis by (auto simp: is_ascii_digit_def two_digit_code_def)
qed

lemma is_valid_prefix_iff_completes:
  assumes g: "grammar_ok g" and n: "normalize_text g s = s"
  shows "is_valid_prefix g s \<longleftrightarrow> (\<exists>t. plate_format (letters g) (s @ t))"
proof -
  consider "s = []" | c where "s = [c]" | p r where "s = p @ r" "length p = 2"
    by (cases s; cases "tl s") (auto intro: that(3) [of "take 2 s" "drop 2 s"])
  then show ?thesis
  proof cases
    case 1
    with short_prefix_completes [OF g, of "CHR ''0''"] show ?thesis by (auto simp: is_valid_prefix_def)
  next
    case 2
    with n have "is_valid_prefix g s \<longleftrightarrow> 48 \<le> byte_of c \<and> byte_of c \<le> 56"
      by (auto simp: is_valid_prefix_def is_ascii_digit_def)
    with 2 short_prefix_completes [OF g, of c] plate_format_first_digit [of "letters g" c] show ?thesis
      by auto
  next
    case 3
    with n plate_format_prefix_valid [OF g _ 3(2)] valid_prefix_completes [OF g _ 3(2)] show ?thesis by auto
  qed
qed

section \<open>Properties\<close>

lemma default_grammar_accepts:
  obtains g where "make_grammar default_grammar_config = Inr g" and "is_valid_normalized g ''34ABC123''"
    and "normalize_text g ''34AB'' = ''34AB''" and "is_valid g '' 34-abc 123''"
proof -
  have "map_sum (\<lambda>_. ()) (\<lambda>g. (is_valid_normalized g ''34ABC123'', normalize_text g ''34AB'', is_valid g '' 34-abc 123''))
    (make_grammar default_grammar_config) = Inr (True, ''34AB'', True)" by code_simp
  then show ?thesis using that by (auto dest!: map_sum_Inr_obtain)
qed

text \<open>
  C4: a grammar that the constructor returns accepts exactly the abstract plate format over the
  configured letters (in upper case), whatever the text: the recogniser's loops neither miss a
  plate nor accept anything else.
\<close>

theorem grammar_accepts_format:
  assumes "make_grammar config = Inr g"
  shows "is_valid_normalized g s \<longleftrightarrow> plate_format (ascii_upper ` set (allowed_letters config)) s"
  using is_valid_normalized_iff_format [OF make_grammar_ok [OF assms]] make_grammar_table(3) [OF assms] by simp

theorem grammar_accepts_format_witness:
  "\<exists>g. make_grammar default_grammar_config = Inr g \<and> plate_format (ascii_upper ` set (allowed_letters default_grammar_config)) ''34ABC123''"
proof -
  obtain g where g: "make_grammar default_grammar_config = Inr g" and v: "is_valid_normalized g ''34ABC123''"
    by (rule default_grammar_accepts)
  from grammar_accepts_format [OF g] v g show ?thesis by blast
qed

text \<open>
  C5: the prefix recogniser that prunes the beam search is exact: a normalised text is accepted as
  a prefix iff it can be completed to a plate that the full recogniser accepts. No plate is ever
  pruned, and no dead end is kept.
\<close>

theorem grammar_prefix_exact:
  assumes "make_grammar config = Inr g" and "normalize_text g s = s"
  shows "is_valid_prefix g s \<longleftrightarrow> (\<exists>t. is_valid_normalized g (s @ t))"
  using is_valid_prefix_iff_completes is_valid_normalized_iff_format make_grammar_ok assms by metis

theorem grammar_prefix_exact_witness:
  "\<exists>g. make_grammar default_grammar_config = Inr g \<and> is_valid_prefix g ''34AB''"
proof -
  obtain g where g: "make_grammar default_grammar_config = Inr g" and n: "normalize_text g ''34AB'' = ''34AB''"
    and v: "is_valid_normalized g ''34ABC123''" by (rule default_grammar_accepts)
  from v have "is_valid_normalized g (''34AB'' @ ''C123'')" by simp
  with grammar_prefix_exact [OF g n] g show ?thesis by blast
qed

text \<open>
  Normalising twice is normalising once, and an accepted text normalises to a plate that is a
  fixed point of normalisation, is accepted again, and has a province code between 1 and 81.
\<close>

theorem accepted_plate_canonical:
  assumes "make_grammar config = Inr g" and "is_valid g s"
  shows "normalize_text g (normalize_text g s) = normalize_text g s \<and> is_valid g (normalize_text g s) \<and>
    (\<exists>code. province_code g s = Some code \<and> 1 \<le> code \<and> code \<le> 81)"
proof -
  from assms(2) have v: "normalize_text g s \<noteq> []" "is_valid_normalized g (normalize_text g s)"
    by (simp_all add: is_valid_def Let_def)
  then have "\<exists>code. province_code g s = Some code \<and> 1 \<le> code \<and> code \<le> 81"
    by (auto simp: is_valid_normalized_def province_code_def Let_def split: if_splits)
  with v show ?thesis by (simp add: is_valid_def normalize_idem)
qed

theorem accepted_plate_canonical_witness:
  "\<exists>g. make_grammar default_grammar_config = Inr g \<and> is_valid g (normalize_text g '' 34-abc 123'')"
proof -
  obtain g where g: "make_grammar default_grammar_config = Inr g" and v: "is_valid g '' 34-abc 123''"
    by (rule default_grammar_accepts)
  from accepted_plate_canonical [OF g v] g show ?thesis by blast
qed

end
