(* ===== verification/Engine_World.thy ===== *)
theory Engine_World
  imports Domain
begin

text \<open>
  Calls that look at the world: the steady clock, the stop token and the providers that the
  engine is given. The world answers by instants: the n-th look at the clock or at the stop token
  happens at instant n, and a provider may answer anything that depends on its arguments, on the
  world and on the instant of the call, so hidden state and non-determinism of the providers are
  covered. A call returns its result, or the exception it throws, and the next instant.
\<close>

record World =
  w_clock :: "nat \<Rightarrow> int"      \<comment> \<open>nanoseconds of the steady clock\<close>
  w_stop :: "nat \<Rightarrow> bool"      \<comment> \<open>stop requested\<close>

type_synonym 'a io = "World \<Rightarrow> nat \<Rightarrow> 'a result \<times> nat"

definition io_return :: "'a \<Rightarrow> 'a io" where
  "io_return a = (\<lambda>w n. (Inr a, n))"

definition io_throw :: "exn \<Rightarrow> 'a io" where
  "io_throw e = (\<lambda>w n. (Inl e, n))"

definition io_lift :: "'a result \<Rightarrow> 'a io" where
  "io_lift r = (\<lambda>w n. (r, n))"

definition io_bind :: "'a io \<Rightarrow> ('a \<Rightarrow> 'b io) \<Rightarrow> 'b io" where
  "io_bind m f = (\<lambda>w n. case m w n of (Inl e, n') \<Rightarrow> (Inl e, n') | (Inr a, n') \<Rightarrow> f a w n')"

text \<open>\<open>try\<close>: the handler sees the exception and decides.\<close>

definition io_try :: "'a io \<Rightarrow> (exn \<Rightarrow> 'a io) \<Rightarrow> 'a io" where
  "io_try m h = (\<lambda>w n. case m w n of (Inl e, n') \<Rightarrow> h e w n' | (Inr a, n') \<Rightarrow> (Inr a, n'))"

fun io_fold :: "('a \<Rightarrow> 's \<Rightarrow> 's io) \<Rightarrow> 'a list \<Rightarrow> 's \<Rightarrow> 's io" where
  "io_fold f [] s = io_return s"
| "io_fold f (x # xs) s = io_bind (f x s) (io_fold f xs)"

definition io_now :: "int io" where
  "io_now = (\<lambda>w n. (Inr (w_clock w n), Suc n))"

definition io_stop_requested :: "bool io" where
  "io_stop_requested = (\<lambda>w n. (Inr (w_stop w n), Suc n))"

text \<open>\<open>OperationContext\<close>; a default-constructed stop token can never request a stop.\<close>

record OperationContext =
  op_stoppable :: bool
  op_deadline :: "int option"

definition default_context :: OperationContext where
  "default_context = \<lparr>op_stoppable = False, op_deadline = None\<rparr>"

definition cancellation_requested :: "OperationContext \<Rightarrow> bool io" where
  "cancellation_requested ctx = (if op_stoppable ctx then io_stop_requested else io_return False)"

definition deadline_exceeded :: "OperationContext \<Rightarrow> bool io" where
  "deadline_exceeded ctx =
     (case op_deadline ctx of None \<Rightarrow> io_return False
      | Some d \<Rightarrow> io_bind io_now (\<lambda>t. io_return (d \<le> t)))"

text \<open>The check the components make at their checkpoints.\<close>

definition check_operation :: "OperationContext \<Rightarrow> string \<Rightarrow> string \<Rightarrow> unit io" where
  "check_operation ctx cancelled_msg timeout_msg =
     io_bind (cancellation_requested ctx) (\<lambda>c.
       if c then io_throw (CancelledError cancelled_msg)
       else io_bind (deadline_exceeded ctx) (\<lambda>d.
         if d then io_throw (TimeoutError timeout_msg) else io_return ()))"

text \<open>\<open>duration<double, std::milli>\<close> of a difference of two time points.\<close>

definition fl_of_int :: "float_format \<Rightarrow> int \<Rightarrow> fl" where
  "fl_of_int F n = round_fl F (of_int n)"

definition milliseconds_between :: "int \<Rightarrow> int \<Rightarrow> fl" where
  "milliseconds_between start end = fdiv binary64 (fl_of_int binary64 (end - start)) (Fin 1000000)"

section \<open>Reasoning about results\<close>

named_theorems io_simps "what a call that returned has done"

lemma io_return_Inr [io_simps]: "io_return a w n = (Inr b, n') \<longleftrightarrow> b = a \<and> n' = n"
  by (auto simp: io_return_def)

lemma io_throw_Inr [io_simps]: "io_throw e w n = (Inr b, n') \<longleftrightarrow> False"
  by (auto simp: io_throw_def)

lemma io_lift_Inr [io_simps]: "io_lift r w n = (Inr b, n') \<longleftrightarrow> r = Inr b \<and> n' = n"
  by (auto simp: io_lift_def)

lemma io_bind_Inr [io_simps]:
  "io_bind m f w n = (Inr b, n') \<longleftrightarrow> (\<exists>a k. m w n = (Inr a, k) \<and> f a w k = (Inr b, n'))"
  by (auto simp: io_bind_def split: prod.splits sum.splits)

lemma io_bind_Inl [io_simps]:
  "io_bind m f w n = (Inl e, n') \<longleftrightarrow>
    m w n = (Inl e, n') \<or> (\<exists>a k. m w n = (Inr a, k) \<and> f a w k = (Inl e, n'))"
  by (auto simp: io_bind_def split: prod.splits sum.splits)

lemma io_bind_InlE:
  assumes "io_bind m f w n = (Inl e, n')"
  obtains "m w n = (Inl e, n')" | a k where "m w n = (Inr a, k)" and "f a w k = (Inl e, n')"
  using assms by (auto simp: io_bind_def split: prod.splits sum.splits)

lemma io_try_Inr [io_simps]:
  "io_try m h w n = (Inr b, n') \<longleftrightarrow>
    m w n = (Inr b, n') \<or> (\<exists>e k. m w n = (Inl e, k) \<and> h e w k = (Inr b, n'))"
  by (auto simp: io_try_def split: prod.splits sum.splits)

lemma io_fold_invariant:
  assumes "io_fold f xs s w n = (Inr t, n')" and "I s"
    and "\<And>x s t k k'. x \<in> set xs \<Longrightarrow> I s \<Longrightarrow> f x s w k = (Inr t, k') \<Longrightarrow> I t"
  shows "I t"
  using assms
proof (induction xs arbitrary: s n)
  case (Cons x xs)
  then obtain u k where "f x s w n = (Inr u, k)" and "io_fold f xs u w k = (Inr t, n')"
    by (auto simp: io_simps)
  with Cons show ?case by (metis list.set_intros)
qed (simp add: io_simps)

text \<open>The same with an invariant that follows the processed prefix.\<close>

lemma io_fold_prefix:
  assumes "io_fold f xs s w n = (Inr t, n')" and "I [] s"
    and "\<And>ys x s t k k'. I ys s \<Longrightarrow> x \<in> set xs \<Longrightarrow> f x s w k = (Inr t, k') \<Longrightarrow> I (ys @ [x]) t"
  shows "I xs t"
proof -
  have "I (ys @ xs) t" if "io_fold f xs s w n = (Inr t, n')" and "I ys s"
      and "\<And>ys x s t k k'. I ys s \<Longrightarrow> x \<in> set xs \<Longrightarrow> f x s w k = (Inr t, k') \<Longrightarrow> I (ys @ [x]) t" for ys xs s n
    using that
  proof (induction xs arbitrary: ys s n)
    case (Cons x xs)
    then obtain u k where u: "f x s w n = (Inr u, k)" and r: "io_fold f xs u w k = (Inr t, n')"
      by (auto simp: io_simps)
    have "I (ys @ [x]) u" using Cons.prems(2,3) u by force
    from Cons.IH [OF r this] Cons.prems(3) show ?case by simp
  qed (simp add: io_simps)
  from this [of xs s n "[]"] assms show ?thesis by simp
qed

lemma cancelled_immediately:
  assumes "op_stoppable ctx" and "w_stop w n"
  shows "check_operation ctx c t w n = (Inl (CancelledError c), Suc n)"
  using assms by (simp add: check_operation_def cancellation_requested_def io_stop_requested_def io_bind_def io_throw_def)

lemma deadline_immediately:
  assumes "\<not> op_stoppable ctx" and "op_deadline ctx = Some d" and "d \<le> w_clock w n"
  shows "check_operation ctx c t w n = (Inl (TimeoutError t), Suc n)"
  using assms
  by (simp add: check_operation_def cancellation_requested_def deadline_exceeded_def io_now_def io_bind_def
      io_throw_def io_return_def)

lemma check_operation_Inl:
  "check_operation ctx c t w n = (Inl e, n') \<Longrightarrow> e = CancelledError c \<or> e = TimeoutError t"
  by (auto simp: check_operation_def cancellation_requested_def deadline_exceeded_def io_bind_def io_throw_def
      io_return_def io_now_def io_stop_requested_def split: if_splits option.splits prod.splits)

end
