(* ===== verification/Image_Validation.thy ===== *)
theory Image_Validation
  imports Engine_Config "HOL-Library.Word"
begin

text \<open>
  Image views and their validation (\<^verbatim>\<open>application/image.hpp\<close>,
  \<^verbatim>\<open>application/image_validation.cpp\<close>). Sizes are 64-bit words, so the overflow checks of the
  code are about real wrap-around; \<open>bytes.size()\<close> is the word of the list's length.
\<close>

section \<open>Images\<close>

datatype PixelFormat = gray8 | bgr8 | rgb8

record ImageView =
  img_bytes :: "8 word list"
  img_width :: "64 word"
  img_height :: "64 word"
  img_stride :: "64 word"
  img_format :: PixelFormat

record ImageRegion =
  reg_x :: "64 word"
  reg_y :: "64 word"
  reg_width :: "64 word"
  reg_height :: "64 word"

definition region_empty :: "ImageRegion \<Rightarrow> bool" where
  "region_empty r = (reg_width r = 0 \<or> reg_height r = 0)"

text \<open>An \<open>ImageBuffer\<close> owns its bytes; its view has the same fields.\<close>

type_synonym ImageBuffer = ImageView

record CropHypothesis =
  crop_image :: ImageBuffer
  crop_type :: string
  crop_source :: string
  crop_fingerprint :: "64 word"
  crop_quality :: fl

section \<open>Overflow-checked arithmetic\<close>

definition size_max :: "64 word" where
  "size_max = - 1"

definition checked_add :: "64 word \<Rightarrow> 64 word \<Rightarrow> string \<Rightarrow> 64 word result" where
  "checked_add left right field =
     (if right > size_max - left then Inl (InvalidImageError (field @ '' overflows size_t'')) else Inr (left + right))"

definition checked_multiply :: "64 word \<Rightarrow> 64 word \<Rightarrow> string \<Rightarrow> 64 word result" where
  "checked_multiply left right field =
     (if left \<noteq> 0 \<and> right > size_max div left then Inl (InvalidImageError (field @ '' overflows size_t''))
      else Inr (left * right))"

definition checked_resource_multiply :: "64 word \<Rightarrow> 64 word \<Rightarrow> 64 word \<Rightarrow> string \<Rightarrow> 64 word result" where
  "checked_resource_multiply left right maximum resource =
     (if left \<noteq> 0 \<and> right > size_max div left then Inl (ResourceExhaustedError (resource @ '' size overflows size_t''))
      else let v = left * right in
        if v > maximum then Inl (ResourceExhaustedError (resource @ '' exceeds configured resource budget'')) else Inr v)"

lemma unat_size_max [simp]: "unat size_max = 2 ^ 64 - 1"
  by (simp add: size_max_def unsigned_minus_1_eq_mask mask_eq_exp_minus_1)

lemma unat_less_2_64: "unat (a :: 64 word) < 2 ^ 64"
  using unsigned_less [where 'a = nat, of a] by simp

lemma checked_add_Inr:
  "checked_add a b f = Inr c \<longleftrightarrow> unat a + unat b < 2 ^ 64 \<and> c = a + b \<and> unat c = unat a + unat b"
proof -
  have a: "unat a \<le> 2 ^ 64 - 1" "unat b \<le> 2 ^ 64 - 1" using unat_less_2_64 [of a] unat_less_2_64 [of b] by simp_all
  have "unat (size_max - a) = 2 ^ 64 - 1 - unat a"
    using a(1) by (subst unat_sub) (simp_all add: word_le_nat_alt)
  then have "b > size_max - a \<longleftrightarrow> \<not> unat a + unat b < 2 ^ 64"
    using a by (auto simp: word_less_nat_alt)
  then show ?thesis by (auto simp: checked_add_def unat_word_ariths)
qed

lemma checked_multiply_Inr:
  "checked_multiply a b f = Inr c \<longleftrightarrow> unat a * unat b < 2 ^ 64 \<and> c = a * b \<and> unat c = unat a * unat b"
proof -
  have "b > size_max div a \<longleftrightarrow> \<not> unat a * unat b < 2 ^ 64" if "a \<noteq> 0"
  proof -
    have "0 < unat a" using that by (simp add: unat_gt_0)
    then have "unat b \<le> (2 ^ 64 - 1) div unat a \<longleftrightarrow> unat b * unat a \<le> 2 ^ 64 - 1"
      by (rule less_eq_div_iff_mult_less_eq)
    then show ?thesis by (auto simp: word_less_nat_alt unat_div mult.commute not_less)
  qed
  then show ?thesis
    by (cases "a = 0") (auto simp: checked_multiply_def unat_word_ariths)
qed

section \<open>Validation\<close>

definition pixel_format_channels :: "PixelFormat \<Rightarrow> 64 word" where
  "pixel_format_channels f = (case f of gray8 \<Rightarrow> 1 | bgr8 \<Rightarrow> 3 | rgb8 \<Rightarrow> 3)"

text \<open>A pointer is its bytes or null; the byte count is what the caller claims.\<close>

definition make_image_view :: "8 word list option \<Rightarrow> 64 word \<Rightarrow> 64 word \<Rightarrow> 64 word \<Rightarrow> 64 word \<Rightarrow> PixelFormat \<Rightarrow> ImageView result" where
  "make_image_view data byte_count w h stride fmt =
     (if data = None \<and> byte_count \<noteq> 0
      then Inl (InvalidImageError ''image data pointer is null while byte_count is non-zero'')
      else Inr \<lparr>img_bytes = (case data of None \<Rightarrow> [] | Some bs \<Rightarrow> take (unat byte_count) bs),
                img_width = w, img_height = h, img_stride = stride, img_format = fmt\<rparr>)"

definition bytes_size :: "ImageView \<Rightarrow> 64 word" where
  "bytes_size img = of_nat (length (img_bytes img))"

record ValidatedImage =
  vi_view :: ImageView
  vi_channels :: "64 word"
  vi_minimum_row_bytes :: "64 word"
  vi_required_bytes :: "64 word"

definition validate_image :: "ImageView \<Rightarrow> PerformanceConfig \<Rightarrow> ValidatedImage result" where
  "validate_image img limits =
     res_bind (check_all
       [throw_if (img_width img = 0 \<or> img_height img = 0)
          (InvalidImageError ''image width and height must be greater than zero''),
        throw_if (img_bytes img = []) (InvalidImageError ''image buffer is empty''),
        throw_if (unat (img_width img) > pc_max_image_width limits \<or> unat (img_height img) > pc_max_image_height limits)
          (InvalidImageError ''image dimensions exceed configured limits''),
        throw_if (unat (bytes_size img) > pc_max_image_bytes limits)
          (InvalidImageError ''image buffer exceeds configured byte limit''),
        throw_if (pixel_format_channels (img_format img) = 0) (InvalidImageError ''unsupported pixel format'')])
     (\<lambda>_. let channels = pixel_format_channels (img_format img) in
     res_bind (checked_multiply (img_width img) channels ''image row size'') (\<lambda>minimum_row_bytes.
     res_bind (throw_if (img_stride img < minimum_row_bytes)
       (InvalidImageError ''image stride is smaller than minimum packed row size'')) (\<lambda>_.
     res_bind (checked_multiply (img_stride img) (img_height img - 1) ''image last row offset'') (\<lambda>last_row_offset.
     res_bind (checked_add last_row_offset minimum_row_bytes ''image required byte size'') (\<lambda>required_bytes.
     res_bind (check_all
       [throw_if (required_bytes > bytes_size img)
          (InvalidImageError ''image buffer is smaller than the strided image extent''),
        throw_if (unat required_bytes > pc_max_image_bytes limits)
          (InvalidImageError ''validated image size exceeds configured byte limit'')])
     (\<lambda>_. Inr \<lparr>vi_view = img, vi_channels = channels, vi_minimum_row_bytes = minimum_row_bytes,
               vi_required_bytes = required_bytes\<rparr>))))))"

section \<open>What a validated image promises\<close>

text \<open>The layout of an image over the natural numbers, without wrap-around.\<close>

definition channels_of :: "PixelFormat \<Rightarrow> nat" where
  "channels_of f = (case f of gray8 \<Rightarrow> 1 | bgr8 \<Rightarrow> 3 | rgb8 \<Rightarrow> 3)"

definition row_bytes :: "ImageView \<Rightarrow> nat" where
  "row_bytes img = unat (img_width img) * channels_of (img_format img)"

definition extent_bytes :: "ImageView \<Rightarrow> nat" where
  "extent_bytes img = unat (img_stride img) * (unat (img_height img) - 1) + row_bytes img"

definition image_ok :: "PerformanceConfig \<Rightarrow> ImageView \<Rightarrow> bool" where
  "image_ok limits img \<longleftrightarrow> 0 < unat (img_width img) \<and> 0 < unat (img_height img) \<and>
     unat (img_width img) \<le> pc_max_image_width limits \<and> unat (img_height img) \<le> pc_max_image_height limits \<and>
     length (img_bytes img) \<le> pc_max_image_bytes limits \<and> row_bytes img \<le> unat (img_stride img) \<and>
     extent_bytes img \<le> length (img_bytes img)"

text \<open>The byte of a channel of a pixel.\<close>

definition byte_index :: "ImageView \<Rightarrow> nat \<Rightarrow> nat \<Rightarrow> nat \<Rightarrow> nat" where
  "byte_index img row col ch = row * unat (img_stride img) + col * channels_of (img_format img) + ch"

lemma channels_unat: "unat (pixel_format_channels f) = channels_of f" "pixel_format_channels f \<noteq> 0"
  by (cases f; simp add: pixel_format_channels_def channels_of_def)+

lemma extent_pos: "0 < unat (img_width img) \<Longrightarrow> 0 < extent_bytes img"
  by (cases "img_format img") (simp_all add: extent_bytes_def row_bytes_def channels_of_def)

lemma unat_pred: "a \<noteq> 0 \<Longrightarrow> unat (a - 1 :: 64 word) = unat a - 1"
  by (simp add: unat_minus_one)

lemma byte_index_less:
  assumes "row < unat (img_height img)" and "col < unat (img_width img)" and "ch < channels_of (img_format img)"
  shows "byte_index img row col ch < extent_bytes img"
proof -
  have "row \<le> unat (img_height img) - 1" using assms(1) by simp
  then have "row * unat (img_stride img) \<le> unat (img_stride img) * (unat (img_height img) - 1)"
    by (subst mult.commute) (rule mult_le_mono2)
  moreover have "col * channels_of (img_format img) + ch < row_bytes img"
  proof -
    have "col * channels_of (img_format img) + ch < (col + 1) * channels_of (img_format img)" using assms(3) by simp
    also have "\<dots> \<le> row_bytes img" unfolding row_bytes_def using assms(2) by (intro mult_right_mono) simp_all
    finally show ?thesis .
  qed
  ultimately show ?thesis unfolding byte_index_def extent_bytes_def by linarith
qed

lemma validate_image_Inr:
  assumes len: "length (img_bytes img) < 2 ^ 64"
  shows "validate_image img limits = Inr v \<longleftrightarrow> image_ok limits img \<and>
    v = \<lparr>vi_view = img, vi_channels = pixel_format_channels (img_format img),
         vi_minimum_row_bytes = img_width img * pixel_format_channels (img_format img),
         vi_required_bytes = img_stride img * (img_height img - 1) + img_width img * pixel_format_channels (img_format img)\<rparr> \<and>
    unat (vi_minimum_row_bytes v) = row_bytes img \<and> unat (vi_required_bytes v) = extent_bytes img"
proof -
  have size: "unat (bytes_size img) = length (img_bytes img)"
    using len by (simp add: bytes_size_def unat_of_nat)
  let ?w = "img_width img" and ?h = "img_height img" and ?s = "img_stride img"
  let ?c = "pixel_format_channels (img_format img)"
  show ?thesis
  proof (cases "?w \<noteq> 0 \<and> ?h \<noteq> 0 \<and> img_bytes img \<noteq> []")
    case False
    moreover have "img_bytes img \<noteq> []" if "image_ok limits img"
      using extent_pos [of img] that by (auto simp: image_ok_def)
    ultimately have "\<not> image_ok limits img" by (auto simp: image_ok_def)
    with False show ?thesis by (auto simp: validate_image_def result_simps)
  next
    case True
    have pred: "unat (?h - 1) = unat ?h - 1" using True by (intro unat_pred) simp
    have pos: "0 < unat ?w" "0 < unat ?h" using True by (simp_all add: unat_gt_0)
    have off: "unat (?s * (?h - 1)) = unat ?s * (unat ?h - 1)" if "unat ?s * (unat ?h - 1) < 2 ^ 64"
      using that by (simp add: unat_word_ariths pred)
    have "validate_image img limits = Inr v \<longleftrightarrow>
        unat ?w \<le> pc_max_image_width limits \<and> unat ?h \<le> pc_max_image_height limits \<and>
        length (img_bytes img) \<le> pc_max_image_bytes limits \<and>
        row_bytes img < 2 ^ 64 \<and> row_bytes img \<le> unat ?s \<and>
        unat ?s * (unat ?h - 1) < 2 ^ 64 \<and> extent_bytes img < 2 ^ 64 \<and>
        extent_bytes img \<le> length (img_bytes img) \<and> extent_bytes img \<le> pc_max_image_bytes limits \<and>
        v = \<lparr>vi_view = img, vi_channels = ?c, vi_minimum_row_bytes = ?w * ?c,
         vi_required_bytes = ?s * (?h - 1) + ?w * ?c\<rparr> \<and>
        unat (?w * ?c) = row_bytes img \<and> unat (?s * (?h - 1) + ?w * ?c) = extent_bytes img"
      using True off
      by (auto simp: validate_image_def result_simps Let_def checked_multiply_Inr checked_add_Inr
          size channels_unat pred extent_bytes_def row_bytes_def word_less_nat_alt word_le_nat_alt not_less)
    also have "\<dots> \<longleftrightarrow> image_ok limits img \<and>
        v = \<lparr>vi_view = img, vi_channels = ?c, vi_minimum_row_bytes = ?w * ?c,
         vi_required_bytes = ?s * (?h - 1) + ?w * ?c\<rparr> \<and>
        unat (vi_minimum_row_bytes v) = row_bytes img \<and> unat (vi_required_bytes v) = extent_bytes img"
      using pos len by (auto simp: image_ok_def extent_bytes_def)
    finally show ?thesis .
  qed
qed

lemma word_layout:
  assumes "image_ok limits img" and "length (img_bytes img) < 2 ^ 64"
  shows "unat (img_width img * pixel_format_channels (img_format img)) = row_bytes img"
    and "unat (img_stride img * (img_height img - 1) + img_width img * pixel_format_channels (img_format img)) = extent_bytes img"
proof -
  have "img_height img \<noteq> 0" using assms(1) by (auto simp: image_ok_def)
  note pred = unat_pred [OF this]
  have b: "row_bytes img \<le> extent_bytes img" "extent_bytes img < 2 ^ 64"
    using assms by (simp_all add: image_ok_def extent_bytes_def)
  show 1: "unat (img_width img * pixel_format_channels (img_format img)) = row_bytes img"
    using b by (simp add: unat_word_ariths channels_unat row_bytes_def)
  have "unat (img_stride img * (img_height img - 1)) = unat (img_stride img) * (unat (img_height img) - 1)"
    using b by (simp add: unat_word_ariths pred extent_bytes_def)
  with 1 b show "unat (img_stride img * (img_height img - 1) + img_width img * pixel_format_channels (img_format img)) = extent_bytes img"
    by (simp add: unat_word_ariths extent_bytes_def)
qed

section \<open>Properties\<close>

definition tiny_image :: ImageView where
  "tiny_image = \<lparr>img_bytes = [1, 2, 3, 4, 5, 6, 7], img_width = 2, img_height = 2, img_stride = 4, img_format = gray8\<rparr>"

lemma tiny_image_valid:
  "validate_image tiny_image default_performance_config =
    Inr \<lparr>vi_view = tiny_image, vi_channels = 1, vi_minimum_row_bytes = 2, vi_required_bytes = 6\<rparr>"
  by (simp add: validate_image_def tiny_image_def default_performance_config_def pixel_format_channels_def
      bytes_size_def check_all.simps checked_multiply_def checked_add_def size_max_def)

text \<open>
  C13: the 64-bit checks decide the layout over the natural numbers exactly: an image is accepted
  iff its dimensions and its buffer are within the limits, its stride covers a row, and its
  strided extent fits its buffer, all computed without wrap-around; the reported sizes are those
  extents.
\<close>

theorem image_validation_exact:
  assumes "length (img_bytes img) < 2 ^ 64"
  shows "((\<exists>v. validate_image img limits = Inr v) \<longleftrightarrow> image_ok limits img) \<and>
    (\<forall>v. validate_image img limits = Inr v \<longrightarrow> vi_view v = img \<and> unat (vi_channels v) = channels_of (img_format img) \<and>
      unat (vi_minimum_row_bytes v) = row_bytes img \<and> unat (vi_required_bytes v) = extent_bytes img)"
proof -
  have "\<exists>v. validate_image img limits = Inr v" if "image_ok limits img"
    unfolding validate_image_Inr [OF assms] using that word_layout [OF that assms] by simp
  then show ?thesis unfolding validate_image_Inr [OF assms] by (auto simp: channels_unat)
qed

theorem image_validation_exact_witness:
  "image_ok default_performance_config tiny_image \<and> extent_bytes tiny_image = 6"
proof -
  have len: "length (img_bytes tiny_image) < 2 ^ 64" by (simp add: tiny_image_def)
  from image_validation_exact [OF len, of default_performance_config] tiny_image_valid show ?thesis by fastforce
qed

text \<open>
  Every byte of every pixel of a validated image lies inside its buffer, and below the
  configured byte limit.
\<close>

theorem validated_pixels_in_bounds:
  assumes "length (img_bytes img) < 2 ^ 64" and "validate_image img limits = Inr v"
    and "row < unat (img_height img)" and "col < unat (img_width img)" and "ch < channels_of (img_format img)"
  shows "byte_index img row col ch < length (img_bytes img) \<and>
    byte_index img row col ch < pc_max_image_bytes limits"
  using byte_index_less [OF assms(3-5)] assms(2) by (auto simp: validate_image_Inr [OF assms(1)] image_ok_def)

theorem validated_pixels_in_bounds_witness: "byte_index tiny_image 1 1 0 < 7"
  using validated_pixels_in_bounds [OF _ tiny_image_valid, of 1 1 0]
  by (simp add: tiny_image_def channels_of_def)

end
