(* ===== verification/Recognition_Ensemble.thy ===== *)
theory Recognition_Ensemble
  imports Engine_World Image_Validation
begin

text \<open>
  The ensemble of OCR providers (\<^verbatim>\<open>application/recognition_ensemble.cpp\<close>): every enabled provider
  is called in registration order, its evidence is checked and weighted, and a failure is either
  fatal (a required provider) or recorded as a degradation.
\<close>

section \<open>Registrations\<close>

record IPlateRecognizer =
  rec_name :: string
  rec_recognize :: "ImageView \<Rightarrow> OperationContext \<Rightarrow> RecognitionEvidence io"

record RecognizerRegistration =
  reg_provider :: "IPlateRecognizer option"      \<comment> \<open>\<open>None\<close> is a null pointer\<close>
  reg_weight :: fl
  reg_timeout :: int      \<comment> \<open>milliseconds\<close>
  reg_required :: bool
  reg_enabled :: bool

record ProviderFailure =
  pf_provider :: string
  pf_code :: EngineErrorCode

record RecognitionEnsembleResult =
  ens_evidence :: "RecognitionEvidence list"
  ens_failures :: "ProviderFailure list"
  ens_degraded :: bool

definition check_registration :: "RecognizerRegistration \<Rightarrow> string list \<Rightarrow> string list result" where
  "check_registration r names =
     (case reg_provider r of
        None \<Rightarrow> Inl (ConfigurationError ''recognizer registration cannot contain a null provider'')
      | Some p \<Rightarrow> res_bind (check_all
          [throw_if (rec_name p = [] \<or> rec_name p \<in> set names)
             (ConfigurationError ''recognizer provider names must be non-empty and unique''),
           throw_if (\<not> is_finite (reg_weight r) \<or> flt (reg_weight r) (Fin 0) \<or> flt (Fin 1) (reg_weight r))
             (ConfigurationError ''recognizer provider weight must be in [0,1]''),
           throw_if (reg_timeout r \<le> 0 \<or> reg_timeout r > 5 * 60 * 1000)
             (ConfigurationError ''recognizer provider timeout is outside safe limits'')])
          (\<lambda>_. Inr (rec_name p # names)))"

definition make_ensemble :: "RecognizerRegistration list \<Rightarrow> RecognizerRegistration list result" where
  "make_ensemble recognizers =
     (if recognizers = [] then Inl (ConfigurationError ''recognition ensemble requires at least one recognizer'')
      else res_bind (res_fold check_registration recognizers []) (\<lambda>_. Inr recognizers))"

section \<open>Calling the providers\<close>

definition provider_context :: "OperationContext \<Rightarrow> int \<Rightarrow> OperationContext io" where
  "provider_context parent limit = io_bind io_now (\<lambda>now.
     let local_deadline = now + limit * 1000000
     in io_return \<lparr>op_stoppable = op_stoppable parent,
          op_deadline = Some (case op_deadline parent of None \<Rightarrow> local_deadline | Some d \<Rightarrow> min d local_deadline)\<rparr>)"

definition effective_provider_confidence :: "PlateCandidate \<Rightarrow> fl \<Rightarrow> fl" where
  "effective_provider_confidence c weight =
     (let base = (if flt (Fin 0) (cand_calibrated c) then cand_calibrated c else cand_confidence c)
      in clamp01 (mul32 base weight))"

definition validate_candidate :: "fl \<Rightarrow> PlateCandidate \<Rightarrow> PlateCandidate result" where
  "validate_candidate weight c =
     (if cand_text c = [] \<or> \<not> is_finite (cand_confidence c) \<or> flt (cand_confidence c) (Fin 0) \<or>
         flt (Fin 1) (cand_confidence c) \<or> \<not> is_finite (cand_calibrated c) \<or>
         flt (cand_calibrated c) (Fin 0) \<or> flt (Fin 1) (cand_calibrated c)
      then Inl (ProviderError ''recognizer returned invalid candidate evidence'')
      else Inr (c\<lparr>cand_calibrated := effective_provider_confidence c weight\<rparr>))"

definition validate_evidence :: "RecognitionEvidence \<Rightarrow> string \<Rightarrow> fl \<Rightarrow> fl \<Rightarrow> fl \<Rightarrow> RecognitionEvidence result" where
  "validate_evidence ev provider_name weight quality latency_ms =
     res_bind (res_map_list (validate_candidate weight) (ev_candidates ev)) (\<lambda>candidates.
       Inr (ev\<lparr>ev_source := provider_name, ev_crop_quality := clamp01 quality,
               ev_latency_ms := fmax (Fin 0) latency_ms, ev_candidates := candidates\<rparr>))"

text \<open>\<open>catch (const EngineError&)\<close> keeps the code, \<open>catch (...)\<close> reports \<open>internal\<close>.\<close>

definition failure_code :: "exn \<Rightarrow> EngineErrorCode" where
  "failure_code e = (case e of EngineError code _ \<Rightarrow> code | _ \<Rightarrow> internal)"

definition reg_active :: "RecognizerRegistration \<Rightarrow> bool" where
  "reg_active r = (\<not> (\<not> reg_enabled r \<or> fle (reg_weight r) (Fin 0)))"

definition reg_name :: "RecognizerRegistration \<Rightarrow> string" where
  "reg_name r = (case reg_provider r of None \<Rightarrow> [] | Some p \<Rightarrow> rec_name p)"

definition reg_recognize :: "RecognizerRegistration \<Rightarrow> ImageView \<Rightarrow> OperationContext \<Rightarrow> RecognitionEvidence io" where
  "reg_recognize r = (case reg_provider r of None \<Rightarrow> (\<lambda>_ _. io_throw UnknownException) | Some p \<Rightarrow> rec_recognize p)"

definition call_recognizer ::
  "ImageView \<Rightarrow> fl \<Rightarrow> OperationContext \<Rightarrow> RecognizerRegistration \<Rightarrow> RecognitionEnsembleResult \<Rightarrow> RecognitionEnsembleResult io" where
  "call_recognizer plate quality ctx r res =
     (if \<not> reg_active r then io_return res
      else io_bind (provider_context ctx (reg_timeout r)) (\<lambda>child.
           io_bind io_now (\<lambda>started.
           io_try
             (io_bind (reg_recognize r plate child) (\<lambda>ev.
              io_bind io_now (\<lambda>finished.
              io_bind (io_lift (validate_evidence ev (reg_name r) (reg_weight r) quality
                (milliseconds_between started finished))) (\<lambda>ev.
              io_return (res\<lparr>ens_evidence := ens_evidence res @ [ev]\<rparr>)))))
             (\<lambda>e. if reg_required r
                  then io_throw (ProviderError (''required recognizer provider failed: '' @ reg_name r))
                  else io_return (res\<lparr>ens_degraded := True,
                    ens_failures := ens_failures res @ [\<lparr>pf_provider = reg_name r, pf_code = failure_code e\<rparr>]\<rparr>)))))"

definition ensemble_recognize ::
  "RecognizerRegistration list \<Rightarrow> ImageView \<Rightarrow> fl \<Rightarrow> OperationContext \<Rightarrow> RecognitionEnsembleResult io" where
  "ensemble_recognize recognizers plate quality ctx =
     (if \<not> is_finite quality then io_throw (InvalidImageError ''crop quality must be finite'')
      else io_bind (check_operation ctx ''recognition ensemble cancelled'' ''recognition ensemble deadline exceeded'') (\<lambda>_.
           io_bind (io_fold (call_recognizer plate quality ctx) recognizers
             \<lparr>ens_evidence = [], ens_failures = [], ens_degraded = False\<rparr>) (\<lambda>res.
           io_return (if ens_evidence res = [] \<and> ens_failures res \<noteq> [] then res\<lparr>ens_degraded := True\<rparr> else res))))"

section \<open>What the ensemble returns\<close>

definition registration_ok :: "RecognizerRegistration \<Rightarrow> bool" where
  "registration_ok r \<longleftrightarrow> reg_provider r \<noteq> None \<and> reg_name r \<noteq> [] \<and> is_prob (reg_weight r) \<and>
     0 < reg_timeout r \<and> reg_timeout r \<le> 300000"

definition ensemble_ok :: "RecognizerRegistration list \<Rightarrow> bool" where
  "ensemble_ok rs \<longleftrightarrow> rs \<noteq> [] \<and> list_all registration_ok rs \<and> distinct (map reg_name rs)"

lemma check_registration_Inr:
  "check_registration r names = Inr names' \<longleftrightarrow>
    registration_ok r \<and> reg_name r \<notin> set names \<and> names' = reg_name r # names"
  by (cases "reg_provider r")
     (auto simp: check_registration_def registration_ok_def reg_name_def result_simps is_prob_def)

lemma make_ensemble_ok: "make_ensemble rs = Inr rs' \<longleftrightarrow> rs' = rs \<and> ensemble_ok rs"
proof -
  have "(\<exists>names'. res_fold check_registration rs names = Inr names') \<longleftrightarrow>
      list_all registration_ok rs \<and> distinct (map reg_name rs) \<and> set (map reg_name rs) \<inter> set names = {}" for names
    by (induction rs arbitrary: names) (auto simp: result_simps check_registration_Inr)
  from this [of "[]"] show ?thesis by (auto simp: make_ensemble_def ensemble_ok_def result_simps)
qed

text \<open>Evidence the ensemble lets through.\<close>

definition evidence_ok :: "fl \<Rightarrow> RecognizerRegistration \<Rightarrow> RecognitionEvidence \<Rightarrow> bool" where
  "evidence_ok quality r ev \<longleftrightarrow> ev_source ev = reg_name r \<and> ev_crop_quality ev = clamp01 quality \<and>
     fle (Fin 0) (ev_latency_ms ev) \<and>
     (\<forall>c \<in> set (ev_candidates ev). cand_text c \<noteq> [] \<and> is_prob (cand_confidence c) \<and> is_prob (cand_calibrated c))"

lemma validate_candidate_Inr:
  "validate_candidate weight c = Inr d \<longleftrightarrow> cand_text c \<noteq> [] \<and> is_prob (cand_confidence c) \<and>
    is_prob (cand_calibrated c) \<and> d = c\<lparr>cand_calibrated := effective_provider_confidence c weight\<rparr>"
  by (auto simp: validate_candidate_def is_prob_def)

lemma effective_provider_confidence_prob:
  assumes "is_prob (cand_confidence c)" and "is_prob (cand_calibrated c)" and "is_prob w"
  shows "is_prob (effective_provider_confidence c w)"
  using b32.prob_fmul [OF _ assms(3)] assms by (simp add: effective_provider_confidence_def Let_def)

lemma validate_evidence_ok:
  assumes "validate_evidence ev name weight quality latency = Inr ev'" and "is_prob weight"
  shows "ev_source ev' = name" and "ev_crop_quality ev' = clamp01 quality" and "fle (Fin 0) (ev_latency_ms ev')"
    and "c \<in> set (ev_candidates ev') \<Longrightarrow>
      cand_text c \<noteq> [] \<and> is_prob (cand_confidence c) \<and> is_prob (cand_calibrated c)"
proof -
  obtain cs where cs: "res_map_list (validate_candidate weight) (ev_candidates ev) = Inr cs"
    and ev': "ev' = ev\<lparr>ev_source := name, ev_crop_quality := clamp01 quality,
               ev_latency_ms := fmax (Fin 0) latency, ev_candidates := cs\<rparr>"
    using assms(1) by (auto simp: validate_evidence_def result_simps)
  show "ev_source ev' = name" and "ev_crop_quality ev' = clamp01 quality" by (simp_all add: ev')
  show "fle (Fin 0) (ev_latency_ms ev')" by (cases latency) (auto simp: ev' fmax_def)
  show "cand_text c \<noteq> [] \<and> is_prob (cand_confidence c) \<and> is_prob (cand_calibrated c)"
    if "c \<in> set (ev_candidates ev')"
  proof -
    from that res_map_list_Inr [OF cs] obtain d where "validate_candidate weight d = Inr c"
      by (auto simp: ev' list_all2_conv_all_nth in_set_conv_nth)
    then show ?thesis
      using effective_provider_confidence_prob assms(2) by (auto simp: validate_candidate_Inr)
  qed
qed

text \<open>The processed registrations split into evidence and failures, in order.\<close>

text \<open>
  The outcome of one call: the provider's answer as the ensemble lets it through, or the failure recorded for it. The outcomes
  of a list of registrations are one for each active one, in their order.
\<close>

definition outcome_of :: "ImageView \<Rightarrow> World \<Rightarrow> fl \<Rightarrow> RecognizerRegistration \<Rightarrow> RecognitionEvidence + ProviderFailure \<Rightarrow> bool" where
  "outcome_of plate w quality r out = (case out of
     Inl ev \<Rightarrow> evidence_ok quality r ev \<and> (\<exists>ctx n n' answer. reg_recognize r plate ctx w n = (Inr answer, n') \<and>
       map cand_text (ev_candidates ev) = map cand_text (ev_candidates answer))
   | Inr f \<Rightarrow> pf_provider f = reg_name r \<and> \<not> reg_required r)"

definition outcomes_of :: "ImageView \<Rightarrow> World \<Rightarrow> fl \<Rightarrow> RecognizerRegistration list \<Rightarrow> RecognitionEnsembleResult \<Rightarrow> bool" where
  "outcomes_of plate w quality rs res \<longleftrightarrow> (\<exists>outs. list_all2 (outcome_of plate w quality) (filter reg_active rs) outs \<and>
     ens_evidence res = map projl (filter isl outs) \<and> ens_failures res = map projr (filter (\<lambda>x. \<not> isl x) outs))"

definition outcome_ok :: "fl \<Rightarrow> RecognizerRegistration list \<Rightarrow> RecognitionEnsembleResult \<Rightarrow> bool" where
  "outcome_ok quality rs res \<longleftrightarrow>
     (ens_degraded res \<longleftrightarrow> ens_failures res \<noteq> []) \<and>
     length (ens_evidence res) + length (ens_failures res) = length (filter reg_active rs) \<and>
     (\<forall>ev \<in> set (ens_evidence res). \<exists>r \<in> set (filter reg_active rs). evidence_ok quality r ev) \<and>
     (\<forall>f \<in> set (ens_failures res). \<exists>r \<in> set (filter reg_active rs). pf_provider f = reg_name r \<and> \<not> reg_required r) \<and>
     (\<forall>r \<in> set (filter reg_active rs). reg_required r \<longrightarrow> (\<exists>ev \<in> set (ens_evidence res). evidence_ok quality r ev))"

lemma call_recognizer_ok:
  assumes "registration_ok r" and "outcome_ok quality rs res"
    and "call_recognizer plate quality ctx r res w n = (Inr res', n')"
  shows "outcome_ok quality (rs @ [r]) res'"
proof (cases "reg_active r")
  case False
  with assms show ?thesis by (auto simp: call_recognizer_def outcome_ok_def io_simps)
next
  case True
  from assms(1) have w: "is_prob (reg_weight r)" by (simp add: registration_ok_def)
  have ok: "evidence_ok quality r ev'"
    if "validate_evidence ev (reg_name r) (reg_weight r) quality l = Inr ev'" for ev ev' l
    using validate_evidence_ok [OF that w] by (simp add: evidence_ok_def)
  from assms(3) True consider
      (good) ev where "evidence_ok quality r ev" and "res' = res\<lparr>ens_evidence := ens_evidence res @ [ev]\<rparr>"
    | (bad) e where "\<not> reg_required r" and "res' = res\<lparr>ens_degraded := True,
        ens_failures := ens_failures res @ [\<lparr>pf_provider = reg_name r, pf_code = failure_code e\<rparr>]\<rparr>"
    by (auto simp: call_recognizer_def io_simps split: if_splits dest: ok)
  then show ?thesis
    using assms(2) True by cases (auto simp: outcome_ok_def)
qed

lemma outcomes_of_snoc:
  assumes "outcomes_of plate w quality rs res" and "reg_active r" and "outcome_of plate w quality r out"
    and "ens_evidence res' = ens_evidence res @ (if isl out then [projl out] else [])"
    and "ens_failures res' = ens_failures res @ (if isl out then [] else [projr out])"
  shows "outcomes_of plate w quality (rs @ [r]) res'"
proof -
  from assms(1) obtain outs where "list_all2 (outcome_of plate w quality) (filter reg_active rs) outs"
    "ens_evidence res = map projl (filter isl outs)" "ens_failures res = map projr (filter (\<lambda>x. \<not> isl x) outs)"
    by (auto simp: outcomes_of_def)
  with assms(2-5) show ?thesis
    by (intro outcomes_of_def [THEN iffD2] exI [of _ "outs @ [out]"]) (auto intro: list_all2_appendI)
qed

lemma validated_texts: "validate_evidence ev name weight quality l = Inr ev' \<Longrightarrow> map cand_text (ev_candidates ev') = map cand_text (ev_candidates ev)"
proof -
  have "map cand_text ds = map cand_text cs" if "res_map_list (validate_candidate weight) cs = Inr ds" for cs ds
    using res_map_list_Inr [OF that]
    by (induction rule: list_all2_induct) (auto simp: validate_candidate_Inr)
  then show "validate_evidence ev name weight quality l = Inr ev' \<Longrightarrow> ?thesis" by (auto simp: validate_evidence_def result_simps)
qed

lemma call_recognizer_outcome:
  assumes "registration_ok r" and "outcomes_of plate w quality rs res" and "call_recognizer plate quality ctx r res w n = (Inr res', n')"
  shows "outcomes_of plate w quality (rs @ [r]) res'"
proof (cases "reg_active r")
  case False
  with assms show ?thesis by (auto simp: call_recognizer_def outcomes_of_def io_simps)
next
  case True
  from assms(1) have w: "is_prob (reg_weight r)" by (simp add: registration_ok_def)
  have ok: "outcome_of plate w quality r (Inl ev')"
    if "reg_recognize r plate child w k = (Inr ev, k')" "validate_evidence ev (reg_name r) (reg_weight r) quality l = Inr ev'" for ev ev' l child k k'
    using validate_evidence_ok [OF that(2) w] validated_texts [OF that(2)] that(1) by (auto simp: outcome_of_def evidence_ok_def)
  from assms(3) True consider
      (good) ev where "outcome_of plate w quality r (Inl ev)" and "res' = res\<lparr>ens_evidence := ens_evidence res @ [ev]\<rparr>"
    | (bad) e where "\<not> reg_required r" and "res' = res\<lparr>ens_degraded := True,
        ens_failures := ens_failures res @ [\<lparr>pf_provider = reg_name r, pf_code = failure_code e\<rparr>]\<rparr>"
    by (auto simp: call_recognizer_def io_simps split: if_splits dest: ok)
  then show ?thesis
  proof cases
    case (good ev)
    then show ?thesis by (intro outcomes_of_snoc [OF assms(2) True good(1)]) simp_all
  next
    case (bad e)
    then show ?thesis
      by (intro outcomes_of_snoc [OF assms(2) True, where out = "Inr \<lparr>pf_provider = reg_name r, pf_code = failure_code e\<rparr>"])
         (simp_all add: outcome_of_def)
  qed
qed

lemma ensemble_recognize_ok:
  assumes "ensemble_ok rs" and "ensemble_recognize rs plate quality ctx w n = (Inr res, n')"
  shows "is_finite quality" and "outcome_ok quality rs res" and "outcomes_of plate w quality rs res"
proof -
  show "is_finite quality" using assms(2) by (auto simp: ensemble_recognize_def io_simps split: if_splits)
  from assms(2) obtain res' k where f: "io_fold (call_recognizer plate quality ctx) rs
      \<lparr>ens_evidence = [], ens_failures = [], ens_degraded = False\<rparr> w k = (Inr res', n')"
    and res: "res = (if ens_evidence res' = [] \<and> ens_failures res' \<noteq> [] then res'\<lparr>ens_degraded := True\<rparr> else res')"
    by (auto simp: ensemble_recognize_def io_simps split: if_splits)
  have "outcome_ok quality rs res'"
    using f
  proof (rule io_fold_prefix [where I = "outcome_ok quality"])
    show "outcome_ok quality [] \<lparr>ens_evidence = [], ens_failures = [], ens_degraded = False\<rparr>"
      by (simp add: outcome_ok_def)
    show "outcome_ok quality (ys @ [x]) t"
      if "outcome_ok quality ys s" "x \<in> set rs" "call_recognizer plate quality ctx x s w k = (Inr t, k')" for ys x s t k k'
      by (rule call_recognizer_ok [OF _ that(1,3)]) (use assms(1) that(2) in \<open>simp add: ensemble_ok_def list_all_iff\<close>)
  qed
  then show "outcome_ok quality rs res" by (auto simp: res outcome_ok_def)
  have "outcomes_of plate w quality rs res'"
    using f
  proof (rule io_fold_prefix [where I = "outcomes_of plate w quality"])
    show "outcomes_of plate w quality [] \<lparr>ens_evidence = [], ens_failures = [], ens_degraded = False\<rparr>"
      by (simp add: outcomes_of_def)
    show "outcomes_of plate w quality (ys @ [x]) t"
      if "outcomes_of plate w quality ys s" "x \<in> set rs" "call_recognizer plate quality ctx x s w k = (Inr t, k')" for ys x s t k k'
      by (rule call_recognizer_outcome [OF _ that(1,3)]) (use assms(1) that(2) in \<open>simp add: ensemble_ok_def list_all_iff\<close>)
  qed
  then show "outcomes_of plate w quality rs res" by (auto simp: res outcomes_of_def)
qed

text \<open>The exceptions that can leave the ensemble.\<close>

lemma call_recognizer_Inl:
  assumes "call_recognizer plate quality ctx r res w n = (Inl e, n')"
  shows "reg_active r \<and> reg_required r \<and> e = ProviderError (''required recognizer provider failed: '' @ reg_name r)"
  using assms
  by (auto simp: call_recognizer_def io_bind_def io_try_def io_return_def io_throw_def provider_context_def io_now_def
      Let_def split: if_splits prod.splits sum.splits)

lemma io_fold_Inl:
  assumes "io_fold f xs s w n = (Inl e, n')"
  shows "\<exists>x \<in> set xs. \<exists>s k. f x s w k = (Inl e, n')"
  using assms by (induction xs arbitrary: s n) (fastforce simp: io_simps io_return_def)+

section \<open>Properties\<close>

definition fixed_recognizer :: "string \<Rightarrow> PlateCandidate list \<Rightarrow> IPlateRecognizer" where
  "fixed_recognizer name cs = \<lparr>rec_name = name, rec_recognize = (\<lambda>_ _. io_return
     \<lparr>ev_source = [], ev_candidates = cs, ev_crop_quality = Fin 0, ev_latency_ms = Fin 0\<rparr>)\<rparr>"

definition failing_recognizer :: "string \<Rightarrow> IPlateRecognizer" where
  "failing_recognizer name = \<lparr>rec_name = name, rec_recognize = (\<lambda>_ _. io_throw (InferenceError ''model failed''))\<rparr>"

definition registration :: "IPlateRecognizer \<Rightarrow> bool \<Rightarrow> RecognizerRegistration" where
  "registration p required = \<lparr>reg_provider = Some p, reg_weight = Fin 1, reg_timeout = 1000, reg_required = required, reg_enabled = True\<rparr>"

definition clear_reading :: "PlateCandidate list" where
  "clear_reading = [\<lparr>cand_text = ''34ABC12'', cand_confidence = Fin (3/4), cand_calibrated = Fin 0, cand_format_valid = True\<rparr>]"

definition two_recognizers :: "RecognizerRegistration list" where
  "two_recognizers = [registration (fixed_recognizer ''lprnet'' clear_reading) True, registration (failing_recognizer ''paddle'') False]"

definition still_world :: World where
  "still_world = \<lparr>w_clock = (\<lambda>_. 0), w_stop = (\<lambda>_. False)\<rparr>"

definition gray_pixel :: ImageView where
  "gray_pixel = \<lparr>img_bytes = [0], img_width = 1, img_height = 1, img_stride = 1, img_format = gray8\<rparr>"

lemma two_recognizers_ok: "make_ensemble two_recognizers = Inr two_recognizers"
  by (simp add: make_ensemble_ok ensemble_ok_def two_recognizers_def registration_def registration_ok_def
      reg_name_def fixed_recognizer_def failing_recognizer_def)

lemma call_recognizer_good:
  assumes "reg_active r" and "reg_recognize r = (\<lambda>_ _. io_return ev)"
    and "validate_evidence ev (reg_name r) (reg_weight r) quality (milliseconds_between (w_clock w (Suc n)) (w_clock w (Suc (Suc n)))) = Inr ev'"
  shows "call_recognizer plate quality ctx r res w n = (Inr (res\<lparr>ens_evidence := ens_evidence res @ [ev']\<rparr>), n + 3)"
  using assms
  by (simp add: call_recognizer_def provider_context_def io_bind_def io_now_def io_return_def io_try_def io_lift_def Let_def)

lemma call_recognizer_bad:
  assumes "reg_active r" and "reg_recognize r = (\<lambda>_ _. io_throw e)"
  shows "call_recognizer plate quality ctx r res w n =
    (if reg_required r then (Inl (ProviderError (''required recognizer provider failed: '' @ reg_name r)), n + 2)
     else (Inr (res\<lparr>ens_degraded := True,
       ens_failures := ens_failures res @ [\<lparr>pf_provider = reg_name r, pf_code = failure_code e\<rparr>]\<rparr>), n + 2))"
  using assms
  by (simp add: call_recognizer_def provider_context_def io_bind_def io_now_def io_return_def io_try_def io_throw_def Let_def)

lemma check_default [simp]: "check_operation default_context c t w n = (Inr (), n)"
  by (simp add: check_operation_def cancellation_requested_def deadline_exceeded_def default_context_def
      io_bind_def io_return_def)

lemma registration_simps [simp]:
  "reg_active (registration p req)" "reg_required (registration p req) = req" "reg_weight (registration p req) = Fin 1"
  "reg_name (registration p req) = rec_name p" "reg_recognize (registration p req) = rec_recognize p"
  by (simp_all add: registration_def reg_active_def reg_name_def reg_recognize_def)

lemma two_recognizers_result:
  "\<exists>res. ensemble_recognize two_recognizers gray_pixel (Fin 1) default_context still_world 0 = (Inr res, 5) \<and>
     map cand_text (concat (map ev_candidates (ens_evidence res))) = [''34ABC12''] \<and>
     ens_failures res = [\<lparr>pf_provider = ''paddle'', pf_code = inference\<rparr>]"
proof -
  let ?a = "registration (fixed_recognizer ''lprnet'' clear_reading) True"
  let ?b = "registration (failing_recognizer ''paddle'') False"
  let ?ev = "\<lparr>ev_source = [], ev_candidates = clear_reading, ev_crop_quality = Fin 0, ev_latency_ms = Fin 0\<rparr>"
  obtain ev' where ev': "validate_evidence ?ev ''lprnet'' (Fin 1) (Fin 1)
        (milliseconds_between (w_clock still_world (Suc 0)) (w_clock still_world (Suc (Suc 0)))) = Inr ev'"
    and texts: "map cand_text (ev_candidates ev') = [''34ABC12'']"
    by (simp add: validate_evidence_def clear_reading_def validate_candidate_def)
  have a: "call_recognizer gray_pixel (Fin 1) default_context ?a res still_world 0 =
      (Inr (res\<lparr>ens_evidence := ens_evidence res @ [ev']\<rparr>), 0 + 3)" for res
    by (rule call_recognizer_good) (use ev' in \<open>simp_all add: fixed_recognizer_def\<close>)
  have b: "call_recognizer gray_pixel (Fin 1) default_context ?b res still_world n =
      (Inr (res\<lparr>ens_degraded := True, ens_failures := ens_failures res @ [\<lparr>pf_provider = ''paddle'', pf_code = inference\<rparr>]\<rparr>), n + 2)" for res n
    using call_recognizer_bad [of ?b "InferenceError ''model failed''"] by (simp add: failing_recognizer_def failure_code_def)
  show ?thesis
    using texts by (simp add: ensemble_recognize_def io_bind_def io_return_def two_recognizers_def a b)
qed

text \<open>
  C12: the ensemble accounts for every provider: when it returns, each enabled provider of positive
  weight has exactly one outcome, in registration order: the evidence with the texts it answered, or a recorded
  failure; the names of the providers are different; failures are those of optional providers and set the degraded flag, every required provider has given evidence, and all
  evidence carries the provider's name, the clamped crop quality and non-empty texts with
  confidences in \<open>[0,1]\<close>.
\<close>

theorem ensemble_accounts_for_providers:
  assumes "make_ensemble recognizers = Inr rs" and "ensemble_recognize rs plate quality ctx w n = (Inr res, n')"
  shows "is_finite quality \<and> (ens_degraded res \<longleftrightarrow> ens_failures res \<noteq> []) \<and> distinct (map reg_name rs) \<and>
    (\<exists>outs. list_all2 (outcome_of plate w quality) (filter reg_active rs) outs \<and>
       ens_evidence res = map projl (filter isl outs) \<and> ens_failures res = map projr (filter (\<lambda>x. \<not> isl x) outs)) \<and>
    length (ens_evidence res) + length (ens_failures res) = length (filter reg_active rs) \<and>
    (\<forall>ev \<in> set (ens_evidence res). is_prob (ev_crop_quality ev) \<and> fle (Fin 0) (ev_latency_ms ev) \<and>
       (\<exists>r \<in> set rs. reg_active r \<and> ev_source ev = reg_name r) \<and>
       (\<forall>c \<in> set (ev_candidates ev). cand_text c \<noteq> [] \<and> is_prob (cand_confidence c) \<and> is_prob (cand_calibrated c))) \<and>
    (\<forall>f \<in> set (ens_failures res). \<exists>r \<in> set rs. reg_active r \<and> \<not> reg_required r \<and> pf_provider f = reg_name r) \<and>
    (\<forall>r \<in> set rs. reg_active r \<and> reg_required r \<longrightarrow> (\<exists>ev \<in> set (ens_evidence res). ev_source ev = reg_name r))"
proof -
  from assms(1) have rs: "ensemble_ok rs" by (simp add: make_ensemble_ok)
  note o = ensemble_recognize_ok [OF rs assms(2)]
  have q: "is_prob (clamp01 quality)" using o(1) by (auto simp: is_finite_iff intro: prob_clamp01)
  note parts = o(2) [unfolded outcome_ok_def]
  have ok: "evidence_ok quality r ev \<Longrightarrow> is_prob (ev_crop_quality ev) \<and> fle (Fin 0) (ev_latency_ms ev) \<and> ev_source ev = reg_name r \<and>
      (\<forall>c \<in> set (ev_candidates ev). cand_text c \<noteq> [] \<and> is_prob (cand_confidence c) \<and> is_prob (cand_calibrated c))" for r ev
    using q by (simp add: evidence_ok_def)
  have ev: "\<forall>ev \<in> set (ens_evidence res). \<exists>r \<in> set rs. reg_active r \<and> evidence_ok quality r ev"
    and fails: "\<forall>f \<in> set (ens_failures res). \<exists>r \<in> set rs. reg_active r \<and> \<not> reg_required r \<and> pf_provider f = reg_name r"
    and req: "\<forall>r \<in> set rs. reg_active r \<and> reg_required r \<longrightarrow> (\<exists>ev \<in> set (ens_evidence res). evidence_ok quality r ev)"
    using parts by auto
  have ev': "\<forall>ev \<in> set (ens_evidence res). is_prob (ev_crop_quality ev) \<and> fle (Fin 0) (ev_latency_ms ev) \<and>
       (\<exists>r \<in> set rs. reg_active r \<and> ev_source ev = reg_name r) \<and>
       (\<forall>c \<in> set (ev_candidates ev). cand_text c \<noteq> [] \<and> is_prob (cand_confidence c) \<and> is_prob (cand_calibrated c))"
    using ev ok by blast
  have req': "\<forall>r \<in> set rs. reg_active r \<and> reg_required r \<longrightarrow> (\<exists>ev \<in> set (ens_evidence res). ev_source ev = reg_name r)"
    using req ok by blast
  from parts have "ens_degraded res \<longleftrightarrow> ens_failures res \<noteq> []"
    and "length (ens_evidence res) + length (ens_failures res) = length (filter reg_active rs)" by blast+
  moreover have "distinct (map reg_name rs)" using rs by (simp add: ensemble_ok_def)
  ultimately show ?thesis using o(1) ev' fails req' o(3) [unfolded outcomes_of_def] by (intro conjI)
qed

theorem ensemble_accounts_for_providers_witness:
  "\<exists>res. ensemble_recognize two_recognizers gray_pixel (Fin 1) default_context still_world 0 = (Inr res, 5) \<and>
     map ev_source (ens_evidence res) = [''lprnet''] \<and> map pf_provider (ens_failures res) = [''paddle''] \<and> ens_degraded res"
proof -
  obtain res where r: "ensemble_recognize two_recognizers gray_pixel (Fin 1) default_context still_world 0 = (Inr res, 5)"
    and f: "ens_failures res = [\<lparr>pf_provider = ''paddle'', pf_code = inference\<rparr>]"
    using two_recognizers_result by blast
  let ?a = "registration (fixed_recognizer ''lprnet'' clear_reading) True" and ?b = "registration (failing_recognizer ''paddle'') False"
  from ensemble_accounts_for_providers [OF two_recognizers_ok r] obtain x y where
    "outcome_of gray_pixel still_world (Fin 1) ?a x" "outcome_of gray_pixel still_world (Fin 1) ?b y"
    and ev: "ens_evidence res = map projl (filter isl [x, y])" "ens_failures res = map projr (filter (\<lambda>x. \<not> isl x) [x, y])" and degraded: "ens_degraded res"
    using f by (auto simp: two_recognizers_def list_all2_Cons1)
  then obtain e where "x = Inl e" "ev_source e = ''lprnet''" by (auto simp: outcome_of_def evidence_ok_def fixed_recognizer_def split: sum.splits)
  moreover have "\<not> isl y" using ev(2) f calculation by auto
  ultimately show ?thesis using r f ev degraded by auto
qed

text \<open>
  Only four kinds of exception leave the ensemble: an invalid crop quality, cancellation, an
  expired deadline at entry, and the provider error that names an enabled required provider. No
  exception of a provider, whatever its type, escapes as it is.
\<close>

theorem ensemble_exceptions:
  assumes "ensemble_recognize rs plate quality ctx w n = (Inl e, n')"
  shows "(e = InvalidImageError ''crop quality must be finite'' \<and> \<not> is_finite quality) \<or>
    e = CancelledError ''recognition ensemble cancelled'' \<or>
    e = TimeoutError ''recognition ensemble deadline exceeded'' \<or>
    (\<exists>r \<in> set rs. reg_active r \<and> reg_required r \<and>
       e = ProviderError (''required recognizer provider failed: '' @ reg_name r))"
proof (cases "is_finite quality")
  case True
  then consider
      "check_operation ctx ''recognition ensemble cancelled'' ''recognition ensemble deadline exceeded'' w n = (Inl e, n')"
    | s k where "io_fold (call_recognizer plate quality ctx) rs s w k = (Inl e, n')"
  proof -
    from assms True have "io_bind (check_operation ctx ''recognition ensemble cancelled'' ''recognition ensemble deadline exceeded'')
      (\<lambda>_. io_bind (io_fold (call_recognizer plate quality ctx) rs
             \<lparr>ens_evidence = [], ens_failures = [], ens_degraded = False\<rparr>) (\<lambda>res.
           io_return (if ens_evidence res = [] \<and> ens_failures res \<noteq> [] then res\<lparr>ens_degraded := True\<rparr> else res))) w n = (Inl e, n')"
      by (simp only: ensemble_recognize_def not_True_eq_False if_False)
    then show ?thesis
    proof (rule io_bind_InlE)
      fix u k assume "io_bind (io_fold (call_recognizer plate quality ctx) rs
             \<lparr>ens_evidence = [], ens_failures = [], ens_degraded = False\<rparr>) (\<lambda>res.
           io_return (if ens_evidence res = [] \<and> ens_failures res \<noteq> [] then res\<lparr>ens_degraded := True\<rparr> else res)) w k = (Inl e, n')"
      then show ?thesis by (rule io_bind_InlE) (erule that(2), simp add: io_return_def)
    qed (rule that(1))
  qed
  then show ?thesis
  proof cases
    case 1
    from check_operation_Inl [OF this] show ?thesis by (elim disjE) simp_all
  next
    case 2
    from io_fold_Inl [OF this] obtain r s k where "r \<in> set rs" "call_recognizer plate quality ctx r s w k = (Inl e, n')"
      by blast
    with call_recognizer_Inl [OF this(2)] show ?thesis by blast
  qed
next
  case False
  with assms show ?thesis by (auto simp: ensemble_recognize_def io_throw_def)
qed

theorem ensemble_exceptions_witness:
  "fst (ensemble_recognize [registration (failing_recognizer ''lprnet'') True] gray_pixel (Fin 1) default_context still_world 0)
     = Inl (ProviderError ''required recognizer provider failed: lprnet'')"
proof -
  let ?rs = "[registration (failing_recognizer ''lprnet'') True]"
  obtain e k where e: "ensemble_recognize ?rs gray_pixel (Fin 1) default_context still_world 0 = (Inl e, k)"
    and k: "case e of EngineError c _ \<Rightarrow> c = provider | _ \<Rightarrow> False"
    using call_recognizer_bad [of "hd ?rs" "InferenceError ''model failed''"]
    by (simp add: ensemble_recognize_def io_bind_def io_return_def failing_recognizer_def)
  from ensemble_exceptions [OF e] k e show ?thesis
    by (auto simp: registration_def failing_recognizer_def reg_name_def)
qed


end
