(* ===== verification/Engine_Diagnostics.thy ===== *)
theory Engine_Diagnostics
  imports Domain "HOL-Library.Word"
begin

text \<open>
  The engine's diagnostics (\<^verbatim>\<open>application/engine_diagnostics.cpp\<close>): wrapping 64-bit counters, a
  latency summary per stage, and the readiness that the self test reports. The unordered map of
  the stages is read only through the sorted snapshot, so it is kept in key order here.
\<close>

section \<open>State\<close>

datatype ReadinessState = ready | degraded | failed

record StartupCheckSnapshot =
  scs_name :: string
  scs_required :: bool
  scs_passed :: bool
  scs_summary :: string

record DiagnosticProviderInfo =
  dpi_name :: string
  dpi_version :: string
  dpi_role :: string

record DiagnosticModelInfo =
  dmi_name :: string
  dmi_version :: string
  dmi_sha256 :: string
  dmi_integrity_verified :: bool

record StageLatencySummary =
  sls_stage :: string
  sls_count :: "64 word"
  sls_mean_ms :: fl
  sls_min_ms :: fl
  sls_max_ms :: fl

record WorkerQueueSnapshot =
  wq_workers :: nat
  wq_active :: nat
  wq_pending :: nat
  wq_capacity :: nat
  wq_dropped :: "64 word"

record LatencyAccumulator =
  la_count :: "64 word"
  la_total_ms :: fl      \<comment> \<open>\<open>long double\<close>\<close>
  la_min_ms :: fl
  la_max_ms :: fl

record EngineDiagnostics =
  dg_accepted :: "64 word"
  dg_review :: "64 word"
  dg_rejected :: "64 word"
  dg_provider_failures :: "64 word"
  dg_readiness :: ReadinessState
  dg_startup_checks :: "StartupCheckSnapshot list"
  dg_stage_latencies :: "(string \<times> LatencyAccumulator) list"
  dg_providers :: "DiagnosticProviderInfo list"
  dg_models :: "DiagnosticModelInfo list"
  dg_worker_queue :: WorkerQueueSnapshot
  dg_last_error_summary :: string

record EngineDiagnosticsSnapshot =
  ds_readiness :: ReadinessState
  ds_startup_checks :: "StartupCheckSnapshot list"
  ds_accepted :: "64 word"
  ds_review :: "64 word"
  ds_rejected :: "64 word"
  ds_provider_failures :: "64 word"
  ds_providers :: "DiagnosticProviderInfo list"
  ds_models :: "DiagnosticModelInfo list"
  ds_stage_latencies :: "StageLatencySummary list"
  ds_worker_queue :: WorkerQueueSnapshot
  ds_last_error_summary :: string

definition empty_worker_queue :: WorkerQueueSnapshot where
  "empty_worker_queue = \<lparr>wq_workers = 0, wq_active = 0, wq_pending = 0, wq_capacity = 0, wq_dropped = 0\<rparr>"

definition new_diagnostics :: EngineDiagnostics where
  "new_diagnostics =
     \<lparr>dg_accepted = 0, dg_review = 0, dg_rejected = 0, dg_provider_failures = 0, dg_readiness = failed,
      dg_startup_checks = [], dg_stage_latencies = [], dg_providers = [], dg_models = [],
      dg_worker_queue = empty_worker_queue, dg_last_error_summary = []\<rparr>"

text \<open>The x87 extended format of \<open>long double\<close> on the supported x86-64 targets.\<close>

definition binary80 :: float_format where
  "binary80 = \<lparr>precision = 64, min_exp = -16445, max_exp = 16320\<rparr>"

section \<open>Operations\<close>

definition record_recognition :: "RecognitionStatus \<Rightarrow> EngineDiagnostics \<Rightarrow> EngineDiagnostics" where
  "record_recognition st d = (case st of
     Accepted \<Rightarrow> d\<lparr>dg_accepted := dg_accepted d + 1\<rparr>
   | Review \<Rightarrow> d\<lparr>dg_review := dg_review d + 1\<rparr>
   | Rejected \<Rightarrow> d\<lparr>dg_rejected := dg_rejected d + 1\<rparr>)"

definition record_provider_failures :: "nat \<Rightarrow> EngineDiagnostics \<Rightarrow> EngineDiagnostics" where
  "record_provider_failures n d = d\<lparr>dg_provider_failures := dg_provider_failures d + of_nat n\<rparr>"

definition update_latency :: "fl \<Rightarrow> LatencyAccumulator option \<Rightarrow> LatencyAccumulator" where
  "update_latency latency old =
     (let a = (case old of None \<Rightarrow> \<lparr>la_count = 0, la_total_ms = Fin 0, la_min_ms = PInf, la_max_ms = Fin 0\<rparr> | Some a \<Rightarrow> a)
      in \<lparr>la_count = la_count a + 1, la_total_ms = fadd binary80 (la_total_ms a) latency,
          la_min_ms = fmin (la_min_ms a) latency, la_max_ms = fmax (la_max_ms a) latency\<rparr>)"

definition latency_ignored :: "string \<Rightarrow> fl \<Rightarrow> bool" where
  "latency_ignored stage latency = (stage = [] \<or> \<not> is_finite latency \<or> flt latency (Fin 0))"

definition record_stage_latency :: "string \<Rightarrow> fl \<Rightarrow> EngineDiagnostics \<Rightarrow> EngineDiagnostics" where
  "record_stage_latency stage latency d =
     (if latency_ignored stage latency then d
      else d\<lparr>dg_stage_latencies := omap_alter stage (update_latency latency) (dg_stage_latencies d)\<rparr>)"

definition set_readiness :: "ReadinessState \<Rightarrow> StartupCheckSnapshot list \<Rightarrow> EngineDiagnostics \<Rightarrow> EngineDiagnostics" where
  "set_readiness st checks d = d\<lparr>dg_readiness := st, dg_startup_checks := checks\<rparr>"

definition set_providers :: "DiagnosticProviderInfo list \<Rightarrow> EngineDiagnostics \<Rightarrow> EngineDiagnostics" where
  "set_providers ps d = d\<lparr>dg_providers := ps\<rparr>"

definition set_models :: "DiagnosticModelInfo list \<Rightarrow> EngineDiagnostics \<Rightarrow> EngineDiagnostics" where
  "set_models ms d = d\<lparr>dg_models := ms\<rparr>"

definition set_worker_queue :: "WorkerQueueSnapshot \<Rightarrow> EngineDiagnostics \<Rightarrow> EngineDiagnostics" where
  "set_worker_queue q d = d\<lparr>dg_worker_queue := q\<rparr>"

definition set_last_error_summary :: "string \<Rightarrow> EngineDiagnostics \<Rightarrow> EngineDiagnostics" where
  "set_last_error_summary summary d = d\<lparr>dg_last_error_summary := take (min (length summary) 256) summary\<rparr>"

definition stage_summary :: "string \<times> LatencyAccumulator \<Rightarrow> StageLatencySummary" where
  "stage_summary = (\<lambda>(stage, a).
     \<lparr>sls_stage = stage, sls_count = la_count a,
      sls_mean_ms = (if la_count a = 0 then Fin 0
        else fcast binary64 (fdiv binary80 (la_total_ms a) (float_of_nat binary80 (unat (la_count a))))),
      sls_min_ms = (if la_count a = 0 then Fin 0 else la_min_ms a), sls_max_ms = la_max_ms a\<rparr>)"

definition diagnostics_snapshot :: "EngineDiagnostics \<Rightarrow> EngineDiagnosticsSnapshot" where
  "diagnostics_snapshot d =
     \<lparr>ds_readiness = dg_readiness d, ds_startup_checks = dg_startup_checks d,
      ds_accepted = dg_accepted d, ds_review = dg_review d, ds_rejected = dg_rejected d,
      ds_provider_failures = dg_provider_failures d, ds_providers = dg_providers d, ds_models = dg_models d,
      ds_stage_latencies = map stage_summary (dg_stage_latencies d), ds_worker_queue = dg_worker_queue d,
      ds_last_error_summary = dg_last_error_summary d\<rparr>"

section \<open>Counters and summaries\<close>

interpretation b80: fp_format binary80
  by unfold_locales (simp_all add: binary80_def)

lemma record_recognition_simps [simp]:
  "dg_accepted (record_recognition st d) = dg_accepted d + (if st = Accepted then 1 else 0)"
  "dg_review (record_recognition st d) = dg_review d + (if st = Review then 1 else 0)"
  "dg_rejected (record_recognition st d) = dg_rejected d + (if st = Rejected then 1 else 0)"
  "dg_provider_failures (record_recognition st d) = dg_provider_failures d"
  "dg_stage_latencies (record_recognition st d) = dg_stage_latencies d"
  by (cases st; simp add: record_recognition_def)+

lemma record_recognitions:
  "dg_accepted (fold record_recognition sts d) = dg_accepted d + of_nat (count_list sts Accepted)"
  "dg_review (fold record_recognition sts d) = dg_review d + of_nat (count_list sts Review)"
  "dg_rejected (fold record_recognition sts d) = dg_rejected d + of_nat (count_list sts Rejected)"
  "dg_provider_failures (fold record_recognition sts d) = dg_provider_failures d"
  "dg_stage_latencies (fold record_recognition sts d) = dg_stage_latencies d"
  by (induction sts arbitrary: d) auto

lemma count_status_total:
  "count_list sts Accepted + count_list sts Review + count_list sts Rejected = length sts"
proof (induction sts)
  case (Cons st sts)
  then show ?case by (cases st) simp_all
qed simp

definition valid_latencies :: "string \<Rightarrow> (string \<times> fl) list \<Rightarrow> fl list" where
  "valid_latencies stage ts = map snd (filter (\<lambda>(s, l). s = stage \<and> \<not> latency_ignored s l) ts)"

lemma record_latencies_fold:
  "dg_stage_latencies (fold (\<lambda>(s, l). record_stage_latency s l) ts d) =
    fold (\<lambda>x. omap_alter (fst x) (update_latency (snd x))) (filter (\<lambda>x. \<not> latency_ignored (fst x) (snd x)) ts)
      (dg_stage_latencies d)"
  by (induction ts arbitrary: d) (auto simp: record_stage_latency_def)

text \<open>The accumulator of a stage after its latencies, from the first one on.\<close>

definition latency_ok :: "fl list \<Rightarrow> LatencyAccumulator \<Rightarrow> bool" where
  "latency_ok ls a \<longleftrightarrow> la_count a = of_nat (length ls) \<and>
     la_min_ms a \<in> set ls \<and> (la_max_ms a \<in> set ls \<or> la_max_ms a = Fin 0) \<and>
     (\<forall>l \<in> set ls. fle (la_min_ms a) l \<and> fle l (la_max_ms a))"

lemma update_latency_first:
  "is_finite l \<Longrightarrow> \<not> flt l (Fin 0) \<Longrightarrow> latency_ok [l] (update_latency l None)"
  by (auto simp: latency_ok_def update_latency_def fmin_def fmax_def is_finite_iff fle_def feq_def)

lemma update_latency_next:
  assumes "latency_ok ls a" and "is_finite l" and "\<forall>x \<in> set ls. is_finite x"
  shows "latency_ok (ls @ [l]) (update_latency l (Some a))"
proof -
  from assms(1,3) have fin: "is_finite (la_min_ms a)" "is_finite (la_max_ms a)"
    by (auto simp: latency_ok_def is_finite_iff)
  then have "fle (fmin (la_min_ms a) l) (la_min_ms a)" "fle (fmin (la_min_ms a) l) l"
      "fle (la_max_ms a) (fmax (la_max_ms a) l)" "fle l (fmax (la_max_ms a) l)"
    using assms(2) by (auto simp: fmin_def fmax_def is_finite_iff)
  moreover from this assms(1) have "fle (fmin (la_min_ms a) l) x" "fle x (fmax (la_max_ms a) l)" if "x \<in> set ls" for x
    using that fle_trans unfolding latency_ok_def by blast+
  moreover have "fmin (la_min_ms a) l \<in> set (ls @ [l])" "fmax (la_max_ms a) l \<in> set (ls @ [l]) \<or> fmax (la_max_ms a) l = Fin 0"
    using assms(1) by (auto simp: latency_ok_def fmin_def fmax_def)
  ultimately show ?thesis using assms(1) by (auto simp: latency_ok_def update_latency_def)
qed

lemma fold_latencies:
  assumes "ls \<noteq> []" and "\<forall>l \<in> set ls. is_finite l \<and> \<not> flt l (Fin 0)"
  shows "\<exists>a. fold (\<lambda>l v. Some (update_latency l v)) ls None = Some a \<and> latency_ok ls a"
  using assms
proof (induction ls rule: rev_induct)
  case (snoc l ls)
  show ?case
  proof (cases "ls = []")
    case True
    with snoc.prems show ?thesis using update_latency_first by simp
  next
    case False
    with snoc show ?thesis using update_latency_next by fastforce
  qed
qed simp

section \<open>Properties\<close>

text \<open>
  The latency summaries of a fresh engine are exact: the snapshot lists each recorded stage
  once, sorted by name, and nothing else; its count is the number of its finite non-negative
  latencies (modulo the 64-bit counter), its minimum is one of them and bounds them from below,
  and its maximum bounds them from above.
\<close>

theorem stage_summaries_exact:
  assumes "snap = diagnostics_snapshot (fold (\<lambda>(s, l). record_stage_latency s l) timings new_diagnostics)"
  shows "sorted_wrt (<) (map sls_stage (ds_stage_latencies snap)) \<and>
    (\<forall>stage. stage \<in> sls_stage ` set (ds_stage_latencies snap) \<longleftrightarrow> valid_latencies stage timings \<noteq> []) \<and>
    (\<forall>s \<in> set (ds_stage_latencies snap). let ls = valid_latencies (sls_stage s) timings in
       sls_count s = of_nat (length ls) \<and> (sls_count s \<noteq> 0 \<longrightarrow> sls_min_ms s \<in> set ls) \<and>
       (\<forall>l \<in> set ls. (sls_count s \<noteq> 0 \<longrightarrow> fle (sls_min_ms s) l) \<and> fle l (sls_max_ms s)))"
proof -
  let ?ts = "filter (\<lambda>x. \<not> latency_ignored (fst x) (snd x)) timings"
  let ?m = "fold (\<lambda>x. omap_alter (fst x) (update_latency (snd x))) ?ts []"
  have m: "ds_stage_latencies snap = map stage_summary ?m"
    by (simp add: assms diagnostics_snapshot_def record_latencies_fold new_diagnostics_def)
  have inv: "omap_invar ?m" by (rule om.fold_alter_invar [OF om.invar_empty])
  have names: "map sls_stage (map stage_summary xs) = map fst xs" for xs
    by (induction xs) (auto simp: stage_summary_def)
  have ls: "valid_latencies stage timings = map snd (filter (\<lambda>x. fst x = stage) ?ts)" for stage
    by (simp add: valid_latencies_def split_def conj_commute)
  have look: "map_of ?m stage = fold (\<lambda>l v. Some (update_latency l v)) (valid_latencies stage timings) None" for stage
    unfolding ls om.lookup_fold_alter [OF om.invar_empty] by (simp add: fold_map comp_def)
  have good: "\<forall>l \<in> set (valid_latencies stage timings). is_finite l \<and> \<not> flt l (Fin 0)" for stage
    by (auto simp: valid_latencies_def latency_ignored_def)
  have keys: "stage \<in> fst ` set ?m \<longleftrightarrow> valid_latencies stage timings \<noteq> []" for stage
  proof (cases "valid_latencies stage timings = []")
    case True
    then have "map_of ?m stage = None" using look by simp
    with True show ?thesis by (simp add: map_of_eq_None_iff)
  next
    case False
    then have "map_of ?m stage \<noteq> None" using look fold_latencies [OF False good] by auto
    with False show ?thesis by (simp add: map_of_eq_None_iff)
  qed
  have entry: "latency_ok (valid_latencies stage timings) a" if "(stage, a) \<in> set ?m" for stage a
  proof -
    have "valid_latencies stage timings \<noteq> []" using keys that by force
    from fold_latencies [OF this good] look om.entries_lookup [OF inv] that show ?thesis by auto
  qed
  have "sorted_wrt (<) (map sls_stage (ds_stage_latencies snap))"
    unfolding m names using inv by (simp add: omap_invar_def)
  moreover have "sls_stage ` set (ds_stage_latencies snap) = fst ` set ?m"
    unfolding m by (metis list.set_map names)
  ultimately show ?thesis
    using keys entry unfolding m by (auto simp: stage_summary_def latency_ok_def Let_def)
qed

theorem stage_summaries_exact_witness:
  "sls_stage ` set (ds_stage_latencies (diagnostics_snapshot
     (fold (\<lambda>(s, l). record_stage_latency s l) [(''decision'', Fin 2), (''fusion'', NaN)] new_diagnostics))) = {''decision''}"
proof -
  let ?t = "[(''decision'', Fin 2), (''fusion'', NaN)]"
  have "valid_latencies stage ?t \<noteq> [] \<longleftrightarrow> stage = ''decision''" for stage
    by (auto simp: valid_latencies_def latency_ignored_def)
  with stage_summaries_exact [OF refl, of ?t] show ?thesis by blast
qed

end
