(* ===== verification/Decision_Policy.thy ===== *)
theory Decision_Policy
  imports Engine_Config
begin

text \<open>
  The safe decision policy (\<^verbatim>\<open>application/safe_decision_policy.cpp\<close>): how a detection, the OCR
  evidence and the fused candidates become ACCEPTED, REVIEW or REJECTED.
\<close>

section \<open>The policy\<close>

definition effective_value :: "PlateCandidate \<Rightarrow> fl" where
  "effective_value c =
     (if flt (Fin 0) (cand_calibrated c) then cand_calibrated c else cand_confidence c)"

definition policy_effective_confidence :: "PlateCandidate \<Rightarrow> fl result" where
  "policy_effective_confidence c =
     (let v = effective_value c
      in if \<not> is_finite v \<or> flt v (Fin 0) \<or> flt (Fin 1) v
         then Inl (ProviderError ''decision policy received invalid candidate confidence'')
         else Inr v)"

text \<open>The constructor validates a default engine configuration carrying the decision part.\<close>

definition make_decision_policy :: "DecisionConfig \<Rightarrow> DecisionConfig result" where
  "make_decision_policy config =
     res_bind (validate_engine_config (default_engine_config\<lparr>ec_decision := config\<rparr>)) (\<lambda>_. Inr config)"

text \<open>The best crop quality of the evidence, each checked in turn.\<close>

definition policy_crop_quality :: "RecognitionEvidence list \<Rightarrow> fl result" where
  "policy_crop_quality evidence = res_fold
     (\<lambda>item best.
        if \<not> is_finite (ev_crop_quality item) \<or> flt (ev_crop_quality item) (Fin 0) \<or> flt (Fin 1) (ev_crop_quality item)
        then Inl (ProviderError ''decision policy received invalid crop quality'')
        else Inr (fmax best (ev_crop_quality item)))
     evidence (Fin 0)"

text \<open>The candidates that count: well-formed plates, every candidate's confidence checked first.\<close>

definition policy_valid :: "PlateCandidate list \<Rightarrow> PlateCandidate list result" where
  "policy_valid candidates = res_fold
     (\<lambda>c valid. res_bind (policy_effective_confidence c)
        (\<lambda>_. Inr (if cand_format_valid c \<and> cand_text c \<noteq> [] then valid @ [c] else valid)))
     candidates []"

definition policy_order :: "PlateCandidate \<Rightarrow> PlateCandidate \<Rightarrow> bool" where
  "policy_order = before_by effective_value cand_text"

text \<open>The reasons for a review, in the order the code appends them.\<close>

definition review_reasons ::
  "DecisionConfig \<Rightarrow> Detection \<Rightarrow> fl \<Rightarrow> bool \<Rightarrow> PlateCandidate list \<Rightarrow> RecognitionDecisionReason list" where
  "review_reasons cfg det crop_quality degraded valid =
     (if \<not> is_finite (det_geometry_score det) \<or> flt (det_geometry_score det) (minimum_geometry_score cfg)
      then [geometry_below_minimum] else []) @
     (if flt crop_quality (minimum_crop_quality cfg) then [crop_quality_below_minimum] else []) @
     (if flt (effective_value (valid ! 0)) (accepted_confidence_threshold cfg)
      then [candidate_confidence_below_accept] else []) @
     (if length valid > 1 \<and> cand_text (valid ! 1) \<noteq> cand_text (valid ! 0) \<and>
         fle (strong_conflict_threshold cfg) (effective_value (valid ! 1))
      then [conflicting_strong_candidates] else []) @
     (if degraded then [degraded_provider_set] else [])"

definition policy_verdict ::
  "DecisionConfig \<Rightarrow> Detection \<Rightarrow> RecognitionDecisionContext \<Rightarrow> fl \<Rightarrow> bool \<Rightarrow> PlateCandidate list \<Rightarrow>
   RecognitionStatus \<times> RecognitionDecisionReason list" where
  "policy_verdict cfg det ctx crop_quality degraded valid =
     (if ctx_fatal_provider_failure ctx then (Rejected, [fatal_provider_failure])
      else if \<not> is_finite (det_confidence det) \<or>
              flt (det_confidence det) (minimum_effective_detector_confidence cfg)
      then (Rejected, [detector_confidence_below_minimum])
      else if valid = [] then (Rejected, [no_valid_candidate])
      else if flt (effective_value (valid ! 0)) (review_confidence_threshold cfg)
      then (Rejected, [candidate_confidence_below_review])
      else let reasons = review_reasons cfg det crop_quality degraded valid
           in if reasons \<noteq> [] then (Review, reasons) else (Accepted, [accepted_consensus]))"

definition decide ::
  "DecisionConfig \<Rightarrow> Detection \<Rightarrow> RecognitionEvidence list \<Rightarrow> PlateCandidate list \<Rightarrow>
   RecognitionDecisionContext \<Rightarrow> PlateRecognitionResult result" where
  "decide cfg det evidence fused ctx =
     res_bind (policy_crop_quality evidence) (\<lambda>crop_quality.
     res_bind (policy_valid fused) (\<lambda>unsorted.
       let valid = stable_sort policy_order unsorted;
           degraded = (ctx_degraded ctx \<or> ctx_provider_failure_count ctx > 0);
           verdict = policy_verdict cfg det ctx crop_quality degraded valid
       in Inr (empty_result
            \<lparr>res_bbox := Some (det_bbox det), res_quadrilateral := det_quadrilateral det,
             res_detector_confidence := det_confidence det,
             res_geometry_score := det_geometry_score det,
             res_evidence := evidence, res_alternatives := fused, res_degraded := degraded,
             res_crop_quality := crop_quality,
             res_plate := (if valid = [] then [] else cand_text (valid ! 0)),
             res_confidence := (if valid = [] then Fin 0 else effective_value (valid ! 0)),
             res_status := fst verdict, res_decision_reasons := snd verdict\<rparr>)))"

section \<open>The two loops\<close>

definition candidate_ok :: "PlateCandidate \<Rightarrow> bool" where
  "candidate_ok c = is_prob (effective_value c)"

definition format_candidates :: "PlateCandidate list \<Rightarrow> PlateCandidate list" where
  "format_candidates = filter (\<lambda>c. cand_format_valid c \<and> cand_text c \<noteq> [])"

lemma policy_effective_confidence_eq:
  "policy_effective_confidence c =
     (if candidate_ok c then Inr (effective_value c)
      else Inl (ProviderError ''decision policy received invalid candidate confidence''))"
  by (auto simp: policy_effective_confidence_def candidate_ok_def is_prob_def Let_def)

lemma policy_valid_loop:
  "res_fold (\<lambda>c valid. res_bind (policy_effective_confidence c)
      (\<lambda>_. Inr (if cand_format_valid c \<and> cand_text c \<noteq> [] then valid @ [c] else valid))) cs acc =
    (if list_all candidate_ok cs then Inr (acc @ format_candidates cs)
     else Inl (ProviderError ''decision policy received invalid candidate confidence''))"
  by (induction cs arbitrary: acc) (auto simp: policy_effective_confidence_eq format_candidates_def)

lemma policy_valid_eq:
  "policy_valid cs =
    (if list_all candidate_ok cs then Inr (format_candidates cs)
     else Inl (ProviderError ''decision policy received invalid candidate confidence''))"
  by (simp add: policy_valid_def policy_valid_loop)

definition best_crop_quality :: "RecognitionEvidence list \<Rightarrow> fl \<Rightarrow> fl" where
  "best_crop_quality = fold (\<lambda>item best. fmax best (ev_crop_quality item))"

lemma policy_crop_quality_eq:
  "policy_crop_quality evidence =
    (if list_all (\<lambda>e. is_prob (ev_crop_quality e)) evidence then Inr (best_crop_quality evidence (Fin 0))
     else Inl (ProviderError ''decision policy received invalid crop quality''))"
proof -
  have "res_fold (\<lambda>item best.
        if \<not> is_finite (ev_crop_quality item) \<or> flt (ev_crop_quality item) (Fin 0) \<or> flt (Fin 1) (ev_crop_quality item)
        then Inl (ProviderError ''decision policy received invalid crop quality'')
        else Inr (fmax best (ev_crop_quality item))) evidence q =
    (if list_all (\<lambda>e. is_prob (ev_crop_quality e)) evidence then Inr (best_crop_quality evidence q)
     else Inl (ProviderError ''decision policy received invalid crop quality''))" for q
    by (induction evidence arbitrary: q) (auto simp: best_crop_quality_def is_prob_def)
  then show ?thesis by (simp add: policy_crop_quality_def)
qed

lemma best_crop_quality_prob:
  "is_prob q \<Longrightarrow> list_all (\<lambda>e. is_prob (ev_crop_quality e)) evidence \<Longrightarrow> is_prob (best_crop_quality evidence q)"
  by (induction evidence arbitrary: q) (auto simp: best_crop_quality_def prob_fmax)

text \<open>Sorting keeps the candidates and puts one of greatest effective confidence first.\<close>

definition ranked :: "PlateCandidate list \<Rightarrow> PlateCandidate list" where
  "ranked cs = stable_sort policy_order (format_candidates cs)"

lemma set_ranked: "set (ranked cs) = set (format_candidates cs)"
  by (simp add: ranked_def)

lemma ranked_best:
  assumes "list_all candidate_ok cs" and "ranked cs = y # ys" and "x \<in> set (format_candidates cs)"
  shows "fle (effective_value x) (effective_value y)"
proof (rule stable_sort_best [where xs = "format_candidates cs" and lbl = cand_text])
  show "\<forall>x \<in> set (format_candidates cs). effective_value x \<noteq> NaN"
    using assms(1) by (auto simp: list_all_iff format_candidates_def candidate_ok_def)
qed (use assms(2,3) in \<open>simp_all add: ranked_def policy_order_def\<close>)

lemma decide_eq:
  "decide cfg det evidence fused ctx =
    (if \<not> list_all (\<lambda>e. is_prob (ev_crop_quality e)) evidence
     then Inl (ProviderError ''decision policy received invalid crop quality'')
     else if \<not> list_all candidate_ok fused
     then Inl (ProviderError ''decision policy received invalid candidate confidence'')
     else let valid = ranked fused; crop_quality = best_crop_quality evidence (Fin 0);
           degraded = (ctx_degraded ctx \<or> ctx_provider_failure_count ctx > 0);
           verdict = policy_verdict cfg det ctx crop_quality degraded valid
       in Inr (empty_result
            \<lparr>res_bbox := Some (det_bbox det), res_quadrilateral := det_quadrilateral det,
             res_detector_confidence := det_confidence det,
             res_geometry_score := det_geometry_score det,
             res_evidence := evidence, res_alternatives := fused, res_degraded := degraded,
             res_crop_quality := crop_quality,
             res_plate := (if valid = [] then [] else cand_text (valid ! 0)),
             res_confidence := (if valid = [] then Fin 0 else effective_value (valid ! 0)),
             res_status := fst verdict, res_decision_reasons := snd verdict\<rparr>))"
  by (simp add: decide_def policy_crop_quality_eq policy_valid_eq ranked_def Let_def)

lemma decide_Inr:
  assumes "decide cfg det evidence fused ctx = Inr r"
  shows "list_all (\<lambda>e. is_prob (ev_crop_quality e)) evidence" and "list_all candidate_ok fused"
    and "res_crop_quality r = best_crop_quality evidence (Fin 0)"
    and "res_degraded r \<longleftrightarrow> ctx_degraded ctx \<or> ctx_provider_failure_count ctx > 0"
    and "res_plate r = (if ranked fused = [] then [] else cand_text (ranked fused ! 0))"
    and "res_confidence r = (if ranked fused = [] then Fin 0 else effective_value (ranked fused ! 0))"
    and "(res_status r, res_decision_reasons r) =
      policy_verdict cfg det ctx (res_crop_quality r) (res_degraded r) (ranked fused)"
  using assms by (auto simp: decide_eq Let_def split: if_splits)

text \<open>The verdict, status by status.\<close>

lemma policy_verdict_accepted:
  "policy_verdict cfg det ctx q deg valid = (Accepted, rs) \<longleftrightarrow>
    rs = [accepted_consensus] \<and> \<not> ctx_fatal_provider_failure ctx \<and> is_finite (det_confidence det) \<and>
    \<not> flt (det_confidence det) (minimum_effective_detector_confidence cfg) \<and> valid \<noteq> [] \<and>
    \<not> flt (effective_value (valid ! 0)) (review_confidence_threshold cfg) \<and>
    review_reasons cfg det q deg valid = []"
  by (auto simp: policy_verdict_def Let_def)

lemma review_reasons_Nil:
  "review_reasons cfg det q deg valid = [] \<longleftrightarrow>
    is_finite (det_geometry_score det) \<and> \<not> flt (det_geometry_score det) (minimum_geometry_score cfg) \<and>
    \<not> flt q (minimum_crop_quality cfg) \<and>
    \<not> flt (effective_value (valid ! 0)) (accepted_confidence_threshold cfg) \<and>
    \<not> (length valid > 1 \<and> cand_text (valid ! 1) \<noteq> cand_text (valid ! 0) \<and>
       fle (strong_conflict_threshold cfg) (effective_value (valid ! 1))) \<and> \<not> deg"
  by (auto simp: review_reasons_def)

lemma review_reasons_not_consensus: "accepted_consensus \<notin> set (review_reasons cfg det q deg valid)"
  by (auto simp: review_reasons_def)

lemma make_decision_policy_valid:
  "make_decision_policy config = Inr cfg \<Longrightarrow> config = cfg \<and> validate_decision cfg = Inr ()"
  by (auto simp: make_decision_policy_def result_simps validate_engine_config_ok)


lemma format_candidates_iff:
  "c \<in> set (format_candidates cs) \<longleftrightarrow> c \<in> set cs \<and> cand_format_valid c \<and> cand_text c \<noteq> []"
  by (auto simp: format_candidates_def)

lemma ranked_head:
  assumes "list_all candidate_ok cs" and "ranked cs \<noteq> []"
  shows "ranked cs ! 0 \<in> set (format_candidates cs)"
    and "d \<in> set (format_candidates cs) \<Longrightarrow> fle (effective_value d) (effective_value (ranked cs ! 0))"
proof -
  obtain y ys where y: "ranked cs = y # ys" using assms(2) by (cases "ranked cs") auto
  then show "ranked cs ! 0 \<in> set (format_candidates cs)" using set_ranked [of cs] by auto
  show "fle (effective_value d) (effective_value (ranked cs ! 0))" if "d \<in> set (format_candidates cs)"
    using ranked_best [OF assms(1) y that] y by simp
qed

text \<open>After the first element, the second has the greatest confidence.\<close>

lemma ranked_second:
  assumes ok: "list_all candidate_ok cs" and y: "ranked cs = a # b # ys" and d: "d \<in> set (format_candidates cs)" "d \<noteq> a"
  shows "fle (effective_value d) (effective_value b)"
proof -
  have fin: "\<forall>x \<in> set (format_candidates cs). effective_value x \<noteq> NaN"
    using ok by (auto simp: list_all_iff format_candidates_def candidate_ok_def)
  have "sorted_wrt (\<lambda>a b. fle (effective_value b) (effective_value a)) (a # b # ys)"
    using stable_sort_scores_sorted [OF fin, of cand_text] y unfolding ranked_def policy_order_def by metis
  moreover have "d \<in> set (a # b # ys)" using d(1) y set_ranked [of cs] by simp
  moreover have "b \<in> set (format_candidates cs)" using y set_ranked [of cs] by (metis list.set_intros)
  ultimately show ?thesis using d(2) fin by auto
qed

lemma accepted_facts:
  assumes "decide cfg det evidence fused ctx = Inr r" and "res_status r = Accepted"
  shows "ranked fused \<noteq> []" and "res_decision_reasons r = [accepted_consensus]"
    and "\<not> ctx_fatal_provider_failure ctx" and "\<not> res_degraded r"
    and "is_finite (det_confidence det)"
    and "\<not> flt (det_confidence det) (minimum_effective_detector_confidence cfg)"
    and "review_reasons cfg det (res_crop_quality r) (res_degraded r) (ranked fused) = []"
  using decide_Inr(7) [OF assms(1), symmetric] assms(2)
  by (auto simp: policy_verdict_accepted review_reasons_Nil)

section \<open>A concrete decision\<close>

definition clear_detection :: Detection where
  "clear_detection =
     \<lparr>det_bbox = \<lparr>bb_x = Fin 0, bb_y = Fin 0, bb_width = Fin 100, bb_height = Fin 20\<rparr>,
      det_quadrilateral = None, det_confidence = Fin 1, det_geometry_score = Fin 1, det_provider = ''d''\<rparr>"

definition clear_evidence :: "RecognitionEvidence list" where
  "clear_evidence = [\<lparr>ev_source = ''ocr'', ev_candidates = [], ev_crop_quality = Fin 1, ev_latency_ms = Fin 0\<rparr>]"

definition clear_context :: RecognitionDecisionContext where
  "clear_context = \<lparr>ctx_degraded = False, ctx_fatal_provider_failure = False, ctx_provider_failure_count = 0\<rparr>"

definition plate_candidate :: "string \<Rightarrow> rat \<Rightarrow> PlateCandidate" where
  "plate_candidate plate p =
     \<lparr>cand_text = plate, cand_confidence = Fin p, cand_calibrated = Fin p, cand_format_valid = True\<rparr>"

definition twin_candidates :: "PlateCandidate list" where
  "twin_candidates = [plate_candidate ''34ABC12'' (7/8), plate_candidate ''34ABC12'' (7/8),
     plate_candidate ''34ABG12'' (27/32)]"

definition clear_candidates :: "PlateCandidate list" where
  "clear_candidates = [plate_candidate ''34ABC12'' (7/8), plate_candidate ''34ABG12'' (1/2)]"

lemma default_policy: "make_decision_policy default_decision_config = Inr default_decision_config"
proof -
  have "default_engine_config\<lparr>ec_decision := default_decision_config\<rparr> = default_engine_config"
    by (simp add: default_engine_config_def)
  then show ?thesis by (simp add: make_decision_policy_def default_engine_config_valid)
qed

lemma clear_decision:
  "\<exists>r. decide default_decision_config clear_detection clear_evidence clear_candidates clear_context = Inr r \<and>
     (res_status r, res_plate r) = (Accepted, ''34ABC12'')"
  by (rule map_sum_Inr_obtain [where f = "\<lambda>_. ()"]) code_simp

section \<open>Properties\<close>

text \<open>
  C2: the policy fails closed. A result is ACCEPTED only if no provider failed or was degraded,
  detector confidence, geometry score and crop quality reach their configured minima, and the
  plate is a format-valid, non-empty fused candidate whose effective confidence reaches the
  acceptance threshold and is the greatest of all format-valid candidates.
\<close>

theorem accepted_is_justified:
  assumes "make_decision_policy config = Inr cfg"
    and "decide cfg det evidence fused ctx = Inr r" and "res_status r = Accepted"
  shows "\<not> ctx_fatal_provider_failure ctx \<and> \<not> ctx_degraded ctx \<and> ctx_provider_failure_count ctx = 0 \<and>
    fle (minimum_effective_detector_confidence cfg) (det_confidence det) \<and>
    fle (minimum_geometry_score cfg) (det_geometry_score det) \<and>
    fle (minimum_crop_quality cfg) (res_crop_quality r) \<and>
    (\<exists>c \<in> set fused. cand_format_valid c \<and> cand_text c \<noteq> [] \<and>
       res_plate r = cand_text c \<and> res_confidence r = effective_value c \<and>
       fle (accepted_confidence_threshold cfg) (effective_value c) \<and>
       (\<forall>d \<in> set fused. cand_format_valid d \<and> cand_text d \<noteq> [] \<longrightarrow> fle (effective_value d) (effective_value c)))"
proof -
  note D = decide_Inr [OF assms(2)] and A = accepted_facts [OF assms(2,3)]
  note nn = make_decision_policy_valid [OF assms(1), THEN conjunct2, unfolded validate_decision_ok]
  let ?c = "ranked fused ! 0"
  note head = ranked_head [OF D(2) A(1)]
  have ok: "candidate_ok ?c" using head(1) D(2) by (auto simp: format_candidates_iff list_all_iff)
  have q: "is_prob (res_crop_quality r)" using D(1,3) best_crop_quality_prob by simp
  note reasons = A(7) [unfolded review_reasons_Nil]
  have "fle (minimum_effective_detector_confidence cfg) (det_confidence det)"
    using A(5,6) nn by (blast intro: not_flt_finite)
  moreover have "fle (minimum_geometry_score cfg) (det_geometry_score det)"
    using reasons nn by (blast intro: not_flt_finite)
  moreover have "fle (minimum_crop_quality cfg) (res_crop_quality r)"
    using reasons nn is_prob_finite [OF q] by (blast intro: not_flt_finite)
  moreover have "fle (accepted_confidence_threshold cfg) (effective_value ?c)"
    using reasons nn ok is_prob_finite unfolding candidate_ok_def by (blast intro: not_flt_finite)
  ultimately show ?thesis
    using A(1,3,4) D(4-6) head unfolding format_candidates_iff by (auto intro!: bexI [of _ ?c])
qed

theorem accepted_is_justified_witness:
  "\<exists>r c. decide default_decision_config clear_detection clear_evidence clear_candidates clear_context = Inr r \<and>
     res_plate r = cand_text c \<and> c \<in> set clear_candidates \<and>
     fle (accepted_confidence_threshold default_decision_config) (effective_value c)"
proof -
  obtain r where r: "decide default_decision_config clear_detection clear_evidence clear_candidates clear_context = Inr r"
    and a: "res_status r = Accepted" using clear_decision by auto
  from accepted_is_justified [OF default_policy r a] r show ?thesis by blast
qed

text \<open>
  When the fused candidates carry distinct texts, every format-valid candidate other than the
  accepted one stays below the strong-conflict threshold.
\<close>

lemma accepted_no_rival:
  assumes "make_decision_policy config = Inr cfg" and "distinct (map cand_text fused)"
    and "decide cfg det evidence fused ctx = Inr r" and "res_status r = Accepted"
    and "d \<in> set fused" and "cand_format_valid d" and "cand_text d \<noteq> []" and "cand_text d \<noteq> res_plate r"
  shows "flt (effective_value d) (strong_conflict_threshold cfg)"
proof -
  note D = decide_Inr [OF assms(3)] and A = accepted_facts [OF assms(3,4)]
  have nn: "strong_conflict_threshold cfg \<noteq> NaN"
    using make_decision_policy_valid [OF assms(1), THEN conjunct2] by (auto simp: validate_decision_ok)
  have d: "d \<in> set (format_candidates fused)" using assms(5-7) by (simp add: format_candidates_iff)
  have "distinct (map cand_text (ranked fused))"
    using assms(2) by (simp add: ranked_def format_candidates_def distinct_map_filter)
  moreover obtain a b ys where y: "ranked fused = a # b # ys"
    using A(1) d assms(8) D(5) unfolding set_ranked [symmetric]
    by (cases "ranked fused"; cases "tl (ranked fused)") auto
  ultimately have "cand_text b \<noteq> cand_text a" by auto
  then have "\<not> fle (strong_conflict_threshold cfg) (effective_value b)"
    using A(7) y by (simp add: review_reasons_Nil)
  moreover have "d \<noteq> a" using assms(8) D(5) y by auto
  then have "fle (effective_value d) (effective_value b)" by (rule ranked_second [OF D(2) y d])
  ultimately show ?thesis using nn by (metis fle_flt_trans fle_not_NaN not_flt)
qed

text \<open>
  Status and reasons agree. A REJECTED result has exactly one reason, an ACCEPTED one only the
  consensus reason, a REVIEW at least one and never the consensus reason; the call throws exactly
  when a crop quality or an effective confidence is outside \<open>[0,1]\<close>, and then a provider error.
\<close>

theorem decision_total_and_explained:
  "(\<exists>r. decide cfg det evidence fused ctx = Inr r \<and>
      list_all (\<lambda>e. is_prob (ev_crop_quality e)) evidence \<and> list_all candidate_ok fused \<and>
      (case res_status r of
         Accepted \<Rightarrow> res_decision_reasons r = [accepted_consensus]
       | Rejected \<Rightarrow> (\<exists>reason. res_decision_reasons r = [reason] \<and> reason \<noteq> accepted_consensus)
       | Review \<Rightarrow> res_decision_reasons r \<noteq> [] \<and> accepted_consensus \<notin> set (res_decision_reasons r))) \<or>
   (\<exists>msg. decide cfg det evidence fused ctx = Inl (ProviderError msg) \<and>
      \<not> (list_all (\<lambda>e. is_prob (ev_crop_quality e)) evidence \<and> list_all candidate_ok fused))"
proof (cases "decide cfg det evidence fused ctx")
  case (Inl e)
  then show ?thesis by (auto simp: decide_eq Let_def split: if_splits)
next
  case (Inr r)
  note D = decide_Inr [OF Inr]
  have "case res_status r of
         Accepted \<Rightarrow> res_decision_reasons r = [accepted_consensus]
       | Rejected \<Rightarrow> (\<exists>reason. res_decision_reasons r = [reason] \<and> reason \<noteq> accepted_consensus)
       | Review \<Rightarrow> res_decision_reasons r \<noteq> [] \<and> accepted_consensus \<notin> set (res_decision_reasons r)"
    using D(7) review_reasons_not_consensus by (auto simp: policy_verdict_def Let_def split: if_splits)
  with Inr D(1,2) show ?thesis by blast
qed

text \<open>
  The conflict check compares the two highest-ranked candidates only. With the default
  configuration and a candidate listed twice, a different plate of almost the same confidence is
  overlooked and the result is ACCEPTED.
\<close>

theorem repeated_candidate_hides_conflict:
  "map_sum (\<lambda>_. ()) (\<lambda>r. (res_status r, res_plate r))
     (decide default_decision_config clear_detection clear_evidence twin_candidates clear_context)
   = Inr (Accepted, ''34ABC12'') \<and>
   fle (strong_conflict_threshold default_decision_config) (effective_value (twin_candidates ! 2)) \<and>
   cand_text (twin_candidates ! 2) = ''34ABG12''"
  by code_simp

end
