(* ===== verification/Candidate_Fusion.thy ===== *)
theory Candidate_Fusion
  imports Domain
begin

text \<open>
  The fusion of the OCR candidates of all crops of one detection
  (\<^verbatim>\<open>application/candidate_fusion.cpp\<close>): each crop gives a plate text the best score of its
  candidates, and the crops' scores of one text are combined by a noisy-or.
\<close>

section \<open>Configuration\<close>

record CandidateFusionConfig =
  max_candidates :: nat
  default_source_weight :: fl
  source_weights :: "(string \<times> fl) list"   \<comment> \<open>\<open>std::map\<close>, in key order\<close>
  recognition_weight :: fl
  crop_quality_weight :: fl
  candidate_margin_weight :: fl
  layout_weight :: fl
  minimum_candidate_confidence :: fl

definition default_fusion_config :: CandidateFusionConfig where
  "default_fusion_config =
     \<lparr>max_candidates = 5, default_source_weight = Fin 1, source_weights = [],
      recognition_weight = lit32 (65/100), crop_quality_weight = lit32 (15/100),
      candidate_margin_weight = lit32 (10/100), layout_weight = lit32 (10/100),
      minimum_candidate_confidence = lit32 (1/100)\<rparr>"

definition require_probability :: "fl \<Rightarrow> string \<Rightarrow> unit result" where
  "require_probability v name =
     throw_if (\<not> is_finite v \<or> flt v (Fin 0) \<or> flt (Fin 1) v)
       (ConfigurationError (name @ '' must be finite and in [0,1]''))"

definition total_weight :: "CandidateFusionConfig \<Rightarrow> fl" where
  "total_weight c =
     add32 (add32 (add32 (recognition_weight c) (crop_quality_weight c)) (candidate_margin_weight c))
       (layout_weight c)"

definition check_source_weight :: "string \<times> fl \<Rightarrow> unit result" where
  "check_source_weight = (\<lambda>(source, weight). check_all
     [throw_if (source = []) (ConfigurationError ''candidate fusion source name cannot be empty''),
      require_probability weight ''source_weight''])"

definition make_candidate_fusion :: "CandidateFusionConfig \<Rightarrow> CandidateFusionConfig result" where
  "make_candidate_fusion c =
     res_bind (check_all
      ([throw_if (max_candidates c = 0 \<or> max_candidates c > 64)
          (ConfigurationError ''candidate fusion max_candidates must be in [1,64]''),
        require_probability (default_source_weight c) ''default_source_weight'',
        require_probability (recognition_weight c) ''recognition_weight'',
        require_probability (crop_quality_weight c) ''crop_quality_weight'',
        require_probability (candidate_margin_weight c) ''candidate_margin_weight'',
        require_probability (layout_weight c) ''layout_weight'',
        require_probability (minimum_candidate_confidence c) ''minimum_candidate_confidence'',
        throw_if (\<not> is_finite (total_weight c) \<or> fle (total_weight c) (Fin 0))
          (ConfigurationError ''candidate fusion scoring weights must have a positive sum'')] @
       map check_source_weight (source_weights c)))
     (\<lambda>_. Inr c)"

section \<open>Scores\<close>

definition fusion_effective_confidence :: "PlateCandidate \<Rightarrow> fl" where
  "fusion_effective_confidence c =
     (if is_finite (cand_calibrated c) \<and> flt (Fin 0) (cand_calibrated c) then clamp01 (cand_calibrated c)
      else if is_finite (cand_confidence c) then clamp01 (cand_confidence c) else Fin 0)"

definition candidate_margin :: "RecognitionEvidence \<Rightarrow> nat \<Rightarrow> fl" where
  "candidate_margin ev i =
     (if i \<ge> length (ev_candidates ev) \<or> ev_candidates ev = [] then Fin 0
      else let candidate = ev_candidates ev ! i;
               highest_competing = fold
                 (\<lambda>(j, c) highest. if j = i \<or> cand_text c = cand_text candidate then highest
                    else fmax highest (fusion_effective_confidence c))
                 (enumerate 0 (ev_candidates ev)) (Fin 0)
           in clamp01 (sub32 (fusion_effective_confidence candidate) highest_competing))"

definition source_weight :: "CandidateFusionConfig \<Rightarrow> string \<Rightarrow> fl" where
  "source_weight cfg source =
     (case map_of (source_weights cfg) source of None \<Rightarrow> default_source_weight cfg | Some w \<Rightarrow> w)"

definition layout_quality :: "LayoutEvidence list \<Rightarrow> nat \<Rightarrow> fl" where
  "layout_quality layout i =
     (if i < length layout \<and> lay_reliable (layout ! i) \<and> is_finite (lay_confidence (layout ! i))
      then clamp01 (lay_confidence (layout ! i)) else Fin 0)"

definition candidate_score :: "CandidateFusionConfig \<Rightarrow> RecognitionEvidence \<Rightarrow> fl \<Rightarrow> nat \<Rightarrow> fl" where
  "candidate_score cfg ev layout i =
     mul32 (source_weight cfg (ev_source ev))
       (clamp01 (div32
         (add32 (add32 (add32
            (mul32 (fusion_effective_confidence (ev_candidates ev ! i)) (recognition_weight cfg))
            (mul32 (clamp01 (ev_crop_quality ev)) (crop_quality_weight cfg)))
            (mul32 (candidate_margin ev i) (candidate_margin_weight cfg)))
            (mul32 layout (layout_weight cfg)))
         (total_weight cfg)))"

text \<open>A candidate the inner loop does not skip.\<close>

definition eligible :: "CandidateFusionConfig \<Rightarrow> PlateCandidate \<Rightarrow> bool" where
  "eligible cfg c = (\<not> (cand_text c = [] \<or> flt (fusion_effective_confidence c) (minimum_candidate_confidence cfg)))"

section \<open>The two maps\<close>

type_synonym support_map = "(string \<times> (fl \<times> bool)) list"

definition update_local :: "fl \<Rightarrow> bool \<Rightarrow> (fl \<times> bool) option \<Rightarrow> fl \<times> bool" where
  "update_local score format_valid old =
     (let (best, valid) = (case old of None \<Rightarrow> (Fin 0, False) | Some p \<Rightarrow> p)
      in (if flt best score then score else best, valid \<or> format_valid))"

definition per_crop_support :: "CandidateFusionConfig \<Rightarrow> RecognitionEvidence \<Rightarrow> fl \<Rightarrow> support_map" where
  "per_crop_support cfg ev layout = fold
     (\<lambda>(i, c) m. if eligible cfg c
        then omap_alter (cand_text c) (update_local (candidate_score cfg ev layout i) (cand_format_valid c)) m
        else m)
     (enumerate 0 (ev_candidates ev)) []"

definition noisy_or :: "fl \<Rightarrow> fl \<Rightarrow> fl" where
  "noisy_or a b = clamp01 (sub32 (Fin 1) (mul32 (sub32 (Fin 1) a) (sub32 (Fin 1) b)))"

definition update_aggregate :: "fl \<times> bool \<Rightarrow> (fl \<times> bool) option \<Rightarrow> fl \<times> bool" where
  "update_aggregate loc old =
     (let (support, valid) = (case old of None \<Rightarrow> (Fin 0, False) | Some p \<Rightarrow> p)
      in (noisy_or support (fst loc), valid \<or> snd loc))"

definition usable_evidence :: "CandidateFusionConfig \<Rightarrow> RecognitionEvidence \<Rightarrow> bool" where
  "usable_evidence cfg ev =
     (\<not> (fle (source_weight cfg (ev_source ev)) (Fin 0) \<or> \<not> is_finite (ev_crop_quality ev)))"

definition add_evidence ::
  "CandidateFusionConfig \<Rightarrow> LayoutEvidence list \<Rightarrow> nat \<times> RecognitionEvidence \<Rightarrow> support_map \<Rightarrow> support_map" where
  "add_evidence cfg layout = (\<lambda>(i, ev) m.
     if usable_evidence cfg ev
     then fold (\<lambda>(plate, loc). omap_alter plate (update_aggregate loc))
            (per_crop_support cfg ev (layout_quality layout i)) m
     else m)"

definition aggregate :: "CandidateFusionConfig \<Rightarrow> RecognitionEvidence list \<Rightarrow> LayoutEvidence list \<Rightarrow> support_map" where
  "aggregate cfg evidence layout = fold (add_evidence cfg layout) (enumerate 0 evidence) []"

definition fused_candidate :: "string \<times> (fl \<times> bool) \<Rightarrow> PlateCandidate" where
  "fused_candidate = (\<lambda>(plate, support, valid).
     \<lparr>cand_text = plate, cand_confidence = support, cand_calibrated = support, cand_format_valid = valid\<rparr>)"

definition fuse ::
  "CandidateFusionConfig \<Rightarrow> RecognitionEvidence list \<Rightarrow> LayoutEvidence list \<Rightarrow> PlateCandidate list" where
  "fuse cfg evidence layout =
     take (max_candidates cfg)
       (stable_sort (before_by cand_confidence cand_text)
         (map fused_candidate (aggregate cfg evidence layout)))"

section \<open>Scores are probabilities\<close>

lemma require_probability_ok [result_simps]: "require_probability v name = Inr () \<longleftrightarrow> is_prob v"
  by (auto simp: require_probability_def result_simps is_prob_def)

lemma fusion_effective_confidence_prob [prob_intros]: "is_prob (fusion_effective_confidence c)"
  by (auto simp: fusion_effective_confidence_def is_finite_iff intro: prob_clamp01)

lemma candidate_margin_prob [prob_intros]: "is_prob (candidate_margin ev i)"
proof -
  have "is_prob (fold (\<lambda>(j, c) highest. if j = i \<or> P c then highest else fmax highest (fusion_effective_confidence c)) xs h)"
    if "is_prob h" for P xs h
    using that
  proof (induction xs arbitrary: h)
    case (Cons x xs)
    from Cons.prems show ?case
      by (cases x) (auto intro!: Cons.IH prob_fmax fusion_effective_confidence_prob)
  qed simp
  note high = this [of "Fin 0" "\<lambda>c. cand_text c = cand_text (ev_candidates ev ! i)", simplified]
  have "is_prob a \<Longrightarrow> is_prob b \<Longrightarrow> sub32 a b \<noteq> NaN" for a b
    by (cases a; cases b) (auto simp: fsub_def)
  with high show ?thesis
    by (auto simp: candidate_margin_def Let_def intro!: prob_clamp01 prob_intros)
qed

lemma layout_quality_prob [prob_intros]: "is_prob (layout_quality layout i)"
  by (auto simp: layout_quality_def is_finite_iff intro: prob_clamp01)

definition fusion_config_ok :: "CandidateFusionConfig \<Rightarrow> bool" where
  "fusion_config_ok cfg \<longleftrightarrow> max_candidates cfg \<in> {1..64} \<and> is_prob (default_source_weight cfg) \<and>
     is_prob (recognition_weight cfg) \<and> is_prob (crop_quality_weight cfg) \<and>
     is_prob (candidate_margin_weight cfg) \<and> is_prob (layout_weight cfg) \<and>
     is_prob (minimum_candidate_confidence cfg) \<and> is_finite (total_weight cfg) \<and>
     flt (Fin 0) (total_weight cfg) \<and> (\<forall>(s, w) \<in> set (source_weights cfg). s \<noteq> [] \<and> is_prob w)"

lemma make_candidate_fusion_ok:
  "make_candidate_fusion c = Inr cfg \<longleftrightarrow> c = cfg \<and> fusion_config_ok cfg"
proof -
  have t: "is_finite t \<Longrightarrow> fle t (Fin 0) \<longleftrightarrow> \<not> flt (Fin 0) t" for t by (auto simp: is_finite_iff)
  have w: "check_source_weight p = Inr () \<longleftrightarrow> fst p \<noteq> [] \<and> is_prob (snd p)" for p
    by (auto simp: check_source_weight_def result_simps split: prod.splits)
  show ?thesis
    by (auto simp: make_candidate_fusion_def fusion_config_ok_def result_simps t w Suc_le_eq)
qed

lemma source_weight_prob [prob_intros]: "fusion_config_ok cfg \<Longrightarrow> is_prob (source_weight cfg s)"
  by (auto simp: fusion_config_ok_def source_weight_def split: option.splits dest: map_of_SomeD)

lemma prob_sum_finite:
  assumes "is_prob a" "is_prob b" "is_prob c" "is_prob d"
  shows "\<exists>x. add32 (add32 (add32 a b) c) d = Fin x \<and> 0 \<le> x"
proof -
  from assms(1) obtain x where x: "a = Fin x" "0 \<le> x" "x \<le> 1" by (rule is_probE)
  then have "x \<le> of_nat 1" by simp
  from b32.fold_fadd_bound [OF _ _ _ x(2) this, of "[b, c, d]" "\<lambda>y. y"] assms(2-4) x(1)
  show ?thesis by (auto simp: binary32_def)
qed

lemma candidate_score_prob [prob_intros]:
  assumes cfg: "fusion_config_ok cfg" and lay: "is_prob layout" and q: "is_finite (ev_crop_quality ev)"
  shows "is_prob (candidate_score cfg ev layout i)"
proof -
  have q': "is_prob (clamp01 (ev_crop_quality ev))" using q by (auto intro: prob_clamp01)
  obtain x where x: "add32 (add32 (add32
            (mul32 (fusion_effective_confidence (ev_candidates ev ! i)) (recognition_weight cfg))
            (mul32 (clamp01 (ev_crop_quality ev)) (crop_quality_weight cfg)))
            (mul32 (candidate_margin ev i) (candidate_margin_weight cfg)))
            (mul32 layout (layout_weight cfg)) = Fin x" "0 \<le> x"
    using prob_sum_finite lay q' cfg
    by (metis b32.prob_fmul fusion_effective_confidence_prob candidate_margin_prob fusion_config_ok_def)
  obtain t where t: "total_weight cfg = Fin t" "0 < t"
    using cfg by (auto simp: fusion_config_ok_def is_finite_iff)
  have "div32 (Fin x) (Fin t) \<noteq> NaN" using t(2) by simp
  then show ?thesis
    using x t by (auto simp: candidate_score_def intro!: b32.prob_fmul source_weight_prob [OF cfg] prob_clamp01)
qed

lemma noisy_or_prob [prob_intros]: "is_prob a \<Longrightarrow> is_prob b \<Longrightarrow> is_prob (noisy_or a b)"
  by (simp add: noisy_or_def prob_intros )


section \<open>The bindings of the two maps\<close>

text \<open>What one crop can contribute: the eligible candidates with one text.\<close>

definition crop_offers :: "CandidateFusionConfig \<Rightarrow> RecognitionEvidence \<Rightarrow> string \<Rightarrow> bool" where
  "crop_offers cfg ev plate = (\<exists>c \<in> set (ev_candidates ev). eligible cfg c \<and> cand_text c = plate)"

definition crop_validates :: "CandidateFusionConfig \<Rightarrow> RecognitionEvidence \<Rightarrow> string \<Rightarrow> bool" where
  "crop_validates cfg ev plate =
     (\<exists>c \<in> set (ev_candidates ev). eligible cfg c \<and> cand_text c = plate \<and> cand_format_valid c)"

lemma per_crop_support_fold:
  "per_crop_support cfg ev layout = fold
     (\<lambda>x. omap_alter (cand_text (snd x)) (update_local (candidate_score cfg ev layout (fst x)) (cand_format_valid (snd x))))
     (filter (\<lambda>x. eligible cfg (snd x)) (enumerate 0 (ev_candidates ev))) []"
  unfolding per_crop_support_def by (subst fold_skip [symmetric]) (simp add: split_def)

lemma snd_enumerate: "snd ` set (enumerate n xs) = set xs"
  by (metis list.set_map map_snd_enumerate)

lemma enumerate_element: "(i, x) \<in> set (enumerate n xs) \<Longrightarrow> x \<in> set xs"
  using snd_enumerate [of n xs] by force

lemma per_crop_support_invar: "omap_invar (per_crop_support cfg ev layout)"
  unfolding per_crop_support_fold by (rule om.fold_alter_invar [OF om.invar_empty])

lemma per_crop_support_keys:
  "map_of (per_crop_support cfg ev layout) plate \<noteq> None \<longleftrightarrow> crop_offers cfg ev plate"
  unfolding per_crop_support_fold om.fold_alter_keys [OF om.invar_empty] crop_offers_def
  using snd_enumerate [of 0 "ev_candidates ev"] by (force simp: image_iff)

lemma per_crop_support_binding:
  assumes "fusion_config_ok cfg" and "is_prob layout" and "is_finite (ev_crop_quality ev)"
    and "map_of (per_crop_support cfg ev layout) plate = Some v"
  shows "is_prob (fst v) \<and> (snd v \<longrightarrow> crop_validates cfg ev plate)"
  using assms(4) unfolding per_crop_support_fold
  by (rule om.fold_alter_bindings [OF om.invar_empty, rotated -1,
        where P = "\<lambda>plate v. is_prob (fst v) \<and> (snd v \<longrightarrow> crop_validates cfg ev plate)"])
     (use candidate_score_prob [OF assms(1-3)] in
       \<open>auto simp: update_local_def crop_validates_def split: prod.splits dest: enumerate_element\<close>)

text \<open>What the evidence as a whole offers for a plate.\<close>

definition offered :: "CandidateFusionConfig \<Rightarrow> RecognitionEvidence list \<Rightarrow> string \<Rightarrow> bool" where
  "offered cfg evidence plate = (\<exists>ev \<in> set evidence. usable_evidence cfg ev \<and> crop_offers cfg ev plate)"

definition aggregate_ok :: "CandidateFusionConfig \<Rightarrow> RecognitionEvidence list \<Rightarrow> support_map \<Rightarrow> bool" where
  "aggregate_ok cfg evidence m \<longleftrightarrow> omap_invar m \<and>
     (\<forall>plate. map_of m plate \<noteq> None \<longleftrightarrow> offered cfg evidence plate) \<and>
     (\<forall>plate v. map_of m plate = Some v \<longrightarrow> is_prob (fst v) \<and>
        (snd v \<longrightarrow> (\<exists>ev \<in> set evidence. usable_evidence cfg ev \<and> crop_validates cfg ev plate)))"

lemma add_evidence_ok:
  assumes cfg: "fusion_config_ok cfg" and m: "aggregate_ok cfg evs m"
  shows "aggregate_ok cfg (evs @ [ev]) (add_evidence cfg layout (i, ev) m)"
proof (cases "usable_evidence cfg ev")
  case False
  with m show ?thesis by (auto simp: aggregate_ok_def add_evidence_def offered_def)
next
  case True
  let ?loc = "per_crop_support cfg ev (layout_quality layout i)"
  let ?step = "fold (\<lambda>x. omap_alter (fst x) (update_aggregate (snd x))) ?loc m"
  have step: "add_evidence cfg layout (i, ev) m = ?step" using True by (simp add: add_evidence_def split_def)
  have inv: "omap_invar m" using m by (simp add: aggregate_ok_def)
  have fin: "is_finite (ev_crop_quality ev)" using True by (simp add: usable_evidence_def)
  have dom: "fst ` set ?loc = {k. map_of ?loc k \<noteq> None}"
    by (auto simp: map_of_eq_None_iff)
  have keys: "map_of ?step plate \<noteq> None \<longleftrightarrow> crop_offers cfg ev plate \<or> map_of m plate \<noteq> None" for plate
    unfolding om.fold_alter_keys [OF inv] dom mem_Collect_eq per_crop_support_keys ..
  have loc: "is_prob (fst (snd x)) \<and> (snd (snd x) \<longrightarrow> crop_validates cfg ev (fst x))" if "x \<in> set ?loc" for x
    using per_crop_support_binding [OF cfg layout_quality_prob fin, of layout i "fst x" "snd x"]
      om.entries_lookup [OF per_crop_support_invar] that by (metis prod.collapse)
  have "is_prob (fst v) \<and> (snd v \<longrightarrow> (\<exists>ev' \<in> set (evs @ [ev]). usable_evidence cfg ev' \<and> crop_validates cfg ev' plate))"
    if "map_of ?step plate = Some v" for plate v
    using that
    by (rule om.fold_alter_bindings [OF inv, rotated -1])
       (use m loc True in \<open>auto simp: aggregate_ok_def update_aggregate_def intro!: noisy_or_prob split: prod.splits\<close>)
  then show ?thesis
    using keys m True om.fold_alter_invar [OF inv]
    by (auto simp: aggregate_ok_def step offered_def)
qed

lemma aggregate_correct:
  assumes "fusion_config_ok cfg"
  shows "aggregate_ok cfg evidence (aggregate cfg evidence layout)"
proof (induction evidence rule: rev_induct)
  case Nil
  show ?case by (simp add: aggregate_def aggregate_ok_def om.invar_empty offered_def)
next
  case (snoc ev evs)
  have "aggregate cfg (evs @ [ev]) layout = add_evidence cfg layout (length evs, ev) (aggregate cfg evs layout)"
    by (simp add: aggregate_def enumerate_append_eq)
  with add_evidence_ok [OF assms snoc] show ?case by simp
qed


section \<open>What the fusion returns\<close>

definition fused_support :: "CandidateFusionConfig \<Rightarrow> RecognitionEvidence list \<Rightarrow> LayoutEvidence list \<Rightarrow> string \<Rightarrow> fl" where
  "fused_support cfg evidence layout plate =
     (case map_of (aggregate cfg evidence layout) plate of None \<Rightarrow> Fin 0 | Some v \<Rightarrow> fst v)"

lemma fused_candidate_simps [simp]:
  "cand_text (fused_candidate p) = fst p" "cand_confidence (fused_candidate p) = fst (snd p)"
  "cand_calibrated (fused_candidate p) = fst (snd p)" "cand_format_valid (fused_candidate p) = snd (snd p)"
  by (simp_all add: fused_candidate_def split: prod.splits)

lemma fused_entry:
  assumes "fusion_config_ok cfg" and "p \<in> set (aggregate cfg evidence layout)"
  shows "offered cfg evidence (fst p)" and "is_prob (fst (snd p))"
    and "snd (snd p) \<Longrightarrow> \<exists>ev \<in> set evidence. usable_evidence cfg ev \<and> crop_validates cfg ev (fst p)"
    and "fused_support cfg evidence layout (fst p) = fst (snd p)"
proof -
  note agg = aggregate_correct [OF assms(1), of evidence layout, unfolded aggregate_ok_def]
  have m: "map_of (aggregate cfg evidence layout) (fst p) = Some (snd p)"
    using assms(2) agg by (metis om.entries_lookup prod.collapse)
  show "offered cfg evidence (fst p)" using m agg by (metis option.distinct(1))
  show "is_prob (fst (snd p))" using m agg by blast
  show "snd (snd p) \<Longrightarrow> \<exists>ev \<in> set evidence. usable_evidence cfg ev \<and> crop_validates cfg ev (fst p)"
    using m agg by blast
  show "fused_support cfg evidence layout (fst p) = fst (snd p)" using m by (simp add: fused_support_def)
qed

text \<open>All candidates before the truncation, ranked.\<close>

definition fused_ranking ::
  "CandidateFusionConfig \<Rightarrow> RecognitionEvidence list \<Rightarrow> LayoutEvidence list \<Rightarrow> PlateCandidate list" where
  "fused_ranking cfg evidence layout =
     stable_sort (before_by cand_confidence cand_text) (map fused_candidate (aggregate cfg evidence layout))"

lemma fuse_eq: "fuse cfg evidence layout = take (max_candidates cfg) (fused_ranking cfg evidence layout)"
  by (simp add: fuse_def fused_ranking_def)

lemma fused_ranking_set: "set (fused_ranking cfg evidence layout) = fused_candidate ` set (aggregate cfg evidence layout)"
  by (simp add: fused_ranking_def)

lemma fused_ranking_distinct:
  "fusion_config_ok cfg \<Longrightarrow> distinct (map cand_text (fused_ranking cfg evidence layout))"
  using aggregate_correct [of cfg evidence layout]
  by (simp add: fused_ranking_def comp_def aggregate_ok_def om.entries_keys_distinct)

lemma fused_ranking_sorted:
  assumes "fusion_config_ok cfg"
  shows "sorted_wrt (\<lambda>a b. fle (cand_confidence b) (cand_confidence a)) (fused_ranking cfg evidence layout)"
  unfolding fused_ranking_def
  by (rule stable_sort_scores_sorted) (use fused_entry(2) [OF assms] in force)

lemma offered_nonempty: "offered cfg evidence plate \<Longrightarrow> plate \<noteq> []"
  by (auto simp: offered_def crop_offers_def eligible_def)

text \<open>
  Two crops of one plate used by the witnesses: they agree on the first candidate and each has a
  second reading of its own.
\<close>

definition crop_reading :: "string \<Rightarrow> string \<Rightarrow> RecognitionEvidence" where
  "crop_reading source second =
     \<lparr>ev_source = source,
      ev_candidates = [\<lparr>cand_text = ''34ABC12'', cand_confidence = Fin (3/4), cand_calibrated = Fin (3/4), cand_format_valid = True\<rparr>,
                       \<lparr>cand_text = second, cand_confidence = Fin (1/4), cand_calibrated = Fin 0, cand_format_valid = True\<rparr>],
      ev_crop_quality = Fin (1/2), ev_latency_ms = Fin 0\<rparr>"

definition two_crops :: "RecognitionEvidence list" where
  "two_crops = [crop_reading ''a'' ''34ABG12'', crop_reading ''b'' ''34A8C12'']"

lemma default_fusion: "make_candidate_fusion default_fusion_config = Inr default_fusion_config"
  by code_simp

lemma two_crops_offer: "offered default_fusion_config two_crops ''34ABC12''"
  by code_simp

text \<open>
  C3: the fusion returns a well-formed ranking: at most the configured number of candidates, no
  text twice, sorted by decreasing confidence, each with a confidence in \<open>[0,1]\<close> that equals its
  calibrated confidence. Each text was offered by an eligible candidate of a usable crop, and a
  text is format-valid only if one of those candidates was.
\<close>

theorem fusion_well_formed:
  assumes "make_candidate_fusion config = Inr cfg" and "out = fuse cfg evidence layout"
  shows "length out \<le> max_candidates config \<and> distinct (map cand_text out) \<and>
    sorted_wrt (\<lambda>a b. fle (cand_confidence b) (cand_confidence a)) out \<and>
    (\<forall>c \<in> set out. is_prob (cand_confidence c) \<and> cand_calibrated c = cand_confidence c \<and>
       cand_text c \<noteq> [] \<and> offered cfg evidence (cand_text c) \<and>
       (cand_format_valid c \<longrightarrow> (\<exists>ev \<in> set evidence. usable_evidence cfg ev \<and> crop_validates cfg ev (cand_text c))))"
proof -
  from assms(1) have cfg: "config = cfg" "fusion_config_ok cfg" by (simp_all add: make_candidate_fusion_ok)
  have "c \<in> fused_candidate ` set (aggregate cfg evidence layout)" if "c \<in> set out" for c
    using that in_set_takeD fused_ranking_set unfolding assms(2) fuse_eq by metis
  moreover have "distinct (map cand_text out)"
    using fused_ranking_distinct [OF cfg(2), of evidence layout]
    unfolding assms(2) fuse_eq by (simp add: take_map [symmetric] distinct_take)
  moreover have "sorted_wrt (\<lambda>a b. fle (cand_confidence b) (cand_confidence a)) out"
    unfolding assms(2) fuse_eq by (rule sorted_wrt_take [OF fused_ranking_sorted [OF cfg(2)]])
  ultimately show ?thesis
    using fused_entry [OF cfg(2)] offered_nonempty by (fastforce simp: assms(2) cfg(1) fuse_eq)
qed

theorem fusion_well_formed_witness:
  "length (fuse default_fusion_config two_crops []) \<le> 5 \<and>
   distinct (map cand_text (fuse default_fusion_config two_crops []))"
  using fusion_well_formed [OF default_fusion refl, of two_crops "[]"] by (simp add: default_fusion_config_def)

text \<open>
  Nothing is lost but by the size limit: a text that an eligible candidate of a usable crop
  offers is among the results with its support, or the result is full and every candidate in it
  has at least that support.
\<close>

theorem fusion_complete:
  assumes "make_candidate_fusion config = Inr cfg" and "offered cfg evidence plate"
  shows "(\<exists>c \<in> set (fuse cfg evidence layout). cand_text c = plate \<and>
            cand_confidence c = fused_support cfg evidence layout plate) \<or>
    (length (fuse cfg evidence layout) = max_candidates config \<and>
     (\<forall>c \<in> set (fuse cfg evidence layout).
        fle (fused_support cfg evidence layout plate) (cand_confidence c)))"
proof -
  let ?all = "fused_ranking cfg evidence layout" and ?n = "max_candidates cfg"
  from assms(1) have cfg: "config = cfg" "fusion_config_ok cfg" by (simp_all add: make_candidate_fusion_ok)
  obtain v where v: "map_of (aggregate cfg evidence layout) plate = Some v"
    using aggregate_correct [OF cfg(2)] assms(2) unfolding aggregate_ok_def by blast
  let ?c = "fused_candidate (plate, v)"
  have c: "?c \<in> set ?all" "cand_confidence ?c = fused_support cfg evidence layout plate"
    using v map_of_SomeD [OF v] by (auto simp: fused_ranking_set fused_support_def)
  show ?thesis
  proof (cases "?c \<in> set (take ?n ?all)")
    case True
    with c(2) show ?thesis unfolding fuse_eq by force
  next
    case False
    with c(1) have d: "?c \<in> set (drop ?n ?all)" by (metis Un_iff append_take_drop_id set_append)
    then have "length (take ?n ?all) = ?n" by (cases "length ?all \<le> ?n") auto
    moreover have "fle (cand_confidence ?c) (cand_confidence x)" if "x \<in> set (take ?n ?all)" for x
      using fused_ranking_sorted [OF cfg(2), of evidence layout] that d
      by (metis append_take_drop_id sorted_wrt_append)
    ultimately show ?thesis using c(2) unfolding fuse_eq cfg(1) by auto
  qed
qed

theorem fusion_complete_witness:
  "\<exists>c \<in> set (fuse default_fusion_config two_crops []). cand_text c = ''34ABC12'' \<or>
     length (fuse default_fusion_config two_crops []) = 5"
proof -
  have "fuse default_fusion_config two_crops [] \<noteq> []" by code_simp
  then show ?thesis
    using fusion_complete [OF default_fusion two_crops_offer, of "[]"]
    by (cases "fuse default_fusion_config two_crops []") (auto simp: default_fusion_config_def)
qed

text \<open>
  A calibrated confidence of zero does not count as calibrated: the fusion then uses the raw
  confidence, so a candidate that the calibration has reduced to zero is offered with its
  uncalibrated score.
\<close>

theorem calibrated_zero_falls_back:
  "eligible default_fusion_config
     \<lparr>cand_text = ''34ABG12'', cand_confidence = Fin (1/4), cand_calibrated = Fin 0, cand_format_valid = False\<rparr> \<and>
   fusion_effective_confidence
     \<lparr>cand_text = ''34ABG12'', cand_confidence = Fin (1/4), cand_calibrated = Fin 0, cand_format_valid = False\<rparr> = Fin (1/4) \<and>
   map cand_text (fuse default_fusion_config two_crops []) = [''34ABC12'', ''34A8C12'', ''34ABG12'']"
  by code_simp

end
