(* ===== verification/Lpr_Pipeline.thy ===== *)
theory Lpr_Pipeline
  imports Recognition_Ensemble Engine_Diagnostics Decision_Policy Candidate_Fusion
begin

text \<open>
  The recognition pipeline (\<^verbatim>\<open>application/lpr_pipeline.cpp\<close>): detection, then per detection
  geometry, alignment, crops, per crop recognition, calibration and layout, then fusion and
  decision. The providers are parameters; provider errors of the optional stages are recorded as
  failures of the detection they occur in.
\<close>

section \<open>Data\<close>

record PipelineStageTiming =
  pst_stage :: string
  pst_detection_index :: nat
  pst_crop_index :: nat
  pst_latency_ms :: fl

record LprPipelineResult =
  lpr_recognitions :: "PlateRecognitionResult list"
  lpr_stage_timings :: "PipelineStageTiming list"
  lpr_failures :: "ProviderFailure list"
  lpr_total_latency_ms :: fl
  lpr_provider_failure_count :: nat
  lpr_degraded :: bool

definition empty_pipeline_result :: LprPipelineResult where
  "empty_pipeline_result =
     \<lparr>lpr_recognitions = [], lpr_stage_timings = [], lpr_failures = [], lpr_total_latency_ms = Fin 0,
      lpr_provider_failure_count = 0, lpr_degraded = False\<rparr>"

record Pipeline =
  pl_detector_name :: string
  pl_detect :: "ImageView \<Rightarrow> OperationContext \<Rightarrow> Detection list io"
  pl_geometry :: "Detection \<Rightarrow> OperationContext \<Rightarrow> GeometryEvidence io"
  pl_align :: "ImageView \<Rightarrow> Detection \<Rightarrow> OperationContext \<Rightarrow> ImageBuffer option io"
  pl_generate :: "ImageView \<Rightarrow> Detection \<Rightarrow> ImageBuffer option \<Rightarrow> OperationContext \<Rightarrow> CropHypothesis list io"
  pl_recognizers :: "RecognizerRegistration list"
  pl_calibrate :: "string \<Rightarrow> fl \<Rightarrow> fl \<Rightarrow> string \<Rightarrow> fl io"
  pl_analyze :: "ImageView \<Rightarrow> PlateCandidate list \<Rightarrow> OperationContext \<Rightarrow> LayoutEvidence io"
  pl_fuse :: "RecognitionEvidence list \<Rightarrow> LayoutEvidence list \<Rightarrow> PlateCandidate list result"
  pl_decide :: "Detection \<Rightarrow> RecognitionEvidence list \<Rightarrow> PlateCandidate list \<Rightarrow> RecognitionDecisionContext \<Rightarrow>
    PlateRecognitionResult result"
  pl_diagnostics :: "EngineDiagnostics option"

text \<open>The dependencies as the caller fills them in: every pointer may be null.\<close>

record LprPipelineDependencies =
  dep_detector :: "(string \<times> (ImageView \<Rightarrow> OperationContext \<Rightarrow> Detection list io)) option"
  dep_geometry :: "(Detection \<Rightarrow> OperationContext \<Rightarrow> GeometryEvidence io) option"
  dep_aligner :: "(ImageView \<Rightarrow> Detection \<Rightarrow> OperationContext \<Rightarrow> ImageBuffer option io) option"
  dep_crop_generator :: "(ImageView \<Rightarrow> Detection \<Rightarrow> ImageBuffer option \<Rightarrow> OperationContext \<Rightarrow> CropHypothesis list io) option"
  dep_recognition_ensemble :: "RecognizerRegistration list option"
  dep_calibrator :: "(string \<Rightarrow> fl \<Rightarrow> fl \<Rightarrow> string \<Rightarrow> fl io) option"
  dep_layout_analyzer :: "(ImageView \<Rightarrow> PlateCandidate list \<Rightarrow> OperationContext \<Rightarrow> LayoutEvidence io) option"
  dep_candidate_fusion :: "(RecognitionEvidence list \<Rightarrow> LayoutEvidence list \<Rightarrow> PlateCandidate list result) option"
  dep_decision_policy :: "(Detection \<Rightarrow> RecognitionEvidence list \<Rightarrow> PlateCandidate list \<Rightarrow> RecognitionDecisionContext \<Rightarrow>
    PlateRecognitionResult result) option"
  dep_diagnostics :: "EngineDiagnostics option"

definition make_pipeline :: "LprPipelineDependencies \<Rightarrow> Pipeline result" where
  "make_pipeline d =
     (case (dep_detector d, dep_geometry d, dep_aligner d, dep_crop_generator d, dep_recognition_ensemble d,
            dep_calibrator d, dep_layout_analyzer d, dep_candidate_fusion d, dep_decision_policy d) of
        (Some (name, detector), Some geo, Some align, Some gen, Some rs, Some cal, Some lay, Some fus, Some dec) \<Rightarrow>
          Inr \<lparr>pl_detector_name = name, pl_detect = detector, pl_geometry = geo, pl_align = align, pl_generate = gen,
               pl_recognizers = rs, pl_calibrate = cal, pl_analyze = lay, pl_fuse = fus, pl_decide = dec,
               pl_diagnostics = dep_diagnostics d\<rparr>
      | _ \<Rightarrow> Inl (ConfigurationError ''LPR pipeline requires all orchestration dependencies''))"

section \<open>Steps\<close>

definition check_context :: "OperationContext \<Rightarrow> unit io" where
  "check_context ctx = check_operation ctx ''LPR pipeline cancelled'' ''LPR pipeline deadline exceeded''"

definition add_timing :: "string \<Rightarrow> nat \<Rightarrow> nat \<Rightarrow> int \<Rightarrow> LprPipelineResult \<Rightarrow> LprPipelineResult io" where
  "add_timing stage di ci started r = io_bind io_now (\<lambda>now. io_return
     (r\<lparr>lpr_stage_timings := lpr_stage_timings r @
        [\<lparr>pst_stage = stage, pst_detection_index = di, pst_crop_index = ci,
          pst_latency_ms = fmax (Fin 0) (milliseconds_between started now)\<rparr>]\<rparr>))"

definition record_failure :: "string \<Rightarrow> EngineErrorCode \<Rightarrow> LprPipelineResult \<times> RecognitionDecisionContext \<Rightarrow>
    LprPipelineResult \<times> RecognitionDecisionContext" where
  "record_failure prov code = (\<lambda>(r, dc).
     (r\<lparr>lpr_degraded := True, lpr_provider_failure_count := lpr_provider_failure_count r + 1,
        lpr_failures := lpr_failures r @ [\<lparr>pf_provider = prov, pf_code = code\<rparr>]\<rparr>,
      dc\<lparr>ctx_degraded := True, ctx_provider_failure_count := ctx_provider_failure_count dc + 1\<rparr>))"

text \<open>\<open>try\<close> a stage; a \<open>ProviderError\<close> is recorded and \<open>dflt\<close> is its value, anything else propagates.\<close>

definition try_stage :: "'a io \<Rightarrow> 'a \<Rightarrow> string \<Rightarrow> LprPipelineResult \<times> RecognitionDecisionContext \<Rightarrow>
    ('a \<times> LprPipelineResult \<times> RecognitionDecisionContext) io" where
  "try_stage m dflt prov s =
     io_try (io_bind m (\<lambda>a. io_return (a, s)))
       (\<lambda>e. case e of EngineError provider msg \<Rightarrow> io_return (dflt, record_failure prov provider s) | _ \<Rightarrow> io_throw e)"

fun find_provider_weight :: "RecognizerRegistration list \<Rightarrow> string \<Rightarrow> fl" where
  "find_provider_weight [] prov = Fin 1"
| "find_provider_weight (r # rs) prov =
     (if reg_provider r \<noteq> None \<and> reg_name r = prov
      then (if reg_enabled r then clamp01 (reg_weight r) else Fin 0)
      else find_provider_weight rs prov)"

definition calibrate_candidate ::
  "Pipeline \<Rightarrow> CropHypothesis \<Rightarrow> string \<Rightarrow> fl \<Rightarrow> PlateCandidate \<Rightarrow> PlateCandidate list \<Rightarrow> PlateCandidate list io" where
  "calibrate_candidate p crop source weight c done_so_far =
     io_bind (pl_calibrate p source (cand_confidence c) (crop_quality crop) (crop_type crop)) (\<lambda>calibrated.
       io_return (done_so_far @ [c\<lparr>cand_calibrated := clamp01 (mul32 calibrated weight)\<rparr>]))"

definition calibrate_evidence ::
  "Pipeline \<Rightarrow> CropHypothesis \<Rightarrow> RecognitionEvidence \<Rightarrow> RecognitionEvidence list \<Rightarrow> RecognitionEvidence list io" where
  "calibrate_evidence p crop ev done_so_far =
     io_bind (io_fold (calibrate_candidate p crop (ev_source ev) (find_provider_weight (pl_recognizers p) (ev_source ev)))
       (ev_candidates ev) []) (\<lambda>cs. io_return (done_so_far @ [ev\<lparr>ev_candidates := cs\<rparr>]))"

definition no_layout :: LayoutEvidence where
  "no_layout = \<lparr>lay_reliable = False, lay_character_count = None, lay_letter_group_size = None, lay_confidence = Fin 0\<rparr>"

record CropLoopState =
  cl_result :: LprPipelineResult
  cl_context :: RecognitionDecisionContext
  cl_evidence :: "RecognitionEvidence list"
  cl_layout :: "LayoutEvidence list"
  cl_best_quality :: fl

definition absorb_ensemble :: "RecognitionEnsembleResult \<Rightarrow> LprPipelineResult \<times> RecognitionDecisionContext \<Rightarrow>
    LprPipelineResult \<times> RecognitionDecisionContext" where
  "absorb_ensemble ens = (\<lambda>(r, dc).
     (r\<lparr>lpr_failures := lpr_failures r @ ens_failures ens,
        lpr_provider_failure_count := lpr_provider_failure_count r + length (ens_failures ens),
        lpr_degraded := (lpr_degraded r \<or> ens_degraded ens)\<rparr>,
      dc\<lparr>ctx_degraded := (ctx_degraded dc \<or> ens_degraded ens),
         ctx_provider_failure_count := ctx_provider_failure_count dc + length (ens_failures ens)\<rparr>))"

definition process_crop ::
  "Pipeline \<Rightarrow> OperationContext \<Rightarrow> nat \<Rightarrow> nat \<times> CropHypothesis \<Rightarrow> CropLoopState \<Rightarrow> CropLoopState io" where
  "process_crop p ctx di = (\<lambda>(ci, crop) s.
     let best = fmax (cl_best_quality s) (clamp01 (crop_quality crop)) in
     io_bind io_now (\<lambda>recognition_started.
     io_bind (ensemble_recognize (pl_recognizers p) (crop_image crop) (crop_quality crop) ctx) (\<lambda>ens.
     io_bind (add_timing ''recognition'' di ci recognition_started (cl_result s)) (\<lambda>r.
     let (r, dc) = absorb_ensemble ens (r, cl_context s) in
     io_bind io_now (\<lambda>calibration_started.
     io_bind (io_fold (calibrate_evidence p crop) (ens_evidence ens) []) (\<lambda>evidence.
     io_bind (add_timing ''calibration'' di ci calibration_started r) (\<lambda>r.
     let crop_candidates = concat (map ev_candidates evidence) in
     io_bind io_now (\<lambda>layout_started.
     io_bind (try_stage (pl_analyze p (crop_image crop) crop_candidates ctx) no_layout ''layout'' (r, dc)) (\<lambda>(layout, r, dc).
     io_bind (add_timing ''layout'' di ci layout_started r) (\<lambda>r.
     io_bind (check_context ctx) (\<lambda>_.
     io_return \<lparr>cl_result = r, cl_context = dc, cl_evidence = cl_evidence s @ evidence,
       cl_layout = cl_layout s @ replicate (length evidence) layout, cl_best_quality = best\<rparr>)))))))))))"

definition new_decision_context :: RecognitionDecisionContext where
  "new_decision_context = \<lparr>ctx_degraded = False, ctx_fatal_provider_failure = False, ctx_provider_failure_count = 0\<rparr>"

definition geometry_score_of :: "GeometryEvidence \<Rightarrow> fl" where
  "geometry_score_of g = (if is_finite (geo_score g) then clamp01 (geo_score g) else Fin 0)"

definition process_detection ::
  "Pipeline \<Rightarrow> ImageView \<Rightarrow> OperationContext \<Rightarrow> int \<Rightarrow> nat \<times> Detection \<Rightarrow> LprPipelineResult \<Rightarrow> LprPipelineResult io" where
  "process_detection p img ctx pipeline_started = (\<lambda>(di, detection) r.
     io_bind io_now (\<lambda>geometry_started.
     io_bind (try_stage (io_bind (pl_geometry p detection ctx) (\<lambda>g. io_return (geometry_score_of g))) (Fin 0) ''geometry''
       (r, new_decision_context)) (\<lambda>(score, r, dc).
     let detection = detection\<lparr>det_geometry_score := score\<rparr> in
     io_bind (add_timing ''geometry'' di 0 geometry_started r) (\<lambda>r.
     io_bind (check_context ctx) (\<lambda>_.
     io_bind io_now (\<lambda>alignment_started.
     io_bind (try_stage (pl_align p img detection ctx) None ''alignment'' (r, dc)) (\<lambda>(aligned, r, dc).
     io_bind (add_timing ''alignment'' di 0 alignment_started r) (\<lambda>r.
     io_bind (check_context ctx) (\<lambda>_.
     io_bind io_now (\<lambda>crop_started.
     io_bind (pl_generate p img detection aligned ctx) (\<lambda>crops.
     io_bind (add_timing ''crop_generation'' di 0 crop_started r) (\<lambda>r.
     io_bind (check_context ctx) (\<lambda>_.
     io_bind (io_fold (process_crop p ctx di) (enumerate 0 crops)
       \<lparr>cl_result = r, cl_context = dc, cl_evidence = [], cl_layout = [], cl_best_quality = Fin 0\<rparr>) (\<lambda>s.
     io_bind io_now (\<lambda>fusion_started.
     io_bind (io_lift (pl_fuse p (cl_evidence s) (cl_layout s))) (\<lambda>fused.
     io_bind (add_timing ''fusion'' di 0 fusion_started (cl_result s)) (\<lambda>r.
     io_bind io_now (\<lambda>decision_started.
     io_bind (io_lift (pl_decide p detection (cl_evidence s) fused (cl_context s))) (\<lambda>recognition.
     io_bind (add_timing ''decision'' di 0 decision_started r) (\<lambda>r.
     io_bind io_now (\<lambda>now.
     let recognition = recognition\<lparr>res_crop_quality := cl_best_quality s,
           res_degraded := (res_degraded recognition \<or> ctx_degraded (cl_context s)),
           res_total_latency_ms := milliseconds_between pipeline_started now\<rparr>;
         r = r\<lparr>lpr_recognitions := lpr_recognitions r @ [recognition]\<rparr> in
     io_bind (check_context ctx) (\<lambda>_. io_return r))))))))))))))))))))))"

definition pipeline_recognize :: "Pipeline \<Rightarrow> ImageView \<Rightarrow> OperationContext \<Rightarrow> LprPipelineResult io" where
  "pipeline_recognize p img ctx =
     io_bind io_now (\<lambda>pipeline_started.
     io_bind (check_context ctx) (\<lambda>_.
     io_bind (io_lift (validate_image img default_performance_config)) (\<lambda>validated.
     io_bind io_now (\<lambda>detection_started.
     io_bind (pl_detect p (vi_view validated) ctx) (\<lambda>detections.
     io_bind (add_timing ''detection'' 0 0 detection_started empty_pipeline_result) (\<lambda>r.
     io_bind (check_context ctx) (\<lambda>_.
     io_bind (io_fold (process_detection p (vi_view validated) ctx pipeline_started) (enumerate 0 detections) r) (\<lambda>r.
     io_bind io_now (\<lambda>now.
     io_return (r\<lparr>lpr_total_latency_ms := fmax (Fin 0) (milliseconds_between pipeline_started now)\<rparr>))))))))))"

definition publish_diagnostics :: "LprPipelineResult \<Rightarrow> EngineDiagnostics \<Rightarrow> EngineDiagnostics" where
  "publish_diagnostics r d =
     fold (\<lambda>t. record_stage_latency (pst_stage t) (pst_latency_ms t)) (lpr_stage_timings r)
       (record_provider_failures (lpr_provider_failure_count r)
         (fold (\<lambda>rec. record_recognition (res_status rec)) (lpr_recognitions r) d))"

text \<open>The whole call: the result, and the pipeline with its diagnostics updated.\<close>

definition recognize :: "Pipeline \<Rightarrow> ImageView \<Rightarrow> OperationContext \<Rightarrow> (LprPipelineResult \<times> Pipeline) io" where
  "recognize p img ctx =
     io_bind (pipeline_recognize p img ctx) (\<lambda>r.
       io_return (r, p\<lparr>pl_diagnostics := map_option (publish_diagnostics r) (pl_diagnostics p)\<rparr>))"

section \<open>Failure accounting\<close>

text \<open>Since \<open>r0\<close>, exactly the failures \<open>fs\<close> were recorded, and the decision context knows them.\<close>

definition accounts :: "LprPipelineResult \<Rightarrow> ProviderFailure list \<Rightarrow> LprPipelineResult \<times> RecognitionDecisionContext \<Rightarrow> bool" where
  "accounts r0 fs = (\<lambda>(r, dc).
     lpr_failures r = lpr_failures r0 @ fs \<and>
     lpr_provider_failure_count r = lpr_provider_failure_count r0 + length fs \<and>
     (lpr_degraded r \<longleftrightarrow> lpr_degraded r0 \<or> fs \<noteq> []) \<and> lpr_recognitions r = lpr_recognitions r0 \<and>
     (ctx_degraded dc \<longleftrightarrow> fs \<noteq> []) \<and> ctx_provider_failure_count dc = length fs \<and> \<not> ctx_fatal_provider_failure dc)"

definition accounted :: "LprPipelineResult \<Rightarrow> LprPipelineResult \<times> RecognitionDecisionContext \<Rightarrow> bool" where
  "accounted r0 s = (\<exists>fs. accounts r0 fs s)"

lemma accounted_start: "accounted r (r, new_decision_context)"
  by (auto simp: accounted_def accounts_def new_decision_context_def)

lemma accounted_record_failure: "accounted r0 s \<Longrightarrow> accounted r0 (record_failure prov code s)"
  by (auto simp: accounted_def accounts_def record_failure_def)

lemma accounted_timing: "accounted r0 (r, dc) \<Longrightarrow> accounted r0 (r\<lparr>lpr_stage_timings := ts\<rparr>, dc)"
  by (auto simp: accounted_def accounts_def)

lemma accounted_absorb:
  assumes "accounted r0 s" and "ens_degraded ens \<longleftrightarrow> ens_failures ens \<noteq> []"
  shows "accounted r0 (absorb_ensemble ens s)"
proof -
  obtain fs where "accounts r0 fs s" using assms(1) by (auto simp: accounted_def)
  then have "accounts r0 (fs @ ens_failures ens) (absorb_ensemble ens s)"
    using assms(2) by (auto simp: accounts_def absorb_ensemble_def split: prod.splits)
  then show ?thesis by (auto simp: accounted_def)
qed

lemma add_timing_Inr:
  "add_timing stage di ci t r w n = (Inr r', n') \<Longrightarrow> \<exists>ts. r' = r\<lparr>lpr_stage_timings := ts\<rparr>"
  by (auto simp: add_timing_def io_simps)

lemma accounted_add_timing:
  "add_timing stage di ci t r w n = (Inr r', n') \<Longrightarrow> accounted r0 (r, dc) \<Longrightarrow> accounted r0 (r', dc)"
  using add_timing_Inr accounted_timing by blast

lemma try_stage_cases:
  assumes "try_stage m dflt prov s w n = (Inr (a, s'), n')"
  shows "(m w n = (Inr a, n') \<and> s' = s) \<or> (a = dflt \<and> s' = record_failure prov provider s)"
proof -
  from assms consider "io_bind m (\<lambda>a. io_return (a, s)) w n = (Inr (a, s'), n')"
    | e k where "(case e of EngineError provider msg \<Rightarrow> io_return (dflt, record_failure prov provider s) | _ \<Rightarrow> io_throw e) w k
        = (Inr (a, s'), n')"
    unfolding try_stage_def io_try_Inr by blast
  then show ?thesis
  proof cases
    case 1
    then show ?thesis by (auto simp: io_simps)
  next
    case (2 e k)
    then show ?thesis
      by (cases e) (auto simp: io_return_def io_throw_def split: EngineErrorCode.splits)
  qed
qed

lemma accounted_try_stage:
  assumes "try_stage m dflt prov s w n = (Inr (a, s'), n')" and "accounted r0 s"
  shows "accounted r0 s'"
  using try_stage_cases [OF assms(1)] assms(2) accounted_record_failure by blast

text \<open>The calibration keeps the evidence apart from the calibrated confidences.\<close>

lemma calibrate_evidence_ok:
  assumes "io_fold (calibrate_evidence p crop) evs [] w n = (Inr evs', n')"
    and "\<forall>ev \<in> set evs. is_prob (ev_crop_quality ev)"
  shows "\<forall>ev \<in> set evs'. is_prob (ev_crop_quality ev)"
  using assms(1)
  by (rule io_fold_invariant) (use assms(2) in \<open>auto simp: calibrate_evidence_def io_simps\<close>)

definition crop_loop_ok :: "LprPipelineResult \<Rightarrow> CropLoopState \<Rightarrow> bool" where
  "crop_loop_ok r0 s \<longleftrightarrow> accounted r0 (cl_result s, cl_context s) \<and>
     (\<forall>ev \<in> set (cl_evidence s). is_prob (ev_crop_quality ev)) \<and>
     length (cl_layout s) = length (cl_evidence s) \<and> is_prob (cl_best_quality s)"

lemma process_crop_ok:
  assumes rs: "ensemble_ok (pl_recognizers p)" and ok: "crop_loop_ok r0 s"
    and step: "process_crop p ctx di x s w n = (Inr s', n')"
  shows "crop_loop_ok r0 s'"
proof -
  obtain ci crop where x: "x = (ci, crop)" by (cases x)
  from step obtain k1 k2 k3 k4 k5 k6 k7 k8 k9 t1 t2 t3 ens r1 evs r2 r4 and lay :: "LayoutEvidence \<times> LprPipelineResult \<times> RecognitionDecisionContext" where
    ens: "ensemble_recognize (pl_recognizers p) (crop_image crop) (crop_quality crop) ctx w k1 = (Inr ens, k2)" and
    r1: "add_timing ''recognition'' di ci t1 (cl_result s) w k2 = (Inr r1, k3)" and
    evs: "io_fold (calibrate_evidence p crop) (ens_evidence ens) [] w k4 = (Inr evs, k5)" and
    r2: "add_timing ''calibration'' di ci t2 (fst (absorb_ensemble ens (r1, cl_context s))) w k5 = (Inr r2, k6)" and
    lay: "try_stage (pl_analyze p (crop_image crop) (concat (map ev_candidates evs)) ctx) no_layout ''layout''
        (r2, snd (absorb_ensemble ens (r1, cl_context s))) w k7 = (Inr lay, k8)" and
    r4: "add_timing ''layout'' di ci t3 (fst (snd lay)) w k8 = (Inr r4, k9)" and
    s': "s' = \<lparr>cl_result = r4, cl_context = snd (snd lay), cl_evidence = cl_evidence s @ evs,
       cl_layout = cl_layout s @ replicate (length evs) (fst lay),
       cl_best_quality = fmax (cl_best_quality s) (clamp01 (crop_quality crop))\<rparr>"
    unfolding x process_crop_def Let_def split_def prod.case fst_conv snd_conv io_bind_Inr io_return_Inr
    by (elim exE conjE) (rule that)
  note e = ensemble_recognize_ok [OF rs ens]
  have "accounted r0 (r1, cl_context s)" using r1 ok by (auto simp: crop_loop_ok_def intro: accounted_add_timing)
  then have "accounted r0 (absorb_ensemble ens (r1, cl_context s))"
    by (rule accounted_absorb) (use e(2) in \<open>simp add: outcome_ok_def\<close>)
  then have "accounted r0 (r2, snd (absorb_ensemble ens (r1, cl_context s)))"
    by (metis accounted_add_timing prod.collapse r2)
  then have "accounted r0 (snd lay)" using lay accounted_try_stage by (metis prod.collapse)
  then have "accounted r0 (r4, snd (snd lay))" using r4 accounted_add_timing by (metis prod.collapse)
  moreover have q: "is_prob (clamp01 (crop_quality crop))" using e(1) by (auto simp: is_finite_iff intro: prob_clamp01)
  moreover have "\<forall>ev \<in> set evs. is_prob (ev_crop_quality ev)"
    by (rule calibrate_evidence_ok [OF evs]) (use e(2) q in \<open>auto simp: outcome_ok_def evidence_ok_def\<close>)
  ultimately show ?thesis using ok by (auto simp: s' crop_loop_ok_def intro: prob_fmax)
qed

lemma crop_loop_invariant:
  assumes "ensemble_ok (pl_recognizers p)" and "accounted r0 (r, dc)"
    and "io_fold (process_crop p ctx di) crops
       \<lparr>cl_result = r, cl_context = dc, cl_evidence = [], cl_layout = [], cl_best_quality = Fin 0\<rparr> w n = (Inr s, n')"
  shows "crop_loop_ok r0 s"
  using assms(3)
proof (rule io_fold_invariant)
  show "crop_loop_ok r0 \<lparr>cl_result = r, cl_context = dc, cl_evidence = [], cl_layout = [], cl_best_quality = Fin 0\<rparr>"
    using assms(2) by (simp add: crop_loop_ok_def)
qed (rule process_crop_ok [OF assms(1)])

text \<open>What one detection contributes: the decision on the evidence of its crops.\<close>

lemma process_detectionE:
  assumes rs: "ensemble_ok (pl_recognizers p)"
    and step: "process_detection p img ctx t0 (di, detection) r w n = (Inr r', n')"
  obtains s score fused rec t r5 where "crop_loop_ok r s" and "pl_fuse p (cl_evidence s) (cl_layout s) = Inr fused"
    and "pl_decide p (detection\<lparr>det_geometry_score := score\<rparr>) (cl_evidence s) fused (cl_context s) = Inr rec"
    and "accounted r (r5, cl_context s)"
    and "r' = r5\<lparr>lpr_recognitions := lpr_recognitions r5 @ [rec\<lparr>res_crop_quality := cl_best_quality s,
           res_degraded := (res_degraded rec \<or> ctx_degraded (cl_context s)),
           res_total_latency_ms := milliseconds_between t0 t\<rparr>]\<rparr>"
proof -
  from step obtain k1 k2 k3 k4 k5 k6 k7 k8 k9 k10 k11 k12 k13 k14 k15 k16 t1 t2 t3 t4 t5 t r1 r2 r3 r4 r5 crops s fused rec
      and g :: "fl \<times> LprPipelineResult \<times> RecognitionDecisionContext"
      and al :: "ImageBuffer option \<times> LprPipelineResult \<times> RecognitionDecisionContext" where
    g: "try_stage (io_bind (pl_geometry p detection ctx) (\<lambda>g. io_return (geometry_score_of g))) (Fin 0) ''geometry''
       (r, new_decision_context) w k1 = (Inr g, k2)" and
    r1: "add_timing ''geometry'' di 0 t1 (fst (snd g)) w k2 = (Inr r1, k3)" and
    al: "try_stage (pl_align p img (detection\<lparr>det_geometry_score := fst g\<rparr>) ctx) None ''alignment''
       (r1, snd (snd g)) w k4 = (Inr al, k5)" and
    r2: "add_timing ''alignment'' di 0 t2 (fst (snd al)) w k5 = (Inr r2, k6)" and
    r3: "add_timing ''crop_generation'' di 0 t3 r2 w k7 = (Inr r3, k8)" and
    loop: "io_fold (process_crop p ctx di) (enumerate 0 crops)
       \<lparr>cl_result = r3, cl_context = snd (snd al), cl_evidence = [], cl_layout = [], cl_best_quality = Fin 0\<rparr> w k9 = (Inr s, k10)" and
    fused: "io_lift (pl_fuse p (cl_evidence s) (cl_layout s)) w k11 = (Inr fused, k12)" and
    r4: "add_timing ''fusion'' di 0 t4 (cl_result s) w k12 = (Inr r4, k13)" and
    dec: "io_lift (pl_decide p (detection\<lparr>det_geometry_score := fst g\<rparr>) (cl_evidence s) fused (cl_context s)) w k14 = (Inr rec, k15)" and
    r5: "add_timing ''decision'' di 0 t5 r4 w k15 = (Inr r5, k16)" and
    r': "r' = r5\<lparr>lpr_recognitions := lpr_recognitions r5 @ [rec\<lparr>res_crop_quality := cl_best_quality s,
           res_degraded := (res_degraded rec \<or> ctx_degraded (cl_context s)),
           res_total_latency_ms := milliseconds_between t0 t\<rparr>]\<rparr>"
    unfolding process_detection_def Let_def split_def prod.case fst_conv snd_conv io_bind_Inr io_return_Inr
    by (elim exE conjE) (rule that)
  have "accounted r (snd g)" using g accounted_try_stage accounted_start by (metis prod.collapse)
  then have "accounted r (r1, snd (snd g))" using r1 accounted_add_timing by (metis prod.collapse)
  then have "accounted r (snd al)" using al accounted_try_stage by (metis prod.collapse)
  then have "accounted r (r2, snd (snd al))" using r2 accounted_add_timing by (metis prod.collapse)
  then have "accounted r (r3, snd (snd al))" using r3 accounted_add_timing by blast
  from crop_loop_invariant [OF rs this loop] have s: "crop_loop_ok r s" .
  then have "accounted r (r5, cl_context s)"
    using accounted_add_timing [OF r5 accounted_add_timing [OF r4]] by (simp add: crop_loop_ok_def)
  with that [OF s _ _ this r'] fused dec show ?thesis unfolding io_lift_Inr by blast
qed

text \<open>The result of a frame splits into one failure list per detection.\<close>

definition plate_report :: "PlateRecognitionResult \<Rightarrow> ProviderFailure list \<Rightarrow> bool" where
  "plate_report rec fs \<longleftrightarrow> (res_degraded rec \<longleftrightarrow> fs \<noteq> []) \<and> (res_status rec = Accepted \<longrightarrow> fs = []) \<and>
     is_prob (res_crop_quality rec)"

definition frame_report :: "LprPipelineResult \<Rightarrow> ProviderFailure list list \<Rightarrow> bool" where
  "frame_report r fss \<longleftrightarrow> lpr_failures r = concat fss \<and> lpr_provider_failure_count r = length (concat fss) \<and>
     (lpr_degraded r \<longleftrightarrow> concat fss \<noteq> []) \<and> list_all2 plate_report (lpr_recognitions r) fss"

lemma process_detection_report:
  assumes rs: "ensemble_ok (pl_recognizers p)" and pol: "pl_decide p = decide cfg"
    and rep: "frame_report r fss"
    and step: "process_detection p img ctx t0 (di, detection) r w n = (Inr r', n')"
  shows "\<exists>fs. frame_report r' (fss @ [fs])"
proof -
  from process_detectionE [OF rs step] obtain s score fused rec t r5 where
    s: "crop_loop_ok r s" and
    dec: "decide cfg (detection\<lparr>det_geometry_score := score\<rparr>) (cl_evidence s) fused (cl_context s) = Inr rec" and
    acc: "accounted r (r5, cl_context s)" and
    r': "r' = r5\<lparr>lpr_recognitions := lpr_recognitions r5 @ [rec\<lparr>res_crop_quality := cl_best_quality s,
           res_degraded := (res_degraded rec \<or> ctx_degraded (cl_context s)),
           res_total_latency_ms := milliseconds_between t0 t\<rparr>]\<rparr>"
    unfolding pol by metis
  from acc obtain fs where fs: "accounts r fs (r5, cl_context s)" by (auto simp: accounted_def)
  have deg: "res_degraded rec \<longleftrightarrow> fs \<noteq> []" using decide_Inr(4) [OF dec] fs by (auto simp: accounts_def)
  moreover have "res_status rec = Accepted \<longrightarrow> fs = []" using accepted_facts(4) [OF dec] deg by blast
  ultimately have "plate_report (rec\<lparr>res_crop_quality := cl_best_quality s,
           res_degraded := (res_degraded rec \<or> ctx_degraded (cl_context s)),
           res_total_latency_ms := milliseconds_between t0 t\<rparr>) fs"
    using s fs by (auto simp: plate_report_def accounts_def crop_loop_ok_def)
  with rep fs have "frame_report r' (fss @ [fs])"
    by (auto simp: frame_report_def accounts_def r' list_all2_appendI)
  then show ?thesis by blast
qed

lemma pipeline_report:
  assumes rs: "ensemble_ok (pl_recognizers p)" and pol: "pl_decide p = decide cfg"
    and run: "pipeline_recognize p img ctx w n = (Inr r, n')"
  shows "\<exists>fss detections k k'. frame_report r fss \<and> pl_detect p img ctx w k = (Inr detections, k') \<and>
    length fss = length detections"
proof -
  from run obtain k1 k2 k3 k4 k5 t0 t t1 v detections r0 r1 where
    v: "io_lift (validate_image img default_performance_config) w k1 = (Inr v, k1)" and
    det: "pl_detect p (vi_view v) ctx w k2 = (Inr detections, k3)" and
    r0: "add_timing ''detection'' 0 0 t1 empty_pipeline_result w k3 = (Inr r0, k4)" and
    loop: "io_fold (process_detection p (vi_view v) ctx t0) (enumerate 0 detections) r0 w k5 = (Inr r1, n' - 1)" and
    r: "r = r1\<lparr>lpr_total_latency_ms := fmax (Fin 0) (milliseconds_between t0 t)\<rparr>"
    unfolding pipeline_recognize_def io_bind_Inr io_return_Inr io_lift_Inr io_now_def
    by (auto simp: io_lift_Inr)
  have img: "vi_view v = img" using v by (auto simp: io_lift_Inr validate_image_def result_simps Let_def)
  have "\<exists>fss. frame_report r1 fss \<and> length fss = length (enumerate 0 detections)"
    using loop
  proof (rule io_fold_prefix [where I = "\<lambda>ys r. \<exists>fss. frame_report r fss \<and> length fss = length ys"])
    show "\<exists>fss. frame_report r0 fss \<and> length fss = length []"
      using add_timing_Inr [OF r0] by (auto simp: frame_report_def empty_pipeline_result_def)
    show "\<exists>fss. frame_report t fss \<and> length fss = length (ys @ [x])"
      if "\<exists>fss. frame_report s fss \<and> length fss = length ys"
        "process_detection p (vi_view v) ctx t0 x s w k = (Inr t, k')" for ys x s t k k'
      using that process_detection_report [OF rs pol] by (cases x) fastforce
  qed
  then show ?thesis using det r by (auto simp: frame_report_def img)
qed

section \<open>The bundled fusion and policy\<close>

lemma fuse_candidate_ok:
  assumes "fusion_config_ok cfg"
  shows "list_all candidate_ok (fuse cfg evidence layout)"
proof -
  have "candidate_ok c" if "c \<in> set (fuse cfg evidence layout)" for c
  proof -
    from that have "c \<in> fused_candidate ` set (aggregate cfg evidence layout)"
      using in_set_takeD fused_ranking_set unfolding fuse_eq by metis
    with fused_entry(2) [OF assms] show ?thesis
      by (auto simp: candidate_ok_def effective_value_def)
  qed
  then show ?thesis by (simp add: list_all_iff)
qed

section \<open>Properties\<close>

text \<open>A pipeline of constant providers, whose aligner fails, for the witnesses.\<close>

definition demo_detection :: Detection where
  "demo_detection = \<lparr>det_bbox = \<lparr>bb_x = Fin 0, bb_y = Fin 0, bb_width = Fin 1, bb_height = Fin 1\<rparr>,
     det_quadrilateral = None, det_confidence = Fin 1, det_geometry_score = Fin 0, det_provider = ''yolo''\<rparr>"

definition demo_pipeline :: Pipeline where
  "demo_pipeline = \<lparr>pl_detector_name = ''yolo'', pl_detect = (\<lambda>_ _. io_return [demo_detection]),
     pl_geometry = (\<lambda>_ _. io_return \<lparr>geo_valid = True, geo_score = Fin 1\<rparr>),
     pl_align = (\<lambda>_ _ _. io_throw (ProviderError ''no homography'')),
     pl_generate = (\<lambda>frame _ _ _. io_return [\<lparr>crop_image = frame, crop_type = ''plain'', crop_source = ''bbox'',
        crop_fingerprint = 0, crop_quality = Fin 1\<rparr>]),
     pl_recognizers = [registration (fixed_recognizer ''lprnet'' clear_reading) True],
     pl_calibrate = (\<lambda>_ _ _ _. io_return (Fin 1)),
     pl_analyze = (\<lambda>_ _ _. io_return no_layout), pl_fuse = (\<lambda>evs lay. Inr (fuse default_fusion_config evs lay)),
     pl_decide = decide default_decision_config, pl_diagnostics = Some new_diagnostics\<rparr>"

definition timed :: "string \<Rightarrow> nat \<Rightarrow> nat \<Rightarrow> int \<Rightarrow> int \<Rightarrow> LprPipelineResult \<Rightarrow> LprPipelineResult" where
  "timed stage di ci started now r =
     r\<lparr>lpr_stage_timings := lpr_stage_timings r @
        [\<lparr>pst_stage = stage, pst_detection_index = di, pst_crop_index = ci,
          pst_latency_ms = fmax (Fin 0) (milliseconds_between started now)\<rparr>]\<rparr>"

lemma timed_simps [simp]:
  "lpr_failures (timed stage di ci t t' r) = lpr_failures r"
  "lpr_recognitions (timed stage di ci t t' r) = lpr_recognitions r"
  by (simp_all add: timed_def)

lemma add_timing_eq: "add_timing stage di ci started r w n = (Inr (timed stage di ci started (w_clock w n) r), Suc n)"
  by (simp add: add_timing_def io_bind_def io_now_def io_return_def timed_def)

lemma record_failure_simps [simp]:
  "lpr_failures (fst (record_failure prov code s)) = lpr_failures (fst s) @ [\<lparr>pf_provider = prov, pf_code = code\<rparr>]"
  "lpr_recognitions (fst (record_failure prov code s)) = lpr_recognitions (fst s)"
  by (simp_all add: record_failure_def split_def)

lemma gray_pixel_valid:
  "validate_image gray_pixel default_performance_config =
    Inr \<lparr>vi_view = gray_pixel, vi_channels = 1, vi_minimum_row_bytes = 1, vi_required_bytes = 1\<rparr>"
  by (simp add: validate_image_def gray_pixel_def default_performance_config_def pixel_format_channels_def
      bytes_size_def check_all.simps checked_multiply_def checked_add_def size_max_def)

lemma default_fusion_ok: "fusion_config_ok default_fusion_config"
  using default_fusion by (simp add: make_candidate_fusion_ok)

lemma demo_decides:
  assumes "\<forall>ev \<in> set evs. is_prob (ev_crop_quality ev)"
  shows "\<exists>rec. decide default_decision_config det evs (fuse default_fusion_config evs lay) ctx = Inr rec"
  using assms fuse_candidate_ok [OF default_fusion_ok] by (auto simp: decide_eq list_all_iff Let_def)

definition demo_crop :: CropHypothesis where
  "demo_crop = \<lparr>crop_image = gray_pixel, crop_type = ''plain'', crop_source = ''bbox'',
     crop_fingerprint = 0, crop_quality = Fin 1\<rparr>"

lemma demo_crop_runs:
  "\<exists>s n'. process_crop demo_pipeline default_context 0 (0, demo_crop) \<lparr>cl_result = r, cl_context = dc, cl_evidence = [], cl_layout = [], cl_best_quality = Fin 0\<rparr> still_world n
      = (Inr s, n') \<and> lpr_recognitions (cl_result s) = lpr_recognitions r \<and> lpr_failures (cl_result s) = lpr_failures r \<and>
      length (cl_evidence s) = 1 \<and> (\<forall>ev \<in> set (cl_evidence s). is_prob (ev_crop_quality ev))"
proof -
  let ?ev = "\<lparr>ev_source = [], ev_candidates = clear_reading, ev_crop_quality = Fin 0, ev_latency_ms = Fin 0\<rparr>"
  have "\<forall>l. \<exists>ev' c. validate_evidence ?ev ''lprnet'' (Fin 1) (Fin 1) l = Inr ev' \<and> ev_crop_quality ev' = Fin 1 \<and>
      ev_candidates ev' = [c]"
    by (simp add: validate_evidence_def clear_reading_def validate_candidate_def)
  then obtain evf cf where val: "\<And>l. validate_evidence ?ev ''lprnet'' (Fin 1) (Fin 1) l = Inr (evf l)"
    and evf: "\<And>l. ev_crop_quality (evf l) = Fin 1" "\<And>l. ev_candidates (evf l) = [cf l]"
    by metis
  have call: "call_recognizer gray_pixel (Fin 1) default_context (registration (fixed_recognizer ''lprnet'' clear_reading) True) res still_world n
      = (Inr (res\<lparr>ens_evidence := ens_evidence res @ [evf (milliseconds_between (w_clock still_world (Suc n)) (w_clock still_world (Suc (Suc n))))]\<rparr>), n + 3)" for res n
    by (rule call_recognizer_good, simp, simp add: fixed_recognizer_def, simp add: fixed_recognizer_def, rule val)
  have quality: "clamp01 (Fin 1) = Fin 1" by simp
  show ?thesis
  by (simp add: demo_crop_def process_crop_def demo_pipeline_def ensemble_recognize_def call io_bind_def io_return_def io_now_def
        add_timing_def absorb_ensemble_def calibrate_evidence_def calibrate_candidate_def evf try_stage_def io_try_def
        check_context_def Let_def)
qed

lemma demo_run:
  "\<exists>r n'. pipeline_recognize demo_pipeline gray_pixel default_context still_world 0 = (Inr r, n') \<and>
     length (lpr_recognitions r) = 1 \<and> map pf_provider (lpr_failures r) = [''alignment'']"
proof -
  obtain sf nf where crop: "process_crop demo_pipeline default_context 0 (0, demo_crop) \<lparr>cl_result = r, cl_context = dc, cl_evidence = [], cl_layout = [], cl_best_quality = Fin 0\<rparr> still_world n
      = (Inr (sf r dc n), nf r dc n)" "lpr_recognitions (cl_result (sf r dc n)) = lpr_recognitions r"
      "lpr_failures (cl_result (sf r dc n)) = lpr_failures r"
      "\<forall>ev \<in> set (cl_evidence (sf r dc n)). is_prob (ev_crop_quality ev)" for r dc n
    using demo_crop_runs by metis
  define df where "df det evs lay ctx = projr (decide default_decision_config det evs (fuse default_fusion_config evs lay) ctx)"
    for det evs lay ctx
  have dec: "decide default_decision_config det evs (fuse default_fusion_config evs lay) ctx = Inr (df det evs lay ctx)"
    if "\<forall>ev \<in> set evs. is_prob (ev_crop_quality ev)" for det evs lay ctx
    using demo_decides [OF that, of det lay ctx] by (auto simp: df_def)
  have step: "\<exists>r' n'. process_detection demo_pipeline gray_pixel default_context t0 (0, demo_detection) r still_world n = (Inr r', n') \<and>
      length (lpr_recognitions r') = length (lpr_recognitions r) + 1 \<and>
      map pf_provider (lpr_failures r') = map pf_provider (lpr_failures r) @ [''alignment'']" for r n t0
  proof -
    have pl: "pl_geometry demo_pipeline = (\<lambda>_ _. io_return \<lparr>geo_valid = True, geo_score = Fin 1\<rparr>)"
      "pl_align demo_pipeline = (\<lambda>_ _ _. io_throw (ProviderError ''no homography''))"
      "pl_generate demo_pipeline = (\<lambda>frame _ _ _. io_return [\<lparr>crop_image = frame, crop_type = ''plain'', crop_source = ''bbox'',
        crop_fingerprint = 0, crop_quality = Fin 1\<rparr>])"
      "pl_fuse demo_pipeline = (\<lambda>evs lay. Inr (fuse default_fusion_config evs lay))"
      "pl_decide demo_pipeline = decide default_decision_config"
      by (simp_all add: demo_pipeline_def)
    show ?thesis
      by (simp add: process_detection_def pl io_bind_def io_return_def io_throw_def io_now_def add_timing_eq try_stage_def
        io_try_def io_lift_def check_context_def demo_crop_def [symmetric] crop dec Let_def split_def)
  qed
  have det: "pl_detect demo_pipeline = (\<lambda>_ _. io_return [demo_detection])" by (simp add: demo_pipeline_def)
  obtain rf nf2 where step: "process_detection demo_pipeline gray_pixel default_context t0 (0, demo_detection) r still_world n = (Inr (rf t0 r n), nf2 t0 r n)"
      "length (lpr_recognitions (rf t0 r n)) = length (lpr_recognitions r) + 1"
      "map pf_provider (lpr_failures (rf t0 r n)) = map pf_provider (lpr_failures r) @ [''alignment'']" for t0 r n
    using step by metis
  show ?thesis
    by (simp add: pipeline_recognize_def io_bind_def io_return_def io_now_def io_lift_def add_timing_eq check_context_def
        gray_pixel_valid det step empty_pipeline_result_def)
qed

text \<open>
  C10: every failure is charged to its plate: for a validated ensemble and the safe policy, and any
  detector, geometry, aligner, crop, calibration, layout and fusion providers, a frame that
  returns has one recognition per detection, and its failures split into one list per
  recognition. A recognition is marked degraded iff its own list is non-empty, it is ACCEPTED only
  if the list is empty, and the counters of the frame agree with the lists.
\<close>

theorem failures_charged_to_plates:
  assumes "make_ensemble recognizers = Inr (pl_recognizers p)" and "make_decision_policy config = Inr cfg"
    and "pl_decide p = decide cfg" and "pipeline_recognize p img ctx w n = (Inr r, n')"
  shows "\<exists>fss. lpr_failures r = concat fss \<and> lpr_provider_failure_count r = length (lpr_failures r) \<and>
    (lpr_degraded r \<longleftrightarrow> lpr_failures r \<noteq> []) \<and>
    list_all2 (\<lambda>rec fs. (res_degraded rec \<longleftrightarrow> fs \<noteq> []) \<and> (res_status rec = Accepted \<longrightarrow> fs = []) \<and>
      is_prob (res_crop_quality rec)) (lpr_recognitions r) fss \<and>
    (\<exists>detections k k'. pl_detect p img ctx w k = (Inr detections, k') \<and>
      length (lpr_recognitions r) = length detections)"
proof -
  have rs: "ensemble_ok (pl_recognizers p)" using assms(1) by (auto simp: make_ensemble_ok)
  from pipeline_report [OF rs assms(3,4)] obtain fss detections k k' where rep: "frame_report r fss"
    and det: "pl_detect p img ctx w k = (Inr detections, k')" "length fss = length detections" by blast
  have "plate_report = (\<lambda>rec fs. (res_degraded rec \<longleftrightarrow> fs \<noteq> []) \<and> (res_status rec = Accepted \<longrightarrow> fs = []) \<and>
      is_prob (res_crop_quality rec))" by (intro ext) (simp add: plate_report_def)
  note rep' = rep [unfolded frame_report_def this]
  have "list_all2 plate_report (lpr_recognitions r) fss" using rep by (simp add: frame_report_def)
  then have "length (lpr_recognitions r) = length fss" by (rule list_all2_lengthD)
  with det(2) have "length (lpr_recognitions r) = length detections" by simp
  moreover have "lpr_provider_failure_count r = length (lpr_failures r)" "lpr_degraded r \<longleftrightarrow> lpr_failures r \<noteq> []"
    using rep' by simp_all
  ultimately show ?thesis
  proof (intro exI [of _ fss] conjI)
    show "\<exists>detections k k'. pl_detect p img ctx w k = (Inr detections, k') \<and>
      length (lpr_recognitions r) = length detections"
      using det(1) \<open>length (lpr_recognitions r) = length detections\<close> by blast
  qed (use rep' in blast)+
qed

theorem failures_charged_to_plates_witness:
  "\<exists>r n'. pipeline_recognize demo_pipeline gray_pixel default_context still_world 0 = (Inr r, n') \<and>
     lpr_provider_failure_count r = 1 \<and> lpr_degraded r"
proof -
  have rs: "make_ensemble (pl_recognizers demo_pipeline) = Inr (pl_recognizers demo_pipeline)"
    by (simp add: make_ensemble_ok ensemble_ok_def demo_pipeline_def registration_ok_def)
      (simp add: registration_def fixed_recognizer_def)
  have pol: "pl_decide demo_pipeline = decide default_decision_config" by (simp add: demo_pipeline_def)
  obtain r n' where r: "pipeline_recognize demo_pipeline gray_pixel default_context still_world 0 = (Inr r, n')"
    and f: "map pf_provider (lpr_failures r) = [''alignment'']" using demo_run by (elim exE conjE) (rule that)
  from f have "length (lpr_failures r) = 1" by (metis length_map One_nat_def list.size(3,4) add_0)
  moreover from failures_charged_to_plates [OF rs default_policy pol r]
  have "lpr_provider_failure_count r = length (lpr_failures r) \<and> (lpr_degraded r \<longleftrightarrow> lpr_failures r \<noteq> [])"
    by (elim exE conjE) (intro conjI)
  ultimately show ?thesis using r by auto
qed

text \<open>
  C11: the bundled fusion and policy never abort a frame: whatever the crops of a detection, their
  recognition, calibration and layout produced, the fusion of that evidence is decided without an
  exception.
\<close>

theorem bundled_decision_never_throws:
  assumes "make_candidate_fusion fusion_config = Inr fc" and "make_ensemble recognizers = Inr (pl_recognizers p)"
    and "io_fold (process_crop p ctx di) crops
       \<lparr>cl_result = r, cl_context = new_decision_context, cl_evidence = [], cl_layout = [], cl_best_quality = Fin 0\<rparr> w n = (Inr s, n')"
  shows "\<exists>rec. decide cfg det (cl_evidence s) (fuse fc (cl_evidence s) (cl_layout s)) (cl_context s) = Inr rec"
proof -
  have rs: "ensemble_ok (pl_recognizers p)" using assms(2) by (auto simp: make_ensemble_ok)
  from crop_loop_invariant [OF rs accounted_start assms(3)]
  have "\<forall>ev \<in> set (cl_evidence s). is_prob (ev_crop_quality ev)" by (simp add: crop_loop_ok_def)
  moreover have "list_all candidate_ok (fuse fc (cl_evidence s) (cl_layout s))"
    using fuse_candidate_ok assms(1) by (simp add: make_candidate_fusion_ok)
  ultimately show ?thesis by (simp add: decide_eq list_all_iff Let_def)
qed

theorem bundled_decision_never_throws_witness:
  "\<exists>s n' rec. io_fold (process_crop demo_pipeline default_context 0) [(0, demo_crop)]
       \<lparr>cl_result = empty_pipeline_result, cl_context = new_decision_context, cl_evidence = [], cl_layout = [],
        cl_best_quality = Fin 0\<rparr> still_world 0 = (Inr s, n') \<and> length (cl_evidence s) = 1 \<and>
     decide default_decision_config demo_detection (cl_evidence s)
       (fuse default_fusion_config (cl_evidence s) (cl_layout s)) (cl_context s) = Inr rec"
proof -
  have rs: "make_ensemble (pl_recognizers demo_pipeline) = Inr (pl_recognizers demo_pipeline)"
    by (simp add: make_ensemble_ok ensemble_ok_def demo_pipeline_def registration_ok_def)
      (simp add: registration_def fixed_recognizer_def)
  obtain s n' where s: "io_fold (process_crop demo_pipeline default_context 0) [(0, demo_crop)]
       \<lparr>cl_result = empty_pipeline_result, cl_context = new_decision_context, cl_evidence = [], cl_layout = [],
        cl_best_quality = Fin 0\<rparr> still_world 0 = (Inr s, n')" and l: "length (cl_evidence s) = 1"
    using demo_crop_runs [of empty_pipeline_result new_decision_context 0]
    by (auto simp: io_bind_def io_return_def)
  from bundled_decision_never_throws [OF default_fusion rs s] s l show ?thesis by blast
qed

text \<open>
  No provider is called before the entry checks: a stop requested at entry throws the
  cancellation, and an image that the validation rejects throws the validation's error, whatever
  the providers of the pipeline are.
\<close>

theorem entry_checks_first:
  "(op_stoppable ctx \<and> w_stop w (Suc n) \<longrightarrow>
      fst (pipeline_recognize p img ctx w n) = Inl (CancelledError ''LPR pipeline cancelled'')) \<and>
   (validate_image img default_performance_config = Inl e \<longrightarrow>
      fst (pipeline_recognize p img default_context w n) = Inl e)"
  by (simp add: pipeline_recognize_def io_bind_def io_now_def check_context_def cancelled_immediately io_lift_def)

theorem entry_checks_first_witness:
  "fst (pipeline_recognize demo_pipeline (gray_pixel\<lparr>img_width := 0\<rparr>) default_context still_world 0) =
     Inl (InvalidImageError ''image width and height must be greater than zero'')"
proof -
  have "validate_image (gray_pixel\<lparr>img_width := 0\<rparr>) default_performance_config =
      Inl (InvalidImageError ''image width and height must be greater than zero'')"
    by (simp add: validate_image_def check_all.simps)
  with entry_checks_first show ?thesis by blast
qed

text \<open>
  The diagnostics count every recognition of a successful frame once, under its status, and
  every provider failure (modulo the 64-bit counters).
\<close>

theorem published_counters:
  assumes "recognize p img ctx w n = (Inr (r, p'), n')" and "pl_diagnostics p = Some d"
  shows "\<exists>d'. pl_diagnostics p' = Some d' \<and>
    dg_accepted d' = dg_accepted d + of_nat (length (filter (\<lambda>rec. res_status rec = Accepted) (lpr_recognitions r))) \<and>
    dg_review d' = dg_review d + of_nat (length (filter (\<lambda>rec. res_status rec = Review) (lpr_recognitions r))) \<and>
    dg_rejected d' = dg_rejected d + of_nat (length (filter (\<lambda>rec. res_status rec = Rejected) (lpr_recognitions r))) \<and>
    dg_provider_failures d' = dg_provider_failures d + of_nat (lpr_provider_failure_count r)"
proof -
  have p': "pl_diagnostics p' = Some (publish_diagnostics r d)"
    using assms by (auto simp: recognize_def io_simps)
  have lat: "dg_accepted (record_stage_latency s l x) = dg_accepted x" "dg_review (record_stage_latency s l x) = dg_review x"
    "dg_rejected (record_stage_latency s l x) = dg_rejected x"
    "dg_provider_failures (record_stage_latency s l x) = dg_provider_failures x" for s l x
    by (simp_all add: record_stage_latency_def)
  have lats: "dg_accepted (fold (\<lambda>t. record_stage_latency (pst_stage t) (pst_latency_ms t)) ts x) = dg_accepted x"
    "dg_review (fold (\<lambda>t. record_stage_latency (pst_stage t) (pst_latency_ms t)) ts x) = dg_review x"
    "dg_rejected (fold (\<lambda>t. record_stage_latency (pst_stage t) (pst_latency_ms t)) ts x) = dg_rejected x"
    "dg_provider_failures (fold (\<lambda>t. record_stage_latency (pst_stage t) (pst_latency_ms t)) ts x) = dg_provider_failures x" for ts x
    by (induction ts arbitrary: x) (simp_all add: lat)
  have cnt: "dg_accepted (fold (\<lambda>rec. record_recognition (res_status rec)) recs x) = dg_accepted x + of_nat (length (filter (\<lambda>rec. res_status rec = Accepted) recs))"
    "dg_review (fold (\<lambda>rec. record_recognition (res_status rec)) recs x) = dg_review x + of_nat (length (filter (\<lambda>rec. res_status rec = Review) recs))"
    "dg_rejected (fold (\<lambda>rec. record_recognition (res_status rec)) recs x) = dg_rejected x + of_nat (length (filter (\<lambda>rec. res_status rec = Rejected) recs))"
    "dg_provider_failures (fold (\<lambda>rec. record_recognition (res_status rec)) recs x) = dg_provider_failures x" for recs x
    by (induction recs arbitrary: x) simp_all
  show ?thesis unfolding p' by (simp add: publish_diagnostics_def lats cnt record_provider_failures_def)
qed

theorem published_counters_witness:
  "\<exists>r p' n' d'. recognize demo_pipeline gray_pixel default_context still_world 0 = (Inr (r, p'), n') \<and>
     pl_diagnostics p' = Some d' \<and> dg_provider_failures d' = of_nat (lpr_provider_failure_count r)"
proof -
  obtain r n' where r: "pipeline_recognize demo_pipeline gray_pixel default_context still_world 0 = (Inr r, n')"
    using demo_run by (elim exE conjE) (rule that)
  then obtain p' where p': "recognize demo_pipeline gray_pixel default_context still_world 0 = (Inr (r, p'), n')"
    by (simp add: recognize_def io_bind_def io_return_def)
  have "pl_diagnostics demo_pipeline = Some new_diagnostics" by (simp add: demo_pipeline_def)
  from published_counters [OF p' this] p' show ?thesis by (auto simp: new_diagnostics_def)
qed

end
