(* ===== verification/Temporal_Consensus.thy ===== *)
theory Temporal_Consensus
  imports Domain
begin

text \<open>
  The temporal consensus over the frames of a stream
  (\<^verbatim>\<open>application/temporal_plate_consensus.cpp\<close>): a bounded window of recent frame results votes
  for a plate. Time points are nanoseconds of the steady clock, the configured durations are
  milliseconds, both in 64-bit representations; the difference and the conversion that the expiry makes are
  taken at that width.
\<close>

section \<open>Configuration and state\<close>

record TemporalPlateConsensusConfig =
  max_history :: nat
  history_ttl :: int      \<comment> \<open>milliseconds\<close>
  minimum_supporting_frames :: nat
  minimum_frame_confidence :: fl
  stable_confidence_threshold :: fl
  conflict_margin :: fl

definition default_temporal_config :: TemporalPlateConsensusConfig where
  "default_temporal_config =
     \<lparr>max_history = 8, history_ttl = 1500, minimum_supporting_frames = 2,
      minimum_frame_confidence = lit32 (50/100), stable_confidence_threshold = lit32 (75/100),
      conflict_margin = lit32 (10/100)\<rparr>"

record TemporalConsensusResult =
  tc_stable_result :: "PlateRecognitionResult option"
  tc_history_size :: nat
  tc_supporting_frames :: nat
  tc_support :: fl

definition empty_consensus_result :: TemporalConsensusResult where
  "empty_consensus_result =
     \<lparr>tc_stable_result = None, tc_history_size = 0, tc_supporting_frames = 0, tc_support = Fin 0\<rparr>"

record Observation =
  obs_result :: PlateRecognitionResult
  obs_time :: int

record TemporalPlateConsensus =
  tpc_config :: TemporalPlateConsensusConfig
  tpc_history :: "Observation list"      \<comment> \<open>oldest first\<close>

definition temporal_require_probability :: "fl \<Rightarrow> string \<Rightarrow> unit result" where
  "temporal_require_probability v name =
     throw_if (\<not> is_finite v \<or> flt v (Fin 0) \<or> flt (Fin 1) v)
       (ConfigurationError (name @ '' must be finite and in [0,1]''))"

definition make_temporal_consensus :: "TemporalPlateConsensusConfig \<Rightarrow> TemporalPlateConsensus result" where
  "make_temporal_consensus c =
     res_bind (check_all
       [throw_if (max_history c = 0 \<or> max_history c > 1024)
          (ConfigurationError ''temporal max_history must be in [1,1024]''),
        throw_if (history_ttl c \<le> 0) (ConfigurationError ''temporal history_ttl must be positive''),
        throw_if (minimum_supporting_frames c = 0 \<or> minimum_supporting_frames c > max_history c)
          (ConfigurationError ''temporal minimum_supporting_frames must be in [1,max_history]''),
        temporal_require_probability (minimum_frame_confidence c) ''minimum_frame_confidence'',
        temporal_require_probability (stable_confidence_threshold c) ''stable_confidence_threshold'',
        temporal_require_probability (conflict_margin c) ''conflict_margin''])
     (\<lambda>_. Inr \<lparr>tpc_config = c, tpc_history = []\<rparr>)"

section \<open>The window\<close>

text \<open>
  \<open>std::chrono\<close> compares a duration in nanoseconds with one in milliseconds by converting the latter, in 64-bit
  arithmetic. An overflow, which the language leaves undefined, is written as the two's complement wrap.
\<close>

definition wrap_int64 :: "int \<Rightarrow> int" where
  "wrap_int64 n = signed_take_bit 63 n"

definition ttl_ns :: "TemporalPlateConsensusConfig \<Rightarrow> int" where
  "ttl_ns c = wrap_int64 (history_ttl c * 1000000)"

fun expire :: "TemporalPlateConsensusConfig \<Rightarrow> int \<Rightarrow> Observation list \<Rightarrow> Observation list" where
  "expire c now [] = []"
| "expire c now (oldest # rest) =
     (if now < obs_time oldest \<or> wrap_int64 (now - obs_time oldest) \<le> ttl_ns c then oldest # rest
      else expire c now rest)"

function trim :: "nat \<Rightarrow> Observation list \<Rightarrow> Observation list" where
  "trim n history = (if length history > n then trim n (tl history) else history)"
  by pat_completeness auto
termination by (relation "measure (\<lambda>(n, h). length h)") auto

declare trim.simps [simp del]

section \<open>The vote\<close>

record Aggregate =
  agg_weighted_support :: fl
  agg_frames :: nat
  agg_best :: "PlateRecognitionResult option"

definition frame_skipped :: "TemporalPlateConsensusConfig \<Rightarrow> PlateRecognitionResult \<Rightarrow> bool" where
  "frame_skipped c r = (res_plate r = [] \<or> res_status r \<noteq> Accepted \<or> \<not> is_finite (res_confidence r) \<or>
     flt (res_confidence r) (minimum_frame_confidence c) \<or> flt (Fin 1) (res_confidence r))"

definition update_vote :: "PlateRecognitionResult \<Rightarrow> Aggregate option \<Rightarrow> Aggregate" where
  "update_vote r old =
     (let a = (case old of None \<Rightarrow> \<lparr>agg_weighted_support = Fin 0, agg_frames = 0, agg_best = None\<rparr> | Some a \<Rightarrow> a)
      in \<lparr>agg_weighted_support = add32 (agg_weighted_support a) (res_confidence r),
          agg_frames = agg_frames a + 1,
          agg_best = (case agg_best a of
             None \<Rightarrow> Some r
           | Some b \<Rightarrow> if flt (res_confidence b) (res_confidence r) then Some r else Some b)\<rparr>)"

definition add_frame :: "TemporalPlateConsensusConfig \<Rightarrow> Observation \<Rightarrow>
    (string \<times> Aggregate) list \<times> fl \<Rightarrow> (string \<times> Aggregate) list \<times> fl" where
  "add_frame c obs = (\<lambda>(aggregates, total). let r = obs_result obs in
     if frame_skipped c r then (aggregates, total)
     else (omap_alter (res_plate r) (update_vote r) aggregates, add32 total (res_confidence r)))"

text \<open>One step of the winner loop: the winner so far and the greatest support of the others.\<close>

definition pick_winner :: "string \<times> Aggregate \<Rightarrow> (string \<times> Aggregate) \<times> fl \<Rightarrow> (string \<times> Aggregate) \<times> fl" where
  "pick_winner it = (\<lambda>(winner, runner_up).
     if flt (agg_weighted_support (snd winner)) (agg_weighted_support (snd it)) \<or>
        (feq (agg_weighted_support (snd it)) (agg_weighted_support (snd winner)) \<and> fst it < fst winner)
     then (it, fmax runner_up (agg_weighted_support (snd winner)))
     else if fst it \<noteq> fst winner then (winner, fmax runner_up (agg_weighted_support (snd it)))
     else (winner, runner_up))"

definition stable_result_of :: "string \<Rightarrow> fl \<Rightarrow> PlateRecognitionResult \<Rightarrow> PlateRecognitionResult" where
  "stable_result_of plate support best =
     best\<lparr>res_plate := plate, res_confidence := support, res_status := Accepted,
          res_decision_reasons := [accepted_consensus]\<rparr>"

definition consensus_of :: "TemporalPlateConsensusConfig \<Rightarrow> Observation list \<Rightarrow> TemporalConsensusResult" where
  "consensus_of c history =
     (let (aggregates, total) = fold (add_frame c) history ([], Fin 0);
          output = empty_consensus_result\<lparr>tc_history_size := length history\<rparr>
      in if aggregates = [] \<or> fle total (Fin 0) then output
         else let (winner, runner_up) = fold pick_winner aggregates (hd aggregates, Fin 0);
                  support = clamp01 (div32 (agg_weighted_support (snd winner)) total);
                  runner_up_ratio = clamp01 (div32 runner_up total);
                  has_margin = fle (conflict_margin c) (sub32 support runner_up_ratio);
                  output = output\<lparr>tc_supporting_frames := agg_frames (snd winner), tc_support := support\<rparr>
              in if agg_frames (snd winner) < minimum_supporting_frames c \<or>
                    flt support (stable_confidence_threshold c) \<or> \<not> has_margin
                 then output
                 else case agg_best (snd winner) of None \<Rightarrow> output
                      | Some best \<Rightarrow> output\<lparr>tc_stable_result := Some (stable_result_of (fst winner) support best)\<rparr>)"

definition observe_history ::
  "TemporalPlateConsensusConfig \<Rightarrow> Observation list \<Rightarrow> PlateRecognitionResult \<Rightarrow> int \<Rightarrow> Observation list" where
  "observe_history c history frame now =
     trim (max_history c) (expire c now history @ [\<lparr>obs_result = frame, obs_time = now\<rparr>])"

definition tpc_observe :: "TemporalPlateConsensus \<Rightarrow> PlateRecognitionResult \<Rightarrow> int \<Rightarrow>
    TemporalPlateConsensus \<times> TemporalConsensusResult" where
  "tpc_observe s frame now =
     (let history = observe_history (tpc_config s) (tpc_history s) frame now
      in (s\<lparr>tpc_history := history\<rparr>, consensus_of (tpc_config s) history))"

definition tpc_reset :: "TemporalPlateConsensus \<Rightarrow> TemporalPlateConsensus" where
  "tpc_reset s = s\<lparr>tpc_history := []\<rparr>"

section \<open>The window holds the most recent live frames\<close>

definition last_n :: "nat \<Rightarrow> 'a list \<Rightarrow> 'a list" where
  "last_n n xs = drop (length xs - n) xs"

text \<open>No older than the configured time to live, in the arithmetic of the integers.\<close>

definition live :: "TemporalPlateConsensusConfig \<Rightarrow> int \<Rightarrow> Observation \<Rightarrow> bool" where
  "live c now obs = (now - obs_time obs \<le> history_ttl c * 1000000)"

text \<open>A time to live and time points for which the 64-bit arithmetic is that of the integers.\<close>

definition ttl_fits :: "TemporalPlateConsensusConfig \<Rightarrow> bool" where
  "ttl_fits c \<longleftrightarrow> history_ttl c * 1000000 < 2 ^ 63"

definition clock_time :: "int \<Rightarrow> bool" where
  "clock_time t \<longleftrightarrow> 0 \<le> t \<and> t < 2 ^ 63"

lemma wrap_int64_id: "- (2 ^ 63) \<le> n \<Longrightarrow> n < 2 ^ 63 \<Longrightarrow> wrap_int64 n = n"
  unfolding wrap_int64_def by (rule signed_take_bit_int_eq_self)

lemma trim_eq: "trim n history = last_n n history"
proof (induction n history rule: trim.induct)
  case (1 n history)
  show ?case
  proof (cases "length history > n")
    case True
    then have "trim n history = last_n n (tl history)" using 1 by (simp add: trim.simps [of n history])
    also have "\<dots> = last_n n history"
      using True by (cases history) (auto simp: last_n_def Suc_diff_le)
    finally show ?thesis .
  qed (simp add: trim.simps [of n history] last_n_def)
qed

definition times_sorted :: "Observation list \<Rightarrow> bool" where
  "times_sorted = sorted_wrt (\<lambda>a b. obs_time a \<le> obs_time b)"

lemma expiry_live:
  assumes "0 < history_ttl c" and "ttl_fits c" and "clock_time now" and "clock_time (obs_time obs)"
  shows "now < obs_time obs \<or> wrap_int64 (now - obs_time obs) \<le> ttl_ns c \<longleftrightarrow> live c now obs"
proof -
  have "ttl_ns c = history_ttl c * 1000000" unfolding ttl_ns_def using assms(1,2) by (intro wrap_int64_id) (simp_all add: ttl_fits_def)
  moreover have "wrap_int64 (now - obs_time obs) = now - obs_time obs"
    using assms(3,4) by (intro wrap_int64_id) (simp_all add: clock_time_def)
  ultimately show ?thesis using assms(1) by (auto simp: live_def)
qed

lemma expire_eq:
  assumes "0 < history_ttl c" and "ttl_fits c" and "clock_time now" and "\<forall>obs \<in> set history. clock_time (obs_time obs)"
    and "times_sorted history"
  shows "expire c now history = filter (live c now) history"
  using assms(4,5)
proof (induction history)
  case (Cons x xs)
  have x: "now < obs_time x \<or> wrap_int64 (now - obs_time x) \<le> ttl_ns c \<longleftrightarrow> live c now x"
    using expiry_live [OF assms(1-3)] Cons.prems(1) by simp
  show ?case
  proof (cases "live c now x")
    case True
    then have "\<forall>y \<in> set xs. live c now y" using Cons.prems(2) by (force simp: live_def times_sorted_def)
    then show ?thesis using True x by simp
  next
    case False
    with Cons x show ?thesis by (simp add: times_sorted_def)
  qed
qed simp

lemma last_n_append_singleton: "last_n (Suc n) (xs @ [x]) = last_n n xs @ [x]"
  by (simp add: last_n_def)

lemma filter_last_n:
  assumes "times_sorted xs"
  shows "last_n n (filter (live c now) (last_n n xs)) = last_n n (filter (live c now) xs)"
proof (cases "length xs \<le> n")
  case False
  let ?d = "length xs - n" and ?P = "live c now"
  have split: "xs = take ?d xs @ drop ?d xs" by simp
  show ?thesis
  proof (cases "\<exists>x \<in> set (take ?d xs). ?P x")
    case True
    then obtain x where x: "x \<in> set (take ?d xs)" "?P x" by blast
    have "sorted_wrt (\<lambda>a b. obs_time a \<le> obs_time b) (take ?d xs @ drop ?d xs)"
      using assms by (simp add: times_sorted_def)
    then have "obs_time x \<le> obs_time y" if "y \<in> set (drop ?d xs)" for y
      using x(1) that unfolding sorted_wrt_append by blast
    then have "\<forall>y \<in> set (drop ?d xs). ?P y" using x(2) by (force simp: live_def)
    then have all: "filter ?P (drop ?d xs) = drop ?d xs" by simp
    have len: "length (drop ?d xs) = n" using False by simp
    have "filter ?P xs = filter ?P (take ?d xs) @ drop ?d xs"
      by (subst split) (simp only: filter_append all)
    then have "last_n n (filter ?P xs) = drop ?d xs" using len by (simp add: last_n_def)
    then show ?thesis using all len by (simp add: last_n_def)
  next
    case False
    then have "filter ?P (take ?d xs) = []" by (auto simp: filter_empty_conv)
    then have "filter ?P xs = filter ?P (drop ?d xs)"
      by (metis append_self_conv2 filter_append split)
    then show ?thesis by (simp add: last_n_def)
  qed
qed (simp add: last_n_def)

lemma last_n_last_n: "last_n n (last_n (Suc n) xs) = last_n n xs"
proof (cases "length xs \<le> Suc n")
  case False
  then have "Suc (length xs - Suc n) = length xs - n" by linarith
  with False show ?thesis by (simp add: last_n_def)
qed (simp add: last_n_def)

lemma last_n_less: "last_n (Suc n) xs = last_n (Suc n) ys \<Longrightarrow> last_n n xs = last_n n ys"
  by (metis last_n_last_n)

lemma filter_live_filter:
  "now' \<le> now \<Longrightarrow> filter (live c now) (filter (live c now') xs) = filter (live c now) xs"
  by (rule filter_filter [THEN trans], rule filter_cong) (auto simp: live_def)


definition frame_obs :: "PlateRecognitionResult \<times> int \<Rightarrow> Observation" where
  "frame_obs = (\<lambda>(frame, now). \<lparr>obs_result = frame, obs_time = now\<rparr>)"

definition observe_frames :: "TemporalPlateConsensusConfig \<Rightarrow> (PlateRecognitionResult \<times> int) list \<Rightarrow> Observation list" where
  "observe_frames c frames = fold (\<lambda>(frame, now) h. observe_history c h frame now) frames []"

lemma times_sorted_last_n: "times_sorted xs \<Longrightarrow> times_sorted (last_n n xs)"
  unfolding times_sorted_def last_n_def by (metis append_take_drop_id sorted_wrt_append)

lemma times_sorted_filter: "times_sorted xs \<Longrightarrow> times_sorted (filter P xs)"
  unfolding times_sorted_def by (rule sorted_wrt_filter)

lemma times_sorted_frames: "sorted (map snd frames) \<Longrightarrow> times_sorted (map frame_obs frames)"
  by (induction frames) (auto simp: times_sorted_def frame_obs_def)

lemma observe_history_eq:
  assumes "0 < history_ttl c" and "ttl_fits c" and "0 < max_history c" and "times_sorted h"
    and "clock_time t" and "\<forall>obs \<in> set h. clock_time (obs_time obs)"
  shows "observe_history c h r t =
    last_n (max_history c) (filter (live c t) h @ [frame_obs (r, t)])"
  by (simp add: observe_history_def trim_eq expire_eq [OF assms(1,2,5,6,4)] frame_obs_def)

lemma observe_frames_window:
  assumes ttl: "0 < history_ttl c" "ttl_fits c" and max: "0 < max_history c"
    and times: "\<forall>(f, t) \<in> set (frames @ [(r, t)]). clock_time t"
    and srt: "sorted (map snd (frames @ [(r, t)]))"
  shows "observe_frames c (frames @ [(r, t)]) =
    last_n (max_history c) (filter (live c t) (map frame_obs (frames @ [(r, t)])))"
  using times srt
proof (induction frames arbitrary: r t rule: rev_induct)
  case Nil
  have "live c t (frame_obs (r, t))" using ttl by (simp add: live_def frame_obs_def)
  with max Nil.prems(1) show ?case
    using observe_history_eq [OF ttl max, of "[]"]
    by (simp add: observe_frames_def times_sorted_def)
next
  case (snoc f frames)
  obtain r' t' where f: "f = (r', t')" by force
  let ?all = "map frame_obs (frames @ [(r', t')])"
  let ?h = "observe_frames c (frames @ [(r', t')])"
  have srt': "sorted (map snd (frames @ [(r', t')]))" and le: "t' \<le> t"
    using snoc.prems(2) by (simp_all add: f sorted_append)
  have tm: "clock_time t" "\<forall>(f, t) \<in> set (frames @ [(r', t')]). clock_time t" using snoc.prems(1) by (auto simp: f)
  have "times_sorted ?all" by (rule times_sorted_frames [OF srt'])
  note ts = times_sorted_filter [OF this, of "live c t'"]
  have h: "?h = last_n (max_history c) (filter (live c t') ?all)" by (rule snoc.IH [OF tm(2) srt'])
  have tsh: "times_sorted ?h" unfolding h by (rule times_sorted_last_n [OF ts])
  have ch: "\<forall>obs \<in> set ?h. clock_time (obs_time obs)"
  proof
    fix obs assume "obs \<in> set ?h"
    then have "obs \<in> set ?all" unfolding h last_n_def by (metis filter_is_subset in_set_dropD subsetD)
    with tm(2) show "clock_time (obs_time obs)" by (auto simp: frame_obs_def)
  qed
  have lv: "live c t (frame_obs (r, t))" using ttl by (simp add: live_def frame_obs_def)
  obtain n where n: "max_history c = Suc n" using max by (cases "max_history c") auto
  have "observe_frames c ((frames @ [f]) @ [(r, t)]) = observe_history c ?h r t"
    by (simp add: observe_frames_def f)
  also have "\<dots> = last_n (Suc n) (filter (live c t) ?h @ [frame_obs (r, t)])"
    using observe_history_eq [OF ttl max tsh tm(1) ch] n by simp
  also have "\<dots> = last_n n (filter (live c t) ?h) @ [frame_obs (r, t)]"
    by (rule last_n_append_singleton)
  also have "last_n n (filter (live c t) ?h) = last_n n (filter (live c t) ?all)"
    unfolding h n using last_n_less [OF filter_last_n [OF ts, of "Suc n" c t]]
    unfolding filter_live_filter [OF le] .
  also have "\<dots> @ [frame_obs (r, t)] = last_n (Suc n) (filter (live c t) ?all @ [frame_obs (r, t)])"
    by (rule last_n_append_singleton [symmetric])
  also have "filter (live c t) ?all @ [frame_obs (r, t)] = filter (live c t) (map frame_obs ((frames @ [f]) @ [(r, t)]))"
    using lv by (simp add: f)
  finally show ?case by (simp add: n)
qed

section \<open>The vote counts each plate's frames\<close>

definition eligible_frames :: "TemporalPlateConsensusConfig \<Rightarrow> Observation list \<Rightarrow> PlateRecognitionResult list" where
  "eligible_frames c history = filter (\<lambda>r. \<not> frame_skipped c r) (map obs_result history)"

definition votes :: "TemporalPlateConsensusConfig \<Rightarrow> Observation list \<Rightarrow> string \<Rightarrow> PlateRecognitionResult list" where
  "votes c history plate = filter (\<lambda>r. res_plate r = plate) (eligible_frames c history)"

definition weight :: "PlateRecognitionResult list \<Rightarrow> fl" where
  "weight rs = fold (\<lambda>r s. add32 s (res_confidence r)) rs (Fin 0)"

definition vote_counts :: "PlateRecognitionResult list \<Rightarrow> (string \<times> Aggregate) list" where
  "vote_counts rs = fold (\<lambda>r. omap_alter (res_plate r) (update_vote r)) rs []"

lemma add_frame_fold:
  "fold (add_frame c) history (m, t) =
    (fold (\<lambda>r. omap_alter (res_plate r) (update_vote r)) (eligible_frames c history) m,
     fold (\<lambda>r s. add32 s (res_confidence r)) (eligible_frames c history) t)"
  by (induction history arbitrary: m t) (auto simp: add_frame_def eligible_frames_def Let_def)

lemma add_frame_fold_eq:
  "fold (add_frame c) history ([], Fin 0) =
    (vote_counts (eligible_frames c history), weight (eligible_frames c history))"
  by (simp add: add_frame_fold vote_counts_def weight_def)

definition vote_ok :: "PlateRecognitionResult list \<Rightarrow> Aggregate \<Rightarrow> bool" where
  "vote_ok rs a \<longleftrightarrow> agg_frames a = length rs \<and> agg_weighted_support a = weight rs \<and>
     (\<exists>b. agg_best a = Some b \<and> b \<in> set rs \<and> (\<forall>r \<in> set rs. \<not> flt (res_confidence b) (res_confidence r)))"

lemma update_vote_ok: "vote_ok rs a \<Longrightarrow> vote_ok (rs @ [r]) (update_vote r (Some a))"
  by (auto simp: vote_ok_def update_vote_def weight_def dest: flt_asym) (metis flt_trans)

lemma fold_votes:
  "rs \<noteq> [] \<Longrightarrow> \<exists>a. fold (\<lambda>r v. Some (update_vote r v)) rs None = Some a \<and> vote_ok rs a"
proof (induction rs rule: rev_induct)
  case (snoc r rs)
  show ?case
  proof (cases "rs = []")
    case True
    then show ?thesis by (simp add: vote_ok_def update_vote_def weight_def)
  next
    case False
    with snoc.IH show ?thesis by (auto intro: update_vote_ok)
  qed
qed simp

lemma vote_counts_invar: "omap_invar (vote_counts rs)"
  unfolding vote_counts_def by (rule om.fold_alter_invar [OF om.invar_empty])

lemma vote_counts_lookup:
  "map_of (vote_counts rs) plate =
    fold (\<lambda>r v. Some (update_vote r v)) (filter (\<lambda>r. res_plate r = plate) rs) None"
  unfolding vote_counts_def by (subst om.lookup_fold_alter [OF om.invar_empty]) simp

lemma vote_counts_entry:
  "(plate, a) \<in> set (vote_counts (eligible_frames c history)) \<Longrightarrow>
    votes c history plate \<noteq> [] \<and> vote_ok (votes c history plate) a"
  using fold_votes [of "votes c history plate"]
  unfolding om.entries_lookup [OF vote_counts_invar] vote_counts_lookup votes_def
  by (cases "filter (\<lambda>r. res_plate r = plate) (eligible_frames c history) = []") auto

lemma vote_counts_complete:
  "votes c history plate \<noteq> [] \<Longrightarrow> \<exists>a. (plate, a) \<in> set (vote_counts (eligible_frames c history))"
  using fold_votes [of "votes c history plate"]
  unfolding om.entries_lookup [OF vote_counts_invar] vote_counts_lookup votes_def by auto

lemma vote_counts_Nil: "vote_counts rs = [] \<longleftrightarrow> rs = []"
proof
  assume a: "vote_counts rs = []"
  show "rs = []"
  proof (rule ccontr)
    assume "rs \<noteq> []"
    then have "map_of (vote_counts rs) (res_plate (hd rs)) \<noteq> None"
      using om.fold_alter_keys [OF om.invar_empty, of res_plate update_vote rs "res_plate (hd rs)"]
      by (simp add: vote_counts_def)
    with a show False by simp
  qed
qed (simp add: vote_counts_def)

section \<open>The winner has the greatest support\<close>

definition winner_ok :: "(string \<times> Aggregate) list \<Rightarrow> (string \<times> Aggregate) \<times> fl \<Rightarrow> bool" where
  "winner_ok es s \<longleftrightarrow> fst s \<in> set es \<and> snd s \<noteq> NaN \<and>
     (\<forall>e \<in> set es. fle (agg_weighted_support (snd e)) (agg_weighted_support (snd (fst s)))) \<and>
     (\<forall>e \<in> set es. fst e \<noteq> fst (fst s) \<longrightarrow> fle (agg_weighted_support (snd e)) (snd s)) \<and>
     (snd s = Fin 0 \<or> (\<exists>e \<in> set es. fst e \<noteq> fst (fst s) \<and> snd s = agg_weighted_support (snd e)))"

lemma fmax_cases: "fmax a b = a \<or> fmax a b = b"
  by (simp add: fmax_def)

lemma fmax_upper: "a \<noteq> NaN \<Longrightarrow> b \<noteq> NaN \<Longrightarrow> fle a (fmax a b) \<and> fle b (fmax a b)"
  using not_flt [of a b] by (auto simp: fmax_def fle_def feq_def)

lemma pick_winner_ok:
  assumes ok: "winner_ok es s" and it: "fst it \<notin> fst ` set es"
    and fin: "\<forall>e \<in> set (it # es). agg_weighted_support (snd e) \<noteq> NaN"
  shows "winner_ok (es @ [it]) (pick_winner it s)"
proof -
  obtain w ru where s: "s = (w, ru)" by (cases s)
  let ?sup = "\<lambda>e. agg_weighted_support (snd e)"
  have w: "w \<in> set es" "?sup w \<noteq> NaN" "?sup it \<noteq> NaN" "ru \<noteq> NaN" "fst it \<noteq> fst w"
    using ok it fin by (auto simp: winner_ok_def s)
  have mx: "fle (?sup e) (?sup w)" "fst e \<noteq> fst w \<Longrightarrow> fle (?sup e) ru" if "e \<in> set es" for e
    using ok that by (auto simp: winner_ok_def s)
  have ru: "ru = Fin 0 \<or> (\<exists>e \<in> set es. fst e \<noteq> fst w \<and> ru = ?sup e)"
    using ok by (auto simp: winner_ok_def s)
  show ?thesis
  proof (cases "flt (?sup w) (?sup it) \<or> feq (?sup it) (?sup w) \<and> fst it < fst w")
    case True
    then have step: "pick_winner it s = (it, fmax ru (?sup w))" by (simp add: pick_winner_def s)
    have "fle (?sup w) (?sup it)" using True w(2,3) by (auto simp: fle_def feq_def)
    then have 1: "fle (?sup e) (?sup it)" if "e \<in> set es" for e
      using mx(1) [OF that] by (metis fle_trans)
    have 2: "fle (?sup e) (fmax ru (?sup w))" if "e \<in> set es" for e
      using mx(1) [OF that] fmax_upper [OF w(4,2)] by (metis fle_trans)
    have 3: "fst e \<noteq> fst it" if "e \<in> set es" for e using it that by (metis image_eqI)
    have "fmax ru (?sup w) \<noteq> NaN" using fmax_cases [of ru "?sup w"] w(2,4) by auto
    moreover have "fmax ru (?sup w) = Fin 0 \<or> (\<exists>e \<in> set es. fst e \<noteq> fst it \<and> fmax ru (?sup w) = ?sup e)"
      using fmax_cases [of ru "?sup w"] ru w(1) 3 by metis
    ultimately show ?thesis
      using 1 2 3 w(3) unfolding step winner_ok_def by auto
  next
    case False
    then have step: "pick_winner it s = (w, fmax ru (?sup it))"
      using w(5) by (simp only: pick_winner_def s prod.case if_False if_True not_False_eq_True simp_thms)
    have "fle (?sup it) (?sup w)" using False w(2,3) not_flt by blast
    moreover have "fle (?sup e) (fmax ru (?sup it))" if "e \<in> set es" "fst e \<noteq> fst w" for e
      using mx(2) [OF that] fmax_upper [OF w(4,3)] by (metis fle_trans)
    moreover have "fle (?sup it) (fmax ru (?sup it))" using fmax_upper [OF w(4,3)] by simp
    moreover have "fmax ru (?sup it) \<noteq> NaN" using fmax_cases [of ru "?sup it"] w(3,4) by auto
    moreover have "fmax ru (?sup it) = Fin 0 \<or>
        (\<exists>e \<in> set (es @ [it]). fst e \<noteq> fst w \<and> fmax ru (?sup it) = ?sup e)"
      using fmax_cases [of ru "?sup it"] ru w(5) by auto
    ultimately show ?thesis
      using w(1) mx(1) unfolding step winner_ok_def by auto
  qed
qed

lemma winner_loop_ok:
  assumes "es \<noteq> []" and "distinct (map fst es)" and "\<forall>e \<in> set es. agg_weighted_support (snd e) \<noteq> NaN"
  shows "winner_ok es (fold pick_winner es (hd es, Fin 0))"
proof -
  obtain e es' where es: "es = e # es'" using assms(1) by (cases es) auto
  have "winner_ok (e # xs) (fold pick_winner xs (e, Fin 0))"
    if "distinct (map fst (e # xs))" and "\<forall>e \<in> set (e # xs). agg_weighted_support (snd e) \<noteq> NaN" for xs
    using that
  proof (induction xs rule: rev_induct)
    case Nil
    then show ?case by (simp add: winner_ok_def)
  next
    case (snoc it xs)
    then have "winner_ok ((e # xs) @ [it]) (pick_winner it (fold pick_winner xs (e, Fin 0)))"
      by (intro pick_winner_ok) auto
    then show ?case by simp
  qed
  moreover have "pick_winner e (e, Fin 0) = (e, Fin 0)" by (simp add: pick_winner_def)
  ultimately show ?thesis using assms by (simp add: es)
qed

section \<open>What an observation reports\<close>

definition temporal_ok :: "TemporalPlateConsensusConfig \<Rightarrow> bool" where
  "temporal_ok c \<longleftrightarrow> max_history c \<in> {1..1024} \<and> 0 < history_ttl c \<and>
     minimum_supporting_frames c \<in> {1..max_history c} \<and> is_prob (minimum_frame_confidence c) \<and>
     is_prob (stable_confidence_threshold c) \<and> is_prob (conflict_margin c)"

lemma make_temporal_consensus_ok:
  "make_temporal_consensus c = Inr s \<longleftrightarrow> temporal_ok c \<and> s = \<lparr>tpc_config = c, tpc_history = []\<rparr>"
  by (auto simp: make_temporal_consensus_def temporal_ok_def result_simps temporal_require_probability_def is_prob_def)

lemma eligible_frame:
  assumes "temporal_ok c" and "r \<in> set (eligible_frames c history)"
  shows "is_prob (res_confidence r)" and "res_plate r \<noteq> []" and "res_status r = Accepted"
proof -
  from assms(2) have r: "\<not> frame_skipped c r" by (simp add: eligible_frames_def)
  then show "res_plate r \<noteq> []" and "res_status r = Accepted" by (simp_all add: frame_skipped_def)
  from assms(1) obtain m where "minimum_frame_confidence c = Fin m" "0 \<le> m" by (auto simp: temporal_ok_def)
  with r show "is_prob (res_confidence r)" by (auto simp: frame_skipped_def is_finite_iff)
qed

lemma weight_bound:
  assumes "length rs \<le> 1024" and "\<forall>r \<in> set rs. is_prob (res_confidence r)"
  shows "\<exists>x. weight rs = Fin x \<and> 0 \<le> x"
proof -
  have "length rs + 0 < 2 ^ precision binary32" "length rs + 0 < 2 ^ 62"
    using assms(1) by (simp_all add: binary32_def)
  from b32.fold_fadd_bound [OF this assms(2), of 0] show ?thesis by (auto simp: weight_def)
qed

lemma eligible_frames_length: "length (eligible_frames c history) \<le> length history"
  unfolding eligible_frames_def by (metis length_filter_le length_map)

lemma votes_weight_bound:
  assumes "temporal_ok c" and "length history \<le> max_history c"
  shows "\<exists>x. weight (votes c history p) = Fin x \<and> 0 \<le> x"
    and "\<exists>x. weight (eligible_frames c history) = Fin x \<and> 0 \<le> x"
proof -
  have l: "length (eligible_frames c history) \<le> 1024"
    using assms eligible_frames_length [of c history] by (simp add: temporal_ok_def)
  then have "length (votes c history p) \<le> 1024"
    unfolding votes_def by (rule le_trans [OF length_filter_le])
  with l eligible_frame(1) [OF assms(1)]
  show "\<exists>x. weight (votes c history p) = Fin x \<and> 0 \<le> x"
    and "\<exists>x. weight (eligible_frames c history) = Fin x \<and> 0 \<le> x"
    using weight_bound [of "votes c history p"] weight_bound [of "eligible_frames c history"]
    by (auto simp: votes_def)
qed

text \<open>A plate's share of the eligible weight, as the code computes it.\<close>

definition share :: "TemporalPlateConsensusConfig \<Rightarrow> Observation list \<Rightarrow> fl \<Rightarrow> fl" where
  "share c history v = clamp01 (div32 v (weight (eligible_frames c history)))"

lemma share_mono:
  assumes "weight (eligible_frames c history) = Fin t" and "0 < t" and "v = Fin x" and "w = Fin y" and "fle v w"
  shows "fle (share c history v) (share c history w)"
  unfolding share_def assms(1)
  by (rule clamp01_mono) (use b32.fdiv_mono [of x y t] assms in simp)

lemma share_prob:
  assumes "weight (eligible_frames c history) = Fin t" and "0 < t" and "v = Fin x"
  shows "is_prob (share c history v)"
  using assms by (auto simp: share_def intro!: prob_clamp01)

text \<open>The outcome of the vote once there is an eligible frame of positive confidence.\<close>

definition vote_outcome ::
  "TemporalPlateConsensusConfig \<Rightarrow> Observation list \<Rightarrow> string \<Rightarrow> fl \<Rightarrow> PlateRecognitionResult \<Rightarrow> bool" where
  "vote_outcome c h p runner_up best \<longleftrightarrow> votes c h p \<noteq> [] \<and>
     (\<forall>q. fle (weight (votes c h q)) (weight (votes c h p))) \<and>
     (\<forall>q. q \<noteq> p \<longrightarrow> fle (weight (votes c h q)) runner_up) \<and>
     (runner_up = Fin 0 \<or> (\<exists>q. q \<noteq> p \<and> votes c h q \<noteq> [] \<and> runner_up = weight (votes c h q))) \<and>
     best \<in> set (votes c h p) \<and> (\<forall>r \<in> set (votes c h p). \<not> flt (res_confidence best) (res_confidence r))"

lemma vote_outcome_exists:
  assumes c: "temporal_ok c" and len: "length h \<le> max_history c"
    and pos: "\<not> fle (weight (eligible_frames c h)) (Fin 0)"
  shows "\<exists>p ru best. vote_outcome c h p ru best \<and>
    consensus_of c h =
      (let support = share c h (weight (votes c h p));
           output = empty_consensus_result\<lparr>tc_history_size := length h,
             tc_supporting_frames := length (votes c h p), tc_support := support\<rparr>
       in if length (votes c h p) < minimum_supporting_frames c \<or>
            flt support (stable_confidence_threshold c) \<or>
            \<not> fle (conflict_margin c) (sub32 support (share c h ru))
          then output else output\<lparr>tc_stable_result := Some (stable_result_of p support best)\<rparr>)"
proof -
  let ?es = "vote_counts (eligible_frames c h)"
  note bound = votes_weight_bound [OF c len]
  have ne: "?es \<noteq> []"
    using pos bound(2) by (auto simp: vote_counts_Nil weight_def)
  have entry: "votes c h (fst e) \<noteq> []" "vote_ok (votes c h (fst e)) (snd e)" if "e \<in> set ?es" for e
    using vote_counts_entry [of "fst e" "snd e"] that by simp_all
  have sup: "agg_weighted_support (snd e) = weight (votes c h (fst e))" if "e \<in> set ?es" for e
    using entry(2) [OF that] by (simp add: vote_ok_def)
  have "agg_weighted_support (snd e) \<noteq> NaN" if "e \<in> set ?es" for e
    using sup [OF that] bound(1) [of "fst e"] by auto
  then have "\<forall>e \<in> set ?es. agg_weighted_support (snd e) \<noteq> NaN" by blast
  then have w: "winner_ok ?es (fold pick_winner ?es (hd ?es, Fin 0))"
    by (rule winner_loop_ok [OF ne om.entries_keys_distinct [OF vote_counts_invar]])
  obtain p a ru where f: "fold pick_winner ?es (hd ?es, Fin 0) = ((p, a), ru)" by (metis prod.collapse)
  note W = w [unfolded f winner_ok_def fst_conv snd_conv]
  have p: "(p, a) \<in> set ?es" using W by blast
  from entry(2) [OF p] obtain best where best: "agg_best a = Some best" "best \<in> set (votes c h p)"
      "\<forall>r \<in> set (votes c h p). \<not> flt (res_confidence best) (res_confidence r)"
      and a: "agg_frames a = length (votes c h p)" "agg_weighted_support a = weight (votes c h p)"
    by (auto simp: vote_ok_def)
  have zero: "weight (votes c h q) = Fin 0" if "votes c h q = []" for q using that by (simp add: weight_def)
  from W have ru: "ru = Fin 0 \<or> (\<exists>e \<in> set ?es. fst e \<noteq> p \<and> ru = agg_weighted_support (snd e))" by blast
  then have ru': "ru = Fin 0 \<or> (\<exists>q. q \<noteq> p \<and> votes c h q \<noteq> [] \<and> ru = weight (votes c h q))"
    using sup entry(1) by metis
  then have ru0: "fle (Fin 0) ru"
  proof (elim disjE exE conjE)
    fix q assume "ru = weight (votes c h q)"
    with bound(1) [of q] show ?thesis by auto
  qed simp
  have all: "fle (weight (votes c h q)) (weight (votes c h p))"
    and others: "q \<noteq> p \<Longrightarrow> fle (weight (votes c h q)) ru" for q
  proof -
    consider "votes c h q = []" | b where "(q, b) \<in> set ?es" using vote_counts_complete by blast
    then have "fle (weight (votes c h q)) (weight (votes c h p)) \<and> (q \<noteq> p \<longrightarrow> fle (weight (votes c h q)) ru)"
    proof cases
      case 1
      with zero ru0 bound(1) [of p] show ?thesis by auto
    next
      case 2
      from W 2 have "fle (agg_weighted_support b) (agg_weighted_support a)" "q \<noteq> p \<Longrightarrow> fle (agg_weighted_support b) ru"
        by force+
      with sup [OF 2] a(2) show ?thesis by simp
    qed
    then show "fle (weight (votes c h q)) (weight (votes c h p))"
      and "q \<noteq> p \<Longrightarrow> fle (weight (votes c h q)) ru" by simp_all
  qed
  have "vote_outcome c h p ru best"
    using all others ru' entry(1) [OF p] best(2,3) unfolding vote_outcome_def by simp
  moreover have "consensus_of c h =
      (let support = share c h (weight (votes c h p));
           output = empty_consensus_result\<lparr>tc_history_size := length h,
             tc_supporting_frames := length (votes c h p), tc_support := support\<rparr>
       in if length (votes c h p) < minimum_supporting_frames c \<or>
            flt support (stable_confidence_threshold c) \<or>
            \<not> fle (conflict_margin c) (sub32 support (share c h ru))
          then output else output\<lparr>tc_stable_result := Some (stable_result_of p support best)\<rparr>)"
    using ne pos by (simp add: consensus_of_def add_frame_fold_eq f Let_def a best(1) share_def)
  ultimately show ?thesis by blast
qed

lemma consensus_none:
  "fle (weight (eligible_frames c h)) (Fin 0) \<Longrightarrow>
    consensus_of c h = empty_consensus_result\<lparr>tc_history_size := length h\<rparr>"
  by (simp add: consensus_of_def add_frame_fold_eq)

lemma weight_positive:
  assumes "temporal_ok c" and "length h \<le> max_history c" and "\<not> fle (weight (eligible_frames c h)) (Fin 0)"
  obtains t where "weight (eligible_frames c h) = Fin t" and "0 < t"
  using votes_weight_bound(2) [OF assms(1,2)] assms(3) by force

text \<open>What a stable result certifies about the window.\<close>

definition stable_certified ::
  "TemporalPlateConsensusConfig \<Rightarrow> Observation list \<Rightarrow> PlateRecognitionResult \<Rightarrow> bool" where
  "stable_certified c h r \<longleftrightarrow>
     (let p = res_plate r; support = share c h (weight (votes c h p))
      in p \<noteq> [] \<and> minimum_supporting_frames c \<le> length (votes c h p) \<and>
         fle (stable_confidence_threshold c) support \<and>
         (\<forall>q. q \<noteq> p \<longrightarrow> fle (conflict_margin c) (sub32 support (share c h (weight (votes c h q))))) \<and>
         (\<forall>q. fle (weight (votes c h q)) (weight (votes c h p))) \<and>
         (\<exists>best \<in> set (votes c h p). r = stable_result_of p support best \<and>
            (\<forall>f \<in> set (votes c h p). \<not> flt (res_confidence best) (res_confidence f))))"

lemma consensus_stable:
  assumes c: "temporal_ok c" and len: "length h \<le> max_history c"
    and stable: "tc_stable_result (consensus_of c h) = Some r"
  shows "stable_certified c h r"
proof -
  have pos: "\<not> fle (weight (eligible_frames c h)) (Fin 0)"
    using stable consensus_none [of c h] by (auto simp: empty_consensus_result_def)
  obtain t where t: "weight (eligible_frames c h) = Fin t" "0 < t" by (rule weight_positive [OF c len pos])
  obtain p ru best where o: "vote_outcome c h p ru best" and
    eq: "consensus_of c h =
      (let support = share c h (weight (votes c h p));
           output = empty_consensus_result\<lparr>tc_history_size := length h,
             tc_supporting_frames := length (votes c h p), tc_support := support\<rparr>
       in if length (votes c h p) < minimum_supporting_frames c \<or>
            flt support (stable_confidence_threshold c) \<or>
            \<not> fle (conflict_margin c) (sub32 support (share c h ru))
          then output else output\<lparr>tc_stable_result := Some (stable_result_of p support best)\<rparr>)"
    using vote_outcome_exists [OF c len pos] by blast
  let ?w = "\<lambda>q. weight (votes c h q)"
  have fin: "\<exists>x. ?w q = Fin x" for q using votes_weight_bound(1) [OF c len] by blast
  then have prob: "is_prob (share c h (?w q))" for q using share_prob [OF t] by metis
  from stable eq have s: "\<not> length (votes c h p) < minimum_supporting_frames c"
    "\<not> flt (share c h (?w p)) (stable_confidence_threshold c)"
    "fle (conflict_margin c) (sub32 (share c h (?w p)) (share c h ru))"
    "r = stable_result_of p (share c h (?w p)) best"
    by (auto simp: Let_def empty_consensus_result_def split: if_splits)
  have plate: "res_plate r = p" by (simp add: s(4) stable_result_of_def)
  have "best \<in> set (eligible_frames c h)" "res_plate best = p" using o by (auto simp: vote_outcome_def votes_def)
  then have "p \<noteq> []" using eligible_frame(2) [OF c] by blast
  moreover have "fle (stable_confidence_threshold c) (share c h (?w p))"
    using s(2) c prob [of p] by (auto simp: temporal_ok_def intro: not_flt_finite is_prob_finite)
  moreover have "fle (conflict_margin c) (sub32 (share c h (?w p)) (share c h (?w q)))" if q: "q \<noteq> p" for q
  proof -
    have "\<exists>y. ru = Fin y" using o fin unfolding vote_outcome_def by blast
    moreover have "fle (?w q) ru" using o q by (simp add: vote_outcome_def)
    ultimately have "fle (share c h (?w q)) (share c h ru)" using fin [of q] share_mono [OF t] by blast
    then have "fle (sub32 (share c h (?w p)) (share c h ru)) (sub32 (share c h (?w p)) (share c h (?w q)))"
      using prob [of p] by (intro b32.fsub_antimono) auto
    with s(3) show ?thesis by (rule fle_trans)
  qed
  ultimately show ?thesis
    using s(1,4) o unfolding stable_certified_def Let_def plate by (auto simp: vote_outcome_def)
qed

lemma consensus_unanimous:
  assumes c: "temporal_ok c" and len: "length h \<le> max_history c"
    and pos: "\<not> fle (weight (eligible_frames c h)) (Fin 0)"
    and same: "\<forall>r \<in> set (eligible_frames c h). res_plate r = p"
    and quorum: "minimum_supporting_frames c \<le> length (eligible_frames c h)"
  shows "\<exists>best. tc_stable_result (consensus_of c h) = Some (stable_result_of p (Fin 1) best)"
proof -
  obtain t where t: "weight (eligible_frames c h) = Fin t" "0 < t" by (rule weight_positive [OF c len pos])
  obtain p' ru best where o: "vote_outcome c h p' ru best" and
    eq: "consensus_of c h =
      (let support = share c h (weight (votes c h p'));
           output = empty_consensus_result\<lparr>tc_history_size := length h,
             tc_supporting_frames := length (votes c h p'), tc_support := support\<rparr>
       in if length (votes c h p') < minimum_supporting_frames c \<or>
            flt support (stable_confidence_threshold c) \<or>
            \<not> fle (conflict_margin c) (sub32 support (share c h ru))
          then output else output\<lparr>tc_stable_result := Some (stable_result_of p' support best)\<rparr>)"
    using vote_outcome_exists [OF c len pos] by blast
  have votes: "votes c h q = (if q = p then eligible_frames c h else [])" for q
    using same by (auto simp: votes_def filter_id_conv filter_empty_conv)
  have p: "p' = p" using o by (auto simp: vote_outcome_def votes split: if_splits)
  have "ru = Fin 0" using o by (auto simp: vote_outcome_def votes p weight_def split: if_splits)
  then have ru: "share c h ru = Fin 0" using t(2) by (simp add: share_def t(1))
  have sup: "share c h (weight (eligible_frames c h)) = Fin 1" using t(2) by (simp add: share_def t(1) b32.fdiv_self)
  have "sub32 (Fin 1) (Fin 0) = Fin 1" by (simp add: fsub_def)
  moreover have "fle (conflict_margin c) (Fin 1)" "\<not> flt (Fin 1) (stable_confidence_threshold c)"
    using c by (auto simp: temporal_ok_def)
  ultimately show ?thesis using quorum unfolding eq p by (auto simp: sup ru Let_def votes p)
qed

section \<open>Properties\<close>

lemma tpc_observe_history:
  "tpc_history (fst (tpc_observe s frame now)) = observe_history (tpc_config s) (tpc_history s) frame now"
  "tpc_config (fst (tpc_observe s frame now)) = tpc_config s"
  "snd (tpc_observe s frame now) = consensus_of (tpc_config s) (tpc_history (fst (tpc_observe s frame now)))"
  by (simp_all add: tpc_observe_def Let_def)

lemma observe_history_length: "length (observe_history c h frame now) \<le> max_history c"
  by (simp add: observe_history_def trim_eq last_n_def)

text \<open>A clear frame of the plate, and three observations used by the witnesses.\<close>

definition plate_frame :: "string \<Rightarrow> rat \<Rightarrow> PlateRecognitionResult" where
  "plate_frame plate conf = empty_result\<lparr>res_plate := plate, res_status := Accepted, res_confidence := Fin conf\<rparr>"

definition one_frame_seen :: TemporalPlateConsensus where
  "one_frame_seen = \<lparr>tpc_config = default_temporal_config, tpc_history = [frame_obs (plate_frame ''34ABC12'' (3/4), 0)]\<rparr>"

lemma default_temporal:
  "make_temporal_consensus default_temporal_config = Inr \<lparr>tpc_config = default_temporal_config, tpc_history = []\<rparr>"
  by code_simp

text \<open>
  C7: the window is exact: for a time to live that fits in 64-bit nanoseconds (292 years) and frames with non-decreasing
  time stamps of the clock, the history after the last one is the newest \<open>max_history\<close> of all observed frames that are no
  older than the time to live.
\<close>

theorem temporal_window_exact:
  assumes "make_temporal_consensus c = Inr s" and "ttl_fits c" and "\<forall>(f, t) \<in> set (frames @ [(frame, now)]). clock_time t"
    and "sorted (map snd (frames @ [(frame, now)]))"
  shows "tpc_history (fst (tpc_observe
      (fold (\<lambda>(f, t) s. fst (tpc_observe s f t)) frames s) frame now)) =
    last_n (max_history c) (filter (live c now) (map frame_obs (frames @ [(frame, now)])))"
proof -
  from assms(1) have c: "temporal_ok c" "s = \<lparr>tpc_config = c, tpc_history = []\<rparr>"
    by (simp_all add: make_temporal_consensus_ok)
  have "fold (\<lambda>(f, t) s. fst (tpc_observe s f t)) xs \<lparr>tpc_config = c, tpc_history = h\<rparr> =
      \<lparr>tpc_config = c, tpc_history = fold (\<lambda>(f, t) h. observe_history c h f t) xs h\<rparr>" for xs h
    by (induction xs arbitrary: h) (auto simp: tpc_observe_def Let_def)
  then have "tpc_history (fst (tpc_observe (fold (\<lambda>(f, t) s. fst (tpc_observe s f t)) frames s) frame now)) =
      observe_frames c (frames @ [(frame, now)])"
    by (simp add: c(2) observe_frames_def tpc_observe_def Let_def)
  with observe_frames_window [of c frames frame now] c(1) assms(2-4) show ?thesis by (simp add: temporal_ok_def)
qed

theorem temporal_window_exact_witness:
  "tpc_history (fst (tpc_observe (fst (tpc_observe \<lparr>tpc_config = default_temporal_config, tpc_history = []\<rparr>
      (plate_frame ''34ABC12'' 1) 0)) (plate_frame ''06AB123'' 1) 2000000000)) =
    [frame_obs (plate_frame ''06AB123'' 1, 2000000000)]"
  using temporal_window_exact [OF default_temporal, of "[(plate_frame ''34ABC12'' 1, 0)]" "plate_frame ''06AB123'' 1" 2000000000]
  by (simp add: live_def frame_obs_def ttl_fits_def clock_time_def default_temporal_config_def last_n_def)

text \<open>
  Without the bound the window is wrong: the constructor accepts a time to live whose conversion overflows, and then
  every earlier frame is expired at the next one, however recent.
\<close>

definition endless_config :: TemporalPlateConsensusConfig where
  "endless_config = default_temporal_config\<lparr>history_ttl := 9223372036855\<rparr>"

lemma endless_ttl_expires_all:
  "make_temporal_consensus endless_config = Inr \<lparr>tpc_config = endless_config, tpc_history = []\<rparr>"
  "expire endless_config 1 [frame_obs (f, 0)] = []" "live endless_config 1 (frame_obs (f, 0))"
proof -
  have "temporal_ok endless_config" using default_temporal
    by (simp add: make_temporal_consensus_ok temporal_ok_def endless_config_def)
  then show "make_temporal_consensus endless_config = Inr \<lparr>tpc_config = endless_config, tpc_history = []\<rparr>"
    by (simp add: make_temporal_consensus_ok)
  show "expire endless_config 1 [frame_obs (f, 0)] = []"
    by (simp add: frame_obs_def ttl_ns_def endless_config_def wrap_int64_def signed_take_bit_eq_take_bit_shift take_bit_eq_mod)
  show "live endless_config 1 (frame_obs (f, 0))" by (simp add: live_def frame_obs_def endless_config_def)
qed



text \<open>
  Agreement is reported: when all eligible frames of the window carry the same plate, there
  are at least the required number of them, and their total confidence is positive, the
  observation yields a stable result for that plate with support one.
\<close>

theorem unanimous_window_is_stable:
  assumes "make_temporal_consensus c = Inr s0" and "tpc_config s = c"
    and "tpc_observe s frame now = (s', out)"
    and "\<forall>r \<in> set (eligible_frames c (tpc_history s')). res_plate r = p"
    and "minimum_supporting_frames c \<le> length (eligible_frames c (tpc_history s'))"
    and "flt (Fin 0) (weight (eligible_frames c (tpc_history s')))"
  shows "\<exists>r. tc_stable_result out = Some r \<and> res_plate r = p \<and> res_confidence r = Fin 1 \<and> res_status r = Accepted"
proof -
  from assms(1) have c: "temporal_ok c" by (simp add: make_temporal_consensus_ok)
  note h = tpc_observe_history [of s frame now, unfolded assms(2,3) fst_conv snd_conv]
  have l: "length (tpc_history s') \<le> max_history c" by (simp add: h observe_history_length)
  have "\<not> fle (weight (eligible_frames c (tpc_history s'))) (Fin 0)"
    using assms(6) fle_not_flt by blast
  from consensus_unanimous [OF c l this assms(4,5)] show ?thesis
    by (auto simp: h(3) stable_result_of_def)
qed

theorem unanimous_window_is_stable_witness:
  "\<exists>r. tc_stable_result (snd (tpc_observe one_frame_seen (plate_frame ''34ABC12'' 1) 1000000)) = Some r \<and>
     res_confidence r = Fin 1"
proof -
  let ?s = "fst (tpc_observe one_frame_seen (plate_frame ''34ABC12'' 1) 1000000)"
  have "\<forall>r \<in> set (eligible_frames default_temporal_config (tpc_history ?s)). res_plate r = ''34ABC12''" by code_simp
  moreover have "minimum_supporting_frames default_temporal_config \<le>
      length (eligible_frames default_temporal_config (tpc_history ?s))" by code_simp
  moreover have "flt (Fin 0) (weight (eligible_frames default_temporal_config (tpc_history ?s)))" by code_simp
  ultimately show ?thesis
    using unanimous_window_is_stable [OF default_temporal _ prod.collapse [symmetric], of one_frame_seen
      "plate_frame ''34ABC12'' 1" 1000000 "''34ABC12''"]
    by (auto simp: one_frame_seen_def)
qed


end
