(* ===== verification/Event_Filter.thy ===== *)
theory Event_Filter
  imports Temporal_Consensus
begin

text \<open>
  The filter that turns stable results into events
  (\<^verbatim>\<open>application/stable_plate_event_filter.cpp\<close>): a plate that repeats within the cooldown of its
  last emission is suppressed.
\<close>

section \<open>The filter\<close>

record StablePlateEventFilterStats =
  stats_emitted :: nat
  stats_suppressed :: nat

record StablePlateEventFilterResult =
  ef_emitted_result :: "PlateRecognitionResult option"
  ef_duplicate_suppressed :: bool

record StablePlateEventFilter =
  ef_duplicate_cooldown :: int      \<comment> \<open>milliseconds\<close>
  ef_last_emitted :: "PlateRecognitionResult option"
  ef_last_emitted_at :: "int option"
  ef_stats :: StablePlateEventFilterStats

definition no_event :: StablePlateEventFilterResult where
  "no_event = \<lparr>ef_emitted_result = None, ef_duplicate_suppressed = False\<rparr>"

definition no_stats :: StablePlateEventFilterStats where
  "no_stats = \<lparr>stats_emitted = 0, stats_suppressed = 0\<rparr>"

definition make_event_filter :: "int \<Rightarrow> StablePlateEventFilter result" where
  "make_event_filter cooldown =
     res_bind (check_all
       [throw_if (cooldown < 0) (ConfigurationError ''duplicate_cooldown cannot be negative''),
        throw_if (cooldown > 24 * 60 * 60 * 1000) (ConfigurationError ''duplicate_cooldown cannot exceed 24 hours'')])
     (\<lambda>_. Inr \<lparr>ef_duplicate_cooldown = cooldown, ef_last_emitted = None, ef_last_emitted_at = None, ef_stats = no_stats\<rparr>)"

definition inside_cooldown :: "StablePlateEventFilter \<Rightarrow> PlateRecognitionResult \<Rightarrow> int \<Rightarrow> bool" where
  "inside_cooldown s current now =
     ((case ef_last_emitted s of None \<Rightarrow> False | Some l \<Rightarrow> res_plate l = res_plate current) \<and>
      (case ef_last_emitted_at s of None \<Rightarrow> False
       | Some t \<Rightarrow> t \<le> now \<and> now - t < ef_duplicate_cooldown s * 1000000))"

definition ef_observe :: "StablePlateEventFilter \<Rightarrow> TemporalConsensusResult \<Rightarrow> int \<Rightarrow>
    StablePlateEventFilter \<times> StablePlateEventFilterResult" where
  "ef_observe s consensus now =
     (case tc_stable_result consensus of None \<Rightarrow> (s, no_event)
      | Some current \<Rightarrow>
          if inside_cooldown s current now
          then (s\<lparr>ef_stats := (ef_stats s)\<lparr>stats_suppressed := stats_suppressed (ef_stats s) + 1\<rparr>\<rparr>,
                no_event\<lparr>ef_duplicate_suppressed := True\<rparr>)
          else (s\<lparr>ef_last_emitted := Some current, ef_last_emitted_at := Some now,
                  ef_stats := (ef_stats s)\<lparr>stats_emitted := stats_emitted (ef_stats s) + 1\<rparr>\<rparr>,
                no_event\<lparr>ef_emitted_result := Some current\<rparr>))"

definition ef_reset :: "StablePlateEventFilter \<Rightarrow> StablePlateEventFilter" where
  "ef_reset s = s\<lparr>ef_last_emitted := None, ef_last_emitted_at := None, ef_stats := no_stats\<rparr>"

section \<open>Runs of the filter\<close>

text \<open>The events of a run, oldest first, as pairs of the emitted result and its time.\<close>

fun ef_run :: "StablePlateEventFilter \<Rightarrow> (TemporalConsensusResult \<times> int) list \<Rightarrow>
    StablePlateEventFilter \<times> (PlateRecognitionResult \<times> int) list" where
  "ef_run s [] = (s, [])"
| "ef_run s ((consensus, now) # xs) =
     (let (s', out) = ef_observe s consensus now; (t, events) = ef_run s' xs
      in (t, (case ef_emitted_result out of None \<Rightarrow> events | Some r \<Rightarrow> (r, now) # events)))"

text \<open>Consecutive events are of different plates or a full cooldown apart.\<close>

fun spaced :: "int \<Rightarrow> (PlateRecognitionResult \<times> int) list \<Rightarrow> bool" where
  "spaced gap ((r, t) # (r', t') # es) =
     ((res_plate r = res_plate r' \<longrightarrow> t + gap \<le> t') \<and> spaced gap ((r', t') # es))"
| "spaced gap es = True"

definition last_event :: "StablePlateEventFilter \<Rightarrow> (PlateRecognitionResult \<times> int) list" where
  "last_event s = (case (ef_last_emitted s, ef_last_emitted_at s) of (Some r, Some t) \<Rightarrow> [(r, t)] | _ \<Rightarrow> [])"

definition filter_wf :: "StablePlateEventFilter \<Rightarrow> int \<Rightarrow> bool" where
  "filter_wf s now \<longleftrightarrow> (ef_last_emitted s = None \<longleftrightarrow> ef_last_emitted_at s = None) \<and>
     (\<forall>t. ef_last_emitted_at s = Some t \<longrightarrow> t \<le> now)"

text \<open>The three outcomes of one observation.\<close>

lemma ef_observe_cases:
  obtains (quiet) "tc_stable_result consensus = None" and "ef_observe s consensus now = (s, no_event)"
  | (suppressed) r where "tc_stable_result consensus = Some r" and "inside_cooldown s r now"
      and "ef_observe s consensus now =
        (s\<lparr>ef_stats := (ef_stats s)\<lparr>stats_suppressed := stats_suppressed (ef_stats s) + 1\<rparr>\<rparr>,
         no_event\<lparr>ef_duplicate_suppressed := True\<rparr>)"
  | (emitted) r where "tc_stable_result consensus = Some r" and "\<not> inside_cooldown s r now"
      and "ef_observe s consensus now =
        (s\<lparr>ef_last_emitted := Some r, ef_last_emitted_at := Some now,
           ef_stats := (ef_stats s)\<lparr>stats_emitted := stats_emitted (ef_stats s) + 1\<rparr>\<rparr>,
         no_event\<lparr>ef_emitted_result := Some r\<rparr>)"
  by (cases "tc_stable_result consensus"; cases "inside_cooldown s (the (tc_stable_result consensus)) now")
     (auto simp: ef_observe_def)

lemma filter_wf_observe:
  assumes "filter_wf s t" and "t \<le> now"
  shows "filter_wf (fst (ef_observe s consensus now)) now"
  using assms by (cases rule: ef_observe_cases [of consensus s now]) (auto simp: filter_wf_def)

lemma ef_run_spaced:
  assumes "filter_wf s now" and "sorted (now # map snd xs)"
  shows "spaced (ef_duplicate_cooldown s * 1000000) (last_event s @ snd (ef_run s xs))"
  using assms
proof (induction xs arbitrary: s now)
  case Nil
  then show ?case by (auto simp: last_event_def split: option.splits)
next
  case (Cons x xs)
  obtain consensus t where x: "x = (consensus, t)" by force
  have t: "now \<le> t" "sorted (t # map snd xs)" using Cons.prems(2) by (simp_all add: x)
  have wf: "filter_wf (fst (ef_observe s consensus t)) t" by (rule filter_wf_observe [OF Cons.prems(1) t(1)])
  note IH = Cons.IH [OF wf t(2)]
  show ?case
  proof (cases rule: ef_observe_cases [of consensus s t])
    case quiet
    with IH show ?thesis by (simp add: x no_event_def split_def)
  next
    case suppressed
    with IH show ?thesis by (simp add: x no_event_def last_event_def split_def)
  next
    case (emitted r)
    have "spaced (ef_duplicate_cooldown s * 1000000) ((r, t) # snd (ef_run (fst (ef_observe s consensus t)) xs))"
      using IH by (simp add: emitted last_event_def)
    moreover have "res_plate l = res_plate r \<longrightarrow> t' + ef_duplicate_cooldown s * 1000000 \<le> t"
      if "ef_last_emitted s = Some l" "ef_last_emitted_at s = Some t'" for l t'
      using emitted(2) that Cons.prems(1) t(1) by (auto simp: inside_cooldown_def filter_wf_def)
    ultimately show ?thesis
      by (auto simp: x emitted no_event_def last_event_def Let_def split_def split: option.splits)
  qed
qed

section \<open>Properties\<close>

definition stable_seen :: "string \<Rightarrow> TemporalConsensusResult" where
  "stable_seen plate = empty_consensus_result\<lparr>tc_stable_result := Some (plate_frame plate 1)\<rparr>"

lemma default_filter:
  "make_event_filter 2000 = Inr \<lparr>ef_duplicate_cooldown = 2000, ef_last_emitted = None, ef_last_emitted_at = None, ef_stats = no_stats\<rparr>"
  by code_simp

lemma make_event_filter_eq:
  assumes "make_event_filter cooldown = Inr s"
  shows "s = \<lparr>ef_duplicate_cooldown = cooldown, ef_last_emitted = None, ef_last_emitted_at = None, ef_stats = no_stats\<rparr>"
  using assms by (auto simp: make_event_filter_def result_simps)

lemma new_filter_spaced:
  assumes "make_event_filter cooldown = Inr s" and "sorted (map snd xs)"
  shows "spaced (cooldown * 1000000) (snd (ef_run s xs))"
proof (cases xs)
  case (Cons x ys)
  note s = make_event_filter_eq [OF assms(1)]
  have "filter_wf s (snd x)" by (simp add: s filter_wf_def)
  moreover have "sorted (snd x # map snd xs)" using assms(2) by (auto simp: Cons)
  ultimately have "spaced (ef_duplicate_cooldown s * 1000000) (last_event s @ snd (ef_run s xs))"
    by (rule ef_run_spaced)
  then show ?thesis by (simp add: s last_event_def)
qed simp

text \<open>
  No duplicate events: in a run of the filter over observations with non-decreasing time
  stamps, two consecutive events are of different plates or at least the cooldown apart.
\<close>

theorem events_spaced:
  assumes "make_event_filter cooldown = Inr s" and "sorted (map snd xs)"
  shows "spaced (cooldown * 1000000) (snd (ef_run s xs))"
  using assms by (rule new_filter_spaced)

theorem events_spaced_witness:
  "spaced 2000000000 (snd (ef_run
     \<lparr>ef_duplicate_cooldown = 2000, ef_last_emitted = None, ef_last_emitted_at = None, ef_stats = no_stats\<rparr>
     [(stable_seen ''34ABC12'', 0), (stable_seen ''34ABC12'', 1999999999), (stable_seen ''34ABC12'', 2000000000)]))"
  using events_spaced [OF default_filter, of
    "[(stable_seen ''34ABC12'', 0), (stable_seen ''34ABC12'', 1999999999), (stable_seen ''34ABC12'', 2000000000)]"]
  by simp

text \<open>
  Nothing is dropped without cause: every stable observation is either emitted as it is or
  counted as suppressed, and it is suppressed only if the last emitted event has the same plate and
  is less than a cooldown old; an observation without a stable result changes nothing.
\<close>

theorem stable_result_emitted_or_suppressed:
  "case ef_observe s consensus now of (s', out) \<Rightarrow>
     (case tc_stable_result consensus of
        None \<Rightarrow> s' = s \<and> out = no_event
      | Some r \<Rightarrow>
          if \<exists>l t. ef_last_emitted s = Some l \<and> ef_last_emitted_at s = Some t \<and> res_plate l = res_plate r \<and>
               t \<le> now \<and> now < t + ef_duplicate_cooldown s * 1000000
          then ef_emitted_result out = None \<and> ef_duplicate_suppressed out \<and>
               ef_last_emitted s' = ef_last_emitted s \<and> ef_last_emitted_at s' = ef_last_emitted_at s \<and>
               stats_suppressed (ef_stats s') = stats_suppressed (ef_stats s) + 1 \<and>
               stats_emitted (ef_stats s') = stats_emitted (ef_stats s)
          else ef_emitted_result out = Some r \<and> \<not> ef_duplicate_suppressed out \<and>
               ef_last_emitted s' = Some r \<and> ef_last_emitted_at s' = Some now \<and>
               stats_emitted (ef_stats s') = stats_emitted (ef_stats s) + 1 \<and>
               stats_suppressed (ef_stats s') = stats_suppressed (ef_stats s))"
proof (cases rule: ef_observe_cases [of consensus s now])
  case (suppressed r)
  then show ?thesis by (auto simp: inside_cooldown_def no_event_def split: option.splits)
next
  case (emitted r)
  then show ?thesis by (auto simp: inside_cooldown_def no_event_def split: option.splits)
qed simp

end
