(* ===== verification/Stream_Session.thy ===== *)
theory Stream_Session
  imports Lpr_Pipeline Event_Filter
begin

text \<open>
  A stream session (\<^verbatim>\<open>application/recognition_stream_session.cpp\<close>): the pipeline on each frame, the
  temporal consensus over frames with exactly one plate, and the event filter behind it. Every
  operation holds the session's mutex, so a concurrent use is a sequence of the steps below.
\<close>

section \<open>State and operations\<close>

record RecognitionStreamSessionResult =
  sr_frame_result :: LprPipelineResult
  sr_temporal :: TemporalConsensusResult
  sr_emission :: StablePlateEventFilterResult
  sr_temporal_observation_applied :: bool
  sr_ambiguous_frame :: bool

record StreamSession =
  ss_pipeline :: Pipeline
  ss_consensus :: TemporalPlateConsensus
  ss_emission_filter :: StablePlateEventFilter
  ss_last_timestamp :: "int option"
  ss_closed :: bool

definition make_session :: "Pipeline option \<Rightarrow> TemporalPlateConsensusConfig \<Rightarrow> int \<Rightarrow> StreamSession result" where
  "make_session pipeline temporal_config cooldown =
     res_bind (make_temporal_consensus temporal_config) (\<lambda>consensus.
     res_bind (make_event_filter cooldown) (\<lambda>filt.
     case pipeline of
       None \<Rightarrow> Inl (ConfigurationError ''recognition stream session requires a pipeline'')
     | Some p \<Rightarrow> Inr \<lparr>ss_pipeline = p, ss_consensus = consensus, ss_emission_filter = filt,
         ss_last_timestamp = None, ss_closed = False\<rparr>))"

text \<open>What the session does with the result of a frame.\<close>

definition absorb_frame :: "StreamSession \<Rightarrow> int \<Rightarrow> LprPipelineResult \<Rightarrow> RecognitionStreamSessionResult \<times> StreamSession" where
  "absorb_frame s now frame =
     (let s = s\<lparr>ss_last_timestamp := Some now\<rparr>;
          out = \<lparr>sr_frame_result = frame, sr_temporal = empty_consensus_result, sr_emission = no_event,
                 sr_temporal_observation_applied = False, sr_ambiguous_frame = False\<rparr>
      in case lpr_recognitions frame of
           [r] \<Rightarrow>
             let (consensus, temporal) = tpc_observe (ss_consensus s) r now;
                 (filt, emission) = ef_observe (ss_emission_filter s) temporal now
             in (out\<lparr>sr_temporal := temporal, sr_temporal_observation_applied := True, sr_emission := emission\<rparr>,
                 s\<lparr>ss_consensus := consensus, ss_emission_filter := filt\<rparr>)
         | recs \<Rightarrow>
             (out\<lparr>sr_ambiguous_frame := (length recs > 1),
                  sr_temporal := empty_consensus_result\<lparr>tc_history_size := length (tpc_history (ss_consensus s))\<rparr>\<rparr>, s))"

definition recognize_locked :: "StreamSession \<Rightarrow> ImageView \<Rightarrow> int \<Rightarrow> OperationContext \<Rightarrow>
    (RecognitionStreamSessionResult \<times> StreamSession) io" where
  "recognize_locked s img now ctx =
     (if ss_closed s then io_throw (ConfigurationError ''recognition stream session is closed'')
      else if (case ss_last_timestamp s of None \<Rightarrow> False | Some prev \<Rightarrow> now < prev)
      then io_throw (ConfigurationError ''recognition stream timestamp must be monotonic'')
      else io_bind (recognize (ss_pipeline s) img ctx) (\<lambda>(frame, pipeline).
             io_return (absorb_frame (s\<lparr>ss_pipeline := pipeline\<rparr>) now frame)))"

definition session_recognize :: "StreamSession \<Rightarrow> ImageView \<Rightarrow> OperationContext \<Rightarrow>
    (RecognitionStreamSessionResult \<times> StreamSession) io" where
  "session_recognize s img ctx = io_bind io_now (\<lambda>now. recognize_locked s img now ctx)"

definition session_reset :: "StreamSession \<Rightarrow> StreamSession result" where
  "session_reset s =
     (if ss_closed s then Inl (ConfigurationError ''recognition stream session is closed'')
      else Inr (s\<lparr>ss_consensus := tpc_reset (ss_consensus s), ss_emission_filter := ef_reset (ss_emission_filter s),
                  ss_last_timestamp := None\<rparr>))"

definition session_close :: "StreamSession \<Rightarrow> StreamSession" where
  "session_close s =
     (if ss_closed s then s
      else s\<lparr>ss_consensus := tpc_reset (ss_consensus s), ss_emission_filter := ef_reset (ss_emission_filter s),
             ss_last_timestamp := None, ss_closed := True\<rparr>)"

definition session_history_size :: "StreamSession \<Rightarrow> nat" where
  "session_history_size s = length (tpc_history (ss_consensus s))"

definition session_emission_stats :: "StreamSession \<Rightarrow> StablePlateEventFilterStats" where
  "session_emission_stats s = ef_stats (ss_emission_filter s)"

section \<open>Steps of a session\<close>

text \<open>
  What a client can do; an operation that throws leaves the session as it was. The label is the
  result a recognition returned.
\<close>

inductive session_step :: "StreamSession \<Rightarrow> RecognitionStreamSessionResult option \<Rightarrow> StreamSession \<Rightarrow> bool" where
  frame: "recognize_locked s img now ctx w n = (Inr (out, s'), n') \<Longrightarrow> session_step s (Some out) s'"
| frame_failed: "recognize_locked s img now ctx w n = (Inl e, n') \<Longrightarrow> session_step s None s"
| reset: "session_reset s = Inr s' \<Longrightarrow> session_step s None s'"
| reset_failed: "session_reset s = Inl e \<Longrightarrow> session_step s None s"
| close: "session_step s None (session_close s)"

inductive_cases session_stepE: "session_step s out s'"

inductive reachable :: "StreamSession \<Rightarrow> StreamSession \<Rightarrow> bool" for s0 where
  start: "reachable s0 s0"
| step: "reachable s0 s \<Longrightarrow> session_step s out s' \<Longrightarrow> reachable s0 s'"

section \<open>Invariant\<close>

definition before_last :: "int option \<Rightarrow> int \<Rightarrow> bool" where
  "before_last prev t = (case prev of None \<Rightarrow> False | Some l \<Rightarrow> t \<le> l)"

definition session_ok :: "TemporalPlateConsensusConfig \<Rightarrow> int \<Rightarrow> StreamSession \<Rightarrow> bool" where
  "session_ok c cooldown s \<longleftrightarrow> tpc_config (ss_consensus s) = c \<and>
     length (tpc_history (ss_consensus s)) \<le> max_history c \<and> times_sorted (tpc_history (ss_consensus s)) \<and>
     (\<forall>obs \<in> set (tpc_history (ss_consensus s)). before_last (ss_last_timestamp s) (obs_time obs)) \<and>
     ef_duplicate_cooldown (ss_emission_filter s) = cooldown \<and>
     (ef_last_emitted (ss_emission_filter s) = None \<longleftrightarrow> ef_last_emitted_at (ss_emission_filter s) = None) \<and>
     (\<forall>t. ef_last_emitted_at (ss_emission_filter s) = Some t \<longrightarrow> before_last (ss_last_timestamp s) t) \<and>
     (ss_closed s \<longrightarrow> tpc_history (ss_consensus s) = [] \<and> ef_last_emitted (ss_emission_filter s) = None \<and>
        ss_last_timestamp s = None)"

lemma before_last_mono:
  "before_last prev t \<Longrightarrow> \<not> (case prev of None \<Rightarrow> False | Some l \<Rightarrow> now < l) \<Longrightarrow> before_last (Some now) t"
  by (auto simp: before_last_def split: option.splits)

lemma set_expire: "set (expire c now h) \<subseteq> set h"
  by (induction h) auto

lemma times_sorted_expire: "times_sorted h \<Longrightarrow> times_sorted (expire c now h)"
  by (induction h) (auto simp: times_sorted_def)

lemma times_sorted_append1:
  "times_sorted h \<Longrightarrow> \<forall>obs \<in> set h. obs_time obs \<le> t \<Longrightarrow> times_sorted (h @ [\<lparr>obs_result = r, obs_time = t\<rparr>])"
  by (auto simp: times_sorted_def sorted_wrt_append)

lemma observe_history_keeps:
  assumes "times_sorted h" and "\<forall>obs \<in> set h. obs_time obs \<le> now"
  shows "times_sorted (observe_history c h frame now)" and "\<forall>obs \<in> set (observe_history c h frame now). obs_time obs \<le> now"
proof -
  have le: "\<forall>obs \<in> set (expire c now h). obs_time obs \<le> now" using assms(2) set_expire by blast
  show "times_sorted (observe_history c h frame now)"
    unfolding observe_history_def trim_eq
    by (intro times_sorted_last_n times_sorted_append1 times_sorted_expire assms(1) le)
  show "\<forall>obs \<in> set (observe_history c h frame now). obs_time obs \<le> now"
    using le by (auto simp: observe_history_def trim_eq last_n_def dest!: in_set_dropD)
qed

lemma absorb_frame_cases:
  obtains (one) r where "lpr_recognitions frame = [r]"
      and "snd (absorb_frame s now frame) = s\<lparr>ss_last_timestamp := Some now,
        ss_consensus := fst (tpc_observe (ss_consensus s) r now),
        ss_emission_filter := fst (ef_observe (ss_emission_filter s) (snd (tpc_observe (ss_consensus s) r now)) now)\<rparr>"
      and "sr_emission (fst (absorb_frame s now frame)) =
        snd (ef_observe (ss_emission_filter s) (snd (tpc_observe (ss_consensus s) r now)) now)"
      and "sr_temporal (fst (absorb_frame s now frame)) = snd (tpc_observe (ss_consensus s) r now)"
      and "sr_temporal_observation_applied (fst (absorb_frame s now frame))"
      and "\<not> sr_ambiguous_frame (fst (absorb_frame s now frame))"
  | (other) "length (lpr_recognitions frame) \<noteq> 1"
      and "snd (absorb_frame s now frame) = s\<lparr>ss_last_timestamp := Some now\<rparr>"
      and "sr_emission (fst (absorb_frame s now frame)) = no_event"
      and "tc_stable_result (sr_temporal (fst (absorb_frame s now frame))) = None"
      and "\<not> sr_temporal_observation_applied (fst (absorb_frame s now frame))"
      and "sr_ambiguous_frame (fst (absorb_frame s now frame)) \<longleftrightarrow> length (lpr_recognitions frame) > 1"
proof (cases "lpr_recognitions frame")
  case Nil
  with other show ?thesis by (simp add: absorb_frame_def Let_def empty_consensus_result_def)
next
  case (Cons r rs)
  show ?thesis
  proof (cases rs)
    case Nil
    with Cons one show ?thesis by (simp add: absorb_frame_def Let_def split_def)
  next
    case (Cons r' rs')
    with \<open>lpr_recognitions frame = r # rs\<close> other show ?thesis
      by (simp add: absorb_frame_def Let_def empty_consensus_result_def)
  qed
qed

lemma recognize_locked_returns:
  assumes "\<not> ss_closed s" and "\<not> (case ss_last_timestamp s of None \<Rightarrow> False | Some prev \<Rightarrow> now < prev)"
    and "recognize (ss_pipeline s) img ctx w n = (Inr (frame, ss_pipeline s), n')"
  shows "recognize_locked s img now ctx w n = (Inr (absorb_frame s now frame), n')"
proof -
  have "s\<lparr>ss_pipeline := ss_pipeline s\<rparr> = s" by simp
  with assms show ?thesis by (simp add: recognize_locked_def io_bind_def io_return_def)
qed

lemma recognize_lockedE:
  assumes "recognize_locked s img now ctx w n = (Inr (out, s'), n')"
  obtains frame pipeline where "\<not> ss_closed s" and "\<not> (case ss_last_timestamp s of None \<Rightarrow> False | Some prev \<Rightarrow> now < prev)"
    and "recognize (ss_pipeline s) img ctx w n = (Inr (frame, pipeline), n')"
    and "(out, s') = absorb_frame (s\<lparr>ss_pipeline := pipeline\<rparr>) now frame"
proof -
  have a: "\<not> ss_closed s" "\<not> (case ss_last_timestamp s of None \<Rightarrow> False | Some prev \<Rightarrow> now < prev)"
    using assms by (auto simp: recognize_locked_def io_throw_def split: if_splits)
  with assms obtain x k where "recognize (ss_pipeline s) img ctx w n = (Inr x, k)"
    and "io_return (absorb_frame (s\<lparr>ss_pipeline := snd x\<rparr>) now (fst x)) w k = (Inr (out, s'), n')"
    by (auto simp: recognize_locked_def io_bind_Inr split_def)
  with a that [of "fst x" "snd x"] show ?thesis by (simp add: io_return_Inr)
qed

lemma absorb_frame_ok:
  assumes ok: "session_ok c cooldown s" and last: "\<not> (case ss_last_timestamp s of None \<Rightarrow> False | Some prev \<Rightarrow> now < prev)"
    and live: "\<not> ss_closed s"
  shows "session_ok c cooldown (snd (absorb_frame s now frame))"
proof -
  let ?h = "tpc_history (ss_consensus s)"
  have le: "\<forall>obs \<in> set ?h. before_last (Some now) (obs_time obs)"
    using ok last before_last_mono unfolding session_ok_def by blast
  have lt: "\<forall>t. ef_last_emitted_at (ss_emission_filter s) = Some t \<longrightarrow> before_last (Some now) t"
    using ok last before_last_mono unfolding session_ok_def by blast
  show ?thesis
  proof (cases rule: absorb_frame_cases [of frame s now])
    case (one r)
    have h: "times_sorted (observe_history c ?h r now)" "\<forall>obs \<in> set (observe_history c ?h r now). obs_time obs \<le> now"
      using ok le by (intro observe_history_keeps; simp add: session_ok_def before_last_def)+
    let ?cons = "snd (tpc_observe (ss_consensus s) r now)"
    have f: "ef_duplicate_cooldown (fst (ef_observe (ss_emission_filter s) ?cons now)) = cooldown \<and>
      (ef_last_emitted (fst (ef_observe (ss_emission_filter s) ?cons now)) = None \<longleftrightarrow>
       ef_last_emitted_at (fst (ef_observe (ss_emission_filter s) ?cons now)) = None) \<and>
      (\<forall>t. ef_last_emitted_at (fst (ef_observe (ss_emission_filter s) ?cons now)) = Some t \<longrightarrow> before_last (Some now) t)"
      using ok lt by (cases rule: ef_observe_cases [of ?cons "ss_emission_filter s" now])
        (auto simp: session_ok_def before_last_def)
    have c: "tpc_config (ss_consensus s) = c" using ok by (simp add: session_ok_def)
    show ?thesis
      unfolding one(2) session_ok_def using f h observe_history_length [of c ?h r now] live
      by (simp add: tpc_observe_history c before_last_def)
  next
    case other
    then show ?thesis using ok le lt live by (simp add: session_ok_def)
  qed
qed

lemma session_step_ok:
  assumes "session_step s out s'" and "session_ok c cooldown s"
  shows "session_ok c cooldown s'"
  using assms(1)
proof cases
  case (frame img now ctx w n out' n')
  from this(2) obtain f p where o: "\<not> ss_closed s" "\<not> (case ss_last_timestamp s of None \<Rightarrow> False | Some prev \<Rightarrow> now < prev)"
    and a: "(out', s') = absorb_frame (s\<lparr>ss_pipeline := p\<rparr>) now f" by (rule recognize_lockedE)
  have "session_ok c cooldown (s\<lparr>ss_pipeline := p\<rparr>)" using assms(2) by (simp add: session_ok_def)
  with absorb_frame_ok [of c cooldown "s\<lparr>ss_pipeline := p\<rparr>" now f] o arg_cong [OF a, of snd]
  show ?thesis by simp
next
  case reset
  then show ?thesis using assms(2)
    by (auto simp: session_reset_def session_ok_def tpc_reset_def ef_reset_def times_sorted_def split: if_splits)
next
  case close
  then show ?thesis using assms(2)
    by (auto simp: session_close_def session_ok_def tpc_reset_def ef_reset_def times_sorted_def)
qed (use assms(2) in simp_all)

lemma reachable_ok: "reachable s0 s \<Longrightarrow> session_ok c cooldown s0 \<Longrightarrow> session_ok c cooldown s"
  by (induction rule: reachable.induct) (auto intro: session_step_ok)

lemma make_session_cases:
  assumes "make_session pipeline c cooldown = Inr s"
  shows "make_temporal_consensus c = Inr (ss_consensus s)" and "make_event_filter cooldown = Inr (ss_emission_filter s)"
    and "ss_last_timestamp s = None" and "\<not> ss_closed s" and "pipeline = Some (ss_pipeline s)"
proof -
  obtain consensus filt p where "make_temporal_consensus c = Inr consensus" "make_event_filter cooldown = Inr filt"
    "pipeline = Some p" "s = \<lparr>ss_pipeline = p, ss_consensus = consensus, ss_emission_filter = filt,
       ss_last_timestamp = None, ss_closed = False\<rparr>"
    using assms unfolding make_session_def
    by (cases "make_temporal_consensus c"; cases "make_event_filter cooldown"; cases pipeline) (simp_all add: res_bind_def)
  then show "make_temporal_consensus c = Inr (ss_consensus s)" "make_event_filter cooldown = Inr (ss_emission_filter s)"
    "ss_last_timestamp s = None" "\<not> ss_closed s" "pipeline = Some (ss_pipeline s)" by simp_all
qed

lemma make_session_ok:
  assumes "make_session pipeline c cooldown = Inr s"
  shows "session_ok c cooldown s"
proof -
  note m = make_session_cases [OF assms]
  have "tpc_config (ss_consensus s) = c" "tpc_history (ss_consensus s) = []"
    using m(1) by (auto simp: make_temporal_consensus_ok)
  then show ?thesis using make_event_filter_eq [OF m(2)] m(3,4) by (simp add: session_ok_def times_sorted_def)
qed

section \<open>Traces of frames\<close>

text \<open>Successful recognitions in a row, with the time and the result of each.\<close>

inductive session_frames :: "StreamSession \<Rightarrow> (int \<times> RecognitionStreamSessionResult) list \<Rightarrow> StreamSession \<Rightarrow> bool" where
  no_frame: "session_frames s [] s"
| next_frame: "recognize_locked s img now ctx w n = (Inr (out, s'), n') \<Longrightarrow> session_frames s' trace t \<Longrightarrow>
    session_frames s ((now, out) # trace) t"

fun session_events :: "(int \<times> RecognitionStreamSessionResult) list \<Rightarrow> (PlateRecognitionResult \<times> int) list" where
  "session_events [] = []"
| "session_events ((now, out) # trace) =
     (case ef_emitted_result (sr_emission out) of None \<Rightarrow> session_events trace
      | Some r \<Rightarrow> (r, now) # session_events trace)"

text \<open>The events of a trace are the events of a run of the filter.\<close>

lemma session_frames_filter_run:
  assumes "session_frames s trace t"
  shows "\<exists>xs. snd (ef_run (ss_emission_filter s) xs) = session_events trace \<and> sorted (map snd xs) \<and>
    (\<forall>x \<in> set xs. \<not> (case ss_last_timestamp s of None \<Rightarrow> False | Some prev \<Rightarrow> snd x < prev))"
  using assms
proof (induction rule: session_frames.induct)
  case (no_frame s)
  show ?case by (rule exI [of _ "[]"]) simp
next
  case (next_frame s img now ctx w n out s' n' trace t)
  from next_frame.IH obtain xs where xs: "snd (ef_run (ss_emission_filter s') xs) = session_events trace"
    "sorted (map snd xs)" "\<forall>x \<in> set xs. \<not> (case ss_last_timestamp s' of None \<Rightarrow> False | Some prev \<Rightarrow> snd x < prev)"
    by blast
  from next_frame.hyps(1) obtain f p where o: "\<not> (case ss_last_timestamp s of None \<Rightarrow> False | Some prev \<Rightarrow> now < prev)"
    and a: "(out, s') = absorb_frame (s\<lparr>ss_pipeline := p\<rparr>) now f" by (rule recognize_lockedE)
  let ?s = "s\<lparr>ss_pipeline := p\<rparr>"
  have out: "out = fst (absorb_frame ?s now f)" and s': "s' = snd (absorb_frame ?s now f)"
    using arg_cong [OF a, of fst] arg_cong [OF a, of snd] by simp_all
  have "ss_last_timestamp s' = Some now"
    unfolding s' by (cases rule: absorb_frame_cases [of f ?s now]) simp_all
  with xs(3) have now: "\<forall>x \<in> set xs. now \<le> snd x" by auto
  with o have late: "\<forall>x \<in> set xs. \<not> (case ss_last_timestamp s of None \<Rightarrow> False | Some prev \<Rightarrow> snd x < prev)"
    by (auto split: option.splits)
  show ?case
  proof (cases rule: absorb_frame_cases [of f ?s now])
    case (one r)
    let ?c = "snd (tpc_observe (ss_consensus s) r now)"
    have "snd (ef_run (ss_emission_filter s) ((?c, now) # xs)) = session_events ((now, out) # trace)"
      using xs(1) one(2,3) by (simp add: s' out Let_def split_def split: option.split)
    moreover have "\<not> (case ss_last_timestamp s of None \<Rightarrow> False | Some prev \<Rightarrow> snd (?c, now) < prev)" using o by (simp split: option.splits)
    ultimately show ?thesis using xs(2) now late by (intro exI [of _ "(?c, now) # xs"]) (simp del: ef_run.simps)
  next
    case other
    then have "session_events ((now, out) # trace) = session_events trace"
      by (simp add: out no_event_def)
    with xs late other show ?thesis by (intro exI [of _ xs]) (simp add: s')
  qed
qed

section \<open>Properties\<close>

text \<open>A pipeline that reads the same plate on every frame.\<close>

definition steady_pipeline :: Pipeline where
  "steady_pipeline = demo_pipeline\<lparr>pl_align := (\<lambda>_ _ _. io_return None), pl_generate := (\<lambda>_ _ _ _. io_return []),
     pl_fuse := (\<lambda>_ _. Inr []), pl_decide := (\<lambda>_ _ _ _. Inr (plate_frame ''34ABC12'' 1)), pl_diagnostics := None\<rparr>"

definition steady_reading :: PlateRecognitionResult where
  "steady_reading = (plate_frame ''34ABC12'' 1)\<lparr>res_crop_quality := Fin 0, res_degraded := False, res_total_latency_ms := Fin 0\<rparr>"

definition steady_session :: StreamSession where
  "steady_session = \<lparr>ss_pipeline = steady_pipeline,
     ss_consensus = \<lparr>tpc_config = default_temporal_config, tpc_history = []\<rparr>,
     ss_emission_filter = \<lparr>ef_duplicate_cooldown = 2000, ef_last_emitted = None, ef_last_emitted_at = None, ef_stats = no_stats\<rparr>,
     ss_last_timestamp = None, ss_closed = False\<rparr>"

lemma steady_session: "make_session (Some steady_pipeline) default_temporal_config 2000 = Inr steady_session"
  by (simp add: make_session_def default_temporal default_filter steady_session_def)

lemma steady_recognize:
  "\<exists>frame n'. recognize steady_pipeline gray_pixel default_context still_world 0 = (Inr (frame, steady_pipeline), n') \<and>
     lpr_recognitions frame = [steady_reading]"
  by (simp add: recognize_def pipeline_recognize_def process_detection_def steady_pipeline_def demo_pipeline_def io_bind_def
      io_return_def io_now_def io_lift_def io_try_def add_timing_eq check_context_def try_stage_def gray_pixel_valid
      empty_pipeline_result_def steady_reading_def still_world_def milliseconds_between_def fl_of_int_def new_decision_context_def plate_frame_def empty_result_def Let_def split_def)

lemma steady_first_frame:
  obtains out n' where "recognize_locked steady_session gray_pixel 0 default_context still_world 0 =
      (Inr (out, snd (absorb_frame steady_session 0 (sr_frame_result out))), n')"
    and "lpr_recognitions (sr_frame_result out) = [steady_reading]"
proof -
  obtain frame n' where f: "recognize steady_pipeline gray_pixel default_context still_world 0 = (Inr (frame, steady_pipeline), n')"
    "lpr_recognitions frame = [steady_reading]" using steady_recognize by blast
  have s: "steady_session\<lparr>ss_pipeline := steady_pipeline\<rparr> = steady_session" by (simp add: steady_session_def)
  have fr: "sr_frame_result (fst (absorb_frame s t fr)) = fr" for s t fr
    by (simp add: absorb_frame_def Let_def split_def split: list.split)
  have "recognize_locked steady_session gray_pixel 0 default_context still_world 0 = (Inr (absorb_frame steady_session 0 frame), n')"
    using f(1) by (simp add: recognize_locked_def steady_session_def io_bind_def io_return_def)
  with that [of "fst (absorb_frame steady_session 0 frame)" n'] f(2) show ?thesis by (simp add: fr)
qed

text \<open>
  C8: the session's invariant: in every state a client can reach, the consensus keeps its
  configuration and at most \<open>max_history\<close> observations in time order, none later than the last
  frame; the event filter keeps its cooldown, and no event is later than the last frame; a closed
  session holds nothing.
\<close>

theorem session_invariant:
  assumes "make_session pipeline c cooldown = Inr s0" and "reachable s0 s"
  shows "tpc_config (ss_consensus s) = c \<and> session_history_size s \<le> max_history c \<and>
     times_sorted (tpc_history (ss_consensus s)) \<and>
     (\<forall>obs \<in> set (tpc_history (ss_consensus s)). \<exists>l. ss_last_timestamp s = Some l \<and> obs_time obs \<le> l) \<and>
     ef_duplicate_cooldown (ss_emission_filter s) = cooldown \<and>
     (\<forall>t. ef_last_emitted_at (ss_emission_filter s) = Some t \<longrightarrow> (\<exists>l. ss_last_timestamp s = Some l \<and> t \<le> l)) \<and>
     (ss_closed s \<longrightarrow> session_history_size s = 0 \<and> ef_last_emitted (ss_emission_filter s) = None)"
proof -
  have "before_last l t \<longleftrightarrow> (\<exists>x. l = Some x \<and> t \<le> x)" for l t by (auto simp: before_last_def split: option.splits)
  with reachable_ok [OF assms(2) make_session_ok [OF assms(1)]] show ?thesis
    by (simp add: session_ok_def session_history_size_def)
qed

theorem session_invariant_witness:
  "\<exists>s. reachable steady_session s \<and> session_history_size s = 1 \<and> 1 \<le> max_history default_temporal_config \<and>
     times_sorted (tpc_history (ss_consensus s))"
proof -
  obtain out n' where r: "recognize_locked steady_session gray_pixel 0 default_context still_world 0 =
      (Inr (out, snd (absorb_frame steady_session 0 (sr_frame_result out))), n')"
    and f: "lpr_recognitions (sr_frame_result out) = [steady_reading]" by (rule steady_first_frame)
  let ?s = "snd (absorb_frame steady_session 0 (sr_frame_result out))"
  have reach: "reachable steady_session ?s"
    by (rule reachable.step [OF reachable.start session_step.frame [OF r]])
  have "session_history_size ?s = 1"
    using f by (cases rule: absorb_frame_cases [of "sr_frame_result out" steady_session 0])
      (simp_all add: session_history_size_def tpc_observe_history observe_history_def trim_eq last_n_def steady_session_def
        default_temporal_config_def)
  with reach session_invariant [OF steady_session reach] show ?thesis by auto
qed

text \<open>
  Closing is final: whatever is called on a closed session, it stays as the close left it,
  no recognition returns, and both recognition and reset throw the configuration error.
\<close>

theorem closed_session_is_final:
  assumes "reachable (session_close s) t"
  shows "t = session_close s \<and> (\<forall>out t'. session_step t out t' \<longrightarrow> out = None \<and> t' = t) \<and>
     recognize_locked t img now ctx w n = (Inl (ConfigurationError ''recognition stream session is closed''), n) \<and>
     session_reset t = Inl (ConfigurationError ''recognition stream session is closed'')"
proof -
  have step: "out = None \<and> u' = u" if "session_step u out u'" "ss_closed u" for u out u'
    using that by cases (auto simp: recognize_locked_def session_reset_def session_close_def io_throw_def)
  have closed: "ss_closed (session_close s)" by (simp add: session_close_def)
  have "t = session_close s"
    using assms by induction (use step closed in blast)+
  then show ?thesis using step closed by (auto simp: recognize_locked_def session_reset_def io_throw_def)
qed

theorem closed_session_is_final_witness:
  "session_reset (session_close (session_close steady_session)) =
     Inl (ConfigurationError ''recognition stream session is closed'')"
proof -
  have r: "reachable (session_close steady_session) (session_close (session_close steady_session))"
    by (rule reachable.step [OF reachable.start session_step.close])
  show ?thesis by (rule closed_session_is_final [OF r, THEN conjunct2, THEN conjunct2, THEN conjunct2])
qed

text \<open>
  C9: an event of a reachable session comes from a frame with exactly one plate and is certified
  by the window: the supporting frames of the history carry its plate, with the share and the
  margin the configuration asks for. A frame with no plate or several plates leaves the consensus
  and the filter as they were and emits nothing.
\<close>

theorem session_event_certified:
  assumes "make_session pipeline c cooldown = Inr s0" and "reachable s0 s" and "session_step s (Some out) s'"
  shows "(case ef_emitted_result (sr_emission out) of None \<Rightarrow> True
     | Some r \<Rightarrow> length (lpr_recognitions (sr_frame_result out)) = 1 \<and> stable_certified c (tpc_history (ss_consensus s')) r) \<and>
   (length (lpr_recognitions (sr_frame_result out)) \<noteq> 1 \<longrightarrow>
      ss_consensus s' = ss_consensus s \<and> ss_emission_filter s' = ss_emission_filter s \<and> sr_emission out = no_event \<and>
      \<not> sr_temporal_observation_applied out)"
proof -
  have conf: "tpc_config (ss_consensus s) = c" using reachable_ok [OF assms(2) make_session_ok [OF assms(1)]] by (simp add: session_ok_def)
  have c: "temporal_ok c" using make_session_cases(1) [OF assms(1)] by (simp add: make_temporal_consensus_ok)
  from assms(3) obtain img now ctx w n n' where "recognize_locked s img now ctx w n = (Inr (out, s'), n')" by cases auto
  then obtain f p where a: "(out, s') = absorb_frame (s\<lparr>ss_pipeline := p\<rparr>) now f" by (rule recognize_lockedE)
  let ?s = "s\<lparr>ss_pipeline := p\<rparr>"
  have out: "out = fst (absorb_frame ?s now f)" and s': "s' = snd (absorb_frame ?s now f)"
    using arg_cong [OF a, of fst] arg_cong [OF a, of snd] by simp_all
  have f: "sr_frame_result out = f"
    unfolding out by (simp add: absorb_frame_def Let_def split_def split: list.split)
  show ?thesis
  proof (cases rule: absorb_frame_cases [of f ?s now])
    case (one r)
    let ?h = "tpc_history (ss_consensus s')"
    have h: "?h = observe_history c (tpc_history (ss_consensus s)) r now" using one(2) by (simp add: s' tpc_observe_history conf)
    have "stable_certified c ?h x" if "ef_emitted_result (sr_emission out) = Some x" for x
    proof -
      have "tc_stable_result (consensus_of c ?h) = Some x"
        using that one(2,3)
        by (cases rule: ef_observe_cases [of "snd (tpc_observe (ss_consensus s) r now)" "ss_emission_filter s" now])
          (simp_all add: out s' tpc_observe_history conf no_event_def)
      moreover have "length ?h \<le> max_history c" by (simp add: h observe_history_length)
      ultimately show ?thesis using consensus_stable [OF c] by blast
    qed
    then show ?thesis using one(1) f by (simp split: option.splits)
  next
    case other
    then show ?thesis using f by (simp add: out s' no_event_def)
  qed
qed

lemma absorb_steady:
  assumes "lpr_recognitions frame = [steady_reading]" and "lpr_recognitions frame' = [steady_reading]"
  defines "s1 \<equiv> snd (absorb_frame steady_session 0 frame)"
  shows "map_option res_plate (ef_emitted_result (sr_emission (fst (absorb_frame s1 1000000 frame')))) = Some ''34ABC12''"
proof -
  have s1: "s1 = steady_session\<lparr>ss_last_timestamp := Some 0,
      ss_consensus := fst (tpc_observe (ss_consensus steady_session) steady_reading 0),
      ss_emission_filter := fst (ef_observe (ss_emission_filter steady_session)
        (snd (tpc_observe (ss_consensus steady_session) steady_reading 0)) 0)\<rparr>"
    using assms by (cases rule: absorb_frame_cases [of frame steady_session 0]) simp_all
  have e: "map_option res_plate (ef_emitted_result (snd (ef_observe
      (fst (ef_observe \<lparr>ef_duplicate_cooldown = 2000, ef_last_emitted = None, ef_last_emitted_at = None, ef_stats = no_stats\<rparr>
        (snd (tpc_observe \<lparr>tpc_config = default_temporal_config, tpc_history = []\<rparr> steady_reading 0)) 0))
      (snd (tpc_observe (fst (tpc_observe \<lparr>tpc_config = default_temporal_config, tpc_history = []\<rparr> steady_reading 0)) steady_reading 1000000)) 1000000)))
    = Some ''34ABC12''" by code_simp
  show ?thesis
    using assms(2) e by (cases rule: absorb_frame_cases [of frame' s1 1000000]) (simp_all add: s1, simp_all add: steady_session_def)
qed

lemma steady_two_frames:
  obtains s1 out1 out2 s2 n1 n2 where "recognize_locked steady_session gray_pixel 0 default_context still_world 0 = (Inr (out1, s1), n1)"
    and "recognize_locked s1 gray_pixel 1000000 default_context still_world 0 = (Inr (out2, s2), n2)"
    and "map_option res_plate (ef_emitted_result (sr_emission out2)) = Some ''34ABC12''"
proof -
  obtain out n' where r: "recognize_locked steady_session gray_pixel 0 default_context still_world 0 =
      (Inr (out, snd (absorb_frame steady_session 0 (sr_frame_result out))), n')"
    and f: "lpr_recognitions (sr_frame_result out) = [steady_reading]" by (rule steady_first_frame)
  let ?s = "snd (absorb_frame steady_session 0 (sr_frame_result out))"
  obtain frame n2 where g: "recognize steady_pipeline gray_pixel default_context still_world 0 = (Inr (frame, steady_pipeline), n2)"
    "lpr_recognitions frame = [steady_reading]" using steady_recognize by blast
  have s: "ss_pipeline ?s = steady_pipeline" "ss_closed ?s = False" "ss_last_timestamp ?s = Some 0"
    by (cases rule: absorb_frame_cases [of "sr_frame_result out" steady_session 0]; simp add: steady_session_def; fail)+
  have "recognize_locked ?s gray_pixel 1000000 default_context still_world 0 = (Inr (absorb_frame ?s 1000000 frame), n2)"
    by (rule recognize_locked_returns) (use s g(1) in simp_all)
  with that [OF r, of "fst (absorb_frame ?s 1000000 frame)" "snd (absorb_frame ?s 1000000 frame)" n2] absorb_steady [OF f g(2)]
  show ?thesis by simp
qed

theorem session_event_certified_witness:
  "\<exists>s out s'. reachable steady_session s \<and> session_step s (Some out) s' \<and>
     (\<exists>r. ef_emitted_result (sr_emission out) = Some r \<and> res_plate r = ''34ABC12'' \<and>
       stable_certified default_temporal_config (tpc_history (ss_consensus s')) r)"
proof -
  obtain s1 out1 out2 s2 n1 n2 where r: "recognize_locked steady_session gray_pixel 0 default_context still_world 0 = (Inr (out1, s1), n1)"
    "recognize_locked s1 gray_pixel 1000000 default_context still_world 0 = (Inr (out2, s2), n2)"
    "map_option res_plate (ef_emitted_result (sr_emission out2)) = Some ''34ABC12''" by (rule steady_two_frames)
  have reach: "reachable steady_session s1"
    by (rule reachable.step [OF reachable.start session_step.frame [OF r(1)]])
  from session_event_certified [OF steady_session reach session_step.frame [OF r(2)]] r(3)
  have "\<exists>x. ef_emitted_result (sr_emission out2) = Some x \<and> res_plate x = ''34ABC12'' \<and>
      stable_certified default_temporal_config (tpc_history (ss_consensus s2)) x"
    by (auto split: option.splits)
  with reach session_step.frame [OF r(2)] show ?thesis by blast
qed

text \<open>
  No duplicate events in a session: along the successful frames of a new session, two
  consecutive events are of different plates or at least the cooldown apart.
\<close>

theorem session_events_spaced:
  assumes "make_session pipeline c cooldown = Inr s0" and "session_frames s0 trace s"
  shows "spaced (cooldown * 1000000) (session_events trace)"
proof -
  obtain xs where "snd (ef_run (ss_emission_filter s0) xs) = session_events trace" "sorted (map snd xs)"
    using session_frames_filter_run [OF assms(2)] by blast
  with new_filter_spaced [OF make_session_cases(2) [OF assms(1)]] show ?thesis by metis
qed

theorem session_events_spaced_witness:
  "\<exists>trace s. session_frames steady_session trace s \<and> session_events trace \<noteq> [] \<and> spaced 2000000000 (session_events trace)"
proof -
  obtain s1 out1 out2 s2 n1 n2 where r: "recognize_locked steady_session gray_pixel 0 default_context still_world 0 = (Inr (out1, s1), n1)"
    "recognize_locked s1 gray_pixel 1000000 default_context still_world 0 = (Inr (out2, s2), n2)"
    "map_option res_plate (ef_emitted_result (sr_emission out2)) = Some ''34ABC12''" by (rule steady_two_frames)
  have t: "session_frames steady_session [(0, out1), (1000000, out2)] s2"
    by (rule session_frames.next_frame [OF r(1) session_frames.next_frame [OF r(2) session_frames.no_frame]])
  from session_events_spaced [OF steady_session this]
  have "spaced 2000000000 (session_events [(0, out1), (1000000, out2)])" by simp
  moreover have "session_events [(0, out1), (1000000, out2)] \<noteq> []" using r(3) by (auto split: option.splits)
  ultimately show ?thesis using t by blast
qed

end
