(* ===== verification/Byte_Memory.thy ===== *)
theory Byte_Memory
  imports Prelude "HOL-Library.Word"
begin

text \<open>
  Byte buffers as lists: slices, \<open>memcpy\<close> into a buffer, and the frame rules the writers of a buffer
  rest on (two buffers agree on a set of offsets).
\<close>

type_synonym byte = "8 word"

definition slice :: "byte list \<Rightarrow> nat \<Rightarrow> nat \<Rightarrow> byte list" where
  "slice mem off n = take n (drop off mem)"

text \<open>\<open>memcpy\<close> of some bytes to an offset of a buffer.\<close>

definition store :: "byte list \<Rightarrow> nat \<Rightarrow> byte list \<Rightarrow> byte list" where
  "store mem off bs = take off mem @ bs @ drop (off + length bs) mem"

definition agree :: "nat set \<Rightarrow> byte list \<Rightarrow> byte list \<Rightarrow> bool" where
  "agree A mem mem' \<longleftrightarrow> length mem = length mem' \<and> (\<forall>i \<in> A. i < length mem \<longrightarrow> mem ! i = mem' ! i)"

lemma slice_slice: "i + m \<le> n \<Longrightarrow> slice (slice mem off n) i m = slice mem (off + i) m"
  by (simp add: slice_def drop_take add.commute min_def)

lemma agree_refl [simp]: "agree A mem mem"
  by (simp add: agree_def)

lemma agree_trans: "agree A x y \<Longrightarrow> agree B y z \<Longrightarrow> C \<subseteq> A \<Longrightarrow> C \<subseteq> B \<Longrightarrow> agree C x z"
  by (simp add: agree_def) (metis subsetD)

lemma agree_sym: "agree A x y \<Longrightarrow> agree A y x"
  by (auto simp: agree_def)

lemma agree_length: "agree A x y \<Longrightarrow> length x = length y"
  by (simp add: agree_def)

lemma agree_mono: "agree A x y \<Longrightarrow> B \<subseteq> A \<Longrightarrow> agree B x y"
  by (auto simp: agree_def)

lemma agree_slice:
  assumes "agree A mem mem'" and "{off..<off + n} \<subseteq> A"
  shows "slice mem off n = slice mem' off n"
proof -
  have "mem ! (off + i) = mem' ! (off + i)" if "i < n" "off + i < length mem" for i
  proof -
    have "off + i \<in> A" using assms(2) that(1) by auto
    with assms(1) that(2) show ?thesis by (simp add: agree_def)
  qed
  then show ?thesis using assms(1) unfolding slice_def agree_def by (intro nth_equalityI) auto
qed

lemma store_props:
  assumes "off + length bs \<le> length mem"
  shows "length (store mem off bs) = length mem" and "agree (- {off..<off + length bs}) mem (store mem off bs)"
    and "slice (store mem off bs) off (length bs) = bs"
  using assms by (auto simp: store_def agree_def slice_def nth_append min_def)

end
