(* ===== verification/Wire_Format.thy ===== *)
theory Wire_Format
  imports Float_Arith Byte_Memory
begin

text \<open>
  The bytes of the v1 result buffer: little-endian 32-bit words, the bit patterns of binary32 and
  character bytes. A record of the C header (\<^verbatim>\<open>include/fac_lpr/fac_lpr_engine.h\<close>) is a sequence of
  32-bit fields without padding, so its memory image is the concatenation of its words. The
  supported hosts are little-endian; the reader below uses the same order.
\<close>

type_synonym u32 = "32 word"

section \<open>Words\<close>

definition u32_bytes :: "u32 \<Rightarrow> byte list" where
  "u32_bytes w = [ucast w, ucast (drop_bit 8 w), ucast (drop_bit 16 w), ucast (drop_bit 24 w)]"

definition u32_of_bytes :: "byte list \<Rightarrow> u32" where
  "u32_of_bytes bs = horner_sum (\<lambda>b. ucast b) (2 ^ 8) bs"

definition words_bytes :: "u32 list \<Rightarrow> byte list" where
  "words_bytes ws = concat (map u32_bytes ws)"

definition read_u32 :: "byte list \<Rightarrow> nat \<Rightarrow> u32" where
  "read_u32 mem off = u32_of_bytes (slice mem off 4)"

lemma length_u32_bytes [simp]: "length (u32_bytes w) = 4"
  by (simp add: u32_bytes_def)

lemma u32_bytes_inverse: "u32_of_bytes (u32_bytes w) = w"
proof -
  have n: "unat w mod 256 + 256 * (unat w div 256 mod 256 + 256 * (unat w div 65536 mod 256 + 256 * (unat w div 16777216 mod 256)))
      = unat w"
  proof -
    let ?n = "unat w"
    have "?n < 2 ^ 32" using unsigned_less [of w] by simp
    then have "?n div 16777216 mod 256 = ?n div 16777216" by (simp add: div_less_iff_less_mult)
    moreover have "?n div 65536 = ?n div 256 div 256" "?n div 16777216 = ?n div 256 div 256 div 256"
      by (simp_all add: div_mult2_eq [symmetric])
    ultimately show ?thesis by (simp only: mod_mult_div_eq)
  qed
  have b: "(ucast (ucast x :: byte) :: u32) = of_nat (unat x mod 256)" for x :: u32
    by (simp add: unsigned_ucast_eq take_bit_eq_mod word_unat_eq_iff unat_of_nat unat_mod)
  have d: "unat (drop_bit k w) = unat w div 2 ^ k" for k by (metis drop_bit_eq_div unat_drop_bit_eq)
  have "u32_of_bytes (u32_bytes w) =
      of_nat (unat w mod 256 + 256 * (unat w div 256 mod 256 + 256 * (unat w div 65536 mod 256 + 256 * (unat w div 16777216 mod 256))))"
    by (simp add: u32_of_bytes_def u32_bytes_def b d algebra_simps)
  also have "\<dots> = of_nat (unat w)" by (simp only: n)
  finally show ?thesis by simp
qed

lemma length_words_bytes [simp]: "length (words_bytes ws) = 4 * length ws"
  by (induction ws) (simp_all add: words_bytes_def)

lemma slice_words_bytes: "k < length ws \<Longrightarrow> slice (words_bytes ws) (4 * k) 4 = u32_bytes (ws ! k)"
proof (induction ws arbitrary: k)
  case (Cons w ws)
  show ?case
  proof (cases k)
    case 0
    then show ?thesis by (simp add: words_bytes_def slice_def)
  next
    case (Suc m)
    with Cons have "slice (words_bytes ws) (4 * m) 4 = u32_bytes (ws ! m)" by simp
    then show ?thesis by (simp add: Suc words_bytes_def slice_def)
  qed
qed simp

text \<open>Field \<open>k\<close> of a record that lies at \<open>off\<close>.\<close>

lemma read_field:
  assumes "slice mem off (4 * length ws) = words_bytes ws" and "k < length ws"
  shows "read_u32 mem (off + 4 * k) = ws ! k"
proof -
  have "slice mem (off + 4 * k) 4 = slice (slice mem off (4 * length ws)) (4 * k) 4"
    by (rule slice_slice [symmetric]) (use assms(2) in simp)
  also have "\<dots> = u32_bytes (ws ! k)" using assms by (simp add: slice_words_bytes)
  finally show ?thesis by (simp add: read_u32_def u32_bytes_inverse)
qed

section \<open>binary32\<close>

definition magnitude_bits :: "rat \<Rightarrow> nat" where
  "magnitude_bits x =
     (if x < pow2 (- 126) then nat \<lfloor>x / pow2 (- 149)\<rfloor>
      else let e = leading_exp x in nat (e + 127) * 2 ^ 23 + (nat \<lfloor>x / pow2 (e - 23)\<rfloor> - 2 ^ 23))"

fun fl_bits32 :: "fl \<Rightarrow> u32" where
  "fl_bits32 NaN = 0x7FC00000"
| "fl_bits32 PInf = 0x7F800000"
| "fl_bits32 NInf = 0xFF800000"
| "fl_bits32 (Fin x) = of_nat ((if x < 0 then 2 ^ 31 else 0) + magnitude_bits \<bar>x\<bar>)"

definition fl_of_bits32 :: "u32 \<Rightarrow> fl" where
  "fl_of_bits32 w =
     (let n = unat w; s = n div 2 ^ 31; e = n div 2 ^ 23 mod 256; m = n mod 2 ^ 23
      in if e = 255 then (if m \<noteq> 0 then NaN else if s = 1 then NInf else PInf)
         else Fin ((if s = 1 then - 1 else 1) *
           (if e = 0 then of_nat m * pow2 (- 149) else of_nat (2 ^ 23 + m) * pow2 (int e - 150))))"

text \<open>The values of the type \<open>float\<close>.\<close>

fun is_float32 :: "fl \<Rightarrow> bool" where
  "is_float32 (Fin x) = (round_fl binary32 x = Fin x)"
| "is_float32 _ = True"

lemma is_float32_round [simp]: "is_float32 (round_fl binary32 x)"
  by (auto simp: round_fl_def Let_def b32.round_round)

lemma is_float32_fcast [simp]: "is_float32 (fcast binary32 v)"
  by (cases v) (simp_all add: fcast_def)

lemma is_float32_grid:
  assumes "is_float32 (Fin x)" and "0 < x"
  shows "\<exists>n::nat. x = of_nat n * pow2 (max (- 149) (leading_exp x - 23))" and "leading_exp x \<le> 127"
proof -
  from assms(1) have r: "round_rat binary32 x = x" and l: "x \<le> largest binary32"
    by (auto simp: round_fl_def Let_def split: if_splits)
  have lp: "last_place_exp binary32 x = max (- 149) (leading_exp x - 23)"
    using assms(2) by (simp add: last_place_exp_def binary32_def)
  have "x = of_int (round_half_even (x / pow2 (last_place_exp binary32 x))) * pow2 (last_place_exp binary32 x)"
    using r assms(2) by (simp add: round_rat_def)
  moreover from this assms(2) have "0 < round_half_even (x / pow2 (last_place_exp binary32 x))"
    by (metis of_int_0_less_iff pow2_pos zero_less_mult_pos2)
  ultimately show "\<exists>n::nat. x = of_nat n * pow2 (max (- 149) (leading_exp x - 23))"
    unfolding lp by (metis of_int_of_nat_eq zero_less_imp_eq_int)
  have "largest binary32 < pow2 128" by (simp add: largest_def binary32_def pow2_def)
  with l leading_exp_bounds(1) [OF assms(2)] have "pow2 (leading_exp x) < pow2 128" by linarith
  then show "leading_exp x \<le> 127" by (simp add: pow2_less_iff)
qed

lemma magnitude_bits_decode:
  assumes "is_float32 (Fin x)" and "0 < x"
  obtains e m where "magnitude_bits x = e * 2 ^ 23 + m" and "m < 2 ^ 23" and "e < 255"
    and "x = (if e = 0 then of_nat m * pow2 (- 149) else of_nat (2 ^ 23 + m) * pow2 (int e - 150))"
proof -
  note le = leading_exp_bounds [OF assms(2)] is_float32_grid(2) [OF assms]
  from is_float32_grid(1) [OF assms] obtain n where n: "x = of_nat n * pow2 (max (- 149) (leading_exp x - 23))" by blast
  show ?thesis
  proof (cases "x < pow2 (- 126)")
    case True
    with le(1) have "pow2 (leading_exp x) < pow2 (- 126)" by linarith
    then have "leading_exp x < - 126" by (simp add: pow2_less_iff)
    with n have x: "x = of_nat n * pow2 (- 149)" by simp
    have "of_nat n * pow2 (- 149) < 2 ^ 23 * pow2 (- 149)" using True x by (simp add: pow2_def)
    then have "of_nat n < (2 ^ 23 :: rat)" by simp
    then have "n < 2 ^ 23" by (metis of_nat_less_iff of_nat_numeral of_nat_power)
    moreover have "magnitude_bits x = n" using True by (simp add: magnitude_bits_def x)
    ultimately show ?thesis using that [of 0 n] x by simp
  next
    case False
    with le(2) have "pow2 (- 126) < pow2 (leading_exp x + 1)" by linarith
    then have e: "- 126 \<le> leading_exp x" by (simp add: pow2_less_iff)
    with n have x: "x = of_nat n * pow2 (leading_exp x - 23)" by simp
    have s: "pow2 (leading_exp x) = 2 ^ 23 * pow2 (leading_exp x - 23)" "pow2 (leading_exp x + 1) = 2 ^ 24 * pow2 (leading_exp x - 23)"
      by (simp_all add: pow2_diff pow2_add) (simp_all add: pow2_def)
    from le(1,2) s have "2 ^ 23 * pow2 (leading_exp x - 23) \<le> of_nat n * pow2 (leading_exp x - 23)"
      "of_nat n * pow2 (leading_exp x - 23) < 2 ^ 24 * pow2 (leading_exp x - 23)" using x by linarith+
    then have "(2 ^ 23 :: rat) \<le> of_nat n" "of_nat n < (2 ^ 24 :: rat)" by simp_all
    then have nb: "2 ^ 23 \<le> n" "n < 2 ^ 24" by (metis of_nat_le_iff of_nat_less_iff of_nat_numeral of_nat_power)+
    have fl: "\<lfloor>x / pow2 (leading_exp x - 23)\<rfloor> = int n" by (subst x) simp
    have "magnitude_bits x = nat (leading_exp x + 127) * 2 ^ 23 + (n - 2 ^ 23)"
      using False by (simp add: magnitude_bits_def Let_def fl)
    moreover have "nat (leading_exp x + 127) < 255" "nat (leading_exp x + 127) \<noteq> 0" using le(3) e by linarith+
    moreover have "int (nat (leading_exp x + 127)) - 150 = leading_exp x - 23" using e by simp
    ultimately show ?thesis using that [of "nat (leading_exp x + 127)" "n - 2 ^ 23"] nb x by simp
  qed
qed

lemma fl_bits32_inverse: "is_float32 a \<Longrightarrow> fl_of_bits32 (fl_bits32 a) = a"
proof (cases a)
  case (Fin x)
  assume f: "is_float32 a"
  show ?thesis
  proof (cases "x = 0")
    case True
    then show ?thesis by (simp add: Fin fl_of_bits32_def magnitude_bits_def pow2_def)
  next
    case False
    have "is_float32 (Fin \<bar>x\<bar>)"
      using f by (auto simp: Fin round_fl_def Let_def abs_if round_rat_minus split: if_splits)
    with False obtain e m where p: "magnitude_bits \<bar>x\<bar> = e * 2 ^ 23 + m" "m < 2 ^ 23" "e < 255"
      and v: "\<bar>x\<bar> = (if e = 0 then of_nat m * pow2 (- 149) else of_nat (2 ^ 23 + m) * pow2 (int e - 150))"
      using magnitude_bits_decode [of "\<bar>x\<bar>"] by auto
    let ?s = "if x < 0 then 1 else 0 :: nat"
    have "e * 2 ^ 23 + m < 2 ^ 31" using p(2,3) by simp
    then have u: "unat (fl_bits32 a) = ?s * 2 ^ 31 + (e * 2 ^ 23 + m)"
      by (simp add: Fin p(1) unat_of_nat del: of_nat_add)
    have "unat (fl_bits32 a) div 2 ^ 31 = ?s" unfolding u using \<open>e * 2 ^ 23 + m < 2 ^ 31\<close> by simp
    moreover have "unat (fl_bits32 a) = m + (e + 256 * ?s) * 2 ^ 23" unfolding u by simp
    then have "unat (fl_bits32 a) div 2 ^ 23 = e + 256 * ?s" "unat (fl_bits32 a) mod 2 ^ 23 = m"
      using p(2) by (simp_all only: div_mult_self3 mod_mult_self1) simp_all
    moreover from this(1) have "unat (fl_bits32 a) div 2 ^ 23 mod 256 = e" using p(3) by simp
    ultimately show ?thesis using p(3) v by (auto simp: fl_of_bits32_def Let_def Fin abs_if split: if_splits)
  qed
qed (simp_all add: fl_of_bits32_def)

section \<open>Text\<close>

definition text_bytes :: "string \<Rightarrow> byte list" where
  "text_bytes s = map (\<lambda>c. of_nat (of_char c)) s"

definition bytes_text :: "byte list \<Rightarrow> string" where
  "bytes_text bs = map (\<lambda>b. char_of (unat b)) bs"

lemma length_text_bytes [simp]: "length (text_bytes s) = length s"
  by (simp add: text_bytes_def)

lemma text_bytes_inverse: "bytes_text (text_bytes s) = s"
proof -
  have "char_of (unat (of_nat (of_char c) :: byte)) = c" for c
    by (simp add: unat_of_nat)
  then show ?thesis by (simp add: bytes_text_def text_bytes_def comp_def)
qed

end
