(* ===== verification/Result_Buffer.thy ===== *)
theory Result_Buffer
  imports Lpr_Pipeline Engine_Config Wire_Format
begin

text \<open>
  The v1 result buffer (\<^verbatim>\<open>c_api/result_buffer.cpp\<close>): a bump allocator over the caller's bytes that
  is run twice, first without a buffer to find the size, then on the buffer. Every throw is a value; a
  writer that throws leaves no result. \<open>std::size_t\<close> is a natural number here, because each sum and
  product is computed behind the code's own overflow check.
\<close>

section \<open>Checked values\<close>

definition max_result_bytes :: nat where
  "max_result_bytes = budget_max_result_bytes default_resource_budget"

definition to_u32 :: "nat \<Rightarrow> string \<Rightarrow> u32 result" where
  "to_u32 n field =
     (if n > 2 ^ 32 - 1 then Inl (ResourceExhaustedError (field @ '' exceeds v1 32-bit wire limit''))
      else Inr (of_nat n))"

definition checked_array_bytes :: "nat \<Rightarrow> nat \<Rightarrow> string \<Rightarrow> nat result" where
  "checked_array_bytes n element_size field =
     (if n \<noteq> 0 \<and> element_size > (2 ^ 64 - 1) div n
      then Inl (ResourceExhaustedError (field @ '' overflows size_t''))
      else if n * element_size > max_result_bytes
      then Inl (ResourceExhaustedError (field @ '' exceeds result memory budget''))
      else Inr (n * element_size))"

definition element_offset :: "u32 \<Rightarrow> nat \<Rightarrow> nat \<Rightarrow> u32 result" where
  "element_offset base index element_size =
     res_bind (checked_array_bytes index element_size ''wire element offset'') (\<lambda>relative.
       to_u32 (unat base + relative) ''wire element offset'')"

definition finite_float :: "fl \<Rightarrow> string \<Rightarrow> fl result" where
  "finite_float v field = (if \<not> is_finite v then Inl (ProviderError (field @ '' is not finite'')) else Inr v)"

definition probability_float :: "fl \<Rightarrow> string \<Rightarrow> fl result" where
  "probability_float v field =
     (if \<not> is_finite v \<or> flt v (Fin 0) \<or> flt (Fin 1) v then Inl (ProviderError (field @ '' is outside [0,1]''))
      else Inr v)"

definition latency_to_float :: "fl \<Rightarrow> fl result" where
  "latency_to_float v =
     (if \<not> is_finite v \<or> flt v (Fin 0) \<or> flt (Fin (largest binary32)) v
      then Inl (ProviderError ''result latency is outside v1 wire range'')
      else Inr (fcast binary32 v))"

definition map_status :: "RecognitionStatus \<Rightarrow> u32" where
  "map_status s = (case s of Accepted \<Rightarrow> 0 | Review \<Rightarrow> 1 | Rejected \<Rightarrow> 2)"

definition map_reason :: "RecognitionDecisionReason \<Rightarrow> u32" where
  "map_reason r =
     (case r of accepted_consensus \<Rightarrow> 0 | fatal_provider_failure \<Rightarrow> 1 | degraded_provider_set \<Rightarrow> 2
      | detector_confidence_below_minimum \<Rightarrow> 3 | geometry_below_minimum \<Rightarrow> 4 | crop_quality_below_minimum \<Rightarrow> 5
      | no_valid_candidate \<Rightarrow> 6 | candidate_confidence_below_review \<Rightarrow> 7
      | candidate_confidence_below_accept \<Rightarrow> 8 | conflicting_strong_candidates \<Rightarrow> 9)"

section \<open>The writer\<close>

record BufferWriter =
  bw_bytes :: "byte list option"
  bw_capacity :: nat
  bw_position :: nat

type_synonym 'a writer = "BufferWriter \<Rightarrow> ('a \<times> BufferWriter) result"

definition wr_return :: "'a \<Rightarrow> 'a writer" where
  "wr_return a = (\<lambda>w. Inr (a, w))"

definition wr_lift :: "'a result \<Rightarrow> 'a writer" where
  "wr_lift r = (\<lambda>w. res_bind r (\<lambda>a. Inr (a, w)))"

definition wr_bind :: "'a writer \<Rightarrow> ('a \<Rightarrow> 'b writer) \<Rightarrow> 'b writer" where
  "wr_bind m f = (\<lambda>w. res_bind (m w) (\<lambda>(a, w'). f a w'))"

definition align_position :: "nat \<Rightarrow> nat result" where
  "align_position v =
     (let remainder = v mod 4 in
      if remainder = 0 then Inr v
      else if 4 - remainder > 2 ^ 64 - 1 - v then Inl (ResourceExhaustedError ''result alignment overflows size_t'')
      else Inr (v + (4 - remainder)))"

definition reserve :: "nat \<Rightarrow> u32 writer" where
  "reserve bytes = (\<lambda>w.
     res_bind (align_position (bw_position w)) (\<lambda>aligned.
     if bytes > 2 ^ 64 - 1 - aligned then Inl (ResourceExhaustedError ''result buffer size overflows size_t'')
     else if aligned + bytes > max_result_bytes
     then Inl (ResourceExhaustedError ''result buffer exceeds configured 64 MiB resource budget'')
     else if aligned + bytes > 2 ^ 32 - 1
     then Inl (ResourceExhaustedError ''result buffer exceeds v1 32-bit offset range'')
     else if bw_bytes w \<noteq> None \<and> aligned + bytes > bw_capacity w
     then Inl (ResourceExhaustedError ''internal result writer exceeded caller capacity'')
     else Inr (of_nat aligned, w\<lparr>bw_position := aligned + bytes\<rparr>)))"

definition wr_write :: "u32 \<Rightarrow> u32 list \<Rightarrow> unit writer" where
  "wr_write off wire = (\<lambda>w. case bw_bytes w of None \<Rightarrow> Inr ((), w)
     | Some mem \<Rightarrow>
        if unat off > bw_capacity w \<or> length (words_bytes wire) > bw_capacity w - unat off
        then Inl (ResourceExhaustedError ''internal result write exceeded caller capacity'')
        else Inr ((), w\<lparr>bw_bytes := Some (store mem (unat off) (words_bytes wire))\<rparr>))"

definition write_bytes :: "u32 \<Rightarrow> byte list \<Rightarrow> unit writer" where
  "write_bytes off bs = (\<lambda>w. case bw_bytes w of None \<Rightarrow> Inr ((), w)
     | Some mem \<Rightarrow>
        if bs = [] then Inr ((), w)
        else if unat off > bw_capacity w \<or> length bs > bw_capacity w - unat off
        then Inl (ResourceExhaustedError ''internal text write exceeded caller capacity'')
        else Inr ((), w\<lparr>bw_bytes := Some (store mem (unat off) bs)\<rparr>))"

section \<open>The wire records\<close>

record fac_lpr_text_ref_v1 =
  tx_offset :: u32
  tx_length :: u32

record fac_lpr_candidate_v1 =
  wc_struct_size :: u32
  wc_abi_version :: u32
  wc_text :: fac_lpr_text_ref_v1
  wc_confidence :: fl
  wc_calibrated_confidence :: fl
  wc_format_valid :: u32
  wc_reserved_zero :: u32

record fac_lpr_evidence_v1 =
  we_struct_size :: u32
  we_abi_version :: u32
  we_source :: fac_lpr_text_ref_v1
  we_crop_quality :: fl
  we_latency_ms :: fl
  we_candidate_count :: u32
  we_candidates_offset :: u32

record fac_lpr_plate_result_v1 =
  wp_struct_size :: u32
  wp_abi_version :: u32
  wp_status :: u32
  wp_degraded :: u32
  wp_plate :: fac_lpr_text_ref_v1
  wp_confidence :: fl
  wp_detector_confidence :: fl
  wp_geometry_score :: fl
  wp_crop_quality :: fl
  wp_total_latency_ms :: fl
  wp_has_bbox :: u32
  wp_bbox :: "fl list"                \<comment> \<open>x, y, width, height\<close>
  wp_has_quadrilateral :: u32
  wp_points :: "(fl \<times> fl) list"      \<comment> \<open>four points\<close>
  wp_confidences :: "fl list"         \<comment> \<open>four confidences\<close>
  wp_evidence_count :: u32
  wp_evidence_offset :: u32
  wp_alternatives_count :: u32
  wp_alternatives_offset :: u32
  wp_decision_reason_count :: u32
  wp_decision_reasons_offset :: u32

record fac_lpr_result_v1 =
  wr_struct_size :: u32
  wr_abi_version :: u32
  wr_recognition_count :: u32
  wr_recognitions_offset :: u32
  wr_total_latency_ms :: fl
  wr_degraded :: u32
  wr_provider_failure_count :: u32
  wr_reserved_zero :: u32

definition candidate_words :: "fac_lpr_candidate_v1 \<Rightarrow> u32 list" where
  "candidate_words c = [wc_struct_size c, wc_abi_version c, tx_offset (wc_text c), tx_length (wc_text c),
     fl_bits32 (wc_confidence c), fl_bits32 (wc_calibrated_confidence c), wc_format_valid c, wc_reserved_zero c]"

definition evidence_words :: "fac_lpr_evidence_v1 \<Rightarrow> u32 list" where
  "evidence_words e = [we_struct_size e, we_abi_version e, tx_offset (we_source e), tx_length (we_source e),
     fl_bits32 (we_crop_quality e), fl_bits32 (we_latency_ms e), we_candidate_count e, we_candidates_offset e]"

definition plate_words :: "fac_lpr_plate_result_v1 \<Rightarrow> u32 list" where
  "plate_words p = [wp_struct_size p, wp_abi_version p, wp_status p, wp_degraded p, tx_offset (wp_plate p), tx_length (wp_plate p),
       fl_bits32 (wp_confidence p), fl_bits32 (wp_detector_confidence p), fl_bits32 (wp_geometry_score p),
       fl_bits32 (wp_crop_quality p), fl_bits32 (wp_total_latency_ms p), wp_has_bbox p] @
     map fl_bits32 (wp_bbox p) @ [wp_has_quadrilateral p] @
     concat (map (\<lambda>(x, y). [fl_bits32 x, fl_bits32 y]) (wp_points p)) @ map fl_bits32 (wp_confidences p) @
     [wp_evidence_count p, wp_evidence_offset p, wp_alternatives_count p, wp_alternatives_offset p,
      wp_decision_reason_count p, wp_decision_reasons_offset p]"

definition result_words :: "fac_lpr_result_v1 \<Rightarrow> u32 list" where
  "result_words r = [wr_struct_size r, wr_abi_version r, wr_recognition_count r, wr_recognitions_offset r,
     fl_bits32 (wr_total_latency_ms r), wr_degraded r, wr_provider_failure_count r, wr_reserved_zero r]"

section \<open>Serialization\<close>

definition append_text :: "string \<Rightarrow> fac_lpr_text_ref_v1 writer" where
  "append_text text =
     (if text = [] then wr_return \<lparr>tx_offset = 0, tx_length = 0\<rparr>
      else wr_bind (reserve (length text)) (\<lambda>offset.
           wr_bind (write_bytes offset (text_bytes text)) (\<lambda>_.
           wr_bind (wr_lift (to_u32 (length text) ''text length'')) (\<lambda>len.
           wr_return \<lparr>tx_offset = offset, tx_length = len\<rparr>))))"

text \<open>
  The four loops over an array of records have one shape: serialize the element, then write it
  at its place in the reserved block.
\<close>

fun write_elements :: "('x \<Rightarrow> 'a writer) \<Rightarrow> ('a \<Rightarrow> u32 list) \<Rightarrow> u32 \<Rightarrow> nat \<Rightarrow> nat \<Rightarrow> 'x list \<Rightarrow> unit writer" where
  "write_elements ser words base sz index [] = wr_return ()"
| "write_elements ser words base sz index (x # xs) =
     wr_bind (ser x) (\<lambda>wire.
     wr_bind (wr_lift (element_offset base index sz)) (\<lambda>off.
     wr_bind (wr_write off (words wire)) (\<lambda>_.
     write_elements ser words base sz (Suc index) xs)))"

definition append_array :: "nat \<Rightarrow> string \<Rightarrow> ('x \<Rightarrow> 'a writer) \<Rightarrow> ('a \<Rightarrow> u32 list) \<Rightarrow> 'x list \<Rightarrow> u32 writer" where
  "append_array sz field ser words xs =
     (if xs = [] then wr_return 0
      else wr_bind (wr_lift (checked_array_bytes (length xs) sz field)) (\<lambda>bytes.
           wr_bind (reserve bytes) (\<lambda>offset.
           wr_bind (write_elements ser words offset sz 0 xs) (\<lambda>_. wr_return offset))))"

definition serialize_candidate :: "PlateCandidate \<Rightarrow> fac_lpr_candidate_v1 writer" where
  "serialize_candidate c =
     wr_bind (append_text (cand_text c)) (\<lambda>text.
     wr_bind (wr_lift (probability_float (cand_confidence c) ''candidate confidence'')) (\<lambda>confidence.
     wr_bind (wr_lift (probability_float (cand_calibrated c) ''candidate calibrated confidence'')) (\<lambda>calibrated.
     wr_return \<lparr>wc_struct_size = 32, wc_abi_version = 1, wc_text = text, wc_confidence = confidence,
       wc_calibrated_confidence = calibrated, wc_format_valid = (if cand_format_valid c then 1 else 0),
       wc_reserved_zero = 0\<rparr>)))"

definition append_candidates :: "PlateCandidate list \<Rightarrow> u32 writer" where
  "append_candidates = append_array 32 ''candidate array size'' serialize_candidate candidate_words"

definition serialize_evidence :: "RecognitionEvidence \<Rightarrow> fac_lpr_evidence_v1 writer" where
  "serialize_evidence ev =
     wr_bind (append_candidates (ev_candidates ev)) (\<lambda>candidates_offset.
     wr_bind (append_text (ev_source ev)) (\<lambda>source.
     wr_bind (wr_lift (probability_float (ev_crop_quality ev) ''evidence crop quality'')) (\<lambda>quality.
     wr_bind (wr_lift (latency_to_float (ev_latency_ms ev))) (\<lambda>latency.
     wr_bind (wr_lift (to_u32 (length (ev_candidates ev)) ''evidence candidate count'')) (\<lambda>n.
     wr_return \<lparr>we_struct_size = 32, we_abi_version = 1, we_source = source, we_crop_quality = quality,
       we_latency_ms = latency, we_candidate_count = n, we_candidates_offset = candidates_offset\<rparr>)))))"

definition append_evidence :: "RecognitionEvidence list \<Rightarrow> u32 writer" where
  "append_evidence = append_array 32 ''evidence array size'' serialize_evidence evidence_words"

definition append_reasons :: "RecognitionDecisionReason list \<Rightarrow> u32 writer" where
  "append_reasons = append_array 4 ''decision reason array size'' (\<lambda>r. wr_return (map_reason r)) (\<lambda>w. [w])"

definition wire_bbox :: "BoundingBox option \<Rightarrow> (u32 \<times> fl list) result" where
  "wire_bbox b =
     (case b of None \<Rightarrow> Inr (0, replicate 4 (Fin 0))
      | Some b \<Rightarrow>
          res_bind (finite_float (bb_x b) ''bbox x'') (\<lambda>x.
          res_bind (finite_float (bb_y b) ''bbox y'') (\<lambda>y.
          res_bind (finite_float (bb_width b) ''bbox width'') (\<lambda>w.
          res_bind (finite_float (bb_height b) ''bbox height'') (\<lambda>h. Inr (1, [x, y, w, h]))))))"

definition wire_point :: "PlateQuadrilateral \<Rightarrow> nat \<Rightarrow> ((fl \<times> fl) \<times> fl) result" where
  "wire_point q i =
     res_bind (finite_float (pt_x (quad_points q ! i)) ''quadrilateral x'') (\<lambda>x.
     res_bind (finite_float (pt_y (quad_points q ! i)) ''quadrilateral y'') (\<lambda>y.
     res_bind (probability_float (quad_confidences q ! i) ''quadrilateral confidence'') (\<lambda>c. Inr ((x, y), c))))"

definition wire_quadrilateral :: "PlateQuadrilateral option \<Rightarrow> (u32 \<times> (fl \<times> fl) list \<times> fl list) result" where
  "wire_quadrilateral q =
     (case q of None \<Rightarrow> Inr (0, replicate 4 (Fin 0, Fin 0), replicate 4 (Fin 0))
      | Some q \<Rightarrow> res_bind (res_map_list (wire_point q) [0, 1, 2, 3]) (\<lambda>ps. Inr (1, map fst ps, map snd ps)))"

definition serialize_plate :: "PlateRecognitionResult \<Rightarrow> fac_lpr_plate_result_v1 writer" where
  "serialize_plate r =
     wr_bind (append_text (res_plate r)) (\<lambda>plate.
     wr_bind (wr_lift (probability_float (res_confidence r) ''recognition confidence'')) (\<lambda>confidence.
     wr_bind (wr_lift (probability_float (res_detector_confidence r) ''detector confidence'')) (\<lambda>detector.
     wr_bind (wr_lift (probability_float (res_geometry_score r) ''geometry score'')) (\<lambda>geometry.
     wr_bind (wr_lift (probability_float (res_crop_quality r) ''crop quality'')) (\<lambda>quality.
     wr_bind (wr_lift (latency_to_float (res_total_latency_ms r))) (\<lambda>latency.
     wr_bind (wr_lift (wire_bbox (res_bbox r))) (\<lambda>(has_bbox, bbox).
     wr_bind (wr_lift (wire_quadrilateral (res_quadrilateral r))) (\<lambda>(has_quad, points, confidences).
     wr_bind (wr_lift (to_u32 (length (res_evidence r)) ''evidence count'')) (\<lambda>evidence_count.
     wr_bind (append_evidence (res_evidence r)) (\<lambda>evidence_offset.
     wr_bind (wr_lift (to_u32 (length (res_alternatives r)) ''alternative count'')) (\<lambda>alternatives_count.
     wr_bind (append_candidates (res_alternatives r)) (\<lambda>alternatives_offset.
     wr_bind (wr_lift (to_u32 (length (res_decision_reasons r)) ''decision reason count'')) (\<lambda>reason_count.
     wr_bind (append_reasons (res_decision_reasons r)) (\<lambda>reasons_offset.
     wr_return \<lparr>wp_struct_size = 140, wp_abi_version = 1, wp_status = map_status (res_status r),
       wp_degraded = (if res_degraded r then 1 else 0), wp_plate = plate, wp_confidence = confidence,
       wp_detector_confidence = detector, wp_geometry_score = geometry, wp_crop_quality = quality,
       wp_total_latency_ms = latency, wp_has_bbox = has_bbox, wp_bbox = bbox, wp_has_quadrilateral = has_quad,
       wp_points = points, wp_confidences = confidences, wp_evidence_count = evidence_count,
       wp_evidence_offset = evidence_offset, wp_alternatives_count = alternatives_count,
       wp_alternatives_offset = alternatives_offset, wp_decision_reason_count = reason_count,
       wp_decision_reasons_offset = reasons_offset\<rparr>))))))))))))))"

definition serialize_body :: "LprPipelineResult \<Rightarrow> nat writer" where
  "serialize_body r =
     wr_bind (reserve 32) (\<lambda>root_offset.
     wr_bind (wr_lift (if root_offset \<noteq> 0 then Inl (InternalError ''v1 result root must start at buffer offset zero'') else Inr ())) (\<lambda>_.
     wr_bind (append_array 140 ''recognition array size'' serialize_plate plate_words (lpr_recognitions r)) (\<lambda>recognitions_offset.
     wr_bind (wr_lift (to_u32 (length (lpr_recognitions r)) ''recognition count'')) (\<lambda>n.
     wr_bind (wr_lift (latency_to_float (lpr_total_latency_ms r))) (\<lambda>latency.
     wr_bind (wr_lift (to_u32 (lpr_provider_failure_count r) ''provider failure count'')) (\<lambda>failures.
     wr_bind (wr_write root_offset (result_words \<lparr>wr_struct_size = 32, wr_abi_version = 1, wr_recognition_count = n,
         wr_recognitions_offset = recognitions_offset, wr_total_latency_ms = latency,
         wr_degraded = (if lpr_degraded r then 1 else 0), wr_provider_failure_count = failures, wr_reserved_zero = 0\<rparr>)) (\<lambda>_.
     (\<lambda>w. Inr (bw_position w, w)))))))))"

text \<open>The size reported, and the buffer with what was written; no buffer is \<open>nullptr\<close>.\<close>

definition serialize_impl :: "LprPipelineResult \<Rightarrow> byte list option \<Rightarrow> nat \<Rightarrow> (nat \<times> byte list option) result" where
  "serialize_impl r output_buffer output_capacity =
     res_bind (serialize_body r \<lparr>bw_bytes = output_buffer, bw_capacity = output_capacity, bw_position = 0\<rparr>)
       (\<lambda>(n, w). Inr (n, bw_bytes w))"

section \<open>The boundary\<close>

datatype fac_lpr_status =
  FAC_LPR_STATUS_OK | FAC_LPR_STATUS_CONFIGURATION_ERROR | FAC_LPR_STATUS_MODEL_LOAD_ERROR
  | FAC_LPR_STATUS_INFERENCE_ERROR | FAC_LPR_STATUS_INVALID_IMAGE | FAC_LPR_STATUS_PROVIDER_ERROR
  | FAC_LPR_STATUS_CANCELLED | FAC_LPR_STATUS_TIMEOUT | FAC_LPR_STATUS_RESOURCE_EXHAUSTED
  | FAC_LPR_STATUS_INTERNAL_ERROR | FAC_LPR_STATUS_BUFFER_TOO_SMALL

definition to_c_status :: "EngineErrorCode \<Rightarrow> fac_lpr_status" where
  "to_c_status c =
     (case c of configuration \<Rightarrow> FAC_LPR_STATUS_CONFIGURATION_ERROR | model_load \<Rightarrow> FAC_LPR_STATUS_MODEL_LOAD_ERROR
      | inference \<Rightarrow> FAC_LPR_STATUS_INFERENCE_ERROR | invalid_image \<Rightarrow> FAC_LPR_STATUS_INVALID_IMAGE
      | provider \<Rightarrow> FAC_LPR_STATUS_PROVIDER_ERROR | cancelled \<Rightarrow> FAC_LPR_STATUS_CANCELLED
      | timeout \<Rightarrow> FAC_LPR_STATUS_TIMEOUT | resource_exhausted \<Rightarrow> FAC_LPR_STATUS_RESOURCE_EXHAUSTED
      | internal \<Rightarrow> FAC_LPR_STATUS_INTERNAL_ERROR)"

text \<open>The three catch clauses of the C boundary.\<close>

definition caught_status :: "exn \<Rightarrow> fac_lpr_status" where
  "caught_status e = (case e of EngineError c _ \<Rightarrow> to_c_status c | BadAlloc \<Rightarrow> FAC_LPR_STATUS_RESOURCE_EXHAUSTED
     | _ \<Rightarrow> FAC_LPR_STATUS_INTERNAL_ERROR)"

text \<open>The caller's buffer: its address and its bytes, as many as \<open>output_capacity\<close> says.\<close>

record OutputBuffer =
  ob_address :: nat
  ob_bytes :: "byte list"

text \<open>
  The status, the value stored through \<open>required_output_size\<close> (none if that pointer is null) and the
  buffer's bytes afterwards. If the second pass threw, the bytes would be partly written;
  \<open>serialize_result_never_internal\<close> shows that it cannot throw.
\<close>

definition serialize_result_v1 :: "LprPipelineResult \<Rightarrow> OutputBuffer option \<Rightarrow> bool \<Rightarrow>
    fac_lpr_status \<times> nat option \<times> byte list option" where
  "serialize_result_v1 r output_buffer has_required =
     (let bytes = map_option ob_bytes output_buffer in
      if \<not> has_required then (FAC_LPR_STATUS_CONFIGURATION_ERROR, None, bytes)
      else case serialize_impl r None 0 of
        Inl e \<Rightarrow> (caught_status e, Some 0, bytes)
      | Inr (required, _) \<Rightarrow>
          (case output_buffer of
             None \<Rightarrow> (FAC_LPR_STATUS_BUFFER_TOO_SMALL, Some required, bytes)
           | Some b \<Rightarrow>
               if length (ob_bytes b) < required then (FAC_LPR_STATUS_BUFFER_TOO_SMALL, Some required, bytes)
               else if ob_address b mod 4 \<noteq> 0 then (FAC_LPR_STATUS_CONFIGURATION_ERROR, Some required, bytes)
               else (case serialize_impl r (Some (ob_bytes b)) (length (ob_bytes b)) of
                   Inl e \<Rightarrow> (caught_status e, Some required, bytes)
                 | Inr (written, mem) \<Rightarrow>
                     (if written = required then FAC_LPR_STATUS_OK else FAC_LPR_STATUS_INTERNAL_ERROR, Some required, mem))))"

section \<open>A reader of the buffer\<close>

text \<open>
  What the contract of the header lets a caller read: each record at its offset, sizes and versions
  checked, text as a slice, arrays as \<open>count\<close> records from an offset.
\<close>

definition record_ok :: "byte list \<Rightarrow> nat \<Rightarrow> nat \<Rightarrow> bool" where
  "record_ok mem off sz = (off + sz \<le> length mem \<and> unat (read_u32 mem off) = sz \<and> read_u32 mem (off + 4) = 1)"

definition read_text :: "byte list \<Rightarrow> nat \<Rightarrow> string" where
  "read_text mem off = bytes_text (slice mem (unat (read_u32 mem off)) (unat (read_u32 mem (off + 4))))"

definition read_fl :: "byte list \<Rightarrow> nat \<Rightarrow> fl" where
  "read_fl mem off = fl_of_bits32 (read_u32 mem off)"

definition read_array :: "nat \<Rightarrow> (byte list \<Rightarrow> nat \<Rightarrow> 'a option) \<Rightarrow> byte list \<Rightarrow> u32 \<Rightarrow> u32 \<Rightarrow> 'a list option" where
  "read_array sz rd mem n off = those (map (\<lambda>i. rd mem (unat off + sz * i)) [0..<unat n])"

definition read_candidate :: "byte list \<Rightarrow> nat \<Rightarrow> PlateCandidate option" where
  "read_candidate mem off =
     (if record_ok mem off 32
      then Some \<lparr>cand_text = read_text mem (off + 8), cand_confidence = read_fl mem (off + 16),
        cand_calibrated = read_fl mem (off + 20), cand_format_valid = (read_u32 mem (off + 24) \<noteq> 0)\<rparr>
      else None)"

definition read_evidence :: "byte list \<Rightarrow> nat \<Rightarrow> RecognitionEvidence option" where
  "read_evidence mem off =
     (if record_ok mem off 32
      then map_option (\<lambda>cs. \<lparr>ev_source = read_text mem (off + 8), ev_candidates = cs,
          ev_crop_quality = read_fl mem (off + 16), ev_latency_ms = read_fl mem (off + 20)\<rparr>)
        (read_array 32 read_candidate mem (read_u32 mem (off + 24)) (read_u32 mem (off + 28)))
      else None)"

definition status_of_wire :: "u32 \<Rightarrow> RecognitionStatus option" where
  "status_of_wire w = (if w = 0 then Some Accepted else if w = 1 then Some Review else if w = 2 then Some Rejected else None)"

definition reason_of_wire :: "u32 \<Rightarrow> RecognitionDecisionReason option" where
  "reason_of_wire w =
     map_of [(0, accepted_consensus), (1, fatal_provider_failure), (2, degraded_provider_set),
       (3, detector_confidence_below_minimum), (4, geometry_below_minimum), (5, crop_quality_below_minimum),
       (6, no_valid_candidate), (7, candidate_confidence_below_review),
       (8, candidate_confidence_below_accept), (9, conflicting_strong_candidates)] w"

definition read_reason :: "byte list \<Rightarrow> nat \<Rightarrow> RecognitionDecisionReason option" where
  "read_reason mem off = reason_of_wire (read_u32 mem off)"

definition read_bbox :: "byte list \<Rightarrow> nat \<Rightarrow> BoundingBox option" where
  "read_bbox mem off =
     (if read_u32 mem off = 0 then None
      else Some \<lparr>bb_x = read_fl mem (off + 4), bb_y = read_fl mem (off + 8), bb_width = read_fl mem (off + 12),
        bb_height = read_fl mem (off + 16)\<rparr>)"

definition read_quadrilateral :: "byte list \<Rightarrow> nat \<Rightarrow> PlateQuadrilateral option" where
  "read_quadrilateral mem off =
     (if read_u32 mem off = 0 then None
      else Some \<lparr>quad_points = map (\<lambda>i. \<lparr>pt_x = read_fl mem (off + 4 + 8 * i), pt_y = read_fl mem (off + 8 + 8 * i)\<rparr>) [0..<4],
        quad_confidences = map (\<lambda>i. read_fl mem (off + 36 + 4 * i)) [0..<4]\<rparr>)"

definition read_plate :: "byte list \<Rightarrow> nat \<Rightarrow> PlateRecognitionResult option" where
  "read_plate mem off =
     (case (record_ok mem off 140, status_of_wire (read_u32 mem (off + 8)),
            read_array 32 read_evidence mem (read_u32 mem (off + 116)) (read_u32 mem (off + 120)),
            read_array 32 read_candidate mem (read_u32 mem (off + 124)) (read_u32 mem (off + 128)),
            read_array 4 read_reason mem (read_u32 mem (off + 132)) (read_u32 mem (off + 136))) of
        (True, Some status, Some evidence, Some alternatives, Some reasons) \<Rightarrow>
          Some \<lparr>res_status = status, res_plate = read_text mem (off + 16), res_confidence = read_fl mem (off + 24),
            res_bbox = read_bbox mem (off + 44), res_quadrilateral = read_quadrilateral mem (off + 64),
            res_detector_confidence = read_fl mem (off + 28), res_geometry_score = read_fl mem (off + 32),
            res_crop_quality = read_fl mem (off + 36), res_evidence = evidence, res_alternatives = alternatives,
            res_decision_reasons = reasons, res_degraded = (read_u32 mem (off + 12) \<noteq> 0),
            res_total_latency_ms = read_fl mem (off + 40)\<rparr>
      | _ \<Rightarrow> None)"

text \<open>The recognitions, the total latency, the degraded flag and the number of failures.\<close>

definition read_result :: "byte list \<Rightarrow> (PlateRecognitionResult list \<times> fl \<times> bool \<times> nat) option" where
  "read_result mem =
     (if record_ok mem 0 32
      then map_option (\<lambda>recs. (recs, read_fl mem 16, read_u32 mem 20 \<noteq> 0, unat (read_u32 mem 24)))
        (read_array 140 read_plate mem (read_u32 mem 8) (read_u32 mem 12))
      else None)"

section \<open>Blocks\<close>

text \<open>
  A writer is a block if, whenever it runs without a buffer, it also runs on every buffer that is
  long enough, gives the same value and position, changes only the bytes between the two positions,
  and leaves bytes there from which \<open>R\<close> follows, whatever is written elsewhere later.
\<close>

definition dry :: "nat \<Rightarrow> BufferWriter" where
  "dry p = \<lparr>bw_bytes = None, bw_capacity = 0, bw_position = p\<rparr>"

definition onto :: "byte list \<Rightarrow> nat \<Rightarrow> BufferWriter" where
  "onto mem p = \<lparr>bw_bytes = Some mem, bw_capacity = length mem, bw_position = p\<rparr>"

definition block :: "'a writer \<Rightarrow> ('a \<Rightarrow> byte list \<Rightarrow> bool) \<Rightarrow> bool" where
  "block m R \<longleftrightarrow> (\<forall>p a w. m (dry p) = Inr (a, w) \<longrightarrow>
     (\<exists>p'. w = dry p' \<and> p \<le> p' \<and> (\<forall>mem. p' \<le> length mem \<longrightarrow>
       (\<exists>mem'. m (onto mem p) = Inr (a, onto mem' p') \<and> agree (- {p..<p'}) mem mem' \<and>
         (\<forall>mem''. agree {p..<p'} mem' mem'' \<longrightarrow> R a mem'')))))"

lemma dry_simps [simp]: "bw_bytes (dry p) = None" "bw_position (dry p) = p" "(dry p)\<lparr>bw_position := q\<rparr> = dry q"
  by (simp_all add: dry_def)

lemma onto_simps [simp]: "bw_bytes (onto mem p) = Some mem" "bw_capacity (onto mem p) = length mem"
  "bw_position (onto mem p) = p" "(onto mem p)\<lparr>bw_position := q\<rparr> = onto mem q"
  "length mem' = length mem \<Longrightarrow> (onto mem p)\<lparr>bw_bytes := Some mem'\<rparr> = onto mem' p"
  by (simp_all add: onto_def)

lemma blockI:
  assumes "\<And>p a w. m (dry p) = Inr (a, w) \<Longrightarrow> \<exists>p'. w = dry p' \<and> p \<le> p' \<and> (\<forall>mem. p' \<le> length mem \<longrightarrow>
       (\<exists>mem'. m (onto mem p) = Inr (a, onto mem' p') \<and> agree (- {p..<p'}) mem mem' \<and>
         (\<forall>mem''. agree {p..<p'} mem' mem'' \<longrightarrow> R a mem'')))"
  shows "block m R"
  using assms unfolding block_def by blast

lemma blockE:
  assumes "block m R" and "m (dry p) = Inr (a, w)"
  obtains p' where "w = dry p'" and "p \<le> p'"
    and "\<And>mem. p' \<le> length mem \<Longrightarrow> \<exists>mem'. m (onto mem p) = Inr (a, onto mem' p') \<and> agree (- {p..<p'}) mem mem' \<and>
         (\<forall>mem''. agree {p..<p'} mem' mem'' \<longrightarrow> R a mem'')"
  using assms unfolding block_def by blast

text \<open>Writers that only compute a value.\<close>

lemma block_pure:
  assumes "\<And>w0 a w. m w0 = Inr (a, w) \<Longrightarrow> w = w0 \<and> P a \<and> (\<forall>v. m v = Inr (a, v))"
  shows "block m (\<lambda>a _. P a)"
proof (rule blockI)
  fix p a w
  assume "m (dry p) = Inr (a, w)"
  from assms [OF this] have "w = dry p" "P a" "\<And>mem. m (onto mem p) = Inr (a, onto mem p)" by blast+
  then show "\<exists>p'. w = dry p' \<and> p \<le> p' \<and> (\<forall>mem. p' \<le> length mem \<longrightarrow>
       (\<exists>mem'. m (onto mem p) = Inr (a, onto mem' p') \<and> agree (- {p..<p'}) mem mem' \<and>
         (\<forall>mem''. agree {p..<p'} mem' mem'' \<longrightarrow> P a)))"
    by (intro exI [of _ p]) (meson agree_refl order_refl)
qed

lemma block_return: "block (wr_return a) (\<lambda>b _. b = a)"
  by (rule block_pure) (auto simp: wr_return_def)

lemma block_lift: "block (wr_lift r) (\<lambda>b _. r = Inr b)"
  by (rule block_pure) (auto simp: wr_lift_def res_bind_eq_Inr)

lemma wr_bindE:
  assumes "wr_bind m f w = Inr (b, w')"
  obtains a v where "m w = Inr (a, v)" and "f a v = Inr (b, w')"
  using assms by (auto simp: wr_bind_def res_bind_eq_Inr)

lemma block_bind:
  assumes "block m R" and "\<And>a. block (f a) (S a)"
  shows "block (wr_bind m f) (\<lambda>b mem. \<exists>a. R a mem \<and> S a b mem)"
proof (rule blockI)
  fix p b w
  assume "wr_bind m f (dry p) = Inr (b, w)"
  then obtain a v where a: "m (dry p) = Inr (a, v)" and b: "f a v = Inr (b, w)"
    by (auto simp: wr_bind_def res_bind_eq_Inr)
  from a obtain q where q: "v = dry q" "p \<le> q"
    "\<And>mem. q \<le> length mem \<Longrightarrow> \<exists>mem'. m (onto mem p) = Inr (a, onto mem' q) \<and> agree (- {p..<q}) mem mem' \<and>
         (\<forall>mem''. agree {p..<q} mem' mem'' \<longrightarrow> R a mem'')" by (rule blockE [OF assms(1)]) blast
  from b obtain r where r: "w = dry r" "q \<le> r"
    "\<And>mem. r \<le> length mem \<Longrightarrow> \<exists>mem'. f a (onto mem q) = Inr (b, onto mem' r) \<and> agree (- {q..<r}) mem mem' \<and>
         (\<forall>mem''. agree {q..<r} mem' mem'' \<longrightarrow> S a b mem'')" unfolding q(1) by (rule blockE [OF assms(2)]) blast
  have "\<exists>mem'. wr_bind m f (onto mem p) = Inr (b, onto mem' r) \<and> agree (- {p..<r}) mem mem' \<and>
         (\<forall>mem''. agree {p..<r} mem' mem'' \<longrightarrow> (\<exists>a. R a mem'' \<and> S a b mem''))" if "r \<le> length mem" for mem
  proof -
    obtain m1 where m1: "m (onto mem p) = Inr (a, onto m1 q)" "agree (- {p..<q}) mem m1"
      "\<And>mem''. agree {p..<q} m1 mem'' \<Longrightarrow> R a mem''" using q(3) [of mem] r(2) \<open>r \<le> length mem\<close> by auto
    obtain m2 where m2: "f a (onto m1 q) = Inr (b, onto m2 r)" "agree (- {q..<r}) m1 m2"
      "\<And>mem''. agree {q..<r} m2 mem'' \<Longrightarrow> S a b mem''"
      using r(3) [of m1] \<open>r \<le> length mem\<close> agree_length [OF m1(2)] by auto
    have "wr_bind m f (onto mem p) = Inr (b, onto m2 r)" using m1(1) m2(1) by (simp add: wr_bind_def)
    moreover have "agree (- {p..<r}) mem m2" by (rule agree_trans [OF m1(2) m2(2)]) (use q(2) r(2) in auto)
    moreover have "R a mem''" "S a b mem''" if g: "agree {p..<r} m2 mem''" for mem''
    proof -
      show "R a mem''" by (rule m1(3), rule agree_trans [OF m2(2) g]) (use r(2) in auto)
      show "S a b mem''" by (rule m2(3), rule agree_mono [OF g]) (use q(2) in auto)
    qed
    ultimately show ?thesis by blast
  qed
  then show "\<exists>p'. w = dry p' \<and> p \<le> p' \<and> (\<forall>mem. p' \<le> length mem \<longrightarrow>
       (\<exists>mem'. wr_bind m f (onto mem p) = Inr (b, onto mem' p') \<and> agree (- {p..<p'}) mem mem' \<and>
         (\<forall>mem''. agree {p..<p'} mem' mem'' \<longrightarrow> (\<exists>a. R a mem'' \<and> S a b mem''))))"
    using q(2) r(1,2) by (intro exI [of _ r]) auto
qed

lemma block_weaken: "block m R \<Longrightarrow> (\<And>a mem. R a mem \<Longrightarrow> R' a mem) \<Longrightarrow> block m R'"
  unfolding block_def by (elim all_forward imp_forward ex_forward conj_forward) (assumption | blast)+

section \<open>Text and arrays are blocks\<close>

lemma reserve_dry:
  assumes "reserve n (dry p) = Inr (off, w)"
  shows "w = dry (unat off + n)" and "p \<le> unat off"
    and "\<And>mem. unat off + n \<le> length mem \<Longrightarrow> reserve n (onto mem p) = Inr (off, onto mem (unat off + n))"
    and "p = 0 \<Longrightarrow> off = 0" and "n < 2 ^ 32"
proof -
  from assms obtain a where a: "align_position p = Inr a" "\<not> n > 2 ^ 64 - 1 - a" "\<not> a + n > max_result_bytes"
    "\<not> a + n > 2 ^ 32 - 1" "off = of_nat a" "w = dry (a + n)"
    by (auto simp: reserve_def res_bind_eq_Inr split: if_splits)
  have "a < 2 ^ LENGTH(32)" using a(4) by simp
  then have u: "unat off = a" by (simp add: a(5) unat_of_nat)
  have "p \<le> a" "p = 0 \<Longrightarrow> a = 0" using a(1) by (auto simp: align_position_def Let_def split: if_splits)
  moreover have "reserve n (onto mem p) = Inr (off, onto mem (a + n))" if "a + n \<le> length mem" for mem
    using a that by (simp add: reserve_def)
  ultimately show "w = dry (unat off + n)" "p \<le> unat off" "p = 0 \<Longrightarrow> off = 0" "n < 2 ^ 32"
    "\<And>mem. unat off + n \<le> length mem \<Longrightarrow> reserve n (onto mem p) = Inr (off, onto mem (unat off + n))"
    using u a(4,5,6) by simp_all
qed

lemma block_text:
  "block (append_text text) (\<lambda>r mem. bytes_text (slice mem (unat (tx_offset r)) (unat (tx_length r))) = text)"
proof (rule blockI)
  fix p r w
  assume run: "append_text text (dry p) = Inr (r, w)"
  show "\<exists>p'. w = dry p' \<and> p \<le> p' \<and> (\<forall>mem. p' \<le> length mem \<longrightarrow>
       (\<exists>mem'. append_text text (onto mem p) = Inr (r, onto mem' p') \<and> agree (- {p..<p'}) mem mem' \<and>
         (\<forall>mem''. agree {p..<p'} mem' mem'' \<longrightarrow>
           bytes_text (slice mem'' (unat (tx_offset r)) (unat (tx_length r))) = text)))"
  proof (cases "text = []")
    case True
    with run have "r = \<lparr>tx_offset = 0, tx_length = 0\<rparr>" "w = dry p" by (simp_all add: append_text_def wr_return_def)
    then show ?thesis using True
      by (intro exI [of _ p]) (auto simp: append_text_def wr_return_def slice_def bytes_text_def intro!: exI [of _ "_ :: byte list"])
  next
    case False
    with run obtain off v where v: "reserve (length text) (dry p) = Inr (off, v)"
      and more: "wr_bind (write_bytes off (text_bytes text)) (\<lambda>_. wr_bind (wr_lift (to_u32 (length text) ''text length''))
         (\<lambda>len. wr_return \<lparr>tx_offset = off, tx_length = len\<rparr>)) v = Inr (r, w)"
      unfolding append_text_def if_not_P [OF False] by (elim wr_bindE [of "reserve _"]) (rule that)
    note d = reserve_dry(1,2,5) [OF v] and real = reserve_dry(3) [OF v]
    have "bw_bytes v = None" using d(1) by simp
    with more obtain len where len: "to_u32 (length text) ''text length'' = Inr len"
      and r: "r = \<lparr>tx_offset = off, tx_length = len\<rparr>" and w: "w = v"
      by (auto simp: wr_bind_def wr_lift_def wr_return_def write_bytes_def res_bind_eq_Inr)
    have ulen: "unat len = length text" using len d(3) by (auto simp: to_u32_def unat_of_nat split: if_splits)
    let ?p' = "unat off + length text"
    have "\<exists>mem'. append_text text (onto mem p) = Inr (r, onto mem' ?p') \<and> agree (- {p..<?p'}) mem mem' \<and>
         (\<forall>mem''. agree {p..<?p'} mem' mem'' \<longrightarrow> bytes_text (slice mem'' (unat (tx_offset r)) (unat (tx_length r))) = text)"
      if l: "?p' \<le> length mem" for mem
    proof -
      note st = store_props [of "unat off" "text_bytes text" mem, unfolded length_text_bytes, OF l]
      let ?m = "store mem (unat off) (text_bytes text)"
      have "append_text text (onto mem p) = Inr (r, onto ?m ?p')"
        using False l real [OF l] len st(1)
        by (simp add: append_text_def wr_bind_def wr_lift_def wr_return_def write_bytes_def r text_bytes_def)
      moreover have "agree (- {p..<?p'}) mem ?m" by (rule agree_mono [OF st(2)]) (use d(2) in auto)
      moreover have "bytes_text (slice mem'' (unat (tx_offset r)) (unat (tx_length r))) = text"
        if g: "agree {p..<?p'} ?m mem''" for mem''
      proof -
        have "slice ?m (unat off) (length text) = slice mem'' (unat off) (length text)"
          by (rule agree_slice [OF g]) (use d(2) in auto)
        with st(3) have "slice mem'' (unat off) (length text) = text_bytes text" by metis
        then show ?thesis by (simp add: r ulen text_bytes_inverse)
      qed
      ultimately show ?thesis by blast
    qed
    then show ?thesis using d(1,2) w by (intro exI [of _ ?p']) simp
  qed
qed

lemma element_offset_Inr:
  "element_offset base i sz = Inr off \<Longrightarrow> unat off = unat base + sz * i"
  by (auto simp: element_offset_def checked_array_bytes_def to_u32_def unat_of_nat res_bind_eq_Inr mult.commute
      simp del: of_nat_add of_nat_mult split: if_splits)

lemma write_elements_run:
  assumes "\<forall>x \<in> set xs. block (ser x) (R x)"
    and "\<forall>x a mem. R x a mem \<longrightarrow> 4 * length (words a) = sz"
    and "write_elements ser words base sz i xs (dry p) = Inr (u, w)"
    and "unat base + sz * (i + length xs) \<le> p"
  shows "\<exists>p'. w = dry p' \<and> p \<le> p' \<and> (\<forall>mem. p' \<le> length mem \<longrightarrow>
     (\<exists>mem'. write_elements ser words base sz i xs (onto mem p) = Inr (u, onto mem' p') \<and>
        agree (- ({p..<p'} \<union> {unat base + sz * i..<unat base + sz * (i + length xs)})) mem mem' \<and>
        (\<forall>mem''. agree ({p..<p'} \<union> {unat base + sz * i..<unat base + sz * (i + length xs)}) mem' mem'' \<longrightarrow>
          (\<forall>k < length xs. \<exists>a. R (xs ! k) a mem'' \<and> slice mem'' (unat base + sz * (i + k)) sz = words_bytes (words a)))))"
  using assms
proof (induction xs arbitrary: i p)
  case Nil
  then have "u = ()" "w = dry p" by (simp_all add: wr_return_def)
  then show ?case by (intro exI [of _ p]) (auto simp: wr_return_def intro!: exI [of _ "_ :: byte list"])
next
  case (Cons x xs)
  define s0 where "s0 = unat base + sz * i"
  define s2 where "s2 = unat base + sz * (i + length (x # xs))"
  have s1: "unat base + sz * Suc i = s0 + sz" by (simp add: s0_def)
  have s2': "unat base + sz * (Suc i + length xs) = s2" by (simp add: s2_def)
  have le: "s0 + sz \<le> s2" "s2 \<le> p" using Cons.prems(4) by (simp_all add: s0_def s2_def algebra_simps)
  from Cons.prems(3) obtain a v where a: "ser x (dry p) = Inr (a, v)"
    and rest0: "wr_bind (wr_lift (element_offset base i sz)) (\<lambda>off. wr_bind (wr_write off (words a)) (\<lambda>_.
       write_elements ser words base sz (Suc i) xs)) v = Inr (u, w)"
    unfolding write_elements.simps by (elim wr_bindE [of "ser x"]) (rule that)
  have bx: "block (ser x) (R x)" using Cons.prems(1) by simp
  obtain q where q: "v = dry q" "p \<le> q"
    "\<And>mem. q \<le> length mem \<Longrightarrow> \<exists>mem'. ser x (onto mem p) = Inr (a, onto mem' q) \<and> agree (- {p..<q}) mem mem' \<and>
         (\<forall>mem''. agree {p..<q} mem' mem'' \<longrightarrow> R x a mem'')"
    by (rule blockE [OF bx a]) (rule that)
  from rest0 obtain off where off: "element_offset base i sz = Inr off"
    and rest: "write_elements ser words base sz (Suc i) xs (dry q) = Inr (u, w)"
    by (auto simp: q(1) wr_bind_def wr_lift_def wr_write_def res_bind_eq_Inr)
  have uoff: "unat off = s0" using element_offset_Inr [OF off] by (simp add: s0_def)
  have "\<forall>x \<in> set xs. block (ser x) (R x)" using Cons.prems(1) by simp
  from Cons.IH [OF this Cons.prems(2) rest] obtain r where r: "w = dry r" "q \<le> r"
    "\<And>mem. r \<le> length mem \<Longrightarrow>
     (\<exists>mem'. write_elements ser words base sz (Suc i) xs (onto mem q) = Inr (u, onto mem' r) \<and>
        agree (- ({q..<r} \<union> {s0 + sz..<s2})) mem mem' \<and>
        (\<forall>mem''. agree ({q..<r} \<union> {s0 + sz..<s2}) mem' mem'' \<longrightarrow>
          (\<forall>k < length xs. \<exists>a. R (xs ! k) a mem'' \<and> slice mem'' (unat base + sz * (Suc i + k)) sz = words_bytes (words a))))"
    unfolding s1 s2' using le q(2) by auto
  have "\<exists>mem'. write_elements ser words base sz i (x # xs) (onto mem p) = Inr (u, onto mem' r) \<and>
        agree (- ({p..<r} \<union> {s0..<s2})) mem mem' \<and>
        (\<forall>mem''. agree ({p..<r} \<union> {s0..<s2}) mem' mem'' \<longrightarrow>
          (\<forall>k < length (x # xs). \<exists>a. R ((x # xs) ! k) a mem'' \<and> slice mem'' (unat base + sz * (i + k)) sz = words_bytes (words a)))"
    if l: "r \<le> length mem" for mem
  proof -
    obtain m1 where m1: "ser x (onto mem p) = Inr (a, onto m1 q)" "agree (- {p..<q}) mem m1"
      "\<And>mem''. agree {p..<q} m1 mem'' \<Longrightarrow> R x a mem''" using q(3) [of mem] r(2) l by auto
    have len: "length (words_bytes (words a)) = sz" using Cons.prems(2) m1(3) [OF agree_refl] length_words_bytes by metis
    have l1: "s0 + length (words_bytes (words a)) \<le> length m1" using le q(2) r(2) l agree_length [OF m1(2)] len by simp
    define m2 where "m2 = store m1 s0 (words_bytes (words a))"
    note m2 = store_props [OF l1, folded m2_def, unfolded len]
    obtain m3 where m3: "write_elements ser words base sz (Suc i) xs (onto m2 q) = Inr (u, onto m3 r)"
        "agree (- ({q..<r} \<union> {s0 + sz..<s2})) m2 m3"
        "\<And>mem''. agree ({q..<r} \<union> {s0 + sz..<s2}) m3 mem'' \<Longrightarrow>
          (\<forall>k < length xs. \<exists>a. R (xs ! k) a mem'' \<and> slice mem'' (unat base + sz * (Suc i + k)) sz = words_bytes (words a))"
      using r(3) [of m2] l agree_length [OF m1(2)] m2(1) by auto
    have "wr_write off (words a) (onto m1 q) = Inr ((), onto m2 q)"
      using l1 m2(1) by (simp add: wr_write_def uoff m2_def)
    then have "write_elements ser words base sz i (x # xs) (onto mem p) = Inr (u, onto m3 r)"
      using m1(1) m3(1) off by (simp add: wr_bind_def wr_lift_def)
    moreover have "agree (- ({p..<r} \<union> {s0..<s2})) m1 m3"
      by (rule agree_trans [OF m2(2) m3(2)]) (use le q(2) in auto)
    then have "agree (- ({p..<r} \<union> {s0..<s2})) mem m3"
      by (rule agree_trans [OF m1(2)]) (use r(2) in auto)
    moreover have "\<exists>a. R ((x # xs) ! k) a mem'' \<and> slice mem'' (unat base + sz * (i + k)) sz = words_bytes (words a)"
      if g: "agree ({p..<r} \<union> {s0..<s2}) m3 mem''" and k: "k < length (x # xs)" for mem'' k
    proof (cases k)
      case 0
      have "agree {p..<q} m1 m3" by (rule agree_trans [OF m2(2) m3(2)]) (use le q(2) in auto)
      then have "agree {p..<q} m1 mem''" by (rule agree_trans [OF _ g]) (use r(2) in auto)
      then have "R x a mem''" by (rule m1(3))
      moreover have "agree {s0..<s0 + sz} m2 mem''" by (rule agree_trans [OF m3(2) g]) (use le q(2) in auto)
      then have "slice m2 s0 sz = slice mem'' s0 sz" by (rule agree_slice) simp
      ultimately show ?thesis using m2(3) 0 by (auto simp: s0_def)
    next
      case (Suc j)
      have "agree ({q..<r} \<union> {s0 + sz..<s2}) m3 mem''" by (rule agree_mono [OF g]) (use q(2) in auto)
      from m3(3) [OF this] Suc k show ?thesis by simp
    qed
    ultimately show ?thesis by blast
  qed
  then show ?case using q(2) r(1,2) unfolding s0_def s2_def by (intro exI [of _ r]) auto
qed

lemma block_array:
  assumes "\<forall>x \<in> set xs. block (ser x) (R x)"
    and "\<forall>x a mem. R x a mem \<longrightarrow> 4 * length (words a) = sz"
  shows "block (append_array sz field ser words xs) (\<lambda>off mem. \<forall>k < length xs. \<exists>a. R (xs ! k) a mem \<and>
     slice mem (unat off + sz * k) sz = words_bytes (words a))"
proof (rule blockI)
  fix p off w
  assume run: "append_array sz field ser words xs (dry p) = Inr (off, w)"
  show "\<exists>p'. w = dry p' \<and> p \<le> p' \<and> (\<forall>mem. p' \<le> length mem \<longrightarrow>
       (\<exists>mem'. append_array sz field ser words xs (onto mem p) = Inr (off, onto mem' p') \<and> agree (- {p..<p'}) mem mem' \<and>
         (\<forall>mem''. agree {p..<p'} mem' mem'' \<longrightarrow> (\<forall>k < length xs. \<exists>a. R (xs ! k) a mem'' \<and>
           slice mem'' (unat off + sz * k) sz = words_bytes (words a)))))"
  proof (cases "xs = []")
    case True
    with run have "off = 0" "w = dry p" by (simp_all add: append_array_def wr_return_def)
    then show ?thesis using True
      by (intro exI [of _ p]) (auto simp: append_array_def wr_return_def intro!: exI [of _ "_ :: byte list"])
  next
    case False
    from run False obtain bytes v where b: "checked_array_bytes (length xs) sz field = Inr bytes"
      and v: "reserve bytes (dry p) = Inr (off, v)" and rest: "write_elements ser words off sz 0 xs v = Inr ((), w)"
      by (auto simp: append_array_def wr_bind_def wr_lift_def wr_return_def res_bind_eq_Inr)
    from b have bytes: "bytes = sz * length xs" by (auto simp: checked_array_bytes_def split: if_splits)
    note d = reserve_dry(1,2) [OF v] and real = reserve_dry(3) [OF v]
    let ?q = "unat off + sz * length xs"
    from write_elements_run [where R = R, OF assms(1) assms(2) rest [unfolded d bytes]] obtain r where r: "w = dry r" "?q \<le> r"
      "\<And>mem. r \<le> length mem \<Longrightarrow> \<exists>mem'. write_elements ser words off sz 0 xs (onto mem ?q) = Inr ((), onto mem' r) \<and>
        agree (- ({?q..<r} \<union> {unat off..<?q})) mem mem' \<and>
        (\<forall>mem''. agree ({?q..<r} \<union> {unat off..<?q}) mem' mem'' \<longrightarrow>
          (\<forall>k < length xs. \<exists>a. R (xs ! k) a mem'' \<and> slice mem'' (unat off + sz * k) sz = words_bytes (words a)))"
      by auto
    have "\<exists>mem'. append_array sz field ser words xs (onto mem p) = Inr (off, onto mem' r) \<and> agree (- {p..<r}) mem mem' \<and>
         (\<forall>mem''. agree {p..<r} mem' mem'' \<longrightarrow> (\<forall>k < length xs. \<exists>a. R (xs ! k) a mem'' \<and>
           slice mem'' (unat off + sz * k) sz = words_bytes (words a)))" if l: "r \<le> length mem" for mem
    proof -
      from r(3) [OF l] obtain m where m: "write_elements ser words off sz 0 xs (onto mem ?q) = Inr ((), onto m r)"
        "agree (- ({?q..<r} \<union> {unat off..<?q})) mem m"
        "\<And>mem''. agree ({?q..<r} \<union> {unat off..<?q}) m mem'' \<Longrightarrow>
          (\<forall>k < length xs. \<exists>a. R (xs ! k) a mem'' \<and> slice mem'' (unat off + sz * k) sz = words_bytes (words a))" by blast
      have "append_array sz field ser words xs (onto mem p) = Inr (off, onto m r)"
        using False b m(1) real [of mem] l r(2) by (simp add: append_array_def wr_bind_def wr_lift_def wr_return_def bytes)
      moreover have "agree (- {p..<r}) mem m" by (rule agree_mono [OF m(2)]) (use d(2) r(2) in auto)
      moreover have "agree ({?q..<r} \<union> {unat off..<?q}) m mem''" if "agree {p..<r} m mem''" for mem''
        by (rule agree_mono [OF that]) (use d(2) r(2) in auto)
      ultimately show ?thesis using m(3) by blast
    qed
    then show ?thesis using d(2) r(1,2) by (intro exI [of _ r]) auto
  qed
qed

section \<open>What the records read back as\<close>

text \<open>The values of the type \<open>float\<close> everywhere; the latencies are narrowed on the way.\<close>

definition candidate_typed :: "PlateCandidate \<Rightarrow> bool" where
  "candidate_typed c \<longleftrightarrow> is_float32 (cand_confidence c) \<and> is_float32 (cand_calibrated c)"

definition evidence_typed :: "RecognitionEvidence \<Rightarrow> bool" where
  "evidence_typed ev \<longleftrightarrow> is_float32 (ev_crop_quality ev) \<and> list_all candidate_typed (ev_candidates ev)"

definition point_typed :: "Point2f \<Rightarrow> bool" where
  "point_typed p \<longleftrightarrow> is_float32 (pt_x p) \<and> is_float32 (pt_y p)"

definition result_typed :: "PlateRecognitionResult \<Rightarrow> bool" where
  "result_typed r \<longleftrightarrow> is_float32 (res_confidence r) \<and> is_float32 (res_detector_confidence r) \<and>
     is_float32 (res_geometry_score r) \<and> is_float32 (res_crop_quality r) \<and>
     (case res_bbox r of None \<Rightarrow> True
      | Some b \<Rightarrow> is_float32 (bb_x b) \<and> is_float32 (bb_y b) \<and> is_float32 (bb_width b) \<and> is_float32 (bb_height b)) \<and>
     (case res_quadrilateral r of None \<Rightarrow> True
      | Some q \<Rightarrow> quad_wf q \<and> list_all point_typed (quad_points q) \<and> list_all is_float32 (quad_confidences q)) \<and>
     list_all evidence_typed (res_evidence r) \<and> list_all candidate_typed (res_alternatives r)"

definition evidence_view :: "RecognitionEvidence \<Rightarrow> RecognitionEvidence" where
  "evidence_view ev = ev\<lparr>ev_latency_ms := fcast binary32 (ev_latency_ms ev)\<rparr>"

definition result_view :: "PlateRecognitionResult \<Rightarrow> PlateRecognitionResult" where
  "result_view r = r\<lparr>res_evidence := map evidence_view (res_evidence r),
     res_total_latency_ms := fcast binary32 (res_total_latency_ms r)\<rparr>"

lemma map_upt_nth: "map (\<lambda>k. f (xs ! k)) [0..<length xs] = map f xs"
  by (rule nth_equalityI) simp_all

lemma read_array_eq:
  assumes "\<And>k. k < unat n \<Longrightarrow> rd mem (unat off + sz * k) = Some (f (xs ! k))" and "unat n = length xs"
  shows "read_array sz rd mem n off = Some (map f xs)"
proof -
  have "those (map (\<lambda>k. rd mem (unat off + sz * k)) [0..<m]) = Some (map (\<lambda>k. f (xs ! k)) [0..<m])" if "m \<le> unat n" for m
  proof -
    have "map (\<lambda>k. rd mem (unat off + sz * k)) [0..<m] = map Some (map (\<lambda>k. f (xs ! k)) [0..<m])"
      using assms(1) that by simp
    moreover have "those (map Some ys) = Some ys" for ys :: "'c list" by (induction ys) simp_all
    ultimately show ?thesis by (simp only:)
  qed
  from this [of "unat n"] show ?thesis
    by (simp add: read_array_def assms(2) map_upt_nth)
qed

text \<open>A record of \<open>n\<close> words at an offset inside the buffer.\<close>

lemma slice_words:
  assumes "slice mem off (4 * length ws) = words_bytes ws" and "ws \<noteq> []"
  shows "off + 4 * length ws \<le> length mem"
proof -
  have "length (slice mem off (4 * length ws)) = 4 * length ws" by (simp add: assms(1))
  moreover have "0 < 4 * length ws" using assms(2) by simp
  ultimately show ?thesis unfolding slice_def length_take length_drop min_def by (simp only: split: if_splits)
qed

lemma record_words:
  assumes "slice mem off sz = words_bytes ws" and "sz = 4 * length ws" and "2 \<le> length ws"
    and "unat (ws ! 0) = sz" and "ws ! 1 = 1"
  shows "record_ok mem off sz"
proof -
  note s = assms(1) [unfolded assms(2)]
  have "ws \<noteq> []" using assms(3) by auto
  then show ?thesis
    using slice_words [OF s] read_field [OF s, of 0] read_field [OF s, of 1] assms(2-5) by (simp add: record_ok_def)
qed

definition candidate_block :: "PlateCandidate \<Rightarrow> fac_lpr_candidate_v1 \<Rightarrow> byte list \<Rightarrow> bool" where
  "candidate_block c a mem \<longleftrightarrow> wc_struct_size a = 32 \<and> wc_abi_version a = 1 \<and>
     bytes_text (slice mem (unat (tx_offset (wc_text a))) (unat (tx_length (wc_text a)))) = cand_text c \<and>
     wc_confidence a = cand_confidence c \<and> wc_calibrated_confidence a = cand_calibrated c \<and>
     (wc_format_valid a \<noteq> 0 \<longleftrightarrow> cand_format_valid c)"

lemma block_candidate: "block (serialize_candidate c) (candidate_block c)"
  unfolding serialize_candidate_def
  by (rule block_weaken, (rule block_bind block_text block_lift block_return)+)
    (auto simp: candidate_block_def probability_float_def split: if_splits)

lemma read_candidate_block:
  assumes "candidate_block c a mem" and "slice mem off 32 = words_bytes (candidate_words a)" and "candidate_typed c"
  shows "read_candidate mem off = Some c"
proof -
  have s: "slice mem off (4 * length (candidate_words a)) = words_bytes (candidate_words a)"
    using assms(2) by (simp add: candidate_words_def)
  note f = read_field [OF s]
  have "record_ok mem off 32"
    by (rule record_words [OF assms(2)]) (use assms(1) in \<open>simp_all add: candidate_words_def candidate_block_def\<close>)
  moreover note f [of 2, unfolded candidate_words_def] f [of 3, unfolded candidate_words_def]
    f [of 4, unfolded candidate_words_def] f [of 5, unfolded candidate_words_def] f [of 6, unfolded candidate_words_def]
  ultimately show ?thesis using assms(1,3)
    by (simp add: read_candidate_def read_text_def read_fl_def candidate_block_def candidate_typed_def fl_bits32_inverse add.assoc)
qed

text \<open>An array of records, from the array block and the blocks of its elements.\<close>

lemma read_array_block:
  assumes "\<forall>k < length xs. \<exists>a. R (xs ! k) a mem \<and> slice mem (unat off + sz * k) sz = words_bytes (words a)"
    and "\<And>x a pos. x \<in> set xs \<Longrightarrow> R x a mem \<Longrightarrow> slice mem pos sz = words_bytes (words a) \<Longrightarrow> rd mem pos = Some (f x)"
    and "to_u32 (length xs) field = Inr n"
  shows "read_array sz rd mem n off = Some (map f xs)"
proof (rule read_array_eq)
  have "length xs < 2 ^ LENGTH(32)" using assms(3) by (auto simp: to_u32_def split: if_splits)
  then show n: "unat n = length xs" using assms(3) by (auto simp: to_u32_def unat_of_nat split: if_splits)
  fix k
  assume "k < unat n"
  with n assms(1) obtain a where "R (xs ! k) a mem" "slice mem (unat off + sz * k) sz = words_bytes (words a)" by auto
  with assms(2) \<open>k < unat n\<close> n show "rd mem (unat off + sz * k) = Some (f (xs ! k))" by auto
qed

lemma candidate_block_words: "\<forall>x a mem. candidate_block x a mem \<longrightarrow> 4 * length (candidate_words a) = 32"
  by (simp add: candidate_words_def)

lemmas block_candidates = block_array [where ser = serialize_candidate and R = candidate_block and words = candidate_words and sz = 32,
  OF _ candidate_block_words, folded append_candidates_def]

definition candidates_block :: "PlateCandidate list \<Rightarrow> u32 \<Rightarrow> byte list \<Rightarrow> bool" where
  "candidates_block cs off mem \<longleftrightarrow> (\<forall>k < length cs. \<exists>a. candidate_block (cs ! k) a mem \<and>
     slice mem (unat off + 32 * k) 32 = words_bytes (candidate_words a))"

lemma block_append_candidates: "block (append_candidates cs) (candidates_block cs)"
proof -
  have "block (append_candidates cs) (\<lambda>off mem. \<forall>k < length cs. \<exists>a. candidate_block (cs ! k) a mem \<and>
     slice mem (unat off + 32 * k) 32 = words_bytes (candidate_words a))"
    unfolding append_candidates_def by (rule block_array) (simp_all add: block_candidate candidate_words_def)
  then show ?thesis by (rule block_weaken) (simp add: candidates_block_def)
qed

lemma read_candidates_block:
  assumes "candidates_block cs off mem" and "to_u32 (length cs) field = Inr n" and "list_all candidate_typed cs"
  shows "read_array 32 read_candidate mem n off = Some cs"
proof -
  have "read_array 32 read_candidate mem n off = Some (map (\<lambda>c. c) cs)"
    using assms(1) unfolding candidates_block_def
    by (rule read_array_block [OF _ _ assms(2)]) (use assms(3) in \<open>auto simp: list_all_iff intro: read_candidate_block\<close>)
  then show ?thesis by simp
qed

definition evidence_block :: "RecognitionEvidence \<Rightarrow> fac_lpr_evidence_v1 \<Rightarrow> byte list \<Rightarrow> bool" where
  "evidence_block ev a mem \<longleftrightarrow> we_struct_size a = 32 \<and> we_abi_version a = 1 \<and>
     bytes_text (slice mem (unat (tx_offset (we_source a))) (unat (tx_length (we_source a)))) = ev_source ev \<and>
     we_crop_quality a = ev_crop_quality ev \<and> we_latency_ms a = fcast binary32 (ev_latency_ms ev) \<and>
     candidates_block (ev_candidates ev) (we_candidates_offset a) mem \<and>
     to_u32 (length (ev_candidates ev)) ''evidence candidate count'' = Inr (we_candidate_count a)"

lemma block_evidence: "block (serialize_evidence ev) (evidence_block ev)"
  unfolding serialize_evidence_def
  by (rule block_weaken, (rule block_bind block_text block_lift block_return block_append_candidates)+)
    (auto simp: evidence_block_def probability_float_def latency_to_float_def split: if_splits)

lemma read_evidence_block:
  assumes "evidence_block ev a mem" and "slice mem off 32 = words_bytes (evidence_words a)" and "evidence_typed ev"
  shows "read_evidence mem off = Some (evidence_view ev)"
proof -
  have s: "slice mem off (4 * length (evidence_words a)) = words_bytes (evidence_words a)"
    using assms(2) by (simp add: evidence_words_def)
  note f = read_field [OF s]
  have "record_ok mem off 32"
    by (rule record_words [OF assms(2)]) (use assms(1) in \<open>simp_all add: evidence_words_def evidence_block_def\<close>)
  moreover have "read_array 32 read_candidate mem (we_candidate_count a) (we_candidates_offset a) = Some (ev_candidates ev)"
    using assms(1,3) by (auto simp: evidence_block_def evidence_typed_def intro: read_candidates_block)
  moreover note f [of 2, unfolded evidence_words_def] f [of 3, unfolded evidence_words_def]
    f [of 4, unfolded evidence_words_def] f [of 5, unfolded evidence_words_def] f [of 6, unfolded evidence_words_def]
    f [of 7, unfolded evidence_words_def]
  ultimately show ?thesis using assms(1,3)
    by (simp add: read_evidence_def read_text_def read_fl_def evidence_block_def evidence_typed_def evidence_view_def
        fl_bits32_inverse add.assoc)
qed

definition evidences_block :: "RecognitionEvidence list \<Rightarrow> u32 \<Rightarrow> byte list \<Rightarrow> bool" where
  "evidences_block evs off mem \<longleftrightarrow> (\<forall>k < length evs. \<exists>a. evidence_block (evs ! k) a mem \<and>
     slice mem (unat off + 32 * k) 32 = words_bytes (evidence_words a))"

lemma block_append_evidence: "block (append_evidence evs) (evidences_block evs)"
proof -
  have "block (append_evidence evs) (\<lambda>off mem. \<forall>k < length evs. \<exists>a. evidence_block (evs ! k) a mem \<and>
     slice mem (unat off + 32 * k) 32 = words_bytes (evidence_words a))"
    unfolding append_evidence_def by (rule block_array) (simp_all add: block_evidence evidence_words_def)
  then show ?thesis by (rule block_weaken) (simp add: evidences_block_def)
qed

lemma read_evidences_block:
  assumes "evidences_block evs off mem" and "to_u32 (length evs) field = Inr n" and "list_all evidence_typed evs"
  shows "read_array 32 read_evidence mem n off = Some (map evidence_view evs)"
  using assms(1) unfolding evidences_block_def
  by (rule read_array_block [OF _ _ assms(2)]) (use assms(3) in \<open>auto simp: list_all_iff intro: read_evidence_block\<close>)

definition reasons_block :: "RecognitionDecisionReason list \<Rightarrow> u32 \<Rightarrow> byte list \<Rightarrow> bool" where
  "reasons_block rs off mem \<longleftrightarrow> (\<forall>k < length rs. \<exists>a. a = map_reason (rs ! k) \<and>
     slice mem (unat off + 4 * k) 4 = words_bytes [a])"

lemma block_append_reasons: "block (append_reasons rs) (reasons_block rs)"
proof -
  have "block (append_reasons rs) (\<lambda>off mem. \<forall>k < length rs. \<exists>a. a = map_reason (rs ! k) \<and>
     slice mem (unat off + 4 * k) 4 = words_bytes [a])"
    unfolding append_reasons_def by (rule block_array) (simp_all add: block_return)
  then show ?thesis by (rule block_weaken) (simp add: reasons_block_def)
qed

lemma reason_of_map_reason: "reason_of_wire (map_reason r) = Some r"
  by (cases r) (simp_all add: reason_of_wire_def map_reason_def)

lemma read_reasons_block:
  assumes "reasons_block rs off mem" and "to_u32 (length rs) field = Inr n"
  shows "read_array 4 read_reason mem n off = Some rs"
proof -
  have "read_array 4 read_reason mem n off = Some (map (\<lambda>r. r) rs)"
    using assms(1) unfolding reasons_block_def
    by (rule read_array_block [OF _ _ assms(2)])
      (simp add: read_reason_def read_u32_def words_bytes_def u32_bytes_inverse reason_of_map_reason)
  then show ?thesis by simp
qed

definition plate_block :: "PlateRecognitionResult \<Rightarrow> fac_lpr_plate_result_v1 \<Rightarrow> byte list \<Rightarrow> bool" where
  "plate_block r a mem \<longleftrightarrow> wp_struct_size a = 140 \<and> wp_abi_version a = 1 \<and> wp_status a = map_status (res_status r) \<and>
     (wp_degraded a \<noteq> 0 \<longleftrightarrow> res_degraded r) \<and>
     bytes_text (slice mem (unat (tx_offset (wp_plate a))) (unat (tx_length (wp_plate a)))) = res_plate r \<and>
     wp_confidence a = res_confidence r \<and> wp_detector_confidence a = res_detector_confidence r \<and>
     wp_geometry_score a = res_geometry_score r \<and> wp_crop_quality a = res_crop_quality r \<and>
     wp_total_latency_ms a = fcast binary32 (res_total_latency_ms r) \<and>
     wire_bbox (res_bbox r) = Inr (wp_has_bbox a, wp_bbox a) \<and>
     wire_quadrilateral (res_quadrilateral r) = Inr (wp_has_quadrilateral a, wp_points a, wp_confidences a) \<and>
     to_u32 (length (res_evidence r)) ''evidence count'' = Inr (wp_evidence_count a) \<and>
     evidences_block (res_evidence r) (wp_evidence_offset a) mem \<and>
     to_u32 (length (res_alternatives r)) ''alternative count'' = Inr (wp_alternatives_count a) \<and>
     candidates_block (res_alternatives r) (wp_alternatives_offset a) mem \<and>
     to_u32 (length (res_decision_reasons r)) ''decision reason count'' = Inr (wp_decision_reason_count a) \<and>
     reasons_block (res_decision_reasons r) (wp_decision_reasons_offset a) mem"

lemma block_split: "block (f (fst a) (snd a)) R \<Longrightarrow> block (case a of (x, y) \<Rightarrow> f x y) R"
  by (simp add: split_def)

lemma block_plate: "block (serialize_plate r) (plate_block r)"
  unfolding serialize_plate_def
  by (rule block_weaken, (rule block_bind block_text block_lift block_return block_append_candidates
      block_append_evidence block_append_reasons block_split)+)
    (auto simp: plate_block_def probability_float_def latency_to_float_def split: if_splits)

lemma wire_bbox_Inr:
  assumes "wire_bbox b = Inr (h, ws)"
  obtains "b = None" "h = 0" "ws = [Fin 0, Fin 0, Fin 0, Fin 0]"
  | bb where "b = Some bb" "h = 1" "ws = [bb_x bb, bb_y bb, bb_width bb, bb_height bb]"
  using assms by (auto simp: wire_bbox_def finite_float_def res_bind_eq_Inr numeral_eq_Suc split: option.splits if_splits)

lemma quad_lists:
  assumes "quad_wf q"
  shows "quad_points q = [quad_points q ! 0, quad_points q ! 1, quad_points q ! 2, quad_points q ! 3]"
    and "quad_confidences q = [quad_confidences q ! 0, quad_confidences q ! 1, quad_confidences q ! 2, quad_confidences q ! 3]"
  using assms by (auto simp: quad_wf_def numeral_eq_Suc length_Suc_conv)

lemma wire_quadrilateral_Inr:
  assumes "wire_quadrilateral q = Inr (h, ps, cs)"
  obtains "q = None" "h = 0" "ps = [(Fin 0, Fin 0), (Fin 0, Fin 0), (Fin 0, Fin 0), (Fin 0, Fin 0)]"
      "cs = [Fin 0, Fin 0, Fin 0, Fin 0]"
  | qq where "q = Some qq" "h = 1"
      "ps = map (\<lambda>i. (pt_x (quad_points qq ! i), pt_y (quad_points qq ! i))) [0, 1, 2, 3]"
      "cs = map (\<lambda>i. quad_confidences qq ! i) [0, 1, 2, 3]"
  using assms
  by (auto simp: wire_quadrilateral_def wire_point_def finite_float_def probability_float_def res_bind_eq_Inr
      replicate_eqI numeral_eq_Suc split: option.splits if_splits)

text \<open>The 35 words of a plate record.\<close>

lemma plate_words_eq:
  assumes "wp_bbox a = [b0, b1, b2, b3]" and "wp_points a = [(x0, y0), (x1, y1), (x2, y2), (x3, y3)]"
    and "wp_confidences a = [c0, c1, c2, c3]"
  shows "plate_words a = [wp_struct_size a, wp_abi_version a, wp_status a, wp_degraded a, tx_offset (wp_plate a), tx_length (wp_plate a),
       fl_bits32 (wp_confidence a), fl_bits32 (wp_detector_confidence a), fl_bits32 (wp_geometry_score a),
       fl_bits32 (wp_crop_quality a), fl_bits32 (wp_total_latency_ms a), wp_has_bbox a,
       fl_bits32 b0, fl_bits32 b1, fl_bits32 b2, fl_bits32 b3, wp_has_quadrilateral a,
       fl_bits32 x0, fl_bits32 y0, fl_bits32 x1, fl_bits32 y1, fl_bits32 x2, fl_bits32 y2, fl_bits32 x3, fl_bits32 y3,
       fl_bits32 c0, fl_bits32 c1, fl_bits32 c2, fl_bits32 c3,
       wp_evidence_count a, wp_evidence_offset a, wp_alternatives_count a, wp_alternatives_offset a,
       wp_decision_reason_count a, wp_decision_reasons_offset a]"
  by (simp add: plate_words_def assms)

lemma plate_block_lists:
  assumes "plate_block r a mem"
  obtains b0 b1 b2 b3 x0 y0 x1 y1 x2 y2 x3 y3 c0 c1 c2 c3 where "wp_bbox a = [b0, b1, b2, b3]"
    and "wp_points a = [(x0, y0), (x1, y1), (x2, y2), (x3, y3)]" and "wp_confidences a = [c0, c1, c2, c3]"
proof -
  have b: "wire_bbox (res_bbox r) = Inr (wp_has_bbox a, wp_bbox a)"
    and q: "wire_quadrilateral (res_quadrilateral r) = Inr (wp_has_quadrilateral a, wp_points a, wp_confidences a)"
    using assms by (simp_all add: plate_block_def)
  obtain b0 b1 b2 b3 where "wp_bbox a = [b0, b1, b2, b3]" by (rule wire_bbox_Inr [OF b]) blast+
  moreover obtain x0 y0 x1 y1 x2 y2 x3 y3 where "wp_points a = [(x0, y0), (x1, y1), (x2, y2), (x3, y3)]"
    by (rule wire_quadrilateral_Inr [OF q]) simp_all
  moreover obtain c0 c1 c2 c3 where "wp_confidences a = [c0, c1, c2, c3]"
    by (rule wire_quadrilateral_Inr [OF q]) simp_all
  ultimately show ?thesis by (rule that)
qed

lemma status_of_map_status: "status_of_wire (map_status s) = Some s"
  by (cases s) (simp_all add: status_of_wire_def map_status_def)

lemma read_plate_block:
  assumes "plate_block r a mem" and "slice mem off 140 = words_bytes (plate_words a)" and "result_typed r"
  shows "read_plate mem off = Some (result_view r)"
proof -
  obtain b0 b1 b2 b3 x0 y0 x1 y1 x2 y2 x3 y3 c0 c1 c2 c3 where lists: "wp_bbox a = [b0, b1, b2, b3]"
    "wp_points a = [(x0, y0), (x1, y1), (x2, y2), (x3, y3)]" "wp_confidences a = [c0, c1, c2, c3]"
    by (rule plate_block_lists [OF assms(1)])
  note w = plate_words_eq [OF lists]
  have s: "slice mem off (4 * length (plate_words a)) = words_bytes (plate_words a)" using assms(2) by (simp add: w)
  note f = read_field [OF s, unfolded w]
  have rec: "record_ok mem off 140"
    by (rule record_words [OF assms(2)]) (use assms(1) in \<open>simp_all add: w plate_block_def\<close>)
  note p = assms(1) [unfolded plate_block_def] and t = assms(3) [unfolded result_typed_def]
  have bbox: "read_bbox mem (off + 44) = res_bbox r"
  proof -
    from p have "wire_bbox (res_bbox r) = Inr (wp_has_bbox a, wp_bbox a)" by simp
    then show ?thesis
    proof (rule wire_bbox_Inr)
      assume "res_bbox r = None" "wp_has_bbox a = 0"
      then show ?thesis using f [of 11] by (simp add: read_bbox_def)
    next
      fix bb
      assume bb: "res_bbox r = Some bb" "wp_has_bbox a = 1" "wp_bbox a = [bb_x bb, bb_y bb, bb_width bb, bb_height bb]"
      have "is_float32 b0" "is_float32 b1" "is_float32 b2" "is_float32 b3" using t bb lists(1) by simp_all
      then show ?thesis using f [of 11] f [of 12] f [of 13] f [of 14] f [of 15] bb lists(1)
        by (simp add: read_bbox_def read_fl_def fl_bits32_inverse add.assoc)
    qed
  qed
  have quad: "read_quadrilateral mem (off + 64) = res_quadrilateral r"
  proof -
    from p have "wire_quadrilateral (res_quadrilateral r) = Inr (wp_has_quadrilateral a, wp_points a, wp_confidences a)" by simp
    then show ?thesis
    proof (rule wire_quadrilateral_Inr)
      assume "res_quadrilateral r = None" "wp_has_quadrilateral a = 0"
      then show ?thesis using f [of 16] by (simp add: read_quadrilateral_def)
    next
      fix q
      assume q: "res_quadrilateral r = Some q" "wp_has_quadrilateral a = 1"
        "wp_points a = map (\<lambda>i. (pt_x (quad_points q ! i), pt_y (quad_points q ! i))) [0, 1, 2, 3]"
        "wp_confidences a = map (\<lambda>i. quad_confidences q ! i) [0, 1, 2, 3]"
      have wf: "quad_wf q" "list_all point_typed (quad_points q)" "list_all is_float32 (quad_confidences q)"
        using t q(1) by simp_all
      have l: "length (quad_points q) = 4" "length (quad_confidences q) = 4" using wf(1) by (simp_all add: quad_wf_def)
      have typed: "is_float32 (pt_x (quad_points q ! i)) \<and> is_float32 (pt_y (quad_points q ! i)) \<and> is_float32 (quad_confidences q ! i)"
        if "i < 4" for i using wf(2,3) l that by (simp add: list_all_length point_typed_def)
      have c: "read_fl mem (off + 100 + 4 * i) = quad_confidences q ! i" if "i < 4" for i
      proof -
        have "i = 0 \<or> i = 1 \<or> i = 2 \<or> i = 3" using that by linarith
        then show ?thesis using typed [of i] f [of 25] f [of 26] f [of 27] f [of 28] lists(3) q(4)
          by (elim disjE) (simp_all add: read_fl_def fl_bits32_inverse add.assoc)
      qed
      have pt: "\<lparr>pt_x = read_fl mem (off + 68 + 8 * i), pt_y = read_fl mem (off + 72 + 8 * i)\<rparr> = quad_points q ! i" if "i < 4" for i
      proof -
        have "i = 0 \<or> i = 1 \<or> i = 2 \<or> i = 3" using that by linarith
        then show ?thesis using typed [of i] f [of 17] f [of 18] f [of 19] f [of 20] f [of 21] f [of 22] f [of 23] f [of 24] lists(2) q(3)
          by (elim disjE) (simp_all add: read_fl_def fl_bits32_inverse add.assoc)
      qed
      have "map (\<lambda>i. \<lparr>pt_x = read_fl mem (off + 68 + 8 * i), pt_y = read_fl mem (off + 72 + 8 * i)\<rparr>) [0..<4] = quad_points q"
        using pt l(1) by (intro nth_equalityI) simp_all
      moreover have "map (\<lambda>i. read_fl mem (off + 100 + 4 * i)) [0..<4] = quad_confidences q"
        using c l(2) by (intro nth_equalityI) simp_all
      moreover have "read_u32 mem (off + 64) \<noteq> 0" using f [of 16] q(2) by simp
      ultimately show ?thesis using q(1) by (simp add: read_quadrilateral_def add.assoc)
    qed
  qed
  have "read_array 32 read_evidence mem (wp_evidence_count a) (wp_evidence_offset a) = Some (map evidence_view (res_evidence r))"
    using p t by (intro read_evidences_block) auto
  moreover have "read_array 32 read_candidate mem (wp_alternatives_count a) (wp_alternatives_offset a) = Some (res_alternatives r)"
    using p t by (intro read_candidates_block) auto
  moreover have "read_array 4 read_reason mem (wp_decision_reason_count a) (wp_decision_reasons_offset a) = Some (res_decision_reasons r)"
    using p by (intro read_reasons_block) auto
  moreover have "read_text mem (off + 16) = res_plate r" using f [of 4] f [of 5] p by (simp add: read_text_def add.assoc)
  moreover have "status_of_wire (read_u32 mem (off + 8)) = Some (res_status r)" "(read_u32 mem (off + 12) \<noteq> 0) = res_degraded r"
    using f [of 2] f [of 3] p by (simp_all add: status_of_map_status)
  moreover have "read_fl mem (off + 24) = res_confidence r" "read_fl mem (off + 28) = res_detector_confidence r"
    "read_fl mem (off + 32) = res_geometry_score r" "read_fl mem (off + 36) = res_crop_quality r"
    "read_fl mem (off + 40) = fcast binary32 (res_total_latency_ms r)"
    using f [of 6] f [of 7] f [of 8] f [of 9] f [of 10] p t by (simp_all add: read_fl_def fl_bits32_inverse)
  ultimately show ?thesis
    using rec bbox quad f [of 29] f [of 30] f [of 31] f [of 32] f [of 33] f [of 34]
    by (simp add: read_plate_def result_view_def)
qed

section \<open>The whole buffer\<close>

definition plates_block :: "PlateRecognitionResult list \<Rightarrow> u32 \<Rightarrow> byte list \<Rightarrow> bool" where
  "plates_block rs off mem \<longleftrightarrow> (\<forall>k < length rs. \<exists>a. plate_block (rs ! k) a mem \<and>
     slice mem (unat off + 140 * k) 140 = words_bytes (plate_words a))"

lemma plate_block_words: "plate_block r a mem \<Longrightarrow> length (plate_words a) = 35"
  by (erule plate_block_lists) (simp add: plate_words_eq)

lemma block_append_plates:
  "block (append_array 140 ''recognition array size'' serialize_plate plate_words rs) (plates_block rs)"
proof -
  have "block (append_array 140 ''recognition array size'' serialize_plate plate_words rs)
     (\<lambda>off mem. \<forall>k < length rs. \<exists>a. plate_block (rs ! k) a mem \<and>
     slice mem (unat off + 140 * k) 140 = words_bytes (plate_words a))"
    by (rule block_array) (use plate_block_words in \<open>auto simp: block_plate\<close>)
  then show ?thesis by (rule block_weaken) (simp add: plates_block_def)
qed

lemma read_plates_block:
  assumes "plates_block rs off mem" and "to_u32 (length rs) field = Inr n" and "list_all result_typed rs"
  shows "read_array 140 read_plate mem n off = Some (map result_view rs)"
  using assms(1) unfolding plates_block_def
  by (rule read_array_block [OF _ _ assms(2)]) (use assms(3) in \<open>auto simp: list_all_iff intro: read_plate_block\<close>)

text \<open>What a caller that reads the buffer of a frame finds.\<close>

definition frame_view :: "LprPipelineResult \<Rightarrow> PlateRecognitionResult list \<times> fl \<times> bool \<times> nat" where
  "frame_view r = (map result_view (lpr_recognitions r), fcast binary32 (lpr_total_latency_ms r), lpr_degraded r,
     lpr_provider_failure_count r)"

definition frame_typed :: "LprPipelineResult \<Rightarrow> bool" where
  "frame_typed r \<longleftrightarrow> list_all result_typed (lpr_recognitions r)"

text \<open>The root record is computed first and written last.\<close>

definition root_record :: "LprPipelineResult \<Rightarrow> u32 \<Rightarrow> fac_lpr_result_v1 writer" where
  "root_record r recognitions_offset =
     wr_bind (wr_lift (to_u32 (length (lpr_recognitions r)) ''recognition count'')) (\<lambda>n.
     wr_bind (wr_lift (latency_to_float (lpr_total_latency_ms r))) (\<lambda>latency.
     wr_bind (wr_lift (to_u32 (lpr_provider_failure_count r) ''provider failure count'')) (\<lambda>failures.
     wr_return \<lparr>wr_struct_size = 32, wr_abi_version = 1, wr_recognition_count = n,
         wr_recognitions_offset = recognitions_offset, wr_total_latency_ms = latency,
         wr_degraded = (if lpr_degraded r then 1 else 0), wr_provider_failure_count = failures, wr_reserved_zero = 0\<rparr>)))"

definition nested_records :: "LprPipelineResult \<Rightarrow> fac_lpr_result_v1 writer" where
  "nested_records r =
     wr_bind (append_array 140 ''recognition array size'' serialize_plate plate_words (lpr_recognitions r)) (root_record r)"

lemma wr_bind_assoc: "wr_bind (wr_bind m f) g = wr_bind m (\<lambda>x. wr_bind (f x) g)"
proof
  fix w
  show "wr_bind (wr_bind m f) g w = wr_bind m (\<lambda>x. wr_bind (f x) g) w"
    by (cases "m w") (simp_all add: wr_bind_def split_def)
qed

lemma wr_return_bind: "wr_bind (wr_return a) f = f a"
  by (rule ext) (simp add: wr_bind_def wr_return_def)

lemma wr_lift_bind: "wr_bind (wr_lift (Inr a)) f = f a"
  by (rule ext) (simp add: wr_bind_def wr_lift_def)

lemma serialize_body_eq:
  "serialize_body r = wr_bind (reserve 32) (\<lambda>root_offset.
     wr_bind (wr_lift (if root_offset \<noteq> 0 then Inl (InternalError ''v1 result root must start at buffer offset zero'') else Inr ())) (\<lambda>_.
     wr_bind (nested_records r) (\<lambda>root. wr_bind (wr_write root_offset (result_words root)) (\<lambda>_ w. Inr (bw_position w, w)))))"
  unfolding serialize_body_def nested_records_def root_record_def wr_bind_assoc wr_return_bind ..

definition root_block :: "LprPipelineResult \<Rightarrow> fac_lpr_result_v1 \<Rightarrow> byte list \<Rightarrow> bool" where
  "root_block r a mem \<longleftrightarrow> wr_struct_size a = 32 \<and> wr_abi_version a = 1 \<and>
     to_u32 (length (lpr_recognitions r)) ''recognition count'' = Inr (wr_recognition_count a) \<and>
     plates_block (lpr_recognitions r) (wr_recognitions_offset a) mem \<and>
     wr_total_latency_ms a = fcast binary32 (lpr_total_latency_ms r) \<and> (wr_degraded a \<noteq> 0 \<longleftrightarrow> lpr_degraded r) \<and>
     unat (wr_provider_failure_count a) = lpr_provider_failure_count r"

lemma to_u32_Inr: "to_u32 n field = Inr w \<Longrightarrow> unat w = n"
  by (auto simp: to_u32_def unat_of_nat split: if_splits)

lemma block_nested: "block (nested_records r) (root_block r)"
  unfolding nested_records_def root_record_def
  by (rule block_weaken, (rule block_bind block_lift block_return block_append_plates)+)
    (auto simp: root_block_def latency_to_float_def dest: to_u32_Inr split: if_splits)

lemma read_root_block:
  assumes "root_block r a mem" and "slice mem 0 32 = words_bytes (result_words a)" and "frame_typed r"
  shows "read_result mem = Some (frame_view r)"
proof -
  have s: "slice mem 0 (4 * length (result_words a)) = words_bytes (result_words a)"
    using assms(2) by (simp add: result_words_def)
  note f = read_field [OF s, unfolded result_words_def]
  have "record_ok mem 0 32"
    by (rule record_words [OF assms(2)]) (use assms(1) in \<open>simp_all add: result_words_def root_block_def\<close>)
  moreover have "read_array 140 read_plate mem (wr_recognition_count a) (wr_recognitions_offset a)
      = Some (map result_view (lpr_recognitions r))"
    using assms(1,3) by (auto simp: root_block_def frame_typed_def intro: read_plates_block)
  ultimately show ?thesis using assms(1) f [of 2] f [of 3] f [of 4] f [of 5] f [of 6]
    by (simp add: read_result_def frame_view_def root_block_def read_fl_def fl_bits32_inverse)
qed

text \<open>A size found without a buffer is enough for any buffer of at least that size.\<close>

lemma serialize_body_run:
  assumes "serialize_body r (dry 0) = Inr (n, w)"
  shows "32 \<le> n" and "n \<le> length mem \<Longrightarrow>
    \<exists>mem'. serialize_body r (onto mem 0) = Inr (n, onto mem' n) \<and> agree (- {0..<n}) mem mem' \<and>
      (frame_typed r \<longrightarrow> read_result mem' = Some (frame_view r))"
proof -
  have res: "reserve 32 (dry 0) = Inr (0, dry 32)"
    by (simp add: reserve_def align_position_def max_result_bytes_def default_resource_budget_def)
  have "wr_bind (nested_records r) (\<lambda>root. wr_bind (wr_write 0 (result_words root)) (\<lambda>_ w. Inr (bw_position w, w))) (dry 32)
      = Inr (n, w)"
    using assms by (simp add: serialize_body_eq wr_bind_def [of "reserve 32"] res wr_lift_bind)
  then obtain root v where v: "nested_records r (dry 32) = Inr (root, v)"
    and rest: "wr_bind (wr_write 0 (result_words root)) (\<lambda>_ w. Inr (bw_position w, w)) v = Inr (n, w)"
    by (rule wr_bindE) (rule that)
  obtain q where q: "v = dry q" "32 \<le> q" "\<And>mem. q \<le> length mem \<Longrightarrow>
      \<exists>mem'. nested_records r (onto mem 32) = Inr (root, onto mem' q) \<and> agree (- {32..<q}) mem mem' \<and>
        (\<forall>mem''. agree {32..<q} mem' mem'' \<longrightarrow> root_block r root mem'')"
    by (rule blockE [OF block_nested v]) (rule that)
  have n: "n = q" using rest by (simp add: q(1) wr_bind_def wr_write_def)
  show "32 \<le> n" using q(2) n by simp
  show "\<exists>mem'. serialize_body r (onto mem 0) = Inr (n, onto mem' n) \<and> agree (- {0..<n}) mem mem' \<and>
      (frame_typed r \<longrightarrow> read_result mem' = Some (frame_view r))" if l: "n \<le> length mem"
  proof -
    obtain m1 where m1: "nested_records r (onto mem 32) = Inr (root, onto m1 q)" "agree (- {32..<q}) mem m1"
      "\<And>mem''. agree {32..<q} m1 mem'' \<Longrightarrow> root_block r root mem''" using q(3) [of mem] l n by blast
    have len: "length (words_bytes (result_words root)) = 32" by (simp add: result_words_def)
    have l1: "0 + length (words_bytes (result_words root)) \<le> length m1" using l n q(2) agree_length [OF m1(2)] len by simp
    define m2 where "m2 = store m1 0 (words_bytes (result_words root))"
    note m2 = store_props [OF l1, folded m2_def, unfolded len add_0]
    have "wr_write 0 (result_words root) (onto m1 q) = Inr ((), onto m2 q)"
      using l1 m2(1) by (simp add: wr_write_def m2_def)
    moreover have "reserve 32 (onto mem 0) = Inr (0, onto mem 32)" using reserve_dry(3) [OF res, of mem] l n q(2) by simp
    ultimately have "serialize_body r (onto mem 0) = Inr (n, onto m2 n)"
      using m1(1) by (simp add: serialize_body_eq wr_bind_def wr_lift_def n)
    moreover have "agree (- {0..<n}) mem m2"
      by (rule agree_trans [OF m1(2) m2(2)]) (use q(2) n in auto)
    moreover have "root_block r root m2" by (rule m1(3), rule agree_mono [OF m2(2)]) auto
    ultimately show ?thesis using m2(3) read_root_block by blast
  qed
qed

section \<open>What the passes throw\<close>

text \<open>Every throw is a provider or a resource error, and no position passes the memory budget.\<close>

definition wire_error :: "exn \<Rightarrow> bool" where
  "wire_error e \<longleftrightarrow> (\<exists>m. e = ProviderError m \<or> e = ResourceExhaustedError m)"

lemma wire_error_simps [simp]: "wire_error (ProviderError m)" "wire_error (ResourceExhaustedError m)"
  by (simp_all add: wire_error_def)

definition wr_safe :: "'a writer \<Rightarrow> bool" where
  "wr_safe m \<longleftrightarrow> (\<forall>w e. m w = Inl e \<longrightarrow> wire_error e) \<and>
     (\<forall>w a w'. m w = Inr (a, w') \<longrightarrow> bw_position w \<le> max_result_bytes \<longrightarrow> bw_position w' \<le> max_result_bytes)"

lemma wr_safe_return: "wr_safe (wr_return a)"
  by (simp add: wr_safe_def wr_return_def)

lemma wr_safe_lift: "(\<And>e. r = Inl e \<Longrightarrow> wire_error e) \<Longrightarrow> wr_safe (wr_lift r)"
  by (auto simp: wr_safe_def wr_lift_def res_bind_eq_Inl res_bind_eq_Inr)

lemma wr_safe_bind:
  assumes "wr_safe m" and "\<And>a. wr_safe (f a)"
  shows "wr_safe (wr_bind m f)"
proof -
  have e: "wire_error e" if "wr_bind m f w = Inl e" for w e
    using that assms by (auto simp: wr_safe_def wr_bind_def res_bind_eq_Inl)
  have p: "bw_position w' \<le> max_result_bytes" if r: "wr_bind m f w = Inr (b, w')" and l: "bw_position w \<le> max_result_bytes" for w b w'
  proof -
    obtain a v where v: "m w = Inr (a, v)" "f a v = Inr (b, w')" by (rule wr_bindE [OF r])
    from assms(1) v(1) l have "bw_position v \<le> max_result_bytes" unfolding wr_safe_def by blast
    with assms(2) v(2) show ?thesis unfolding wr_safe_def by blast
  qed
  from e p show ?thesis unfolding wr_safe_def by blast
qed

lemma align_position_result: "align_position p = Inl e \<Longrightarrow> wire_error e"
  unfolding align_position_def Let_def by (simp split: if_split_asm) auto

lemma wr_safe_reserve: "wr_safe (reserve n)"
  unfolding wr_safe_def
proof (intro conjI allI impI)
  fix w e
  assume "reserve n w = Inl e"
  then show "wire_error e"
    by (cases "align_position (bw_position w)")
      (auto simp: reserve_def dest: align_position_result split: if_split_asm)
next
  fix w a w'
  assume "reserve n w = Inr (a, w')"
  then show "bw_position w' \<le> max_result_bytes"
    by (cases "align_position (bw_position w)") (auto simp: reserve_def split: if_split_asm)
qed

lemma wr_safe_write: "wr_safe (wr_write off ws)" and wr_safe_bytes: "wr_safe (write_bytes off bs)"
  unfolding wr_safe_def wr_write_def write_bytes_def by (auto split: option.splits if_split_asm)

lemma wire_error_u32: "to_u32 n field = Inl e \<Longrightarrow> wire_error e"
  unfolding to_u32_def by (simp split: if_split_asm) auto

lemma wire_error_array: "checked_array_bytes n m field = Inl e \<Longrightarrow> wire_error e"
  unfolding checked_array_bytes_def by (simp split: if_split_asm) auto

lemma wire_error_offset: "element_offset base n m = Inl e \<Longrightarrow> wire_error e"
  unfolding element_offset_def res_bind_eq_Inl using wire_error_array wire_error_u32 by blast

lemma wire_error_probability: "probability_float v field = Inl e \<Longrightarrow> wire_error e"
  unfolding probability_float_def by (simp split: if_split_asm) auto

lemma wire_error_finite: "finite_float v field = Inl e \<Longrightarrow> wire_error e"
  unfolding finite_float_def by (simp split: if_split_asm) auto

lemma wire_error_latency: "latency_to_float v = Inl e \<Longrightarrow> wire_error e"
  unfolding latency_to_float_def by (simp split: if_split_asm) auto

lemmas wire_error_values = wire_error_u32 wire_error_array wire_error_offset wire_error_probability
  wire_error_finite wire_error_latency

lemma wire_error_bbox: "wire_bbox b = Inl e \<Longrightarrow> wire_error e"
  by (auto simp: wire_bbox_def res_bind_eq_Inl dest: wire_error_values split: option.splits)

lemma wire_error_point: "wire_point q i = Inl e \<Longrightarrow> wire_error e"
  by (auto simp: wire_point_def res_bind_eq_Inl dest: wire_error_values)

lemma wire_error_quadrilateral: "wire_quadrilateral q = Inl e \<Longrightarrow> wire_error e"
  by (auto simp: wire_quadrilateral_def res_bind_eq_Inl dest: wire_error_point split: option.splits)

lemmas wire_safe_intros = wr_safe_bind wr_safe_return wr_safe_lift wr_safe_reserve wr_safe_write wr_safe_bytes

lemma wr_safe_text: "wr_safe (append_text t)"
  unfolding append_text_def by (auto intro!: wire_safe_intros dest: wire_error_values)

lemma wr_safe_elements: "(\<And>x. wr_safe (ser x)) \<Longrightarrow> wr_safe (write_elements ser words base sz i xs)"
  by (induction xs arbitrary: i) (auto intro!: wire_safe_intros dest: wire_error_values)

lemma wr_safe_array: "(\<And>x. wr_safe (ser x)) \<Longrightarrow> wr_safe (append_array sz field ser words xs)"
  unfolding append_array_def by (auto intro!: wire_safe_intros wr_safe_elements dest: wire_error_values)

lemma wr_safe_candidate: "wr_safe (serialize_candidate c)"
  unfolding serialize_candidate_def by (auto intro!: wire_safe_intros wr_safe_text dest: wire_error_values)

lemma wr_safe_evidence: "wr_safe (serialize_evidence ev)"
  unfolding serialize_evidence_def append_candidates_def
  by (auto intro!: wire_safe_intros wr_safe_text wr_safe_array wr_safe_candidate dest: wire_error_values)

lemma wr_safe_split: "wr_safe (f (fst a) (snd a)) \<Longrightarrow> wr_safe (case a of (x, y) \<Rightarrow> f x y)"
  by (simp add: split_def)

lemma wr_safe_plate: "wr_safe (serialize_plate r)"
  unfolding serialize_plate_def append_candidates_def append_evidence_def append_reasons_def
  by (rule wire_safe_intros wr_safe_text wr_safe_array wr_safe_candidate wr_safe_evidence wr_safe_split
      | erule wire_error_values wire_error_bbox wire_error_quadrilateral)+

lemma wr_safe_nested: "wr_safe (nested_records r)"
  unfolding nested_records_def root_record_def
  by (auto intro!: wire_safe_intros wr_safe_array wr_safe_plate dest: wire_error_values)

lemma serialize_body_dry:
  obtains (threw) e where "serialize_body r (dry 0) = Inl e" and "wire_error e"
  | (size) n w where "serialize_body r (dry 0) = Inr (n, w)" and "n \<le> max_result_bytes"
proof -
  have res: "reserve 32 (dry 0) = Inr (0, dry 32)" and max: "32 \<le> max_result_bytes"
    by (simp_all add: reserve_def align_position_def max_result_bytes_def default_resource_budget_def)
  let ?rest = "\<lambda>root. wr_bind (wr_write 0 (result_words root)) (\<lambda>_ w. Inr (bw_position w, w))"
  have eq: "serialize_body r (dry 0) = wr_bind (nested_records r) ?rest (dry 32)"
    by (simp add: serialize_body_eq wr_bind_def [of "reserve 32"] res wr_lift_bind)
  have "wr_safe (\<lambda>w. Inr (bw_position w, w))" by (simp add: wr_safe_def)
  then have rest: "wr_safe (?rest root)" for root by (intro wr_safe_bind wr_safe_write)
  have s: "wr_safe (wr_bind (nested_records r) ?rest)" by (rule wr_safe_bind [OF wr_safe_nested rest])
  show ?thesis
  proof (cases "serialize_body r (dry 0)")
    case (Inl e)
    then show ?thesis using s threw unfolding eq wr_safe_def by blast
  next
    case (Inr x)
    obtain n w where x: "x = (n, w)" by (cases x)
    then have "wr_bind (nested_records r) ?rest (dry 32) = Inr (n, w)" using Inr eq by simp
    moreover from this have "n = bw_position w" by (auto elim!: wr_bindE)
    ultimately have "n \<le> max_result_bytes" using s max unfolding wr_safe_def by force
    then show ?thesis using Inr x size by blast
  qed
qed

section \<open>Properties\<close>

text \<open>The two passes of a call on a buffer that is aligned and long enough.\<close>

lemma serialize_fits:
  assumes "serialize_body r (dry 0) = Inr (n, w)" and "ob_address b mod 4 = 0" and "n \<le> length (ob_bytes b)"
  shows "\<exists>mem. serialize_result_v1 r (Some b) True = (FAC_LPR_STATUS_OK, Some n, Some mem) \<and>
    agree (- {0..<n}) (ob_bytes b) mem \<and> (frame_typed r \<longrightarrow> read_result mem = Some (frame_view r))"
proof -
  obtain mem where m: "serialize_body r (onto (ob_bytes b) 0) = Inr (n, onto mem n)" "agree (- {0..<n}) (ob_bytes b) mem"
    "frame_typed r \<longrightarrow> read_result mem = Some (frame_view r)" using serialize_body_run(2) [OF assms(1,3)] by blast
  have "serialize_result_v1 r (Some b) True = (FAC_LPR_STATUS_OK, Some n, Some mem)"
    using assms m(1) by (simp add: serialize_result_v1_def serialize_impl_def dry_def onto_def)
  with m(2,3) show ?thesis by blast
qed

text \<open>The outcomes of a call.\<close>

lemma serialize_result_cases:
  obtains (no_pointer) "\<not> has_required" and "serialize_result_v1 r b has_required = (FAC_LPR_STATUS_CONFIGURATION_ERROR, None, map_option ob_bytes b)"
  | (threw) e where "has_required" and "wire_error e" and "serialize_result_v1 r b has_required = (caught_status e, Some 0, map_option ob_bytes b)"
  | (small) n w where "has_required" and "serialize_body r (dry 0) = Inr (n, w)" and "n \<le> max_result_bytes"
      and "\<forall>x. b = Some x \<longrightarrow> length (ob_bytes x) < n"
      and "serialize_result_v1 r b has_required = (FAC_LPR_STATUS_BUFFER_TOO_SMALL, Some n, map_option ob_bytes b)"
  | (unaligned) n w x where "has_required" and "serialize_body r (dry 0) = Inr (n, w)" and "n \<le> max_result_bytes" and "b = Some x"
      and "ob_address x mod 4 \<noteq> 0"
      and "serialize_result_v1 r b has_required = (FAC_LPR_STATUS_CONFIGURATION_ERROR, Some n, map_option ob_bytes b)"
  | (written) n w x mem where "has_required" and "serialize_body r (dry 0) = Inr (n, w)" and "n \<le> max_result_bytes" and "b = Some x"
      and "n \<le> length (ob_bytes x)"
      and "serialize_result_v1 r b has_required = (FAC_LPR_STATUS_OK, Some n, Some mem)"
      and "agree (- {0..<n}) (ob_bytes x) mem" and "frame_typed r \<longrightarrow> read_result mem = Some (frame_view r)"
proof (cases has_required)
  case False
  then show ?thesis using no_pointer by (simp add: serialize_result_v1_def)
next
  case True
  show ?thesis
  proof (cases rule: serialize_body_dry [of r])
    case (threw e)
    then show ?thesis using that(2) True by (simp add: serialize_result_v1_def serialize_impl_def dry_def)
  next
    case (size n w)
    show ?thesis
    proof (cases "\<exists>x. b = Some x \<and> n \<le> length (ob_bytes x)")
      case False
      then show ?thesis using small True size
        by (cases b) (simp_all add: serialize_result_v1_def serialize_impl_def dry_def)
    next
      case True': True
      then obtain x where x: "b = Some x" "n \<le> length (ob_bytes x)" by blast
      show ?thesis
      proof (cases "ob_address x mod 4 = 0")
        case True
        with serialize_fits [OF size(1)] x written \<open>has_required\<close> size show ?thesis by metis
      next
        case False
        with unaligned x \<open>has_required\<close> size show ?thesis
          by (simp add: serialize_result_v1_def serialize_impl_def dry_def)
      qed
    qed
  qed
qed

text \<open>A frame with one plate for the witnesses.\<close>

definition one_plate_frame :: LprPipelineResult where
  "one_plate_frame = empty_pipeline_result\<lparr>lpr_recognitions := [empty_result\<lparr>
     res_plate := ''34ABC12'', res_confidence := Fin (3/4),
     res_bbox := Some \<lparr>bb_x = Fin 1, bb_y = Fin 2, bb_width = Fin 30, bb_height = Fin 8\<rparr>,
     res_alternatives := [\<lparr>cand_text = ''34A'', cand_confidence = Fin (1/2), cand_calibrated = Fin 0, cand_format_valid = False\<rparr>],
     res_decision_reasons := [accepted_consensus]\<rparr>]\<rparr>"

lemma one_plate_frame_size: "serialize_body one_plate_frame (dry 0) = Inr (220, dry 220)"
  by (simp add: serialize_body_def one_plate_frame_def empty_pipeline_result_def empty_result_def
      wr_bind_def wr_lift_def wr_return_def wr_write_def write_bytes_def reserve_def align_position_def append_array_def
      append_text_def serialize_plate_def serialize_candidate_def append_candidates_def append_evidence_def
      append_reasons_def checked_array_bytes_def to_u32_def element_offset_def max_result_bytes_def
      default_resource_budget_def probability_float_def latency_to_float_def finite_float_def wire_bbox_def
      wire_quadrilateral_def largest_def binary32_def Let_def not_less)

lemma one_plate_frame_typed: "frame_typed one_plate_frame"
proof -
  have "round_fl binary32 x = Fin x" if "x \<in> {0, 1, 2, 8, 30, 1/2, 3/4}" for x
    using that by (elim insertE emptyE) (simp_all only:, code_simp+)
  then show ?thesis
    by (simp add: frame_typed_def one_plate_frame_def empty_pipeline_result_def empty_result_def result_typed_def
        candidate_typed_def)
qed

text \<open>
  C14: the buffer can be read back: when a call succeeds, a reader that follows the offsets and
  counts of the header finds, from the bytes alone, every recognition of the frame with its plate,
  scores, box, corners, evidence, alternatives and reasons (latencies narrowed to \<open>float\<close>).
\<close>

theorem result_buffer_roundtrip:
  assumes "serialize_result_v1 r (Some b) has_required = (FAC_LPR_STATUS_OK, required, Some mem)" and "frame_typed r"
  shows "read_result mem = Some (frame_view r)"
  using assms by (cases rule: serialize_result_cases [of has_required r "Some b"])
    (auto simp: caught_status_def to_c_status_def wire_error_def)

theorem result_buffer_roundtrip_witness:
  "\<exists>required mem. serialize_result_v1 one_plate_frame (Some \<lparr>ob_address = 4096, ob_bytes = replicate 300 7\<rparr>) True =
      (FAC_LPR_STATUS_OK, required, Some mem) \<and> read_result mem = Some (frame_view one_plate_frame)"
proof -
  obtain mem where m: "serialize_result_v1 one_plate_frame (Some \<lparr>ob_address = 4096, ob_bytes = replicate 300 7\<rparr>) True =
      (FAC_LPR_STATUS_OK, Some 220, Some mem)"
    using serialize_fits [OF one_plate_frame_size, of "\<lparr>ob_address = 4096, ob_bytes = replicate 300 7\<rparr>"] by auto
  from m result_buffer_roundtrip [OF m one_plate_frame_typed] show ?thesis by blast
qed

text \<open>
  C15: asking for the size and calling again works: if a call without a buffer reports a size, then
  a call with an aligned buffer of at least that size succeeds, reports the same size and changes
  only that many bytes; with a shorter buffer it reports the size again and changes nothing.
\<close>

theorem size_probe_then_write:
  assumes "serialize_result_v1 r None True = (FAC_LPR_STATUS_BUFFER_TOO_SMALL, Some n, None)" and "ob_address b mod 4 = 0"
  shows "if n \<le> length (ob_bytes b)
     then \<exists>mem. serialize_result_v1 r (Some b) True = (FAC_LPR_STATUS_OK, Some n, Some mem) \<and>
        length mem = length (ob_bytes b) \<and> drop n mem = drop n (ob_bytes b)
     else serialize_result_v1 r (Some b) True = (FAC_LPR_STATUS_BUFFER_TOO_SMALL, Some n, Some (ob_bytes b))"
proof (cases rule: serialize_result_cases [of True r None])
  case (small n' w)
  with assms(1) have n: "serialize_body r (dry 0) = Inr (n, w)" by simp
  show ?thesis
  proof (cases "n \<le> length (ob_bytes b)")
    case True
    obtain mem where m: "serialize_result_v1 r (Some b) True = (FAC_LPR_STATUS_OK, Some n, Some mem)"
      "agree (- {0..<n}) (ob_bytes b) mem" using serialize_fits [OF n assms(2) True] by blast
    have "drop n mem = drop n (ob_bytes b)" using m(2) by (intro nth_equalityI) (auto simp: agree_def)
    with m True show ?thesis by (auto simp: agree_def)
  next
    case False
    with n show ?thesis by (simp add: serialize_result_v1_def serialize_impl_def dry_def)
  qed
qed (use assms(1) in \<open>auto simp: caught_status_def to_c_status_def wire_error_def\<close>)

theorem size_probe_then_write_witness:
  "serialize_result_v1 one_plate_frame (Some \<lparr>ob_address = 8, ob_bytes = replicate 219 0\<rparr>) True =
     (FAC_LPR_STATUS_BUFFER_TOO_SMALL, Some 220, Some (replicate 219 0))"
proof -
  have "serialize_result_v1 one_plate_frame None True = (FAC_LPR_STATUS_BUFFER_TOO_SMALL, Some 220, None)"
    using one_plate_frame_size by (simp add: serialize_result_v1_def serialize_impl_def dry_def)
  from size_probe_then_write [OF this, of "\<lparr>ob_address = 8, ob_bytes = replicate 219 0\<rparr>"] show ?thesis by simp
qed

text \<open>
  The outcomes of serialization are five statuses, never the internal error: the second pass
  cannot fail after the first succeeded. The reported size is within the 64 MiB budget, and unless
  the status is OK, the caller's bytes are as they were.
\<close>

theorem serialize_result_never_internal:
  "case serialize_result_v1 r b has_required of (status, required, mem) \<Rightarrow>
     status \<in> {FAC_LPR_STATUS_OK, FAC_LPR_STATUS_BUFFER_TOO_SMALL, FAC_LPR_STATUS_CONFIGURATION_ERROR,
       FAC_LPR_STATUS_PROVIDER_ERROR, FAC_LPR_STATUS_RESOURCE_EXHAUSTED} \<and>
     (case required of None \<Rightarrow> \<not> has_required | Some n \<Rightarrow> n \<le> 64 * 1024 * 1024) \<and>
     (if status = FAC_LPR_STATUS_OK then map_option length mem = map_option (length \<circ> ob_bytes) b
      else mem = map_option ob_bytes b)"
proof -
  have max: "max_result_bytes = 64 * 1024 * 1024" by (simp add: max_result_bytes_def default_resource_budget_def)
  show ?thesis
  proof (cases rule: serialize_result_cases [of has_required r b])
    case (threw e)
    then show ?thesis by (auto simp: caught_status_def to_c_status_def wire_error_def)
  next
    case (written n w x mem)
    then show ?thesis using max by (simp add: agree_def)
  qed (use max in simp_all)
qed

end
