(* ===== verification/C_Api.thy ===== *)
theory C_Api
  imports Result_Buffer
begin

text \<open>
  The C boundary (\<^verbatim>\<open>c_api/fac_lpr_engine_c_api.cpp\<close>): engine handles, the thread-local last error and
  the calls. A handle is the address of a live engine; 0 is \<open>nullptr\<close>. Each call is one step: the set of
  live handles is behind a mutex, and an exception of the body becomes a status and a message. The
  address of a new engine is chosen by the allocator, and so a parameter: any non-null address that
  no live engine has.
\<close>

section \<open>State\<close>

record CApi =
  api_live :: "nat \<Rightarrow> Pipeline option option"     \<comment> \<open>live handles and their pipeline, which may be null\<close>
  api_last_error :: "nat \<Rightarrow> string"                \<comment> \<open>of each thread\<close>

definition error_message :: "exn \<Rightarrow> string" where
  "error_message e =
     (case e of EngineError _ msg \<Rightarrow> msg | BadAlloc \<Rightarrow> ''C ABI allocation failed'' | _ \<Rightarrow> ''C ABI internal error'')"

text \<open>A body returns its status or its exception, its outputs and the state with what it did.\<close>

definition invoke_c_api :: "nat \<Rightarrow> (CApi \<Rightarrow> fac_lpr_status result \<times> 'o \<times> CApi) \<Rightarrow> CApi \<Rightarrow> fac_lpr_status \<times> 'o \<times> CApi" where
  "invoke_c_api thread body s =
     (case body (s\<lparr>api_last_error := (api_last_error s)(thread := [])\<rparr>) of
        (Inr status, out, s') \<Rightarrow> (status, out, s')
      | (Inl e, out, s') \<Rightarrow>
          (caught_status e, out, s'\<lparr>api_last_error := (api_last_error s')(thread := error_message e)\<rparr>))"

section \<open>Arguments\<close>

record EngineConfigV1 =
  ec_struct_size :: u32
  ec_abi_version :: u32
  ec_reserved_flags :: u32
  ec_reserved_zero :: u32

definition validate_config :: "EngineConfigV1 option \<Rightarrow> unit result" where
  "validate_config config =
     (case config of None \<Rightarrow> Inr ()
      | Some c \<Rightarrow> check_all
          [throw_if (ec_struct_size c < 16) (ConfigurationError ''C ABI v1 config struct is too small''),
           throw_if (ec_abi_version c \<noteq> 1) (ConfigurationError ''unsupported C ABI version''),
           throw_if (ec_reserved_flags c \<noteq> 0 \<or> ec_reserved_zero c \<noteq> 0)
             (ConfigurationError ''C ABI v1 reserved config fields must be zero'')])"

definition validate_required_utf8_path :: "string option \<Rightarrow> string \<Rightarrow> unit result" where
  "validate_required_utf8_path v field =
     throw_if (v = None \<or> v = Some []) (ConfigurationError (field @ '' is required''))"

record ImageViewV1 =
  iv_struct_size :: u32
  iv_abi_version :: u32
  iv_data :: "byte list option"       \<comment> \<open>what the pointer points to, or null\<close>
  iv_data_size :: "64 word"
  iv_width :: u32
  iv_height :: u32
  iv_stride_bytes :: u32
  iv_pixel_format :: u32

definition to_pixel_format :: "u32 \<Rightarrow> PixelFormat result" where
  "to_pixel_format f =
     (if f = 0 then Inr gray8 else if f = 1 then Inr bgr8 else if f = 2 then Inr rgb8
      else Inl (InvalidImageError ''unsupported C ABI pixel format''))"

definition api_checked_multiply :: "64 word \<Rightarrow> 64 word \<Rightarrow> string \<Rightarrow> 64 word result" where
  "api_checked_multiply left right field =
     (if left \<noteq> 0 \<and> right > size_max div left then Inl (InvalidImageError (field @ '' overflows size_t''))
      else Inr (left * right))"

definition api_checked_add :: "64 word \<Rightarrow> 64 word \<Rightarrow> string \<Rightarrow> 64 word result" where
  "api_checked_add left right field =
     (if right > size_max - left then Inl (InvalidImageError (field @ '' overflows size_t'')) else Inr (left + right))"

definition api_validate_image :: "ImageViewV1 option \<Rightarrow> ImageView result" where
  "api_validate_image img =
     (case img of None \<Rightarrow> Inl (InvalidImageError ''C ABI image is null'')
      | Some i \<Rightarrow>
          if iv_struct_size i < 40 \<or> iv_abi_version i \<noteq> 1
          then Inl (InvalidImageError ''C ABI image struct/version is invalid'')
          else if iv_data i = None \<or> iv_data_size i = 0 \<or> iv_width i = 0 \<or> iv_height i = 0 \<or> iv_stride_bytes i = 0
          then Inl (InvalidImageError ''C ABI image fields are incomplete'')
          else res_bind (to_pixel_format (iv_pixel_format i)) (\<lambda>format.
            let channels = pixel_format_channels format in
            res_bind (api_checked_multiply (ucast (iv_width i)) channels ''C ABI packed row'') (\<lambda>packed_row.
            res_bind (throw_if (ucast (iv_stride_bytes i) < packed_row) (InvalidImageError ''C ABI image stride is too small'')) (\<lambda>_.
            res_bind (api_checked_multiply (ucast (iv_height i) - 1) (ucast (iv_stride_bytes i)) ''C ABI image tail'') (\<lambda>tail.
            res_bind (api_checked_add tail packed_row ''C ABI image extent'') (\<lambda>required.
            res_bind (throw_if (required > iv_data_size i) (InvalidImageError ''C ABI image buffer is too small'')) (\<lambda>_.
            Inr \<lparr>img_bytes = take (unat (iv_data_size i)) (the (iv_data i)), img_width = ucast (iv_width i),
                 img_height = ucast (iv_height i), img_stride = ucast (iv_stride_bytes i), img_format = format\<rparr>)))))))"

definition pipeline_for_live_handle :: "CApi \<Rightarrow> nat \<Rightarrow> Pipeline option result" where
  "pipeline_for_live_handle s handle =
     (if handle = 0 then Inl (ConfigurationError ''C ABI engine handle is null or invalid'')
      else case api_live s handle of
        None \<Rightarrow> Inl (ConfigurationError ''C ABI engine handle is null or invalid'')
      | Some pipeline \<Rightarrow> Inr pipeline)"

definition publish_handle :: "nat \<Rightarrow> Pipeline option \<Rightarrow> CApi \<Rightarrow> CApi" where
  "publish_handle addr pipeline s = s\<lparr>api_live := (api_live s)(addr \<mapsto> pipeline)\<rparr>"

section \<open>The calls\<close>

record VersionInfoV1 =
  vf_struct_size :: u32
  vf_abi_version :: u32
  vf_semantic_major :: u32
  vf_semantic_minor :: u32
  vf_semantic_patch :: u32
  vf_abi_major :: u32

text \<open>The three semantic version numbers come from the build.\<close>

definition get_version_v1 :: "u32 \<times> u32 \<times> u32 \<Rightarrow> nat \<Rightarrow> VersionInfoV1 option \<Rightarrow> CApi \<Rightarrow>
    fac_lpr_status \<times> VersionInfoV1 option \<times> CApi" where
  "get_version_v1 build thread out_version = invoke_c_api thread (\<lambda>s.
     case out_version of
       None \<Rightarrow> (Inl (ConfigurationError ''C ABI version output pointer is null''), None, s)
     | Some v \<Rightarrow>
         if vf_struct_size v < 24 then (Inl (ConfigurationError ''C ABI version info struct is too small''), Some v, s)
         else if vf_abi_version v \<noteq> 1 then (Inl (ConfigurationError ''unsupported version query ABI''), Some v, s)
         else (Inr FAC_LPR_STATUS_OK,
           Some (v\<lparr>vf_semantic_major := fst build, vf_semantic_minor := fst (snd build),
                   vf_semantic_patch := snd (snd build), vf_abi_major := 1\<rparr>), s))"

text \<open>The output of a creation is the value stored through \<open>out_handle\<close>, none if that pointer is null.\<close>

definition engine_create_v1 :: "nat \<Rightarrow> EngineConfigV1 option \<Rightarrow> bool \<Rightarrow> nat \<Rightarrow> CApi \<Rightarrow>
    fac_lpr_status \<times> nat option \<times> CApi" where
  "engine_create_v1 thread config has_out addr = invoke_c_api thread (\<lambda>s.
     if \<not> has_out then (Inl (ConfigurationError ''C ABI output handle pointer is null''), None, s)
     else case validate_config config of
       Inl e \<Rightarrow> (Inl e, Some 0, s)
     | Inr _ \<Rightarrow> (Inr FAC_LPR_STATUS_OK, Some addr, publish_handle addr None s))"

text \<open>The production factory is outside the library; a build without it has none.\<close>

definition engine_create_from_contract_v1 :: "(string \<Rightarrow> string \<Rightarrow> Pipeline result) option \<Rightarrow> nat \<Rightarrow> EngineConfigV1 option \<Rightarrow>
    string option \<Rightarrow> string option \<Rightarrow> bool \<Rightarrow> nat \<Rightarrow> CApi \<Rightarrow> fac_lpr_status \<times> nat option \<times> CApi" where
  "engine_create_from_contract_v1 factory thread config contract_path model_directory has_out addr = invoke_c_api thread (\<lambda>s.
     if \<not> has_out then (Inl (ConfigurationError ''C ABI output handle pointer is null''), None, s)
     else case check_all [validate_config config,
         validate_required_utf8_path contract_path ''C ABI production contract path'',
         validate_required_utf8_path model_directory ''C ABI model directory''] of
       Inl e \<Rightarrow> (Inl e, Some 0, s)
     | Inr _ \<Rightarrow>
         (case factory of
            None \<Rightarrow> (Inl (ConfigurationError (''production pipeline factory is unavailable in this build; '' @
               ''enable FAC_LPR_WITH_ONNX_RUNTIME and FAC_LPR_WITH_OPENCV'')), Some 0, s)
          | Some build \<Rightarrow>
              (case build (the model_directory) (the contract_path) of
                 Inl e \<Rightarrow> (Inl e, Some 0, s)
               | Inr p \<Rightarrow> (Inr FAC_LPR_STATUS_OK, Some addr, publish_handle addr (Some p) s))))"

text \<open>The output is the caller's handle variable afterwards, none if the pointer to it is null.\<close>

definition engine_destroy_v1 :: "nat \<Rightarrow> nat option \<Rightarrow> CApi \<Rightarrow> fac_lpr_status \<times> nat option \<times> CApi" where
  "engine_destroy_v1 thread handle = invoke_c_api thread (\<lambda>s.
     case handle of
       None \<Rightarrow> (Inr FAC_LPR_STATUS_OK, None, s)
     | Some h \<Rightarrow>
         if h = 0 then (Inr FAC_LPR_STATUS_OK, Some 0, s)
         else (Inr FAC_LPR_STATUS_OK, Some 0, s\<lparr>api_live := (api_live s)(h := None)\<rparr>))"

text \<open>The required size stored for the caller, the buffer afterwards, and the world's instant.\<close>

definition engine_recognize_v1 :: "nat \<Rightarrow> nat \<Rightarrow> ImageViewV1 option \<Rightarrow> OutputBuffer option \<Rightarrow> bool \<Rightarrow> World \<Rightarrow> nat \<Rightarrow> CApi \<Rightarrow>
    fac_lpr_status \<times> (nat option \<times> byte list option \<times> nat) \<times> CApi" where
  "engine_recognize_v1 thread handle img output_buffer has_required w n = invoke_c_api thread (\<lambda>s.
     let bytes = map_option ob_bytes output_buffer in
     if \<not> has_required
     then (Inl (ConfigurationError ''C ABI required output size pointer is null''), (None, bytes, n), s)
     else case res_bind (pipeline_for_live_handle s handle) (\<lambda>pipeline.
         res_bind (api_validate_image img) (\<lambda>image_view.
         case pipeline of
           None \<Rightarrow> Inl (ConfigurationError ''C ABI engine handle has no configured pipeline'')
         | Some p \<Rightarrow> Inr (p, image_view))) of
       Inl e \<Rightarrow> (Inl e, (Some 0, bytes, n), s)
     | Inr (p, image_view) \<Rightarrow>
         (case recognize p image_view default_context w n of
            (Inl e, n') \<Rightarrow> (Inl e, (Some 0, bytes, n'), s)
          | (Inr (recognition, p'), n') \<Rightarrow>
              (case serialize_result_v1 recognition output_buffer has_required of
                 (status, required, mem) \<Rightarrow>
                   (Inr status, (required, mem, n'), s\<lparr>api_live := (api_live s)(handle \<mapsto> Some p')\<rparr>))))"

text \<open>The size stored for the caller, none if that pointer is null, and the buffer afterwards.\<close>

definition get_last_error_v1 :: "nat \<Rightarrow> byte list option \<Rightarrow> bool \<Rightarrow> CApi \<Rightarrow> fac_lpr_status \<times> nat option \<times> byte list option" where
  "get_last_error_v1 thread buffer has_required s =
     (let message = api_last_error s thread; needed = length message + 1 in
      if \<not> has_required then (FAC_LPR_STATUS_CONFIGURATION_ERROR, None, buffer)
      else case buffer of
        None \<Rightarrow> (FAC_LPR_STATUS_BUFFER_TOO_SMALL, Some needed, None)
      | Some mem \<Rightarrow>
          if length mem < needed then (FAC_LPR_STATUS_BUFFER_TOO_SMALL, Some needed, buffer)
          else (FAC_LPR_STATUS_OK, Some needed,
            Some (store (store mem 0 (text_bytes message)) (length message) [0])))"

section \<open>Steps\<close>

text \<open>
  What the threads of a client can do, in any order. The label is the address at which an engine
  came to life. The allocator never gives null or the address of a live engine.
\<close>

inductive api_step :: "CApi \<Rightarrow> nat option \<Rightarrow> CApi \<Rightarrow> bool" where
  version: "get_version_v1 build t v s = (st, out, s') \<Longrightarrow> api_step s None s'"
| create: "engine_create_v1 t config has_out addr s = (st, out, s') \<Longrightarrow> addr \<noteq> 0 \<Longrightarrow> api_live s addr = None \<Longrightarrow>
    api_step s (if st = FAC_LPR_STATUS_OK then Some addr else None) s'"
| create_from_contract: "engine_create_from_contract_v1 factory t config contract models has_out addr s = (st, out, s') \<Longrightarrow>
    addr \<noteq> 0 \<Longrightarrow> api_live s addr = None \<Longrightarrow> api_step s (if st = FAC_LPR_STATUS_OK then Some addr else None) s'"
| destroy: "engine_destroy_v1 t handle s = (st, out, s') \<Longrightarrow> api_step s None s'"
| recognition: "engine_recognize_v1 t handle img buf has_required w n s = (st, out, s') \<Longrightarrow> api_step s None s'"

inductive api_steps :: "CApi \<Rightarrow> nat set \<Rightarrow> CApi \<Rightarrow> bool" where
  no_step: "api_steps s {} s"
| more_steps: "api_steps s born t \<Longrightarrow> api_step t (Some addr) u \<Longrightarrow> api_steps s (insert addr born) u"
| quiet_steps: "api_steps s born t \<Longrightarrow> api_step t None u \<Longrightarrow> api_steps s born u"

lemmas api_defs = get_version_v1_def engine_create_v1_def engine_create_from_contract_v1_def engine_destroy_v1_def
  engine_recognize_v1_def

lemma invoke_cases:
  assumes "invoke_c_api t body s = (st, out, s')"
  obtains (returned) "body (s\<lparr>api_last_error := (api_last_error s)(t := [])\<rparr>) = (Inr st, out, s')"
  | (threw) e u where "body (s\<lparr>api_last_error := (api_last_error s)(t := [])\<rparr>) = (Inl e, out, u)" and "st = caught_status e"
      and "s' = u\<lparr>api_last_error := (api_last_error u)(t := error_message e)\<rparr>"
  using assms by (auto simp: invoke_c_api_def split: prod.splits sum.splits)

lemma caught_not_ok [simp]: "caught_status e \<noteq> FAC_LPR_STATUS_OK"
  by (cases e; simp add: caught_status_def) (simp add: to_c_status_def split: EngineErrorCode.splits)

text \<open>The handles after each call.\<close>

lemma version_live: "get_version_v1 build t v s = (st, out, s') \<Longrightarrow> api_live s' = api_live s"
  by (auto simp: get_version_v1_def invoke_c_api_def split: option.splits if_splits)

lemma create_live:
  "engine_create_v1 t config has_out addr s = (st, out, s') \<Longrightarrow>
    api_live s' = (if st = FAC_LPR_STATUS_OK then (api_live s)(addr \<mapsto> None) else api_live s)"
  unfolding engine_create_v1_def
  by (erule invoke_cases) (auto simp: publish_handle_def split: if_splits sum.splits)

lemma create_from_contract_live:
  "engine_create_from_contract_v1 factory t config contract models has_out addr s = (st, out, s') \<Longrightarrow>
    \<exists>p. api_live s' = (if st = FAC_LPR_STATUS_OK then (api_live s)(addr \<mapsto> Some p) else api_live s)"
  unfolding engine_create_from_contract_v1_def
  by (erule invoke_cases) (auto simp: publish_handle_def split: if_splits sum.splits option.splits)

lemma destroy_live:
  "engine_destroy_v1 t handle s = (st, out, s') \<Longrightarrow>
    st = FAC_LPR_STATUS_OK \<and> out = map_option (\<lambda>_. 0) handle \<and>
    api_live s' = (case handle of None \<Rightarrow> api_live s | Some h \<Rightarrow> if h = 0 then api_live s else (api_live s)(h := None))"
  unfolding engine_destroy_v1_def
  by (erule invoke_cases) (auto split: option.splits if_splits)

lemma pipeline_for_live_handle_Inr:
  "pipeline_for_live_handle s h = Inr p \<longleftrightarrow> h \<noteq> 0 \<and> api_live s h = Some p"
  by (auto simp: pipeline_for_live_handle_def split: option.splits)

text \<open>A recognition that went past the checks, and one that did not.\<close>

lemma recognize_cases:
  assumes "engine_recognize_v1 t h img buf has_required w n s = (st, out, s')"
  obtains (rejected) e k where "st = caught_status e" and "api_last_error s' t = error_message e" and "api_live s' = api_live s"
      and "out = (if has_required then Some 0 else None, map_option ob_bytes buf, k)"
      and "\<And>t'. t' \<noteq> t \<Longrightarrow> api_last_error s' t' = api_last_error s t'"
  | (answered) p iv r p' n' required mem where "has_required" and "h \<noteq> 0" and "api_live s h = Some (Some p)"
      and "api_validate_image img = Inr iv" and "recognize p iv default_context w n = (Inr (r, p'), n')"
      and "serialize_result_v1 r buf True = (st, required, mem)" and "out = (required, mem, n')"
      and "s' = s\<lparr>api_last_error := (api_last_error s)(t := []), api_live := (api_live s)(h \<mapsto> Some p')\<rparr>"
proof -
  let ?s = "s\<lparr>api_last_error := (api_last_error s)(t := [])\<rparr>"
  let ?checks = "res_bind (pipeline_for_live_handle ?s h) (\<lambda>pipeline. res_bind (api_validate_image img) (\<lambda>image_view.
         case pipeline of
           None \<Rightarrow> Inl (ConfigurationError ''C ABI engine handle has no configured pipeline'')
         | Some p \<Rightarrow> Inr (p, image_view)))"
  show ?thesis
  proof (cases has_required)
    case False
    then show ?thesis using assms rejected by (auto simp: engine_recognize_v1_def invoke_c_api_def Let_def)
  next
    case req: True
    show ?thesis
    proof (cases ?checks)
      case (Inl e)
      then show ?thesis using req assms rejected by (auto simp: engine_recognize_v1_def invoke_c_api_def Let_def)
    next
      case (Inr x)
      then obtain p iv where x: "x = (p, iv)" "h \<noteq> 0" "api_live s h = Some (Some p)" "api_validate_image img = Inr iv"
        by (auto simp: res_bind_eq_Inr pipeline_for_live_handle_Inr split: option.splits)
      obtain res n' where rec: "recognize p iv default_context w n = (res, n')" by force
      show ?thesis
      proof (cases res)
        case (Inl e)
        with Inr x rec show ?thesis using req assms rejected by (auto simp: engine_recognize_v1_def invoke_c_api_def Let_def)
      next
        case (Inr y)
        obtain r p' where y: "y = (r, p')" by (cases y)
        obtain st' required mem where ser: "serialize_result_v1 r buf True = (st', required, mem)" by (metis prod.collapse)
        show ?thesis
          by (rule answered [OF req x(2,3,4), of r p' n' required mem])
            (use \<open>?checks = Inr x\<close> x(1) rec Inr y ser req assms in \<open>simp_all add: engine_recognize_v1_def invoke_c_api_def Let_def\<close>)
      qed
    qed
  qed
qed

lemma recognize_live:
  "engine_recognize_v1 t h img buf has_required w n s = (st, out, s') \<Longrightarrow> dom (api_live s') = dom (api_live s)"
  by (erule recognize_cases) (auto simp: dom_def)

text \<open>An address with no engine gets none unless one is created there.\<close>

lemma api_step_live:
  assumes "api_step s b s'"
  shows "dom (api_live s') \<subseteq> dom (api_live s) \<union> set_option b" and "0 \<notin> set_option b" and "b = Some a \<Longrightarrow> api_live s a = None"
proof -
  have "dom (api_live s') \<subseteq> dom (api_live s) \<union> set_option b \<and> 0 \<notin> set_option b \<and> (b = Some a \<longrightarrow> api_live s a = None)"
    using assms
  proof cases
    case (version build t v st out)
    then show ?thesis using version_live by simp
  next
    case (create t config has_out addr st out)
    then show ?thesis using create_live [OF create(2)] by (auto split: if_splits)
  next
    case (create_from_contract factory t config contract models has_out addr st out)
    then show ?thesis using create_from_contract_live [OF create_from_contract(2)] by (auto split: if_splits)
  next
    case (destroy t handle st out)
    then show ?thesis using destroy_live [OF destroy(2)] by (auto split: option.splits if_splits)
  next
    case (recognition t h img buf has_required w n st out)
    then show ?thesis using recognize_live by auto
  qed
  then show "dom (api_live s') \<subseteq> dom (api_live s) \<union> set_option b" "0 \<notin> set_option b" "b = Some a \<Longrightarrow> api_live s a = None"
    by simp_all
qed

lemma api_steps_live: "api_steps s born s' \<Longrightarrow> dom (api_live s') \<subseteq> dom (api_live s) \<union> born"
proof (induction rule: api_steps.induct)
  case (more_steps s born t addr u)
  have "dom (api_live u) \<subseteq> dom (api_live t) \<union> {addr}" using api_step_live(1) [OF more_steps.hyps(2)] by simp
  with more_steps.IH show ?case by blast
next
  case (quiet_steps s born t u)
  have "dom (api_live u) \<subseteq> dom (api_live t)" using api_step_live(1) [OF quiet_steps.hyps(2)] by simp
  with quiet_steps.IH show ?case by blast
qed blast

lemma dead_handle_rejected:
  assumes "h = 0 \<or> api_live s h = None"
  shows "engine_recognize_v1 t h img buf True w n s =
    (FAC_LPR_STATUS_CONFIGURATION_ERROR, (Some 0, map_option ob_bytes buf, n),
     s\<lparr>api_last_error := (api_last_error s)(t := ''C ABI engine handle is null or invalid'')\<rparr>)"
  using assms
  by (auto simp: engine_recognize_v1_def invoke_c_api_def pipeline_for_live_handle_def caught_status_def to_c_status_def
      error_message_def Let_def)

section \<open>Properties\<close>

definition api_start :: CApi where
  "api_start = \<lparr>api_live = Map.empty, api_last_error = (\<lambda>_. [])\<rparr>"

text \<open>
  C16: a destroyed handle is never served: after a destroy, and whatever the threads do next short of
  creating an engine at the same address, a recognition with the stale handle returns the
  configuration error with its message, stores the size zero and leaves the buffer as it is;
  destroying it again succeeds, clears the variable and changes no engine.
\<close>

theorem stale_handle_rejected:
  assumes "engine_destroy_v1 t (Some h) s = (st, out, s1)" and "api_steps s1 born s2" and "h \<notin> born"
  shows "st = FAC_LPR_STATUS_OK \<and> out = Some 0 \<and>
    engine_recognize_v1 t' h img buf True w n s2 =
      (FAC_LPR_STATUS_CONFIGURATION_ERROR, (Some 0, map_option ob_bytes buf, n),
       s2\<lparr>api_last_error := (api_last_error s2)(t' := ''C ABI engine handle is null or invalid'')\<rparr>) \<and>
    (case engine_destroy_v1 t' (Some h) s2 of (st', out', s3) \<Rightarrow>
       st' = FAC_LPR_STATUS_OK \<and> out' = Some 0 \<and> api_live s3 = api_live s2)"
proof -
  note d = destroy_live [OF assms(1)]
  have dead: "h = 0 \<or> api_live s2 h = None"
  proof (cases "h = 0")
    case False
    with d have "h \<notin> dom (api_live s1)" by simp
    with api_steps_live [OF assms(2)] assms(3) show ?thesis by blast
  qed simp
  obtain st' out' s3 where e: "engine_destroy_v1 t' (Some h) s2 = (st', out', s3)" by (metis prod.collapse)
  note d' = destroy_live [OF e]
  have "api_live s3 = api_live s2" using d' dead by (auto simp: fun_upd_idem)
  with d d' show ?thesis by (simp add: dead_handle_rejected [OF dead] e)
qed

theorem stale_handle_rejected_witness:
  "\<exists>s1 s2. engine_create_v1 7 None True 4096 api_start = (FAC_LPR_STATUS_OK, Some 4096, s1) \<and>
     engine_destroy_v1 7 (Some 4096) s1 = (FAC_LPR_STATUS_OK, Some 0, s2) \<and>
     fst (engine_recognize_v1 8 4096 None None True still_world 0 s2) = FAC_LPR_STATUS_CONFIGURATION_ERROR"
proof -
  obtain s1 where c: "engine_create_v1 7 None True 4096 api_start = (FAC_LPR_STATUS_OK, Some 4096, s1)"
    by (simp add: engine_create_v1_def invoke_c_api_def validate_config_def)
  obtain st out s2 where d: "engine_destroy_v1 7 (Some 4096) s1 = (st, out, s2)" by (metis prod.collapse)
  from stale_handle_rejected [OF d no_step, of 8 None None still_world 0] c d show ?thesis by simp
qed

text \<open>
  C17: a recognition that returns OK was served by the pipeline of its live handle, on the image the
  caller described, and its buffer reads back as the result of that pipeline; the reported size is
  the part of the buffer in use, and no error is left for the thread.
\<close>

theorem recognition_delivers_result:
  assumes "engine_recognize_v1 t h img (Some b) has_required w n s = (FAC_LPR_STATUS_OK, (required, mem, n'), s')"
  shows "\<exists>p iv r p' size mem'. api_live s h = Some (Some p) \<and> api_validate_image img = Inr iv \<and>
    recognize p iv default_context w n = (Inr (r, p'), n') \<and> api_live s' = (api_live s)(h \<mapsto> Some p') \<and>
    required = Some size \<and> mem = Some mem' \<and> length mem' = length (ob_bytes b) \<and> size \<le> length mem' \<and>
    drop size mem' = drop size (ob_bytes b) \<and> (frame_typed r \<longrightarrow> read_result mem' = Some (frame_view r)) \<and>
    api_last_error s' t = []"
  using assms
proof (cases rule: recognize_cases)
  case (answered p iv r p' k required' mem')
  from answered(6) obtain size x where w: "required' = Some size" "size \<le> length (ob_bytes b)" "mem' = Some x"
    "agree (- {0..<size}) (ob_bytes b) x" "frame_typed r \<longrightarrow> read_result x = Some (frame_view r)"
    by (cases rule: serialize_result_cases [of True r "Some b"]) (auto simp: caught_status_def to_c_status_def wire_error_def)
  have "drop size x = drop size (ob_bytes b)" using w(4) by (intro nth_equalityI) (auto simp: agree_def)
  moreover have "length x = length (ob_bytes b)" using w(4) by (simp add: agree_def)
  ultimately show ?thesis using answered w(1-3,5) by simp
next
  case (rejected e k)
  then show ?thesis using caught_not_ok [of e] by simp
qed

text \<open>A live engine whose detector finds nothing.\<close>

definition empty_scene_pipeline :: Pipeline where
  "empty_scene_pipeline = demo_pipeline\<lparr>pl_detect := (\<lambda>_ _. io_return []), pl_diagnostics := None\<rparr>"

definition one_engine :: CApi where
  "one_engine = publish_handle 4096 (Some empty_scene_pipeline) api_start"

definition gray_pixel_v1 :: ImageViewV1 where
  "gray_pixel_v1 = \<lparr>iv_struct_size = 40, iv_abi_version = 1, iv_data = Some [0], iv_data_size = 1, iv_width = 1,
     iv_height = 1, iv_stride_bytes = 1, iv_pixel_format = 0\<rparr>"

lemma gray_pixel_v1_valid: "api_validate_image (Some gray_pixel_v1) = Inr gray_pixel"
  by (simp add: api_validate_image_def gray_pixel_v1_def gray_pixel_def to_pixel_format_def pixel_format_channels_def
      api_checked_multiply_def api_checked_add_def throw_if_def size_max_def)

lemma empty_scene_recognize:
  obtains r n' where "recognize empty_scene_pipeline gray_pixel default_context still_world 0 = (Inr (r, empty_scene_pipeline), n')"
    and "lpr_recognitions r = []" and "lpr_total_latency_ms r = Fin 0" and "lpr_provider_failure_count r = 0"
proof -
  have "\<exists>r n'. recognize empty_scene_pipeline gray_pixel default_context still_world 0 = (Inr (r, empty_scene_pipeline), n') \<and>
      lpr_recognitions r = [] \<and> lpr_total_latency_ms r = Fin 0 \<and> lpr_provider_failure_count r = 0"
    by (simp add: recognize_def pipeline_recognize_def empty_scene_pipeline_def demo_pipeline_def io_bind_def
        io_return_def io_now_def io_lift_def add_timing_eq check_context_def gray_pixel_valid
        empty_pipeline_result_def still_world_def milliseconds_between_def fl_of_int_def timed_def)
      (simp add: fmax_def)
  then show ?thesis using that by blast
qed

lemma empty_frame_size:
  assumes "lpr_recognitions r = []" and "lpr_total_latency_ms r = Fin 0" and "lpr_provider_failure_count r = 0"
  shows "serialize_body r (dry 0) = Inr (32, dry 32)"
  using assms
  by (simp add: serialize_body_def wr_bind_def wr_lift_def wr_return_def wr_write_def reserve_def align_position_def
      append_array_def to_u32_def max_result_bytes_def default_resource_budget_def latency_to_float_def largest_def
      binary32_def not_less)

lemma empty_scene_call:
  assumes "ob_address b mod 4 = 0" and "32 \<le> length (ob_bytes b)"
  obtains mem n' s' where "engine_recognize_v1 t 4096 (Some gray_pixel_v1) (Some b) True still_world 0 one_engine =
      (FAC_LPR_STATUS_OK, (Some 32, Some mem, n'), s')"
proof -
  obtain r n' where r: "recognize empty_scene_pipeline gray_pixel default_context still_world 0 = (Inr (r, empty_scene_pipeline), n')"
    "lpr_recognitions r = []" "lpr_total_latency_ms r = Fin 0" "lpr_provider_failure_count r = 0"
    by (rule empty_scene_recognize)
  obtain mem where "serialize_result_v1 r (Some b) True = (FAC_LPR_STATUS_OK, Some 32, Some mem)"
    using serialize_fits [OF empty_frame_size [OF r(2-4)] assms] by blast
  with r(1) that show ?thesis
    by (simp add: engine_recognize_v1_def invoke_c_api_def one_engine_def publish_handle_def api_start_def
        pipeline_for_live_handle_def gray_pixel_v1_valid Let_def)
qed

theorem recognition_delivers_result_witness:
  "\<exists>mem n' s'. engine_recognize_v1 1 4096 (Some gray_pixel_v1) (Some \<lparr>ob_address = 64, ob_bytes = replicate 40 255\<rparr>) True
      still_world 0 one_engine = (FAC_LPR_STATUS_OK, (Some 32, Some mem, n'), s') \<and> drop 32 mem = replicate 8 255"
proof -
  obtain mem n' s' where m: "engine_recognize_v1 1 4096 (Some gray_pixel_v1) (Some \<lparr>ob_address = 64, ob_bytes = replicate 40 255\<rparr>) True
      still_world 0 one_engine = (FAC_LPR_STATUS_OK, (Some 32, Some mem, n'), s')"
    using empty_scene_call [of "\<lparr>ob_address = 64, ob_bytes = replicate 40 255\<rparr>" 1] by auto
  from recognition_delivers_result [OF m] have "drop 32 mem = drop 32 (replicate 40 (255 :: byte))" by auto
  then have "drop 32 mem = replicate 8 255" by simp
  with m show ?thesis by blast
qed

text \<open>
  A failure of the serializer leaves no message: when the pipeline has answered, the thread's
  last error is empty whatever status the call returns, so a caller that is refused (a score that
  is not a probability, a buffer that is not aligned) reads an empty text.
\<close>

theorem serialization_failure_is_silent:
  assumes "api_live s h = Some (Some p)" and "h \<noteq> 0" and "api_validate_image img = Inr iv"
    and "recognize p iv default_context w n = (Inr (r, p'), n')"
  shows "\<exists>status out s'. engine_recognize_v1 t h img buf True w n s = (status, out, s') \<and>
    status = fst (serialize_result_v1 r buf True) \<and> api_last_error s' t = []"
  using assms
  by (simp add: engine_recognize_v1_def invoke_c_api_def pipeline_for_live_handle_def Let_def split: prod.splits)

theorem serialization_failure_is_silent_witness:
  "\<exists>out s'. engine_recognize_v1 1 4096 (Some gray_pixel_v1) (Some \<lparr>ob_address = 65, ob_bytes = replicate 40 0\<rparr>) True
      still_world 0 one_engine = (FAC_LPR_STATUS_CONFIGURATION_ERROR, out, s') \<and>
     get_last_error_v1 1 None True s' = (FAC_LPR_STATUS_BUFFER_TOO_SMALL, Some 1, None)"
proof -
  obtain r n' where r: "recognize empty_scene_pipeline gray_pixel default_context still_world 0 = (Inr (r, empty_scene_pipeline), n')"
    "lpr_recognitions r = []" "lpr_total_latency_ms r = Fin 0" "lpr_provider_failure_count r = 0"
    by (rule empty_scene_recognize)
  have "fst (serialize_result_v1 r (Some \<lparr>ob_address = 65, ob_bytes = replicate 40 0\<rparr>) True) = FAC_LPR_STATUS_CONFIGURATION_ERROR"
    using empty_frame_size [OF r(2-4)] by (simp add: serialize_result_v1_def serialize_impl_def dry_def)
  moreover have "api_live one_engine 4096 = Some (Some empty_scene_pipeline)" by (simp add: one_engine_def publish_handle_def)
  from serialization_failure_is_silent [OF this _ gray_pixel_v1_valid r(1), of 1 "Some \<lparr>ob_address = 65, ob_bytes = replicate 40 0\<rparr>"]
  obtain status out s' where "engine_recognize_v1 1 4096 (Some gray_pixel_v1) (Some \<lparr>ob_address = 65, ob_bytes = replicate 40 0\<rparr>) True
      still_world 0 one_engine = (status, out, s')"
    "status = fst (serialize_result_v1 r (Some \<lparr>ob_address = 65, ob_bytes = replicate 40 0\<rparr>) True)" "api_last_error s' 1 = []"
    by auto
  ultimately show ?thesis by (intro exI [of _ out] exI [of _ s']) (simp add: get_last_error_v1_def)
qed

text \<open>
  The error text protocol: after a call that was refused before the pipeline answered, the same
  thread reads the message of that exception: the first call reports its size with the final NUL,
  a call with a buffer of that size stores the text and the NUL, and calls of other threads in
  between do not change it.
\<close>

theorem last_error_roundtrip:
  assumes "engine_create_v1 t config has_out addr s = (st, out, s1)" and "st \<noteq> FAC_LPR_STATUS_OK"
    and "engine_destroy_v1 t' h s1 = (st', out', s2)" and "t' \<noteq> t"
  shows "\<exists>msg. msg \<noteq> [] \<and> get_last_error_v1 t None True s2 = (FAC_LPR_STATUS_BUFFER_TOO_SMALL, Some (length msg + 1), None) \<and>
    (\<forall>mem. length msg + 1 \<le> length mem \<longrightarrow>
      (\<exists>mem'. get_last_error_v1 t (Some mem) True s2 = (FAC_LPR_STATUS_OK, Some (length msg + 1), Some mem') \<and>
        bytes_text (take (length msg) mem') = msg \<and> mem' ! length msg = 0 \<and>
        drop (length msg + 1) mem' = drop (length msg + 1) mem))"
proof -
  obtain e u where e: "api_last_error s1 t = error_message e" "error_message e \<noteq> []"
  proof (rule invoke_cases [OF assms(1) [unfolded engine_create_v1_def]])
    assume r: "(if \<not> has_out then (Inl (ConfigurationError ''C ABI output handle pointer is null''), None, s\<lparr>api_last_error := (api_last_error s)(t := [])\<rparr>)
     else case validate_config config of Inl e \<Rightarrow> (Inl e, Some 0, s\<lparr>api_last_error := (api_last_error s)(t := [])\<rparr>)
     | Inr _ \<Rightarrow> (Inr FAC_LPR_STATUS_OK, Some addr, publish_handle addr None (s\<lparr>api_last_error := (api_last_error s)(t := [])\<rparr>))) = (Inr st, out, s1)"
    then show ?thesis using assms(2) by (auto split: if_splits sum.splits)
  next
    fix e u
    assume b: "(if \<not> has_out then (Inl (ConfigurationError ''C ABI output handle pointer is null''), None, s\<lparr>api_last_error := (api_last_error s)(t := [])\<rparr>)
     else case validate_config config of Inl e \<Rightarrow> (Inl e, Some 0, s\<lparr>api_last_error := (api_last_error s)(t := [])\<rparr>)
     | Inr _ \<Rightarrow> (Inr FAC_LPR_STATUS_OK, Some addr, publish_handle addr None (s\<lparr>api_last_error := (api_last_error s)(t := [])\<rparr>))) = (Inl e, out, u)"
      and s1: "s1 = u\<lparr>api_last_error := (api_last_error u)(t := error_message e)\<rparr>"
    have "error_message e \<noteq> []"
      using b by (auto simp: error_message_def validate_config_def check_all.simps throw_if_def res_bind_eq_Inl
          split: if_split_asm sum.splits option.splits)
    with s1 that show ?thesis by simp
  qed
  let ?msg = "error_message e"
  have s2: "api_last_error s2 t = ?msg"
    using assms(3,4) e(1) unfolding engine_destroy_v1_def
    by (elim invoke_cases) (auto split: option.splits if_splits)
  show ?thesis
  proof (intro exI [of _ ?msg] conjI allI impI)
    fix mem :: "byte list"
    assume l: "length ?msg + 1 \<le> length mem"
    let ?m1 = "store mem 0 (text_bytes ?msg)"
    let ?m2 = "store ?m1 (length ?msg) [0]"
    have "get_last_error_v1 t (Some mem) True s2 = (FAC_LPR_STATUS_OK, Some (length ?msg + 1), Some ?m2)"
      using l by (simp add: get_last_error_v1_def s2 Let_def)
    moreover have "?m2 = text_bytes ?msg @ [0] @ drop (length ?msg + 1) mem" using l by (simp add: store_def)
    ultimately show "\<exists>mem'. get_last_error_v1 t (Some mem) True s2 = (FAC_LPR_STATUS_OK, Some (length ?msg + 1), Some mem') \<and>
        bytes_text (take (length ?msg) mem') = ?msg \<and> mem' ! length ?msg = 0 \<and>
        drop (length ?msg + 1) mem' = drop (length ?msg + 1) mem"
      by (simp add: text_bytes_inverse nth_append)
  qed (use e(2) in \<open>simp_all add: get_last_error_v1_def s2 Let_def\<close>)
qed

theorem last_error_roundtrip_witness:
  "\<exists>out s1 s2. engine_create_v1 1 (Some \<lparr>ec_struct_size = 16, ec_abi_version = 2, ec_reserved_flags = 0, ec_reserved_zero = 0\<rparr>)
      True 4096 api_start = (FAC_LPR_STATUS_CONFIGURATION_ERROR, out, s1) \<and>
     engine_destroy_v1 2 None s1 = (FAC_LPR_STATUS_OK, None, s2) \<and>
     (\<exists>n. get_last_error_v1 1 None True s2 = (FAC_LPR_STATUS_BUFFER_TOO_SMALL, Some n, None) \<and> 1 < n)"
proof -
  obtain out s1 where c: "engine_create_v1 1 (Some \<lparr>ec_struct_size = 16, ec_abi_version = 2, ec_reserved_flags = 0, ec_reserved_zero = 0\<rparr>)
      True 4096 api_start = (FAC_LPR_STATUS_CONFIGURATION_ERROR, out, s1)"
    by (simp add: engine_create_v1_def invoke_c_api_def validate_config_def throw_if_def caught_status_def to_c_status_def check_all.simps)
  obtain st' out' s2 where d: "engine_destroy_v1 2 None s1 = (st', out', s2)" by (metis prod.collapse)
  then have "st' = FAC_LPR_STATUS_OK" "out' = None" using destroy_live [OF d] by simp_all
  with d have d': "engine_destroy_v1 2 None s1 = (FAC_LPR_STATUS_OK, None, s2)" by simp
  from last_error_roundtrip [OF c _ d'] have
    "\<exists>n. get_last_error_v1 1 None True s2 = (FAC_LPR_STATUS_BUFFER_TOO_SMALL, Some n, None) \<and> 1 < n" by auto
  with c d' show ?thesis by blast
qed

end
