(* ===== verification/Native_Image.thy ===== *)
theory Native_Image
  imports Image_Validation Byte_Memory
begin

text \<open>
  Native image operations (\<^verbatim>\<open>infrastructure/native_image/native_image.cpp\<close>): the bounded workspace, crop
  views and copies, and the quality of a crop. Offsets are computed in 64-bit words as in the code.
\<close>

section \<open>Workspace\<close>

record NativeImageWorkspaceConfig =
  nw_max_tensor_elements :: "64 word"
  nw_max_scratch_bytes :: "64 word"

definition default_workspace_config :: NativeImageWorkspaceConfig where
  "default_workspace_config = \<lparr>nw_max_tensor_elements = 16 * 1024 * 1024, nw_max_scratch_bytes = 128 * 1024 * 1024\<rparr>"

text \<open>A vector is its size and its capacity; its elements are the caller's scratch.\<close>

record NativeImageWorkspace =
  ws_config :: NativeImageWorkspaceConfig
  ws_tensor_size :: nat
  ws_tensor_capacity :: nat
  ws_scratch_size :: nat
  ws_scratch_capacity :: nat
  ws_tensor_growth_count :: nat
  ws_scratch_growth_count :: nat

definition make_workspace :: "NativeImageWorkspaceConfig \<Rightarrow> NativeImageWorkspace result" where
  "make_workspace c =
     (if nw_max_tensor_elements c = 0 \<or> nw_max_scratch_bytes c = 0
      then Inl (ConfigurationError ''native image workspace limits must be greater than zero'')
      else Inr \<lparr>ws_config = c, ws_tensor_size = 0, ws_tensor_capacity = 0, ws_scratch_size = 0, ws_scratch_capacity = 0,
                ws_tensor_growth_count = 0, ws_scratch_growth_count = 0\<rparr>)"

text \<open>
  \<open>std::vector::resize\<close>: within the capacity nothing is allocated; otherwise the allocator decides the
  new capacity, which is at least the size, or refuses (\<open>std::bad_alloc\<close>, \<open>std::length_error\<close>). The
  allocator is a parameter.
\<close>

datatype AllocationFailure = bad_alloc | length_error

type_synonym allocator = "nat \<Rightarrow> nat \<Rightarrow> AllocationFailure + nat"

definition vector_resize :: "allocator \<Rightarrow> nat \<Rightarrow> nat \<Rightarrow> AllocationFailure + nat" where
  "vector_resize alloc capacity n = (if n \<le> capacity then Inr capacity else map_sum id (max n) (alloc capacity n))"

definition resize_error :: "string \<Rightarrow> string \<Rightarrow> AllocationFailure \<Rightarrow> exn" where
  "resize_error bad len f = ResourceExhaustedError (case f of bad_alloc \<Rightarrow> bad | length_error \<Rightarrow> len)"

definition prepare_tensor :: "allocator \<Rightarrow> 64 word \<Rightarrow> NativeImageWorkspace \<Rightarrow> (nat \<times> NativeImageWorkspace) result" where
  "prepare_tensor alloc elements ws =
     (if elements > nw_max_tensor_elements (ws_config ws)
      then Inl (ResourceExhaustedError ''native tensor workspace exceeds configured limit'')
      else res_bind (map_sum (resize_error ''cannot allocate native tensor workspace''
             ''native tensor workspace exceeds vector limits'') id (vector_resize alloc (ws_tensor_capacity ws) (unat elements)))
        (\<lambda>capacity. Inr (unat elements,
           ws\<lparr>ws_tensor_size := unat elements, ws_tensor_capacity := capacity,
              ws_tensor_growth_count := ws_tensor_growth_count ws + (if capacity > ws_tensor_capacity ws then 1 else 0)\<rparr>)))"

definition pixel_bytes :: "PixelFormat \<Rightarrow> 64 word result" where
  "pixel_bytes format =
     (let channels = pixel_format_channels format in
      if channels = 0 then Inl (InvalidImageError ''unsupported pixel format'') else Inr channels)"

definition native_checked_add :: "64 word \<Rightarrow> 64 word \<Rightarrow> string \<Rightarrow> 64 word result" where
  "native_checked_add left right field =
     (if right > size_max - left then Inl (InvalidImageError (field @ '' overflows size_t'')) else Inr (left + right))"

definition native_checked_multiply :: "64 word \<Rightarrow> 64 word \<Rightarrow> string \<Rightarrow> 64 word result" where
  "native_checked_multiply left right field =
     (if left \<noteq> 0 \<and> right > size_max div left then Inl (InvalidImageError (field @ '' overflows size_t''))
      else Inr (left * right))"

text \<open>The view that \<open>prepare_image\<close> returns, as its width, height, stride and format over the scratch bytes.\<close>

definition prepare_image :: "allocator \<Rightarrow> 64 word \<Rightarrow> 64 word \<Rightarrow> PixelFormat \<Rightarrow> NativeImageWorkspace \<Rightarrow>
    ((64 word \<times> 64 word \<times> 64 word \<times> PixelFormat) \<times> NativeImageWorkspace) result" where
  "prepare_image alloc width height format ws =
     (if width = 0 \<or> height = 0 then Inl (InvalidImageError ''workspace image dimensions must be non-zero'')
      else res_bind (pixel_bytes format) (\<lambda>channels.
        res_bind (native_checked_multiply width channels ''workspace image stride'') (\<lambda>stride.
        res_bind (native_checked_multiply stride height ''workspace image bytes'') (\<lambda>required.
        if required > nw_max_scratch_bytes (ws_config ws)
        then Inl (ResourceExhaustedError ''native image workspace exceeds configured scratch limit'')
        else res_bind (map_sum (resize_error ''cannot allocate native image workspace''
             ''native image workspace exceeds vector limits'') id (vector_resize alloc (ws_scratch_capacity ws) (unat required)))
        (\<lambda>capacity. Inr ((width, height, stride, format),
           ws\<lparr>ws_scratch_size := unat required, ws_scratch_capacity := capacity,
              ws_scratch_growth_count := ws_scratch_growth_count ws + (if capacity > ws_scratch_capacity ws then 1 else 0)\<rparr>))))))"

record NativeImageWorkspaceStats =
  st_tensor_capacity :: nat
  st_scratch_capacity :: nat
  st_tensor_growth_count :: nat
  st_scratch_growth_count :: nat

definition workspace_stats :: "NativeImageWorkspace \<Rightarrow> NativeImageWorkspaceStats" where
  "workspace_stats ws = \<lparr>st_tensor_capacity = ws_tensor_capacity ws, st_scratch_capacity = ws_scratch_capacity ws,
     st_tensor_growth_count = ws_tensor_growth_count ws, st_scratch_growth_count = ws_scratch_growth_count ws\<rparr>"

section \<open>Crops\<close>

definition validate_region :: "64 word \<Rightarrow> 64 word \<Rightarrow> ImageRegion \<Rightarrow> unit result" where
  "validate_region source_width source_height region =
     (if region_empty region then Inl (InvalidImageError ''crop region must be non-empty'')
      else res_bind (native_checked_add (reg_x region) (reg_width region) ''crop x + width'') (\<lambda>right.
        res_bind (native_checked_add (reg_y region) (reg_height region) ''crop y + height'') (\<lambda>bottom.
        throw_if (right > source_width \<or> bottom > source_height)
          (InvalidImageError ''crop region is outside source image bounds''))))"

definition crop_bytes :: "8 word list \<Rightarrow> 64 word \<Rightarrow> PixelFormat \<Rightarrow> ImageRegion \<Rightarrow> 8 word list result" where
  "crop_bytes source source_stride format region =
     res_bind (pixel_bytes format) (\<lambda>bytes_per_pixel.
     res_bind (native_checked_multiply (reg_x region) bytes_per_pixel ''crop x byte offset'') (\<lambda>x_offset.
     res_bind (native_checked_multiply (reg_y region) source_stride ''crop y byte offset'') (\<lambda>y_offset.
     res_bind (native_checked_add y_offset x_offset ''crop byte offset'') (\<lambda>offset.
     res_bind (native_checked_multiply (reg_width region) bytes_per_pixel ''crop row bytes'') (\<lambda>row_len.
     res_bind (native_checked_multiply (reg_height region - 1) source_stride ''crop tail offset'') (\<lambda>tail_offset.
     res_bind (native_checked_add tail_offset row_len ''crop required bytes'') (\<lambda>required.
     if offset > of_nat (length source) \<or> required > of_nat (length source) - offset
     then Inl (InvalidImageError ''crop view exceeds source buffer'')
     else Inr (slice source (unat offset) (unat required)))))))))"

definition make_crop_view :: "ImageView \<Rightarrow> ImageRegion \<Rightarrow> ImageView result" where
  "make_crop_view source region =
     res_bind (validate_region (img_width source) (img_height source) region) (\<lambda>_.
     res_bind (crop_bytes (img_bytes source) (img_stride source) (img_format source) region) (\<lambda>bytes.
     Inr \<lparr>img_bytes = bytes, img_width = reg_width region, img_height = reg_height region,
          img_stride = img_stride source, img_format = img_format source\<rparr>))"

text \<open>The rows are copied one by one; the result is the destination's bytes.\<close>

fun copy_rows :: "8 word list \<Rightarrow> 64 word \<Rightarrow> 64 word \<Rightarrow> nat \<Rightarrow> nat list \<Rightarrow> 8 word list \<Rightarrow> 8 word list" where
  "copy_rows source source_stride destination_stride row_len [] destination = destination"
| "copy_rows source source_stride destination_stride row_len (y # ys) destination =
     copy_rows source source_stride destination_stride row_len ys
       (store destination (unat (of_nat y * destination_stride))
         (slice source (unat (of_nat y * source_stride)) row_len))"

definition copy_crop :: "ImageView \<Rightarrow> ImageRegion \<Rightarrow> ImageView \<Rightarrow> ImageView result" where
  "copy_crop source region destination =
     res_bind (make_crop_view source region) (\<lambda>crop.
     if img_width destination \<noteq> img_width crop \<or> img_height destination \<noteq> img_height crop \<or> img_format destination \<noteq> img_format crop
     then Inl (InvalidImageError ''crop destination shape or pixel format does not match source region'')
     else res_bind (pixel_bytes (img_format crop)) (\<lambda>channels.
       res_bind (native_checked_multiply (img_width crop) channels ''copy crop row bytes'') (\<lambda>row_len.
       if img_stride destination < row_len then Inl (InvalidImageError ''crop destination stride is too small'')
       else res_bind (native_checked_multiply (img_height destination - 1) (img_stride destination) ''crop destination tail'') (\<lambda>tail.
         res_bind (native_checked_add tail row_len ''crop destination required bytes'') (\<lambda>required_destination.
         if required_destination > of_nat (length (img_bytes destination))
         then Inl (InvalidImageError ''crop destination buffer is too small'')
         else Inr (destination\<lparr>img_bytes := copy_rows (img_bytes crop) (img_stride crop) (img_stride destination)
                (unat row_len) [0..<unat (img_height crop)] (img_bytes destination)\<rparr>))))))"

section \<open>Crop quality\<close>

record CropQualityConfig =
  cq_min_width :: "64 word"
  cq_min_height :: "64 word"
  cq_target_exposure :: fl
  cq_clipping_low :: nat
  cq_clipping_high :: nat
  cq_max_clipped_ratio :: fl
  cq_sharpness_reference :: fl
  cq_sharpness_weight :: fl
  cq_exposure_weight :: fl
  cq_clipping_weight :: fl

definition default_quality_config :: CropQualityConfig where
  "default_quality_config = \<lparr>cq_min_width = 16, cq_min_height = 8, cq_target_exposure = Fin 128, cq_clipping_low = 4,
     cq_clipping_high = 251, cq_max_clipped_ratio = lit32 (15/100), cq_sharpness_reference = Fin 400,
     cq_sharpness_weight = lit32 (55/100), cq_exposure_weight = lit32 (25/100), cq_clipping_weight = lit32 (20/100)\<rparr>"

record CropQuality =
  qu_sharpness :: fl
  qu_exposure :: fl
  qu_clipping :: fl
  qu_overall :: fl
  qu_mean_intensity :: fl
  qu_clipped_ratio :: fl
  qu_laplacian_variance :: fl

definition no_quality :: CropQuality where
  "no_quality = \<lparr>qu_sharpness = Fin 0, qu_exposure = Fin 0, qu_clipping = Fin 0, qu_overall = Fin 0,
     qu_mean_intensity = Fin 0, qu_clipped_ratio = Fin 0, qu_laplacian_variance = Fin 0\<rparr>"

definition validate_quality_config :: "CropQualityConfig \<Rightarrow> unit result" where
  "validate_quality_config c = check_all
     [throw_if (cq_min_width c = 0 \<or> cq_min_height c = 0 \<or>
        \<not> is_finite (cq_target_exposure c) \<or> flt (cq_target_exposure c) (Fin 0) \<or> flt (Fin 255) (cq_target_exposure c) \<or>
        cq_clipping_low c > 255 \<or> cq_clipping_high c > 255 \<or> cq_clipping_low c \<ge> cq_clipping_high c \<or>
        \<not> is_finite (cq_max_clipped_ratio c) \<or> fle (cq_max_clipped_ratio c) (Fin 0) \<or> flt (Fin 1) (cq_max_clipped_ratio c) \<or>
        \<not> is_finite (cq_sharpness_reference c) \<or> fle (cq_sharpness_reference c) (Fin 0) \<or>
        \<not> is_finite (cq_sharpness_weight c) \<or> flt (cq_sharpness_weight c) (Fin 0) \<or>
        \<not> is_finite (cq_exposure_weight c) \<or> flt (cq_exposure_weight c) (Fin 0) \<or>
        \<not> is_finite (cq_clipping_weight c) \<or> flt (cq_clipping_weight c) (Fin 0))
        (ConfigurationError ''crop quality configuration is invalid''),
      throw_if (fle (add32 (add32 (cq_sharpness_weight c) (cq_exposure_weight c)) (cq_clipping_weight c)) (Fin 0))
        (ConfigurationError ''crop quality weights must have a positive sum'')]"

text \<open>The byte of channel \<open>ch\<close>, addressed as the code does.\<close>

definition byte_at :: "ImageView \<Rightarrow> nat \<Rightarrow> nat \<Rightarrow> nat" where
  "byte_at img y i = unat (img_bytes img ! unat (of_nat y * img_stride img + of_nat i))"

definition luminance_at :: "ImageView \<Rightarrow> nat \<Rightarrow> nat \<Rightarrow> nat" where
  "luminance_at img x y =
     (if img_format img = gray8 then byte_at img y x
      else let base = x * 3; green = byte_at img y (base + 1);
               (red, blue) = (if img_format img = rgb8 then (byte_at img y base, byte_at img y (base + 2))
                              else (byte_at img y (base + 2), byte_at img y base))
           in (77 * red + 150 * green + 29 * blue + 128) div 256)"

definition add_intensity :: "CropQualityConfig \<Rightarrow> nat \<Rightarrow> fl \<times> nat \<Rightarrow> fl \<times> nat" where
  "add_intensity c v = (\<lambda>(total, clipped). (fadd binary64 total (float_of_nat binary64 v),
     if v \<le> cq_clipping_low c \<or> v \<ge> cq_clipping_high c then clipped + 1 else clipped))"

definition pixels :: "nat \<Rightarrow> nat \<Rightarrow> nat \<Rightarrow> nat \<Rightarrow> (nat \<times> nat) list" where
  "pixels x0 x1 y0 y1 = concat (map (\<lambda>y. map (\<lambda>x. (x, y)) [x0..<x1]) [y0..<y1])"

definition laplacian_at :: "ImageView \<Rightarrow> nat \<Rightarrow> nat \<Rightarrow> int" where
  "laplacian_at img x y =
     int (luminance_at img (x - 1) y) + int (luminance_at img (x + 1) y) +
     int (luminance_at img x (y - 1)) + int (luminance_at img x (y + 1)) - 4 * int (luminance_at img x y)"

definition add_laplacian :: "int \<Rightarrow> fl \<times> fl \<times> nat \<Rightarrow> fl \<times> fl \<times> nat" where
  "add_laplacian l = (\<lambda>(total, squares, n).
     let v = round_fl binary64 (of_int l)
     in (fadd binary64 total v, fadd binary64 squares (fmul binary64 v v), n + 1))"

definition laplacian_variance :: "fl \<times> fl \<times> nat \<Rightarrow> fl" where
  "laplacian_variance = (\<lambda>(total, squares, n).
     if n > 0
     then let count = float_of_nat binary64 n; mean = fdiv binary64 total count
          in fcast binary32 (fmax (Fin 0) (fsub binary64 (fdiv binary64 squares count) (fmul binary64 mean mean)))
     else Fin 0)"

definition quality_of :: "CropQualityConfig \<Rightarrow> ImageView \<Rightarrow> nat \<Rightarrow> CropQuality" where
  "quality_of c img pixel_count =
     (let w = unat (img_width img); h = unat (img_height img);
          (total, clipped) = fold (\<lambda>(x, y). add_intensity c (luminance_at img x y)) (pixels 0 w 0 h) (Fin 0, 0);
          mean = fcast binary32 (fdiv binary64 total (float_of_nat binary64 pixel_count));
          clipped_ratio = div32 (float_of_nat binary32 clipped) (float_of_nat binary32 pixel_count);
          exposure_denominator = fmax (cq_target_exposure c) (sub32 (Fin 255) (cq_target_exposure c));
          exposure = (if flt (Fin 0) exposure_denominator
            then clamp01 (sub32 (Fin 1) (div32 (fabs (sub32 mean (cq_target_exposure c))) exposure_denominator)) else Fin 1);
          clipping = clamp01 (sub32 (Fin 1) (div32 clipped_ratio (cq_max_clipped_ratio c)));
          variance = laplacian_variance
            (if w \<ge> 3 \<and> h \<ge> 3
             then fold (\<lambda>(x, y). add_laplacian (laplacian_at img x y)) (pixels 1 (w - 1) 1 (h - 1)) (Fin 0, Fin 0, 0)
             else (Fin 0, Fin 0, 0));
          sharpness = clamp01 (div32 variance (cq_sharpness_reference c));
          weight_sum = add32 (add32 (cq_sharpness_weight c) (cq_exposure_weight c)) (cq_clipping_weight c);
          overall = clamp01 (div32 (add32 (add32 (mul32 sharpness (cq_sharpness_weight c))
            (mul32 exposure (cq_exposure_weight c))) (mul32 clipping (cq_clipping_weight c))) weight_sum)
      in \<lparr>qu_sharpness = sharpness, qu_exposure = exposure, qu_clipping = clipping, qu_overall = overall,
          qu_mean_intensity = mean, qu_clipped_ratio = clipped_ratio, qu_laplacian_variance = variance\<rparr>)"

definition evaluate_crop_quality :: "ImageView \<Rightarrow> CropQualityConfig \<Rightarrow> CropQuality result" where
  "evaluate_crop_quality img c =
     res_bind (validate_quality_config c) (\<lambda>_.
     if img_width img < cq_min_width c \<or> img_height img < cq_min_height c \<or> img_bytes img = [] then Inr no_quality
     else res_bind (pixel_bytes (img_format img)) (\<lambda>channels.
       res_bind (native_checked_multiply (img_width img) channels ''quality row bytes'') (\<lambda>packed_row.
       if img_stride img < packed_row then Inl (InvalidImageError ''quality input stride is too small'')
       else res_bind (native_checked_multiply (img_height img - 1) (img_stride img) ''quality image tail'') (\<lambda>tail.
         res_bind (native_checked_add tail packed_row ''quality image bytes'') (\<lambda>required.
         if required > of_nat (length (img_bytes img)) then Inl (InvalidImageError ''quality input buffer is too small'')
         else res_bind (native_checked_multiply (img_width img) (img_height img) ''quality pixel count'') (\<lambda>pixel_count.
           Inr (quality_of c img (unat pixel_count))))))))"

section \<open>The workspace allocates only to grow\<close>

definition workspace_ok :: "NativeImageWorkspace \<Rightarrow> bool" where
  "workspace_ok ws \<longleftrightarrow> ws_tensor_size ws \<le> ws_tensor_capacity ws \<and> ws_scratch_size ws \<le> ws_scratch_capacity ws \<and>
     ws_tensor_size ws \<le> unat (nw_max_tensor_elements (ws_config ws)) \<and>
     ws_scratch_size ws \<le> unat (nw_max_scratch_bytes (ws_config ws))"

lemma make_workspace_ok: "make_workspace c = Inr ws \<Longrightarrow> workspace_ok ws"
  by (auto simp: make_workspace_def workspace_ok_def split: if_split_asm)

lemma vector_resize_Inr: "vector_resize alloc k n = Inr k' \<Longrightarrow> n \<le> k' \<and> (n \<le> k \<longrightarrow> k' = k)"
  by (auto simp: vector_resize_def dest!: map_sum_Inr_obtain split: if_split_asm)

lemma prepare_tensor_Inr:
  assumes "prepare_tensor alloc n ws = Inr (m, ws')"
  shows "\<exists>k g. ws' = ws\<lparr>ws_tensor_size := unat n, ws_tensor_capacity := k, ws_tensor_growth_count := g\<rparr> \<and> m = unat n \<and>
    unat n \<le> k \<and> n \<le> nw_max_tensor_elements (ws_config ws)"
proof -
  from assms have n: "n \<le> nw_max_tensor_elements (ws_config ws)" by (simp add: prepare_tensor_def not_less split: if_split_asm)
  with assms obtain k where "vector_resize alloc (ws_tensor_capacity ws) (unat n) = Inr k" and
    r: "m = unat n" "ws' = ws\<lparr>ws_tensor_size := unat n, ws_tensor_capacity := k,
      ws_tensor_growth_count := ws_tensor_growth_count ws + (if k > ws_tensor_capacity ws then 1 else 0)\<rparr>"
    by (cases "vector_resize alloc (ws_tensor_capacity ws) (unat n)") (auto simp: prepare_tensor_def leD [OF n])
  from vector_resize_Inr [OF this(1)] n show ?thesis unfolding r by blast
qed

lemma prepare_tensor_ok: "prepare_tensor alloc n ws = Inr (m, ws') \<Longrightarrow> workspace_ok ws \<Longrightarrow> workspace_ok ws'"
  using prepare_tensor_Inr [of alloc n ws m ws'] by (auto simp: workspace_ok_def word_le_nat_alt)

section \<open>Crops over the natural numbers\<close>

lemma native_checked [simp]: "native_checked_add = checked_add" "native_checked_multiply = checked_multiply"
  by (intro ext; simp add: native_checked_add_def checked_add_def native_checked_multiply_def checked_multiply_def)+

lemma pixel_bytes_Inr: "pixel_bytes f = Inr (pixel_format_channels f)"
  by (simp add: pixel_bytes_def channels_unat Let_def)

definition crop_fits :: "ImageView \<Rightarrow> ImageRegion \<Rightarrow> bool" where
  "crop_fits src r \<longleftrightarrow> 0 < unat (reg_width r) \<and> 0 < unat (reg_height r) \<and>
     unat (reg_x r) + unat (reg_width r) \<le> unat (img_width src) \<and> unat (reg_y r) + unat (reg_height r) \<le> unat (img_height src)"

definition crop_offset :: "ImageView \<Rightarrow> ImageRegion \<Rightarrow> nat" where
  "crop_offset src r = unat (reg_y r) * unat (img_stride src) + unat (reg_x r) * channels_of (img_format src)"

definition crop_extent :: "ImageView \<Rightarrow> ImageRegion \<Rightarrow> nat" where
  "crop_extent src r = (unat (reg_height r) - 1) * unat (img_stride src) + unat (reg_width r) * channels_of (img_format src)"

lemma unat_add_exact: "unat a + unat b < 2 ^ 64 \<Longrightarrow> unat (a + b :: 64 word) = unat a + unat b"
  and unat_mult_exact: "unat a * unat b < 2 ^ 64 \<Longrightarrow> unat (a * b :: 64 word) = unat a * unat b"
  by (simp_all add: unat_word_ariths)

lemma validate_region_Inr: "validate_region (img_width src) (img_height src) r = Inr u \<longleftrightarrow> crop_fits src r"
proof -
  have "(unat a + unat b < 2 ^ 64 \<and> unat (a + b) \<le> unat c) \<longleftrightarrow> unat a + unat b \<le> unat c" for a b c :: "64 word"
    using unat_less_2_64 [of c] unat_add_exact [of a b] by (cases "unat a + unat b < 2 ^ 64") simp_all
  note exact = this [symmetric]
  have "reg_width r \<noteq> 0 \<longleftrightarrow> 0 < unat (reg_width r)" "reg_height r \<noteq> 0 \<longleftrightarrow> 0 < unat (reg_height r)"
    by (simp_all add: unat_gt_0)
  then show ?thesis
    unfolding validate_region_def region_empty_def crop_fits_def exact
    by (auto simp: result_simps checked_add_Inr word_less_nat_alt not_less unat_add_exact)
qed

lemma crop_bytes_Inr:
  assumes len: "length (img_bytes src) < 2 ^ 64" and h: "reg_height r \<noteq> 0"
  shows "crop_bytes (img_bytes src) (img_stride src) (img_format src) r = Inr bs \<longleftrightarrow>
    crop_offset src r + crop_extent src r \<le> length (img_bytes src) \<and>
    bs = slice (img_bytes src) (crop_offset src r) (crop_extent src r)"
proof -
  let ?c = "pixel_format_channels (img_format src)" and ?s = "img_stride src"
  let ?x = "reg_x r * ?c" and ?y = "reg_y r * ?s" and ?w = "reg_width r * ?c" and ?t = "(reg_height r - 1) * ?s"
  have l: "unat (of_nat (length (img_bytes src)) :: 64 word) = length (img_bytes src)" using len by (simp add: unat_of_nat)
  have big: "(of_nat (length (img_bytes src)) < a \<or> of_nat (length (img_bytes src)) - a < c) \<longleftrightarrow>
      \<not> unat a + unat c \<le> length (img_bytes src)" for a c :: "64 word"
    using l by (cases "of_nat (length (img_bytes src)) < a")
      (auto simp: word_less_nat_alt unat_sub word_le_nat_alt not_less)
  have n: "unat ?c = channels_of (img_format src)" "unat (reg_height r - 1) = unat (reg_height r) - 1"
    using unat_pred [OF h] by (simp_all add: channels_unat)
  show ?thesis
  proof (cases "crop_offset src r + crop_extent src r \<le> length (img_bytes src)")
    case True
    then have small: "unat (reg_x r) * unat ?c < 2 ^ 64" "unat (reg_y r) * unat ?s < 2 ^ 64" "unat (reg_width r) * unat ?c < 2 ^ 64"
        "unat (reg_height r - 1) * unat ?s < 2 ^ 64" "crop_offset src r < 2 ^ 64" "crop_extent src r < 2 ^ 64"
      using len by (simp_all add: n crop_offset_def crop_extent_def)
    note m = small(1-4) [THEN unat_mult_exact]
    have o: "unat ?y + unat ?x = crop_offset src r" "unat ?t + unat ?w = crop_extent src r"
      by (simp_all add: m, simp_all add: n crop_offset_def crop_extent_def)
    then have "unat (?y + ?x) = crop_offset src r" "unat (?t + ?w) = crop_extent src r"
      using small(5,6) by (simp_all add: unat_add_exact)
    then show ?thesis using True small o
      by (auto simp: crop_bytes_def result_simps pixel_bytes_Inr checked_add_Inr checked_multiply_Inr big m unat_add_exact)
  next
    case False
    have "crop_bytes (img_bytes src) ?s (img_format src) r \<noteq> Inr bs"
    proof
      assume "crop_bytes (img_bytes src) ?s (img_format src) r = Inr bs"
      then have "unat (?y + ?x) + unat (?t + ?w) \<le> length (img_bytes src)"
          "unat (?y + ?x) = unat ?y + unat ?x" "unat (?t + ?w) = unat ?t + unat ?w"
          "unat ?x = unat (reg_x r) * unat ?c" "unat ?y = unat (reg_y r) * unat ?s"
          "unat ?w = unat (reg_width r) * unat ?c" "unat ?t = unat (reg_height r - 1) * unat ?s"
        by (auto simp: crop_bytes_def result_simps pixel_bytes_Inr checked_add_Inr checked_multiply_Inr big split: if_split_asm)
      with False show False by (simp add: n crop_offset_def crop_extent_def)
    qed
    with False show ?thesis by blast
  qed
qed

lemma make_crop_view_Inr:
  assumes "length (img_bytes src) < 2 ^ 64"
  shows "make_crop_view src r = Inr v \<longleftrightarrow> crop_fits src r \<and> crop_offset src r + crop_extent src r \<le> length (img_bytes src) \<and>
    v = \<lparr>img_bytes = slice (img_bytes src) (crop_offset src r) (crop_extent src r), img_width = reg_width r,
         img_height = reg_height r, img_stride = img_stride src, img_format = img_format src\<rparr>"
proof (cases "crop_fits src r")
  case True
  then have "reg_height r \<noteq> 0" by (auto simp: crop_fits_def)
  with True show ?thesis
    by (auto simp: make_crop_view_def result_simps validate_region_Inr crop_bytes_Inr [OF assms])
qed (simp add: make_crop_view_def result_simps validate_region_Inr)

text \<open>In a buffer that holds its image, every region inside the image has its bytes.\<close>

lemma crop_inside:
  assumes "crop_fits src r" and "extent_bytes src \<le> length (img_bytes src)"
  shows "crop_offset src r + crop_extent src r \<le> length (img_bytes src)"
proof -
  let ?s = "unat (img_stride src)" and ?c = "channels_of (img_format src)"
  have "crop_offset src r + crop_extent src r =
      (unat (reg_y r) + (unat (reg_height r) - 1)) * ?s + (unat (reg_x r) + unat (reg_width r)) * ?c"
    by (simp add: crop_offset_def crop_extent_def algebra_simps)
  also have "\<dots> \<le> (unat (img_height src) - 1) * ?s + unat (img_width src) * ?c"
    using assms(1) by (intro add_mono mult_right_mono) (auto simp: crop_fits_def)
  also have "\<dots> = extent_bytes src" by (simp add: extent_bytes_def row_bytes_def mult.commute)
  finally show ?thesis using assms(2) by simp
qed

lemma slice_nth: "i < n \<Longrightarrow> off + n \<le> length mem \<Longrightarrow> slice mem off n ! i = mem ! (off + i)"
  by (simp add: slice_def)

lemma prepare_image_Inr:
  assumes "prepare_image alloc w h f ws = Inr (v, ws')"
  shows "w \<noteq> 0 \<and> h \<noteq> 0 \<and> ws_config ws' = ws_config ws \<and> ws_scratch_size ws' = unat w * channels_of f * unat h \<and>
    ws_scratch_size ws' \<le> ws_scratch_capacity ws' \<and> ws_scratch_size ws' \<le> unat (nw_max_scratch_bytes (ws_config ws)) \<and>
    ws_tensor_size ws' = ws_tensor_size ws \<and> ws_tensor_capacity ws' = ws_tensor_capacity ws"
proof -
  let ?c = "pixel_format_channels f"
  have wh: "w \<noteq> 0" "h \<noteq> 0" using assms by (simp_all add: prepare_image_def split: if_split_asm)
  with assms obtain stride where "checked_multiply w ?c ''workspace image stride'' = Inr stride"
    by (cases "checked_multiply w ?c ''workspace image stride''") (simp_all add: prepare_image_def pixel_bytes_Inr)
  moreover from this assms wh obtain n where "checked_multiply stride h ''workspace image bytes'' = Inr n"
    by (cases "checked_multiply stride h ''workspace image bytes''") (simp_all add: prepare_image_def pixel_bytes_Inr)
  ultimately have s: "checked_multiply w ?c ''workspace image stride'' = Inr stride"
      "checked_multiply stride h ''workspace image bytes'' = Inr n" by blast+
  then have n: "unat n = unat w * channels_of f * unat h"
    unfolding checked_multiply_Inr by (metis channels_unat(1))
  from assms wh s have le: "n \<le> nw_max_scratch_bytes (ws_config ws)"
    by (simp add: prepare_image_def pixel_bytes_Inr not_less split: if_split_asm)
  with assms wh s obtain k where "vector_resize alloc (ws_scratch_capacity ws) (unat n) = Inr k" and
    r: "ws' = ws\<lparr>ws_scratch_size := unat n, ws_scratch_capacity := k,
      ws_scratch_growth_count := ws_scratch_growth_count ws + (if k > ws_scratch_capacity ws then 1 else 0)\<rparr>"
    by (cases "vector_resize alloc (ws_scratch_capacity ws) (unat n)") (auto simp: prepare_image_def pixel_bytes_Inr leD [OF le])
  from vector_resize_Inr [OF this(1)] le wh n show ?thesis unfolding r by (simp add: word_le_nat_alt)
qed

lemma prepare_image_ok: "prepare_image alloc w h f ws = Inr (v, ws') \<Longrightarrow> workspace_ok ws \<Longrightarrow> workspace_ok ws'"
  using prepare_image_Inr [of alloc w h f ws v ws'] by (simp add: workspace_ok_def)

text \<open>
  The workspace allocates only to grow: once an image was prepared, any image of at most as many
  bytes is prepared without consulting the allocator, whatever it would answer, and with the capacity and the growth count
  unchanged; the view covers exactly the bytes of the packed image.
\<close>

theorem workspace_reuse:
  assumes "prepare_image alloc w h f ws = Inr (v, ws1)"
    and "w' \<noteq> 0" and "h' \<noteq> 0" and "unat w' * channels_of f' * unat h' \<le> unat w * channels_of f * unat h"
  shows "\<exists>ws2. prepare_image alloc' w' h' f' ws1 = Inr ((w', h', w' * pixel_format_channels f', f'), ws2) \<and>
    unat (w' * pixel_format_channels f') = unat w' * channels_of f' \<and>
    ws_scratch_size ws2 = unat w' * channels_of f' * unat h' \<and>
    ws_scratch_capacity ws2 = ws_scratch_capacity ws1 \<and> ws_scratch_growth_count ws2 = ws_scratch_growth_count ws1"
proof -
  let ?c = "pixel_format_channels f'"
  note first = prepare_image_Inr [OF assms(1)]
  have bytes: "unat w' * channels_of f' * unat h' \<le> unat (nw_max_scratch_bytes (ws_config ws1))"
      "unat w' * channels_of f' * unat h' \<le> ws_scratch_capacity ws1" using first assms(4) by simp_all
  then have lt: "unat w' * channels_of f' * unat h' < 2 ^ 64"
    using unat_less_2_64 [of "nw_max_scratch_bytes (ws_config ws1)"] by simp
  have "unat w' * channels_of f' * 1 \<le> unat w' * channels_of f' * unat h'"
    using assms(3) by (intro mult_left_mono) (simp_all add: unat_gt_0 Suc_le_eq)
  with lt have row_lt: "unat w' * channels_of f' < 2 ^ 64" by linarith
  then have row: "unat (w' * ?c) = unat w' * channels_of f'"
    using unat_mult_exact [of w' ?c] by (simp add: channels_unat)
  then have all: "unat (w' * ?c * h') = unat w' * channels_of f' * unat h'"
    using unat_mult_exact [of "w' * ?c" h'] lt by simp
  have c1: "checked_multiply w' ?c s = Inr (w' * ?c)" for s
    using row row_lt by (simp add: checked_multiply_Inr channels_unat)
  have c2: "checked_multiply (w' * ?c) h' s = Inr (w' * ?c * h')" for s
    using row all lt by (simp add: checked_multiply_Inr)
  show ?thesis
    using assms(2,3) bytes row all
    by (simp add: prepare_image_def pixel_bytes_Inr c1 c2 vector_resize_def word_less_nat_alt not_less)
qed

theorem workspace_reuse_witness:
  "\<exists>ws1 ws2. prepare_image (\<lambda>_ n. Inr n) 8 8 gray8 \<lparr>ws_config = default_workspace_config, ws_tensor_size = 0, ws_tensor_capacity = 0,
      ws_scratch_size = 0, ws_scratch_capacity = 0, ws_tensor_growth_count = 0, ws_scratch_growth_count = 0\<rparr> = Inr ((8, 8, 8, gray8), ws1) \<and>
    prepare_image (\<lambda>_ _. Inl bad_alloc) 4 4 rgb8 ws1 = Inr ((4, 4, 4 * pixel_format_channels rgb8, rgb8), ws2)"
proof -
  let ?ws = "\<lparr>ws_config = default_workspace_config, ws_tensor_size = 0, ws_tensor_capacity = 0,
      ws_scratch_size = 0, ws_scratch_capacity = 0, ws_tensor_growth_count = 0, ws_scratch_growth_count = 0\<rparr>"
  obtain ws1 where ws1: "prepare_image (\<lambda>_ n. Inr n) 8 8 gray8 ?ws = Inr ((8, 8, 8, gray8), ws1)"
    by (simp add: prepare_image_def pixel_bytes_def pixel_format_channels_def checked_multiply_def size_max_def
        default_workspace_config_def vector_resize_def)
  have "unat (4 :: 64 word) * channels_of rgb8 * unat (4 :: 64 word) \<le> unat (8 :: 64 word) * channels_of gray8 * unat (8 :: 64 word)"
    by (simp add: channels_of_def)
  from workspace_reuse [OF ws1 _ _ this] ws1 show ?thesis by fastforce
qed

text \<open>The pixel of a crop is the pixel of the source at the crop's origin.\<close>

lemma crop_pixel:
  assumes "length (img_bytes src) < 2 ^ 64" and "make_crop_view src r = Inr v"
    and "y < unat (reg_height r)" and "x < unat (reg_width r)" and "ch < channels_of (img_format src)"
  shows "byte_index v y x ch < length (img_bytes v)"
    and "img_bytes v ! byte_index v y x ch = img_bytes src ! byte_index src (unat (reg_y r) + y) (unat (reg_x r) + x) ch"
proof -
  from make_crop_view_Inr [OF assms(1)] assms(2) have
    fit: "crop_offset src r + crop_extent src r \<le> length (img_bytes src)" and
    v: "v = \<lparr>img_bytes = slice (img_bytes src) (crop_offset src r) (crop_extent src r), img_width = reg_width r,
         img_height = reg_height r, img_stride = img_stride src, img_format = img_format src\<rparr>" by blast+
  have "byte_index v y x ch < extent_bytes v"
    by (rule byte_index_less) (simp_all add: v assms(3-5))
  moreover have "extent_bytes v = crop_extent src r"
    by (simp add: v extent_bytes_def row_bytes_def crop_extent_def mult.commute)
  ultimately have i: "byte_index v y x ch < crop_extent src r" by simp
  then show "byte_index v y x ch < length (img_bytes v)" using fit by (simp add: v slice_def)
  have "crop_offset src r + byte_index v y x ch = byte_index src (unat (reg_y r) + y) (unat (reg_x r) + x) ch"
    by (simp add: v byte_index_def crop_offset_def algebra_simps)
  then show "img_bytes v ! byte_index v y x ch = img_bytes src ! byte_index src (unat (reg_y r) + y) (unat (reg_x r) + x) ch"
    using slice_nth [OF i fit] by (simp add: v)
qed

text \<open>
  A crop view is exact: on an image whose buffer holds it, a region is cropped iff it is non-empty
  and inside the image, computed without wrap-around; the view has the region's size, and each of its pixels is
  the pixel of the source at the region's origin.
\<close>

theorem crop_view_exact:
  assumes "length (img_bytes src) < 2 ^ 64" and "extent_bytes src \<le> length (img_bytes src)"
  shows "((\<exists>v. make_crop_view src r = Inr v) \<longleftrightarrow> crop_fits src r) \<and>
    (\<forall>v. make_crop_view src r = Inr v \<longrightarrow> img_width v = reg_width r \<and> img_height v = reg_height r \<and>
      (\<forall>y < unat (reg_height r). \<forall>x < unat (reg_width r). \<forall>ch < channels_of (img_format src).
        byte_index v y x ch < length (img_bytes v) \<and>
        img_bytes v ! byte_index v y x ch = img_bytes src ! byte_index src (unat (reg_y r) + y) (unat (reg_x r) + x) ch))"
proof (intro conjI allI impI)
  show "(\<exists>v. make_crop_view src r = Inr v) \<longleftrightarrow> crop_fits src r"
    unfolding make_crop_view_Inr [OF assms(1)] using crop_inside [OF _ assms(2)] by blast
  show "img_width v = reg_width r" "img_height v = reg_height r" if "make_crop_view src r = Inr v" for v
    using that make_crop_view_Inr [OF assms(1)] by simp_all
qed (use crop_pixel [OF assms(1)] in blast, use crop_pixel [OF assms(1)] in blast)

definition sample_region :: ImageRegion where
  "sample_region = \<lparr>reg_x = 1, reg_y = 0, reg_width = 1, reg_height = 2\<rparr>"

theorem crop_view_exact_witness:
  "\<exists>v. make_crop_view tiny_image sample_region = Inr v \<and> img_bytes v ! byte_index v 1 0 0 = 6"
proof -
  have c: "crop_fits tiny_image sample_region" by (simp add: crop_fits_def tiny_image_def sample_region_def)
  have e: "length (img_bytes tiny_image) < 2 ^ 64" "extent_bytes tiny_image \<le> length (img_bytes tiny_image)"
    by (simp_all add: tiny_image_def extent_bytes_def row_bytes_def channels_of_def)
  note exact = crop_view_exact [OF e, of sample_region]
  from exact c obtain v where v: "make_crop_view tiny_image sample_region = Inr v" by blast
  with exact have "img_bytes v ! byte_index v 1 0 0 = img_bytes tiny_image ! byte_index tiny_image (0 + 1) (1 + 0) 0"
    by (simp add: sample_region_def tiny_image_def channels_of_def)
  with v show ?thesis by (simp add: tiny_image_def byte_index_def channels_of_def)
qed

section \<open>Copies\<close>

text \<open>Row \<open>y\<close> of a strided buffer, and the rows a copy writes.\<close>

lemma nth_store:
  assumes "off + length bs \<le> length mem" and "i < length mem"
  shows "store mem off bs ! i = (if off \<le> i \<and> i < off + length bs then bs ! (i - off) else mem ! i)"
  using assms by (auto simp: store_def nth_append min_def)

lemma strided_row_unique:
  fixes s :: nat
  assumes "y * s \<le> i" and "i < y * s + n" and "z * s \<le> i" and "i < z * s + n" and "n \<le> s"
  shows "y = z"
proof -
  have "y < z + 1" "z < y + 1" using assms mult_less_cancel2 [of y s "z + 1"] mult_less_cancel2 [of z s "y + 1"] by simp_all
  then show ?thesis by simp
qed

lemma copy_rows_spec:
  assumes "\<forall>y \<in> set ys. y * unat ds + n \<le> length dst \<and> y * unat ss + n \<le> length src \<and>
      unat (of_nat y * ds :: 64 word) = y * unat ds \<and> unat (of_nat y * ss :: 64 word) = y * unat ss"
    and "n \<le> unat ds" and "i < length dst"
  shows "length (copy_rows src ss ds n ys dst) = length dst \<and>
    (\<forall>y \<in> set ys. y * unat ds \<le> i \<longrightarrow> i < y * unat ds + n \<longrightarrow>
      copy_rows src ss ds n ys dst ! i = src ! (y * unat ss + (i - y * unat ds))) \<and>
    ((\<forall>y \<in> set ys. \<not> (y * unat ds \<le> i \<and> i < y * unat ds + n)) \<longrightarrow> copy_rows src ss ds n ys dst ! i = dst ! i)"
  using assms
proof (induction ys arbitrary: dst)
  case (Cons z zs)
  let ?row = "slice src (z * unat ss) n"
  let ?d = "store dst (z * unat ds) ?row"
  have z: "length ?row = n" "z * unat ds + n \<le> length dst" "z * unat ss + n \<le> length src"
      "unat (of_nat z * ds :: 64 word) = z * unat ds" "unat (of_nat z * ss :: 64 word) = z * unat ss"
    using Cons.prems(1) by (auto simp: slice_def)
  have d: "length ?d = length dst" using store_props(1) z by simp
  have i: "?d ! i = (if z * unat ds \<le> i \<and> i < z * unat ds + n then ?row ! (i - z * unat ds) else dst ! i)"
    using nth_store [of "z * unat ds" ?row dst i] z Cons.prems(3) by simp
  have r: "?row ! (i - z * unat ds) = src ! (z * unat ss + (i - z * unat ds))" if "z * unat ds \<le> i" "i < z * unat ds + n"
    using z that by (intro slice_nth) simp_all
  note IH = Cons.IH [of ?d, unfolded d, OF _ Cons.prems(2,3)]
  have IH': "length (copy_rows src ss ds n zs ?d) = length dst"
      "\<And>y. y \<in> set zs \<Longrightarrow> y * unat ds \<le> i \<Longrightarrow> i < y * unat ds + n \<Longrightarrow>
        copy_rows src ss ds n zs ?d ! i = src ! (y * unat ss + (i - y * unat ds))"
      "(\<forall>y \<in> set zs. \<not> (y * unat ds \<le> i \<and> i < y * unat ds + n)) \<Longrightarrow> copy_rows src ss ds n zs ?d ! i = ?d ! i"
    using IH Cons.prems(1) by simp_all
  have z_row: "copy_rows src ss ds n zs ?d ! i = src ! (z * unat ss + (i - z * unat ds))"
    if "z * unat ds \<le> i" "i < z * unat ds + n"
  proof (cases "\<exists>y \<in> set zs. y * unat ds \<le> i \<and> i < y * unat ds + n")
    case True
    then obtain y where y: "y \<in> set zs" "y * unat ds \<le> i" "i < y * unat ds + n" by blast
    with that Cons.prems(2) have "y = z" using strided_row_unique [of y "unat ds" i n z] by simp
    with IH'(2) [OF y] show ?thesis by simp
  next
    case False
    then show ?thesis using IH'(3) i r that by simp
  qed
  show ?case using IH' z_row i by (auto simp: z(4,5))
qed simp

lemma row_address:
  assumes "y < unat (h :: 64 word)" and "unat s * (unat h - 1) < 2 ^ 64"
  shows "unat (of_nat y * s :: 64 word) = y * unat s"
proof -
  have y: "unat (of_nat y :: 64 word) = y" using assms(1) unat_less_2_64 [of h] by (simp add: unat_of_nat)
  have "y * unat s \<le> (unat h - 1) * unat s" using assms(1) by (intro mult_right_mono) simp_all
  also have "\<dots> < 2 ^ 64" using assms(2) by (subst mult.commute)
  finally have "y * unat s < 2 ^ 64" .
  then show ?thesis using unat_mult_exact [of "of_nat y" s] y by simp
qed

text \<open>The guards of \<open>copy_crop\<close>, over the natural numbers.\<close>

lemma copy_crop_Inr:
  assumes "length (img_bytes dst) < 2 ^ 64" and "copy_crop src r dst = Inr out"
  shows "\<exists>crop. make_crop_view src r = Inr crop \<and> img_width dst = img_width crop \<and> img_height dst = img_height crop \<and>
    img_format dst = img_format crop \<and> row_bytes dst \<le> unat (img_stride dst) \<and> img_height dst \<noteq> 0 \<and>
    extent_bytes dst \<le> length (img_bytes dst) \<and>
    out = dst\<lparr>img_bytes := copy_rows (img_bytes crop) (img_stride crop) (img_stride dst) (row_bytes dst)
      [0..<unat (img_height crop)] (img_bytes dst)\<rparr>"
proof -
  from assms(2) obtain crop where crop: "make_crop_view src r = Inr crop"
    by (auto simp: copy_crop_def result_simps)
  have h: "img_height crop \<noteq> 0"
    using crop by (auto simp: make_crop_view_def result_simps validate_region_def region_empty_def split: if_split_asm)
  have l: "unat (of_nat (length (img_bytes dst)) :: 64 word) = length (img_bytes dst)" using assms(1) by (simp add: unat_of_nat)
  from assms(2) crop h show ?thesis
    by (auto simp: copy_crop_def result_simps pixel_bytes_Inr checked_add_Inr checked_multiply_Inr channels_unat
        word_less_nat_alt not_less l row_bytes_def extent_bytes_def unat_pred mult.commute split: if_split_asm)
qed

text \<open>A copy as writes of rows: the addresses do not wrap and lie inside the two buffers.\<close>

lemma copy_crop_rows:
  assumes "length (img_bytes src) < 2 ^ 64" and "length (img_bytes dst) < 2 ^ 64" and "copy_crop src r dst = Inr out"
    and crop: "make_crop_view src r = Inr crop"
  defines "n \<equiv> row_bytes dst"
  shows "out = dst\<lparr>img_bytes := img_bytes out\<rparr>" and "img_format dst = img_format src" and "img_width dst = reg_width r"
    and "img_stride crop = img_stride src" and "img_format crop = img_format src"
    and "0 < length (img_bytes dst)" and "(unat (reg_height r) - 1) * unat (img_stride dst) + n \<le> length (img_bytes dst)"
    and "i < length (img_bytes dst) \<Longrightarrow> length (img_bytes out) = length (img_bytes dst) \<and>
      (\<forall>y \<in> set [0..<unat (reg_height r)]. y * unat (img_stride dst) \<le> i \<longrightarrow> i < y * unat (img_stride dst) + n \<longrightarrow>
        img_bytes out ! i = img_bytes crop ! (y * unat (img_stride crop) + (i - y * unat (img_stride dst)))) \<and>
      ((\<forall>y \<in> set [0..<unat (reg_height r)]. \<not> (y * unat (img_stride dst) \<le> i \<and> i < y * unat (img_stride dst) + n)) \<longrightarrow>
        img_bytes out ! i = img_bytes dst ! i)"
proof -
  have shape: "img_width dst = img_width crop" "img_height dst = img_height crop" "img_format dst = img_format crop" and
    fits: "n \<le> unat (img_stride dst)" "img_height dst \<noteq> 0" "extent_bytes dst \<le> length (img_bytes dst)" and
    out: "out = dst\<lparr>img_bytes := copy_rows (img_bytes crop) (img_stride crop) (img_stride dst) n
      [0..<unat (img_height crop)] (img_bytes dst)\<rparr>"
    using copy_crop_Inr [OF assms(2,3)] crop unfolding n_def by auto
  from make_crop_view_Inr [OF assms(1)] crop have
    fit: "crop_offset src r + crop_extent src r \<le> length (img_bytes src)" and
    v: "crop = \<lparr>img_bytes = slice (img_bytes src) (crop_offset src r) (crop_extent src r), img_width = reg_width r,
         img_height = reg_height r, img_stride = img_stride src, img_format = img_format src\<rparr>" by blast+
  let ?h = "unat (reg_height r)"
  have n: "n = unat (reg_width r) * channels_of (img_format src)" by (simp add: n_def row_bytes_def shape v)
  have len: "length (img_bytes crop) = (?h - 1) * unat (img_stride crop) + n"
    using fit by (simp add: v slice_def crop_extent_def n)
  show dlen: "(?h - 1) * unat (img_stride dst) + n \<le> length (img_bytes dst)"
    using fits(3) by (simp add: n_def extent_bytes_def shape v mult.commute)
  have inside: "\<forall>y \<in> set [0..<?h]. y * unat (img_stride dst) + n \<le> length (img_bytes dst) \<and>
      y * unat (img_stride crop) + n \<le> length (img_bytes crop) \<and>
      unat (of_nat y * img_stride dst :: 64 word) = y * unat (img_stride dst) \<and>
      unat (of_nat y * img_stride crop :: 64 word) = y * unat (img_stride crop)"
  proof
    fix y assume "y \<in> set [0..<?h]"
    then have y: "y < ?h" by simp
    have bound: "y * s + n \<le> (?h - 1) * s + n" for s using y by (intro add_mono mult_right_mono) simp_all
    have "unat (img_stride dst) * (?h - 1) < 2 ^ 64" "unat (img_stride crop) * (?h - 1) < 2 ^ 64"
      using dlen assms(1,2) len fit by (simp_all add: v slice_def crop_extent_def mult.commute)
    then show "y * unat (img_stride dst) + n \<le> length (img_bytes dst) \<and> y * unat (img_stride crop) + n \<le> length (img_bytes crop) \<and>
      unat (of_nat y * img_stride dst :: 64 word) = y * unat (img_stride dst) \<and>
      unat (of_nat y * img_stride crop :: 64 word) = y * unat (img_stride crop)"
      using order_trans [OF bound dlen] bound [of "unat (img_stride crop)"] len row_address [OF y] by simp
  qed
  show "img_width dst = reg_width r" "img_format dst = img_format src" "img_stride crop = img_stride src" "img_format crop = img_format src"
    by (simp_all add: shape v)
  have "0 < unat (img_width dst)" using crop make_crop_view_Inr [OF assms(1)] by (auto simp: shape crop_fits_def v)
  with extent_pos [of dst] fits(3) show "0 < length (img_bytes dst)" by linarith
  show "out = dst\<lparr>img_bytes := img_bytes out\<rparr>" by (simp add: out)
  have bytes: "img_bytes out = copy_rows (img_bytes crop) (img_stride crop) (img_stride dst) n [0..<?h] (img_bytes dst)"
    by (simp add: out v)
  show "length (img_bytes out) = length (img_bytes dst) \<and>
      (\<forall>y \<in> set [0..<?h]. y * unat (img_stride dst) \<le> i \<longrightarrow> i < y * unat (img_stride dst) + n \<longrightarrow>
        img_bytes out ! i = img_bytes crop ! (y * unat (img_stride crop) + (i - y * unat (img_stride dst)))) \<and>
      ((\<forall>y \<in> set [0..<?h]. \<not> (y * unat (img_stride dst) \<le> i \<and> i < y * unat (img_stride dst) + n)) \<longrightarrow>
        img_bytes out ! i = img_bytes dst ! i)" if "i < length (img_bytes dst)"
    unfolding bytes by (rule copy_rows_spec [OF inside fits(1) that])
qed

lemma copy_crop_pixels:
  assumes "length (img_bytes src) < 2 ^ 64" and "length (img_bytes dst) < 2 ^ 64" and "copy_crop src r dst = Inr out"
    and y: "y < unat (reg_height r)" and x: "x < unat (reg_width r)" and ch: "ch < channels_of (img_format src)"
  shows "img_bytes out ! byte_index out y x ch = img_bytes src ! byte_index src (unat (reg_y r) + y) (unat (reg_x r) + x) ch"
proof -
  from copy_crop_Inr [OF assms(2,3)] obtain crop where crop: "make_crop_view src r = Inr crop" by blast
  note rows = copy_crop_rows [OF assms(1-3) crop]
  let ?o = "x * channels_of (img_format src) + ch" and ?h = "unat (reg_height r)"
  have "?o < (x + 1) * channels_of (img_format src)" using ch by simp
  also have "\<dots> \<le> row_bytes dst" unfolding row_bytes_def rows(2,3) using x by (intro mult_right_mono) simp_all
  finally have o: "?o < row_bytes dst" .
  have "img_stride out = img_stride dst" "img_format out = img_format src"
    using arg_cong [OF rows(1), of img_stride] arg_cong [OF rows(1), of img_format] rows(2) by simp_all
  then have i: "byte_index out y x ch = y * unat (img_stride dst) + ?o" by (simp add: byte_index_def)
  have "y * unat (img_stride dst) \<le> (?h - 1) * unat (img_stride dst)" using y by (intro mult_right_mono) simp_all
  with rows(7) o i have "byte_index out y x ch < length (img_bytes dst)" by linarith
  from rows(8) [OF this] y o i have "img_bytes out ! byte_index out y x ch = img_bytes crop ! (y * unat (img_stride crop) + ?o)" by simp
  also have "\<dots> = img_bytes crop ! byte_index crop y x ch" by (simp add: byte_index_def rows(5) add.assoc)
  finally show ?thesis using crop_pixel(2) [OF assms(1) crop y x ch] by simp
qed

text \<open>
  A copy writes the crop and nothing else: when \<open>copy_crop\<close> returns, the destination
  keeps its shape and its length, each of its pixels is the source pixel at the region's origin, and every byte
  outside its rows, the padding between them included, is as it was.
\<close>

theorem copy_crop_exact:
  assumes "length (img_bytes src) < 2 ^ 64" and "length (img_bytes dst) < 2 ^ 64" and "copy_crop src r dst = Inr out"
  shows "out = dst\<lparr>img_bytes := img_bytes out\<rparr> \<and> length (img_bytes out) = length (img_bytes dst) \<and>
    (\<forall>y < unat (reg_height r). \<forall>x < unat (reg_width r). \<forall>ch < channels_of (img_format src).
      img_bytes out ! byte_index out y x ch = img_bytes src ! byte_index src (unat (reg_y r) + y) (unat (reg_x r) + x) ch) \<and>
    (\<forall>i < length (img_bytes dst).
      (\<forall>y < unat (reg_height r). \<not> (y * unat (img_stride dst) \<le> i \<and> i < y * unat (img_stride dst) + row_bytes dst)) \<longrightarrow>
      img_bytes out ! i = img_bytes dst ! i)"
proof (intro conjI allI impI)
  from copy_crop_Inr [OF assms(2,3)] obtain crop where crop: "make_crop_view src r = Inr crop" by blast
  note rows = copy_crop_rows [OF assms crop]
  show "out = dst\<lparr>img_bytes := img_bytes out\<rparr>" by (rule rows(1))
  show "length (img_bytes out) = length (img_bytes dst)" using rows(8) [OF rows(6)] by blast
  show "img_bytes out ! i = img_bytes dst ! i" if "i < length (img_bytes dst)" and
    "\<forall>y < unat (reg_height r). \<not> (y * unat (img_stride dst) \<le> i \<and> i < y * unat (img_stride dst) + row_bytes dst)" for i
    using rows(8) [OF that(1)] that(2) by simp
qed (rule copy_crop_pixels [OF assms])

definition sample_destination :: ImageView where
  "sample_destination = \<lparr>img_bytes = [9, 9, 9, 9], img_width = 1, img_height = 2, img_stride = 2, img_format = gray8\<rparr>"

lemma upt_0_2: "[0..<2] = [0, 1::nat]"
  by (simp add: upt_rec)

lemma sample_copy:
  "copy_crop tiny_image sample_region sample_destination = Inr (sample_destination\<lparr>img_bytes := [2, 9, 6, 9]\<rparr>)"
  by (simp add: copy_crop_def make_crop_view_def validate_region_def region_empty_def crop_bytes_def pixel_bytes_def
      pixel_format_channels_def checked_add_def checked_multiply_def size_max_def tiny_image_def sample_region_def
      sample_destination_def slice_def store_def upt_0_2)

theorem copy_crop_exact_witness:
  "img_bytes (sample_destination\<lparr>img_bytes := [2, 9, 6, 9]\<rparr>) ! 3 = img_bytes sample_destination ! 3"
proof -
  have "length (img_bytes tiny_image) < 2 ^ 64" "length (img_bytes sample_destination) < 2 ^ 64"
    by (simp_all add: tiny_image_def sample_destination_def)
  note exact = copy_crop_exact [OF this sample_copy]
  have "\<forall>y < unat (reg_height sample_region). \<not> (y * unat (img_stride sample_destination) \<le> 3 \<and>
      3 < y * unat (img_stride sample_destination) + row_bytes sample_destination)"
    by (auto simp: sample_region_def sample_destination_def row_bytes_def channels_of_def less_2_cases_iff)
  with exact show ?thesis by (simp add: sample_destination_def)
qed

section \<open>Quality\<close>

lemma byte_at_le: "byte_at img y i \<le> 255"
  using unsigned_less [where 'a = nat, of "img_bytes img ! unat (of_nat y * img_stride img + of_nat i)"] by (simp add: byte_at_def)

text \<open>The weights of the luminance add up to 256, so it is an intensity.\<close>

lemma luminance_le: "luminance_at img x y \<le> 255"
proof -
  have "(77 * r + 150 * g + 29 * b + 128) div 256 \<le> 255" if "r \<le> 255" "g \<le> 255" "b \<le> 255" for r g b :: nat
    using that by linarith
  then show ?thesis using byte_at_le [of img y] by (auto simp: luminance_at_def Let_def)
qed

lemma laplacian_bounds: "\<bar>laplacian_at img x y\<bar> \<le> 1020"
  using luminance_le [of img "x - 1" y] luminance_le [of img "x + 1" y] luminance_le [of img x "y - 1"]
    luminance_le [of img x "y + 1"] luminance_le [of img x y]
  unfolding laplacian_at_def by linarith

context fp_format
begin

text \<open>Sums of integers below \<open>2 ^ precision\<close> are exact.\<close>

lemma round_int: "nat \<bar>n\<bar> < 2 ^ precision F \<Longrightarrow> round_rat F (of_int n) = of_int n"
  using round_nat [of "nat \<bar>n\<bar>"] by (cases "0 \<le> n") (simp_all add: minus_equation_iff [of "round_rat F _"])

lemma round_fl_int:
  assumes "nat \<bar>n\<bar> < 2 ^ precision F" and "\<bar>n\<bar> < 2 ^ 62"
  shows "round_fl F (of_int n) = Fin (of_int n)"
proof -
  have "\<bar>of_int n\<bar> \<le> (of_int (2 ^ 62) :: rat)" using assms(2) by (simp only: of_int_abs [symmetric] of_int_le_iff)
  also have "\<dots> \<le> pow2 63" by (simp add: pow2_def)
  finally show ?thesis using round_fl_small [of "of_int n"] round_int [OF assms(1)] by simp
qed

end

lemma round_fl64_int: "\<bar>n\<bar> < 2 ^ 53 \<Longrightarrow> round_fl binary64 (of_int n) = Fin (of_int n)"
  using b64.round_fl_int [of n] by (simp add: binary64_def nat_less_iff)

lemma float64_of_nat: "n < 2 ^ 53 \<Longrightarrow> float_of_nat binary64 n = Fin (of_nat n)"
  using round_fl64_int [of "int n"] by (simp add: float_of_nat_def)

text \<open>The sums of the two loops are exact below \<open>2 ^ 32\<close> pixels.\<close>

lemma intensity_sum:
  assumes "n + length ps < 2 ^ 32" and "t \<le> 255 * n" and "k \<le> n"
  shows "\<exists>t' k'. fold (\<lambda>(x, y). add_intensity c (luminance_at img x y)) ps (Fin (of_nat t), k) = (Fin (of_nat t'), k') \<and>
    t' = t + (\<Sum>(x, y) \<leftarrow> ps. luminance_at img x y) \<and> t' \<le> 255 * (n + length ps) \<and> k' \<le> n + length ps"
  using assms
proof (induction ps arbitrary: n t k)
  case (Cons p ps)
  obtain x y where p: "p = (x, y)" by force
  let ?v = "luminance_at img x y"
  have v: "?v \<le> 255" by (rule luminance_le)
  have "t + ?v < 2 ^ 53" using v Cons.prems(1,2) by simp
  then have "fadd binary64 (Fin (of_nat t)) (float_of_nat binary64 ?v) = Fin (of_nat (t + ?v))"
    using float64_of_nat [of "t + ?v"] float64_of_nat [of ?v] by (simp add: float_of_nat_def)
  moreover have "t + ?v \<le> 255 * (n + 1)" using v Cons.prems(2) by simp
  ultimately show ?case
    using Cons.IH [of "n + 1" "t + ?v" k] Cons.IH [of "n + 1" "t + ?v" "k + 1"] Cons.prems(1,3)
    by (simp add: p add_intensity_def add.assoc)
qed simp

lemma laplacian_sums:
  assumes "n + length ps < 2 ^ 32" and "\<bar>t\<bar> \<le> 1020 * int n" and "0 \<le> q" and "q \<le> 1040400 * int n"
  shows "\<exists>t' q'. fold (\<lambda>(x, y). add_laplacian (laplacian_at img x y)) ps (Fin (of_int t), Fin (of_int q), n) =
      (Fin (of_int t'), Fin (of_int q'), n + length ps) \<and>
    t' = t + (\<Sum>(x, y) \<leftarrow> ps. laplacian_at img x y) \<and> q' = q + (\<Sum>(x, y) \<leftarrow> ps. (laplacian_at img x y)\<^sup>2) \<and>
    \<bar>t'\<bar> \<le> 1020 * int (n + length ps) \<and> q' \<le> 1040400 * int (n + length ps) \<and> q \<le> q'"
  using assms
proof (induction ps arbitrary: n t q)
  case (Cons p ps)
  obtain x y where p: "p = (x, y)" by force
  let ?l = "laplacian_at img x y"
  have l: "\<bar>?l\<bar> \<le> 1020" by (rule laplacian_bounds)
  then have "\<bar>?l\<bar> * \<bar>?l\<bar> \<le> 1020 * 1020" by (intro mult_mono) simp_all
  then have l2: "?l * ?l \<le> 1040400" "0 \<le> ?l * ?l" by (simp_all add: abs_mult [symmetric])
  have t: "\<bar>t + ?l\<bar> \<le> 1020 * int (n + 1)" "q + ?l * ?l \<le> 1040400 * int (n + 1)" "0 \<le> q + ?l * ?l"
    using l l2 Cons.prems by simp_all
  have small: "\<bar>t + ?l\<bar> < 2 ^ 53" "\<bar>q + ?l * ?l\<bar> < 2 ^ 53" "\<bar>?l\<bar> < 2 ^ 53" "\<bar>?l * ?l\<bar> < 2 ^ 53"
    using t l l2 Cons.prems(1) by simp_all
  note exact = small [THEN round_fl64_int]
  have "add_laplacian ?l (Fin (of_int t), Fin (of_int q), n) = (Fin (of_int (t + ?l)), Fin (of_int (q + ?l * ?l)), n + 1)"
    using exact by (simp add: add_laplacian_def Let_def)
  with Cons.IH [of "n + 1" "t + ?l" "q + ?l * ?l"] t Cons.prems(1) l2(2) show ?case
    by (auto simp: p power2_eq_square add.assoc)
qed simp

lemma laplacian_loop:
  assumes "length ps < 2 ^ 32"
  shows "\<exists>t q j. (if b then fold (\<lambda>(x, y). add_laplacian (laplacian_at img x y)) ps (Fin 0, Fin 0, 0) else (Fin 0, Fin 0, 0)) =
      (Fin (of_int t), Fin (of_int q), j) \<and> \<bar>t\<bar> \<le> 1020 * int j \<and> 0 \<le> q \<and> q \<le> 1040400 * int j \<and> j < 2 ^ 32"
proof (cases b)
  case True
  have "0 + length ps < 2 ^ 32" "\<bar>0 :: int\<bar> \<le> 1020 * int 0" "(0 :: int) \<le> 0" "(0 :: int) \<le> 1040400 * int 0" using assms by simp_all
  from laplacian_sums [OF this, of img] obtain t q where
    "fold (\<lambda>(x, y). add_laplacian (laplacian_at img x y)) ps (Fin (of_int 0), Fin (of_int 0), 0) = (Fin (of_int t), Fin (of_int q), 0 + length ps)"
    "\<bar>t\<bar> \<le> 1020 * int (0 + length ps)" "q \<le> 1040400 * int (0 + length ps)" "0 \<le> q"
    by blast
  with True assms show ?thesis by (intro exI [of _ t] exI [of _ q] exI [of _ "length ps"]) simp
next
  case False
  then show ?thesis by (intro exI [of _ 0]) simp
qed

lemma length_pixels: "length (pixels x0 x1 y0 y1) = (x1 - x0) * (y1 - y0)"
  by (simp add: pixels_def length_concat o_def sum_list_triv)

text \<open>The configuration passed validation; its weights are moderate numbers.\<close>

definition quality_config_ok :: "CropQualityConfig \<Rightarrow> bool" where
  "quality_config_ok c \<longleftrightarrow> validate_quality_config c = Inr () \<and>
     (\<forall>w \<in> {cq_sharpness_weight c, cq_exposure_weight c, cq_clipping_weight c}. fle w (Fin (pow2 60)))"

lemma fdiv_pos_not_NaN: "a \<noteq> NaN \<Longrightarrow> 0 < y \<Longrightarrow> fdiv binary32 a (Fin y) \<noteq> NaN"
  by (cases a) (auto simp: signed_inf_def)

lemma fsub_Fin_not_NaN: "a \<noteq> NaN \<Longrightarrow> fsub binary32 (Fin x) a \<noteq> NaN"
  by (cases a) (auto simp: fsub_def)

lemma fabs_not_NaN: "a \<noteq> NaN \<Longrightarrow> fabs a \<noteq> NaN"
  by (cases a) auto

context fp_format
begin

text \<open>Rounding keeps a number within an integer bound that the format holds exactly, or a power of two.\<close>

lemma round_fl_within:
  assumes "\<bar>x\<bar> \<le> b" and "round_rat F b = b" and "b \<le> pow2 63"
  shows "\<exists>z. round_fl F x = Fin z \<and> \<bar>z\<bar> \<le> b \<and> (0 \<le> x \<longrightarrow> 0 \<le> z)"
proof -
  have "x \<le> b" "- b \<le> x" using assms(1) by linarith+
  then have "round_rat F x \<le> b" "- b \<le> round_rat F x"
    using round_mono [of x b] round_mono [of "- b" x] assms(2) by simp_all
  moreover have "round_fl F x = Fin (round_rat F x)" using assms(1,3) by (intro round_fl_small) simp
  ultimately show ?thesis using round_rat_nonneg [of x F] by auto
qed

lemma round_fl_nat_bound:
  assumes "\<bar>x\<bar> \<le> of_nat k" and "k < 2 ^ precision F" and "k < 2 ^ 62"
  shows "\<exists>z. round_fl F x = Fin z \<and> \<bar>z\<bar> \<le> of_nat k \<and> (0 \<le> x \<longrightarrow> 0 \<le> z)"
proof (rule round_fl_within [OF assms(1) round_nat [OF assms(2)]])
  have "(of_nat k :: rat) \<le> of_nat (2 ^ 62)" using assms(3) by (simp only: of_nat_le_iff)
  also have "\<dots> \<le> pow2 63" by (simp add: pow2_def)
  finally show "(of_nat k :: rat) \<le> pow2 63" .
qed

end

lemma mean_bound:
  assumes "T \<le> 255 * n" and "0 < n" and "n < 2 ^ 53"
  shows "\<exists>z. fcast binary32 (fdiv binary64 (Fin (of_nat T)) (float_of_nat binary64 n)) = Fin z \<and> 0 \<le> z \<and> z \<le> 255"
proof -
  have "(of_nat T :: rat) \<le> of_nat (255 * n)" using assms(1) by (simp only: of_nat_le_iff)
  then have "\<bar>of_nat T / of_nat n :: rat\<bar> \<le> of_nat 255" using assms(2) by (simp add: divide_le_eq)
  from b64.round_fl_nat_bound [OF this] obtain z where
    z: "round_fl binary64 (of_nat T / of_nat n) = Fin z" "\<bar>z\<bar> \<le> of_nat 255" "0 \<le> z"
    by (auto simp: binary64_def)
  from b32.round_fl_nat_bound [OF z(2)] z(3) obtain y where "round_fl binary32 z = Fin y" "\<bar>y\<bar> \<le> 255" "0 \<le> y"
    by (auto simp: binary32_def)
  then show ?thesis using float64_of_nat [OF assms(3)] assms(2) z(1) by (simp add: fcast_def)
qed

lemma variance_bound:
  assumes "\<bar>t\<bar> \<le> 1020 * int n" and "0 \<le> q" and "q \<le> 1040400 * int n" and "n < 2 ^ 32"
  shows "\<exists>z. laplacian_variance (Fin (of_int t), Fin (of_int q), n) = Fin z \<and> 0 \<le> z"
proof (cases "n = 0")
  case False
  have n: "float_of_nat binary64 n = Fin (of_nat n)" using assms(4) by (intro float64_of_nat) simp
  have "\<bar>of_int t\<bar> \<le> (of_int (1020 * int n) :: rat)" using assms(1) by (simp only: of_int_abs [symmetric] of_int_le_iff)
  then have "\<bar>of_int t / of_nat n :: rat\<bar> \<le> of_nat 1020" using False by (simp add: divide_le_eq abs_divide)
  from b64.round_fl_nat_bound [OF this] obtain m where
    m: "round_fl binary64 (of_int t / of_nat n) = Fin m" "\<bar>m\<bar> \<le> of_nat 1020" by (auto simp: binary64_def)
  have "(of_int q :: rat) \<le> of_int (1040400 * int n)" using assms(3) by (simp only: of_int_le_iff)
  then have "\<bar>of_int q / of_nat n :: rat\<bar> \<le> of_nat 1040400" using False assms(2) by (simp add: divide_le_eq)
  from b64.round_fl_nat_bound [OF this] assms(2) obtain s where
    s: "round_fl binary64 (of_int q / of_nat n) = Fin s" "\<bar>s\<bar> \<le> of_nat 1040400" "0 \<le> s" by (auto simp: binary64_def)
  have "\<bar>m\<bar> * \<bar>m\<bar> \<le> 1020 * 1020" using m(2) by (intro mult_mono) simp_all
  then have "\<bar>m * m\<bar> \<le> of_nat 1040400" by (simp add: abs_mult)
  from b64.round_fl_nat_bound [OF this] obtain p where
    p: "round_fl binary64 (m * m) = Fin p" "\<bar>p\<bar> \<le> of_nat 1040400" "0 \<le> p" by (auto simp: binary64_def)
  have "\<bar>s - p\<bar> \<le> of_nat 1040400" using s p by simp
  from b64.round_fl_nat_bound [OF this] obtain d where
    d: "round_fl binary64 (s - p) = Fin d" "\<bar>d\<bar> \<le> of_nat 1040400" by (auto simp: binary64_def)
  then have "\<bar>max 0 d\<bar> \<le> of_nat 1040400" by simp
  from b32.round_fl_nat_bound [OF this] obtain v where v: "round_fl binary32 (max 0 d) = Fin v" "0 \<le> v"
    by (auto simp: binary32_def)
  have "fmax (Fin 0) (Fin d) = Fin (max 0 d)" by (auto simp: fmax_def max_def)
  then show ?thesis using False n m(1) s(1) p(1) d(1) v by (simp add: laplacian_variance_def Let_def fsub_def fcast_def)
qed (simp add: laplacian_variance_def)

lemma weighted_bound:
  assumes "is_prob a" and "0 \<le> w" and "w \<le> pow2 60"
  shows "\<exists>z. mul32 a (Fin w) = Fin z \<and> 0 \<le> z \<and> z \<le> pow2 60"
proof -
  from assms(1) obtain x where x: "a = Fin x" "0 \<le> x" "x \<le> 1" by (rule is_probE)
  have "x * w \<le> 1 * pow2 60" using x assms(2,3) by (intro mult_mono) simp_all
  then have "\<bar>x * w\<bar> \<le> pow2 60" using x assms(2) by simp
  moreover have "round_rat binary32 (pow2 60) = pow2 60" by (rule b32.round_pow2) (simp add: binary32_def)
  ultimately show ?thesis
    using b32.round_fl_within [of "x * w" "pow2 60"] pow2_mono [of 60 63] x assms(2) by auto
qed

lemma sum_bound:
  assumes "0 \<le> x" "x \<le> pow2 k" and "0 \<le> y" and "y \<le> pow2 k" and "0 \<le> k" and "k \<le> 62"
  shows "\<exists>z. add32 (Fin x) (Fin y) = Fin z \<and> 0 \<le> z \<and> z \<le> pow2 (k + 1)"
proof -
  have "\<bar>x + y\<bar> \<le> pow2 (k + 1)" using assms(1-4) by (simp add: pow2_add)
  moreover have "round_rat binary32 (pow2 (k + 1)) = pow2 (k + 1)" by (rule b32.round_pow2) (use assms(5) in \<open>simp add: binary32_def\<close>)
  moreover have "pow2 (k + 1) \<le> pow2 63" using assms(6) by (intro pow2_mono) simp
  ultimately show ?thesis using b32.round_fl_within [of "x + y" "pow2 (k + 1)"] assms(1,3) by auto
qed

lemma sum3_bound:
  assumes "0 \<le> x" "x \<le> pow2 60" "0 \<le> y" "y \<le> pow2 60" "0 \<le> z" "z \<le> pow2 60"
  shows "\<exists>s. add32 (add32 (Fin x) (Fin y)) (Fin z) = Fin s \<and> 0 \<le> s"
proof -
  from sum_bound [OF assms(1-4)] obtain s where s: "add32 (Fin x) (Fin y) = Fin s" "0 \<le> s" "s \<le> pow2 61" by auto
  have "z \<le> pow2 61" using assms(6) pow2_mono [of 60 61] by simp
  from sum_bound [OF s(2,3) assms(5) this] s(1) show ?thesis by auto
qed

definition intensity_total :: "ImageView \<Rightarrow> nat" where
  "intensity_total img = (\<Sum>(x, y) \<leftarrow> pixels 0 (unat (img_width img)) 0 (unat (img_height img)). luminance_at img x y)"

lemma valid_quality_config:
  assumes "quality_config_ok c"
  shows "\<exists>t ref m w1 w2 w3. cq_target_exposure c = Fin t \<and> 0 \<le> t \<and> t \<le> 255 \<and> cq_sharpness_reference c = Fin ref \<and> 0 < ref \<and>
    cq_max_clipped_ratio c = Fin m \<and> 0 < m \<and>
    cq_sharpness_weight c = Fin w1 \<and> 0 \<le> w1 \<and> w1 \<le> pow2 60 \<and> cq_exposure_weight c = Fin w2 \<and> 0 \<le> w2 \<and> w2 \<le> pow2 60 \<and>
    cq_clipping_weight c = Fin w3 \<and> 0 \<le> w3 \<and> w3 \<le> pow2 60 \<and>
    \<not> fle (add32 (add32 (Fin w1) (Fin w2)) (Fin w3)) (Fin 0) \<and> cq_min_width c \<noteq> 0 \<and> cq_min_height c \<noteq> 0"
proof -
  have v: "\<not> (cq_min_width c = 0 \<or> cq_min_height c = 0 \<or>
        \<not> is_finite (cq_target_exposure c) \<or> flt (cq_target_exposure c) (Fin 0) \<or> flt (Fin 255) (cq_target_exposure c) \<or>
        cq_clipping_low c > 255 \<or> cq_clipping_high c > 255 \<or> cq_clipping_low c \<ge> cq_clipping_high c \<or>
        \<not> is_finite (cq_max_clipped_ratio c) \<or> fle (cq_max_clipped_ratio c) (Fin 0) \<or> flt (Fin 1) (cq_max_clipped_ratio c) \<or>
        \<not> is_finite (cq_sharpness_reference c) \<or> fle (cq_sharpness_reference c) (Fin 0) \<or>
        \<not> is_finite (cq_sharpness_weight c) \<or> flt (cq_sharpness_weight c) (Fin 0) \<or>
        \<not> is_finite (cq_exposure_weight c) \<or> flt (cq_exposure_weight c) (Fin 0) \<or>
        \<not> is_finite (cq_clipping_weight c) \<or> flt (cq_clipping_weight c) (Fin 0))"
    and ws: "\<not> fle (add32 (add32 (cq_sharpness_weight c) (cq_exposure_weight c)) (cq_clipping_weight c)) (Fin 0)"
    and w: "fle (cq_sharpness_weight c) (Fin (pow2 60))" "fle (cq_exposure_weight c) (Fin (pow2 60))"
      "fle (cq_clipping_weight c) (Fin (pow2 60))"
    using assms unfolding quality_config_ok_def validate_quality_config_def check_all_eq_Inr
    by (simp_all add: result_simps del: not_less not_le)
  from v obtain t ref m w1 w2 w3 where c: "cq_target_exposure c = Fin t" "cq_sharpness_reference c = Fin ref"
      "cq_max_clipped_ratio c = Fin m" "cq_sharpness_weight c = Fin w1" "cq_exposure_weight c = Fin w2" "cq_clipping_weight c = Fin w3"
    unfolding is_finite_iff by blast
  have "0 \<le> t \<and> t \<le> 255 \<and> 0 < ref \<and> 0 < m \<and> 0 \<le> w1 \<and> 0 \<le> w2 \<and> 0 \<le> w3 \<and> cq_min_width c \<noteq> 0 \<and> cq_min_height c \<noteq> 0"
    using v unfolding c by (simp only: de_Morgan_disj not_not flt.simps fle_Fin not_less not_le is_finite_simps simp_thms)
  moreover have "w1 \<le> pow2 60 \<and> w2 \<le> pow2 60 \<and> w3 \<le> pow2 60" using w unfolding c by (simp only: fle_Fin)
  ultimately show ?thesis using ws c unfolding c by blast
qed

lemma quality_of_bounds:
  assumes ok: "quality_config_ok c" and pos: "0 < unat (img_width img)" "0 < unat (img_height img)"
    and n: "n = unat (img_width img) * unat (img_height img)" "n < 2 ^ 32"
  defines "q \<equiv> quality_of c img n"
  shows "is_prob (qu_sharpness q)" and "is_prob (qu_exposure q)" and "is_prob (qu_clipping q)" and "is_prob (qu_overall q)"
    and "qu_mean_intensity q = fcast binary32 (fdiv binary64 (Fin (of_nat (intensity_total img))) (Fin (of_nat n)))"
    and "fle (Fin 0) (qu_mean_intensity q)" and "fle (qu_mean_intensity q) (Fin 255)"
proof -
  from valid_quality_config [OF ok] obtain t ref m w1 w2 w3 where
    c: "cq_target_exposure c = Fin t" "0 \<le> t" "t \<le> 255" "cq_sharpness_reference c = Fin ref" "0 < ref" "cq_max_clipped_ratio c = Fin m" "0 < m"
      "cq_sharpness_weight c = Fin w1" "cq_exposure_weight c = Fin w2" "cq_clipping_weight c = Fin w3" and
    w: "0 \<le> w1" "w1 \<le> pow2 60" "0 \<le> w2" "w2 \<le> pow2 60" "0 \<le> w3" "w3 \<le> pow2 60" and
    ws: "\<not> fle (add32 (add32 (Fin w1) (Fin w2)) (Fin w3)) (Fin 0)" by blast
  let ?w = "unat (img_width img)" and ?h = "unat (img_height img)"
  have n0: "0 < n" using pos n(1) by simp
  have len: "length (pixels 0 ?w 0 ?h) = n" by (simp add: length_pixels n(1))
  from intensity_sum [of 0 "pixels 0 ?w 0 ?h" 0 0 c img] n(2) len obtain k where
    k: "fold (\<lambda>(x, y). add_intensity c (luminance_at img x y)) (pixels 0 ?w 0 ?h) (Fin 0, 0) =
        (Fin (of_nat (intensity_total img)), k)" "intensity_total img \<le> 255 * n"
    by (auto simp: intensity_total_def)
  obtain lap where lap: "lap = (if 3 \<le> ?w \<and> 3 \<le> ?h
      then fold (\<lambda>(x, y). add_laplacian (laplacian_at img x y)) (pixels 1 (?w - 1) 1 (?h - 1)) (Fin 0, Fin 0, 0)
      else (Fin 0, Fin 0, 0))" by blast
  have "length (pixels 1 (?w - 1) 1 (?h - 1)) \<le> n"
    unfolding length_pixels n(1) by (intro mult_mono) simp_all
  then have "length (pixels 1 (?w - 1) 1 (?h - 1)) < 2 ^ 32" using n(2) by simp
  then have "\<exists>t' q' j. lap = (Fin (of_int t'), Fin (of_int q'), j) \<and> \<bar>t'\<bar> \<le> 1020 * int j \<and> 0 \<le> q' \<and> q' \<le> 1040400 * int j \<and> j < 2 ^ 32"
    unfolding lap by (rule laplacian_loop)
  then obtain t' q' j where
    j: "lap = (Fin (of_int t'), Fin (of_int q'), j)" "\<bar>t'\<bar> \<le> 1020 * int j" "0 \<le> q'" "q' \<le> 1040400 * int j" "j < 2 ^ 32"
    by blast
  from variance_bound [OF j(2-5)] obtain v where v: "laplacian_variance lap = Fin v" "0 \<le> v" by (auto simp: j(1))
  from mean_bound [OF k(2) n0] n(2) obtain mean where
    mean: "fcast binary32 (fdiv binary64 (Fin (of_nat (intensity_total img))) (float_of_nat binary64 n)) = Fin mean" "0 \<le> mean" "mean \<le> 255"
    by auto
  have q: "qu_sharpness q = clamp01 (div32 (Fin v) (Fin ref))" "qu_mean_intensity q = Fin mean"
      "qu_exposure q = (if flt (Fin 0) (fmax (Fin t) (sub32 (Fin 255) (Fin t)))
        then clamp01 (sub32 (Fin 1) (div32 (fabs (sub32 (Fin mean) (Fin t))) (fmax (Fin t) (sub32 (Fin 255) (Fin t))))) else Fin 1)"
      "qu_clipping q = clamp01 (sub32 (Fin 1) (div32 (div32 (float_of_nat binary32 k) (float_of_nat binary32 n)) (Fin m)))"
      "qu_overall q = clamp01 (div32 (add32 (add32 (mul32 (qu_sharpness q) (Fin w1)) (mul32 (qu_exposure q) (Fin w2)))
        (mul32 (qu_clipping q) (Fin w3))) (add32 (add32 (Fin w1) (Fin w2)) (Fin w3)))"
    unfolding q_def quality_of_def Let_def k(1) lap [symmetric] v(1) prod.case by (simp_all add: c mean(1))
  show "qu_mean_intensity q = fcast binary32 (fdiv binary64 (Fin (of_nat (intensity_total img))) (Fin (of_nat n)))"
    using q(2) mean(1) float64_of_nat [of n] n(2) by simp
  show "fle (Fin 0) (qu_mean_intensity q)" "fle (qu_mean_intensity q) (Fin 255)" using q(2) mean by simp_all
  show s: "is_prob (qu_sharpness q)" unfolding q by (intro prob_clamp01 fdiv_pos_not_NaN c) simp
  have not_NaN: "sub32 (Fin a) (Fin b) \<noteq> NaN" for a b by (rule fsub_Fin_not_NaN) simp
  show e: "is_prob (qu_exposure q)"
  proof -
    have "\<bar>255 - t\<bar> \<le> of_nat 255" using c(2,3) by simp
    from b32.round_fl_nat_bound [OF this] obtain u where u: "sub32 (Fin 255) (Fin t) = Fin u"
      by (auto simp: binary32_def fsub_def)
    then obtain d where d: "fmax (Fin t) (sub32 (Fin 255) (Fin t)) = Fin d" using fmax_in by metis
    have "is_prob (clamp01 (sub32 (Fin 1) (div32 (fabs (sub32 (Fin mean) (Fin t))) (Fin d))))" if "0 < d"
      by (intro prob_clamp01 fsub_Fin_not_NaN fdiv_pos_not_NaN fabs_not_NaN not_NaN that)
    then show ?thesis unfolding q d by simp
  qed
  show l: "is_prob (qu_clipping q)"
  proof -
    have "(of_nat n :: rat) \<le> of_nat (2 ^ 32)" using n(2) by (simp only: of_nat_le_iff)
    also have "\<dots> \<le> pow2 63" by (simp add: pow2_def)
    finally have "float_of_nat binary32 n = Fin (round_rat binary32 (of_nat n))"
      unfolding float_of_nat_def by (intro b32.round_fl_small) simp
    moreover have "0 < round_rat binary32 (of_nat n)"
      using b32.round_mono [of 1 "of_nat n"] b32.round_1 n0 by simp
    ultimately show ?thesis unfolding q float_of_nat_def [of _ k]
      by (intro prob_clamp01 fsub_Fin_not_NaN fdiv_pos_not_NaN c) (simp_all add: fdiv_pos_not_NaN)
  qed
  show "is_prob (qu_overall q)"
  proof -
    from weighted_bound [OF s w(1,2)] obtain a1 where a1: "mul32 (qu_sharpness q) (Fin w1) = Fin a1" "0 \<le> a1" "a1 \<le> pow2 60" by blast
    from weighted_bound [OF e w(3,4)] obtain a2 where a2: "mul32 (qu_exposure q) (Fin w2) = Fin a2" "0 \<le> a2" "a2 \<le> pow2 60" by blast
    from weighted_bound [OF l w(5,6)] obtain a3 where a3: "mul32 (qu_clipping q) (Fin w3) = Fin a3" "0 \<le> a3" "a3 \<le> pow2 60" by blast
    from sum3_bound [OF a1(2,3) a2(2,3) a3(2,3)] obtain a where a: "add32 (add32 (Fin a1) (Fin a2)) (Fin a3) = Fin a" by blast
    from sum3_bound [OF w] obtain b where b: "add32 (add32 (Fin w1) (Fin w2)) (Fin w3) = Fin b" by blast
    with ws have "0 < b" by simp
    then show ?thesis unfolding q(5) a1 a2 a3 a b by (intro prob_clamp01 fdiv_pos_not_NaN) simp_all
  qed
qed

lemma evaluate_crop_quality_Inr:
  assumes "evaluate_crop_quality img c = Inr q" and "length (img_bytes img) < 2 ^ 64"
  shows "validate_quality_config c = Inr () \<and>
    (q = no_quality \<or> 0 < unat (img_width img) \<and> 0 < unat (img_height img) \<and> extent_bytes img \<le> length (img_bytes img) \<and>
      q = quality_of c img (unat (img_width img) * unat (img_height img)))"
proof -
  have v: "validate_quality_config c = Inr ()"
    using assms(1) by (cases "validate_quality_config c") (simp_all add: evaluate_crop_quality_def)
  then have m: "cq_min_width c \<noteq> 0" "cq_min_height c \<noteq> 0"
    unfolding validate_quality_config_def check_all_eq_Inr by (simp_all add: result_simps)
  have l: "unat (of_nat (length (img_bytes img)) :: 64 word) = length (img_bytes img)" using assms(2) by (simp add: unat_of_nat)
  show ?thesis
  proof (cases "img_width img < cq_min_width c \<or> img_height img < cq_min_height c \<or> img_bytes img = []")
    case True
    then show ?thesis using assms(1) v by (simp add: evaluate_crop_quality_def)
  next
    case False
    then have "cq_min_width c \<le> img_width img" "cq_min_height c \<le> img_height img" by (simp_all add: not_less)
    then have pos: "img_width img \<noteq> 0" "img_height img \<noteq> 0" using m word_le_0_iff by metis+
    from assms(1) False v show ?thesis
      by (auto simp: evaluate_crop_quality_def result_simps pixel_bytes_Inr checked_add_Inr checked_multiply_Inr channels_unat
          word_less_nat_alt not_less l row_bytes_def extent_bytes_def unat_pred pos unat_gt_0 mult.commute split: if_split_asm)
  qed
qed

text \<open>
  The quality of a crop is made of probabilities: for a validated configuration with moderate weights and
  fewer than \<open>2 ^ 32\<close> pixels, no value is a NaN, sharpness, exposure, clipping and the overall score are in
  the unit interval, and the mean is within 255; where the image is large enough, the sum of intensities is exact, so the
  mean is the exact mean rounded twice.
\<close>

theorem crop_quality_certified:
  assumes "evaluate_crop_quality img c = Inr q" and "quality_config_ok c" and "length (img_bytes img) < 2 ^ 64"
    and "unat (img_width img) * unat (img_height img) < 2 ^ 32"
  shows "is_prob (qu_sharpness q) \<and> is_prob (qu_exposure q) \<and> is_prob (qu_clipping q) \<and> is_prob (qu_overall q) \<and>
    fle (Fin 0) (qu_mean_intensity q) \<and> fle (qu_mean_intensity q) (Fin 255) \<and>
    (q = no_quality \<or> qu_mean_intensity q = fcast binary32 (fdiv binary64 (Fin (of_nat (intensity_total img)))
      (Fin (of_nat (unat (img_width img) * unat (img_height img))))))"
proof (cases "q = no_quality")
  case False
  with evaluate_crop_quality_Inr [OF assms(1,3)] have
    pos: "0 < unat (img_width img)" "0 < unat (img_height img)" and
    q: "q = quality_of c img (unat (img_width img) * unat (img_height img))" by blast+
  show ?thesis using quality_of_bounds [OF assms(2) pos refl assms(4)] unfolding q by blast
qed (simp add: no_quality_def)

definition grey_square :: ImageView where
  "grey_square = \<lparr>img_bytes = replicate 9 128, img_width = 3, img_height = 3, img_stride = 3, img_format = gray8\<rparr>"

definition small_quality_config :: CropQualityConfig where
  "small_quality_config = default_quality_config\<lparr>cq_min_width := 2, cq_min_height := 2, cq_max_clipped_ratio := Fin (1/4),
     cq_sharpness_weight := Fin (1/2), cq_exposure_weight := Fin (1/4), cq_clipping_weight := Fin (1/4)\<rparr>"

theorem crop_quality_certified_witness:
  "\<exists>q. evaluate_crop_quality grey_square small_quality_config = Inr q \<and> is_prob (qu_overall q)"
proof -
  have sum: "fle (add32 (add32 (Fin (1/2)) (Fin (1/4))) (Fin (1/4))) (Fin 0) = False" by code_simp
  have w: "(1/2 :: rat) \<le> pow2 60" "(1/4 :: rat) \<le> pow2 60" "(0::rat) \<le> pow2 60" by (simp_all add: pow2_def)
  have v: "validate_quality_config small_quality_config = Inr ()"
    unfolding validate_quality_config_def check_all_eq_Inr
    by (simp add: small_quality_config_def default_quality_config_def sum throw_if_def del: fadd.simps)
  then have c: "quality_config_ok small_quality_config"
    using w by (simp add: quality_config_ok_def small_quality_config_def default_quality_config_def)
  have "\<exists>q. evaluate_crop_quality grey_square small_quality_config = Inr q"
    unfolding evaluate_crop_quality_def v
    by (simp add: grey_square_def small_quality_config_def default_quality_config_def pixel_bytes_def pixel_format_channels_def
        checked_add_def checked_multiply_def size_max_def)
  then obtain q where q: "evaluate_crop_quality grey_square small_quality_config = Inr q" by blast
  have "length (img_bytes grey_square) < 2 ^ 64" "unat (img_width grey_square) * unat (img_height grey_square) < 2 ^ 32"
    by (simp_all add: grey_square_def)
  from crop_quality_certified [OF q c this] q show ?thesis by blast
qed

text \<open>The bound on the weights is needed: three valid weights whose sum overflows make the overall score a NaN.\<close>

definition huge_weights :: CropQualityConfig where
  "huge_weights = \<lparr>cq_min_width = 1, cq_min_height = 1, cq_target_exposure = Fin 128, cq_clipping_low = 4,
     cq_clipping_high = 251, cq_max_clipped_ratio = Fin (1/4), cq_sharpness_reference = Fin 400,
     cq_sharpness_weight = Fin (pow2 127), cq_exposure_weight = Fin (pow2 127), cq_clipping_weight = Fin (pow2 127)\<rparr>"

definition grey_dot :: ImageView where
  "grey_dot = \<lparr>img_bytes = [128], img_width = 1, img_height = 1, img_stride = 1, img_format = gray8\<rparr>"

lemma huge_weights_overall_NaN:
  "validate_quality_config huge_weights = Inr () \<and> map_sum id qu_overall (evaluate_crop_quality grey_dot huge_weights) = Inr NaN"
proof
  show "validate_quality_config huge_weights = Inr ()" by code_simp
  then have "evaluate_crop_quality grey_dot huge_weights = Inr (quality_of huge_weights grey_dot 1)"
    by (simp add: evaluate_crop_quality_def grey_dot_def huge_weights_def pixel_bytes_def pixel_format_channels_def
        checked_add_def checked_multiply_def size_max_def)
  moreover have "round_fl binary64 128 = Fin 128" using float64_of_nat [of 128] by (simp add: float_of_nat_def)
  then have "fold (\<lambda>(x, y). add_intensity huge_weights (luminance_at grey_dot x y)) (pixels 0 (unat (img_width grey_dot)) 0 (unat (img_height grey_dot)))
      (Fin 0, 0) = (Fin 128, 0)"
    by (simp add: pixels_def add_intensity_def luminance_at_def byte_at_def grey_dot_def huge_weights_def float_of_nat_def)
  then have "qu_overall (quality_of huge_weights grey_dot 1) = NaN"
    unfolding quality_of_def Let_def
    by (simp add: grey_dot_def huge_weights_def laplacian_variance_def del: fadd.simps fmul.simps fdiv.simps) code_simp
  ultimately show "map_sum id qu_overall (evaluate_crop_quality grey_dot huge_weights) = Inr NaN" by simp
qed

end
