(* ===== verification/Worker_Pool.thy ===== *)
theory Worker_Pool
  imports Native_Image
begin

text \<open>
  The bounded worker pool (\<^verbatim>\<open>infrastructure/concurrency/bounded_worker_pool.cpp\<close>) as a transition system.
  Every step is one critical section, one notification or one piece of work outside the lock, by one thread, so
  the steps of different threads interleave freely. A thread inside \<open>condition_variable::wait\<close> is asleep until a
  notification or a spurious wakeup makes it check its predicate again. Counters are natural numbers.
\<close>

section \<open>Configuration\<close>

datatype QueueFullPolicy = reject_newest | block

datatype ShutdownPolicy = drain | discard_pending

record BoundedWorkerPoolConfig =
  wp_worker_count :: "64 word"
  wp_queue_capacity :: "64 word"
  wp_estimated_task_bytes :: "64 word"
  wp_max_queue_memory_bytes :: "64 word"
  wp_full_policy :: QueueFullPolicy
  wp_shutdown_policy :: ShutdownPolicy
  wp_workspace :: NativeImageWorkspaceConfig

definition default_pool_config :: BoundedWorkerPoolConfig where
  "default_pool_config = \<lparr>wp_worker_count = 1, wp_queue_capacity = 8, wp_estimated_task_bytes = 1024,
     wp_max_queue_memory_bytes = 512 * 1024 * 1024, wp_full_policy = reject_newest, wp_shutdown_policy = drain,
     wp_workspace = default_workspace_config\<rparr>"

section \<open>State\<close>

text \<open>Where a worker thread is in \<open>worker_loop\<close>.\<close>

datatype 'a worker =
    Checking          \<comment> \<open>about to evaluate the predicate of \<open>work_available_.wait\<close>\<close>
  | Sleeping          \<comment> \<open>inside the wait\<close>
  | Took 'a           \<comment> \<open>took a task, about to notify \<open>queue_space_available_\<close>\<close>
  | Running 'a        \<comment> \<open>in \<open>task(workspace)\<close>\<close>
  | Finished 'a bool  \<comment> \<open>the task returned or threw; about to update the counters\<close>
  | Exited

text \<open>Where a client thread is in \<open>submit\<close>.\<close>

datatype 'a submitter =
    Idle
  | Submitting 'a     \<comment> \<open>about to evaluate the guards, holding the lock\<close>
  | Blocked 'a        \<comment> \<open>inside \<open>queue_space_available_.wait\<close>\<close>
  | Pushed            \<comment> \<open>unlocked, about to notify \<open>work_available_\<close>\<close>

text \<open>Where the one call of \<open>shutdown\<close> that stops the pool is.\<close>

datatype closer = Not_called | Notify_space | Notify_work | Joining | Returned

record 'a pool =
  pl_config :: BoundedWorkerPoolConfig
  pl_queue :: "'a list"
  pl_accepting :: bool
  pl_stopping :: bool
  pl_submitted :: nat
  pl_completed :: nat
  pl_failed :: nat
  pl_dropped :: nat
  pl_active :: nat
  pl_peak_pending :: nat
  pl_workers :: "'a worker list"
  pl_clients :: "'a submitter list"
  pl_closer :: closer

definition capacity :: "'a pool \<Rightarrow> nat" where
  "capacity p = unat (wp_queue_capacity (pl_config p))"

text \<open>
  The constructor. \<open>spawn i\<close> tells whether the \<open>i\<close>th thread starts; when one does not, the
  started ones are stopped and joined and the constructor throws. \<open>clients\<close> is the number of threads that will submit.
\<close>

definition make_pool :: "(nat \<Rightarrow> bool) \<Rightarrow> nat \<Rightarrow> BoundedWorkerPoolConfig \<Rightarrow> 'a pool result" where
  "make_pool spawn clients c =
     res_bind (check_all
       [throw_if (wp_worker_count c = 0 \<or> wp_worker_count c > 256) (ConfigurationError ''worker_count must be in [1,256]''),
        throw_if (wp_queue_capacity c = 0 \<or> wp_queue_capacity c > 65536) (ConfigurationError ''queue_capacity must be in [1,65536]''),
        throw_if (wp_estimated_task_bytes c = 0 \<or> wp_max_queue_memory_bytes c = 0)
          (ConfigurationError ''worker queue memory budget values must be greater than zero'')]) (\<lambda>_.
     res_bind (checked_resource_multiply (wp_queue_capacity c) (wp_estimated_task_bytes c) (wp_max_queue_memory_bytes c)
       ''worker queue memory'') (\<lambda>_.
     res_bind (make_workspace (wp_workspace c)) (\<lambda>_.
     res_bind (throw_if (\<exists>i \<in> set [0..<unat (wp_worker_count c)]. \<not> spawn i)
       (ResourceExhaustedError ''cannot start bounded worker pool threads'')) (\<lambda>_.
     Inr \<lparr>pl_config = c, pl_queue = [], pl_accepting = True, pl_stopping = False, pl_submitted = 0, pl_completed = 0,
          pl_failed = 0, pl_dropped = 0, pl_active = 0, pl_peak_pending = 0,
          pl_workers = replicate (unat (wp_worker_count c)) Checking, pl_clients = replicate clients Idle,
          pl_closer = Not_called\<rparr>))))"

record pool_stats =
  ps_submitted :: nat
  ps_completed :: nat
  ps_failed :: nat
  ps_dropped :: nat
  ps_pending :: nat
  ps_active :: nat
  ps_peak_pending :: nat

definition stats :: "'a pool \<Rightarrow> pool_stats" where
  "stats p = \<lparr>ps_submitted = pl_submitted p, ps_completed = pl_completed p, ps_failed = pl_failed p, ps_dropped = pl_dropped p,
     ps_pending = length (pl_queue p), ps_active = pl_active p, ps_peak_pending = pl_peak_pending p\<rparr>"

section \<open>Submission\<close>

text \<open>A \<open>std::function\<close> may be empty.\<close>

definition submit_entry :: "'a option \<Rightarrow> 'a submitter result" where
  "submit_entry task = (case task of None \<Rightarrow> Inl (ConfigurationError ''worker pool task cannot be empty'') | Some t \<Rightarrow> Inr (Submitting t))"

datatype 'a pool_event = Tau | Admitted 'a | Refused 'a | Dropped 'a | Started 'a | Ended 'a bool | Discarded "'a list" | Closed

definition push :: "'a \<Rightarrow> 'a pool \<Rightarrow> 'a pool" where
  "push t p = p\<lparr>pl_queue := pl_queue p @ [t], pl_submitted := pl_submitted p + 1,
     pl_peak_pending := max (pl_peak_pending p) (length (pl_queue p) + 1)\<rparr>"

text \<open>The critical section of \<open>submit\<close>, from the first lock or from a wakeup of the wait: both evaluate the same guards.\<close>

definition submit_section :: "'a \<Rightarrow> 'a pool \<Rightarrow> 'a pool \<times> 'a submitter \<times> 'a pool_event" where
  "submit_section t p =
     (if \<not> pl_accepting p then (p, Idle, Refused t)
      else case wp_full_policy (pl_config p) of
        block \<Rightarrow> if length (pl_queue p) < capacity p then (push t p, Pushed, Admitted t) else (p, Blocked t, Tau)
      | reject_newest \<Rightarrow> if length (pl_queue p) \<ge> capacity p then (p\<lparr>pl_dropped := pl_dropped p + 1\<rparr>, Idle, Dropped t)
          else (push t p, Pushed, Admitted t))"

section \<open>Workers\<close>

text \<open>The critical section that takes a task, from the first lock or a wakeup.\<close>

definition take_section :: "'a pool \<Rightarrow> 'a pool \<times> 'a worker \<times> 'a pool_event" where
  "take_section p =
     (case pl_queue p of
        [] \<Rightarrow> if pl_stopping p then (p, Exited, Tau) else (p, Sleeping, Tau)
      | t # ts \<Rightarrow> (p\<lparr>pl_queue := ts, pl_active := pl_active p + 1\<rparr>, Took t, Started t))"

definition finish_section :: "'a \<Rightarrow> bool \<Rightarrow> 'a pool \<Rightarrow> 'a pool \<times> 'a worker \<times> 'a pool_event" where
  "finish_section t succeeded p =
     (let p = p\<lparr>pl_active := pl_active p - 1\<rparr> in
      (if succeeded then p\<lparr>pl_completed := pl_completed p + 1\<rparr> else p\<lparr>pl_failed := pl_failed p + 1\<rparr>, Checking, Ended t succeeded))"

section \<open>Shutdown\<close>

definition shutdown_section :: "'a pool \<Rightarrow> 'a pool \<times> 'a pool_event" where
  "shutdown_section p =
     (if pl_stopping p then (p, Tau)
      else let p' = p\<lparr>pl_accepting := False, pl_stopping := True, pl_closer := Notify_space\<rparr> in
        if wp_shutdown_policy (pl_config p) = discard_pending
        then (p'\<lparr>pl_dropped := pl_dropped p + length (pl_queue p), pl_queue := []\<rparr>, Discarded (pl_queue p))
        else (p', Tau))"

fun wake_client :: "'a submitter \<Rightarrow> 'a submitter" where
  "wake_client (Blocked t) = Submitting t"
| "wake_client s = s"

fun wake_worker :: "'a worker \<Rightarrow> 'a worker" where
  "wake_worker Sleeping = Checking"
| "wake_worker w = w"

section \<open>Steps\<close>

abbreviation set_worker :: "nat \<Rightarrow> 'a worker \<Rightarrow> 'a pool \<Rightarrow> 'a pool" where
  "set_worker i w p \<equiv> p\<lparr>pl_workers := (pl_workers p)[i := w]\<rparr>"

abbreviation set_client :: "nat \<Rightarrow> 'a submitter \<Rightarrow> 'a pool \<Rightarrow> 'a pool" where
  "set_client i s p \<equiv> p\<lparr>pl_clients := (pl_clients p)[i := s]\<rparr>"

abbreviation worker_is :: "'a pool \<Rightarrow> nat \<Rightarrow> 'a worker \<Rightarrow> bool" where
  "worker_is p i w \<equiv> i < length (pl_workers p) \<and> pl_workers p ! i = w"

abbreviation client_is :: "'a pool \<Rightarrow> nat \<Rightarrow> 'a submitter \<Rightarrow> bool" where
  "client_is p i s \<equiv> i < length (pl_clients p) \<and> pl_clients p ! i = s"

text \<open>
  \<open>notify_one\<close> wakes one of the threads that wait, any of them, and does nothing when none does.
  \<open>notified_worker p p'\<close> and \<open>notified_client p p'\<close> relate the pool before and after.
\<close>

definition notified_worker :: "'a pool \<Rightarrow> 'a pool \<Rightarrow> bool" where
  "notified_worker p p' \<longleftrightarrow> (if Sleeping \<in> set (pl_workers p)
     then \<exists>i < length (pl_workers p). pl_workers p ! i = Sleeping \<and> p' = set_worker i Checking p else p' = p)"

definition notified_client :: "'a pool \<Rightarrow> 'a pool \<Rightarrow> bool" where
  "notified_client p p' \<longleftrightarrow> (if \<exists>s \<in> set (pl_clients p). \<exists>t. s = Blocked t
     then \<exists>i < length (pl_clients p). \<exists>t. pl_clients p ! i = Blocked t \<and> p' = set_client i (Submitting t) p else p' = p)"

text \<open>The steps the pool and the calls in progress make by themselves.\<close>

inductive pool_step :: "'a pool \<Rightarrow> 'a pool_event \<Rightarrow> 'a pool \<Rightarrow> bool" where
  step_submit: "client_is p i (Submitting t) \<Longrightarrow> submit_section t p = (p', s, e) \<Longrightarrow> pool_step p e (set_client i s p')"
| step_notify_work: "client_is p i Pushed \<Longrightarrow> notified_worker (set_client i Idle p) p' \<Longrightarrow> pool_step p Tau p'"
| step_take: "worker_is p i Checking \<Longrightarrow> take_section p = (p', w, e) \<Longrightarrow> pool_step p e (set_worker i w p')"
| step_notify_space: "worker_is p i (Took t) \<Longrightarrow> notified_client (set_worker i (Running t) p) p' \<Longrightarrow> pool_step p Tau p'"
| step_run: "worker_is p i (Running t) \<Longrightarrow> pool_step p Tau (set_worker i (Finished t succeeded) p)"
| step_finish: "worker_is p i (Finished t succeeded) \<Longrightarrow> finish_section t succeeded p = (p', w, e) \<Longrightarrow>
    pool_step p e (set_worker i w p')"
| step_wake_clients: "pl_closer p = Notify_space \<Longrightarrow>
    pool_step p Tau (p\<lparr>pl_clients := map wake_client (pl_clients p), pl_closer := Notify_work\<rparr>)"
| step_wake_workers: "pl_closer p = Notify_work \<Longrightarrow>
    pool_step p Tau (p\<lparr>pl_workers := map wake_worker (pl_workers p), pl_closer := Joining\<rparr>)"
| step_join: "pl_closer p = Joining \<Longrightarrow> \<forall>w \<in> set (pl_workers p). w = Exited \<Longrightarrow>
    pool_step p Closed (p\<lparr>pl_closer := Returned\<rparr>)"

text \<open>What the environment may do: call \<open>submit\<close>, call \<open>shutdown\<close>, and wake a waiting thread spuriously.\<close>

inductive environment_step :: "'a pool \<Rightarrow> 'a pool_event \<Rightarrow> 'a pool \<Rightarrow> bool" where
  env_submit: "client_is p i Idle \<Longrightarrow> submit_entry (Some t) = Inr s \<Longrightarrow> environment_step p Tau (set_client i s p)"
| env_shutdown: "shutdown_section p = (p', e) \<Longrightarrow> environment_step p e p'"
| env_wake_client: "client_is p i (Blocked t) \<Longrightarrow> environment_step p Tau (set_client i (Submitting t) p)"
| env_wake_worker: "worker_is p i Sleeping \<Longrightarrow> environment_step p Tau (set_worker i Checking p)"

inductive pool_run :: "'a pool \<Rightarrow> 'a pool_event list \<Rightarrow> 'a pool \<Rightarrow> bool" where
  run_start: "pool_run p [] p"
| run_step: "pool_run p es q \<Longrightarrow> pool_step q e r \<or> environment_step q e r \<Longrightarrow> pool_run p (es @ [e]) r"

definition reachable :: "'a pool \<Rightarrow> 'a pool_event list \<Rightarrow> bool" where
  "reachable p es \<longleftrightarrow> (\<exists>spawn n c p0. make_pool spawn n c = Inr p0 \<and> pool_run p0 es p)"

section \<open>The invariant\<close>

fun asleep :: "'a worker \<Rightarrow> bool" where
  "asleep Sleeping = True"
| "asleep _ = False"

fun gone :: "'a worker \<Rightarrow> bool" where
  "gone Exited = True"
| "gone _ = False"

fun took :: "'a worker \<Rightarrow> bool" where
  "took (Took t) = True"
| "took _ = False"

fun busy :: "'a worker \<Rightarrow> bool" where
  "busy (Took t) = True"
| "busy (Running t) = True"
| "busy (Finished t b) = True"
| "busy _ = False"

fun blocked :: "'a submitter \<Rightarrow> bool" where
  "blocked (Blocked t) = True"
| "blocked _ = False"

fun submitting :: "'a submitter \<Rightarrow> bool" where
  "submitting (Submitting t) = True"
| "submitting _ = False"

fun pushed :: "'a submitter \<Rightarrow> bool" where
  "pushed Pushed = True"
| "pushed _ = False"

definition tally :: "('b \<Rightarrow> bool) \<Rightarrow> 'b list \<Rightarrow> nat" where
  "tally P xs = length (filter P xs)"

lemma tally_update: "i < length xs \<Longrightarrow> tally P (xs[i := v]) + of_bool (P (xs ! i)) = tally P xs + of_bool (P v)"
  unfolding tally_def
proof (induction xs arbitrary: i)
  case (Cons x xs)
  then show ?case by (cases i) (use Cons.IH in force)+
qed simp

lemma tally_le: "tally P xs \<le> length xs"
  by (simp add: tally_def)

lemma tally_0: "tally P xs = 0 \<longleftrightarrow> (\<forall>x \<in> set xs. \<not> P x)"
  by (simp add: tally_def filter_empty_conv)

lemma tally_all: "tally P xs = length xs \<longleftrightarrow> (\<forall>x \<in> set xs. P x)"
  unfolding tally_def by (metis filter_id_conv length_filter_less less_irrefl)

text \<open>
  Counters and states agree; a thread exits only when the queue is empty for good; after each phase of the
  shutdown nobody waits for it; and no wakeup is lost: a queued task is matched by a worker that is awake or a
  notification on its way, and where clients wait, every free place of the queue is.
\<close>

definition pool_inv :: "'a pool \<Rightarrow> bool" where
  "pool_inv p \<longleftrightarrow> 0 < capacity p \<and> pl_workers p \<noteq> [] \<and> length (pl_queue p) \<le> capacity p \<and>
     length (pl_queue p) \<le> pl_peak_pending p \<and> pl_peak_pending p \<le> capacity p \<and>
     (pl_stopping p \<longleftrightarrow> \<not> pl_accepting p) \<and> (pl_closer p = Not_called \<longleftrightarrow> \<not> pl_stopping p) \<and>
     pl_active p = tally busy (pl_workers p) \<and>
     (0 < tally gone (pl_workers p) \<longrightarrow> pl_stopping p \<and> pl_queue p = []) \<and>
     (pl_closer p = Joining \<or> pl_closer p = Returned \<longrightarrow> tally asleep (pl_workers p) = 0) \<and>
     (pl_closer p \<noteq> Not_called \<and> pl_closer p \<noteq> Notify_space \<longrightarrow> tally blocked (pl_clients p) = 0) \<and>
     (pl_closer p = Returned \<longrightarrow> tally gone (pl_workers p) = length (pl_workers p)) \<and>
     (\<not> pl_stopping p \<and> pl_queue p \<noteq> [] \<longrightarrow>
        tally asleep (pl_workers p) < length (pl_workers p) \<or> 0 < tally pushed (pl_clients p)) \<and>
     (pl_accepting p \<and> 0 < tally blocked (pl_clients p) \<longrightarrow>
        capacity p \<le> length (pl_queue p) + tally took (pl_workers p) + tally submitting (pl_clients p))"

lemma config_simps [simp]:
  "capacity (p\<lparr>pl_workers := a\<rparr>) = capacity p" "capacity (p\<lparr>pl_clients := b\<rparr>) = capacity p"
  "capacity (p\<lparr>pl_closer := d\<rparr>) = capacity p" "capacity (p\<lparr>pl_queue := q\<rparr>) = capacity p"
  "capacity (p\<lparr>pl_active := n\<rparr>) = capacity p" "capacity (p\<lparr>pl_dropped := n\<rparr>) = capacity p"
  "capacity (p\<lparr>pl_completed := n\<rparr>) = capacity p" "capacity (p\<lparr>pl_failed := n\<rparr>) = capacity p"
  "capacity (p\<lparr>pl_submitted := n\<rparr>) = capacity p" "capacity (p\<lparr>pl_peak_pending := n\<rparr>) = capacity p"
  "capacity (p\<lparr>pl_accepting := y\<rparr>) = capacity p" "capacity (p\<lparr>pl_stopping := y\<rparr>) = capacity p"
  by (simp_all add: capacity_def)

lemma make_pool_inv:
  assumes "make_pool spawn n c = Inr p"
  shows "pool_inv p" and "pl_queue p = []" and "pl_submitted p = 0" and "pl_completed p = 0" and "pl_failed p = 0"
    and "pl_dropped p = 0" and "pl_config p = c" and "pl_active p = 0"
proof -
  from assms have c: "wp_worker_count c \<noteq> 0" "wp_queue_capacity c \<noteq> 0" and
    p: "p = \<lparr>pl_config = c, pl_queue = [], pl_accepting = True, pl_stopping = False, pl_submitted = 0, pl_completed = 0,
          pl_failed = 0, pl_dropped = 0, pl_active = 0, pl_peak_pending = 0,
          pl_workers = replicate (unat (wp_worker_count c)) Checking, pl_clients = replicate n Idle, pl_closer = Not_called\<rparr>"
    by (auto simp: make_pool_def res_bind_eq_Inr check_all_eq_Inr throw_if_eq)
  show "pool_inv p" using c by (auto simp: p pool_inv_def capacity_def tally_def unat_gt_0)
qed (use assms in \<open>auto simp: make_pool_def res_bind_eq_Inr\<close>)

lemma submit_section_cases:
  assumes "submit_section t p = (p', s, e)"
  shows "\<not> pl_accepting p \<and> p' = p \<and> s = Idle \<and> e = Refused t \<or>
    pl_accepting p \<and> length (pl_queue p) < capacity p \<and> p' = push t p \<and> s = Pushed \<and> e = Admitted t \<or>
    pl_accepting p \<and> capacity p \<le> length (pl_queue p) \<and> p' = p \<and> s = Blocked t \<and> e = Tau \<or>
    pl_accepting p \<and> capacity p \<le> length (pl_queue p) \<and> p' = p\<lparr>pl_dropped := pl_dropped p + 1\<rparr> \<and> s = Idle \<and> e = Dropped t"
  using assms unfolding submit_section_def
  by (cases "pl_accepting p"; cases "wp_full_policy (pl_config p)"; cases "length (pl_queue p) < capacity p") simp_all

lemma submit_inv:
  assumes inv: "pool_inv p" and c: "client_is p i (Submitting t)" and s: "submit_section t p = (p', s, e)"
  shows "pool_inv (set_client i s p')"
proof -
  note u = tally_update [of i "pl_clients p", where v = s]
  from c have l: "i < length (pl_clients p)" "pl_clients p ! i = Submitting t" by auto
  note B = u [OF l(1), of blocked] and S = u [OF l(1), of submitting] and P = u [OF l(1), of pushed]
  consider (refused) "\<not> pl_accepting p" "p' = p" "s = Idle"
    | (push) "pl_accepting p" "length (pl_queue p) < capacity p" "p' = push t p" "s = Pushed"
    | (wait) "pl_accepting p" "capacity p \<le> length (pl_queue p)" "p' = p" "s = Blocked t"
    | (drop) "pl_accepting p" "capacity p \<le> length (pl_queue p)" "p' = p\<lparr>pl_dropped := pl_dropped p + 1\<rparr>" "s = Idle"
    using submit_section_cases [OF s] by blast
  then show ?thesis
  proof cases
    case refused
    with l B S P have "tally blocked ((pl_clients p)[i := s]) = tally blocked (pl_clients p)" 
      "tally pushed ((pl_clients p)[i := s]) = tally pushed (pl_clients p)" by simp_all
    then show ?thesis using inv refused(1) unfolding refused(2) by (simp add: pool_inv_def)
  next
    case push
    with l B S P have "tally blocked ((pl_clients p)[i := s]) = tally blocked (pl_clients p)"
      "tally pushed ((pl_clients p)[i := s]) = Suc (tally pushed (pl_clients p))"
      "tally submitting (pl_clients p) = Suc (tally submitting ((pl_clients p)[i := s]))" by simp_all
    then show ?thesis using inv push(1,2) unfolding push(3) by (auto simp: pool_inv_def push_def)
  next
    case wait
    with l B S P have "tally pushed ((pl_clients p)[i := s]) = tally pushed (pl_clients p)" by simp
    then show ?thesis using inv wait(1,2) unfolding wait(3) by (auto simp add: pool_inv_def)
  next
    case drop
    with l B S P have "tally blocked ((pl_clients p)[i := s]) = tally blocked (pl_clients p)"
      "tally pushed ((pl_clients p)[i := s]) = tally pushed (pl_clients p)" by simp_all
    then show ?thesis using inv drop(1,2) unfolding drop(3) by (auto simp: pool_inv_def)
  qed
qed

lemma take_inv:
  assumes inv: "pool_inv p" and c: "worker_is p i Checking" and s: "take_section p = (p', w, e)"
  shows "pool_inv (set_worker i w p')"
proof -
  note u = tally_update [of i "pl_workers p", where v = w]
  from c have l: "i < length (pl_workers p)" "pl_workers p ! i = Checking" by auto
  note A = u [OF l(1), of asleep] and G = u [OF l(1), of gone] and T = u [OF l(1), of took] and B = u [OF l(1), of busy]
  note le = tally_le [of asleep "pl_workers p"] tally_le [of gone "pl_workers p"] tally_le [of asleep "(pl_workers p)[i := w]"]
    tally_le [of gone "(pl_workers p)[i := w]"]
  consider (exit) "pl_queue p = []" "pl_stopping p" "p' = p" "w = Exited"
    | (sleep) "pl_queue p = []" "\<not> pl_stopping p" "p' = p" "w = Sleeping"
    | (take) t ts where "pl_queue p = t # ts" "p' = p\<lparr>pl_queue := ts, pl_active := pl_active p + 1\<rparr>" "w = Took t"
    using s by (auto simp: take_section_def split: if_split_asm list.split_asm)
  then show ?thesis
  proof cases
    case exit
    then show ?thesis using inv l A G T B le by (auto simp: pool_inv_def)
  next
    case sleep
    then show ?thesis using inv l A G T B le by (auto simp: pool_inv_def)
  next
    case take
    then show ?thesis using inv l A G T B le by (auto simp: pool_inv_def)
  qed
qed

text \<open>A notification wakes one sleeper, or finds none.\<close>

lemma notified_workerE:
  assumes "notified_worker p p'"
  shows "tally asleep (pl_workers p) = 0 \<and> p' = p \<or>
    (\<exists>ws. p' = p\<lparr>pl_workers := ws\<rparr> \<and> length ws = length (pl_workers p) \<and> tally asleep (pl_workers p) = Suc (tally asleep ws) \<and>
      tally gone ws = tally gone (pl_workers p) \<and> tally took ws = tally took (pl_workers p) \<and> tally busy ws = tally busy (pl_workers p))"
proof (cases "Sleeping \<in> set (pl_workers p)")
  case True
  with assms obtain i where i: "i < length (pl_workers p)" "pl_workers p ! i = Sleeping" "p' = set_worker i Checking p"
    by (auto simp: notified_worker_def)
  note u = tally_update [OF i(1), where v = Checking]
  show ?thesis using i u [of asleep] u [of gone] u [of took] u [of busy]
    by (intro disjI2 exI [of _ "(pl_workers p)[i := Checking]"]) simp
next
  case False
  then have "\<not> asleep w" if "w \<in> set (pl_workers p)" for w using that by (cases w) auto
  then show ?thesis using assms False by (simp add: tally_0 notified_worker_def)
qed

lemma notified_clientE:
  assumes "notified_client p p'"
  shows "tally blocked (pl_clients p) = 0 \<and> p' = p \<or>
    (\<exists>cs. p' = p\<lparr>pl_clients := cs\<rparr> \<and> length cs = length (pl_clients p) \<and> tally blocked (pl_clients p) = Suc (tally blocked cs) \<and>
      tally submitting cs = Suc (tally submitting (pl_clients p)) \<and> tally pushed cs = tally pushed (pl_clients p))"
proof (cases "\<exists>s \<in> set (pl_clients p). \<exists>t. s = Blocked t")
  case True
  with assms obtain i t where i: "i < length (pl_clients p)" "pl_clients p ! i = Blocked t" "p' = set_client i (Submitting t) p"
    by (auto simp: notified_client_def)
  note u = tally_update [OF i(1), where v = "Submitting t"]
  show ?thesis using i u [of blocked] u [of submitting] u [of pushed]
    by (intro disjI2 exI [of _ "(pl_clients p)[i := Submitting t]"]) simp
next
  case False
  then have "\<not> blocked s" if "s \<in> set (pl_clients p)" for s using that by (cases s) auto
  then show ?thesis using assms False by (auto simp: tally_0 notified_client_def)
qed

lemma notify_work_inv:
  assumes inv: "pool_inv p" and c: "client_is p i Pushed" and n: "notified_worker (set_client i Idle p) p'"
  shows "pool_inv p'"
proof -
  from c have l: "i < length (pl_clients p)" "pl_clients p ! i = Pushed" by auto
  note u = tally_update [OF l(1), where v = Idle]
  have eqs: "tally blocked ((pl_clients p)[i := Idle]) = tally blocked (pl_clients p)"
    "tally submitting ((pl_clients p)[i := Idle]) = tally submitting (pl_clients p)"
    using u [of blocked] u [of submitting] l(2) by simp_all
  from notified_workerE [OF n] show ?thesis
  proof (elim disjE exE conjE)
    assume a: "tally asleep (pl_workers (set_client i Idle p)) = 0" and p': "p' = set_client i Idle p"
    show ?thesis using inv a eqs unfolding p' by (auto simp: pool_inv_def)
  next
    fix ws assume p': "p' = set_client i Idle p\<lparr>pl_workers := ws\<rparr>" and "length ws = length (pl_workers (set_client i Idle p))"
      and "tally asleep (pl_workers (set_client i Idle p)) = Suc (tally asleep ws)"
      and "tally gone ws = tally gone (pl_workers (set_client i Idle p))" "tally took ws = tally took (pl_workers (set_client i Idle p))"
        "tally busy ws = tally busy (pl_workers (set_client i Idle p))"
    moreover from this tally_le [of asleep "pl_workers p"] have "ws \<noteq> []" by auto
    ultimately show ?thesis using inv eqs tally_le [of asleep "pl_workers p"] unfolding p' by (auto simp: pool_inv_def)
  qed
qed

lemma notify_space_inv:
  assumes inv: "pool_inv p" and c: "worker_is p i (Took t)" and n: "notified_client (set_worker i (Running t) p) p'"
  shows "pool_inv p'"
proof -
  from c have l: "i < length (pl_workers p)" "pl_workers p ! i = Took t" by auto
  note u = tally_update [OF l(1), where v = "Running t"]
  have eqs: "tally asleep ((pl_workers p)[i := Running t]) = tally asleep (pl_workers p)"
    "tally gone ((pl_workers p)[i := Running t]) = tally gone (pl_workers p)"
    "tally busy ((pl_workers p)[i := Running t]) = tally busy (pl_workers p)"
    "tally took (pl_workers p) = Suc (tally took ((pl_workers p)[i := Running t]))"
    using u [of asleep] u [of gone] u [of busy] u [of took] l(2) by simp_all
  from notified_clientE [OF n] show ?thesis
  proof (elim disjE exE conjE)
    assume a: "tally blocked (pl_clients (set_worker i (Running t) p)) = 0" and p': "p' = set_worker i (Running t) p"
    show ?thesis using inv a eqs unfolding p' by (auto simp: pool_inv_def)
  next
    fix cs assume p': "p' = set_worker i (Running t) p\<lparr>pl_clients := cs\<rparr>"
      and "tally blocked (pl_clients (set_worker i (Running t) p)) = Suc (tally blocked cs)"
      "tally submitting cs = Suc (tally submitting (pl_clients (set_worker i (Running t) p)))"
      "tally pushed cs = tally pushed (pl_clients (set_worker i (Running t) p))"
    then show ?thesis using inv eqs unfolding p' by (auto simp: pool_inv_def)
  qed
qed

lemma worker_move_inv:
  assumes inv: "pool_inv p" and c: "worker_is p i w" and "\<not> gone w" "\<not> gone v" "\<not> took w" "\<not> took v" "\<not> asleep v" "busy w = busy v"
  shows "pool_inv (set_worker i v p)"
proof -
  from c have l: "i < length (pl_workers p)" "pl_workers p ! i = w" by auto
  note u = tally_update [OF l(1), where v = v]
  have same: "tally gone ((pl_workers p)[i := v]) = tally gone (pl_workers p)" "tally busy ((pl_workers p)[i := v]) = tally busy (pl_workers p)"
      "tally took ((pl_workers p)[i := v]) = tally took (pl_workers p)"
    using u [of gone] u [of busy] u [of took] unfolding l(2) by (simp_all add: assms(3-6) assms(8))
  show ?thesis
  proof (cases "asleep w")
    case True
    then have "tally asleep (pl_workers p) = Suc (tally asleep ((pl_workers p)[i := v]))"
      using u [of asleep] unfolding l(2) by (simp add: assms(7))
    then show ?thesis using inv same by (auto simp: pool_inv_def)
  next
    case False
    then have "tally asleep ((pl_workers p)[i := v]) = tally asleep (pl_workers p)"
      using u [of asleep] unfolding l(2) by (simp add: assms(7))
    then show ?thesis using inv same by (auto simp: pool_inv_def)
  qed
qed

lemma finish_inv:
  assumes inv: "pool_inv p" and c: "worker_is p i (Finished t b)" and s: "finish_section t b p = (p', w, e)"
  shows "pool_inv (set_worker i w p')"
proof -
  from c have l: "i < length (pl_workers p)" "pl_workers p ! i = Finished t b" by auto
  note u = tally_update [OF l(1), where v = Checking]
  have eqs: "tally asleep ((pl_workers p)[i := Checking]) = tally asleep (pl_workers p)"
    "tally gone ((pl_workers p)[i := Checking]) = tally gone (pl_workers p)"
    "tally busy (pl_workers p) = Suc (tally busy ((pl_workers p)[i := Checking]))"
    "tally took ((pl_workers p)[i := Checking]) = tally took (pl_workers p)"
    using u [of asleep] u [of gone] u [of busy] u [of took] l(2) by simp_all
  have w: "w = Checking" and p': "p' = (let q = p\<lparr>pl_active := pl_active p - 1\<rparr> in
      if b then q\<lparr>pl_completed := pl_completed q + 1\<rparr> else q\<lparr>pl_failed := pl_failed q + 1\<rparr>)"
    using s by (auto simp: finish_section_def Let_def)
  show ?thesis using inv eqs unfolding w p' by (cases b) (auto simp: pool_inv_def Let_def)
qed

lemma wake_worker_simps [simp]:
  "\<not> asleep (wake_worker w)" "gone (wake_worker w) = gone w" "took (wake_worker w) = took w" "busy (wake_worker w) = busy w"
  by (cases w; simp)+

lemma wake_client_simps [simp]: "\<not> blocked (wake_client s)" "pushed (wake_client s) = pushed s"
  by (cases s; simp)+

lemma tally_wake:
  "tally asleep (map wake_worker ws) = 0" "tally gone (map wake_worker ws) = tally gone ws"
  "tally took (map wake_worker ws) = tally took ws" "tally busy (map wake_worker ws) = tally busy ws"
  "tally blocked (map wake_client cs) = 0" "tally pushed (map wake_client cs) = tally pushed cs"
  by (simp_all add: tally_def filter_map o_def)

lemma pool_step_inv: "pool_step p e p' \<Longrightarrow> pool_inv p \<Longrightarrow> pool_inv p'"
proof (induction rule: pool_step.induct)
  case (step_run p i t succeeded)
  then show ?case using worker_move_inv [of p i "Running t" "Finished t succeeded"] by simp
next
  case (step_wake_clients p)
  then show ?case by (auto simp: pool_inv_def tally_wake)
next
  case (step_wake_workers p)
  then show ?case by (auto simp: pool_inv_def tally_wake)
next
  case (step_join p)
  then have "tally gone (pl_workers p) = length (pl_workers p)" unfolding tally_all by auto
  with step_join show ?case by (auto simp: pool_inv_def)
next
  case (step_submit p i t p' s e)
  from submit_inv [OF step_submit(3,1,2)] show ?case .
next
  case (step_notify_work p i p')
  from notify_work_inv [OF step_notify_work(3,1,2)] show ?case .
next
  case (step_take p i p' w e)
  from take_inv [OF step_take(3,1,2)] show ?case .
next
  case (step_notify_space p i t p')
  from notify_space_inv [OF step_notify_space(3,1,2)] show ?case .
next
  case (step_finish p i t b p' w e)
  from finish_inv [OF step_finish(3,1,2)] show ?case .
qed

lemma shutdown_inv: "shutdown_section p = (p', e) \<Longrightarrow> pool_inv p \<Longrightarrow> pool_inv p'"
  by (auto simp: shutdown_section_def Let_def pool_inv_def split: if_split_asm)

lemma client_move_inv:
  assumes inv: "pool_inv p" and c: "client_is p i s" and "\<not> pushed s" "\<not> pushed s'" "\<not> blocked s'" "submitting s'" "\<not> submitting s"
  shows "pool_inv (set_client i s' p)"
proof -
  from c have l: "i < length (pl_clients p)" "pl_clients p ! i = s" by auto
  note u = tally_update [OF l(1), where v = s']
  have same: "tally submitting ((pl_clients p)[i := s']) = Suc (tally submitting (pl_clients p))"
      "tally pushed ((pl_clients p)[i := s']) = tally pushed (pl_clients p)"
    using u [of submitting] u [of pushed] unfolding l(2) by (simp_all add: assms(3-7))
  show ?thesis
  proof (cases "blocked s")
    case True
    then have "tally blocked (pl_clients p) = Suc (tally blocked ((pl_clients p)[i := s']))"
      using u [of blocked] unfolding l(2) by (simp add: assms(5))
    then show ?thesis using inv same by (auto simp: pool_inv_def)
  next
    case False
    then have "tally blocked ((pl_clients p)[i := s']) = tally blocked (pl_clients p)"
      using u [of blocked] unfolding l(2) by (simp add: assms(5))
    then show ?thesis using inv same by (auto simp: pool_inv_def)
  qed
qed

lemma environment_step_inv: "environment_step p e p' \<Longrightarrow> pool_inv p \<Longrightarrow> pool_inv p'"
proof (induction rule: environment_step.induct)
  case (env_submit p i t s)
  then show ?case using client_move_inv [of p i Idle s] by (auto simp: submit_entry_def)
next
  case (env_shutdown p p' e)
  then show ?case by (rule shutdown_inv)
next
  case (env_wake_client p i t)
  then show ?case using client_move_inv [of p i "Blocked t" "Submitting t"] by simp
next
  case (env_wake_worker p i)
  then show ?case using worker_move_inv [of p i Sleeping Checking] by simp
qed

lemma pool_run_inv: "pool_run p es q \<Longrightarrow> pool_inv p \<Longrightarrow> pool_inv q"
  by (induction rule: pool_run.induct) (auto intro: pool_step_inv environment_step_inv)

lemma reachable_inv: "reachable p es \<Longrightarrow> pool_inv p"
  unfolding reachable_def by (elim exE conjE) (erule pool_run_inv, erule make_pool_inv(1))

section \<open>Progress\<close>

text \<open>
  Nothing left to do: the queue is empty, no call is in progress, and the workers wait for work or, after a
  shutdown, are gone.
\<close>

definition quiescent :: "'a pool \<Rightarrow> bool" where
  "quiescent p \<longleftrightarrow> pl_queue p = [] \<and> pl_active p = 0 \<and> (\<forall>s \<in> set (pl_clients p). s = Idle) \<and>
     (if pl_stopping p then pl_closer p = Returned \<and> (\<forall>w \<in> set (pl_workers p). w = Exited)
      else pl_closer p = Not_called \<and> (\<forall>w \<in> set (pl_workers p). w = Sleeping))"

definition stuck :: "'a pool \<Rightarrow> bool" where
  "stuck p \<longleftrightarrow> (\<forall>e q. \<not> pool_step p e q)"

lemma notified_worker_ex: "\<exists>p'. notified_worker p p'"
  unfolding notified_worker_def by (auto simp: in_set_conv_nth)

lemma notified_client_ex: "\<exists>p'. notified_client p p'"
proof (cases "\<exists>s \<in> set (pl_clients p). \<exists>t. s = Blocked t")
  case True
  then obtain i t where "i < length (pl_clients p)" "pl_clients p ! i = Blocked t" by (metis in_set_conv_nth)
  with True have "notified_client p (set_client i (Submitting t) p)" unfolding notified_client_def by auto
  then show ?thesis ..
qed (auto simp: notified_client_def)

lemma stuck_worker:
  assumes "stuck p" and "w \<in> set (pl_workers p)"
  shows "w = Sleeping \<or> w = Exited"
proof -
  from assms(2) obtain i where i: "worker_is p i w" by (auto simp: in_set_conv_nth)
  show ?thesis
  proof (cases w)
    case Checking
    obtain p' v e where "take_section p = (p', v, e)" by (cases "take_section p")
    with step_take [of i p] i Checking assms(1) show ?thesis by (simp add: stuck_def)
  next
    case (Took t)
    with notified_client_ex step_notify_space [of i p t] i assms(1) show ?thesis unfolding stuck_def by metis
  next
    case (Running t)
    with step_run [of i p t] i assms(1) show ?thesis by (simp add: stuck_def)
  next
    case (Finished t b)
    obtain p' v e where "finish_section t b p = (p', v, e)" by (cases "finish_section t b p")
    with step_finish [of i p t b] i Finished assms(1) show ?thesis by (simp add: stuck_def)
  qed simp_all
qed

lemma stuck_client:
  assumes "stuck p" and "s \<in> set (pl_clients p)"
  shows "s = Idle \<or> (\<exists>t. s = Blocked t)"
proof -
  from assms(2) obtain i where i: "client_is p i s" by (auto simp: in_set_conv_nth)
  show ?thesis
  proof (cases s)
    case (Submitting t)
    obtain p' v e where "submit_section t p = (p', v, e)" by (cases "submit_section t p")
    with step_submit [of i p t] i Submitting assms(1) show ?thesis by (simp add: stuck_def)
  next
    case Pushed
    with notified_worker_ex step_notify_work [of i p] i assms(1) show ?thesis unfolding stuck_def by metis
  qed simp_all
qed

lemma stuck_quiescent:
  assumes inv: "pool_inv p" and st: "stuck p"
  shows "quiescent p"
proof -
  have closer: "pl_closer p \<noteq> Notify_space" "pl_closer p \<noteq> Notify_work"
    using st step_wake_clients [of p] step_wake_workers [of p] by (auto simp: stuck_def)
  have cl: "tally submitting (pl_clients p) = 0" "tally pushed (pl_clients p) = 0"
    and wk: "tally took (pl_workers p) = 0" "tally busy (pl_workers p) = 0"
    using stuck_client [OF st] stuck_worker [OF st] by (force simp: tally_0)+
  have active: "pl_active p = 0" using inv wk by (simp add: pool_inv_def)
  have idle: "\<forall>s \<in> set (pl_clients p). s = Idle" if "tally blocked (pl_clients p) = 0"
    using that stuck_client [OF st] by (fastforce simp: tally_0)
  show ?thesis
  proof (cases "pl_stopping p")
    case False
    then have "tally gone (pl_workers p) = 0" and nc: "pl_closer p = Not_called" using inv by (auto simp: pool_inv_def)
    then have sleeping: "\<forall>w \<in> set (pl_workers p). w = Sleeping" using stuck_worker [OF st] by (fastforce simp: tally_0)
    then have "tally asleep (pl_workers p) = length (pl_workers p)" unfolding tally_all by auto
    with False inv cl have q: "pl_queue p = []" by (auto simp: pool_inv_def)
    with False inv cl wk have "tally blocked (pl_clients p) = 0" by (auto simp: pool_inv_def)
    with False q active idle sleeping nc show ?thesis by (simp add: quiescent_def)
  next
    case True
    with closer inv have c: "pl_closer p = Joining \<or> pl_closer p = Returned" by (cases "pl_closer p") (auto simp: pool_inv_def)
    with inv have "tally asleep (pl_workers p) = 0" "tally blocked (pl_clients p) = 0" by (auto simp: pool_inv_def)
    with stuck_worker [OF st] have gone: "\<forall>w \<in> set (pl_workers p). w = Exited" by (fastforce simp: tally_0)
    then have "tally gone (pl_workers p) = length (pl_workers p)" unfolding tally_all by auto
    with inv have q: "pl_queue p = []" by (auto simp: pool_inv_def)
    have "pl_closer p = Returned" using c gone st step_join [of p] by (auto simp: stuck_def)
    with True q active idle gone \<open>tally blocked _ = 0\<close> show ?thesis by (simp add: quiescent_def)
  qed
qed

section \<open>Work left\<close>

text \<open>
  A weight for every thread and every queued task, such that each step the pool makes by itself lowers the sum:
  what it still has to do.
\<close>

fun worker_work :: "'a worker \<Rightarrow> nat" where
  "worker_work Checking = 1"
| "worker_work Sleeping = 0"
| "worker_work (Took t) = 5"
| "worker_work (Running t) = 3"
| "worker_work (Finished t b) = 2"
| "worker_work Exited = 0"

fun client_work :: "'a submitter \<Rightarrow> nat" where
  "client_work Idle = 0"
| "client_work (Submitting t) = 8"
| "client_work (Blocked t) = 7"
| "client_work Pushed = 2"

fun closer_work :: "nat \<Rightarrow> nat \<Rightarrow> closer \<Rightarrow> nat" where
  "closer_work w c Notify_space = w + c + 3"
| "closer_work w c Notify_work = w + 2"
| "closer_work w c Joining = 1"
| "closer_work w c _ = 0"

definition pool_work :: "'a pool \<Rightarrow> nat" where
  "pool_work p = 5 * length (pl_queue p) + sum_list (map worker_work (pl_workers p)) + sum_list (map client_work (pl_clients p)) +
     closer_work (length (pl_workers p)) (length (pl_clients p)) (pl_closer p)"

lemma sum_list_map_update:
  "i < length xs \<Longrightarrow> sum_list (map f (xs[i := v])) + f (xs ! i) = sum_list (map f xs) + (f v :: nat)"
proof (induction xs arbitrary: i)
  case (Cons x xs)
  then show ?case by (cases i) (use Cons.IH in force)+
qed simp

lemma worker_work_update:
  "worker_is p i w \<Longrightarrow> sum_list (map worker_work ((pl_workers p)[i := v])) + worker_work w = sum_list (map worker_work (pl_workers p)) + worker_work v"
  using sum_list_map_update [of i "pl_workers p" worker_work v] by auto

lemma client_work_update:
  "client_is p i s \<Longrightarrow> sum_list (map client_work ((pl_clients p)[i := v])) + client_work s = sum_list (map client_work (pl_clients p)) + client_work v"
  using sum_list_map_update [of i "pl_clients p" client_work v] by auto

lemma notified_worker_work: "notified_worker p p' \<Longrightarrow> pool_work p' \<le> pool_work p + 1"
proof -
  assume n: "notified_worker p p'"
  show ?thesis
  proof (cases "p' = p")
    case False
    with n obtain i where i: "worker_is p i Sleeping" "p' = set_worker i Checking p"
      by (auto simp: notified_worker_def split: if_split_asm)
    from worker_work_update [OF i(1), of Checking] i(2) show ?thesis by (simp add: pool_work_def)
  qed simp
qed

lemma notified_client_work: "notified_client p p' \<Longrightarrow> pool_work p' \<le> pool_work p + 1"
proof -
  assume n: "notified_client p p'"
  show ?thesis
  proof (cases "p' = p")
    case False
    with n obtain i t where i: "client_is p i (Blocked t)" "p' = set_client i (Submitting t) p"
      by (auto simp: notified_client_def split: if_split_asm)
    from client_work_update [OF i(1), of "Submitting t"] i(2) show ?thesis by (simp add: pool_work_def)
  qed simp
qed

lemma wake_work:
  "sum_list (map worker_work (map wake_worker ws)) \<le> sum_list (map worker_work ws) + length ws"
  "sum_list (map client_work (map wake_client cs)) \<le> sum_list (map client_work cs) + length cs"
proof -
  have w: "worker_work (wake_worker w) \<le> worker_work w + 1" for w :: "'c worker" by (cases w) auto
  show "sum_list (map worker_work (map wake_worker ws)) \<le> sum_list (map worker_work ws) + length ws" for ws :: "'c worker list"
  proof (induction ws)
    case (Cons x xs)
    with w [of x] show ?case by simp
  qed simp
  have c: "client_work (wake_client s) \<le> client_work s + 1" for s :: "'d submitter" by (cases s) auto
  show "sum_list (map client_work (map wake_client cs)) \<le> sum_list (map client_work cs) + length cs" for cs :: "'d submitter list"
  proof (induction cs)
    case (Cons x xs)
    with c [of x] show ?case by simp
  qed simp
qed

lemma pool_step_work: "pool_step p e p' \<Longrightarrow> pool_work p' < pool_work p"
proof (induction rule: pool_step.induct)
  case (step_submit p i t p' s e)
  from submit_section_cases [OF step_submit(2)] client_work_update [OF step_submit(1), of s] show ?case
    by (auto simp: pool_work_def push_def)
next
  case (step_notify_work p i p')
  from notified_worker_work [OF step_notify_work(2)] client_work_update [OF step_notify_work(1), of Idle] show ?case
    by (simp add: pool_work_def)
next
  case (step_take p i p' w e)
  with worker_work_update [OF step_take(1), of w] show ?case
    by (auto simp: pool_work_def take_section_def split: list.split_asm if_split_asm)
next
  case (step_notify_space p i t p')
  from notified_client_work [OF step_notify_space(2)] worker_work_update [OF step_notify_space(1), of "Running t"] show ?case
    by (simp add: pool_work_def)
next
  case (step_run p i t b)
  from worker_work_update [OF step_run(1), of "Finished t b"] show ?case by (simp add: pool_work_def)
next
  case (step_finish p i t b p' w e)
  with worker_work_update [OF step_finish(1), of Checking] show ?case
    by (auto simp: pool_work_def finish_section_def Let_def split: if_split_asm)
next
  case (step_wake_clients p)
  with wake_work(2) [of "pl_clients p"] show ?case by (simp add: pool_work_def)
next
  case (step_wake_workers p)
  with wake_work(1) [of "pl_workers p"] show ?case by (simp add: pool_work_def)
next
  case (step_join p)
  then show ?case by (simp add: pool_work_def)
qed

section \<open>What a run did\<close>

fun accepted_by :: "'a pool_event \<Rightarrow> 'a list" where
  "accepted_by (Admitted t) = [t]"
| "accepted_by _ = []"

fun started_by :: "'a pool_event \<Rightarrow> 'a list" where
  "started_by (Started t) = [t]"
| "started_by _ = []"

fun discarded_by :: "'a pool_event \<Rightarrow> 'a list" where
  "discarded_by (Discarded ts) = ts"
| "discarded_by _ = []"

fun ended_by :: "bool \<Rightarrow> 'a pool_event \<Rightarrow> 'a list" where
  "ended_by b (Ended t c) = (if b = c then [t] else [])"
| "ended_by b _ = []"

fun dropped_by :: "'a pool_event \<Rightarrow> 'a list" where
  "dropped_by (Dropped t) = [t]"
| "dropped_by _ = []"

definition accepted :: "'a pool_event list \<Rightarrow> 'a list" where "accepted es = concat (map accepted_by es)"
definition started :: "'a pool_event list \<Rightarrow> 'a list" where "started es = concat (map started_by es)"
definition discarded :: "'a pool_event list \<Rightarrow> 'a list" where "discarded es = concat (map discarded_by es)"
definition ended :: "bool \<Rightarrow> 'a pool_event list \<Rightarrow> 'a list" where "ended b es = concat (map (ended_by b) es)"
definition dropped :: "'a pool_event list \<Rightarrow> 'a list" where "dropped es = concat (map dropped_by es)"

lemmas trace_defs = accepted_def started_def discarded_def ended_def dropped_def

lemma trace_Nil [simp]: "accepted [] = []" "started [] = []" "discarded [] = []" "ended b [] = []" "dropped [] = []"
  by (simp_all add: trace_defs)

lemma trace_snoc [simp]:
  "accepted (es @ [e]) = accepted es @ accepted_by e" "started (es @ [e]) = started es @ started_by e"
  "discarded (es @ [e]) = discarded es @ discarded_by e" "ended b (es @ [e]) = ended b es @ ended_by b e"
  "dropped (es @ [e]) = dropped es @ dropped_by e"
  by (simp_all add: trace_defs)

fun task_of :: "'a worker \<Rightarrow> 'a multiset" where
  "task_of (Took t) = {#t#}"
| "task_of (Running t) = {#t#}"
| "task_of (Finished t b) = {#t#}"
| "task_of _ = {#}"

definition in_work :: "'a pool \<Rightarrow> 'a multiset" where
  "in_work p = sum_list (map task_of (pl_workers p))"

lemma in_work_update:
  assumes "worker_is p i w"
  shows "sum_list (map task_of ((pl_workers p)[i := v])) + task_of w = in_work p + task_of v"
proof -
  have "i < length ws \<Longrightarrow> sum_list (map task_of (ws[i := v])) + task_of (ws ! i) = sum_list (map task_of ws) + task_of v" for ws
  proof (induction ws arbitrary: i)
    case (Cons x xs)
    show ?case
    proof (cases i)
      case (Suc j)
      with Cons show ?thesis by (simp add: add.assoc) 
    qed simp
  qed simp
  with assms show ?thesis by (auto simp: in_work_def)
qed

text \<open>Tasks start in the order they were accepted; what was not started is still queued or was discarded by the shutdown.\<close>

definition trace_inv :: "'a pool \<Rightarrow> 'a pool_event list \<Rightarrow> bool" where
  "trace_inv p es \<longleftrightarrow> accepted es = started es @ discarded es @ pl_queue p \<and>
     mset (started es) = mset (ended True es) + mset (ended False es) + in_work p \<and>
     pl_submitted p = length (accepted es) \<and> pl_completed p = length (ended True es) \<and> pl_failed p = length (ended False es) \<and>
     pl_dropped p = length (dropped es) + length (discarded es) \<and>
     (pl_accepting p \<or> pl_queue p \<noteq> [] \<or> wp_shutdown_policy (pl_config p) = drain \<longrightarrow> discarded es = []) \<and>
     (pl_stopping p \<longleftrightarrow> \<not> pl_accepting p)"

lemma trace_inv_simps [simp]:
  "trace_inv (p\<lparr>pl_clients := cs\<rparr>) es = trace_inv p es" "trace_inv (p\<lparr>pl_closer := c\<rparr>) es = trace_inv p es"
  "trace_inv p (es @ [Tau]) = trace_inv p es" "trace_inv p (es @ [Closed]) = trace_inv p es"
  "trace_inv p (es @ [Refused t]) = trace_inv p es"
  by (simp_all add: trace_inv_def in_work_def)

lemma trace_inv_worker:
  "worker_is p i w \<Longrightarrow> task_of v = task_of w \<Longrightarrow> trace_inv (set_worker i v p) es = trace_inv p es"
  using in_work_update [of i p w v] by (simp add: trace_inv_def in_work_def)

lemma pool_step_trace: "pool_step p e p' \<Longrightarrow> trace_inv p es \<Longrightarrow> trace_inv p' (es @ [e])"
proof (induction rule: pool_step.induct)
  case (step_submit p i t p' s e)
  from submit_section_cases [OF step_submit(2)] show ?case
  proof (elim disjE conjE)
    assume "pl_accepting p" "p' = push t p" "e = Admitted t"
    then show ?thesis using step_submit(3) by (simp add: push_def trace_inv_def in_work_def)
  next
    assume "p' = p\<lparr>pl_dropped := pl_dropped p + 1\<rparr>" "e = Dropped t"
    then show ?thesis using step_submit(3) by (simp add: trace_inv_def in_work_def)
  qed (use step_submit(3) in simp_all)
next
  case (step_notify_work p i p')
  then have "p' = set_client i Idle p \<or> (\<exists>j. worker_is p j Sleeping \<and> p' = set_client i Idle p\<lparr>pl_workers := (pl_workers p)[j := Checking]\<rparr>)"
    by (auto simp: notified_worker_def split: if_split_asm)
  then show ?case
  proof (elim disjE exE conjE)
    fix j assume j: "j < length (pl_workers p)" "pl_workers p ! j = Sleeping"
      "p' = set_client i Idle p\<lparr>pl_workers := (pl_workers p)[j := Checking]\<rparr>"
    then have "trace_inv (set_worker j Checking p) es" using trace_inv_worker [of j p Sleeping Checking es] step_notify_work(3) by simp
    then show ?thesis unfolding j(3) by (simp add: trace_inv_def in_work_def)
  qed (use step_notify_work(3) in simp)
next
  case (step_take p i p' w e)
  show ?case
  proof (cases "pl_queue p")
    case Nil
    with step_take have "p' = p" "e = Tau" "task_of w = task_of Checking"
      by (auto simp: take_section_def split: if_split_asm)
    then show ?thesis using step_take(1,3) by (simp add: trace_inv_worker)
  next
    case (Cons t ts)
    with step_take have "p' = p\<lparr>pl_queue := ts, pl_active := pl_active p + 1\<rparr>" "e = Started t" "w = Took t"
      by (simp_all add: take_section_def)
    then show ?thesis using step_take(3) in_work_update [OF step_take(1), of "Took t"] Cons
      by (auto simp: trace_inv_def in_work_def)
  qed
next
  case (step_notify_space p i t p')
  then have "p' = set_worker i (Running t) p \<or> (\<exists>cs. p' = set_worker i (Running t) p\<lparr>pl_clients := cs\<rparr>)"
    by (auto simp: notified_client_def split: if_split_asm)
  moreover have "trace_inv (set_worker i (Running t) p) es"
    using trace_inv_worker [OF step_notify_space(1), of "Running t"] step_notify_space(3) by simp
  ultimately show ?case by (elim disjE exE) simp_all
next
  case (step_run p i t b)
  then show ?case using trace_inv_worker [OF step_run(1), of "Finished t b"] by simp
next
  case (step_finish p i t b p' w e)
  then have "e = Ended t b" "w = Checking" "p' = (let q = p\<lparr>pl_active := pl_active p - 1\<rparr> in
      if b then q\<lparr>pl_completed := pl_completed q + 1\<rparr> else q\<lparr>pl_failed := pl_failed q + 1\<rparr>)"
    by (auto simp: finish_section_def Let_def)
  then show ?case using step_finish(3) in_work_update [OF step_finish(1), of Checking]
    by (cases b) (simp_all add: trace_inv_def in_work_def Let_def)
next
  case (step_wake_workers p)
  have "task_of (wake_worker w) = task_of w" for w :: "'a worker" by (cases w) auto
  then show ?case using step_wake_workers(2) by (simp add: trace_inv_def in_work_def o_def)
qed simp_all

lemma environment_step_trace: "environment_step p e p' \<Longrightarrow> trace_inv p es \<Longrightarrow> trace_inv p' (es @ [e])"
proof (induction rule: environment_step.induct)
  case (env_shutdown p p' e)
  show ?case
  proof (cases "pl_stopping p")
    case True
    with env_shutdown show ?thesis by (simp add: shutdown_section_def)
  next
    case False
    with env_shutdown show ?thesis
      by (cases "wp_shutdown_policy (pl_config p)") (auto simp: shutdown_section_def Let_def trace_inv_def in_work_def)
  qed
next
  case (env_wake_worker p i)
  then show ?case using trace_inv_worker [of i p Sleeping Checking] by simp
qed simp_all

lemma pool_run_trace: "pool_run p es q \<Longrightarrow> trace_inv p [] \<Longrightarrow> trace_inv q es"
  by (induction rule: pool_run.induct) (auto intro: pool_step_trace environment_step_trace)

lemma made_pool_trace:
  assumes "make_pool spawn n c = Inr p0"
  shows "trace_inv p0 []" and "pl_peak_pending p0 = 0"
proof -
  from assms have "pl_accepting p0" "pl_stopping p0 = False" "pl_workers p0 = replicate (unat (wp_worker_count c)) Checking"
    by (auto simp: make_pool_def res_bind_eq_Inr)
  moreover have "sum_list (replicate n {#}) = {#}" for n by (induction n) auto
  ultimately show "trace_inv p0 []" using make_pool_inv(2-6) [OF assms] by (simp add: trace_inv_def in_work_def)
  show "pl_peak_pending p0 = 0" using assms by (auto simp: make_pool_def res_bind_eq_Inr)
qed

lemma reachable_trace: "reachable p es \<Longrightarrow> trace_inv p es"
  unfolding reachable_def using pool_run_trace made_pool_trace(1) by blast

lemma in_work_size: "size (sum_list (map task_of ws)) = tally busy ws"
proof (induction ws)
  case (Cons w ws)
  then show ?case by (cases w) (simp_all add: tally_def)
qed (simp add: tally_def)

section \<open>The peak of the queue\<close>

text \<open>The tasks pending after a trace, and the most there ever were during it.\<close>

definition pending_after :: "'a pool_event list \<Rightarrow> nat" where
  "pending_after es = length (accepted es) - length (started es) - length (discarded es)"

definition most_pending :: "'a pool_event list \<Rightarrow> nat" where
  "most_pending es = Max ((\<lambda>k. pending_after (take k es)) ` {..length es})"

lemma most_pending_Nil [simp]: "most_pending [] = 0"
  by (simp add: most_pending_def pending_after_def)

lemma most_pending_snoc: "most_pending (es @ [e]) = max (most_pending es) (pending_after (es @ [e]))"
proof -
  have "(\<lambda>k. pending_after (take k (es @ [e]))) ` {..length (es @ [e])} =
      insert (pending_after (es @ [e])) ((\<lambda>k. pending_after (take k es)) ` {..length es})"
    by (simp add: atMost_Suc)
  then show ?thesis by (simp only: most_pending_def) (simp add: max.commute)
qed

lemma pending_queue: "trace_inv p es \<Longrightarrow> pending_after es = length (pl_queue p)"
  by (simp add: trace_inv_def pending_after_def)

lemma notified_same:
  "notified_worker p p' \<Longrightarrow> pl_queue p' = pl_queue p \<and> pl_peak_pending p' = pl_peak_pending p \<and> pl_config p' = pl_config p"
  "notified_client p p' \<Longrightarrow> pl_queue p' = pl_queue p \<and> pl_peak_pending p' = pl_peak_pending p \<and> pl_config p' = pl_config p"
  by (auto simp: notified_worker_def notified_client_def split: if_split_asm)

text \<open>Every step, of the pool or the environment, keeps the greatest length the queue has had, and the configuration.\<close>

lemma pool_step_peak:
  "pool_step p e p' \<Longrightarrow> length (pl_queue p) \<le> pl_peak_pending p \<Longrightarrow>
    pl_peak_pending p' = max (pl_peak_pending p) (length (pl_queue p')) \<and> pl_config p' = pl_config p"
proof (induction rule: pool_step.induct)
  case (step_submit p i t p' s e)
  from submit_section_cases [OF step_submit(2)] step_submit(3) show ?case by (auto simp: push_def)
next
  case (step_take p i p' w e)
  then show ?case by (auto simp: take_section_def split: list.split_asm if_split_asm)
next
  case (step_finish p i t succeeded p' w e)
  then show ?case by (auto simp: finish_section_def Let_def split: if_split_asm)
qed (auto dest!: notified_same)

lemma environment_step_peak:
  "environment_step p e p' \<Longrightarrow> length (pl_queue p) \<le> pl_peak_pending p \<Longrightarrow>
    pl_peak_pending p' = max (pl_peak_pending p) (length (pl_queue p')) \<and> pl_config p' = pl_config p"
  by (induction rule: environment_step.induct) (auto simp: shutdown_section_def Let_def split: if_split_asm)

lemma queue_below_peak: "pool_inv p \<Longrightarrow> length (pl_queue p) \<le> pl_peak_pending p"
  by (simp add: pool_inv_def)

lemma pool_run_peak: "pool_run p es q \<Longrightarrow> pool_inv p \<Longrightarrow> trace_inv p [] \<Longrightarrow> pl_peak_pending p = 0 \<Longrightarrow> pl_peak_pending q = most_pending es"
proof (induction rule: pool_run.induct)
  case (run_step p es q e r)
  note le = queue_below_peak [OF pool_run_inv [OF run_step(1,4)]]
  from run_step(2) have "pl_peak_pending r = max (pl_peak_pending q) (length (pl_queue r))"
    using pool_step_peak [OF _ le] environment_step_peak [OF _ le] by blast
  moreover have "pool_run p (es @ [e]) r" by (rule pool_run.run_step [OF run_step(1,2)])
  then have "pending_after (es @ [e]) = length (pl_queue r)" using pool_run_trace run_step(5) pending_queue by blast
  ultimately show ?case using run_step by (simp add: most_pending_snoc)
qed simp

lemma reachable_peak: "reachable p es \<Longrightarrow> pl_peak_pending p = most_pending es"
  unfolding reachable_def using pool_run_peak make_pool_inv(1) made_pool_trace by blast

section \<open>Runs without the environment\<close>

inductive pool_steps :: "'a pool \<Rightarrow> 'a pool_event list \<Rightarrow> 'a pool \<Rightarrow> bool" where
  steps_start: "pool_steps p [] p"
| steps_step: "pool_steps p es q \<Longrightarrow> pool_step q e r \<Longrightarrow> pool_steps p (es @ [e]) r"

lemma pool_steps_work: "pool_steps p es q \<Longrightarrow> pool_work q + length es \<le> pool_work p"
proof (induction rule: pool_steps.induct)
  case (steps_step p es q e r)
  with pool_step_work [OF steps_step(2)] show ?case by simp
qed simp

lemma pool_steps_append: "pool_steps q fs r \<Longrightarrow> pool_run p es q \<Longrightarrow> pool_run p (es @ fs) r"
proof (induction rule: pool_steps.induct)
  case (steps_step q fs r e t)
  then have "pool_run p ((es @ fs) @ [e]) t" by (intro run_step) auto
  then show ?case by simp
qed simp

lemma steps_to_stuck: "pool_steps p fs r \<Longrightarrow> \<exists>q gs. pool_steps p gs q \<and> stuck q"
proof (induction "pool_work r" arbitrary: r fs rule: less_induct)
  case less
  show ?case
  proof (cases "stuck r")
    case False
    then obtain e t where "pool_step r e t" by (auto simp: stuck_def)
    from less.hyps [OF pool_step_work [OF this] steps_step [OF less.prems this]] show ?thesis .
  qed (use less.prems in blast)
qed

lemma pool_steps_config: "pool_steps p fs q \<Longrightarrow> pool_inv p \<Longrightarrow> pl_config q = pl_config p"
proof (induction rule: pool_steps.induct)
  case (steps_step p es q e r)
  have "pool_run p ([] @ es) q" by (rule pool_steps_append [OF steps_step(1) run_start])
  note le = queue_below_peak [OF pool_run_inv [OF this steps_step(4)]]
  from steps_step(3) [OF steps_step(4)] pool_step_peak [OF steps_step(2) le] show ?case by simp
qed simp

lemma reachable_steps: "reachable p es \<Longrightarrow> pool_steps p fs q \<Longrightarrow> reachable q (es @ fs)"
  unfolding reachable_def using pool_steps_append by blast

section \<open>Properties\<close>

definition demo_pool_config :: BoundedWorkerPoolConfig where
  "demo_pool_config = default_pool_config\<lparr>wp_queue_capacity := 1, wp_full_policy := block\<rparr>"

definition demo_pool :: "nat pool" where
  "demo_pool = \<lparr>pl_config = demo_pool_config, pl_queue = [], pl_accepting = True, pl_stopping = False, pl_submitted = 0,
     pl_completed = 0, pl_failed = 0, pl_dropped = 0, pl_active = 0, pl_peak_pending = 0, pl_workers = [Checking],
     pl_clients = [Idle], pl_closer = Not_called\<rparr>"

lemma demo_pool_made: "make_pool (\<lambda>_. True) 1 demo_pool_config = Inr demo_pool"
  by (simp add: make_pool_def demo_pool_config_def default_pool_config_def check_all.simps checked_resource_multiply_def size_max_def
      make_workspace_def default_workspace_config_def demo_pool_def Let_def)

text \<open>A client submits task 7, it is accepted, and the worker, which never slept, takes it.\<close>

definition demo_submitted :: "nat pool" where "demo_submitted = demo_pool\<lparr>pl_clients := [Submitting 7]\<rparr>"
definition demo_queued :: "nat pool" where "demo_queued = (push 7 demo_pool)\<lparr>pl_clients := [Pushed]\<rparr>"

lemma demo_reachable: "reachable demo_queued [Tau, Admitted 7]"
proof -
  have "pool_run demo_pool ([] @ [Tau]) (set_client 0 (Submitting 7) demo_pool)"
    by (rule run_step [OF run_start disjI2], rule env_submit) (simp_all add: demo_pool_def submit_entry_def)
  moreover have "set_client 0 (Submitting 7) demo_pool = demo_submitted" by (simp add: demo_submitted_def demo_pool_def)
  ultimately have 1: "pool_run demo_pool [Tau] demo_submitted" by simp
  have "submit_section 7 demo_submitted = (push 7 demo_submitted, Pushed, Admitted 7)"
    by (simp add: submit_section_def demo_submitted_def demo_pool_def demo_pool_config_def default_pool_config_def capacity_def)
  then have "pool_step demo_submitted (Admitted 7) (set_client 0 Pushed (push 7 demo_submitted))"
    by (intro step_submit) (simp_all add: demo_submitted_def demo_pool_def)
  moreover have "set_client 0 Pushed (push 7 demo_submitted) = demo_queued"
    by (simp add: demo_queued_def demo_submitted_def push_def demo_pool_def)
  ultimately have "pool_run demo_pool ([Tau] @ [Admitted 7]) demo_queued" using run_step [OF 1] by metis
  with demo_pool_made show ?thesis unfolding reachable_def by auto
qed

text \<open>The worker then takes it: the queue is empty again.\<close>

definition demo_taken :: "nat pool" where
  "demo_taken = demo_queued\<lparr>pl_queue := [], pl_active := 1, pl_workers := [Took 7]\<rparr>"

lemma demo_taken_reachable: "reachable demo_taken ([Tau, Admitted 7] @ [Started 7])"
proof (rule reachable_steps [OF demo_reachable])
  have "take_section demo_queued = (demo_queued\<lparr>pl_queue := [], pl_active := 1\<rparr>, Took 7, Started 7)"
    by (simp add: take_section_def demo_queued_def push_def demo_pool_def)
  then have "pool_step demo_queued (Started 7) (set_worker 0 (Took 7) (demo_queued\<lparr>pl_queue := [], pl_active := 1\<rparr>))"
    by (intro step_take) (simp_all add: demo_queued_def push_def demo_pool_def)
  moreover have "set_worker 0 (Took 7) (demo_queued\<lparr>pl_queue := [], pl_active := 1\<rparr>) = demo_taken"
    by (simp add: demo_taken_def demo_queued_def push_def demo_pool_def)
  ultimately show "pool_steps demo_queued [Started 7] demo_taken" using steps_step [OF steps_start, of demo_queued "Started 7" demo_taken] by simp
qed

text \<open>
  C18: the queue is bounded and fair: in every reachable state the queue holds at most its capacity, the
  tasks were started in the order they were accepted and each once, what was not started is queued or was discarded, each
  started task has ended or is in a worker, and the statistics are those numbers, the peak being the most tasks that were ever pending.
\<close>

theorem worker_pool_fifo:
  assumes "reachable p es"
  shows "length (pl_queue p) \<le> capacity p \<and> pl_peak_pending p \<le> capacity p \<and>
    accepted es = started es @ discarded es @ pl_queue p \<and>
    mset (started es) = mset (ended True es) + mset (ended False es) + in_work p \<and>
    stats p = \<lparr>ps_submitted = length (accepted es), ps_completed = length (ended True es), ps_failed = length (ended False es),
      ps_dropped = length (dropped es) + length (discarded es), ps_pending = length (pl_queue p),
      ps_active = size (in_work p), ps_peak_pending = most_pending es\<rparr>"
  using reachable_inv [OF assms] reachable_trace [OF assms] in_work_size [of "pl_workers p"] reachable_peak [OF assms]
  by (simp add: pool_inv_def trace_inv_def stats_def in_work_def)

theorem worker_pool_fifo_witness:
  "reachable demo_taken [Tau, Admitted 7, Started 7] \<and>
   stats demo_taken = \<lparr>ps_submitted = 1, ps_completed = 0, ps_failed = 0, ps_dropped = 0, ps_pending = 0, ps_active = 1, ps_peak_pending = 1\<rparr>"
proof -
  have "most_pending ([Tau, Admitted (7 :: nat)] @ [Started 7]) = 1"
    unfolding most_pending_snoc using most_pending_snoc [of "[Tau]" "Admitted (7 :: nat)"] most_pending_snoc [of "[]" "Tau :: nat pool_event"]
    by (simp add: pending_after_def trace_defs)
  with worker_pool_fifo [OF demo_taken_reachable] demo_taken_reachable show ?thesis
    by (simp add: demo_taken_def demo_queued_def push_def demo_pool_def trace_defs in_work_def)
qed

text \<open>
  No wakeup is lost: a reachable pool in which no thread can take a step by itself has an empty
  queue, no call of \<open>submit\<close> or \<open>shutdown\<close> in progress, and workers that wait for work or, after a shutdown,
  have all returned. In particular no accepted task and no blocked client waits for a notification that never comes.
\<close>

theorem worker_pool_progress:
  assumes "reachable p es" and "\<forall>e q. \<not> pool_step p e q"
  shows "quiescent p"
  using stuck_quiescent [OF reachable_inv [OF assms(1)]] assms(2) by (simp add: stuck_def)

theorem worker_pool_progress_witness: "\<exists>p es. reachable (p :: nat pool) es \<and> quiescent p"
proof -
  have "\<exists>q fs. pool_steps demo_queued fs q \<and> (\<forall>e r. \<not> pool_step q e r)"
    using steps_to_stuck [OF steps_start, of demo_queued] unfolding stuck_def by blast
  then obtain q fs where q: "pool_steps demo_queued fs q" "\<forall>e r. \<not> pool_step q e r" by blast
  from worker_pool_progress [OF reachable_steps [OF demo_reachable q(1)] q(2)] reachable_steps [OF demo_reachable q(1)]
  show ?thesis by blast
qed

text \<open>
  C19: the pool settles: from a reachable state the threads take at most \<open>pool_work p\<close> steps by
  themselves, in every interleaving; where they can take none, every accepted task that was not discarded has ended,
  exactly once, and after a shutdown that drains none was discarded.
\<close>

theorem worker_pool_settles:
  assumes "reachable p es" and "pool_steps p fs q"
  shows "length fs \<le> pool_work p \<and>
    ((\<forall>e r. \<not> pool_step q e r) \<longrightarrow> quiescent q \<and> accepted (es @ fs) = started (es @ fs) @ discarded (es @ fs) \<and>
      mset (started (es @ fs)) = mset (ended True (es @ fs)) + mset (ended False (es @ fs)) \<and>
      (wp_shutdown_policy (pl_config q) = drain \<longrightarrow> discarded (es @ fs) = []))"
proof (intro conjI impI)
  show "length fs \<le> pool_work p" using pool_steps_work [OF assms(2)] by simp
  have r: "reachable q (es @ fs)" by (rule reachable_steps [OF assms])
  note t = reachable_trace [OF r, unfolded trace_inv_def]
  assume "\<forall>e r. \<not> pool_step q e r"
  with stuck_quiescent [OF reachable_inv [OF r]] show qu: "quiescent q" by (simp add: stuck_def)
  then show "accepted (es @ fs) = started (es @ fs) @ discarded (es @ fs)" using t by (simp add: quiescent_def)
  have "pl_active q = 0" using qu by (simp add: quiescent_def)
  then have "size (in_work q) = 0" using reachable_inv [OF r] by (simp add: in_work_size in_work_def pool_inv_def)
  then show "mset (started (es @ fs)) = mset (ended True (es @ fs)) + mset (ended False (es @ fs))" using t by simp
  assume "wp_shutdown_policy (pl_config q) = drain"
  with t show "discarded (es @ fs) = []" by simp
qed

theorem worker_pool_settles_witness:
  "\<exists>fs q. pool_steps demo_queued fs q \<and> (\<forall>e r. \<not> pool_step q e r) \<and> fs \<noteq> [] \<and> length fs \<le> pool_work demo_queued \<and> quiescent q \<and>
     (7 \<in> set (ended True ([Tau, Admitted 7] @ fs)) \<or> 7 \<in> set (ended False ([Tau, Admitted 7] @ fs)))"
proof -
  obtain q fs where q: "pool_steps demo_queued fs q" "\<forall>e r. \<not> pool_step q e r"
    using steps_to_stuck [OF steps_start, of demo_queued] unfolding stuck_def by blast
  note w = worker_pool_settles [OF demo_reachable q(1)]
  have "pl_config q = demo_pool_config" using pool_steps_config [OF q(1) reachable_inv [OF demo_reachable]]
    by (simp add: demo_queued_def push_def demo_pool_def)
  then have "wp_shutdown_policy (pl_config q) = drain" by (simp add: demo_pool_config_def default_pool_config_def)
  with w q(2) have acc: "accepted ([Tau, Admitted 7] @ fs) = started ([Tau, Admitted 7] @ fs)"
    and st: "mset (started ([Tau, Admitted 7] @ fs)) = mset (ended True ([Tau, Admitted 7] @ fs)) + mset (ended False ([Tau, Admitted 7] @ fs))"
    by simp_all
  have "7 \<in> set (accepted ([Tau, Admitted 7] @ fs))" by (simp add: trace_defs)
  then have "7 \<in># mset (started ([Tau, Admitted 7] @ fs))" unfolding acc by simp
  then have ended: "7 \<in> set (ended True ([Tau, Admitted 7] @ fs)) \<or> 7 \<in> set (ended False ([Tau, Admitted 7] @ fs))"
    unfolding st by simp
  have "fs \<noteq> []" using ended by (auto simp: trace_defs)
  with q w ended show ?thesis by blast
qed
end
