(* ===== verification/Yolo_Preprocessor.thy ===== *)
theory Yolo_Preprocessor
  imports Native_Image
begin

text \<open>
  The preprocessor of the pose detector (\<^verbatim>\<open>infrastructure/yolo/yolo_pose_preprocessor.cpp\<close>): an image is scaled into the
  input of the network with its aspect ratio kept (letterbox), sampled bilinearly, normalized and written as three
  planes into a tensor whose border is the padding value. Coordinates are doubles, samples floats and offsets 64-bit words as in the
  code; \<open>std::floor\<close>, \<open>std::llround\<close> and the casts are written on the exact value of the double.
\<close>

section \<open>Configuration\<close>

record YoloInputSpec =
  yi_width :: "64 word"
  yi_height :: "64 word"
  yi_channels :: "64 word"
  yi_scale :: fl
  yi_pad_value :: fl

definition default_input_spec :: YoloInputSpec where
  "default_input_spec = \<lparr>yi_width = 0, yi_height = 0, yi_channels = 3, yi_scale = div32 (Fin 1) (Fin 255), yi_pad_value = Fin 114\<rparr>"

record LetterboxMetadata =
  lb_source_width :: "64 word"
  lb_source_height :: "64 word"
  lb_input_width :: "64 word"
  lb_input_height :: "64 word"
  lb_scale :: fl
  lb_pad_left :: "64 word"
  lb_pad_top :: "64 word"
  lb_resized_width :: "64 word"
  lb_resized_height :: "64 word"

record YoloInputTensor =
  yt_chw :: "fl list"
  yt_letterbox :: LetterboxMetadata

record YoloPosePreprocessor =
  yp_spec :: YoloInputSpec
  yp_tensor_elements :: "64 word"

definition checked_tensor_size :: "YoloInputSpec \<Rightarrow> 64 word result" where
  "checked_tensor_size spec =
     (if yi_width spec = 0 \<or> yi_height spec = 0 \<or> yi_channels spec \<noteq> 3
      then Inl (ConfigurationError ''YOLO input must be non-zero HxW with exactly 3 channels'')
      else if \<not> is_finite (yi_scale spec) \<or> fle (yi_scale spec) (Fin 0) \<or> \<not> is_finite (yi_pad_value spec) \<or>
         flt (yi_pad_value spec) (Fin 0) \<or> flt (Fin 255) (yi_pad_value spec)
      then Inl (ConfigurationError ''YOLO normalization or padding configuration is invalid'')
      else if yi_width spec > size_max div yi_height spec then Inl (ConfigurationError ''YOLO input dimensions overflow'')
      else let pixel_count = yi_width spec * yi_height spec in
        if pixel_count > size_max div yi_channels spec then Inl (ConfigurationError ''YOLO input tensor size overflows'')
        else Inr (pixel_count * yi_channels spec))"

definition make_yolo_preprocessor :: "YoloInputSpec \<Rightarrow> YoloPosePreprocessor result" where
  "make_yolo_preprocessor spec =
     res_bind (checked_tensor_size spec) (\<lambda>elements. Inr \<lparr>yp_spec = spec, yp_tensor_elements = elements\<rparr>)"

section \<open>Samples\<close>

record RgbSample =
  rgb_red :: fl
  rgb_green :: fl
  rgb_blue :: fl

definition byte_value :: "nat \<Rightarrow> fl" where
  "byte_value v = float_of_nat binary32 v"

definition pixel_at :: "ImageView \<Rightarrow> nat \<Rightarrow> nat \<Rightarrow> RgbSample" where
  "pixel_at img x y =
     (if img_format img = gray8
      then let gray = byte_value (byte_at img y x) in \<lparr>rgb_red = gray, rgb_green = gray, rgb_blue = gray\<rparr>
      else let base = x * 3 in
        if img_format img = rgb8
        then \<lparr>rgb_red = byte_value (byte_at img y base), rgb_green = byte_value (byte_at img y (base + 1)),
              rgb_blue = byte_value (byte_at img y (base + 2))\<rparr>
        else \<lparr>rgb_red = byte_value (byte_at img y (base + 2)), rgb_green = byte_value (byte_at img y (base + 1)),
              rgb_blue = byte_value (byte_at img y base)\<rparr>)"

definition double_of_size :: "64 word \<Rightarrow> fl" where
  "double_of_size n = float_of_nat binary64 (unat n)"

text \<open>\<open>static_cast<std::size_t>(std::floor(v))\<close>, for a value that has one.\<close>

definition floor_size :: "fl \<Rightarrow> 64 word" where
  "floor_size v = (case v of Fin x \<Rightarrow> of_int \<lfloor>x\<rfloor> | _ \<Rightarrow> 0)"

definition interpolate :: "fl \<Rightarrow> fl \<Rightarrow> fl \<Rightarrow> fl \<Rightarrow> fl \<Rightarrow> fl \<Rightarrow> fl" where
  "interpolate dx dy a b c d =
     (let top = add32 (mul32 a (sub32 (Fin 1) dx)) (mul32 b dx);
          bottom = add32 (mul32 c (sub32 (Fin 1) dx)) (mul32 d dx)
      in add32 (mul32 top (sub32 (Fin 1) dy)) (mul32 bottom dy))"

definition bilinear_sample :: "ImageView \<Rightarrow> fl \<Rightarrow> fl \<Rightarrow> RgbSample" where
  "bilinear_sample img source_x source_y =
     (let clamped_x = fclamp source_x (Fin 0) (double_of_size (img_width img - 1));
          clamped_y = fclamp source_y (Fin 0) (double_of_size (img_height img - 1));
          x0 = floor_size clamped_x; y0 = floor_size clamped_y;
          x1 = min (x0 + 1) (img_width img - 1); y1 = min (y0 + 1) (img_height img - 1);
          dx = fcast binary32 (fsub binary64 clamped_x (double_of_size x0));
          dy = fcast binary32 (fsub binary64 clamped_y (double_of_size y0));
          p00 = pixel_at img (unat x0) (unat y0); p10 = pixel_at img (unat x1) (unat y0);
          p01 = pixel_at img (unat x0) (unat y1); p11 = pixel_at img (unat x1) (unat y1)
      in \<lparr>rgb_red = interpolate dx dy (rgb_red p00) (rgb_red p10) (rgb_red p01) (rgb_red p11),
          rgb_green = interpolate dx dy (rgb_green p00) (rgb_green p10) (rgb_green p01) (rgb_green p11),
          rgb_blue = interpolate dx dy (rgb_blue p00) (rgb_blue p10) (rgb_blue p01) (rgb_blue p11)\<rparr>)"

section \<open>Letterbox\<close>

text \<open>\<open>std::llround\<close>: halves away from zero.\<close>

definition llround :: "fl \<Rightarrow> int" where
  "llround v = (case v of Fin x \<Rightarrow> if 0 \<le> x then \<lfloor>x + 1/2\<rfloor> else - \<lfloor>1/2 - x\<rfloor> | _ \<Rightarrow> 0)"

definition clamp_size :: "64 word \<Rightarrow> 64 word \<Rightarrow> 64 word \<Rightarrow> 64 word" where
  "clamp_size v lo hi = (if v < lo then lo else if hi < v then hi else v)"

definition make_letterbox_metadata :: "ImageView \<Rightarrow> YoloInputSpec \<Rightarrow> LetterboxMetadata result" where
  "make_letterbox_metadata img spec =
     (let scale_x = fdiv binary64 (double_of_size (yi_width spec)) (double_of_size (img_width img));
          scale_y = fdiv binary64 (double_of_size (yi_height spec)) (double_of_size (img_height img));
          scale = fmin scale_x scale_y
      in if \<not> is_finite scale \<or> fle scale (Fin 0) then Inl (InvalidImageError ''cannot compute a valid YOLO letterbox scale'')
         else let resized_width = clamp_size (of_int (llround (fmul binary64 (double_of_size (img_width img)) scale))) 1 (yi_width spec);
                  resized_height = clamp_size (of_int (llround (fmul binary64 (double_of_size (img_height img)) scale))) 1 (yi_height spec)
              in Inr \<lparr>lb_source_width = img_width img, lb_source_height = img_height img, lb_input_width = yi_width spec,
                   lb_input_height = yi_height spec, lb_scale = fcast binary32 scale,
                   lb_pad_left = (yi_width spec - resized_width) div 2, lb_pad_top = (yi_height spec - resized_height) div 2,
                   lb_resized_width = resized_width, lb_resized_height = resized_height\<rparr>)"

section \<open>The tensor\<close>

definition source_position :: "nat \<Rightarrow> fl \<Rightarrow> fl" where
  "source_position i scale = fsub binary64 (fmul binary64 (fadd binary64 (float_of_nat binary64 i) (Fin (1/2))) scale) (Fin (1/2))"

definition write_pixel :: "YoloInputSpec \<Rightarrow> ImageView \<Rightarrow> LetterboxMetadata \<Rightarrow> fl \<Rightarrow> fl \<Rightarrow> nat \<times> nat \<Rightarrow> fl list \<Rightarrow> fl list" where
  "write_pixel spec img md scale_x scale_y = (\<lambda>(resized_x, resized_y) output.
     let plane_size = yi_width spec * yi_height spec;
         output_y = lb_pad_top md + of_nat resized_y; output_x = lb_pad_left md + of_nat resized_x;
         sample = bilinear_sample img (source_position resized_x scale_x) (source_position resized_y scale_y);
         index = output_y * yi_width spec + output_x
     in output[unat index := mul32 (rgb_red sample) (yi_scale spec),
               unat (plane_size + index) := mul32 (rgb_green sample) (yi_scale spec),
               unat (2 * plane_size + index) := mul32 (rgb_blue sample) (yi_scale spec)])"

definition preprocess_into :: "YoloPosePreprocessor \<Rightarrow> ValidatedImage \<Rightarrow> fl list \<Rightarrow> (fl list \<times> LetterboxMetadata) result" where
  "preprocess_into p vi output =
     (let spec = yp_spec p; img = vi_view vi in
      if length output \<noteq> unat (yp_tensor_elements p)
      then Inl (InvalidImageError ''YOLO output tensor workspace has the wrong element count'')
      else res_bind (make_letterbox_metadata img spec) (\<lambda>md.
        let pad_normalized = mul32 (yi_pad_value spec) (yi_scale spec);
            scale_x = fdiv binary64 (double_of_size (img_width img)) (double_of_size (lb_resized_width md));
            scale_y = fdiv binary64 (double_of_size (img_height img)) (double_of_size (lb_resized_height md))
        in Inr (fold (write_pixel spec img md scale_x scale_y)
             (pixels 0 (unat (lb_resized_width md)) 0 (unat (lb_resized_height md)))
             (replicate (length output) pad_normalized), md)))"

definition yolo_preprocess :: "YoloPosePreprocessor \<Rightarrow> ValidatedImage \<Rightarrow> YoloInputTensor result" where
  "yolo_preprocess p vi =
     res_bind (preprocess_into p vi (replicate (unat (yp_tensor_elements p)) (Fin 0))) (\<lambda>(chw, md).
       Inr \<lparr>yt_chw = chw, yt_letterbox = md\<rparr>)"

definition yolo_preprocess_workspace :: "YoloPosePreprocessor \<Rightarrow> allocator \<Rightarrow> (nat \<Rightarrow> fl list) \<Rightarrow> ValidatedImage \<Rightarrow> NativeImageWorkspace \<Rightarrow>
    (YoloInputTensor \<times> NativeImageWorkspace) result" where
  "yolo_preprocess_workspace p alloc scratch vi ws =
     res_bind (prepare_tensor alloc (yp_tensor_elements p) ws) (\<lambda>(n, ws).
     res_bind (preprocess_into p vi (scratch n)) (\<lambda>(chw, md). Inr (\<lparr>yt_chw = chw, yt_letterbox = md\<rparr>, ws)))"

section \<open>Letterbox geometry\<close>

lemma double_of_size_exact: "unat n < 2 ^ 53 \<Longrightarrow> double_of_size n = Fin (of_nat (unat n))"
  by (simp add: double_of_size_def float64_of_nat)

lemma clamp_size_between: "lo \<le> hi \<Longrightarrow> lo \<le> clamp_size v lo hi \<and> clamp_size v lo hi \<le> hi"
  by (auto simp: clamp_size_def)

text \<open>The quotient of two sizes is a positive double of moderate magnitude, which a float can hold.\<close>

lemma size_ratio:
  assumes "0 < a" "a < 2 ^ 32" "0 < b" "b < 2 ^ 32"
  shows "\<exists>z. fdiv binary64 (Fin (of_nat a)) (Fin (of_nat b)) = Fin z \<and> pow2 (-32) \<le> z \<and> z \<le> pow2 32"
proof -
  let ?q = "of_nat a / of_nat b :: rat"
  have a: "(1 :: rat) \<le> of_nat a" "(of_nat a :: rat) \<le> 2 ^ 32" and b: "(1 :: rat) \<le> of_nat b" "(of_nat b :: rat) \<le> 2 ^ 32"
    using assms of_nat_le_iff [of a "2 ^ 32", where 'a = rat] of_nat_le_iff [of b "2 ^ 32", where 'a = rat] by simp_all
  have "1 / 2 ^ 32 \<le> (of_nat a / of_nat b :: rat)" using a(1) b by (intro frac_le) simp_all
  then have lo: "pow2 (-32) \<le> ?q" by (simp add: pow2_def)
  have "?q \<le> 2 ^ 32 / 1" using a b by (intro frac_le) simp_all
  then have hi: "?q \<le> pow2 32" by (simp add: pow2_def)
  have p: "round_rat binary64 (pow2 (-32)) = pow2 (-32)" "round_rat binary64 (pow2 32) = pow2 32"
    by (rule b64.round_pow2; simp add: binary64_def)+
  have "pow2 32 \<le> pow2 63" by (rule pow2_mono) simp
  moreover have "0 \<le> ?q" by simp
  ultimately have "round_fl binary64 ?q = Fin (round_rat binary64 ?q)" using hi by (intro b64.round_fl_small) simp
  moreover have "pow2 (-32) \<le> round_rat binary64 ?q" "round_rat binary64 ?q \<le> pow2 32"
    using b64.round_mono [OF lo] b64.round_mono [OF hi] p by simp_all
  ultimately show ?thesis using b(1) by (intro exI [of _ "round_rat binary64 ?q"]) simp
qed

definition letterbox_of :: "ImageView \<Rightarrow> YoloInputSpec \<Rightarrow> LetterboxMetadata \<Rightarrow> bool" where
  "letterbox_of img spec md \<longleftrightarrow>
     lb_source_width md = img_width img \<and> lb_source_height md = img_height img \<and>
     lb_input_width md = yi_width spec \<and> lb_input_height md = yi_height spec \<and>
     1 \<le> unat (lb_resized_width md) \<and> unat (lb_resized_width md) \<le> unat (yi_width spec) \<and>
     1 \<le> unat (lb_resized_height md) \<and> unat (lb_resized_height md) \<le> unat (yi_height spec) \<and>
     unat (lb_pad_left md) = (unat (yi_width spec) - unat (lb_resized_width md)) div 2 \<and>
     unat (lb_pad_top md) = (unat (yi_height spec) - unat (lb_resized_height md)) div 2"

lemma word_half: "b \<le> a \<Longrightarrow> unat ((a - b) div 2 :: 64 word) = (unat a - unat b) div 2"
  by (simp add: unat_div unat_sub word_le_nat_alt)

lemma letterbox_of_metadata:
  assumes "make_letterbox_metadata img spec = Inr md" and "yi_width spec \<noteq> 0" and "yi_height spec \<noteq> 0"
  shows "letterbox_of img spec md"
proof -
  from assms(1) obtain rw rh where md: "lb_source_width md = img_width img" "lb_source_height md = img_height img"
    "lb_input_width md = yi_width spec" "lb_input_height md = yi_height spec"
    "lb_resized_width md = clamp_size rw 1 (yi_width spec)" "lb_resized_height md = clamp_size rh 1 (yi_height spec)"
    "lb_pad_left md = (yi_width spec - lb_resized_width md) div 2" "lb_pad_top md = (yi_height spec - lb_resized_height md) div 2"
    unfolding make_letterbox_metadata_def Let_def by (auto split: if_split_asm)
  have one: "1 \<le> w" if "w \<noteq> 0" for w :: "64 word" using that by (simp add: word_le_nat_alt unat_gt_0 Suc_le_eq)
  note w = clamp_size_between [OF one [OF assms(2)], of rw] and h = clamp_size_between [OF one [OF assms(3)], of rh]
  have "unat (1 :: 64 word) \<le> unat (lb_resized_width md)" "unat (1 :: 64 word) \<le> unat (lb_resized_height md)"
    using w h md(5,6) by (simp_all only: word_le_nat_alt)
  with w h md show ?thesis by (simp add: letterbox_of_def word_half word_le_nat_alt)
qed

lemma spec_positive:
  assumes "make_yolo_preprocessor spec = Inr p"
  shows "yp_spec p = spec" "yi_width spec \<noteq> 0" "yi_height spec \<noteq> 0"
    "unat (yi_width spec) * unat (yi_height spec) * 3 < 2 ^ 64"
    "unat (yp_tensor_elements p) = unat (yi_width spec) * unat (yi_height spec) * 3" "is_finite (yi_scale spec)" "flt (Fin 0) (yi_scale spec)"
proof -
  from assms obtain n where n: "checked_tensor_size spec = Inr n" and p: "p = \<lparr>yp_spec = spec, yp_tensor_elements = n\<rparr>"
    by (auto simp: make_yolo_preprocessor_def result_simps)
  let ?w = "yi_width spec" and ?h = "yi_height spec"
  from n have c: "?w \<noteq> 0" "?h \<noteq> 0" "yi_channels spec = 3" "\<not> ?w > size_max div ?h" "\<not> ?w * ?h > size_max div 3" "n = ?w * ?h * 3"
    "is_finite (yi_scale spec)" "\<not> fle (yi_scale spec) (Fin 0)"
    unfolding checked_tensor_size_def by (auto simp: Let_def split: if_split_asm)
  have "checked_multiply ?h ?w [] = Inr (?h * ?w)" using c(4) by (simp add: checked_multiply_def)
  then have wh: "unat ?h * unat ?w < 2 ^ 64" "unat (?h * ?w) = unat ?h * unat ?w" unfolding checked_multiply_Inr by simp_all
  have "checked_multiply 3 (?w * ?h) [] = Inr (3 * (?w * ?h))" using c(5) by (simp add: checked_multiply_def)
  then have whc: "3 * unat (?w * ?h) < 2 ^ 64" "unat (3 * (?w * ?h)) = 3 * unat (?w * ?h)" unfolding checked_multiply_Inr by simp_all
  show "yp_spec p = spec" "?w \<noteq> 0" "?h \<noteq> 0" "is_finite (yi_scale spec)" using p c by simp_all
  show "unat ?w * unat ?h * 3 < 2 ^ 64" "unat (yp_tensor_elements p) = unat ?w * unat ?h * 3"
    using wh whc p c(6) by (simp_all add: mult.commute mult.assoc)
  show "flt (Fin 0) (yi_scale spec)" using c(7,8) by (auto simp: is_finite_iff)
qed

text \<open>
  The letterbox of a non-empty image always exists, and it is one: a positive finite scale, a scaled image of at least
  one pixel that fits the input on both axes, centred up to one pixel. The sizes are below \<open>2 ^ 32\<close>.
\<close>

theorem letterbox_geometry:
  assumes "make_yolo_preprocessor spec = Inr p" and "img_width img \<noteq> 0" and "img_height img \<noteq> 0"
    and "unat (img_width img) < 2 ^ 32" "unat (img_height img) < 2 ^ 32" "unat (yi_width spec) < 2 ^ 32" "unat (yi_height spec) < 2 ^ 32"
  shows "\<exists>md. make_letterbox_metadata img spec = Inr md \<and> is_finite (lb_scale md) \<and> flt (Fin 0) (lb_scale md) \<and> letterbox_of img spec md"
proof -
  note spec = spec_positive [OF assms(1)]
  have pos: "0 < unat (img_width img)" "0 < unat (img_height img)" "0 < unat (yi_width spec)" "0 < unat (yi_height spec)"
    using assms(2,3) spec(2,3) by (simp_all add: unat_gt_0)
  note ex = double_of_size_exact [OF less_trans [OF _ power_strict_increasing [of 32 53 2]], simplified]
  obtain x where x: "fdiv binary64 (double_of_size (yi_width spec)) (double_of_size (img_width img)) = Fin x" "pow2 (-32) \<le> x" "x \<le> pow2 32"
    using size_ratio [OF pos(3) assms(6) pos(1) assms(4)] assms(4,6) ex by auto
  obtain y where y: "fdiv binary64 (double_of_size (yi_height spec)) (double_of_size (img_height img)) = Fin y" "pow2 (-32) \<le> y" "y \<le> pow2 32"
    using size_ratio [OF pos(4) assms(7) pos(2) assms(5)] assms(5,7) ex by auto
  obtain z where z: "fmin (Fin x) (Fin y) = Fin z" "pow2 (-32) \<le> z" "z \<le> pow2 32"
    using x(2,3) y(2,3) by (cases "y < x") (auto simp: fmin_def)
  have "0 < z" using z(2) less_le_trans [OF pow2_pos] by blast
  then obtain md where md: "make_letterbox_metadata img spec = Inr md" "lb_scale md = fcast binary32 (Fin z)"
    unfolding make_letterbox_metadata_def Let_def x(1) y(1) z(1) by (simp add: not_le)
  have p: "round_rat binary32 (pow2 (-32)) = pow2 (-32)" by (rule b32.round_pow2) (simp add: binary32_def)
  have "pow2 32 \<le> pow2 63" by (rule pow2_mono) simp
  then have "round_fl binary32 z = Fin (round_rat binary32 z)" using z(3) \<open>0 < z\<close> by (intro b32.round_fl_small) simp
  moreover have "pow2 (-32) \<le> round_rat binary32 z" using b32.round_mono [OF z(2)] p by simp
  ultimately have "\<exists>s. lb_scale md = Fin s \<and> 0 < s" using md(2) less_le_trans [OF pow2_pos] by (auto simp: fcast_def)
  with md(1) letterbox_of_metadata [OF md(1) spec(2,3)] show ?thesis by auto
qed

section \<open>The tensor, element by element\<close>

text \<open>Scattered writes: an element that is written holds the value written to it, every other is as before.\<close>

lemma scatter_length: "length (fold (\<lambda>q out. out[f q := v q]) qs out) = length out"
  by (induction qs arbitrary: out) simp_all

lemma scatter_miss: "(\<And>q. q \<in> set qs \<Longrightarrow> f q \<noteq> k) \<Longrightarrow> fold (\<lambda>q out. out[f q := v q]) qs out ! k = out ! k"
  by (induction qs rule: rev_induct) simp_all

lemma scatter_hit:
  assumes "q \<in> set qs" and "\<And>p. p \<in> set qs \<Longrightarrow> f p = f q \<Longrightarrow> v p = v q" and "f q < length out"
  shows "fold (\<lambda>q out. out[f q := v q]) qs out ! f q = v q"
  using assms
proof (induction qs rule: rev_induct)
  case (snoc p qs)
  show ?case
  proof (cases "f p = f q")
    case True
    have "v p = v q" by (rule snoc.prems(2)) (simp_all add: True)
    then show ?thesis using snoc.prems(3) True by (simp add: scatter_length)
  next
    case False
    then have "q \<in> set qs" using snoc.prems(1) by auto
    then have "fold (\<lambda>q out. out[f q := v q]) qs out ! f q = v q"
    proof (rule snoc.IH)
      show "v p' = v q" if "p' \<in> set qs" "f p' = f q" for p'
        by (rule snoc.prems(2)) (use that in simp_all)
    qed (rule snoc.prems(3))
    then show ?thesis using False by simp
  qed
qed simp

lemma fold_scatter_planes:
  "fold (\<lambda>p out. out[f (0, p) := v (0, p), f (1, p) := v (1, p), f (2, p) := v (2, p)]) ps out =
   fold (\<lambda>q out. out[f q := v q]) (concat (map (\<lambda>p. [(0, p), (1, p), (2 :: nat, p)]) ps)) out"
proof (induction ps arbitrary: out)
  case (Cons p ps)
  show ?case by (simp only: fold_simps list.map concat.simps append.simps Cons.IH)
qed simp

definition channel :: "nat \<Rightarrow> RgbSample \<Rightarrow> fl" where
  "channel c s = (if c = 0 then rgb_red s else if c = 1 then rgb_green s else rgb_blue s)"

text \<open>Where a channel of a pixel of the scaled image is in the tensor.\<close>

definition plane_index :: "YoloInputSpec \<Rightarrow> LetterboxMetadata \<Rightarrow> nat \<times> nat \<times> nat \<Rightarrow> nat" where
  "plane_index spec md = (\<lambda>(c, x, y). c * (unat (yi_width spec) * unat (yi_height spec)) +
     (unat (lb_pad_top md) + y) * unat (yi_width spec) + (unat (lb_pad_left md) + x))"

lemma window_inside:
  assumes "letterbox_of img spec md" and "x < unat (lb_resized_width md)" and "y < unat (lb_resized_height md)"
  shows "unat (lb_pad_left md) + x < unat (yi_width spec)" "unat (lb_pad_top md) + y < unat (yi_height spec)"
  using assms by (auto simp: letterbox_of_def)

lemma plane_offset_less: "Y < H \<Longrightarrow> X < W \<Longrightarrow> c < 3 \<Longrightarrow> c * (W * H) + Y * W + X < 3 * (W * H :: nat)"
proof -
  assume "Y < H" "X < W" "c < 3"
  have "Y * W + X < (Y + 1) * W" using \<open>X < W\<close> by simp
  also have "\<dots> \<le> H * W" using \<open>Y < H\<close> by (intro mult_right_mono) simp_all
  finally have "c * (W * H) + Y * W + X < (c + 1) * (W * H)" by (simp add: mult.commute)
  also have "\<dots> \<le> 3 * (W * H)" using \<open>c < 3\<close> by (intro mult_right_mono) simp_all
  finally show ?thesis .
qed

lemma plane_offset_inj:
  assumes "Y < H" "X < (W :: nat)" "Y' < H" "X' < W" and "c * (W * H) + Y * W + X = c' * (W * H) + Y' * W + X'"
  shows "c = c' \<and> Y = Y' \<and> X = X'"
proof -
  have row: "Y * W + X < W * H" if "Y < H" "X < W" for X Y
  proof -
    have "Y * W + X < (Y + 1) * W" using that(2) by simp
    also have "\<dots> \<le> H * W" using that(1) by (intro mult_right_mono) simp_all
    finally show ?thesis by (simp add: mult.commute)
  qed
  have c: "(c * (W * H) + (Y * W + X)) div (W * H) = c" if "Y < H" "X < W" for c X Y
  proof -
    have "W * H \<noteq> 0" using row [OF that] by linarith
    then have "(c * (W * H) + (Y * W + X)) div (W * H) = c + (Y * W + X) div (W * H)" by (rule div_mult_self3)
    with row [OF that] show ?thesis by simp
  qed
  have "c = c'" using c [OF assms(1,2), of c] c [OF assms(3,4), of c'] assms(5) by (simp add: add.assoc)
  with assms(5) have e: "Y * W + X = Y' * W + X'" by simp
  have "(Y * W + X) div W = Y" "(Y' * W + X') div W = Y'" using assms(2,4) by simp_all
  with e have "Y = Y'" by metis
  with e \<open>c = c'\<close> show ?thesis by simp
qed

lemma write_pixel_planes:
  assumes spec: "unat (yi_width spec) * unat (yi_height spec) * 3 < 2 ^ 64" and lb: "letterbox_of img spec md"
    and x: "x < unat (lb_resized_width md)" and y: "y < unat (lb_resized_height md)"
  shows "write_pixel spec img md sx sy (x, y) out =
    (let v = \<lambda>c. mul32 (channel c (bilinear_sample img (source_position x sx) (source_position y sy))) (yi_scale spec);
         f = \<lambda>c. plane_index spec md (c, x, y)
     in out[f 0 := v 0, f 1 := v 1, f 2 := v 2])"
proof -
  let ?W = "yi_width spec" and ?H = "yi_height spec"
  let ?X = "lb_pad_left md + of_nat x" and ?Y = "lb_pad_top md + of_nat y"
  note inside = window_inside [OF lb x y]
  have nx: "unat (of_nat x :: 64 word) = x" and ny: "unat (of_nat y :: 64 word) = y"
    using x y unat_less_2_64 [of "lb_resized_width md"] unat_less_2_64 [of "lb_resized_height md"] by (simp_all add: unat_of_nat)
  have X: "unat ?X = unat (lb_pad_left md) + x"
    using inside(1) unat_less_2_64 [of ?W] nx by (subst unat_add_exact) simp_all
  have Y: "unat ?Y = unat (lb_pad_top md) + y"
    using inside(2) unat_less_2_64 [of ?H] ny by (subst unat_add_exact) simp_all
  have idx: "unat (of_nat c * (?W * ?H) + (?Y * ?W + ?X)) = plane_index spec md (c, x, y)" if c: "c < 3" for c
  proof -
    have lt: "c * (unat ?W * unat ?H) + unat ?Y * unat ?W + unat ?X < 3 * (unat ?W * unat ?H)"
      using plane_offset_less [of "unat ?Y" "unat ?H" "unat ?X" "unat ?W" c] inside c X Y by simp
    then have big: "c * (unat ?W * unat ?H) + unat ?Y * unat ?W + unat ?X < 2 ^ 64" using spec by simp
    have nc: "unat (of_nat c :: 64 word) = c" using c by (simp add: unat_of_nat)
    have wh: "unat (?W * ?H) = unat ?W * unat ?H" using spec by (intro unat_mult_exact) simp
    have a: "unat (of_nat c * (?W * ?H)) = c * (unat ?W * unat ?H)" using big nc wh by (subst unat_mult_exact) simp_all
    have b: "unat (?Y * ?W) = unat ?Y * unat ?W" using big by (intro unat_mult_exact) linarith
    have "unat (?Y * ?W + ?X) = unat ?Y * unat ?W + unat ?X" using big b by (subst unat_add_exact) simp_all
    with a big show ?thesis by (subst unat_add_exact) (simp_all add: plane_index_def X Y)
  qed
  have "unat (?Y * ?W + ?X) = plane_index spec md (0, x, y)" "unat (?W * ?H + (?Y * ?W + ?X)) = plane_index spec md (1, x, y)"
    "unat (2 * (?W * ?H) + (?Y * ?W + ?X)) = plane_index spec md (2, x, y)"
    using idx [of 0] idx [of 1] idx [of 2] by simp_all
  then show ?thesis by (simp add: write_pixel_def channel_def Let_def)
qed

text \<open>The value of the tensor at a channel, column and row of the input.\<close>

definition tensor_value :: "YoloInputSpec \<Rightarrow> ImageView \<Rightarrow> LetterboxMetadata \<Rightarrow> nat \<Rightarrow> nat \<Rightarrow> nat \<Rightarrow> fl" where
  "tensor_value spec img md c X Y =
     (let left = unat (lb_pad_left md); top = unat (lb_pad_top md);
          scale_x = fdiv binary64 (double_of_size (img_width img)) (double_of_size (lb_resized_width md));
          scale_y = fdiv binary64 (double_of_size (img_height img)) (double_of_size (lb_resized_height md))
      in if left \<le> X \<and> X < left + unat (lb_resized_width md) \<and> top \<le> Y \<and> Y < top + unat (lb_resized_height md)
         then mul32 (channel c (bilinear_sample img (source_position (X - left) scale_x) (source_position (Y - top) scale_y))) (yi_scale spec)
         else mul32 (yi_pad_value spec) (yi_scale spec))"

text \<open>
  C25: what the preprocessor writes. The tensor has three planes of the input size; inside the letterbox window an element is the
  normalized bilinear sample of its channel at the corresponding source position, everywhere else it is the normalized
  padding, whatever the buffer held before.
\<close>

theorem preprocess_exact:
  assumes "make_yolo_preprocessor spec = Inr p" and "preprocess_into p vi output = Inr (chw, md)"
    and "c < 3" and "X < unat (yi_width spec)" and "Y < unat (yi_height spec)"
  shows "length chw = 3 * (unat (yi_width spec) * unat (yi_height spec)) \<and>
    chw ! (c * (unat (yi_width spec) * unat (yi_height spec)) + Y * unat (yi_width spec) + X) = tensor_value spec (vi_view vi) md c X Y"
proof -
  note spec = spec_positive [OF assms(1)]
  let ?img = "vi_view vi" and ?W = "unat (yi_width spec)" and ?H = "unat (yi_height spec)"
  define sx where "sx = fdiv binary64 (double_of_size (img_width ?img)) (double_of_size (lb_resized_width md))"
  define sy where "sy = fdiv binary64 (double_of_size (img_height ?img)) (double_of_size (lb_resized_height md))"
  let ?rw = "unat (lb_resized_width md)" and ?rh = "unat (lb_resized_height md)"
  let ?bg = "replicate (length output) (mul32 (yi_pad_value spec) (yi_scale spec))"
  let ?f = "plane_index spec md"
  let ?v = "\<lambda>(c, x, y). mul32 (channel c (bilinear_sample ?img (source_position x sx) (source_position y sy))) (yi_scale spec)"
  from assms(2) have len: "length output = ?W * ?H * 3" and md: "make_letterbox_metadata ?img spec = Inr md"
    and chw: "chw = fold (write_pixel spec ?img md sx sy) (pixels 0 ?rw 0 ?rh) ?bg"
    unfolding preprocess_into_def sx_def sy_def using spec(1,5) by (auto simp: Let_def result_simps split: if_split_asm)
  have lb: "letterbox_of ?img spec md" by (rule letterbox_of_metadata [OF md spec(2,3)])
  let ?qs = "concat (map (\<lambda>p. [(0, p), (1, p), (2 :: nat, p)]) (pixels 0 ?rw 0 ?rh))"
  have px: "(x, y) \<in> set (pixels 0 ?rw 0 ?rh) \<longleftrightarrow> x < ?rw \<and> y < ?rh" for x y
    by (auto simp: pixels_def image_iff)
  have "fold (write_pixel spec ?img md sx sy) (pixels 0 ?rw 0 ?rh) ?bg =
      fold (\<lambda>p out. out[?f (0, p) := ?v (0, p), ?f (1, p) := ?v (1, p), ?f (2, p) := ?v (2, p)]) (pixels 0 ?rw 0 ?rh) ?bg"
  proof (rule fold_cong)
    fix p
    assume "p \<in> set (pixels 0 ?rw 0 ?rh)"
    then have "fst p < ?rw" "snd p < ?rh" using px [of "fst p" "snd p"] by simp_all
    from write_pixel_planes [OF spec(4) lb this, of sx sy]
    show "write_pixel spec ?img md sx sy p = (\<lambda>out. out[?f (0, p) := ?v (0, p), ?f (1, p) := ?v (1, p), ?f (2, p) := ?v (2, p)])"
      by (simp add: fun_eq_iff Let_def split_def)
  qed simp_all
  then have chw: "chw = fold (\<lambda>q out. out[?f q := ?v q]) ?qs ?bg" unfolding chw fold_scatter_planes [symmetric] .
  have qs: "(d, x, y) \<in> set ?qs \<longleftrightarrow> d < 3 \<and> x < ?rw \<and> y < ?rh" for d x y
  proof -
    have "(d, x, y) \<in> set ?qs \<longleftrightarrow> (d = 0 \<or> d = 1 \<or> d = 2) \<and> (x, y) \<in> set (pixels 0 ?rw 0 ?rh)" by auto
    moreover have "d < 3 \<longleftrightarrow> d = 0 \<or> d = 1 \<or> d = 2" by auto
    ultimately show ?thesis using px [of x y] by simp
  qed
  have len': "length chw = 3 * (?W * ?H)" unfolding chw scatter_length by (simp add: len)
  let ?k = "c * (?W * ?H) + Y * ?W + X" and ?l = "unat (lb_pad_left md)" and ?t = "unat (lb_pad_top md)"
  have k: "?k < length ?bg" using plane_offset_less [OF assms(5,4,3)] len by simp
  have at: "c = d \<and> Y = ?t + y \<and> X = ?l + x" if "(d, x, y) \<in> set ?qs" "?f (d, x, y) = ?k" for d x y
  proof -
    have "x < ?rw" "y < ?rh" using that(1) qs by blast+
    note w = window_inside [OF lb this]
    show ?thesis using plane_offset_inj [OF assms(5,4) w(2,1), of c d] that(2) by (simp add: plane_index_def)
  qed
  show ?thesis
  proof (cases "?l \<le> X \<and> X < ?l + ?rw \<and> ?t \<le> Y \<and> Y < ?t + ?rh")
    case True
    let ?q = "(c, X - ?l, Y - ?t)"
    have q: "?q \<in> set ?qs" using True assms(3) by (subst qs) auto
    have fq: "?f ?q = ?k" using True by (simp add: plane_index_def)
    have same: "?v p = ?v ?q" if "p \<in> set ?qs" "?f p = ?f ?q" for p
    proof -
      obtain d x y where p: "p = (d, x, y)" by (cases p) auto
      from at [of d x y] that fq p have "c = d" "Y = ?t + y" "X = ?l + x" by simp_all
      then show ?thesis unfolding p by simp
    qed
    have "chw ! ?k = ?v ?q" unfolding chw fq [symmetric] 
      by (rule scatter_hit [of ?q ?qs ?f ?v, OF q]) (use k fq same in simp_all)
    with True len' show ?thesis by (simp add: tensor_value_def sx_def sy_def Let_def)
  next
    case False
    have "?f p \<noteq> ?k" if "p \<in> set ?qs" for p
    proof
      assume e: "?f p = ?k"
      obtain d x y where p: "p = (d, x, y)" by (cases p) auto
      from at [of d x y] that e p have "Y = ?t + y" "X = ?l + x" by simp_all
      moreover have "x < ?rw" "y < ?rh" using that qs unfolding p by blast+
      ultimately show False using False by simp
    qed
    then have "chw ! ?k = ?bg ! ?k" unfolding chw by (rule scatter_miss)
    with False k len' show ?thesis unfolding tensor_value_def Let_def by (simp only: if_not_P nth_replicate length_replicate) simp
  qed
qed

section \<open>The sampler\<close>

text \<open>A clamped coordinate, rounded down, is a coordinate of the image, and its fraction is a weight.\<close>

lemma clamped_floor:
  assumes "v \<noteq> NaN" and "n \<noteq> 0" and "unat n < 2 ^ 53"
  shows "unat (floor_size (fclamp v (Fin 0) (double_of_size (n - 1)))) < unat n"
    "is_prob (fcast binary32 (fsub binary64 (fclamp v (Fin 0) (double_of_size (n - 1)))
       (double_of_size (floor_size (fclamp v (Fin 0) (double_of_size (n - 1)))))))"
proof -
  have pred: "unat (n - 1) = unat n - 1" using assms(2) by (rule unat_pred)
  have max: "double_of_size (n - 1) = Fin (of_nat (unat n - 1))" using double_of_size_exact [of "n - 1"] pred assms(3) by simp
  let ?c = "fclamp v (Fin 0) (Fin (of_nat (unat n - 1)))"
  have "fle (Fin 0) ?c \<and> fle ?c (Fin (of_nat (unat n - 1)))"
    using assms(1) by (cases v) (auto simp: fclamp_def)
  then obtain x where x: "?c = Fin x" "0 \<le> x" "x \<le> of_nat (unat n - 1)" by (cases ?c) auto
  define k where "k = nat \<lfloor>x\<rfloor>"
  have k: "\<lfloor>x\<rfloor> = int k" "of_nat k \<le> x" "x < of_nat k + 1"
  proof -
    show e: "\<lfloor>x\<rfloor> = int k" using x(2) by (simp add: k_def)
    show "of_nat k \<le> x" using of_int_floor_le [of x] by (simp add: e)
    show "x < of_nat k + 1" using floor_correct [of x] by (simp add: e)
  qed
  have "(of_nat k :: rat) \<le> of_nat (unat n - 1)" using k(2) x(3) by linarith
  then have kn: "k \<le> unat n - 1" by (simp only: of_nat_le_iff)
  have n: "0 < unat n" using assms(2) by (simp add: unat_gt_0)
  have floor: "floor_size (Fin x) = of_nat k" by (simp add: floor_size_def k(1))
  have "k < 2 ^ 64" using kn assms(3) by simp
  then have uk: "unat (floor_size (Fin x)) = k" unfolding floor by (simp add: unat_of_nat)
  then show "unat (floor_size (fclamp v (Fin 0) (double_of_size (n - 1)))) < unat n" using max x(1) kn n by simp
  have "double_of_size (floor_size (Fin x)) = Fin (of_nat k)"
    using double_of_size_exact [of "floor_size (Fin x)"] uk kn assms(3) by simp
  then have "fsub binary64 (Fin x) (double_of_size (floor_size (Fin x))) = round_fl binary64 (x - of_nat k)" by (simp add: fsub_def)
  moreover have "is_prob (round_fl binary64 (x - of_nat k))" using k(2,3) by (intro b64.prob_round) simp_all
  then obtain z where "round_fl binary64 (x - of_nat k) = Fin z" "0 \<le> z" "z \<le> 1" by (rule is_probE)
  ultimately have "is_prob (fcast binary32 (fsub binary64 (Fin x) (double_of_size (floor_size (Fin x)))))"
    by (simp add: fcast_def b32.prob_round)
  then show "is_prob (fcast binary32 (fsub binary64 (fclamp v (Fin 0) (double_of_size (n - 1)))
       (double_of_size (floor_size (fclamp v (Fin 0) (double_of_size (n - 1)))))))" using max x(1) by simp
qed

lemma next_pixel: "n \<noteq> 0 \<Longrightarrow> unat (min m (n - 1) :: 64 word) < unat n"
proof -
  assume n: "n \<noteq> 0"
  then have "0 < unat n" by (simp add: unat_gt_0)
  moreover have "unat (min m (n - 1)) \<le> unat n - 1" unfolding unat_pred [OF n, symmetric] word_le_nat_alt [symmetric] by simp
  ultimately show ?thesis by linarith
qed

text \<open>The bytes of a pixel of a validated image, by the layout of the image.\<close>

definition pixel_of :: "ImageView \<Rightarrow> nat \<Rightarrow> nat \<Rightarrow> RgbSample" where
  "pixel_of img x y =
     (let byte = \<lambda>ch. byte_value (unat (img_bytes img ! byte_index img y x ch))
      in case img_format img of
           gray8 \<Rightarrow> \<lparr>rgb_red = byte 0, rgb_green = byte 0, rgb_blue = byte 0\<rparr>
         | rgb8 \<Rightarrow> \<lparr>rgb_red = byte 0, rgb_green = byte 1, rgb_blue = byte 2\<rparr>
         | bgr8 \<Rightarrow> \<lparr>rgb_red = byte 2, rgb_green = byte 1, rgb_blue = byte 0\<rparr>)"

lemma pixel_at_of:
  assumes "image_ok limits img" and "length (img_bytes img) < 2 ^ 64" and "x < unat (img_width img)" and "y < unat (img_height img)"
  shows "pixel_at img x y = pixel_of img x y"
proof -
  have at: "byte_at img y (x * channels_of (img_format img) + ch) = unat (img_bytes img ! byte_index img y x ch)"
    if ch: "ch < channels_of (img_format img)" for ch
  proof -
    have lt: "byte_index img y x ch < 2 ^ 64" using byte_index_less [OF assms(4,3) ch] assms(1,2) by (simp add: image_ok_def)
    let ?i = "x * channels_of (img_format img) + ch"
    have y: "unat (of_nat y :: 64 word) = y" using assms(4) unat_less_2_64 [of "img_height img"] by (simp add: unat_of_nat)
    have "?i < 2 ^ 64" using lt by (simp add: byte_index_def)
    then have i: "unat (of_nat ?i :: 64 word) = ?i" by (simp add: unat_of_nat del: of_nat_add of_nat_mult)
    have "unat (of_nat y * img_stride img) = y * unat (img_stride img)" using lt y by (subst unat_mult_exact) (simp_all add: byte_index_def)
    then have "unat (of_nat y * img_stride img + of_nat ?i) = y * unat (img_stride img) + ?i"
      using lt i by (subst unat_add_exact) (simp_all add: byte_index_def del: of_nat_add of_nat_mult)
    then show ?thesis by (simp add: byte_at_def byte_index_def add.assoc)
  qed
  show ?thesis
  proof (cases "img_format img")
    case gray8
    then show ?thesis using at [of 0] by (simp add: pixel_at_def pixel_of_def channels_of_def Let_def)
  next
    case bgr8
    then show ?thesis using at [of 0] at [of 1] at [of 2] by (simp add: pixel_at_def pixel_of_def channels_of_def Let_def)
  next
    case rgb8
    then show ?thesis using at [of 0] at [of 1] at [of 2] by (simp add: pixel_at_def pixel_of_def channels_of_def Let_def)
  qed
qed

text \<open>An interpolation of bytes is a non-negative number of moderate size.\<close>

definition sample_range :: "nat \<Rightarrow> fl \<Rightarrow> bool" where
  "sample_range k a \<longleftrightarrow> (\<exists>z. a = Fin z \<and> 0 \<le> z \<and> z \<le> of_nat k)"

lemma sample_range_mult:
  assumes "sample_range k a" and "is_prob w" and "k < 2 ^ 24"
  shows "sample_range k (mul32 a w)"
proof -
  from assms obtain x where x: "a = Fin x" "0 \<le> x" "x \<le> of_nat k" by (auto simp: sample_range_def)
  from assms(2) obtain v where v: "w = Fin v" "0 \<le> v" "v \<le> 1" by (rule is_probE)
  have le: "x * v \<le> of_nat k" using mult_left_le [of v x] x v by linarith
  have ge: "0 \<le> x * v" using x(2) v(2) by simp
  from b32.round_fl_nat_bound [of "x * v" k] le ge assms(3) show ?thesis
    unfolding x(1) v(1) by (auto simp: sample_range_def binary32_def)
qed

lemma sample_range_add:
  assumes "sample_range k a" and "sample_range l b" and "k + l < 2 ^ 24"
  shows "sample_range (k + l) (add32 a b)"
proof -
  from assms obtain x y where x: "a = Fin x" "0 \<le> x" "x \<le> of_nat k" and y: "b = Fin y" "0 \<le> y" "y \<le> of_nat l"
    by (auto simp: sample_range_def)
  from b32.round_fl_nat_bound [of "x + y" "k + l"] x y assms(3) show ?thesis
    unfolding x(1) y(1) by (auto simp: sample_range_def binary32_def)
qed

lemma interpolate_range:
  assumes "is_prob dx" "is_prob dy" "sample_range 255 a" "sample_range 255 b" "sample_range 255 c" "sample_range 255 d"
  shows "sample_range 1020 (interpolate dx dy a b c d)"
proof -
  note w = b32.prob_one_minus [OF assms(1)] b32.prob_one_minus [OF assms(2)]
  have top: "sample_range (255 + 255) (add32 (mul32 a (sub32 (Fin 1) dx)) (mul32 b dx))"
    by (intro sample_range_add sample_range_mult assms w) simp_all
  have bottom: "sample_range (255 + 255) (add32 (mul32 c (sub32 (Fin 1) dx)) (mul32 d dx))"
    by (intro sample_range_add sample_range_mult assms w) simp_all
  have "sample_range ((255 + 255) + (255 + 255)) (interpolate dx dy a b c d)"
    unfolding interpolate_def Let_def by (intro sample_range_add sample_range_mult top bottom assms w) simp_all
  then show ?thesis by simp
qed

lemma byte_range:
  assumes "k \<le> 255"
  shows "sample_range 255 (byte_value k)"
proof -
  have le: "(of_nat k :: rat) \<le> of_nat 255" using assms by (simp only: of_nat_le_iff)
  moreover have "round_rat binary32 (of_nat k) = of_nat k" using assms by (intro b32.round_nat) (simp add: binary32_def)
  moreover have "(of_nat 255 :: rat) \<le> pow2 63" by (simp add: pow2_def)
  with le have "round_fl binary32 (of_nat k) = Fin (round_rat binary32 (of_nat k))" by (intro b32.round_fl_small) simp
  ultimately show ?thesis by (simp add: byte_value_def float_of_nat_def sample_range_def)
qed

lemma pixel_range: "sample_range 255 (channel c (pixel_of img x y))"
proof -
  have "unat b \<le> 255" for b :: "8 word" using unsigned_less [where 'a = nat, of b] by simp
  then show ?thesis by (cases "img_format img") (simp_all add: pixel_of_def channel_def Let_def byte_range)
qed

text \<open>
  The bilinear sampler reads four pixels of the image and nothing else. For a validated image and any source
  position that is a number, both columns and both rows are inside the image, so that every byte read is inside the buffer,
  the weights are between 0 and 1, and each channel is the interpolation of the four bytes of the format's channel, a finite
  non-negative number.
\<close>

theorem bilinear_reads_inside:
  assumes "length (img_bytes img) < 2 ^ 64" and "validate_image img limits = Inr vi"
    and "unat (img_width img) < 2 ^ 53" "unat (img_height img) < 2 ^ 53" and "sx \<noteq> NaN" "sy \<noteq> NaN"
  shows "\<exists>x0 x1 y0 y1 dx dy. x0 < unat (img_width img) \<and> x1 < unat (img_width img) \<and>
    y0 < unat (img_height img) \<and> y1 < unat (img_height img) \<and> is_prob dx \<and> is_prob dy \<and>
    (\<forall>x \<in> {x0, x1}. \<forall>y \<in> {y0, y1}. \<forall>ch < channels_of (img_format img). byte_index img y x ch < length (img_bytes img)) \<and>
    (\<forall>c < 3. channel c (bilinear_sample img sx sy) =
        interpolate dx dy (channel c (pixel_of img x0 y0)) (channel c (pixel_of img x1 y0))
          (channel c (pixel_of img x0 y1)) (channel c (pixel_of img x1 y1)) \<and>
      sample_range 1020 (channel c (bilinear_sample img sx sy)))"
proof -
  from assms(2) have ok: "image_ok limits img" unfolding validate_image_Inr [OF assms(1)] by blast
  then have pos: "img_width img \<noteq> 0" "img_height img \<noteq> 0" by (auto simp: image_ok_def)
  define cx where "cx = fclamp sx (Fin 0) (double_of_size (img_width img - 1))"
  define cy where "cy = fclamp sy (Fin 0) (double_of_size (img_height img - 1))"
  define dx where "dx = fcast binary32 (fsub binary64 cx (double_of_size (floor_size cx)))"
  define dy where "dy = fcast binary32 (fsub binary64 cy (double_of_size (floor_size cy)))"
  let ?x0 = "unat (floor_size cx)" and ?x1 = "unat (min (floor_size cx + 1) (img_width img - 1))"
  let ?y0 = "unat (floor_size cy)" and ?y1 = "unat (min (floor_size cy + 1) (img_height img - 1))"
  have x0: "?x0 < unat (img_width img)" "is_prob dx" and y0: "?y0 < unat (img_height img)" "is_prob dy"
    using clamped_floor [OF assms(5) pos(1) assms(3)] clamped_floor [OF assms(6) pos(2) assms(4)]
    unfolding cx_def cy_def dx_def dy_def by simp_all
  have x1: "?x1 < unat (img_width img)" and y1: "?y1 < unat (img_height img)" using pos by (simp_all add: next_pixel)
  note at = pixel_at_of [OF ok assms(1)]
  have inside: "byte_index img y x ch < length (img_bytes img)"
    if "x < unat (img_width img)" "y < unat (img_height img)" "ch < channels_of (img_format img)" for x y ch
    using byte_index_less [OF that(2,1,3)] ok by (simp add: image_ok_def)
  have sample: "channel c (bilinear_sample img sx sy) =
        interpolate dx dy (channel c (pixel_of img ?x0 ?y0)) (channel c (pixel_of img ?x1 ?y0))
          (channel c (pixel_of img ?x0 ?y1)) (channel c (pixel_of img ?x1 ?y1))" for c
    unfolding bilinear_sample_def Let_def cx_def [symmetric] cy_def [symmetric] dx_def [symmetric] dy_def [symmetric]
      at [OF x0(1) y0(1)] at [OF x1 y0(1)] at [OF x0(1) y1] at [OF x1 y1]
    by (simp add: channel_def)
  have range: "sample_range 1020 (channel c (bilinear_sample img sx sy))" for c
    unfolding sample by (rule interpolate_range [OF x0(2) y0(2) pixel_range pixel_range pixel_range pixel_range])
  show ?thesis
    by (rule exI [of _ ?x0], rule exI [of _ ?x1], rule exI [of _ ?y0], rule exI [of _ ?y1], rule exI [of _ dx], rule exI [of _ dy])
      (use x0 x1 y0 y1 inside sample range in blast)
qed

section \<open>A tiny image\<close>

definition small_input :: YoloInputSpec where
  "small_input = \<lparr>yi_width = 1, yi_height = 2, yi_channels = 3, yi_scale = Fin 1, yi_pad_value = Fin 114\<rparr>"

definition small_preprocessor :: YoloPosePreprocessor where
  "small_preprocessor = \<lparr>yp_spec = small_input, yp_tensor_elements = 6\<rparr>"

lemma small_input_made: "make_yolo_preprocessor small_input = Inr small_preprocessor"
  by code_simp

definition dot_image :: ImageView where
  "dot_image = \<lparr>img_bytes = [7], img_width = 1, img_height = 1, img_stride = 1, img_format = gray8\<rparr>"

definition dot_validated :: ValidatedImage where
  "dot_validated = \<lparr>vi_view = dot_image, vi_channels = 1, vi_minimum_row_bytes = 1, vi_required_bytes = 1\<rparr>"

definition dot_letterbox :: LetterboxMetadata where
  "dot_letterbox = \<lparr>lb_source_width = 1, lb_source_height = 1, lb_input_width = 1, lb_input_height = 2, lb_scale = Fin 1,
     lb_pad_left = 0, lb_pad_top = 0, lb_resized_width = 1, lb_resized_height = 1\<rparr>"

lemma dot_tensor:
  "preprocess_into small_preprocessor dot_validated (replicate 6 NaN) = Inr (map Fin [7, 114, 7, 114, 7, 114], dot_letterbox)"
proof -
  have md: "make_letterbox_metadata dot_image small_input = Inr dot_letterbox" by code_simp
  have one: "fdiv binary64 (double_of_size 1) (double_of_size 1) = Fin 1" by code_simp
  have sample: "bilinear_sample dot_image (source_position 0 (Fin 1)) (source_position 0 (Fin 1)) =
      \<lparr>rgb_red = Fin 7, rgb_green = Fin 7, rgb_blue = Fin 7\<rparr>" by code_simp
  have pad: "round_fl binary32 114 = Fin 114" by code_simp
  have w: "img_width dot_image = 1" "img_height dot_image = 1" "vi_view dot_validated = dot_image"
    by (simp_all add: dot_image_def dot_validated_def)
  have px: "pixels 0 (Suc 0) 0 (Suc 0) = [(0, 0)]" by (simp add: pixels_def)
  have r: "round_fl binary32 7 = Fin 7" by code_simp
  have "write_pixel small_input dot_image dot_letterbox (Fin 1) (Fin 1) (0, 0) (replicate 6 (Fin 114)) =
      (replicate 6 (Fin 114))[0 := Fin 7, 2 := Fin 7, 4 := Fin 7]"
    unfolding write_pixel_def prod.case sample Let_def by (simp add: small_input_def dot_letterbox_def r)
  also have "\<dots> = map Fin [7, 114, 7, 114, 7, 114]" by (simp add: eval_nat_numeral)
  finally have wr: "write_pixel small_input dot_image dot_letterbox (Fin 1) (Fin 1) (0, 0) (replicate 6 (Fin 114)) =
      map Fin [7, 114, 7, 114, 7, 114]" .
  show ?thesis
    unfolding preprocess_into_def Let_def w
    by (simp add: small_preprocessor_def md one px wr dot_letterbox_def [THEN arg_cong, of lb_resized_width]
        dot_letterbox_def [THEN arg_cong, of lb_resized_height] small_input_def [THEN arg_cong, of yi_pad_value]
        small_input_def [THEN arg_cong, of yi_scale] pad)
qed

lemma letterbox_geometry_witness:
  "\<exists>md. make_letterbox_metadata dot_image small_input = Inr md \<and> flt (Fin 0) (lb_scale md) \<and> letterbox_of dot_image small_input md"
  using letterbox_geometry [OF small_input_made, of dot_image] by (auto simp: dot_image_def small_input_def)

lemma preprocess_exact_witness:
  "\<exists>chw md. preprocess_into small_preprocessor dot_validated (replicate 6 NaN) = Inr (chw, md) \<and> length chw = 6 \<and>
     chw ! 3 = tensor_value small_input dot_image md 1 0 1"
proof -
  let ?chw = "map Fin [7, 114, 7, 114, 7, 114]"
  have "0 < unat (yi_width small_input)" "1 < unat (yi_height small_input)" "(1 :: nat) < 3" by (simp_all add: small_input_def)
  note exact = preprocess_exact [OF small_input_made dot_tensor this(3,1,2)]
  have size: "unat (yi_width small_input) = 1" "unat (yi_height small_input) = 2" "vi_view dot_validated = dot_image"
    by (simp_all add: small_input_def dot_validated_def)
  have "length ?chw = 6 \<and> ?chw ! 3 = tensor_value small_input dot_image dot_letterbox 1 0 1"
    using exact unfolding size by simp
  with dot_tensor show ?thesis by blast
qed

lemma bilinear_reads_inside_witness:
  "sample_range 1020 (channel 0 (bilinear_sample tiny_image (Fin (1/2)) (Fin (1/4))))"
proof -
  have len: "length (img_bytes tiny_image) < 2 ^ 64" and w: "unat (img_width tiny_image) < 2 ^ 53" "unat (img_height tiny_image) < 2 ^ 53"
    by (simp_all add: tiny_image_def)
  have "\<forall>c < 3. sample_range 1020 (channel c (bilinear_sample tiny_image (Fin (1/2)) (Fin (1/4))))"
    using bilinear_reads_inside [OF len tiny_image_valid w, of "Fin (1/2)" "Fin (1/4)"] by blast
  then show ?thesis by simp
qed

end
