(* ===== verification/Yolo_Parser.thy ===== *)
theory Yolo_Parser
  imports Yolo_Preprocessor
begin

text \<open>
  The parser of the output tensor of the pose detector (\<^verbatim>\<open>infrastructure/yolo/yolo_pose_parser.cpp\<close>): the contract
  between the configured feature layout and the tensor, the decoding of a candidate column into a detection in image
  coordinates, and the non-maximum suppression. Indices are computed in 64-bit words as in the code, so that an
  index that wrapped around would show. A \<open>std::int64_t\<close> of the shape is a word read as a signed number.
\<close>

section \<open>Configuration\<close>

datatype CandidateLayout = features_first | candidates_first

record YoloPoseOutputSpec =
  ys_layout :: CandidateLayout
  ys_box_offset :: "64 word"
  ys_objectness_offset :: "64 word option"
  ys_class_score_offset :: "64 word"
  ys_class_count :: "64 word"
  ys_keypoint_offset :: "64 word"
  ys_keypoint_count :: "64 word"
  ys_keypoint_stride :: "64 word"
  ys_keypoint_x_offset :: "64 word"
  ys_keypoint_y_offset :: "64 word"
  ys_keypoint_confidence_offset :: "64 word option"
  ys_confidence_threshold :: fl
  ys_nms_iou_threshold :: fl
  ys_maximum_detections :: "64 word"
  ys_provider_name :: string

definition default_yolo_spec :: YoloPoseOutputSpec where
  "default_yolo_spec =
     \<lparr>ys_layout = features_first, ys_box_offset = 0, ys_objectness_offset = None, ys_class_score_offset = 4,
      ys_class_count = 1, ys_keypoint_offset = 5, ys_keypoint_count = 4, ys_keypoint_stride = 3,
      ys_keypoint_x_offset = 0, ys_keypoint_y_offset = 1, ys_keypoint_confidence_offset = Some 2,
      ys_confidence_threshold = lit32 (50/100), ys_nms_iou_threshold = lit32 (45/100), ys_maximum_detections = 32,
      ys_provider_name = ''yolo_pose''\<rparr>"

section \<open>The tensor as a matrix\<close>

record OutputMatrix =
  om_features :: "64 word"
  om_candidates :: "64 word"
  om_layout :: CandidateLayout
  om_data :: "fl list"

text \<open>
  The index of the span is not checked in the code; a read past its end, undefined there, is an exception of no kind here, so that it would
  make the parser fail.
\<close>

definition matrix_at :: "OutputMatrix \<Rightarrow> 64 word \<Rightarrow> 64 word \<Rightarrow> fl result" where
  "matrix_at m feature candidate =
     (if om_features m \<le> feature \<or> om_candidates m \<le> candidate
      then Inl (InferenceError ''YOLO output index is outside tensor bounds'')
      else let index = (if om_layout m = features_first
          then feature * om_candidates m + candidate else candidate * om_features m + feature)
        in if unat index < length (om_data m) then Inr (om_data m ! unat index) else Inl UnknownException)"

definition yolo_checked_add :: "64 word \<Rightarrow> 64 word \<Rightarrow> string \<Rightarrow> 64 word result" where
  "yolo_checked_add left right field =
     (if right > size_max - left then Inl (ConfigurationError (field @ '' overflows size_t'')) else Inr (left + right))"

definition yolo_checked_multiply :: "64 word \<Rightarrow> 64 word \<Rightarrow> string \<Rightarrow> 64 word result" where
  "yolo_checked_multiply left right field =
     (if left \<noteq> 0 \<and> right > size_max div left then Inl (ConfigurationError (field @ '' overflows size_t''))
      else Inr (left * right))"

definition checked_dimension :: "64 word \<Rightarrow> string \<Rightarrow> 64 word result" where
  "checked_dimension value field =
     (if sint value \<le> 0 then Inl (InferenceError (''YOLO output '' @ field @ '' must be a positive static dimension''))
      else if value > size_max then Inl (InferenceError (''YOLO output '' @ field @ '' exceeds size_t''))
      else Inr value)"

definition matrix_dimensions :: "64 word list \<Rightarrow> (64 word \<times> 64 word) result" where
  "matrix_dimensions shape =
     (if length shape = 3 then
        if shape ! 0 \<noteq> 1 then Inl (InferenceError ''YOLO output batch dimension must be 1'')
        else res_bind (checked_dimension (shape ! 1) ''dimension 1'') (\<lambda>first.
             res_bind (checked_dimension (shape ! 2) ''dimension 2'') (\<lambda>second. Inr (first, second)))
      else if length shape = 2 then
        res_bind (checked_dimension (shape ! 0) ''dimension 0'') (\<lambda>first.
        res_bind (checked_dimension (shape ! 1) ''dimension 1'') (\<lambda>second. Inr (first, second)))
      else Inl (InferenceError ''YOLO output must be a rank-2 or rank-3 tensor''))"

definition resolve_matrix :: "fl list \<Rightarrow> 64 word list \<Rightarrow> CandidateLayout \<Rightarrow> OutputMatrix result" where
  "resolve_matrix output shape layout =
     res_bind (matrix_dimensions shape) (\<lambda>(first, second).
       if first > size_max div second \<or> unat (first * second) \<noteq> length output
       then Inl (InferenceError ''YOLO output shape does not match tensor element count'')
       else Inr (if layout = features_first
         then \<lparr>om_features = first, om_candidates = second, om_layout = layout, om_data = output\<rparr>
         else \<lparr>om_features = second, om_candidates = first, om_layout = layout, om_data = output\<rparr>))"

section \<open>The feature contract\<close>

definition required_features :: "YoloPoseOutputSpec \<Rightarrow> 64 word result" where
  "required_features spec =
     res_bind (yolo_checked_add (ys_box_offset spec) 4 ''YOLO box feature extent'') (\<lambda>required.
     res_bind (map_sum id (max required) (yolo_checked_add (ys_class_score_offset spec) (ys_class_count spec) ''YOLO class feature extent'')) (\<lambda>required.
     res_bind (yolo_checked_multiply (ys_keypoint_count spec) (ys_keypoint_stride spec) ''YOLO keypoint feature span'') (\<lambda>keypoint_span.
     res_bind (map_sum id (max required) (yolo_checked_add (ys_keypoint_offset spec) keypoint_span ''YOLO keypoint feature extent'')) (\<lambda>required.
     case ys_objectness_offset spec of None \<Rightarrow> Inr required
     | Some off \<Rightarrow> map_sum id (max required) (yolo_checked_add off 1 ''YOLO objectness feature extent'')))))"

definition validate_spec :: "YoloPoseOutputSpec \<Rightarrow> unit result" where
  "validate_spec spec = check_all
     [throw_if (ys_class_count spec = 0) (ConfigurationError ''YOLO pose output class_count must be positive''),
      throw_if (ys_keypoint_count spec \<noteq> 4) (ConfigurationError ''plate YOLO pose parser requires exactly four keypoints''),
      throw_if (ys_keypoint_stride spec < 2 \<or> ys_keypoint_stride spec \<le> ys_keypoint_x_offset spec \<or>
          ys_keypoint_stride spec \<le> ys_keypoint_y_offset spec)
        (ConfigurationError ''YOLO keypoint stride/coordinate offsets are invalid''),
      throw_if (case ys_keypoint_confidence_offset spec of None \<Rightarrow> False | Some off \<Rightarrow> ys_keypoint_stride spec \<le> off)
        (ConfigurationError ''YOLO keypoint confidence offset exceeds keypoint stride''),
      throw_if (\<not> is_finite (ys_confidence_threshold spec) \<or> flt (ys_confidence_threshold spec) (Fin 0) \<or>
          flt (Fin 1) (ys_confidence_threshold spec) \<or> \<not> is_finite (ys_nms_iou_threshold spec) \<or>
          flt (ys_nms_iou_threshold spec) (Fin 0) \<or> flt (Fin 1) (ys_nms_iou_threshold spec))
        (ConfigurationError ''YOLO confidence/NMS thresholds must be finite probabilities''),
      throw_if (ys_maximum_detections spec = 0 \<or> 4096 < ys_maximum_detections spec)
        (ConfigurationError ''YOLO maximum_detections must be in [1, 4096]''),
      throw_if (ys_provider_name spec = []) (ConfigurationError ''YOLO provider_name cannot be empty''),
      map_sum id (\<lambda>_. ()) (required_features spec)]"

definition make_yolo_parser :: "YoloPoseOutputSpec \<Rightarrow> YoloPoseOutputSpec result" where
  "make_yolo_parser spec = res_bind (validate_spec spec) (\<lambda>_. Inr spec)"

section \<open>One candidate\<close>

definition finite_probability :: "fl \<Rightarrow> fl" where
  "finite_probability v = (if is_finite v then fclamp v (Fin 0) (Fin 1) else Fin 0)"

definition float_of_size :: "64 word \<Rightarrow> fl" where
  "float_of_size n = float_of_nat binary32 (unat n)"

definition source_x :: "fl \<Rightarrow> LetterboxMetadata \<Rightarrow> fl" where
  "source_x x md = fclamp (div32 (sub32 x (float_of_size (lb_pad_left md))) (lb_scale md)) (Fin 0) (float_of_size (lb_source_width md))"

definition source_y :: "fl \<Rightarrow> LetterboxMetadata \<Rightarrow> fl" where
  "source_y y md = fclamp (div32 (sub32 y (float_of_size (lb_pad_top md))) (lb_scale md)) (Fin 0) (float_of_size (lb_source_height md))"

definition class_confidence :: "YoloPoseOutputSpec \<Rightarrow> OutputMatrix \<Rightarrow> 64 word \<Rightarrow> fl result" where
  "class_confidence spec m candidate =
     res_fold (\<lambda>class_index best.
         res_bind (matrix_at m (ys_class_score_offset spec + of_nat class_index) candidate) (\<lambda>v.
         Inr (fmax best (finite_probability v))))
       [0..<unat (ys_class_count spec)] (Fin 0)"

definition objectness :: "YoloPoseOutputSpec \<Rightarrow> OutputMatrix \<Rightarrow> 64 word \<Rightarrow> fl result" where
  "objectness spec m candidate =
     (case ys_objectness_offset spec of None \<Rightarrow> Inr (Fin 1)
      | Some off \<Rightarrow> map_sum id finite_probability (matrix_at m off candidate))"

text \<open>The loop over the keypoints; a coordinate that is not finite breaks out of it without a quadrilateral.\<close>

fun keypoint_loop :: "YoloPoseOutputSpec \<Rightarrow> OutputMatrix \<Rightarrow> LetterboxMetadata \<Rightarrow> 64 word \<Rightarrow> fl \<Rightarrow> nat list \<Rightarrow>
    PlateQuadrilateral \<Rightarrow> PlateQuadrilateral option result" where
  "keypoint_loop spec m md candidate conf [] q = Inr (Some q)"
| "keypoint_loop spec m md candidate conf (point # points) q =
     (let base = ys_keypoint_offset spec + of_nat point * ys_keypoint_stride spec in
      res_bind (matrix_at m (base + ys_keypoint_x_offset spec) candidate) (\<lambda>model_x.
      res_bind (matrix_at m (base + ys_keypoint_y_offset spec) candidate) (\<lambda>model_y.
      if \<not> is_finite model_x \<or> \<not> is_finite model_y then Inr None
      else res_bind (case ys_keypoint_confidence_offset spec of None \<Rightarrow> Inr conf
             | Some off \<Rightarrow> map_sum id finite_probability (matrix_at m (base + off) candidate)) (\<lambda>point_confidence.
        keypoint_loop spec m md candidate conf points
          \<lparr>quad_points = (quad_points q)[point := \<lparr>pt_x = source_x model_x md, pt_y = source_y model_y md\<rparr>],
           quad_confidences = (quad_confidences q)[point := point_confidence]\<rparr>))))"

definition empty_quadrilateral :: PlateQuadrilateral where
  "empty_quadrilateral = \<lparr>quad_points = replicate 4 \<lparr>pt_x = Fin 0, pt_y = Fin 0\<rparr>, quad_confidences = replicate 4 (Fin 0)\<rparr>"

record RankedDetection =
  rd_detection :: Detection
  rd_source_index :: nat

text \<open>The box of a candidate in image coordinates, or \<open>None\<close> where the loop continues without it.\<close>

definition source_box :: "LetterboxMetadata \<Rightarrow> fl \<Rightarrow> fl \<Rightarrow> fl \<Rightarrow> fl \<Rightarrow> BoundingBox option" where
  "source_box md cx cy width height =
     (if \<not> is_finite cx \<or> \<not> is_finite cy \<or> \<not> is_finite width \<or> \<not> is_finite height \<or> fle width (Fin 0) \<or> fle height (Fin 0)
      then None
      else
        let half_width = mul32 width (Fin (1/2)); half_height = mul32 height (Fin (1/2));
            x1 = source_x (sub32 cx half_width) md; y1 = source_y (sub32 cy half_height) md;
            x2 = source_x (add32 cx half_width) md; y2 = source_y (add32 cy half_height) md
        in if fle x2 x1 \<or> fle y2 y1 then None
           else Some \<lparr>bb_x = x1, bb_y = y1, bb_width = sub32 x2 x1, bb_height = sub32 y2 y1\<rparr>)"

definition parse_candidate :: "YoloPoseOutputSpec \<Rightarrow> OutputMatrix \<Rightarrow> LetterboxMetadata \<Rightarrow> nat \<Rightarrow> RankedDetection list \<Rightarrow>
    RankedDetection list result" where
  "parse_candidate spec m md index candidates =
     (let candidate = of_nat index in
      res_bind (class_confidence spec m candidate) (\<lambda>class_conf.
      res_bind (objectness spec m candidate) (\<lambda>object_conf.
      let confidence = mul32 class_conf object_conf in
      if flt confidence (ys_confidence_threshold spec) then Inr candidates
      else
        res_bind (matrix_at m (ys_box_offset spec) candidate) (\<lambda>cx.
        res_bind (matrix_at m (ys_box_offset spec + 1) candidate) (\<lambda>cy.
        res_bind (matrix_at m (ys_box_offset spec + 2) candidate) (\<lambda>width.
        res_bind (matrix_at m (ys_box_offset spec + 3) candidate) (\<lambda>height.
        case source_box md cx cy width height of
          None \<Rightarrow> Inr candidates
        | Some bbox \<Rightarrow>
          res_bind (keypoint_loop spec m md candidate confidence [0..<unat (ys_keypoint_count spec)] empty_quadrilateral) (\<lambda>quad.
          Inr (candidates @ [\<lparr>rd_detection = \<lparr>det_bbox = bbox, det_quadrilateral = quad, det_confidence = confidence,
              det_geometry_score = Fin 0, det_provider = ys_provider_name spec\<rparr>, rd_source_index = index\<rparr>])))))))))"

section \<open>Suppression\<close>

definition intersection_over_union :: "BoundingBox \<Rightarrow> BoundingBox \<Rightarrow> fl" where
  "intersection_over_union left right =
     (if \<not> bbox_is_valid left \<or> \<not> bbox_is_valid right then Fin 0
      else
        let left_x2 = add32 (bb_x left) (bb_width left); left_y2 = add32 (bb_y left) (bb_height left);
            right_x2 = add32 (bb_x right) (bb_width right); right_y2 = add32 (bb_y right) (bb_height right)
        in if \<not> is_finite left_x2 \<or> \<not> is_finite left_y2 \<or> \<not> is_finite right_x2 \<or> \<not> is_finite right_y2 then Fin 0
           else
             let intersection_width = fmax (Fin 0) (sub32 (fmin left_x2 right_x2) (fmax (bb_x left) (bb_x right)));
                 intersection_height = fmax (Fin 0) (sub32 (fmin left_y2 right_y2) (fmax (bb_y left) (bb_y right)));
                 intersection = mul32 intersection_width intersection_height;
                 union_area = sub32 (add32 (bbox_area left) (bbox_area right)) intersection
             in if fle union_area (Fin 0) \<or> \<not> is_finite union_area then Fin 0
                else fclamp (div32 intersection union_area) (Fin 0) (Fin 1))"

definition overlaps_kept :: "YoloPoseOutputSpec \<Rightarrow> RankedDetection \<Rightarrow> Detection \<Rightarrow> bool" where
  "overlaps_kept spec c accepted =
     flt (ys_nms_iou_threshold spec) (intersection_over_union (det_bbox (rd_detection c)) (det_bbox accepted))"

fun nms_loop :: "YoloPoseOutputSpec \<Rightarrow> RankedDetection list \<Rightarrow> Detection list \<Rightarrow> Detection list" where
  "nms_loop spec [] kept = kept"
| "nms_loop spec (c # cs) kept =
     (if list_ex (overlaps_kept spec c) kept then nms_loop spec cs kept
      else let kept = kept @ [rd_detection c]
           in if unat (ys_maximum_detections spec) \<le> length kept then kept else nms_loop spec cs kept)"

definition ranked_order :: "RankedDetection \<Rightarrow> RankedDetection \<Rightarrow> bool" where
  "ranked_order = before_by (\<lambda>r. det_confidence (rd_detection r)) rd_source_index"

definition yolo_parse :: "YoloPoseOutputSpec \<Rightarrow> fl list \<Rightarrow> 64 word list \<Rightarrow> LetterboxMetadata \<Rightarrow> Detection list result" where
  "yolo_parse spec output shape md =
     (if output = [] then Inr []
      else if \<not> is_finite (lb_scale md) \<or> fle (lb_scale md) (Fin 0) \<or> lb_source_width md = 0 \<or> lb_source_height md = 0
      then Inl (InferenceError ''YOLO letterbox metadata is invalid'')
      else res_bind (resolve_matrix output shape (ys_layout spec)) (\<lambda>m.
        res_bind (required_features spec) (\<lambda>required.
        if om_features m < required
        then Inl (InferenceError ''YOLO output has fewer feature columns than configured parser contract'')
        else res_bind (res_fold (parse_candidate spec m md) [0..<unat (om_candidates m)] []) (\<lambda>candidates.
          Inr (nms_loop spec (stable_sort ranked_order candidates) [])))))"

section \<open>The contract\<close>

lemma yolo_checked_add_Inr:
  "yolo_checked_add a b f = Inr c \<longleftrightarrow> unat a + unat b < 2 ^ 64 \<and> c = a + b \<and> unat c = unat a + unat b"
  using checked_add_Inr [of a b f c] by (simp add: checked_add_def yolo_checked_add_def split: if_splits)

lemma yolo_checked_multiply_Inr:
  "yolo_checked_multiply a b f = Inr c \<longleftrightarrow> unat a * unat b < 2 ^ 64 \<and> c = a * b \<and> unat c = unat a * unat b"
  using checked_multiply_Inr [of a b f c] by (cases "a \<noteq> 0 \<and> b > size_max div a") (auto simp: checked_multiply_def yolo_checked_multiply_def)

lemma checked_dimension_Inr: "checked_dimension v field = Inr d \<longleftrightarrow> 0 < sint v \<and> d = v"
  by (auto simp: checked_dimension_def size_max_def not_less)

text \<open>The feature columns that the configured layout reads.\<close>

definition layout_fits :: "YoloPoseOutputSpec \<Rightarrow> nat \<Rightarrow> bool" where
  "layout_fits spec features \<longleftrightarrow>
     unat (ys_box_offset spec) + 4 \<le> features \<and>
     unat (ys_class_score_offset spec) + unat (ys_class_count spec) \<le> features \<and>
     unat (ys_keypoint_offset spec) + unat (ys_keypoint_count spec) * unat (ys_keypoint_stride spec) \<le> features \<and>
     (case ys_objectness_offset spec of None \<Rightarrow> True | Some off \<Rightarrow> unat off + 1 \<le> features)"

lemma unat_max: "unat (max a b :: 64 word) = max (unat a) (unat b)"
  by (simp add: max_def word_le_nat_alt)

lemma map_sum_max_Inr: "map_sum id (max r) x = Inr z \<longleftrightarrow> (\<exists>y. x = Inr y \<and> z = max r y)"
  by (cases x) auto

lemma required_features_fits:
  assumes "required_features spec = Inr required"
  shows "required \<le> features \<longleftrightarrow> layout_fits spec (unat features)"
proof -
  obtain a b k c where
    a: "yolo_checked_add (ys_box_offset spec) 4 ''YOLO box feature extent'' = Inr a" and
    b: "yolo_checked_add (ys_class_score_offset spec) (ys_class_count spec) ''YOLO class feature extent'' = Inr b" and
    k: "yolo_checked_multiply (ys_keypoint_count spec) (ys_keypoint_stride spec) ''YOLO keypoint feature span'' = Inr k" and
    c: "yolo_checked_add (ys_keypoint_offset spec) k ''YOLO keypoint feature extent'' = Inr c" and
    r: "(case ys_objectness_offset spec of None \<Rightarrow> Inr (max (max a b) c)
     | Some off \<Rightarrow> map_sum id (max (max (max a b) c)) (yolo_checked_add off 1 ''YOLO objectness feature extent'')) = Inr required"
    using assms unfolding required_features_def res_bind_eq_Inr map_sum_max_Inr by blast
  have ua: "unat a = unat (ys_box_offset spec) + 4" using a unfolding yolo_checked_add_Inr by (elim conjE) simp
  have ub: "unat b = unat (ys_class_score_offset spec) + unat (ys_class_count spec)" using b unfolding yolo_checked_add_Inr by (elim conjE)
  have uc: "unat c = unat (ys_keypoint_offset spec) + unat (ys_keypoint_count spec) * unat (ys_keypoint_stride spec)"
    using c k unfolding yolo_checked_add_Inr yolo_checked_multiply_Inr by metis
  show ?thesis
  proof (cases "ys_objectness_offset spec")
    case None
    with r have "required = max (max a b) c" by simp
    then have "unat required = max (max (unat a) (unat b)) (unat c)" by (simp only: unat_max)
    then show ?thesis unfolding layout_fits_def word_le_nat_alt None ua [symmetric] ub [symmetric] uc [symmetric] by simp
  next
    case (Some off)
    with r obtain d where d: "yolo_checked_add off 1 ''YOLO objectness feature extent'' = Inr d" "required = max (max (max a b) c) d"
      by (auto simp: map_sum_max_Inr)
    have ud: "unat d = unat off + 1" using d(1) unfolding yolo_checked_add_Inr by (elim conjE) simp
    have "unat required = max (max (max (unat a) (unat b)) (unat c)) (unat d)" unfolding d(2) by (simp only: unat_max)
    then show ?thesis unfolding layout_fits_def word_le_nat_alt Some ua [symmetric] ub [symmetric] uc [symmetric] option.case ud [symmetric]
      by simp
  qed
qed

text \<open>A resolved matrix holds one element per feature and candidate.\<close>

definition matrix_ok :: "OutputMatrix \<Rightarrow> bool" where
  "matrix_ok m \<longleftrightarrow> unat (om_features m) * unat (om_candidates m) = length (om_data m) \<and> length (om_data m) < 2 ^ 64"

definition element :: "OutputMatrix \<Rightarrow> nat \<Rightarrow> nat \<Rightarrow> fl" where
  "element m f c = om_data m ! (if om_layout m = features_first then f * unat (om_candidates m) + c else c * unat (om_features m) + f)"

lemma row_major_bound: "f < F \<Longrightarrow> c < C \<Longrightarrow> f * C + c < F * (C :: nat)"
proof -
  assume "f < F" "c < C"
  then have "f * C + c < f * C + C" by simp
  also have "\<dots> = (f + 1) * C" by simp
  also have "\<dots> \<le> F * C" using \<open>f < F\<close> by (intro mult_right_mono) simp_all
  finally show ?thesis .
qed

lemma row_major_word:
  assumes "unat f < F" and "unat c < unat C" and "F * unat C < 2 ^ 64"
  shows "unat (f * C + c :: 64 word) = unat f * unat C + unat c"
proof -
  have lt: "unat f * unat C + unat c < 2 ^ 64" using row_major_bound [OF assms(1,2)] assms(3) by linarith
  then have "unat (f * C) = unat f * unat C" by (intro unat_mult_exact) linarith
  with lt show ?thesis by (subst unat_add_exact) simp_all
qed

definition element_index :: "OutputMatrix \<Rightarrow> nat \<Rightarrow> nat \<Rightarrow> nat" where
  "element_index m f c = (if om_layout m = features_first then f * unat (om_candidates m) + c else c * unat (om_features m) + f)"

lemma element_index_less:
  assumes "matrix_ok m" and "f < unat (om_features m)" and "c < unat (om_candidates m)"
  shows "element_index m f c < length (om_data m)"
  using row_major_bound [OF assms(2,3)] row_major_bound [OF assms(3,2)] assms(1)
  by (simp add: element_index_def matrix_ok_def mult.commute)

lemma matrix_at_element:
  assumes "matrix_ok m" and "unat f < unat (om_features m)" and "unat c < unat (om_candidates m)"
  shows "matrix_at m f c = Inr (element m (unat f) (unat c))"
proof -
  have "unat (f * om_candidates m + c) = unat f * unat (om_candidates m) + unat c"
    by (rule row_major_word [OF assms(2,3)]) (use assms(1) in \<open>simp add: matrix_ok_def\<close>)
  moreover have "unat (c * om_features m + f) = unat c * unat (om_features m) + unat f"
    by (rule row_major_word [OF assms(3,2)]) (use assms(1) in \<open>simp add: matrix_ok_def mult.commute\<close>)
  ultimately show ?thesis using assms(2,3) element_index_less [OF assms]
    by (auto simp: matrix_at_def element_def element_index_def word_le_nat_alt Let_def split: if_splits)
qed

lemma matrix_dimensions_Inr:
  "matrix_dimensions shape = Inr (f, s) \<longleftrightarrow> (shape = [1, f, s] \<or> shape = [f, s]) \<and> 0 < sint f \<and> 0 < sint s"
proof -
  have three: "length shape = 3 \<longleftrightarrow> (\<exists>a b c. shape = [a, b, c])" by (auto simp: length_Suc_conv numeral_3_eq_3)
  have two: "length shape = 2 \<longleftrightarrow> (\<exists>a b. shape = [a, b])" by (auto simp: length_Suc_conv numeral_2_eq_2)
  consider a b c where "shape = [a, b, c]" | a b where "shape = [a, b]" | "length shape \<noteq> 3" "length shape \<noteq> 2"
    using two three by blast
  then show ?thesis
  proof cases
    case 3
    then show ?thesis by (auto simp: matrix_dimensions_def)
  qed (auto simp: matrix_dimensions_def res_bind_eq_Inr checked_dimension_Inr)
qed

definition shape_fits :: "64 word list \<Rightarrow> 64 word \<Rightarrow> 64 word \<Rightarrow> nat \<Rightarrow> bool" where
  "shape_fits shape first second elements \<longleftrightarrow>
     (shape = [1, first, second] \<or> shape = [first, second]) \<and> 0 < sint first \<and> 0 < sint second \<and>
     unat first * unat second = elements"

definition matrix_of :: "CandidateLayout \<Rightarrow> 64 word \<Rightarrow> 64 word \<Rightarrow> fl list \<Rightarrow> OutputMatrix" where
  "matrix_of layout first second output =
     \<lparr>om_features = (if layout = features_first then first else second),
      om_candidates = (if layout = features_first then second else first), om_layout = layout, om_data = output\<rparr>"

lemma resolve_matrix_Inr:
  assumes "length output < 2 ^ 64"
  shows "resolve_matrix output shape layout = Inr m \<longleftrightarrow>
    (\<exists>first second. shape_fits shape first second (length output) \<and> m = matrix_of layout first second output)"
proof -
  have fits: "\<not> (f > size_max div s \<or> unat (f * s) \<noteq> length output) \<longleftrightarrow> unat f * unat s = length output"
    if "0 < sint s" for f s :: "64 word"
  proof -
    have "s \<noteq> 0" using that by auto
    then have "f > size_max div s \<longleftrightarrow> \<not> unat s * unat f < 2 ^ 64"
      using checked_multiply_Inr [of s f "[]" "s * f"] unat_mult_exact [of s f] by (auto simp: checked_multiply_def split: if_splits)
    then show ?thesis using assms unat_mult_exact [of f s] by (auto simp: mult.commute)
  qed
  show ?thesis
    unfolding resolve_matrix_def res_bind_eq_Inr split_paired_Ex matrix_dimensions_Inr prod.case
    using fits by (auto simp: shape_fits_def matrix_of_def split: if_splits)
qed

lemma matrix_of_ok: "unat f * unat s = length output \<Longrightarrow> length output < 2 ^ 64 \<Longrightarrow> matrix_ok (matrix_of layout f s output)"
  by (simp add: matrix_ok_def matrix_of_def mult.commute)

lemma resolve_matrix_Inl: "resolve_matrix output shape layout = Inl e \<Longrightarrow> \<exists>msg. e = InferenceError msg"
  by (auto simp: resolve_matrix_def matrix_dimensions_def checked_dimension_def res_bind_eq_Inl split: if_split_asm)

section \<open>A candidate in image coordinates\<close>

lemma spec_ok:
  assumes "validate_spec spec = Inr u"
  shows "ys_keypoint_count spec = 4" "is_prob (ys_confidence_threshold spec)" "is_prob (ys_nms_iou_threshold spec)"
    "0 < unat (ys_maximum_detections spec)" "unat (ys_maximum_detections spec) \<le> 4096"
    "unat (ys_keypoint_x_offset spec) < unat (ys_keypoint_stride spec)"
    "unat (ys_keypoint_y_offset spec) < unat (ys_keypoint_stride spec)"
    "ys_keypoint_confidence_offset spec = Some off \<Longrightarrow> unat off < unat (ys_keypoint_stride spec)"
    "\<exists>required. required_features spec = Inr required" "ys_provider_name spec \<noteq> []"
proof -
  have c: "\<not> ys_class_count spec = 0" "\<not> ys_keypoint_count spec \<noteq> 4"
    "\<not> (ys_keypoint_stride spec < 2 \<or> ys_keypoint_stride spec \<le> ys_keypoint_x_offset spec \<or> ys_keypoint_stride spec \<le> ys_keypoint_y_offset spec)"
    "\<not> (case ys_keypoint_confidence_offset spec of None \<Rightarrow> False | Some off \<Rightarrow> ys_keypoint_stride spec \<le> off)"
    "\<not> (\<not> is_finite (ys_confidence_threshold spec) \<or> flt (ys_confidence_threshold spec) (Fin 0) \<or>
          flt (Fin 1) (ys_confidence_threshold spec) \<or> \<not> is_finite (ys_nms_iou_threshold spec) \<or>
          flt (ys_nms_iou_threshold spec) (Fin 0) \<or> flt (Fin 1) (ys_nms_iou_threshold spec))"
    "\<not> (ys_maximum_detections spec = 0 \<or> 4096 < ys_maximum_detections spec)" "\<not> ys_provider_name spec = []"
    "map_sum id (\<lambda>_. ()) (required_features spec) = Inr ()"
    using assms unfolding validate_spec_def check_all_eq_Inr by (simp_all add: throw_if_eq)
  show "ys_keypoint_count spec = 4" "is_prob (ys_confidence_threshold spec)" "is_prob (ys_nms_iou_threshold spec)" "ys_provider_name spec \<noteq> []"
    using c by (simp_all add: is_prob_def)
  show "unat (ys_keypoint_x_offset spec) < unat (ys_keypoint_stride spec)"
    "unat (ys_keypoint_y_offset spec) < unat (ys_keypoint_stride spec)"
    using c(3) by (simp_all add: word_le_nat_alt not_le)
  show "unat off < unat (ys_keypoint_stride spec)" if "ys_keypoint_confidence_offset spec = Some off"
    using c(4) that by (simp add: word_le_nat_alt not_le)
  show "0 < unat (ys_maximum_detections spec)" "unat (ys_maximum_detections spec) \<le> 4096"
    using c(6) by (simp_all add: unat_gt_0 word_less_nat_alt not_less)
  show "\<exists>required. required_features spec = Inr required" using c(8) by (auto dest: map_sum_Inr_obtain)
qed

lemma finite_probability_prob: "is_prob (finite_probability v)"
  using prob_clamp01 [of v] by (auto simp: finite_probability_def clamp01_def is_finite_iff)

text \<open>Reading the columns never fails once the layout fits.\<close>

definition readable :: "YoloPoseOutputSpec \<Rightarrow> OutputMatrix \<Rightarrow> bool" where
  "readable spec m \<longleftrightarrow> matrix_ok m \<and> layout_fits spec (unat (om_features m))"

lemma matrix_at_offset:
  assumes "matrix_ok m" and "unat off + n < unat (om_features m)" and "unat c < unat (om_candidates m)"
  shows "matrix_at m (off + of_nat n) c = Inr (element m (unat off + n) (unat c))"
proof -
  have lt: "unat off + n < 2 ^ 64" using assms(2) unat_less_2_64 [of "om_features m"] by linarith
  then have n: "unat (of_nat n :: 64 word) = n" by (simp add: unat_of_nat)
  with lt have "unat (off + of_nat n) = unat off + n" by (subst unat_add_exact) simp_all
  with matrix_at_element [OF assms(1), of "off + of_nat n" c] assms(2,3) show ?thesis by simp
qed

lemma class_confidence_reads:
  assumes "readable spec m" and "unat c < unat (om_candidates m)"
  shows "\<exists>v. class_confidence spec m c = Inr v \<and> is_prob v"
proof -
  have "\<exists>v. res_fold (\<lambda>class_index best.
         res_bind (matrix_at m (ys_class_score_offset spec + of_nat class_index) c) (\<lambda>v.
         Inr (fmax best (finite_probability v)))) ks b = Inr v \<and> is_prob v"
    if "\<forall>k \<in> set ks. k < unat (ys_class_count spec)" "is_prob b" for ks b
    using that
  proof (induction ks arbitrary: b)
    case (Cons k ks)
    have "matrix_at m (ys_class_score_offset spec + of_nat k) c = Inr (element m (unat (ys_class_score_offset spec) + k) (unat c))"
      by (rule matrix_at_offset) (use assms Cons.prems in \<open>auto simp: readable_def layout_fits_def\<close>)
    with Cons.IH [of "fmax b (finite_probability (element m (unat (ys_class_score_offset spec) + k) (unat c)))"] Cons.prems
      prob_fmax [OF Cons.prems(2) finite_probability_prob]
    show ?case by simp
  qed simp
  from this [of "[0..<unat (ys_class_count spec)]" "Fin 0"] show ?thesis by (simp add: class_confidence_def)
qed

lemma objectness_reads:
  assumes "readable spec m" and "unat c < unat (om_candidates m)"
  shows "\<exists>v. objectness spec m c = Inr v \<and> is_prob v"
proof (cases "ys_objectness_offset spec")
  case (Some off)
  have "matrix_at m off c = Inr (element m (unat off) (unat c))"
    by (rule matrix_at_element) (use assms Some in \<open>auto simp: readable_def layout_fits_def\<close>)
  with Some show ?thesis by (simp add: objectness_def finite_probability_prob)
qed (simp add: objectness_def)

text \<open>A source coordinate is in the image.\<close>

definition inside_x :: "LetterboxMetadata \<Rightarrow> fl \<Rightarrow> bool" where
  "inside_x md v \<longleftrightarrow> fle (Fin 0) v \<and> fle v (float_of_size (lb_source_width md))"

definition inside_y :: "LetterboxMetadata \<Rightarrow> fl \<Rightarrow> bool" where
  "inside_y md v \<longleftrightarrow> fle (Fin 0) v \<and> fle v (float_of_size (lb_source_height md))"

lemma float_of_size_Fin: "\<exists>z. float_of_size n = Fin z \<and> 0 \<le> z"
proof -
  have "of_nat (unat n) \<le> (of_nat (2 ^ 64) :: rat)" using unat_less_2_64 [of n] by (simp only: of_nat_le_iff)
  then have "round_rat binary32 (of_nat (unat n)) \<le> round_rat binary32 (pow2 64)"
    by (intro b32.round_mono) (simp add: pow2_def)
  also have "\<dots> = pow2 64" by (rule b32.round_pow2) (simp add: binary32_def)
  also have "\<dots> \<le> largest binary32" by (simp add: largest_def binary32_def pow2_def)
  finally have "round_rat binary32 (of_nat (unat n)) \<le> largest binary32" .
  moreover have "0 \<le> round_rat binary32 (of_nat (unat n))" by (rule round_rat_nonneg [OF of_nat_0_le_iff])
  moreover have "0 \<le> largest binary32" by (simp add: largest_def binary32_def)
  ultimately show ?thesis by (simp add: float_of_size_def float_of_nat_def round_fl_def)
qed

lemma fclamp_between: "v \<noteq> NaN \<Longrightarrow> fle lo hi \<Longrightarrow> fle lo (fclamp v lo hi) \<and> fle (fclamp v lo hi) hi"
  using fle_not_NaN [of lo hi] by (auto simp: fclamp_def not_flt)

lemma source_coordinate:
  assumes "x \<noteq> NaN" and "is_finite scale" and "flt (Fin 0) scale"
  shows "div32 (sub32 x (float_of_size pad)) scale \<noteq> NaN"
proof -
  obtain p where p: "float_of_size pad = Fin p" using float_of_size_Fin by blast
  obtain s where s: "scale = Fin s" "0 < s" using assms(2,3) by (auto simp: is_finite_iff)
  have "sub32 x (Fin p) \<noteq> NaN" using assms(1) by (cases x) (simp_all add: fsub_def)
  then show ?thesis unfolding p s(1) using s(2) by (cases "sub32 x (Fin p)") (auto simp: signed_inf_def)
qed

definition letterbox_ok :: "LetterboxMetadata \<Rightarrow> bool" where
  "letterbox_ok md \<longleftrightarrow> is_finite (lb_scale md) \<and> flt (Fin 0) (lb_scale md) \<and> lb_source_width md \<noteq> 0 \<and> lb_source_height md \<noteq> 0"

lemma source_x_inside: "letterbox_ok md \<Longrightarrow> x \<noteq> NaN \<Longrightarrow> inside_x md (source_x x md)"
  and source_y_inside: "letterbox_ok md \<Longrightarrow> x \<noteq> NaN \<Longrightarrow> inside_y md (source_y x md)"
  using float_of_size_Fin [of "lb_source_width md"] float_of_size_Fin [of "lb_source_height md"]
    fclamp_between [OF source_coordinate [of x "lb_scale md" "lb_pad_left md"], of "Fin 0" "float_of_size (lb_source_width md)"]
    fclamp_between [OF source_coordinate [of x "lb_scale md" "lb_pad_top md"], of "Fin 0" "float_of_size (lb_source_height md)"]
  by (auto simp: inside_x_def inside_y_def source_x_def source_y_def letterbox_ok_def)

text \<open>
  The width of a box is a difference of two floats, hence a multiple of the least positive float, and does not
  round to zero.
\<close>

lemma round_multiple: "\<exists>k. round_rat F x = of_int k * pow2 (min_exp F)"
proof (cases "x = 0")
  case True
  then show ?thesis by (intro exI [of _ 0]) simp
next
  case False
  define e where "e = last_place_exp F x"
  have le: "min_exp F \<le> e" by (simp add: e_def last_place_exp_def)
  have "pow2 e = pow2 (e - min_exp F) * pow2 (min_exp F)" by (simp add: pow2_add [symmetric])
  also have "pow2 (e - min_exp F) = of_int (2 ^ nat (e - min_exp F))" using le by (simp add: pow2_of_nonneg)
  finally have "round_rat F x = of_int (round_half_even (x / pow2 e) * 2 ^ nat (e - min_exp F)) * pow2 (min_exp F)"
    using False by (simp add: round_rat_def e_def)
  then show ?thesis by blast
qed

lemma least_positive_float: "round_rat binary32 (pow2 (min_exp binary32)) = pow2 (min_exp binary32)"
  using b32.round_grid [of 1 "min_exp binary32"] by (simp add: last_place_exp_def binary32_def)

lemma float_difference:
  assumes "is_float a" and "is_float b" and "flt a b" and "fle (Fin 0) a" and "is_finite b"
  shows "\<exists>z. sub32 b a = Fin z \<and> 0 < z \<and> fle (Fin z) b"
proof -
  from assms obtain x y where x: "a = Fin x" "round_rat binary32 x = x" and y: "b = Fin y" "round_rat binary32 y = y" "y \<le> largest binary32"
    using fle_not_NaN [of "Fin 0" a] by (cases a; cases b) (auto simp: is_float_Fin)
  from round_multiple [of binary32 x] obtain k where k: "x = of_int k * pow2 (min_exp binary32)" unfolding x(2) by blast
  from round_multiple [of binary32 y] obtain l where l: "y = of_int l * pow2 (min_exp binary32)" unfolding y(2) by blast
  have lt: "x < y" "0 \<le> x" using assms(3,4) x y by simp_all
  have "k < l" using lt(1) unfolding k l by (simp add: mult_less_cancel_right)
  then have "1 \<le> l - k" by simp
  then have "(1 :: rat) \<le> of_int (l - k)" by (simp only: of_int_1_le_iff)
  then have "1 * pow2 (min_exp binary32) \<le> of_int (l - k) * pow2 (min_exp binary32)" by (intro mult_right_mono) simp_all
  then have ge: "pow2 (min_exp binary32) \<le> y - x" unfolding k l by (simp add: left_diff_distrib)
  have "pow2 (min_exp binary32) \<le> round_rat binary32 (y - x)" using b32.round_mono [OF ge] least_positive_float by simp
  then have pos: "0 < round_rat binary32 (y - x)" using pow2_pos less_le_trans by blast
  have le: "round_rat binary32 (y - x) \<le> y" using b32.round_mono [of "y - x" y] lt(2) y(2) by simp
  have "sub32 b a = Fin (round_rat binary32 (y - x))"
    using le pos x y by (simp add: fsub_def round_fl_def Let_def)
  with pos le y(1) show ?thesis by auto
qed

lemma float_of_size_float: "is_float (float_of_size n)"
  by (simp add: float_of_size_def float_of_nat_def is_float_round)

lemma source_float: "is_float (source_x x md)" "is_float (source_y x md)"
  unfolding source_x_def source_y_def by (intro is_float_arith float_of_size_float)+

lemma inside_finite: "inside_x md v \<Longrightarrow> is_finite v" "inside_y md v \<Longrightarrow> is_finite v"
  using float_of_size_Fin [of "lb_source_width md"] float_of_size_Fin [of "lb_source_height md"]
  by (cases v; auto simp: inside_x_def inside_y_def)+

text \<open>A box that a candidate yields is valid and inside the image, and its sides are floats.\<close>

definition box_inside :: "LetterboxMetadata \<Rightarrow> BoundingBox \<Rightarrow> bool" where
  "box_inside md b \<longleftrightarrow> bbox_is_valid b \<and> inside_x md (bb_x b) \<and> inside_y md (bb_y b) \<and>
     inside_x md (bb_width b) \<and> inside_y md (bb_height b) \<and>
     is_float (bb_x b) \<and> is_float (bb_y b) \<and> is_float (bb_width b) \<and> is_float (bb_height b)"

lemma add_finite_not_NaN: "is_finite a \<Longrightarrow> b \<noteq> NaN \<Longrightarrow> add32 a b \<noteq> NaN \<and> sub32 a b \<noteq> NaN"
  by (cases b) (auto simp: is_finite_iff fsub_def)

lemma source_box_inside:
  assumes md: "letterbox_ok md" and "source_box md cx cy w h = Some b"
  shows "box_inside md b"
proof -
  let ?x1 = "source_x (sub32 cx (mul32 w (Fin (1/2)))) md" and ?x2 = "source_x (add32 cx (mul32 w (Fin (1/2)))) md"
  let ?y1 = "source_y (sub32 cy (mul32 h (Fin (1/2)))) md" and ?y2 = "source_y (add32 cy (mul32 h (Fin (1/2)))) md"
  have fin: "is_finite cx" "is_finite cy" "is_finite w" "is_finite h" and gt: "\<not> fle ?x2 ?x1" "\<not> fle ?y2 ?y1"
    and b: "b = \<lparr>bb_x = ?x1, bb_y = ?y1, bb_width = sub32 ?x2 ?x1, bb_height = sub32 ?y2 ?y1\<rparr>"
    using assms(2) unfolding source_box_def Let_def by (simp_all split: if_split_asm)
  have half: "mul32 w (Fin (1/2)) \<noteq> NaN" "mul32 h (Fin (1/2)) \<noteq> NaN" using fin by (auto simp: is_finite_iff)
  note in_x = source_x_inside [OF md] and in_y = source_y_inside [OF md]
  have x: "inside_x md ?x1" "inside_x md ?x2" and y: "inside_y md ?y1" "inside_y md ?y2"
    using add_finite_not_NaN [OF fin(1) half(1)] add_finite_not_NaN [OF fin(2) half(2)] by (auto intro: in_x in_y)
  have lt: "flt ?x1 ?x2" "flt ?y1 ?y2"
    using gt not_flt [of ?x1 ?x2] not_flt [of ?y1 ?y2] inside_finite(1) [OF x(1)] inside_finite(1) [OF x(2)]
      inside_finite(2) [OF y(1)] inside_finite(2) [OF y(2)] is_finite_not_NaN by blast+
  obtain z where z: "sub32 ?x2 ?x1 = Fin z" "0 < z" "fle (Fin z) ?x2"
    using float_difference [OF source_float(1) source_float(1) lt(1)] x inside_finite(1) by (auto simp: inside_x_def)
  obtain v where v: "sub32 ?y2 ?y1 = Fin v" "0 < v" "fle (Fin v) ?y2"
    using float_difference [OF source_float(2) source_float(2) lt(2)] y inside_finite(2) by (auto simp: inside_y_def)
  have fl: "is_float (sub32 ?x2 ?x1)" "is_float (sub32 ?y2 ?y1)" by (intro is_float_arith source_float)+
  have "inside_x md (Fin z)" "inside_y md (Fin v)"
    using z(2,3) v(2,3) x(2) y(2) by (auto simp: inside_x_def inside_y_def intro: fle_trans)
  with b x(1) y(1) z v fl source_float inside_finite(1) [OF x(1)] inside_finite(2) [OF y(1)] show ?thesis
    by (simp add: box_inside_def bbox_is_valid_def)
qed

definition quad_inside :: "LetterboxMetadata \<Rightarrow> PlateQuadrilateral \<Rightarrow> bool" where
  "quad_inside md q \<longleftrightarrow> quad_wf q \<and> (\<forall>p \<in> set (quad_points q). inside_x md (pt_x p) \<and> inside_y md (pt_y p)) \<and>
     (\<forall>c \<in> set (quad_confidences q). is_prob c)"

lemma empty_quadrilateral_inside: "quad_inside md empty_quadrilateral"
  using float_of_size_Fin [of "lb_source_width md"] float_of_size_Fin [of "lb_source_height md"]
  by (auto simp: quad_inside_def quad_wf_def empty_quadrilateral_def inside_x_def inside_y_def)

lemma keypoint_at:
  assumes "readable spec m" and "ys_keypoint_count spec = 4" and "point < 4" and "unat off < unat (ys_keypoint_stride spec)"
    and "unat c < unat (om_candidates m)"
  shows "\<exists>v. matrix_at m (ys_keypoint_offset spec + of_nat point * ys_keypoint_stride spec + off) c = Inr v"
proof -
  let ?k = "ys_keypoint_offset spec" and ?s = "ys_keypoint_stride spec"
  have fit: "unat ?k + 4 * unat ?s \<le> unat (om_features m)" using assms(1,2) by (simp add: readable_def layout_fits_def)
  have "(point + 1) * unat ?s \<le> 4 * unat ?s" using assms(3) by (intro mult_right_mono) simp_all
  then have lt: "unat ?k + (point * unat ?s + unat off) < unat (om_features m)"
    using fit assms(4) by (simp only: add_mult_distrib mult_1)
  have big: "unat (om_features m) < 2 ^ 64" by (rule unat_less_2_64)
  have p: "unat (of_nat point :: 64 word) = point" using assms(3) by (simp add: unat_of_nat)
  have "unat (of_nat point * ?s) = point * unat ?s" using lt big p by (subst unat_mult_exact) simp_all
  moreover have "unat (?k + of_nat point * ?s) = unat ?k + point * unat ?s"
    using lt big calculation by (subst unat_add_exact) simp_all
  ultimately have "unat (?k + of_nat point * ?s + off) = unat ?k + point * unat ?s + unat off"
    using lt big by (subst unat_add_exact) simp_all
  with matrix_at_element [of m "?k + of_nat point * ?s + off" c] assms(1,5) lt show ?thesis by (auto simp: readable_def)
qed

lemma keypoint_loop_inside:
  assumes "readable spec m" and valid: "validate_spec spec = Inr ()" and "unat c < unat (om_candidates m)" and md: "letterbox_ok md"
    and "is_prob conf" and "\<forall>p \<in> set points. p < 4" and "quad_inside md q"
  shows "\<exists>r. keypoint_loop spec m md c conf points q = Inr r \<and> (\<forall>q'. r = Some q' \<longrightarrow> quad_inside md q')"
  using assms(6,7)
proof (induction points arbitrary: q)
  case (Cons p points)
  note ok = spec_ok [OF valid]
  let ?at = "\<lambda>off. matrix_at m (ys_keypoint_offset spec + of_nat p * ys_keypoint_stride spec + off) c"
  have p: "p < 4" using Cons.prems(1) by simp
  note reads = keypoint_at [OF assms(1) ok(1) p _ assms(3)]
  obtain x y where xy: "?at (ys_keypoint_x_offset spec) = Inr x" "?at (ys_keypoint_y_offset spec) = Inr y"
    using reads [OF ok(6)] reads [OF ok(7)] by blast
  have "\<exists>k. (case ys_keypoint_confidence_offset spec of None \<Rightarrow> Inr conf | Some off \<Rightarrow> map_sum id finite_probability (?at off)) = Inr k \<and> is_prob k"
  proof (cases "ys_keypoint_confidence_offset spec")
    case (Some off)
    with reads [OF ok(8) [OF Some]] show ?thesis by (auto simp: finite_probability_prob)
  qed (use assms(5) in simp)
  then obtain k where k: "(case ys_keypoint_confidence_offset spec of None \<Rightarrow> Inr conf
      | Some off \<Rightarrow> map_sum id finite_probability (?at off)) = Inr k" "is_prob k" by blast
  let ?q = "\<lparr>quad_points = (quad_points q)[p := \<lparr>pt_x = source_x x md, pt_y = source_y y md\<rparr>],
    quad_confidences = (quad_confidences q)[p := k]\<rparr>"
  have step: "keypoint_loop spec m md c conf (p # points) q =
      (if \<not> is_finite x \<or> \<not> is_finite y then Inr None else keypoint_loop spec m md c conf points ?q)"
    by (simp add: xy k(1) Let_def del: id_apply)
  show ?case
  proof (cases "\<not> is_finite x \<or> \<not> is_finite y")
    case True
    then show ?thesis unfolding step by simp
  next
    case False
    then have "inside_x md (source_x x md)" "inside_y md (source_y y md)"
      using source_x_inside [OF md, of x] source_y_inside [OF md, of y] is_finite_not_NaN by blast+
    then have "quad_inside md ?q"
      using Cons.prems(2) k(2) set_update_subset_insert [of "quad_points q" p] set_update_subset_insert [of "quad_confidences q" p]
      by (fastforce simp: quad_inside_def quad_wf_def)
    with Cons.IH [of ?q] Cons.prems(1) False show ?thesis unfolding step by simp
  qed
qed simp

text \<open>What is known of a parsed candidate.\<close>

definition detection_inside :: "YoloPoseOutputSpec \<Rightarrow> LetterboxMetadata \<Rightarrow> Detection \<Rightarrow> bool" where
  "detection_inside spec md d \<longleftrightarrow> box_inside md (det_bbox d) \<and> (\<forall>q. det_quadrilateral d = Some q \<longrightarrow> quad_inside md q) \<and>
     is_prob (det_confidence d) \<and> fle (ys_confidence_threshold spec) (det_confidence d) \<and> det_provider d = ys_provider_name spec"

lemma parse_candidate_result:
  assumes "readable spec m" and valid: "validate_spec spec = Inr ()" and c: "i < unat (om_candidates m)" and md: "letterbox_ok md"
  shows "\<exists>xs. parse_candidate spec m md i cs = Inr (cs @ xs) \<and> length xs \<le> 1 \<and>
    (\<forall>r \<in> set xs. rd_source_index r = i \<and> detection_inside spec md (rd_detection r))"
proof -
  let ?c = "of_nat i :: 64 word"
  have "i < 2 ^ 64" using c unat_less_2_64 [of "om_candidates m"] by linarith
  then have lt: "unat ?c < unat (om_candidates m)" using c by (simp add: unat_of_nat)
  from class_confidence_reads [OF assms(1) lt] obtain u where u: "class_confidence spec m ?c = Inr u" "is_prob u" by blast
  from objectness_reads [OF assms(1) lt] obtain v where v: "objectness spec m ?c = Inr v" "is_prob v" by blast
  have conf: "is_prob (mul32 u v)" by (rule b32.prob_fmul [OF u(2) v(2)])
  note ok = spec_ok [OF valid]
  show ?thesis
  proof (cases "flt (mul32 u v) (ys_confidence_threshold spec)")
    case True
    then show ?thesis by (intro exI [of _ "[]"]) (simp add: parse_candidate_def u v Let_def)
  next
    case False
    have thr: "fle (ys_confidence_threshold spec) (mul32 u v)" using False conf ok(2) by (intro not_flt_finite is_prob_finite)
    have fit: "unat (ys_box_offset spec) + 4 \<le> unat (om_features m)" "matrix_ok m" using assms(1) by (auto simp: readable_def layout_fits_def)
    have box: "\<exists>z. matrix_at m (ys_box_offset spec + of_nat n) ?c = Inr z" if "n < 4" for n
      using matrix_at_offset [OF fit(2) _ lt, of "ys_box_offset spec" n] fit(1) that by auto
    obtain cx cy w h where b: "matrix_at m (ys_box_offset spec) ?c = Inr cx" "matrix_at m (ys_box_offset spec + 1) ?c = Inr cy"
      "matrix_at m (ys_box_offset spec + 2) ?c = Inr w" "matrix_at m (ys_box_offset spec + 3) ?c = Inr h"
      using box [of 0] box [of 1] box [of 2] box [of 3] by auto
    show ?thesis
    proof (cases "source_box md cx cy w h")
      case None
      with False show ?thesis by (intro exI [of _ "[]"]) (simp add: parse_candidate_def u v b Let_def)
    next
      case (Some bb)
      from keypoint_loop_inside [OF assms(1) valid lt md conf _ empty_quadrilateral_inside, of "[0..<unat (ys_keypoint_count spec)]"]
      obtain q where q: "keypoint_loop spec m md ?c (mul32 u v) [0..<unat (ys_keypoint_count spec)] empty_quadrilateral = Inr q"
        "\<forall>q'. q = Some q' \<longrightarrow> quad_inside md q'" by (auto simp: ok(1))
      let ?r = "\<lparr>rd_detection = \<lparr>det_bbox = bb, det_quadrilateral = q, det_confidence = mul32 u v,
        det_geometry_score = Fin 0, det_provider = ys_provider_name spec\<rparr>, rd_source_index = i\<rparr>"
      have "parse_candidate spec m md i cs = Inr (cs @ [?r])"
        using False by (simp add: parse_candidate_def u v b Some q(1) Let_def)
      moreover have "detection_inside spec md (rd_detection ?r)"
        using source_box_inside [OF md Some] q(2) conf thr by (simp add: detection_inside_def)
      ultimately show ?thesis by (intro exI [of _ "[?r]"]) simp
    qed
  qed
qed

lemma parse_candidates_result:
  assumes "readable spec m" and "validate_spec spec = Inr ()" and "letterbox_ok md" and "\<forall>i \<in> set ks. i < unat (om_candidates m)"
  shows "\<exists>xs. res_fold (parse_candidate spec m md) ks cs = Inr (cs @ xs) \<and> length xs \<le> length ks \<and>
    (\<forall>r \<in> set xs. rd_source_index r \<in> set ks \<and> detection_inside spec md (rd_detection r))"
  using assms(4)
proof (induction ks arbitrary: cs)
  case (Cons i ks)
  have "i < unat (om_candidates m)" using Cons.prems by simp
  from parse_candidate_result [OF assms(1,2) this assms(3), of cs] obtain xs where
    xs: "parse_candidate spec m md i cs = Inr (cs @ xs)" "length xs \<le> 1" "\<forall>r \<in> set xs. rd_source_index r = i \<and> detection_inside spec md (rd_detection r)" by blast
  from Cons.IH [of "cs @ xs"] Cons.prems obtain ys where
    ys: "res_fold (parse_candidate spec m md) ks (cs @ xs) = Inr ((cs @ xs) @ ys)" "length ys \<le> length ks"
      "\<forall>r \<in> set ys. rd_source_index r \<in> set ks \<and> detection_inside spec md (rd_detection r)" by auto
  show ?case by (rule exI [of _ "xs @ ys"]) (use xs ys in auto)
qed simp

section \<open>Suppression\<close>

lemma nms_loop_append: "\<exists>new. nms_loop spec cs kept = kept @ new \<and> set new \<subseteq> rd_detection ` set cs"
proof (induction cs arbitrary: kept)
  case (Cons c cs)
  from Cons.IH [of kept] Cons.IH [of "kept @ [rd_detection c]"] show ?case by (fastforce simp: Let_def)
qed simp

lemma nms_loop_length:
  "length kept < unat (ys_maximum_detections spec) \<Longrightarrow> length (nms_loop spec cs kept) \<le> unat (ys_maximum_detections spec)"
  by (induction cs arbitrary: kept) (auto simp: Let_def)

lemma nms_loop_sorted:
  assumes "sorted_wrt R (kept @ map rd_detection cs)"
  shows "sorted_wrt R (nms_loop spec cs kept)"
  using assms
proof (induction cs arbitrary: kept)
  case (Cons c cs)
  have "sorted_wrt R (kept @ map rd_detection cs)" "sorted_wrt R ((kept @ [rd_detection c]) @ map rd_detection cs)"
    "sorted_wrt R (kept @ [rd_detection c])"
    using Cons.prems by (auto simp: sorted_wrt_append)
  with Cons.IH [of kept] Cons.IH [of "kept @ [rd_detection c]"] show ?case by (simp add: Let_def)
qed simp

definition suppresses :: "YoloPoseOutputSpec \<Rightarrow> Detection \<Rightarrow> Detection \<Rightarrow> bool" where
  "suppresses spec accepted d \<longleftrightarrow> flt (ys_nms_iou_threshold spec) (intersection_over_union (det_bbox d) (det_bbox accepted))"

lemma nms_loop_apart:
  assumes "sorted_wrt (\<lambda>a b. \<not> suppresses spec a b) kept"
  shows "sorted_wrt (\<lambda>a b. \<not> suppresses spec a b) (nms_loop spec cs kept)"
  using assms
proof (induction cs arbitrary: kept)
  case (Cons c cs)
  show ?case
  proof (cases "list_ex (overlaps_kept spec c) kept")
    case True
    with Cons show ?thesis by simp
  next
    case False
    then have "sorted_wrt (\<lambda>a b. \<not> suppresses spec a b) (kept @ [rd_detection c])"
      using Cons.prems by (auto simp: sorted_wrt_append list_ex_iff overlaps_kept_def suppresses_def)
    with Cons.IH [of "kept @ [rd_detection c]"] False show ?thesis by (simp add: Let_def)
  qed
qed simp

lemma nms_loop_covers:
  assumes "length (nms_loop spec cs kept) < unat (ys_maximum_detections spec)" and "c \<in> set cs"
    and "sorted_wrt R (kept @ map rd_detection cs)"
  shows "rd_detection c \<in> set (nms_loop spec cs kept) \<or>
    (\<exists>a \<in> set (nms_loop spec cs kept). suppresses spec a (rd_detection c) \<and> R a (rd_detection c))"
  using assms
proof (induction cs arbitrary: kept)
  case (Cons d cs)
  show ?case
  proof (cases "list_ex (overlaps_kept spec d) kept")
    case True
    then obtain a where a: "a \<in> set kept" "suppresses spec a (rd_detection d)" by (auto simp: list_ex_iff overlaps_kept_def suppresses_def)
    have step: "nms_loop spec (d # cs) kept = nms_loop spec cs kept" using True by simp
    have "a \<in> set (nms_loop spec cs kept)" using nms_loop_append [of spec cs kept] a(1) by auto
    moreover have "R a (rd_detection d)" using Cons.prems(3) a(1) by (auto simp: sorted_wrt_append)
    moreover have "sorted_wrt R (kept @ map rd_detection cs)" using Cons.prems(3) by (auto simp: sorted_wrt_append)
    ultimately show ?thesis using Cons.IH [of kept] Cons.prems(1,2) a(2) unfolding step by auto
  next
    case False
    let ?k = "kept @ [rd_detection d]"
    have step: "nms_loop spec (d # cs) kept = (if unat (ys_maximum_detections spec) \<le> length ?k then ?k else nms_loop spec cs ?k)"
      using False by (simp add: Let_def)
    have more: "\<not> unat (ys_maximum_detections spec) \<le> length ?k"
    proof
      assume "unat (ys_maximum_detections spec) \<le> length ?k"
      then show False using Cons.prems(1) unfolding step by simp
    qed
    have out: "nms_loop spec (d # cs) kept = nms_loop spec cs ?k" unfolding step using more by simp
    have "rd_detection d \<in> set (nms_loop spec cs ?k)" using nms_loop_append [of spec cs ?k] by auto
    with Cons.IH [of ?k] Cons.prems show ?thesis unfolding out by auto
  qed
qed simp

section \<open>Properties\<close>

lemma yolo_parse_succeeds:
  assumes "make_yolo_parser spec = Inr spec" and "length output < 2 ^ 64"
  shows "(\<exists>detections. yolo_parse spec output shape md = Inr detections) \<longleftrightarrow>
    output = [] \<or> (letterbox_ok md \<and> (\<exists>first second. shape_fits shape first second (length output) \<and>
      layout_fits spec (unat (if ys_layout spec = features_first then first else second))))"
proof -
  have valid: "validate_spec spec = Inr ()" using assms(1) by (auto simp: make_yolo_parser_def result_simps)
  from spec_ok(9) [OF valid] obtain required where req: "required_features spec = Inr required" by blast
  have lb: "\<not> (\<not> is_finite (lb_scale md) \<or> fle (lb_scale md) (Fin 0) \<or> lb_source_width md = 0 \<or> lb_source_height md = 0) \<longleftrightarrow> letterbox_ok md"
    by (auto simp: letterbox_ok_def is_finite_iff)
  show ?thesis
  proof (cases "output = [] \<or> \<not> letterbox_ok md")
    case True
    then show ?thesis using lb by (auto simp: yolo_parse_def)
  next
    case False
    then have ne: "output \<noteq> []" and md: "letterbox_ok md" by auto
    have parse: "yolo_parse spec output shape md = res_bind (resolve_matrix output shape (ys_layout spec)) (\<lambda>m.
        if om_features m < required
        then Inl (InferenceError ''YOLO output has fewer feature columns than configured parser contract'')
        else res_bind (res_fold (parse_candidate spec m md) [0..<unat (om_candidates m)] []) (\<lambda>candidates.
          Inr (nms_loop spec (stable_sort ranked_order candidates) [])))"
      using ne md lb unfolding yolo_parse_def req by simp
    have reads: "\<exists>xs. res_fold (parse_candidate spec m md) [0..<unat (om_candidates m)] [] = Inr xs"
      if "matrix_ok m" "layout_fits spec (unat (om_features m))" for m
      using parse_candidates_result [OF _ valid md, of m "[0..<unat (om_candidates m)]" "[]"] that by (auto simp: readable_def)
    have fits: "\<not> om_features m < required \<longleftrightarrow> layout_fits spec (unat (om_features m))" for m
      using required_features_fits [OF req, of "om_features m"] by (simp add: not_less)
    have "(\<exists>detections. yolo_parse spec output shape md = Inr detections) \<longleftrightarrow>
      (\<exists>m. resolve_matrix output shape (ys_layout spec) = Inr m \<and> layout_fits spec (unat (om_features m)))"
    proof
      assume "\<exists>detections. yolo_parse spec output shape md = Inr detections"
      then obtain m where "resolve_matrix output shape (ys_layout spec) = Inr m" "\<not> om_features m < required"
        unfolding parse res_bind_eq_Inr by (auto split: if_splits)
      then show "\<exists>m. resolve_matrix output shape (ys_layout spec) = Inr m \<and> layout_fits spec (unat (om_features m))"
        using fits by blast
    next
      assume "\<exists>m. resolve_matrix output shape (ys_layout spec) = Inr m \<and> layout_fits spec (unat (om_features m))"
      then obtain m where m: "resolve_matrix output shape (ys_layout spec) = Inr m" "layout_fits spec (unat (om_features m))" by blast
      then have "matrix_ok m" using matrix_of_ok assms(2) unfolding resolve_matrix_Inr [OF assms(2)] shape_fits_def by blast
      from reads [OF this m(2)] show "\<exists>detections. yolo_parse spec output shape md = Inr detections"
        unfolding parse m(1) res_bind_simps using fits m(2) by auto
    qed
    also have "\<dots> \<longleftrightarrow> (\<exists>first second. shape_fits shape first second (length output) \<and>
      layout_fits spec (unat (if ys_layout spec = features_first then first else second)))"
      (is "_ = ?rhs")
    proof -
      have "om_features (matrix_of (ys_layout spec) f s output) = (if ys_layout spec = features_first then f else s)" for f s
        by (simp add: matrix_of_def)
      moreover have "(\<exists>m. (\<exists>f s. shape_fits shape f s (length output) \<and> m = matrix_of (ys_layout spec) f s output) \<and>
          layout_fits spec (unat (om_features m))) \<longleftrightarrow>
        (\<exists>f s. shape_fits shape f s (length output) \<and> layout_fits spec (unat (om_features (matrix_of (ys_layout spec) f s output))))"
        by blast
      ultimately show ?thesis unfolding resolve_matrix_Inr [OF assms(2)] by (simp only:)
    qed
    finally show ?thesis using ne md by blast
  qed
qed

text \<open>Where the parser fails, it fails with an inference error.\<close>

lemma yolo_parse_Inl:
  assumes "make_yolo_parser spec = Inr spec" and "length output < 2 ^ 64" and "yolo_parse spec output shape md = Inl e"
  shows "\<exists>msg. e = InferenceError msg"
proof -
  have valid: "validate_spec spec = Inr ()" using assms(1) by (auto simp: make_yolo_parser_def result_simps)
  from spec_ok(9) [OF valid] obtain required where req: "required_features spec = Inr required" by blast
  have "\<exists>xs. res_fold (parse_candidate spec m md) [0..<unat (om_candidates m)] [] = Inr xs"
    if "resolve_matrix output shape (ys_layout spec) = Inr m" "\<not> om_features m < required" "letterbox_ok md" for m
  proof -
    from that(1) have "matrix_ok m" using matrix_of_ok assms(2) unfolding resolve_matrix_Inr [OF assms(2)] shape_fits_def by blast
    then show ?thesis using parse_candidates_result [OF _ valid that(3), of m "[0..<unat (om_candidates m)]" "[]"]
        required_features_fits [OF req, of "om_features m"] that(2) by (auto simp: readable_def not_less)
  qed
  then show ?thesis using assms(3) resolve_matrix_Inl
    by (auto simp: yolo_parse_def req res_bind_eq_Inl letterbox_ok_def is_finite_iff split: if_split_asm)
qed

text \<open>
  C26: the contract of the parser. With a validated configuration and finite or infinite data of any kind, parsing an
  output tensor succeeds exactly when the tensor is empty, or the letterbox is usable, the shape is \<open>[1, f, s]\<close> or
  \<open>[f, s]\<close> with positive dimensions whose product is the number of elements, and the configured layout fits
  the feature dimension; otherwise it is an inference error. Every element of a resolved matrix is read at its
  row-major place inside the tensor: no index is out of bounds or wraps around.
\<close>

theorem yolo_contract_exact:
  assumes "make_yolo_parser spec = Inr spec" and "length output < 2 ^ 64"
  shows "((\<exists>detections. yolo_parse spec output shape md = Inr detections) \<longleftrightarrow>
    output = [] \<or> (letterbox_ok md \<and> (\<exists>first second. shape_fits shape first second (length output) \<and>
      layout_fits spec (unat (if ys_layout spec = features_first then first else second))))) \<and>
    (\<forall>e. yolo_parse spec output shape md = Inl e \<longrightarrow> (\<exists>msg. e = InferenceError msg)) \<and>
    (\<forall>m f c. resolve_matrix output shape (ys_layout spec) = Inr m \<longrightarrow> unat f < unat (om_features m) \<longrightarrow> unat c < unat (om_candidates m) \<longrightarrow>
       element_index m (unat f) (unat c) < length output \<and> matrix_at m f c = Inr (output ! element_index m (unat f) (unat c)))"
proof (intro conjI allI impI)
  show "(\<exists>detections. yolo_parse spec output shape md = Inr detections) \<longleftrightarrow>
    output = [] \<or> (letterbox_ok md \<and> (\<exists>first second. shape_fits shape first second (length output) \<and>
      layout_fits spec (unat (if ys_layout spec = features_first then first else second))))"
    by (rule yolo_parse_succeeds [OF assms])
  show "\<exists>msg. e = InferenceError msg" if "yolo_parse spec output shape md = Inl e" for e by (rule yolo_parse_Inl [OF assms that])
  fix m and f c :: "64 word"
  assume m: "resolve_matrix output shape (ys_layout spec) = Inr m" and fc: "unat f < unat (om_features m)" "unat c < unat (om_candidates m)"
  from m have ok: "matrix_ok m" and d: "om_data m = output"
    using matrix_of_ok assms(2) unfolding resolve_matrix_Inr [OF assms(2)] shape_fits_def by (auto simp: matrix_of_def)
  show "element_index m (unat f) (unat c) < length output" using element_index_less [OF ok fc] d by simp
  show "matrix_at m f c = Inr (output ! element_index m (unat f) (unat c))"
    using matrix_at_element [OF ok fc] by (simp add: element_def element_index_def d)
qed

lemma detections_sorted:
  assumes "\<forall>r \<in> set cs. detection_inside spec md (rd_detection r)"
  shows "sorted_wrt (\<lambda>a b. fle (det_confidence b) (det_confidence a)) (map rd_detection (stable_sort ranked_order cs))"
  unfolding ranked_order_def sorted_wrt_map
  by (rule stable_sort_scores_sorted) (use assms in \<open>auto simp: detection_inside_def\<close>)

lemma yolo_parse_candidates:
  assumes valid: "validate_spec spec = Inr ()" and "length output < 2 ^ 64" and "output \<noteq> []" and "yolo_parse spec output shape md = Inr ds"
  shows "\<exists>m cs. resolve_matrix output shape (ys_layout spec) = Inr m \<and>
    res_fold (parse_candidate spec m md) [0..<unat (om_candidates m)] [] = Inr cs \<and>
    ds = nms_loop spec (stable_sort ranked_order cs) [] \<and> (\<forall>r \<in> set cs. detection_inside spec md (rd_detection r))"
proof -
  from assms(3,4) have lb: "\<not> (\<not> is_finite (lb_scale md) \<or> fle (lb_scale md) (Fin 0) \<or> lb_source_width md = 0 \<or> lb_source_height md = 0)"
    unfolding yolo_parse_def by (simp split: if_split_asm)
  then have md: "letterbox_ok md" by (auto simp: letterbox_ok_def is_finite_iff)
  from assms(4) obtain m required cs where m: "resolve_matrix output shape (ys_layout spec) = Inr m"
    and req: "required_features spec = Inr required" "\<not> om_features m < required"
    and cs: "res_fold (parse_candidate spec m md) [0..<unat (om_candidates m)] [] = Inr cs" "ds = nms_loop spec (stable_sort ranked_order cs) []"
    unfolding yolo_parse_def if_not_P [OF assms(3)] if_not_P [OF lb] res_bind_eq_Inr by (auto split: if_split_asm simp: result_simps)
  have "matrix_ok m" using m matrix_of_ok assms(2) unfolding resolve_matrix_Inr [OF assms(2)] shape_fits_def by blast
  then have "readable spec m" using required_features_fits [OF req(1)] req(2) by (simp add: readable_def not_less)
  from parse_candidates_result [OF this valid md, of "[0..<unat (om_candidates m)]" "[]"] cs(1)
  have "\<forall>r \<in> set cs. detection_inside spec md (rd_detection r)" by auto
  with m cs show ?thesis by blast
qed

lemma certified_detections:
  assumes "make_yolo_parser spec = Inr spec" and "length output < 2 ^ 64" and "yolo_parse spec output shape md = Inr ds"
  shows "length ds \<le> unat (ys_maximum_detections spec) \<and> (\<forall>d \<in> set ds. detection_inside spec md d) \<and>
    sorted_wrt (\<lambda>a b. fle (det_confidence b) (det_confidence a)) ds \<and> sorted_wrt (\<lambda>a b. \<not> suppresses spec a b) ds"
proof (cases "output = []")
  case True
  then show ?thesis using assms(3) by (simp add: yolo_parse_def)
next
  case False
  have valid: "validate_spec spec = Inr ()" using assms(1) by (auto simp: make_yolo_parser_def result_simps)
  from yolo_parse_candidates [OF valid assms(2) False assms(3)] obtain cs where
    ds: "ds = nms_loop spec (stable_sort ranked_order cs) []" and inside: "\<forall>r \<in> set cs. detection_inside spec md (rd_detection r)" by blast
  let ?s = "stable_sort ranked_order cs"
  have "set ds \<subseteq> rd_detection ` set cs" using nms_loop_append [of spec ?s "[]"] unfolding ds by (auto simp: ranked_order_def)
  then have "\<forall>d \<in> set ds. detection_inside spec md d" using inside by blast
  moreover have "length ds \<le> unat (ys_maximum_detections spec)"
    unfolding ds by (rule nms_loop_length) (use spec_ok(4) [OF valid] in simp)
  moreover have "sorted_wrt (\<lambda>a b. \<not> suppresses spec a b) ds" unfolding ds by (rule nms_loop_apart) simp
  moreover have "sorted_wrt (\<lambda>a b. fle (det_confidence b) (det_confidence a)) ds"
    unfolding ds by (rule nms_loop_sorted) (use detections_sorted [OF inside] in simp)
  ultimately show ?thesis by blast
qed

text \<open>
  What a successful parse promises. The detections are at most the configured number, by decreasing confidence and
  every confidence is a probability of at least the threshold; every box is valid, inside the source image and made of
  floats, every quadrilateral has four points inside the image with probabilities; and no later detection overlaps an earlier one beyond
  the suppression threshold.
\<close>

theorem yolo_detections_certified:
  assumes "make_yolo_parser spec = Inr spec" and "length output < 2 ^ 64" and "yolo_parse spec output shape md = Inr ds"
  shows "length ds \<le> unat (ys_maximum_detections spec) \<and> (\<forall>d \<in> set ds. detection_inside spec md d) \<and>
    sorted_wrt (\<lambda>a b. fle (det_confidence b) (det_confidence a)) ds \<and> sorted_wrt (\<lambda>a b. \<not> suppresses spec a b) ds"
  by (rule certified_detections [OF assms])

text \<open>
  Suppression drops nothing without a reason. When the number of detections is below the limit, every candidate column
  that passed the confidence and box tests is returned, or overlaps a returned detection of at least its confidence beyond the threshold.
\<close>

theorem yolo_suppression_covers:
  assumes "make_yolo_parser spec = Inr spec" and "length output < 2 ^ 64" and "resolve_matrix output shape (ys_layout spec) = Inr m"
    and "res_fold (parse_candidate spec m md) [0..<unat (om_candidates m)] [] = Inr candidates"
    and "yolo_parse spec output shape md = Inr ds" and "length ds < unat (ys_maximum_detections spec)" and "c \<in> set candidates"
  shows "rd_detection c \<in> set ds \<or>
    (\<exists>a \<in> set ds. suppresses spec a (rd_detection c) \<and> fle (det_confidence (rd_detection c)) (det_confidence a))"
proof -
  have valid: "validate_spec spec = Inr ()" using assms(1) by (auto simp: make_yolo_parser_def result_simps)
  have pos: "0 < unat v" if "0 < sint v" for v :: "64 word" using that by (cases "v = 0") (auto simp: unat_gt_0)
  have ne: "output \<noteq> []" using assms(3) pos unfolding resolve_matrix_Inr [OF assms(2)] by (fastforce simp: shape_fits_def)
  from yolo_parse_candidates [OF valid assms(2) ne assms(5)] obtain m' cs where
    r: "resolve_matrix output shape (ys_layout spec) = Inr m'" "res_fold (parse_candidate spec m' md) [0..<unat (om_candidates m')] [] = Inr cs"
    and ds: "ds = nms_loop spec (stable_sort ranked_order cs) []" and inside: "\<forall>r \<in> set cs. detection_inside spec md (rd_detection r)" by blast
  have "cs = candidates" using r assms(3,4) by simp
  with assms(7) have "c \<in> set (stable_sort ranked_order cs)" by simp
  from nms_loop_covers [OF assms(6) [unfolded ds] this, of "\<lambda>a b. fle (det_confidence b) (det_confidence a)"]
  show ?thesis unfolding ds using detections_sorted [OF inside] by simp
qed

section \<open>An output with two candidates\<close>

text \<open>Two candidate columns with the same box and keypoints; the second is less confident.\<close>

definition small_spec :: YoloPoseOutputSpec where
  "small_spec = default_yolo_spec\<lparr>ys_confidence_threshold := Fin (1/4), ys_nms_iou_threshold := Fin (1/2)\<rparr>"

definition small_output :: "fl list" where
  "small_output = map Fin (concat (map (\<lambda>v. [v, v]) [8, 8, 4, 4]) @ [3/4, 1/2] @ concat (map (\<lambda>v. [v, v]) [6, 6, 1, 10, 6, 1, 10, 10, 1, 6, 10, 1]))"

definition small_letterbox :: LetterboxMetadata where
  "small_letterbox = \<lparr>lb_source_width = 16, lb_source_height = 16, lb_input_width = 16, lb_input_height = 16, lb_scale = Fin 1,
     lb_pad_left = 0, lb_pad_top = 0, lb_resized_width = 16, lb_resized_height = 16\<rparr>"

lemma small_made: "make_yolo_parser small_spec = Inr small_spec"
  unfolding small_spec_def by code_simp

lemma small_parsed:
  "map_sum id (map (\<lambda>d. (det_confidence d, bb_x (det_bbox d), bb_width (det_bbox d)))) (yolo_parse small_spec small_output [1, 17, 2] small_letterbox) =
    Inr [(Fin (3/4), Fin 6, Fin 4)]"
  by code_simp

lemma small_detections: "\<exists>ds. yolo_parse small_spec small_output [1, 17, 2] small_letterbox = Inr ds \<and> length ds = 1"
proof -
  from map_sum_Inr_obtain [OF small_parsed]
  obtain ds where ds: "yolo_parse small_spec small_output [1, 17, 2] small_letterbox = Inr ds"
    "map (\<lambda>d. (det_confidence d, bb_x (det_bbox d), bb_width (det_bbox d))) ds = [(Fin (3/4), Fin 6, Fin 4)]"
    by (elim exE conjE) (rule that)
  have "length ds = 1" using arg_cong [OF ds(2), of length] by simp
  with ds(1) show ?thesis by blast
qed

lemma small_length: "length small_output = 34"
  by (simp add: small_output_def)

lemma yolo_contract_exact_witness:
  "(\<exists>ds. yolo_parse small_spec small_output [1, 17, 2] small_letterbox = Inr ds) \<and>
   \<not> (\<exists>ds. yolo_parse small_spec small_output [1, 17, 3] small_letterbox = Inr ds)"
proof -
  have ne: "small_output \<noteq> []" by (simp add: small_output_def)
  have lb: "letterbox_ok small_letterbox" by (simp add: letterbox_ok_def small_letterbox_def)
  have "layout_fits small_spec 17" by (simp add: layout_fits_def small_spec_def default_yolo_spec_def)
  moreover have "shape_fits [1, 17, 2] 17 2 34" by (simp add: shape_fits_def)
  moreover have "ys_layout small_spec = features_first" by (simp add: small_spec_def default_yolo_spec_def)
  ultimately have "\<exists>first second. shape_fits [1, 17, 2] first second (length small_output) \<and>
      layout_fits small_spec (unat (if ys_layout small_spec = features_first then first else second))"
    unfolding small_length by (intro exI [of _ 17] exI [of _ 2]) simp
  with yolo_contract_exact [OF small_made, of small_output "[1, 17, 2]" small_letterbox] small_length lb
  have "\<exists>ds. yolo_parse small_spec small_output [1, 17, 2] small_letterbox = Inr ds" by simp
  moreover have "\<not> shape_fits [1, 17, 3] f s 34" for f s by (auto simp: shape_fits_def)
  with yolo_contract_exact [OF small_made, of small_output "[1, 17, 3]" small_letterbox] small_length ne
  have "\<not> (\<exists>ds. yolo_parse small_spec small_output [1, 17, 3] small_letterbox = Inr ds)" by simp
  ultimately show ?thesis by blast
qed

lemma yolo_detections_certified_witness:
  "\<exists>ds. yolo_parse small_spec small_output [1, 17, 2] small_letterbox = Inr ds \<and> length ds = 1 \<and>
     list_all (detection_inside small_spec small_letterbox) ds"
proof -
  from small_detections obtain ds where ds: "yolo_parse small_spec small_output [1, 17, 2] small_letterbox = Inr ds" "length ds = 1" by blast
  from yolo_detections_certified [OF small_made _ ds(1)] ds show ?thesis by (auto simp: small_length list_all_iff)
qed

definition small_matrix :: OutputMatrix where
  "small_matrix = \<lparr>om_features = 17, om_candidates = 2, om_layout = features_first, om_data = small_output\<rparr>"

lemma small_candidates:
  "map_sum id length (res_fold (parse_candidate small_spec small_matrix small_letterbox) [0..<unat (om_candidates small_matrix)] []) = Inr 2"
  by code_simp

lemma yolo_suppression_covers_witness:
  "\<exists>candidates ds. res_fold (parse_candidate small_spec small_matrix small_letterbox) [0..<2] [] = Inr candidates \<and> length candidates = 2 \<and>
     yolo_parse small_spec small_output [1, 17, 2] small_letterbox = Inr ds \<and> length ds = 1 \<and>
     list_all (\<lambda>c. rd_detection c \<in> set ds \<or> (\<exists>a \<in> set ds. suppresses small_spec a (rd_detection c))) candidates"
proof -
  from small_detections obtain ds where ds: "yolo_parse small_spec small_output [1, 17, 2] small_letterbox = Inr ds" "length ds = 1" by blast
  from map_sum_Inr_obtain [OF small_candidates] obtain cs where
    cs: "res_fold (parse_candidate small_spec small_matrix small_letterbox) [0..<unat (om_candidates small_matrix)] [] = Inr cs" "length cs = 2" by blast
  have two: "unat (om_candidates small_matrix) = 2" by (simp add: small_matrix_def)
  have m: "resolve_matrix small_output [1, 17, 2] (ys_layout small_spec) = Inr small_matrix" by code_simp
  have "1 < unat (ys_maximum_detections small_spec)" by (simp add: small_spec_def default_yolo_spec_def)
  with yolo_suppression_covers [OF small_made _ m cs(1) ds(1)] ds(2)
  have "list_all (\<lambda>c. rd_detection c \<in> set ds \<or> (\<exists>a \<in> set ds. suppresses small_spec a (rd_detection c))) cs"
    by (auto simp: small_length list_all_iff)
  with ds cs [unfolded two] show ?thesis by (intro exI conjI)
qed


end
