(* ===== verification/Disjoint_Set.thy ===== *)
theory Disjoint_Set
  imports Prelude
begin

text \<open>
  The union-find structure of the detector fusion (class \<open>DisjointSet\<close> of
  \<^verbatim>\<open>application/multi_detector_fusion.cpp\<close>): union by rank with path compression. \<open>find\<close> follows parents until it meets
  a root, so it is a partial function; ranks grow along parents, which is why it always returns. What it promises
  is stated as the relation of having the same root.
\<close>

section \<open>The structure\<close>

record DisjointSet =
  ds_parent :: "nat list"
  ds_rank :: "nat list"

definition make_set :: "nat \<Rightarrow> DisjointSet" where
  "make_set sz = \<lparr>ds_parent = [0..<sz], ds_rank = replicate sz 0\<rparr>"

partial_function (option) find_root :: "nat \<Rightarrow> nat list \<Rightarrow> (nat \<times> nat list) option" where
  "find_root v parent =
     (if parent ! v \<noteq> v
      then Option.bind (find_root (parent ! v) parent) (\<lambda>(r, parent'). Some (r, parent'[v := r]))
      else Some (parent ! v, parent))"

declare find_root.simps [code]

definition ds_find :: "nat \<Rightarrow> DisjointSet \<Rightarrow> (nat \<times> DisjointSet) option" where
  "ds_find v s = map_option (\<lambda>(r, parent). (r, s\<lparr>ds_parent := parent\<rparr>)) (find_root v (ds_parent s))"

definition ds_unite :: "nat \<Rightarrow> nat \<Rightarrow> DisjointSet \<Rightarrow> DisjointSet option" where
  "ds_unite lhs rhs s =
     Option.bind (ds_find lhs s) (\<lambda>(lhs_root, s).
     Option.bind (ds_find rhs s) (\<lambda>(rhs_root, s). Some (
       if lhs_root = rhs_root then s
       else let (lhs_root, rhs_root) = (if ds_rank s ! lhs_root < ds_rank s ! rhs_root then (rhs_root, lhs_root) else (lhs_root, rhs_root));
                s = s\<lparr>ds_parent := (ds_parent s)[rhs_root := lhs_root]\<rparr>
            in if ds_rank s ! lhs_root = ds_rank s ! rhs_root
               then s\<lparr>ds_rank := (ds_rank s)[lhs_root := ds_rank s ! lhs_root + 1]\<rparr> else s)))"

section \<open>Roots\<close>

text \<open>The root of an element, as a relation on the parents.\<close>

inductive rooted :: "nat list \<Rightarrow> nat \<Rightarrow> nat \<Rightarrow> bool" for parent where
  rooted_here: "parent ! v = v \<Longrightarrow> rooted parent v v"
| rooted_up: "parent ! v \<noteq> v \<Longrightarrow> rooted parent (parent ! v) r \<Longrightarrow> rooted parent v r"

inductive_cases rooted_cases: "rooted parent v r"

lemma rooted_unique: "rooted parent v r \<Longrightarrow> rooted parent v r' \<Longrightarrow> r = r'"
proof (induction arbitrary: r' rule: rooted.induct)
  case (rooted_here v)
  from rooted_here.prems show ?case by (rule rooted_cases) (simp_all add: rooted_here.hyps)
next
  case (rooted_up v r)
  from rooted_up.prems have "rooted parent (parent ! v) r'" by (rule rooted_cases) (use rooted_up.hyps(1) in simp_all)
  then show ?case by (rule rooted_up.IH)
qed

lemma rooted_root: "rooted parent v r \<Longrightarrow> parent ! r = r"
  by (induction rule: rooted.induct) auto

text \<open>Parents are in range and of greater rank.\<close>

definition ds_ok :: "DisjointSet \<Rightarrow> bool" where
  "ds_ok s \<longleftrightarrow> length (ds_rank s) = length (ds_parent s) \<and>
     (\<forall>v < length (ds_parent s). ds_parent s ! v < length (ds_parent s) \<and>
       (ds_parent s ! v \<noteq> v \<longrightarrow> ds_rank s ! v < ds_rank s ! (ds_parent s ! v)))"

lemma make_set_ok: "ds_ok (make_set sz)"
  by (simp add: ds_ok_def make_set_def)

lemma rooted_rank:
  "rooted (ds_parent s) v r \<Longrightarrow> ds_ok s \<Longrightarrow> v < length (ds_parent s) \<Longrightarrow>
   r < length (ds_parent s) \<and> (v \<noteq> r \<longrightarrow> ds_rank s ! v < ds_rank s ! r)"
proof (induction rule: rooted.induct)
  case (rooted_up v r)
  then have p: "ds_parent s ! v < length (ds_parent s)" "ds_rank s ! v < ds_rank s ! (ds_parent s ! v)" by (auto simp: ds_ok_def)
  with rooted_up show ?case by (cases "ds_parent s ! v = r") auto
qed simp

text \<open>Compressing a path does not change who is rooted where.\<close>

lemma rooted_compress:
  assumes v: "rooted parent v r" and len: "v < length parent"
  shows "rooted (parent[v := r]) u x \<longleftrightarrow> rooted parent u x"
proof -
  have r: "parent ! r = r" using v by (rule rooted_root)
  have rr: "parent[v := r] ! r = r" using r len by (cases "r = v") auto
  have fwd: "rooted (parent[v := r]) u x" if "rooted parent u x" for u x
    using that
  proof (induction rule: rooted.induct)
    case (rooted_here w)
    have "parent[v := r] ! w = w"
    proof (cases "w = v")
      case True
      with v rooted_here have "r = w" using rooted_unique rooted.rooted_here by metis
      with True len show ?thesis by simp
    qed (use rooted_here in simp)
    then show ?case by (rule rooted.rooted_here)
  next
    case (rooted_up w x)
    show ?case
    proof (cases "w = v")
      case True
      have "x = r" using rooted_unique [OF v, of x] rooted_up(1,2) True rooted.rooted_up by blast
      moreover have "rooted (parent[v := r]) r r" using rr by (rule rooted.rooted_here)
      moreover have "parent[v := r] ! v = r" using len by simp
      moreover have "r \<noteq> v" using r rooted_up(1) True by auto
      ultimately show ?thesis unfolding True by (metis rooted.rooted_up)
    next
      case False
      then have at: "parent[v := r] ! w = parent ! w" by simp
      show ?thesis
      proof (rule rooted.rooted_up)
        show "parent[v := r] ! w \<noteq> w" unfolding at by (rule rooted_up.hyps(1))
        show "rooted (parent[v := r]) (parent[v := r] ! w) x" unfolding at by (rule rooted_up.IH)
      qed
    qed
  qed
  have bwd: "rooted parent u x" if "rooted (parent[v := r]) u x" for u x
    using that
  proof (induction rule: rooted.induct)
    case (rooted_here w)
    show ?case
    proof (cases "w = v")
      case True
      with rooted_here len have "r = v" by simp
      with v True show ?thesis by simp
    next
      case False
      with rooted_here have "parent ! w = w" by simp
      then show ?thesis by (rule rooted.rooted_here)
    qed
  next
    case (rooted_up w x)
    show ?case
    proof (cases "w = v")
      case True
      with rooted_up len have "rooted parent r x" by simp
      moreover have "rooted parent r r" using r by (rule rooted.rooted_here)
      ultimately have "x = r" using rooted_unique by metis
      with v True show ?thesis by simp
    next
      case False
      then have at: "parent[v := r] ! w = parent ! w" by simp
      show ?thesis
      proof (rule rooted.rooted_up)
        show "parent ! w \<noteq> w" using rooted_up.hyps(1) unfolding at .
        show "rooted parent (parent ! w) x" using rooted_up.IH unfolding at .
      qed
    qed
  qed
  from fwd bwd show ?thesis by blast
qed

lemma compress_ok:
  assumes "ds_ok (s\<lparr>ds_parent := parent\<rparr>)" and "r < length parent" and "v \<noteq> r \<longrightarrow> ds_rank s ! v < ds_rank s ! r"
  shows "ds_ok (s\<lparr>ds_parent := parent[v := r]\<rparr>)"
proof -
  have len: "length (ds_rank s) = length parent" using assms(1) by (simp add: ds_ok_def)
  have "parent[v := r] ! w < length parent \<and> (parent[v := r] ! w \<noteq> w \<longrightarrow> ds_rank s ! w < ds_rank s ! (parent[v := r] ! w))"
    if w: "w < length parent" for w
  proof (cases "w = v")
    case True
    then have "parent[v := r] ! w = r" using w by simp
    then show ?thesis using assms(2,3) True by simp
  next
    case False
    then have at: "parent[v := r] ! w = parent ! w" by simp
    show ?thesis using assms(1) w unfolding at ds_ok_def by simp
  qed
  with len show ?thesis by (simp add: ds_ok_def)
qed

text \<open>\<open>find\<close> returns the root, keeps the invariant and every root.\<close>

definition same_roots :: "nat list \<Rightarrow> nat list \<Rightarrow> bool" where
  "same_roots parent parent' \<longleftrightarrow> length parent' = length parent \<and> (\<forall>u x. rooted parent' u x = rooted parent u x)"

lemma find_root_ok:
  assumes "ds_ok s" and "v < length (ds_parent s)"
  shows "\<exists>r parent. find_root v (ds_parent s) = Some (r, parent) \<and> rooted (ds_parent s) v r \<and> r < length (ds_parent s) \<and>
    ds_ok (s\<lparr>ds_parent := parent\<rparr>) \<and> same_roots (ds_parent s) parent"
  using assms
proof (induction "Max (insert 0 (set (ds_rank s))) - ds_rank s ! v" arbitrary: v rule: less_induct)
  case less
  let ?p = "ds_parent s"
  show ?case
  proof (cases "?p ! v = v")
    case True
    then have "rooted ?p v v" by (rule rooted_here)
    moreover have "find_root v ?p = Some (v, ?p)" using True by (subst find_root.simps) simp
    ultimately show ?thesis using less.prems by (intro exI [of _ v] exI [of _ ?p]) (simp add: same_roots_def)
  next
    case False
    from less.prems have up: "?p ! v < length ?p" "ds_rank s ! v < ds_rank s ! (?p ! v)" using False by (auto simp: ds_ok_def)
    have "ds_rank s ! (?p ! v) \<in> set (ds_rank s)" using up(1) less.prems(1) by (simp add: ds_ok_def)
    then have "ds_rank s ! (?p ! v) \<le> Max (insert 0 (set (ds_rank s)))" by simp
    with up(2) have dec: "Max (insert 0 (set (ds_rank s))) - ds_rank s ! (?p ! v) < Max (insert 0 (set (ds_rank s))) - ds_rank s ! v"
      by linarith
    from less.hyps [OF dec less.prems(1) up(1)] obtain r parent where
      IH: "find_root (?p ! v) ?p = Some (r, parent)" "rooted ?p (?p ! v) r" "r < length ?p"
        "ds_ok (s\<lparr>ds_parent := parent\<rparr>)" "same_roots ?p parent" by blast
    have vr: "rooted ?p v r" using False IH(2) by (rule rooted_up)
    have rank: "v \<noteq> r \<longrightarrow> ds_rank s ! v < ds_rank s ! r" using rooted_rank [OF vr less.prems] by blast
    have len: "length parent = length ?p" using IH(5) by (simp add: same_roots_def)
    have "rooted parent v r" using vr IH(5) unfolding same_roots_def by blast
    from rooted_compress [OF this] have "same_roots parent (parent[v := r])" using len less.prems(2) unfolding same_roots_def by simp
    with IH(5) have sr: "same_roots ?p (parent[v := r])" unfolding same_roots_def by metis
    have ok: "ds_ok (s\<lparr>ds_parent := parent[v := r]\<rparr>)"
      by (rule compress_ok [OF IH(4)]) (use IH(3) rank len in simp_all)
    have "find_root v ?p = Some (r, parent[v := r])"
      by (subst find_root.simps) (simp only: False IH(1) not_False_eq_True if_True bind.simps prod.case)
    with vr IH(3) ok sr show ?thesis by blast
  qed
qed

lemma ds_find_ok:
  assumes "ds_ok s" and "v < length (ds_parent s)"
  obtains r s' where "ds_find v s = Some (r, s')" "rooted (ds_parent s) v r" "r < length (ds_parent s)"
    "ds_ok s'" "same_roots (ds_parent s) (ds_parent s')" "ds_rank s' = ds_rank s"
proof -
  from find_root_ok [OF assms] obtain r parent where f: "find_root v (ds_parent s) = Some (r, parent)" "rooted (ds_parent s) v r"
    "r < length (ds_parent s)" "ds_ok (s\<lparr>ds_parent := parent\<rparr>)" "same_roots (ds_parent s) parent" by blast
  show ?thesis by (rule that [of r "s\<lparr>ds_parent := parent\<rparr>"]) (simp_all add: f ds_find_def)
qed

section \<open>Union\<close>

text \<open>Hanging the root \<open>b\<close> under the root \<open>a\<close> renames the root \<open>b\<close> to \<open>a\<close>.\<close>

lemma rooted_link:
  assumes a: "parent ! a = a" and b: "parent ! b = b" "b < length parent" "a \<noteq> b"
  shows "rooted (parent[b := a]) u x \<longleftrightarrow> (\<exists>y. rooted parent u y \<and> x = (if y = b then a else y))"
proof -
  have aa: "rooted (parent[b := a]) a a" using a b(3) by (intro rooted_here) simp
  have fwd: "rooted (parent[b := a]) u (if y = b then a else y)" if "rooted parent u y" for u y
    using that
  proof (induction rule: rooted.induct)
    case (rooted_here w)
    show ?case
    proof (cases "w = b")
      case True
      have "rooted (parent[b := a]) b a"
        by (rule rooted.rooted_up) (use b aa in simp_all)
      with True show ?thesis by simp
    next
      case False
      with rooted_here have "rooted (parent[b := a]) w w" by (intro rooted.rooted_here) simp
      with False show ?thesis by simp
    qed
  next
    case (rooted_up w y)
    then have at: "parent[b := a] ! w = parent ! w" using b(1) by (cases "w = b") auto
    show ?case
    proof (rule rooted.rooted_up)
      show "parent[b := a] ! w \<noteq> w" unfolding at by (rule rooted_up.hyps(1))
      show "rooted (parent[b := a]) (parent[b := a] ! w) (if y = b then a else y)" unfolding at by (rule rooted_up.IH)
    qed
  qed
  have bwd: "\<exists>y. rooted parent u y" if "rooted (parent[b := a]) u x" for u x
    using that
  proof (induction rule: rooted.induct)
    case (rooted_here w)
    have "parent ! w = w" using rooted_here b(1) by (cases "w = b") auto
    then show ?case using rooted.rooted_here by blast
  next
    case (rooted_up w x)
    show ?case
    proof (cases "w = b")
      case True
      then show ?thesis using rooted.rooted_here [OF b(1)] by blast
    next
      case False
      then have at: "parent[b := a] ! w = parent ! w" by simp
      from rooted_up.IH obtain y where "rooted parent (parent ! w) y" unfolding at ..
      moreover have "parent ! w \<noteq> w" using rooted_up.hyps(1) unfolding at .
      ultimately show ?thesis using rooted.rooted_up by blast
    qed
  qed
  show ?thesis
  proof
    assume l: "rooted (parent[b := a]) u x"
    with bwd obtain y where y: "rooted parent u y" by blast
    with l fwd rooted_unique have "x = (if y = b then a else y)" by blast
    with y show "\<exists>y. rooted parent u y \<and> x = (if y = b then a else y)" by blast
  next
    assume "\<exists>y. rooted parent u y \<and> x = (if y = b then a else y)"
    with fwd show "rooted (parent[b := a]) u x" by blast
  qed
qed

text \<open>Two elements are in one class when they have a root in common.\<close>

definition same_class :: "DisjointSet \<Rightarrow> nat \<Rightarrow> nat \<Rightarrow> bool" where
  "same_class s u v \<longleftrightarrow> (\<exists>r. rooted (ds_parent s) u r \<and> rooted (ds_parent s) v r)"

lemma rooted_exists: "ds_ok s \<Longrightarrow> v < length (ds_parent s) \<Longrightarrow> \<exists>r. rooted (ds_parent s) v r"
  using find_root_ok by blast

lemma same_roots_class: "same_roots (ds_parent s) (ds_parent s') \<Longrightarrow> same_class s' u v = same_class s u v"
  by (simp add: same_roots_def same_class_def)

lemma link_ok:
  assumes s: "ds_ok s" and a: "ds_parent s ! a = a" "a < length (ds_parent s)" and b: "ds_parent s ! b = b" "b < length (ds_parent s)"
    and "a \<noteq> b" "\<not> ds_rank s ! a < ds_rank s ! b"
  shows "ds_ok (s\<lparr>ds_parent := (ds_parent s)[b := a],
    ds_rank := if ds_rank s ! a = ds_rank s ! b then (ds_rank s)[a := ds_rank s ! a + 1] else ds_rank s\<rparr>)"
proof -
  let ?p = "(ds_parent s)[b := a]"
  let ?k = "if ds_rank s ! a = ds_rank s ! b then (ds_rank s)[a := ds_rank s ! a + 1] else ds_rank s"
  have len: "length (ds_rank s) = length (ds_parent s)" using s by (simp add: ds_ok_def)
  have ge: "ds_rank s ! w \<le> ?k ! w" for w using a(2) len by (cases "w = a") simp_all
  have same: "?k ! w = ds_rank s ! w" if "w \<noteq> a" for w using that by simp
  have "?p ! w < length (ds_parent s) \<and> (?p ! w \<noteq> w \<longrightarrow> ?k ! w < ?k ! (?p ! w))" if w: "w < length (ds_parent s)" for w
  proof (cases "w = b")
    case True
    then have at: "?p ! w = a" using w by simp
    have "?k ! b < ?k ! a" using assms(6,7) a(2) len by simp
    with at True a(2) show ?thesis by simp
  next
    case False
    then have at: "?p ! w = ds_parent s ! w" by simp
    have old: "ds_parent s ! w < length (ds_parent s)" "ds_parent s ! w \<noteq> w \<Longrightarrow> ds_rank s ! w < ds_rank s ! (ds_parent s ! w)"
      using s w unfolding ds_ok_def by blast+
    have "?k ! w < ?k ! (ds_parent s ! w)" if up: "ds_parent s ! w \<noteq> w"
    proof -
      from up a(1) have "w \<noteq> a" by auto
      then have "?k ! w = ds_rank s ! w" by (rule same)
      also have "\<dots> < ds_rank s ! (ds_parent s ! w)" by (rule old(2) [OF up])
      also have "\<dots> \<le> ?k ! (ds_parent s ! w)" by (rule ge)
      finally show ?thesis .
    qed
    with old(1) show ?thesis unfolding at by blast
  qed
  moreover have "length ?k = length ?p" using len by simp
  ultimately show ?thesis unfolding ds_ok_def by simp
qed

text \<open>After \<open>unite\<close> the classes of its arguments are one class and the others are as before.\<close>

definition merged :: "(nat \<Rightarrow> nat \<Rightarrow> bool) \<Rightarrow> nat \<Rightarrow> nat \<Rightarrow> nat \<Rightarrow> nat \<Rightarrow> bool" where
  "merged R l r u v \<longleftrightarrow> R u v \<or> (R u l \<and> R r v) \<or> (R u r \<and> R l v)"

lemma link_class:
  assumes a: "ds_parent s ! a = a" and b: "ds_parent s ! b = b" "b < length (ds_parent s)" "a \<noteq> b"
    and l: "rooted (ds_parent s) l a" and r: "rooted (ds_parent s) r b"
    and t: "ds_parent t = (ds_parent s)[b := a]"
  shows "same_class t u v = merged (same_class s) l r u v"
proof
  assume "same_class t u v"
  then obtain x where x: "rooted (ds_parent t) u x" "rooted (ds_parent t) v x" unfolding same_class_def by blast
  then obtain y z where y: "rooted (ds_parent s) u y" "x = (if y = b then a else y)"
    and z: "rooted (ds_parent s) v z" "x = (if z = b then a else z)"
    unfolding t rooted_link [OF a b] by blast
  from y(2) z(2) have "y = z \<or> (y = a \<and> z = b) \<or> (y = b \<and> z = a)" by (auto split: if_splits)
  with y(1) z(1) l r show "merged (same_class s) l r u v" unfolding merged_def same_class_def by blast
next
  have at: "rooted (ds_parent t) u (if y = b then a else y)" if "rooted (ds_parent s) u y" for u y
    using that unfolding t rooted_link [OF a b] by blast
  have only: "y = a" if "rooted (ds_parent s) l y" for y using that l by (rule rooted_unique)
  have only': "y = b" if "rooted (ds_parent s) r y" for y using that r by (rule rooted_unique)
  assume "merged (same_class s) l r u v"
  then consider x where "rooted (ds_parent s) u x" "rooted (ds_parent s) v x"
    | "rooted (ds_parent s) u a" "rooted (ds_parent s) v b" | "rooted (ds_parent s) u b" "rooted (ds_parent s) v a"
    unfolding merged_def same_class_def using only only' by metis
  then show "same_class t u v"
  proof cases
    case 1
    then show ?thesis using at unfolding same_class_def by blast
  next
    case 2
    then show ?thesis using at [of u a] at [of v b] b(3) unfolding same_class_def by auto
  next
    case 3
    then show ?thesis using at [of u b] at [of v a] b(3) unfolding same_class_def by auto
  qed
qed

lemma same_class_sym: "same_class s u v = same_class s v u"
  by (auto simp: same_class_def)

lemma same_class_trans: "same_class s u v \<Longrightarrow> same_class s v w \<Longrightarrow> same_class s u w"
  unfolding same_class_def using rooted_unique by blast

lemma merged_commute: "merged (same_class s) l r = merged (same_class s) r l"
  by (auto simp: merged_def fun_eq_iff)

theorem unite_ok:
  assumes "ds_ok s" and "lhs < length (ds_parent s)" and "rhs < length (ds_parent s)"
  obtains s' where "ds_unite lhs rhs s = Some s'" "ds_ok s'" "length (ds_parent s') = length (ds_parent s)"
    "\<And>u v. same_class s' u v = merged (same_class s) lhs rhs u v"
proof -
  from ds_find_ok [OF assms(1,2)] obtain x s1 where f1: "ds_find lhs s = Some (x, s1)" "rooted (ds_parent s) lhs x"
    "x < length (ds_parent s)" "ds_ok s1" "same_roots (ds_parent s) (ds_parent s1)" "ds_rank s1 = ds_rank s" by blast
  have len1: "length (ds_parent s1) = length (ds_parent s)" using f1(5) by (simp add: same_roots_def)
  from ds_find_ok [OF f1(4), of rhs] assms(3) len1 obtain y s2 where f2: "ds_find rhs s1 = Some (y, s2)" "rooted (ds_parent s1) rhs y"
    "y < length (ds_parent s1)" "ds_ok s2" "same_roots (ds_parent s1) (ds_parent s2)" "ds_rank s2 = ds_rank s1" by metis
  have len2: "length (ds_parent s2) = length (ds_parent s)" using f2(5) len1 by (simp add: same_roots_def)
  have cls: "same_class s2 = same_class s"
    using same_roots_class [OF f1(5)] same_roots_class [OF f2(5)] by (simp add: fun_eq_iff)
  have rx: "rooted (ds_parent s2) lhs x" and ry: "rooted (ds_parent s2) rhs y"
    using f1(2,5) f2(2,5) unfolding same_roots_def by simp_all
  note px = rooted_root [OF rx] and py = rooted_root [OF ry]
  define link where "link a b = s2\<lparr>ds_parent := (ds_parent s2)[b := a],
    ds_rank := if ds_rank s2 ! a = ds_rank s2 ! b then (ds_rank s2)[a := ds_rank s2 ! a + 1] else ds_rank s2\<rparr>" for a b
  have un: "ds_unite lhs rhs s = Some (if x = y then s2 else if ds_rank s2 ! x < ds_rank s2 ! y then link y x else link x y)"
    unfolding ds_unite_def f1(1) Option.bind.simps prod.case f2(1) link_def by (simp add: Let_def)
  consider "x = y" | "x \<noteq> y" "ds_rank s2 ! x < ds_rank s2 ! y" | "x \<noteq> y" "\<not> ds_rank s2 ! x < ds_rank s2 ! y" by blast
  then show ?thesis
  proof cases
    case 1
    have "same_class s lhs rhs" using rx ry 1 cls unfolding same_class_def by metis
    then have "same_class s u v = merged (same_class s) lhs rhs u v" for u v
      unfolding merged_def using same_class_trans same_class_sym by blast
    with un 1 f2(4) len2 cls show ?thesis by (intro that [of s2]) simp_all
  next
    case 2
    have "same_class (link y x) u v = merged (same_class s2) rhs lhs u v" for u v
      by (rule link_class [OF py px _ _ ry rx]) (use 2 f1(3) len2 link_def in simp_all)
    moreover have "ds_ok (link y x)"
      unfolding link_def by (rule link_ok [OF f2(4) py _ px]) (use 2 f1(3) f2(3) len1 len2 in simp_all)
    ultimately show ?thesis using un 2 len2 cls
      by (intro that [of "link y x"]) (simp_all add: merged_commute [of s lhs] link_def)
  next
    case 3
    have "same_class (link x y) u v = merged (same_class s2) lhs rhs u v" for u v
      by (rule link_class [OF px py _ _ rx ry]) (use 3 f2(3) len1 len2 link_def in simp_all)
    moreover have "ds_ok (link x y)"
      unfolding link_def by (rule link_ok [OF f2(4) px _ py]) (use 3 f1(3) f2(3) len1 len2 in simp_all)
    ultimately show ?thesis using un 3 len2 cls
      by (intro that [of "link x y"]) (simp_all add: link_def)
  qed
qed

end
