(* ===== verification/Detector_Fusion.thy ===== *)
theory Detector_Fusion
  imports Disjoint_Set Engine_World Image_Validation
begin

text \<open>
  The fusion of several plate detectors (\<^verbatim>\<open>application/multi_detector_fusion.cpp\<close>): the detections of
  every detector are collected, duplicates of one detector are dropped, the detections of different detectors
  that overlap are grouped by a union-find structure, and each group becomes one detection whose box is the
  weighted mean and whose confidence is the noisy-or of its members. The detectors are parameters. Both orders
  leave detections that agree on every field they compare in an unspecified order under \<open>std::sort\<close>; the
  model keeps those in the order found.
\<close>

section \<open>Configuration and data\<close>

record DetectorRegistration =
  dr_provider :: "(string \<times> (ImageView \<Rightarrow> OperationContext \<Rightarrow> Detection list io)) option"
  dr_weight :: fl
  dr_enabled :: bool

record MultiDetectorFusionConfig =
  same_model_iou_threshold :: fl
  same_model_min_area_overlap_threshold :: fl
  cross_model_iou_threshold :: fl
  cross_model_min_area_overlap_threshold :: fl
  maximum_groups :: nat

definition default_detector_fusion_config :: MultiDetectorFusionConfig where
  "default_detector_fusion_config =
     \<lparr>same_model_iou_threshold = lit32 (70/100), same_model_min_area_overlap_threshold = lit32 (85/100),
      cross_model_iou_threshold = lit32 (45/100), cross_model_min_area_overlap_threshold = lit32 (70/100),
      maximum_groups = 64\<rparr>"

record DetectionEvidence =
  de_detection :: Detection
  de_provider :: string
  de_weight :: fl

record DetectionGroup =
  dg_fused :: Detection
  dg_evidence :: "DetectionEvidence list"

text \<open>The constructed object: a registration whose pointer is not null has a name and a detector.\<close>

record Detector =
  dt_name :: string
  dt_detect :: "ImageView \<Rightarrow> OperationContext \<Rightarrow> Detection list io"
  dt_weight :: fl
  dt_enabled :: bool

record MultiDetectorFusion =
  mdf_detectors :: "Detector list"
  mdf_config :: MultiDetectorFusionConfig

definition validate_probability :: "fl \<Rightarrow> string \<Rightarrow> unit result" where
  "validate_probability v field =
     throw_if (\<not> is_finite v \<or> flt v (Fin 0) \<or> flt (Fin 1) v) (ConfigurationError (field @ '' must be finite and in [0,1]''))"

definition register_detector :: "DetectorRegistration \<Rightarrow> Detector list \<Rightarrow> Detector list result" where
  "register_detector r ds =
     (case dr_provider r of
        None \<Rightarrow> Inl (ConfigurationError ''detector registration provider cannot be null'')
      | Some (name, detector) \<Rightarrow> res_bind (check_all
         [validate_probability (dr_weight r) ''detector weight'',
          throw_if (name = []) (ConfigurationError ''detector provider name cannot be empty''),
          throw_if (name \<in> set (map dt_name ds)) (ConfigurationError ''detector provider names must be unique'')])
         (\<lambda>_. Inr (ds @ [\<lparr>dt_name = name, dt_detect = detector, dt_weight = dr_weight r, dt_enabled = dr_enabled r\<rparr>])))"

definition make_detector_fusion :: "DetectorRegistration list \<Rightarrow> MultiDetectorFusionConfig \<Rightarrow> MultiDetectorFusion result" where
  "make_detector_fusion rs cfg =
     res_bind (check_all
       [throw_if (rs = []) (ConfigurationError ''multi-detector fusion requires at least one detector''),
        validate_probability (same_model_iou_threshold cfg) ''same-model IoU threshold'',
        validate_probability (same_model_min_area_overlap_threshold cfg) ''same-model min-area overlap threshold'',
        validate_probability (cross_model_iou_threshold cfg) ''cross-model IoU threshold'',
        validate_probability (cross_model_min_area_overlap_threshold cfg) ''cross-model min-area overlap threshold'',
        throw_if (maximum_groups cfg = 0) (ConfigurationError ''maximum detector group count must be greater than zero'')])
     (\<lambda>_. res_bind (res_fold register_detector rs []) (\<lambda>ds. Inr \<lparr>mdf_detectors = ds, mdf_config = cfg\<rparr>))"

section \<open>Overlap\<close>

record BoxOverlap =
  bo_iou :: fl
  bo_min_area :: fl

definition overlap :: "BoundingBox \<Rightarrow> BoundingBox \<Rightarrow> BoxOverlap" where
  "overlap l r =
     (if \<not> bbox_is_valid l \<or> \<not> bbox_is_valid r then \<lparr>bo_iou = Fin 0, bo_min_area = Fin 0\<rparr>
      else
        let left = fmax (bb_x l) (bb_x r);
            top = fmax (bb_y l) (bb_y r);
            right = fmin (add32 (bb_x l) (bb_width l)) (add32 (bb_x r) (bb_width r));
            bottom = fmin (add32 (bb_y l) (bb_height l)) (add32 (bb_y r) (bb_height r));
            width = fmax (Fin 0) (sub32 right left);
            height = fmax (Fin 0) (sub32 bottom top);
            intersection = mul32 width height;
            union_area = sub32 (add32 (bbox_area l) (bbox_area r)) intersection;
            min_area = fmin (bbox_area l) (bbox_area r)
        in \<lparr>bo_iou = (if flt (Fin 0) union_area then div32 intersection union_area else Fin 0),
            bo_min_area = (if flt (Fin 0) min_area then div32 intersection min_area else Fin 0)\<rparr>)"

definition overlaps_enough :: "BoundingBox \<Rightarrow> BoundingBox \<Rightarrow> fl \<Rightarrow> fl \<Rightarrow> bool" where
  "overlaps_enough l r iou_threshold min_area_threshold =
     (fle iou_threshold (bo_iou (overlap l r)) \<or> fle min_area_threshold (bo_min_area (overlap l r)))"

section \<open>Orders\<close>

text \<open>A comparator that looks at one field and leaves a tie to the next one.\<close>

definition then_less :: "('a \<Rightarrow> fl) \<Rightarrow> ('a \<Rightarrow> 'a \<Rightarrow> bool) \<Rightarrow> 'a \<Rightarrow> 'a \<Rightarrow> bool" where
  "then_less f rest l r = (if \<not> feq (f l) (f r) then flt (f l) (f r) else rest l r)"

definition then_greater :: "('a \<Rightarrow> fl) \<Rightarrow> ('a \<Rightarrow> 'a \<Rightarrow> bool) \<Rightarrow> 'a \<Rightarrow> 'a \<Rightarrow> bool" where
  "then_greater f rest l r = (if \<not> feq (f l) (f r) then flt (f r) (f l) else rest l r)"

definition box_order :: "('a \<Rightarrow> Detection) \<Rightarrow> 'a \<Rightarrow> 'a \<Rightarrow> bool" where
  "box_order det =
     then_greater (\<lambda>a. det_confidence (det a))
       (then_less (\<lambda>a. bb_x (det_bbox (det a)))
         (then_less (\<lambda>a. bb_y (det_bbox (det a)))
           (then_less (\<lambda>a. bb_width (det_bbox (det a)))
             (\<lambda>l r. flt (bb_height (det_bbox (det l))) (bb_height (det_bbox (det r)))))))"

definition evidence_order :: "DetectionEvidence \<Rightarrow> DetectionEvidence \<Rightarrow> bool" where
  "evidence_order l r =
     (if de_provider l \<noteq> de_provider r then de_provider l < de_provider r else box_order de_detection l r)"

definition group_order :: "DetectionGroup \<Rightarrow> DetectionGroup \<Rightarrow> bool" where
  "group_order = box_order dg_fused"

section \<open>Suppression of one detector's duplicates\<close>

definition is_duplicate :: "MultiDetectorFusionConfig \<Rightarrow> DetectionEvidence \<Rightarrow> DetectionEvidence \<Rightarrow> bool" where
  "is_duplicate cfg candidate accepted =
     (de_provider accepted = de_provider candidate \<and>
      overlaps_enough (det_bbox (de_detection accepted)) (det_bbox (de_detection candidate))
        (same_model_iou_threshold cfg) (same_model_min_area_overlap_threshold cfg))"

definition deduplicate_same_model :: "DetectionEvidence list \<Rightarrow> MultiDetectorFusionConfig \<Rightarrow> DetectionEvidence list" where
  "deduplicate_same_model evidence cfg =
     fold (\<lambda>candidate deduplicated.
         if list_ex (is_duplicate cfg candidate) deduplicated then deduplicated else deduplicated @ [candidate])
       (stable_sort evidence_order evidence) []"

section \<open>Groups\<close>

fun opt_fold :: "('a \<Rightarrow> 's \<Rightarrow> 's option) \<Rightarrow> 'a list \<Rightarrow> 's \<Rightarrow> 's option" where
  "opt_fold f [] s = Some s"
| "opt_fold f (x # xs) s = Option.bind (f x s) (opt_fold f xs)"

definition linked :: "MultiDetectorFusionConfig \<Rightarrow> DetectionEvidence \<Rightarrow> DetectionEvidence \<Rightarrow> bool" where
  "linked cfg l r =
     (de_provider l \<noteq> de_provider r \<and>
      overlaps_enough (det_bbox (de_detection l)) (det_bbox (de_detection r))
        (cross_model_iou_threshold cfg) (cross_model_min_area_overlap_threshold cfg))"

definition link_row :: "MultiDetectorFusionConfig \<Rightarrow> DetectionEvidence list \<Rightarrow> nat \<Rightarrow> DisjointSet \<Rightarrow> DisjointSet option" where
  "link_row cfg ev lhs =
     opt_fold (\<lambda>rhs s. if linked cfg (ev ! lhs) (ev ! rhs) then ds_unite lhs rhs s else Some s) [lhs + 1..<length ev]"

definition link_all :: "MultiDetectorFusionConfig \<Rightarrow> DetectionEvidence list \<Rightarrow> DisjointSet option" where
  "link_all cfg ev = opt_fold (link_row cfg ev) [0..<length ev] (make_set (length ev))"

definition push_group :: "'a \<Rightarrow> 'a list option \<Rightarrow> 'a list" where
  "push_group x old = (case old of None \<Rightarrow> [] | Some xs \<Rightarrow> xs) @ [x]"

definition group_index :: "'a list \<Rightarrow> nat \<Rightarrow> DisjointSet \<times> (nat \<times> 'a list) list \<Rightarrow> (DisjointSet \<times> (nat \<times> 'a list) list) option" where
  "group_index ev i = (\<lambda>(s, grouped).
     map_option (\<lambda>(root, s'). (s', omap_alter root (push_group (ev ! i)) grouped)) (ds_find i s))"

definition grouped_evidence :: "MultiDetectorFusionConfig \<Rightarrow> DetectionEvidence list \<Rightarrow> DetectionEvidence list list option" where
  "grouped_evidence cfg ev =
     Option.bind (link_all cfg ev) (\<lambda>s.
     map_option (\<lambda>(_, grouped). map snd grouped) (opt_fold (group_index ev) [0..<length ev] (s, [])))"

section \<open>One group\<close>

definition evidence_score :: "DetectionEvidence \<Rightarrow> fl" where
  "evidence_score e = mul32 (det_confidence (de_detection e)) (de_weight e)"

definition keep_stronger :: "DetectionEvidence \<Rightarrow> DetectionEvidence option \<Rightarrow> DetectionEvidence" where
  "keep_stronger item old =
     (case old of None \<Rightarrow> item
      | Some current \<Rightarrow> if flt (evidence_score current) (evidence_score item) then item else current)"

definition strongest_by_provider :: "DetectionEvidence list \<Rightarrow> (string \<times> DetectionEvidence) list" where
  "strongest_by_provider evidence = fold (\<lambda>e. omap_alter (de_provider e) (keep_stronger e)) evidence []"

record GroupSums =
  gs_total_weight :: fl
  gs_x :: fl
  gs_y :: fl
  gs_width :: fl
  gs_height :: fl
  gs_geometry :: fl
  gs_complement :: fl
  gs_best_score :: fl
  gs_best_quadrilateral :: "PlateQuadrilateral option option"   \<comment> \<open>of the best detection, null before the first\<close>
  gs_evidence :: "DetectionEvidence list"

definition no_sums :: GroupSums where
  "no_sums = \<lparr>gs_total_weight = Fin 0, gs_x = Fin 0, gs_y = Fin 0, gs_width = Fin 0, gs_height = Fin 0, gs_geometry = Fin 0,
     gs_complement = Fin 1, gs_best_score = NInf, gs_best_quadrilateral = None, gs_evidence = []\<rparr>"

text \<open>
  The loop body. The best detection is read after its evidence was moved into the group; a quadrilateral is
  plain data, which a move leaves in place, so its value is the one it has here.
\<close>

definition add_member :: "string \<times> DetectionEvidence \<Rightarrow> GroupSums \<Rightarrow> GroupSums" where
  "add_member = (\<lambda>(provider, item) s.
     let item = item\<lparr>de_detection := (de_detection item)\<lparr>det_provider := provider\<rparr>\<rparr>;
         d = de_detection item; b = det_bbox d;
         contribution = clamp01 (mul32 (det_confidence d) (de_weight item));
         box_weight = fmax contribution (lit32 (1/1000000));
         better = flt (gs_best_score s) contribution
     in \<lparr>gs_total_weight = add32 (gs_total_weight s) box_weight,
         gs_x = add32 (gs_x s) (mul32 (bb_x b) box_weight),
         gs_y = add32 (gs_y s) (mul32 (bb_y b) box_weight),
         gs_width = add32 (gs_width s) (mul32 (bb_width b) box_weight),
         gs_height = add32 (gs_height s) (mul32 (bb_height b) box_weight),
         gs_geometry = add32 (gs_geometry s) (mul32 (det_geometry_score d) box_weight),
         gs_complement = mul32 (gs_complement s) (sub32 (Fin 1) contribution),
         gs_best_score = (if better then contribution else gs_best_score s),
         gs_best_quadrilateral = (if better then Some (det_quadrilateral d) else gs_best_quadrilateral s),
         gs_evidence = gs_evidence s @ [item]\<rparr>)"

definition fused_of :: "GroupSums \<Rightarrow> PlateQuadrilateral option \<Rightarrow> Detection" where
  "fused_of s quadrilateral =
     \<lparr>det_bbox = \<lparr>bb_x = div32 (gs_x s) (gs_total_weight s), bb_y = div32 (gs_y s) (gs_total_weight s),
        bb_width = div32 (gs_width s) (gs_total_weight s), bb_height = div32 (gs_height s) (gs_total_weight s)\<rparr>,
      det_quadrilateral = quadrilateral,
      det_confidence = clamp01 (sub32 (Fin 1) (gs_complement s)),
      det_geometry_score = clamp01 (div32 (gs_geometry s) (gs_total_weight s)),
      det_provider = ''multi_detector_fusion''\<rparr>"

definition build_group :: "DetectionEvidence list \<Rightarrow> DetectionGroup result" where
  "build_group evidence =
     (let s = fold add_member (strongest_by_provider evidence) no_sums in
      if fle (gs_total_weight s) (Fin 0) then Inl (InternalError ''multi-detector fusion produced an empty group'')
      else case gs_best_quadrilateral s of
          None \<Rightarrow> Inl (InternalError ''multi-detector fusion produced an empty group'')
        | Some quadrilateral \<Rightarrow> Inr \<lparr>dg_fused = fused_of s quadrilateral, dg_evidence = gs_evidence s\<rparr>)"

section \<open>The detector\<close>

definition valid_detection :: "Detection \<Rightarrow> bool" where
  "valid_detection d =
     (\<not> (\<not> bbox_is_valid (det_bbox d) \<or> \<not> is_finite (det_confidence d) \<or>
         flt (det_confidence d) (Fin 0) \<or> flt (Fin 1) (det_confidence d)))"

definition evidence_of :: "Detector \<Rightarrow> Detection \<Rightarrow> DetectionEvidence result" where
  "evidence_of dt d =
     (if \<not> valid_detection d then Inl (ProviderError (''detector returned invalid evidence: '' @ dt_name dt))
      else Inr \<lparr>de_detection = d, de_provider = dt_name dt, de_weight = dt_weight dt\<rparr>)"

definition run_detector :: "ImageView \<Rightarrow> OperationContext \<Rightarrow> Detector \<Rightarrow> DetectionEvidence list \<Rightarrow> DetectionEvidence list io" where
  "run_detector view ctx dt evidence =
     (if \<not> dt_enabled dt \<or> fle (dt_weight dt) (Fin 0) then io_return evidence
      else io_bind (dt_detect dt view ctx) (\<lambda>detections.
        io_lift (res_bind (res_map_list (evidence_of dt) detections) (\<lambda>es. Inr (evidence @ es)))))"

text \<open>What is done with the evidence; \<open>None\<close> would be a \<open>find\<close> that does not return.\<close>

definition fuse_evidence :: "MultiDetectorFusionConfig \<Rightarrow> DetectionEvidence list \<Rightarrow> DetectionGroup list result option" where
  "fuse_evidence cfg evidence =
     (let evidence = deduplicate_same_model evidence cfg in
      if evidence = [] then Some (Inr [])
      else map_option (\<lambda>grouped. res_bind (res_map_list build_group grouped) (\<lambda>groups.
          Inr (take (maximum_groups cfg) (stable_sort group_order groups))))
        (grouped_evidence cfg (stable_sort evidence_order evidence)))"

definition detect_groups :: "MultiDetectorFusion \<Rightarrow> ImageView \<Rightarrow> OperationContext \<Rightarrow> DetectionGroup list option io" where
  "detect_groups f view ctx =
     io_bind (io_fold (run_detector view ctx) (mdf_detectors f) []) (\<lambda>evidence.
     case fuse_evidence (mdf_config f) evidence of
       None \<Rightarrow> io_return None
     | Some r \<Rightarrow> io_lift (map_sum (\<lambda>e. e) Some r))"

definition fusion_detect :: "MultiDetectorFusion \<Rightarrow> ImageView \<Rightarrow> OperationContext \<Rightarrow> Detection list option io" where
  "fusion_detect f view ctx =
     io_bind (detect_groups f view ctx) (\<lambda>groups. io_return (map_option (map dg_fused) groups))"

section \<open>The orders are strict weak orders\<close>

lemma then_less_weak:
  assumes "weak_order_on rest ok" and "\<And>x. ok x \<Longrightarrow> f x \<noteq> NaN"
  shows "weak_order_on (then_less f rest) ok"
proof -
  note asym = weak_order_on.lt_asym [OF assms(1)] and trans = weak_order_on.not_lt_trans [OF assms(1)]
  show ?thesis
  proof
    fix x y
    assume "ok x" "ok y" "then_less f rest x y"
    then show "\<not> then_less f rest y x"
      using asym [of x y] assms(2) by (auto simp: then_less_def feq_def split: if_splits dest: flt_asym)
  next
    fix x y z
    assume ok: "ok x" "ok y" "ok z" and "\<not> then_less f rest y x" "\<not> then_less f rest z y"
    then have "(flt (f x) (f y) \<or> f x = f y \<and> \<not> rest y x)" "(flt (f y) (f z) \<or> f y = f z \<and> \<not> rest z y)"
      using assms(2) flt_linear [of "f x" "f y"] flt_linear [of "f y" "f z"] by (auto simp: then_less_def feq_def split: if_splits)
    then have "flt (f x) (f z) \<or> f x = f z \<and> \<not> rest z x"
      using trans [OF ok] flt_trans by metis
    then show "\<not> then_less f rest z x"
      using assms(2) ok by (auto simp: then_less_def feq_def dest: flt_asym)
  qed
qed

lemma then_greater_weak:
  assumes "weak_order_on rest ok" and "\<And>x. ok x \<Longrightarrow> f x \<noteq> NaN"
  shows "weak_order_on (then_greater f rest) ok"
proof -
  have "then_greater f rest = then_less (\<lambda>a. fneg (f a)) rest"
  proof (intro ext)
    fix l r
    show "then_greater f rest l r = then_less (\<lambda>a. fneg (f a)) rest l r"
      by (cases "f l"; cases "f r") (auto simp: then_greater_def then_less_def feq_def)
  qed
  moreover have "fneg (f x) \<noteq> NaN" if "ok x" for x using assms(2) [OF that] by (cases "f x") auto
  ultimately show ?thesis using then_less_weak [OF assms(1), of "\<lambda>a. fneg (f a)"] by simp
qed

definition box_comparable :: "Detection \<Rightarrow> bool" where
  "box_comparable d \<longleftrightarrow> det_confidence d \<noteq> NaN \<and> bb_x (det_bbox d) \<noteq> NaN \<and> bb_y (det_bbox d) \<noteq> NaN \<and>
     bb_width (det_bbox d) \<noteq> NaN \<and> bb_height (det_bbox d) \<noteq> NaN"

lemma flt_weak: "(\<And>x. ok x \<Longrightarrow> f x \<noteq> NaN) \<Longrightarrow> weak_order_on (\<lambda>l r. flt (f l) (f r)) ok"
  by unfold_locales (auto dest: flt_asym simp: not_flt intro: fle_trans)

lemma box_order_weak: "weak_order_on (box_order det) (\<lambda>a. box_comparable (det a))"
  unfolding box_order_def
  by (intro then_greater_weak then_less_weak flt_weak) (simp_all add: box_comparable_def)

interpretation group_sort: weak_order_on group_order "\<lambda>g. box_comparable (dg_fused g)"
  unfolding group_order_def by (rule box_order_weak)

interpretation evidence_sort: weak_order_on evidence_order "\<lambda>e. box_comparable (de_detection e)"
proof -
  note asym = weak_order_on.lt_asym [OF box_order_weak] and trans = weak_order_on.not_lt_trans [OF box_order_weak]
  show "weak_order_on evidence_order (\<lambda>e. box_comparable (de_detection e))"
  proof
    fix x y
    assume "box_comparable (de_detection x)" "box_comparable (de_detection y)" "evidence_order x y"
    then show "\<not> evidence_order y x" using asym [of de_detection x y] by (auto simp: evidence_order_def split: if_splits)
  next
    fix x y z
    assume ok: "box_comparable (de_detection x)" "box_comparable (de_detection y)" "box_comparable (de_detection z)"
      and "\<not> evidence_order y x" "\<not> evidence_order z y"
    then show "\<not> evidence_order z x"
      using trans [of de_detection, OF ok] by (auto simp: evidence_order_def split: if_splits)
  qed
qed

lemma box_order_confidence:
  "\<not> box_order det b a \<Longrightarrow> box_comparable (det a) \<Longrightarrow> box_comparable (det b) \<Longrightarrow>
   fle (det_confidence (det b)) (det_confidence (det a))"
  by (auto simp: box_order_def then_greater_def box_comparable_def not_flt feq_def split: if_splits)

section \<open>Suppression\<close>

definition suppress :: "MultiDetectorFusionConfig \<Rightarrow> DetectionEvidence list \<Rightarrow> DetectionEvidence list" where
  "suppress cfg xs = fold (\<lambda>candidate deduplicated.
     if list_ex (is_duplicate cfg candidate) deduplicated then deduplicated else deduplicated @ [candidate]) xs []"

lemma suppress_simps:
  "suppress cfg [] = []"
  "suppress cfg (xs @ [x]) = (if list_ex (is_duplicate cfg x) (suppress cfg xs) then suppress cfg xs else suppress cfg xs @ [x])"
  by (simp_all add: suppress_def)

lemma suppress_set: "set (suppress cfg xs) \<subseteq> set xs"
  by (induction xs rule: rev_induct) (auto simp: suppress_simps)

lemma suppress_apart: "sorted_wrt (\<lambda>a b. \<not> is_duplicate cfg b a) (suppress cfg xs)"
proof (induction xs rule: rev_induct)
  case (snoc x xs)
  then show ?case by (simp add: suppress_simps list_ex_iff sorted_wrt_append)
qed (simp add: suppress_simps)

lemma suppress_covers:
  "sorted_wrt R xs \<Longrightarrow> e \<in> set xs \<Longrightarrow> e \<in> set (suppress cfg xs) \<or> (\<exists>a \<in> set (suppress cfg xs). is_duplicate cfg e a \<and> R a e)"
proof (induction xs rule: rev_induct)
  case (snoc x xs)
  then have sorted: "sorted_wrt R xs" and last: "\<And>a. a \<in> set xs \<Longrightarrow> R a x" by (auto simp: sorted_wrt_append)
  show ?case
  proof (cases "e \<in> set xs")
    case True
    from snoc.IH [OF sorted this] show ?thesis by (auto simp: suppress_simps)
  next
    case False
    with snoc.prems have e: "e = x" by simp
    show ?thesis
    proof (cases "list_ex (is_duplicate cfg x) (suppress cfg xs)")
      case True
      then obtain a where a: "a \<in> set (suppress cfg xs)" "is_duplicate cfg x a" by (auto simp: list_ex_iff)
      then have "R a x" using last suppress_set by blast
      with a True e show ?thesis by (auto simp: suppress_simps)
    next
      case False
      then show ?thesis using e by (simp add: suppress_simps)
    qed
  qed
qed simp

lemma deduplicate_suppress: "deduplicate_same_model ev cfg = suppress cfg (stable_sort evidence_order ev)"
  by (simp add: deduplicate_same_model_def suppress_def)

text \<open>
  Non-maximum suppression within a detector. Of the detections collected, those kept are among them, no two
  kept detections of one detector overlap enough to be duplicates, and every detection dropped overlaps a kept
  detection of the same detector whose confidence is at least its own.
\<close>

theorem same_model_suppression:
  assumes "\<forall>e \<in> set ev. valid_detection (de_detection e)"
  shows "set (deduplicate_same_model ev cfg) \<subseteq> set ev \<and>
    (\<forall>i j. i < j \<longrightarrow> j < length (deduplicate_same_model ev cfg) \<longrightarrow>
       \<not> is_duplicate cfg (deduplicate_same_model ev cfg ! j) (deduplicate_same_model ev cfg ! i)) \<and>
    (\<forall>e \<in> set ev. e \<in> set (deduplicate_same_model ev cfg) \<or>
       (\<exists>a \<in> set (deduplicate_same_model ev cfg). is_duplicate cfg e a \<and>
          fle (det_confidence (de_detection e)) (det_confidence (de_detection a))))"
proof (intro conjI)
  let ?s = "stable_sort evidence_order ev"
  have ok: "\<forall>e \<in> set ev. box_comparable (de_detection e)"
    using assms by (auto simp: valid_detection_def box_comparable_def bbox_is_valid_def)
  show "set (deduplicate_same_model ev cfg) \<subseteq> set ev"
    using suppress_set [of cfg ?s] by (simp add: deduplicate_suppress)
  show "\<forall>i j. i < j \<longrightarrow> j < length (deduplicate_same_model ev cfg) \<longrightarrow>
       \<not> is_duplicate cfg (deduplicate_same_model ev cfg ! j) (deduplicate_same_model ev cfg ! i)"
    using suppress_apart [of cfg ?s] by (simp add: deduplicate_suppress sorted_wrt_iff_nth_less)
  show "\<forall>e \<in> set ev. e \<in> set (deduplicate_same_model ev cfg) \<or>
       (\<exists>a \<in> set (deduplicate_same_model ev cfg). is_duplicate cfg e a \<and>
          fle (det_confidence (de_detection e)) (det_confidence (de_detection a)))"
  proof
    fix e
    assume e: "e \<in> set ev"
    have conf: "fle (det_confidence (de_detection e)) (det_confidence (de_detection a))"
      if a: "a \<in> set (suppress cfg ?s)" "is_duplicate cfg e a" "\<not> evidence_order e a" for a
    proof -
      have "a \<in> set ev" using a(1) suppress_set [of cfg ?s] by auto
      moreover have "\<not> box_order de_detection e a" using a(2,3) by (auto simp: evidence_order_def is_duplicate_def)
      ultimately show ?thesis using ok e by (intro box_order_confidence [of de_detection]) auto
    qed
    from suppress_covers [OF evidence_sort.stable_sort_sorted [OF ok], of e cfg] e conf
    show "e \<in> set (deduplicate_same_model ev cfg) \<or>
       (\<exists>a \<in> set (deduplicate_same_model ev cfg). is_duplicate cfg e a \<and>
          fle (det_confidence (de_detection e)) (det_confidence (de_detection a)))"
      unfolding deduplicate_suppress by auto
  qed
qed

section \<open>Groups are the components of the overlap relation\<close>

lemma fmax_commute: "a \<noteq> NaN \<Longrightarrow> b \<noteq> NaN \<Longrightarrow> fmax a b = fmax b a"
  using flt_linear [of a b] by (auto simp: fmax_def dest: flt_asym)

lemma fmin_commute: "a \<noteq> NaN \<Longrightarrow> b \<noteq> NaN \<Longrightarrow> fmin a b = fmin b a"
  using flt_linear [of a b] by (auto simp: fmin_def dest: flt_asym)

lemma fadd_commute: "fadd F a b = fadd F b a"
  by (cases a; cases b) (simp_all add: add.commute)

lemma bbox_area_not_NaN: "bbox_is_valid b \<Longrightarrow> bbox_area b \<noteq> NaN"
  by (auto simp: bbox_is_valid_def bbox_area_def is_finite_iff)

lemma add32_finite_not_NaN: "is_finite a \<Longrightarrow> is_finite b \<Longrightarrow> add32 a b \<noteq> NaN"
  by (auto simp: is_finite_iff)

lemma overlap_commute: "overlap l r = overlap r l"
proof (cases "bbox_is_valid l \<and> bbox_is_valid r")
  case True
  then have fin: "is_finite (bb_x l)" "is_finite (bb_y l)" "is_finite (bb_width l)" "is_finite (bb_height l)"
    "is_finite (bb_x r)" "is_finite (bb_y r)" "is_finite (bb_width r)" "is_finite (bb_height r)"
    by (auto simp: bbox_is_valid_def)
  have x: "fmax (bb_x l) (bb_x r) = fmax (bb_x r) (bb_x l)" "fmax (bb_y l) (bb_y r) = fmax (bb_y r) (bb_y l)"
    by (intro fmax_commute is_finite_not_NaN fin)+
  have r: "fmin (add32 (bb_x l) (bb_width l)) (add32 (bb_x r) (bb_width r)) = fmin (add32 (bb_x r) (bb_width r)) (add32 (bb_x l) (bb_width l))"
    "fmin (add32 (bb_y l) (bb_height l)) (add32 (bb_y r) (bb_height r)) = fmin (add32 (bb_y r) (bb_height r)) (add32 (bb_y l) (bb_height l))"
    by (intro fmin_commute add32_finite_not_NaN fin)+
  have a: "fmin (bbox_area l) (bbox_area r) = fmin (bbox_area r) (bbox_area l)"
    by (intro fmin_commute bbox_area_not_NaN) (use True in simp_all)
  show ?thesis unfolding overlap_def x r a fadd_commute [of binary32 "bbox_area l" "bbox_area r"] using True by simp
qed (auto simp: overlap_def)

lemma linked_commute: "linked cfg l r = linked cfg r l"
  unfolding linked_def overlaps_enough_def by (metis overlap_commute)

text \<open>Connection by a chain of links, as a relation on the indices.\<close>

definition conn :: "(nat \<times> nat) set \<Rightarrow> (nat \<times> nat) set" where
  "conn E = (E \<union> E\<inverse>)\<^sup>*"

lemma conn_insert: "(u, v) \<in> conn (insert (l, r) E) \<longleftrightarrow> merged (\<lambda>a b. (a, b) \<in> conn E) l r u v"
proof -
  have eq: "insert (l, r) E \<union> (insert (l, r) E)\<inverse> = insert (l, r) (insert (r, l) (E \<union> E\<inverse>))" by auto
  have t: "(a, b) \<in> (E \<union> E\<inverse>)\<^sup>* \<Longrightarrow> (b, c) \<in> (E \<union> E\<inverse>)\<^sup>* \<Longrightarrow> (a, c) \<in> (E \<union> E\<inverse>)\<^sup>*" for a b c
    by (rule rtrancl_trans)
  show ?thesis
    unfolding conn_def eq rtrancl_insert merged_def by (auto dest: t)
qed

lemma conn_mono: "E \<subseteq> E' \<Longrightarrow> conn E \<subseteq> conn E'"
  unfolding conn_def by (intro rtrancl_mono) auto

lemma opt_fold_append: "opt_fold f (xs @ ys) s = Option.bind (opt_fold f xs s) (opt_fold f ys)"
proof (induction xs arbitrary: s)
  case (Cons x xs)
  then show ?case by (cases "f x s") simp_all
qed simp

text \<open>A fold whose every step returns returns, and an invariant of the processed prefix holds at its end.\<close>

lemma opt_fold_prefix:
  assumes "I [] s" and "\<And>ys x s. x \<in> set xs \<Longrightarrow> I ys s \<Longrightarrow> \<exists>t. f x s = Some t \<and> I (ys @ [x]) t"
  shows "\<exists>t. opt_fold f xs s = Some t \<and> I xs t"
  using assms
proof (induction xs rule: rev_induct)
  case (snoc x xs)
  then obtain t where "opt_fold f xs s = Some t" "I xs t" by auto
  with snoc.prems(2) [of x xs t] show ?case by (auto simp: opt_fold_append)
qed simp

definition ds_is :: "nat \<Rightarrow> (nat \<times> nat) set \<Rightarrow> DisjointSet \<Rightarrow> bool" where
  "ds_is sz E s \<longleftrightarrow> ds_ok s \<and> length (ds_parent s) = sz \<and> (\<forall>u < sz. \<forall>v < sz. same_class s u v = ((u, v) \<in> conn E))"

lemma unite_is:
  assumes "ds_is sz E s" and "l < sz" and "r < sz"
  shows "\<exists>t. ds_unite l r s = Some t \<and> ds_is sz (insert (l, r) E) t"
proof -
  from assms have ok: "ds_ok s" "l < length (ds_parent s)" "r < length (ds_parent s)" by (auto simp: ds_is_def)
  from unite_ok [OF this] obtain t where t: "ds_unite l r s = Some t" "ds_ok t" "length (ds_parent t) = length (ds_parent s)"
    "\<And>u v. same_class t u v = merged (same_class s) l r u v" by blast
  have "same_class t u v = ((u, v) \<in> conn (insert (l, r) E))" if "u < sz" "v < sz" for u v
    using assms that unfolding t(4) conn_insert merged_def ds_is_def by simp
  with t(1-3) assms(1) show ?thesis by (auto simp: ds_is_def)
qed

definition row_links :: "MultiDetectorFusionConfig \<Rightarrow> DetectionEvidence list \<Rightarrow> nat \<Rightarrow> nat list \<Rightarrow> (nat \<times> nat) set" where
  "row_links cfg ev lhs js = {(lhs, j) | j. j \<in> set js \<and> linked cfg (ev ! lhs) (ev ! j)}"

lemma link_row_is:
  assumes "ds_is (length ev) E s" and "lhs < length ev"
  shows "\<exists>t. link_row cfg ev lhs s = Some t \<and> ds_is (length ev) (E \<union> row_links cfg ev lhs [lhs + 1..<length ev]) t"
  unfolding link_row_def
proof (rule opt_fold_prefix [where I = "\<lambda>js. ds_is (length ev) (E \<union> row_links cfg ev lhs js)"])
  show "ds_is (length ev) (E \<union> row_links cfg ev lhs []) s" using assms(1) by (simp add: row_links_def)
  fix js rhs s
  assume rhs: "rhs \<in> set [lhs + 1..<length ev]" and s: "ds_is (length ev) (E \<union> row_links cfg ev lhs js) s"
  have more: "E \<union> row_links cfg ev lhs (js @ [rhs]) =
      (if linked cfg (ev ! lhs) (ev ! rhs) then insert (lhs, rhs) (E \<union> row_links cfg ev lhs js) else E \<union> row_links cfg ev lhs js)"
    by (auto simp: row_links_def)
  show "\<exists>t. (if linked cfg (ev ! lhs) (ev ! rhs) then ds_unite lhs rhs s else Some s) = Some t \<and>
      ds_is (length ev) (E \<union> row_links cfg ev lhs (js @ [rhs])) t"
    using unite_is [OF s assms(2), of rhs] rhs s unfolding more by auto
qed

definition overlap_links :: "MultiDetectorFusionConfig \<Rightarrow> DetectionEvidence list \<Rightarrow> (nat \<times> nat) set" where
  "overlap_links cfg ev = {(i, j). i < length ev \<and> j < length ev \<and> linked cfg (ev ! i) (ev ! j)}"

lemma symmetric_hull: "X \<subseteq> L \<Longrightarrow> (\<And>i j. (i, j) \<in> L \<Longrightarrow> (i, j) \<in> X \<union> X\<inverse>) \<Longrightarrow> X \<union> X\<inverse> = L \<union> L\<inverse>"
  by auto

lemma make_set_is: "ds_is sz {} (make_set sz)"
proof -
  have "rooted [0..<sz] u r \<longleftrightarrow> r = u" if "u < sz" for u r
    using that by (auto elim: rooted.cases intro: rooted_here)
  then show ?thesis using make_set_ok by (auto simp: ds_is_def same_class_def conn_def make_set_def)
qed

lemma link_all_is: "\<exists>s. link_all cfg ev = Some s \<and> ds_is (length ev) (overlap_links cfg ev) s"
proof -
  let ?E = "\<lambda>ks. \<Union>i \<in> set ks. row_links cfg ev i [i + 1..<length ev]"
  have "\<exists>s. link_all cfg ev = Some s \<and> ds_is (length ev) (?E [0..<length ev]) s"
    unfolding link_all_def
  proof (rule opt_fold_prefix [where I = "\<lambda>ks. ds_is (length ev) (?E ks)"])
    show "ds_is (length ev) (?E []) (make_set (length ev))" using make_set_is by simp
    fix ks i s
    assume "i \<in> set [0..<length ev]" "ds_is (length ev) (?E ks) s"
    with link_row_is [of ev "?E ks" s i cfg] show "\<exists>t. link_row cfg ev i s = Some t \<and> ds_is (length ev) (?E (ks @ [i])) t"
      by (simp add: Un_commute)
  qed
  moreover have "conn (?E [0..<length ev]) = conn (overlap_links cfg ev)"
  proof -
    have "(i, j) \<in> ?E [0..<length ev] \<union> (?E [0..<length ev])\<inverse>" if "(i, j) \<in> overlap_links cfg ev" for i j
    proof -
      from that have ij: "i < length ev" "j < length ev" "linked cfg (ev ! i) (ev ! j)" by (auto simp: overlap_links_def)
      then have "i \<noteq> j" by (auto simp: linked_def)
      with ij linked_commute [of cfg "ev ! i"] show ?thesis by (cases "i < j") (auto simp: row_links_def)
    qed
    moreover have "?E [0..<length ev] \<subseteq> overlap_links cfg ev" by (auto simp: row_links_def overlap_links_def)
    ultimately have "?E [0..<length ev] \<union> (?E [0..<length ev])\<inverse> = overlap_links cfg ev \<union> (overlap_links cfg ev)\<inverse>"
      by (intro symmetric_hull) auto
    then show ?thesis by (simp add: conn_def)
  qed
  ultimately show ?thesis by (simp add: ds_is_def)
qed

text \<open>Moving the evidence into the map of the roots.\<close>

definition members :: "nat list \<Rightarrow> nat list \<Rightarrow> nat \<Rightarrow> nat list" where
  "members parent ks r = filter (\<lambda>i. rooted parent i r) ks"

definition grouping :: "'a list \<Rightarrow> nat list \<Rightarrow> nat list \<Rightarrow> DisjointSet \<times> (nat \<times> 'a list) list \<Rightarrow> bool" where
  "grouping ev parent ks = (\<lambda>(s, m). ds_ok s \<and> same_roots parent (ds_parent s) \<and> omap_invar m \<and>
     (\<forall>r. map_of m r = (if members parent ks r = [] then None else Some (map ((!) ev) (members parent ks r)))))"

lemma group_index_grouping:
  assumes "grouping ev parent ks (s, m)" and "i < length parent"
  shows "\<exists>t. group_index ev i (s, m) = Some t \<and> grouping ev parent (ks @ [i]) t"
proof -
  have s: "ds_ok s" "same_roots parent (ds_parent s)" and m: "omap_invar m"
    "\<And>r. map_of m r = (if members parent ks r = [] then None else Some (map ((!) ev) (members parent ks r)))"
    using assms(1) by (auto simp: grouping_def)
  have "i < length (ds_parent s)" using s(2) assms(2) by (simp add: same_roots_def)
  from ds_find_ok [OF s(1) this] obtain r t where t: "ds_find i s = Some (r, t)" "rooted (ds_parent s) i r" "ds_ok t"
    "same_roots (ds_parent s) (ds_parent t)" by blast
  have r: "rooted parent i r" using t(2) s(2) by (simp add: same_roots_def)
  have root: "same_roots parent (ds_parent t)" using s(2) t(4) by (simp add: same_roots_def)
  have "rooted parent i x \<longleftrightarrow> x = r" for x using r rooted_unique by blast
  then have mem: "members parent (ks @ [i]) x = members parent ks x @ (if x = r then [i] else [])" for x
    by (simp add: members_def)
  have "map_of (omap_alter r (push_group (ev ! i)) m) x =
      (if members parent (ks @ [i]) x = [] then None else Some (map ((!) ev) (members parent (ks @ [i]) x)))" for x
    unfolding map_of_omap_alter [OF m(1)] mem m(2) by (simp add: push_group_def)
  then show ?thesis using t(1,3) root omap_invar_alter [OF m(1)] by (simp add: group_index_def grouping_def)
qed

definition overlap_classes :: "MultiDetectorFusionConfig \<Rightarrow> DetectionEvidence list \<Rightarrow> nat set set" where
  "overlap_classes cfg ev = {..<length ev} // {(i, j). j < length ev \<and> (i, j) \<in> (overlap_links cfg ev)\<^sup>*}"

lemma overlap_conn: "conn (overlap_links cfg ev) = (overlap_links cfg ev)\<^sup>*"
proof -
  have "(i, j) \<in> (overlap_links cfg ev)\<inverse> \<longleftrightarrow> (i, j) \<in> overlap_links cfg ev" for i j
    by (auto simp: overlap_links_def linked_commute [of cfg "ev ! j" "ev ! i"])
  then have "(overlap_links cfg ev)\<inverse> = overlap_links cfg ev" by (intro subset_antisym subrelI) blast+
  then show ?thesis by (simp add: conn_def)
qed

lemma members_class:
  assumes s: "ds_is (length ev) (overlap_links cfg ev) s" and i: "i < length ev" "rooted (ds_parent s) i r"
  shows "set (members (ds_parent s) [0..<length ev] r) =
    {(i, j). j < length ev \<and> (i, j) \<in> (overlap_links cfg ev)\<^sup>*} `` {i}"
proof -
  have "rooted (ds_parent s) j r \<longleftrightarrow> same_class s i j" for j
    using i(2) rooted_unique unfolding same_class_def by blast
  moreover have "same_class s i j \<longleftrightarrow> (i, j) \<in> (overlap_links cfg ev)\<^sup>*" if "j < length ev" for j
    using s i(1) that by (simp add: ds_is_def overlap_conn)
  ultimately show ?thesis by (auto simp: members_def)
qed

text \<open>
  C23: what the union-find computes. The groups are exactly the classes of the evidence under the reflexive and transitive
  closure of \<open>overlaps enough and comes from another detector\<close>: each class is one group, in the order of the
  evidence, and nothing is lost or duplicated.
\<close>

theorem groups_are_overlap_components:
  "\<exists>groups indices. grouped_evidence cfg ev = Some groups \<and> groups = map (map ((!) ev)) indices \<and>
     distinct (map set indices) \<and> set ` set indices = overlap_classes cfg ev \<and> list_all (sorted_wrt (<)) indices"
proof -
  from link_all_is obtain s where s: "link_all cfg ev = Some s" "ds_is (length ev) (overlap_links cfg ev) s" by blast
  let ?p = "ds_parent s"
  let ?C = "members ?p [0..<length ev]"
  from s(2) have len: "length ?p = length ev" and ok: "ds_ok s" by (simp_all add: ds_is_def)
  have "\<exists>t. opt_fold (group_index ev) [0..<length ev] (s, []) = Some t \<and> grouping ev ?p [0..<length ev] t"
  proof (rule opt_fold_prefix [where I = "grouping ev ?p"])
    show "grouping ev ?p [] (s, [])" using ok by (simp add: grouping_def members_def same_roots_def omap_invar_def)
    show "\<exists>u. group_index ev i t = Some u \<and> grouping ev ?p (ks @ [i]) u"
      if "i \<in> set [0..<length ev]" "grouping ev ?p ks t" for ks i t
      using group_index_grouping [of ev ?p ks "fst t" "snd t" i] that len by simp
  qed
  then obtain t m where f: "opt_fold (group_index ev) [0..<length ev] (s, []) = Some (t, m)" "grouping ev ?p [0..<length ev] (t, m)"
    by (metis surj_pair)
  have inv: "omap_invar m" and look: "\<And>r. map_of m r = (if ?C r = [] then None else Some (map ((!) ev) (?C r)))"
    using f(2) by (auto simp: grouping_def)
  have entry: "?C r \<noteq> []" "es = map ((!) ev) (?C r)" if "(r, es) \<in> set m" for r es
    using that om.entries_lookup [OF inv, of r es] look [of r] by (auto split: if_splits)
  have key: "r \<in> fst ` set m" if "?C r \<noteq> []" for r
    using that om.entries_lookup [OF inv, of r "map ((!) ev) (?C r)"] look [of r] by force
  have "set (?C r) \<in> overlap_classes cfg ev" if ne: "?C r \<noteq> []" for r
  proof -
    from ne obtain i where "i \<in> set (?C r)" by (cases "?C r") auto
    then have i: "i < length ev" "rooted ?p i r" by (auto simp: members_def)
    show ?thesis unfolding overlap_classes_def members_class [OF s(2) i] using i(1) by (intro quotientI) simp
  qed
  then have sub: "set (?C r) \<in> overlap_classes cfg ev" if "r \<in> fst ` set m" for r using that entry(1) by force
  have sup: "\<exists>r \<in> fst ` set m. X = set (?C r)" if X: "X \<in> overlap_classes cfg ev" for X
  proof -
    from X obtain i where i: "i < length ev" "X = {(i, j). j < length ev \<and> (i, j) \<in> (overlap_links cfg ev)\<^sup>*} `` {i}"
      unfolding overlap_classes_def by (elim quotientE) simp
    from rooted_exists [OF ok, of i] i(1) len obtain r where r: "rooted ?p i r" by auto
    then have "?C r \<noteq> []" using i(1) by (auto simp: members_def filter_empty_conv)
    then have "r \<in> fst ` set m" by (rule key)
    moreover have "X = set (?C r)" unfolding i(2) members_class [OF s(2) i(1) r] ..
    ultimately show ?thesis by blast
  qed
  show ?thesis
  proof (intro exI [of _ "map snd m"] exI [of _ "map (\<lambda>p. ?C (fst p)) m"] conjI)
    show "grouped_evidence cfg ev = Some (map snd m)" using s(1) f(1) by (simp add: grouped_evidence_def)
    show "map snd m = map (map ((!) ev)) (map (\<lambda>p. ?C (fst p)) m)" using entry(2) by auto
    have "inj_on (\<lambda>p. set (?C (fst p))) (set m)"
    proof (rule inj_onI)
      fix p q
      assume p: "p \<in> set m" and q: "q \<in> set m" and eq: "set (?C (fst p)) = set (?C (fst q))"
      from p entry(1) [of "fst p" "snd p"] obtain i where i: "i \<in> set (?C (fst p))" by (cases "?C (fst p)") auto
      then have "rooted ?p i (fst p)" "rooted ?p i (fst q)" using eq by (auto simp: members_def)
      then have "fst p = fst q" by (rule rooted_unique)
      with p q omap_distinct [OF inv] show "p = q" by (simp add: distinct_map inj_on_def)
    qed
    then show "distinct (map set (map (\<lambda>p. ?C (fst p)) m))"
      using omap_distinct [OF inv] by (simp add: distinct_map o_def)
    show "set ` set (map (\<lambda>p. ?C (fst p)) m) = overlap_classes cfg ev" using sub sup by (auto simp: image_iff)
    show "list_all (sorted_wrt (<)) (map (\<lambda>p. ?C (fst p)) m)"
      by (auto simp: members_def list_all_iff intro: sorted_wrt_filter)
  qed
qed

section \<open>What a group says\<close>

definition fusable :: "DetectionEvidence \<Rightarrow> bool" where
  "fusable e \<longleftrightarrow> valid_detection (de_detection e) \<and> is_prob (de_weight e)"

lemma strongest_invar: "omap_invar (strongest_by_provider evidence)"
  unfolding strongest_by_provider_def by (rule om.fold_alter_invar [OF om.invar_empty])

lemma strongest_entry:
  assumes "(p, e) \<in> set (strongest_by_provider evidence)"
  shows "e \<in> set evidence \<and> de_provider e = p"
proof -
  have "map_of (fold (\<lambda>e. omap_alter (de_provider e) (keep_stronger e)) evidence []) p = Some e"
    using assms om.entries_lookup [OF strongest_invar] unfolding strongest_by_provider_def by blast
  then show ?thesis
    by (rule om.fold_alter_bindings [OF om.invar_empty, rotated -1, where P = "\<lambda>p e. e \<in> set evidence \<and> de_provider e = p"])
      (auto simp: keep_stronger_def)
qed

lemma strongest_keys: "fst ` set (strongest_by_provider evidence) = de_provider ` set evidence"
proof -
  have "p \<in> fst ` set (strongest_by_provider evidence) \<longleftrightarrow> map_of (strongest_by_provider evidence) p \<noteq> None" for p
    by (simp add: map_of_eq_None_iff)
  also have "\<dots> p \<longleftrightarrow> p \<in> de_provider ` set evidence" for p
    unfolding strongest_by_provider_def om.fold_alter_keys [OF om.invar_empty] by simp
  finally show ?thesis by blast
qed

lemma contribution_prob:
  "fusable e \<Longrightarrow> is_prob (clamp01 (mul32 (det_confidence (de_detection e)) (de_weight e)))"
proof -
  assume "fusable e"
  then have "is_prob (mul32 (det_confidence (de_detection e)) (de_weight e))"
    by (intro b32.prob_fmul) (auto simp: fusable_def valid_detection_def is_prob_def)
  then show ?thesis by simp
qed

text \<open>What the sums over the members satisfy after \<open>n\<close> members.\<close>

definition sums_ok :: "nat \<Rightarrow> GroupSums \<Rightarrow> bool" where
  "sums_ok n s \<longleftrightarrow>
     (\<exists>t. gs_total_weight s = Fin t \<and> 0 \<le> t \<and> t \<le> of_nat n \<and> (0 < n \<longrightarrow> 0 < t)) \<and>
     gs_x s \<noteq> NaN \<and> gs_y s \<noteq> NaN \<and> gs_width s \<noteq> NaN \<and> gs_height s \<noteq> NaN \<and>
     is_prob (gs_complement s) \<and> (if n = 0 then gs_best_score s = NInf else gs_best_quadrilateral s \<noteq> None)"

lemma no_sums_ok: "sums_ok 0 no_sums"
  by (simp add: sums_ok_def no_sums_def)

lemma fadd_finite_not_NaN: "a \<noteq> NaN \<Longrightarrow> is_finite b \<Longrightarrow> add32 a b \<noteq> NaN"
  by (cases a) (auto simp: is_finite_iff)

definition float_box :: "BoundingBox \<Rightarrow> bool" where
  "float_box b = (is_float (bb_x b) \<and> is_float (bb_y b) \<and> is_float (bb_width b) \<and> is_float (bb_height b))"

lemma float_scaled_finite:
  assumes "is_float a" and "is_finite a" and "is_prob w"
  shows "is_finite (mul32 a w)"
proof -
  from assms obtain x where x: "a = Fin x" "round_fl binary32 x = Fin x" by (auto simp: is_finite_iff is_float_def fcast_def)
  from assms(3) obtain v where v: "w = Fin v" "0 \<le> v" "v \<le> 1" by (rule is_probE)
  have "fle (Fin (min 0 x)) (round_fl binary32 (x * v)) \<and> fle (round_fl binary32 (x * v)) (Fin (max 0 x))"
  proof (cases "0 \<le> x")
    case True
    then have "x * v \<le> x" using v by (simp add: mult_left_le)
    moreover have "0 \<le> x * v" using True v by simp
    ultimately show ?thesis
      using b32.round_fl_mono [of 0 "x * v"] b32.round_fl_mono [of "x * v" x] True x(2) by (simp add: min_def max_def)
  next
    case False
    then have "x \<le> x * v" using v mult_left_mono_neg [of v 1 x] by simp
    moreover have "x * v \<le> 0" using False v by (simp add: mult_nonpos_nonneg)
    ultimately show ?thesis
      using b32.round_fl_mono [of x "x * v"] b32.round_fl_mono [of "x * v" 0] False x(2) by (simp add: min_def max_def)
  qed
  then show ?thesis using x(1) v(1) by (cases "round_fl binary32 (x * v)") auto
qed

lemma minimum_box_weight: "flt (Fin 0) (lit32 (1/1000000))"
  by code_simp

lemma box_weight_ok:
  assumes "is_prob c"
  shows "is_prob (fmax c (lit32 (1/1000000)))" "fle (lit32 (1/1000000)) (fmax c (lit32 (1/1000000)))"
proof -
  have l: "is_prob (lit32 (1/1000000))" unfolding lit32_def by (rule b32.prob_round) simp_all
  show "is_prob (fmax c (lit32 (1/1000000)))" using assms l by (rule prob_fmax)
  show "fle (lit32 (1/1000000)) (fmax c (lit32 (1/1000000)))" by (rule fmax_ge(2)) (use assms l in auto)
qed

lemma add_weight_ok:
  assumes "0 \<le> t" and "t \<le> of_nat n" and "n + 1 < 2 ^ 24" and w: "is_prob w" "fle (lit32 (1/1000000)) w"
  shows "\<exists>z. add32 (Fin t) w = Fin z \<and> 0 < z \<and> z \<le> of_nat (n + 1)"
proof -
  from b32.fadd_prob_bound [OF assms(1,2) _ _ w(1)] assms(3)
  obtain z where z: "add32 (Fin t) w = Fin z" "0 \<le> z" "z \<le> of_nat (n + 1)" by (auto simp: binary32_def)
  obtain l where l: "lit32 (1/1000000) = Fin l" "0 < l" using minimum_box_weight 
    using b32.round_fl_prob [of "1/1000000"] by (auto simp: lit32_def)
  obtain v where v: "w = Fin v" "l \<le> v" using w l(1) by (auto simp: is_prob_iff)
  have "l = round_rat binary32 (1/1000000)" using l(1) by (auto simp: lit32_def round_fl_def Let_def split: if_splits)
  then have "round_rat binary32 l = l" by (simp add: b32.round_round)
  moreover have "z = round_rat binary32 (t + v)" using z(1) v(1) by (auto simp: round_fl_def Let_def split: if_splits)
  moreover have "round_rat binary32 l \<le> round_rat binary32 (t + v)" by (rule b32.round_mono) (use v(2) assms(1) in simp)
  ultimately have "0 < z" using l(2) by simp
  with z show ?thesis by blast
qed

lemma add_member_ok:
  assumes s: "sums_ok n s" and e: "fusable e" "float_box (det_bbox (de_detection e))" and n: "n + 1 < 2 ^ 24"
  shows "sums_ok (n + 1) (add_member (p, e) s)"
proof -
  let ?c = "clamp01 (mul32 (det_confidence (de_detection e)) (de_weight e))"
  let ?w = "fmax ?c (lit32 (1/1000000))"
  let ?b = "det_bbox (de_detection e)"
  have c: "is_prob ?c" by (rule contribution_prob [OF e(1)])
  note w = box_weight_ok [OF c]
  have valid: "is_finite (bb_x ?b)" "is_finite (bb_y ?b)" "is_finite (bb_width ?b)" "is_finite (bb_height ?b)"
    using e(1) by (auto simp: fusable_def valid_detection_def bbox_is_valid_def)
  have fin: "is_finite (mul32 (bb_x ?b) ?w)" "is_finite (mul32 (bb_y ?b) ?w)" "is_finite (mul32 (bb_width ?b) ?w)"
    "is_finite (mul32 (bb_height ?b) ?w)"
    using e(2) by (auto simp: float_box_def intro!: float_scaled_finite valid w(1))
  obtain t where t: "gs_total_weight s = Fin t" "0 \<le> t" "t \<le> of_nat n" using s by (auto simp: sums_ok_def)
  from add_weight_ok [OF t(2,3) n w] obtain z where z: "add32 (Fin t) ?w = Fin z" "0 < z" "z \<le> of_nat (n + 1)" by blast
  have best: "flt (gs_best_score s) ?c \<or> gs_best_quadrilateral s \<noteq> None"
    using s c by (cases n) (auto simp: sums_ok_def)
  have compl: "is_prob (mul32 (gs_complement s) (sub32 (Fin 1) ?c))"
    using s c by (auto simp: sums_ok_def intro!: b32.prob_fmul b32.prob_one_minus)
  have nan: "add32 (gs_x s) (mul32 (bb_x ?b) ?w) \<noteq> NaN" "add32 (gs_y s) (mul32 (bb_y ?b) ?w) \<noteq> NaN"
    "add32 (gs_width s) (mul32 (bb_width ?b) ?w) \<noteq> NaN" "add32 (gs_height s) (mul32 (bb_height ?b) ?w) \<noteq> NaN"
    by (rule fadd_finite_not_NaN [OF _ fin(1)] fadd_finite_not_NaN [OF _ fin(2)] fadd_finite_not_NaN [OF _ fin(3)]
        fadd_finite_not_NaN [OF _ fin(4)], use s in \<open>simp add: sums_ok_def\<close>)+
  show ?thesis
    unfolding sums_ok_def add_member_def Let_def prod.case
    using z t(1) best compl nan by (cases "flt (gs_best_score s) ?c") (simp_all del: fadd.simps)
qed

lemma fold_add_member_ok:
  assumes "sums_ok n s" and "\<forall>(p, e) \<in> set ms. fusable e \<and> float_box (det_bbox (de_detection e))" and "n + length ms < 2 ^ 24"
  shows "sums_ok (n + length ms) (fold add_member ms s)"
  using assms
proof (induction ms arbitrary: n s)
  case (Cons m ms)
  obtain p e where m: "m = (p, e)" by (cases m)
  have "sums_ok (n + 1) (add_member m s)" unfolding m using Cons.prems m by (intro add_member_ok) auto
  from Cons.IH [OF this] Cons.prems show ?case by simp
qed simp

definition named_evidence :: "string \<times> DetectionEvidence \<Rightarrow> DetectionEvidence" where
  "named_evidence = (\<lambda>(p, e). e\<lparr>de_detection := (de_detection e)\<lparr>det_provider := p\<rparr>\<rparr>)"

lemma fold_add_member_evidence: "gs_evidence (fold add_member ms s) = gs_evidence s @ map named_evidence ms"
  by (induction ms arbitrary: s) (auto simp: add_member_def named_evidence_def Let_def)

lemma keep_stronger_fold:
  assumes "fold (\<lambda>x v. Some (keep_stronger x v)) xs (Some c) = Some e" and "\<forall>x \<in> insert c (set xs). evidence_score x \<noteq> NaN"
  shows "\<forall>x \<in> insert c (set xs). fle (evidence_score x) (evidence_score e)"
  using assms
proof (induction xs arbitrary: c)
  case (Cons x xs)
  let ?k = "keep_stronger x (Some c)"
  have k: "?k = x \<or> ?k = c" by (simp add: keep_stronger_def)
  have "\<forall>y \<in> insert ?k (set xs). fle (evidence_score y) (evidence_score e)"
    by (rule Cons.IH) (use Cons.prems k in auto)
  moreover have "fle (evidence_score c) (evidence_score ?k)" "fle (evidence_score x) (evidence_score ?k)"
    using Cons.prems(2) not_flt [of "evidence_score c" "evidence_score x"] by (auto simp: keep_stronger_def fle_def feq_def)
  ultimately show ?case by (auto intro: fle_trans)
qed simp

lemma strongest_is_strongest:
  assumes "(p, e) \<in> set (strongest_by_provider evidence)" and "\<forall>x \<in> set evidence. evidence_score x \<noteq> NaN"
    and "x \<in> set evidence" and "de_provider x = p"
  shows "fle (evidence_score x) (evidence_score e)"
proof -
  let ?xs = "filter (\<lambda>x. de_provider x = p) evidence"
  have "map_of (strongest_by_provider evidence) p = Some e"
    using assms(1) om.entries_lookup [OF strongest_invar] by blast
  then have f: "fold (\<lambda>x v. Some (keep_stronger x v)) ?xs None = Some e"
    unfolding strongest_by_provider_def om.lookup_fold_alter [OF om.invar_empty] by simp
  have "x \<in> set ?xs" using assms(3,4) by simp
  then obtain c cs where xs: "?xs = c # cs" by (cases ?xs) auto
  have "fold (\<lambda>x v. Some (keep_stronger x v)) cs (Some c) = Some e" using f unfolding xs by (simp add: keep_stronger_def)
  moreover have "\<forall>y \<in> insert c (set cs). evidence_score y \<noteq> NaN"
    using assms(2) arg_cong [OF xs, of set] by auto
  ultimately have "\<forall>y \<in> insert c (set cs). fle (evidence_score y) (evidence_score e)" by (rule keep_stronger_fold)
  with \<open>x \<in> set ?xs\<close> show ?thesis unfolding xs by (simp only: list.set)
qed

lemma evidence_score_not_NaN: "fusable e \<Longrightarrow> evidence_score e \<noteq> NaN"
proof -
  assume "fusable e"
  then have "is_prob (evidence_score e)" unfolding evidence_score_def
    by (intro b32.prob_fmul) (auto simp: fusable_def valid_detection_def is_prob_def)
  then show ?thesis by simp
qed

text \<open>What a group of the evidence \<open>ev\<close> promises.\<close>

definition group_of :: "DetectionEvidence list \<Rightarrow> DetectionGroup \<Rightarrow> bool" where
  "group_of ev g \<longleftrightarrow> ev \<noteq> [] \<and>
     map de_provider (dg_evidence g) = sorted_list_of_set (de_provider ` set ev) \<and>
     (\<forall>k \<in> set (dg_evidence g). \<exists>e \<in> set ev. k = named_evidence (de_provider e, e) \<and>
        (\<forall>x \<in> set ev. de_provider x = de_provider e \<longrightarrow> fle (evidence_score x) (evidence_score e))) \<and>
     is_prob (det_confidence (dg_fused g)) \<and> box_comparable (dg_fused g) \<and> det_provider (dg_fused g) = ''multi_detector_fusion''"

lemma div_finite_not_NaN: "a \<noteq> NaN \<Longrightarrow> 0 < t \<Longrightarrow> div32 a (Fin t) \<noteq> NaN"
  by (cases a) (auto simp: signed_inf_def)

lemma build_group_ok:
  assumes "ev \<noteq> []" and "\<forall>e \<in> set ev. fusable e \<and> float_box (det_bbox (de_detection e))"
    and "card (de_provider ` set ev) < 2 ^ 24"
  shows "\<exists>g. build_group ev = Inr g \<and> group_of ev g"
proof -
  let ?m = "strongest_by_provider ev"
  let ?s = "fold add_member ?m no_sums"
  have keys: "map fst ?m = sorted_list_of_set (de_provider ` set ev)"
    using strongest_invar strongest_keys by (metis list.set_map omap_invar_def sorted_list_of_set.idem_if_sorted_distinct strict_sorted_iff)
  have len: "length ?m = card (de_provider ` set ev)"
    using arg_cong [OF keys, of length] by simp
  have "?m \<noteq> []" using assms(1) strongest_keys [of ev] by auto
  then have pos: "0 < length ?m" by simp
  have "sums_ok (0 + length ?m) ?s"
  proof (rule fold_add_member_ok [OF no_sums_ok])
    show "\<forall>(p, e) \<in> set ?m. fusable e \<and> float_box (det_bbox (de_detection e))"
      using strongest_entry assms(2) by blast
  qed (use len assms(3) in simp)
  with pos obtain t q where t: "gs_total_weight ?s = Fin t" "0 < t" and q: "gs_best_quadrilateral ?s = Some q"
    and nan: "gs_x ?s \<noteq> NaN" "gs_y ?s \<noteq> NaN" "gs_width ?s \<noteq> NaN" "gs_height ?s \<noteq> NaN" and compl: "is_prob (gs_complement ?s)"
    by (auto simp: sums_ok_def)
  have conf: "is_prob (clamp01 (sub32 (Fin 1) (gs_complement ?s)))"
    using b32.prob_one_minus [OF compl] by simp
  have build: "build_group ev = Inr \<lparr>dg_fused = fused_of ?s q, dg_evidence = gs_evidence ?s\<rparr>"
    using t q by (simp add: build_group_def Let_def)
  have evd: "gs_evidence ?s = map named_evidence ?m" by (simp add: fold_add_member_evidence no_sums_def)
  have "map de_provider (map named_evidence ?m) = map fst ?m"
    using strongest_entry by (fastforce simp: named_evidence_def)
  moreover have "\<exists>e \<in> set ev. named_evidence pe = named_evidence (de_provider e, e) \<and>
        (\<forall>x \<in> set ev. de_provider x = de_provider e \<longrightarrow> fle (evidence_score x) (evidence_score e))" if "pe \<in> set ?m" for pe
  proof -
    obtain p e where pe: "pe = (p, e)" by (cases pe)
    with that strongest_entry have e: "e \<in> set ev" "de_provider e = p" by auto
    have "fle (evidence_score x) (evidence_score e)" if "x \<in> set ev" "de_provider x = p" for x
      using strongest_is_strongest [of p e ev x] that \<open>pe \<in> set ?m\<close> pe assms(2) evidence_score_not_NaN by blast
    with e pe show ?thesis by blast
  qed
  moreover have "box_comparable (fused_of ?s q)"
    using conf nan t by (auto simp: box_comparable_def fused_of_def div_finite_not_NaN simp del: fdiv.simps)
  ultimately show ?thesis unfolding build group_of_def using assms(1) keys evd conf by (auto simp: fused_of_def)
qed

section \<open>The detector as a whole\<close>

lemma validate_probability_ok [result_simps]: "validate_probability v field = Inr () \<longleftrightarrow> is_prob v"
  by (auto simp: validate_probability_def result_simps is_prob_def)

definition detectors_ok :: "Detector list \<Rightarrow> bool" where
  "detectors_ok ds \<longleftrightarrow> distinct (map dt_name ds) \<and> (\<forall>d \<in> set ds. dt_name d \<noteq> [] \<and> is_prob (dt_weight d))"

lemma register_detector_ok:
  "register_detector r ds = Inr ds' \<Longrightarrow> detectors_ok ds \<Longrightarrow> detectors_ok ds' \<and> length ds' = length ds + 1"
  by (auto simp: register_detector_def detectors_ok_def result_simps split: option.splits)

lemma make_detector_fusion_ok:
  assumes "make_detector_fusion rs cfg = Inr f"
  shows "detectors_ok (mdf_detectors f) \<and> mdf_detectors f \<noteq> [] \<and> mdf_config f = cfg \<and> 0 < maximum_groups cfg"
proof -
  from assms obtain ds where ds: "res_fold register_detector rs [] = Inr ds" "f = \<lparr>mdf_detectors = ds, mdf_config = cfg\<rparr>"
    and cfg: "rs \<noteq> []" "0 < maximum_groups cfg"
    by (auto simp: make_detector_fusion_def result_simps)
  have "detectors_ok ds \<and> (\<forall>r rs'. rs = r # rs' \<longrightarrow> ds \<noteq> [])"
  proof -
    have "detectors_ok ds" by (rule res_fold_invariant [OF ds(1)]) (auto simp: detectors_ok_def dest!: register_detector_ok)
    moreover have "length ds = length rs" if "res_fold register_detector rs es = Inr ds" "detectors_ok es" "es = []" for es
    proof -
      have "length ds = length es + length rs" using that(1,2)
      proof (induction rs arbitrary: es)
        case (Cons r rs)
        then obtain es' where "register_detector r es = Inr es'" "res_fold register_detector rs es' = Inr ds" by (auto simp: result_simps)
        with register_detector_ok [of r es es'] Cons show ?case by auto
      qed simp
      with that(3) show ?thesis by simp
    qed
    ultimately show ?thesis using ds(1) by (auto simp: detectors_ok_def)
  qed
  with ds cfg show ?thesis by (cases rs) auto
qed

text \<open>The evidence collected: valid detections of enabled detectors, named after them.\<close>

definition collected :: "Detector list \<Rightarrow> DetectionEvidence \<Rightarrow> bool" where
  "collected ds e \<longleftrightarrow> valid_detection (de_detection e) \<and> float_box (det_bbox (de_detection e)) \<and>
     (\<exists>d \<in> set ds. dt_enabled d \<and> de_provider e = dt_name d \<and> de_weight e = dt_weight d)"

definition answers_floats :: "ImageView \<Rightarrow> OperationContext \<Rightarrow> Detector \<Rightarrow> bool" where
  "answers_floats view ctx d \<longleftrightarrow>
     (\<forall>w n detections n'. dt_detect d view ctx w n = (Inr detections, n') \<longrightarrow> (\<forall>x \<in> set detections. float_box (det_bbox x)))"

lemma evidence_of_ok:
  "res_map_list (evidence_of d) xs = Inr es \<Longrightarrow>
   \<forall>e \<in> set es. de_detection e \<in> set xs \<and> valid_detection (de_detection e) \<and> de_provider e = dt_name d \<and> de_weight e = dt_weight d"
  by (induction xs arbitrary: es) (auto simp: result_simps evidence_of_def split: if_splits)

lemma run_detector_collected:
  assumes "run_detector view ctx d acc w n = (Inr ev, n')" and "\<forall>e \<in> set acc. collected ds e" and "d \<in> set ds"
    and "answers_floats view ctx d"
  shows "\<forall>e \<in> set ev. collected ds e"
proof (cases "\<not> dt_enabled d \<or> fle (dt_weight d) (Fin 0)")
  case True
  then show ?thesis using assms(1,2) by (simp add: run_detector_def io_simps)
next
  case False
  with assms(1) obtain xs k es where xs: "dt_detect d view ctx w n = (Inr xs, k)" "res_map_list (evidence_of d) xs = Inr es"
    and ev: "ev = acc @ es"
    by (auto simp: run_detector_def io_simps result_simps)
  have "collected ds e" if "e \<in> set es" for e
    using evidence_of_ok [OF xs(2)] that xs(1) assms(3,4) False unfolding collected_def answers_floats_def by fastforce
  with assms(2) ev show ?thesis by auto
qed

lemma collected_ok: "collected ds e \<Longrightarrow> detectors_ok ds \<Longrightarrow> fusable e \<and> float_box (det_bbox (de_detection e)) \<and>
    de_provider e \<in> dt_name ` {d \<in> set ds. dt_enabled d}"
  by (auto simp: collected_def detectors_ok_def fusable_def)

lemma build_groups_ok:
  assumes "\<forall>es \<in> set ess. es \<noteq> [] \<and> (\<forall>e \<in> set es. fusable e \<and> float_box (det_bbox (de_detection e))) \<and>
    card (de_provider ` set es) < 2 ^ 24"
  shows "\<exists>gs. res_map_list build_group ess = Inr gs \<and> list_all2 group_of ess gs"
  using assms
proof (induction ess)
  case (Cons es ess)
  then obtain g gs where "build_group es = Inr g" "group_of es g" "res_map_list build_group ess = Inr gs" "list_all2 group_of ess gs"
    using build_group_ok [of es] by auto
  then show ?case by auto
qed simp

text \<open>The groups of the kept evidence that \<open>gs\<close> is made of, before the ranking and the cut.\<close>

definition fused_groups :: "MultiDetectorFusionConfig \<Rightarrow> DetectionEvidence list \<Rightarrow> DetectionGroup list \<Rightarrow> bool" where
  "fused_groups cfg ev gs \<longleftrightarrow> (\<exists>kept ess all.
     kept = stable_sort evidence_order (deduplicate_same_model ev cfg) \<and> grouped_evidence cfg kept = Some ess \<and>
     (\<forall>es \<in> set ess. set es \<subseteq> set ev) \<and> list_all2 group_of ess all \<and> gs = take (maximum_groups cfg) (stable_sort group_order all))"

lemma fuse_evidence_ok:
  assumes ev: "\<forall>e \<in> set ev. fusable e \<and> float_box (det_bbox (de_detection e))" and few: "card (de_provider ` set ev) < 2 ^ 24"
  shows "\<exists>gs. fuse_evidence cfg ev = Some (Inr gs) \<and> fused_groups cfg ev gs"
proof -
  let ?k = "stable_sort evidence_order (deduplicate_same_model ev cfg)"
  have kset: "set ?k \<subseteq> set ev" using suppress_set [of cfg "stable_sort evidence_order ev"] by (simp add: deduplicate_suppress)
  from groups_are_overlap_components [of cfg ?k] obtain ess ixs where g: "grouped_evidence cfg ?k = Some ess"
    "ess = map (map ((!) ?k)) ixs" "set ` set ixs = overlap_classes cfg ?k" by blast
  have parts: "es \<noteq> [] \<and> set es \<subseteq> set ev" if es: "es \<in> set ess" for es
  proof -
    from es g(2) obtain ix where ix: "ix \<in> set ixs" "es = map ((!) ?k) ix" by auto
    then have c: "set ix \<in> overlap_classes cfg ?k" using g(3) by blast
    then obtain i where "i < length ?k" "set ix = {(i, j). j < length ?k \<and> (i, j) \<in> (overlap_links cfg ?k)\<^sup>*} `` {i}"
      unfolding overlap_classes_def by (auto elim: quotientE)
    then have "i \<in> set ix" "set ix \<subseteq> {..<length ?k}" by auto
    moreover have "?k ! j \<in> set ev" if "j < length ?k" for j using kset nth_mem [OF that] by blast
    ultimately show ?thesis using ix(2) by auto
  qed
  have "card (de_provider ` set es) < 2 ^ 24" if "set es \<subseteq> set ev" for es
    using few card_mono [of "de_provider ` set ev" "de_provider ` set es"] image_mono [OF that, of de_provider] by simp
  with parts have "\<forall>es \<in> set ess. es \<noteq> [] \<and> (\<forall>e \<in> set es. fusable e \<and> float_box (det_bbox (de_detection e))) \<and>
    card (de_provider ` set es) < 2 ^ 24" using ev by blast
  from build_groups_ok [OF this] obtain all where all: "res_map_list build_group ess = Inr all" "list_all2 group_of ess all" by blast
  have sub: "\<forall>es \<in> set ess. set es \<subseteq> set ev" using parts by blast
  show ?thesis
  proof (cases "deduplicate_same_model ev cfg = []")
    case True
    then have "ess = []" using g(1) by (simp add: grouped_evidence_def link_all_def)
    then have "all = []" using all(2) by simp
    with True g(1) all(2) sub show ?thesis by (auto simp: fuse_evidence_def fused_groups_def)
  next
    case False
    with g(1) all sub show ?thesis by (auto simp: fuse_evidence_def fused_groups_def)
  qed
qed

lemma collected_evidence:
  assumes "io_fold (run_detector view ctx) ds' [] w n = (Inr ev, n')" and "set ds' \<subseteq> set ds"
    and "\<forall>d \<in> set ds. answers_floats view ctx d"
  shows "\<forall>e \<in> set ev. collected ds e"
proof (rule io_fold_invariant [OF assms(1)])
  show "\<forall>e \<in> set t. collected ds e"
    if "x \<in> set ds'" "\<forall>e \<in> set s. collected ds e" "run_detector view ctx x s w k = (Inr t, k')" for x s t k k'
    using run_detector_collected [OF that(3,2)] that(1) assms(2,3) by blast
qed simp

lemma collected_fused:
  assumes "detectors_ok ds" and "\<forall>e \<in> set ev. collected ds e" and "length ds < 2 ^ 24"
  shows "\<exists>gs. fuse_evidence cfg ev = Some (Inr gs) \<and> fused_groups cfg ev gs"
proof (rule fuse_evidence_ok)
  show "\<forall>e \<in> set ev. fusable e \<and> float_box (det_bbox (de_detection e))" using assms collected_ok by blast
  have "de_provider ` set ev \<subseteq> dt_name ` set ds" using assms(1,2) collected_ok by fastforce
  then have "card (de_provider ` set ev) \<le> card (dt_name ` set ds)" by (intro card_mono) simp_all
  also have "\<dots> \<le> length ds" using card_image_le [of "set ds" dt_name] card_length [of ds] by simp
  finally show "card (de_provider ` set ev) < 2 ^ 24" using assms(3) by simp
qed

lemma fused_groups_shape:
  assumes "fused_groups cfg ev gs"
  shows "length gs \<le> maximum_groups cfg \<and>
    sorted_wrt (\<lambda>a b. fle (det_confidence (dg_fused b)) (det_confidence (dg_fused a))) gs \<and>
    (\<forall>g \<in> set gs. \<exists>es. set es \<subseteq> set ev \<and> group_of es g)"
proof -
  from assms obtain kept ess all where g: "\<forall>es \<in> set ess. set es \<subseteq> set ev" "list_all2 group_of ess all"
    "gs = take (maximum_groups cfg) (stable_sort group_order all)" unfolding fused_groups_def by blast
  have src: "\<exists>es \<in> set ess. group_of es g" if "g \<in> set all" for g
    using g(2) that by (induction rule: list_all2_induct) auto
  have ok: "\<forall>g \<in> set all. box_comparable (dg_fused g)" using src by (auto simp: group_of_def)
  have "sorted_wrt (\<lambda>a b. fle (det_confidence (dg_fused b)) (det_confidence (dg_fused a))) (stable_sort group_order all)"
  proof (rule sorted_wrt_mono_rel [OF _ group_sort.stable_sort_sorted [OF ok]])
    show "fle (det_confidence (dg_fused b)) (det_confidence (dg_fused a))"
      if "a \<in> set (stable_sort group_order all)" "b \<in> set (stable_sort group_order all)" "\<not> group_order b a" for a b
      using box_order_confidence [of dg_fused b a] that ok by (simp add: group_order_def)
  qed
  moreover have "\<exists>es. set es \<subseteq> set ev \<and> group_of es g" if "g \<in> set gs" for g
  proof -
    have "g \<in> set all" using that g(3) in_set_takeD by fastforce
    with src g(1) show ?thesis by blast
  qed
  ultimately show ?thesis using g(3) by auto
qed

lemma evidence_of_failure:
  "res_map_list (evidence_of d) xs = Inl e \<Longrightarrow>
   (\<exists>x \<in> set xs. \<not> valid_detection x) \<and> e = ProviderError (''detector returned invalid evidence: '' @ dt_name d)"
proof (induction xs)
  case (Cons x xs)
  show ?case
  proof (cases "valid_detection x")
    case True
    then have "evidence_of d x = Inr \<lparr>de_detection = x, de_provider = dt_name d, de_weight = dt_weight d\<rparr>" by (simp add: evidence_of_def)
    with Cons.prems have "res_map_list (evidence_of d) xs = Inl e" by (auto simp: result_simps)
    from Cons.IH [OF this] show ?thesis by simp
  next
    case False
    with Cons.prems show ?thesis by (simp add: evidence_of_def)
  qed
qed simp

lemma collect_failure:
  assumes "io_fold (run_detector view ctx) ds acc w n = (Inl e, n')"
  shows "\<exists>d \<in> set ds. dt_enabled d \<and> (\<exists>k. dt_detect d view ctx w k = (Inl e, n') \<or>
    (\<exists>detections. dt_detect d view ctx w k = (Inr detections, n') \<and> (\<exists>x \<in> set detections. \<not> valid_detection x) \<and>
       e = ProviderError (''detector returned invalid evidence: '' @ dt_name d)))"
  using assms
proof (induction ds arbitrary: acc n)
  case (Cons d ds)
  from Cons.prems have "io_bind (run_detector view ctx d acc) (io_fold (run_detector view ctx) ds) w n = (Inl e, n')" by simp
  then show ?case
  proof (rule io_bind_InlE)
    assume r: "run_detector view ctx d acc w n = (Inl e, n')"
    then have on: "dt_enabled d" by (auto simp: run_detector_def io_return_def split: if_splits)
    have "io_bind (dt_detect d view ctx) (\<lambda>detections. io_lift (res_bind (res_map_list (evidence_of d) detections)
        (\<lambda>es. Inr (acc @ es)))) w n = (Inl e, n')"
      using r by (auto simp: run_detector_def io_return_def split: if_splits)
    then show ?thesis
    proof (rule io_bind_InlE)
      assume "dt_detect d view ctx w n = (Inl e, n')"
      with on show ?thesis by auto
    next
      fix xs k
      assume xs: "dt_detect d view ctx w n = (Inr xs, k)"
        and "io_lift (res_bind (res_map_list (evidence_of d) xs) (\<lambda>es. Inr (acc @ es))) w k = (Inl e, n')"
      then have "res_map_list (evidence_of d) xs = Inl e" "k = n'" by (auto simp: io_lift_def result_simps)
      with evidence_of_failure [OF this(1)] xs on show ?thesis by auto
    qed
  next
    fix acc' k
    assume "io_fold (run_detector view ctx) ds acc' w k = (Inl e, n')"
    from Cons.IH [OF this] show ?thesis by simp
  qed
qed (simp add: io_return_def)

text \<open>
  C24: what the fusion returns. The union-find always returns, so there is an answer: at most the configured number
  of groups, by decreasing confidence, each with a confidence that is a probability and a non-empty list of
  evidence, at most one per detector and in the order of their names, every piece of which is a valid detection of an enabled
  detector with that detector's weight.
\<close>

theorem detector_fusion_result:
  assumes "make_detector_fusion rs cfg = Inr f"
    and "\<forall>d \<in> set (mdf_detectors f). answers_floats view ctx d" and "length (mdf_detectors f) < 2 ^ 24"
    and "detect_groups f view ctx w n = (Inr r, n')"
  shows "\<exists>groups. r = Some groups \<and> length groups \<le> maximum_groups cfg \<and>
    sorted_wrt (\<lambda>a b. fle (det_confidence (dg_fused b)) (det_confidence (dg_fused a))) groups \<and>
    (\<forall>g \<in> set groups. is_prob (det_confidence (dg_fused g)) \<and> dg_evidence g \<noteq> [] \<and>
       sorted_wrt (<) (map de_provider (dg_evidence g)) \<and>
       (\<forall>e \<in> set (dg_evidence g). valid_detection (de_detection e) \<and>
          (\<exists>d \<in> set (mdf_detectors f). dt_enabled d \<and> dt_name d = de_provider e \<and> dt_weight d = de_weight e)))"
proof -
  from make_detector_fusion_ok [OF assms(1)] have f: "detectors_ok (mdf_detectors f)" "mdf_config f = cfg" by auto
  from assms(4) obtain ev k where ev: "io_fold (run_detector view ctx) (mdf_detectors f) [] w n = (Inr ev, k)"
    and r: "(case fuse_evidence cfg ev of None \<Rightarrow> io_return None | Some r \<Rightarrow> io_lift (map_sum (\<lambda>e. e) Some r)) w k = (Inr r, n')"
    unfolding detect_groups_def f(2) by (auto simp: io_simps)
  have col: "\<forall>e \<in> set ev. collected (mdf_detectors f) e" by (rule collected_evidence [OF ev _ assms(2)]) simp
  from collected_fused [OF f(1) col assms(3)] obtain gs where gs: "fuse_evidence cfg ev = Some (Inr gs)" "fused_groups cfg ev gs" by blast
  have "r = Some gs" using r gs(1) by (simp add: io_simps)
  moreover note shape = fused_groups_shape [OF gs(2)]
  moreover have "is_prob (det_confidence (dg_fused g)) \<and> dg_evidence g \<noteq> [] \<and>
       sorted_wrt (<) (map de_provider (dg_evidence g)) \<and>
       (\<forall>e \<in> set (dg_evidence g). valid_detection (de_detection e) \<and>
          (\<exists>d \<in> set (mdf_detectors f). dt_enabled d \<and> dt_name d = de_provider e \<and> dt_weight d = de_weight e))"
    if "g \<in> set gs" for g
  proof -
    from shape that obtain es where es: "set es \<subseteq> set ev" "group_of es g" by blast
    have names: "map de_provider (dg_evidence g) = sorted_list_of_set (de_provider ` set es)" and "es \<noteq> []"
      using es(2) by (simp_all add: group_of_def)
    have "length (dg_evidence g) = card (de_provider ` set es)" using arg_cong [OF names, of length] by simp
    with \<open>es \<noteq> []\<close> have "dg_evidence g \<noteq> []" by auto
    moreover have "sorted_wrt (<) (map de_provider (dg_evidence g))" using es(2) by (simp add: group_of_def)
    moreover have "valid_detection (de_detection e) \<and>
          (\<exists>d \<in> set (mdf_detectors f). dt_enabled d \<and> dt_name d = de_provider e \<and> dt_weight d = de_weight e)"
      if "e \<in> set (dg_evidence g)" for e
    proof -
      from es(2) that obtain x where x: "x \<in> set es" "e = named_evidence (de_provider x, x)" by (auto simp: group_of_def)
      with es(1) col have "collected (mdf_detectors f) x" by blast
      then show ?thesis unfolding x(2) collected_def named_evidence_def by (auto simp: valid_detection_def)
    qed
    ultimately show ?thesis using es(2) by (auto simp: group_of_def)
  qed
  ultimately show ?thesis by blast
qed

text \<open>
  The fusion adds no failure of its own. When it throws, an enabled detector threw that exception, or it
  returned a detection whose box or confidence is invalid, which is reported with its name.
\<close>

theorem detector_fusion_failures:
  assumes "make_detector_fusion rs cfg = Inr f"
    and "\<forall>d \<in> set (mdf_detectors f). answers_floats view ctx d" and "length (mdf_detectors f) < 2 ^ 24"
    and "detect_groups f view ctx w n = (Inl e, n')"
  shows "\<exists>d \<in> set (mdf_detectors f). dt_enabled d \<and> (\<exists>k. dt_detect d view ctx w k = (Inl e, n') \<or>
    (\<exists>detections. dt_detect d view ctx w k = (Inr detections, n') \<and> (\<exists>x \<in> set detections. \<not> valid_detection x) \<and>
       e = ProviderError (''detector returned invalid evidence: '' @ dt_name d)))"
proof -
  from make_detector_fusion_ok [OF assms(1)] have f: "detectors_ok (mdf_detectors f)" "mdf_config f = cfg" by auto
  from assms(4) consider "io_fold (run_detector view ctx) (mdf_detectors f) [] w n = (Inl e, n')"
    | ev k where "io_fold (run_detector view ctx) (mdf_detectors f) [] w n = (Inr ev, k)"
      "(case fuse_evidence cfg ev of None \<Rightarrow> io_return None | Some r \<Rightarrow> io_lift (map_sum (\<lambda>e. e) Some r)) w k = (Inl e, n')"
    unfolding detect_groups_def f(2) by (rule io_bind_InlE)
  then show ?thesis
  proof cases
    case 1
    then show ?thesis by (rule collect_failure)
  next
    case (2 ev k)
    have "\<forall>x \<in> set ev. collected (mdf_detectors f) x" by (rule collected_evidence [OF 2(1) _ assms(2)]) simp
    from collected_fused [OF f(1) this assms(3), of cfg] obtain gs where "fuse_evidence cfg ev = Some (Inr gs)" by blast
    with 2(2) show ?thesis by (simp add: io_lift_def)
  qed
qed

section \<open>Two detectors\<close>

definition boxed :: "rat \<Rightarrow> rat \<Rightarrow> Detection" where
  "boxed x c = \<lparr>det_bbox = \<lparr>bb_x = Fin x, bb_y = Fin 0, bb_width = Fin 4, bb_height = Fin 2\<rparr>, det_quadrilateral = None,
     det_confidence = Fin c, det_geometry_score = Fin 1, det_provider = []\<rparr>"

definition demo_registrations :: "DetectorRegistration list" where
  "demo_registrations =
     [\<lparr>dr_provider = Some (''b'', \<lambda>_ _. io_return [boxed 0 (1/2), boxed 64 (1/4)]), dr_weight = Fin 1, dr_enabled = True\<rparr>,
      \<lparr>dr_provider = Some (''a'', \<lambda>_ _. io_return [boxed 0 (3/4)]), dr_weight = Fin 1, dr_enabled = True\<rparr>]"

definition demo_view :: ImageView where
  "demo_view = \<lparr>img_bytes = [], img_width = 0, img_height = 0, img_stride = 0, img_format = gray8\<rparr>"

definition demo_world :: World where
  "demo_world = \<lparr>w_clock = \<lambda>_. 0, w_stop = \<lambda>_. False\<rparr>"

definition demo_fusion :: MultiDetectorFusion where
  "demo_fusion = \<lparr>mdf_detectors =
     [\<lparr>dt_name = ''b'', dt_detect = \<lambda>_ _. io_return [boxed 0 (1/2), boxed 64 (1/4)], dt_weight = Fin 1, dt_enabled = True\<rparr>,
      \<lparr>dt_name = ''a'', dt_detect = \<lambda>_ _. io_return [boxed 0 (3/4)], dt_weight = Fin 1, dt_enabled = True\<rparr>],
     mdf_config = default_detector_fusion_config\<rparr>"

lemma demo_made: "make_detector_fusion demo_registrations default_detector_fusion_config = Inr demo_fusion"
proof -
  have l: "is_prob (lit32 x)" if "0 \<le> x" "x \<le> 1" for x using that unfolding lit32_def by (rule b32.prob_round)
  have v: "validate_probability v f = Inr ()" if "is_prob v" for v f using that validate_probability_ok by blast
  show ?thesis
    by (simp add: make_detector_fusion_def demo_registrations_def default_detector_fusion_config_def register_detector_def
      v l demo_fusion_def check_all.simps)
qed

lemma demo_floats: "\<forall>d \<in> set (mdf_detectors demo_fusion). answers_floats view ctx d"
proof -
  have "is_float (Fin 0)" "is_float (Fin 64)" "is_float (Fin 4)" "is_float (Fin 2)" unfolding is_float_def by code_simp+
  then show ?thesis by (simp add: demo_fusion_def answers_floats_def io_simps boxed_def float_box_def)
qed

lemma demo_evidence:
  "io_fold (run_detector demo_view default_context) (mdf_detectors demo_fusion) [] demo_world 0 =
    (Inr [\<lparr>de_detection = boxed 0 (1/2), de_provider = ''b'', de_weight = Fin 1\<rparr>,
      \<lparr>de_detection = boxed 64 (1/4), de_provider = ''b'', de_weight = Fin 1\<rparr>,
      \<lparr>de_detection = boxed 0 (3/4), de_provider = ''a'', de_weight = Fin 1\<rparr>], 0)"
  by code_simp

text \<open>The boxes of the two detectors at the origin are one group; the far box of the second is another.\<close>

lemma demo_groups:
  "map_sum (\<lambda>e. e) (map_option (map (\<lambda>g. map de_provider (dg_evidence g))))
    (fst (detect_groups demo_fusion demo_view default_context demo_world 0)) = Inr (Some [[''a'', ''b''], [''b'']])"
  by code_simp

lemma demo_detected: "\<exists>groups n'. detect_groups demo_fusion demo_view default_context demo_world 0 = (Inr (Some groups), n') \<and>
    map (\<lambda>g. map de_provider (dg_evidence g)) groups = [[''a'', ''b''], [''b'']]"
  using demo_groups by (cases "detect_groups demo_fusion demo_view default_context demo_world 0")
    (auto dest!: map_sum_Inr_obtain)

lemma detector_fusion_result_witness:
  "\<exists>groups n'. detect_groups demo_fusion demo_view default_context demo_world 0 = (Inr (Some groups), n') \<and>
    map (\<lambda>g. map de_provider (dg_evidence g)) groups = [[''a'', ''b''], [''b'']] \<and>
    sorted_wrt (\<lambda>a b. fle (det_confidence (dg_fused b)) (det_confidence (dg_fused a))) groups"
proof -
  from demo_detected obtain groups n' where g: "detect_groups demo_fusion demo_view default_context demo_world 0 = (Inr (Some groups), n')"
    "map (\<lambda>g. map de_provider (dg_evidence g)) groups = [[''a'', ''b''], [''b'']]" by (elim exE conjE) (rule that)
  from detector_fusion_result [OF demo_made demo_floats _ g(1)] g show ?thesis by (auto simp: demo_fusion_def)
qed

definition broken_registrations :: "DetectorRegistration list" where
  "broken_registrations =
     [\<lparr>dr_provider = Some (''b'', \<lambda>_ _. io_return [boxed 0 2]), dr_weight = Fin 1, dr_enabled = True\<rparr>]"

definition broken_fusion :: MultiDetectorFusion where
  "broken_fusion = demo_fusion\<lparr>mdf_detectors :=
     [\<lparr>dt_name = ''b'', dt_detect = \<lambda>_ _. io_return [boxed 0 2], dt_weight = Fin 1, dt_enabled = True\<rparr>]\<rparr>"

lemma broken_made: "make_detector_fusion broken_registrations default_detector_fusion_config = Inr broken_fusion"
proof -
  have l: "is_prob (lit32 x)" if "0 \<le> x" "x \<le> 1" for x using that unfolding lit32_def by (rule b32.prob_round)
  have v: "validate_probability v f = Inr ()" if "is_prob v" for v f using that validate_probability_ok by blast
  show ?thesis
    by (simp add: make_detector_fusion_def broken_registrations_def default_detector_fusion_config_def register_detector_def
      v l demo_fusion_def broken_fusion_def check_all.simps)
qed

lemma detector_fusion_failures_witness:
  "\<exists>e n'. detect_groups broken_fusion demo_view default_context demo_world 0 = (Inl e, n') \<and>
    e = ProviderError ''detector returned invalid evidence: b''"
proof -
  have r: "detect_groups broken_fusion demo_view default_context demo_world 0 = (Inl (ProviderError ''detector returned invalid evidence: b''), 0)"
    by code_simp
  have fl: "\<forall>d \<in> set (mdf_detectors broken_fusion). answers_floats demo_view default_context d"
    using demo_floats by (simp add: broken_fusion_def demo_fusion_def answers_floats_def io_simps boxed_def)
  from detector_fusion_failures [OF broken_made fl _ r] have "\<exists>d \<in> set (mdf_detectors broken_fusion). dt_enabled d"
    by (auto simp: broken_fusion_def)
  with r show ?thesis by blast
qed

text \<open>The geometry score of a detection is not validated: a NaN of one detector is the score of the group.\<close>

lemma unchecked_geometry_score:
  "map_sum (\<lambda>e. e) (\<lambda>g. det_geometry_score (dg_fused g))
     (build_group [\<lparr>de_detection = (boxed 0 (1/2))\<lparr>det_geometry_score := NaN\<rparr>, de_provider = ''b'', de_weight = Fin 1\<rparr>,
       \<lparr>de_detection = boxed 0 (1/2), de_provider = ''a'', de_weight = Fin 1\<rparr>]) = Inr NaN"
  by code_simp

text \<open>The weaker of two overlapping boxes of one detector is dropped.\<close>

lemma same_model_suppression_witness:
  "let ev = [\<lparr>de_detection = boxed 0 (1/2), de_provider = ''b'', de_weight = Fin 1\<rparr>,
      \<lparr>de_detection = boxed 0 (3/4), de_provider = ''b'', de_weight = Fin 1\<rparr>]
   in map (\<lambda>e. det_confidence (de_detection e)) (deduplicate_same_model ev default_detector_fusion_config) = [Fin (3/4)] \<and>
      set (deduplicate_same_model ev default_detector_fusion_config) \<subseteq> set ev"
proof -
  let ?ev = "[\<lparr>de_detection = boxed 0 (1/2), de_provider = ''b'', de_weight = Fin 1\<rparr>,
      \<lparr>de_detection = boxed 0 (3/4), de_provider = ''b'', de_weight = Fin 1\<rparr>]"
  have "\<forall>e \<in> set ?ev. valid_detection (de_detection e)"
    by (simp add: valid_detection_def boxed_def bbox_is_valid_def)
  from same_model_suppression [OF this, of default_detector_fusion_config]
  have "set (deduplicate_same_model ?ev default_detector_fusion_config) \<subseteq> set ?ev" by blast
  moreover have "map (\<lambda>e. det_confidence (de_detection e)) (deduplicate_same_model ?ev default_detector_fusion_config) = [Fin (3/4)]"
    by code_simp
  ultimately show ?thesis unfolding Let_def by blast
qed

end
