(* ===== verification/Execution_Provider.thy ===== *)
theory Execution_Provider
  imports Domain
begin

text \<open>
  The choice of the inference backend (\<^verbatim>\<open>infrastructure/onnx/execution_provider.cpp\<close>). The C interface of the runtime
  is a parameter: it may refuse every call with a message, depending on everything that was asked of it before. A call is
  recorded in a trace, so that what was created and released can be stated.
\<close>

section \<open>Configuration\<close>

datatype OnnxExecutionProvider = cpu | cuda | directml | tensorrt

datatype OnnxProviderFallbackPolicy = fail_fast | fallback_to_cpu

record OnnxExecutionProviderConfig =
  ep_provider :: OnnxExecutionProvider
  ep_fallback_policy :: OnnxProviderFallbackPolicy
  ep_options :: "(string \<times> string) list"

definition default_provider_config :: OnnxExecutionProviderConfig where
  "default_provider_config = \<lparr>ep_provider = cpu, ep_fallback_policy = fail_fast, ep_options = []\<rparr>"

record OnnxExecutionProviderDiagnostics =
  epd_requested :: OnnxExecutionProvider
  epd_active :: OnnxExecutionProvider
  epd_fallback_used :: bool
  epd_available :: "string list"

section \<open>The runtime\<close>

text \<open>What the C++ interface of the runtime throws: its own exception, or any other.\<close>

datatype ort_exn = OrtException string | Raised exn

datatype api_call =
    CreateOptions OnnxExecutionProvider
  | UpdateOptions OnnxExecutionProvider "string list" "string list"
  | AppendProvider OnnxExecutionProvider "string list" "string list"
  | ReleaseOptions OnnxExecutionProvider

text \<open>The status the runtime answers after a history of calls: nothing, or an error message.\<close>

type_synonym ort_api = "api_call list \<Rightarrow> api_call \<Rightarrow> string option"

type_synonym 'a api_io = "api_call list \<Rightarrow> (ort_exn + 'a) \<times> api_call list"

text \<open>\<open>Ort::ThrowOnError\<close> of a call.\<close>

definition throw_on_error :: "ort_api \<Rightarrow> api_call \<Rightarrow> unit api_io" where
  "throw_on_error api call tr =
     (case api tr call of None \<Rightarrow> (Inr (), tr @ [call]) | Some m \<Rightarrow> (Inl (OrtException m), tr @ [call]))"

definition api_bind :: "'a api_io \<Rightarrow> ('a \<Rightarrow> 'b api_io) \<Rightarrow> 'b api_io" where
  "api_bind m f tr = (case m tr of (Inl e, tr') \<Rightarrow> (Inl e, tr') | (Inr a, tr') \<Rightarrow> f a tr')"

section \<open>Names and options\<close>

fun runtime_provider_name :: "OnnxExecutionProvider \<Rightarrow> string" where
  "runtime_provider_name cpu = ''CPUExecutionProvider''"
| "runtime_provider_name cuda = ''CUDAExecutionProvider''"
| "runtime_provider_name directml = ''DmlExecutionProvider''"
| "runtime_provider_name tensorrt = ''TensorrtExecutionProvider''"

definition contains_provider :: "string list \<Rightarrow> OnnxExecutionProvider \<Rightarrow> bool" where
  "contains_provider providers p = (runtime_provider_name p \<in> set providers)"

fun provider_to_string :: "OnnxExecutionProvider \<Rightarrow> string" where
  "provider_to_string cpu = ''cpu''"
| "provider_to_string cuda = ''cuda''"
| "provider_to_string directml = ''directml''"
| "provider_to_string tensorrt = ''tensorrt''"

record OptionPointers =
  ptr_keys :: "string list"
  ptr_values :: "string list"

definition option_pointers :: "(string \<times> string) list \<Rightarrow> OptionPointers result" where
  "option_pointers options =
     (if list_ex (\<lambda>(key, v). key = [] \<or> v = []) options
      then Inl (ConfigurationError ''ONNX execution provider option key/value cannot be empty'')
      else Inr \<lparr>ptr_keys = map fst options, ptr_values = map snd options\<rparr>)"

section \<open>Appending a provider\<close>

text \<open>The body of the \<open>try\<close> block; its handler releases the options and throws again.\<close>

definition update_and_append :: "ort_api \<Rightarrow> OnnxExecutionProvider \<Rightarrow> OptionPointers \<Rightarrow> unit api_io" where
  "update_and_append api p ptrs =
     api_bind (if ptr_keys ptrs \<noteq> [] then throw_on_error api (UpdateOptions p (ptr_keys ptrs) (ptr_values ptrs)) else (\<lambda>tr. (Inr (), tr)))
       (\<lambda>_. throw_on_error api (AppendProvider p [] []))"

definition append_with_options :: "ort_api \<Rightarrow> OnnxExecutionProvider \<Rightarrow> OptionPointers \<Rightarrow> unit api_io" where
  "append_with_options api p ptrs =
     api_bind (throw_on_error api (CreateOptions p)) (\<lambda>_ tr.
       case update_and_append api p ptrs tr of (r, tr') \<Rightarrow> (r, tr' @ [ReleaseOptions p]))"

definition append_cuda :: "ort_api \<Rightarrow> OptionPointers \<Rightarrow> unit api_io" where
  "append_cuda api ptrs = append_with_options api cuda ptrs"

definition append_tensorrt :: "ort_api \<Rightarrow> OptionPointers \<Rightarrow> unit api_io" where
  "append_tensorrt api ptrs = append_with_options api tensorrt ptrs"

definition append_directml :: "ort_api \<Rightarrow> OptionPointers \<Rightarrow> unit api_io" where
  "append_directml api ptrs = throw_on_error api (AppendProvider directml (ptr_keys ptrs) (ptr_values ptrs))"

section \<open>The strategy\<close>

definition available_providers :: "ort_exn + string list \<Rightarrow> (ort_exn + string list)" where
  "available_providers enumerated =
     (case enumerated of
        Inl (OrtException m) \<Rightarrow> Inl (Raised (ConfigurationError (''failed to enumerate ONNX Runtime execution providers: '' @ m)))
      | r \<Rightarrow> r)"

definition append_selected :: "ort_api \<Rightarrow> OnnxExecutionProvider \<Rightarrow> OptionPointers \<Rightarrow> unit api_io" where
  "append_selected api p ptrs tr =
     (case p of cpu \<Rightarrow> (Inr (), tr)
      | cuda \<Rightarrow> append_cuda api ptrs tr
      | directml \<Rightarrow> append_directml api ptrs tr
      | tensorrt \<Rightarrow> append_tensorrt api ptrs tr)"

definition configure_provider :: "ort_api \<Rightarrow> OnnxExecutionProviderConfig \<Rightarrow> unit api_io" where
  "configure_provider api c tr =
     (case option_pointers (ep_options c) of
        Inl e \<Rightarrow> (Inl (Raised e), tr)
      | Inr ptrs \<Rightarrow>
          (case append_selected api (ep_provider c) ptrs tr of
             (Inl (OrtException m), tr') \<Rightarrow>
               (Inl (Raised (ConfigurationError (''failed to configure ONNX execution provider '' @ [CHR 0x27] @
                  provider_to_string (ep_provider c) @ [CHR 0x27] @ '': '' @ m))), tr')
           | r \<Rightarrow> r))"

definition provider_configure :: "ort_api \<Rightarrow> ort_exn + string list \<Rightarrow> OnnxExecutionProviderConfig \<Rightarrow>
    OnnxExecutionProviderDiagnostics api_io" where
  "provider_configure api enumerated c tr =
     (case available_providers enumerated of
        Inl e \<Rightarrow> (Inl e, tr)
      | Inr available \<Rightarrow>
          let diagnostics = \<lparr>epd_requested = ep_provider c, epd_active = ep_provider c, epd_fallback_used = False, epd_available = available\<rparr>
          in if ep_provider c = cpu then (Inr (diagnostics\<lparr>epd_active := cpu\<rparr>), tr)
             else if \<not> contains_provider available (ep_provider c)
             then if ep_fallback_policy c = fallback_to_cpu
               then (Inr (diagnostics\<lparr>epd_active := cpu, epd_fallback_used := True\<rparr>), tr)
               else (Inl (Raised (ConfigurationError (''requested ONNX execution provider is unavailable: '' @ provider_to_string (ep_provider c)))), tr)
             else api_bind (configure_provider api c) (\<lambda>_ tr'. (Inr diagnostics, tr')) tr)"

section \<open>Options are released\<close>

text \<open>The options of a provider that a history has created and not released; a refused creation creates nothing.\<close>

definition created :: "ort_api \<Rightarrow> api_call list \<Rightarrow> OnnxExecutionProvider \<Rightarrow> nat" where
  "created api tr p = length (filter (\<lambda>i. tr ! i = CreateOptions p \<and> api (take i tr) (CreateOptions p) = None) [0..<length tr])"

definition released :: "api_call list \<Rightarrow> OnnxExecutionProvider \<Rightarrow> nat" where
  "released tr p = count_list tr (ReleaseOptions p)"

definition no_leak :: "ort_api \<Rightarrow> api_call list \<Rightarrow> bool" where
  "no_leak api tr \<longleftrightarrow> (\<forall>p. created api tr p = released tr p)"

lemma created_snoc: "created api (tr @ [c]) p = created api tr p + (if c = CreateOptions p \<and> api tr c = None then 1 else 0)"
proof -
  have "filter (\<lambda>i. (tr @ [c]) ! i = CreateOptions p \<and> api (take i (tr @ [c])) (CreateOptions p) = None) [0..<length tr] =
      filter (\<lambda>i. tr ! i = CreateOptions p \<and> api (take i tr) (CreateOptions p) = None) [0..<length tr]"
    by (rule filter_cong) (simp_all add: nth_append)
  then show ?thesis by (auto simp: created_def)
qed

lemma released_snoc: "released (tr @ [c]) p = released tr p + (if c = ReleaseOptions p then 1 else 0)"
  by (simp add: released_def)

lemmas trace_counts = created_snoc released_snoc

lemma throw_on_error_trace: "snd (throw_on_error api c tr) = tr @ [c]"
  by (simp add: throw_on_error_def split: option.split)

text \<open>Updating and appending neither create nor release.\<close>

lemma created_append: "(\<And>p. CreateOptions p \<notin> set cs) \<Longrightarrow> created api (tr @ cs) q = created api tr q"
proof (induction cs rule: rev_induct)
  case (snoc c cs)
  have "created api ((tr @ cs) @ [c]) q = created api (tr @ cs) q" using snoc.prems by (simp only: created_snoc) auto
  then show ?case using snoc by simp
qed simp

lemma released_append: "released (tr @ cs) q = released tr q + released cs q"
  by (simp add: released_def)

lemma update_and_append_counts:
  "created api (snd (update_and_append api p ptrs tr)) q = created api tr q"
  "released (snd (update_and_append api p ptrs tr)) q = released tr q"
  by (auto simp: update_and_append_def api_bind_def throw_on_error_def created_append released_append released_def
    split: option.split sum.split prod.split)

lemma append_with_options_no_leak:
  assumes "no_leak api tr"
  shows "no_leak api (snd (append_with_options api p ptrs tr))"
proof (cases "api tr (CreateOptions p)")
  case None
  obtain r tr' where u: "update_and_append api p ptrs (tr @ [CreateOptions p]) = (r, tr')" by (cases "update_and_append api p ptrs (tr @ [CreateOptions p])")
  have "append_with_options api p ptrs tr = (r, tr' @ [ReleaseOptions p])"
    using None u by (simp add: append_with_options_def api_bind_def throw_on_error_def)
  moreover have "created api tr' q = created api (tr @ [CreateOptions p]) q" "released tr' q = released (tr @ [CreateOptions p]) q" for q
    using update_and_append_counts [of api p ptrs "tr @ [CreateOptions p]" q] u by simp_all
  ultimately show ?thesis using assms None by (simp add: no_leak_def trace_counts)
next
  case (Some m)
  then show ?thesis using assms by (simp add: append_with_options_def api_bind_def throw_on_error_def no_leak_def trace_counts)
qed

lemma append_selected_no_leak: "no_leak api tr \<Longrightarrow> no_leak api (snd (append_selected api p ptrs tr))"
  by (cases p) (simp_all add: append_selected_def append_cuda_def append_tensorrt_def append_with_options_no_leak
    append_directml_def throw_on_error_trace, simp add: no_leak_def trace_counts)

lemma provider_configure_no_leak: "no_leak api tr \<Longrightarrow> no_leak api (snd (provider_configure api enumerated c tr))"
proof -
  assume tr: "no_leak api tr"
  have "no_leak api (snd (configure_provider api c tr))"
  proof (cases "option_pointers (ep_options c)")
    case (Inr ptrs)
    obtain r tr' where a: "append_selected api (ep_provider c) ptrs tr = (r, tr')" by (cases "append_selected api (ep_provider c) ptrs tr")
    with append_selected_no_leak [OF tr, of "ep_provider c" ptrs] have "no_leak api tr'" by simp
    then show ?thesis by (simp add: configure_provider_def Inr a split: sum.split ort_exn.split)
  qed (simp add: configure_provider_def tr)
  then show ?thesis
    using tr by (auto simp: provider_configure_def api_bind_def Let_def split: sum.split prod.split)
qed

text \<open>What the strategy throws is never an exception of the runtime's own class.\<close>

lemma available_providers_Inl: "available_providers r = Inl e \<Longrightarrow> \<exists>x. e = Raised x"
  by (auto simp: available_providers_def split: sum.splits ort_exn.splits)

text \<open>
  C28: the backend is the one the configuration allows and nothing is left behind. The processor is always available and
  needs no call; a backend the runtime does not offer is replaced by the processor exactly when the configuration allows the
  fallback, and the diagnostics say so; an offered one is active only after the runtime accepted it. Whatever calls the
  runtime refuses, every provider option object that was created is released, and the runtime's own exceptions are
  turned into configuration errors.
\<close>

theorem provider_choice_certified:
  assumes "no_leak api tr"
  shows "no_leak api (snd (provider_configure api enumerated c tr)) \<and>
    (\<forall>d. fst (provider_configure api enumerated c tr) = Inr d \<longrightarrow>
       available_providers enumerated = Inr (epd_available d) \<and> epd_requested d = ep_provider c \<and>
       (epd_fallback_used d \<longleftrightarrow> ep_provider c \<noteq> cpu \<and> \<not> contains_provider (epd_available d) (ep_provider c)) \<and>
       (epd_fallback_used d \<longrightarrow> ep_fallback_policy c = fallback_to_cpu) \<and>
       epd_active d = (if epd_fallback_used d then cpu else ep_provider c) \<and>
       (epd_active d = cpu \<longrightarrow> snd (provider_configure api enumerated c tr) = tr) \<and>
       (epd_active d \<noteq> cpu \<longrightarrow> fst (configure_provider api c tr) = Inr ())) \<and>
    (\<forall>e. fst (provider_configure api enumerated c tr) = Inl e \<longrightarrow> e \<noteq> OrtException m)"
proof (intro conjI)
  show "no_leak api (snd (provider_configure api enumerated c tr))" using assms by (rule provider_configure_no_leak)
next
  show "\<forall>d. fst (provider_configure api enumerated c tr) = Inr d \<longrightarrow>
       available_providers enumerated = Inr (epd_available d) \<and> epd_requested d = ep_provider c \<and>
       (epd_fallback_used d \<longleftrightarrow> ep_provider c \<noteq> cpu \<and> \<not> contains_provider (epd_available d) (ep_provider c)) \<and>
       (epd_fallback_used d \<longrightarrow> ep_fallback_policy c = fallback_to_cpu) \<and>
       epd_active d = (if epd_fallback_used d then cpu else ep_provider c) \<and>
       (epd_active d = cpu \<longrightarrow> snd (provider_configure api enumerated c tr) = tr) \<and>
       (epd_active d \<noteq> cpu \<longrightarrow> fst (configure_provider api c tr) = Inr ())"
    by (auto simp: provider_configure_def api_bind_def Let_def split: sum.splits prod.splits if_splits)
next
  have "fst (configure_provider api c tr) \<noteq> Inl (OrtException m)"
    by (auto simp: configure_provider_def split: sum.splits prod.splits ort_exn.splits)
  then show "\<forall>e. fst (provider_configure api enumerated c tr) = Inl e \<longrightarrow> e \<noteq> OrtException m"
    by (auto simp: provider_configure_def api_bind_def Let_def dest: available_providers_Inl split: sum.splits prod.splits if_splits)
qed

section \<open>A refused provider\<close>

text \<open>A runtime that offers CUDA but refuses to append it.\<close>

definition refusing_api :: ort_api where
  "refusing_api tr call = (case call of AppendProvider _ _ _ \<Rightarrow> Some ''no device'' | _ \<Rightarrow> None)"

definition cuda_config :: OnnxExecutionProviderConfig where
  "cuda_config = \<lparr>ep_provider = cuda, ep_fallback_policy = fallback_to_cpu, ep_options = [(''device_id'', ''0'')]\<rparr>"

lemma cuda_refused:
  "provider_configure refusing_api (Inr [''CUDAExecutionProvider'']) cuda_config [] =
     (Inl (Raised (ConfigurationError (''failed to configure ONNX execution provider '' @ [CHR 0x27] @ ''cuda'' @ [CHR 0x27] @ '': no device''))),
      [CreateOptions cuda, UpdateOptions cuda [''device_id''] [''0''], AppendProvider cuda [] [], ReleaseOptions cuda])"
  by code_simp

theorem provider_choice_certified_witness:
  "no_leak refusing_api [CreateOptions cuda, UpdateOptions cuda [''device_id''] [''0''], AppendProvider cuda [] [], ReleaseOptions cuda]"
proof -
  have "no_leak refusing_api []" by (simp add: no_leak_def created_def released_def)
  from provider_choice_certified [OF this, of "Inr [''CUDAExecutionProvider'']" cuda_config] show ?thesis
    unfolding cuda_refused by simp
qed

end
