(* ===== verification/Onnx_Session.thy ===== *)
theory Onnx_Session
  imports Execution_Provider Engine_World Image_Validation
begin

text \<open>
  The inference session (\<^verbatim>\<open>infrastructure/onnx/onnx_session.cpp\<close>): opening a model, checking its tensors against the
  resource budget, and running it. The runtime is a parameter: what it answers or throws is arbitrary. Of a tensor the code uses
  whether it is one, whether its elements are float32, its shape, its element count and its data.
\<close>

section \<open>Tensors and sessions\<close>

record TensorDescriptor =
  td_name :: string
  td_is_float32 :: bool
  td_shape :: "64 word list"

record OrtValue =
  ov_is_tensor :: bool
  ov_is_float32 :: bool
  ov_shape :: "64 word list"
  ov_data :: "fl list option"   \<comment> \<open>the elements, or a null pointer\<close>
  ov_null_count :: nat          \<comment> \<open>the element count reported with a null pointer\<close>

text \<open>\<open>GetElementCount()\<close>: a data pointer that is not null addresses as many elements as the tensor reports.\<close>

definition element_count :: "OrtValue \<Rightarrow> nat" where
  "element_count v = (case ov_data v of None \<Rightarrow> ov_null_count v | Some elements \<Rightarrow> length elements)"

definition float_tensor :: "fl list \<Rightarrow> 64 word list \<Rightarrow> OrtValue" where
  "float_tensor elements shape =
     \<lparr>ov_is_tensor = True, ov_is_float32 = True, ov_shape = shape, ov_data = Some elements, ov_null_count = 0\<rparr>"

lemma float_tensor_simps [simp]:
  "ov_is_tensor (float_tensor xs shape)" "ov_is_float32 (float_tensor xs shape)" "ov_shape (float_tensor xs shape) = shape"
  "ov_data (float_tensor xs shape) = Some xs" "element_count (float_tensor xs shape) = length xs"
  by (simp_all add: float_tensor_def element_count_def)

record OnnxInferenceSession =
  os_inputs :: "TensorDescriptor list"
  os_outputs :: "TensorDescriptor list"
  os_run :: "string list \<Rightarrow> OrtValue list \<Rightarrow> string list \<Rightarrow> OrtValue list io"

text \<open>What the clients of a session need of it: the tensors it answers fit the address space.\<close>

definition bounded_session :: "OnnxInferenceSession \<Rightarrow> bool" where
  "bounded_session s \<longleftrightarrow> (\<forall>names inputs outs w n values k. os_run s names inputs outs w n = (Inr values, k) \<longrightarrow>
     (\<forall>v \<in> set values. \<forall>elements. ov_data v = Some elements \<longrightarrow> length elements < 2 ^ 64))"

section \<open>The runtime\<close>

record OrtNode =
  on_name :: string
  on_is_tensor :: bool
  on_is_float32 :: bool
  on_shape :: "64 word list"

record OrtSession =
  rt_inputs :: "ort_exn + (ort_exn + OrtNode) list"    \<comment> \<open>the count, then each node, may throw\<close>
  rt_outputs :: "ort_exn + (ort_exn + OrtNode) list"
  rt_run :: "string list \<Rightarrow> OrtValue list \<Rightarrow> string list \<Rightarrow> World \<Rightarrow> nat \<Rightarrow> (ort_exn + OrtValue list) \<times> nat"

record SessionOptions =
  so_optimization :: nat
  so_intra_op_threads :: int
  so_inter_op_threads :: int

record OrtEnvironment =
  oe_api :: ort_api
  oe_enumerated :: "ort_exn + string list"
  oe_set_options :: "SessionOptions \<Rightarrow> ort_exn + unit"
  oe_open :: "string \<Rightarrow> SessionOptions \<Rightarrow> OnnxExecutionProvider \<Rightarrow> ort_exn + OrtSession"

record ModelFiles =
  mf_is_regular_file :: "string \<Rightarrow> bool result"
  mf_absolute :: "string \<Rightarrow> string option"     \<comment> \<open>nothing when it throws\<close>

section \<open>Configuration\<close>

record OnnxSessionConfig =
  oc_intra_op_threads :: int
  oc_inter_op_threads :: int
  oc_optimization :: nat
  oc_execution_provider :: OnnxExecutionProviderConfig
  oc_max_tensor_elements :: "64 word"

record OnnxSession =
  sn_model_path :: string
  sn_runtime :: OrtSession
  sn_inputs :: "TensorDescriptor list"
  sn_outputs :: "TensorDescriptor list"
  sn_diagnostics :: OnnxExecutionProviderDiagnostics
  sn_max_tensor_elements :: "64 word"

section \<open>Budgets\<close>

fun static_elements_loop :: "64 word \<Rightarrow> string \<Rightarrow> 64 word list \<Rightarrow> 64 word \<Rightarrow> 64 word result" where
  "static_elements_loop maximum resource [] acc = Inr acc"
| "static_elements_loop maximum resource (dimension # shape) acc =
     (if sint dimension \<le> 0 then Inr 0
      else res_bind (checked_resource_multiply acc dimension maximum resource) (static_elements_loop maximum resource shape))"

definition static_tensor_elements :: "64 word list \<Rightarrow> 64 word \<Rightarrow> string \<Rightarrow> 64 word result" where
  "static_tensor_elements shape maximum resource = static_elements_loop maximum resource shape 1"

definition quoted :: "string \<Rightarrow> string" where
  "quoted s = [CHR 0x27] @ s @ [CHR 0x27]"

definition validate_descriptor_budget :: "TensorDescriptor list \<Rightarrow> 64 word \<Rightarrow> string \<Rightarrow> unit result" where
  "validate_descriptor_budget descriptors maximum direction = check_all
     (map (\<lambda>d. map_sum id (\<lambda>_. ()) (static_tensor_elements (td_shape d) maximum (''ONNX '' @ direction @ '' tensor '' @ quoted (td_name d))))
        descriptors)"

definition validate_runtime_input_budget :: "OrtValue list \<Rightarrow> 64 word \<Rightarrow> unit result" where
  "validate_runtime_input_budget values maximum = check_all
     (map (\<lambda>v. res_bind (throw_if (\<not> ov_is_tensor v) (InferenceError ''ONNX runtime input is not a tensor'')) (\<lambda>_.
        require_resource_count (element_count v) (unat maximum) ''ONNX runtime input tensor elements'')) values)"

definition validate_outputs :: "OrtValue list \<Rightarrow> 64 word \<Rightarrow> unit result" where
  "validate_outputs values maximum = check_all
     (map (\<lambda>v. res_bind (throw_if (\<not> ov_is_tensor v) (InferenceError ''ONNX runtime output is not a tensor'')) (\<lambda>_.
        require_resource_count (element_count v) (unat maximum) ''ONNX runtime output tensor elements'')) values)"

section \<open>Opening a model\<close>

definition raised :: "'a result \<Rightarrow> ort_exn + 'a" where
  "raised r = map_sum Raised id r"

definition inspect_node :: "bool \<Rightarrow> ort_exn + OrtNode \<Rightarrow> ort_exn + TensorDescriptor" where
  "inspect_node inputs node =
     res_bind node (\<lambda>x. if \<not> on_is_tensor x
       then Inl (Raised (ModelLoadError ((if inputs then ''input'' else ''output'') @ '' node is not a tensor: '' @ on_name x)))
       else Inr \<lparr>td_name = on_name x, td_is_float32 = on_is_float32 x, td_shape = on_shape x\<rparr>)"

definition inspect_descriptors :: "OrtSession \<Rightarrow> bool \<Rightarrow> ort_exn + TensorDescriptor list" where
  "inspect_descriptors session inputs =
     res_bind (if inputs then rt_inputs session else rt_outputs session) (res_map_list (inspect_node inputs))"

text \<open>\<open>path.filename()\<close>: what follows the last separator.\<close>

definition filename :: "string \<Rightarrow> string" where
  "filename path = rev (takeWhile (\<lambda>c. c \<noteq> CHR ''/'') (rev path))"

text \<open>The loop over \<open>find\<close> and \<open>replace\<close>: the search goes on behind the replacement.\<close>

function replace_all :: "string \<Rightarrow> string \<Rightarrow> string \<Rightarrow> string" where
  "replace_all v r s =
     (if v = [] \<or> s = [] then s
      else if take (length v) s = v then r @ replace_all v r (drop (length v) s)
      else hd s # replace_all v r (tl s))"
  by pat_completeness auto

termination by (relation "measure (\<lambda>(v, r, s). length s)") auto

declare replace_all.simps [simp del]

definition redact_path :: "ModelFiles \<Rightarrow> string \<Rightarrow> string \<Rightarrow> string" where
  "redact_path files detail path =
     (let replacement = filename path; redacted = replace_all path replacement detail
      in case mf_absolute files path of None \<Rightarrow> redacted | Some a \<Rightarrow> replace_all a replacement redacted)"

definition model_load_message :: "ModelFiles \<Rightarrow> string \<Rightarrow> string \<Rightarrow> string" where
  "model_load_message files path detail =
     ''failed to load ONNX model '' @ quoted (filename path) @ '': '' @ redact_path files detail path"

definition build_options :: "OrtEnvironment \<Rightarrow> OnnxSessionConfig \<Rightarrow> api_call list \<Rightarrow>
    (ort_exn + SessionOptions \<times> OnnxExecutionProviderDiagnostics) \<times> api_call list" where
  "build_options env c tr =
     (if oc_intra_op_threads c < 0 \<or> oc_inter_op_threads c < 0
      then (Inl (Raised (ConfigurationError ''ONNX Runtime thread counts cannot be negative'')), tr)
      else if oc_max_tensor_elements c = 0 \<or> unat (oc_max_tensor_elements c) > max_tensor_elements default_resource_budget * 8
      then (Inl (Raised (ConfigurationError ''ONNX max_tensor_elements is outside safe limits'')), tr)
      else let options = \<lparr>so_optimization = oc_optimization c, so_intra_op_threads = oc_intra_op_threads c,
                 so_inter_op_threads = oc_inter_op_threads c\<rparr>
        in case oe_set_options env options of
             Inl e \<Rightarrow> (Inl e, tr)
           | Inr _ \<Rightarrow> api_bind (provider_configure (oe_api env) (oe_enumerated env) (oc_execution_provider c))
               (\<lambda>d tr'. (Inr (options, d), tr')) tr)"

definition inspect_session :: "ModelFiles \<Rightarrow> string \<Rightarrow> 64 word \<Rightarrow> OnnxExecutionProviderDiagnostics \<Rightarrow> OrtSession \<Rightarrow> ort_exn + OnnxSession" where
  "inspect_session files path maximum d session =
     res_bind (inspect_descriptors session True) (\<lambda>inputs.
     res_bind (inspect_descriptors session False) (\<lambda>outputs.
     if inputs = [] \<or> outputs = []
     then Inl (Raised (ModelLoadError (model_load_message files path ''model has no tensor inputs or outputs'')))
     else res_bind (raised (validate_descriptor_budget inputs maximum ''input'')) (\<lambda>_.
       res_bind (raised (validate_descriptor_budget outputs maximum ''output'')) (\<lambda>_.
       Inr \<lparr>sn_model_path = path, sn_runtime = session, sn_inputs = inputs, sn_outputs = outputs, sn_diagnostics = d,
         sn_max_tensor_elements = maximum\<rparr>))))"

text \<open>The handlers of the constructor.\<close>

fun load_failure :: "ModelFiles \<Rightarrow> string \<Rightarrow> ort_exn \<Rightarrow> exn" where
  "load_failure files path (OrtException m) = ModelLoadError (model_load_message files path m)"
| "load_failure files path (Raised (EngineError code m)) = EngineError code m"
| "load_failure files path (Raised BadAlloc) = ResourceExhaustedError ''ONNX session allocation exceeded memory budget''"
| "load_failure files path (Raised (StdException m)) = ModelLoadError (model_load_message files path m)"
| "load_failure files path (Raised UnknownException) = UnknownException"

definition make_onnx_session :: "ModelFiles \<Rightarrow> OrtEnvironment option \<Rightarrow> string \<Rightarrow> OnnxSessionConfig \<Rightarrow> api_call list \<Rightarrow>
    OnnxSession result \<times> api_call list" where
  "make_onnx_session files environment path c tr =
     (case environment of None \<Rightarrow> (Inl (ModelLoadError ''ONNX Runtime environment is null''), tr)
      | Some env \<Rightarrow>
        (case mf_is_regular_file files path of Inl e \<Rightarrow> (Inl e, tr)
         | Inr False \<Rightarrow> (Inl (ModelLoadError (model_load_message files path ''model file does not exist or is not a regular file'')), tr)
         | Inr True \<Rightarrow>
           (case build_options env c tr of
              (Inl e, tr') \<Rightarrow> (Inl (load_failure files path e), tr')
            | (Inr (options, d), tr') \<Rightarrow>
                (map_sum (load_failure files path) id
                   (res_bind (oe_open env path options (epd_active d)) (inspect_session files path (oc_max_tensor_elements c) d)), tr'))))"

section \<open>Running\<close>

fun run_failure :: "ort_exn \<Rightarrow> exn" where
  "run_failure (OrtException m) = InferenceError ''ONNX Runtime inference failed''"
| "run_failure (Raised (EngineError code m)) = EngineError code m"
| "run_failure (Raised BadAlloc) = ResourceExhaustedError ''ONNX inference allocation exceeded memory budget''"
| "run_failure (Raised (StdException m)) = InferenceError ''ONNX inference failed''"
| "run_failure (Raised UnknownException) = UnknownException"

definition onnx_run :: "OnnxSession \<Rightarrow> string list \<Rightarrow> OrtValue list \<Rightarrow> string list \<Rightarrow> OrtValue list io" where
  "onnx_run s input_names input_values output_names w n =
     (if length input_names \<noteq> length input_values then (Inl (InferenceError ''ONNX input name/value counts do not match''), n)
      else if input_names = [] \<or> output_names = []
      then (Inl (InferenceError ''ONNX inference requires at least one input and one output''), n)
      else case validate_runtime_input_budget input_values (sn_max_tensor_elements s) of
          Inl e \<Rightarrow> (Inl (run_failure (Raised e)), n)
        | Inr _ \<Rightarrow>
            (case rt_run (sn_runtime s) input_names input_values output_names w n of
               (answer, n') \<Rightarrow> (map_sum run_failure id (res_bind answer (\<lambda>outputs.
                  res_bind (raised (validate_outputs outputs (sn_max_tensor_elements s))) (\<lambda>_. Inr outputs))), n')))"

definition onnx_session :: "OnnxSession \<Rightarrow> OnnxInferenceSession" where
  "onnx_session s = \<lparr>os_inputs = sn_inputs s, os_outputs = sn_outputs s, os_run = onnx_run s\<rparr>"

section \<open>What a session promises\<close>

lemma map_sum_Inl_obtain: "map_sum f g x = Inl b \<Longrightarrow> \<exists>a. x = Inl a \<and> f a = b"
  by (cases x) auto

lemma checked_resource_multiply_Inr:
  "checked_resource_multiply a b m r = Inr c \<longleftrightarrow> unat a * unat b \<le> unat m \<and> c = a * b \<and> unat c = unat a * unat b"
proof -
  have "(\<exists>c. checked_multiply a b [] = Inr c) \<longleftrightarrow> unat a * unat b < 2 ^ 64"
    unfolding checked_multiply_Inr by (auto simp: unat_word_ariths)
  moreover have "(\<exists>c. checked_multiply a b [] = Inr c) \<longleftrightarrow> \<not> (a \<noteq> 0 \<and> b > size_max div a)" by (simp add: checked_multiply_def)
  ultimately have fits: "\<not> (a \<noteq> 0 \<and> b > size_max div a) \<longleftrightarrow> unat a * unat b < 2 ^ 64" by metis
  have m: "unat m < 2 ^ 64" by (rule unat_less_2_64)
  show ?thesis
  proof (cases "unat a * unat b < 2 ^ 64")
    case True
    then have "unat (a * b) = unat a * unat b" by (simp add: unat_word_ariths)
    with True fits show ?thesis by (auto simp: checked_resource_multiply_def Let_def word_less_nat_alt not_less)
  next
    case False
    with fits m show ?thesis by (auto simp: checked_resource_multiply_def)
  qed
qed

lemma static_elements_loop_Inr:
  "static_elements_loop m r shape acc = Inr k \<Longrightarrow>
    (\<exists>d \<in> set shape. sint d \<le> 0) \<and> k = 0 \<or>
    (\<forall>d \<in> set shape. 0 < sint d) \<and> unat k = unat acc * prod_list (map unat shape) \<and> (shape \<noteq> [] \<longrightarrow> unat k \<le> unat m)"
proof (induction shape arbitrary: acc)
  case (Cons d shape)
  show ?case
  proof (cases "sint d \<le> 0")
    case True
    with Cons.prems show ?thesis by simp
  next
    case False
    with Cons.prems obtain t where t: "checked_resource_multiply acc d m r = Inr t" and k: "static_elements_loop m r shape t = Inr k"
      by (auto simp: result_simps)
    have "unat t = unat acc * unat d" "unat t \<le> unat m" using t unfolding checked_resource_multiply_Inr by (elim conjE, simp only:)+
    with Cons.IH [OF k] False k show ?thesis by (cases "shape = []") (auto simp: mult.assoc)
  qed
qed simp

text \<open>A descriptor within the budget: a fixed shape has no more elements than the maximum.\<close>

definition descriptor_ok :: "64 word \<Rightarrow> TensorDescriptor \<Rightarrow> bool" where
  "descriptor_ok maximum d \<longleftrightarrow> ((\<forall>x \<in> set (td_shape d). 0 < sint x) \<longrightarrow> td_shape d \<noteq> [] \<longrightarrow>
     prod_list (map unat (td_shape d)) \<le> unat maximum)"

lemma validate_descriptor_budget_Inr:
  assumes "validate_descriptor_budget ds maximum direction = Inr u" and "d \<in> set ds"
  shows "descriptor_ok maximum d"
proof -
  let ?r = "static_tensor_elements (td_shape d) maximum (''ONNX '' @ direction @ '' tensor '' @ quoted (td_name d))"
  from assms have "map_sum id (\<lambda>_. ()) ?r = Inr ()" by (auto simp: validate_descriptor_budget_def check_all_eq_Inr)
  then obtain k where "?r = Inr k" by (cases ?r) auto
  from static_elements_loop_Inr [OF this [unfolded static_tensor_elements_def]] show ?thesis
    unfolding descriptor_ok_def by force
qed

text \<open>The interface of a session, with a bound on what it answers.\<close>

locale inference_session =
  fixes run :: "string list \<Rightarrow> OrtValue list \<Rightarrow> string list \<Rightarrow> OrtValue list io"
    and maximum :: "64 word"
  assumes answers_tensors: "run names inputs outs w n = (Inr values, k) \<Longrightarrow> v \<in> set values \<Longrightarrow>
      ov_is_tensor v \<and> element_count v \<le> unat maximum"
    and needs_input_and_output: "run names inputs outs w n = (Inr values, k) \<Longrightarrow>
      length names = length inputs \<and> names \<noteq> [] \<and> outs \<noteq> []"
begin

lemma bounded: "bounded_session \<lparr>os_inputs = is, os_outputs = os, os_run = run\<rparr>"
  unfolding bounded_session_def
proof (intro allI impI ballI)
  fix names inputs outs w n vs k v elements
  assume "os_run \<lparr>os_inputs = is, os_outputs = os, os_run = run\<rparr> names inputs outs w n = (Inr vs, k)"
    and "v \<in> set vs" and "ov_data v = Some elements"
  then have "length elements \<le> unat maximum" using answers_tensors [of names inputs outs w n vs k v] by (simp add: element_count_def)
  also have "unat maximum < 2 ^ 64" by (rule unat_less_2_64)
  finally show "length elements < 2 ^ 64" .
qed

end

lemma onnx_run_Inr:
  assumes "onnx_run s names inputs outs w n = (Inr values, k)"
  shows "rt_run (sn_runtime s) names inputs outs w n = (Inr values, k) \<and> length names = length inputs \<and> names \<noteq> [] \<and> outs \<noteq> [] \<and>
    (\<forall>v \<in> set inputs \<union> set values. ov_is_tensor v \<and> element_count v \<le> unat (sn_max_tensor_elements s))"
proof -
  from assms obtain r where i: "validate_runtime_input_budget inputs (sn_max_tensor_elements s) = Inr ()"
    and run: "rt_run (sn_runtime s) names inputs outs w n = (r, k)"
    and r: "map_sum run_failure id (res_bind r (\<lambda>outputs. res_bind (raised (validate_outputs outputs (sn_max_tensor_elements s))) (\<lambda>_. Inr outputs))) = Inr values"
    and l: "length names = length inputs" "names \<noteq> []" "outs \<noteq> []"
    unfolding onnx_run_def by (auto split: if_split_asm sum.splits prod.splits)
  from map_sum_Inr_obtain [OF r] have "res_bind r (\<lambda>outputs. res_bind (raised (validate_outputs outputs (sn_max_tensor_elements s))) (\<lambda>_. Inr outputs)) = Inr values"
    by auto
  then have rv: "r = Inr values" and o: "validate_outputs values (sn_max_tensor_elements s) = Inr ()"
    by (auto simp: result_simps raised_def dest: map_sum_Inr_obtain)
  from i have "\<forall>v \<in> set inputs. ov_is_tensor v \<and> element_count v \<le> unat (sn_max_tensor_elements s)"
    by (auto simp: validate_runtime_input_budget_def require_resource_count_def check_all_eq_Inr result_simps)
  moreover from o have "\<forall>v \<in> set values. ov_is_tensor v \<and> element_count v \<le> unat (sn_max_tensor_elements s)"
    by (auto simp: validate_outputs_def require_resource_count_def check_all_eq_Inr result_simps)
  ultimately show ?thesis using run rv l by auto
qed

interpretation onnx: inference_session "onnx_run s" "sn_max_tensor_elements s" for s
  by unfold_locales (auto dest: onnx_run_Inr)

lemma onnx_session_bounded: "bounded_session (onnx_session s)"
  unfolding onnx_session_def by (rule onnx.bounded)

text \<open>What the constructor has checked.\<close>

lemma inspect_session_Inr:
  assumes "inspect_session files path maximum d session = Inr s"
  shows "sn_inputs s \<noteq> [] \<and> sn_outputs s \<noteq> [] \<and> sn_max_tensor_elements s = maximum \<and> sn_diagnostics s = d \<and>
    (\<forall>x \<in> set (sn_inputs s) \<union> set (sn_outputs s). descriptor_ok maximum x)"
proof -
  from assms obtain ins outs where "ins \<noteq> []" "outs \<noteq> []"
    and "raised (validate_descriptor_budget ins maximum ''input'') = Inr ()"
    and "raised (validate_descriptor_budget outs maximum ''output'') = Inr ()"
    and s: "s = \<lparr>sn_model_path = path, sn_runtime = session, sn_inputs = ins, sn_outputs = outs, sn_diagnostics = d, sn_max_tensor_elements = maximum\<rparr>"
    unfolding inspect_session_def by (auto simp: result_simps split: if_split_asm)
  moreover from this have "validate_descriptor_budget ins maximum ''input'' = Inr ()" "validate_descriptor_budget outs maximum ''output'' = Inr ()"
    by (auto simp: raised_def dest: map_sum_Inr_obtain)
  ultimately show ?thesis using validate_descriptor_budget_Inr by fastforce
qed

lemma build_options_Inr:
  assumes "build_options env c tr = (Inr (options, d), tr')"
  shows "0 < unat (oc_max_tensor_elements c) \<and> unat (oc_max_tensor_elements c) \<le> 512 * 1024 * 1024 \<and>
    provider_configure (oe_api env) (oe_enumerated env) (oc_execution_provider c) tr = (Inr d, tr')"
  using assms
  by (auto simp: build_options_def api_bind_def Let_def default_resource_budget_def unat_gt_0 split: if_split_asm sum.splits prod.splits)

lemma make_onnx_session_Inr:
  assumes "make_onnx_session files environment path c tr = (Inr s, tr')"
  obtains env options d session where "environment = Some env" and "build_options env c tr = (Inr (options, d), tr')"
    and "oe_open env path options (epd_active d) = Inr session"
    and "inspect_session files path (oc_max_tensor_elements c) d session = Inr s" and "mf_is_regular_file files path = Inr True"
proof -
  from assms obtain env options d where e: "environment = Some env" and b: "build_options env c tr = (Inr (options, d), tr')"
    and r: "map_sum (load_failure files path) id (res_bind (oe_open env path options (epd_active d)) (inspect_session files path (oc_max_tensor_elements c) d)) = Inr s"
    and f: "mf_is_regular_file files path = Inr True"
    unfolding make_onnx_session_def by (auto split: option.splits sum.splits bool.splits prod.splits)
  from map_sum_Inr_obtain [OF r] have "res_bind (oe_open env path options (epd_active d)) (inspect_session files path (oc_max_tensor_elements c) d) = Inr s"
    by auto
  then obtain session where "oe_open env path options (epd_active d) = Inr session" "inspect_session files path (oc_max_tensor_elements c) d session = Inr s"
    by (auto simp: result_simps)
  with e b f that show ?thesis by blast
qed

text \<open>
  C29: an open session keeps to its budget. A session is only opened on a regular file, with at most 512M elements per tensor, at least one
  input and one output, and no fixed shape beyond the budget; a run that returns was given and has answered tensors only, each within the
  budget, for one name per input and at least one output. The runtime may answer anything.
\<close>

theorem onnx_session_within_budget:
  assumes "make_onnx_session files environment path c tr = (Inr s, tr')"
  shows "mf_is_regular_file files path = Inr True \<and> os_inputs (onnx_session s) \<noteq> [] \<and> os_outputs (onnx_session s) \<noteq> [] \<and>
    unat (sn_max_tensor_elements s) \<le> 512 * 1024 * 1024 \<and>
    (\<forall>x \<in> set (os_inputs (onnx_session s)) \<union> set (os_outputs (onnx_session s)). descriptor_ok (sn_max_tensor_elements s) x) \<and>
    (\<forall>names inputs outs w n values k. os_run (onnx_session s) names inputs outs w n = (Inr values, k) \<longrightarrow>
       length names = length inputs \<and> names \<noteq> [] \<and> outs \<noteq> [] \<and>
       (\<forall>v \<in> set inputs \<union> set values. ov_is_tensor v \<and> element_count v \<le> unat (sn_max_tensor_elements s)))"
proof -
  obtain env options d session where e: "environment = Some env" and b: "build_options env c tr = (Inr (options, d), tr')"
    and o: "oe_open env path options (epd_active d) = Inr session"
    and i: "inspect_session files path (oc_max_tensor_elements c) d session = Inr s" and f: "mf_is_regular_file files path = Inr True"
    by (rule make_onnx_session_Inr [OF assms])
  have run: "\<forall>names inputs outs w n values k. onnx_run s names inputs outs w n = (Inr values, k) \<longrightarrow>
       length names = length inputs \<and> names \<noteq> [] \<and> outs \<noteq> [] \<and>
       (\<forall>v \<in> set inputs \<union> set values. ov_is_tensor v \<and> element_count v \<le> unat (sn_max_tensor_elements s))"
    using onnx_run_Inr by blast
  have opened: "mf_is_regular_file files path = Inr True \<and> sn_inputs s \<noteq> [] \<and> sn_outputs s \<noteq> [] \<and>
    unat (sn_max_tensor_elements s) \<le> 512 * 1024 * 1024 \<and>
    (\<forall>x \<in> set (sn_inputs s) \<union> set (sn_outputs s). descriptor_ok (sn_max_tensor_elements s) x)"
    using build_options_Inr [OF b] inspect_session_Inr [OF i] f by simp
  show ?thesis
    unfolding onnx_session_def OnnxInferenceSession.select_convs using opened run by (elim conjE) (intro conjI; assumption)
qed

text \<open>The constructor throws errors of the engine, or what the file system or something outside \<open>std::exception\<close> threw.\<close>

lemma load_failure_kind: "(\<exists>code m. load_failure files path e = EngineError code m) \<or> load_failure files path e = UnknownException"
  by (cases "(files, path, e)" rule: load_failure.cases) simp_all

lemma make_onnx_session_errors:
  assumes "make_onnx_session files environment path c tr = (Inl e, tr')" and "\<forall>x. mf_is_regular_file files path \<noteq> Inl x"
  shows "(\<exists>code m. e = EngineError code m) \<or> e = UnknownException"
proof -
  have "(\<exists>x. e = load_failure files path x) \<or> (\<exists>m. e = ModelLoadError m)"
    using assms unfolding make_onnx_session_def by (auto split: option.splits sum.splits bool.splits prod.splits dest!: map_sum_Inl_obtain)
  then show ?thesis using load_failure_kind by blast
qed

section \<open>Redaction\<close>

text \<open>A text without the path is left as it is.\<close>

definition occurs :: "string \<Rightarrow> string \<Rightarrow> bool" where
  "occurs v s \<longleftrightarrow> (\<exists>k \<le> length s. take (length v) (drop k s) = v)"

lemma replace_all_absent: "v \<noteq> [] \<Longrightarrow> \<not> occurs v s \<Longrightarrow> replace_all v r s = s"
proof (induction v r s rule: replace_all.induct)
  case (1 v r s)
  show ?case
  proof (cases "s = []")
    case True
    then show ?thesis by (simp add: replace_all.simps)
  next
    case False
    have "take (length v) s \<noteq> v" using "1.prems"(2) unfolding occurs_def by (metis drop0 le0)
    moreover have "\<not> occurs v (tl s)"
    proof
      assume "occurs v (tl s)"
      then obtain k where "k \<le> length (tl s)" "take (length v) (drop k (tl s)) = v" by (auto simp: occurs_def)
      then have "Suc k \<le> length s \<and> take (length v) (drop (Suc k) s) = v" using False by (cases s) auto
      then show False using "1.prems"(2) unfolding occurs_def by blast
    qed
    ultimately show ?thesis using "1.IH"(2) "1.prems"(1) False by (simp add: replace_all.simps [of v r s])
  qed
qed

text \<open>The search does not look back over the replacement, so a path nested in itself survives.\<close>

lemma redaction_is_one_pass:
  "redact_path \<lparr>mf_is_regular_file = \<lambda>_. Inr True, mf_absolute = \<lambda>p. Some p\<rparr> ''cannot open /a//a//a/m'' ''/a/m'' = ''cannot open /a/m''"
  by code_simp

section \<open>A session\<close>

definition demo_runtime :: OrtSession where
  "demo_runtime = \<lparr>rt_inputs = Inr [Inr \<lparr>on_name = ''x'', on_is_tensor = True, on_is_float32 = True, on_shape = [1, 3, -1, 94]\<rparr>],
     rt_outputs = Inr [Inr \<lparr>on_name = ''y'', on_is_tensor = True, on_is_float32 = True, on_shape = [1, 2]\<rparr>],
     rt_run = \<lambda>_ _ _ _ n. (Inr [float_tensor [Fin 0, Fin 1] [1, 2]], n)\<rparr>"

definition demo_environment :: OrtEnvironment where
  "demo_environment = \<lparr>oe_api = \<lambda>_ _. None, oe_enumerated = Inr [], oe_set_options = \<lambda>_. Inr (), oe_open = \<lambda>_ _ _. Inr demo_runtime\<rparr>"

definition demo_files :: ModelFiles where
  "demo_files = \<lparr>mf_is_regular_file = \<lambda>_. Inr True, mf_absolute = \<lambda>_. None\<rparr>"

definition demo_session_config :: OnnxSessionConfig where
  "demo_session_config = \<lparr>oc_intra_op_threads = 0, oc_inter_op_threads = 0, oc_optimization = 99, oc_execution_provider = default_provider_config,
     oc_max_tensor_elements = 1000\<rparr>"

lemma demo_opens: "\<exists>s. make_onnx_session demo_files (Some demo_environment) ''m.onnx'' demo_session_config [] = (Inr s, [])"
proof -
  let ?d = "\<lparr>epd_requested = cpu, epd_active = cpu, epd_fallback_used = False, epd_available = []\<rparr>"
  have b: "build_options demo_environment demo_session_config [] =
      (Inr (\<lparr>so_optimization = 99, so_intra_op_threads = 0, so_inter_op_threads = 0\<rparr>, ?d), [])"
    by (simp add: build_options_def demo_session_config_def demo_environment_def default_resource_budget_def default_provider_config_def
      api_bind_def provider_configure_def available_providers_def)
  have "\<exists>s. inspect_session demo_files ''m.onnx'' 1000 ?d demo_runtime = Inr s"
    by (simp add: inspect_session_def inspect_descriptors_def inspect_node_def demo_runtime_def raised_def validate_descriptor_budget_def
      static_tensor_elements_def checked_resource_multiply_def size_max_def check_all.simps)
  then obtain s where i: "inspect_session demo_files ''m.onnx'' 1000 ?d demo_runtime = Inr s" ..
  have e: "oe_open demo_environment p opts q = Inr demo_runtime" "mf_is_regular_file demo_files p = Inr True"
    "oc_max_tensor_elements demo_session_config = 1000" for p opts q
    by (simp_all add: demo_environment_def demo_files_def demo_session_config_def)
  show ?thesis unfolding make_onnx_session_def by (simp add: b e i)
qed

theorem onnx_session_within_budget_witness:
  "\<exists>s. fst (make_onnx_session demo_files (Some demo_environment) ''m.onnx'' demo_session_config []) = Inr s \<and>
     unat (sn_max_tensor_elements s) \<le> 512 * 1024 * 1024 \<and>
     (\<forall>x \<in> set (os_outputs (onnx_session s)). descriptor_ok (sn_max_tensor_elements s) x)"
proof -
  obtain s tr' where s: "make_onnx_session demo_files (Some demo_environment) ''m.onnx'' demo_session_config [] = (Inr s, tr')"
    using demo_opens by blast
  from onnx_session_within_budget [OF s] s show ?thesis by auto
qed

end
