(* ===== verification/Yolo_Detector.thy ===== *)
theory Yolo_Detector
  imports Yolo_Parser Detector_Fusion Onnx_Session
begin

text \<open>
  The pose detector (\<^verbatim>\<open>infrastructure/yolo/yolo_pose_onnx_detector.cpp\<close>): it checks the contract of the model once,
  and per image validates, preprocesses, runs the session and parses its output. The inference session
  is a parameter whose answers are arbitrary (\<^verbatim>\<open>Onnx_Session\<close>).
  The stage timings are looks at the clock whose values go to an observer that is not modelled.
\<close>

section \<open>The detector\<close>

record YoloPoseOnnxDetectorConfig =
  yc_provider_name :: string
  yc_input_name :: string
  yc_output_name :: string
  yc_input :: YoloInputSpec
  yc_output :: YoloPoseOutputSpec
  yc_image_limits :: PerformanceConfig

record YoloPoseOnnxDetector =
  yd_session :: OnnxInferenceSession
  yd_config :: YoloPoseOnnxDetectorConfig
  yd_preprocessor :: YoloPosePreprocessor
  yd_parser :: YoloPoseOutputSpec

section \<open>Construction\<close>

definition find_descriptor :: "TensorDescriptor list \<Rightarrow> string \<Rightarrow> TensorDescriptor option" where
  "find_descriptor descriptors name = List.find (\<lambda>d. td_name d = name) descriptors"

definition checked_elements :: "YoloInputSpec \<Rightarrow> 64 word result" where
  "checked_elements spec =
     (if yi_width spec = 0 \<or> yi_height spec = 0 \<or> yi_channels spec = 0
      then Inl (ConfigurationError ''YOLO ONNX input dimensions must be non-zero'')
      else if yi_width spec > size_max div yi_height spec then Inl (ConfigurationError ''YOLO ONNX input dimensions overflow'')
      else if yi_width spec * yi_height spec > size_max div yi_channels spec
      then Inl (ConfigurationError ''YOLO ONNX input element count overflows'')
      else Inr (yi_width spec * yi_height spec * yi_channels spec))"

definition validate_contract :: "OnnxInferenceSession \<Rightarrow> YoloPoseOnnxDetectorConfig \<Rightarrow> unit result" where
  "validate_contract session c =
     (case (find_descriptor (os_inputs session) (yc_input_name c), find_descriptor (os_outputs session) (yc_output_name c)) of
        (Some input, Some output) \<Rightarrow> check_all
          [throw_if (\<not> td_is_float32 input) (ModelLoadError ''YOLO ONNX input must be float32''),
           throw_if (\<not> td_is_float32 output) (ModelLoadError ''YOLO ONNX output must be float32''),
           throw_if (length (td_shape input) \<noteq> 4 \<or> td_shape input ! 0 \<noteq> 1 \<or> td_shape input ! 1 \<noteq> 3)
             (ModelLoadError ''YOLO ONNX input must have static NCHW [1,3,H,W] contract''),
           throw_if (sint (td_shape input ! 2) \<le> 0 \<or> sint (td_shape input ! 3) \<le> 0)
             (ModelLoadError ''YOLO ONNX input height/width must be static positive values''),
           throw_if (td_shape input ! 2 \<noteq> yi_height (yc_input c) \<or> td_shape input ! 3 \<noteq> yi_width (yc_input c) \<or> yi_channels (yc_input c) \<noteq> 3)
             (ModelLoadError ''YOLO ONNX configured preprocessing dimensions do not match model input''),
           throw_if (length (td_shape output) \<noteq> 3 \<or> td_shape output ! 0 \<noteq> 1)
             (ModelLoadError ''YOLO ONNX output must have rank-3 batch-one contract''),
           map_sum id (\<lambda>_. ()) (checked_elements (yc_input c))]
      | _ \<Rightarrow> Inl (ModelLoadError ''YOLO ONNX configured node name is missing from model contract''))"

definition make_yolo_detector :: "OnnxInferenceSession option \<Rightarrow> YoloPoseOnnxDetectorConfig \<Rightarrow> YoloPoseOnnxDetector result" where
  "make_yolo_detector session c =
     res_bind (make_yolo_preprocessor (yc_input c)) (\<lambda>pre.
     res_bind (make_yolo_parser (yc_output c)) (\<lambda>parser.
     case session of None \<Rightarrow> Inl (ConfigurationError ''YOLO ONNX detector requires a session'')
     | Some s \<Rightarrow>
       if yc_provider_name c = [] \<or> yc_input_name c = [] \<or> yc_output_name c = []
       then Inl (ConfigurationError ''YOLO ONNX provider/input/output names are required'')
       else res_bind (validate_contract s c) (\<lambda>_.
         Inr \<lparr>yd_session = s, yd_config = c, yd_preprocessor = pre, yd_parser = parser\<rparr>)))"

section \<open>Detection\<close>

definition yolo_check_context :: "OperationContext \<Rightarrow> unit io" where
  "yolo_check_context ctx = check_operation ctx ''YOLO ONNX detection cancelled'' ''YOLO ONNX detection deadline exceeded''"

text \<open>Up to the preprocessing, which is the first step that touches the detector's workspace.\<close>

definition detect_entry :: "YoloPoseOnnxDetector \<Rightarrow> ImageView \<Rightarrow> OperationContext \<Rightarrow> ValidatedImage io" where
  "detect_entry d img ctx =
     io_bind (yolo_check_context ctx) (\<lambda>_.
     io_bind (io_lift (validate_image img (yc_image_limits (yd_config d)))) (\<lambda>vi.
     io_bind (yolo_check_context ctx) (\<lambda>_.
     io_bind io_now (\<lambda>_. io_return vi))))"

definition parse_outputs :: "YoloPoseOnnxDetector \<Rightarrow> LetterboxMetadata \<Rightarrow> OrtValue list \<Rightarrow> Detection list result" where
  "parse_outputs d md outputs =
     (if length outputs \<noteq> 1 \<or> \<not> ov_is_tensor (hd outputs)
      then Inl (InferenceError ''YOLO ONNX session returned invalid output count/type'')
      else case ov_data (hd outputs) of
          None \<Rightarrow> Inl (InferenceError ''YOLO ONNX output tensor is empty'')
        | Some elements \<Rightarrow>
            if elements = [] then Inl (InferenceError ''YOLO ONNX output tensor is empty'')
            else res_bind (yolo_parse (yd_parser d) elements (ov_shape (hd outputs)) md) (\<lambda>detections.
              Inr (map (\<lambda>x. x\<lparr>det_provider := yc_provider_name (yd_config d)\<rparr>) detections)))"

text \<open>From the tensor buffer on; \<open>buffer\<close> is what the workspace holds in it before.\<close>

definition detect_in_buffer :: "YoloPoseOnnxDetector \<Rightarrow> OperationContext \<Rightarrow> ValidatedImage \<Rightarrow> fl list \<Rightarrow> Detection list io" where
  "detect_in_buffer d ctx vi buffer =
     (let input = yc_input (yd_config d) in
      io_bind (io_lift (preprocess_into (yd_preprocessor d) vi buffer)) (\<lambda>(chw, md).
      io_bind (io_lift (checked_elements input)) (\<lambda>expected.
      if length chw \<noteq> unat expected then io_throw (InferenceError ''YOLO preprocessor produced unexpected tensor size'')
      else
        io_bind io_now (\<lambda>_.
        io_bind io_now (\<lambda>_.
        io_bind (os_run (yd_session d) [yc_input_name (yd_config d)]
            [float_tensor chw [1, yi_channels input, yi_height input, yi_width input]] [yc_output_name (yd_config d)]) (\<lambda>outputs.
        io_bind io_now (\<lambda>_.
        io_bind (yolo_check_context ctx) (\<lambda>_.
        io_bind io_now (\<lambda>_.
        io_bind (io_lift (parse_outputs d md outputs)) (\<lambda>detections.
        io_bind io_now (\<lambda>_. io_return detections)))))))))))"

text \<open>The detector's state is its workspace; an exception leaves it as the last step before it did.\<close>

definition yolo_detect :: "allocator \<Rightarrow> (nat \<Rightarrow> fl list) \<Rightarrow> YoloPoseOnnxDetector \<Rightarrow> ImageView \<Rightarrow> OperationContext \<Rightarrow> NativeImageWorkspace \<Rightarrow>
    World \<Rightarrow> nat \<Rightarrow> (Detection list result \<times> NativeImageWorkspace) \<times> nat" where
  "yolo_detect alloc buffer d img ctx ws w n =
     (case detect_entry d img ctx w n of
        (Inl e, k) \<Rightarrow> ((Inl e, ws), k)
      | (Inr vi, k) \<Rightarrow>
          (case prepare_tensor alloc (yp_tensor_elements (yd_preprocessor d)) ws of
             Inl e \<Rightarrow> ((Inl e, ws), k)
           | Inr (len, ws') \<Rightarrow> (case detect_in_buffer d ctx vi (buffer len) w k of (r, k') \<Rightarrow> ((r, ws'), k'))))"

section \<open>Properties\<close>

text \<open>What the constructor accepts, as one condition.\<close>

definition model_contract :: "OnnxInferenceSession \<Rightarrow> YoloPoseOnnxDetectorConfig \<Rightarrow> bool" where
  "model_contract s c \<longleftrightarrow>
     (\<exists>input output. find_descriptor (os_inputs s) (yc_input_name c) = Some input \<and>
       find_descriptor (os_outputs s) (yc_output_name c) = Some output \<and> td_is_float32 input \<and> td_is_float32 output \<and>
       td_shape input = [1, 3, yi_height (yc_input c), yi_width (yc_input c)] \<and>
       0 < sint (yi_height (yc_input c)) \<and> 0 < sint (yi_width (yc_input c)) \<and>
       length (td_shape output) = 3 \<and> td_shape output ! 0 = 1)"

lemma checked_elements_Inr: "make_yolo_preprocessor spec = Inr p \<Longrightarrow> checked_elements spec = Inr (yp_tensor_elements p)"
  by (auto simp: make_yolo_preprocessor_def checked_tensor_size_def checked_elements_def Let_def result_simps split: if_split_asm)

lemma length_4: "length xs = 4 \<longleftrightarrow> (\<exists>a b c d. xs = [a, b, c, d])"
  by (auto simp: length_Suc_conv eval_nat_numeral)

lemma validate_contract_Inr:
  assumes "make_yolo_preprocessor (yc_input c) = Inr p"
  shows "validate_contract s c = Inr u \<longleftrightarrow> model_contract s c"
proof -
  have ch: "yi_channels (yc_input c) = 3"
    using assms by (auto simp: make_yolo_preprocessor_def checked_tensor_size_def result_simps split: if_split_asm)
  have shape: "(\<not> (length xs \<noteq> 4 \<or> xs ! 0 \<noteq> 1 \<or> xs ! 1 \<noteq> 3) \<and> \<not> (sint (xs ! 2) \<le> 0 \<or> sint (xs ! 3) \<le> 0) \<and>
      \<not> (xs ! 2 \<noteq> h \<or> xs ! 3 \<noteq> w)) \<longleftrightarrow> xs = [1, 3, h, w] \<and> 0 < sint h \<and> 0 < sint w" for xs and h w :: "64 word"
  proof (cases "length xs = 4")
    case True
    then obtain a b c d where "xs = [a, b, c, d]" unfolding length_4 by blast
    then show ?thesis by auto
  next
    case False
    then show ?thesis by auto
  qed
  show ?thesis
  proof (cases "find_descriptor (os_inputs s) (yc_input_name c)")
    case None
    then show ?thesis by (simp add: validate_contract_def model_contract_def)
  next
    case (Some input)
    note i = Some
    show ?thesis
    proof (cases "find_descriptor (os_outputs s) (yc_output_name c)")
      case None
      with i show ?thesis by (simp add: validate_contract_def model_contract_def)
    next
      case (Some outp)
      have "validate_contract s c = Inr u \<longleftrightarrow> td_is_float32 input \<and> td_is_float32 outp \<and>
        (\<not> (length (td_shape input) \<noteq> 4 \<or> td_shape input ! 0 \<noteq> 1 \<or> td_shape input ! 1 \<noteq> 3) \<and>
         \<not> (sint (td_shape input ! 2) \<le> 0 \<or> sint (td_shape input ! 3) \<le> 0) \<and>
         \<not> (td_shape input ! 2 \<noteq> yi_height (yc_input c) \<or> td_shape input ! 3 \<noteq> yi_width (yc_input c))) \<and>
        length (td_shape outp) = 3 \<and> td_shape outp ! 0 = 1"
        unfolding validate_contract_def i Some prod.case option.case check_all_eq_Inr
        using ch checked_elements_Inr [OF assms] by (auto simp: throw_if_eq)
      then show ?thesis unfolding shape model_contract_def i Some by auto
    qed
  qed
qed

text \<open>
  The constructor accepts exactly the sessions the detector can serve: valid input and output configurations,
  the three names given, and a model whose named input is a float32 tensor of shape \<open>[1, 3, height, width]\<close> with the
  configured positive dimensions and whose named output is a float32 tensor of rank three and batch one.
\<close>

theorem yolo_detector_contract:
  "(\<exists>d. make_yolo_detector (Some s) c = Inr d) \<longleftrightarrow>
    (\<exists>p. make_yolo_preprocessor (yc_input c) = Inr p) \<and> make_yolo_parser (yc_output c) = Inr (yc_output c) \<and>
    yc_provider_name c \<noteq> [] \<and> yc_input_name c \<noteq> [] \<and> yc_output_name c \<noteq> [] \<and> model_contract s c"
proof (cases "make_yolo_preprocessor (yc_input c)")
  case (Inl e)
  then show ?thesis by (simp add: make_yolo_detector_def)
next
  case (Inr p)
  note pre = Inr
  show ?thesis
  proof (cases "make_yolo_parser (yc_output c)")
    case (Inl e)
    with pre show ?thesis by (simp add: make_yolo_detector_def)
  next
    case (Inr q)
    then have q: "q = yc_output c" by (auto simp: make_yolo_parser_def result_simps)
    show ?thesis
    proof (cases "yc_provider_name c = [] \<or> yc_input_name c = [] \<or> yc_output_name c = []")
      case True
      then show ?thesis unfolding make_yolo_detector_def pre Inr by auto
    next
      case False
      have "make_yolo_detector (Some s) c = res_bind (validate_contract s c) (\<lambda>_.
         Inr \<lparr>yd_session = s, yd_config = c, yd_preprocessor = p, yd_parser = q\<rparr>)"
        unfolding make_yolo_detector_def pre Inr using False by simp
      moreover have "(\<exists>d. res_bind (validate_contract s c) (\<lambda>_. Inr (D :: YoloPoseOnnxDetector)) = Inr d) \<longleftrightarrow> model_contract s c" for D
        using validate_contract_Inr [OF pre, of s] by (cases "validate_contract s c") auto
      ultimately show ?thesis using pre Inr q False by simp
    qed
  qed
qed

lemma made_detector:
  assumes "make_yolo_detector s c = Inr d"
  shows "make_yolo_preprocessor (yc_input c) = Inr (yd_preprocessor d) \<and> make_yolo_parser (yd_parser d) = Inr (yd_parser d) \<and>
    yd_config d = c \<and> s = Some (yd_session d) \<and> yd_parser d = yc_output c"
  using assms by (auto simp: make_yolo_detector_def result_simps make_yolo_parser_def split: option.splits if_split_asm)

lemma parse_outputs_certified:
  assumes "make_yolo_parser (yd_parser d) = Inr (yd_parser d)" and "parse_outputs d md outputs = Inr ds"
    and "\<forall>v \<in> set outputs. \<forall>elements. ov_data v = Some elements \<longrightarrow> length elements < 2 ^ 64"
  shows "length ds \<le> unat (ys_maximum_detections (yd_parser d)) \<and>
    sorted_wrt (\<lambda>a b. fle (det_confidence b) (det_confidence a)) ds \<and>
    (\<forall>x \<in> set ds. det_provider x = yc_provider_name (yd_config d) \<and> valid_detection x \<and> float_box (det_bbox x))"
proof -
  from assms(2) obtain v elements xs where out: "outputs = [v]" "ov_data v = Some elements"
    and xs: "yolo_parse (yd_parser d) elements (ov_shape v) md = Inr xs"
    and ds: "ds = map (\<lambda>x. x\<lparr>det_provider := yc_provider_name (yd_config d)\<rparr>) xs"
    by (auto simp: parse_outputs_def result_simps length_Suc_conv split: if_split_asm option.splits)
  have "length elements < 2 ^ 64" using assms(3) out by simp
  from certified_detections [OF assms(1) this xs] have c: "length xs \<le> unat (ys_maximum_detections (yd_parser d))"
    "\<forall>x \<in> set xs. detection_inside (yd_parser d) md x" "sorted_wrt (\<lambda>a b. fle (det_confidence b) (det_confidence a)) xs" by blast+
  have "valid_detection x \<and> float_box (det_bbox x)" if "detection_inside (yd_parser d) md x" for x
    using that by (auto simp: detection_inside_def box_inside_def valid_detection_def float_box_def is_prob_def)
  with c show ?thesis unfolding ds by (auto simp: sorted_wrt_map valid_detection_def)
qed

text \<open>
  C27: what a detection hands on. Whatever the session answers, when the detector returns its detections they are at most the
  configured number, by decreasing confidence, carry the configured provider name, and each is valid evidence for the
  detector fusion, with a box of floats; the workspace stays within its limits.
\<close>

theorem yolo_detector_feeds_fusion:
  assumes "make_yolo_detector (Some s) c = Inr d" and "bounded_session s" and "workspace_ok ws"
    and "yolo_detect alloc buffer d img ctx ws w n = ((Inr ds, ws'), n')"
  shows "length ds \<le> unat (ys_maximum_detections (yc_output c)) \<and>
    sorted_wrt (\<lambda>a b. fle (det_confidence b) (det_confidence a)) ds \<and>
    (\<forall>x \<in> set ds. det_provider x = yc_provider_name c \<and> valid_detection x \<and> float_box (det_bbox x)) \<and> workspace_ok ws'"
proof -
  from made_detector [OF assms(1)] have d: "make_yolo_parser (yd_parser d) = Inr (yd_parser d)" "yd_config d = c" "s = yd_session d"
    "yd_parser d = yc_output c" by auto
  from assms(4) obtain vi k len where e: "detect_entry d img ctx w n = (Inr vi, k)"
    and p: "prepare_tensor alloc (yp_tensor_elements (yd_preprocessor d)) ws = Inr (len, ws')"
    and r: "detect_in_buffer d ctx vi (buffer len) w k = (Inr ds, n')"
    by (auto simp: yolo_detect_def split: prod.splits sum.splits)
  from r obtain md outputs k1 k2 k3 names inputs outs where
    run: "os_run (yd_session d) names inputs outs w k1 = (Inr outputs, k2)" and ds: "parse_outputs d md outputs = Inr ds"
    unfolding detect_in_buffer_def Let_def by (auto simp: io_simps split: if_split_asm prod.splits)
  have "\<forall>v \<in> set outputs. \<forall>elements. ov_data v = Some elements \<longrightarrow> length elements < 2 ^ 64"
    using assms(2) run unfolding bounded_session_def d(3) by blast
  from parse_outputs_certified [OF d(1) ds this] prepare_tensor_ok [OF p assms(3)] show ?thesis unfolding d(2,4) by blast
qed

section \<open>One pixel\<close>

text \<open>A session that finds a plate that fills a one-pixel image.\<close>

definition dot_output :: "fl list" where
  "dot_output = map Fin [1/2, 1/2, 1, 1, 3/4, 0, 0, 1, 1, 0, 1, 1, 1, 1, 0, 1, 1]"

definition dot_session :: OnnxInferenceSession where
  "dot_session =
     \<lparr>os_inputs = [\<lparr>td_name = ''images'', td_is_float32 = True, td_shape = [1, 3, 2, 1]\<rparr>],
      os_outputs = [\<lparr>td_name = ''output'', td_is_float32 = True, td_shape = [1, 17, 1]\<rparr>],
      os_run = \<lambda>_ _ _. io_return [float_tensor dot_output [1, 17, 1]]\<rparr>"

definition dot_config :: YoloPoseOnnxDetectorConfig where
  "dot_config = \<lparr>yc_provider_name = ''yolo'', yc_input_name = ''images'', yc_output_name = ''output'', yc_input = small_input,
     yc_output = small_spec, yc_image_limits = default_performance_config\<rparr>"

definition dot_detector :: YoloPoseOnnxDetector where
  "dot_detector = \<lparr>yd_session = dot_session, yd_config = dot_config, yd_preprocessor = small_preprocessor, yd_parser = small_spec\<rparr>"

definition dot_workspace :: NativeImageWorkspace where
  "dot_workspace = \<lparr>ws_config = \<lparr>nw_max_tensor_elements = 100, nw_max_scratch_bytes = 100\<rparr>, ws_tensor_size = 0, ws_tensor_capacity = 6,
     ws_scratch_size = 0, ws_scratch_capacity = 0, ws_tensor_growth_count = 0, ws_scratch_growth_count = 0\<rparr>"

lemma dot_made: "make_yolo_detector (Some dot_session) dot_config = Inr dot_detector"
proof -
  have "model_contract dot_session dot_config"
    by (simp add: model_contract_def dot_session_def dot_config_def find_descriptor_def small_input_def)
  then have "validate_contract dot_session dot_config = Inr ()"
    using validate_contract_Inr [of dot_config small_preprocessor dot_session "()"] small_input_made by (simp add: dot_config_def)
  then show ?thesis
    by (simp add: make_yolo_detector_def dot_config_def [THEN arg_cong, of yc_input] dot_config_def [THEN arg_cong, of yc_output]
        dot_config_def [THEN arg_cong, of yc_provider_name] dot_config_def [THEN arg_cong, of yc_input_name]
        dot_config_def [THEN arg_cong, of yc_output_name] small_input_made small_made dot_detector_def)
qed

lemma dot_parsed: "map_sum id length (yolo_parse small_spec dot_output [1, 17, 1] dot_letterbox) = Inr 1"
  by code_simp

lemma dot_entry: "detect_entry dot_detector dot_image default_context w n = (Inr dot_validated, n + 1)"
proof -
  have "validate_image dot_image default_performance_config = Inr dot_validated"
    by (simp add: validate_image_def dot_image_def dot_validated_def default_performance_config_def pixel_format_channels_def
      bytes_size_def check_all.simps checked_multiply_def checked_add_def size_max_def)
  then show ?thesis
    by (simp add: detect_entry_def yolo_check_context_def check_operation_def cancellation_requested_def deadline_exceeded_def
      default_context_def io_bind_def io_return_def io_lift_def io_now_def dot_detector_def dot_config_def)
qed

lemma dot_detected:
  "\<exists>ds ws' n'. yolo_detect (\<lambda>_ _. Inl bad_alloc) (\<lambda>n. replicate n NaN) dot_detector dot_image default_context dot_workspace w 0 =
     ((Inr ds, ws'), n') \<and> length ds = 1"
proof -
  from map_sum_Inr_obtain [OF dot_parsed] obtain xs where xs: "yolo_parse small_spec dot_output [1, 17, 1] dot_letterbox = Inr xs" "length xs = 1"
    by blast
  let ?ds = "map (\<lambda>x. x\<lparr>det_provider := ''yolo''\<rparr>) xs"
  have ne: "dot_output \<noteq> []" by (simp add: dot_output_def)
  have out: "parse_outputs dot_detector dot_letterbox [float_tensor dot_output [1, 17, 1]] = Inr ?ds"
    using xs(1) ne by (simp add: parse_outputs_def dot_detector_def dot_config_def)
  have elements: "checked_elements small_input = Inr 6" using checked_elements_Inr [OF small_input_made] by (simp add: small_preprocessor_def)
  have d: "yd_preprocessor dot_detector = small_preprocessor" "yc_input (yd_config dot_detector) = small_input"
    "os_run (yd_session dot_detector) a b c = io_return [float_tensor dot_output [1, 17, 1]]" for a b c
    by (simp_all add: dot_detector_def dot_config_def dot_session_def)
  have "detect_in_buffer dot_detector default_context dot_validated (replicate 6 NaN) w 1 = (Inr ?ds, 6)"
    unfolding detect_in_buffer_def Let_def d dot_tensor elements
    by (simp add: io_bind_def io_return_def io_lift_def io_now_def out yolo_check_context_def check_operation_def
      cancellation_requested_def deadline_exceeded_def default_context_def)
  moreover have "prepare_tensor (\<lambda>_ _. Inl bad_alloc) 6 dot_workspace = Inr (6, dot_workspace\<lparr>ws_tensor_size := 6\<rparr>)"
    by (simp add: prepare_tensor_def vector_resize_def dot_workspace_def)
  moreover have "yp_tensor_elements small_preprocessor = 6" by (simp add: small_preprocessor_def)
  ultimately show ?thesis using xs(2) unfolding yolo_detect_def dot_entry d by simp
qed

lemma yolo_detector_feeds_fusion_witness:
  "\<exists>ds ws' n'. yolo_detect (\<lambda>_ _. Inl bad_alloc) (\<lambda>n. replicate n NaN) dot_detector dot_image default_context dot_workspace demo_world 0 =
     ((Inr ds, ws'), n') \<and> length ds = 1 \<and> list_all (\<lambda>x. valid_detection x \<and> float_box (det_bbox x)) ds"
proof -
  from dot_detected [of demo_world] obtain ds ws' n' where r: "yolo_detect (\<lambda>_ _. Inl bad_alloc) (\<lambda>n. replicate n NaN) dot_detector dot_image
    default_context dot_workspace demo_world 0 = ((Inr ds, ws'), n')" "length ds = 1" by blast
  have s: "bounded_session dot_session" by (simp add: bounded_session_def dot_session_def io_simps dot_output_def)
  have ws: "workspace_ok dot_workspace" by (simp add: workspace_ok_def dot_workspace_def)
  from yolo_detector_feeds_fusion [OF dot_made s ws r(1)] r show ?thesis by (auto simp: list_all_iff)
qed

end
