(* ===== verification/Lprnet_Input.thy ===== *)
theory Lprnet_Input
  imports Yolo_Preprocessor Onnx_Session
begin

text \<open>
  The input side of the character recognizer: the contract between a model and the preprocessor
  (\<^verbatim>\<open>infrastructure/lprnet/lprnet_onnx_contract.cpp\<close>) and the preprocessor itself
  (\<^verbatim>\<open>lprnet_preprocessor.cpp\<close>), which stretches a plate over the whole input, normalizes each ch and writes it in
  the layout of the model. Arrays of the code are lists of their length.
\<close>

section \<open>Configuration\<close>

datatype TensorLayout = nchw | nhwc

datatype InputColorOrder = order_gray | order_rgb | order_bgr

datatype TensorElementType = float32

record LprNetInputSpec =
  li_width :: "64 word"
  li_height :: "64 word"
  li_channels :: "64 word"
  li_layout :: TensorLayout
  li_color_order :: InputColorOrder
  li_element_type :: TensorElementType
  li_input_scale :: fl
  li_mean :: "fl list"
  li_standard_deviation :: "fl list"

definition default_lprnet_spec :: LprNetInputSpec where
  "default_lprnet_spec = \<lparr>li_width = 0, li_height = 0, li_channels = 0, li_layout = nchw, li_color_order = order_rgb, li_element_type = float32,
     li_input_scale = div32 (Fin 1) (Fin 255), li_mean = [Fin 0, Fin 0, Fin 0], li_standard_deviation = [Fin 1, Fin 1, Fin 1]\<rparr>"

record LprNetInputTensor =
  lt_values :: "fl list"
  lt_shape :: "64 word list"

record LprNetPreprocessor =
  lp_spec :: LprNetInputSpec
  lp_tensor_elements :: "64 word"
  lp_tensor_shape :: "64 word list"

definition invalid_normalization :: "LprNetInputSpec \<Rightarrow> nat \<Rightarrow> bool" where
  "invalid_normalization spec ch \<longleftrightarrow>
     \<not> is_finite (li_mean spec ! ch) \<or> \<not> is_finite (li_standard_deviation spec ! ch) \<or>
     fle (li_standard_deviation spec ! ch) (Fin 0)"

definition lp_checked_tensor_size :: "LprNetInputSpec \<Rightarrow> 64 word result" where
  "lp_checked_tensor_size spec =
     (if li_width spec = 0 \<or> li_height spec = 0 \<or> (li_channels spec \<noteq> 1 \<and> li_channels spec \<noteq> 3)
      then Inl (ConfigurationError ''LPRNet input must be non-zero HxW with 1 or 3 channels'')
      else if (li_channels spec = 1 \<and> li_color_order spec \<noteq> order_gray) \<or> (li_channels spec = 3 \<and> li_color_order spec = order_gray)
      then Inl (ConfigurationError ''LPRNet channel count and color order are inconsistent'')
      else if li_element_type spec \<noteq> float32
      then Inl (ConfigurationError ''only float32 LPRNet input tensors are currently supported'')
      else if \<not> is_finite (li_input_scale spec) \<or> fle (li_input_scale spec) (Fin 0)
      then Inl (ConfigurationError ''LPRNet input scale must be finite and positive'')
      else if list_ex (invalid_normalization spec) [0..<unat (li_channels spec)]
      then Inl (ConfigurationError ''LPRNet normalization parameters are invalid'')
      else if li_width spec > size_max div li_height spec then Inl (ConfigurationError ''LPRNet input dimensions overflow'')
      else let pixel_count = li_width spec * li_height spec in
        if pixel_count > size_max div li_channels spec then Inl (ConfigurationError ''LPRNet input tensor size overflows'')
        else Inr (pixel_count * li_channels spec))"

text \<open>An \<open>int64\<close> dimension of the tensor; the largest one is \<open>2 ^ 63 - 1\<close>.\<close>

definition to_i64 :: "64 word \<Rightarrow> string \<Rightarrow> 64 word result" where
  "to_i64 v name = (if v > 0x7FFFFFFFFFFFFFFF then Inl (ConfigurationError (name @ '' exceeds int64 tensor dimension limits'')) else Inr v)"

definition make_shape :: "LprNetInputSpec \<Rightarrow> 64 word list result" where
  "make_shape spec =
     (let dim = \<lambda>(v, name). to_i64 v name;
          c = (li_channels spec, ''LPRNet channels''); h = (li_height spec, ''LPRNet height''); w = (li_width spec, ''LPRNet width'')
      in res_bind (res_map_list dim (if li_layout spec = nchw then [c, h, w] else [h, w, c])) (\<lambda>dims. Inr (1 # dims)))"

definition make_lprnet_preprocessor :: "LprNetInputSpec \<Rightarrow> LprNetPreprocessor result" where
  "make_lprnet_preprocessor spec =
     res_bind (lp_checked_tensor_size spec) (\<lambda>elements.
     res_bind (make_shape spec) (\<lambda>shape.
     Inr \<lparr>lp_spec = spec, lp_tensor_elements = elements, lp_tensor_shape = shape\<rparr>))"

section \<open>The contract of the model\<close>

record LprNetPreprocessSemantics =
  sem_color_order :: InputColorOrder
  sem_input_scale :: fl
  sem_mean :: "fl list"
  sem_standard_deviation :: "fl list"

definition is_channel_dimension :: "64 word \<Rightarrow> bool" where
  "is_channel_dimension v \<longleftrightarrow> v = 1 \<or> v = 3"

text \<open>A \<open>size_t\<close> holds every positive \<open>int64\<close>, so the second check of the code cannot fail.\<close>

definition lp_checked_dimension :: "64 word \<Rightarrow> string \<Rightarrow> 64 word result" where
  "lp_checked_dimension v name =
     (if sint v \<le> 0 then Inl (ModelLoadError (''LPRNet input '' @ name @ '' must be a fixed positive dimension''))
      else if v > size_max then Inl (ModelLoadError (''LPRNet input '' @ name @ '' exceeds platform size limits''))
      else Inr v)"

definition validate_semantics :: "LprNetPreprocessSemantics \<Rightarrow> 64 word \<Rightarrow> unit result" where
  "validate_semantics sem channels = check_all
     ([throw_if (\<not> is_finite (sem_input_scale sem) \<or> fle (sem_input_scale sem) (Fin 0))
        (ConfigurationError ''LPRNet preprocess input_scale must be finite and greater than zero'')] @
      concat (map (\<lambda>i.
        [throw_if (\<not> is_finite (sem_mean sem ! i)) (ConfigurationError ''LPRNet preprocess mean values must be finite''),
         throw_if (\<not> is_finite (sem_standard_deviation sem ! i) \<or> fle (sem_standard_deviation sem ! i) (Fin 0))
           (ConfigurationError ''LPRNet preprocess standard deviation values must be finite and positive'')])
        [0..<length (sem_mean sem)]) @
      [throw_if (channels = 1 \<and> sem_color_order sem \<noteq> order_gray)
         (ConfigurationError ''single-channel LPRNet input requires gray preprocessing semantics''),
       throw_if (channels = 3 \<and> sem_color_order sem = order_gray)
         (ConfigurationError ''three-channel LPRNet input requires RGB or BGR preprocessing semantics'')])"

text \<open>The dimensions of the input by the place of its channels: layout, channels, height, width.\<close>

definition input_dimensions :: "64 word list \<Rightarrow> (TensorLayout \<times> 64 word \<times> 64 word \<times> 64 word) result" where
  "input_dimensions shape =
     (if is_channel_dimension (shape ! 1)
      then res_bind (lp_checked_dimension (shape ! 1) ''channels'') (\<lambda>channels.
           res_bind (lp_checked_dimension (shape ! 2) ''height'') (\<lambda>height.
           res_bind (lp_checked_dimension (shape ! 3) ''width'') (\<lambda>width. Inr (nchw, channels, height, width))))
      else res_bind (lp_checked_dimension (shape ! 1) ''height'') (\<lambda>height.
           res_bind (lp_checked_dimension (shape ! 2) ''width'') (\<lambda>width.
           res_bind (lp_checked_dimension (shape ! 3) ''channels'') (\<lambda>channels. Inr (nhwc, channels, height, width)))))"

definition make_lprnet_input_spec :: "TensorDescriptor \<Rightarrow> LprNetPreprocessSemantics \<Rightarrow> LprNetInputSpec result" where
  "make_lprnet_input_spec input sem =
     (if \<not> td_is_float32 input then Inl (ModelLoadError ''LPRNet input tensor must use float32 elements'')
      else if length (td_shape input) \<noteq> 4 then Inl (ModelLoadError ''LPRNet input tensor must be rank 4'')
      else if td_shape input ! 0 \<noteq> 1 \<and> td_shape input ! 0 \<noteq> - 1
      then Inl (ModelLoadError ''LPRNet input batch dimension must be 1 or dynamic'')
      else if is_channel_dimension (td_shape input ! 1) = is_channel_dimension (td_shape input ! 3)
      then Inl (ModelLoadError ''LPRNet input layout is ambiguous or has unsupported channel dimensions'')
      else res_bind (input_dimensions (td_shape input)) (\<lambda>(layout, channels, height, width).
        res_bind (validate_semantics sem channels) (\<lambda>_.
        Inr \<lparr>li_width = width, li_height = height, li_channels = channels, li_layout = layout, li_color_order = sem_color_order sem,
          li_element_type = float32, li_input_scale = sem_input_scale sem, li_mean = sem_mean sem,
          li_standard_deviation = sem_standard_deviation sem\<rparr>)))"

definition inspect_lprnet_input_spec :: "OnnxInferenceSession \<Rightarrow> LprNetPreprocessSemantics \<Rightarrow> string \<Rightarrow> LprNetInputSpec result" where
  "inspect_lprnet_input_spec session sem input_name =
     (let inputs = os_inputs session in
      if inputs = [] then Inl (ModelLoadError ''LPRNet model has no input tensors'')
      else if input_name = []
      then (if length inputs \<noteq> 1 then Inl (ModelLoadError ''LPRNet model has multiple inputs; an explicit input name is required'')
            else make_lprnet_input_spec (hd inputs) sem)
      else case List.find (\<lambda>d. td_name d = input_name) inputs of
          None \<Rightarrow> Inl (ModelLoadError ''configured LPRNet input name was not found in model metadata'')
        | Some d \<Rightarrow> make_lprnet_input_spec d sem)"

section \<open>Preprocessing\<close>

text \<open>The samplers of the two preprocessors are the same code.\<close>

definition lp_pixel_at :: "ImageView \<Rightarrow> nat \<Rightarrow> nat \<Rightarrow> RgbSample" where
  "lp_pixel_at img x y =
     (if img_format img = gray8
      then let gray = byte_value (byte_at img y x) in \<lparr>rgb_red = gray, rgb_green = gray, rgb_blue = gray\<rparr>
      else let base = x * 3 in
        if img_format img = rgb8
        then \<lparr>rgb_red = byte_value (byte_at img y base), rgb_green = byte_value (byte_at img y (base + 1)),
              rgb_blue = byte_value (byte_at img y (base + 2))\<rparr>
        else \<lparr>rgb_red = byte_value (byte_at img y (base + 2)), rgb_green = byte_value (byte_at img y (base + 1)),
              rgb_blue = byte_value (byte_at img y base)\<rparr>)"

definition lp_bilinear_sample :: "ImageView \<Rightarrow> fl \<Rightarrow> fl \<Rightarrow> RgbSample" where
  "lp_bilinear_sample img source_x source_y =
     (let clamped_x = fclamp source_x (Fin 0) (double_of_size (img_width img - 1));
          clamped_y = fclamp source_y (Fin 0) (double_of_size (img_height img - 1));
          x0 = floor_size clamped_x; y0 = floor_size clamped_y;
          x1 = min (x0 + 1) (img_width img - 1); y1 = min (y0 + 1) (img_height img - 1);
          dx = fcast binary32 (fsub binary64 clamped_x (double_of_size x0));
          dy = fcast binary32 (fsub binary64 clamped_y (double_of_size y0));
          p00 = lp_pixel_at img (unat x0) (unat y0); p10 = lp_pixel_at img (unat x1) (unat y0);
          p01 = lp_pixel_at img (unat x0) (unat y1); p11 = lp_pixel_at img (unat x1) (unat y1);
          interpolate = \<lambda>a b c d.
            let top = add32 (mul32 a (sub32 (Fin 1) dx)) (mul32 b dx);
                bottom = add32 (mul32 c (sub32 (Fin 1) dx)) (mul32 d dx)
            in add32 (mul32 top (sub32 (Fin 1) dy)) (mul32 bottom dy)
      in \<lparr>rgb_red = interpolate (rgb_red p00) (rgb_red p10) (rgb_red p01) (rgb_red p11),
          rgb_green = interpolate (rgb_green p00) (rgb_green p10) (rgb_green p01) (rgb_green p11),
          rgb_blue = interpolate (rgb_blue p00) (rgb_blue p10) (rgb_blue p01) (rgb_blue p11)\<rparr>)"

definition luminance :: "RgbSample \<Rightarrow> fl" where
  "luminance s =
     add32 (add32 (mul32 (lit32 (299/1000)) (rgb_red s)) (mul32 (lit32 (587/1000)) (rgb_green s))) (mul32 (lit32 (114/1000)) (rgb_blue s))"

definition ordered_channels :: "RgbSample \<Rightarrow> LprNetInputSpec \<Rightarrow> fl list" where
  "ordered_channels s spec =
     (case li_color_order spec of
        order_bgr \<Rightarrow> [rgb_blue s, rgb_green s, rgb_red s]
      | order_gray \<Rightarrow> [luminance s, Fin 0, Fin 0]
      | order_rgb \<Rightarrow> [rgb_red s, rgb_green s, rgb_blue s])"

definition normalize_value :: "fl \<Rightarrow> nat \<Rightarrow> LprNetInputSpec \<Rightarrow> fl" where
  "normalize_value v ch spec =
     div32 (sub32 (mul32 v (li_input_scale spec)) (li_mean spec ! ch)) (li_standard_deviation spec ! ch)"

definition lp_source_scale :: "64 word \<Rightarrow> 64 word \<Rightarrow> fl" where
  "lp_source_scale extent target = fdiv binary64 (double_of_size extent) (double_of_size target)"

definition lp_source_position :: "nat \<Rightarrow> fl \<Rightarrow> fl" where
  "lp_source_position i scale = fsub binary64 (fmul binary64 (fadd binary64 (float_of_nat binary64 i) (Fin (1/2))) scale) (Fin (1/2))"

definition lp_offset :: "LprNetInputSpec \<Rightarrow> nat \<Rightarrow> nat \<Rightarrow> nat \<Rightarrow> 64 word" where
  "lp_offset spec ch x y =
     (let plane_size = li_width spec * li_height spec; pixel_index = of_nat y * li_width spec + of_nat x
      in if li_layout spec = nchw then of_nat ch * plane_size + pixel_index
         else pixel_index * li_channels spec + of_nat ch)"

definition lp_write_pixel :: "LprNetInputSpec \<Rightarrow> ImageView \<Rightarrow> nat \<times> nat \<Rightarrow> fl list \<Rightarrow> fl list" where
  "lp_write_pixel spec img = (\<lambda>(x, y) output.
     let sample = lp_bilinear_sample img (lp_source_position x (lp_source_scale (img_width img) (li_width spec)))
           (lp_source_position y (lp_source_scale (img_height img) (li_height spec)));
         channels = ordered_channels sample spec
     in fold (\<lambda>ch out. out[unat (lp_offset spec ch x y) := normalize_value (channels ! ch) ch spec])
          [0..<unat (li_channels spec)] output)"

definition lp_preprocess_into :: "LprNetPreprocessor \<Rightarrow> ValidatedImage \<Rightarrow> fl list \<Rightarrow> fl list result" where
  "lp_preprocess_into p vi output =
     (if length output \<noteq> unat (lp_tensor_elements p)
      then Inl (InvalidImageError ''LPRNet output tensor workspace has the wrong element count'')
      else Inr (fold (lp_write_pixel (lp_spec p) (vi_view vi))
        (pixels 0 (unat (li_width (lp_spec p))) 0 (unat (li_height (lp_spec p)))) output))"

definition lprnet_preprocess :: "LprNetPreprocessor \<Rightarrow> ValidatedImage \<Rightarrow> LprNetInputTensor result" where
  "lprnet_preprocess p vi =
     res_bind (lp_preprocess_into p vi (replicate (unat (lp_tensor_elements p)) (Fin 0))) (\<lambda>values.
       Inr \<lparr>lt_values = values, lt_shape = lp_tensor_shape p\<rparr>)"

text \<open>Into the workspace; \<open>buffer\<close> is what it holds before.\<close>

definition lprnet_preprocess_workspace :: "LprNetPreprocessor \<Rightarrow> allocator \<Rightarrow> (nat \<Rightarrow> fl list) \<Rightarrow> ValidatedImage \<Rightarrow> NativeImageWorkspace \<Rightarrow>
    (LprNetInputTensor \<times> NativeImageWorkspace) result" where
  "lprnet_preprocess_workspace p alloc buffer vi ws =
     res_bind (prepare_tensor alloc (lp_tensor_elements p) ws) (\<lambda>(n, ws).
     res_bind (lp_preprocess_into p vi (buffer n)) (\<lambda>values.
       Inr (\<lparr>lt_values = values, lt_shape = lp_tensor_shape p\<rparr>, ws)))"

section \<open>Sizes and shapes\<close>

lemma lp_sampler: "lp_pixel_at = pixel_at" "lp_bilinear_sample = bilinear_sample" "lp_source_position = source_position"
proof -
  show p: "lp_pixel_at = pixel_at" by (simp add: fun_eq_iff lp_pixel_at_def pixel_at_def)
  show "lp_bilinear_sample = bilinear_sample"
    by (simp add: fun_eq_iff lp_bilinear_sample_def bilinear_sample_def interpolate_def p Let_def)
  show "lp_source_position = source_position" by (simp add: fun_eq_iff lp_source_position_def source_position_def)
qed

lemma lp_size:
  assumes "lp_checked_tensor_size spec = Inr n"
  shows "li_width spec \<noteq> 0 \<and> li_height spec \<noteq> 0 \<and> (li_channels spec = 1 \<or> li_channels spec = 3) \<and>
    unat (li_channels spec) * (unat (li_width spec) * unat (li_height spec)) < 2 ^ 64 \<and>
    unat n = unat (li_channels spec) * (unat (li_width spec) * unat (li_height spec))"
proof -
  let ?w = "li_width spec" and ?h = "li_height spec" and ?c = "li_channels spec"
  from assms have c: "?w \<noteq> 0" "?h \<noteq> 0" "?c = 1 \<or> ?c = 3" "\<not> ?w > size_max div ?h" "\<not> ?w * ?h > size_max div ?c" "n = ?w * ?h * ?c"
    unfolding lp_checked_tensor_size_def by (auto simp: Let_def split: if_split_asm)
  have "checked_multiply ?h ?w [] = Inr (?h * ?w)" using c(4) by (simp add: checked_multiply_def)
  then have wh: "unat ?h * unat ?w < 2 ^ 64" "unat (?h * ?w) = unat ?h * unat ?w" unfolding checked_multiply_Inr by simp_all
  have "checked_multiply ?c (?w * ?h) [] = Inr (?c * (?w * ?h))" using c(5) by (simp add: checked_multiply_def)
  then have whc: "unat ?c * unat (?w * ?h) < 2 ^ 64" "unat (?c * (?w * ?h)) = unat ?c * unat (?w * ?h)" unfolding checked_multiply_Inr by simp_all
  have "n = ?c * (?w * ?h)" using c(6) by (simp add: mult.commute)
  moreover have "unat (?w * ?h) = unat ?w * unat ?h" using wh by (simp add: mult.commute)
  ultimately show ?thesis using c(1-3) whc by simp
qed

lemma sint_negative: "sint (v :: 64 word) < 0 \<longleftrightarrow> 2 ^ 63 \<le> unat v"
proof -
  have "sint v < 0 \<longleftrightarrow> bit v 63" using bit_last_iff [of v] by simp
  also have "\<dots> \<longleftrightarrow> bit (unat v) 63" by (simp add: bit_unsigned_iff)
  also have "\<dots> \<longleftrightarrow> odd (unat v div 2 ^ 63)" by (rule bit_iff_odd)
  also have "\<dots> \<longleftrightarrow> 2 ^ 63 \<le> unat v"
  proof -
    have "unat v div 2 ^ 63 < 2" using unat_less_2_64 [of v] by (intro div_less_iff_less_mult [THEN iffD2]) simp_all
    then have "odd (unat v div 2 ^ 63) \<longleftrightarrow> 0 < unat v div 2 ^ 63" by (cases "unat v div 2 ^ 63") auto
    then show ?thesis by (simp add: div_greater_zero_iff)
  qed
  finally show ?thesis .
qed

lemma to_i64_Inr: "to_i64 v name = Inr u \<longleftrightarrow> u = v \<and> 0 \<le> sint v"
proof -
  have "(0x7FFFFFFFFFFFFFFF :: 64 word) < v \<longleftrightarrow> sint v < 0"
    unfolding sint_negative by (simp add: word_less_nat_alt) linarith
  then show ?thesis by (auto simp: to_i64_def)
qed

definition shape_dims :: "LprNetInputSpec \<Rightarrow> 64 word list" where
  "shape_dims spec = (if li_layout spec = nchw then [1, li_channels spec, li_height spec, li_width spec]
     else [1, li_height spec, li_width spec, li_channels spec])"

lemma made_preprocessor:
  assumes "make_lprnet_preprocessor spec = Inr p"
  shows "lp_spec p = spec" "lp_checked_tensor_size spec = Inr (lp_tensor_elements p)" "lp_tensor_shape p = shape_dims spec"
    "\<forall>d \<in> set (shape_dims spec). 0 < sint d"
proof -
  from assms obtain n shape where n: "lp_checked_tensor_size spec = Inr n" and s: "make_shape spec = Inr shape"
    and p: "p = \<lparr>lp_spec = spec, lp_tensor_elements = n, lp_tensor_shape = shape\<rparr>"
    by (auto simp: make_lprnet_preprocessor_def result_simps)
  from s have sh: "shape = shape_dims spec" "0 \<le> sint (li_channels spec)" "0 \<le> sint (li_height spec)" "0 \<le> sint (li_width spec)"
    unfolding make_shape_def shape_dims_def by (auto simp: Let_def result_simps to_i64_Inr split: if_split_asm)
  have pos: "0 < sint d" if "0 \<le> sint d" "d \<noteq> 0" for d :: "64 word" using that by (metis order_less_le signed_0 signed_eq_0_iff)
  show "lp_spec p = spec" "lp_checked_tensor_size spec = Inr (lp_tensor_elements p)" "lp_tensor_shape p = shape_dims spec"
    using n p sh(1) by simp_all
  have "li_channels spec \<noteq> 0" using lp_size [OF n] by auto
  with pos sh lp_size [OF n] show "\<forall>d \<in> set (shape_dims spec). 0 < sint d" by (simp add: shape_dims_def)
qed

lemma shape_product: "prod_list (map unat (shape_dims spec)) = unat (li_channels spec) * (unat (li_width spec) * unat (li_height spec))"
  by (simp add: shape_dims_def mult.commute mult.left_commute)

section \<open>The tensor, element by element\<close>

lemma pair_index_less: "a < m \<Longrightarrow> b < n \<Longrightarrow> a * n + b < m * (n :: nat)"
proof -
  assume "a < m" "b < n"
  then have "a * n + b < (a + 1) * n" by simp
  also have "\<dots> \<le> m * n" using \<open>a < m\<close> by (intro mult_right_mono) simp_all
  finally show ?thesis .
qed

lemma pair_index_unique: "b < n \<Longrightarrow> b' < (n :: nat) \<Longrightarrow> a * n + b = a' * n + b' \<longleftrightarrow> a = a' \<and> b = b'"
proof
  assume b: "b < n" "b' < n" and e: "a * n + b = a' * n + b'"
  have "(a * n + b) div n = a" "(a' * n + b') div n = a'" "(a * n + b) mod n = b" "(a' * n + b') mod n = b'" using b by simp_all
  with e show "a = a' \<and> b = b'" by metis
qed simp

text \<open>Where an element is, as a number.\<close>

definition tensor_index :: "LprNetInputSpec \<Rightarrow> nat \<times> nat \<times> nat \<Rightarrow> nat" where
  "tensor_index spec = (\<lambda>(c, x, y).
     let pixel = y * unat (li_width spec) + x
     in if li_layout spec = nchw then c * (unat (li_height spec) * unat (li_width spec)) + pixel else pixel * unat (li_channels spec) + c)"

definition tensor_places :: "LprNetInputSpec \<Rightarrow> (nat \<times> nat \<times> nat) set" where
  "tensor_places spec = {(c, x, y). c < unat (li_channels spec) \<and> x < unat (li_width spec) \<and> y < unat (li_height spec)}"

lemma tensor_index_less:
  "q \<in> tensor_places spec \<Longrightarrow> tensor_index spec q < unat (li_channels spec) * (unat (li_width spec) * unat (li_height spec))"
proof -
  assume "q \<in> tensor_places spec"
  then obtain c x y where q: "q = (c, x, y)" "c < unat (li_channels spec)" "x < unat (li_width spec)" "y < unat (li_height spec)"
    by (auto simp: tensor_places_def)
  have p: "y * unat (li_width spec) + x < unat (li_height spec) * unat (li_width spec)" by (rule pair_index_less [OF q(4,3)])
  show ?thesis using pair_index_less [OF q(2) p] pair_index_less [OF p q(2)]
    by (simp add: q(1) tensor_index_def Let_def mult.commute mult.left_commute)
qed

lemma tensor_index_inj: "q \<in> tensor_places spec \<Longrightarrow> q' \<in> tensor_places spec \<Longrightarrow> tensor_index spec q = tensor_index spec q' \<Longrightarrow> q = q'"
proof -
  assume "q \<in> tensor_places spec" "q' \<in> tensor_places spec" and e: "tensor_index spec q = tensor_index spec q'"
  then obtain c x y c' x' y' where q: "q = (c, x, y)" "c < unat (li_channels spec)" "x < unat (li_width spec)" "y < unat (li_height spec)"
    and q': "q' = (c', x', y')" "c' < unat (li_channels spec)" "x' < unat (li_width spec)" "y' < unat (li_height spec)"
    by (auto simp: tensor_places_def)
  have p: "y * unat (li_width spec) + x < unat (li_height spec) * unat (li_width spec)"
    "y' * unat (li_width spec) + x' < unat (li_height spec) * unat (li_width spec)"
    by (rule pair_index_less [OF q(4,3)], rule pair_index_less [OF q'(4,3)])
  have "c = c' \<and> y * unat (li_width spec) + x = y' * unat (li_width spec) + x'"
  proof (cases "li_layout spec = nchw")
    case True
    then show ?thesis using e pair_index_unique [OF p] by (simp add: q q' tensor_index_def Let_def)
  next
    case False
    then show ?thesis using e pair_index_unique [OF q(2) q'(2)] by (simp add: q q' tensor_index_def Let_def)
  qed
  with pair_index_unique [OF q(3) q'(3)] q q' show "q = q'" by simp
qed

lemma tensor_index_onto:
  assumes "k < unat (li_channels spec) * (unat (li_width spec) * unat (li_height spec))"
  shows "\<exists>q \<in> tensor_places spec. tensor_index spec q = k"
proof -
  have "inj_on (tensor_index spec) (tensor_places spec)" by (intro inj_onI tensor_index_inj)
  moreover have places: "tensor_places spec = {..<unat (li_channels spec)} \<times> {..<unat (li_width spec)} \<times> {..<unat (li_height spec)}"
    by (auto simp: tensor_places_def)
  ultimately have "card (tensor_index spec ` tensor_places spec) = unat (li_channels spec) * (unat (li_width spec) * unat (li_height spec))"
    by (simp add: card_image card_cartesian_product)
  moreover have "tensor_index spec ` tensor_places spec \<subseteq> {..<unat (li_channels spec) * (unat (li_width spec) * unat (li_height spec))}"
    using tensor_index_less by auto
  ultimately have "tensor_index spec ` tensor_places spec = {..<unat (li_channels spec) * (unat (li_width spec) * unat (li_height spec))}"
    by (intro card_subset_eq) simp_all
  with assms show ?thesis by (metis imageE lessThan_iff)
qed

lemma lp_offset_index:
  assumes "unat (li_channels spec) * (unat (li_width spec) * unat (li_height spec)) < 2 ^ 64"
    and "c < unat (li_channels spec)" "x < unat (li_width spec)" "y < unat (li_height spec)"
  shows "unat (lp_offset spec c x y) = tensor_index spec (c, x, y)"
proof -
  let ?W = "li_width spec" and ?H = "li_height spec" and ?C = "li_channels spec"
  have q: "(c, x, y) \<in> tensor_places spec" using assms(2-4) by (simp add: tensor_places_def)
  have big: "tensor_index spec (c, x, y) < 2 ^ 64" using tensor_index_less [OF q] assms(1) by linarith
  have nat: "unat (of_nat c :: 64 word) = c" "unat (of_nat x :: 64 word) = x" "unat (of_nat y :: 64 word) = y"
    using assms(2-4) unat_less_2_64 [of ?C] unat_less_2_64 [of ?W] unat_less_2_64 [of ?H] by (simp_all add: unat_of_nat)
  have p: "y * unat ?W + x < unat ?H * unat ?W" by (rule pair_index_less [OF assms(4,3)])
  have "1 * (unat ?W * unat ?H) \<le> unat ?C * (unat ?W * unat ?H)" using assms(2) by (intro mult_right_mono) simp_all
  with assms(1) have hw: "unat ?W * unat ?H < 2 ^ 64" by linarith
  have wh: "unat (?W * ?H) = unat ?H * unat ?W" using hw by (subst unat_mult_exact) (simp_all add: mult.commute)
  have b: "unat (of_nat y * ?W) = y * unat ?W" using p hw nat by (subst unat_mult_exact) (simp_all add: mult.commute)
  have pixel: "unat (of_nat y * ?W + of_nat x) = y * unat ?W + x"
    using p hw nat b by (subst unat_add_exact) (simp_all add: mult.commute)
  show ?thesis
  proof (cases "li_layout spec = nchw")
    case True
    then have "c * (unat ?H * unat ?W) + (y * unat ?W + x) < 2 ^ 64" using big by (simp add: tensor_index_def Let_def)
    moreover from this have "unat (of_nat c * (?W * ?H)) = c * (unat ?H * unat ?W)"
      using nat wh by (subst unat_mult_exact) simp_all
    ultimately show ?thesis using True pixel by (simp add: lp_offset_def tensor_index_def Let_def unat_add_exact)
  next
    case False
    then have "(y * unat ?W + x) * unat ?C + c < 2 ^ 64" using big by (simp add: tensor_index_def Let_def)
    moreover from this have "unat ((of_nat y * ?W + of_nat x) * ?C) = (y * unat ?W + x) * unat ?C"
      using pixel by (subst unat_mult_exact) simp_all
    ultimately show ?thesis using False nat by (simp add: lp_offset_def tensor_index_def Let_def unat_add_exact)
  qed
qed

text \<open>The value of an element, and the write loop as one list of writes.\<close>

definition lp_tensor_value :: "LprNetInputSpec \<Rightarrow> ImageView \<Rightarrow> nat \<times> nat \<times> nat \<Rightarrow> fl" where
  "lp_tensor_value spec img = (\<lambda>(c, x, y).
     normalize_value (ordered_channels (bilinear_sample img (source_position x (lp_source_scale (img_width img) (li_width spec)))
       (source_position y (lp_source_scale (img_height img) (li_height spec)))) spec ! c) c spec)"

lemma fold_fold_concat: "fold (\<lambda>p. fold (g p) cs) ps out = fold (\<lambda>(c, p). g p c) (concat (map (\<lambda>p. map (\<lambda>c. (c, p)) cs) ps)) out"
proof (induction ps arbitrary: out)
  case (Cons p ps)
  have "fold (g p) cs out = fold (\<lambda>(c, p). g p c) (map (\<lambda>c. (c, p)) cs) out" by (simp add: fold_map comp_def)
  with Cons show ?case by simp
qed simp

definition tensor_writes :: "LprNetInputSpec \<Rightarrow> (nat \<times> nat \<times> nat) list" where
  "tensor_writes spec = concat (map (\<lambda>p. map (\<lambda>c. (c, p)) [0..<unat (li_channels spec)])
     (pixels 0 (unat (li_width spec)) 0 (unat (li_height spec))))"

lemma set_tensor_writes: "set (tensor_writes spec) = tensor_places spec"
  by (auto simp: tensor_writes_def tensor_places_def pixels_def image_iff)

lemma lp_fold_writes:
  assumes "unat (li_channels spec) * (unat (li_width spec) * unat (li_height spec)) < 2 ^ 64"
  shows "fold (lp_write_pixel spec img) (pixels 0 (unat (li_width spec)) 0 (unat (li_height spec))) out =
    fold (\<lambda>q out. out[tensor_index spec q := lp_tensor_value spec img q]) (tensor_writes spec) out"
proof -
  let ?g = "\<lambda>(x, y) c out. out[unat (lp_offset spec c x y) := lp_tensor_value spec img (c, x, y)]"
  have w: "lp_write_pixel spec img = (\<lambda>p. fold (?g p) [0..<unat (li_channels spec)])"
    by (simp add: fun_eq_iff lp_write_pixel_def lp_tensor_value_def Let_def lp_sampler)
  have "fold (lp_write_pixel spec img) (pixels 0 (unat (li_width spec)) 0 (unat (li_height spec))) out =
      fold (\<lambda>(c, p). ?g p c) (tensor_writes spec) out"
    unfolding w fold_fold_concat tensor_writes_def ..
  also have "\<dots> = fold (\<lambda>q out. out[tensor_index spec q := lp_tensor_value spec img q]) (tensor_writes spec) out"
  proof (rule fold_cong)
    fix q assume "q \<in> set (tensor_writes spec)"
    then obtain c x y where "q = (c, x, y)" "c < unat (li_channels spec)" "x < unat (li_width spec)" "y < unat (li_height spec)"
      unfolding set_tensor_writes by (auto simp: tensor_places_def)
    with lp_offset_index [OF assms this(2-4)]
    show "(case q of (c, p) \<Rightarrow> ?g p c) = (\<lambda>out. out[tensor_index spec q := lp_tensor_value spec img q])" by (simp add: fun_eq_iff)
  qed simp_all
  finally show ?thesis .
qed

lemma lp_tensor_element:
  assumes "make_lprnet_preprocessor spec = Inr p" and "lp_preprocess_into p vi output = Inr values"
  shows "length values = unat (li_channels spec) * (unat (li_width spec) * unat (li_height spec))"
    and "\<And>q. q \<in> tensor_places spec \<Longrightarrow> values ! tensor_index spec q = lp_tensor_value spec (vi_view vi) q"
proof -
  note made = made_preprocessor [OF assms(1)]
  note size = lp_size [OF made(2)]
  from assms(2) have len: "length output = unat (li_channels spec) * (unat (li_width spec) * unat (li_height spec))"
    and v: "values = fold (\<lambda>q out. out[tensor_index spec q := lp_tensor_value spec (vi_view vi) q]) (tensor_writes spec) output"
    unfolding lp_preprocess_into_def using size lp_fold_writes [of spec "vi_view vi" "output"] by (auto simp: made(1) split: if_split_asm)
  show "length values = unat (li_channels spec) * (unat (li_width spec) * unat (li_height spec))" unfolding v scatter_length by (rule len)
  fix q assume q: "q \<in> tensor_places spec"
  show "values ! tensor_index spec q = lp_tensor_value spec (vi_view vi) q"
    unfolding v
  proof (rule scatter_hit)
    show "q \<in> set (tensor_writes spec)" using q by (simp add: set_tensor_writes)
    show "lp_tensor_value spec (vi_view vi) q' = lp_tensor_value spec (vi_view vi) q"
      if "q' \<in> set (tensor_writes spec)" "tensor_index spec q' = tensor_index spec q" for q'
      using tensor_index_inj [of q' spec q] that q by (simp add: set_tensor_writes)
    show "tensor_index spec q < length output" using tensor_index_less [OF q] len by simp
  qed
qed

text \<open>
  C31: what the preprocessor of the recognizer writes. It fails only on a buffer of the wrong size. Otherwise every
  element of the tensor is written: the element of a channel, column and row, at the place the layout gives it, is
  the normalized sample of that channel at the corresponding position of the plate, whatever the buffer held before, and
  there is no other element.
\<close>

theorem lprnet_tensor_exact:
  assumes "make_lprnet_preprocessor spec = Inr p"
  shows "((\<exists>values. lp_preprocess_into p vi output = Inr values) \<longleftrightarrow> length output = unat (lp_tensor_elements p)) \<and>
    (\<forall>values. lp_preprocess_into p vi output = Inr values \<longrightarrow>
       length values = unat (lp_tensor_elements p) \<and>
       (\<forall>q \<in> tensor_places spec. values ! tensor_index spec q = lp_tensor_value spec (vi_view vi) q) \<and>
       (\<forall>k < length values. \<exists>q \<in> tensor_places spec. tensor_index spec q = k))"
proof (intro conjI allI impI)
  show "(\<exists>values. lp_preprocess_into p vi output = Inr values) \<longleftrightarrow> length output = unat (lp_tensor_elements p)"
    by (simp add: lp_preprocess_into_def)
next
  fix vs assume v: "lp_preprocess_into p vi output = Inr vs"
  note e = lp_tensor_element [OF assms v]
  note size = lp_size [OF made_preprocessor(2) [OF assms]]
  show "length vs = unat (lp_tensor_elements p)" using e(1) size by simp
  show "\<forall>q \<in> tensor_places spec. vs ! tensor_index spec q = lp_tensor_value spec (vi_view vi) q" using e(2) by blast
  show "\<exists>q \<in> tensor_places spec. tensor_index spec q = k" if "k < length vs" for k using tensor_index_onto e(1) that by simp
qed
section \<open>From the model to the tensor\<close>

lemma validate_semantics_Inr:
  "validate_semantics sem channels = Inr u \<longleftrightarrow>
     is_finite (sem_input_scale sem) \<and> \<not> fle (sem_input_scale sem) (Fin 0) \<and>
     (\<forall>i < length (sem_mean sem). is_finite (sem_mean sem ! i) \<and> is_finite (sem_standard_deviation sem ! i) \<and>
        \<not> fle (sem_standard_deviation sem ! i) (Fin 0)) \<and>
     (channels = 1 \<longrightarrow> sem_color_order sem = order_gray) \<and> (channels = 3 \<longrightarrow> sem_color_order sem \<noteq> order_gray)"
  unfolding validate_semantics_def check_all_eq_Inr set_append set_concat by (auto simp: throw_if_eq)

lemma lp_checked_dimension_Inr: "lp_checked_dimension v name = Inr u \<longleftrightarrow> 0 < sint v \<and> u = v"
proof -
  have "\<not> v > size_max" using unat_less_2_64 [of v] by (simp add: word_less_nat_alt)
  then show ?thesis by (auto simp: lp_checked_dimension_def not_le)
qed

lemma input_dimensions_Inr:
  assumes "length shape = 4" and "input_dimensions shape = Inr (layout, channels, height, width)"
    and "is_channel_dimension (shape ! 1) \<noteq> is_channel_dimension (shape ! 3)"
  shows "tl shape = (if layout = nchw then [channels, height, width] else [height, width, channels]) \<and>
    is_channel_dimension channels \<and> 0 < sint channels \<and> 0 < sint height \<and> 0 < sint width"
proof -
  obtain a b c d where "shape = [a, b, c, d]" using assms(1) by (auto simp: length_Suc_conv eval_nat_numeral)
  with assms(2,3) show ?thesis
    by (auto simp: input_dimensions_def result_simps lp_checked_dimension_Inr split: if_split_asm)
qed

text \<open>What an inspected specification is.\<close>

lemma inspected_spec:
  assumes "make_lprnet_input_spec d sem = Inr spec"
  shows "shape_dims spec = 1 # tl (td_shape d)" "is_channel_dimension (li_channels spec)" "\<forall>x \<in> set (shape_dims spec). 0 < sint x"
    "li_color_order spec = order_gray \<longleftrightarrow> li_channels spec = 1"
    "is_finite (li_input_scale spec)" "\<not> fle (li_input_scale spec) (Fin 0)" "li_mean spec = sem_mean sem"
    "\<forall>i < length (sem_mean sem). \<not> invalid_normalization spec i"
proof -
  from assms obtain layout channels height width where four: "length (td_shape d) = 4"
    and amb: "is_channel_dimension (td_shape d ! 1) \<noteq> is_channel_dimension (td_shape d ! 3)"
    and dims: "input_dimensions (td_shape d) = Inr (layout, channels, height, width)"
    and v: "validate_semantics sem channels = Inr ()"
    and spec: "spec = \<lparr>li_width = width, li_height = height, li_channels = channels, li_layout = layout, li_color_order = sem_color_order sem,
          li_element_type = float32, li_input_scale = sem_input_scale sem, li_mean = sem_mean sem,
          li_standard_deviation = sem_standard_deviation sem\<rparr>"
    unfolding make_lprnet_input_spec_def by (auto simp: result_simps split: if_split_asm)
  note d = input_dimensions_Inr [OF four dims amb] and s = v [unfolded validate_semantics_Inr]
  show "shape_dims spec = 1 # tl (td_shape d)" "is_channel_dimension (li_channels spec)" "\<forall>x \<in> set (shape_dims spec). 0 < sint x"
    using d by (auto simp: shape_dims_def spec)
  have "channels = 1 \<or> channels = 3" using d by (simp add: is_channel_dimension_def)
  then show "li_color_order spec = order_gray \<longleftrightarrow> li_channels spec = 1" using s by (auto simp: spec)
  show "is_finite (li_input_scale spec)" "\<not> fle (li_input_scale spec) (Fin 0)" "li_mean spec = sem_mean sem"
    "\<forall>i < length (sem_mean sem). \<not> invalid_normalization spec i"
    using s by (simp_all add: spec invalid_normalization_def)
qed

text \<open>The preprocessor accepts every inspected specification whose tensor fits the address space.\<close>

lemma inspected_spec_accepted:
  assumes "make_lprnet_input_spec d sem = Inr spec" and "length (sem_mean sem) = 3"
    and "unat (li_channels spec) * (unat (li_width spec) * unat (li_height spec)) < 2 ^ 64"
  shows "\<exists>p. make_lprnet_preprocessor spec = Inr p"
proof -
  note i = inspected_spec [OF assms(1)]
  let ?w = "li_width spec" and ?h = "li_height spec" and ?c = "li_channels spec"
  have nz: "?w \<noteq> 0" "?h \<noteq> 0" "?c = 1 \<or> ?c = 3" using i(2,3) by (auto simp: shape_dims_def is_channel_dimension_def split: if_split_asm)
  then have c: "1 \<le> unat ?c" "unat ?c \<le> 3" by auto
  have "1 * (unat ?w * unat ?h) \<le> unat ?c * (unat ?w * unat ?h)" using c(1) by (intro mult_right_mono) simp_all
  with assms(3) have "unat ?w * unat ?h < 2 ^ 64" by linarith
  then have wh: "unat ?h * unat ?w < 2 ^ 64" by (simp add: mult.commute)
  then have whw: "unat (?h * ?w) = unat ?h * unat ?w" by (intro unat_mult_exact)
  have "checked_multiply ?h ?w [] = Inr (?h * ?w)" unfolding checked_multiply_Inr using wh whw by simp
  then have a: "\<not> ?w > size_max div ?h" using nz(2) by (simp add: checked_multiply_def split: if_split_asm)
  have e: "unat ?c * unat (?w * ?h) < 2 ^ 64" using assms(3) whw by (simp add: mult.commute mult.left_commute)
  have "checked_multiply ?c (?w * ?h) [] = Inr (?c * (?w * ?h))" unfolding checked_multiply_Inr using e unat_mult_exact [OF e] by simp
  then have b: "\<not> ?w * ?h > size_max div ?c" using nz(3) by (auto simp: checked_multiply_def split: if_split_asm)
  have "\<not> list_ex (invalid_normalization spec) [0..<unat ?c]" using i(8) assms(2) c(2) by (auto simp: list_ex_iff)
  with a b nz i(4-6) have "lp_checked_tensor_size spec = Inr (?w * ?h * ?c)"
    unfolding lp_checked_tensor_size_def by (cases "li_element_type spec") (auto simp: Let_def)
  moreover have "\<exists>shape. make_shape spec = Inr shape"
    using i(3) by (auto simp: make_shape_def shape_dims_def to_i64_Inr result_simps split: if_split_asm)
  ultimately show ?thesis by (auto simp: make_lprnet_preprocessor_def)
qed

text \<open>A tensor of the C++ type it claims: floats, as many as its positive dimensions say.\<close>

definition tensor_typed :: "LprNetInputTensor \<Rightarrow> bool" where
  "tensor_typed t \<longleftrightarrow> (\<forall>v \<in> set (lt_values t). is_float v) \<and> length (lt_values t) = prod_list (map unat (lt_shape t)) \<and>
     (\<forall>d \<in> set (lt_shape t). 0 < sint d)"

lemma lp_tensor_typed:
  assumes "make_lprnet_preprocessor spec = Inr p" and "lp_preprocess_into p vi output = Inr values"
  shows "tensor_typed \<lparr>lt_values = values, lt_shape = lp_tensor_shape p\<rparr>"
proof -
  note e = lp_tensor_element [OF assms]
  have "is_float v" if "v \<in> set values" for v
  proof -
    from that obtain k where k: "k < length values" "v = values ! k" by (auto simp: in_set_conv_nth)
    with tensor_index_onto e(1) obtain q where "q \<in> tensor_places spec" "tensor_index spec q = k" by metis
    with e(2) k(2) have "v = lp_tensor_value spec (vi_view vi) q" by blast
    then show ?thesis by (auto simp: lp_tensor_value_def normalize_value_def is_float_arith split: prod.split)
  qed
  then show ?thesis using e(1) made_preprocessor(3,4) [OF assms(1)] by (simp add: tensor_typed_def shape_product)
qed

text \<open>
  C30: the tensor a plate becomes is of the type its model asks for. A specification read from the metadata of a model is
  accepted by the preprocessor whenever its tensor fits the address space, and then every tensor the preprocessor writes consists of floats,
  as many as its dimensions say, and its shape is the shape of the model with a batch of one, in the model's own layout.
\<close>

theorem lprnet_tensor_has_model_type:
  assumes "make_lprnet_input_spec d sem = Inr spec" and "length (sem_mean sem) = 3"
    and "unat (li_channels spec) * (unat (li_width spec) * unat (li_height spec)) < 2 ^ 64"
  shows "\<exists>p. make_lprnet_preprocessor spec = Inr p \<and>
    (\<forall>alloc buffer vi ws t ws'. lprnet_preprocess_workspace p alloc buffer vi ws = Inr (t, ws') \<longrightarrow>
       tensor_typed t \<and> lt_shape t = 1 # tl (td_shape d) \<and> (workspace_ok ws \<longrightarrow> workspace_ok ws'))"
proof -
  from inspected_spec_accepted [OF assms] obtain p where p: "make_lprnet_preprocessor spec = Inr p" ..
  have "tensor_typed t \<and> lt_shape t = 1 # tl (td_shape d) \<and> (workspace_ok ws \<longrightarrow> workspace_ok ws')"
    if r: "lprnet_preprocess_workspace p alloc buffer vi ws = Inr (t, ws')" for alloc buffer vi ws t ws'
  proof -
    from r obtain n vs where n: "prepare_tensor alloc (lp_tensor_elements p) ws = Inr (n, ws')"
      and v: "lp_preprocess_into p vi (buffer n) = Inr vs" and t: "t = \<lparr>lt_values = vs, lt_shape = lp_tensor_shape p\<rparr>"
      by (auto simp: lprnet_preprocess_workspace_def result_simps)
    show ?thesis
      using lp_tensor_typed [OF p v] prepare_tensor_ok [OF n] made_preprocessor(3) [OF p] inspected_spec(1) [OF assms(1)] t by simp
  qed
  with p show ?thesis by blast
qed

section \<open>A grey pixel\<close>

definition dot_descriptor :: TensorDescriptor where
  "dot_descriptor = \<lparr>td_name = ''x'', td_is_float32 = True, td_shape = [- 1, 2, 1, 1]\<rparr>"

definition dot_semantics :: LprNetPreprocessSemantics where
  "dot_semantics = \<lparr>sem_color_order = order_gray, sem_input_scale = Fin 1, sem_mean = [Fin 0, Fin 0, Fin 0],
     sem_standard_deviation = [Fin 1, Fin 1, Fin 1]\<rparr>"

definition dot_lprnet_spec :: LprNetInputSpec where
  "dot_lprnet_spec = \<lparr>li_width = 1, li_height = 2, li_channels = 1, li_layout = nhwc, li_color_order = order_gray, li_element_type = float32,
     li_input_scale = Fin 1, li_mean = [Fin 0, Fin 0, Fin 0], li_standard_deviation = [Fin 1, Fin 1, Fin 1]\<rparr>"

lemma dot_inspected: "make_lprnet_input_spec dot_descriptor dot_semantics = Inr dot_lprnet_spec"
  by code_simp

definition dot_lprnet_preprocessor :: LprNetPreprocessor where
  "dot_lprnet_preprocessor = \<lparr>lp_spec = dot_lprnet_spec, lp_tensor_elements = 2, lp_tensor_shape = [1, 2, 1, 1]\<rparr>"

lemma dot_lprnet_made: "make_lprnet_preprocessor dot_lprnet_spec = Inr dot_lprnet_preprocessor"
  by code_simp

theorem lprnet_tensor_exact_witness:
  "\<exists>values. lp_preprocess_into dot_lprnet_preprocessor dot_validated [NaN, NaN] = Inr values \<and>
     values ! 1 = lp_tensor_value dot_lprnet_spec dot_image (0, 0, 1)"
proof -
  note exact = lprnet_tensor_exact [OF dot_lprnet_made, of dot_validated "[NaN, NaN]"]
  have "length [NaN, NaN] = unat (lp_tensor_elements dot_lprnet_preprocessor)" by (simp add: dot_lprnet_preprocessor_def)
  with exact obtain vs where v: "lp_preprocess_into dot_lprnet_preprocessor dot_validated [NaN, NaN] = Inr vs" by blast
  have "(0, 0, 1) \<in> tensor_places dot_lprnet_spec" by (simp add: tensor_places_def dot_lprnet_spec_def)
  moreover have "tensor_index dot_lprnet_spec (0, 0, 1) = 1" by (simp add: tensor_index_def dot_lprnet_spec_def)
  moreover have "vi_view dot_validated = dot_image" by (simp add: dot_validated_def)
  ultimately show ?thesis using exact v by metis
qed

theorem lprnet_tensor_has_model_type_witness:
  "\<exists>p. make_lprnet_preprocessor dot_lprnet_spec = Inr p \<and>
    (\<forall>t ws'. lprnet_preprocess_workspace p (\<lambda>_ _. Inl bad_alloc) (\<lambda>n. replicate n NaN) dot_validated
       \<lparr>ws_config = default_workspace_config, ws_tensor_size = 0, ws_tensor_capacity = 2, ws_scratch_size = 0, ws_scratch_capacity = 0,
          ws_tensor_growth_count = 0, ws_scratch_growth_count = 0\<rparr> = Inr (t, ws') \<longrightarrow> tensor_typed t \<and> lt_shape t = [1, 2, 1, 1])"
proof -
  have "length (sem_mean dot_semantics) = 3" by (simp add: dot_semantics_def)
  moreover have "unat (li_channels dot_lprnet_spec) * (unat (li_width dot_lprnet_spec) * unat (li_height dot_lprnet_spec)) < 2 ^ 64"
    by (simp add: dot_lprnet_spec_def)
  ultimately obtain p where p: "make_lprnet_preprocessor dot_lprnet_spec = Inr p"
    and t: "\<forall>alloc buffer vi ws t ws'. lprnet_preprocess_workspace p alloc buffer vi ws = Inr (t, ws') \<longrightarrow>
       tensor_typed t \<and> lt_shape t = 1 # tl (td_shape dot_descriptor) \<and> (workspace_ok ws \<longrightarrow> workspace_ok ws')"
    using lprnet_tensor_has_model_type [OF dot_inspected] by blast
  have shape: "1 # tl (td_shape dot_descriptor) = [1, 2, 1, 1]" by (simp add: dot_descriptor_def)
  show ?thesis using p t unfolding shape by blast
qed

end
