(* ===== verification/Onnx_Ocr.thy ===== *)
theory Onnx_Ocr
  imports Onnx_Session Recognition_Ensemble Native_Image
begin

text \<open>
  The recognizer over an inference session and a model adapter (\<^verbatim>\<open>infrastructure/onnx/generic_ocr_recognizer.cpp\<close>). The adapter
  turns a plate into input tensors and output tensors into evidence; its interface is a record of functions, its contract
  a locale. The mutex makes calls of one recognizer sequential, so a call is one step on the workspace. Stage timings are looks at the clock
  whose values go to an observer that is not modelled.
\<close>

section \<open>The adapter and the recognizer\<close>

record OnnxOcrProviderMetadata =
  om_name :: string
  om_version :: string

record OnnxOcrModelAdapter =
  oa_metadata :: OnnxOcrProviderMetadata
  oa_input_names :: "string list"
  oa_output_names :: "string list"
  oa_build_inputs :: "ValidatedImage \<Rightarrow> OperationContext \<Rightarrow> NativeImageWorkspace \<Rightarrow> World \<Rightarrow> nat \<Rightarrow>
    (OrtValue list result \<times> NativeImageWorkspace) \<times> nat"
  oa_decode :: "OrtValue list \<Rightarrow> OperationContext \<Rightarrow> RecognitionEvidence io"

record GenericOnnxOcrRecognizer =
  gr_session :: OnnxInferenceSession
  gr_adapter :: OnnxOcrModelAdapter
  gr_image_limits :: PerformanceConfig
  gr_metadata :: OnnxOcrProviderMetadata
  gr_input_names :: "string list"
  gr_output_names :: "string list"

definition unique_names :: "string list \<Rightarrow> bool" where
  "unique_names names \<longleftrightarrow> list_all (\<lambda>name. name \<noteq> []) names \<and> distinct names"

definition contains_name :: "TensorDescriptor list \<Rightarrow> string \<Rightarrow> bool" where
  "contains_name descriptors name = list_ex (\<lambda>d. td_name d = name) descriptors"

definition ocr_validate_contract :: "GenericOnnxOcrRecognizer \<Rightarrow> unit result" where
  "ocr_validate_contract r = check_all
     [throw_if (om_name (gr_metadata r) = [] \<or> om_version (gr_metadata r) = [])
        (ConfigurationError ''ONNX OCR adapter name and version are required''),
      throw_if (gr_input_names r = [] \<or> gr_output_names r = [])
        (ConfigurationError ''ONNX OCR adapter must declare input and output names''),
      throw_if (\<not> unique_names (gr_input_names r) \<or> \<not> unique_names (gr_output_names r))
        (ConfigurationError ''ONNX OCR adapter node names must be non-empty and unique''),
      throw_if (\<not> list_all (contains_name (os_inputs (gr_session r))) (gr_input_names r))
        (ModelLoadError ''ONNX OCR adapter input does not exist in model contract''),
      throw_if (\<not> list_all (contains_name (os_outputs (gr_session r))) (gr_output_names r))
        (ModelLoadError ''ONNX OCR adapter output does not exist in model contract'')]"

definition make_ocr_recognizer :: "OnnxInferenceSession option \<Rightarrow> OnnxOcrModelAdapter option \<Rightarrow> PerformanceConfig \<Rightarrow>
    GenericOnnxOcrRecognizer result" where
  "make_ocr_recognizer session adapter limits =
     (case (session, adapter) of
        (Some s, Some a) \<Rightarrow>
          let r = \<lparr>gr_session = s, gr_adapter = a, gr_image_limits = limits, gr_metadata = oa_metadata a,
                gr_input_names = oa_input_names a, gr_output_names = oa_output_names a\<rparr>
          in res_bind (ocr_validate_contract r) (\<lambda>_. Inr r)
      | _ \<Rightarrow> Inl (ConfigurationError ''generic ONNX OCR requires a session and model adapter''))"

section \<open>Recognition\<close>

definition ocr_check_context :: "OperationContext \<Rightarrow> unit io" where
  "ocr_check_context ctx = check_operation ctx ''ONNX OCR recognition cancelled'' ''ONNX OCR recognition deadline exceeded''"

definition malformed_candidate :: "PlateCandidate \<Rightarrow> bool" where
  "malformed_candidate c \<longleftrightarrow> cand_text c = [] \<or>
     \<not> is_finite (cand_confidence c) \<or> flt (cand_confidence c) (Fin 0) \<or> flt (Fin 1) (cand_confidence c) \<or>
     \<not> is_finite (cand_calibrated c) \<or> flt (cand_calibrated c) (Fin 0) \<or> flt (Fin 1) (cand_calibrated c)"

definition ocr_validate_evidence :: "RecognitionEvidence \<Rightarrow> unit result" where
  "ocr_validate_evidence ev =
     throw_if (list_ex malformed_candidate (ev_candidates ev)) (InferenceError ''ONNX OCR adapter returned malformed recognition evidence'')"

text \<open>Up to the first use of the workspace: the validated image and the start of the call.\<close>

definition ocr_entry :: "GenericOnnxOcrRecognizer \<Rightarrow> ImageView \<Rightarrow> OperationContext \<Rightarrow> (ValidatedImage \<times> int) io" where
  "ocr_entry r plate ctx =
     io_bind (ocr_check_context ctx) (\<lambda>_.
     io_bind (io_lift (validate_image plate (gr_image_limits r))) (\<lambda>vi.
     io_bind io_now (\<lambda>started.
     io_bind (ocr_check_context ctx) (\<lambda>_.
     io_bind io_now (\<lambda>_. io_return (vi, started))))))"

text \<open>From the input tensors on.\<close>

definition ocr_run :: "GenericOnnxOcrRecognizer \<Rightarrow> OperationContext \<Rightarrow> int \<Rightarrow> OrtValue list \<Rightarrow> RecognitionEvidence io" where
  "ocr_run r ctx started input_values =
     (if length input_values \<noteq> length (gr_input_names r)
      then io_throw (InferenceError ''ONNX OCR adapter produced an unexpected input count'')
      else
        io_bind io_now (\<lambda>_.
        io_bind io_now (\<lambda>_.
        io_bind (os_run (gr_session r) (gr_input_names r) input_values (gr_output_names r)) (\<lambda>outputs.
        io_bind io_now (\<lambda>_.
        io_bind (ocr_check_context ctx) (\<lambda>_.
        io_bind io_now (\<lambda>_.
        if length outputs \<noteq> length (gr_output_names r)
        then io_throw (InferenceError ''ONNX OCR session returned an unexpected output count'')
        else
          io_bind (oa_decode (gr_adapter r) outputs ctx) (\<lambda>ev.
          io_bind (io_lift (ocr_validate_evidence ev)) (\<lambda>_.
          io_bind io_now (\<lambda>_.
          io_bind io_now (\<lambda>finished.
          io_return (ev\<lparr>ev_source := om_name (gr_metadata r), ev_latency_ms := milliseconds_between started finished\<rparr>))))))))))))"

definition ocr_recognize :: "GenericOnnxOcrRecognizer \<Rightarrow> ImageView \<Rightarrow> OperationContext \<Rightarrow> NativeImageWorkspace \<Rightarrow> World \<Rightarrow> nat \<Rightarrow>
    (RecognitionEvidence result \<times> NativeImageWorkspace) \<times> nat" where
  "ocr_recognize r plate ctx ws w n =
     (case ocr_entry r plate ctx w n of
        (Inl e, k) \<Rightarrow> ((Inl e, ws), k)
      | (Inr (vi, started), k) \<Rightarrow>
          (case oa_build_inputs (gr_adapter r) vi ctx ws w k of
             ((Inl e, ws'), k') \<Rightarrow> ((Inl e, ws'), k')
           | ((Inr inputs, ws'), k') \<Rightarrow> (case ocr_run r ctx started inputs w k' of (res, k'') \<Rightarrow> ((res, ws'), k''))))"

text \<open>The recognizer as the ensemble sees it, with the workspace it holds when it is called.\<close>

definition ocr_provider :: "GenericOnnxOcrRecognizer \<Rightarrow> (nat \<Rightarrow> NativeImageWorkspace) \<Rightarrow> IPlateRecognizer" where
  "ocr_provider r held =
     \<lparr>rec_name = om_name (gr_metadata r),
      rec_recognize = \<lambda>plate ctx w n. (case ocr_recognize r plate ctx (held n) w n of ((res, _), k) \<Rightarrow> (res, k))\<rparr>"

section \<open>The contract of an adapter\<close>

locale ocr_adapter =
  fixes build :: "ValidatedImage \<Rightarrow> OperationContext \<Rightarrow> NativeImageWorkspace \<Rightarrow> World \<Rightarrow> nat \<Rightarrow> (OrtValue list result \<times> NativeImageWorkspace) \<times> nat"
    and names :: "string list"
  assumes keeps_workspace: "build vi ctx ws w n = ((res, ws'), k) \<Longrightarrow> workspace_ok ws \<Longrightarrow> workspace_ok ws'"
    and one_tensor_per_name: "build vi ctx ws w n = ((Inr values, ws'), k) \<Longrightarrow> length values = length names"
begin

lemma recognize_keeps_workspace:
  assumes "oa_build_inputs (gr_adapter r) = build" and "workspace_ok ws" and "ocr_recognize r plate ctx ws w n = ((res, ws'), k)"
  shows "workspace_ok ws'"
  using assms keeps_workspace by (fastforce simp: ocr_recognize_def split: prod.splits sum.splits)

text \<open>The guard on the number of inputs never fires.\<close>

lemma input_count_right:
  assumes "oa_build_inputs (gr_adapter r) = build" and "gr_input_names r = names"
    and "oa_build_inputs (gr_adapter r) vi ctx ws w n = ((Inr values, ws'), k)"
  shows "length values = length (gr_input_names r)"
  using assms one_tensor_per_name by metis

end

section \<open>What the recognizer returns\<close>

definition contract_ok :: "GenericOnnxOcrRecognizer \<Rightarrow> bool" where
  "contract_ok r \<longleftrightarrow> om_name (gr_metadata r) \<noteq> [] \<and> om_version (gr_metadata r) \<noteq> [] \<and> gr_input_names r \<noteq> [] \<and> gr_output_names r \<noteq> [] \<and>
     unique_names (gr_input_names r) \<and> unique_names (gr_output_names r) \<and>
     set (gr_input_names r) \<subseteq> td_name ` set (os_inputs (gr_session r)) \<and> set (gr_output_names r) \<subseteq> td_name ` set (os_outputs (gr_session r))"

lemma ocr_validate_contract_Inr: "ocr_validate_contract r = Inr u \<longleftrightarrow> contract_ok r"
  by (auto simp: ocr_validate_contract_def contract_ok_def check_all_eq_Inr throw_if_eq list_all_iff contains_name_def list_ex_iff image_iff)

lemma made_recognizer:
  assumes "make_ocr_recognizer session adapter limits = Inr r"
  shows "session = Some (gr_session r) \<and> adapter = Some (gr_adapter r) \<and> gr_image_limits r = limits \<and>
    gr_metadata r = oa_metadata (gr_adapter r) \<and> gr_input_names r = oa_input_names (gr_adapter r) \<and>
    gr_output_names r = oa_output_names (gr_adapter r) \<and> contract_ok r"
  using assms by (auto simp: make_ocr_recognizer_def result_simps Let_def ocr_validate_contract_Inr split: option.splits)

lemma malformed_iff: "\<not> malformed_candidate c \<longleftrightarrow> cand_text c \<noteq> [] \<and> is_prob (cand_confidence c) \<and> is_prob (cand_calibrated c)"
  by (auto simp: malformed_candidate_def is_prob_def)

text \<open>What happened in a call that returned.\<close>

lemma ocr_recognize_Inr:
  assumes "ocr_recognize r plate ctx ws w n = ((Inr ev, ws'), k)"
  obtains vi started inputs outputs ev0 k1 k2 k3 k4 k5 k6 where
    "validate_image plate (gr_image_limits r) = Inr vi"
    and "oa_build_inputs (gr_adapter r) vi ctx ws w k1 = ((Inr inputs, ws'), k2)"
    and "os_run (gr_session r) (gr_input_names r) inputs (gr_output_names r) w k3 = (Inr outputs, k4)"
    and "length outputs = length (gr_output_names r)"
    and "oa_decode (gr_adapter r) outputs ctx w k5 = (Inr ev0, k6)"
    and "\<forall>c \<in> set (ev_candidates ev0). \<not> malformed_candidate c"
    and "ev_candidates ev = ev_candidates ev0" and "ev_source ev = om_name (gr_metadata r)" and "ev_crop_quality ev = ev_crop_quality ev0"
proof -
  from assms obtain vi started inputs k1 k2 where e: "ocr_entry r plate ctx w n = (Inr (vi, started), k1)"
    and b: "oa_build_inputs (gr_adapter r) vi ctx ws w k1 = ((Inr inputs, ws'), k2)"
    and run: "ocr_run r ctx started inputs w k2 = (Inr ev, k)"
    by (auto simp: ocr_recognize_def split: prod.splits sum.splits)
  from e have vi: "validate_image plate (gr_image_limits r) = Inr vi" by (auto simp: ocr_entry_def io_simps)
  from run obtain outputs ev0 k3 k4 k5 k6 latency where
    "os_run (gr_session r) (gr_input_names r) inputs (gr_output_names r) w k3 = (Inr outputs, k4)"
    "length outputs = length (gr_output_names r)" "oa_decode (gr_adapter r) outputs ctx w k5 = (Inr ev0, k6)"
    "ocr_validate_evidence ev0 = Inr ()" "ev = ev0\<lparr>ev_source := om_name (gr_metadata r), ev_latency_ms := latency\<rparr>"
    unfolding ocr_run_def by (auto simp: io_simps split: if_split_asm)
  with vi b that show ?thesis by (auto simp: ocr_validate_evidence_def throw_if_eq list_ex_iff)
qed

text \<open>The ensemble accepts whatever the recognizer returns, for every weight between 0 and 1.\<close>

lemma ensemble_accepts:
  assumes "\<forall>c \<in> set (ev_candidates ev). \<not> malformed_candidate c"
  shows "\<exists>ev'. validate_evidence ev name weight quality latency = Inr ev' \<and> map cand_text (ev_candidates ev') = map cand_text (ev_candidates ev)"
proof -
  have "\<exists>ds. res_map_list (validate_candidate weight) cs = Inr ds \<and> map cand_text ds = map cand_text cs"
    if "\<forall>c \<in> set cs. \<not> malformed_candidate c" for cs
    using that
  proof (induction cs)
    case (Cons c cs)
    then obtain ds where ds: "res_map_list (validate_candidate weight) cs = Inr ds" "map cand_text ds = map cand_text cs" by auto
    have "validate_candidate weight c = Inr (c\<lparr>cand_calibrated := effective_provider_confidence c weight\<rparr>)"
      using Cons.prems by (auto simp: validate_candidate_def malformed_candidate_def)
    with ds show ?case by simp
  qed simp
  from this [OF assms] show ?thesis by (auto simp: validate_evidence_def)
qed

end
