(* ===== verification/Ctc_Decoder.thy ===== *)
theory Ctc_Decoder
  imports Domain Wire_Format
begin

text \<open>
  Greedy CTC decoding (\<^verbatim>\<open>infrastructure/lprnet/ctc_decoder.cpp\<close>): the best class of each timestep, repeats
  collapsed and blanks removed. \<open>std::exp\<close> is a parameter, of which only the documented values and range are used.
\<close>

section \<open>Configuration\<close>

record GreedyCtcDecoderConfig =
  gc_charset :: string
  gc_blank_index :: nat
  gc_maximum_timesteps :: nat
  gc_maximum_classes :: nat

definition default_ctc_config :: GreedyCtcDecoderConfig where
  "default_ctc_config = \<lparr>gc_charset = [], gc_blank_index = 0, gc_maximum_timesteps = 256, gc_maximum_classes = 256\<rparr>"

record CtcDecodeResult =
  cd_text :: string
  cd_confidence :: fl
  cd_character_confidences :: "fl list"

definition empty_ctc_result :: CtcDecodeResult where
  "empty_ctc_result = \<lparr>cd_text = [], cd_confidence = Fin 0, cd_character_confidences = []\<rparr>"

definition size_t_max :: nat where
  "size_t_max = 2 ^ 64 - 1"

definition class_count :: "GreedyCtcDecoderConfig \<Rightarrow> nat" where
  "class_count c = length (gc_charset c) + 1"

fun check_charset :: "string \<Rightarrow> string \<Rightarrow> unit result" where
  "check_charset seen [] = Inr ()"
| "check_charset seen (c # cs) =
     (if c = CHR 0x00 \<or> c \<in> set seen then Inl (ConfigurationError ''CTC charset contains null or duplicate characters'')
      else check_charset (c # seen) cs)"

definition make_ctc_decoder :: "GreedyCtcDecoderConfig \<Rightarrow> GreedyCtcDecoderConfig result" where
  "make_ctc_decoder c =
     res_bind (check_all
       [throw_if (gc_charset c = []) (ConfigurationError ''CTC charset cannot be empty''),
        throw_if (length (gc_charset c) \<ge> size_t_max) (ConfigurationError ''CTC charset size is invalid''),
        throw_if (gc_blank_index c \<ge> class_count c) (ConfigurationError ''CTC blank index is outside class range''),
        throw_if (gc_maximum_timesteps c = 0 \<or> gc_maximum_classes c = 0 \<or> class_count c > gc_maximum_classes c)
          (ConfigurationError ''CTC decoder limits are invalid''),
        check_charset [] (gc_charset c)]) (\<lambda>_. Inr c)"

section \<open>Decoding\<close>

definition checked_element_count :: "nat \<Rightarrow> nat \<Rightarrow> nat result" where
  "checked_element_count timesteps classes =
     (if timesteps = 0 \<or> classes = 0 then Inl (InferenceError ''CTC logits dimensions must be non-zero'')
      else if timesteps > size_t_max div classes then Inl (InferenceError ''CTC logits element count overflows'')
      else Inr (timesteps * classes))"

fun argmax_loop :: "nat \<Rightarrow> fl list \<Rightarrow> fl \<times> nat \<Rightarrow> (fl \<times> nat) result" where
  "argmax_loop i [] best = Inr best"
| "argmax_loop i (v # vs) best =
     (if \<not> is_finite v then Inl (InferenceError ''CTC logits contain NaN or Inf'')
      else argmax_loop (i + 1) vs (if flt (fst best) v then (v, i) else best))"

definition softmax_denominator :: "(fl \<Rightarrow> fl) \<Rightarrow> fl list \<Rightarrow> fl \<Rightarrow> fl" where
  "softmax_denominator fexp row m =
     fold (\<lambda>v total. fadd binary64 total (fexp (fsub binary64 (fcast binary64 v) (fcast binary64 m)))) row (Fin 0)"

definition argmax_probability :: "(fl \<Rightarrow> fl) \<Rightarrow> fl list \<Rightarrow> (fl \<times> nat) result" where
  "argmax_probability fexp row =
     (if row = [] then Inl (InferenceError ''CTC timestep has no classes'')
      else res_bind (argmax_loop 0 row (NInf, 0)) (\<lambda>(m, best_index).
        let denominator = softmax_denominator fexp row m
        in if \<not> is_finite denominator \<or> fle denominator (Fin 0)
           then Inl (InferenceError ''CTC softmax denominator is invalid'')
           else Inr (fcast binary32 (fclamp (fdiv binary64 (Fin 1) denominator) (Fin 0) (Fin 1)), best_index)))"

definition class_to_character :: "GreedyCtcDecoderConfig \<Rightarrow> nat \<Rightarrow> char result" where
  "class_to_character c class_index =
     (if class_index = gc_blank_index c then Inl (InternalError ''blank CTC class cannot map to a character'')
      else let charset_index = (if class_index < gc_blank_index c then class_index else class_index - 1)
        in if charset_index \<ge> length (gc_charset c) then Inl (InferenceError ''CTC class index is outside configured charset'')
           else Inr (gc_charset c ! charset_index))"

record CtcState =
  cs_previous :: nat
  cs_text :: string
  cs_confidences :: "fl list"
  cs_sum :: fl

definition decode_timestep :: "(fl \<Rightarrow> fl) \<Rightarrow> GreedyCtcDecoderConfig \<Rightarrow> fl list \<Rightarrow> CtcState \<Rightarrow> CtcState result" where
  "decode_timestep fexp c row s =
     res_bind (argmax_probability fexp row) (\<lambda>(probability, best_class).
     if best_class \<noteq> gc_blank_index c \<and> best_class \<noteq> cs_previous s
     then res_bind (class_to_character c best_class) (\<lambda>ch.
       Inr \<lparr>cs_previous = best_class, cs_text = cs_text s @ [ch], cs_confidences = cs_confidences s @ [probability],
            cs_sum = fadd binary64 (cs_sum s) (fcast binary64 probability)\<rparr>)
     else Inr (s\<lparr>cs_previous := best_class\<rparr>))"

definition logit_row :: "fl list \<Rightarrow> nat \<Rightarrow> nat \<Rightarrow> fl list" where
  "logit_row logits classes timestep = take classes (drop (timestep * classes) logits)"

definition ctc_decode :: "(fl \<Rightarrow> fl) \<Rightarrow> GreedyCtcDecoderConfig \<Rightarrow> fl list \<Rightarrow> nat \<Rightarrow> nat \<Rightarrow> CtcDecodeResult result" where
  "ctc_decode fexp c logits timesteps classes =
     (if timesteps > gc_maximum_timesteps c \<or> classes > gc_maximum_classes c
      then Inl (InferenceError ''CTC logits exceed configured decoder limits'')
      else if classes \<noteq> class_count c
      then Inl (InferenceError ''CTC class count does not match charset and blank configuration'')
      else res_bind (checked_element_count timesteps classes) (\<lambda>expected.
        if length logits \<noteq> expected then Inl (InferenceError ''CTC logits buffer size does not match shape'')
        else res_bind (res_fold (decode_timestep fexp c) (map (logit_row logits classes) [0..<timesteps])
            \<lparr>cs_previous = size_t_max, cs_text = [], cs_confidences = [], cs_sum = Fin 0\<rparr>) (\<lambda>s.
          Inr \<lparr>cd_text = cs_text s,
               cd_confidence = (if cs_confidences s \<noteq> []
                 then fclamp (fcast binary32 (fdiv binary64 (cs_sum s) (float_of_nat binary64 (length (cs_confidences s))))) (Fin 0) (Fin 1)
                 else Fin 0),
               cd_character_confidences = cs_confidences s\<rparr>)))"

section \<open>The documented behaviour of the exponential\<close>

definition exp_ok :: "(fl \<Rightarrow> fl) \<Rightarrow> bool" where
  "exp_ok fexp \<longleftrightarrow> (\<forall>x \<le> 0. is_prob (fexp (Fin x))) \<and> fexp (Fin 0) = Fin 1"

section \<open>Configuration facts\<close>

lemma check_charset_Inr: "check_charset seen cs = Inr u \<longleftrightarrow> distinct cs \<and> set cs \<inter> set seen = {} \<and> CHR 0x00 \<notin> set cs"
  by (induction cs arbitrary: seen) auto

definition ctc_config_ok :: "GreedyCtcDecoderConfig \<Rightarrow> bool" where
  "ctc_config_ok c \<longleftrightarrow> gc_charset c \<noteq> [] \<and> gc_blank_index c < class_count c \<and> 0 < gc_maximum_timesteps c \<and>
     class_count c \<le> gc_maximum_classes c \<and> distinct (gc_charset c) \<and> class_count c \<le> 256"

lemma make_ctc_decoder_ok: "make_ctc_decoder c = Inr d \<Longrightarrow> d = c \<and> ctc_config_ok c"
proof -
  assume m: "make_ctc_decoder c = Inr d"
  then have ok: "gc_charset c \<noteq> []" "gc_blank_index c < class_count c" "0 < gc_maximum_timesteps c"
      "class_count c \<le> gc_maximum_classes c" "distinct (gc_charset c)" "CHR 0x00 \<notin> set (gc_charset c)" and d: "d = c"
    by (auto simp: make_ctc_decoder_def res_bind_eq_Inr check_all_eq_Inr throw_if_eq check_charset_Inr not_le)
  have "card (set (gc_charset c)) \<le> card (UNIV - {CHR 0x00})"
    using ok(6) by (intro card_mono) auto
  also have "\<dots> = 255" by (simp add: card_Diff_singleton card_UNIV_char)
  finally have "length (gc_charset c) \<le> 255" using distinct_card [OF ok(5)] by simp
  with ok d show ?thesis by (simp add: ctc_config_ok_def class_count_def)
qed

section \<open>The best class\<close>

definition row_ok :: "fl list \<Rightarrow> bool" where
  "row_ok row \<longleftrightarrow> (\<forall>v \<in> set row. is_finite v)"

text \<open>The first class with the greatest logit.\<close>

definition best_class :: "fl list \<Rightarrow> nat" where
  "best_class row = hd (filter (\<lambda>i. \<forall>v \<in> set row. fle v (row ! i)) [0..<length row])"

lemma hd_filter_upt: "b < n \<Longrightarrow> P b \<Longrightarrow> \<forall>k < b. \<not> P k \<Longrightarrow> hd (filter P [0..<n]) = b"
proof (induction n)
  case (Suc n)
  show ?case
  proof (cases "b = n")
    case True
    then have "filter P [0..<n] = []" using Suc.prems(3) by (auto simp: filter_empty_conv)
    then show ?thesis using Suc.prems True by simp
  next
    case False
    with Suc have "hd (filter P [0..<n]) = b" by simp
    moreover have "b \<in> set (filter P [0..<n])" using False Suc.prems by simp
    then have "filter P [0..<n] \<noteq> []" by (metis list.set(1) empty_iff)
    ultimately show ?thesis by simp
  qed
qed simp

lemma argmax_loop_spec:
  assumes "row_ok vs" and "fst best \<noteq> NaN"
  shows "\<exists>m b. argmax_loop i vs best = Inr (m, b) \<and> fle (fst best) m \<and> (\<forall>v \<in> set vs. fle v m) \<and>
    ((m, b) = best \<or> (\<exists>j < length vs. b = i + j \<and> m = vs ! j \<and> (\<forall>k < j. flt (vs ! k) m) \<and> flt (fst best) m))"
  using assms
proof (induction vs arbitrary: i best)
  case Nil
  then show ?case by (cases best) simp
next
  case (Cons v vs)
  from Cons.prems(1) have v: "is_finite v" and vs: "row_ok vs" by (simp_all add: row_ok_def)
  note vn = is_finite_not_NaN [OF v]
  show ?case
  proof (cases "flt (fst best) v")
    case True
    from Cons.IH [OF vs, of "(v, i)" "i + 1"] vn obtain m b where
      mb: "argmax_loop (i + 1) vs (v, i) = Inr (m, b)" "fle v m" "\<forall>v \<in> set vs. fle v m" and
      or: "(m, b) = (v, i) \<or> (\<exists>j < length vs. b = i + 1 + j \<and> m = vs ! j \<and> (\<forall>k < j. flt (vs ! k) m) \<and> flt v m)"
      by auto
    have "fle (fst best) m" using flt_fle_trans [OF True mb(2)] by (simp add: fle_def)
    moreover have "\<exists>j < length (v # vs). b = i + j \<and> m = (v # vs) ! j \<and> (\<forall>k < j. flt ((v # vs) ! k) m) \<and> flt (fst best) m"
      using or
    proof
      assume "(m, b) = (v, i)"
      then show ?thesis using True by (intro exI [of _ 0]) simp
    next
      assume "\<exists>j < length vs. b = i + 1 + j \<and> m = vs ! j \<and> (\<forall>k < j. flt (vs ! k) m) \<and> flt v m"
      then obtain j where j: "j < length vs" "b = i + 1 + j" "m = vs ! j" "\<forall>k < j. flt (vs ! k) m" "flt v m" by blast
      have "\<forall>k < Suc j. flt ((v # vs) ! k) m" using j(4,5) by (auto simp: less_Suc_eq_0_disj)
      then show ?thesis using j flt_trans [OF True j(5)] by (intro exI [of _ "Suc j"]) simp
    qed
    ultimately show ?thesis using v True mb by auto
  next
    case False
    from Cons.IH [OF vs, of best "i + 1"] Cons.prems(2) obtain m b where
      mb: "argmax_loop (i + 1) vs best = Inr (m, b)" "fle (fst best) m" "\<forall>v \<in> set vs. fle v m" and
      or: "(m, b) = best \<or> (\<exists>j < length vs. b = i + 1 + j \<and> m = vs ! j \<and> (\<forall>k < j. flt (vs ! k) m) \<and> flt (fst best) m)"
      by auto
    have vb: "fle v (fst best)" using False not_flt [of "fst best" v] vn Cons.prems(2) by simp
    have vm: "fle v m" using fle_trans [OF vb mb(2)] .
    have "(m, b) = best \<or> (\<exists>j < length (v # vs). b = i + j \<and> m = (v # vs) ! j \<and> (\<forall>k < j. flt ((v # vs) ! k) m) \<and> flt (fst best) m)"
      using or
    proof
      assume "\<exists>j < length vs. b = i + 1 + j \<and> m = vs ! j \<and> (\<forall>k < j. flt (vs ! k) m) \<and> flt (fst best) m"
      then obtain j where j: "j < length vs" "b = i + 1 + j" "m = vs ! j" "\<forall>k < j. flt (vs ! k) m" "flt (fst best) m" by blast
      have "\<forall>k < Suc j. flt ((v # vs) ! k) m" using j(4) fle_flt_trans [OF vb j(5)] by (auto simp: less_Suc_eq_0_disj)
      then show ?thesis using j by (intro disjI2 exI [of _ "Suc j"]) simp
    qed simp
    then show ?thesis using v False mb vm by auto
  qed
qed

lemma argmax_loop_error: "\<not> row_ok vs \<Longrightarrow> argmax_loop i vs best = Inl (InferenceError ''CTC logits contain NaN or Inf'')"
  by (induction vs arbitrary: i best) (auto simp: row_ok_def)

lemma argmax_best_class:
  assumes "row_ok row" and "row \<noteq> []"
  shows "argmax_loop 0 row (NInf, 0) = Inr (row ! best_class row, best_class row)" and "best_class row < length row"
    and "\<forall>v \<in> set row. fle v (row ! best_class row)"
proof -
  from argmax_loop_spec [OF assms(1), of "(NInf, 0)" 0] obtain m b where
    a: "argmax_loop 0 row (NInf, 0) = Inr (m, b)" "\<forall>v \<in> set row. fle v m" and
    or: "(m, b) = (NInf, 0) \<or> (\<exists>j < length row. b = j \<and> m = row ! j \<and> (\<forall>k < j. flt (row ! k) m) \<and> flt NInf m)" by auto
  have "m \<noteq> NInf"
  proof
    assume "m = NInf"
    with a(2) assms(2) have "fle (hd row) NInf" by simp
    moreover have "is_finite (hd row)" using assms by (simp add: row_ok_def)
    ultimately show False by (auto simp: is_finite_iff)
  qed
  with or have b: "b < length row" "m = row ! b" "\<forall>k < b. flt (row ! k) m" by auto
  have "best_class row = b"
    unfolding best_class_def
  proof (rule hd_filter_upt [OF b(1)])
    show "\<forall>v \<in> set row. fle v (row ! b)" using a(2) b(2) by simp
    show "\<forall>k < b. \<not> (\<forall>v \<in> set row. fle v (row ! k))"
    proof (intro allI impI notI)
      fix k assume "k < b" "\<forall>v \<in> set row. fle v (row ! k)"
      then have "fle (row ! b) (row ! k)" "flt (row ! k) (row ! b)" using b by simp_all
      then show False using fle_not_flt by blast
    qed
  qed
  with a b show "argmax_loop 0 row (NInf, 0) = Inr (row ! best_class row, best_class row)" "best_class row < length row"
    "\<forall>v \<in> set row. fle v (row ! best_class row)" by simp_all
qed

section \<open>The softmax denominator\<close>

context fp_format
begin

lemma fold_fadd_ge_1:
  assumes "length xs + n < 2 ^ precision F" and "length xs + n < 2 ^ 62" and "\<forall>x \<in> set xs. is_prob (g x)"
    and "0 \<le> s" and "s \<le> of_nat n" and "1 \<le> s \<or> (\<exists>x \<in> set xs. g x = Fin 1)"
  shows "\<exists>z. fold (\<lambda>x s. fadd F s (g x)) xs (Fin s) = Fin z \<and> 1 \<le> z"
  using assms
proof (induction xs arbitrary: s n)
  case (Cons x xs)
  from fadd_prob_bound [OF Cons.prems(4,5)] Cons.prems obtain z
    where z: "fadd F (Fin s) (g x) = Fin z" "0 \<le> z" "z \<le> of_nat (n + 1)" by force
  have "1 \<le> z \<or> (\<exists>x \<in> set xs. g x = Fin 1)"
  proof (cases "1 \<le> s \<or> g x = Fin 1")
    case True
    from Cons.prems(3) obtain v where v: "g x = Fin v" "0 \<le> v" "v \<le> 1" by auto
    have "fle (Fin 1) (fadd F (Fin s) (g x))" using True v Cons.prems(4) round_fl_mono [of 1 "s + v"] by auto
    then show ?thesis by (simp add: z(1))
  qed (use Cons.prems(6) in auto)
  from Cons.IH [OF _ _ _ z(2,3) this] Cons.prems z(1) show ?case by simp
qed auto

end

lemma float32_bound: "is_float32 (Fin x) \<Longrightarrow> \<bar>x\<bar> \<le> pow2 128"
proof -
  assume "is_float32 (Fin x)"
  then have "\<bar>x\<bar> \<le> largest binary32" by (auto simp: round_fl_def Let_def split: if_split_asm)
  also have "\<dots> \<le> 2 ^ 24 * pow2 104" unfolding largest_def binary32_def by (simp add: pow2_def)
  also have "\<dots> = pow2 128" by (simp add: pow2_def)
  finally show ?thesis .
qed

lemma round_fl64_finite:
  assumes "\<bar>x\<bar> \<le> pow2 130"
  shows "round_fl binary64 x = Fin (round_rat binary64 x)"
proof -
  have "pow2 130 \<le> pow2 971" by (rule pow2_mono) simp
  also have "\<dots> = 1 * pow2 971" by simp
  also have "\<dots> \<le> largest binary64" unfolding largest_def binary64_def by (intro mult_mono) simp_all
  finally have l: "pow2 130 \<le> largest binary64" .
  have g: "round_rat binary64 (pow2 130) = pow2 130" by (rule b64.round_pow2) (simp add: binary64_def)
  have "x \<le> pow2 130" "- x \<le> pow2 130" using assms by linarith+
  then have "round_rat binary64 x \<le> pow2 130" "round_rat binary64 (- x) \<le> pow2 130" using b64.round_mono g by metis+
  with l show ?thesis by (simp add: round_fl_def Let_def)
qed

text \<open>The difference of a logit and the greatest one, in double precision.\<close>

lemma logit_difference:
  assumes "is_float32 (Fin v)" and "is_float32 (Fin m)" and "v \<le> m"
  shows "\<exists>d \<le> 0. fsub binary64 (fcast binary64 (Fin v)) (fcast binary64 (Fin m)) = Fin d \<and> (v = m \<longrightarrow> d = 0)"
proof -
  let ?r = "round_rat binary64"
  have 128: "pow2 128 \<le> pow2 130" "?r (pow2 128) = pow2 128" "pow2 128 + pow2 128 = pow2 129" "pow2 129 \<le> pow2 130"
    using b64.round_pow2 [of 128] by (simp_all add: binary64_def pow2_def)
  note b = float32_bound [OF assms(1)] float32_bound [OF assms(2)]
  have fin: "fcast binary64 (Fin v) = Fin (?r v)" "fcast binary64 (Fin m) = Fin (?r m)"
    using b 128(1) by (simp_all add: fcast_def round_fl64_finite)
  have "\<bar>?r x\<bar> \<le> pow2 128" if "\<bar>x\<bar> \<le> pow2 128" for x
  proof -
    have "x \<le> pow2 128" "- pow2 128 \<le> x" using that by linarith+
    then have "?r x \<le> pow2 128" "- pow2 128 \<le> ?r x"
      using b64.round_mono [of x "pow2 128"] b64.round_mono [of "- pow2 128" x] 128(2) by simp_all
    then show ?thesis by linarith
  qed
  with b have "\<bar>?r v\<bar> \<le> pow2 128" "\<bar>?r m\<bar> \<le> pow2 128" by simp_all
  then have "\<bar>?r v - ?r m\<bar> \<le> pow2 130" using 128(3,4) by linarith
  then have "fsub binary64 (Fin (?r v)) (Fin (?r m)) = Fin (?r (?r v - ?r m))" by (simp add: fsub_def round_fl64_finite)
  moreover have "?r v \<le> ?r m" using assms(3) by (rule b64.round_mono)
  then have "?r (?r v - ?r m) \<le> 0" using b64.round_mono [of "?r v - ?r m" 0] by simp
  ultimately show ?thesis using fin by auto
qed

definition floats :: "fl list \<Rightarrow> bool" where
  "floats xs \<longleftrightarrow> (\<forall>x \<in> set xs. is_float32 x)"

lemma softmax_denominator_ok:
  assumes "exp_ok fexp" and "row_ok row" and "floats row" and "row \<noteq> []" and "length row \<le> 256"
  shows "\<exists>d \<ge> 1. softmax_denominator fexp row (row ! best_class row) = Fin d"
proof -
  let ?m = "row ! best_class row"
  note best = argmax_best_class [OF assms(2,4)]
  have mem: "?m \<in> set row" using best(2) by simp
  then obtain m where m: "?m = Fin m" using assms(2) by (auto simp: row_ok_def is_finite_iff)
  let ?e = "\<lambda>v. fexp (fsub binary64 (fcast binary64 v) (fcast binary64 ?m))"
  have prob: "is_prob (?e v)" and one: "v = ?m \<Longrightarrow> ?e v = Fin 1" if v: "v \<in> set row" for v
  proof -
    from v obtain x where x: "v = Fin x" using assms(2) by (auto simp: row_ok_def is_finite_iff)
    have "x \<le> m" using best(3) v by (auto simp: x m)
    then obtain d where d: "d \<le> 0" "fsub binary64 (fcast binary64 v) (fcast binary64 ?m) = Fin d" "x = m \<longrightarrow> d = 0"
      using logit_difference [of x m] v mem assms(3) unfolding floats_def x m by blast
    show "is_prob (?e v)" using assms(1) d by (simp add: exp_ok_def)
    show "?e v = Fin 1" if "v = ?m" using assms(1) d that by (simp add: exp_ok_def x m)
  qed
  have "\<exists>z. fold (\<lambda>v total. fadd binary64 total (?e v)) row (Fin 0) = Fin z \<and> 1 \<le> z"
  proof (rule b64.fold_fadd_ge_1 [where n = 0])
    show "length row + 0 < 2 ^ precision binary64" "length row + 0 < 2 ^ 62" using assms(5) by (simp_all add: binary64_def)
    show "\<forall>v \<in> set row. is_prob (?e v)" using prob by blast
    show "1 \<le> (0 :: rat) \<or> (\<exists>v \<in> set row. ?e v = Fin 1)" using one [OF mem] mem by blast
  qed simp_all
  then show ?thesis unfolding softmax_denominator_def by blast
qed

lemma argmax_probability_ok:
  assumes "exp_ok fexp" and "row_ok row" and "floats row" and "row \<noteq> []" and "length row \<le> 256"
  shows "\<exists>p. argmax_probability fexp row = Inr (p, best_class row) \<and> is_prob p"
proof -
  from softmax_denominator_ok [OF assms] obtain d where
    d: "1 \<le> d" "softmax_denominator fexp row (row ! best_class row) = Fin d" by blast
  have "is_prob (fclamp (round_fl binary64 (1 / d)) (Fin 0) (Fin 1))"
    using prob_clamp01 [of "round_fl binary64 (1 / d)"] by (simp add: clamp01_def)
  then obtain q where q: "fclamp (round_fl binary64 (1 / d)) (Fin 0) (Fin 1) = Fin q" "0 \<le> q" "q \<le> 1" by (rule is_probE)
  then have "is_prob (fcast binary32 (Fin q))" by (simp add: fcast_def b32.prob_round)
  then show ?thesis
    using argmax_best_class(1) [OF assms(2,4)] assms(4) d q(1)
    by (simp add: argmax_probability_def Let_def)
qed

section \<open>Collapsing\<close>

definition class_char :: "GreedyCtcDecoderConfig \<Rightarrow> nat \<Rightarrow> char" where
  "class_char c i = gc_charset c ! (if i < gc_blank_index c then i else i - 1)"

lemma class_to_character_ok:
  "i < class_count c \<Longrightarrow> i \<noteq> gc_blank_index c \<Longrightarrow> gc_blank_index c < class_count c \<Longrightarrow>
   class_to_character c i = Inr (class_char c i)"
  by (auto simp: class_to_character_def class_char_def class_count_def Let_def)

text \<open>The CTC reading of a path of classes: repeats collapsed, then blanks dropped.\<close>

definition collapse :: "GreedyCtcDecoderConfig \<Rightarrow> nat list \<Rightarrow> string" where
  "collapse c path = map (class_char c) (filter (\<lambda>i. i \<noteq> gc_blank_index c) (remdups_adj path))"

fun changes :: "nat \<Rightarrow> nat list \<Rightarrow> nat list" where
  "changes p [] = []"
| "changes p (b # bs) = (if b = p then changes p bs else b # changes b bs)"

lemma remdups_adj_changes: "remdups_adj (p # bs) = p # changes p bs"
  by (induction bs arbitrary: p) auto

lemma changes_fresh: "p \<notin> set bs \<Longrightarrow> changes p bs = remdups_adj bs"
  by (cases bs) (auto simp: remdups_adj_changes)

lemma decode_rows:
  assumes "exp_ok fexp" and c: "ctc_config_ok c"
    and rows: "\<forall>row \<in> set rows. row_ok row \<and> floats row \<and> length row = class_count c"
    and "\<forall>p \<in> set (cs_confidences s). is_prob p" and "fle (Fin 0) (cs_sum s)" and "length (cs_text s) = length (cs_confidences s)"
  shows "\<exists>t. res_fold (decode_timestep fexp c) rows s = Inr t \<and>
    cs_text t = cs_text s @ map (class_char c) (filter (\<lambda>i. i \<noteq> gc_blank_index c) (changes (cs_previous s) (map best_class rows))) \<and>
    (\<forall>p \<in> set (cs_confidences t). is_prob p) \<and> fle (Fin 0) (cs_sum t) \<and> length (cs_text t) = length (cs_confidences t)"
  using rows assms(4-6)
proof (induction rows arbitrary: s)
  case (Cons row rows)
  then have row: "row_ok row" "floats row" "row \<noteq> []" "length row \<le> 256" "length row = class_count c"
    using c by (auto simp: ctc_config_ok_def class_count_def)
  from argmax_probability_ok [OF assms(1) row(1-4)] obtain p where
    p: "argmax_probability fexp row = Inr (p, best_class row)" "is_prob p" by blast
  let ?b = "best_class row"
  have b: "?b < class_count c" using argmax_best_class(2) [OF row(1,3)] row(5) by simp
  have blank: "gc_blank_index c < class_count c" using c by (simp add: ctc_config_ok_def)
  show ?case
  proof (cases "?b \<noteq> gc_blank_index c \<and> ?b \<noteq> cs_previous s")
    case True
    let ?u = "\<lparr>cs_previous = ?b, cs_text = cs_text s @ [class_char c ?b], cs_confidences = cs_confidences s @ [p],
      cs_sum = fadd binary64 (cs_sum s) (fcast binary64 p)\<rparr>"
    have step: "decode_timestep fexp c row s = Inr ?u"
      using True class_to_character_ok [OF b _ blank] by (simp add: decode_timestep_def p(1))
    from p(2) obtain x where x: "p = Fin x" "0 \<le> x" "x \<le> 1" by (rule is_probE)
    then have "fle (Fin 0) (fcast binary64 p)" using b64.round_fl_mono [of 0 x] by (simp add: fcast_def)
    then have "fle (Fin 0) (cs_sum ?u)" using b64.fadd_nonneg Cons.prems(3) by simp
    moreover have "\<forall>row \<in> set rows. row_ok row \<and> floats row \<and> length row = class_count c" using Cons.prems(1) by simp
    moreover have "\<forall>p \<in> set (cs_confidences ?u). is_prob p" "length (cs_text ?u) = length (cs_confidences ?u)"
      using Cons.prems(2,4) p(2) by auto
    ultimately obtain t where t: "res_fold (decode_timestep fexp c) rows ?u = Inr t"
        "cs_text t = cs_text ?u @ map (class_char c) (filter (\<lambda>i. i \<noteq> gc_blank_index c) (changes (cs_previous ?u) (map best_class rows)))"
        "\<forall>p \<in> set (cs_confidences t). is_prob p" "fle (Fin 0) (cs_sum t)" "length (cs_text t) = length (cs_confidences t)"
      using Cons.IH [of ?u] by blast
    then show ?thesis using step True by simp
  next
    case False
    let ?u = "s\<lparr>cs_previous := ?b\<rparr>"
    have step: "decode_timestep fexp c row s = Inr ?u"
      unfolding decode_timestep_def p(1) res_bind_simps prod.case if_not_P [OF False] ..
    have eq: "filter (\<lambda>i. i \<noteq> gc_blank_index c) (changes (cs_previous s) (?b # bs)) = filter (\<lambda>i. i \<noteq> gc_blank_index c) (changes ?b bs)" for bs
      using False by auto
    have "\<forall>row \<in> set rows. row_ok row \<and> floats row \<and> length row = class_count c" using Cons.prems(1) by simp
    then obtain t where t: "res_fold (decode_timestep fexp c) rows ?u = Inr t"
        "cs_text t = cs_text ?u @ map (class_char c) (filter (\<lambda>i. i \<noteq> gc_blank_index c) (changes (cs_previous ?u) (map best_class rows)))"
        "\<forall>p \<in> set (cs_confidences t). is_prob p" "fle (Fin 0) (cs_sum t)" "length (cs_text t) = length (cs_confidences t)"
      using Cons.IH [of ?u] Cons.prems(2-4) by auto
    then show ?thesis using step eq by simp
  qed
qed simp

lemma logit_row_length: "t < n \<Longrightarrow> length logits = n * k \<Longrightarrow> length (logit_row logits k t) = k"
proof -
  assume t: "t < n" and l: "length logits = n * k"
  have "(t + 1) * k \<le> n * k" using t by (intro mult_right_mono) simp_all
  then show ?thesis using l by (simp add: logit_row_def)
qed

lemma set_logit_row: "set (logit_row logits k t) \<subseteq> set logits"
  unfolding logit_row_def by (metis set_take_subset set_drop_subset order_trans)

definition best_path :: "fl list \<Rightarrow> nat \<Rightarrow> nat \<Rightarrow> nat list" where
  "best_path logits timesteps classes = map (\<lambda>t. best_class (logit_row logits classes t)) [0..<timesteps]"

definition logits_shape :: "GreedyCtcDecoderConfig \<Rightarrow> fl list \<Rightarrow> nat \<Rightarrow> nat \<Rightarrow> bool" where
  "logits_shape c logits timesteps classes \<longleftrightarrow> 0 < timesteps \<and> timesteps \<le> gc_maximum_timesteps c \<and> classes = class_count c \<and>
     length logits = timesteps * classes \<and> timesteps \<le> size_t_max div classes"

lemma checked_element_count_shape:
  "logits_shape c logits timesteps classes \<Longrightarrow> checked_element_count timesteps classes = Inr (timesteps * classes)"
  by (auto simp: logits_shape_def checked_element_count_def class_count_def)

lemma ctc_rows_ok:
  assumes shape: "logits_shape c logits timesteps classes" and "row_ok logits" and "floats logits"
  shows "\<forall>row \<in> set (map (logit_row logits classes) [0..<timesteps]). row_ok row \<and> floats row \<and> length row = class_count c"
proof
  fix row assume "row \<in> set (map (logit_row logits classes) [0..<timesteps])"
  then obtain t where t: "t < timesteps" "row = logit_row logits classes t" by auto
  then show "row_ok row \<and> floats row \<and> length row = class_count c"
    using set_logit_row [of logits classes t] assms logit_row_length [of t timesteps logits classes]
    by (auto simp: row_ok_def floats_def logits_shape_def)
qed

lemma ctc_decode_ok:
  assumes fexp: "exp_ok fexp" and c: "ctc_config_ok c" and shape: "logits_shape c logits timesteps classes"
    and ok: "row_ok logits" and floats: "floats logits" and short: "timesteps < size_t_max"
  shows "\<exists>r. ctc_decode fexp c logits timesteps classes = Inr r \<and> cd_text r = collapse c (best_path logits timesteps classes) \<and>
    length (cd_character_confidences r) = length (cd_text r) \<and> (\<forall>p \<in> set (cd_character_confidences r). is_prob p) \<and>
    is_prob (cd_confidence r)"
proof -
  let ?rows = "map (logit_row logits classes) [0..<timesteps]"
  let ?s = "\<lparr>cs_previous = size_t_max, cs_text = [], cs_confidences = [], cs_sum = Fin 0\<rparr>"
  note rows = ctc_rows_ok [OF shape ok floats]
  from decode_rows [OF fexp c rows, of ?s] obtain t where
    t: "res_fold (decode_timestep fexp c) ?rows ?s = Inr t"
      "cs_text t = map (class_char c) (filter (\<lambda>i. i \<noteq> gc_blank_index c) (changes size_t_max (map best_class ?rows)))"
      "\<forall>p \<in> set (cs_confidences t). is_prob p" "fle (Fin 0) (cs_sum t)" "length (cs_text t) = length (cs_confidences t)" by auto
  have "size_t_max \<notin> set (map best_class ?rows)"
  proof
    assume "size_t_max \<in> set (map best_class ?rows)"
    then obtain row where row: "row \<in> set ?rows" "size_t_max = best_class row" by auto
    with rows have r: "row_ok row" "length row = class_count c" by blast+
    then have "row \<noteq> []" by (auto simp: class_count_def)
    from argmax_best_class(2) [OF r(1) this] r(2) row(2) c show False by (simp add: ctc_config_ok_def size_t_max_def)
  qed
  then have decoded: "cs_text t = collapse c (best_path logits timesteps classes)"
    using t(2) by (simp add: changes_fresh collapse_def best_path_def o_def)
  let ?n = "length (cs_confidences t)"
  have conf: "is_prob (fclamp (fcast binary32 (fdiv binary64 (cs_sum t) (float_of_nat binary64 ?n))) (Fin 0) (Fin 1))" if "0 < ?n"
  proof -
    have "(1 :: rat) \<le> of_nat ?n" using of_nat_mono [OF Suc_leI [OF that], where 'a = rat] by simp
    then have "fle (Fin 1) (float_of_nat binary64 ?n)" using b64.round_fl_mono [of 1 "of_nat ?n"] by (simp add: float_of_nat_def)
    then have d: "flt (Fin 0) (float_of_nat binary64 ?n)" by (rule flt_fle_trans [rotated]) simp
    have "fdiv binary64 (cs_sum t) (float_of_nat binary64 ?n) \<noteq> NaN"
    proof (cases "is_finite (cs_sum t) \<or> is_finite (float_of_nat binary64 ?n)")
      case True
      from b64.fdiv_nonneg [OF t(4) d True] show ?thesis by auto
    next
      case False
      have "?n \<le> length ?rows"
      proof -
        have "length (remdups_adj xs) \<le> length xs" for xs :: "nat list" by (rule remdups_adj_length)
        then have "length (collapse c path) \<le> length path" for path
          unfolding collapse_def by (metis length_map length_filter_le order_trans)
        from this [of "best_path logits timesteps classes"] show ?thesis using t(5) decoded by (simp add: best_path_def)
      qed
      then have "?n < 2 ^ 64" using short by (simp add: size_t_max_def)
      then have "(of_nat ?n :: rat) \<le> of_nat (2 ^ 64)" by (simp only: of_nat_le_iff)
      also have "\<dots> \<le> pow2 130" by (simp add: pow2_def)
      finally have "is_finite (float_of_nat binary64 ?n)" by (simp add: float_of_nat_def round_fl64_finite)
      with False show ?thesis by simp
    qed
    then have "fcast binary32 (fdiv binary64 (cs_sum t) (float_of_nat binary64 ?n)) \<noteq> NaN"
      by (simp add: fcast_def split: fl.split)
    then show ?thesis using prob_clamp01 by (simp add: clamp01_def)
  qed
  have "ctc_decode fexp c logits timesteps classes = Inr \<lparr>cd_text = cs_text t,
      cd_confidence = (if cs_confidences t \<noteq> []
        then fclamp (fcast binary32 (fdiv binary64 (cs_sum t) (float_of_nat binary64 ?n))) (Fin 0) (Fin 1) else Fin 0),
      cd_character_confidences = cs_confidences t\<rparr>"
    using shape c t(1) checked_element_count_shape [OF shape]
    by (simp add: ctc_decode_def logits_shape_def ctc_config_ok_def)
  then show ?thesis using decoded t(3,5) conf by auto
qed

lemma res_fold_error: "x \<in> set xs \<Longrightarrow> (\<And>s. \<exists>e. f x s = Inl e) \<Longrightarrow> \<exists>e. res_fold f xs s = Inl e"
proof (induction xs arbitrary: s)
  case (Cons y ys)
  show ?case
  proof (cases "f y s")
    case (Inr t)
    with Cons.prems(2) [of s] have "x \<noteq> y" by auto
    with Cons Inr show ?thesis by simp
  qed simp
qed simp

lemma ctc_decode_error:
  assumes "logits_shape c logits timesteps classes" and "\<not> row_ok logits"
  shows "\<exists>e. ctc_decode fexp c logits timesteps classes = Inl e"
proof -
  from assms(2) obtain v where v: "v \<in> set logits" "\<not> is_finite v" by (auto simp: row_ok_def)
  then obtain i where i: "i < length logits" "v = logits ! i" by (auto simp: in_set_conv_nth)
  define t where "t = i div classes"
  have len: "length logits = timesteps * classes" and pos: "0 < classes" using assms(1) by (auto simp: logits_shape_def class_count_def)
  have t: "t < timesteps" using i(1) len pos by (simp add: t_def less_mult_imp_div_less)
  have "logit_row logits classes t ! (i mod classes) = v"
    using i logit_row_length [OF t len] pos by (simp add: logit_row_def t_def)
  then have row: "\<not> row_ok (logit_row logits classes t)"
    using v(2) logit_row_length [OF t len] pos unfolding row_ok_def by (metis mod_less_divisor nth_mem)
  then have "logit_row logits classes t \<noteq> []" by (auto simp: row_ok_def)
  with row have "argmax_probability fexp (logit_row logits classes t) = Inl (InferenceError ''CTC logits contain NaN or Inf'')"
    by (simp add: argmax_probability_def argmax_loop_error)
  then have "\<exists>e. decode_timestep fexp c (logit_row logits classes t) s = Inl e" for s by (simp add: decode_timestep_def)
  then have "\<exists>e. res_fold (decode_timestep fexp c) (map (logit_row logits classes) [0..<timesteps]) s = Inl e" for s
    using t by (intro res_fold_error) auto
  then obtain e where "res_fold (decode_timestep fexp c) (map (logit_row logits classes) [0..<timesteps])
      \<lparr>cs_previous = size_t_max, cs_text = [], cs_confidences = [], cs_sum = Fin 0\<rparr> = Inl e" by blast
  then show ?thesis
    using assms(1) checked_element_count_shape [OF assms(1)]
    by (cases "classes > gc_maximum_classes c") (simp_all add: ctc_decode_def logits_shape_def)
qed

lemma ctc_decode_shape:
  assumes "ctc_decode fexp c logits timesteps classes = Inr r"
  shows "logits_shape c logits timesteps classes"
  using assms by (auto simp: ctc_decode_def checked_element_count_def logits_shape_def not_less split: if_split_asm)

text \<open>
  C20: the greedy decoder computes the CTC reading of the best path: it returns exactly when the logits have the
  configured shape and are finite, and then its text is the path of the first best classes with repeats collapsed and blanks
  dropped, with one probability per character and a probability as the confidence.
\<close>

theorem greedy_decodes_collapse:
  assumes "exp_ok fexp" and "make_ctc_decoder config = Inr c" and "floats logits" and "timesteps < size_t_max"
  shows "((\<exists>r. ctc_decode fexp c logits timesteps classes = Inr r) \<longleftrightarrow> logits_shape c logits timesteps classes \<and> row_ok logits) \<and>
    (\<forall>r. ctc_decode fexp c logits timesteps classes = Inr r \<longrightarrow> cd_text r = collapse c (best_path logits timesteps classes) \<and>
      length (cd_character_confidences r) = length (cd_text r) \<and> (\<forall>p \<in> set (cd_character_confidences r). is_prob p) \<and>
      is_prob (cd_confidence r))"
proof -
  have c: "ctc_config_ok c" using make_ctc_decoder_ok [OF assms(2)] by simp
  have fwd: "logits_shape c logits timesteps classes \<and> row_ok logits" if "ctc_decode fexp c logits timesteps classes = Inr r" for r
    using ctc_decode_shape [OF that] ctc_decode_error [of c logits timesteps classes fexp] that by auto
  note ok = ctc_decode_ok [OF assms(1) c _ _ assms(3,4), of classes]
  show ?thesis using fwd ok by fastforce
qed

definition step_exp :: "fl \<Rightarrow> fl" where
  "step_exp x = (case x of Fin v \<Rightarrow> if v < 0 then Fin 0 else Fin 1 | NInf \<Rightarrow> Fin 0 | _ \<Rightarrow> x)"

lemma step_exp_ok: "exp_ok step_exp"
  by (simp add: exp_ok_def step_exp_def)

definition ab_config :: GreedyCtcDecoderConfig where
  "ab_config = \<lparr>gc_charset = ''AB'', gc_blank_index = 2, gc_maximum_timesteps = 8, gc_maximum_classes = 8\<rparr>"

definition ab_logits :: "fl list" where
  "ab_logits = map (\<lambda>b. if b then Fin 1 else Fin 0)
     [True, False, False, True, False, False, False, False, True, True, False, False, False, True, False]"

theorem greedy_decodes_collapse_witness:
  "\<exists>r. ctc_decode step_exp ab_config ab_logits 5 3 = Inr r \<and> cd_text r = ''AAB''"
proof -
  have c: "make_ctc_decoder ab_config = Inr ab_config"
    by (simp add: make_ctc_decoder_def ab_config_def class_count_def check_all.simps size_t_max_def)
  have f: "floats ab_logits" by (simp add: floats_def ab_logits_def)
  have s: "logits_shape ab_config ab_logits 5 3" "row_ok ab_logits" and n: "5 < size_t_max"
    by (simp_all add: logits_shape_def ab_config_def ab_logits_def class_count_def size_t_max_def row_ok_def)
  have read: "collapse ab_config (best_path ab_logits 5 3) = ''AAB''" by code_simp
  from greedy_decodes_collapse [OF step_exp_ok c f n, of 3] s read show ?thesis by metis
qed

end
