(* ===== verification/Beam_Search.thy ===== *)
theory Beam_Search
  imports Ctc_Decoder Plate_Grammar "HOL-Library.Product_Lexorder"
begin

text \<open>
  The constrained beam search (\<^verbatim>\<open>infrastructure/lprnet/constrained_ctc_beam_search.cpp\<close>): prefixes the plate
  grammar allows are extended class by class, equal readings are merged in the log domain, and the valid plates
  of the last beam are returned. The functions of \<open>cmath\<close> are a parameter.
\<close>

section \<open>Configuration\<close>

record ConstrainedCtcBeamSearchConfig =
  bs_ctc :: GreedyCtcDecoderConfig
  bs_beam_width :: nat
  bs_result_limit :: nat
  bs_classes_per_step :: nat
  bs_confusion_weight :: fl
  bs_confusion_pairs :: "(char \<times> char) list"

definition default_beam_config :: ConstrainedCtcBeamSearchConfig where
  "default_beam_config = \<lparr>bs_ctc = default_ctc_config, bs_beam_width = 16, bs_result_limit = 5, bs_classes_per_step = 6,
     bs_confusion_weight = lit32 (15/100),
     bs_confusion_pairs = [(CHR ''0'', CHR ''O''), (CHR ''1'', CHR ''I''), (CHR ''8'', CHR ''B''), (CHR ''5'', CHR ''S''), (CHR ''6'', CHR ''G'')]\<rparr>"

record ConstrainedCtcBeamSearchResult =
  br_candidates :: "PlateCandidate list"
  br_greedy :: CtcDecodeResult
  br_top_margin :: fl
  br_fallback_used :: bool

definition make_beam_search :: "ConstrainedCtcBeamSearchConfig \<Rightarrow> ConstrainedCtcBeamSearchConfig result" where
  "make_beam_search c =
     res_bind (make_ctc_decoder (bs_ctc c)) (\<lambda>_.
     res_bind (check_all
       (throw_if (bs_beam_width c = 0 \<or> bs_beam_width c > 512 \<or> bs_result_limit c = 0 \<or> bs_result_limit c > bs_beam_width c \<or>
          bs_classes_per_step c = 0 \<or> bs_classes_per_step c > gc_maximum_classes (bs_ctc c) \<or>
          \<not> is_finite (bs_confusion_weight c) \<or> fle (bs_confusion_weight c) (Fin 0) \<or> flt (Fin 1) (bs_confusion_weight c))
          (ConfigurationError ''constrained CTC beam search configuration is invalid'') #
        map (\<lambda>(left, right). throw_if (left = CHR 0x00 \<or> right = CHR 0x00 \<or> left = right)
          (ConfigurationError ''CTC confusion pairs must contain two distinct characters'')) (bs_confusion_pairs c)))
     (\<lambda>_. Inr c))"

section \<open>Scores\<close>

text \<open>The functions of \<open>cmath\<close> on doubles.\<close>

record libm =
  lm_exp :: "fl \<Rightarrow> fl"
  lm_log :: "fl \<Rightarrow> fl"
  lm_log1p :: "fl \<Rightarrow> fl"

record BeamState =
  be_text :: string
  be_last_class :: nat
  be_log_probability :: fl

definition log_add :: "libm \<Rightarrow> fl \<Rightarrow> fl \<Rightarrow> fl" where
  "log_add lm left right =
     (if feq left NInf then right
      else if feq right NInf then left
      else let high = fmax left right; low = fmin left right
        in fadd binary64 high (lm_log1p lm (lm_exp lm (fsub binary64 low high))))"

definition beam_class_to_character :: "GreedyCtcDecoderConfig \<Rightarrow> nat \<Rightarrow> char result" where
  "beam_class_to_character c class_index =
     (if class_index = gc_blank_index c then Inl (InternalError ''blank class cannot map to a character'')
      else let charset_index = (if class_index < gc_blank_index c then class_index else class_index - 1)
        in if charset_index \<ge> length (gc_charset c) then Inl (InferenceError ''beam class index is outside charset'')
           else Inr (gc_charset c ! charset_index))"

definition charset_contains :: "GreedyCtcDecoderConfig \<Rightarrow> char \<Rightarrow> bool" where
  "charset_contains c ch = (ch \<in> set (gc_charset c))"

fun row_maximum :: "fl list \<Rightarrow> fl \<Rightarrow> fl result" where
  "row_maximum [] m = Inr m"
| "row_maximum (v # vs) m =
     (if \<not> is_finite v then Inl (InferenceError ''beam logits contain NaN or Inf'') else row_maximum vs (fmax m v))"

definition log_softmax :: "libm \<Rightarrow> fl list \<Rightarrow> fl list result" where
  "log_softmax lm row =
     (if row = [] then Inl (InferenceError ''beam timestep has no classes'')
      else res_bind (row_maximum row NInf) (\<lambda>m.
        let denominator = softmax_denominator (lm_exp lm) row m
        in if \<not> is_finite denominator \<or> fle denominator (Fin 0) then Inl (InferenceError ''beam softmax denominator is invalid'')
           else Inr (map (\<lambda>v. fsub binary64 (fsub binary64 (fcast binary64 v) (fcast binary64 m)) (lm_log lm denominator)) row)))"

definition select_classes :: "fl list \<Rightarrow> nat \<Rightarrow> nat \<Rightarrow> nat list" where
  "select_classes log_probabilities n blank =
     (let indices = take n (stable_sort (before_by (\<lambda>i. log_probabilities ! i) (\<lambda>i. i)) [0..<length log_probabilities])
      in if blank \<in> set indices then indices else indices @ [blank])"

definition confidence_from_log_probability :: "libm \<Rightarrow> fl \<Rightarrow> nat \<Rightarrow> fl" where
  "confidence_from_log_probability lm log_probability timesteps =
     (if \<not> is_finite log_probability \<or> timesteps = 0 then Fin 0
      else fcast binary32 (fclamp (lm_exp lm (fdiv binary64 log_probability (float_of_nat binary64 timesteps))) (Fin 0) (Fin 1)))"

section \<open>Extending the beam\<close>

type_synonym reading = "string \<times> nat"

definition append_if_valid :: "TurkishPlateGrammar \<Rightarrow> BeamState \<Rightarrow> nat \<Rightarrow> fl \<Rightarrow> char \<Rightarrow> fl \<Rightarrow> (reading \<times> fl) list" where
  "append_if_valid g state class_index next_probability ch penalty =
     (let prefix = be_text state @ [ch]
      in if is_valid_prefix g prefix then [((prefix, class_index), fadd binary64 next_probability penalty)] else [])"

text \<open>The character a confusion pair offers instead of the emitted one; the null character when it offers none.\<close>

definition alternative :: "char \<Rightarrow> char \<times> char \<Rightarrow> char" where
  "alternative emitted = (\<lambda>(left, right). if emitted = left then right else if emitted = right then left else CHR 0x00)"

definition extend_class :: "ConstrainedCtcBeamSearchConfig \<Rightarrow> TurkishPlateGrammar \<Rightarrow> fl \<Rightarrow> fl list \<Rightarrow> BeamState \<Rightarrow> nat \<Rightarrow>
    (reading \<times> fl) list result" where
  "extend_class c g confusion_penalty log_probabilities state class_index =
     (let next_probability = fadd binary64 (be_log_probability state) (log_probabilities ! class_index);
          blank = gc_blank_index (bs_ctc c)
      in if class_index = blank then Inr [((be_text state, blank), next_probability)]
         else if class_index = be_last_class state then Inr [((be_text state, class_index), next_probability)]
         else res_bind (beam_class_to_character (bs_ctc c) class_index) (\<lambda>emitted.
           Inr (append_if_valid g state class_index next_probability emitted (Fin 0) @
             concat (map (\<lambda>pair. let alt = alternative emitted pair in
               if alt \<noteq> CHR 0x00 \<and> charset_contains (bs_ctc c) alt
               then append_if_valid g state class_index next_probability alt confusion_penalty else [])
               (bs_confusion_pairs c)))))"

definition merge_state :: "libm \<Rightarrow> 'k::linorder \<times> fl \<Rightarrow> ('k \<times> fl) list \<Rightarrow> ('k \<times> fl) list" where
  "merge_state lm = (\<lambda>(key, p). omap_alter key (\<lambda>old. case old of None \<Rightarrow> p | Some q \<Rightarrow> log_add lm q p))"

definition beam_of :: "nat \<Rightarrow> (reading \<times> fl) list \<Rightarrow> BeamState list" where
  "beam_of width merged = take width (stable_sort (before_by be_log_probability (\<lambda>s. (be_text s, be_last_class s)))
     (map (\<lambda>((t, l), p). \<lparr>be_text = t, be_last_class = l, be_log_probability = p\<rparr>) merged))"

definition beam_timestep :: "libm \<Rightarrow> ConstrainedCtcBeamSearchConfig \<Rightarrow> TurkishPlateGrammar \<Rightarrow> nat \<Rightarrow> fl list \<Rightarrow> BeamState list \<Rightarrow>
    BeamState list result" where
  "beam_timestep lm c g classes row beam =
     res_bind (log_softmax lm row) (\<lambda>log_probabilities.
     let selected = select_classes log_probabilities (min (bs_classes_per_step c) classes) (gc_blank_index (bs_ctc c));
         confusion_penalty = lm_log lm (fcast binary64 (bs_confusion_weight c))
     in res_bind (res_map_list (\<lambda>state. res_map_list (extend_class c g confusion_penalty log_probabilities state) selected) beam)
       (\<lambda>extensions. Inr (beam_of (bs_beam_width c) (fold (merge_state lm) (concat (concat extensions)) []))))"

fun beam_loop :: "libm \<Rightarrow> ConstrainedCtcBeamSearchConfig \<Rightarrow> TurkishPlateGrammar \<Rightarrow> nat \<Rightarrow> fl list list \<Rightarrow> BeamState list \<Rightarrow>
    BeamState list result" where
  "beam_loop lm c g classes [] beam = Inr beam"
| "beam_loop lm c g classes (row # rows) beam =
     res_bind (beam_timestep lm c g classes row beam) (\<lambda>next_beam.
       if next_beam = [] then Inr [] else beam_loop lm c g classes rows next_beam)"

section \<open>The result\<close>

definition plates_of_beam :: "libm \<Rightarrow> TurkishPlateGrammar \<Rightarrow> BeamState list \<Rightarrow> (string \<times> fl) list" where
  "plates_of_beam lm g beam = fold (merge_state lm)
     (map (\<lambda>s. (be_text s, be_log_probability s)) (filter (\<lambda>s. is_valid_normalized g (be_text s)) beam)) []"

definition ranked_candidates :: "libm \<Rightarrow> nat \<Rightarrow> nat \<Rightarrow> (string \<times> fl) list \<Rightarrow> PlateCandidate list" where
  "ranked_candidates lm timesteps limit scores =
     take limit (stable_sort (before_by cand_confidence cand_text) (map (\<lambda>(t, p).
       let confidence = confidence_from_log_probability lm p timesteps
       in \<lparr>cand_text = t, cand_confidence = confidence, cand_calibrated = confidence, cand_format_valid = True\<rparr>) scores))"

definition fallback_candidate :: "TurkishPlateGrammar \<Rightarrow> CtcDecodeResult \<Rightarrow> PlateCandidate" where
  "fallback_candidate g greedy =
     (let normalized = normalize_text g (cd_text greedy)
      in \<lparr>cand_text = (if normalized = [] then cd_text greedy else normalized), cand_confidence = cd_confidence greedy,
          cand_calibrated = cd_confidence greedy, cand_format_valid = (normalized \<noteq> [] \<and> is_valid_normalized g normalized)\<rparr>)"

definition top_margin_of :: "PlateCandidate list \<Rightarrow> fl" where
  "top_margin_of cs = (case cs of
       a # b # _ \<Rightarrow> fclamp (sub32 (cand_confidence a) (cand_confidence b)) (Fin 0) (Fin 1)
     | [a] \<Rightarrow> cand_confidence a
     | [] \<Rightarrow> Fin 0)"

definition beam_result :: "libm \<Rightarrow> ConstrainedCtcBeamSearchConfig \<Rightarrow> TurkishPlateGrammar \<Rightarrow> nat \<Rightarrow> CtcDecodeResult \<Rightarrow> BeamState list \<Rightarrow>
    ConstrainedCtcBeamSearchResult" where
  "beam_result lm c g timesteps greedy beam =
     (let found = ranked_candidates lm timesteps (bs_result_limit c) (plates_of_beam lm g beam);
          fallback = (found = [] \<and> cd_text greedy \<noteq> []);
          candidates = (if fallback then [fallback_candidate g greedy] else found)
      in \<lparr>br_candidates = candidates, br_greedy = greedy, br_top_margin = top_margin_of candidates, br_fallback_used = fallback\<rparr>)"

definition beam_decode :: "libm \<Rightarrow> ConstrainedCtcBeamSearchConfig \<Rightarrow> TurkishPlateGrammar \<Rightarrow> fl list \<Rightarrow> nat \<Rightarrow> nat \<Rightarrow>
    ConstrainedCtcBeamSearchResult result" where
  "beam_decode lm c g logits timesteps classes =
     res_bind (ctc_decode (lm_exp lm) (bs_ctc c) logits timesteps classes) (\<lambda>greedy.
     if classes \<noteq> class_count (bs_ctc c) then Inl (InferenceError ''beam class count does not match configured CTC contract'')
     else if timesteps = 0 \<or> timesteps > gc_maximum_timesteps (bs_ctc c) \<or> classes = 0 \<or> classes > gc_maximum_classes (bs_ctc c) \<or>
       timesteps > size_t_max div classes \<or> length logits \<noteq> timesteps * classes
     then Inl (InferenceError ''beam logits shape is invalid'')
     else res_bind (beam_loop lm c g classes (map (logit_row logits classes) [0..<timesteps])
         [\<lparr>be_text = [], be_last_class = gc_blank_index (bs_ctc c), be_log_probability = Fin 0\<rparr>])
       (\<lambda>beam. Inr (beam_result lm c g timesteps greedy beam)))"

section \<open>Readings of class paths\<close>

definition confusable :: "ConstrainedCtcBeamSearchConfig \<Rightarrow> char \<Rightarrow> char \<Rightarrow> bool" where
  "confusable c emitted ch \<longleftrightarrow> ch \<noteq> CHR 0x00 \<and> charset_contains (bs_ctc c) ch \<and> (\<exists>pair \<in> set (bs_confusion_pairs c). alternative emitted pair = ch)"

text \<open>
  A text reads a path of classes: it has one character for each class that is left when repeats are collapsed and
  blanks dropped, the character of the class or one that a confusion pair puts in its place.
\<close>

definition reads :: "ConstrainedCtcBeamSearchConfig \<Rightarrow> nat list \<Rightarrow> string \<Rightarrow> bool" where
  "reads c path t \<longleftrightarrow> list_all2 (\<lambda>i ch. ch = class_char (bs_ctc c) i \<or> confusable c (class_char (bs_ctc c) i) ch)
     (filter (\<lambda>i. i \<noteq> gc_blank_index (bs_ctc c)) (remdups_adj path)) t"

lemma changes_snoc: "changes p (bs @ [i]) = changes p bs @ (if i = last (p # bs) then [] else [i])"
  by (induction bs arbitrary: p) auto

lemma filter_changes_blank: "filter (\<lambda>i. i \<noteq> b) (changes b path) = filter (\<lambda>i. i \<noteq> b) (remdups_adj path)"
proof -
  have "filter (\<lambda>i. i \<noteq> b) (remdups_adj (b # path)) = filter (\<lambda>i. i \<noteq> b) (changes b path)" by (simp add: remdups_adj_changes)
  moreover have "filter (\<lambda>i. i \<noteq> b) (remdups_adj (b # path)) = filter (\<lambda>i. i \<noteq> b) (remdups_adj path)"
    by (cases path) auto
  ultimately show ?thesis by simp
qed

lemma reads_snoc_same:
  "i = gc_blank_index (bs_ctc c) \<or> i = last (gc_blank_index (bs_ctc c) # path) \<Longrightarrow> reads c path t \<Longrightarrow> reads c (path @ [i]) t"
  unfolding reads_def filter_changes_blank [symmetric] changes_snoc by auto

lemma reads_snoc_new:
  "i \<noteq> gc_blank_index (bs_ctc c) \<Longrightarrow> i \<noteq> last (gc_blank_index (bs_ctc c) # path) \<Longrightarrow>
   ch = class_char (bs_ctc c) i \<or> confusable c (class_char (bs_ctc c) i) ch \<Longrightarrow> reads c path t \<Longrightarrow> reads c (path @ [i]) (t @ [ch])"
  unfolding reads_def filter_changes_blank [symmetric] changes_snoc by (auto intro: list_all2_appendI)

definition reading_of :: "ConstrainedCtcBeamSearchConfig \<Rightarrow> nat \<Rightarrow> reading \<Rightarrow> bool" where
  "reading_of c n = (\<lambda>(t, l). \<exists>path. length path = n \<and> (\<forall>i \<in> set path. i < class_count (bs_ctc c)) \<and>
     l = last (gc_blank_index (bs_ctc c) # path) \<and> reads c path t)"

lemma reading_same:
  assumes "reading_of c n (t, l)" and "i < class_count (bs_ctc c)" and "i = gc_blank_index (bs_ctc c) \<or> i = l"
  shows "reading_of c (n + 1) (t, i)"
proof -
  from assms(1) obtain path where "length path = n" "\<forall>i \<in> set path. i < class_count (bs_ctc c)"
    "l = last (gc_blank_index (bs_ctc c) # path)" "reads c path t" by (auto simp: reading_of_def)
  with assms(2,3) show ?thesis by (auto simp: reading_of_def intro!: exI [of _ "path @ [i]"] reads_snoc_same)
qed

lemma reading_new:
  assumes "reading_of c n (t, l)" and "i < class_count (bs_ctc c)" and "i \<noteq> gc_blank_index (bs_ctc c)" and "i \<noteq> l"
    and "ch = class_char (bs_ctc c) i \<or> confusable c (class_char (bs_ctc c) i) ch"
  shows "reading_of c (n + 1) (t @ [ch], i)"
proof -
  from assms(1) obtain path where "length path = n" "\<forall>i \<in> set path. i < class_count (bs_ctc c)"
    "l = last (gc_blank_index (bs_ctc c) # path)" "reads c path t" by (auto simp: reading_of_def)
  with assms(2-5) show ?thesis by (auto simp: reading_of_def intro!: exI [of _ "path @ [i]"] reads_snoc_new)
qed

lemma beam_class_to_character_ok:
  "i < class_count c \<Longrightarrow> i \<noteq> gc_blank_index c \<Longrightarrow> gc_blank_index c < class_count c \<Longrightarrow>
   beam_class_to_character c i = Inr (class_char c i)"
  by (auto simp: beam_class_to_character_def class_char_def class_count_def Let_def)

abbreviation state_key :: "BeamState \<Rightarrow> reading" where
  "state_key s \<equiv> (be_text s, be_last_class s)"

lemma append_if_valid_member: "(k, p) \<in> set (append_if_valid g s i np ch penalty) \<Longrightarrow> k = (be_text s @ [ch], i)"
  by (auto simp: append_if_valid_def Let_def split: if_split_asm)

lemma extend_class_readings:
  assumes "extend_class c g penalty lps s i = Inr items" and "reading_of c n (state_key s)" and "i < class_count (bs_ctc c)"
    and "gc_blank_index (bs_ctc c) < class_count (bs_ctc c)" and "(k, p) \<in> set items"
  shows "reading_of c (n + 1) k"
proof -
  consider (blank) "i = gc_blank_index (bs_ctc c)" | (same) "i \<noteq> gc_blank_index (bs_ctc c)" "i = be_last_class s"
    | (new) "i \<noteq> gc_blank_index (bs_ctc c)" "i \<noteq> be_last_class s" by blast
  then show ?thesis
  proof cases
    case blank
    with assms(1,5) have "k = (be_text s, i)" by (auto simp: extend_class_def Let_def)
    with reading_same [OF assms(2,3)] blank show ?thesis by simp
  next
    case same
    with assms(1,5) have "k = (be_text s, i)" by (auto simp: extend_class_def Let_def)
    with reading_same [OF assms(2,3)] same show ?thesis by simp
  next
    case new
    note ch = beam_class_to_character_ok [OF assms(3) new(1) assms(4)]
    have "\<exists>ch. k = (be_text s @ [ch], i) \<and> (ch = class_char (bs_ctc c) i \<or> confusable c (class_char (bs_ctc c) i) ch)"
    proof -
      let ?np = "fadd binary64 (be_log_probability s) (lps ! i)" and ?e = "class_char (bs_ctc c) i"
      have "items = append_if_valid g s i ?np ?e (Fin 0) @ concat (map (\<lambda>pair. let alt = alternative ?e pair in
          if alt \<noteq> CHR 0x00 \<and> charset_contains (bs_ctc c) alt then append_if_valid g s i ?np alt penalty else []) (bs_confusion_pairs c))"
        using assms(1) new ch by (simp add: extend_class_def Let_def)
      with assms(5) consider "(k, p) \<in> set (append_if_valid g s i ?np ?e (Fin 0))"
        | pair where "pair \<in> set (bs_confusion_pairs c)" "confusable c ?e (alternative ?e pair)"
          "(k, p) \<in> set (append_if_valid g s i ?np (alternative ?e pair) penalty)"
        unfolding confusable_def Let_def by (fastforce split: if_split_asm)
      then show ?thesis by cases (auto dest: append_if_valid_member)
    qed
    with reading_new [OF assms(2,3) new] show ?thesis by blast
  qed
qed

lemma res_map_list_member: "res_map_list f xs = Inr ys \<Longrightarrow> y \<in> set ys \<Longrightarrow> \<exists>x \<in> set xs. f x = Inr y"
  by (induction xs arbitrary: ys) (auto simp: res_bind_eq_Inr)

lemma merge_keys: "fst ` set (fold (merge_state lm) xs m) = fst ` set xs \<union> fst ` set m"
proof (induction xs arbitrary: m)
  case (Cons x xs)
  then show ?case by (cases x) (auto simp: merge_state_def fst_set_omap_alter)
qed simp

lemma merge_invar: "omap_invar m \<Longrightarrow> omap_invar (fold (merge_state lm) xs m)"
proof (induction xs arbitrary: m)
  case (Cons x xs)
  then show ?case by (cases x) (simp add: merge_state_def omap_invar_alter)
qed simp

lemma beam_of_keys: "s \<in> set (beam_of width merged) \<Longrightarrow> state_key s \<in> fst ` set merged"
  unfolding beam_of_def by (drule in_set_takeD) force

lemma select_classes_less: "i \<in> set (select_classes lps n blank) \<Longrightarrow> i < length lps \<or> i = blank"
  by (auto simp: select_classes_def Let_def dest: in_set_takeD split: if_split_asm)

lemma log_softmax_length: "log_softmax lm row = Inr lps \<Longrightarrow> length lps = length row"
  by (auto simp: log_softmax_def res_bind_eq_Inr Let_def split: if_split_asm)

lemma beam_timestep_readings:
  assumes "beam_timestep lm c g classes row beam = Inr beam'" and "\<forall>s \<in> set beam. reading_of c n (state_key s)"
    and "length row = class_count (bs_ctc c)" and "gc_blank_index (bs_ctc c) < class_count (bs_ctc c)"
  shows "\<forall>s \<in> set beam'. reading_of c (n + 1) (state_key s)"
proof
  fix s assume s: "s \<in> set beam'"
  from assms(1) obtain lps exts where lps: "log_softmax lm row = Inr lps" and
    exts: "res_map_list (\<lambda>state. res_map_list (extend_class c g (lm_log lm (fcast binary64 (bs_confusion_weight c))) lps state)
      (select_classes lps (min (bs_classes_per_step c) classes) (gc_blank_index (bs_ctc c)))) beam = Inr exts" and
    b: "beam' = beam_of (bs_beam_width c) (fold (merge_state lm) (concat (concat exts)) [])"
    by (auto simp: beam_timestep_def res_bind_eq_Inr Let_def)
  from beam_of_keys [OF s [unfolded b]] have "state_key s \<in> fst ` set (concat (concat exts))" by (simp add: merge_keys)
  then obtain p items ext where i: "(state_key s, p) \<in> set items" "items \<in> set ext" "ext \<in> set exts" by auto
  from res_map_list_member [OF exts i(3)] obtain state where
    st: "state \<in> set beam" "res_map_list (extend_class c g (lm_log lm (fcast binary64 (bs_confusion_weight c))) lps state)
      (select_classes lps (min (bs_classes_per_step c) classes) (gc_blank_index (bs_ctc c))) = Inr ext" by blast
  from res_map_list_member [OF st(2) i(2)] obtain k where
    k: "k \<in> set (select_classes lps (min (bs_classes_per_step c) classes) (gc_blank_index (bs_ctc c)))"
      "extend_class c g (lm_log lm (fcast binary64 (bs_confusion_weight c))) lps state k = Inr items" by blast
  have "k < class_count (bs_ctc c)" using select_classes_less [OF k(1)] log_softmax_length [OF lps] assms(3,4) by auto
  from extend_class_readings [OF k(2) _ this assms(4) i(1)] st(1) assms(2) show "reading_of c (n + 1) (state_key s)" by blast
qed

lemma beam_loop_readings:
  assumes "beam_loop lm c g classes rows beam = Inr beam'" and "\<forall>s \<in> set beam. reading_of c n (state_key s)"
    and "\<forall>row \<in> set rows. length row = class_count (bs_ctc c)" and "gc_blank_index (bs_ctc c) < class_count (bs_ctc c)"
  shows "\<forall>s \<in> set beam'. reading_of c (n + length rows) (state_key s)"
  using assms
proof (induction rows arbitrary: n beam)
  case (Cons row rows)
  from Cons.prems(1) obtain nxt where nxt: "beam_timestep lm c g classes row beam = Inr nxt" and
    rest: "(if nxt = [] then Inr [] else beam_loop lm c g classes rows nxt) = Inr beam'"
    by (auto simp: res_bind_eq_Inr)
  from beam_timestep_readings [OF nxt Cons.prems(2) _ Cons.prems(4)] Cons.prems(3)
  have "\<forall>s \<in> set nxt. reading_of c (n + 1) (state_key s)" by simp
  with Cons.IH [of nxt "n + 1"] rest Cons.prems(3,4) show ?case by (cases "nxt = []") auto
qed simp

lemma reads_Nil: "reading_of c 0 ([], gc_blank_index (bs_ctc c))"
  by (simp add: reading_of_def reads_def)

section \<open>Totality and order\<close>

text \<open>What is used of \<open>exp\<close>: the facts of the greedy decoder, and that only a NaN gives a NaN.\<close>

definition libm_ok :: "libm \<Rightarrow> bool" where
  "libm_ok lm \<longleftrightarrow> exp_ok (lm_exp lm) \<and> (\<forall>a. a \<noteq> NaN \<longrightarrow> lm_exp lm a \<noteq> NaN)"

lemma row_maximum_spec:
  "row_ok vs \<Longrightarrow> m0 \<noteq> NaN \<Longrightarrow> \<exists>m. row_maximum vs m0 = Inr m \<and> (m = m0 \<or> m \<in> set vs) \<and> fle m0 m \<and> (\<forall>v \<in> set vs. fle v m)"
proof (induction vs arbitrary: m0)
  case (Cons v vs)
  then have v: "is_finite v" "v \<noteq> NaN" and vs: "row_ok vs" by (auto simp: row_ok_def)
  have "fmax m0 v \<noteq> NaN" using Cons.prems(2) v(2) by (simp add: fmax_def)
  from Cons.IH [OF vs this] obtain m where m: "row_maximum vs (fmax m0 v) = Inr m" "m = fmax m0 v \<or> m \<in> set vs"
    "fle (fmax m0 v) m" "\<forall>v \<in> set vs. fle v m" by blast
  have "fle m0 m" "fle v m" using fle_trans [OF Float_Arith.fmax_ge(1) m(3)] fle_trans [OF Float_Arith.fmax_ge(2) m(3)] Cons.prems(2) v(2) by blast+
  with m v fmax_in [of m0 v] show ?case by auto
qed simp

lemma row_maximum_best:
  assumes "row_ok row" and "row \<noteq> []"
  shows "row_maximum row NInf = Inr (row ! best_class row)"
proof -
  note best = argmax_best_class [OF assms]
  from row_maximum_spec [OF assms(1), of NInf] obtain m where
    m: "row_maximum row NInf = Inr m" "m = NInf \<or> m \<in> set row" "\<forall>v \<in> set row. fle v m" by auto
  have b: "row ! best_class row \<in> set row" using best(2) by simp
  then have bm: "fle (row ! best_class row) m" and fb: "is_finite (row ! best_class row)" using m(3) assms(1) by (auto simp: row_ok_def)
  then have "m \<in> set row" using m(2) by (auto simp: is_finite_iff)
  then have "fle m (row ! best_class row)" using best(3) by blast
  with bm have "m = row ! best_class row" by (auto simp: fle_def feq_def dest: flt_asym)
  with m(1) show ?thesis by simp
qed

lemma log_softmax_ok:
  assumes "libm_ok lm" and "row_ok row" and "floats row" and "row \<noteq> []" and "length row \<le> 256"
  shows "\<exists>lps. log_softmax lm row = Inr lps"
proof -
  from softmax_denominator_ok [of "lm_exp lm", OF _ assms(2-5)] assms(1) obtain d where
    "1 \<le> d" "softmax_denominator (lm_exp lm) row (row ! best_class row) = Fin d" by (auto simp: libm_ok_def)
  with row_maximum_best [OF assms(2,4)] assms(4) show ?thesis by (simp add: log_softmax_def Let_def)
qed

lemma res_map_list_total: "\<forall>x \<in> set xs. \<exists>y. f x = Inr y \<Longrightarrow> \<exists>ys. res_map_list f xs = Inr ys"
proof (induction xs)
  case (Cons x xs)
  then obtain y ys where "f x = Inr y" "res_map_list f xs = Inr ys" by auto
  then show ?case by simp
qed simp

lemma extend_class_total:
  assumes "i < class_count (bs_ctc c)" and "gc_blank_index (bs_ctc c) < class_count (bs_ctc c)"
  shows "\<exists>items. extend_class c g penalty lps s i = Inr items"
  using beam_class_to_character_ok [OF assms(1) _ assms(2)] by (simp add: extend_class_def Let_def)

lemma beam_loop_total:
  assumes "libm_ok lm" and "ctc_config_ok (bs_ctc c)"
    and "\<forall>row \<in> set rows. row_ok row \<and> floats row \<and> length row = class_count (bs_ctc c)"
  shows "\<exists>beam'. beam_loop lm c g classes rows beam = Inr beam'"
  using assms(3)
proof (induction rows arbitrary: beam)
  case (Cons row rows)
  have blank: "gc_blank_index (bs_ctc c) < class_count (bs_ctc c)" and l: "class_count (bs_ctc c) \<le> 256"
    using assms(2) by (simp_all add: ctc_config_ok_def)
  have "row \<noteq> []" using Cons.prems by (auto simp: class_count_def)
  with log_softmax_ok [OF assms(1), of row] Cons.prems l obtain lps where lps: "log_softmax lm row = Inr lps" by auto
  let ?sel = "select_classes lps (min (bs_classes_per_step c) classes) (gc_blank_index (bs_ctc c))"
  let ?pen = "lm_log lm (fcast binary64 (bs_confusion_weight c))"
  have "i < class_count (bs_ctc c)" if "i \<in> set ?sel" for i
    using select_classes_less [OF that] log_softmax_length [OF lps] Cons.prems blank by auto
  then have "\<forall>i \<in> set ?sel. \<exists>items. extend_class c g ?pen lps s i = Inr items" for s
    using extend_class_total blank by blast
  then have "\<exists>ys. res_map_list (extend_class c g ?pen lps s) ?sel = Inr ys" for s by (rule res_map_list_total)
  then have "\<exists>exts. res_map_list (\<lambda>s. res_map_list (extend_class c g ?pen lps s) ?sel) beam = Inr exts"
    by (intro res_map_list_total) blast
  then obtain nxt where nxt: "beam_timestep lm c g classes row beam = Inr nxt" using lps by (auto simp: beam_timestep_def Let_def)
  from Cons.IH [of nxt] Cons.prems nxt show ?case by simp
qed simp

lemma confidence_prob:
  assumes "libm_ok lm"
  shows "is_prob (confidence_from_log_probability lm p timesteps)"
proof (cases "is_finite p \<and> timesteps \<noteq> 0")
  case True
  then obtain x where x: "p = Fin x" by (auto simp: is_finite_iff)
  have "fle (Fin 1) (float_of_nat binary64 timesteps)"
    using True b64.round_fl_mono [of 1 "of_nat timesteps"] by (simp add: float_of_nat_def)
  then have "fdiv binary64 p (float_of_nat binary64 timesteps) \<noteq> NaN"
    by (cases "float_of_nat binary64 timesteps") (auto simp: x)
  then have "is_prob (fclamp (lm_exp lm (fdiv binary64 p (float_of_nat binary64 timesteps))) (Fin 0) (Fin 1))"
    using prob_clamp01 assms by (simp add: libm_ok_def clamp01_def)
  then have "is_prob (fcast binary32 (fclamp (lm_exp lm (fdiv binary64 p (float_of_nat binary64 timesteps))) (Fin 0) (Fin 1)))"
    by (elim is_probE) (simp add: fcast_def b32.prob_round del: is_prob_Fin)
  then show ?thesis using True by (simp add: confidence_from_log_probability_def)
qed (auto simp: confidence_from_log_probability_def)

section \<open>The ranked candidates\<close>

lemma plates_of_beam_keys: "fst ` set (plates_of_beam lm g beam) = be_text ` {s \<in> set beam. is_valid_normalized g (be_text s)}"
  by (auto simp: plates_of_beam_def merge_keys image_image)

lemma ranked_member:
  "d \<in> set (ranked_candidates lm timesteps limit scores) \<Longrightarrow> cand_text d \<in> fst ` set scores \<and> cand_format_valid d \<and>
   cand_calibrated d = cand_confidence d \<and> (\<exists>p. cand_confidence d = confidence_from_log_probability lm p timesteps)"
  unfolding ranked_candidates_def Let_def by (drule in_set_takeD) force

lemma ranked_sorted:
  assumes "libm_ok lm"
  shows "sorted_wrt (\<lambda>a b. fle (cand_confidence b) (cand_confidence a)) (ranked_candidates lm timesteps limit scores)"
  unfolding ranked_candidates_def Let_def
  by (intro sorted_wrt_take stable_sort_scores_sorted) (auto simp: confidence_prob [OF assms])

lemma ranked_distinct:
  assumes "omap_invar scores"
  shows "distinct (map cand_text (ranked_candidates lm timesteps limit scores))"
proof -
  have "map cand_text (map (\<lambda>(t, p). let confidence = confidence_from_log_probability lm p timesteps
       in \<lparr>cand_text = t, cand_confidence = confidence, cand_calibrated = confidence, cand_format_valid = True\<rparr>) scores) = map fst scores"
    by (auto simp: Let_def)
  then show ?thesis
    unfolding ranked_candidates_def take_map [symmetric]
    by (intro distinct_take) (simp only: distinct_map_stable_sort omap_distinct [OF assms])
qed

lemma ranked_length: "length (ranked_candidates lm timesteps limit scores) \<le> limit"
  by (simp add: ranked_candidates_def)

lemma plates_of_beam_invar: "omap_invar (plates_of_beam lm g beam)"
  unfolding plates_of_beam_def by (rule merge_invar) (simp add: omap_invar_def)

lemma make_beam_search_ok:
  assumes "make_beam_search config = Inr c"
  shows "c = config" and "ctc_config_ok (bs_ctc c)" and "0 < bs_result_limit c" and "bs_result_limit c \<le> bs_beam_width c"
proof -
  from assms obtain d where d: "make_ctc_decoder (bs_ctc config) = Inr d"
    by (auto simp: make_beam_search_def res_bind_eq_Inr)
  from assms show c: "c = config" by (auto simp: make_beam_search_def res_bind_eq_Inr)
  show "ctc_config_ok (bs_ctc c)" using make_ctc_decoder_ok [OF d] c by simp
  show "0 < bs_result_limit c" "bs_result_limit c \<le> bs_beam_width c"
    using assms c by (auto simp: make_beam_search_def res_bind_eq_Inr check_all_eq_Inr throw_if_eq)
qed

lemma beam_decode_parts:
  assumes "beam_decode lm c g logits timesteps classes = Inr r"
  shows "\<exists>greedy beam. ctc_decode (lm_exp lm) (bs_ctc c) logits timesteps classes = Inr greedy \<and>
    logits_shape (bs_ctc c) logits timesteps classes \<and>
    beam_loop lm c g classes (map (logit_row logits classes) [0..<timesteps])
      [\<lparr>be_text = [], be_last_class = gc_blank_index (bs_ctc c), be_log_probability = Fin 0\<rparr>] = Inr beam \<and>
    r = beam_result lm c g timesteps greedy beam"
  using assms ctc_decode_shape by (auto simp: beam_decode_def res_bind_eq_Inr split: if_split_asm)

text \<open>
  C21: the search invents nothing: unless it falls back to the greedy text, every candidate it returns is a
  valid plate, and a reading of some path of one class per timestep, each character the one of its class or one that a
  configured confusion pair puts in its place.
\<close>

theorem beam_candidates_are_readings:
  assumes "make_beam_search config = Inr c" and "beam_decode lm c g logits timesteps classes = Inr r"
    and "\<not> br_fallback_used r" and "d \<in> set (br_candidates r)"
  shows "is_valid_normalized g (cand_text d) \<and> cand_format_valid d \<and>
    (\<exists>path. length path = timesteps \<and> (\<forall>i \<in> set path. i < classes) \<and> reads c path (cand_text d))"
proof -
  note cfg = make_beam_search_ok [OF assms(1)]
  have blank: "gc_blank_index (bs_ctc c) < class_count (bs_ctc c)" using cfg(2) by (simp add: ctc_config_ok_def)
  from beam_decode_parts [OF assms(2)] obtain greedy beam where
    shape: "logits_shape (bs_ctc c) logits timesteps classes" and
    loop: "beam_loop lm c g classes (map (logit_row logits classes) [0..<timesteps])
      [\<lparr>be_text = [], be_last_class = gc_blank_index (bs_ctc c), be_log_probability = Fin 0\<rparr>] = Inr beam" and
    r: "r = beam_result lm c g timesteps greedy beam" by blast
  have cls: "classes = class_count (bs_ctc c)" using shape by (simp add: logits_shape_def)
  have rows: "\<forall>row \<in> set (map (logit_row logits classes) [0..<timesteps]). length row = class_count (bs_ctc c)"
    using shape logit_row_length [of _ timesteps logits classes] by (auto simp: logits_shape_def)
  from beam_loop_readings [OF loop _ rows blank, of 0] reads_Nil
  have readings: "\<forall>s \<in> set beam. reading_of c timesteps (state_key s)" by simp
  from assms(3,4) have d: "d \<in> set (ranked_candidates lm timesteps (bs_result_limit c) (plates_of_beam lm g beam))"
    by (auto simp: r beam_result_def Let_def split: if_split_asm)
  from ranked_member [OF d] obtain s where s: "s \<in> set beam" "is_valid_normalized g (be_text s)" "cand_text d = be_text s"
    by (auto simp: plates_of_beam_keys)
  with readings ranked_member [OF d] show ?thesis by (fastforce simp: reading_of_def cls)
qed

lemma beam_decode_total:
  assumes "libm_ok lm" and "make_beam_search config = Inr c"
    and shape: "logits_shape (bs_ctc c) logits timesteps classes" and ok: "row_ok logits" and "floats logits" and "timesteps < size_t_max"
  shows "\<exists>r. beam_decode lm c g logits timesteps classes = Inr r"
proof -
  note cfg = make_beam_search_ok [OF assms(2)]
  have e: "exp_ok (lm_exp lm)" using assms(1) by (simp add: libm_ok_def)
  from ctc_decode_ok [OF e cfg(2) shape ok assms(5,6)] obtain greedy where
    g: "ctc_decode (lm_exp lm) (bs_ctc c) logits timesteps classes = Inr greedy" by blast
  from beam_loop_total [OF assms(1) cfg(2) ctc_rows_ok [OF shape ok assms(5)]] obtain beam where
    "beam_loop lm c g classes (map (logit_row logits classes) [0..<timesteps])
      [\<lparr>be_text = [], be_last_class = gc_blank_index (bs_ctc c), be_log_probability = Fin 0\<rparr>] = Inr beam" by blast
  with g shape cfg(2) show ?thesis
    by (auto simp: beam_decode_def logits_shape_def ctc_config_ok_def class_count_def not_less)
qed

text \<open>What the greedy decoder contributes is a probability, so the fallback candidate is one.\<close>

lemma beam_decode_greedy:
  assumes "libm_ok lm" and "make_beam_search config = Inr c" and "beam_decode lm c g logits timesteps classes = Inr r"
    and "floats logits" and "timesteps < size_t_max"
  obtains greedy beam where "r = beam_result lm c g timesteps greedy beam" and "is_prob (cd_confidence greedy)"
proof -
  note cfg = make_beam_search_ok [OF assms(2)]
  have e: "exp_ok (lm_exp lm)" using assms(1) by (simp add: libm_ok_def)
  from beam_decode_parts [OF assms(3)] obtain greedy beam where
    g: "ctc_decode (lm_exp lm) (bs_ctc c) logits timesteps classes = Inr greedy" and shape: "logits_shape (bs_ctc c) logits timesteps classes"
    and r: "r = beam_result lm c g timesteps greedy beam" by blast
  have "row_ok logits" using shape g ctc_decode_error [of "bs_ctc c" logits timesteps classes "lm_exp lm"] by fastforce
  with ctc_decode_ok [OF e cfg(2) shape _ assms(4,5)] g have "is_prob (cd_confidence greedy)" by fastforce
  with r that show ?thesis by blast
qed

lemma beam_candidates_of:
  "br_candidates (beam_result lm c g timesteps greedy beam) =
    (let found = ranked_candidates lm timesteps (bs_result_limit c) (plates_of_beam lm g beam)
     in if found = [] \<and> cd_text greedy \<noteq> [] then [fallback_candidate g greedy] else found)"
  by (simp add: beam_result_def Let_def)

text \<open>Every candidate is usable evidence: a text, two equal probabilities, and a valid plate where it says so.\<close>

definition usable_candidate :: "TurkishPlateGrammar \<Rightarrow> PlateCandidate \<Rightarrow> bool" where
  "usable_candidate g d \<longleftrightarrow> cand_text d \<noteq> [] \<and> is_prob (cand_confidence d) \<and> cand_calibrated d = cand_confidence d \<and>
     (cand_format_valid d \<longrightarrow> is_valid_normalized g (cand_text d))"

lemma beam_candidates_usable:
  assumes "libm_ok lm" and "make_beam_search config = Inr c" and "beam_decode lm c g logits timesteps classes = Inr r"
    and "floats logits" and "timesteps < size_t_max" and "d \<in> set (br_candidates r)"
  shows "usable_candidate g d"
proof -
  obtain greedy beam where r: "r = beam_result lm c g timesteps greedy beam" and gp: "is_prob (cd_confidence greedy)"
    by (rule beam_decode_greedy [OF assms(1-5)])
  have ne: "\<not> is_valid_normalized g []" by (simp add: is_valid_normalized_def)
  show ?thesis
  proof (cases "d \<in> set (ranked_candidates lm timesteps (bs_result_limit c) (plates_of_beam lm g beam))")
    case True
    from ranked_member [OF True] ne confidence_prob [OF assms(1)] show ?thesis
      by (auto simp: usable_candidate_def plates_of_beam_keys)
  next
    case False
    with assms(6) have "d = fallback_candidate g greedy \<and> cd_text greedy \<noteq> []" by (auto simp: r beam_candidates_of Let_def split: if_split_asm)
    with gp show ?thesis by (auto simp: usable_candidate_def fallback_candidate_def Let_def)
  qed
qed

text \<open>An empty answer has an empty greedy text.\<close>

lemma beam_no_candidates:
  "br_candidates (beam_result lm c g timesteps greedy beam) = [] \<Longrightarrow> cd_text (br_greedy (beam_result lm c g timesteps greedy beam)) = []"
  by (auto simp: beam_result_def Let_def split: if_split_asm)

lemma beam_result_ranked:
  assumes "libm_ok lm" and "make_beam_search config = Inr c" and "beam_decode lm c g logits timesteps classes = Inr r"
    and "floats logits" and "timesteps < size_t_max"
  shows "length (br_candidates r) \<le> bs_result_limit c \<and> distinct (map cand_text (br_candidates r)) \<and>
      sorted_wrt (\<lambda>a b. fle (cand_confidence b) (cand_confidence a)) (br_candidates r) \<and>
      (\<forall>d \<in> set (br_candidates r). is_prob (cand_confidence d)) \<and> is_prob (br_top_margin r)"
proof -
  note cfg = make_beam_search_ok [OF assms(2)]
  obtain greedy beam where r: "r = beam_result lm c g timesteps greedy beam"
    by (rule beam_decode_greedy [OF assms])
  have p: "\<forall>d \<in> set (br_candidates r). is_prob (cand_confidence d)"
    using beam_candidates_usable [OF assms] by (auto simp: usable_candidate_def)
  have "is_prob (top_margin_of cs)" if "\<forall>d \<in> set cs. is_prob (cand_confidence d)" for cs
  proof -
    have "sub32 a b \<noteq> NaN" if "is_prob a" "is_prob b" for a b using that by (elim is_probE) (simp add: fsub_def)
    then show ?thesis using that prob_clamp01 by (auto simp: top_margin_of_def clamp01_def split: list.split)
  qed
  with p have "is_prob (br_top_margin r)" by (simp add: r beam_result_def Let_def)
  then show ?thesis
    using p cfg(3) ranked_length [of lm timesteps "bs_result_limit c" "plates_of_beam lm g beam"]
      ranked_distinct [OF plates_of_beam_invar] ranked_sorted [OF assms(1)] by (auto simp: r beam_candidates_of Let_def)
qed

lemma beam_decode_iff:
  assumes "libm_ok lm" and "make_beam_search config = Inr c" and "floats logits" and "timesteps < size_t_max"
  shows "(\<exists>r. beam_decode lm c g logits timesteps classes = Inr r) \<longleftrightarrow>
    logits_shape (bs_ctc c) logits timesteps classes \<and> row_ok logits"
proof -
  have "logits_shape (bs_ctc c) logits timesteps classes \<and> row_ok logits" if "beam_decode lm c g logits timesteps classes = Inr r" for r
    using beam_decode_parts [OF that] ctc_decode_error [of "bs_ctc c" logits timesteps classes "lm_exp lm"] by fastforce
  with beam_decode_total [OF assms(1,2) _ _ assms(3,4), of classes g] show ?thesis by blast
qed

text \<open>
  C22: the search is total and its result is ranked: with the documented behaviour of the exponential it returns
  exactly when the logits have the configured shape and are finite; the candidates are at most the configured number, of
  distinct texts, best confidence first, and every confidence and the margin are probabilities.
\<close>

theorem beam_decode_total_and_ranked:
  assumes "libm_ok lm" and "make_beam_search config = Inr c" and "floats logits" and "timesteps < size_t_max"
  shows "((\<exists>r. beam_decode lm c g logits timesteps classes = Inr r) \<longleftrightarrow>
      logits_shape (bs_ctc c) logits timesteps classes \<and> row_ok logits) \<and>
    (\<forall>r. beam_decode lm c g logits timesteps classes = Inr r \<longrightarrow>
      length (br_candidates r) \<le> bs_result_limit c \<and> distinct (map cand_text (br_candidates r)) \<and>
      sorted_wrt (\<lambda>a b. fle (cand_confidence b) (cand_confidence a)) (br_candidates r) \<and>
      (\<forall>d \<in> set (br_candidates r). is_prob (cand_confidence d)) \<and> is_prob (br_top_margin r))"
  using beam_decode_iff [OF assms, of g classes] beam_result_ranked [OF assms(1,2) _ assms(3,4)] by blast

definition demo_libm :: libm where
  "demo_libm = \<lparr>lm_exp = step_exp, lm_log = (\<lambda>_. Fin 0), lm_log1p = (\<lambda>_. Fin 0)\<rparr>"

lemma demo_libm_ok: "libm_ok demo_libm"
  by (auto simp: libm_ok_def demo_libm_def step_exp_ok step_exp_def split: fl.split)

definition demo_ctc :: GreedyCtcDecoderConfig where
  "demo_ctc = \<lparr>gc_charset = ''01A'', gc_blank_index = 3, gc_maximum_timesteps = 8, gc_maximum_classes = 4\<rparr>"

definition demo_beam_config :: ConstrainedCtcBeamSearchConfig where
  "demo_beam_config = \<lparr>bs_ctc = demo_ctc, bs_beam_width = 1, bs_result_limit = 1, bs_classes_per_step = 1,
     bs_confusion_weight = Fin (1/2), bs_confusion_pairs = []\<rparr>"

text \<open>One class clearly ahead in each of seven timesteps, spelling a plate.\<close>

definition demo_logits :: "fl list" where
  "demo_logits = concat (map (\<lambda>k. map (\<lambda>i. if i = k then Fin 1 else Fin 0) [0, 1, 2, 3]) [0, 1, 2, 0, 1, 0, 1::nat])"

lemma demo_beam_made: "make_beam_search demo_beam_config = Inr demo_beam_config"
  by (simp add: make_beam_search_def make_ctc_decoder_def demo_beam_config_def demo_ctc_def class_count_def check_all.simps size_t_max_def)

definition demo_grammar :: TurkishPlateGrammar where
  "demo_grammar = \<lparr>grammar_config = default_grammar_config, letter_table = (replicate 128 False)[65 := True]\<rparr>"

lemma demo_shape: "floats demo_logits" "logits_shape (bs_ctc demo_beam_config) demo_logits 7 4" "row_ok demo_logits" "7 < size_t_max"
  by (simp_all add: floats_def logits_shape_def demo_beam_config_def demo_ctc_def demo_logits_def class_count_def size_t_max_def row_ok_def)

lemma demo_rounding:
  "round_fl binary64 0 = Fin 0" "round_fl binary64 1 = Fin 1" "round_fl binary64 (- 1) = Fin (- 1)"
  using b64.round_fl_prob [of 1] b64.round_1 round_fl64_finite [of "- 1"] pow2_mono [of 0 130] by simp_all

definition one_hot :: "nat \<Rightarrow> fl list" where
  "one_hot k = map (\<lambda>i. if i = k then Fin 1 else Fin 0) [0, 1, 2, 3]"

lemma demo_softmax:
  "k < 3 \<Longrightarrow> log_softmax demo_libm (one_hot k) = Inr (map (\<lambda>i. if i = k then Fin 0 else Fin (- 1)) [0, 1, 2, 3])"
  by (auto simp: less_Suc_eq numeral_eq_Suc log_softmax_def one_hot_def softmax_denominator_def fcast_def fsub_def demo_libm_def
      step_exp_def demo_rounding fmax_def)

lemma demo_select:
  "k < 3 \<Longrightarrow> select_classes (map (\<lambda>i. if i = k then Fin 0 else Fin (- 1)) [0, 1, 2, 3]) 1 3 = [k, 3]"
  by (auto simp: less_Suc_eq numeral_eq_Suc select_classes_def before_by_def)

lemma demo_step:
  assumes "k < 3" and "l \<noteq> k" and "is_valid_prefix g (p @ [''01A'' ! k])"
  shows "beam_timestep demo_libm demo_beam_config g 4 (one_hot k) [\<lparr>be_text = p, be_last_class = l, be_log_probability = Fin 0\<rparr>] =
    Inr [\<lparr>be_text = p @ [''01A'' ! k], be_last_class = k, be_log_probability = Fin 0\<rparr>]"
proof -
  have ch: "beam_class_to_character demo_ctc k = Inr (''01A'' ! k)" "k \<noteq> 3"
    using assms(1) by (auto simp: beam_class_to_character_def demo_ctc_def)
  have lp: "map (\<lambda>i. if i = k then Fin 0 else Fin (- 1)) [0, 1, 2, 3] ! k = Fin 0"
    using assms(1) by (auto simp: less_Suc_eq numeral_eq_Suc)
  have "p < p @ [c]" for c :: char by (induction p) (auto simp: list_less_def lexord_def)
  then have less: "(p, 3::nat) < (p @ [''01A'' ! k], k)" by (simp add: less_prod_def)
  have "extend_class demo_beam_config g (Fin 0) (map (\<lambda>i. if i = k then Fin 0 else Fin (- 1)) [0, 1, 2, 3])
      \<lparr>be_text = p, be_last_class = l, be_log_probability = Fin 0\<rparr> k = Inr [((p @ [''01A'' ! k], k), Fin 0)]"
    using assms(2,3) ch unfolding extend_class_def Let_def lp
    by (simp add: demo_beam_config_def demo_ctc_def append_if_valid_def demo_rounding)
  moreover have "extend_class demo_beam_config g (Fin 0) (map (\<lambda>i. if i = k then Fin 0 else Fin (- 1)) [0, 1, 2, 3])
      \<lparr>be_text = p, be_last_class = l, be_log_probability = Fin 0\<rparr> 3 = Inr [((p, 3), Fin (- 1))]"
    using assms(1) by (simp add: extend_class_def Let_def demo_beam_config_def demo_ctc_def demo_rounding numeral_eq_Suc)
  moreover have "fold (merge_state demo_libm) [((p @ [''01A'' ! k], k), Fin 0), ((p, 3), Fin (- 1))] [] =
      [((p, 3), Fin (- 1)), ((p @ [''01A'' ! k], k), Fin 0)]"
    using less by (simp add: merge_state_def)
  moreover have "beam_of 1 [((p, 3), Fin (- 1)), ((p @ [''01A'' ! k], k), Fin 0)] =
      [\<lparr>be_text = p @ [''01A'' ! k], be_last_class = k, be_log_probability = Fin 0\<rparr>]"
    by (simp add: beam_of_def before_by_def)
  moreover have "bs_beam_width demo_beam_config = 1" "min (bs_classes_per_step demo_beam_config) 4 = 1"
    "gc_blank_index (bs_ctc demo_beam_config) = 3" "lm_log demo_libm x = Fin 0" for x
    by (simp_all add: demo_beam_config_def demo_ctc_def demo_libm_def)
  ultimately show ?thesis
    unfolding beam_timestep_def demo_softmax [OF assms(1)] res_bind_simps Let_def demo_select [OF assms(1)]
    by (simp only: demo_select [OF assms(1)] res_map_list.simps res_bind_simps concat.simps append.simps)
qed

lemma demo_loop_steps:
  assumes "\<forall>i < length ks. ks ! i < 3 \<and> ks ! i \<noteq> (l # ks) ! i \<and> is_valid_prefix g (p @ map (\<lambda>k. ''01A'' ! k) (take (i + 1) ks))"
  shows "beam_loop demo_libm demo_beam_config g 4 (map one_hot ks) [\<lparr>be_text = p, be_last_class = l, be_log_probability = Fin 0\<rparr>] =
    Inr [\<lparr>be_text = p @ map (\<lambda>k. ''01A'' ! k) ks, be_last_class = last (l # ks), be_log_probability = Fin 0\<rparr>]"
  using assms
proof (induction ks arbitrary: p l)
  case (Cons k ks)
  from Cons.prems [rule_format, of 0] have k: "k < 3" "l \<noteq> k" "is_valid_prefix g (p @ [''01A'' ! k])" by simp_all
  have "\<forall>i < length ks. ks ! i < 3 \<and> ks ! i \<noteq> (k # ks) ! i \<and>
      is_valid_prefix g ((p @ [''01A'' ! k]) @ map (\<lambda>k. ''01A'' ! k) (take (i + 1) ks))"
  proof (intro allI impI)
    fix i assume "i < length ks"
    with Cons.prems [rule_format, of "Suc i"] show "ks ! i < 3 \<and> ks ! i \<noteq> (k # ks) ! i \<and>
      is_valid_prefix g ((p @ [''01A'' ! k]) @ map (\<lambda>k. ''01A'' ! k) (take (i + 1) ks))" by simp
  qed
  from Cons.IH [OF this] demo_step [OF k] show ?case by simp
qed simp

lemma demo_loop:
  "beam_loop demo_libm demo_beam_config demo_grammar 4 (map (logit_row demo_logits 4) [0..<7])
     [\<lparr>be_text = [], be_last_class = gc_blank_index (bs_ctc demo_beam_config), be_log_probability = Fin 0\<rparr>] =
   Inr [\<lparr>be_text = ''01A0101'', be_last_class = 1, be_log_probability = Fin 0\<rparr>]"
proof -
  let ?ks = "[0, 1, 2, 0, 1, 0, 1::nat]"
  have "map (logit_row demo_logits 4) [0..<7] = map one_hot ?ks"
    by (simp add: logit_row_def demo_logits_def one_hot_def upt_rec numeral_eq_Suc)
  moreover have "\<forall>i \<in> set [0..<7]. is_valid_prefix demo_grammar (map (\<lambda>k. ''01A'' ! k) (take (i + 1) ?ks))" by code_simp
  then have "\<forall>i < 7. is_valid_prefix demo_grammar ([] @ map (\<lambda>k. ''01A'' ! k) (take (i + 1) ?ks))" by simp
  then have "\<forall>i < length ?ks. ?ks ! i < 3 \<and> ?ks ! i \<noteq> (3 # ?ks) ! i \<and> is_valid_prefix demo_grammar ([] @ map (\<lambda>k. ''01A'' ! k) (take (i + 1) ?ks))"
    by (auto simp: less_Suc_eq numeral_eq_Suc)
  note demo_loop_steps [OF this]
  ultimately show ?thesis by (simp add: demo_beam_config_def demo_ctc_def)
qed

lemma demo_beam_decodes:
  assumes "beam_decode demo_libm demo_beam_config demo_grammar demo_logits 7 4 = Inr r"
  shows "\<not> br_fallback_used r \<and> map cand_text (br_candidates r) = [''01A0101'']"
proof -
  let ?beam = "[\<lparr>be_text = ''01A0101'', be_last_class = 1, be_log_probability = Fin 0\<rparr>]"
  have p: "map cand_text (ranked_candidates demo_libm 7 (bs_result_limit demo_beam_config) (plates_of_beam demo_libm demo_grammar ?beam)) = [''01A0101'']"
    by code_simp
  from beam_decode_parts [OF assms] demo_loop obtain greedy where "r = beam_result demo_libm demo_beam_config demo_grammar 7 greedy ?beam" by auto
  with p show ?thesis by (auto simp: beam_result_def Let_def)
qed

theorem beam_candidates_are_readings_witness:
  "\<exists>path. length path = 7 \<and> reads demo_beam_config path ''01A0101''"
proof -
  from beam_decode_total [OF demo_libm_ok demo_beam_made demo_shape(2,3,1,4)] obtain r where
    r: "beam_decode demo_libm demo_beam_config demo_grammar demo_logits 7 4 = Inr r" by blast
  from demo_beam_decodes [OF r] obtain d where d: "d \<in> set (br_candidates r)" "\<not> br_fallback_used r" "cand_text d = ''01A0101''" by auto
  from beam_candidates_are_readings [OF demo_beam_made r d(2,1)] d(3) show ?thesis by auto
qed

theorem beam_decode_total_and_ranked_witness:
  "\<exists>r. beam_decode demo_libm demo_beam_config demo_grammar demo_logits 7 4 = Inr r \<and> is_prob (br_top_margin r)"
  using beam_decode_total_and_ranked [OF demo_libm_ok demo_beam_made demo_shape(1,4)] demo_shape(2,3) by blast

end
