(* ===== verification/Lprnet_Adapter.thy ===== *)
theory Lprnet_Adapter
  imports Lprnet_Input Onnx_Ocr Beam_Search
begin

text \<open>
  The adapter of the character recognizer (\<^verbatim>\<open>infrastructure/lprnet/lprnet_onnx_ocr_adapter.cpp\<close>): plates become one input tensor, the
  logits become evidence through the constrained beam search. Together with \<^verbatim>\<open>Onnx_Ocr\<close> it is the recognizer
  the ensemble calls.
\<close>

section \<open>Construction\<close>

datatype LprNetOutputLayout = batch_classes_timesteps | batch_timesteps_classes

record LprNetOnnxOcrAdapterConfig =
  lc_provider_name :: string
  lc_model_version :: string
  lc_input_name :: string
  lc_output_name :: string
  lc_input :: LprNetInputSpec
  lc_output_layout :: LprNetOutputLayout
  lc_decoder :: ConstrainedCtcBeamSearchConfig

definition default_lprnet_adapter_config :: LprNetOnnxOcrAdapterConfig where
  "default_lprnet_adapter_config = \<lparr>lc_provider_name = ''lprnet_onnx'', lc_model_version = ''unknown'', lc_input_name = [], lc_output_name = [],
     lc_input = default_lprnet_spec, lc_output_layout = batch_classes_timesteps, lc_decoder = default_beam_config\<rparr>"

record LprNetOnnxOcrAdapter =
  la_config :: LprNetOnnxOcrAdapterConfig
  la_preprocessor :: LprNetPreprocessor
  la_decoder :: ConstrainedCtcBeamSearchConfig

definition make_lprnet_adapter :: "LprNetOnnxOcrAdapterConfig \<Rightarrow> LprNetOnnxOcrAdapter result" where
  "make_lprnet_adapter c =
     res_bind (make_lprnet_preprocessor (lc_input c)) (\<lambda>pre.
     res_bind (make_beam_search (lc_decoder c)) (\<lambda>decoder.
     if lc_provider_name c = [] \<or> lc_model_version c = [] \<or> lc_input_name c = [] \<or> lc_output_name c = []
     then Inl (ConfigurationError ''LPRNet ONNX provider/version/input/output names are required'')
     else Inr \<lparr>la_config = c, la_preprocessor = pre, la_decoder = decoder\<rparr>))"

definition lprnet_metadata :: "LprNetOnnxOcrAdapter \<Rightarrow> OnnxOcrProviderMetadata" where
  "lprnet_metadata a = \<lparr>om_name = lc_provider_name (la_config a), om_version = lc_model_version (la_config a)\<rparr>"

definition lprnet_input_names :: "LprNetOnnxOcrAdapter \<Rightarrow> string list" where
  "lprnet_input_names a = [lc_input_name (la_config a)]"

definition lprnet_output_names :: "LprNetOnnxOcrAdapter \<Rightarrow> string list" where
  "lprnet_output_names a = [lc_output_name (la_config a)]"

definition lprnet_check_context :: "OperationContext \<Rightarrow> unit io" where
  "lprnet_check_context ctx = check_operation ctx ''LPRNet ONNX recognition cancelled'' ''LPRNet ONNX recognition deadline exceeded''"

section \<open>Inputs\<close>

definition lprnet_build_inputs :: "LprNetOnnxOcrAdapter \<Rightarrow> allocator \<Rightarrow> (nat \<Rightarrow> fl list) \<Rightarrow> ValidatedImage \<Rightarrow> OperationContext \<Rightarrow>
    NativeImageWorkspace \<Rightarrow> World \<Rightarrow> nat \<Rightarrow> (OrtValue list result \<times> NativeImageWorkspace) \<times> nat" where
  "lprnet_build_inputs a alloc buffer vi ctx ws w n =
     (case lprnet_check_context ctx w n of
        (Inl e, k) \<Rightarrow> ((Inl e, ws), k)
      | (Inr _, k) \<Rightarrow>
          (case lprnet_preprocess_workspace (la_preprocessor a) alloc buffer vi ws of
             Inl e \<Rightarrow> ((Inl e, ws), k)
           | Inr (t, ws') \<Rightarrow> ((Inr [float_tensor (lt_values t) (lt_shape t)], ws'), k)))"

section \<open>Logits\<close>

definition logit_dimensions :: "LprNetOutputLayout \<Rightarrow> 64 word list \<Rightarrow> 64 word \<times> 64 word" where
  "logit_dimensions layout shape =
     (if layout = batch_classes_timesteps then (shape ! 2, shape ! 1) else (shape ! 1, shape ! 2))"

text \<open>
  The copy into timestep-major order writes the elements \<open>timestep * classes + class_index\<close> of a new vector in increasing order.
\<close>

definition timestep_major :: "nat \<Rightarrow> nat \<Rightarrow> fl list \<Rightarrow> fl list" where
  "timestep_major timesteps classes data =
     concat (map (\<lambda>timestep. map (\<lambda>class_index. data ! (class_index * timesteps + timestep)) [0..<classes]) [0..<timesteps])"

definition checked_logits :: "LprNetOnnxOcrAdapterConfig \<Rightarrow> OrtValue list \<Rightarrow> (fl list \<times> nat \<times> nat) result" where
  "checked_logits c outputs =
     (if length outputs \<noteq> 1 \<or> \<not> ov_is_tensor (hd outputs)
      then Inl (InferenceError ''LPRNet ONNX adapter expects exactly one tensor output'')
      else let v = hd outputs; shape = ov_shape v in
        if \<not> ov_is_float32 v then Inl (InferenceError ''LPRNet ONNX logits must be float32'')
        else if length shape \<noteq> 3 \<or> shape ! 0 \<noteq> 1 \<or> sint (shape ! 1) \<le> 0 \<or> sint (shape ! 2) \<le> 0
        then Inl (InferenceError ''LPRNet ONNX output must have static [1,C,T] or [1,T,C] shape'')
        else let (timesteps, classes) = logit_dimensions (lc_output_layout c) shape; ctc = bs_ctc (lc_decoder c) in
          if unat classes \<noteq> length (gc_charset ctc) + 1
          then Inl (InferenceError ''LPRNet ONNX class count does not match configured charset/blank contract'')
          else if unat timesteps > gc_maximum_timesteps ctc \<or> unat classes > gc_maximum_classes ctc
          then Inl (InferenceError ''LPRNet ONNX logits exceed configured decoder bounds'')
          else if element_count v \<noteq> unat (timesteps * classes)
          then Inl (InferenceError ''LPRNet ONNX output element count does not match shape'')
          else case ov_data v of
              None \<Rightarrow> Inl (InferenceError ''LPRNet ONNX logits pointer is null'')
            | Some data \<Rightarrow>
                Inr (if lc_output_layout c = batch_classes_timesteps then timestep_major (unat timesteps) (unat classes) data else data,
                  unat timesteps, unat classes))"

definition evidence_of_decoded :: "LprNetOnnxOcrAdapterConfig \<Rightarrow> ConstrainedCtcBeamSearchResult \<Rightarrow> RecognitionEvidence" where
  "evidence_of_decoded c decoded =
     (let candidates = map (\<lambda>d. d\<lparr>cand_calibrated := cand_confidence d\<rparr>) (br_candidates decoded); greedy = br_greedy decoded
      in \<lparr>ev_source = lc_provider_name c,
          ev_candidates = (if candidates = [] \<and> cd_text greedy \<noteq> []
            then [\<lparr>cand_text = cd_text greedy, cand_confidence = cd_confidence greedy, cand_calibrated = cd_confidence greedy, cand_format_valid = False\<rparr>]
            else candidates),
          ev_crop_quality = Fin 0, ev_latency_ms = Fin 0\<rparr>)"

definition decode_logits :: "libm \<Rightarrow> TurkishPlateGrammar \<Rightarrow> LprNetOnnxOcrAdapter \<Rightarrow> OrtValue list \<Rightarrow> RecognitionEvidence result" where
  "decode_logits lm g a outputs =
     res_bind (checked_logits (la_config a) outputs) (\<lambda>(logits, timesteps, classes).
     res_bind (beam_decode lm (la_decoder a) g logits timesteps classes) (\<lambda>decoded.
     Inr (evidence_of_decoded (la_config a) decoded)))"

definition lprnet_decode :: "libm \<Rightarrow> TurkishPlateGrammar \<Rightarrow> LprNetOnnxOcrAdapter \<Rightarrow> OrtValue list \<Rightarrow> OperationContext \<Rightarrow> RecognitionEvidence io" where
  "lprnet_decode lm g a outputs ctx = io_bind (lprnet_check_context ctx) (\<lambda>_. io_lift (decode_logits lm g a outputs))"

text \<open>The adapter as the recognizer sees it.\<close>

definition lprnet_adapter :: "libm \<Rightarrow> TurkishPlateGrammar \<Rightarrow> allocator \<Rightarrow> (nat \<Rightarrow> fl list) \<Rightarrow> LprNetOnnxOcrAdapter \<Rightarrow> OnnxOcrModelAdapter" where
  "lprnet_adapter lm g alloc buffer a =
     \<lparr>oa_metadata = lprnet_metadata a, oa_input_names = lprnet_input_names a, oa_output_names = lprnet_output_names a,
      oa_build_inputs = lprnet_build_inputs a alloc buffer, oa_decode = lprnet_decode lm g a\<rparr>"

lemma lprnet_adapter_simps [simp]:
  "oa_metadata (lprnet_adapter lm g alloc buffer a) = lprnet_metadata a"
  "oa_input_names (lprnet_adapter lm g alloc buffer a) = lprnet_input_names a"
  "oa_output_names (lprnet_adapter lm g alloc buffer a) = lprnet_output_names a"
  "oa_build_inputs (lprnet_adapter lm g alloc buffer a) = lprnet_build_inputs a alloc buffer"
  "oa_decode (lprnet_adapter lm g alloc buffer a) = lprnet_decode lm g a"
  by (simp_all add: lprnet_adapter_def)

section \<open>The contract of the recognizer\<close>

lemma lprnet_build_workspace:
  assumes "lprnet_build_inputs a alloc buffer vi ctx ws w n = ((res, ws'), k)" and "workspace_ok ws"
  shows "workspace_ok ws'"
  using assms
  by (auto simp: lprnet_build_inputs_def lprnet_preprocess_workspace_def result_simps prepare_tensor_ok split: prod.splits sum.splits)

interpretation lprnet: ocr_adapter "lprnet_build_inputs a alloc buffer" "lprnet_input_names a" for a alloc buffer
proof unfold_locales
  show "workspace_ok ws'" if "lprnet_build_inputs a alloc buffer vi ctx ws w n = ((res, ws'), k)" "workspace_ok ws" for vi ctx ws w n res ws' k
    by (rule lprnet_build_workspace [OF that])
  show "length values = length (lprnet_input_names a)" if "lprnet_build_inputs a alloc buffer vi ctx ws w n = ((Inr values, ws'), k)"
    for vi ctx ws w n "values" ws' k
    using that by (auto simp: lprnet_build_inputs_def lprnet_input_names_def split: prod.splits sum.splits)
qed

section \<open>Decoding\<close>

lemma made_lprnet_adapter:
  assumes "make_lprnet_adapter c = Inr a"
  shows "la_config a = c" "make_lprnet_preprocessor (lc_input c) = Inr (la_preprocessor a)"
    "make_beam_search (lc_decoder c) = Inr (la_decoder a)" "la_decoder a = lc_decoder c"
proof -
  from assms have m: "la_config a = c" "make_lprnet_preprocessor (lc_input c) = Inr (la_preprocessor a)"
    "make_beam_search (lc_decoder c) = Inr (la_decoder a)"
    by (auto simp: make_lprnet_adapter_def result_simps split: if_split_asm)
  then show "la_config a = c" "make_lprnet_preprocessor (lc_input c) = Inr (la_preprocessor a)"
    "make_beam_search (lc_decoder c) = Inr (la_decoder a)" by blast+
  from make_beam_search_ok(1) [OF m(3)] show "la_decoder a = lc_decoder c" .
qed

lemma length_timestep_major [simp]: "length (timestep_major t c data) = t * c"
  by (simp add: timestep_major_def length_concat comp_def sum_list_triv)

lemma timestep_major_nth:
  assumes "i < t" and "j < c"
  shows "timestep_major t c data ! (i * c + j) = data ! (j * t + i)"
  using assms
proof -
  have "concat (map (\<lambda>i. map (f i) [0..<c]) [0..<t]) ! (i * c + j) = f i j" if "i < t" for f :: "nat \<Rightarrow> nat \<Rightarrow> fl"
    using that
  proof (induction t)
    case (Suc t)
    let ?init = "concat (map (\<lambda>i. map (f i) [0..<c]) [0..<t])"
    have len: "length ?init = t * c" by (simp add: length_concat comp_def sum_list_triv)
    show ?case
    proof (cases "i < t")
      case True
      then have "i * c + j < t * c" by (rule pair_index_less [OF _ assms(2)])
      with Suc.IH [OF True] len show ?thesis by (simp add: nth_append)
    next
      case False
      with Suc.prems have "i = t" by simp
      with len assms(2) show ?thesis by (simp add: nth_append)
    qed
  qed simp
  from this [OF assms(1), of "\<lambda>i j. data ! (j * t + i)"] show ?thesis unfolding timestep_major_def .
qed

text \<open>The one output the adapter decodes: its logits in timestep-major order, and their shape.\<close>

definition decodable :: "LprNetOnnxOcrAdapterConfig \<Rightarrow> OrtValue list \<Rightarrow> fl list \<Rightarrow> nat \<Rightarrow> nat \<Rightarrow> bool" where
  "decodable c outputs logits timesteps classes \<longleftrightarrow>
     (\<exists>v data t k. outputs = [v] \<and> ov_is_tensor v \<and> ov_is_float32 v \<and> ov_data v = Some data \<and>
        ov_shape v = (if lc_output_layout c = batch_classes_timesteps then [1, k, t] else [1, t, k]) \<and> 0 < sint t \<and> 0 < sint k \<and>
        unat k = length (gc_charset (bs_ctc (lc_decoder c))) + 1 \<and>
        unat t \<le> gc_maximum_timesteps (bs_ctc (lc_decoder c)) \<and> unat k \<le> gc_maximum_classes (bs_ctc (lc_decoder c)) \<and>
        length data = unat (t * k) \<and> timesteps = unat t \<and> classes = unat k \<and>
        logits = (if lc_output_layout c = batch_classes_timesteps then timestep_major (unat t) (unat k) data else data))"

lemma length_3: "length xs = 3 \<longleftrightarrow> (\<exists>a b c. xs = [a, b, c])"
  by (auto simp: length_Suc_conv eval_nat_numeral)

lemma checked_logits_Inr: "checked_logits c outputs = Inr (logits, timesteps, classes) \<longleftrightarrow> decodable c outputs logits timesteps classes"
proof
  assume r: "checked_logits c outputs = Inr (logits, timesteps, classes)"
  then have one: "length outputs = 1" "ov_is_tensor (hd outputs)" by (auto simp: checked_logits_def split: if_split_asm)
  then obtain v where v: "outputs = [v]" "ov_is_tensor v" by (cases outputs) auto
  from r have f: "ov_is_float32 v" "length (ov_shape v) = 3" "ov_shape v ! 0 = 1" "0 < sint (ov_shape v ! 1)" "0 < sint (ov_shape v ! 2)"
    by (simp_all add: checked_logits_def v Let_def not_le split: if_split_asm)
  obtain t k where tk: "logit_dimensions (lc_output_layout c) (ov_shape v) = (t, k)" by force
  note g = r [unfolded checked_logits_def v list.sel Let_def tk prod.case]
  from g f v have k: "unat k = length (gc_charset (bs_ctc (lc_decoder c))) + 1"
    "unat t \<le> gc_maximum_timesteps (bs_ctc (lc_decoder c))" "unat k \<le> gc_maximum_classes (bs_ctc (lc_decoder c))" "element_count v = unat (t * k)"
    by (simp_all split: if_split_asm)
  from g f v k obtain data where d: "ov_data v = Some data" by (cases "ov_data v") simp_all
  from g f v k d have l: "timesteps = unat t" "classes = unat k"
    "logits = (if lc_output_layout c = batch_classes_timesteps then timestep_major timesteps classes data else data)"
    by (auto split: if_split_asm)
  from f(2,3) obtain x y where shape: "ov_shape v = [1, x, y]" unfolding length_3 by auto
  have len: "length data = unat (t * k)" using k(4) d by (simp add: element_count_def)
  have sh: "ov_shape v = (if lc_output_layout c = batch_classes_timesteps then [1, k, t] else [1, t, k])" "0 < sint t" "0 < sint k"
    using tk f(4,5) by (auto simp: shape logit_dimensions_def split: if_split_asm)
  show "decodable c outputs logits timesteps classes"
    unfolding decodable_def
    by (rule exI [of _ v], rule exI [of _ data], rule exI [of _ t], rule exI [of _ k])
      (intro conjI v f d sh k len l(1,2) l(3) [unfolded l(1,2)])
next
  assume "decodable c outputs logits timesteps classes"
  then show "checked_logits c outputs = Inr (logits, timesteps, classes)"
    unfolding decodable_def checked_logits_def
    by (elim exE conjE) (cases "lc_output_layout c"; simp add: Let_def logit_dimensions_def element_count_def)
qed

text \<open>Nothing wraps when the configured bounds multiply to less than the address space.\<close>

definition bounds_fit :: "LprNetOnnxOcrAdapterConfig \<Rightarrow> bool" where
  "bounds_fit c \<longleftrightarrow> gc_maximum_timesteps (bs_ctc (lc_decoder c)) * gc_maximum_classes (bs_ctc (lc_decoder c)) < 2 ^ 64"

definition float_session :: "OnnxInferenceSession \<Rightarrow> bool" where
  "float_session s \<longleftrightarrow> (\<forall>names inputs outs w n values k. os_run s names inputs outs w n = (Inr values, k) \<longrightarrow>
     (\<forall>v \<in> set values. \<forall>elements. ov_data v = Some elements \<longrightarrow> floats elements))"

lemma decodable_shape:
  assumes "make_lprnet_adapter c = Inr a" and "bounds_fit c" and "decodable c outputs logits timesteps classes"
  shows "logits_shape (bs_ctc (la_decoder a)) logits timesteps classes \<and> timesteps < size_t_max \<and>
    (\<exists>v data. outputs = [v] \<and> ov_data v = Some data \<and> length data = timesteps * classes \<and> set logits \<subseteq> set data)"
proof -
  note made = made_lprnet_adapter [OF assms(1)]
  let ?ctc = "bs_ctc (lc_decoder c)"
  from assms(3) obtain v data and t k :: "64 word" where v: "outputs = [v]" "ov_data v = Some data" and tk: "timesteps = unat t" "classes = unat k"
    and pos: "0 < sint t" "0 < sint k" and len: "length data = unat (t * k)" and k1: "unat k = length (gc_charset ?ctc) + 1"
    and b: "unat t \<le> gc_maximum_timesteps ?ctc" "unat k \<le> gc_maximum_classes ?ctc"
    and l: "logits = (if lc_output_layout c = batch_classes_timesteps then timestep_major (unat t) (unat k) data else data)"
    unfolding decodable_def by (elim exE conjE) (rule that, assumption+)
  have cls: "classes = class_count ?ctc" and le: "timesteps \<le> gc_maximum_timesteps ?ctc" "classes \<le> gc_maximum_classes ?ctc"
    using k1 b by (simp_all only: tk class_count_def)
  have "timesteps * classes \<le> gc_maximum_timesteps ?ctc * gc_maximum_classes ?ctc" using le by (rule mult_le_mono)
  then have prod: "timesteps * classes < 2 ^ 64" using assms(2) by (simp add: bounds_fit_def)
  then have data: "length data = timesteps * classes" unfolding len tk by (rule unat_mult_exact)
  have "t \<noteq> 0" using pos(1) by auto
  then have t0: "0 < timesteps" unfolding tk by (simp add: unat_gt_0)
  have charset: "gc_charset ?ctc \<noteq> []"
    using make_beam_search_ok(2) [OF made(3)] unfolding made(4) by (auto simp: ctc_config_ok_def)
  then have c2: "2 \<le> classes" using cls by (cases "gc_charset ?ctc") (simp_all add: class_count_def)
  have "timesteps * 2 \<le> timesteps * classes" using c2 by (rule mult_le_mono2)
  then have "timesteps * 2 < 2 ^ 64" using prod by (rule le_less_trans)
  then have small: "timesteps < size_t_max" by (simp add: size_t_max_def)
  have "timesteps * classes \<le> size_t_max" using prod by (simp add: size_t_max_def)
  then have div: "timesteps \<le> size_t_max div classes" using c2 by (simp add: less_eq_div_iff_mult_less_eq)
  have "set (timestep_major timesteps classes data) \<subseteq> set data"
  proof
    fix x assume "x \<in> set (timestep_major timesteps classes data)"
    then obtain i j where ij: "i < timesteps" "j < classes" "x = data ! (j * timesteps + i)" by (auto simp: timestep_major_def)
    have "j * timesteps + i < classes * timesteps" by (rule pair_index_less [OF ij(2,1)])
    then show "x \<in> set data" using ij(3) data by (simp add: mult.commute)
  qed
  then have sub: "set logits \<subseteq> set data" by (simp add: l tk [symmetric] del: length_timestep_major)
  have "length logits = timesteps * classes" using data by (simp add: l tk [symmetric])
  with t0 le(1) cls div made(4) have "logits_shape (bs_ctc (la_decoder a)) logits timesteps classes" by (simp add: logits_shape_def)
  with small v data sub show ?thesis by blast
qed

lemma decode_logits_iff:
  assumes "libm_ok lm" and "make_lprnet_adapter c = Inr a" and "bounds_fit c"
    and "\<forall>v \<in> set outputs. \<forall>data. ov_data v = Some data \<longrightarrow> floats data"
  shows "(\<exists>ev. decode_logits lm g a outputs = Inr ev) \<longleftrightarrow>
    (\<exists>logits timesteps classes. decodable c outputs logits timesteps classes \<and> row_ok logits)"
proof -
  note made = made_lprnet_adapter [OF assms(2)]
  have beam: "(\<exists>r. beam_decode lm (la_decoder a) g logits timesteps classes = Inr r) \<longleftrightarrow> row_ok logits"
    if d: "decodable c outputs logits timesteps classes" for logits timesteps classes
  proof -
    from decodable_shape [OF assms(2,3) d] obtain v data where s: "logits_shape (bs_ctc (la_decoder a)) logits timesteps classes"
      "timesteps < size_t_max" and v: "outputs = [v]" "ov_data v = Some data" "set logits \<subseteq> set data" by blast
    then have "floats logits" using assms(4) by (auto simp: floats_def)
    with beam_decode_iff [OF assms(1) made(3) this s(2)] s(1) show ?thesis by blast
  qed
  have "(\<exists>ev. decode_logits lm g a outputs = Inr ev) \<longleftrightarrow>
    (\<exists>logits timesteps classes r. checked_logits c outputs = Inr (logits, timesteps, classes) \<and>
       beam_decode lm (la_decoder a) g logits timesteps classes = Inr r)"
    unfolding decode_logits_def made(1) by (auto simp: result_simps)
  with beam show ?thesis unfolding checked_logits_Inr by metis
qed

text \<open>
  The adapter decodes exactly the outputs of its contract. With finite bounds and floats in the tensors, decoding
  succeeds exactly when the session answered one float32 tensor with data, of shape \<open>[1, C, T]\<close> or \<open>[1, T, C]\<close> as configured, with
  the classes of the character set, within the configured bounds, and every logit is finite; otherwise it is an error.
\<close>

theorem lprnet_decodes_contract:
  assumes "libm_ok lm" and "make_lprnet_adapter c = Inr a" and "bounds_fit c"
    and "\<forall>v \<in> set outputs. \<forall>data. ov_data v = Some data \<longrightarrow> floats data"
  shows "(\<exists>ev. decode_logits lm g a outputs = Inr ev) \<longleftrightarrow>
    (\<exists>logits timesteps classes. decodable c outputs logits timesteps classes \<and> row_ok logits)"
  by (rule decode_logits_iff [OF assms])

text \<open>
  The two output layouts mean the same: a model that answers its logits class by class decodes to the same evidence, or the
  same error, as one that answers the transposed tensor timestep by timestep under the other setting.
\<close>

theorem lprnet_layouts_agree:
  assumes "length data = unat timesteps * unat classes" and "unat timesteps * unat classes < 2 ^ 64"
    and "lc_output_layout (la_config a) = batch_classes_timesteps"
  shows "decode_logits lm g a [float_tensor data [1, classes, timesteps]] =
    decode_logits lm g (a\<lparr>la_config := (la_config a)\<lparr>lc_output_layout := batch_timesteps_classes\<rparr>\<rparr>)
      [float_tensor (timestep_major (unat timesteps) (unat classes) data) [1, timesteps, classes]]"
proof -
  have "unat (timesteps * classes) = unat timesteps * unat classes" using assms(2) by (rule unat_mult_exact)
  then have "checked_logits (la_config a) [float_tensor data [1, classes, timesteps]] =
      checked_logits ((la_config a)\<lparr>lc_output_layout := batch_timesteps_classes\<rparr>)
        [float_tensor (timestep_major (unat timesteps) (unat classes) data) [1, timesteps, classes]]"
    using assms(1,3) by (simp add: checked_logits_def logit_dimensions_def Let_def disj_commute)
  then show ?thesis by (simp add: decode_logits_def evidence_of_decoded_def)
qed

text \<open>The adapter's own fallback to the greedy text is never taken: the search has fallen back before.\<close>

lemma adapter_fallback_unreachable:
  assumes "beam_decode lm c g logits timesteps classes = Inr r"
  shows "\<not> (br_candidates r = [] \<and> cd_text (br_greedy r) \<noteq> [])"
  using beam_decode_parts [OF assms] beam_no_candidates by blast

text \<open>What evidence the adapter hands over.\<close>

lemma decode_logits_usable:
  assumes "libm_ok lm" and "make_lprnet_adapter c = Inr a" and "bounds_fit c"
    and "\<forall>v \<in> set outputs. \<forall>data. ov_data v = Some data \<longrightarrow> floats data" and "decode_logits lm g a outputs = Inr ev"
  shows "(\<forall>d \<in> set (ev_candidates ev). usable_candidate g d) \<and> distinct (map cand_text (ev_candidates ev)) \<and>
    sorted_wrt (\<lambda>x y. fle (cand_confidence y) (cand_confidence x)) (ev_candidates ev) \<and>
    length (ev_candidates ev) \<le> bs_result_limit (lc_decoder c)"
proof -
  note made = made_lprnet_adapter [OF assms(2)]
  from assms(5) obtain logits timesteps classes r where d: "decodable c outputs logits timesteps classes"
    and r: "beam_decode lm (la_decoder a) g logits timesteps classes = Inr r" and ev: "ev = evidence_of_decoded c r"
    unfolding decode_logits_def made(1) by (auto simp: result_simps checked_logits_Inr)
  from decodable_shape [OF assms(2,3) d] obtain v data where s: "timesteps < size_t_max"
    and v: "outputs = [v]" "ov_data v = Some data" "set logits \<subseteq> set data" by blast
  then have f: "floats logits" using assms(4) by (auto simp: floats_def)
  have usable: "\<forall>d \<in> set (br_candidates r). usable_candidate g d" using beam_candidates_usable [OF assms(1) made(3) r f s] by blast
  then have same: "d\<lparr>cand_calibrated := cand_confidence d\<rparr> = d" if "d \<in> set (br_candidates r)" for d
    using that by (cases d) (auto simp: usable_candidate_def)
  have "map (\<lambda>d. d\<lparr>cand_calibrated := cand_confidence d\<rparr>) (br_candidates r) = br_candidates r"
    using same by (rule map_idI)
  with adapter_fallback_unreachable [OF r] have "ev_candidates ev = br_candidates r" by (auto simp: ev evidence_of_decoded_def Let_def)
  with usable beam_result_ranked [OF assms(1) made(3) r f s] made(4) show ?thesis by simp
qed

text \<open>
  C32: the recognizer feeds the ensemble. Whatever the session answers, as long as its tensors hold floats, evidence that the
  recognizer returns carries the configured provider name; its candidates are at most the configured number, of distinct texts, best first, each
  with a text and equal probabilities as confidences, and a candidate marked valid is a valid plate. The ensemble accepts the evidence
  for every weight, and the workspace stays within its limits.
\<close>

theorem lprnet_recognizer_feeds_ensemble:
  assumes "libm_ok lm" and "make_lprnet_adapter c = Inr a" and "bounds_fit c" and "float_session s"
    and "make_ocr_recognizer (Some s) (Some (lprnet_adapter lm g alloc buffer a)) limits = Inr r"
    and "workspace_ok ws" and "ocr_recognize r plate ctx ws w n = ((Inr ev, ws'), k)"
  shows "workspace_ok ws' \<and> ev_source ev = lc_provider_name c \<and>
    (\<forall>d \<in> set (ev_candidates ev). usable_candidate g d) \<and> distinct (map cand_text (ev_candidates ev)) \<and>
    sorted_wrt (\<lambda>x y. fle (cand_confidence y) (cand_confidence x)) (ev_candidates ev) \<and>
    length (ev_candidates ev) \<le> bs_result_limit (lc_decoder c) \<and>
    (\<forall>name weight quality latency. \<exists>ev'. validate_evidence ev name weight quality latency = Inr ev')"
proof -
  note made = made_lprnet_adapter [OF assms(2)] and rec = made_recognizer [OF assms(5)]
  then have ad: "gr_adapter r = lprnet_adapter lm g alloc buffer a" and s: "gr_session r = s" by auto
  obtain inputs outputs ev0 k3 k4 k5 k6 where run: "os_run (gr_session r) (gr_input_names r) inputs (gr_output_names r) w k3 = (Inr outputs, k4)"
    and dec: "oa_decode (gr_adapter r) outputs ctx w k5 = (Inr ev0, k6)"
    and ok: "\<forall>c \<in> set (ev_candidates ev0). \<not> malformed_candidate c"
    and ev: "ev_candidates ev = ev_candidates ev0" "ev_source ev = om_name (gr_metadata r)"
    by (rule ocr_recognize_Inr [OF assms(7)])
  have f: "\<forall>v \<in> set outputs. \<forall>data. ov_data v = Some data \<longrightarrow> floats data" using assms(4) run unfolding float_session_def s by blast
  from dec have "decode_logits lm g a outputs = Inr ev0" by (auto simp: ad lprnet_decode_def io_simps)
  note decode_logits_usable [OF assms(1-3) f this]
  moreover have "workspace_ok ws'"
    by (rule lprnet.recognize_keeps_workspace [OF _ assms(6,7)]) (simp add: ad)
  moreover have "ev_source ev = lc_provider_name c" using ev(2) rec by (simp add: ad lprnet_metadata_def made(1))
  moreover have "\<exists>ev'. validate_evidence ev name weight quality latency = Inr ev'" for name weight quality latency
    using ensemble_accepts [of ev] ok ev(1) by metis
  ultimately show ?thesis unfolding ev(1) by blast
qed

section \<open>A plate read\<close>

definition demo_adapter_config :: LprNetOnnxOcrAdapterConfig where
  "demo_adapter_config = \<lparr>lc_provider_name = ''lprnet'', lc_model_version = ''1'', lc_input_name = ''x'', lc_output_name = ''y'',
     lc_input = dot_lprnet_spec, lc_output_layout = batch_timesteps_classes, lc_decoder = demo_beam_config\<rparr>"

definition demo_adapter :: LprNetOnnxOcrAdapter where
  "demo_adapter = \<lparr>la_config = demo_adapter_config, la_preprocessor = dot_lprnet_preprocessor, la_decoder = demo_beam_config\<rparr>"

lemma demo_adapter_made: "make_lprnet_adapter demo_adapter_config = Inr demo_adapter"
  by (simp add: make_lprnet_adapter_def demo_adapter_config_def dot_lprnet_made demo_beam_made demo_adapter_def)

lemma demo_bounds_fit: "bounds_fit demo_adapter_config"
  by (simp add: bounds_fit_def demo_adapter_config_def demo_beam_config_def demo_ctc_def)

lemma length_demo_logits: "length demo_logits = 28"
  by (simp add: demo_logits_def)

lemma demo_decodable: "decodable demo_adapter_config [float_tensor demo_logits [1, 7, 4]] demo_logits 7 4"
  unfolding decodable_def
  by (rule exI [of _ "float_tensor demo_logits [1, 7, 4]"], rule exI [of _ demo_logits], rule exI [of _ 7], rule exI [of _ 4])
    (simp add: demo_adapter_config_def demo_beam_config_def demo_ctc_def length_demo_logits)

lemma demo_outputs_float: "\<forall>v \<in> set [float_tensor demo_logits [1, 7, 4]]. \<forall>data. ov_data v = Some data \<longrightarrow> floats data"
  using demo_shape(1) by simp

theorem lprnet_decodes_contract_witness:
  "\<exists>ev. decode_logits demo_libm demo_grammar demo_adapter [float_tensor demo_logits [1, 7, 4]] = Inr ev"
  using lprnet_decodes_contract [OF demo_libm_ok demo_adapter_made demo_bounds_fit demo_outputs_float, of demo_grammar]
    demo_decodable demo_shape(3) by blast

definition two_by_three :: "fl list" where
  "two_by_three = map Fin [1, 2, 3, 4, 5, 6]"

lemma two_by_three_transposed: "timestep_major 3 2 two_by_three = map Fin [1, 4, 2, 5, 3, 6]"
  by code_simp

theorem lprnet_layouts_agree_witness:
  "decode_logits demo_libm demo_grammar (demo_adapter\<lparr>la_config := demo_adapter_config\<lparr>lc_output_layout := batch_classes_timesteps\<rparr>\<rparr>)
     [float_tensor two_by_three [1, 2, 3]] =
   decode_logits demo_libm demo_grammar demo_adapter [float_tensor (map Fin [1, 4, 2, 5, 3, 6]) [1, 3, 2]]"
proof -
  let ?a = "demo_adapter\<lparr>la_config := demo_adapter_config\<lparr>lc_output_layout := batch_classes_timesteps\<rparr>\<rparr>"
  have a: "?a\<lparr>la_config := (la_config ?a)\<lparr>lc_output_layout := batch_timesteps_classes\<rparr>\<rparr> = demo_adapter"
    by (simp add: demo_adapter_def demo_adapter_config_def)
  have "length two_by_three = unat (3 :: 64 word) * unat (2 :: 64 word)" "unat (3 :: 64 word) * unat (2 :: 64 word) < 2 ^ 64"
    "lc_output_layout (la_config ?a) = batch_classes_timesteps"
    by (simp_all add: two_by_three_def)
  from lprnet_layouts_agree [OF this, of demo_libm demo_grammar] show ?thesis unfolding a by (simp add: two_by_three_transposed)
qed

definition plate_session :: OnnxInferenceSession where
  "plate_session = \<lparr>os_inputs = [\<lparr>td_name = ''x'', td_is_float32 = True, td_shape = [1, 2, 1, 1]\<rparr>],
     os_outputs = [\<lparr>td_name = ''y'', td_is_float32 = True, td_shape = [1, 7, 4]\<rparr>],
     os_run = \<lambda>_ _ _. io_return [float_tensor demo_logits [1, 7, 4]]\<rparr>"

definition plate_adapter :: OnnxOcrModelAdapter where
  "plate_adapter = lprnet_adapter demo_libm demo_grammar (\<lambda>_ _. Inl bad_alloc) (\<lambda>n. replicate n NaN) demo_adapter"

definition plate_recognizer :: GenericOnnxOcrRecognizer where
  "plate_recognizer = \<lparr>gr_session = plate_session, gr_adapter = plate_adapter, gr_image_limits = default_performance_config,
     gr_metadata = \<lparr>om_name = ''lprnet'', om_version = ''1''\<rparr>, gr_input_names = [''x''], gr_output_names = [''y'']\<rparr>"

lemma plate_adapter_simps:
  "oa_metadata plate_adapter = \<lparr>om_name = ''lprnet'', om_version = ''1''\<rparr>" "oa_input_names plate_adapter = [''x'']"
  "oa_output_names plate_adapter = [''y'']"
  by (simp_all add: plate_adapter_def lprnet_metadata_def lprnet_input_names_def lprnet_output_names_def demo_adapter_def demo_adapter_config_def)

lemma plate_recognizer_made: "make_ocr_recognizer (Some plate_session) (Some plate_adapter) default_performance_config = Inr plate_recognizer"
proof -
  have "contract_ok plate_recognizer"
    by (simp add: contract_ok_def plate_recognizer_def plate_session_def unique_names_def)
  then have "ocr_validate_contract plate_recognizer = Inr ()" by (simp add: ocr_validate_contract_Inr)
  then show ?thesis by (simp add: make_ocr_recognizer_def plate_adapter_simps plate_recognizer_def)
qed

definition plate_workspace :: NativeImageWorkspace where
  "plate_workspace = \<lparr>ws_config = \<lparr>nw_max_tensor_elements = 100, nw_max_scratch_bytes = 100\<rparr>, ws_tensor_size = 0, ws_tensor_capacity = 6,
     ws_scratch_size = 0, ws_scratch_capacity = 0, ws_tensor_growth_count = 0, ws_scratch_growth_count = 0\<rparr>"

lemma dot_image_valid: "validate_image dot_image default_performance_config = Inr dot_validated"
  by (simp add: validate_image_def dot_image_def dot_validated_def default_performance_config_def pixel_format_channels_def
    bytes_size_def check_all.simps checked_multiply_def checked_add_def size_max_def)

lemma plate_built:
  "\<exists>t ws'. lprnet_build_inputs demo_adapter (\<lambda>_ _. Inl bad_alloc) (\<lambda>n. replicate n NaN) dot_validated default_context plate_workspace w n =
     ((Inr [t], ws'), n)"
proof -
  have "prepare_tensor (\<lambda>_ _. Inl bad_alloc) 2 plate_workspace = Inr (2, plate_workspace\<lparr>ws_tensor_size := 2\<rparr>)"
    by (simp add: prepare_tensor_def vector_resize_def plate_workspace_def)
  then show ?thesis
    by (simp add: lprnet_build_inputs_def lprnet_check_context_def lprnet_preprocess_workspace_def lp_preprocess_into_def demo_adapter_def
      dot_lprnet_preprocessor_def)
qed

lemma usable_not_malformed: "usable_candidate g d \<Longrightarrow> \<not> malformed_candidate d"
  unfolding malformed_iff usable_candidate_def by simp

lemma plate_read:
  "\<exists>ev ws' k. ocr_recognize plate_recognizer dot_image default_context plate_workspace w n = ((Inr ev, ws'), k)"
proof -
  have e: "ocr_entry plate_recognizer dot_image default_context w n = (Inr (dot_validated, w_clock w n), n + 2)"
    by (simp add: ocr_entry_def ocr_check_context_def io_bind_def io_return_def io_lift_def io_now_def dot_image_valid plate_recognizer_def)
  obtain t ws' where b: "oa_build_inputs plate_adapter dot_validated default_context plate_workspace w (n + 2) = ((Inr [t], ws'), n + 2)"
    using plate_built [of w "n + 2"] by (auto simp: plate_adapter_def)
  have "\<exists>logits timesteps classes. decodable demo_adapter_config [float_tensor demo_logits [1, 7, 4]] logits timesteps classes \<and> row_ok logits"
    using demo_decodable demo_shape(3) by blast
  then obtain ev where ev: "decode_logits demo_libm demo_grammar demo_adapter [float_tensor demo_logits [1, 7, 4]] = Inr ev"
    using decode_logits_iff [OF demo_libm_ok demo_adapter_made demo_bounds_fit demo_outputs_float, of demo_grammar] by blast
  have "\<forall>d \<in> set (ev_candidates ev). usable_candidate demo_grammar d"
    using decode_logits_usable [OF demo_libm_ok demo_adapter_made demo_bounds_fit demo_outputs_float ev] by blast
  then have v: "ocr_validate_evidence ev = Inr ()" using usable_not_malformed by (auto simp: ocr_validate_evidence_def throw_if_eq list_ex_iff)
  have s: "os_run plate_session names inputs outs = io_return [float_tensor demo_logits [1, 7, 4]]" for names inputs outs
    by (simp add: plate_session_def)
  have d: "oa_decode plate_adapter [float_tensor demo_logits [1, 7, 4]] default_context = io_lift (Inr ev)"
    by (simp add: plate_adapter_def lprnet_decode_def lprnet_check_context_def ev io_bind_def fun_eq_iff)
  have "\<exists>ev k. ocr_run plate_recognizer default_context (w_clock w n) [t] w (n + 2) = (Inr ev, k)"
    unfolding ocr_run_def plate_recognizer_def
    by (simp add: s d v io_bind_def io_now_def io_return_def io_lift_def ocr_check_context_def)
  then obtain ev' k where run: "ocr_run plate_recognizer default_context (w_clock w n) [t] w (n + 2) = (Inr ev', k)" by blast
  have "gr_adapter plate_recognizer = plate_adapter" by (simp add: plate_recognizer_def)
  then show ?thesis unfolding ocr_recognize_def e by (simp add: b [simplified] run [simplified])
qed

theorem lprnet_recognizer_feeds_ensemble_witness:
  "\<exists>ev ws' k. ocr_recognize plate_recognizer dot_image default_context plate_workspace still_world 0 = ((Inr ev, ws'), k) \<and>
     workspace_ok ws' \<and> ev_source ev = ''lprnet'' \<and> (\<forall>d \<in> set (ev_candidates ev). usable_candidate demo_grammar d)"
proof -
  obtain ev ws' k where r: "ocr_recognize plate_recognizer dot_image default_context plate_workspace still_world 0 = ((Inr ev, ws'), k)"
    using plate_read by blast
  have s: "float_session plate_session" using demo_shape(1) by (auto simp: float_session_def plate_session_def io_simps)
  have ws: "workspace_ok plate_workspace" by (simp add: workspace_ok_def plate_workspace_def)
  have "lc_provider_name demo_adapter_config = ''lprnet''" by (simp add: demo_adapter_config_def)
  with lprnet_recognizer_feeds_ensemble [OF demo_libm_ok demo_adapter_made demo_bounds_fit s
      plate_recognizer_made [unfolded plate_adapter_def] ws r] r show ?thesis by auto
qed

end
