(* ===== verification/Crop_Hypotheses.thy ===== *)
theory Crop_Hypotheses
  imports Native_Image Engine_World
begin

text \<open>
  The crop generator (\<^verbatim>\<open>infrastructure/crop/crop_hypothesis_generator.cpp\<close>): from a frame and a detection it cuts the
  images the recognizers read, each packed into a buffer of its own, and drops those it has seen before by their
  fingerprint (FNV-1a over shape and pixels). The allocator is a parameter.
\<close>

unbundle bit_operations_syntax

section \<open>Configuration\<close>

datatype CropGeneratorKind = plate_dominant_source | plate_dominant_text_region | rectified | raw_bbox | padded_bbox

record CropHypothesisGeneratorConfig =
  cg_generator_order :: "CropGeneratorKind list"
  cg_maximum_hypotheses :: nat
  cg_minimum_width :: "64 word"
  cg_minimum_height :: "64 word"
  cg_horizontal_padding_ratio :: fl
  cg_vertical_padding_ratio :: fl
  cg_prefer_source :: bool
  cg_dominant_min_area_ratio :: fl
  cg_text_left_inset_ratio :: fl
  cg_text_right_inset_ratio :: fl
  cg_text_vertical_inset_ratio :: fl

definition default_crop_generator_config :: CropHypothesisGeneratorConfig where
  "default_crop_generator_config = \<lparr>cg_generator_order = [rectified, raw_bbox, padded_bbox], cg_maximum_hypotheses = 8,
     cg_minimum_width = 16, cg_minimum_height = 8, cg_horizontal_padding_ratio = lit32 (6/100), cg_vertical_padding_ratio = lit32 (4/100),
     cg_prefer_source = True, cg_dominant_min_area_ratio = lit32 (65/100), cg_text_left_inset_ratio = lit32 (10/100),
     cg_text_right_inset_ratio = lit32 (2/100), cg_text_vertical_inset_ratio = lit32 (4/100)\<rparr>"

definition valid_inset :: "fl \<Rightarrow> bool" where
  "valid_inset v \<longleftrightarrow> is_finite v \<and> fle (Fin 0) v \<and> flt v (Fin (1/2))"

definition invalid_padding :: "fl \<Rightarrow> bool" where
  "invalid_padding v \<longleftrightarrow> \<not> is_finite v \<or> flt v (Fin 0) \<or> flt (Fin (1/2)) v"

definition invalid_generator_config :: "CropHypothesisGeneratorConfig \<Rightarrow> bool" where
  "invalid_generator_config c \<longleftrightarrow>
     cg_generator_order c = [] \<or> 32 < length (cg_generator_order c) \<or>
     cg_maximum_hypotheses c = 0 \<or> 32 < cg_maximum_hypotheses c \<or> cg_minimum_width c = 0 \<or> cg_minimum_height c = 0 \<or>
     invalid_padding (cg_horizontal_padding_ratio c) \<or> invalid_padding (cg_vertical_padding_ratio c) \<or>
     \<not> is_finite (cg_dominant_min_area_ratio c) \<or> fle (cg_dominant_min_area_ratio c) (Fin 0) \<or> flt (Fin 1) (cg_dominant_min_area_ratio c) \<or>
     \<not> valid_inset (cg_text_left_inset_ratio c) \<or> \<not> valid_inset (cg_text_right_inset_ratio c) \<or>
     \<not> valid_inset (cg_text_vertical_inset_ratio c) \<or>
     fle (Fin (3/4)) (add32 (cg_text_left_inset_ratio c) (cg_text_right_inset_ratio c)) \<or>
     fle (Fin (3/4)) (mul32 (cg_text_vertical_inset_ratio c) (Fin 2))"

fun validate_registry :: "CropGeneratorKind set \<Rightarrow> CropGeneratorKind list \<Rightarrow> unit result" where
  "validate_registry seen [] = Inr ()"
| "validate_registry seen (kind # kinds) =
     (if kind = plate_dominant_source \<or> kind = plate_dominant_text_region
      then Inl (ConfigurationError ''plate-dominant crops are automatic and must not be registered explicitly'')
      else if kind \<in> seen then Inl (ConfigurationError ''crop generator registry contains duplicate generator kinds'')
      else validate_registry (insert kind seen) kinds)"

definition make_crop_generator :: "CropHypothesisGeneratorConfig \<Rightarrow> CropHypothesisGeneratorConfig result" where
  "make_crop_generator c =
     (if invalid_generator_config c then Inl (ConfigurationError ''crop hypothesis generator configuration is invalid'')
      else res_bind (validate_registry {} (cg_generator_order c)) (\<lambda>_. Inr c))"

section \<open>Packed copies\<close>

definition crop_checked_multiply :: "64 word \<Rightarrow> 64 word \<Rightarrow> string \<Rightarrow> 64 word result" where
  "crop_checked_multiply left right field =
     (if left \<noteq> 0 \<and> right > size_max div left then Inl (ResourceExhaustedError (field @ '' overflows size_t''))
      else Inr (left * right))"

definition whole_region :: "ImageView \<Rightarrow> ImageRegion" where
  "whole_region v = \<lparr>reg_x = 0, reg_y = 0, reg_width = img_width v, reg_height = img_height v\<rparr>"

definition pack_copy :: "allocator \<Rightarrow> ImageView \<Rightarrow> ImageBuffer result" where
  "pack_copy alloc v =
     (let channels = pixel_format_channels (img_format v) in
      if channels = 0 \<or> img_width v = 0 \<or> img_height v = 0 then Inl (InvalidImageError ''cannot pack invalid crop view'')
      else res_bind (crop_checked_multiply (img_width v) channels ''crop packed stride'') (\<lambda>stride.
        res_bind (crop_checked_multiply stride (img_height v) ''crop packed bytes'') (\<lambda>required.
        res_bind (map_sum (resize_error ''cannot allocate crop hypothesis'' ''crop hypothesis exceeds vector limits'') id
            (vector_resize alloc 0 (unat required))) (\<lambda>_.
        copy_crop v (whole_region v)
          \<lparr>img_bytes = replicate (unat required) 0, img_width = img_width v, img_height = img_height v, img_stride = stride,
           img_format = img_format v\<rparr>))))"

section \<open>Regions\<close>

definition no_region :: ImageRegion where
  "no_region = \<lparr>reg_x = 0, reg_y = 0, reg_width = 0, reg_height = 0\<rparr>"

definition float_extent :: "64 word \<Rightarrow> fl" where
  "float_extent n = float_of_nat binary32 (unat n)"

text \<open>\<open>static_cast<std::size_t>(std::floor(v))\<close> and \<open>std::ceil\<close>, for a value that has one.\<close>

definition floored :: "fl \<Rightarrow> 64 word" where
  "floored v = (case v of Fin x \<Rightarrow> of_int \<lfloor>x\<rfloor> | _ \<Rightarrow> 0)"

definition ceiled :: "fl \<Rightarrow> 64 word" where
  "ceiled v = (case v of Fin x \<Rightarrow> of_int \<lceil>x\<rceil> | _ \<Rightarrow> 0)"

text \<open>The sides of a padded box, clamped to the frame: left, top, right, bottom.\<close>

definition clamped_sides :: "BoundingBox \<Rightarrow> ImageView \<Rightarrow> fl \<Rightarrow> fl \<Rightarrow> fl \<times> fl \<times> fl \<times> fl" where
  "clamped_sides box source pad_x pad_y =
     (fclamp (sub32 (bb_x box) pad_x) (Fin 0) (float_extent (img_width source)),
      fclamp (sub32 (bb_y box) pad_y) (Fin 0) (float_extent (img_height source)),
      fclamp (add32 (add32 (bb_x box) (bb_width box)) pad_x) (Fin 0) (float_extent (img_width source)),
      fclamp (add32 (add32 (bb_y box) (bb_height box)) pad_y) (Fin 0) (float_extent (img_height source)))"

definition bbox_region :: "BoundingBox \<Rightarrow> ImageView \<Rightarrow> fl \<Rightarrow> fl \<Rightarrow> ImageRegion" where
  "bbox_region box source horizontal_padding vertical_padding =
     (if \<not> bbox_is_valid box then no_region
      else let (left, top, right, bottom) =
          clamped_sides box source (mul32 (bb_width box) horizontal_padding) (mul32 (bb_height box) vertical_padding)
        in if \<not> (flt left right \<and> flt top bottom) then no_region
           else let x = floored left; y = floored top;
              x2 = min (img_width source) (ceiled right); y2 = min (img_height source) (ceiled bottom)
            in if x2 > x \<and> y2 > y then \<lparr>reg_x = x, reg_y = y, reg_width = x2 - x, reg_height = y2 - y\<rparr> else no_region)"

definition inset_of :: "64 word \<Rightarrow> fl \<Rightarrow> 64 word" where
  "inset_of extent ratio = floored (fmul binary64 (float_of_nat binary64 (unat extent)) ratio)"

definition plate_text_region :: "ImageView \<Rightarrow> CropHypothesisGeneratorConfig \<Rightarrow> ImageRegion" where
  "plate_text_region source c =
     (if img_width source = 0 \<or> img_height source = 0 then no_region
      else let left = inset_of (img_width source) (cg_text_left_inset_ratio c);
               right_inset = inset_of (img_width source) (cg_text_right_inset_ratio c);
               vertical = inset_of (img_height source) (cg_text_vertical_inset_ratio c)
        in if left + right_inset \<ge> img_width source \<or> vertical * 2 \<ge> img_height source then no_region
           else \<lparr>reg_x = left, reg_y = vertical, reg_width = img_width source - left - right_inset,
                 reg_height = img_height source - vertical * 2\<rparr>)"

definition detection_area_ratio :: "BoundingBox \<Rightarrow> ImageView \<Rightarrow> fl" where
  "detection_area_ratio box source =
     (if \<not> bbox_is_valid box \<or> img_width source = 0 \<or> img_height source = 0 then Fin 0
      else let left = fclamp (bb_x box) (Fin 0) (float_extent (img_width source));
               top = fclamp (bb_y box) (Fin 0) (float_extent (img_height source));
               right = fclamp (add32 (bb_x box) (bb_width box)) (Fin 0) (float_extent (img_width source));
               bottom = fclamp (add32 (bb_y box) (bb_height box)) (Fin 0) (float_extent (img_height source))
        in if \<not> (flt left right \<and> flt top bottom) then Fin 0
           else let detection_area = fmul binary64 (sub32 right left) (sub32 bottom top);
              source_area = fmul binary64 (float_of_nat binary64 (unat (img_width source))) (float_of_nat binary64 (unat (img_height source)))
            in if \<not> flt (Fin 0) source_area then Fin 0
               else fcast binary32 (fclamp (fdiv binary64 detection_area source_area) (Fin 0) (Fin 1)))"

definition kind_name :: "CropGeneratorKind \<Rightarrow> string" where
  "kind_name kind = (case kind of plate_dominant_source \<Rightarrow> ''plate_dominant_source'' | plate_dominant_text_region \<Rightarrow> ''plate_dominant_text_region''
     | rectified \<Rightarrow> ''rectified'' | raw_bbox \<Rightarrow> ''raw_bbox'' | padded_bbox \<Rightarrow> ''padded_bbox'')"

section \<open>Fingerprints\<close>

definition fnv_offset_basis :: "64 word" where "fnv_offset_basis = 14695981039346656037"

definition fnv_mix :: "8 word \<Rightarrow> 64 word \<Rightarrow> 64 word" where
  "fnv_mix v hash = (hash XOR ucast v) * 1099511628211"

definition format_code :: "PixelFormat \<Rightarrow> 8 word" where
  "format_code f = (case f of gray8 \<Rightarrow> 0 | bgr8 \<Rightarrow> 1 | rgb8 \<Rightarrow> 2)"

definition size_byte :: "64 word \<Rightarrow> nat \<Rightarrow> 8 word" where
  "size_byte n shift = ucast (drop_bit (shift * 8) n AND 0xFF)"

definition mix_row :: "ImageView \<Rightarrow> nat \<Rightarrow> nat \<Rightarrow> 64 word \<Rightarrow> 64 word" where
  "mix_row img row_len y hash =
     fold (\<lambda>x. fnv_mix (img_bytes img ! (unat (of_nat y * img_stride img) + x))) [0..<row_len] hash"

definition fingerprint_crop :: "ImageView \<Rightarrow> 64 word result" where
  "fingerprint_crop img =
     (if img_width img = 0 \<or> img_height img = 0 \<or> img_bytes img = [] then Inl (InvalidImageError ''cannot fingerprint empty crop'')
      else let channels = pixel_format_channels (img_format img) in
        if channels = 0 \<or> img_width img > size_max div channels
        then Inl (InvalidImageError ''invalid crop shape for fingerprinting'')
        else let row_len = img_width img * channels in
          if img_stride img < row_len then Inl (InvalidImageError ''crop stride is invalid for fingerprinting'')
          else let hash = fold (\<lambda>shift hash. fnv_mix (size_byte (img_height img) shift) (fnv_mix (size_byte (img_width img) shift) hash))
                     [0..<8] fnv_offset_basis;
                   hash = fnv_mix (format_code (img_format img)) hash
            in Inr (fold (mix_row img (unat row_len)) [0..<unat (img_height img)] hash))"

section \<open>Generation\<close>

record CropSearch =
  cs_hypotheses :: "CropHypothesis list"
  cs_fingerprints :: "64 word set"

definition try_add :: "CropHypothesisGeneratorConfig \<Rightarrow> allocator \<Rightarrow> ImageView \<Rightarrow> CropGeneratorKind \<Rightarrow> string \<Rightarrow> CropSearch \<Rightarrow>
    CropSearch result" where
  "try_add c alloc v kind source_name s =
     (if length (cs_hypotheses s) \<ge> cg_maximum_hypotheses c \<or> img_width v < cg_minimum_width c \<or> img_height v < cg_minimum_height c \<or>
         img_bytes v = [] then Inr s
      else res_bind (fingerprint_crop v) (\<lambda>fp.
        if fp \<in> cs_fingerprints s then Inr s
        else res_bind (pack_copy alloc v) (\<lambda>packed.
          Inr \<lparr>cs_hypotheses = cs_hypotheses s @ [\<lparr>crop_image = packed, crop_type = kind_name kind, crop_source = source_name,
                 crop_fingerprint = fp, crop_quality = Fin 0\<rparr>],
               cs_fingerprints = insert fp (cs_fingerprints s)\<rparr>)))"

definition add_region :: "CropHypothesisGeneratorConfig \<Rightarrow> allocator \<Rightarrow> ImageView \<Rightarrow> ImageRegion \<Rightarrow> CropGeneratorKind \<Rightarrow> CropSearch \<Rightarrow>
    CropSearch result" where
  "add_region c alloc source region kind s =
     (if region_empty region then Inr s
      else res_bind (make_crop_view source region) (\<lambda>v. try_add c alloc v kind ''source_image'' s))"

definition generate_kind :: "CropHypothesisGeneratorConfig \<Rightarrow> allocator \<Rightarrow> ImageView \<Rightarrow> Detection \<Rightarrow> ImageBuffer option \<Rightarrow>
    CropGeneratorKind \<Rightarrow> CropSearch \<Rightarrow> CropSearch result" where
  "generate_kind c alloc source detection aligned kind s =
     (case kind of
        plate_dominant_source \<Rightarrow> Inr s
      | plate_dominant_text_region \<Rightarrow> Inr s
      | rectified \<Rightarrow> (case aligned of None \<Rightarrow> Inr s | Some a \<Rightarrow> try_add c alloc a rectified ''perspective_aligner'' s)
      | raw_bbox \<Rightarrow> add_region c alloc source (bbox_region (det_bbox detection) source (Fin 0) (Fin 0)) raw_bbox s
      | padded_bbox \<Rightarrow> add_region c alloc source
          (bbox_region (det_bbox detection) source (cg_horizontal_padding_ratio c) (cg_vertical_padding_ratio c)) padded_bbox s)"

fun generate_loop :: "CropHypothesisGeneratorConfig \<Rightarrow> (CropGeneratorKind \<Rightarrow> CropSearch \<Rightarrow> CropSearch result) \<Rightarrow> OperationContext \<Rightarrow>
    CropGeneratorKind list \<Rightarrow> CropSearch \<Rightarrow> CropSearch io" where
  "generate_loop c step ctx [] s = io_return s"
| "generate_loop c step ctx (kind # kinds) s =
     io_bind (check_operation ctx ''crop generation cancelled'' ''crop generation deadline exceeded'') (\<lambda>_.
       if length (cs_hypotheses s) \<ge> cg_maximum_hypotheses c then io_return s
       else io_bind (io_lift (step kind s)) (generate_loop c step ctx kinds))"

definition plate_dominant :: "CropHypothesisGeneratorConfig \<Rightarrow> ImageView \<Rightarrow> Detection \<Rightarrow> bool" where
  "plate_dominant c source detection \<longleftrightarrow>
     cg_prefer_source c \<and> fle (cg_dominant_min_area_ratio c) (detection_area_ratio (det_bbox detection) source)"

definition dominant_crops :: "CropHypothesisGeneratorConfig \<Rightarrow> allocator \<Rightarrow> ImageView \<Rightarrow> CropSearch \<Rightarrow> CropSearch result" where
  "dominant_crops c alloc source s =
     res_bind (try_add c alloc source plate_dominant_source ''source_image'' s)
       (add_region c alloc source (plate_text_region source c) plate_dominant_text_region)"

definition generate_crops :: "CropHypothesisGeneratorConfig \<Rightarrow> allocator \<Rightarrow> ImageView \<Rightarrow> Detection \<Rightarrow> ImageBuffer option \<Rightarrow>
    OperationContext \<Rightarrow> CropHypothesis list io" where
  "generate_crops c alloc source detection aligned ctx =
     (let s = \<lparr>cs_hypotheses = [], cs_fingerprints = {}\<rparr> in
      io_bind (check_operation ctx ''crop generation cancelled'' ''crop generation deadline exceeded'') (\<lambda>_.
      io_bind (if plate_dominant c source detection then io_lift (dominant_crops c alloc source s)
               else generate_loop c (generate_kind c alloc source detection aligned) ctx (cg_generator_order c) s) (\<lambda>s.
      io_return (cs_hypotheses s))))"

section \<open>What a packed copy shows\<close>

text \<open>A buffer that shows a region of an image: the pixels of the region, row after row without a gap.\<close>

definition shows_region :: "ImageBuffer \<Rightarrow> ImageView \<Rightarrow> ImageRegion \<Rightarrow> bool" where
  "shows_region img src r \<longleftrightarrow> img_width img = reg_width r \<and> img_height img = reg_height r \<and> img_format img = img_format src \<and>
     unat (img_stride img) = row_bytes img \<and> length (img_bytes img) = row_bytes img * unat (img_height img) \<and>
     (\<forall>y < unat (reg_height r). \<forall>x < unat (reg_width r). \<forall>ch < channels_of (img_format src).
        img_bytes img ! byte_index img y x ch = img_bytes src ! byte_index src (unat (reg_y r) + y) (unat (reg_x r) + x) ch)"

text \<open>An image whose buffer holds it; no object has \<open>2 ^ 63\<close> bytes.\<close>

definition readable :: "ImageView \<Rightarrow> bool" where
  "readable img \<longleftrightarrow> img_width img \<noteq> 0 \<and> img_height img \<noteq> 0 \<and> row_bytes img \<le> unat (img_stride img) \<and>
     extent_bytes img \<le> length (img_bytes img) \<and> length (img_bytes img) < 2 ^ 63"

lemma readable_bounds:
  assumes "readable img"
  shows "length (img_bytes img) < 2 ^ 64" and "row_bytes img * unat (img_height img) \<le> length (img_bytes img)"
    and "unat (img_width img) < 2 ^ 63" and "unat (img_height img) < 2 ^ 63" and "0 < row_bytes img"
    and "unat (img_stride img) * (unat (img_height img) - 1) < 2 ^ 64"
proof -
  let ?c = "channels_of (img_format img)" and ?h = "unat (img_height img)"
  have pos: "0 < ?h" "0 < unat (img_width img)" and c: "1 \<le> ?c"
    using assms by (auto simp: readable_def unat_gt_0 channels_of_def split: PixelFormat.split)
  then show row: "0 < row_bytes img" by (simp add: row_bytes_def)
  have "row_bytes img * ?h = row_bytes img * (?h - 1) + row_bytes img"
    using pos by (cases ?h) simp_all
  also have "\<dots> \<le> extent_bytes img" unfolding extent_bytes_def using assms by (intro add_mono mult_right_mono) (simp_all add: readable_def)
  also have "\<dots> \<le> length (img_bytes img)" using assms by (simp add: readable_def)
  finally show len: "row_bytes img * ?h \<le> length (img_bytes img)" .
  have l: "length (img_bytes img) < 2 ^ 63" "extent_bytes img \<le> length (img_bytes img)" using assms by (simp_all add: readable_def)
  then show "length (img_bytes img) < 2 ^ 64" by simp
  have "?h \<le> row_bytes img * ?h" "row_bytes img \<le> row_bytes img * ?h" using row pos by simp_all
  moreover have "unat (img_width img) \<le> row_bytes img" using c by (simp add: row_bytes_def)
  ultimately show "unat (img_width img) < 2 ^ 63" "?h < 2 ^ 63" using len l by linarith+
  show "unat (img_stride img) * (?h - 1) < 2 ^ 64" using l by (simp add: extent_bytes_def)
qed

lemma crop_checked_multiply_Inr:
  "crop_checked_multiply a b f = Inr c \<longleftrightarrow> unat a * unat b < 2 ^ 64 \<and> c = a * b"
  using checked_multiply_Inr [of a b f c] unat_mult_exact [of a b] by (auto simp: crop_checked_multiply_def checked_multiply_def split: if_splits)

lemma whole_region_fits: "readable img \<Longrightarrow> crop_fits img (whole_region img)"
  by (simp add: readable_def crop_fits_def whole_region_def unat_gt_0)

text \<open>Packing fails only for want of memory.\<close>

definition packed_buffer :: "ImageView \<Rightarrow> ImageBuffer" where
  "packed_buffer v = \<lparr>img_bytes = replicate (row_bytes v * unat (img_height v)) 0, img_width = img_width v, img_height = img_height v,
     img_stride = of_nat (row_bytes v), img_format = img_format v\<rparr>"

lemma pack_copy_readable:
  assumes "readable v"
  shows "pack_copy alloc v = res_bind (map_sum (resize_error ''cannot allocate crop hypothesis'' ''crop hypothesis exceeds vector limits'') id
      (vector_resize alloc 0 (row_bytes v * unat (img_height v)))) (\<lambda>_. copy_crop v (whole_region v) (packed_buffer v))"
proof -
  let ?c = "pixel_format_channels (img_format v)"
  note b = readable_bounds [OF assms]
  have small: "row_bytes v < 2 ^ 64" "row_bytes v * unat (img_height v) < 2 ^ 64"
    using b(1,2) assms by (auto simp: readable_def extent_bytes_def)
  then have row: "unat (img_width v) * unat ?c < 2 ^ 64" "unat (img_width v * ?c) = row_bytes v"
    by (simp_all add: row_bytes_def channels_unat unat_mult_exact)
  then have stride: "img_width v * ?c = of_nat (row_bytes v)" by (metis of_nat_unat ucast_id)
  have m: "crop_checked_multiply (img_width v) ?c f = Inr (of_nat (row_bytes v))" for f
    unfolding crop_checked_multiply_Inr using row stride by simp
  have m2: "crop_checked_multiply (of_nat (row_bytes v)) (img_height v) f = Inr (of_nat (row_bytes v) * img_height v)" for f
    unfolding crop_checked_multiply_Inr stride [symmetric] row(2) using small by simp
  have u: "unat (of_nat (row_bytes v) * img_height v) = row_bytes v * unat (img_height v)"
    using small row(2) unfolding stride by (simp add: unat_mult_exact)
  show ?thesis
    using assms by (simp add: pack_copy_def channels_unat m m2 u packed_buffer_def readable_def)
qed

lemma packed_stride: "readable v \<Longrightarrow> unat (of_nat (row_bytes v) :: 64 word) = row_bytes v"
  using readable_bounds(1,2) [of v] by (simp add: readable_def extent_bytes_def unat_of_nat)

lemma packed_buffer_bytes [simp]:
  "length (img_bytes (packed_buffer v)) = row_bytes v * unat (img_height v)" "img_width (packed_buffer v) = img_width v"
  "img_height (packed_buffer v) = img_height v" "img_format (packed_buffer v) = img_format v" "img_stride (packed_buffer v) = of_nat (row_bytes v)"
  "row_bytes (packed_buffer v) = row_bytes v"
  by (simp_all add: packed_buffer_def row_bytes_def)

lemma copy_whole_succeeds:
  assumes "readable v"
  shows "\<exists>p. copy_crop v (whole_region v) (packed_buffer v) = Inr p"
proof -
  note b = readable_bounds [OF assms]
  have h: "img_height v \<noteq> 0" using assms by (simp add: readable_def)
  from make_crop_view_Inr [OF b(1)] crop_inside [OF whole_region_fits [OF assms]] whole_region_fits [OF assms] assms
  obtain crop where crop: "make_crop_view v (whole_region v) = Inr crop" "img_width crop = img_width v" "img_height crop = img_height v"
    "img_format crop = img_format v" by (auto simp: readable_def whole_region_def)
  have small: "row_bytes v * unat (img_height v) < 2 ^ 64" using b(1,2) by linarith
  have tail: "(unat (img_height v) - 1) * row_bytes v + row_bytes v = row_bytes v * unat (img_height v)"
    using h by (cases "unat (img_height v)") (simp_all add: unat_eq_0)
  have row: "checked_multiply (img_width v) (pixel_format_channels (img_format v)) f = Inr (of_nat (row_bytes v))" for f
  proof -
    have "unat (img_width v) * unat (pixel_format_channels (img_format v)) = row_bytes v" by (simp add: row_bytes_def channels_unat)
    moreover have "row_bytes v < 2 ^ 64" using packed_stride [OF assms] unat_less_2_64 by metis
    ultimately show ?thesis unfolding checked_multiply_Inr using unat_mult_exact packed_stride [OF assms] by (metis of_nat_unat ucast_id)
  qed
  have t: "checked_multiply (img_height v - 1) (of_nat (row_bytes v)) f = Inr ((img_height v - 1) * of_nat (row_bytes v))" and
    tu: "unat ((img_height v - 1) * of_nat (row_bytes v)) = (unat (img_height v) - 1) * row_bytes v" for f
    using tail small unat_mult_exact [of "img_height v - 1" "of_nat (row_bytes v)"]
    by (simp_all add: checked_multiply_Inr unat_pred [OF h] packed_stride [OF assms])
  have a: "checked_add ((img_height v - 1) * of_nat (row_bytes v)) (of_nat (row_bytes v)) f =
      Inr ((img_height v - 1) * of_nat (row_bytes v) + of_nat (row_bytes v))" and
    au: "unat ((img_height v - 1) * of_nat (row_bytes v) + of_nat (row_bytes v)) = row_bytes v * unat (img_height v)" for f
    using tail small unat_add_exact [of "(img_height v - 1) * of_nat (row_bytes v)" "of_nat (row_bytes v)"]
    by (simp_all add: checked_add_Inr tu packed_stride [OF assms])
  have fits: "\<not> of_nat (length (img_bytes (packed_buffer v))) < ((img_height v - 1) * of_nat (row_bytes v) + of_nat (row_bytes v) :: 64 word)"
  proof -
    have "unat (of_nat (row_bytes v * unat (img_height v)) :: 64 word) = row_bytes v * unat (img_height v)" using small by (subst unat_of_nat) simp
    then show ?thesis by (simp only: word_less_nat_alt au packed_buffer_bytes(1) less_irrefl not_False_eq_True)
  qed
  show ?thesis
    using fits by (simp add: copy_crop_def crop pixel_bytes_Inr row t a)
qed

lemma crop_readable:
  assumes "readable src" and "make_crop_view src r = Inr v"
  shows "readable v" and "img_width v = reg_width r" and "img_height v = reg_height r" and "img_format v = img_format src"
    and "crop_fits src r"
proof -
  note b = readable_bounds [OF assms(1)]
  from make_crop_view_Inr [OF b(1)] assms(2) have f: "crop_fits src r" and
    fit: "crop_offset src r + crop_extent src r \<le> length (img_bytes src)" and
    v: "v = \<lparr>img_bytes = slice (img_bytes src) (crop_offset src r) (crop_extent src r), img_width = reg_width r,
         img_height = reg_height r, img_stride = img_stride src, img_format = img_format src\<rparr>" by blast+
  show "crop_fits src r" by (rule f)
  have "row_bytes v \<le> row_bytes src" unfolding row_bytes_def v using f by (simp add: crop_fits_def)
  moreover have "extent_bytes v = crop_extent src r" by (simp add: v extent_bytes_def row_bytes_def crop_extent_def mult.commute)
  moreover have "length (img_bytes v) = crop_extent src r" using fit by (simp add: v slice_def)
  moreover have "reg_width r \<noteq> 0" "reg_height r \<noteq> 0" using f by (auto simp: crop_fits_def)
  ultimately show "readable v" using assms(1) fit by (simp add: readable_def v)
qed (use make_crop_view_Inr [OF readable_bounds(1) [OF assms(1)]] assms(2) in simp_all)

lemma crop_view_exists: "readable src \<Longrightarrow> crop_fits src r \<Longrightarrow> \<exists>v. make_crop_view src r = Inr v"
  using make_crop_view_Inr [OF readable_bounds(1)] crop_inside by (auto simp: readable_def)

lemma pack_copy_shows:
  assumes v: "readable v" and "pack_copy alloc v = Inr p"
  shows "shows_region p v (whole_region v)"
proof -
  from assms have copy: "copy_crop v (whole_region v) (packed_buffer v) = Inr p" by (auto simp: pack_copy_readable result_simps)
  note b = readable_bounds [OF v]
  have len: "length (img_bytes (packed_buffer v)) < 2 ^ 64" using b(1,2) by simp
  from copy_crop_Inr [OF len copy] obtain crop where crop: "make_crop_view v (whole_region v) = Inr crop" by blast
  note rows = copy_crop_rows [OF b(1) len copy crop]
  have p: "img_width p = img_width v" "img_height p = img_height v" "img_format p = img_format v" "img_stride p = of_nat (row_bytes v)"
    using arg_cong [OF rows(1), of img_width] arg_cong [OF rows(1), of img_height] arg_cong [OF rows(1), of img_format]
      arg_cong [OF rows(1), of img_stride] by simp_all
  moreover have "length (img_bytes p) = row_bytes v * unat (img_height v)" using rows(8) [OF rows(6)] by simp
  moreover have "row_bytes p = row_bytes v" by (simp add: row_bytes_def p)
  ultimately show ?thesis
    using copy_crop_pixels [OF b(1) len copy] packed_stride [OF v] by (simp add: shows_region_def whole_region_def)
qed

lemma shows_region_trans:
  assumes "readable src" and "make_crop_view src r = Inr v" and "shows_region p v (whole_region v)"
  shows "shows_region p src r"
  using assms(3) crop_readable [OF assms(1,2)] crop_pixel(2) [OF readable_bounds(1) [OF assms(1)] assms(2)]
  by (simp add: shows_region_def whole_region_def)

section \<open>The fingerprint is a function of the pixels\<close>

lemma mix_row_pixels:
  assumes "readable img" and "y < unat (img_height img)"
  shows "mix_row img (row_bytes img) y = (\<lambda>hash. fold fnv_mix
    (map (\<lambda>i. img_bytes img ! byte_index img y (i div channels_of (img_format img)) (i mod channels_of (img_format img))) [0..<row_bytes img]) hash)"
proof
  fix hash
  have "unat (of_nat y * img_stride img) + i = byte_index img y (i div channels_of (img_format img)) (i mod channels_of (img_format img))" for i
    using row_address [OF assms(2) readable_bounds(6) [OF assms(1)]] by (simp add: byte_index_def)
  then show "mix_row img (row_bytes img) y hash = fold fnv_mix
    (map (\<lambda>i. img_bytes img ! byte_index img y (i div channels_of (img_format img)) (i mod channels_of (img_format img))) [0..<row_bytes img]) hash"
    unfolding mix_row_def fold_map by (simp add: comp_def)
qed

lemma fingerprint_readable:
  assumes "readable img"
  shows "\<exists>h. fingerprint_crop img = Inr (fold (mix_row img (row_bytes img)) [0..<unat (img_height img)] h) \<and>
    h = fnv_mix (format_code (img_format img)) (fold (\<lambda>shift hash. fnv_mix (size_byte (img_height img) shift) (fnv_mix (size_byte (img_width img) shift) hash))
                     [0..<8] fnv_offset_basis)"
proof -
  let ?c = "pixel_format_channels (img_format img)"
  have row: "row_bytes img < 2 ^ 64" using packed_stride [OF assms] unat_less_2_64 by metis
  then have m: "checked_multiply ?c (img_width img) [] = Inr (?c * img_width img)" "unat (img_width img * ?c) = row_bytes img"
    by (simp_all add: checked_multiply_Inr row_bytes_def channels_unat unat_mult_exact mult.commute)
  then have "\<not> size_max div ?c < img_width img" by (auto simp: checked_multiply_def channels_unat split: if_split_asm)
  moreover have "img_bytes img \<noteq> []" using readable_bounds(2,5) [OF assms] assms by (auto simp: readable_def unat_eq_0)
  moreover have "\<not> img_stride img < img_width img * ?c" using assms m(2) by (simp add: word_less_nat_alt readable_def)
  ultimately show ?thesis using assms m(2) by (simp add: fingerprint_crop_def Let_def channels_unat readable_def)
qed

lemma fingerprint_of_pixels:
  assumes a: "readable a" and b: "readable b" and same: "img_width a = img_width b" "img_height a = img_height b" "img_format a = img_format b"
    and pixels: "\<forall>y < unat (img_height b). \<forall>x < unat (img_width b). \<forall>ch < channels_of (img_format b).
      img_bytes a ! byte_index a y x ch = img_bytes b ! byte_index b y x ch"
  shows "fingerprint_crop a = fingerprint_crop b"
proof -
  have row: "row_bytes a = row_bytes b" by (simp add: row_bytes_def same)
  have "mix_row a (row_bytes a) y = mix_row b (row_bytes b) y" if y: "y < unat (img_height b)" for y
  proof -
    have "img_bytes a ! byte_index a y (i div channels_of (img_format b)) (i mod channels_of (img_format b)) =
        img_bytes b ! byte_index b y (i div channels_of (img_format b)) (i mod channels_of (img_format b))" if "i < row_bytes b" for i
    proof -
      have c: "0 < channels_of (img_format b)" by (simp add: channels_of_def split: PixelFormat.split)
      then have "i div channels_of (img_format b) < unat (img_width b)" using that by (simp add: row_bytes_def div_less_iff_less_mult)
      with c pixels y show ?thesis by simp
    qed
    then have "map (\<lambda>i. img_bytes a ! byte_index a y (i div channels_of (img_format a)) (i mod channels_of (img_format a))) [0..<row_bytes a] =
      map (\<lambda>i. img_bytes b ! byte_index b y (i div channels_of (img_format b)) (i mod channels_of (img_format b))) [0..<row_bytes b]"
      unfolding row same by (intro map_cong refl) simp
    then show ?thesis using mix_row_pixels [OF a] mix_row_pixels [OF b] y same by simp
  qed
  then have "fold (mix_row a (row_bytes a)) [0..<unat (img_height b)] h = fold (mix_row b (row_bytes b)) [0..<unat (img_height b)] h" for h
    by (intro fold_cong) simp_all
  then show ?thesis using fingerprint_readable [OF a] fingerprint_readable [OF b] same by simp
qed

lemma shows_readable:
  assumes "readable v" and "shows_region p v (whole_region v)"
  shows "readable p" and "fingerprint_crop p = fingerprint_crop v"
proof -
  note b = readable_bounds [OF assms(1)]
  have row: "row_bytes p = row_bytes v" using assms(2) by (simp add: shows_region_def row_bytes_def whole_region_def)
  have h: "img_height p = img_height v" "img_width p = img_width v" "img_format p = img_format v" using assms(2) by (simp_all add: shows_region_def whole_region_def)
  have "row_bytes v * unat (img_height v) = row_bytes v * (unat (img_height v) - 1) + row_bytes v"
    using assms(1) by (cases "unat (img_height v)") (simp_all add: readable_def unat_eq_0)
  then have "extent_bytes p = length (img_bytes p)" using assms(2) by (simp add: shows_region_def extent_bytes_def row h)
  moreover have "length (img_bytes p) < 2 ^ 63" using assms b(2) by (simp add: shows_region_def row h readable_def)
  ultimately show p: "readable p" using assms by (simp add: readable_def h shows_region_def)
  show "fingerprint_crop p = fingerprint_crop v"
    using assms(2) by (intro fingerprint_of_pixels p assms(1)) (simp_all add: shows_region_def whole_region_def)
qed

lemma fingerprint_same_pixels:
  assumes "shows_region p src r" and "shows_region q src r" and "readable p" and "readable q"
  shows "fingerprint_crop p = fingerprint_crop q"
  using assms by (intro fingerprint_of_pixels) (simp_all add: shows_region_def)

section \<open>Regions lie in the frame\<close>

lemma bbox_region_fits: "region_empty (bbox_region box src px py) \<or> crop_fits src (bbox_region box src px py)"
proof -
  have "crop_fits src \<lparr>reg_x = x, reg_y = y, reg_width = x2 - x, reg_height = y2 - y\<rparr>"
    if "x < x2" "y < y2" "x2 \<le> img_width src" "y2 \<le> img_height src" for x y x2 y2
    using that by (simp add: crop_fits_def word_less_nat_alt word_le_nat_alt unat_sub)
  then show ?thesis
    by (auto simp: bbox_region_def no_region_def region_empty_def clamped_sides_def Let_def)
qed

lemma inset_bound:
  assumes "valid_inset ratio" and "unat extent < 2 ^ 63"
  shows "unat (inset_of extent ratio) \<le> 2 ^ 62"
proof -
  from assms(1) obtain r where r: "ratio = Fin r" "0 \<le> r" "r \<le> 1/2" by (cases ratio) (auto simp: valid_inset_def is_finite_def)
  let ?n = "of_nat (unat extent) :: rat"
  have p: "pow2 63 = 2 ^ 63" "pow2 62 = 2 ^ 62" by (simp_all add: pow2_def)
  have n: "?n \<le> pow2 63" using assms(2) of_nat_mono [of "unat extent" "2 ^ 63"] by (simp add: p)
  moreover have "(0 :: rat) \<le> of_nat (unat extent)" by (rule of_nat_0_le_iff)
  ultimately have N: "round_fl binary64 ?n = Fin (round_rat binary64 ?n)" by (intro b64.round_fl_small) (simp only: abs_of_nonneg)
  have exact: "round_rat binary64 (pow2 63) = pow2 63" "round_rat binary64 (pow2 62) = pow2 62"
    by (rule b64.round_pow2, simp add: binary64_def)+
  have R: "round_rat binary64 ?n \<le> pow2 63" "0 \<le> round_rat binary64 ?n"
    using b64.round_mono [OF n] exact(1) round_rat_nonneg [of ?n] by (simp_all only: of_nat_0_le_iff)
  have "round_rat binary64 ?n * r \<le> pow2 63 * (1/2)" using R r by (intro mult_mono) simp_all
  then have m: "round_rat binary64 ?n * r \<le> pow2 62" by (simp add: p)
  have M: "round_fl binary64 (round_rat binary64 ?n * r) = Fin (round_rat binary64 (round_rat binary64 ?n * r))"
    using m R r by (intro b64.round_fl_small) (simp add: p)
  have b: "round_rat binary64 (round_rat binary64 ?n * r) \<le> 2 ^ 62" "0 \<le> round_rat binary64 (round_rat binary64 ?n * r)"
    using b64.round_mono [OF m] exact(2) R r by (simp_all add: round_rat_nonneg p)
  let ?f = "\<lfloor>round_rat binary64 (round_rat binary64 ?n * r)\<rfloor>"
  have f: "0 \<le> ?f" "?f \<le> 2 ^ 62" using b by (simp_all add: floor_le_iff)
  have "inset_of extent ratio = of_int ?f" unfolding inset_of_def float_of_nat_def N r(1) fmul.simps M floored_def by simp
  moreover obtain m where m: "?f = int m" using zero_le_imp_eq_int [OF f(1)] by blast
  ultimately have "inset_of extent ratio = of_nat m" by (simp only: of_int_of_nat_eq)
  moreover have "m \<le> 2 ^ 62" using f(2) unfolding m by simp
  ultimately show ?thesis by (simp add: unat_of_nat)
qed

lemma text_region_fits:
  assumes "valid_inset (cg_text_left_inset_ratio c)" "valid_inset (cg_text_right_inset_ratio c)" "valid_inset (cg_text_vertical_inset_ratio c)"
    and "readable src"
  shows "region_empty (plate_text_region src c) \<or> crop_fits src (plate_text_region src c)"
proof -
  note b = readable_bounds [OF assms(4)]
  let ?l = "inset_of (img_width src) (cg_text_left_inset_ratio c)" and ?r = "inset_of (img_width src) (cg_text_right_inset_ratio c)"
    and ?v = "inset_of (img_height src) (cg_text_vertical_inset_ratio c)"
  have i: "unat ?l \<le> 2 ^ 62" "unat ?r \<le> 2 ^ 62" "unat ?v \<le> 2 ^ 62"
    using inset_bound [OF assms(1) b(3)] inset_bound [OF assms(2) b(3)] inset_bound [OF assms(3) b(4)] .
  have s: "unat (?l + ?r) = unat ?l + unat ?r" using i by (intro unat_add_exact) simp
  have v: "unat (?v * 2) = unat ?v * 2" using i unat_mult_exact [of ?v 2] by simp
  have "crop_fits src \<lparr>reg_x = ?l, reg_y = ?v, reg_width = img_width src - ?l - ?r, reg_height = img_height src - ?v * 2\<rparr>"
    if "\<not> img_width src \<le> ?l + ?r" "\<not> img_height src \<le> ?v * 2"
  proof -
    have w: "unat ?l + unat ?r < unat (img_width src)" "unat ?v * 2 < unat (img_height src)"
      using that by (simp_all add: word_le_nat_alt not_le s v)
    then have "unat (img_width src - ?l) = unat (img_width src) - unat ?l" by (simp add: unat_sub word_le_nat_alt)
    moreover from this w have "unat (img_width src - ?l - ?r) = unat (img_width src) - unat ?l - unat ?r"
      by (simp add: unat_sub word_le_nat_alt)
    moreover have "unat (img_height src - ?v * 2) = unat (img_height src) - unat ?v * 2" using w by (simp add: unat_sub word_le_nat_alt v)
    ultimately show ?thesis using w by (simp add: crop_fits_def)
  qed
  then show ?thesis by (simp add: plate_text_region_def no_region_def region_empty_def Let_def)
qed

section \<open>The crops of a call\<close>

definition crop_ok :: "CropHypothesisGeneratorConfig \<Rightarrow> ImageView \<Rightarrow> ImageBuffer option \<Rightarrow> CropHypothesis \<Rightarrow> bool" where
  "crop_ok c source aligned h \<longleftrightarrow>
     cg_minimum_width c \<le> img_width (crop_image h) \<and> cg_minimum_height c \<le> img_height (crop_image h) \<and> readable (crop_image h) \<and>
     crop_quality h = Fin 0 \<and> fingerprint_crop (crop_image h) = Inr (crop_fingerprint h) \<and>
     (crop_source h = ''source_image'' \<and> (\<exists>r. crop_fits source r \<and> shows_region (crop_image h) source r) \<or>
      crop_source h = ''perspective_aligner'' \<and> (\<exists>a. aligned = Some a \<and> shows_region (crop_image h) a (whole_region a)))"

definition search_ok :: "CropHypothesisGeneratorConfig \<Rightarrow> ImageView \<Rightarrow> ImageBuffer option \<Rightarrow> CropSearch \<Rightarrow> bool" where
  "search_ok c source aligned s \<longleftrightarrow> length (cs_hypotheses s) \<le> cg_maximum_hypotheses c \<and>
     distinct (map crop_fingerprint (cs_hypotheses s)) \<and> cs_fingerprints s = crop_fingerprint ` set (cs_hypotheses s) \<and>
     (\<forall>h \<in> set (cs_hypotheses s). crop_ok c source aligned h)"

definition crop_error :: "exn \<Rightarrow> bool" where
  "crop_error e \<longleftrightarrow> e = ResourceExhaustedError ''cannot allocate crop hypothesis'' \<or> e = ResourceExhaustedError ''crop hypothesis exceeds vector limits''"

lemma resize_crop_error:
  "map_sum (resize_error ''cannot allocate crop hypothesis'' ''crop hypothesis exceeds vector limits'') id r = Inl e \<Longrightarrow> crop_error e"
  by (cases r) (auto simp: crop_error_def resize_error_def split: AllocationFailure.splits)

text \<open>One crop: the view is readable, and a copy of it is a crop the caller may return.\<close>

lemma try_add_ok:
  assumes "readable v" and "search_ok c source aligned s"
    and view: "\<And>p. shows_region p v (whole_region v) \<Longrightarrow>
      name = ''source_image'' \<and> (\<exists>r. crop_fits source r \<and> shows_region p source r) \<or>
      name = ''perspective_aligner'' \<and> (\<exists>a. aligned = Some a \<and> shows_region p a (whole_region a))"
  shows "case try_add c alloc v kind name s of Inl e \<Rightarrow> crop_error e | Inr s' \<Rightarrow> search_ok c source aligned s'"
proof -
  from fingerprint_readable [OF assms(1)] obtain fp where fp: "fingerprint_crop v = Inr fp" by blast
  have "crop_error e" if "pack_copy alloc v = Inl e" for e
    using that copy_whole_succeeds [OF assms(1)]
    by (auto simp: pack_copy_readable [OF assms(1)] result_simps dest: resize_crop_error)
  moreover have "search_ok c source aligned
      \<lparr>cs_hypotheses = cs_hypotheses s @ [\<lparr>crop_image = p, crop_type = kind_name kind, crop_source = name, crop_fingerprint = fp, crop_quality = Fin 0\<rparr>],
       cs_fingerprints = insert fp (cs_fingerprints s)\<rparr>"
    if "pack_copy alloc v = Inr p" "length (cs_hypotheses s) < cg_maximum_hypotheses c" "\<not> img_width v < cg_minimum_width c"
      "\<not> img_height v < cg_minimum_height c" "fp \<notin> cs_fingerprints s" for p
  proof -
    note p = pack_copy_shows [OF assms(1) that(1)]
    have "img_width p = img_width v" "img_height p = img_height v" using p by (simp_all add: shows_region_def whole_region_def)
    with that(3,4) shows_readable [OF assms(1) p] view [OF p] fp
    have "crop_ok c source aligned \<lparr>crop_image = p, crop_type = kind_name kind, crop_source = name, crop_fingerprint = fp, crop_quality = Fin 0\<rparr>"
      by (simp add: crop_ok_def not_less)
    with assms(2) that(2,5) show ?thesis by (auto simp: search_ok_def)
  qed
  ultimately show ?thesis
    using assms(2) by (auto simp: try_add_def fp split: sum.split) (auto simp: res_bind_def not_le split: sum.splits)
qed

lemma add_region_ok:
  assumes "readable source" and "search_ok c source aligned s" and "region_empty r \<or> crop_fits source r"
  shows "case add_region c alloc source r kind s of Inl e \<Rightarrow> crop_error e | Inr s' \<Rightarrow> search_ok c source aligned s'"
proof (cases "region_empty r")
  case False
  with assms(1,3) crop_view_exists obtain v where v: "make_crop_view source r = Inr v" by blast
  note cr = crop_readable [OF assms(1) v]
  have "case try_add c alloc v kind ''source_image'' s of Inl e \<Rightarrow> crop_error e | Inr s' \<Rightarrow> search_ok c source aligned s'"
    by (rule try_add_ok [OF cr(1) assms(2)]) (use cr(5) shows_region_trans [OF assms(1) v] in blast)
  with False v show ?thesis by (simp add: add_region_def)
qed (simp add: add_region_def assms(2))

definition aligned_readable :: "ImageBuffer option \<Rightarrow> bool" where
  "aligned_readable aligned \<longleftrightarrow> (case aligned of None \<Rightarrow> True | Some a \<Rightarrow> readable a)"

lemma generate_kind_ok:
  assumes "readable source" and "aligned_readable aligned" and "search_ok c source aligned s"
  shows "case generate_kind c alloc source detection aligned kind s of Inl e \<Rightarrow> crop_error e | Inr s' \<Rightarrow> search_ok c source aligned s'"
proof (cases kind)
  case rectified
  show ?thesis
  proof (cases aligned)
    case (Some a)
    then have "readable a" using assms(2) by (simp add: aligned_readable_def)
    then show ?thesis unfolding generate_kind_def rectified using Some assms(3) try_add_ok [of a c source aligned s] by simp
  qed (use rectified assms(3) in \<open>simp add: generate_kind_def\<close>)
next
  case raw_bbox
  then show ?thesis using add_region_ok [OF assms(1,3) bbox_region_fits] by (simp add: generate_kind_def)
next
  case padded_bbox
  then show ?thesis using add_region_ok [OF assms(1,3) bbox_region_fits] by (simp add: generate_kind_def)
qed (use assms(3) in \<open>simp_all add: generate_kind_def\<close>)

lemma generate_loop_ok:
  assumes step: "\<And>kind s. search_ok c source aligned s \<Longrightarrow>
      case step kind s of Inl e \<Rightarrow> crop_error e | Inr s' \<Rightarrow> search_ok c source aligned s'"
    and "search_ok c source aligned s"
  shows "case fst (generate_loop c step ctx kinds s w n) of
      Inl e \<Rightarrow> crop_error e \<or> e = CancelledError ''crop generation cancelled'' \<or> e = TimeoutError ''crop generation deadline exceeded''
    | Inr s' \<Rightarrow> search_ok c source aligned s'"
  using assms(2)
proof (induction kinds arbitrary: s n)
  case (Cons kind kinds)
  let ?check = "check_operation ctx ''crop generation cancelled'' ''crop generation deadline exceeded'' w n"
  obtain r k where check: "?check = (r, k)" by fastforce
  show ?case
  proof (cases r)
    case (Inl e)
    with check_operation_Inl check show ?thesis by (fastforce simp: io_bind_def)
  next
    case Inr
    show ?thesis
    proof (cases "cg_maximum_hypotheses c \<le> length (cs_hypotheses s)")
      case False
      show ?thesis
      proof (cases "step kind s")
        case (Inl e)
        with step [OF Cons.prems, of kind] have "crop_error e" by simp
        with Inl Inr False show ?thesis by (simp add: io_bind_def check io_lift_def)
      next
        case (Inr s')
        with step [OF Cons.prems, of kind] have "search_ok c source aligned s'" by simp
        from Cons.IH [OF this, of k] Inr \<open>r = _\<close> False show ?thesis by (simp add: io_bind_def check io_lift_def)
      qed
    qed (use Inr Cons.prems in \<open>simp add: io_bind_def check io_return_def\<close>)
  qed
qed (simp add: io_return_def)

lemma generator_insets:
  assumes "make_crop_generator config = Inr c"
  shows "valid_inset (cg_text_left_inset_ratio c)" and "valid_inset (cg_text_right_inset_ratio c)"
    and "valid_inset (cg_text_vertical_inset_ratio c)" and "c = config" and "0 < cg_maximum_hypotheses c" and "cg_maximum_hypotheses c \<le> 32"
  using assms by (auto simp: make_crop_generator_def invalid_generator_config_def result_simps split: if_split_asm)

lemma generate_crops_ok:
  assumes "make_crop_generator config = Inr c" and "readable source" and "aligned_readable aligned"
  shows "case fst (generate_crops c alloc source detection aligned ctx w n) of
      Inl e \<Rightarrow> crop_error e \<or> e = CancelledError ''crop generation cancelled'' \<or> e = TimeoutError ''crop generation deadline exceeded''
    | Inr hs \<Rightarrow> \<exists>fps. search_ok c source aligned \<lparr>cs_hypotheses = hs, cs_fingerprints = fps\<rparr>"
proof -
  let ?s = "\<lparr>cs_hypotheses = [], cs_fingerprints = {}\<rparr>"
  have s: "search_ok c source aligned ?s" by (simp add: search_ok_def)
  have "try_add c alloc source plate_dominant_source ''source_image'' ?s = Inl e \<Longrightarrow> crop_error e"
    "try_add c alloc source plate_dominant_source ''source_image'' ?s = Inr s' \<Longrightarrow> search_ok c source aligned s'" for e s'
    using try_add_ok [OF assms(2) s, of "''source_image''" alloc plate_dominant_source] whole_region_fits [OF assms(2)]
    by (auto split: sum.splits)
  note first = this
  have dominant: "case dominant_crops c alloc source ?s of Inl e \<Rightarrow> crop_error e | Inr s' \<Rightarrow> search_ok c source aligned s'"
  proof (cases "try_add c alloc source plate_dominant_source ''source_image'' ?s")
    case (Inr s')
    from first(2) [OF this] have "search_ok c source aligned s'" .
    from add_region_ok [OF assms(2) this text_region_fits [OF generator_insets(1-3) [OF assms(1)] assms(2)]] Inr
    show ?thesis by (simp add: dominant_crops_def)
  qed (simp add: dominant_crops_def first(1))
  have loop: "case fst (generate_loop c (generate_kind c alloc source detection aligned) ctx (cg_generator_order c) ?s w k) of
      Inl e \<Rightarrow> crop_error e \<or> e = CancelledError ''crop generation cancelled'' \<or> e = TimeoutError ''crop generation deadline exceeded''
    | Inr s' \<Rightarrow> search_ok c source aligned s'" for k
    by (rule generate_loop_ok [OF generate_kind_ok [OF assms(2,3)] s])
  have again: "\<exists>fps. search_ok c source aligned \<lparr>cs_hypotheses = cs_hypotheses t, cs_fingerprints = fps\<rparr>" if "search_ok c source aligned t" for t
    using that by (cases t) auto
  show ?thesis
  proof (cases "fst (check_operation ctx ''crop generation cancelled'' ''crop generation deadline exceeded'' w n)")
    case (Inl e)
    then obtain k where "check_operation ctx ''crop generation cancelled'' ''crop generation deadline exceeded'' w n = (Inl e, k)"
      by (metis prod.collapse)
    with check_operation_Inl [OF this] show ?thesis by (auto simp: generate_crops_def io_bind_def Let_def)
  next
    case (Inr u)
    then obtain k where k: "check_operation ctx ''crop generation cancelled'' ''crop generation deadline exceeded'' w n = (Inr u, k)"
      by (metis prod.collapse)
    show ?thesis
      using dominant loop [of k] again
      by (auto simp: generate_crops_def io_bind_def k io_lift_def io_return_def Let_def split: sum.splits prod.splits)
  qed
qed

text \<open>
  C33: the crops of a call are certified. On a frame whose buffer holds it, and an aligned image that holds its own, the generator
  returns at most the configured number of crops, each at least of the minimum size. A crop shows a region inside the frame, or the whole aligned image, byte
  for byte in a packed buffer of its own; its fingerprint is that of its own pixels; and no two crops have the same
  fingerprint, so that no two of them show the same pixels.
\<close>

theorem crop_hypotheses_certified:
  assumes "make_crop_generator config = Inr c" and "readable source" and "aligned_readable aligned"
    and "generate_crops c alloc source detection aligned ctx w n = (Inr hs, n')"
  shows "length hs \<le> cg_maximum_hypotheses config \<and> length hs \<le> 32 \<and> distinct (map crop_fingerprint hs) \<and>
    (\<forall>h \<in> set hs. crop_ok config source aligned h) \<and>
    (\<forall>h \<in> set hs. \<forall>h' \<in> set hs. \<forall>r. shows_region (crop_image h) source r \<longrightarrow> shows_region (crop_image h') source r \<longrightarrow> h = h')"
proof -
  note g = generator_insets [OF assms(1)]
  from generate_crops_ok [OF assms(1-3), of alloc detection ctx w n] assms(4)
  obtain fps where s: "search_ok c source aligned \<lparr>cs_hypotheses = hs, cs_fingerprints = fps\<rparr>" by auto
  have "h = h'" if h: "h \<in> set hs" "h' \<in> set hs" and r: "shows_region (crop_image h) source r" "shows_region (crop_image h') source r" for h h' r
  proof -
    from s h have "crop_ok c source aligned h" "crop_ok c source aligned h'" by (simp_all add: search_ok_def)
    with fingerprint_same_pixels [OF r] have "crop_fingerprint h = crop_fingerprint h'" by (simp add: crop_ok_def)
    moreover have "inj_on crop_fingerprint (set hs)" using s by (simp add: search_ok_def distinct_map)
    ultimately show ?thesis using h by (simp add: inj_on_def)
  qed
  with s g(4,6) show ?thesis by (auto simp: search_ok_def)
qed

text \<open>
  The generator has no failure of its own: on such images what it throws is a cancellation, an exceeded deadline or a
  failed allocation; no detection, however strange its box, makes a region outside the frame.
\<close>

theorem crop_generation_failures:
  assumes "make_crop_generator config = Inr c" and "readable source" and "aligned_readable aligned"
    and "generate_crops c alloc source detection aligned ctx w n = (Inl e, n')"
  shows "e = CancelledError ''crop generation cancelled'' \<or> e = TimeoutError ''crop generation deadline exceeded'' \<or>
    e = ResourceExhaustedError ''cannot allocate crop hypothesis'' \<or> e = ResourceExhaustedError ''crop hypothesis exceeds vector limits''"
  using generate_crops_ok [OF assms(1-3), of alloc detection ctx w n] assms(4) by (auto simp: crop_error_def)

section \<open>A small frame\<close>

definition small_generator_config :: CropHypothesisGeneratorConfig where
  "small_generator_config = default_crop_generator_config\<lparr>cg_minimum_width := 1, cg_minimum_height := 1\<rparr>"

definition left_detection :: Detection where
  "left_detection = \<lparr>det_bbox = \<lparr>bb_x = Fin 0, bb_y = Fin 0, bb_width = Fin 1, bb_height = Fin 2\<rparr>, det_quadrilateral = None,
     det_confidence = Fin 1, det_geometry_score = Fin 1, det_provider = ''demo''\<rparr>"

lemma small_generator_made: "make_crop_generator small_generator_config = Inr small_generator_config"
  by code_simp

lemma tiny_readable: "readable tiny_image"
  by (simp add: readable_def tiny_image_def row_bytes_def extent_bytes_def channels_of_def)

definition quiet_world :: World where
  "quiet_world = \<lparr>w_clock = (\<lambda>_. 0), w_stop = (\<lambda>_. False)\<rparr>"

lemma tiny_crops:
  "map_sum id (map (\<lambda>h. (crop_type h, img_bytes (crop_image h)))) (fst (generate_crops small_generator_config (\<lambda>_ n. Inr n) tiny_image left_detection None
     default_context quiet_world 0)) = Inr [(''raw_bbox'', [1, 5]), (''padded_bbox'', [1, 2, 5, 6])]"
  by code_simp

theorem crop_hypotheses_certified_witness:
  "\<exists>hs n'. generate_crops small_generator_config (\<lambda>_ n. Inr n) tiny_image left_detection None default_context quiet_world 0 = (Inr hs, n') \<and>
     map (\<lambda>h. (crop_type h, img_bytes (crop_image h))) hs = [(''raw_bbox'', [1, 5]), (''padded_bbox'', [1, 2, 5, 6])] \<and>
     distinct (map crop_fingerprint hs)"
proof -
  obtain r n' where r: "generate_crops small_generator_config (\<lambda>_ n. Inr n) tiny_image left_detection None default_context quiet_world 0 = (r, n')"
    by fastforce
  with tiny_crops obtain hs where hs: "r = Inr hs"
    "map (\<lambda>h. (crop_type h, img_bytes (crop_image h))) hs = [(''raw_bbox'', [1, 5]), (''padded_bbox'', [1, 2, 5, 6])]"
    by (cases r) auto
  note crop_hypotheses_certified [OF small_generator_made tiny_readable _ r [unfolded hs(1)]]
  with r hs show ?thesis by (simp add: aligned_readable_def)
qed

theorem crop_generation_failures_witness:
  "fst (generate_crops small_generator_config (\<lambda>_ _. Inl bad_alloc) tiny_image left_detection None default_context quiet_world 0) =
     Inl (ResourceExhaustedError ''cannot allocate crop hypothesis'')"
proof -
  have f: "map_sum id (\<lambda>_. ()) (fst (generate_crops small_generator_config (\<lambda>_ _. Inl bad_alloc) tiny_image left_detection None default_context quiet_world 0)) =
     Inl (ResourceExhaustedError ''cannot allocate crop hypothesis'')" by code_simp
  obtain r n' where r: "generate_crops small_generator_config (\<lambda>_ _. Inl bad_alloc) tiny_image left_detection None default_context quiet_world 0 = (r, n')"
    by fastforce
  with f obtain e where e: "r = Inl e" "e = ResourceExhaustedError ''cannot allocate crop hypothesis''" by (cases r) auto
  from crop_generation_failures [OF small_generator_made tiny_readable _ r [unfolded e(1)]] e(2) r e(1) show ?thesis
    by (simp add: aligned_readable_def)
qed

end
