(* ===== verification/Adaptive_Tiles.thy ===== *)
theory Adaptive_Tiles
  imports Crop_Hypotheses
begin

text \<open>
  The adaptive tile detector (\<^verbatim>\<open>infrastructure/adaptive/adaptive_tile_detector.cpp\<close>): a frame larger than a tile is given to
  the detector whole and again in overlapping tiles; the detections of the tiles are moved back to the frame and merged
  by confidence and overlap. The detector is a parameter. Origins are 64-bit words as in the code.
\<close>

section \<open>Configuration\<close>

record AdaptiveTileConfig =
  at_enabled :: bool
  at_tile_width :: "64 word"
  at_tile_height :: "64 word"
  at_overlap_ratio :: fl
  at_maximum_tiles :: nat
  at_merge_iou_threshold :: fl
  at_maximum_detections :: nat

definition default_tile_config :: AdaptiveTileConfig where
  "default_tile_config = \<lparr>at_enabled = True, at_tile_width = 1280, at_tile_height = 960, at_overlap_ratio = lit32 (20/100),
     at_maximum_tiles = 32, at_merge_iou_threshold = lit32 (45/100), at_maximum_detections = 64\<rparr>"

type_synonym DetectorFunction = "ImageView \<Rightarrow> OperationContext \<Rightarrow> Detection list io"

record AdaptiveTileDetector =
  ad_detector :: DetectorFunction
  ad_config :: AdaptiveTileConfig
  ad_image_limits :: PerformanceConfig

definition invalid_tile_config :: "AdaptiveTileConfig \<Rightarrow> bool" where
  "invalid_tile_config c \<longleftrightarrow> at_tile_width c = 0 \<or> at_tile_height c = 0 \<or> at_maximum_tiles c = 0 \<or> 4096 < at_maximum_tiles c \<or>
     at_maximum_detections c = 0 \<or> 4096 < at_maximum_detections c \<or>
     \<not> is_finite (at_overlap_ratio c) \<or> flt (at_overlap_ratio c) (Fin 0) \<or> fle (Fin (1/2)) (at_overlap_ratio c) \<or>
     \<not> is_finite (at_merge_iou_threshold c) \<or> flt (at_merge_iou_threshold c) (Fin 0) \<or> flt (Fin 1) (at_merge_iou_threshold c)"

definition make_tile_detector :: "DetectorFunction option \<Rightarrow> AdaptiveTileConfig \<Rightarrow> PerformanceConfig \<Rightarrow> AdaptiveTileDetector result" where
  "make_tile_detector detector c limits =
     (case detector of None \<Rightarrow> Inl (ConfigurationError ''adaptive detector requires an underlying detector'')
      | Some d \<Rightarrow> if invalid_tile_config c then Inl (ConfigurationError ''adaptive tile detector configuration is invalid'')
                 else Inr \<lparr>ad_detector = d, ad_config = c, ad_image_limits = limits\<rparr>)"

section \<open>Tiles\<close>

text \<open>The loop over the origins of an axis; \<open>next <= origin\<close> ends it, so it ends for every step.\<close>

definition next_origin :: "64 word \<Rightarrow> 64 word \<Rightarrow> 64 word \<Rightarrow> 64 word \<Rightarrow> 64 word" where
  "next_origin extent tile step origin =
     (let last_origin = extent - tile in if origin > size_max - step then last_origin else min (origin + step) last_origin)"

function origin_loop :: "64 word \<Rightarrow> 64 word \<Rightarrow> 64 word \<Rightarrow> 64 word \<Rightarrow> 64 word list" where
  "origin_loop extent tile step origin =
     (if origin + tile \<ge> extent \<or> next_origin extent tile step origin \<le> origin then [origin]
      else origin # origin_loop extent tile step (next_origin extent tile step origin))"
  by pat_completeness auto

termination origin_loop
proof (relation "measure (\<lambda>(extent, tile, step, origin). 2 ^ 64 - unat origin)")
  fix extent tile step origin :: "64 word"
  assume "\<not> (origin + tile \<ge> extent \<or> next_origin extent tile step origin \<le> origin)"
  then have "unat origin < unat (next_origin extent tile step origin)" by (simp add: word_le_nat_alt)
  with unat_less_2_64 [of origin]
  show "((extent, tile, step, next_origin extent tile step origin), extent, tile, step, origin)
    \<in> measure (\<lambda>(extent, tile, step, origin). 2 ^ 64 - unat origin)" by simp
qed simp

declare origin_loop.simps [simp del]

definition axis_origins :: "64 word \<Rightarrow> 64 word \<Rightarrow> fl \<Rightarrow> 64 word list result" where
  "axis_origins extent tile overlap_ratio =
     (if extent \<le> tile then Inr [0]
      else let overlap = inset_of tile overlap_ratio; step = tile - overlap in
        if step = 0 then Inl (ConfigurationError ''adaptive tile step resolved to zero'')
        else Inr (origin_loop extent tile step 0))"

section \<open>Overlap\<close>

definition tile_iou :: "BoundingBox \<Rightarrow> BoundingBox \<Rightarrow> fl" where
  "tile_iou l r =
     (if \<not> bbox_is_valid l \<or> \<not> bbox_is_valid r then Fin 0
      else let left_right = add32 (bb_x l) (bb_width l); left_bottom = add32 (bb_y l) (bb_height l);
               right_right = add32 (bb_x r) (bb_width r); right_bottom = add32 (bb_y r) (bb_height r)
        in if \<not> is_finite left_right \<or> \<not> is_finite left_bottom \<or> \<not> is_finite right_right \<or> \<not> is_finite right_bottom then Fin 0
           else let width = fmax (Fin 0) (sub32 (fmin left_right right_right) (fmax (bb_x l) (bb_x r)));
                    height = fmax (Fin 0) (sub32 (fmin left_bottom right_bottom) (fmax (bb_y l) (bb_y r)));
                    intersection = mul32 width height;
                    union_area = sub32 (add32 (bbox_area l) (bbox_area r)) intersection
             in if flt (Fin 0) union_area \<and> is_finite union_area
                then fclamp (div32 intersection union_area) (Fin 0) (Fin 1) else Fin 0)"

section \<open>Translation and merging\<close>

definition translate_point :: "fl \<Rightarrow> fl \<Rightarrow> 64 word \<Rightarrow> 64 word \<Rightarrow> Point2f \<Rightarrow> Point2f" where
  "translate_point x_offset y_offset source_width source_height p =
     \<lparr>pt_x = fclamp (add32 (pt_x p) x_offset) (Fin 0) (float_extent source_width),
      pt_y = fclamp (add32 (pt_y p) y_offset) (Fin 0) (float_extent source_height)\<rparr>"

definition translate_detection :: "64 word \<Rightarrow> 64 word \<Rightarrow> 64 word \<Rightarrow> 64 word \<Rightarrow> Detection \<Rightarrow> Detection" where
  "translate_detection offset_x offset_y source_width source_height d =
     (let x_offset = float_extent offset_x; y_offset = float_extent offset_y; box = det_bbox d;
          x = add32 (bb_x box) x_offset; y = add32 (bb_y box) y_offset;
          x1 = fclamp x (Fin 0) (float_extent source_width); y1 = fclamp y (Fin 0) (float_extent source_height);
          x2 = fclamp (add32 x (bb_width box)) (Fin 0) (float_extent source_width);
          y2 = fclamp (add32 y (bb_height box)) (Fin 0) (float_extent source_height)
      in d\<lparr>det_bbox := \<lparr>bb_x = x1, bb_y = y1, bb_width = fmax (Fin 0) (sub32 x2 x1), bb_height = fmax (Fin 0) (sub32 y2 y1)\<rparr>,
           det_quadrilateral := map_option (\<lambda>q. q\<lparr>quad_points :=
             map (translate_point x_offset y_offset source_width source_height) (quad_points q)\<rparr>) (det_quadrilateral d)\<rparr>)"

definition detection_order :: "Detection \<Rightarrow> Detection \<Rightarrow> bool" where
  "detection_order l r =
     (if \<not> feq (det_confidence l) (det_confidence r) then flt (det_confidence r) (det_confidence l)
      else flt (det_geometry_score r) (det_geometry_score l))"

definition mergeable :: "Detection \<Rightarrow> bool" where
  "mergeable d \<longleftrightarrow> bbox_is_valid (det_bbox d) \<and> is_finite (det_confidence d)"

definition merge_duplicate :: "AdaptiveTileConfig \<Rightarrow> Detection \<Rightarrow> Detection \<Rightarrow> bool" where
  "merge_duplicate c d accepted \<longleftrightarrow> flt (at_merge_iou_threshold c) (tile_iou (det_bbox d) (det_bbox accepted))"

fun merge_loop :: "AdaptiveTileConfig \<Rightarrow> Detection list \<Rightarrow> Detection list \<Rightarrow> Detection list" where
  "merge_loop c [] kept = kept"
| "merge_loop c (d # ds) kept =
     (if \<not> mergeable d then merge_loop c ds kept
      else if list_ex (merge_duplicate c d) kept then merge_loop c ds kept
      else let kept' = kept @ [d] in if length kept' \<ge> at_maximum_detections c then kept' else merge_loop c ds kept')"

definition merge_detections :: "AdaptiveTileConfig \<Rightarrow> Detection list \<Rightarrow> Detection list" where
  "merge_detections c ds = merge_loop c (stable_sort detection_order ds) []"

section \<open>Detection\<close>

abbreviation check_adaptive :: "OperationContext \<Rightarrow> unit io" where
  "check_adaptive ctx \<equiv> check_operation ctx ''adaptive detection cancelled'' ''adaptive detection deadline exceeded''"

definition needs_tiles :: "AdaptiveTileConfig \<Rightarrow> ImageView \<Rightarrow> bool" where
  "needs_tiles c img \<longleftrightarrow> at_enabled c \<and> (img_width img > at_tile_width c \<or> img_height img > at_tile_height c)"

definition tile_region :: "AdaptiveTileConfig \<Rightarrow> ImageView \<Rightarrow> 64 word \<times> 64 word \<Rightarrow> ImageRegion" where
  "tile_region c img = (\<lambda>(x, y). \<lparr>reg_x = x, reg_y = y, reg_width = min (at_tile_width c) (img_width img - x),
     reg_height = min (at_tile_height c) (img_height img - y)\<rparr>)"

definition tile_origins :: "AdaptiveTileConfig \<Rightarrow> ImageView \<Rightarrow> (64 word \<times> 64 word) list result" where
  "tile_origins c img =
     res_bind (axis_origins (img_width img) (at_tile_width c) (at_overlap_ratio c)) (\<lambda>x_origins.
     res_bind (axis_origins (img_height img) (at_tile_height c) (at_overlap_ratio c)) (\<lambda>y_origins.
     if length x_origins > unat size_max div length y_origins \<or> length x_origins * length y_origins > at_maximum_tiles c
     then Inl (ResourceExhaustedError ''adaptive tile count exceeds configured maximum'')
     else Inr (concat (map (\<lambda>y. map (\<lambda>x. (x, y)) x_origins) y_origins))))"

definition detect_tile :: "AdaptiveTileDetector \<Rightarrow> ImageView \<Rightarrow> OperationContext \<Rightarrow> 64 word \<times> 64 word \<Rightarrow> Detection list \<Rightarrow>
    Detection list io" where
  "detect_tile a img ctx origin combined =
     io_bind (check_adaptive ctx) (\<lambda>_.
     io_bind (io_lift (make_crop_view img (tile_region (ad_config a) img origin))) (\<lambda>tile.
     io_bind (ad_detector a tile ctx) (\<lambda>detections.
     io_return (combined @ map (translate_detection (fst origin) (snd origin) (img_width img) (img_height img)) detections))))"

definition adaptive_detect :: "AdaptiveTileDetector \<Rightarrow> DetectorFunction" where
  "adaptive_detect a image_view ctx =
     io_bind (check_adaptive ctx) (\<lambda>_.
     io_bind (io_lift (validate_image image_view (ad_image_limits a))) (\<lambda>validated.
     let img = vi_view validated in
     io_bind (ad_detector a img ctx) (\<lambda>combined.
     if \<not> needs_tiles (ad_config a) img then io_return (merge_detections (ad_config a) combined)
     else io_bind (io_lift (tile_origins (ad_config a) img)) (\<lambda>origins.
       io_bind (io_fold (detect_tile a img ctx) origins combined) (\<lambda>combined.
       io_return (merge_detections (ad_config a) combined))))))"

section \<open>The tiles cover the frame\<close>

lemma inset_less:
  assumes "valid_inset ratio" and "tile \<noteq> 0" and "unat tile < 2 ^ 53"
  shows "unat (inset_of tile ratio) < unat tile"
proof -
  from assms(1) obtain r where r: "ratio = Fin r" "0 \<le> r" "r < 1/2" by (cases ratio) (auto simp: valid_inset_def is_finite_def)
  let ?t = "unat tile"
  have pos: "1 \<le> ?t" using assms(2) by (simp add: unat_gt_0 Suc_le_eq)
  have N: "round_fl binary64 (of_nat ?t) = Fin (of_nat ?t)" using round_fl64_int [of "int ?t"] assms(3) by (simp del: of_nat_unat)
  define y where "y = round_rat binary64 (of_nat ?t * r)"
  have below: "y < of_nat ?t"
  proof (cases "?t = 1")
    case True
    have "round_rat binary64 r \<le> round_rat binary64 (pow2 (- 1))" using r by (intro b64.round_mono) (simp add: pow2_def)
    also have "\<dots> = pow2 (- 1)" by (rule b64.round_pow2) (simp add: binary64_def)
    finally show ?thesis using True by (simp add: y_def pow2_def)
  next
    case False
    have half: "?t \<le> 2 * ((?t + 1) div 2)" "(?t + 1) div 2 < ?t" using pos False by presburger+
    have "of_nat ?t * r \<le> of_nat ?t * (1/2 :: rat)" by (intro mult_left_mono of_nat_0_le_iff) (use r in linarith)
    also have "\<dots> \<le> of_nat ((?t + 1) div 2)"
      using of_nat_mono [OF half(1), where 'a = rat] by (simp only: of_nat_mult of_nat_numeral)
    finally have "y \<le> round_rat binary64 (of_nat ((?t + 1) div 2))" unfolding y_def by (rule b64.round_mono)
    also have "\<dots> = of_nat ((?t + 1) div 2)" using half(2) assms(3) by (intro b64.round_nat) (simp add: binary64_def)
    also have "\<dots> < of_nat ?t" using half(2) by (simp only: of_nat_less_iff)
    finally show ?thesis .
  qed
  have y: "0 \<le> y" unfolding y_def by (intro round_rat_nonneg mult_nonneg_nonneg of_nat_0_le_iff r)
  have "of_nat ?t * r \<le> of_nat ?t * (1 :: rat)" by (intro mult_left_mono of_nat_0_le_iff) (use r in linarith)
  also have "\<dots> \<le> pow2 63" using of_nat_mono [of ?t "2 ^ 63", where 'a = rat] assms(3) by (simp add: pow2_def del: of_nat_unat)
  finally have "round_fl binary64 (of_nat ?t * r) = Fin y" unfolding y_def using r
    by (intro b64.round_fl_small) (simp only: abs_of_nonneg mult_nonneg_nonneg of_nat_0_le_iff)
  then have "inset_of tile ratio = of_int \<lfloor>y\<rfloor>" unfolding inset_of_def float_of_nat_def N r(1) fmul.simps floored_def by simp
  moreover obtain m where m: "\<lfloor>y\<rfloor> = int m" using zero_le_imp_eq_int [of "\<lfloor>y\<rfloor>"] y by auto
  ultimately have i: "inset_of tile ratio = of_nat m" by (simp only: of_int_of_nat_eq)
  have "of_int (int m) \<le> y" unfolding m [symmetric] by (rule of_int_floor_le)
  with below have "(of_nat m :: rat) < of_nat ?t" by (simp only: of_int_of_nat_eq)
  then have "m < ?t" by (simp only: of_nat_less_iff)
  then show ?thesis using assms(3) unfolding i by (simp add: unat_of_nat)
qed

lemma next_origin_exact:
  assumes "tile < extent" and "0 < unat step" and "unat origin + unat tile < unat extent"
  shows "unat (next_origin extent tile step origin) = min (unat origin + unat step) (unat extent - unat tile)"
proof -
  have l: "unat (extent - tile) = unat extent - unat tile" using assms(1) by (simp add: unat_sub word_le_nat_alt word_less_nat_alt)
  have "unat (size_max - step) = 2 ^ 64 - 1 - unat step" using unat_less_2_64 [of step] by (simp add: unat_sub word_le_nat_alt)
  then have o: "origin > size_max - step \<longleftrightarrow> \<not> unat origin + unat step < 2 ^ 64"
    using unat_less_2_64 [of step] by (auto simp: word_less_nat_alt)
  show ?thesis
  proof (cases "unat origin + unat step < 2 ^ 64")
    case True
    then have "unat (origin + step) = unat origin + unat step" by (rule unat_add_exact)
    with True o l show ?thesis by (simp add: next_origin_def min_def word_le_nat_alt)
  next
    case False
    with o l unat_less_2_64 [of extent] show ?thesis by (simp add: next_origin_def)
  qed
qed

lemma origin_loop_spec:
  assumes "tile < extent" and "0 < unat step" and "unat step \<le> unat tile" and "unat origin + unat tile \<le> unat extent"
  shows "(\<forall>x \<in> set (origin_loop extent tile step origin). unat origin \<le> unat x \<and> unat x + unat tile \<le> unat extent) \<and>
    (\<forall>p. unat origin \<le> p \<longrightarrow> p < unat extent \<longrightarrow>
      (\<exists>x \<in> set (origin_loop extent tile step origin). unat x \<le> p \<and> p < unat x + unat tile)) \<and>
    sorted_wrt (<) (map unat (origin_loop extent tile step origin))"
  using assms
proof (induction extent tile step origin rule: origin_loop.induct)
  case (1 extent tile step origin)
  let ?next = "next_origin extent tile step origin"
  have add: "unat (origin + tile) = unat origin + unat tile"
    using 1(5) unat_less_2_64 [of extent] by (intro unat_add_exact) simp
  show ?case
  proof (cases "origin + tile \<ge> extent")
    case True
    then have "unat extent \<le> unat origin + unat tile" by (simp add: word_le_nat_alt add)
    with True 1(5) show ?thesis by (simp add: origin_loop.simps [of extent tile step origin])
  next
    case False
    then have less: "unat origin + unat tile < unat extent" by (simp add: word_le_nat_alt add)
    note n = next_origin_exact [OF 1(2,3) less]
    have go: "\<not> ?next \<le> origin" using n 1(3) less by (simp add: word_le_nat_alt)
    have "unat ?next + unat tile \<le> unat extent" using n less by simp
    with 1(1) False go 1(2-4) have IH: "\<forall>x \<in> set (origin_loop extent tile step ?next). unat ?next \<le> unat x \<and> unat x + unat tile \<le> unat extent"
      "\<And>p. unat ?next \<le> p \<Longrightarrow> p < unat extent \<Longrightarrow> \<exists>x \<in> set (origin_loop extent tile step ?next). unat x \<le> p \<and> p < unat x + unat tile"
      "sorted_wrt (<) (map unat (origin_loop extent tile step ?next))"
      by blast+
    have unfold: "origin_loop extent tile step origin = origin # origin_loop extent tile step ?next"
      using False go by (simp add: origin_loop.simps [of extent tile step origin])
    have up: "unat origin < unat ?next" using go by (simp add: word_le_nat_alt)
    then have "sorted_wrt (<) (map unat (origin_loop extent tile step origin))" using IH(1,3) by (force simp: unfold)
    moreover have "unat origin \<le> unat ?next" using up by simp
    moreover have "\<exists>x \<in> set (origin_loop extent tile step origin). unat x \<le> p \<and> p < unat x + unat tile"
      if "unat origin \<le> p" "p < unat extent" for p
    proof (cases "unat ?next \<le> p")
      case False
      then have "p < unat origin + unat tile" using n 1(4) by simp
      with that(1) show ?thesis by (simp add: unfold)
    qed (use IH(2) that in \<open>auto simp: unfold\<close>)
    ultimately show ?thesis using IH(1) less by (auto simp: unfold intro: order_trans)
  qed
qed

definition tile_extent :: "64 word \<Rightarrow> 64 word \<Rightarrow> 64 word \<Rightarrow> nat" where
  "tile_extent extent tile x = unat (min tile (extent - x))"

lemma axis_origins_cover:
  assumes "valid_inset ratio" and "tile \<noteq> 0" and "unat tile < 2 ^ 53" and "extent \<noteq> 0"
  shows "\<exists>os. axis_origins extent tile ratio = Inr os \<and> os \<noteq> [] \<and> sorted_wrt (<) (map unat os) \<and>
    (\<forall>x \<in> set os. 0 < tile_extent extent tile x \<and> unat x + tile_extent extent tile x \<le> unat extent) \<and>
    (\<forall>p < unat extent. \<exists>x \<in> set os. unat x \<le> p \<and> p < unat x + tile_extent extent tile x)"
proof (cases "extent \<le> tile")
  case True
  then have "tile_extent extent tile 0 = unat extent" by (simp add: tile_extent_def min_def word_le_nat_alt)
  with True assms(4) show ?thesis by (simp add: axis_origins_def unat_gt_0)
next
  case False
  let ?step = "tile - inset_of tile ratio"
  note i = inset_less [OF assms(1-3)]
  then have s: "unat ?step = unat tile - unat (inset_of tile ratio)" by (simp add: unat_sub word_le_nat_alt)
  then have step: "0 < unat ?step" "unat ?step \<le> unat tile" "?step \<noteq> 0" using i by (auto simp: unat_eq_0)
  have t: "tile < extent" "unat tile \<le> unat extent" using False by (simp_all add: word_le_nat_alt not_le word_less_nat_alt)
  note spec = origin_loop_spec [OF t(1) step(1,2), of 0, simplified, OF t(2)]
  have e: "tile_extent extent tile x = unat tile" if "unat x + unat tile \<le> unat extent" for x
  proof -
    have "unat (extent - x) = unat extent - unat x" using that by (simp add: unat_sub word_le_nat_alt)
    with that show ?thesis by (simp add: tile_extent_def min_def word_le_nat_alt)
  qed
  have "axis_origins extent tile ratio = Inr (origin_loop extent tile ?step 0)" using False step(3) by (simp add: axis_origins_def Let_def)
  moreover have "origin_loop extent tile ?step 0 \<noteq> []" by (simp add: origin_loop.simps [of extent tile ?step 0])
  moreover have "0 < unat tile" using assms(2) by (simp add: unat_gt_0)
  ultimately show ?thesis using spec e by auto
qed

lemma made_tile_detector:
  assumes "make_tile_detector detector c limits = Inr a"
  obtains d where "detector = Some d" and "a = \<lparr>ad_detector = d, ad_config = c, ad_image_limits = limits\<rparr>" and "\<not> invalid_tile_config c"
    and "valid_inset (at_overlap_ratio c)"
proof -
  from assms obtain d where d: "detector = Some d" "a = \<lparr>ad_detector = d, ad_config = c, ad_image_limits = limits\<rparr>" "\<not> invalid_tile_config c"
    by (auto simp: make_tile_detector_def split: option.split_asm if_split_asm)
  then have "valid_inset (at_overlap_ratio c)"
    by (cases "at_overlap_ratio c") (auto simp: invalid_tile_config_def valid_inset_def is_finite_def)
  with d that show thesis by blast
qed

lemma image_ok_readable: "image_ok limits img \<Longrightarrow> length (img_bytes img) < 2 ^ 63 \<Longrightarrow> readable img"
  by (auto simp: image_ok_def readable_def)

definition in_region :: "ImageRegion \<Rightarrow> nat \<Rightarrow> nat \<Rightarrow> bool" where
  "in_region r x y \<longleftrightarrow> unat (reg_x r) \<le> x \<and> x < unat (reg_x r) + unat (reg_width r) \<and>
     unat (reg_y r) \<le> y \<and> y < unat (reg_y r) + unat (reg_height r)"

text \<open>The tiles of a readable frame: inside it, and over all of it.\<close>

lemma tile_origins_cover:
  assumes "\<not> invalid_tile_config c" and "valid_inset (at_overlap_ratio c)" and "unat (at_tile_width c) < 2 ^ 53"
    and "unat (at_tile_height c) < 2 ^ 53" and "readable img"
  shows "case tile_origins c img of Inl e \<Rightarrow> e = ResourceExhaustedError ''adaptive tile count exceeds configured maximum''
    | Inr origins \<Rightarrow> length origins \<le> at_maximum_tiles c \<and>
        (\<exists>xs ys. sorted_wrt (<) (map unat xs) \<and> sorted_wrt (<) (map unat ys) \<and> origins = concat (map (\<lambda>y. map (\<lambda>x. (x, y)) xs) ys)) \<and>
        (\<forall>p \<in> set origins. crop_fits img (tile_region c img p)) \<and>
        (\<forall>x < unat (img_width img). \<forall>y < unat (img_height img). \<exists>p \<in> set origins. in_region (tile_region c img p) x y)"
proof -
  have sizes: "at_tile_width c \<noteq> 0" "at_tile_height c \<noteq> 0" using assms(1) by (simp_all add: invalid_tile_config_def)
  have frame: "img_width img \<noteq> 0" "img_height img \<noteq> 0" using assms(5) by (simp_all add: readable_def)
  from axis_origins_cover [OF assms(2) sizes(1) assms(3) frame(1)] axis_origins_cover [OF assms(2) sizes(2) assms(4) frame(2)]
  obtain xs ys where
    xs: "axis_origins (img_width img) (at_tile_width c) (at_overlap_ratio c) = Inr xs" "sorted_wrt (<) (map unat xs)"
      "\<forall>x \<in> set xs. 0 < tile_extent (img_width img) (at_tile_width c) x \<and> unat x + tile_extent (img_width img) (at_tile_width c) x \<le> unat (img_width img)"
      "\<forall>p < unat (img_width img). \<exists>x \<in> set xs. unat x \<le> p \<and> p < unat x + tile_extent (img_width img) (at_tile_width c) x" and
    ys: "axis_origins (img_height img) (at_tile_height c) (at_overlap_ratio c) = Inr ys" "sorted_wrt (<) (map unat ys)"
      "\<forall>x \<in> set ys. 0 < tile_extent (img_height img) (at_tile_height c) x \<and> unat x + tile_extent (img_height img) (at_tile_height c) x \<le> unat (img_height img)"
      "\<forall>p < unat (img_height img). \<exists>x \<in> set ys. unat x \<le> p \<and> p < unat x + tile_extent (img_height img) (at_tile_height c) x" by metis
  let ?os = "concat (map (\<lambda>y. map (\<lambda>x. (x, y)) xs) ys)"
  have set_os: "set ?os = {(x, y). x \<in> set xs \<and> y \<in> set ys}" by auto
  have len: "length ?os = length xs * length ys" by (simp add: length_concat comp_def sum_list_triv)
  have region: "unat (reg_x (tile_region c img (x, y))) = unat x" "unat (reg_y (tile_region c img (x, y))) = unat y"
    "unat (reg_width (tile_region c img (x, y))) = tile_extent (img_width img) (at_tile_width c) x"
    "unat (reg_height (tile_region c img (x, y))) = tile_extent (img_height img) (at_tile_height c) y" for x y
    by (simp_all add: tile_region_def tile_extent_def)
  have fits: "\<forall>p \<in> set ?os. crop_fits img (tile_region c img p)" using xs(3) ys(3) unfolding set_os by (auto simp: crop_fits_def region)
  have cover: "\<exists>p \<in> set ?os. in_region (tile_region c img p) x y" if x: "x < unat (img_width img)" and y: "y < unat (img_height img)" for x y
  proof -
    from xs(4) x obtain ox where ox: "ox \<in> set xs" "unat ox \<le> x" "x < unat ox + tile_extent (img_width img) (at_tile_width c) ox" by blast
    from ys(4) y obtain oy where oy: "oy \<in> set ys" "unat oy \<le> y" "y < unat oy + tile_extent (img_height img) (at_tile_height c) oy" by blast
    from ox oy have "(ox, oy) \<in> set ?os" "in_region (tile_region c img (ox, oy)) x y" by (auto simp: in_region_def region)
    then show ?thesis by blast
  qed
  have "tile_origins c img = (if length xs > unat size_max div length ys \<or> length xs * length ys > at_maximum_tiles c
     then Inl (ResourceExhaustedError ''adaptive tile count exceeds configured maximum'') else Inr ?os)"
    by (simp add: tile_origins_def xs(1) ys(1))
  with fits cover len xs(2) ys(2) show ?thesis by auto
qed

text \<open>Different tiles have different origins.\<close>

lemma product_distinct:
  fixes xs ys :: "64 word list"
  assumes "sorted_wrt (<) (map unat xs)" and "sorted_wrt (<) (map unat ys)"
  shows "distinct (concat (map (\<lambda>y. map (\<lambda>x. (x, y)) xs) ys))"
proof -
  have d: "distinct zs" if "sorted_wrt (<) (map unat zs)" for zs :: "64 word list"
    using that by (induction zs) auto
  show ?thesis using d [OF assms(2)] d [OF assms(1)]
    by (induction ys) (auto simp: distinct_map inj_on_def)
qed

text \<open>
  C34: the tiles see the whole frame. On a frame whose buffer holds it, with tiles of fewer than \<open>2 ^ 53\<close> pixels a side, the
  tiling answers or reports too many tiles; its loop ends for every extent. The tiles it answers are within the configured number, each can be cut from the
  frame and shows it, and every pixel of the frame is in one of them. They are the rows and columns of strictly
  increasing origins on each axis, so no tile is visited twice.
\<close>

theorem tiles_cover_frame:
  assumes "make_tile_detector detector c limits = Inr a" and "unat (at_tile_width c) < 2 ^ 53" and "unat (at_tile_height c) < 2 ^ 53"
    and "image_ok limits img" and "length (img_bytes img) < 2 ^ 63"
  shows "tile_origins c img = Inl (ResourceExhaustedError ''adaptive tile count exceeds configured maximum'') \<or>
    (\<exists>origins. tile_origins c img = Inr origins \<and> length origins \<le> at_maximum_tiles c \<and> distinct origins \<and>
       (\<exists>xs ys. sorted_wrt (<) (map unat xs) \<and> sorted_wrt (<) (map unat ys) \<and> origins = concat (map (\<lambda>y. map (\<lambda>x. (x, y)) xs) ys)) \<and>
       (\<forall>p \<in> set origins. \<exists>v. make_crop_view img (tile_region c img p) = Inr v) \<and>
       (\<forall>x < unat (img_width img). \<forall>y < unat (img_height img). \<exists>p \<in> set origins. in_region (tile_region c img p) x y))"
proof -
  obtain d where "\<not> invalid_tile_config c" "valid_inset (at_overlap_ratio c)" by (rule made_tile_detector [OF assms(1)])
  from tile_origins_cover [OF this assms(2,3) image_ok_readable [OF assms(4,5)]] crop_view_exists [OF image_ok_readable [OF assms(4,5)]]
  show ?thesis using product_distinct by (cases "tile_origins c img") auto
qed

section \<open>The merged detections\<close>

lemma merge_loop_append: "\<exists>new. merge_loop c ds kept = kept @ new \<and> set new \<subseteq> {d \<in> set ds. mergeable d}"
proof (induction ds arbitrary: kept)
  case (Cons d ds)
  from Cons.IH [of kept] Cons.IH [of "kept @ [d]"] show ?case by (fastforce simp: Let_def)
qed simp

lemma merge_loop_length:
  "length kept < at_maximum_detections c \<Longrightarrow> length (merge_loop c ds kept) \<le> at_maximum_detections c"
  by (induction ds arbitrary: kept) (auto simp: Let_def)

lemma merge_loop_sorted:
  assumes "sorted_wrt R (kept @ ds)"
  shows "sorted_wrt R (merge_loop c ds kept)"
  using assms
proof (induction ds arbitrary: kept)
  case (Cons d ds)
  have "sorted_wrt R (kept @ ds)" "sorted_wrt R ((kept @ [d]) @ ds)" "sorted_wrt R (kept @ [d])"
    using Cons.prems by (auto simp: sorted_wrt_append)
  with Cons.IH [of kept] Cons.IH [of "kept @ [d]"] show ?case by (simp add: Let_def)
qed simp

lemma merge_loop_apart:
  assumes "sorted_wrt (\<lambda>a d. \<not> merge_duplicate c d a) kept"
  shows "sorted_wrt (\<lambda>a d. \<not> merge_duplicate c d a) (merge_loop c ds kept)"
  using assms
proof (induction ds arbitrary: kept)
  case (Cons d ds)
  have "sorted_wrt (\<lambda>a d. \<not> merge_duplicate c d a) (kept @ [d])" if "\<not> list_ex (merge_duplicate c d) kept"
    using Cons.prems that by (auto simp: sorted_wrt_append list_ex_iff)
  with Cons.IH [of kept] Cons.IH [of "kept @ [d]"] Cons.prems show ?case by (simp add: Let_def)
qed simp

text \<open>Unless the limit is reached, whatever was mergeable is kept or overlaps a kept detection that was no worse.\<close>

lemma merge_loop_covers:
  assumes "length (merge_loop c ds kept) < at_maximum_detections c" and "d \<in> set ds" and "mergeable d" and "sorted_wrt R (kept @ ds)"
  shows "d \<in> set (merge_loop c ds kept) \<or> (\<exists>a \<in> set (merge_loop c ds kept). merge_duplicate c d a \<and> R a d)"
  using assms
proof (induction ds arbitrary: kept)
  case (Cons e ds)
  have skip: "sorted_wrt R (kept @ ds)" and take: "sorted_wrt R ((kept @ [e]) @ ds)" using Cons.prems(4) by (auto simp: sorted_wrt_append)
  show ?case
  proof (cases "mergeable e \<and> \<not> list_ex (merge_duplicate c e) kept")
    case True
    with Cons.prems(1) have m: "merge_loop c (e # ds) kept = merge_loop c ds (kept @ [e])" by (auto simp: Let_def split: if_split_asm)
    from merge_loop_append [of c ds "kept @ [e]"] have "e \<in> set (merge_loop c ds (kept @ [e]))" by auto
    with Cons.IH [OF _ _ Cons.prems(3) take] Cons.prems(1,2) show ?thesis unfolding m by auto
  next
    case False
    then have m: "merge_loop c (e # ds) kept = merge_loop c ds kept" by auto
    show ?thesis
    proof (cases "d = e")
      case True
      with False Cons.prems(3) obtain a where a: "a \<in> set kept" "merge_duplicate c d a" by (auto simp: list_ex_iff)
      from merge_loop_append [of c ds kept] a(1) have "a \<in> set (merge_loop c ds kept)" by auto
      moreover have "R a d" using Cons.prems(4) a(1) True by (auto simp: sorted_wrt_append)
      ultimately show ?thesis using a(2) unfolding m by blast
    qed (use Cons.IH [OF _ _ Cons.prems(3) skip] Cons.prems(1,2) m in auto)
  qed
qed simp

interpretation detection_ranking: weak_order_on detection_order "\<lambda>d. det_confidence d \<noteq> NaN \<and> det_geometry_score d \<noteq> NaN"
proof
  fix x y z :: Detection
  assume "det_confidence x \<noteq> NaN \<and> det_geometry_score x \<noteq> NaN" "det_confidence y \<noteq> NaN \<and> det_geometry_score y \<noteq> NaN"
    "det_confidence z \<noteq> NaN \<and> det_geometry_score z \<noteq> NaN" "\<not> detection_order y x" "\<not> detection_order z y"
  then show "\<not> detection_order z x"
    by (auto simp: detection_order_def not_flt feq_def split: if_split_asm dest: flt_trans fle_flt_trans fle_trans fle_not_flt fle_antisym)
qed (auto simp: detection_order_def feq_def split: if_splits dest: flt_asym)

lemma detection_order_confidence:
  assumes "\<not> detection_order b a" and "det_confidence a \<noteq> NaN" and "det_confidence b \<noteq> NaN"
  shows "fle (det_confidence b) (det_confidence a)"
  using assms by (auto simp: detection_order_def not_flt feq_def split: if_split_asm)

text \<open>A comparison of confidences is no order when one of them is a NaN; the code sorts before it drops those detections.\<close>

lemma NaN_confidence_breaks_order:
  fixes d :: Detection
  defines "a \<equiv> d\<lparr>det_confidence := Fin 1\<rparr>" and "b \<equiv> d\<lparr>det_confidence := NaN\<rparr>" and "e \<equiv> d\<lparr>det_confidence := Fin 0\<rparr>"
  shows "\<not> detection_order e b \<and> \<not> detection_order b e \<and> \<not> detection_order b a \<and> \<not> detection_order a b \<and> detection_order a e"
  by (simp add: detection_order_def a_def b_def e_def)

definition ranked_input :: "Detection list \<Rightarrow> bool" where
  "ranked_input ds \<longleftrightarrow> (\<forall>d \<in> set ds. det_confidence d \<noteq> NaN \<and> det_geometry_score d \<noteq> NaN)"

lemma merge_detections_spec:
  fixes ds :: "Detection list"
  assumes "0 < at_maximum_detections c"
  defines "m \<equiv> merge_detections c ds"
  shows "length m \<le> at_maximum_detections c" and "set m \<subseteq> {d \<in> set ds. mergeable d}"
    and "sorted_wrt (\<lambda>a d. \<not> merge_duplicate c d a) m"
    and "ranked_input ds \<Longrightarrow> sorted_wrt (\<lambda>a d. fle (det_confidence d) (det_confidence a)) m"
    and "ranked_input ds \<Longrightarrow> length m < at_maximum_detections c \<Longrightarrow> d \<in> set ds \<Longrightarrow> mergeable d \<Longrightarrow>
      d \<in> set m \<or> (\<exists>a \<in> set m. merge_duplicate c d a \<and> fle (det_confidence d) (det_confidence a))"
proof -
  show "length m \<le> at_maximum_detections c" unfolding m_def merge_detections_def by (rule merge_loop_length) (simp add: assms(1))
  show "set m \<subseteq> {d \<in> set ds. mergeable d}"
    using merge_loop_append [of c "stable_sort detection_order ds" "[]"] by (auto simp: m_def merge_detections_def)
  show "sorted_wrt (\<lambda>a d. \<not> merge_duplicate c d a) m" unfolding m_def merge_detections_def by (rule merge_loop_apart) simp
  assume r: "ranked_input ds"
  then have "sorted_wrt (\<lambda>a b. \<not> detection_order b a) (stable_sort detection_order ds)"
    by (intro detection_ranking.stable_sort_sorted) (simp add: ranked_input_def)
  then have s: "sorted_wrt (\<lambda>a d. fle (det_confidence d) (det_confidence a)) ([] @ stable_sort detection_order ds)"
    unfolding append_Nil by (rule sorted_wrt_mono_rel [rotated]) (use r in \<open>auto simp: ranked_input_def intro: detection_order_confidence\<close>)
  then show "sorted_wrt (\<lambda>a d. fle (det_confidence d) (det_confidence a)) m"
    unfolding m_def merge_detections_def by (rule merge_loop_sorted)
  show "d \<in> set m \<or> (\<exists>a \<in> set m. merge_duplicate c d a \<and> fle (det_confidence d) (det_confidence a))"
    if "length m < at_maximum_detections c" "d \<in> set ds" "mergeable d"
    using merge_loop_covers [OF that(1) [unfolded m_def merge_detections_def] _ that(3) s] that(2)
    unfolding m_def merge_detections_def by simp
qed

text \<open>What the underlying detector has answered on an image, in some call.\<close>

definition answered :: "DetectorFunction \<Rightarrow> ImageView \<Rightarrow> OperationContext \<Rightarrow> Detection \<Rightarrow> bool" where
  "answered detect v ctx d \<longleftrightarrow> (\<exists>w n ds n'. detect v ctx w n = (Inr ds, n') \<and> d \<in> set ds)"

definition from_tile :: "AdaptiveTileDetector \<Rightarrow> ImageView \<Rightarrow> OperationContext \<Rightarrow> Detection \<Rightarrow> bool" where
  "from_tile a img ctx d \<longleftrightarrow> (\<exists>p v e. crop_fits img (tile_region (ad_config a) img p) \<and>
     make_crop_view img (tile_region (ad_config a) img p) = Inr v \<and> answered (ad_detector a) v ctx e \<and>
     d = translate_detection (fst p) (snd p) (img_width img) (img_height img) e)"

lemma detect_tile_found:
  assumes "detect_tile a img ctx p combined w n = (Inr combined', n')" and "length (img_bytes img) < 2 ^ 64"
    and "\<forall>d \<in> set combined. answered (ad_detector a) img ctx d \<or> from_tile a img ctx d"
  shows "\<forall>d \<in> set combined'. answered (ad_detector a) img ctx d \<or> from_tile a img ctx d"
proof -
  from assms(1) obtain v ds k k' where v: "make_crop_view img (tile_region (ad_config a) img p) = Inr v"
    and ds: "ad_detector a v ctx w k = (Inr ds, k')"
    and c: "combined' = combined @ map (translate_detection (fst p) (snd p) (img_width img) (img_height img)) ds"
    unfolding detect_tile_def by (auto simp: io_simps)
  have f: "crop_fits img (tile_region (ad_config a) img p)" using v make_crop_view_Inr [OF assms(2)] by blast
  have "from_tile a img ctx (translate_detection (fst p) (snd p) (img_width img) (img_height img) e)" if "e \<in> set ds" for e
    unfolding from_tile_def using f v ds that by (intro exI [of _ p] exI [of _ v] exI [of _ e]) (auto simp: answered_def)
  with assms(3) show ?thesis by (auto simp: c)
qed

lemma adaptive_detect_Inr:
  assumes "adaptive_detect a img ctx w n = (Inr ds, n')" and "length (img_bytes img) < 2 ^ 64"
  obtains combined where "ds = merge_detections (ad_config a) combined" and "image_ok (ad_image_limits a) img"
    and "\<forall>d \<in> set combined. answered (ad_detector a) img ctx d \<or> from_tile a img ctx d"
proof -
  note validated = validate_image_Inr [OF assms(2)]
  from assms(1) obtain vi combined k k' where vi: "validate_image img (ad_image_limits a) = Inr vi"
    and first: "ad_detector a (vi_view vi) ctx w k = (Inr combined, k')"
    and rest: "(if \<not> needs_tiles (ad_config a) (vi_view vi) then io_return (merge_detections (ad_config a) combined)
       else io_bind (io_lift (tile_origins (ad_config a) (vi_view vi))) (\<lambda>origins.
         io_bind (io_fold (detect_tile a (vi_view vi) ctx) origins combined) (\<lambda>combined.
         io_return (merge_detections (ad_config a) combined)))) w k' = (Inr ds, n')"
    unfolding adaptive_detect_def Let_def by (auto simp: io_bind_Inr io_lift_Inr)
  from vi have ok: "image_ok (ad_image_limits a) img" and view: "vi_view vi = img" unfolding validated by auto
  have a: "\<forall>d \<in> set combined. answered (ad_detector a) img ctx d \<or> from_tile a img ctx d" using first by (auto simp: view answered_def)
  show thesis
  proof (cases "needs_tiles (ad_config a) img")
    case False
    with rest have "ds = merge_detections (ad_config a) combined" by (simp add: view io_return_Inr)
    with ok a show thesis by (intro that)
  next
    case True
    with rest obtain origins all k'' where f: "io_fold (detect_tile a img ctx) origins combined w k' = (Inr all, k'')"
      and ds: "ds = merge_detections (ad_config a) all" by (auto simp: view io_bind_Inr io_lift_Inr io_return_Inr)
    have "\<forall>d \<in> set all. answered (ad_detector a) img ctx d \<or> from_tile a img ctx d"
      by (rule io_fold_invariant [OF f]) (use a detect_tile_found [OF _ assms(2)] in blast)+
    with ds ok show thesis by (intro that)
  qed
qed

lemma float_extent_nonneg: "fle (Fin 0) (float_extent n)"
  unfolding float_extent_def float_of_nat_def using b32.round_fl_mono [OF of_nat_0_le_iff] by (simp only: b32.round_fl_0)

lemma fclamp_inside: "is_finite (fclamp v lo hi) \<Longrightarrow> fle lo hi \<Longrightarrow> fle lo (fclamp v lo hi) \<and> fle (fclamp v lo hi) hi"
  by (cases v; cases lo; cases hi) (auto simp: fclamp_def is_finite_def)

definition corner_in_frame :: "ImageView \<Rightarrow> Detection \<Rightarrow> bool" where
  "corner_in_frame img d \<longleftrightarrow> fle (Fin 0) (bb_x (det_bbox d)) \<and> fle (bb_x (det_bbox d)) (float_extent (img_width img)) \<and>
     fle (Fin 0) (bb_y (det_bbox d)) \<and> fle (bb_y (det_bbox d)) (float_extent (img_height img))"

lemma translated_corner:
  assumes "mergeable (translate_detection x y (img_width img) (img_height img) e)"
  shows "corner_in_frame img (translate_detection x y (img_width img) (img_height img) e)"
  using assms fclamp_inside [OF _ float_extent_nonneg]
  by (simp add: mergeable_def corner_in_frame_def translate_detection_def Let_def bbox_is_valid_def)

definition ordered_answers :: "DetectorFunction \<Rightarrow> OperationContext \<Rightarrow> bool" where
  "ordered_answers detect ctx \<longleftrightarrow> (\<forall>v d. answered detect v ctx d \<longrightarrow> det_confidence d \<noteq> NaN \<and> det_geometry_score d \<noteq> NaN)"

text \<open>
  C35: the merged detections. Whatever the detector answers, a call that returns gives at most the configured number of detections, each
  with a valid box and a finite confidence; each was answered on the whole frame, or is a detection answered on
  a tile of the frame moved back to it, with its corner in the frame; none overlaps an earlier one beyond the
  threshold. When the detector answers no NaN they are ranked by confidence.
\<close>

theorem tile_detections_certified:
  assumes "make_tile_detector detector c limits = Inr a" and "length (img_bytes img) < 2 ^ 64"
    and "adaptive_detect a img ctx w n = (Inr ds, n')"
  shows "length ds \<le> at_maximum_detections c \<and> image_ok limits img \<and>
    (\<forall>d \<in> set ds. mergeable d \<and> (answered (ad_detector a) img ctx d \<or> from_tile a img ctx d \<and> corner_in_frame img d)) \<and>
    sorted_wrt (\<lambda>earlier d. \<not> merge_duplicate c d earlier) ds \<and>
    (ordered_answers (ad_detector a) ctx \<longrightarrow> sorted_wrt (\<lambda>earlier d. fle (det_confidence d) (det_confidence earlier)) ds)"
proof -
  obtain d where made: "a = \<lparr>ad_detector = d, ad_config = c, ad_image_limits = limits\<rparr>" and "\<not> invalid_tile_config c"
    by (rule made_tile_detector [OF assms(1)])
  then have pos: "0 < at_maximum_detections c" and c: "ad_config a = c" "ad_image_limits a = limits" by (simp_all add: invalid_tile_config_def)
  obtain combined where ds: "ds = merge_detections c combined" and ok: "image_ok limits img"
    and found: "\<forall>d \<in> set combined. answered (ad_detector a) img ctx d \<or> from_tile a img ctx d"
    by (rule adaptive_detect_Inr [OF assms(3,2), unfolded c])
  note spec = merge_detections_spec [OF pos, of combined, folded ds]
  have "corner_in_frame img d" if "from_tile a img ctx d" "mergeable d" for d using that translated_corner by (auto simp: from_tile_def)
  moreover have "ranked_input combined" if "ordered_answers (ad_detector a) ctx"
    using that found by (fastforce simp: ranked_input_def ordered_answers_def from_tile_def translate_detection_def Let_def)
  ultimately show ?thesis using spec ok found by blast
qed

text \<open>
  The tiling adds three failures of its own: an invalid image, too many tiles and a stopped operation. Anything
  else that leaves the detector was thrown by the detector it wraps; no tile lies outside the frame, and no step
  is zero.
\<close>

theorem tile_detector_failures:
  assumes "make_tile_detector detector c limits = Inr a" and "unat (at_tile_width c) < 2 ^ 53" and "unat (at_tile_height c) < 2 ^ 53"
    and "length (img_bytes img) < 2 ^ 63" and "adaptive_detect a img ctx w n = (Inl e, n')"
  shows "e = CancelledError ''adaptive detection cancelled'' \<or> e = TimeoutError ''adaptive detection deadline exceeded'' \<or>
    validate_image img limits = Inl e \<or> e = ResourceExhaustedError ''adaptive tile count exceeds configured maximum'' \<or>
    (\<exists>v k k'. ad_detector a v ctx w k = (Inl e, k'))"
proof -
  obtain d where made: "a = \<lparr>ad_detector = d, ad_config = c, ad_image_limits = limits\<rparr>" and cfg: "\<not> invalid_tile_config c"
      "valid_inset (at_overlap_ratio c)"
    by (rule made_tile_detector [OF assms(1)])
  then have c: "ad_config a = c" "ad_image_limits a = limits" by simp_all
  let ?stop = "e = CancelledError ''adaptive detection cancelled'' \<or> e = TimeoutError ''adaptive detection deadline exceeded''"
  let ?inner = "\<exists>v k k'. ad_detector a v ctx w k = (Inl e, k')"
  have len: "length (img_bytes img) < 2 ^ 64" using assms(4) by simp
  have tiles: "?stop \<or> ?inner" if "io_fold (detect_tile a img ctx) ps all w k = (Inl e, k')" "\<forall>p \<in> set ps. crop_fits img (tile_region c img p)"
    "readable img" for ps all k k'
    using that
  proof (induction ps arbitrary: all k)
    case (Cons p ps)
    from crop_view_exists [OF Cons.prems(3)] Cons.prems(2) obtain v where v: "make_crop_view img (tile_region c img p) = Inr v" by auto
    from Cons.prems(1) consider "detect_tile a img ctx p all w k = (Inl e, k')"
      | all' k'' where "io_fold (detect_tile a img ctx) ps all' w k'' = (Inl e, k')" by (auto simp: io_bind_Inl)
    then show ?case
    proof cases
      case 1
      then consider k1 where "check_adaptive ctx w k = (Inl e, k1)" | v k1 k2 where "ad_detector a v ctx w k1 = (Inl e, k2)"
        unfolding detect_tile_def c v by (auto simp: io_bind_Inl io_bind_Inr io_lift_def io_return_def)
      then show ?thesis by cases (auto dest: check_operation_Inl)
    next
      case 2
      from Cons.IH [OF this] Cons.prems(2,3) show ?thesis by simp
    qed
  qed (simp add: io_return_def)
  from assms(5) [unfolded adaptive_detect_def c Let_def] show ?thesis
  proof (rule io_bind_InlE)
    fix u k
    assume "io_bind (io_lift (validate_image img limits)) (\<lambda>validated. io_bind (ad_detector a (vi_view validated) ctx) (\<lambda>combined.
       if \<not> needs_tiles c (vi_view validated) then io_return (merge_detections c combined)
       else io_bind (io_lift (tile_origins c (vi_view validated))) (\<lambda>origins.
         io_bind (io_fold (detect_tile a (vi_view validated) ctx) origins combined) (\<lambda>combined.
         io_return (merge_detections c combined))))) w k = (Inl e, n')"
    then show ?thesis
    proof (rule io_bind_InlE)
      fix vi k'
      assume "io_lift (validate_image img limits) w k = (Inr vi, k')"
      then have "validate_image img limits = Inr vi" by (simp add: io_lift_def)
      then have view: "vi_view vi = img" and ok: "image_ok limits img" unfolding validate_image_Inr [OF len] by auto
      note r = image_ok_readable [OF ok assms(4)]
      note cover = tile_origins_cover [OF cfg assms(2,3) r]
      assume "io_bind (ad_detector a (vi_view vi) ctx) (\<lambda>combined.
         if \<not> needs_tiles c (vi_view vi) then io_return (merge_detections c combined)
         else io_bind (io_lift (tile_origins c (vi_view vi))) (\<lambda>origins.
           io_bind (io_fold (detect_tile a (vi_view vi) ctx) origins combined) (\<lambda>combined.
           io_return (merge_detections c combined)))) w k' = (Inl e, n')"
      then consider "ad_detector a img ctx w k' = (Inl e, n')" | "tile_origins c img = Inl e"
        | origins combined k1 k2 where "tile_origins c img = Inr origins" "io_fold (detect_tile a img ctx) origins combined w k1 = (Inl e, k2)"
        unfolding view by (elim io_bind_InlE) (auto simp: io_lift_def io_return_def io_bind_Inl split: if_split_asm)
      then show ?thesis by cases (use cover tiles r in auto)
    qed (simp add: io_lift_def)
  qed (auto dest: check_operation_Inl)
qed

section \<open>A frame of four pixels\<close>

definition narrow_tiles :: AdaptiveTileConfig where
  "narrow_tiles = default_tile_config\<lparr>at_tile_width := 1, at_tile_height := 2\<rparr>"

text \<open>A detector that answers the whole of what it sees.\<close>

definition whole_detector :: DetectorFunction where
  "whole_detector v ctx = io_return [\<lparr>det_bbox = \<lparr>bb_x = Fin 0, bb_y = Fin 0, bb_width = float_extent (img_width v),
     bb_height = float_extent (img_height v)\<rparr>, det_quadrilateral = None, det_confidence = Fin (1/2), det_geometry_score = Fin 1,
     det_provider = ''whole''\<rparr>]"

definition narrow_detector :: AdaptiveTileDetector where
  "narrow_detector = \<lparr>ad_detector = whole_detector, ad_config = narrow_tiles, ad_image_limits = default_performance_config\<rparr>"

lemma narrow_made: "make_tile_detector (Some whole_detector) narrow_tiles default_performance_config = Inr narrow_detector"
proof -
  have "\<not> invalid_tile_config narrow_tiles" by code_simp
  then show ?thesis by (simp add: make_tile_detector_def narrow_detector_def)
qed

lemma tiny_image_ok: "image_ok default_performance_config tiny_image"
  by (simp add: image_ok_def tiny_image_def default_performance_config_def row_bytes_def extent_bytes_def channels_of_def)

lemma narrow_origins: "tile_origins narrow_tiles tiny_image = Inr [(0, 0), (1, 0)]"
proof -
  have i: "inset_of 1 (lit32 (1/5)) = 0" by code_simp
  have "axis_origins 2 1 (lit32 (1/5)) = Inr [0, 1]"
    by (simp add: axis_origins_def i word_le_nat_alt word_less_nat_alt origin_loop.simps [of 2 1 1 0] origin_loop.simps [of 2 1 1 1] next_origin_def size_max_def Let_def)
  moreover have "axis_origins 2 2 r = Inr [0]" for r by (simp add: axis_origins_def)
  ultimately show ?thesis by (simp add: tile_origins_def narrow_tiles_def tiny_image_def default_tile_config_def)
qed

theorem tiles_cover_frame_witness:
  "\<exists>p \<in> {(0, 0), (1, 0)}. in_region (tile_region narrow_tiles tiny_image p) 1 1"
proof -
  have "unat (at_tile_width narrow_tiles) < 2 ^ 53" "unat (at_tile_height narrow_tiles) < 2 ^ 53" "length (img_bytes tiny_image) < 2 ^ 63"
    "1 < unat (img_width tiny_image)" "1 < unat (img_height tiny_image)"
    by (simp_all add: narrow_tiles_def tiny_image_def)
  with tiles_cover_frame [OF narrow_made _ _ tiny_image_ok] narrow_origins show ?thesis by fastforce
qed


definition whole_detection :: "64 word \<Rightarrow> 64 word \<Rightarrow> Detection" where
  "whole_detection w h = \<lparr>det_bbox = \<lparr>bb_x = Fin 0, bb_y = Fin 0, bb_width = float_extent w, bb_height = float_extent h\<rparr>,
     det_quadrilateral = None, det_confidence = Fin (1/2), det_geometry_score = Fin 1, det_provider = ''whole''\<rparr>"

lemma whole_detector_answer: "whole_detector v ctx w n = (Inr [whole_detection (img_width v) (img_height v)], n)"
  by (simp add: whole_detector_def whole_detection_def io_return_def)

lemma quiet_check: "check_adaptive default_context w n = (Inr (), n)"
  by (simp add: check_operation_def cancellation_requested_def deadline_exceeded_def default_context_def io_bind_def io_return_def)

lemma narrow_tile_views:
  "make_crop_view tiny_image (tile_region narrow_tiles tiny_image (0, 0)) =
     Inr \<lparr>img_bytes = [1, 2, 3, 4, 5], img_width = 1, img_height = 2, img_stride = 4, img_format = gray8\<rparr>"
  "make_crop_view tiny_image (tile_region narrow_tiles tiny_image (1, 0)) =
     Inr \<lparr>img_bytes = [2, 3, 4, 5, 6], img_width = 1, img_height = 2, img_stride = 4, img_format = gray8\<rparr>"
  by code_simp+

definition narrow_found :: "Detection list" where
  "narrow_found = [whole_detection 2 2, translate_detection 0 0 2 2 (whole_detection 1 2), translate_detection 1 0 2 2 (whole_detection 1 2)]"

lemma narrow_call:
  "adaptive_detect narrow_detector tiny_image default_context w n = (Inr (merge_detections narrow_tiles narrow_found), n)"
proof -
  have n: "needs_tiles narrow_tiles tiny_image" by code_simp
  have size: "img_width tiny_image = 2" "img_height tiny_image = 2" by (simp_all add: tiny_image_def)
  show ?thesis
    by (simp add: adaptive_detect_def narrow_detector_def io_bind_def quiet_check io_lift_def tiny_image_valid n narrow_origins
        whole_detector_answer detect_tile_def narrow_tile_views io_return_def size narrow_found_def)
qed

lemma narrow_merged:
  "map (\<lambda>d. (bb_x (det_bbox d), bb_width (det_bbox d))) (merge_detections narrow_tiles narrow_found) = [(Fin 0, Fin 2)]"
  by code_simp

theorem tile_detections_certified_witness:
  "\<exists>ds. adaptive_detect narrow_detector tiny_image default_context quiet_world 0 = (Inr ds, 0) \<and> length ds = 1 \<and>
     sorted_wrt (\<lambda>earlier d. \<not> merge_duplicate narrow_tiles d earlier) ds"
proof -
  have len: "length (img_bytes tiny_image) < 2 ^ 64" by (simp add: tiny_image_def)
  note tile_detections_certified [OF narrow_made len narrow_call]
  moreover have "length (merge_detections narrow_tiles narrow_found) = 1"
    using arg_cong [OF narrow_merged, of length] by simp
  ultimately show ?thesis using narrow_call by blast
qed

definition silent_detector :: DetectorFunction where
  "silent_detector v ctx = io_throw UnknownException"

theorem tile_detector_failures_witness:
  "\<exists>v k k'. silent_detector v default_context quiet_world k = (Inl UnknownException, k')"
proof -
  have cfg: "\<not> invalid_tile_config narrow_tiles" by code_simp
  then have made: "make_tile_detector (Some silent_detector) narrow_tiles default_performance_config =
      Inr \<lparr>ad_detector = silent_detector, ad_config = narrow_tiles, ad_image_limits = default_performance_config\<rparr>" (is "_ = Inr ?a")
    by (simp add: make_tile_detector_def)
  have "adaptive_detect ?a tiny_image default_context quiet_world 0 = (Inl UnknownException, 0)"
    by (simp add: adaptive_detect_def io_bind_def quiet_check io_lift_def tiny_image_valid silent_detector_def io_throw_def)
  moreover have "unat (at_tile_width narrow_tiles) < 2 ^ 53" "unat (at_tile_height narrow_tiles) < 2 ^ 53" "length (img_bytes tiny_image) < 2 ^ 63"
    by (simp_all add: narrow_tiles_def tiny_image_def)
  ultimately show ?thesis using tile_detector_failures [OF made] tiny_image_valid by fastforce
qed


end
