(* ===== verification/Plate_Geometry.thy ===== *)
theory Plate_Geometry
  imports Engine_World
begin

text \<open>
  The plate geometry validator and its adapter (\<^verbatim>\<open>infrastructure/geometry/plate_geometry_validator.cpp\<close>,
  \<^verbatim>\<open>plate_geometry_evaluator.cpp\<close>): the corners of a quadrilateral are put in order by their angle around the centre, the
  quadrilateral is checked for shape, size and place, and what passes is scored. \<open>std::hypot\<close> and \<open>std::atan2\<close> are
  parameters; no property of them is assumed. An array of four corners is a list of four.
\<close>

section \<open>Configuration\<close>

record GeometryConfig =
  gc_minimum_keypoint_confidence :: fl
  gc_minimum_box_aspect_ratio :: fl
  gc_maximum_box_aspect_ratio :: fl
  gc_preferred_box_aspect_min :: fl
  gc_preferred_box_aspect_max :: fl
  gc_minimum_crop_aspect_ratio :: fl
  gc_maximum_crop_aspect_ratio :: fl
  gc_preferred_crop_aspect_min :: fl
  gc_preferred_crop_aspect_max :: fl
  gc_minimum_polygon_box_area_ratio :: fl
  gc_maximum_polygon_box_area_ratio :: fl
  gc_minimum_horizontal_edge_pixels :: fl
  gc_minimum_vertical_edge_pixels :: fl
  gc_maximum_point_distance_from_box_ratio :: fl

definition default_geometry_config :: GeometryConfig where
  "default_geometry_config = \<lparr>gc_minimum_keypoint_confidence = Fin (1/2), gc_minimum_box_aspect_ratio = lit32 (65/100),
     gc_maximum_box_aspect_ratio = Fin 12, gc_preferred_box_aspect_min = lit32 (18/10), gc_preferred_box_aspect_max = lit32 (65/10),
     gc_minimum_crop_aspect_ratio = lit32 (8/10), gc_maximum_crop_aspect_ratio = Fin 12, gc_preferred_crop_aspect_min = lit32 (16/10),
     gc_preferred_crop_aspect_max = lit32 (75/10), gc_minimum_polygon_box_area_ratio = lit32 (20/100),
     gc_maximum_polygon_box_area_ratio = lit32 (180/100), gc_minimum_horizontal_edge_pixels = Fin 6,
     gc_minimum_vertical_edge_pixels = Fin 4, gc_maximum_point_distance_from_box_ratio = Fin (1/2)\<rparr>"

record GeometryEvaluation =
  ge_valid :: bool
  ge_score :: fl
  ge_box_ratio_score :: fl
  ge_crop_ratio_score :: fl
  ge_pixel_score :: fl
  ge_keypoint_score :: fl
  ge_deformation_score :: fl
  ge_polygon_fill_score :: fl
  ge_polygon_box_area_ratio :: fl
  ge_crop_aspect_ratio :: fl
  ge_reason :: string
  ge_ordered_corners :: "Point2f list"

definition geometry_epsilon :: fl where
  "geometry_epsilon = lit32 (1/10000)"

definition aspect_range_ok :: "fl \<Rightarrow> fl \<Rightarrow> fl \<Rightarrow> fl \<Rightarrow> bool" where
  "aspect_range_ok hard_min preferred_min preferred_max hard_max \<longleftrightarrow>
     flt (Fin 0) hard_min \<and> fle hard_min preferred_min \<and> fle preferred_min preferred_max \<and> fle preferred_max hard_max"

definition geometry_values :: "GeometryConfig \<Rightarrow> fl list" where
  "geometry_values c = [gc_minimum_keypoint_confidence c, gc_minimum_box_aspect_ratio c, gc_maximum_box_aspect_ratio c,
     gc_preferred_box_aspect_min c, gc_preferred_box_aspect_max c, gc_minimum_crop_aspect_ratio c, gc_maximum_crop_aspect_ratio c,
     gc_preferred_crop_aspect_min c, gc_preferred_crop_aspect_max c, gc_minimum_polygon_box_area_ratio c,
     gc_maximum_polygon_box_area_ratio c, gc_minimum_horizontal_edge_pixels c, gc_minimum_vertical_edge_pixels c]"

definition make_geometry_validator :: "GeometryConfig \<Rightarrow> GeometryConfig result" where
  "make_geometry_validator c = res_bind (check_all
     [throw_if (\<not> list_all is_finite (geometry_values c) \<or> \<not> is_finite (gc_maximum_point_distance_from_box_ratio c))
        (ConfigurationError ''geometry configuration must contain finite values''),
      throw_if (flt (gc_minimum_keypoint_confidence c) (Fin 0) \<or> flt (Fin 1) (gc_minimum_keypoint_confidence c))
        (ConfigurationError ''minimum_keypoint_confidence must be in [0,1]''),
      throw_if (\<not> aspect_range_ok (gc_minimum_box_aspect_ratio c) (gc_preferred_box_aspect_min c) (gc_preferred_box_aspect_max c)
          (gc_maximum_box_aspect_ratio c)) (ConfigurationError ''box aspect-ratio ranges are inconsistent''),
      throw_if (\<not> aspect_range_ok (gc_minimum_crop_aspect_ratio c) (gc_preferred_crop_aspect_min c) (gc_preferred_crop_aspect_max c)
          (gc_maximum_crop_aspect_ratio c)) (ConfigurationError ''crop aspect-ratio ranges are inconsistent''),
      throw_if (\<not> (flt (Fin 0) (gc_minimum_polygon_box_area_ratio c) \<and> fle (gc_minimum_polygon_box_area_ratio c) (Fin 1) \<and>
          fle (Fin 1) (gc_maximum_polygon_box_area_ratio c))) (ConfigurationError ''polygon/bbox area-ratio range must contain 1.0''),
      throw_if (fle (gc_minimum_horizontal_edge_pixels c) (Fin 0) \<or> fle (gc_minimum_vertical_edge_pixels c) (Fin 0) \<or>
          flt (gc_maximum_point_distance_from_box_ratio c) (Fin 0)) (ConfigurationError ''geometry pixel/distance limits are invalid'')])
     (\<lambda>_. Inr c)"

section \<open>Points and polygons\<close>

type_synonym hypot = "fl \<Rightarrow> fl \<Rightarrow> fl"

type_synonym atan2 = "fl \<Rightarrow> fl \<Rightarrow> fl"

definition point_distance :: "hypot \<Rightarrow> Point2f \<Rightarrow> Point2f \<Rightarrow> fl" where
  "point_distance hyp l r = hyp (sub32 (pt_x r) (pt_x l)) (sub32 (pt_y r) (pt_y l))"

definition point_cross :: "Point2f \<Rightarrow> Point2f \<Rightarrow> Point2f \<Rightarrow> fl" where
  "point_cross a b c = sub32 (mul32 (sub32 (pt_x b) (pt_x a)) (sub32 (pt_y c) (pt_y a)))
     (mul32 (sub32 (pt_y b) (pt_y a)) (sub32 (pt_x c) (pt_x a)))"

definition add_area :: "Point2f list \<Rightarrow> nat \<Rightarrow> fl \<Rightarrow> fl" where
  "add_area points i acc =
     (let current = points ! i; successor = points ! ((i + 1) mod length points) in
      fadd binary64 acc (fsub binary64 (fmul binary64 (pt_x current) (pt_y successor)) (fmul binary64 (pt_y current) (pt_x successor))))"

definition polygon_area :: "Point2f list \<Rightarrow> fl" where
  "polygon_area points =
     fcast binary32 (fmul binary64 (fabs (fold (add_area points) [0..<length points] (Fin 0))) (Fin (1/2)))"

definition points_are_unique :: "hypot \<Rightarrow> Point2f list \<Rightarrow> bool" where
  "points_are_unique hyp points \<longleftrightarrow>
     \<not> list_ex (\<lambda>l. list_ex (\<lambda>r. fle (point_distance hyp (points ! l) (points ! r)) geometry_epsilon) [l + 1..<length points]) [0..<length points]"

fun convex_loop :: "Point2f list \<Rightarrow> fl \<Rightarrow> nat list \<Rightarrow> bool" where
  "convex_loop points sign [] = True"
| "convex_loop points sign (i # is) =
     (let v = point_cross (points ! i) (points ! ((i + 1) mod length points)) (points ! ((i + 2) mod length points)) in
      if \<not> is_finite v \<or> fle (fabs v) geometry_epsilon then False
      else if feq sign (Fin 0) then convex_loop points v is
      else if flt (Fin 0) sign \<noteq> flt (Fin 0) v then False else convex_loop points sign is)"

definition polygon_is_convex :: "Point2f list \<Rightarrow> bool" where
  "polygon_is_convex points = convex_loop points (Fin 0) [0..<length points]"

section \<open>Scores\<close>

definition range_score :: "fl \<Rightarrow> fl \<Rightarrow> fl \<Rightarrow> fl \<Rightarrow> fl \<Rightarrow> fl" where
  "range_score v hard_min preferred_min preferred_max hard_max =
     (if \<not> is_finite v \<or> flt v hard_min \<or> flt hard_max v then Fin 0
      else if fle preferred_min v \<and> fle v preferred_max then Fin 1
      else if flt v preferred_min
      then let denominator = sub32 preferred_min hard_min in
        if fle denominator geometry_epsilon then Fin 1 else clamp01 (div32 (sub32 v hard_min) denominator)
      else let denominator = sub32 hard_max preferred_max in
        if fle denominator geometry_epsilon then Fin 1 else clamp01 (div32 (sub32 hard_max v) denominator))"

definition fill_score :: "fl \<Rightarrow> fl \<Rightarrow> fl \<Rightarrow> fl" where
  "fill_score ratio minimum maximum =
     (if \<not> is_finite ratio \<or> flt ratio minimum \<or> flt maximum ratio then Fin 0
      else if fle ratio (Fin 1)
      then let denominator = sub32 (Fin 1) minimum in
        if fle denominator geometry_epsilon then Fin 1 else clamp01 (div32 (sub32 ratio minimum) denominator)
      else let denominator = sub32 maximum (Fin 1) in
        if fle denominator geometry_epsilon then Fin 1 else clamp01 (div32 (sub32 maximum ratio) denominator))"

definition point_near_box :: "hypot \<Rightarrow> Point2f \<Rightarrow> BoundingBox \<Rightarrow> fl \<Rightarrow> bool" where
  "point_near_box hyp p box maximum_ratio =
     (let x2 = add32 (bb_x box) (bb_width box); y2 = add32 (bb_y box) (bb_height box) in
      if \<not> is_finite x2 \<or> \<not> is_finite y2 then False
      else let dx = if flt (pt_x p) (bb_x box) then sub32 (bb_x box) (pt_x p) else if flt x2 (pt_x p) then sub32 (pt_x p) x2 else Fin 0;
               dy = if flt (pt_y p) (bb_y box) then sub32 (bb_y box) (pt_y p) else if flt y2 (pt_y p) then sub32 (pt_y p) y2 else Fin 0;
               reference = fmax (bb_width box) (bb_height box)
        in is_finite reference \<and> flt geometry_epsilon reference \<and> fle (div32 (hyp dx dy) reference) maximum_ratio)"

section \<open>Corner order\<close>

definition center_of :: "fl list \<Rightarrow> fl" where
  "center_of coordinates = fdiv binary64 (fold (\<lambda>v acc. fadd binary64 acc v) coordinates (Fin 0)) (Fin 4)"

definition corner_angle :: "atan2 \<Rightarrow> fl \<Rightarrow> fl \<Rightarrow> Point2f \<Rightarrow> fl" where
  "corner_angle atn center_x center_y p = atn (fsub binary64 (pt_y p) center_y) (fsub binary64 (pt_x p) center_x)"

definition angle_order :: "atan2 \<Rightarrow> fl \<Rightarrow> fl \<Rightarrow> Point2f \<Rightarrow> Point2f \<Rightarrow> bool" where
  "angle_order atn center_x center_y l r =
     (let left_angle = corner_angle atn center_x center_y l; right_angle = corner_angle atn center_x center_y r in
      if \<not> feq left_angle right_angle then flt left_angle right_angle
      else if \<not> feq (pt_y l) (pt_y r) then flt (pt_y l) (pt_y r)
      else flt (pt_x l) (pt_x r))"

definition top_left_order :: "Point2f \<Rightarrow> Point2f \<Rightarrow> bool" where
  "top_left_order l r =
     (let left_sum = add32 (pt_x l) (pt_y l); right_sum = add32 (pt_x r) (pt_y r) in
      if \<not> feq left_sum right_sum then flt left_sum right_sum else flt (pt_y l) (pt_y r))"

text \<open>The index \<open>std::min_element\<close> finds: the first element that none goes before.\<close>

definition min_element_index :: "('a \<Rightarrow> 'a \<Rightarrow> bool) \<Rightarrow> 'a list \<Rightarrow> nat" where
  "min_element_index lt xs = fold (\<lambda>i best. if lt (xs ! i) (xs ! best) then i else best) [1..<length xs] 0"

definition order_plate_corners :: "atan2 \<Rightarrow> Point2f list \<Rightarrow> Point2f list result" where
  "order_plate_corners atn points =
     (if \<not> list_all point_is_finite points then Inl (InvalidImageError ''plate corner contains non-finite coordinate'')
      else let center_x = center_of (map pt_x points); center_y = center_of (map pt_y points);
               ordered = stable_sort (angle_order atn center_x center_y) points;
               top_left = min_element_index top_left_order ordered
        in Inr (map (\<lambda>i. ordered ! ((top_left + i) mod length ordered)) [0..<length points]))"

section \<open>Evaluation\<close>

definition no_corners :: "Point2f list" where
  "no_corners = replicate 4 \<lparr>pt_x = Fin 0, pt_y = Fin 0\<rparr>"

definition invalid_evaluation :: "string \<Rightarrow> Point2f list \<Rightarrow> GeometryEvaluation" where
  "invalid_evaluation reason ordered = \<lparr>ge_valid = False, ge_score = Fin 0, ge_box_ratio_score = Fin 0, ge_crop_ratio_score = Fin 0,
     ge_pixel_score = Fin 0, ge_keypoint_score = Fin 0, ge_deformation_score = Fin 0, ge_polygon_fill_score = Fin 0,
     ge_polygon_box_area_ratio = Fin 0, ge_crop_aspect_ratio = Fin 0, ge_reason = reason, ge_ordered_corners = ordered\<rparr>"

fun keypoint_sum :: "fl \<Rightarrow> fl list \<Rightarrow> fl \<Rightarrow> fl option" where
  "keypoint_sum minimum [] acc = Some acc"
| "keypoint_sum minimum (v # vs) acc =
     (if \<not> is_finite v \<or> flt v minimum \<or> flt (Fin 1) v then None else keypoint_sum minimum vs (add32 acc v))"

text \<open>The last part: the area and the scores, for corners and edges (top, right, bottom, left) that passed.\<close>

definition score_evaluation :: "GeometryConfig \<Rightarrow> Detection \<Rightarrow> Point2f list \<Rightarrow> fl \<Rightarrow> fl \<Rightarrow> fl \<times> fl \<times> fl \<times> fl \<Rightarrow> fl \<Rightarrow> fl \<Rightarrow> GeometryEvaluation" where
  "score_evaluation c d ordered box_ratio_score keypoint_score = (\<lambda>(top, right, bottom, left) crop_ratio crop_ratio_score.
     let area = polygon_area ordered; box_area = bbox_area (det_bbox d) in
     if \<not> is_finite area \<or> \<not> is_finite box_area \<or> fle area geometry_epsilon \<or> fle box_area geometry_epsilon
     then invalid_evaluation ''degenerate_polygon_area'' ordered
     else let area_ratio = div32 area box_area in
       if flt area_ratio (gc_minimum_polygon_box_area_ratio c) \<or> flt (gc_maximum_polygon_box_area_ratio c) area_ratio
       then invalid_evaluation ''polygon_bbox_area_ratio_out_of_range'' ordered
       else let horizontal_score = div32 (fmin top bottom) (fmax top bottom);
                vertical_score = div32 (fmin left right) (fmax left right);
                deformation_score = clamp01 (mul32 (add32 horizontal_score vertical_score) (Fin (1/2)));
                pixel_score = clamp01 (fmin (div32 (fmin top bottom) (gc_minimum_horizontal_edge_pixels c))
                  (div32 (fmin left right) (gc_minimum_vertical_edge_pixels c)));
                polygon_fill_score = fill_score area_ratio (gc_minimum_polygon_box_area_ratio c) (gc_maximum_polygon_box_area_ratio c)
         in \<lparr>ge_valid = True,
              ge_score = clamp01 (add32 (add32 (add32 (add32 (add32 (mul32 (lit32 (15/100)) box_ratio_score) (mul32 (lit32 (20/100)) crop_ratio_score))
                (mul32 (lit32 (15/100)) pixel_score)) (mul32 (lit32 (20/100)) keypoint_score)) (mul32 (lit32 (15/100)) deformation_score))
                (mul32 (lit32 (15/100)) polygon_fill_score)),
              ge_box_ratio_score = box_ratio_score, ge_crop_ratio_score = crop_ratio_score, ge_pixel_score = pixel_score,
              ge_keypoint_score = keypoint_score, ge_deformation_score = deformation_score, ge_polygon_fill_score = polygon_fill_score,
              ge_polygon_box_area_ratio = area_ratio, ge_crop_aspect_ratio = crop_ratio, ge_reason = ''ok'', ge_ordered_corners = ordered\<rparr>)"

definition evaluate_edges :: "GeometryConfig \<Rightarrow> Detection \<Rightarrow> Point2f list \<Rightarrow> fl \<Rightarrow> fl \<Rightarrow> fl \<times> fl \<times> fl \<times> fl \<Rightarrow> GeometryEvaluation" where
  "evaluate_edges c d ordered box_ratio_score keypoint_score = (\<lambda>(top, right, bottom, left).
     if \<not> is_finite top \<or> \<not> is_finite right \<or> \<not> is_finite bottom \<or> \<not> is_finite left then invalid_evaluation ''non_finite_edge'' ordered
     else if flt top (gc_minimum_horizontal_edge_pixels c) \<or> flt bottom (gc_minimum_horizontal_edge_pixels c) \<or>
       flt left (gc_minimum_vertical_edge_pixels c) \<or> flt right (gc_minimum_vertical_edge_pixels c)
     then invalid_evaluation ''edge_too_short'' ordered
     else let average_width = mul32 (add32 top bottom) (Fin (1/2)); average_height = mul32 (add32 left right) (Fin (1/2)) in
       if fle average_height geometry_epsilon then invalid_evaluation ''degenerate_crop_height'' ordered
       else let crop_ratio = div32 average_width average_height;
                crop_ratio_score = range_score crop_ratio (gc_minimum_crop_aspect_ratio c) (gc_preferred_crop_aspect_min c)
                  (gc_preferred_crop_aspect_max c) (gc_maximum_crop_aspect_ratio c)
         in if fle crop_ratio_score (Fin 0) then invalid_evaluation ''crop_aspect_ratio_out_of_range'' ordered
            else score_evaluation c d ordered box_ratio_score keypoint_score (top, right, bottom, left) crop_ratio crop_ratio_score)"

definition evaluate_corners :: "hypot \<Rightarrow> GeometryConfig \<Rightarrow> Detection \<Rightarrow> PlateQuadrilateral \<Rightarrow> fl \<Rightarrow> Point2f list \<Rightarrow> GeometryEvaluation" where
  "evaluate_corners hyp c d quad box_ratio_score ordered =
     (if \<not> polygon_is_convex ordered then invalid_evaluation ''non_convex_quadrilateral'' ordered
      else if list_ex (\<lambda>p. \<not> point_near_box hyp p (det_bbox d) (gc_maximum_point_distance_from_box_ratio c)) ordered
      then invalid_evaluation ''corner_too_far_from_bbox'' ordered
      else case keypoint_sum (gc_minimum_keypoint_confidence c) (quad_confidences quad) (Fin 0) of
          None \<Rightarrow> invalid_evaluation ''keypoint_confidence_below_threshold'' ordered
        | Some acc \<Rightarrow> let keypoint_score = clamp01 (div32 acc (float_of_nat binary32 (length (quad_confidences quad))));
              edge = \<lambda>i j. point_distance hyp (ordered ! i) (ordered ! j)
            in evaluate_edges c d ordered box_ratio_score keypoint_score (edge 0 1, edge 1 2, edge 2 3, edge 3 0))"

definition evaluate_geometry :: "hypot \<Rightarrow> atan2 \<Rightarrow> GeometryConfig \<Rightarrow> Detection \<Rightarrow> GeometryEvaluation result" where
  "evaluate_geometry hyp atn c d =
     (if \<not> bbox_is_valid (det_bbox d) then Inr (invalid_evaluation ''invalid_bbox'' no_corners)
      else let box_ratio = div32 (bb_width (det_bbox d)) (bb_height (det_bbox d));
               box_ratio_score = range_score box_ratio (gc_minimum_box_aspect_ratio c) (gc_preferred_box_aspect_min c)
                 (gc_preferred_box_aspect_max c) (gc_maximum_box_aspect_ratio c)
        in if fle box_ratio_score (Fin 0) then Inr (invalid_evaluation ''bbox_aspect_ratio_out_of_range'' no_corners)
           else case det_quadrilateral d of None \<Rightarrow> Inr (invalid_evaluation ''missing_quadrilateral'' no_corners)
             | Some quad \<Rightarrow>
                 if \<not> list_all point_is_finite (quad_points quad) then Inr (invalid_evaluation ''non_finite_corner'' no_corners)
                 else if \<not> points_are_unique hyp (quad_points quad) then Inr (invalid_evaluation ''duplicate_corner'' no_corners)
                 else res_bind (order_plate_corners atn (quad_points quad)) (\<lambda>ordered.
                   Inr (evaluate_corners hyp c d quad box_ratio_score ordered)))"

text \<open>The adapter: the evidence the pipeline asks for.\<close>

definition geometry_evidence :: "hypot \<Rightarrow> atan2 \<Rightarrow> GeometryConfig \<Rightarrow> Detection \<Rightarrow> OperationContext \<Rightarrow> GeometryEvidence io" where
  "geometry_evidence hyp atn c d ctx =
     io_bind (check_operation ctx ''geometry evaluation cancelled'' ''geometry evaluation deadline exceeded'') (\<lambda>_.
     io_bind (io_lift (evaluate_geometry hyp atn c d)) (\<lambda>evaluation.
     io_return \<lparr>geo_valid = ge_valid evaluation, geo_score = ge_score evaluation\<rparr>))"

section \<open>Scores are probabilities\<close>

text \<open>The fields of a configuration are \<open>float\<close>s.\<close>

definition geometry_floats :: "GeometryConfig \<Rightarrow> bool" where
  "geometry_floats c \<longleftrightarrow> list_all is_float (geometry_values c)"

lemma div_not_NaN: "a \<noteq> NaN \<Longrightarrow> is_finite b \<Longrightarrow> flt (Fin 0) b \<Longrightarrow> fdiv F a b \<noteq> NaN"
  by (cases a; cases b) (auto simp: is_finite_def round_fl_def signed_inf_def Let_def)

lemma sub_not_NaN: "is_finite a \<Longrightarrow> is_finite b \<Longrightarrow> fsub F a b \<noteq> NaN"
  by (cases a; cases b) (auto simp: is_finite_def fsub_def round_fl_def Let_def)

lemma epsilon_pos: "flt (Fin 0) geometry_epsilon"
  by code_simp

lemma difference_finite:
  assumes "is_float hi" and "is_finite hi" and "is_finite lo" and "fle (Fin 0) lo" and "fle lo hi"
  shows "is_finite (sub32 hi lo)"
proof -
  from assms obtain x y where h: "hi = Fin x" "lo = Fin y" "0 \<le> y" "y \<le> x" by (auto simp: is_finite_iff)
  have "round_rat binary32 (x - y) \<le> round_rat binary32 x" using h by (intro b32.round_mono) simp
  also have "\<dots> \<le> largest binary32" using assms(1) h by (simp add: is_float_Fin)
  finally have "round_rat binary32 (x - y) \<le> largest binary32" .
  moreover have "0 \<le> round_rat binary32 (x - y)" using h by (simp add: round_rat_nonneg)
  moreover have "0 \<le> largest binary32" using assms(1) h by (simp add: is_float_Fin)
  ultimately show ?thesis by (simp add: h fsub_def round_fl_def Let_def is_finite_def)
qed

lemma ramp_prob:
  assumes "is_finite a" and "is_finite b" and "is_finite denominator" and "\<not> fle denominator geometry_epsilon"
  shows "is_prob (clamp01 (div32 (sub32 a b) denominator))"
proof -
  have "flt (Fin 0) denominator"
  proof -
    obtain e where e: "geometry_epsilon = Fin e" "0 < e"
      using epsilon_pos is_finite_iff [of geometry_epsilon] b32.round_fl_prob [of "1/10000"] by (auto simp: geometry_epsilon_def lit32_def)
    then show ?thesis using assms(3,4) unfolding e(1) by (cases denominator) (auto simp: is_finite_def)
  qed
  then show ?thesis using assms(1-3) by (intro prob_clamp01 div_not_NaN sub_not_NaN)
qed

lemma range_score_prob:
  assumes "aspect_range_ok a b c d" and "list_all is_float [a, b, c, d]" and "list_all is_finite [a, b, c, d]"
  shows "is_prob (range_score v a b c d)"
proof -
  have "fle (Fin 0) a" "fle a b" "fle (Fin 0) c" "fle c d"
    using assms(1) by (auto simp: aspect_range_ok_def fle_def feq_def dest: flt_trans)
  then have "is_finite (sub32 b a)" "is_finite (sub32 d c)" using assms(2,3) by (simp_all add: difference_finite)
  then show ?thesis using assms(3) ramp_prob by (simp add: range_score_def Let_def)
qed

lemma fill_score_prob:
  assumes "flt (Fin 0) lo" and "fle lo (Fin 1)" and "fle (Fin 1) hi" and "is_float hi" and "is_finite hi"
  shows "is_prob (fill_score v lo hi)"
proof -
  have lo: "is_prob lo" using assms(1,2) by (cases lo) auto
  have "is_finite (sub32 (Fin 1) lo)" using lo by (intro is_prob_finite b32.prob_one_minus)
  moreover have "is_finite (sub32 hi (Fin 1))" using assms by (intro difference_finite) (simp_all add: is_finite_def)
  moreover have "is_finite (Fin 1)" "is_finite lo" using lo is_prob_finite by (auto simp: is_finite_def)
  ultimately show ?thesis using assms(5) ramp_prob by (simp add: fill_score_def Let_def)
qed

lemma keypoint_sum_nonneg:
  assumes "keypoint_sum minimum vs acc = Some total_sum" and "fle (Fin 0) minimum" and "fle (Fin 0) acc"
  shows "fle (Fin 0) total_sum"
  using assms
proof (induction vs arbitrary: acc)
  case (Cons v vs)
  from Cons.prems(1) have v: "is_finite v" "\<not> flt v minimum" and r: "keypoint_sum minimum vs (add32 acc v) = Some total_sum"
    by (simp_all split: if_split_asm)
  have "fle (Fin 0) v" using v Cons.prems(2) by (cases v; cases minimum) (auto simp: is_finite_def)
  from Cons.IH [OF r Cons.prems(2) b32.fadd_nonneg [OF Cons.prems(3) this]] show ?case .
qed simp

lemma weighted_nonneg: "is_prob p \<Longrightarrow> 0 \<le> x \<Longrightarrow> x \<le> 1 \<Longrightarrow> fle (Fin 0) (mul32 (lit32 x) p)"
  using b32.prob_fmul [OF b32.prob_round, of x p] unfolding lit32_def is_prob_fle [of "mul32 _ _"] by blast

section \<open>Corners\<close>

lemma rotation: "map (\<lambda>i. xs ! ((k + i) mod length xs)) [0..<length xs] = rotate k xs"
  by (rule nth_equalityI) (simp_all add: nth_rotate)

interpretation top_left: weak_order_on top_left_order point_is_finite
proof
  fix x y z :: Point2f
  have "add32 (pt_x p) (pt_y p) \<noteq> NaN" if "point_is_finite p" for p
    using that by (cases "pt_x p"; cases "pt_y p") (auto simp: point_is_finite_def is_finite_def round_fl_def Let_def)
  moreover assume "point_is_finite x" "point_is_finite y" "point_is_finite z" "\<not> top_left_order y x" "\<not> top_left_order z y"
  moreover from this have "pt_y x \<noteq> NaN" "pt_y y \<noteq> NaN" "pt_y z \<noteq> NaN" by (auto simp: point_is_finite_def is_finite_def)
  ultimately show "\<not> top_left_order z x"
    by (auto simp: top_left_order_def not_flt feq_def Let_def split: if_split_asm dest: flt_trans fle_flt_trans fle_trans fle_not_flt intro: fle_antisym)
qed (auto simp: top_left_order_def feq_def Let_def split: if_splits dest: flt_asym)

lemma min_element_spec:
  assumes "xs \<noteq> []" and "\<forall>p \<in> set xs. point_is_finite p"
  shows "min_element_index top_left_order xs < length xs \<and>
    (\<forall>p \<in> set xs. \<not> top_left_order p (xs ! min_element_index top_left_order xs))"
proof -
  let ?step = "\<lambda>i best. if top_left_order (xs ! i) (xs ! best) then i else best"
  have "fold ?step [1..<m] 0 < m \<and> (\<forall>i < m. \<not> top_left_order (xs ! i) (xs ! fold ?step [1..<m] 0))"
    if "1 \<le> m" "m \<le> length xs" for m
    using that
  proof (induction m rule: dec_induct)
    case base
    then show ?case by (auto simp: top_left_order_def Let_def dest: flt_asym)
  next
    case (step m)
    define best where "best = fold ?step [1..<m] 0"
    from step have best: "best < m" "\<forall>i < m. \<not> top_left_order (xs ! i) (xs ! best)" by (simp_all add: best_def)
    have fin: "point_is_finite (xs ! i)" if "i \<le> m" for i using that step.prems assms(2) by (simp add: Suc_le_eq)
    have unfold: "fold ?step [1..<Suc m] 0 = (if top_left_order (xs ! m) (xs ! best) then m else best)"
      using step.hyps by (simp add: best_def)
    have irrefl: "\<not> top_left_order (xs ! m) (xs ! m)" using top_left.lt_asym fin by blast
    show ?case
    proof (cases "top_left_order (xs ! m) (xs ! best)")
      case True
      have "\<not> top_left_order (xs ! i) (xs ! m)" if "i < m" for i
      proof
        assume i: "top_left_order (xs ! i) (xs ! m)"
        have "\<not> top_left_order (xs ! best) (xs ! m)" using True top_left.lt_asym fin best(1) by simp
        from top_left.not_lt_trans [OF _ _ _ this, of "xs ! i"] i best that fin show False by simp
      qed
      moreover have "fold ?step [1..<Suc m] 0 = m" unfolding unfold using True by (simp only: if_True)
      ultimately show ?thesis using irrefl by (auto simp only: less_Suc_eq)
    next
      case False
      then have "fold ?step [1..<Suc m] 0 = best" unfolding unfold by (simp only: if_False)
      with best False show ?thesis by (auto simp only: less_Suc_eq)
    qed
  qed
  note steps = this
  have "1 \<le> length xs" using assms(1) by (simp add: Suc_le_eq)
  from steps [OF this order_refl] show ?thesis unfolding min_element_index_def all_set_conv_all_nth .
qed

lemma ordered_corners:
  assumes "order_plate_corners atn points = Inr ordered"
  shows "mset ordered = mset points" and "length ordered = length points" and "list_all point_is_finite points"
    and "points \<noteq> [] \<Longrightarrow> \<forall>p \<in> set points. \<not> top_left_order p (hd ordered)"
proof -
  define sorted_points where "sorted_points = stable_sort (angle_order atn (center_of (map pt_x points)) (center_of (map pt_y points))) points"
  let ?k = "min_element_index top_left_order sorted_points"
  have len: "length sorted_points = length points" by (simp add: sorted_points_def)
  from assms show fin: "list_all point_is_finite points" by (simp add: order_plate_corners_def split: if_split_asm)
  with assms have o: "ordered = rotate ?k sorted_points"
    by (simp add: order_plate_corners_def Let_def sorted_points_def [symmetric] len rotation [of sorted_points, unfolded len])
  show "mset ordered = mset points" unfolding o rotate_drop_take
    by (metis append_take_drop_id mset_append mset_stable_sort sorted_points_def union_commute)
  then show "length ordered = length points" by (rule mset_eq_length)
  assume ne: "points \<noteq> []"
  have "set sorted_points = set points" by (simp add: sorted_points_def)
  with ne fin min_element_spec [of sorted_points] have m: "?k < length sorted_points"
    "\<forall>p \<in> set points. \<not> top_left_order p (sorted_points ! ?k)" by (auto simp: list_all_iff sorted_points_def)
  from m(1) have "sorted_points \<noteq> []" by auto
  with m(1) have "hd ordered = sorted_points ! ?k" by (simp add: o hd_rotate_conv_nth)
  with m(2) show "\<forall>p \<in> set points. \<not> top_left_order p (hd ordered)" by simp
qed

section \<open>What an evaluation says\<close>

definition all_scores :: "GeometryEvaluation \<Rightarrow> fl list" where
  "all_scores ev = [ge_score ev, ge_box_ratio_score ev, ge_crop_ratio_score ev, ge_pixel_score ev, ge_keypoint_score ev,
     ge_deformation_score ev, ge_polygon_fill_score ev]"

text \<open>A valid evaluation: scores are probabilities, corners in order, edges long enough, areas in proportion.\<close>

definition certified_evaluation :: "hypot \<Rightarrow> GeometryConfig \<Rightarrow> Detection \<Rightarrow> Point2f list \<Rightarrow> GeometryEvaluation \<Rightarrow> bool" where
  "certified_evaluation hyp c d ordered ev \<longleftrightarrow> list_all is_prob (all_scores ev) \<and> ge_ordered_corners ev = ordered \<and> ge_reason ev = ''ok'' \<and>
     polygon_is_convex ordered \<and>
     (\<forall>i < 4. fle (if even i then gc_minimum_horizontal_edge_pixels c else gc_minimum_vertical_edge_pixels c)
        (point_distance hyp (ordered ! i) (ordered ! ((i + 1) mod 4)))) \<and>
     ge_polygon_box_area_ratio ev = div32 (polygon_area ordered) (bbox_area (det_bbox d)) \<and>
     \<not> flt (ge_polygon_box_area_ratio ev) (gc_minimum_polygon_box_area_ratio c) \<and>
     \<not> flt (gc_maximum_polygon_box_area_ratio c) (ge_polygon_box_area_ratio ev)"

text \<open>What was measured: a ratio inside its hard limits, and corners near the box seen with enough confidence.\<close>

definition ratio_within :: "fl \<Rightarrow> fl \<Rightarrow> fl \<Rightarrow> bool" where
  "ratio_within lo hi r \<longleftrightarrow> is_finite r \<and> \<not> flt r lo \<and> \<not> flt hi r"

definition measured :: "hypot \<Rightarrow> GeometryConfig \<Rightarrow> Detection \<Rightarrow> PlateQuadrilateral \<Rightarrow> GeometryEvaluation \<Rightarrow> bool" where
  "measured hyp c d q ev \<longleftrightarrow> points_are_unique hyp (quad_points q) \<and>
     (\<forall>p \<in> set (quad_points q). point_near_box hyp p (det_bbox d) (gc_maximum_point_distance_from_box_ratio c)) \<and>
     (\<forall>k \<in> set (quad_confidences q). ratio_within (gc_minimum_keypoint_confidence c) (Fin 1) k) \<and>
     ratio_within (gc_minimum_box_aspect_ratio c) (gc_maximum_box_aspect_ratio c) (div32 (bb_width (det_bbox d)) (bb_height (det_bbox d))) \<and>
     ratio_within (gc_minimum_crop_aspect_ratio c) (gc_maximum_crop_aspect_ratio c) (ge_crop_aspect_ratio ev)"

lemma range_score_within: "\<not> fle (range_score v lo a b hi) (Fin 0) \<Longrightarrow> ratio_within lo hi v"
  by (auto simp: range_score_def ratio_within_def split: if_split_asm)

lemma keypoint_sum_within: "keypoint_sum m ks acc = Some t \<Longrightarrow> k \<in> set ks \<Longrightarrow> ratio_within m (Fin 1) k"
  by (induction ks arbitrary: acc) (auto simp: ratio_within_def split: if_split_asm)

lemma invalid_evaluation_rejects:
  "\<not> ge_valid (invalid_evaluation reason ordered)" "all_scores (invalid_evaluation reason ordered) = replicate 7 (Fin 0)"
  "ge_reason (invalid_evaluation reason ordered) = reason"
  by (simp_all add: invalid_evaluation_def all_scores_def eval_nat_numeral)

lemma evaluate_edges_within:
  assumes "ge_valid (evaluate_edges c d ordered br ks edges)"
  shows "ratio_within (gc_minimum_crop_aspect_ratio c) (gc_maximum_crop_aspect_ratio c) (ge_crop_aspect_ratio (evaluate_edges c d ordered br ks edges))"
proof -
  obtain tp rt bt lf where e: "edges = (tp, rt, bt, lf)" by (cases edges)
  have keep: "ge_crop_aspect_ratio (score_evaluation c d ordered br ks (tp, rt, bt, lf) r rs) = r"
    if "ge_valid (score_evaluation c d ordered br ks (tp, rt, bt, lf) r rs)" for r rs
    using that by (auto simp: score_evaluation_def Let_def invalid_evaluation_rejects split: if_split_asm)
  from assms show ?thesis
    by (auto simp: e evaluate_edges_def Let_def invalid_evaluation_rejects keep split: if_split_asm intro: range_score_within)
qed

lemma evaluate_corners_measured:
  assumes "ge_valid (evaluate_corners hyp c d q br ordered)" and "set ordered = set (quad_points q)" and "points_are_unique hyp (quad_points q)"
    and "ratio_within (gc_minimum_box_aspect_ratio c) (gc_maximum_box_aspect_ratio c) (div32 (bb_width (det_bbox d)) (bb_height (det_bbox d)))"
  shows "measured hyp c d q (evaluate_corners hyp c d q br ordered)"
proof -
  have near: "\<forall>p \<in> set ordered. point_near_box hyp p (det_bbox d) (gc_maximum_point_distance_from_box_ratio c)" and "polygon_is_convex ordered"
    using assms(1) by (auto simp: evaluate_corners_def invalid_evaluation_rejects list_ex_iff split: if_split_asm)
  moreover obtain acc where acc: "keypoint_sum (gc_minimum_keypoint_confidence c) (quad_confidences q) (Fin 0) = Some acc"
    using assms(1) by (auto simp: evaluate_corners_def invalid_evaluation_rejects split: if_split_asm option.split_asm)
  ultimately obtain ks edges where ev: "evaluate_corners hyp c d q br ordered = evaluate_edges c d ordered br ks edges"
    by (simp add: evaluate_corners_def Let_def list_ex_iff)
  have "ratio_within (gc_minimum_crop_aspect_ratio c) (gc_maximum_crop_aspect_ratio c) (ge_crop_aspect_ratio (evaluate_corners hyp c d q br ordered))"
    using evaluate_edges_within assms(1) unfolding ev .
  with assms(2-4) near keypoint_sum_within [OF acc] show ?thesis by (simp add: measured_def)
qed

definition geometry_config_ok :: "GeometryConfig \<Rightarrow> bool" where
  "geometry_config_ok c \<longleftrightarrow> list_all is_finite (geometry_values c) \<and>
     is_prob (gc_minimum_keypoint_confidence c) \<and>
     aspect_range_ok (gc_minimum_box_aspect_ratio c) (gc_preferred_box_aspect_min c) (gc_preferred_box_aspect_max c) (gc_maximum_box_aspect_ratio c) \<and>
     aspect_range_ok (gc_minimum_crop_aspect_ratio c) (gc_preferred_crop_aspect_min c) (gc_preferred_crop_aspect_max c) (gc_maximum_crop_aspect_ratio c) \<and>
     flt (Fin 0) (gc_minimum_polygon_box_area_ratio c) \<and> fle (gc_minimum_polygon_box_area_ratio c) (Fin 1) \<and>
     fle (Fin 1) (gc_maximum_polygon_box_area_ratio c) \<and>
     flt (Fin 0) (gc_minimum_horizontal_edge_pixels c) \<and> flt (Fin 0) (gc_minimum_vertical_edge_pixels c)"

lemma made_geometry_validator:
  assumes "make_geometry_validator config = Inr c"
  shows "c = config" and "geometry_config_ok config"
proof -
  from assms show "c = config" by (simp add: make_geometry_validator_def result_simps)
  have "flt (Fin 0) v" if "\<not> fle v (Fin 0)" "is_finite v" for v using that by (cases v) (auto simp: is_finite_def)
  with assms show "geometry_config_ok config"
    by (auto simp: make_geometry_validator_def result_simps geometry_config_ok_def is_prob_def geometry_values_def)
qed

lemma edge_ratio_nonneg:
  assumes "is_finite a" and "is_finite b" and "flt (Fin 0) a" and "flt (Fin 0) b"
  shows "fle (Fin 0) (div32 (fmin a b) (fmax a b))"
  using assms by (intro b32.fdiv_nonneg) (auto simp: fmin_def fmax_def fle_def)

lemma above_positive: "\<not> flt v m \<Longrightarrow> is_finite v \<Longrightarrow> flt (Fin 0) m \<Longrightarrow> flt (Fin 0) v \<and> fle m v"
  by (cases v; cases m) (auto simp: is_finite_def)

lemma score_evaluation_spec:
  assumes cfg: "geometry_config_ok c" "geometry_floats c" and box: "is_prob br" and key: "is_prob ks" and crop: "is_prob crs"
    and fin: "is_finite tp" "is_finite rt" "is_finite bt" "is_finite lf"
    and pos: "flt (Fin 0) tp" "flt (Fin 0) rt" "flt (Fin 0) bt" "flt (Fin 0) lf"
  shows "let ev = score_evaluation c d ordered br ks (tp, rt, bt, lf) cr crs in
    if ge_valid ev
    then list_all is_prob (all_scores ev) \<and> ge_ordered_corners ev = ordered \<and> ge_reason ev = ''ok'' \<and>
      ge_polygon_box_area_ratio ev = div32 (polygon_area ordered) (bbox_area (det_bbox d)) \<and>
      \<not> flt (ge_polygon_box_area_ratio ev) (gc_minimum_polygon_box_area_ratio c) \<and>
      \<not> flt (gc_maximum_polygon_box_area_ratio c) (ge_polygon_box_area_ratio ev)
    else all_scores ev = replicate 7 (Fin 0) \<and> ge_reason ev \<noteq> ''ok''"
proof -
  have e: "fle (Fin 0) (div32 (fmin tp bt) (fmax tp bt))" "fle (Fin 0) (div32 (fmin lf rt) (fmax lf rt))"
    by (intro edge_ratio_nonneg fin pos)+
  have "fle (Fin 0) (add32 (div32 (fmin tp bt) (fmax tp bt)) (div32 (fmin lf rt) (fmax lf rt)))"
    using e by (rule b32.fadd_nonneg)
  then have "mul32 (add32 (div32 (fmin tp bt) (fmax tp bt)) (div32 (fmin lf rt) (fmax lf rt))) (Fin (1/2)) \<noteq> NaN"
    by (cases "add32 (div32 (fmin tp bt) (fmax tp bt)) (div32 (fmin lf rt) (fmax lf rt))") (auto simp: signed_inf_def)
  then have def: "is_prob (clamp01 (mul32 (add32 (div32 (fmin tp bt) (fmax tp bt)) (div32 (fmin lf rt) (fmax lf rt))) (Fin (1/2))))"
    by (rule prob_clamp01)
  have lims: "is_finite (gc_minimum_horizontal_edge_pixels c)" "is_finite (gc_minimum_vertical_edge_pixels c)"
    "flt (Fin 0) (gc_minimum_horizontal_edge_pixels c)" "flt (Fin 0) (gc_minimum_vertical_edge_pixels c)"
    using cfg by (simp_all add: geometry_config_ok_def geometry_values_def)
  have "fmin tp bt \<noteq> NaN" "fmin lf rt \<noteq> NaN" using fin by (auto simp: fmin_def)
  then have "div32 (fmin tp bt) (gc_minimum_horizontal_edge_pixels c) \<noteq> NaN" "div32 (fmin lf rt) (gc_minimum_vertical_edge_pixels c) \<noteq> NaN"
    using lims by (simp_all add: div_not_NaN)
  then have "is_prob (clamp01 (fmin (div32 (fmin tp bt) (gc_minimum_horizontal_edge_pixels c)) (div32 (fmin lf rt) (gc_minimum_vertical_edge_pixels c))))"
    by (intro prob_clamp01) (simp add: fmin_def)
  note probs = box crop this key def
  have fill: "is_prob (fill_score v (gc_minimum_polygon_box_area_ratio c) (gc_maximum_polygon_box_area_ratio c))" for v
    using cfg by (intro fill_score_prob) (simp_all add: geometry_config_ok_def geometry_floats_def geometry_values_def)
  have six: "is_prob (clamp01 (add32 (add32 (add32 (add32 (add32 (mul32 (lit32 (15/100)) a) (mul32 (lit32 (20/100)) b))
      (mul32 (lit32 (15/100)) g)) (mul32 (lit32 (20/100)) h)) (mul32 (lit32 (15/100)) i)) (mul32 (lit32 (15/100)) j)))"
    if "is_prob a" "is_prob b" "is_prob g" "is_prob h" "is_prob i" "is_prob j" for a b g h i j
  proof (rule prob_clamp01)
    have "fle (Fin 0) (add32 (add32 (add32 (add32 (add32 (mul32 (lit32 (15/100)) a) (mul32 (lit32 (20/100)) b))
      (mul32 (lit32 (15/100)) g)) (mul32 (lit32 (20/100)) h)) (mul32 (lit32 (15/100)) i)) (mul32 (lit32 (15/100)) j))"
      using that by (intro b32.fadd_nonneg weighted_nonneg) simp_all
    then show "add32 (add32 (add32 (add32 (add32 (mul32 (lit32 (15/100)) a) (mul32 (lit32 (20/100)) b))
      (mul32 (lit32 (15/100)) g)) (mul32 (lit32 (20/100)) h)) (mul32 (lit32 (15/100)) i)) (mul32 (lit32 (15/100)) j) \<noteq> NaN"
      by (rule fle_not_NaN [THEN conjunct2])
  qed
  show ?thesis
    using probs fill six [OF probs(1,2,3,4,5) fill]
    by (simp add: score_evaluation_def invalid_evaluation_def all_scores_def Let_def eval_nat_numeral)
qed

definition quad_ok :: "PlateQuadrilateral option \<Rightarrow> bool" where
  "quad_ok q \<longleftrightarrow> (case q of None \<Rightarrow> True | Some q \<Rightarrow> quad_wf q)"

lemma less_4: "(i :: nat) < 4 \<longleftrightarrow> i = 0 \<or> i = 1 \<or> i = 2 \<or> i = 3"
  by auto

text \<open>The parts of an evaluation, from the last to the first: valid and certified, or with zero scores.\<close>

definition settled :: "hypot \<Rightarrow> GeometryConfig \<Rightarrow> Detection \<Rightarrow> Point2f list \<Rightarrow> GeometryEvaluation \<Rightarrow> bool" where
  "settled hyp c d ordered ev \<longleftrightarrow>
     (if ge_valid ev then certified_evaluation hyp c d ordered ev else all_scores ev = replicate 7 (Fin 0) \<and> ge_reason ev \<noteq> ''ok'')"

lemma settled_invalid: "reason \<noteq> ''ok'' \<Longrightarrow> settled hyp c d ordered (invalid_evaluation reason ordered')"
  by (simp add: settled_def invalid_evaluation_rejects)

lemma evaluate_edges_settled:
  fixes hyp :: hypot and ordered :: "Point2f list"
  assumes cfg: "geometry_config_ok c" "geometry_floats c" and "is_prob br" and "is_prob ks" and "polygon_is_convex ordered"
  defines "edge \<equiv> \<lambda>i j. point_distance hyp (ordered ! i) (ordered ! j)"
  shows "settled hyp c d ordered (evaluate_edges c d ordered br ks (edge 0 1, edge 1 2, edge 2 3, edge 3 0))"
proof -
  let ?h = "gc_minimum_horizontal_edge_pixels c" and ?v = "gc_minimum_vertical_edge_pixels c"
  have pos: "flt (Fin 0) ?h" "flt (Fin 0) ?v" using cfg by (simp_all add: geometry_config_ok_def)
  have range: "is_prob (range_score r (gc_minimum_crop_aspect_ratio c) (gc_preferred_crop_aspect_min c)
                  (gc_preferred_crop_aspect_max c) (gc_maximum_crop_aspect_ratio c))" for r
    using cfg by (intro range_score_prob) (simp_all add: geometry_config_ok_def geometry_floats_def geometry_values_def)
  show ?thesis
  proof (cases "is_finite (edge 0 1) \<and> is_finite (edge 1 2) \<and> is_finite (edge 2 3) \<and> is_finite (edge 3 0) \<and>
      \<not> flt (edge 0 1) ?h \<and> \<not> flt (edge 2 3) ?h \<and> \<not> flt (edge 3 0) ?v \<and> \<not> flt (edge 1 2) ?v")
    case True
    then have fin: "is_finite (edge 0 1)" "is_finite (edge 1 2)" "is_finite (edge 2 3)" "is_finite (edge 3 0)" by blast+
    from True have len: "flt (Fin 0) (edge 0 1) \<and> fle ?h (edge 0 1)" "flt (Fin 0) (edge 1 2) \<and> fle ?v (edge 1 2)"
      "flt (Fin 0) (edge 2 3) \<and> fle ?h (edge 2 3)" "flt (Fin 0) (edge 3 0) \<and> fle ?v (edge 3 0)" 
      using above_positive [OF _ fin(1) pos(1)] above_positive [OF _ fin(2) pos(2)] above_positive [OF _ fin(3) pos(1)]
        above_positive [OF _ fin(4) pos(2)] by blast+
    have edges: "\<forall>i < 4. fle (if even i then ?h else ?v) (point_distance hyp (ordered ! i) (ordered ! ((i + 1) mod 4)))"
    proof -
      have "ordered ! Suc (Suc 0) = ordered ! 2" "ordered ! Suc 2 = ordered ! 3" by (simp_all add: numeral_eq_Suc)
      with len show ?thesis by (auto simp: less_4 edge_def)
    qed
    have scored: "settled hyp c d ordered (score_evaluation c d ordered br ks (edge 0 1, edge 1 2, edge 2 3, edge 3 0) cr
        (range_score r (gc_minimum_crop_aspect_ratio c) (gc_preferred_crop_aspect_min c) (gc_preferred_crop_aspect_max c) (gc_maximum_crop_aspect_ratio c)))" for cr r
      using score_evaluation_spec [OF cfg assms(3,4) range fin len [THEN conjunct1], of d ordered cr r] edges assms(5)
      by (simp add: settled_def certified_evaluation_def Let_def split: if_split_asm)
    have unfold: "evaluate_edges c d ordered br ks (edge 0 1, edge 1 2, edge 2 3, edge 3 0) =
      (let average_width = mul32 (add32 (edge 0 1) (edge 2 3)) (Fin (1/2)); average_height = mul32 (add32 (edge 3 0) (edge 1 2)) (Fin (1/2)) in
       if fle average_height geometry_epsilon then invalid_evaluation ''degenerate_crop_height'' ordered
       else let crop_ratio = div32 average_width average_height;
                crop_ratio_score = range_score crop_ratio (gc_minimum_crop_aspect_ratio c) (gc_preferred_crop_aspect_min c)
                  (gc_preferred_crop_aspect_max c) (gc_maximum_crop_aspect_ratio c)
         in if fle crop_ratio_score (Fin 0) then invalid_evaluation ''crop_aspect_ratio_out_of_range'' ordered
            else score_evaluation c d ordered br ks (edge 0 1, edge 1 2, edge 2 3, edge 3 0) crop_ratio crop_ratio_score)"
      using True by (simp add: evaluate_edges_def Let_def)
    show ?thesis unfolding unfold Let_def using scored by (auto simp: settled_invalid)
  qed (auto simp: evaluate_edges_def intro: settled_invalid)
qed

lemma evaluate_corners_settled:
  assumes cfg: "geometry_config_ok c" "geometry_floats c" and "is_prob br" and "length (quad_confidences q) = 4"
  shows "settled hyp c d ordered (evaluate_corners hyp c d q br ordered)"
proof (cases "polygon_is_convex ordered \<and> \<not> list_ex (\<lambda>p. \<not> point_near_box hyp p (det_bbox d) (gc_maximum_point_distance_from_box_ratio c)) ordered")
  case True
  show ?thesis
  proof (cases "keypoint_sum (gc_minimum_keypoint_confidence c) (quad_confidences q) (Fin 0)")
    case (Some acc)
    have "fle (Fin 0) acc" using keypoint_sum_nonneg [OF Some] cfg(1) by (simp add: geometry_config_ok_def is_prob_fle)
    then have "acc \<noteq> NaN" by auto
    moreover have "float_of_nat binary32 4 = Fin 4" by code_simp
    ultimately have "is_prob (clamp01 (div32 acc (float_of_nat binary32 4)))"
      by (intro prob_clamp01 div_not_NaN) (simp_all add: is_finite_def)
    from evaluate_edges_settled [OF cfg assms(3) this] True Some assms(4) show ?thesis by (simp add: evaluate_corners_def Let_def)
  qed (use True in \<open>simp add: evaluate_corners_def settled_invalid\<close>)
qed (auto simp: evaluate_corners_def intro: settled_invalid)

lemma evaluate_geometry_spec:
  assumes "make_geometry_validator config = Inr c" and "geometry_floats config" and "quad_ok (det_quadrilateral d)"
  shows "\<exists>ev ordered. evaluate_geometry hyp atn c d = Inr ev \<and> settled hyp c d ordered ev \<and>
    (ge_valid ev \<longrightarrow> bbox_is_valid (det_bbox d) \<and> (\<exists>q. det_quadrilateral d = Some q \<and> measured hyp c d q ev \<and> mset ordered = mset (quad_points q) \<and>
       (\<forall>p \<in> set (quad_points q). \<not> top_left_order p (hd ordered))))"
proof -
  note made = made_geometry_validator [OF assms(1)]
  let ?score = "range_score (div32 (bb_width (det_bbox d)) (bb_height (det_bbox d))) (gc_minimum_box_aspect_ratio c) (gc_preferred_box_aspect_min c)
      (gc_preferred_box_aspect_max c) (gc_maximum_box_aspect_ratio c)"
  have score: "is_prob ?score"
    using made assms(2) by (intro range_score_prob) (simp_all add: geometry_config_ok_def geometry_floats_def geometry_values_def)
  show ?thesis
  proof (cases "\<not> bbox_is_valid (det_bbox d) \<or> fle ?score (Fin 0) \<or> det_quadrilateral d = None")
    case True
    then show ?thesis
      by (auto simp: evaluate_geometry_def Let_def settled_invalid invalid_evaluation_rejects)
  next
    case False
    then obtain q where q: "det_quadrilateral d = Some q" by blast
    then have wf: "length (quad_points q) = 4" "length (quad_confidences q) = 4" using assms(3) by (simp_all add: quad_ok_def quad_wf_def)
    show ?thesis
    proof (cases "list_all point_is_finite (quad_points q) \<and> points_are_unique hyp (quad_points q)")
      case True
      then obtain ordered where o: "order_plate_corners atn (quad_points q) = Inr ordered" by (simp add: order_plate_corners_def Let_def)
      have "evaluate_geometry hyp atn c d = Inr (evaluate_corners hyp c d q ?score ordered)"
        using False True q o by (simp add: evaluate_geometry_def Let_def)
      moreover have "settled hyp c d ordered (evaluate_corners hyp c d q ?score ordered)"
        by (rule evaluate_corners_settled) (use made assms(2) score wf in simp_all)
      moreover have "quad_points q \<noteq> []" using wf by auto
      moreover have "ge_valid (evaluate_corners hyp c d q ?score ordered) \<longrightarrow> measured hyp c d q (evaluate_corners hyp c d q ?score ordered)"
        using evaluate_corners_measured [OF _ mset_eq_setD [OF ordered_corners(1) [OF o]]] True False range_score_within by blast
      ultimately show ?thesis using ordered_corners(1,4) [OF o] q False by blast
    qed (use False q in \<open>auto simp: evaluate_geometry_def Let_def settled_invalid invalid_evaluation_rejects\<close>)
  qed
qed

text \<open>
  C36: what the geometry of a plate says. Whatever \<open>std::hypot\<close> and \<open>std::atan2\<close> compute, the evaluation of a detection returns. Either
  it is invalid, with a reason and all scores 0, or all its scores are probabilities, the corners are those of the
  quadrilateral, different, from the top left one on, convex in their order, near the box and seen with enough confidence, the edges have
  the configured minimum lengths, and the aspect ratios of box and crop and the proportion of the areas are in the configured ranges.
\<close>

theorem geometry_evaluation_certified:
  assumes "make_geometry_validator config = Inr c" and "geometry_floats config" and "quad_ok (det_quadrilateral d)"
  shows "\<exists>ev. evaluate_geometry hyp atn c d = Inr ev \<and>
    (if ge_valid ev
     then \<exists>q ordered. det_quadrilateral d = Some q \<and> bbox_is_valid (det_bbox d) \<and> certified_evaluation hyp config d ordered ev \<and>
       measured hyp config d q ev \<and> mset ordered = mset (quad_points q) \<and> (\<forall>p \<in> set (quad_points q). \<not> top_left_order p (hd ordered))
     else all_scores ev = replicate 7 (Fin 0) \<and> ge_reason ev \<noteq> ''ok'')"
proof -
  from evaluate_geometry_spec [OF assms, of hyp atn] obtain ev ordered where ev: "evaluate_geometry hyp atn c d = Inr ev"
    and s: "settled hyp c d ordered ev"
    and v: "ge_valid ev \<longrightarrow> bbox_is_valid (det_bbox d) \<and> (\<exists>q. det_quadrilateral d = Some q \<and> measured hyp c d q ev \<and> mset ordered = mset (quad_points q) \<and>
       (\<forall>p \<in> set (quad_points q). \<not> top_left_order p (hd ordered)))" by blast
  from s v made_geometry_validator(1) [OF assms(1)] show ?thesis by (intro exI [of _ ev] conjI ev) (auto simp: settled_def)
qed

lemma settled_score:
  assumes "settled hyp c d ordered ev"
  shows "is_prob (ge_score ev) \<and> (\<not> ge_valid ev \<longrightarrow> ge_score ev = Fin 0)"
proof (cases "ge_valid ev")
  case True
  with assms show ?thesis by (simp add: settled_def certified_evaluation_def all_scores_def)
next
  case False
  with assms have "hd (all_scores ev) = hd (replicate 7 (Fin 0))" by (simp add: settled_def)
  then show ?thesis by (simp add: all_scores_def)
qed

text \<open>The evidence of the adapter is a probability, and the adapter fails only when it is stopped.\<close>

lemma geometry_evidence_ok:
  assumes "make_geometry_validator config = Inr c" and "geometry_floats config" and "quad_ok (det_quadrilateral d)"
  shows "case fst (geometry_evidence hyp atn c d ctx w n) of
      Inl e \<Rightarrow> e = CancelledError ''geometry evaluation cancelled'' \<or> e = TimeoutError ''geometry evaluation deadline exceeded''
    | Inr g \<Rightarrow> is_prob (geo_score g) \<and> (\<not> geo_valid g \<longrightarrow> geo_score g = Fin 0)"
proof -
  from evaluate_geometry_spec [OF assms, of hyp atn] obtain ev ordered where ev: "evaluate_geometry hyp atn c d = Inr ev"
    "settled hyp c d ordered ev" by blast
  from ev(1) settled_score [OF ev(2)] show ?thesis
    by (auto simp: geometry_evidence_def io_bind_def io_lift_def io_return_def dest!: check_operation_Inl split: sum.split prod.split)
qed

section \<open>A rectangle\<close>

text \<open>The length of an edge parallel to an axis, and the order of the angles of the four quadrants.\<close>

definition axis_length :: hypot where
  "axis_length a b = add32 (fabs a) (fabs b)"

definition quadrant :: atan2 where
  "quadrant y x = (if flt y (Fin 0) then if flt x (Fin 0) then Fin (- 2) else Fin (- 1) else if flt x (Fin 0) then Fin 2 else Fin 1)"

definition corner :: "rat \<Rightarrow> rat \<Rightarrow> Point2f" where
  "corner x y = \<lparr>pt_x = Fin x, pt_y = Fin y\<rparr>"

definition rectangle_detection :: Detection where
  "rectangle_detection = \<lparr>det_bbox = \<lparr>bb_x = Fin 0, bb_y = Fin 0, bb_width = Fin 40, bb_height = Fin 10\<rparr>,
     det_quadrilateral = Some \<lparr>quad_points = [corner 40 0, corner 0 0, corner 0 10, corner 40 10], quad_confidences = replicate 4 (Fin 1)\<rparr>,
     det_confidence = Fin 1, det_geometry_score = Fin 0, det_provider = ''demo''\<rparr>"

lemma rectangle_evaluated:
  "map_sum id (\<lambda>ev. (ge_valid ev, ge_ordered_corners ev)) (evaluate_geometry axis_length quadrant default_geometry_config rectangle_detection) =
     Inr (True, [corner 0 0, corner 40 0, corner 40 10, corner 0 10])"
  by code_simp

lemma default_geometry_made: "make_geometry_validator default_geometry_config = Inr default_geometry_config"
  by code_simp

lemma default_geometry_floats: "geometry_floats default_geometry_config"
  by code_simp

theorem geometry_evaluation_certified_witness:
  "\<exists>ev. evaluate_geometry axis_length quadrant default_geometry_config rectangle_detection = Inr ev \<and> ge_valid ev \<and> is_prob (ge_score ev) \<and>
     ge_ordered_corners ev = [corner 0 0, corner 40 0, corner 40 10, corner 0 10]"
proof -
  have "quad_ok (det_quadrilateral rectangle_detection)" by (simp add: rectangle_detection_def quad_ok_def quad_wf_def)
  from geometry_evaluation_certified [OF default_geometry_made default_geometry_floats this, of axis_length quadrant] rectangle_evaluated
  show ?thesis by (auto simp: certified_evaluation_def all_scores_def dest!: map_sum_Inr_obtain split: if_split_asm)
qed


end
