(* ===== verification/Sha256.thy ===== *)
theory Sha256
  imports Prelude Complex_Main "HOL-Library.Word"
begin

text \<open>
  The digest that pins the model files (\<^verbatim>\<open>infrastructure/crypto/sha256.cpp\<close>): the code walks the message in place, block by
  block, and pads only its tail in a buffer of two blocks. It is first shown to be the walk over the blocks of the padded message with a
  recursive message schedule, and that walk to be the standard, which shares no definition with the code: its constants are roots of primes,
  its rotations those of the word library, its functions, words and bytes are given by themselves.
\<close>

unbundle bit_operations_syntax

section \<open>The code\<close>

text \<open>The round constants, in decimal.\<close>

definition sha_constants :: "32 word list" where
  "sha_constants = [1116352408, 1899447441, 3049323471, 3921009573, 961987163, 1508970993, 2453635748, 2870763221,
    3624381080, 310598401, 607225278, 1426881987, 1925078388, 2162078206, 2614888103, 3248222580,
    3835390401, 4022224774, 264347078, 604807628, 770255983, 1249150122, 1555081692, 1996064986,
    2554220882, 2821834349, 2952996808, 3210313671, 3336571891, 3584528711, 113926993, 338241895,
    666307205, 773529912, 1294757372, 1396182291, 1695183700, 1986661051, 2177026350, 2456956037,
    2730485921, 2820302411, 3259730800, 3345764771, 3516065817, 3600352804, 4094571909, 275423344,
    430227734, 506948616, 659060556, 883997877, 958139571, 1322822218, 1537002063, 1747873779,
    1955562222, 2024104815, 2227730452, 2361852424, 2428436474, 2756734187, 3204031479, 3329325298]"

definition rotate_right :: "32 word \<Rightarrow> nat \<Rightarrow> 32 word" where
  "rotate_right v bits = drop_bit bits v OR push_bit (32 - bits) v"

definition block_word :: "8 word list \<Rightarrow> nat \<Rightarrow> 32 word" where
  "block_word block i =
     (let offset = i * 4 in
      push_bit 24 (ucast (block ! offset)) OR push_bit 16 (ucast (block ! (offset + 1))) OR push_bit 8 (ucast (block ! (offset + 2))) OR
      ucast (block ! (offset + 3)))"

definition extend_word :: "32 word list \<Rightarrow> nat \<Rightarrow> 32 word" where
  "extend_word ws i =
     (let s0 = rotate_right (ws ! (i - 15)) 7 XOR rotate_right (ws ! (i - 15)) 18 XOR drop_bit 3 (ws ! (i - 15));
          s1 = rotate_right (ws ! (i - 2)) 17 XOR rotate_right (ws ! (i - 2)) 19 XOR drop_bit 10 (ws ! (i - 2))
      in ws ! (i - 16) + s0 + ws ! (i - 7) + s1)"

definition sha_words :: "8 word list \<Rightarrow> 32 word list" where
  "sha_words block =
     fold (\<lambda>i ws. ws[i := extend_word ws i]) [16..<64] (fold (\<lambda>i ws. ws[i := block_word block i]) [0..<16] (replicate 64 0))"

text \<open>The eight working variables, in the order of the code.\<close>

record ShaState =
  sha_a :: "32 word"
  sha_b :: "32 word"
  sha_c :: "32 word"
  sha_d :: "32 word"
  sha_e :: "32 word"
  sha_f :: "32 word"
  sha_g :: "32 word"
  sha_h :: "32 word"

definition sha_round :: "32 word \<Rightarrow> 32 word \<Rightarrow> ShaState \<Rightarrow> ShaState" where
  "sha_round k w s =
     (let sum1 = rotate_right (sha_e s) 6 XOR rotate_right (sha_e s) 11 XOR rotate_right (sha_e s) 25;
          choice = (sha_e s AND sha_f s) XOR (NOT (sha_e s) AND sha_g s);
          temp1 = sha_h s + sum1 + choice + k + w;
          sum0 = rotate_right (sha_a s) 2 XOR rotate_right (sha_a s) 13 XOR rotate_right (sha_a s) 22;
          majority = (sha_a s AND sha_b s) XOR (sha_a s AND sha_c s) XOR (sha_b s AND sha_c s);
          temp2 = sum0 + majority
      in \<lparr>sha_a = temp1 + temp2, sha_b = sha_a s, sha_c = sha_b s, sha_d = sha_c s, sha_e = sha_d s + temp1, sha_f = sha_e s,
          sha_g = sha_f s, sha_h = sha_g s\<rparr>)"

definition add_state :: "ShaState \<Rightarrow> ShaState \<Rightarrow> ShaState" where
  "add_state s t = \<lparr>sha_a = sha_a s + sha_a t, sha_b = sha_b s + sha_b t, sha_c = sha_c s + sha_c t, sha_d = sha_d s + sha_d t,
     sha_e = sha_e s + sha_e t, sha_f = sha_f s + sha_f t, sha_g = sha_g s + sha_g t, sha_h = sha_h s + sha_h t\<rparr>"

definition sha_transform :: "ShaState \<Rightarrow> 8 word list \<Rightarrow> ShaState" where
  "sha_transform s block =
     (let ws = sha_words block in add_state s (fold (\<lambda>i. sha_round (sha_constants ! i) (ws ! i)) [0..<64] s))"

definition sha_initial :: ShaState where
  "sha_initial = \<lparr>sha_a = 0x6a09e667, sha_b = 0xbb67ae85, sha_c = 0x3c6ef372, sha_d = 0xa54ff53a, sha_e = 0x510e527f, sha_f = 0x9b05688c,
     sha_g = 0x1f83d9ab, sha_h = 0x5be0cd19\<rparr>"

text \<open>The loop over the whole blocks: the state and the offset where it ends.\<close>

function block_loop :: "8 word list \<Rightarrow> ShaState \<Rightarrow> nat \<Rightarrow> ShaState \<times> nat" where
  "block_loop bytes s offset =
     (if 64 \<le> length bytes - offset then block_loop bytes (sha_transform s (drop offset bytes)) (offset + 64) else (s, offset))"
  by pat_completeness auto

termination block_loop
  by (relation "measure (\<lambda>(bytes, s, offset). length bytes - offset)") auto

declare block_loop.simps [simp del]

definition sha_tail :: "8 word list \<Rightarrow> nat \<Rightarrow> nat \<Rightarrow> 8 word list" where
  "sha_tail bytes offset padded_size =
     (let remainder = length bytes - offset;
          tail = (fold (\<lambda>i t. t[i := bytes ! (offset + i)]) [0..<remainder] (replicate 128 0))[remainder := 0x80];
          bit_length = of_nat (length bytes) * 8 :: 64 word
      in fold (\<lambda>i t. t[padded_size - 1 - i := ucast (drop_bit (i * 8) bit_length)]) [0..<8] tail)"

definition state_words :: "ShaState \<Rightarrow> 32 word list" where
  "state_words s = [sha_a s, sha_b s, sha_c s, sha_d s, sha_e s, sha_f s, sha_g s, sha_h s]"

definition word_bytes :: "32 word \<Rightarrow> 8 word list" where
  "word_bytes w = [ucast (drop_bit 24 w), ucast (drop_bit 16 w), ucast (drop_bit 8 w), ucast w]"

definition sha256 :: "8 word list \<Rightarrow> 8 word list" where
  "sha256 bytes =
     (let (s, offset) = block_loop bytes sha_initial 0;
          remainder = length bytes - offset;
          padded_size = (if remainder < 56 then 64 else 128);
          tail = sha_tail bytes offset padded_size;
          s = sha_transform s tail;
          s = (if padded_size = 128 then sha_transform s (drop 64 tail) else s)
      in concat (map word_bytes (state_words s)))"

definition hex_digit :: "nat \<Rightarrow> char" where
  "hex_digit n = ''0123456789abcdef'' ! n"

definition sha256_hex :: "8 word list \<Rightarrow> string" where
  "sha256_hex bytes = concat (map (\<lambda>v. [hex_digit (unat v div 16), hex_digit (unat v mod 16)]) (sha256 bytes))"

section \<open>The walk over the padded message\<close>

text \<open>The length of the message in bits as eight bytes, most significant first.\<close>

definition length_bytes :: "8 word list \<Rightarrow> 8 word list" where
  "length_bytes bytes = map (\<lambda>i. ucast (drop_bit ((7 - i) * 8) (of_nat (length bytes) * 8 :: 64 word))) [0..<8]"

definition sha_padded :: "8 word list \<Rightarrow> 8 word list" where
  "sha_padded bytes = bytes @ 0x80 # replicate ((119 - length bytes mod 64) mod 64) 0 @ length_bytes bytes"

fun schedule :: "8 word list \<Rightarrow> nat \<Rightarrow> 32 word" where
  "schedule block t =
     (if t < 16 then block_word block t
      else schedule block (t - 16) + (rotate_right (schedule block (t - 15)) 7 XOR rotate_right (schedule block (t - 15)) 18 XOR drop_bit 3 (schedule block (t - 15))) +
        schedule block (t - 7) + (rotate_right (schedule block (t - 2)) 17 XOR rotate_right (schedule block (t - 2)) 19 XOR drop_bit 10 (schedule block (t - 2))))"

declare schedule.simps [simp del]

definition compress :: "8 word list \<Rightarrow> ShaState \<Rightarrow> ShaState" where
  "compress block s = add_state s (fold (\<lambda>t. sha_round (sha_constants ! t) (schedule block t)) [0..<64] s)"

text \<open>A message of whole blocks, block by block.\<close>

function process_blocks :: "8 word list \<Rightarrow> ShaState \<Rightarrow> ShaState" where
  "process_blocks message s = (if length message < 64 then s else process_blocks (drop 64 message) (compress (take 64 message) s))"
  by pat_completeness auto

termination process_blocks
  by (relation "measure (\<lambda>(message, s). length message)") auto

declare process_blocks.simps [simp del]

definition sha256_blocks :: "8 word list \<Rightarrow> 8 word list" where
  "sha256_blocks bytes = concat (map word_bytes (state_words (process_blocks (sha_padded bytes) sha_initial)))"

section \<open>The schedule\<close>

lemma block_word_cong: "i < 16 \<Longrightarrow> block_word (take 64 block) i = block_word block i"
  by (simp add: block_word_def)

lemma schedule_first: "t < 16 \<Longrightarrow> schedule block t = block_word block t"
  by (subst schedule.simps) simp

lemma first_words:
  assumes "n \<le> 16"
  shows "length (fold (\<lambda>i ws. ws[i := block_word block i]) [0..<n] (replicate 64 0)) = 64 \<and>
    (\<forall>t < n. fold (\<lambda>i ws. ws[i := block_word block i]) [0..<n] (replicate 64 0) ! t = block_word block t)"
  using assms by (induction n) (auto simp: nth_list_update)

lemma extended_words:
  assumes "length ws = 64" and "\<forall>t < 16. ws ! t = schedule block t" and "16 \<le> n" and "n \<le> 64"
  shows "length (fold (\<lambda>i ws. ws[i := extend_word ws i]) [16..<n] ws) = 64 \<and>
    (\<forall>t < n. fold (\<lambda>i ws. ws[i := extend_word ws i]) [16..<n] ws ! t = schedule block t)"
  using assms(3,4)
proof (induction n rule: dec_induct)
  case (step n)
  define xs where "xs = fold (\<lambda>i ws. ws[i := extend_word ws i]) [16..<n] ws"
  from step have xs: "length xs = 64" "\<forall>t < n. xs ! t = schedule block t" by (simp_all add: xs_def)
  have "extend_word xs n = schedule block n"
    using xs(2) step.hyps(1) by (simp add: extend_word_def schedule.simps [of block n] Let_def)
  moreover have "fold (\<lambda>i ws. ws[i := extend_word ws i]) [16..<Suc n] ws = xs[n := extend_word xs n]"
    using step.hyps(1) by (simp add: xs_def)
  ultimately show ?case using xs step.prems by (auto simp: nth_list_update less_Suc_eq)
qed (use assms in simp)

lemma sha_words_schedule: "t < 64 \<Longrightarrow> sha_words block ! t = schedule block t"
proof -
  define ws where "ws = fold (\<lambda>i ws. ws[i := block_word block i]) [0..<16] (replicate 64 0)"
  have "length ws = 64" "\<forall>t < 16. ws ! t = block_word block t" using first_words [of 16 block] by (simp_all add: ws_def)
  moreover from this(2) have "\<forall>t < 16. ws ! t = schedule block t" by (simp add: schedule_first)
  moreover have "(16 :: nat) \<le> 64" "(64 :: nat) \<le> 64" by simp_all
  ultimately have "\<forall>t < 64. fold (\<lambda>i ws. ws[i := extend_word ws i]) [16..<64] ws ! t = schedule block t"
    using extended_words [of ws block 64] by blast
  then show "t < 64 \<Longrightarrow> sha_words block ! t = schedule block t" unfolding sha_words_def ws_def by blast
qed

lemma schedule_take: "t < 64 \<Longrightarrow> schedule (take 64 block) t = schedule block t"
proof (induction t rule: less_induct)
  case (less t)
  show ?case
  proof (cases "t < 16")
    case False
    then have "schedule (take 64 block) (t - k) = schedule block (t - k)" if "0 < k" "k \<le> 16" for k using that less by simp
    with False show ?thesis by (simp add: schedule.simps [of _ t])
  qed (simp add: schedule.simps [of _ t] block_word_cong)
qed

lemma transform_compress: "sha_transform s block = compress (take 64 block) s"
proof -
  have "fold (\<lambda>i. sha_round (sha_constants ! i) (sha_words block ! i)) [0..<64] s =
      fold (\<lambda>t. sha_round (sha_constants ! t) (schedule (take 64 block) t)) [0..<64] s"
    by (rule fold_cong) (simp_all add: sha_words_schedule schedule_take)
  then show ?thesis by (simp add: sha_transform_def compress_def Let_def)
qed

section \<open>The padding\<close>

lemma block_loop_spec:
  assumes "offset \<le> length bytes"
  shows "let (s', off) = block_loop bytes s offset in
    off \<le> length bytes \<and> length bytes - off < 64 \<and> off mod 64 = offset mod 64 \<and>
    (\<forall>rest. process_blocks (drop offset bytes @ rest) s = process_blocks (drop off bytes @ rest) s')"
  using assms
proof (induction bytes s offset rule: block_loop.induct)
  case (1 bytes s offset)
  show ?case
  proof (cases "64 \<le> length bytes - offset")
    case True
    have "process_blocks (drop offset bytes @ rest) s = process_blocks (drop (offset + 64) bytes @ rest) (sha_transform s (drop offset bytes))" for rest
      using True by (subst process_blocks.simps) (simp add: transform_compress add.commute)
    with 1(1) [OF True] True show ?thesis
      by (simp add: block_loop.simps [of bytes s offset] case_prod_unfold Let_def)
  qed (use 1 in \<open>simp add: block_loop.simps [of bytes s offset]\<close>)
qed

lemma tail_start:
  fixes bytes :: "8 word list"
  assumes "n \<le> length bytes - offset" and "n \<le> 128"
  shows "fold (\<lambda>i t. t[i := bytes ! (offset + i)]) [0..<n] (replicate 128 0) = take n (drop offset bytes) @ replicate (128 - n) 0"
  using assms
proof (induction n)
  case (Suc n)
  then have IH: "fold (\<lambda>i t. t[i := bytes ! (offset + i)]) [0..<n] (replicate 128 0) = take n (drop offset bytes) @ replicate (128 - n) 0" by simp
  have len: "length (take n (drop offset bytes)) = n" using Suc.prems by simp
  have "replicate (128 - n) (0 :: 8 word) = 0 # replicate (128 - Suc n) 0"
    using Suc.prems by (metis Suc_diff_Suc Suc_le_lessD replicate_Suc)
  moreover have "take (Suc n) (drop offset bytes) = take n (drop offset bytes) @ [bytes ! (offset + n)]"
    using Suc.prems by (subst take_Suc_conv_app_nth) simp_all
  ultimately have "fold (\<lambda>i t. t[i := bytes ! (offset + i)]) [0..<Suc n] (replicate 128 0) =
      (take n (drop offset bytes) @ 0 # replicate (128 - Suc n) 0)[length (take n (drop offset bytes)) := bytes ! (offset + n)]"
    using IH unfolding len by simp
  also have "\<dots> = take n (drop offset bytes) @ bytes ! (offset + n) # replicate (128 - Suc n) 0" by (rule list_update_length)
  finally show ?case using \<open>take (Suc n) (drop offset bytes) = _\<close> by simp
qed simp

lemma write_length:
  assumes "8 \<le> p" and "p \<le> length t"
  shows "n \<le> 8 \<Longrightarrow> fold (\<lambda>i t. t[p - 1 - i := f i]) [0..<n] t = take (p - n) t @ rev (map f [0..<n]) @ drop p t"
proof (induction n)
  case (Suc n)
  then have IH: "fold (\<lambda>i t. t[p - 1 - i := f i]) [0..<n] t = take (p - n) t @ rev (map f [0..<n]) @ drop p t" by simp
  have k: "p - n = Suc (p - Suc n)" using assms(1) Suc.prems by simp
  have "take (p - n) t = take (p - Suc n) t @ [t ! (p - Suc n)]" unfolding k using assms Suc.prems by (subst take_Suc_conv_app_nth) simp_all
  moreover have "length (take (p - Suc n) t) = p - Suc n" using assms by simp
  ultimately show ?case using IH by (simp add: list_update_append)
qed simp

lemma length_bytes_rev:
  "length_bytes bytes = rev (map (\<lambda>i. ucast (drop_bit (i * 8) (of_nat (length bytes) * 8 :: 64 word))) [0..<8])"
proof -
  have "rev [0..<8] = map (\<lambda>i. 7 - i) [0..<8 :: nat]" by code_simp
  then show ?thesis unfolding length_bytes_def rev_map by (simp add: comp_def)
qed

lemma sha_tail_padded:
  assumes "offset \<le> length bytes" and "length bytes - offset < 64" and "64 dvd offset"
  defines "p \<equiv> if length bytes - offset < 56 then 64 else (128 :: nat)"
  shows "take p (sha_tail bytes offset p) = drop offset (sha_padded bytes)"
    and "length (sha_tail bytes offset p) = 128" and "length (drop offset (sha_padded bytes)) = p"
proof -
  let ?r = "length bytes - offset" and ?msg = "drop offset bytes"
  have r: "length bytes mod 64 = ?r" 
  proof -
    from assms(3) obtain k where "offset = 64 * k" ..
    then have "length bytes = ?r + k * 64" using assms(1) by simp
    then have "length bytes mod 64 = ?r mod 64" by (metis mod_mult_self1)
    with assms(2) show ?thesis by simp
  qed
  define z where "z = (119 - ?r) mod 64"
  have p: "?r + 1 + z + 8 = p" using assms(2) by (auto simp: p_def z_def mod_if)
  have p2: "8 \<le> p" "p \<le> 128" "?r + 1 \<le> p - 8" using p by (auto simp: p_def)
  have start: "(fold (\<lambda>i t. t[i := bytes ! (offset + i)]) [0..<?r] (replicate 128 0))[?r := 0x80] = ?msg @ 0x80 # replicate (127 - ?r) 0"
  proof -
    have "128 - ?r = Suc (127 - ?r)" using assms(2) by simp
    then have "replicate (128 - ?r) (0 :: 8 word) = 0 # replicate (127 - ?r) 0" by simp
    moreover have "fold (\<lambda>i t. t[i := bytes ! (offset + i)]) [0..<?r] (replicate 128 0) = ?msg @ replicate (128 - ?r) 0"
      using tail_start [of ?r bytes offset] assms(2) by simp
    ultimately show ?thesis using list_update_length [of ?msg] by simp
  qed
  let ?t = "?msg @ 0x80 # replicate (127 - ?r) (0 :: 8 word)"
  have len: "length ?t = 128" using assms(2) by simp
  have tail: "sha_tail bytes offset p = take (p - 8) ?t @ length_bytes bytes @ drop p ?t"
    unfolding sha_tail_def Let_def start length_bytes_rev using write_length [of p ?t 8] p2 len by simp
  have l8: "length (length_bytes bytes) = 8" by (simp add: length_bytes_def)
  show "length (sha_tail bytes offset p) = 128" unfolding tail using len l8 p2 by simp
  have "p - 8 = ?r + Suc z" "z \<le> 127 - ?r" using p p2 assms(2) by linarith+
  then have "take (p - 8) ?t = ?msg @ 0x80 # replicate z 0" by (simp add: min_def)
  moreover have "take p (sha_tail bytes offset p) = take (p - 8) ?t @ length_bytes bytes"
  proof -
    have "length (take (p - 8) ?t @ length_bytes bytes) = p" using l8 p2 by (simp only: length_append length_take len) simp
    moreover have "sha_tail bytes offset p = (take (p - 8) ?t @ length_bytes bytes) @ drop p ?t" unfolding tail by (simp only: append_assoc)
    ultimately show ?thesis by (metis append_eq_conv_conj)
  qed
  ultimately have "take p (sha_tail bytes offset p) = ?msg @ 0x80 # replicate z 0 @ length_bytes bytes" by simp
  moreover have "drop offset (sha_padded bytes) = ?msg @ 0x80 # replicate z 0 @ length_bytes bytes"
    using assms(1) by (simp add: sha_padded_def r z_def)
  ultimately show "take p (sha_tail bytes offset p) = drop offset (sha_padded bytes)" "length (drop offset (sha_padded bytes)) = p"
    using p l8 by simp_all
qed

text \<open>The loop over the blocks in place and the padded tail walk over the padded message.\<close>

lemma sha256_blockwise: "sha256 bytes = sha256_blocks bytes"
proof -
  obtain s off where loop: "block_loop bytes sha_initial 0 = (s, off)" by fastforce
  with block_loop_spec [of 0 bytes sha_initial] have off: "off \<le> length bytes" "length bytes - off < 64" "64 dvd off"
    and same: "\<And>rest. process_blocks (bytes @ rest) sha_initial = process_blocks (drop off bytes @ rest) s" by (auto simp: mod_eq_0_iff_dvd)
  define p where "p = (if length bytes - off < 56 then 64 else (128 :: nat))"
  note tail = sha_tail_padded [OF off, folded p_def]
  let ?tail = "sha_tail bytes off p"
  define s' where "s' = (if p = 128 then sha_transform (sha_transform s ?tail) (drop 64 ?tail) else sha_transform s ?tail)"
  have "process_blocks (drop off (sha_padded bytes)) s = s'"
  proof (cases "p = 128")
    case True
    then have d: "drop off (sha_padded bytes) = ?tail" using tail by simp
    show ?thesis unfolding d s'_def using True tail(2)
      by (subst process_blocks.simps, subst process_blocks.simps, subst process_blocks.simps) (simp add: transform_compress)
  next
    case False
    then have "p = 64" by (simp add: p_def split: if_split_asm)
    then have d: "drop off (sha_padded bytes) = take 64 ?tail" "length (take 64 ?tail) = 64" using tail by simp_all
    show ?thesis unfolding s'_def transform_compress using False d
      by (simp add: process_blocks.simps [of "take 64 ?tail"] process_blocks.simps [of "[]"])
  qed
  moreover have "process_blocks (sha_padded bytes) sha_initial = process_blocks (drop off (sha_padded bytes)) s"
    using same [of "0x80 # replicate ((119 - length bytes mod 64) mod 64) 0 @ length_bytes bytes"] off(1) by (simp add: sha_padded_def)
  ultimately show ?thesis
    by (simp add: sha256_def sha256_blocks_def loop p_def [symmetric] s'_def Let_def)
qed

section \<open>The standard\<close>

text \<open>A natural number below \<open>18 ^ 2\<close> is prime when no number below 18 and below it divides it.\<close>

definition first_primes :: "nat list" where
  "first_primes = filter (\<lambda>p. list_all (\<lambda>d. p \<le> d \<or> p mod d \<noteq> 0) [2..<18]) [2..<312]"

text \<open>The first 32 bits of the fractional part of a number.\<close>

definition fraction_bits :: "real \<Rightarrow> 32 word" where
  "fraction_bits x = word_of_int \<lfloor>frac x * 2 ^ 32\<rfloor>"

definition round_constant :: "nat \<Rightarrow> 32 word" where
  "round_constant t = fraction_bits (root 3 (real (first_primes ! t)))"

definition initial_value :: "nat \<Rightarrow> 32 word" where
  "initial_value i = fraction_bits (root 2 (real (first_primes ! i)))"

text \<open>Three rotations, or two and a shift.\<close>

definition rotations :: "nat \<Rightarrow> nat \<Rightarrow> nat \<Rightarrow> 32 word \<Rightarrow> 32 word" where
  "rotations i j k x = word_rotr i x XOR (word_rotr j x XOR word_rotr k x)"

definition rotations_shift :: "nat \<Rightarrow> nat \<Rightarrow> nat \<Rightarrow> 32 word \<Rightarrow> 32 word" where
  "rotations_shift i j k x = word_rotr i x XOR (word_rotr j x XOR of_nat (unat x div 2 ^ k))"

text \<open>The bits of \<open>y\<close> where \<open>x\<close> is set and those of \<open>z\<close> elsewhere; the bits of at least two of three words.\<close>

definition word_of_bits :: "(nat \<Rightarrow> bool) \<Rightarrow> 32 word" where
  "word_of_bits f = horner_sum of_bool 2 (map f [0..<32])"

definition choose_bits :: "32 word \<Rightarrow> 32 word \<Rightarrow> 32 word \<Rightarrow> 32 word" where
  "choose_bits x y z = word_of_bits (\<lambda>n. if bit x n then bit y n else bit z n)"

definition most_bits :: "32 word \<Rightarrow> 32 word \<Rightarrow> 32 word \<Rightarrow> 32 word" where
  "most_bits x y z = word_of_bits (\<lambda>n. 2 \<le> length (filter (\<lambda>v. bit v n) [x, y, z]))"

text \<open>The schedule of a block and the round, on the eight working variables.\<close>

fun message_word :: "8 word list \<Rightarrow> nat \<Rightarrow> 32 word" where
  "message_word block t =
     (if t < 16 then foldl (\<lambda>w b. w * 256 + of_nat (unat b)) 0 (take 4 (drop (4 * t) block))
      else rotations_shift 17 19 10 (message_word block (t - 2)) + message_word block (t - 7) +
        rotations_shift 7 18 3 (message_word block (t - 15)) + message_word block (t - 16))"

declare message_word.simps [simp del]

type_synonym variables = "32 word \<times> 32 word \<times> 32 word \<times> 32 word \<times> 32 word \<times> 32 word \<times> 32 word \<times> 32 word"

fun standard_round :: "32 word \<Rightarrow> 32 word \<Rightarrow> variables \<Rightarrow> variables" where
  "standard_round k w (a, b, c, d, e, f, g, h) =
     (let t1 = h + rotations 6 11 25 e + choose_bits e f g + k + w; t2 = rotations 2 13 22 a + most_bits a b c
      in (t1 + t2, a, b, c, d + t1, e, f, g))"

fun add_variables :: "variables \<Rightarrow> variables \<Rightarrow> variables" where
  "add_variables (a, b, c, d, e, f, g, h) (a', b', c', d', e', f', g', h') = (a + a', b + b', c + c', d + d', e + e', f + f', g + g', h + h')"

fun rounds :: "nat \<Rightarrow> 8 word list \<Rightarrow> variables \<Rightarrow> variables" where
  "rounds 0 block v = v"
| "rounds (Suc t) block v = standard_round (round_constant t) (message_word block t) (rounds t block v)"

function hash_blocks :: "8 word list \<Rightarrow> variables \<Rightarrow> variables" where
  "hash_blocks message v = (if message = [] then v else hash_blocks (drop 64 message) (add_variables v (rounds 64 (take 64 message) v)))"
  by pat_completeness auto

termination hash_blocks
  by (relation "measure (\<lambda>(message, v). length message)") auto

declare hash_blocks.simps [simp del]

text \<open>A bit 1 and the fewest zeros after which eight bytes complete a block: the length in bits, the highest byte first.\<close>

definition padded_message :: "8 word list \<Rightarrow> 8 word list" where
  "padded_message bytes = bytes @ [128] @ replicate (LEAST k. 64 dvd length bytes + 1 + k + 8) 0 @
     map (\<lambda>i. of_nat (8 * length bytes div 256 ^ i)) [7, 6, 5, 4, 3, 2, 1, 0]"

fun digest_bytes :: "variables \<Rightarrow> 8 word list" where
  "digest_bytes (a, b, c, d, e, f, g, h) =
     concat (map (\<lambda>w. map (\<lambda>i. of_nat (unat w div 256 ^ i mod 256)) [3, 2, 1, 0]) [a, b, c, d, e, f, g, h])"

definition sha256_standard :: "8 word list \<Rightarrow> 8 word list" where
  "sha256_standard bytes = digest_bytes (hash_blocks (padded_message bytes)
     (initial_value 0, initial_value 1, initial_value 2, initial_value 3, initial_value 4, initial_value 5, initial_value 6, initial_value 7))"

section \<open>The constants\<close>

lemma fraction_bits_root:
  assumes "0 < n" and "k ^ n \<le> p * 2 ^ (32 * n)" and "p * 2 ^ (32 * n) < (k + 1) ^ n"
  shows "fraction_bits (root n (real p)) = of_nat k"
proof -
  let ?x = "root n (real p) * 2 ^ 32"
  have pow: "?x ^ n = real (p * 2 ^ (32 * n))" and x: "0 \<le> ?x"
    using assms(1) by (simp_all add: power_mult_distrib power_mult)
  have "real k ^ n \<le> ?x ^ n" "?x ^ n < (real k + 1) ^ n"
    unfolding pow using assms(2,3) by (metis of_nat_le_iff of_nat_power, metis of_nat_1 of_nat_add of_nat_less_iff of_nat_power)
  then have "real k \<le> ?x" "?x < real k + 1"
    using x assms(1) by (metis power_mono_iff of_nat_0_le_iff, meson power_less_imp_less_base add_nonneg_nonneg of_nat_0_le_iff zero_le_one)
  then have floor: "\<lfloor>?x\<rfloor> = int k" by (simp add: floor_eq_iff)
  have "frac (root n (real p)) * 2 ^ 32 = ?x - of_int (\<lfloor>root n (real p)\<rfloor> * 2 ^ 32)" by (simp add: frac_def algebra_simps)
  then have "\<lfloor>frac (root n (real p)) * 2 ^ 32\<rfloor> = int k - \<lfloor>root n (real p)\<rfloor> * 2 ^ 32" by (simp only: floor_diff_of_int floor)
  moreover have "(word_of_int (int k - \<lfloor>root n (real p)\<rfloor> * 2 ^ 32) :: 32 word) = of_nat k"
  proof -
    have "(2 :: 32 word) ^ 32 = 0" by simp
    then show ?thesis by (simp only: of_int_diff of_int_mult of_int_power of_int_numeral mult_zero_right diff_zero of_int_of_nat_eq)
  qed
  ultimately show ?thesis by (simp add: fraction_bits_def)
qed

definition root_bits :: "nat \<Rightarrow> nat \<Rightarrow> 32 word \<Rightarrow> bool" where
  "root_bits n p c \<longleftrightarrow> (let k = (1 + length (filter (\<lambda>a. a ^ n \<le> p) [2..<18])) * 2 ^ 32 + unat c
     in k ^ n \<le> p * 2 ^ (32 * n) \<and> p * 2 ^ (32 * n) < (k + 1) ^ n)"

lemma root_bits:
  assumes "0 < n" and "root_bits n p c"
  shows "fraction_bits (root n (real p)) = c"
proof -
  have "(of_nat (m * 2 ^ 32 + unat c) :: 32 word) = c" for m
  proof -
    have "(2 :: 32 word) ^ 32 = 0" by simp
    then show ?thesis by (simp only: of_nat_add of_nat_mult of_nat_power of_nat_numeral mult_zero_right add_0_left of_nat_unat ucast_id)
  qed
  with fraction_bits_root [OF assms(1), of _ p] assms(2) show ?thesis unfolding root_bits_def Let_def by metis
qed

lemma round_constants_match: "list_all2 (root_bits 3) first_primes sha_constants"
  by (simp add: first_primes_def sha_constants_def upt_rec_numeral root_bits_def)

lemma initial_values_match:
  "list_all2 (root_bits 2) (take 8 first_primes) (state_words sha_initial)"
  by (simp add: first_primes_def upt_rec_numeral root_bits_def state_words_def sha_initial_def)

lemma sha_constants_length: "length sha_constants = 64"
  by (simp add: sha_constants_def)

lemma round_constant_code: "t < 64 \<Longrightarrow> round_constant t = sha_constants ! t"
  using list_all2_nthD2 [OF round_constants_match, of t] root_bits [of 3] by (simp add: round_constant_def sha_constants_length)

lemma initial_value_code:
  assumes "i < 8"
  shows "initial_value i = state_words sha_initial ! i"
proof -
  have "length (state_words sha_initial) = 8" by (simp add: state_words_def)
  with list_all2_nthD2 [OF initial_values_match, of i] assms have "root_bits 2 (first_primes ! i) (state_words sha_initial ! i)" by simp
  with root_bits [of 2] show ?thesis by (simp add: initial_value_def)
qed

section \<open>The functions on words and bytes\<close>

lemma rotate_right_rotr:
  assumes "0 < n" and "n < 32"
  shows "rotate_right v n = word_rotr n v"
proof (rule bit_word_eqI)
  fix i assume "i < LENGTH(32)"
  then have i: "i < 32" by simp
  have high: "\<not> bit v m" if "32 \<le> m" for m using bit_imp_le_length [of v m] that by auto
  show "bit (rotate_right v n) i \<longleftrightarrow> bit (word_rotr n v) i"
  proof (cases "i + n < 32")
    case True
    then have "(i + n) mod 32 = i + n" "\<not> 32 - n \<le> i" by simp_all
    with i show ?thesis by (simp add: rotate_right_def bit_or_iff bit_drop_bit_eq bit_push_bit_iff bit_word_rotr_iff add.commute)
  next
    case False
    then have m: "(i + n) mod 32 = i - (32 - n)" "32 - n \<le> i" "\<not> bit v (i + n)" using i assms high by (simp_all add: mod_if)
    with i show ?thesis by (simp add: rotate_right_def bit_or_iff bit_drop_bit_eq bit_push_bit_iff bit_word_rotr_iff add.commute)
  qed
qed

lemma drop_bit_nat: "drop_bit k (x :: 32 word) = of_nat (unat x div 2 ^ k)"
  by (metis drop_bit_eq_div of_nat_unat ucast_id unat_drop_bit_eq)

lemma bit_word_of_bits: "bit (word_of_bits f) n \<longleftrightarrow> n < 32 \<and> f n"
  by (auto simp: word_of_bits_def bit_horner_sum_bit_word_iff)

lemma choice_bits: "(x AND y) XOR (NOT x AND z) = choose_bits x y z"
  by (rule bit_word_eqI) (auto simp: choose_bits_def bit_word_of_bits bit_simps)

lemma majority_bits: "(x AND y) XOR (x AND z) XOR (y AND z) = most_bits x y z"
  by (rule bit_word_eqI) (auto simp: most_bits_def bit_word_of_bits bit_simps)

lemma append_byte: "push_bit 8 (w :: 32 word) OR ucast (b :: 8 word) = w * 256 + of_nat (unat b)"
proof -
  have "push_bit 8 w AND ucast b = 0" by (rule bit_word_eqI) (auto simp: bit_simps dest: bit_imp_le_length)
  then have "push_bit 8 w OR ucast b = push_bit 8 w + ucast b" by (rule disjunctive_add_eq_or [symmetric])
  then show ?thesis by (simp add: push_bit_eq_mult)
qed

lemma take_4: "i + 4 \<le> length xs \<Longrightarrow> take 4 (drop i xs) = [xs ! i, xs ! (i + 1), xs ! (i + 2), xs ! (i + 3)]"
  by (auto simp: list_eq_iff_nth_eq less_Suc_eq numeral_eq_Suc)

lemma block_word_bytes:
  assumes "t < 16" and "length block = 64"
  shows "block_word block t = foldl (\<lambda>w b. w * 256 + of_nat (unat b)) 0 (take 4 (drop (4 * t) block))"
proof -
  let ?b = "\<lambda>i. block ! (t * 4 + i)"
  have "block_word block t = push_bit 8 (push_bit 8 (push_bit 8 (push_bit 8 0 OR ucast (?b 0)) OR ucast (?b 1)) OR ucast (?b 2)) OR ucast (?b 3)"
    by (simp add: block_word_def Let_def push_bit_or or.assoc)
  also have "\<dots> = foldl (\<lambda>w b. w * 256 + of_nat (unat b)) 0 [?b 0, ?b 1, ?b 2, ?b 3]"
    unfolding append_byte by simp
  finally show ?thesis using assms take_4 [of "4 * t" block] by (simp add: mult.commute)
qed

lemma message_word_schedule: "length block = 64 \<Longrightarrow> message_word block t = schedule block t"
proof (induction t rule: less_induct)
  case (less t)
  show ?case
  proof (cases "t < 16")
    case True
    with less.prems show ?thesis by (simp add: message_word.simps [of block t] schedule_first block_word_bytes)
  next
    case False
    then have "message_word block (t - k) = schedule block (t - k)" if "0 < k" "k \<le> 16" for k using that less by simp
    with False show ?thesis
      by (simp add: message_word.simps [of block t] schedule.simps [of block t] rotations_shift_def rotate_right_rotr xor.assoc
        drop_bit_nat)
  qed
qed

section \<open>The walk is the standard\<close>

definition variables_of :: "ShaState \<Rightarrow> variables" where
  "variables_of s = (sha_a s, sha_b s, sha_c s, sha_d s, sha_e s, sha_f s, sha_g s, sha_h s)"

lemma round_standard: "variables_of (sha_round k w s) = standard_round k w (variables_of s)"
  by (simp add: variables_of_def sha_round_def Let_def rotations_def rotate_right_rotr choice_bits majority_bits xor.assoc)

lemma rounds_fold:
  assumes "length block = 64" and "n \<le> 64"
  shows "rounds n block (variables_of s) = variables_of (fold (\<lambda>t. sha_round (sha_constants ! t) (schedule block t)) [0..<n] s)"
  using assms(2) by (induction n) (simp_all add: round_standard round_constant_code message_word_schedule assms(1))

lemma compress_standard:
  assumes "length block = 64"
  shows "variables_of (compress block s) = add_variables (variables_of s) (rounds 64 block (variables_of s))"
  unfolding rounds_fold [OF assms order_refl] by (simp add: compress_def variables_of_def add_state_def)

lemma hash_blocks_walk: "64 dvd length message \<Longrightarrow> hash_blocks message (variables_of s) = variables_of (process_blocks message s)"
proof (induction message s rule: process_blocks.induct)
  case (1 message s)
  show ?case
  proof (cases "length message < 64")
    case True
    with 1(2) have "message = []" by (metis dvd_imp_le length_greater_0_conv not_le)
    then show ?thesis by (simp add: hash_blocks.simps process_blocks.simps)
  next
    case False
    then have "64 dvd length (drop 64 message)" using 1(2) by (simp add: dvd_diff_nat)
    from 1(1) [OF False this] False show ?thesis
      by (subst hash_blocks.simps, subst process_blocks.simps) (auto simp: compress_standard)
  qed
qed

lemma block_zeros: "64 dvd n + 1 + (119 - n mod 64) mod 64 + (8 :: nat)"
proof -
  define q r where "q = n div 64" and "r = n mod 64"
  have n: "n = 64 * q + r" and r: "r < 64" by (simp_all add: q_def r_def)
  have "n + 1 + (119 - r) mod 64 + 8 = 64 * (q + (if r \<le> 55 then 1 else 2))"
  proof (cases "r \<le> 55")
    case True
    then have "(119 - r) mod 64 = 55 - r" by (simp add: mod_if)
    with True show ?thesis unfolding n by simp
  next
    case False
    then have "(119 - r) mod 64 = 119 - r" by simp
    with False r show ?thesis unfolding n by simp
  qed
  then show ?thesis unfolding r_def by (metis dvd_triv_left)
qed

lemma fewest_zeros: "(LEAST k. 64 dvd n + 1 + k + 8) = (119 - n mod 64) mod (64 :: nat)"
proof (rule Least_equality)
  fix k assume k: "64 dvd n + 1 + k + 8"
  define z where "z = (119 - n mod 64) mod 64"
  have z: "z < 64" "64 dvd n + 1 + z + 8" using block_zeros [of n] by (simp_all add: z_def)
  have "64 dvd z - k" using dvd_diff_nat [OF z(2) k] by simp
  with z(1) have "z - k = 0" by (auto dest: dvd_imp_le)
  then show "(119 - n mod 64) mod 64 \<le> k" by (simp add: z_def)
qed (rule block_zeros)

lemma length_byte:
  assumes "i < 8"
  shows "ucast (drop_bit (i * 8) (of_nat n * 8 :: 64 word)) = (of_nat (8 * n div 256 ^ i) :: 8 word)"
proof -
  have "ucast (drop_bit (i * 8) (of_nat m :: 64 word)) = (of_nat (drop_bit (i * 8) m) :: 8 word)" for m
  proof (rule bit_word_eqI)
    fix k assume "k < LENGTH(8)"
    then have "k < 8" by simp
    then have "i * 8 + k < 64" using assms by linarith
    with \<open>k < 8\<close> show "bit (ucast (drop_bit (i * 8) (of_nat m :: 64 word)) :: 8 word) k \<longleftrightarrow> bit (of_nat (drop_bit (i * 8) m) :: 8 word) k"
      by (simp add: bit_unsigned_iff bit_drop_bit_eq bit_of_nat_iff)
  qed
  moreover have "(of_nat n * 8 :: 64 word) = of_nat (8 * n)" by simp
  moreover have "8 * n div 256 ^ i = drop_bit (i * 8) (8 * n)" by (simp add: drop_bit_eq_div power_mult mult.commute [of i])
  ultimately show ?thesis by (simp only:)
qed

lemma padded_standard: "padded_message bytes = sha_padded bytes"
proof -
  have "[7, 6, 5, 4, 3, 2, 1, 0] = map (\<lambda>i. 7 - i) [0..<8 :: nat]" by code_simp
  moreover have "(7 - i) * 8 = 56 - i * 8" for i :: nat by simp
  ultimately have "map (\<lambda>i. of_nat (8 * length bytes div 256 ^ i)) [7, 6, 5, 4, 3, 2, 1, 0] = length_bytes bytes"
    by (simp only: length_bytes_def list.map_comp) (simp add: length_byte [symmetric])
  then show ?thesis unfolding padded_message_def sha_padded_def fewest_zeros by simp
qed

lemma digest_standard: "digest_bytes (variables_of s) = concat (map word_bytes (state_words s))"
proof -
  have low: "(of_nat (m mod 256) :: 8 word) = of_nat m" for m by (simp add: word_of_nat_eq_iff take_bit_eq_mod)
  have byte: "ucast (drop_bit k w) = (of_nat (unat w div 2 ^ k) :: 8 word)" for k and w :: "32 word"
    by (metis drop_bit_eq_div of_nat_unat unat_drop_bit_eq)
  have "word_bytes w = map (\<lambda>i. of_nat (unat w div 256 ^ i mod 256)) [3, 2, 1, 0]" for w
    by (simp add: word_bytes_def low byte)
  then show ?thesis by (simp add: variables_of_def state_words_def)
qed

text \<open>
  C37: the digest is SHA-256. For every message the code computes what the standard says: the message, a bit 1, the fewest zeros and the
  length in bits, in blocks of 64 bytes read as words with the highest byte first; each block with its message schedule through 64 rounds with the
  rotations, the choice and the majority of the standard; the constants and the initial values the first 32 bits of the fractional parts of the cube
  roots of the first 64 primes and of the square roots of the first eight; the sums modulo \<open>2 ^ 32\<close>.
\<close>

theorem sha256_is_standard: "sha256 bytes = sha256_standard bytes"
proof -
  have "64 dvd length (sha_padded bytes)" using block_zeros [of "length bytes"] by (simp add: sha_padded_def length_bytes_def ac_simps)
  moreover have "(initial_value 0, initial_value 1, initial_value 2, initial_value 3, initial_value 4, initial_value 5, initial_value 6, initial_value 7) =
      variables_of sha_initial"
    by (simp add: initial_value_code state_words_def variables_of_def)
  ultimately show ?thesis
    by (simp add: sha256_blockwise sha256_standard_def sha256_blocks_def padded_standard hash_blocks_walk digest_standard)
qed

end
