(* ===== verification/Model_Lifecycle.thy ===== *)
theory Model_Lifecycle
  imports Native_Image Sha256
begin

text \<open>
  The activation of the models (\<^verbatim>\<open>infrastructure/model/model_lifecycle.cpp\<close>): a manifest pins every model by a path
  relative to a root, a size and a digest, and the models are activated together or not at all. The file system is a parameter, whose answers may
  change from one entry to the next. A path is the list of the elements its iterator visits, the root directory \<open>/\<close> first.
\<close>

section \<open>Paths\<close>

type_synonym path = "string list"

definition is_absolute :: "path \<Rightarrow> bool" where
  "is_absolute p \<longleftrightarrow> p \<noteq> [] \<and> hd p = ''/''"

definition path_join :: "path \<Rightarrow> path \<Rightarrow> path" where
  "path_join p q = (if is_absolute q then q else (if p \<noteq> [] \<and> last p = [] then butlast p else p) @ q)"

text \<open>\<open>lexically_normal\<close>, on the reversed elements seen so far; a trailing separator is not kept.\<close>

definition normal_step :: "string list \<Rightarrow> string \<Rightarrow> string list" where
  "normal_step seen element =
     (if element = ''.'' \<or> element = [] then seen
      else if element = ''..''
      then (case seen of [] \<Rightarrow> [''..''] | top_element # rest \<Rightarrow>
        if top_element = ''..'' then ''..'' # seen else if top_element = ''/'' then seen else rest)
      else element # seen)"

definition lexically_normal :: "path \<Rightarrow> path" where
  "lexically_normal p = (let q = rev (foldl normal_step [] p) in if q = [] \<and> p \<noteq> [] then [''.''] else q)"

definition contains_parent_traversal :: "path \<Rightarrow> bool" where
  "contains_parent_traversal p = list_ex (\<lambda>component. component = ''..'') p"

fun path_is_within :: "path \<Rightarrow> path \<Rightarrow> bool" where
  "path_is_within [] candidate = True"
| "path_is_within (r # rt) [] = False"
| "path_is_within (r # rt) (c # candidate) = (if r \<noteq> c then False else path_is_within rt candidate)"

section \<open>Manifest\<close>

record ModelManifestEntry =
  me_name :: string
  me_type :: string
  me_version :: string
  me_relative_path :: path
  me_sha256 :: string
  me_size_bytes :: "64 word"

record ModelManifest =
  mm_root_directory :: path
  mm_entries :: "ModelManifestEntry list"
  mm_maximum_model_bytes :: "64 word"

record ActiveModelInfo =
  am_name :: string
  am_type :: string
  am_version :: string
  am_resolved_path :: path
  am_sha256 :: string
  am_size_bytes :: "64 word"
  am_integrity_verified :: bool

definition is_xdigit :: "char \<Rightarrow> bool" where
  "is_xdigit ch \<longleftrightarrow> ch \<in> set ''0123456789abcdefABCDEF''"

definition is_hex_sha256 :: "string \<Rightarrow> bool" where
  "is_hex_sha256 v \<longleftrightarrow> length v = 64 \<and> list_all is_xdigit v"

definition lower_char :: "char \<Rightarrow> char" where
  "lower_char ch = (if 65 \<le> (of_char ch :: nat) \<and> (of_char ch :: nat) \<le> 90 then char_of ((of_char ch :: nat) + 32) else ch)"

definition lower_ascii :: "string \<Rightarrow> string" where
  "lower_ascii v = map lower_char v"

fun validate_entries :: "64 word \<Rightarrow> (string \<times> string) set \<Rightarrow> ModelManifestEntry list \<Rightarrow> unit result" where
  "validate_entries maximum identities [] = Inr ()"
| "validate_entries maximum identities (entry # entries) =
     (if me_name entry = [] \<or> me_type entry = [] \<or> me_version entry = []
      then Inl (ConfigurationError ''model name, type and version are required'')
      else if me_relative_path entry = [] \<or> is_absolute (me_relative_path entry)
      then Inl (ConfigurationError ''model path must be non-empty and relative'')
      else if contains_parent_traversal (lexically_normal (me_relative_path entry))
      then Inl (ConfigurationError ''model path traversal is not allowed'')
      else if \<not> is_hex_sha256 (me_sha256 entry)
      then Inl (ConfigurationError ''model sha256 must contain exactly 64 hex characters'')
      else if me_size_bytes entry = 0 \<or> me_size_bytes entry > maximum
      then Inl (ConfigurationError ''model size is outside configured limits'')
      else if (me_type entry, me_name entry) \<in> identities
      then Inl (ConfigurationError ''duplicate model type/name in manifest'')
      else validate_entries maximum (insert (me_type entry, me_name entry) identities) entries)"

definition make_model_lifecycle :: "ModelManifest \<Rightarrow> ModelManifest result" where
  "make_model_lifecycle m =
     (if mm_root_directory m = [] then Inl (ConfigurationError ''model manifest root_directory is required'')
      else if mm_entries m = [] then Inl (ConfigurationError ''model manifest requires at least one entry'')
      else if mm_maximum_model_bytes m = 0 \<or> mm_maximum_model_bytes m > 2 * 1024 * 1024 * 1024
      then Inl (ConfigurationError ''maximum_model_bytes is outside safe limits'')
      else res_bind (validate_entries (mm_maximum_model_bytes m) {} (mm_entries m)) (\<lambda>_. Inr m))"

section \<open>Activation\<close>

text \<open>
  An open file: the position of its end (negative when it is not known) and the bytes a read finds. A file system: \<open>None\<close> is an
  error code; the number is that of the entry the call is made for.
\<close>

record FileStream =
  st_end :: int
  st_content :: "8 word list"

record Filesystem =
  fs_root_canonical :: "path \<Rightarrow> path option"
  fs_root_is_directory :: "path \<Rightarrow> bool option"
  fs_canonical :: "nat \<Rightarrow> path \<Rightarrow> path option"
  fs_is_regular_file :: "nat \<Rightarrow> path \<Rightarrow> bool option"
  fs_open :: "nat \<Rightarrow> path \<Rightarrow> FileStream option"

definition read_file_bounded :: "FileStream option \<Rightarrow> allocator \<Rightarrow> 64 word \<Rightarrow> 64 word \<Rightarrow> 8 word list result" where
  "read_file_bounded stream alloc expected_size maximum_size =
     (if expected_size = 0 \<or> expected_size > maximum_size then Inl (ModelLoadError ''model size is outside configured limits'')
      else case stream of None \<Rightarrow> Inl (ModelLoadError ''cannot open model file'')
        | Some f \<Rightarrow>
            if st_end f < 0 then Inl (ModelLoadError ''cannot determine model file size'')
            else let actual_size = of_int (st_end f) :: 64 word in
              if actual_size \<noteq> expected_size then Inl (ModelLoadError ''model file size does not match manifest'')
              else if actual_size > maximum_size then Inl (ModelLoadError ''model file exceeds configured size limit'')
              else res_bind (map_sum (resize_error ''cannot allocate model verification buffer''
                  ''model verification buffer exceeds vector limits'') id (vector_resize alloc 0 (unat expected_size))) (\<lambda>_.
                if length (st_content f) < unat expected_size then Inl (ModelLoadError ''cannot read complete model file'')
                else Inr (take (unat expected_size) (st_content f))))"

definition activate_entry :: "Filesystem \<Rightarrow> allocator \<Rightarrow> path \<Rightarrow> 64 word \<Rightarrow> nat \<Rightarrow> ModelManifestEntry \<Rightarrow> ActiveModelInfo result" where
  "activate_entry fs alloc canonical_root maximum i entry =
     (case fs_canonical fs i (path_join canonical_root (me_relative_path entry)) of
        None \<Rightarrow> Inl (ModelLoadError ''model path escapes configured root'')
      | Some candidate \<Rightarrow>
          if candidate = [] \<or> \<not> path_is_within canonical_root candidate then Inl (ModelLoadError ''model path escapes configured root'')
          else if fs_is_regular_file fs i candidate \<noteq> Some True then Inl (ModelLoadError ''model path is not a regular file'')
          else res_bind (read_file_bounded (fs_open fs i candidate) alloc (me_size_bytes entry) maximum) (\<lambda>bytes.
            let actual_hash = lower_ascii (sha256_hex bytes) in
            if actual_hash \<noteq> lower_ascii (me_sha256 entry) then Inl (ModelLoadError ''model checksum does not match manifest'')
            else Inr \<lparr>am_name = me_name entry, am_type = me_type entry, am_version = me_version entry, am_resolved_path = candidate,
              am_sha256 = actual_hash, am_size_bytes = me_size_bytes entry, am_integrity_verified = True\<rparr>))"

fun activate_loop :: "Filesystem \<Rightarrow> allocator \<Rightarrow> path \<Rightarrow> 64 word \<Rightarrow> nat \<Rightarrow> ModelManifestEntry list \<Rightarrow> ActiveModelInfo list result" where
  "activate_loop fs alloc canonical_root maximum i [] = Inr []"
| "activate_loop fs alloc canonical_root maximum i (entry # entries) =
     res_bind (activate_entry fs alloc canonical_root maximum i entry) (\<lambda>info.
     res_bind (activate_loop fs alloc canonical_root maximum (Suc i) entries) (\<lambda>infos. Inr (info # infos)))"

definition validate_and_activate :: "Filesystem \<Rightarrow> allocator \<Rightarrow> ModelManifest \<Rightarrow> ActiveModelInfo list result" where
  "validate_and_activate fs alloc m =
     (case fs_root_canonical fs (mm_root_directory m) of
        None \<Rightarrow> Inl (ModelLoadError ''model root directory is unavailable'')
      | Some canonical_root \<Rightarrow>
          if canonical_root = [] \<or> fs_root_is_directory fs canonical_root \<noteq> Some True
          then Inl (ModelLoadError ''model root directory is unavailable'')
          else activate_loop fs alloc canonical_root (mm_maximum_model_bytes m) 0 (mm_entries m))"

section \<open>Lexical containment\<close>

lemma path_is_within_prefix: "path_is_within rt candidate \<longleftrightarrow> (\<exists>rest. candidate = rt @ rest)"
  by (induction rt candidate rule: path_is_within.induct) auto

text \<open>Once a parent element is left over it is never removed, so a path without one never reached above where it started.\<close>

lemma parents_stay: "''..'' \<in> set seen \<Longrightarrow> ''..'' \<in> set (foldl normal_step seen p)"
proof (induction p arbitrary: seen)
  case (Cons e p)
  have "''..'' \<in> set (normal_step seen e)" using Cons.prems by (cases seen) (auto simp: normal_step_def)
  from Cons.IH [OF this] show ?case by simp
qed simp

lemma normal_step_above:
  assumes "seen = [] \<Longrightarrow> e \<noteq> ''..''" and "''/'' \<notin> set seen"
  shows "normal_step (seen @ base) e = normal_step seen e @ base"
  using assms by (cases seen) (auto simp: normal_step_def)

lemma normal_above:
  assumes "''..'' \<notin> set (foldl normal_step seen p)" and "''/'' \<notin> set seen" and "''/'' \<notin> set p"
  shows "foldl normal_step (seen @ base) p = foldl normal_step seen p @ base"
  using assms
proof (induction p arbitrary: seen)
  case (Cons e p)
  have "e \<noteq> ''..''" if "seen = []"
  proof
    assume "e = ''..''"
    then have "''..'' \<in> set (normal_step seen e)" using that by (simp add: normal_step_def)
    from parents_stay [OF this] Cons.prems(1) show False by simp
  qed
  then have s: "normal_step (seen @ base) e = normal_step seen e @ base" using Cons.prems(2) by (rule normal_step_above)
  have "''/'' \<notin> set (normal_step seen e)" using Cons.prems(2,3) by (cases seen) (auto simp: normal_step_def)
  with Cons.IH [of "normal_step seen e"] Cons.prems s show ?case by simp
qed simp

lemma relative_paths_stay_below:
  assumes "\<not> contains_parent_traversal (lexically_normal p)" and "''/'' \<notin> set p"
  shows "\<exists>rest. rev (foldl normal_step [] (rt @ p)) = rev (foldl normal_step [] rt) @ rest"
proof -
  have "''..'' \<notin> set (foldl normal_step [] p)"
    using assms(1) by (auto simp: lexically_normal_def contains_parent_traversal_def list_ex_iff Let_def split: if_split_asm)
  from normal_above [OF this _ assms(2), of "foldl normal_step [] rt"] show ?thesis by simp
qed

section \<open>Digests as text\<close>

lemma length_sha256: "length (sha256 bytes) = 32"
  by (simp add: sha256_def state_words_def word_bytes_def case_prod_unfold Let_def)

lemma hex_digit_lower: "n < 16 \<Longrightarrow> is_xdigit (hex_digit n) \<and> lower_char (hex_digit n) = hex_digit n"
proof -
  have all: "list_all (\<lambda>n. is_xdigit (hex_digit n) \<and> lower_char (hex_digit n) = hex_digit n) [0..<16]" by code_simp
  show "n < 16 \<Longrightarrow> is_xdigit (hex_digit n) \<and> lower_char (hex_digit n) = hex_digit n"
    using all by (simp only: list_all_iff set_upt atLeastLessThan_iff le0 simp_thms)
qed

lemma sha256_hex_digits: "set (sha256_hex bytes) \<subseteq> hex_digit ` {..<16}"
proof -
  have "unat v div 16 < 16" for v :: "8 word" using unsigned_less [where 'a = nat, of v] by simp
  then show ?thesis by (auto simp: sha256_hex_def)
qed

lemma sha256_hex_text: "is_hex_sha256 (sha256_hex bytes)" "lower_ascii (sha256_hex bytes) = sha256_hex bytes"
proof -
  have "length (sha256_hex bytes) = 64"
    unfolding sha256_hex_def by (simp add: length_concat comp_def length_sha256 sum_list_triv)
  moreover have d: "\<forall>ch \<in> set (sha256_hex bytes). is_xdigit ch \<and> lower_char ch = ch"
    using sha256_hex_digits [of bytes] hex_digit_lower by fastforce
  ultimately show "is_hex_sha256 (sha256_hex bytes)" by (simp add: is_hex_sha256_def list_all_iff)
  show "lower_ascii (sha256_hex bytes) = sha256_hex bytes" unfolding lower_ascii_def using d by (intro map_idI) blast
qed

section \<open>What is active was verified\<close>

text \<open>The verified content of an entry: bytes read from a regular file below the root, of the size and the digest of the manifest.\<close>

definition verified :: "Filesystem \<Rightarrow> path \<Rightarrow> 64 word \<Rightarrow> nat \<Rightarrow> ModelManifestEntry \<Rightarrow> ActiveModelInfo \<Rightarrow> bool" where
  "verified fs rt maximum i entry info \<longleftrightarrow>
     am_name info = me_name entry \<and> am_type info = me_type entry \<and> am_version info = me_version entry \<and>
     am_integrity_verified info \<and> am_size_bytes info = me_size_bytes entry \<and> me_size_bytes entry \<le> maximum \<and>
     (\<exists>rest. am_resolved_path info = rt @ rest) \<and> fs_is_regular_file fs i (am_resolved_path info) = Some True \<and>
     (\<exists>f bytes. fs_open fs i (am_resolved_path info) = Some f \<and> bytes = take (unat (me_size_bytes entry)) (st_content f) \<and>
        length bytes = unat (me_size_bytes entry) \<and> am_sha256 info = sha256_hex bytes \<and> lower_ascii (me_sha256 entry) = am_sha256 info)"

lemma activate_entry_Inr:
  assumes "activate_entry fs alloc rt maximum i entry = Inr info"
  shows "verified fs rt maximum i entry info"
proof -
  from assms obtain candidate where c: "path_is_within rt candidate" "fs_is_regular_file fs i candidate = Some True"
    and r: "res_bind (read_file_bounded (fs_open fs i candidate) alloc (me_size_bytes entry) maximum) (\<lambda>bytes.
            let actual_hash = lower_ascii (sha256_hex bytes) in
            if actual_hash \<noteq> lower_ascii (me_sha256 entry) then Inl (ModelLoadError ''model checksum does not match manifest'')
            else Inr \<lparr>am_name = me_name entry, am_type = me_type entry, am_version = me_version entry, am_resolved_path = candidate,
              am_sha256 = actual_hash, am_size_bytes = me_size_bytes entry, am_integrity_verified = True\<rparr>) = Inr info"
    by (auto simp: activate_entry_def split: option.split_asm if_split_asm)
  from r obtain bytes where b: "read_file_bounded (fs_open fs i candidate) alloc (me_size_bytes entry) maximum = Inr bytes"
    and h: "sha256_hex bytes = lower_ascii (me_sha256 entry)"
    and info: "info = \<lparr>am_name = me_name entry, am_type = me_type entry, am_version = me_version entry, am_resolved_path = candidate,
              am_sha256 = sha256_hex bytes, am_size_bytes = me_size_bytes entry, am_integrity_verified = True\<rparr>"
    by (auto simp: result_simps Let_def sha256_hex_text split: if_split_asm)
  from b obtain f where f: "fs_open fs i candidate = Some f" "bytes = take (unat (me_size_bytes entry)) (st_content f)"
    "unat (me_size_bytes entry) \<le> length (st_content f)" "me_size_bytes entry \<le> maximum"
    by (auto simp: read_file_bounded_def result_simps Let_def not_less split: option.split_asm if_split_asm)
  with c h show ?thesis by (simp add: verified_def info path_is_within_prefix)
qed

lemma activate_loop_Inr:
  assumes "activate_loop fs alloc rt maximum i entries = Inr infos"
  shows "length infos = length entries \<and> (\<forall>k < length entries. verified fs rt maximum (i + k) (entries ! k) (infos ! k))"
  using assms
proof (induction entries arbitrary: i infos)
  case (Cons entry entries)
  then obtain info rest where info: "activate_entry fs alloc rt maximum i entry = Inr info"
    and rest: "activate_loop fs alloc rt maximum (Suc i) entries = Inr rest" "infos = info # rest" by (auto simp: result_simps)
  show ?case using Cons.IH [OF rest(1)] activate_entry_Inr [OF info] rest(2) by (auto simp: nth_Cons split: nat.split)
qed simp

lemma validate_entries_Inr:
  assumes "validate_entries maximum identities entries = Inr u"
  shows "distinct (map (\<lambda>e. (me_type e, me_name e)) entries) \<and> (\<forall>e \<in> set entries. (me_type e, me_name e) \<notin> identities \<and>
    \<not> is_absolute (me_relative_path e) \<and> \<not> contains_parent_traversal (lexically_normal (me_relative_path e)) \<and> is_hex_sha256 (me_sha256 e))"
  using assms by (induction maximum identities entries rule: validate_entries.induct) (auto split: if_split_asm)

lemma made_lifecycle:
  assumes "make_model_lifecycle manifest = Inr m"
  shows "m = manifest" and "distinct (map (\<lambda>e. (me_type e, me_name e)) (mm_entries manifest))" and "mm_entries manifest \<noteq> []"
    and "mm_maximum_model_bytes manifest \<le> 2 * 1024 * 1024 * 1024"
  using assms validate_entries_Inr by (auto simp: make_model_lifecycle_def result_simps not_less split: if_split_asm)

text \<open>
  C38: a model is active only when it is the model of the manifest. Whatever the file system answers, and however it changes
  from entry to entry, an activation that returns has a model for every entry, in order, no two of one type and name; each was read
  completely from a regular file whose resolved path is below the resolved root, is of the size of the manifest, at most 2 GiB, and
  the digest of the bytes read is the digest of the manifest, in either case of its letters.
\<close>

theorem activation_certified:
  assumes "make_model_lifecycle manifest = Inr m" and "validate_and_activate fs alloc m = Inr infos"
  shows "\<exists>rt. fs_root_canonical fs (mm_root_directory manifest) = Some rt \<and> fs_root_is_directory fs rt = Some True \<and>
    length infos = length (mm_entries manifest) \<and>
    (\<forall>k < length infos. verified fs rt (mm_maximum_model_bytes manifest) k (mm_entries manifest ! k) (infos ! k)) \<and>
    distinct (map (\<lambda>info. (am_type info, am_name info)) infos)"
proof -
  note made = made_lifecycle [OF assms(1)]
  from assms(2) obtain rt where rt: "fs_root_canonical fs (mm_root_directory manifest) = Some rt" "fs_root_is_directory fs rt = Some True"
    and loop: "activate_loop fs alloc rt (mm_maximum_model_bytes manifest) 0 (mm_entries manifest) = Inr infos"
    by (auto simp: validate_and_activate_def made(1) split: option.split_asm if_split_asm)
  note all = activate_loop_Inr [OF loop]
  have "map (\<lambda>info. (am_type info, am_name info)) infos = map (\<lambda>e. (me_type e, me_name e)) (mm_entries manifest)"
    by (rule nth_equalityI) (use all in \<open>simp_all add: verified_def\<close>)
  with made(2) all rt show ?thesis by auto
qed


section \<open>A manifest of one model\<close>

definition demo_model :: "8 word list" where
  "demo_model = [1, 2, 3]"

definition demo_entry :: ModelManifestEntry where
  "demo_entry = \<lparr>me_name = ''plate'', me_type = ''ocr'', me_version = ''1'', me_relative_path = [''ocr'', ''plate.onnx''],
     me_sha256 = sha256_hex demo_model, me_size_bytes = 3\<rparr>"

definition demo_manifest :: ModelManifest where
  "demo_manifest = \<lparr>mm_root_directory = [''models''], mm_entries = [demo_entry], mm_maximum_model_bytes = 1024\<rparr>"

definition demo_filesystem :: Filesystem where
  "demo_filesystem = \<lparr>fs_root_canonical = (\<lambda>p. Some (''/'' # p)), fs_root_is_directory = (\<lambda>_. Some True), fs_canonical = (\<lambda>_. Some),
     fs_is_regular_file = (\<lambda>_ _. Some True), fs_open = (\<lambda>_ _. Some \<lparr>st_end = 3, st_content = demo_model\<rparr>)\<rparr>"

lemma demo_manifest_made: "make_model_lifecycle demo_manifest = Inr demo_manifest"
proof -
  have "\<not> contains_parent_traversal (lexically_normal [''ocr'', ''plate.onnx''])" by code_simp
  then show ?thesis by (simp add: make_model_lifecycle_def demo_manifest_def demo_entry_def is_absolute_def sha256_hex_text)
qed

lemma demo_activated:
  "validate_and_activate demo_filesystem (\<lambda>_ n. Inr n) demo_manifest = Inr [\<lparr>am_name = ''plate'', am_type = ''ocr'', am_version = ''1'',
     am_resolved_path = [''/'', ''models'', ''ocr'', ''plate.onnx''], am_sha256 = sha256_hex demo_model, am_size_bytes = 3, am_integrity_verified = True\<rparr>]"
proof -
  have "read_file_bounded (Some \<lparr>st_end = 3, st_content = demo_model\<rparr>) (\<lambda>_ n. Inr n) 3 1024 = Inr demo_model"
    by (simp add: read_file_bounded_def demo_model_def vector_resize_def)
  moreover have "path_join [''/'', ''models''] [''ocr'', ''plate.onnx''] = [''/'', ''models'', ''ocr'', ''plate.onnx'']" by code_simp
  ultimately show ?thesis
    by (simp add: validate_and_activate_def demo_filesystem_def demo_manifest_def activate_entry_def demo_entry_def sha256_hex_text)
qed

theorem activation_certified_witness:
  "verified demo_filesystem [''/'', ''models''] 1024 0 demo_entry
     \<lparr>am_name = ''plate'', am_type = ''ocr'', am_version = ''1'', am_resolved_path = [''/'', ''models'', ''ocr'', ''plate.onnx''],
      am_sha256 = sha256_hex demo_model, am_size_bytes = 3, am_integrity_verified = True\<rparr>"
  using activation_certified [OF demo_manifest_made demo_activated] by (auto simp: demo_manifest_def demo_filesystem_def)

end
