(* ===== verification/Model_Slot.thy ===== *)
theory Model_Slot
  imports Domain "HOL-Library.Multiset"
begin

text \<open>
  The slot of the active model (\<^verbatim>\<open>infrastructure/model/atomic_model_slot.hpp\<close>). A reload loads and validates a candidate under a mutex
  and publishes it with one atomic store; users take snapshots without the mutex. The model has the sequential meaning of a reload and, against it,
  the steps of any number of reloads and users in any order; a loader or validator returns or throws. A model is what its shared pointer points to; the pointer is null when it is \<open>None\<close>.
\<close>

section \<open>A reload by itself\<close>

text \<open>A call of the loader or of the validator: it may throw anything.\<close>

datatype 'a attempt = Threw | Value 'a

definition make_slot :: "'m option \<Rightarrow> 'm result" where
  "make_slot initial =
     (case initial of None \<Rightarrow> Inl (ConfigurationError ''initial model/session cannot be null'') | Some m \<Rightarrow> Inr m)"

definition reload_state :: "'m option attempt \<Rightarrow> ('m \<Rightarrow> bool attempt) \<Rightarrow> 'm \<Rightarrow> bool \<times> 'm" where
  "reload_state loader validator active =
     (case loader of Threw \<Rightarrow> (False, active)
      | Value candidate \<Rightarrow> (case candidate of None \<Rightarrow> (False, active)
        | Some c \<Rightarrow> if validator c \<noteq> Value True then (False, active) else (True, c)))"

section \<open>Reloads and users together\<close>

text \<open>Where a reload is: waiting for the mutex or done, or holding it.\<close>

datatype 'm ReloadPhase = Outside | Loading | Validating 'm | Publishing 'm | Returning bool

record 'm Slot =
  sl_active :: 'm
  sl_mutex :: "nat option"
  sl_phase :: "nat \<Rightarrow> 'm ReloadPhase"
  sl_snapshots :: "'m multiset"      \<comment> \<open>acquired and not yet released\<close>
  sl_published :: "'m list"      \<comment> \<open>every model that was active, the latest first\<close>
  sl_results :: "(nat \<times> bool) list"      \<comment> \<open>what reloads returned, the latest first\<close>

definition start_slot :: "'m \<Rightarrow> 'm Slot" where
  "start_slot m = \<lparr>sl_active = m, sl_mutex = None, sl_phase = (\<lambda>_. Outside), sl_snapshots = {#}, sl_published = [m], sl_results = []\<rparr>"

definition set_phase :: "nat \<Rightarrow> 'm ReloadPhase \<Rightarrow> 'm Slot \<Rightarrow> 'm Slot" where
  "set_phase t p s = s\<lparr>sl_phase := (sl_phase s)(t := p)\<rparr>"

text \<open>
  The steps, for the loader and the validator of every reload: \<open>acquire\<close> and the release of a snapshot; a reload enters, loads, validates,
  publishes and leaves.
\<close>

inductive slot_step :: "(nat \<Rightarrow> 'm option attempt) \<Rightarrow> (nat \<Rightarrow> 'm \<Rightarrow> bool attempt) \<Rightarrow> 'm Slot \<Rightarrow> 'm Slot \<Rightarrow> bool"
  for loader :: "nat \<Rightarrow> 'm option attempt" and validator :: "nat \<Rightarrow> 'm \<Rightarrow> bool attempt" where
  acquire: "slot_step loader validator s (s\<lparr>sl_snapshots := add_mset (sl_active s) (sl_snapshots s)\<rparr>)"
| release: "m \<in># sl_snapshots s \<Longrightarrow> slot_step loader validator s (s\<lparr>sl_snapshots := sl_snapshots s - {#m#}\<rparr>)"
| enter: "sl_phase s t = Outside \<Longrightarrow> sl_mutex s = None \<Longrightarrow>
    slot_step loader validator s (set_phase t Loading (s\<lparr>sl_mutex := Some t\<rparr>))"
| load: "sl_phase s t = Loading \<Longrightarrow>
    slot_step loader validator s (set_phase t (case loader t of Value (Some c) \<Rightarrow> Validating c | _ \<Rightarrow> Returning False) s)"
| validate: "sl_phase s t = Validating c \<Longrightarrow>
    slot_step loader validator s (set_phase t (if validator t c = Value True then Publishing c else Returning False) s)"
| publish: "sl_phase s t = Publishing c \<Longrightarrow>
    slot_step loader validator s (set_phase t (Returning True) (s\<lparr>sl_active := c, sl_published := c # sl_published s\<rparr>))"
| leave: "sl_phase s t = Returning b \<Longrightarrow>
    slot_step loader validator s (set_phase t Outside (s\<lparr>sl_mutex := None, sl_results := (t, b) # sl_results s\<rparr>))"

inductive slot_reachable :: "(nat \<Rightarrow> 'm option attempt) \<Rightarrow> (nat \<Rightarrow> 'm \<Rightarrow> bool attempt) \<Rightarrow> 'm \<Rightarrow> 'm Slot \<Rightarrow> bool"
  for loader :: "nat \<Rightarrow> 'm option attempt" and validator :: "nat \<Rightarrow> 'm \<Rightarrow> bool attempt" and initial :: 'm where
  start: "slot_reachable loader validator initial (start_slot initial)"
| step: "slot_reachable loader validator initial s \<Longrightarrow> slot_step loader validator s s' \<Longrightarrow> slot_reachable loader validator initial s'"

section \<open>The invariant\<close>

definition offered :: "(nat \<Rightarrow> 'm option attempt) \<Rightarrow> (nat \<Rightarrow> 'm \<Rightarrow> bool attempt) \<Rightarrow> nat \<Rightarrow> 'm \<Rightarrow> bool" where
  "offered loader validator t c \<longleftrightarrow> loader t = Value (Some c) \<and> validator t c = Value True"

fun phase_ok :: "(nat \<Rightarrow> 'm option attempt) \<Rightarrow> (nat \<Rightarrow> 'm \<Rightarrow> bool attempt) \<Rightarrow> 'm Slot \<Rightarrow> nat \<Rightarrow> 'm ReloadPhase \<Rightarrow> bool" where
  "phase_ok loader validator s t (Validating c) = (loader t = Value (Some c))"
| "phase_ok loader validator s t (Publishing c) = offered loader validator t c"
| "phase_ok loader validator s t (Returning b) = (if b then offered loader validator t (sl_active s) else \<not> (\<exists>c. offered loader validator t c))"
| "phase_ok loader validator s t _ = True"

definition returned_true :: "'m Slot \<Rightarrow> nat" where
  "returned_true s = length (filter snd (sl_results s)) + (case sl_mutex s of None \<Rightarrow> 0 | Some t \<Rightarrow> if sl_phase s t = Returning True then 1 else 0)"

definition slot_ok :: "(nat \<Rightarrow> 'm option attempt) \<Rightarrow> (nat \<Rightarrow> 'm \<Rightarrow> bool attempt) \<Rightarrow> 'm \<Rightarrow> 'm Slot \<Rightarrow> bool" where
  "slot_ok loader validator initial s \<longleftrightarrow>
     (\<forall>t. sl_phase s t \<noteq> Outside \<longleftrightarrow> sl_mutex s = Some t) \<and> (\<forall>t. phase_ok loader validator s t (sl_phase s t)) \<and>
     (\<exists>later. sl_published s = later @ [initial] \<and> (\<forall>m \<in> set later. \<exists>t. offered loader validator t m)) \<and>
     hd (sl_published s) = sl_active s \<and> set_mset (sl_snapshots s) \<subseteq> set (sl_published s) \<and>
     (\<forall>(t, b) \<in> set (sl_results s). b \<longleftrightarrow> (\<exists>c. offered loader validator t c)) \<and>
     returned_true s + 1 = length (sl_published s)"

lemma phase_ok_update [simp]:
  "phase_ok loader validator (s\<lparr>sl_snapshots := x\<rparr>) t p = phase_ok loader validator s t p"
  "phase_ok loader validator (s\<lparr>sl_mutex := y\<rparr>) t p = phase_ok loader validator s t p"
  "phase_ok loader validator (s\<lparr>sl_mutex := y, sl_results := z\<rparr>) t p = phase_ok loader validator s t p"
  by (cases p; simp)+

lemma set_phase_simps [simp]:
  "sl_active (set_phase t p s) = sl_active s" "sl_mutex (set_phase t p s) = sl_mutex s" "sl_snapshots (set_phase t p s) = sl_snapshots s"
  "sl_published (set_phase t p s) = sl_published s" "sl_results (set_phase t p s) = sl_results s"
  "sl_phase (set_phase t p s) = (sl_phase s)(t := p)"
  by (simp_all add: set_phase_def)

lemma phase_ok_set_phase [simp]: "phase_ok loader validator (set_phase u q s) t p = phase_ok loader validator s t p"
  by (cases p) simp_all

lemma returned_true_snapshots [simp]: "returned_true (s\<lparr>sl_snapshots := x\<rparr>) = returned_true s"
  by (simp add: returned_true_def split: option.split)

lemma start_slot_ok: "slot_ok loader validator initial (start_slot initial)"
  by (simp add: slot_ok_def start_slot_def returned_true_def)

text \<open>A step of the reload that holds the mutex changes its own phase only, as every other reload is outside.\<close>

lemma holder_step:
  assumes ok: "slot_ok loader validator initial s" and "sl_phase s t \<noteq> Outside" and "p \<noteq> Outside"
    and "phase_ok loader validator s' t p" and "sl_mutex s' = sl_mutex s" and "sl_phase s' = (sl_phase s)(t := p)"
    and "sl_snapshots s' = sl_snapshots s" and "sl_results s' = sl_results s"
    and publishes: "(sl_published s' = sl_published s \<and> sl_active s' = sl_active s \<and> (p = Returning True \<longleftrightarrow> sl_phase s t = Returning True)) \<or>
      (\<exists>c. offered loader validator t c \<and> sl_published s' = c # sl_published s \<and> sl_active s' = c \<and> p = Returning True \<and> sl_phase s t \<noteq> Returning True)"
  shows "slot_ok loader validator initial s'"
proof -
  from ok assms(2) have m: "sl_mutex s = Some t" by (simp add: slot_ok_def)
  have others: "sl_phase s u = Outside" if "u \<noteq> t" for u using ok m that by (auto simp: slot_ok_def)
  have "\<forall>u. sl_phase s' u \<noteq> Outside \<longleftrightarrow> sl_mutex s' = Some u" using others assms(3,5,6) m by auto
  moreover have "\<forall>u. phase_ok loader validator s' u (sl_phase s' u)" using others assms(4,6) by auto
  moreover from ok publishes have "\<exists>later. sl_published s' = later @ [initial] \<and> (\<forall>m \<in> set later. \<exists>t. offered loader validator t m)"
    unfolding slot_ok_def by (metis append_Cons set_ConsD)
  moreover have "hd (sl_published s') = sl_active s'" "set_mset (sl_snapshots s') \<subseteq> set (sl_published s')"
    using ok publishes assms(7) by (auto simp: slot_ok_def)
  moreover have "returned_true s' + 1 = length (sl_published s')"
    using ok publishes assms(5,6,8) m by (auto simp: slot_ok_def returned_true_def)
  ultimately show ?thesis using ok assms(8) by (simp add: slot_ok_def)
qed

lemma slot_step_ok:
  assumes "slot_step loader validator s s'" and ok: "slot_ok loader validator initial s"
  shows "slot_ok loader validator initial s'"
  using assms(1)
proof (cases rule: slot_step.cases)
  case acquire
  have "sl_active s \<in> set (sl_published s)" using ok unfolding slot_ok_def by (metis append_is_Nil_conv hd_in_set not_Cons_self2)
  with ok show ?thesis by (auto simp: acquire slot_ok_def)
next
  case (release m)
  from ok show ?thesis by (auto simp: release(1) slot_ok_def dest: in_diffD)
next
  case (enter t)
  from ok show ?thesis by (auto simp: enter(1) slot_ok_def returned_true_def enter(2,3))
next
  case (load t)
  let ?p = "case loader t of Value (Some c) \<Rightarrow> Validating c | _ \<Rightarrow> Returning False"
  have "phase_ok loader validator s' t ?p" "?p \<noteq> Outside" "?p \<noteq> Returning True"
    by (auto simp: offered_def split: attempt.split option.split)
  then show ?thesis by (intro holder_step [OF ok, of t ?p s']) (simp_all add: load)
next
  case (validate t c)
  let ?p = "if validator t c = Value True then Publishing c else Returning False"
  from ok have "phase_ok loader validator s t (Validating c)" using validate(2) unfolding slot_ok_def by metis
  then have "phase_ok loader validator s' t ?p" "?p \<noteq> Outside" "?p \<noteq> Returning True" by (auto simp: offered_def)
  then show ?thesis by (intro holder_step [OF ok, of t ?p s']) (simp_all add: validate)
next
  case (publish t c)
  from ok have "phase_ok loader validator s t (Publishing c)" using publish(2) unfolding slot_ok_def by metis
  then show ?thesis by (intro holder_step [OF ok, of t "Returning True" s']) (simp_all add: publish)
next
  case (leave t b)
  from ok have p: "phase_ok loader validator s t (Returning b)" "sl_mutex s = Some t" using leave(2) unfolding slot_ok_def by (metis ReloadPhase.distinct(7))+
  have others: "sl_phase s u = Outside" if "u \<noteq> t" for u using ok p(2) that by (auto simp: slot_ok_def)
  have "b \<longleftrightarrow> (\<exists>c. offered loader validator t c)" using p(1) by (auto split: if_split_asm)
  moreover have "returned_true s' = returned_true s" using p(2) leave(2) by (simp add: leave(1) returned_true_def)
  ultimately show ?thesis using ok others p(2) by (auto simp: leave(1) slot_ok_def)
qed

lemma slot_invariant: "slot_reachable loader validator initial s \<Longrightarrow> slot_ok loader validator initial s"
  by (induction rule: slot_reachable.induct) (auto intro: start_slot_ok slot_step_ok)

lemma reload_state_offered: "fst (reload_state (loader t) (validator t) m) \<longleftrightarrow> (\<exists>c. offered loader validator t c)"
  by (auto simp: reload_state_def offered_def split: attempt.split option.split)

text \<open>Every step either leaves the active model, what was published and the successes, or is the publication of a validated model.\<close>

definition publishes :: "(nat \<Rightarrow> 'm option attempt) \<Rightarrow> (nat \<Rightarrow> 'm \<Rightarrow> bool attempt) \<Rightarrow> 'm Slot \<Rightarrow> 'm Slot \<Rightarrow> bool" where
  "publishes loader validator s s' \<longleftrightarrow>
     (\<exists>t m. sl_mutex s = Some t \<and> sl_phase s t = Publishing m \<and> offered loader validator t m \<and> sl_active s' = m \<and>
       sl_published s' = m # sl_published s \<and> sl_phase s' = (sl_phase s)(t := Returning True))"

lemma slot_step_active:
  assumes "slot_step loader validator s s'" and ok: "slot_ok loader validator initial s"
  shows "publishes loader validator s s' \<or>
    sl_active s' = sl_active s \<and> sl_published s' = sl_published s \<and> returned_true s' = returned_true s"
  using assms(1)
proof (cases rule: slot_step.cases)
  case (enter t)
  then show ?thesis by (simp add: returned_true_def)
next
  case (load t)
  moreover from load(2) ok have "sl_mutex s = Some t" unfolding slot_ok_def by (metis ReloadPhase.distinct(1))
  ultimately show ?thesis by (auto simp: returned_true_def split: attempt.split option.split)
next
  case (validate t c)
  moreover from validate(2) ok have "sl_mutex s = Some t" unfolding slot_ok_def by (metis ReloadPhase.distinct(3))
  ultimately show ?thesis by (auto simp: returned_true_def)
next
  case (publish t c)
  moreover from publish(2) ok have "sl_mutex s = Some t" "phase_ok loader validator s t (Publishing c)"
    unfolding slot_ok_def by (metis ReloadPhase.distinct(5), metis)
  ultimately show ?thesis by (intro disjI1) (auto simp: publishes_def)
next
  case (leave t b)
  moreover from leave(2) ok have "sl_mutex s = Some t" unfolding slot_ok_def by (metis ReloadPhase.distinct(7))
  ultimately show ?thesis by (simp add: returned_true_def)
qed simp_all

text \<open>
  C39: only validated models are published, and failed reloads change nothing. In every state that any number of reloads and users can reach, the
  active model is the one published last, and it and every snapshot still in use is the initial model or one that a reload loaded and its
  validator accepted; at most one reload is inside, and it holds the mutex; every result a reload returned is that of the reload by itself; a
  model was published for every success and for nothing else; and the next step either leaves the active model and the successes as they are, or is
  that of the reload holding the mutex which makes its validated model the active one and is about to return true.
\<close>

theorem slot_publishes_validated:
  assumes "slot_reachable loader validator initial s"
  shows "sl_active s = hd (sl_published s) \<and>
    (\<forall>m \<in> insert (sl_active s) (set_mset (sl_snapshots s)). m = initial \<or> (\<exists>t. offered loader validator t m)) \<and>
    (\<forall>t. sl_phase s t \<noteq> Outside \<longleftrightarrow> sl_mutex s = Some t) \<and>
    (\<forall>(t, b) \<in> set (sl_results s). b = fst (reload_state (loader t) (validator t) (sl_active s))) \<and>
    length (sl_published s) = 1 + returned_true s \<and>
    (\<forall>s'. slot_step loader validator s s' \<longrightarrow> publishes loader validator s s' \<or>
       sl_active s' = sl_active s \<and> sl_published s' = sl_published s \<and> returned_true s' = returned_true s)"
proof -
  note ok = slot_invariant [OF assms]
  then obtain later where later: "sl_published s = later @ [initial]" "\<forall>m \<in> set later. \<exists>t. offered loader validator t m"
    and hd: "hd (sl_published s) = sl_active s" by (auto simp: slot_ok_def)
  have "sl_active s \<in> set (sl_published s)" using later(1) hd by (metis append_is_Nil_conv hd_in_set not_Cons_self2)
  then have "m = initial \<or> (\<exists>t. offered loader validator t m)" if "m \<in> insert (sl_active s) (set_mset (sl_snapshots s))" for m
    using that ok later by (auto simp: slot_ok_def)
  moreover note slot_step_active [OF _ ok]
  ultimately show ?thesis using ok by (auto simp: slot_ok_def reload_state_offered)
qed

section \<open>A reload completes\<close>

fun phase_rank :: "'m ReloadPhase \<Rightarrow> nat" where
  "phase_rank Outside = 0"
| "phase_rank (Returning b) = 1"
| "phase_rank (Publishing c) = 2"
| "phase_rank (Validating c) = 3"
| "phase_rank Loading = 4"

lemma holder_steps:
  assumes "slot_reachable loader validator initial s" and "sl_mutex s = Some t"
  shows "\<exists>s'. slot_step loader validator s s' \<and> phase_rank (sl_phase s' t) < phase_rank (sl_phase s t) \<and> sl_snapshots s' = sl_snapshots s \<and>
    snd (reload_state (loader t) (validator t) (sl_active s')) = snd (reload_state (loader t) (validator t) (sl_active s)) \<and>
    (sl_phase s' t = Outside \<longrightarrow> sl_mutex s' = None \<and> (\<exists>b. sl_results s' = (t, b) # sl_results s) \<and>
       sl_active s' = snd (reload_state (loader t) (validator t) (sl_active s))) \<and>
    (sl_phase s' t \<noteq> Outside \<longrightarrow> sl_mutex s' = Some t \<and> sl_results s' = sl_results s)"
proof -
  note ok = slot_invariant [OF assms(1)]
  then have "sl_phase s t \<noteq> Outside" and phase: "phase_ok loader validator s t (sl_phase s t)" using assms(2) by (simp_all add: slot_ok_def)
  then show ?thesis
  proof (cases "sl_phase s t")
    case Loading
    from slot_step.load [OF this, of loader validator] show ?thesis
      by (intro exI conjI, assumption) (use Loading assms(2) in \<open>auto split: attempt.split option.split\<close>)
  next
    case (Validating c)
    from slot_step.validate [OF this, of loader validator] show ?thesis by (intro exI conjI, assumption) (use Validating assms(2) in auto)
  next
    case (Publishing c)
    with phase have "offered loader validator t c" by simp
    then have new: "snd (reload_state (loader t) (validator t) a) = c" for a by (simp add: reload_state_def offered_def)
    from slot_step.publish [OF Publishing, of loader validator] show ?thesis
      by (intro exI conjI, assumption) (use Publishing assms(2) new in auto)
  next
    case (Returning b)
    with phase have old: "snd (reload_state (loader t) (validator t) (sl_active s)) = sl_active s"
      by (auto simp: reload_state_def offered_def split: if_split_asm attempt.split option.split)
    from slot_step.leave [OF Returning, of loader validator] show ?thesis by (intro exI conjI, assumption) (use Returning old in auto)
  qed simp
qed

lemma holder_completes:
  assumes "slot_reachable loader validator initial s" and "sl_mutex s = Some t"
  shows "\<exists>n \<le> phase_rank (sl_phase s t). \<exists>s'. (slot_step loader validator ^^ n) s s' \<and> slot_reachable loader validator initial s' \<and>
    sl_mutex s' = None \<and> sl_snapshots s' = sl_snapshots s \<and> (\<exists>b. sl_results s' = (t, b) # sl_results s) \<and>
    sl_active s' = snd (reload_state (loader t) (validator t) (sl_active s))"
  using assms
proof (induction "phase_rank (sl_phase s t)" arbitrary: s rule: less_induct)
  case less
  obtain s1 where s1: "slot_step loader validator s s1" "phase_rank (sl_phase s1 t) < phase_rank (sl_phase s t)" "sl_snapshots s1 = sl_snapshots s"
    "snd (reload_state (loader t) (validator t) (sl_active s1)) = snd (reload_state (loader t) (validator t) (sl_active s))"
    "sl_phase s1 t = Outside \<longrightarrow> sl_mutex s1 = None \<and> (\<exists>b. sl_results s1 = (t, b) # sl_results s) \<and>
       sl_active s1 = snd (reload_state (loader t) (validator t) (sl_active s))"
    "sl_phase s1 t \<noteq> Outside \<longrightarrow> sl_mutex s1 = Some t \<and> sl_results s1 = sl_results s"
    using holder_steps [OF less.prems] by blast
  have r: "slot_reachable loader validator initial s1" using less.prems(1) s1(1) by (rule slot_reachable.step)
  show ?case
  proof (cases "sl_phase s1 t = Outside")
    case True
    with s1 r show ?thesis by (intro exI [of _ 1] conjI exI [of _ s1]) auto
  next
    case False
    with less.hyps [OF s1(2) r] s1(6) obtain n s' where n: "n \<le> phase_rank (sl_phase s1 t)" "(slot_step loader validator ^^ n) s1 s'"
      "slot_reachable loader validator initial s'" "sl_mutex s' = None" "sl_snapshots s' = sl_snapshots s1"
      "\<exists>b. sl_results s' = (t, b) # sl_results s" "sl_active s' = snd (reload_state (loader t) (validator t) (sl_active s1))" by auto
    have "(slot_step loader validator ^^ Suc n) s s'" using s1(1) n(2) by (rule relpowp_Suc_I2)
    with n s1(2,3,4) show ?thesis by (intro exI [of _ "Suc n"] conjI exI [of _ s']) simp_all
  qed
qed

lemma recorded_result:
  assumes "slot_reachable loader validator initial s" and "(t, b) \<in> set (sl_results s)"
  shows "b = fst (reload_state (loader t) (validator t) m)"
  using slot_invariant [OF assms(1)] assms(2) by (auto simp: slot_ok_def reload_state_offered)

text \<open>
  C40: a reload that has the mutex gives it back: from every reachable state in which it holds it, whatever its loader and
  validator do, it can take at most four steps, after which the mutex is free, it has returned the result of the reload by
  itself, and the active model is the one the reload by itself leaves: the candidate when it succeeds, the former one when it fails.
\<close>

theorem slot_reload_completes:
  assumes "slot_reachable loader validator initial s" and "sl_mutex s = Some t"
  shows "\<exists>n \<le> 4. \<exists>s'. (slot_step loader validator ^^ n) s s' \<and> sl_mutex s' = None \<and>
    sl_results s' = (t, fst (reload_state (loader t) (validator t) (sl_active s))) # sl_results s \<and>
    sl_active s' = snd (reload_state (loader t) (validator t) (sl_active s))"
proof -
  from holder_completes [OF assms] obtain n s' b where n: "n \<le> phase_rank (sl_phase s t)" "(slot_step loader validator ^^ n) s s'"
    "slot_reachable loader validator initial s'" "sl_mutex s' = None" "sl_results s' = (t, b) # sl_results s"
    "sl_active s' = snd (reload_state (loader t) (validator t) (sl_active s))" by blast
  have "b = fst (reload_state (loader t) (validator t) (sl_active s))" using recorded_result [OF n(3), of t b] n(5) by simp
  moreover have "phase_rank (sl_phase s t) \<le> 4" by (cases "sl_phase s t") simp_all
  ultimately show ?thesis using n by (intro exI [of _ n] conjI exI [of _ s']) simp_all
qed

section \<open>Two reloads\<close>

text \<open>Reload 1 offers model 7, which its validator accepts; reload 2 throws.\<close>

definition demo_loader :: "nat \<Rightarrow> nat option attempt" where
  "demo_loader t = (if t = 1 then Value (Some 7) else Threw)"

definition demo_validator :: "nat \<Rightarrow> nat \<Rightarrow> bool attempt" where
  "demo_validator t c = Value (c = 7)"

definition loading_slot :: "nat Slot" where
  "loading_slot = set_phase 1 Loading ((start_slot 3)\<lparr>sl_mutex := Some 1\<rparr>)"

lemma loading_reachable: "slot_reachable demo_loader demo_validator 3 loading_slot"
  unfolding loading_slot_def by (rule slot_reachable.step [OF slot_reachable.start slot_step.enter]) (simp_all add: start_slot_def)

lemma reload_runs:
  assumes "slot_reachable loader validator initial s" and "sl_mutex s = None"
  shows "\<exists>s'. slot_reachable loader validator initial s' \<and> sl_mutex s' = None \<and> sl_snapshots s' = sl_snapshots s \<and>
    sl_results s' = (t, fst (reload_state (loader t) (validator t) (sl_active s))) # sl_results s \<and>
    sl_active s' = snd (reload_state (loader t) (validator t) (sl_active s))"
proof -
  let ?s = "set_phase t Loading (s\<lparr>sl_mutex := Some t\<rparr>)"
  have "sl_phase s t = Outside" using slot_invariant [OF assms(1)] assms(2) by (auto simp: slot_ok_def)
  from slot_reachable.step [OF assms(1) slot_step.enter [OF this assms(2)]]
  have r: "slot_reachable loader validator initial ?s" .
  from holder_completes [OF this, of t] obtain s' b where s': "slot_reachable loader validator initial s'" "sl_mutex s' = None"
    "sl_snapshots s' = sl_snapshots s" "sl_results s' = (t, b) # sl_results s"
    "sl_active s' = snd (reload_state (loader t) (validator t) (sl_active s))" by auto
  with recorded_result [OF s'(1), of t b "sl_active s"] show ?thesis by (intro exI [of _ s']) simp
qed

text \<open>A user acquires model 3, reload 1 replaces it by model 7, and reload 2 fails.\<close>

lemma two_reloads:
  "\<exists>s. slot_reachable demo_loader demo_validator 3 s \<and> sl_mutex s = None \<and> sl_snapshots s = {#3#} \<and> sl_results s = [(2, False), (1, True)] \<and>
    sl_active s = 7"
proof -
  have "slot_reachable demo_loader demo_validator 3 ((start_slot 3)\<lparr>sl_snapshots := {#3#}\<rparr>)"
    using slot_reachable.step [OF slot_reachable.start slot_step.acquire, of demo_loader demo_validator 3] by (simp add: start_slot_def)
  from reload_runs [OF this, of 1] obtain s where s: "slot_reachable demo_loader demo_validator 3 s" "sl_mutex s = None"
    "sl_snapshots s = {#3#}" "sl_results s = [(1, True)]" "sl_active s = 7"
    by (auto simp: start_slot_def reload_state_def demo_loader_def demo_validator_def)
  from reload_runs [OF s(1,2), of 2] s show ?thesis by (auto simp: reload_state_def demo_loader_def)
qed

theorem slot_publishes_validated_witness:
  "\<exists>s. slot_reachable demo_loader demo_validator 3 s \<and> sl_results s = [(2, False), (1, True)] \<and> sl_snapshots s = {#3#} \<and>
     length (sl_published s) = 2 \<and> hd (sl_published s) = 7 \<and> (\<exists>t. offered demo_loader demo_validator t 7)"
proof -
  from two_reloads obtain s where s: "slot_reachable demo_loader demo_validator 3 s" "sl_mutex s = None" "sl_snapshots s = {#3#}"
    "sl_results s = [(2, False), (1, True)]" "sl_active s = 7" by blast
  have "returned_true s = 1" using s by (simp add: returned_true_def)
  with slot_publishes_validated [OF s(1)] s show ?thesis by (intro exI [of _ s]) auto
qed

theorem slot_reload_completes_witness:
  "\<exists>s'. (slot_step demo_loader demo_validator)\<^sup>*\<^sup>* loading_slot s' \<and> sl_mutex s' = None \<and> sl_results s' = [(1, True)] \<and> sl_active s' = 7"
proof -
  have "sl_mutex loading_slot = Some 1" by (simp add: loading_slot_def)
  from slot_reload_completes [OF loading_reachable this] obtain n s' where s': "(slot_step demo_loader demo_validator ^^ n) loading_slot s'"
    "sl_mutex s' = None" "sl_results s' = (1, fst (reload_state (demo_loader 1) (demo_validator 1) (sl_active loading_slot))) # sl_results loading_slot"
    "sl_active s' = snd (reload_state (demo_loader 1) (demo_validator 1) (sl_active loading_slot))"
    by blast
  from s'(1) have "(slot_step demo_loader demo_validator)\<^sup>*\<^sup>* loading_slot s'" by (rule relpowp_imp_rtranclp)
  with s' show ?thesis
    by (intro exI [of _ s']) (simp add: reload_state_def demo_loader_def demo_validator_def loading_slot_def start_slot_def)
qed

end
