(* ===== verification/Paddle_Ocr.thy ===== *)
theory Paddle_Ocr
  imports Onnx_Ocr Sha256 "HOL-Library.AList"
begin

text \<open>
  The recognizer over an external OCR worker (\<^verbatim>\<open>infrastructure/paddle/paddle_ocr_adapter.cpp\<close>): the plate is encoded, the worker is
  asked within its own deadline, and its answers are kept in a cache of bounded size under the SHA-256 of the payload, the least
  recently used entry leaving first. Encoder and worker are parameters. The two accesses of a call to the cache hold its mutex, so that
  calls of other threads happen between them, as whole accesses.
\<close>

section \<open>The cache\<close>

text \<open>
  The list of keys, most recently used first, and the entries. The iterator of an entry is the position of its key, of
  which there is one.
\<close>

record PaddleCache =
  pc_lru :: "string list"
  pc_entries :: "(string \<times> RecognitionEvidence) list"

definition empty_cache :: PaddleCache where
  "empty_cache = \<lparr>pc_lru = [], pc_entries = []\<rparr>"

text \<open>\<open>lru_.splice(lru_.begin(), lru_, position)\<close>\<close>

definition splice_front :: "string \<Rightarrow> string list \<Rightarrow> string list" where
  "splice_front key keys = key # remove1 key keys"

definition try_get_cached :: "nat \<Rightarrow> string \<Rightarrow> PaddleCache \<Rightarrow> RecognitionEvidence option \<times> PaddleCache" where
  "try_get_cached capacity key c =
     (if capacity = 0 then (None, c)
      else case map_of (pc_entries c) key of
          None \<Rightarrow> (None, c)
        | Some ev \<Rightarrow> (Some ev, c\<lparr>pc_lru := splice_front key (pc_lru c)\<rparr>))"

text \<open>The eviction; \<open>back()\<close> of an empty list is never reached, as \<open>evict_ok\<close> shows.\<close>

function evict :: "nat \<Rightarrow> PaddleCache \<Rightarrow> PaddleCache" where
  "evict capacity c =
     (if length (pc_entries c) \<le> capacity \<or> pc_lru c = [] then c
      else evict capacity \<lparr>pc_lru = butlast (pc_lru c), pc_entries = AList.delete (last (pc_lru c)) (pc_entries c)\<rparr>)"
  by pat_completeness auto
termination by (relation "measure (\<lambda>(_, c). length (pc_lru c))") auto

declare evict.simps [simp del]

definition store_cached :: "nat \<Rightarrow> string \<Rightarrow> RecognitionEvidence \<Rightarrow> PaddleCache \<Rightarrow> PaddleCache" where
  "store_cached capacity key ev c =
     (if capacity = 0 then c
      else if map_of (pc_entries c) key \<noteq> None
        then \<lparr>pc_lru = splice_front key (pc_lru c), pc_entries = AList.update key ev (pc_entries c)\<rparr>
        else evict capacity \<lparr>pc_lru = key # pc_lru c, pc_entries = (key, ev) # pc_entries c\<rparr>)"

datatype CacheAccess = Lookup string | Store string RecognitionEvidence

fun access_cache :: "nat \<Rightarrow> CacheAccess \<Rightarrow> PaddleCache \<Rightarrow> PaddleCache" where
  "access_cache capacity (Lookup key) c = snd (try_get_cached capacity key c)"
| "access_cache capacity (Store key ev) c = store_cached capacity key ev c"

definition access_all :: "nat \<Rightarrow> CacheAccess list \<Rightarrow> PaddleCache \<Rightarrow> PaddleCache" where
  "access_all capacity = fold (access_cache capacity)"

section \<open>The adapter\<close>

record EncodedImage =
  enc_bytes :: "8 word list"
  enc_mime_type :: string

record PaddleOcrRequest =
  pr_payload :: "8 word list"
  pr_mime_type :: string
  pr_content_sha256 :: string

record PaddleOcrProviderConfig =
  po_provider_name :: string
  po_timeout :: int      \<comment> \<open>milliseconds\<close>
  po_maximum_payload_bytes :: nat
  po_cache_capacity :: nat
  po_maximum_candidates :: nat

definition default_paddle_config :: PaddleOcrProviderConfig where
  "default_paddle_config = \<lparr>po_provider_name = ''paddleocr'', po_timeout = 750, po_maximum_payload_bytes = 4 * 1024 * 1024,
     po_cache_capacity = 128, po_maximum_candidates = 8\<rparr>"

type_synonym ImageEncoder = "ImageView \<Rightarrow> OperationContext \<Rightarrow> EncodedImage io"

record PaddleOcrWorker =
  pw_available :: "World \<Rightarrow> nat \<Rightarrow> bool"
  pw_recognize :: "PaddleOcrRequest \<Rightarrow> OperationContext \<Rightarrow> PlateCandidate list io"

record PaddleOcrAdapter =
  pa_config :: PaddleOcrProviderConfig
  pa_encoder :: ImageEncoder
  pa_worker :: PaddleOcrWorker

definition make_paddle_adapter :: "PaddleOcrProviderConfig \<Rightarrow> ImageEncoder option \<Rightarrow> PaddleOcrWorker option \<Rightarrow> PaddleOcrAdapter result" where
  "make_paddle_adapter config encoder worker =
     res_bind (check_all
       [throw_if (po_provider_name config = []) (ConfigurationError ''PaddleOCR provider name cannot be empty''),
        throw_if (po_timeout config \<le> 0) (ConfigurationError ''PaddleOCR timeout must be positive''),
        throw_if (po_maximum_payload_bytes config = 0 \<or> po_maximum_candidates config = 0)
          (ConfigurationError ''PaddleOCR bounds must be greater than zero'')])
       (\<lambda>_. case (encoder, worker) of
          (Some e, Some wk) \<Rightarrow> Inr \<lparr>pa_config = config, pa_encoder = e, pa_worker = wk\<rparr>
        | _ \<Rightarrow> Inl (ConfigurationError ''PaddleOCR encoder and worker are required''))"

definition check_paddle :: "OperationContext \<Rightarrow> unit io" where
  "check_paddle ctx = check_operation ctx ''PaddleOCR recognition cancelled'' ''PaddleOCR recognition deadline exceeded''"

text \<open>The deadline is nanoseconds in 64 bits; an overflow, undefined in C++, wraps.\<close>

definition child_context :: "PaddleOcrProviderConfig \<Rightarrow> OperationContext \<Rightarrow> OperationContext io" where
  "child_context config parent = io_bind io_now (\<lambda>now.
     let local_deadline = signed_take_bit 63 (now + signed_take_bit 63 (po_timeout config * 1000000))
     in io_return (case op_deadline parent of
          None \<Rightarrow> parent\<lparr>op_deadline := Some local_deadline\<rparr>
        | Some d \<Rightarrow> if local_deadline < d then parent\<lparr>op_deadline := Some local_deadline\<rparr> else parent))"

text \<open>The test of a candidate is that of the ONNX recognizer.\<close>

definition validate_response :: "PaddleOcrProviderConfig \<Rightarrow> PlateCandidate list \<Rightarrow> unit result" where
  "validate_response config candidates = check_all
     [throw_if (length candidates > po_maximum_candidates config) (ProviderError ''PaddleOCR response contains too many candidates''),
      throw_if (list_ex malformed_candidate candidates) (ProviderError ''PaddleOCR worker returned a malformed candidate'')]"

text \<open>Up to the first access to the cache: the encoded plate.\<close>

definition paddle_entry :: "PaddleOcrAdapter \<Rightarrow> ImageView \<Rightarrow> OperationContext \<Rightarrow> EncodedImage io" where
  "paddle_entry a plate ctx =
     io_bind (check_paddle ctx) (\<lambda>_.
     io_bind (\<lambda>w n. (Inr (pw_available (pa_worker a) w n), Suc n)) (\<lambda>available.
     if \<not> available then io_throw (ProviderError ''PaddleOCR worker is unavailable'')
     else io_bind (pa_encoder a plate ctx) (\<lambda>encoded.
       io_bind (check_paddle ctx) (\<lambda>_.
       if enc_bytes encoded = [] \<or> enc_mime_type encoded = [] then io_throw (ProviderError ''PaddleOCR encoder returned an empty payload'')
       else if length (enc_bytes encoded) > po_maximum_payload_bytes (pa_config a)
         then io_throw (ResourceExhaustedError ''PaddleOCR payload exceeds configured limit'')
         else io_return encoded))))"

text \<open>The call of the worker, between the two accesses.\<close>

definition paddle_run :: "PaddleOcrAdapter \<Rightarrow> OperationContext \<Rightarrow> EncodedImage \<Rightarrow> string \<Rightarrow> RecognitionEvidence io" where
  "paddle_run a ctx encoded key =
     io_bind io_now (\<lambda>started.
     io_bind (child_context (pa_config a) ctx) (\<lambda>bounded.
     io_bind (check_paddle bounded) (\<lambda>_.
     io_bind (pw_recognize (pa_worker a)
       \<lparr>pr_payload = enc_bytes encoded, pr_mime_type = enc_mime_type encoded, pr_content_sha256 = key\<rparr> bounded) (\<lambda>candidates.
     io_bind (check_paddle bounded) (\<lambda>_.
     io_bind (io_lift (validate_response (pa_config a) candidates)) (\<lambda>_.
     io_bind io_now (\<lambda>finished.
     io_return \<lparr>ev_source = po_provider_name (pa_config a), ev_candidates = candidates, ev_crop_quality = Fin 0,
       ev_latency_ms = milliseconds_between started finished\<rparr>)))))))"

definition paddle_recognize :: "PaddleOcrAdapter \<Rightarrow> ImageView \<Rightarrow> OperationContext \<Rightarrow> CacheAccess list \<Rightarrow> PaddleCache \<Rightarrow> World \<Rightarrow> nat \<Rightarrow>
    (RecognitionEvidence result \<times> PaddleCache) \<times> nat" where
  "paddle_recognize a plate ctx others c w n =
     (let capacity = po_cache_capacity (pa_config a) in
      case paddle_entry a plate ctx w n of
        (Inl e, k) \<Rightarrow> ((Inl e, c), k)
      | (Inr encoded, k) \<Rightarrow>
          let key = sha256_hex (enc_bytes encoded) in
          (case try_get_cached capacity key c of
             (Some cached, c') \<Rightarrow> ((Inr cached, c'), k)
           | (None, c') \<Rightarrow>
               (case paddle_run a ctx encoded key w k of
                  (Inl e, k') \<Rightarrow> ((Inl e, access_all capacity others c'), k')
                | (Inr ev, k') \<Rightarrow> ((Inr ev, store_cached capacity key ev (access_all capacity others c')), k'))))"

section \<open>The contract of a cache of evidence\<close>

text \<open>
  What the adapter relies on: a lookup answers the entry and changes none, and a store adds at most its own.
\<close>

locale evidence_cache =
  fixes lookup :: "string \<Rightarrow> 'c \<Rightarrow> RecognitionEvidence option \<times> 'c" and store :: "string \<Rightarrow> RecognitionEvidence \<Rightarrow> 'c \<Rightarrow> 'c"
    and entries :: "'c \<Rightarrow> string \<rightharpoonup> RecognitionEvidence" and ok :: "'c \<Rightarrow> bool"
  assumes lookup_answers: "ok c \<Longrightarrow> lookup key c = (r, c') \<Longrightarrow> ok c' \<and> r = entries c key \<and> entries c' = entries c"
    and store_adds: "ok c \<Longrightarrow> ok (store key ev c) \<and> entries (store key ev c) \<subseteq>\<^sub>m (entries c)(key \<mapsto> ev)"
begin

definition access :: "CacheAccess \<Rightarrow> 'c \<Rightarrow> 'c" where
  "access x c = (case x of Lookup key \<Rightarrow> snd (lookup key c) | Store key ev \<Rightarrow> store key ev c)"

lemma store_entry: "ok c \<Longrightarrow> entries (store key ev c) k = Some e \<Longrightarrow> (k, e) = (key, ev) \<or> entries c k = Some e"
  using store_adds [of c key ev] by (auto simp: map_le_def dom_def split: if_split_asm) (metis option.distinct(1) option.inject)+

text \<open>What holds of every evidence stored holds of every entry, whoever accesses the cache, in whichever order.\<close>

lemma accesses_keep:
  assumes "ok c" and "\<And>k e. entries c k = Some e \<Longrightarrow> P k e" and "\<And>k e. Store k e \<in> set xs \<Longrightarrow> P k e"
  shows "ok (fold access xs c) \<and> (\<forall>k e. entries (fold access xs c) k = Some e \<longrightarrow> P k e)"
  using assms
proof (induction xs arbitrary: c)
  case (Cons x xs)
  have "ok (access x c) \<and> (\<forall>k e. entries (access x c) k = Some e \<longrightarrow> P k e)"
  proof (cases x)
    case (Lookup key)
    then show ?thesis using lookup_answers [OF Cons.prems(1) prod.collapse [symmetric]] Cons.prems(2) by (simp add: access_def)
  next
    case (Store key ev)
    then show ?thesis using store_adds [OF Cons.prems(1)] store_entry [OF Cons.prems(1)] Cons.prems(2,3) by (fastforce simp: access_def)
  qed
  with Cons.IH [of "access x c"] Cons.prems(3) show ?case by (metis fold_simps(2) list.set_intros(2))
qed simp

end

section \<open>The cache is one list, the least recently used entry last\<close>

text \<open>The reference: an association list in order of recency, cut at the capacity.\<close>

definition lru_lookup :: "string \<Rightarrow> (string \<times> RecognitionEvidence) list \<Rightarrow> RecognitionEvidence option \<times> (string \<times> RecognitionEvidence) list" where
  "lru_lookup key xs = (case map_of xs key of None \<Rightarrow> (None, xs) | Some ev \<Rightarrow> (Some ev, (key, ev) # AList.delete key xs))"

definition lru_store :: "nat \<Rightarrow> string \<Rightarrow> RecognitionEvidence \<Rightarrow> (string \<times> RecognitionEvidence) list \<Rightarrow> (string \<times> RecognitionEvidence) list" where
  "lru_store capacity key ev xs = take capacity ((key, ev) # AList.delete key xs)"

fun lru_access :: "nat \<Rightarrow> CacheAccess \<Rightarrow> (string \<times> RecognitionEvidence) list \<Rightarrow> (string \<times> RecognitionEvidence) list" where
  "lru_access capacity (Lookup key) xs = snd (lru_lookup key xs)"
| "lru_access capacity (Store key ev) xs = lru_store capacity key ev xs"

definition same_keys :: "PaddleCache \<Rightarrow> bool" where
  "same_keys c \<longleftrightarrow> distinct (pc_lru c) \<and> distinct (map fst (pc_entries c)) \<and> set (pc_lru c) = fst ` set (pc_entries c)"

definition cache_ok :: "nat \<Rightarrow> PaddleCache \<Rightarrow> bool" where
  "cache_ok capacity c \<longleftrightarrow> same_keys c \<and> length (pc_entries c) \<le> capacity"

definition recency :: "PaddleCache \<Rightarrow> (string \<times> RecognitionEvidence) list" where
  "recency c = map (\<lambda>k. (k, the (map_of (pc_entries c) k))) (pc_lru c)"

lemma same_keys_length: "same_keys c \<Longrightarrow> length (pc_lru c) = length (pc_entries c)"
  by (metis same_keys_def distinct_card length_map list.set_map)

lemma map_of_recency:
  assumes "same_keys c"
  shows "map_of (recency c) = map_of (pc_entries c)"
proof (rule ext)
  fix k
  from assms have "k \<in> set (pc_lru c) \<longleftrightarrow> map_of (pc_entries c) k \<noteq> None" by (simp add: same_keys_def map_of_eq_None_iff)
  then show "map_of (recency c) k = map_of (pc_entries c) k" by (auto simp: recency_def map_of_map_restrict restrict_map_def)
qed

lemma delete_keyed: "AList.delete key (map (\<lambda>k. (k, f k)) ks) = map (\<lambda>k. (k, f k)) (filter (\<lambda>k. k \<noteq> key) ks)"
  by (induction ks) auto

lemma splice_front_spec:
  assumes "distinct keys"
  shows "distinct (splice_front key keys)" and "set (splice_front key keys) = insert key (set keys)"
    and "splice_front key keys = key # filter (\<lambda>k. k \<noteq> key) keys"
  using assms by (auto simp: splice_front_def distinct_remove1_removeAll removeAll_filter_not_eq intro: filter_cong)

text \<open>The eviction takes at most one entry, and the list is not empty when it does.\<close>

lemma evict_ok:
  assumes "same_keys c" and "length (pc_entries c) \<le> Suc capacity"
  shows "cache_ok capacity (evict capacity c) \<and> recency (evict capacity c) = take capacity (recency c)"
proof (cases "length (pc_entries c) \<le> capacity")
  case True
  then show ?thesis using assms(1) same_keys_length [OF assms(1)] by (subst (1 2) evict.simps) (simp add: cache_ok_def recency_def)
next
  case False
  with assms same_keys_length [OF assms(1)] have len: "length (pc_entries c) = Suc capacity" "length (pc_lru c) = Suc capacity" by simp_all
  then obtain ks k where lru: "pc_lru c = ks @ [k]" "length ks = capacity" by (metis length_Suc_conv_rev)
  let ?d = "\<lparr>pc_lru = ks, pc_entries = AList.delete k (pc_entries c)\<rparr>"
  have keys: "same_keys ?d" using assms(1) by (auto simp: same_keys_def lru(1) distinct_delete delete_keys distinct_removeAll set_map [symmetric] simp del: set_map)
  with same_keys_length [OF keys] lru(2) have ok: "cache_ok capacity ?d" by (simp add: cache_ok_def)
  have "evict capacity ?d = ?d" using ok by (subst evict.simps) (simp add: cache_ok_def)
  then have e: "evict capacity c = ?d" using len lru by (subst evict.simps) simp
  have "recency ?d = map (\<lambda>k. (k, the (map_of (pc_entries c) k))) ks"
    using assms(1) by (auto simp: recency_def same_keys_def lru(1) delete_conv')
  then show ?thesis using ok lru by (simp add: e recency_def)
qed

lemma lookup_refines:
  assumes "cache_ok capacity c" and "try_get_cached capacity key c = (r, c')"
  shows "cache_ok capacity c'" and "pc_entries c' = pc_entries c" and "r = map_of (pc_entries c) key"
    and "lru_lookup key (recency c) = (r, recency c')"
proof -
  from assms(1) have keys: "same_keys c" by (simp add: cache_ok_def)
  have "pc_lru c' = (if r = None then pc_lru c else splice_front key (pc_lru c)) \<and> pc_entries c' = pc_entries c \<and>
      r = map_of (pc_entries c) key"
    using assms by (auto simp: try_get_cached_def cache_ok_def split: if_split_asm option.split_asm)
  then have c': "pc_lru c' = (if r = None then pc_lru c else splice_front key (pc_lru c))" and e: "pc_entries c' = pc_entries c"
    and r: "r = map_of (pc_entries c) key" by auto
  show "pc_entries c' = pc_entries c" "r = map_of (pc_entries c) key" by (fact e r)+
  have k: "key \<in> set (pc_lru c)" if "r \<noteq> None" using that keys by (force simp: r same_keys_def dest: map_of_SomeD)
  have sp: "distinct (splice_front key (pc_lru c))" "set (splice_front key (pc_lru c)) = insert key (set (pc_lru c))"
      "splice_front key (pc_lru c) = key # filter (\<lambda>k. k \<noteq> key) (pc_lru c)"
    using keys splice_front_spec [of "pc_lru c" key] by (simp_all add: same_keys_def)
  from keys k sp(1,2) have "same_keys c'" by (auto simp: same_keys_def c' e insert_absorb)
  with assms(1) show "cache_ok capacity c'" by (simp add: cache_ok_def e)
  show "lru_lookup key (recency c) = (r, recency c')"
    using map_of_recency [OF keys] by (auto simp: lru_lookup_def r [symmetric] recency_def c' e sp(3) delete_keyed split: option.split)
qed

lemma store_refines:
  assumes "cache_ok capacity c"
  shows "cache_ok capacity (store_cached capacity key ev c)" and "recency (store_cached capacity key ev c) = lru_store capacity key ev (recency c)"
proof -
  let ?c = "store_cached capacity key ev c"
  from assms have keys: "same_keys c" by (simp add: cache_ok_def)
  have "cache_ok capacity ?c \<and> recency ?c = lru_store capacity key ev (recency c)"
  proof (cases "capacity = 0 \<or> map_of (pc_entries c) key \<noteq> None")
    case False
    then have c: "?c = evict capacity \<lparr>pc_lru = key # pc_lru c, pc_entries = (key, ev) # pc_entries c\<rparr>" (is "_ = evict _ ?d")
      and new: "key \<notin> set (pc_lru c)" using keys by (auto simp: store_cached_def same_keys_def map_of_eq_None_iff)
    have "same_keys ?d" using keys new by (auto simp: same_keys_def)
    moreover have "filter (\<lambda>k. k \<noteq> key) (pc_lru c) = pc_lru c" using new by (auto simp: filter_id_conv)
    then have "recency ?d = (key, ev) # AList.delete key (recency c)" using new by (auto simp: recency_def delete_keyed)
    ultimately show ?thesis using evict_ok [of ?d capacity] assms by (simp add: c cache_ok_def lru_store_def)
  next
    case True
    show ?thesis
    proof (cases "capacity = 0")
      case True
      then show ?thesis using assms same_keys_length [OF keys] by (simp add: store_cached_def lru_store_def recency_def cache_ok_def)
    next
      case pos: False
      with True have c: "?c = \<lparr>pc_lru = splice_front key (pc_lru c), pc_entries = AList.update key ev (pc_entries c)\<rparr>"
        and old: "key \<in> set (pc_lru c)" using keys by (auto simp: store_cached_def same_keys_def map_of_eq_None_iff)
      note sp = splice_front_spec [of "pc_lru c" key]
      have upd: "map fst (AList.update key ev (pc_entries c)) = map fst (pc_entries c)"
        using old keys by (simp add: update_keys same_keys_def)
      from keys sp old upd have k: "same_keys ?c" by (auto simp: c same_keys_def insert_absorb set_map [symmetric] simp del: set_map)
      have len: "length (pc_lru ?c) \<le> capacity"
        using same_keys_length [OF k] upd assms by (metis c cache_ok_def length_map PaddleCache.select_convs(2))
      moreover have "recency ?c = (key, ev) # AList.delete key (recency c)"
        using keys sp(3) by (auto simp: c recency_def delete_keyed update_conv' same_keys_def intro!: map_cong)
      ultimately show ?thesis using k same_keys_length [OF k]
        by (simp add: cache_ok_def lru_store_def) (metis length_map recency_def take_all)
    qed
  qed
  then show "cache_ok capacity ?c" "recency ?c = lru_store capacity key ev (recency c)" by simp_all
qed

interpretation paddle_cache: evidence_cache "try_get_cached capacity" "store_cached capacity" "\<lambda>c. map_of (pc_entries c)" "cache_ok capacity"
proof unfold_locales
  fix c key r c' ev
  show "cache_ok capacity c' \<and> r = map_of (pc_entries c) key \<and> map_of (pc_entries c') = map_of (pc_entries c)"
    if "cache_ok capacity c" "try_get_cached capacity key c = (r, c')"
    using lookup_refines [OF that] by simp
  show "cache_ok capacity (store_cached capacity key ev c) \<and> map_of (pc_entries (store_cached capacity key ev c)) \<subseteq>\<^sub>m (map_of (pc_entries c))(key \<mapsto> ev)"
    if ok: "cache_ok capacity c"
  proof
    note st = store_refines [OF ok, of key ev]
    show "cache_ok capacity (store_cached capacity key ev c)" by (fact st(1))
    have "map_of (take n xs) \<subseteq>\<^sub>m map_of xs" for n and xs :: "(string \<times> RecognitionEvidence) list"
      by (metis append_take_drop_id map_le_map_add map_of_append)
    from this [of capacity "(key, ev) # AList.delete key (recency c)"]
    show "map_of (pc_entries (store_cached capacity key ev c)) \<subseteq>\<^sub>m (map_of (pc_entries c))(key \<mapsto> ev)"
      using ok st map_of_recency [of "store_cached capacity key ev c"] map_of_recency [of c]
      by (simp add: lru_store_def cache_ok_def delete_conv')
  qed
qed

lemma access_cache_eq: "access_all capacity xs c = fold (paddle_cache.access capacity) xs c"
proof -
  have "access_cache capacity = paddle_cache.access capacity"
    by (intro ext) (metis CacheAccess.exhaust CacheAccess.simps(5,6) access_cache.simps paddle_cache.access_def)
  then show ?thesis by (simp add: access_all_def)
qed

lemma empty_cache_ok: "cache_ok capacity empty_cache" and recency_empty: "recency empty_cache = []"
  by (simp_all add: cache_ok_def same_keys_def recency_def empty_cache_def)

lemma access_refines:
  assumes "cache_ok capacity c"
  shows "cache_ok capacity (access_all capacity xs c) \<and> recency (access_all capacity xs c) = fold (lru_access capacity) xs (recency c)"
  using assms
proof (induction xs arbitrary: c)
  case (Cons x xs)
  have "cache_ok capacity (access_cache capacity x c) \<and> recency (access_cache capacity x c) = lru_access capacity x (recency c)"
  proof (cases x)
    case (Lookup key)
    then show ?thesis using lookup_refines [OF Cons.prems prod.collapse [symmetric]] by (metis access_cache.simps(1) lru_access.simps(1) snd_conv)
  next
    case (Store key ev)
    then show ?thesis using store_refines [OF Cons.prems] by simp
  qed
  with Cons.IH [of "access_cache capacity x c"] show ?case by (simp add: access_all_def)
qed (simp add: access_all_def)

text \<open>
  The cache is a least-recently-used cache. After any sequence of accesses, from any threads, its list of keys and its
  table are one association list in order of recency that never exceeds the capacity: a lookup finds what that list has and moves it to the front, a store
  puts its entry in front and drops what is beyond the capacity. So the table and the list agree on their keys, and the
  list is never empty when an entry is evicted.
\<close>

theorem paddle_cache_is_lru:
  "let c = access_all capacity xs empty_cache; l = fold (lru_access capacity) xs [] in
     recency c = l \<and> pc_lru c = map fst l \<and> map_of (pc_entries c) = map_of l \<and> length (pc_entries c) = length l \<and> length l \<le> capacity \<and>
     distinct (map fst l) \<and> fst (try_get_cached capacity key c) = fst (lru_lookup key l)"
proof -
  define c where "c = access_all capacity xs empty_cache"
  define l where "l = fold (lru_access capacity) xs []"
  have ok: "cache_ok capacity c" and l: "recency c = l"
    using access_refines [OF empty_cache_ok, of capacity xs] by (simp_all add: c_def l_def recency_empty)
  from ok have keys: "same_keys c" "length (pc_entries c) \<le> capacity" by (simp_all add: cache_ok_def)
  have "pc_lru c = map fst l" by (simp add: l [symmetric] recency_def comp_def)
  moreover have "length l = length (pc_lru c)" by (simp add: l [symmetric] recency_def)
  moreover have "fst (try_get_cached capacity key c) = fst (lru_lookup key l)"
    using lookup_refines(4) [OF ok prod.collapse [symmetric]] l by simp
  ultimately show ?thesis
    using keys l map_of_recency [OF keys(1)] same_keys_length [OF keys(1)]
    by (simp add: Let_def same_keys_def flip: c_def l_def)
qed

section \<open>What the adapter returns\<close>

text \<open>
  Evidence of a key: what the worker answered on a payload with that digest, under a deadline that is the local one or the caller's, the earlier
  of the two, and nothing malformed.
\<close>

definition answered_by_worker :: "PaddleOcrAdapter \<Rightarrow> string \<Rightarrow> RecognitionEvidence \<Rightarrow> bool" where
  "answered_by_worker a key ev \<longleftrightarrow>
     ev_source ev = po_provider_name (pa_config a) \<and> length (ev_candidates ev) \<le> po_maximum_candidates (pa_config a) \<and>
     (\<forall>c \<in> set (ev_candidates ev). \<not> malformed_candidate c) \<and>
     (\<exists>payload mime (ctx :: OperationContext) bounded d w n k. sha256_hex payload = key \<and> payload \<noteq> [] \<and> length payload \<le> po_maximum_payload_bytes (pa_config a) \<and>
        op_deadline bounded = Some d \<and> (\<forall>parent. op_deadline ctx = Some parent \<longrightarrow> d \<le> parent) \<and>
        pw_recognize (pa_worker a) \<lparr>pr_payload = payload, pr_mime_type = mime, pr_content_sha256 = key\<rparr> bounded w n = (Inr (ev_candidates ev), k))"

lemma child_deadline: "child_context config ctx w n = (Inr b, k) \<Longrightarrow> \<exists>d. op_deadline b = Some d \<and> (\<forall>p. op_deadline ctx = Some p \<longrightarrow> d \<le> p)"
  by (auto simp: child_context_def io_bind_def io_now_def io_return_def Let_def split: option.splits if_split_asm)

lemma paddle_run_answered:
  assumes "paddle_run a ctx encoded key w n = (Inr ev, k)" and "key = sha256_hex (enc_bytes encoded)" and "enc_bytes encoded \<noteq> []"
    and "length (enc_bytes encoded) \<le> po_maximum_payload_bytes (pa_config a)"
  shows "answered_by_worker a key ev"
proof -
  from assms(1) obtain bounded candidates n1 n2 n3 n4 where b: "child_context (pa_config a) ctx w n1 = (Inr bounded, n2)"
    and c: "pw_recognize (pa_worker a) \<lparr>pr_payload = enc_bytes encoded, pr_mime_type = enc_mime_type encoded, pr_content_sha256 = key\<rparr> bounded w n3 =
      (Inr candidates, n4)"
    and v: "validate_response (pa_config a) candidates = Inr ()"
    and ev: "ev_source ev = po_provider_name (pa_config a)" "ev_candidates ev = candidates"
    unfolding paddle_run_def by (auto simp: io_simps)
  from v have "length candidates \<le> po_maximum_candidates (pa_config a) \<and> (\<forall>c \<in> set candidates. \<not> malformed_candidate c)"
    by (auto simp: validate_response_def check_all_eq_Inr throw_if_eq list_ex_iff)
  with child_deadline [OF b] c ev assms(2-4) show ?thesis unfolding answered_by_worker_def by metis
qed

lemma paddle_entry_payload:
  assumes "paddle_entry a plate ctx w n = (Inr encoded, k)"
  shows "enc_bytes encoded \<noteq> [] \<and> length (enc_bytes encoded) \<le> po_maximum_payload_bytes (pa_config a)"
  using assms unfolding paddle_entry_def by (auto simp: io_simps split: if_split_asm)

text \<open>
  Whatever other threads do with the cache between the two accesses, as long as what they store was answered by the worker, so is the evidence of
  a call that returns, and a cache that holds nothing else holds nothing else afterwards.
\<close>

theorem paddle_evidence_answered:
  assumes "paddle_recognize a plate ctx others c w n = ((Inr ev, c'), n')" and ok: "cache_ok (po_cache_capacity (pa_config a)) c"
    and held: "\<And>k e. map_of (pc_entries c) k = Some e \<Longrightarrow> answered_by_worker a k e"
    and stored: "\<And>k e. Store k e \<in> set others \<Longrightarrow> answered_by_worker a k e"
  shows "(\<exists>encoded k. paddle_entry a plate ctx w n = (Inr encoded, k) \<and> answered_by_worker a (sha256_hex (enc_bytes encoded)) ev) \<and>
    cache_ok (po_cache_capacity (pa_config a)) c' \<and> (\<forall>k e. map_of (pc_entries c') k = Some e \<longrightarrow> answered_by_worker a k e)"
proof -
  let ?n = "po_cache_capacity (pa_config a)"
  from assms(1) obtain encoded k where entry: "paddle_entry a plate ctx w n = (Inr encoded, k)"
    by (auto simp: paddle_recognize_def Let_def split: prod.splits sum.splits)
  define key where "key = sha256_hex (enc_bytes encoded)"
  obtain r c1 where look: "try_get_cached ?n key c = (r, c1)" by fastforce
  note looked = lookup_refines(1-3) [OF ok look]
  show ?thesis
  proof (cases r)
    case (Some cached)
    with assms(1) entry look have "ev = cached" "c' = c1" by (simp_all add: paddle_recognize_def Let_def key_def)
    with Some looked held entry show ?thesis by (auto simp: key_def)
  next
    case None
    let ?c2 = "access_all ?n others c1"
    from assms(1) entry look None obtain k' where run: "paddle_run a ctx encoded key w k = (Inr ev, k')"
      and c': "c' = access_all ?n (others @ [Store key ev]) c1"
      by (auto simp: paddle_recognize_def access_all_def Let_def key_def split: prod.splits sum.splits)
    have ev: "answered_by_worker a key ev" using paddle_run_answered [OF run] paddle_entry_payload [OF entry] by (simp add: key_def)
    have "cache_ok ?n c' \<and> (\<forall>k e. map_of (pc_entries c') k = Some e \<longrightarrow> answered_by_worker a k e)"
      unfolding c' access_cache_eq
      using paddle_cache.accesses_keep [OF looked(1), of "answered_by_worker a" "others @ [Store key ev]"] held stored ev looked(2) by auto
    with entry ev show ?thesis by (auto simp: key_def)
  qed
qed

end
