(* ===== verification/Spec2Isabelle.thy ===== *)
theory Spec2Isabelle
  imports Engine_Config Plate_Grammar Stream_Session C_Api Worker_Pool Yolo_Detector Lprnet_Adapter Adaptive_Tiles Plate_Geometry Model_Lifecycle Model_Slot Paddle_Ocr
begin

text \<open>
  A licence plate recognition engine in C++ (\<^verbatim>\<open>src/\<close> holds the sources, \<^verbatim>\<open>include/fac_lpr/\<close> the interfaces; paths below are relative to
  \<^verbatim>\<open>src/src/\<close>). A frame enters through the C interface or a stream session. The pipeline validates it, asks the detector for plates, cuts several
  crops of each plate, asks the ensemble of recognizers about every crop, fuses the texts and lets a policy decide whether a text is
  accepted, needs a review or is rejected. A stream session passes the single-plate results of its frames to a temporal consensus and the stable plates
  to an event filter. Detectors and recognizers are models behind an inference session, fed by preprocessors and read by parsers and decoders.

  \<^bold>\<open>Foundations.\<close> \<open>Prelude\<close>: results that carry an error, \<open>std::map\<close> as the locale \<open>ordered_map\<close> and \<open>std::stable_sort\<close> as \<open>weak_order_on\<close>,
  both interpreted on the lists the models use. \<open>Binary_Float\<close>, \<open>Float_Arith\<close>: \<open>float\<close> and \<open>double\<close> as NaN, infinities and rationals rounded to nearest even
  (locales \<open>rounding\<close> and \<open>fp_format\<close>, interpreted at 24, 53 and 64 bits); the sign of zero is not kept. \<open>Byte_Memory\<close>: byte buffers. \<open>Domain\<close>:
  \<^verbatim>\<open>domain/*.hpp\<close> and \<^verbatim>\<open>application/error.hpp\<close>; an exception is a value of \<open>exn\<close>, a fallible operation answers \<open>exn + 'a\<close>. \<open>Engine_World\<close>:
  calls that look at clock, stop token or providers take the world and the instant of the call, and a provider may answer anything depending on them.

  \<^bold>\<open>Application.\<close> \<open>Engine_Config\<close> (\<^verbatim>\<open>config.hpp\<close>, \<^verbatim>\<open>resource_budget.hpp\<close>): defaults and validation. \<open>Image_Validation\<close> (\<^verbatim>\<open>image_validation.cpp\<close>):
  the 64-bit checks equal integer arithmetic. \<open>Plate_Grammar\<close> (\<^verbatim>\<open>turkish_plate_grammar.cpp\<close>): the recogniser equals the format, prefixes are the completable texts.
  \<open>Candidate_Fusion\<close> (\<^verbatim>\<open>candidate_fusion.cpp\<close>), \<open>Decision_Policy\<close> (\<^verbatim>\<open>safe_decision_policy.cpp\<close>): ranked distinct probabilities; what an acceptance implies.
  \<open>Disjoint_Set\<close>, \<open>Detector_Fusion\<close> (\<^verbatim>\<open>multi_detector_fusion.cpp\<close>): union-find with path compression, groups as overlap classes. \<open>Recognition_Ensemble\<close>
  (\<^verbatim>\<open>recognition_ensemble.cpp\<close>): one outcome per provider. \<open>Engine_Diagnostics\<close> (\<^verbatim>\<open>engine_diagnostics.cpp\<close>): wrapping counters. \<open>Lpr_Pipeline\<close> (\<^verbatim>\<open>lpr_pipeline.cpp\<close>):
  the loops over plates and crops. \<open>Temporal_Consensus\<close>, \<open>Event_Filter\<close>, \<open>Stream_Session\<close> (\<^verbatim>\<open>temporal_plate_consensus.cpp\<close>, \<^verbatim>\<open>stable_plate_event_filter.cpp\<close>,
  \<^verbatim>\<open>recognition_stream_session.cpp\<close>): the window of frames, cooldowns, and the reachable states of a session.

  \<^bold>\<open>C interface.\<close> \<open>Wire_Format\<close>, \<open>Result_Buffer\<close> (\<^verbatim>\<open>c_api/result_buffer.cpp\<close>): the serialization and an independent reader of its bytes. \<open>C_Api\<close>
  (\<^verbatim>\<open>c_api/fac_lpr_engine_c_api.cpp\<close>): handles, error boundary, recognition; \<open>api_step\<close> is any call by any thread.

  \<^bold>\<open>Infrastructure.\<close> \<open>Native_Image\<close>, \<open>Crop_Hypotheses\<close> (\<^verbatim>\<open>native_image/\<close>, \<^verbatim>\<open>crop/\<close>): sampling, quality, crops. \<open>Yolo_Preprocessor\<close>, \<open>Yolo_Parser\<close>,
  \<open>Yolo_Detector\<close> (\<^verbatim>\<open>yolo/\<close>): letterbox, output tensor, the detector with its workspace. \<open>Ctc_Decoder\<close>, \<open>Beam_Search\<close>, \<open>Lprnet_Input\<close>, \<open>Lprnet_Adapter\<close>
  (\<^verbatim>\<open>lprnet/\<close>): greedy and constrained decoding, the input tensor and the model adapter. \<open>Execution_Provider\<close>, \<open>Onnx_Session\<close>, \<open>Onnx_Ocr\<close> (\<^verbatim>\<open>onnx/\<close>): backend choice,
  sessions within the tensor budget (locale \<open>inference_session\<close>), the recognizer over any adapter (locale \<open>ocr_adapter\<close>, interpreted by the LPRNet adapter).
  \<open>Adaptive_Tiles\<close> (\<^verbatim>\<open>adaptive/\<close>), \<open>Plate_Geometry\<close> (\<^verbatim>\<open>geometry/\<close>), \<open>Sha256\<close> (\<^verbatim>\<open>crypto/sha256.cpp\<close>), \<open>Model_Lifecycle\<close>, \<open>Model_Slot\<close> (\<^verbatim>\<open>model/\<close>):
  tiling and merging, geometry scores, the digest against the standard, activation of verified models, reloads under a mutex. \<open>Worker_Pool\<close> (\<^verbatim>\<open>concurrency/\<close>):
  the pool as a transition system of critical sections. \<open>Paddle_Ocr\<close> (\<^verbatim>\<open>paddle/\<close>): the recognizer over an external worker and its cache of results
  (locale \<open>evidence_cache\<close>, interpreted on the cache of the code), which is a least-recently-used cache.

  \<^bold>\<open>What the lemmas show.\<close> Each theory first brings its operations into a closed form (\<open>..._eq\<close>), then states what the constructors establish (\<open>make_...\<close>), the
  invariant of its state, the operations on every branch, and last its properties, numbered C1, C2, and so on, each with a witness at a concrete input. This theory holds the
  properties of fusion and decision together.

  \<^bold>\<open>Parameters.\<close> \<open>std::exp\<close>, \<open>std::hypot\<close> and \<open>std::atan2\<close>, the allocator, the ONNX runtime, the file system, detectors and recognizers are arguments of the
  definitions and may answer anything, unless a theorem names what it needs of them. The world gives a time at every instant; where an order of times is needed the theorem says so.

  \<^bold>\<open>Bounds.\<close> Machine integers are words of their width, or integers with the wrap-around written out. Sizes of buffers are below \<open>2 ^ 64\<close> where a
  theorem needs that a container exists. Durations and time points are 64-bit nanoseconds in the temporal window, where an overflow, undefined in C++, wraps. There is no
  fuel: every loop is structural or a \<open>function\<close> with a measure, but for \<open>find_root\<close>, which is partial and returns on every well-formed forest.

  \<^bold>\<open>Not modelled.\<close> The OpenCV enhancers and aligners, the calibration curves, the JSON readers, logging, the builder, the self tests and the tools: they call libraries
  that are not part of the sources, or have no state of their own. Threads are modelled where the code synchronises (worker pool, model slot, C interface) by the order of their critical
  sections; weaker memory orders are not.
\<close>

section \<open>Fusion and decision together\<close>

lemma fuse_distinct:
  "fusion_config_ok cfg \<Longrightarrow> distinct (map cand_text (fuse cfg evidence layout))"
  using fused_ranking_distinct [of cfg evidence layout] unfolding fuse_eq
  by (simp add: take_map [symmetric] distinct_take)

definition clear_crops :: "RecognitionEvidence list" where
  "clear_crops = [crop_reading ''a'' ''34ABG12'' \<lparr>ev_crop_quality := Fin 1\<rparr>, crop_reading ''b'' ''34A8C12'' \<lparr>ev_crop_quality := Fin 1\<rparr>]"

lemma clear_crops_accepted:
  "\<exists>r. decide default_decision_config clear_detection clear_crops
        (fuse default_fusion_config clear_crops []) clear_context = Inr r \<and>
     res_status r = Accepted \<and> res_plate r = ''34ABC12''"
proof -
  have "map_sum (\<lambda>_. ()) (\<lambda>r. (res_status r, res_plate r))
    (decide default_decision_config clear_detection clear_crops
        (fuse default_fusion_config clear_crops []) clear_context) = Inr (Accepted, ''34ABC12'')"
    by code_simp
  then show ?thesis by (auto dest!: map_sum_Inr_obtain)
qed

lemma clear_crops_rival:
  "\<exists>d \<in> set (fuse default_fusion_config clear_crops []). cand_format_valid d \<and> cand_text d = ''34ABG12''"
  by code_simp

text \<open>
  The candidates of the fusion never make the decision policy throw: for a fusion and a policy
  built by their constructors, the decision fails only when a crop quality of the evidence is
  outside \<open>[0,1]\<close>.
\<close>

theorem fused_decision_throws_only_on_crop_quality:
  assumes "make_candidate_fusion fusion_config = Inr fc" and "list_all (\<lambda>e. is_prob (ev_crop_quality e)) evidence"
  shows "\<exists>r. decide cfg det evidence (fuse fc evidence layout) ctx = Inr r"
  using assms fuse_candidate_ok by (simp add: decide_eq make_candidate_fusion_ok Let_def)

theorem fused_decision_throws_only_on_crop_quality_witness:
  "\<exists>r. decide default_decision_config clear_detection two_crops
     (fuse default_fusion_config two_crops []) clear_context = Inr r"
  by (rule fused_decision_throws_only_on_crop_quality [OF default_fusion])
     (simp add: two_crops_def crop_reading_def is_prob_def)

text \<open>
  C1: an ACCEPTED plate has no strong competitor: every other format-valid candidate that the
  fusion reports stays below the strong-conflict threshold of the policy.
\<close>

theorem accepted_plate_has_no_rival:
  assumes "make_candidate_fusion fusion_config = Inr fc" and "make_decision_policy config = Inr cfg"
    and "decide cfg det evidence (fuse fc evidence layout) ctx = Inr r" and "res_status r = Accepted"
    and "d \<in> set (fuse fc evidence layout)" and "cand_format_valid d" and "cand_text d \<noteq> res_plate r"
  shows "flt (effective_value d) (strong_conflict_threshold cfg)"
proof (rule accepted_no_rival [OF assms(2) _ assms(3-6) _ assms(7)])
  from assms(1) have ok: "fusion_config_ok fc" by (simp add: make_candidate_fusion_ok)
  then show "distinct (map cand_text (fuse fc evidence layout))" by (rule fuse_distinct)
  have "d \<in> fused_candidate ` set (aggregate fc evidence layout)"
    using assms(5) in_set_takeD fused_ranking_set unfolding fuse_eq by metis
  then show "cand_text d \<noteq> []" using fused_entry(1) [OF ok] offered_nonempty by force
qed

theorem accepted_plate_has_no_rival_witness:
  "\<exists>r. \<exists>d \<in> set (fuse default_fusion_config clear_crops []).
     decide default_decision_config clear_detection clear_crops
        (fuse default_fusion_config clear_crops []) clear_context = Inr r \<and> res_plate r = ''34ABC12'' \<and>
     cand_text d = ''34ABG12'' \<and>
     flt (effective_value d) (strong_conflict_threshold default_decision_config)"
proof -
  obtain r where r: "decide default_decision_config clear_detection clear_crops
        (fuse default_fusion_config clear_crops []) clear_context = Inr r"
    and a: "res_status r = Accepted" "res_plate r = ''34ABC12''"
    using clear_crops_accepted by auto
  obtain d where d: "d \<in> set (fuse default_fusion_config clear_crops [])" "cand_format_valid d" "cand_text d = ''34ABG12''"
    using clear_crops_rival by auto
  with accepted_plate_has_no_rival [OF default_fusion default_policy r a(1) d(1,2)] r a(2)
  show ?thesis by auto
qed

end
